(* ===== verification/Prelude.thy ===== *)
theory Prelude
  imports Main "HOL-Library.Word" "HOL-Library.Monad_Syntax"
begin

text \<open>
  What the components share: the return codes of \<^verbatim>\<open>tcm.h\<close>, the fixed-width types of
  \<^verbatim>\<open>os_defs.h\<close>, C strings in fixed-size buffers, the run type of a C function, and the
  generic lemmas and collections the component proofs use.
\<close>

section \<open>Types and return codes\<close>

type_synonym UINT32 = "32 word"

text \<open>
  A C function is a partial function of its state: \<open>None\<close> stands for a run with no
  defined result, that is a read or write outside an object, a dereference of \<^verbatim>\<open>NULL\<close>,
  a wait that nobody ends or a loop that never ends. Error codes are ordinary values.
\<close>

type_synonym 'a run = "'a option"

datatype tcmRet =
    TCMRET_SUCCESS
  | TCMRET_FAILURE
  | TCMRET_RESOURCE_EXCEEDED
  | TCMRET_INVALID_PARAMETER
  | TCMRET_INTERNAL_ERROR
  | TCMRET_DISCONNECTED
  | TCMRET_TIMED_OUT
  | TCMRET_SUCCESS_REBOOT_REQUIRED
  | TCMRET_INVALID_ARGUMENTS
  | TCMRET_SUCCESS_UNRECOGNIZED_DATA_IGNORED
  | TCMRET_NO_MORE_INSTANCES
  | TCMRET_INVALID_IMAGE
  | TCMRET_INVALID_PARAM_VALUE
  | TCMRET_OBJECT_NOT_FOUND
  | TCMRET_CONFLIB_READ_ERROR
  | TCMRET_WRITE_FLASH_ERROR
  | TCMRET_CONFLIB_PARAMETER_INVALID
  | TCMRET_CONFLIB_WRITE_ERROR
  | TCMRET_INVALID_DUPLICATE
  | TCMRET_INVALID_EXIST
  | TCMRET_INVALID_SAME
  | TCMRET_REACH_MAX_NUM

section \<open>Collections\<close>

named_theorems run_simps \<open>rewriting of runs whose steps all succeed\<close>
named_theorems frame_simps \<open>what an update leaves unchanged\<close>
named_theorems inv_intros \<open>preservation of an invariant\<close>

lemma bind_Some_iff [run_simps]:
  "Option.bind r f = Some y \<longleftrightarrow> (\<exists>x. r = Some x \<and> f x = Some y)"
  by (cases r) auto

section \<open>Lists\<close>

lemma nth_update_other [frame_simps]: "i \<noteq> j \<Longrightarrow> xs[i := x] ! j = xs ! j"
  by simp

lemma list_update_twice [simp]: "xs[i := x, i := y] = xs[i := y]"
  by simp

lemma map_eqI:
  assumes "\<And>k v. f k = Some v \<longleftrightarrow> g k = Some v"
  shows "f = g"
proof (rule ext, rule option.expand)
  fix k
  show "f k = None \<longleftrightarrow> g k = None"
    using assms[of k] by (metis option.exhaust_sel option.distinct(1))
  show "the (f k) = the (g k)" if "f k \<noteq> None" "g k \<noteq> None"
    using that assms[of k] by (metis option.collapse)
qed

section \<open>C strings in fixed-size buffers\<close>

text \<open>
  A \<^verbatim>\<open>char[n]\<close> is a list of \<open>n\<close> characters; the string in it ends before the first
  NUL. \<open>strncpy\<close> writes exactly \<open>n\<close> characters of the destination: the source string cut at
  \<open>n\<close>, padded with NULs. A destination shorter than \<open>n\<close> has no defined result.
\<close>

type_synonym buf = "char list"

abbreviation NUL :: char where
  "NUL \<equiv> CHR 0x00"

definition cstr :: "buf \<Rightarrow> string" where
  "cstr b = takeWhile (\<lambda>c. c \<noteq> NUL) b"

definition terminated :: "buf \<Rightarrow> bool" where
  "terminated b \<longleftrightarrow> NUL \<in> set b"

definition pad :: "nat \<Rightarrow> string \<Rightarrow> buf" where
  "pad n s = take n s @ replicate (n - length s) NUL"

definition strncpy :: "buf \<Rightarrow> string \<Rightarrow> nat \<Rightarrow> buf run" where
  "strncpy dst src n =
     (if n \<le> length dst then Some (pad n src @ drop n dst) else None)"

lemma length_pad [simp]: "length (pad n s) = n"
  by (simp add: pad_def)

lemma strncpy_length: "strncpy dst src n = Some b \<Longrightarrow> length b = length dst"
  by (auto simp: strncpy_def split: if_splits)

lemma cstr_no_NUL: "NUL \<notin> set (cstr b)"
  by (auto simp: cstr_def dest: set_takeWhileD)

lemma cstr_ident: "NUL \<notin> set s \<Longrightarrow> cstr s = s"
  unfolding cstr_def takeWhile_eq_all_conv by metis

lemma cstr_NUL_append [simp]: "NUL \<notin> set s \<Longrightarrow> cstr (s @ NUL # t) = s"
  by (induction s) (auto simp: cstr_def)

lemma cstr_append: "NUL \<notin> set s \<Longrightarrow> cstr (s @ t) = s @ cstr t"
  by (induction s) (auto simp: cstr_def)

lemma cstr_pad_append:
  assumes "NUL \<notin> set s"
  shows "cstr (pad n s @ t) = (if length s < n then s else take n s @ cstr t)"
proof -
  have no: "NUL \<notin> set (take n s)" using assms by (meson in_set_takeD)
  show ?thesis
  proof (cases "length s < n")
    case True
    then obtain k where "n - length s = Suc k" by (metis Suc_diff_Suc)
    with True assms show ?thesis by (simp add: pad_def)
  next
    case False
    with no show ?thesis by (simp add: pad_def cstr_append)
  qed
qed

lemma length_cstr_terminated: "terminated b \<longleftrightarrow> length (cstr b) < length b"
proof
  assume "terminated b"
  then have "takeWhile (\<lambda>c. c \<noteq> NUL) b \<noteq> b"
    by (auto simp: terminated_def takeWhile_eq_all_conv)
  then show "length (cstr b) < length b"
    unfolding cstr_def by (metis length_takeWhile_le linorder_not_le order_antisym take_all
        takeWhile_eq_take)
next
  assume "length (cstr b) < length b"
  then show "terminated b"
    by (metis cstr_ident less_irrefl terminated_def)
qed

end
