(* ===== verification/Timestamp.thy ===== *)
theory Timestamp
  imports Prelude
begin

text \<open>
  \<^verbatim>\<open>liboal/liboal/timestamp.c\<close>: monotonic timestamps of two unsigned 32-bit fields, their
  difference across a roll-over of either field, and the difference in milliseconds.
  Reading the clock is an argument of the operations that use it.
\<close>

section \<open>The timestamp structure\<close>

datatype tcmTimestamp = Tms (sec: UINT32) (nsec: UINT32)

definition NSECS_IN_SEC :: UINT32 where "NSECS_IN_SEC = 1000000000"
definition NSECS_IN_MSEC :: UINT32 where "NSECS_IN_MSEC = 1000000"
definition MSECS_IN_SEC :: UINT32 where "MSECS_IN_SEC = 1000"
definition MAX_UINT32 :: UINT32 where "MAX_UINT32 = 4294967295"

section \<open>Operations\<close>

definition tcmTms_delta :: "tcmTimestamp \<Rightarrow> tcmTimestamp \<Rightarrow> tcmTimestamp" where
  "tcmTms_delta newTms oldTms =
     (if sec newTms \<ge> sec oldTms then
        (if nsec newTms \<ge> nsec oldTms then
           Tms (sec newTms - sec oldTms) (nsec newTms - nsec oldTms)
         else
           Tms (sec newTms - sec oldTms - 1) ((NSECS_IN_SEC - nsec oldTms) + nsec newTms))
      else
        (if nsec newTms \<ge> nsec oldTms then
           Tms ((MAX_UINT32 - sec oldTms) + sec newTms + 1) (nsec newTms - nsec oldTms)
         else
           Tms ((MAX_UINT32 - sec oldTms) + sec newTms)
               ((NSECS_IN_SEC - nsec oldTms) + nsec newTms)))"

definition tcmTms_deltaInMilliSeconds :: "tcmTimestamp \<Rightarrow> tcmTimestamp \<Rightarrow> UINT32" where
  "tcmTms_deltaInMilliSeconds newTms oldTms =
     (let d = tcmTms_delta newTms oldTms in
      if sec d > MAX_UINT32 div MSECS_IN_SEC then MAX_UINT32
      else let ms = sec d * MSECS_IN_SEC in
        if (MAX_UINT32 - ms) < (nsec d div NSECS_IN_MSEC) then MAX_UINT32
        else ms + nsec d div NSECS_IN_MSEC)"

definition tcmTms_addMilliSeconds :: "tcmTimestamp \<Rightarrow> UINT32 \<Rightarrow> tcmTimestamp" where
  "tcmTms_addMilliSeconds tms ms =
     (let addSeconds = ms div MSECS_IN_SEC;
          addNano = (ms mod MSECS_IN_SEC) * NSECS_IN_MSEC;
          s = sec tms + addSeconds;
          n = nsec tms + addNano
      in if n > NSECS_IN_SEC then Tms (s + 1) (n - NSECS_IN_SEC) else Tms s n)"

text \<open>The macro \<open>IS_EARLIER_THAN\<close> of \<^verbatim>\<open>timer.c\<close> is the order on timestamps.\<close>

definition IS_EARLIER_THAN :: "tcmTimestamp \<Rightarrow> tcmTimestamp \<Rightarrow> bool" where
  "IS_EARLIER_THAN a b \<longleftrightarrow> sec a < sec b \<or> (sec a = sec b \<and> nsec a < nsec b)"

instantiation tcmTimestamp :: linorder
begin

definition less_tcmTimestamp :: "tcmTimestamp \<Rightarrow> tcmTimestamp \<Rightarrow> bool" where
  "less_tcmTimestamp a b \<longleftrightarrow> IS_EARLIER_THAN a b"

definition less_eq_tcmTimestamp :: "tcmTimestamp \<Rightarrow> tcmTimestamp \<Rightarrow> bool" where
  "less_eq_tcmTimestamp a b \<longleftrightarrow> \<not> IS_EARLIER_THAN b a"

instance
proof
  fix x y z :: tcmTimestamp
  show "x < y \<longleftrightarrow> x \<le> y \<and> \<not> y \<le> x"
    by (auto simp: less_tcmTimestamp_def less_eq_tcmTimestamp_def IS_EARLIER_THAN_def)
  show "x \<le> x"
    by (simp add: less_eq_tcmTimestamp_def IS_EARLIER_THAN_def)
  show "x \<le> y \<Longrightarrow> y \<le> z \<Longrightarrow> x \<le> z"
    by (auto simp: less_eq_tcmTimestamp_def IS_EARLIER_THAN_def)
  show "x \<le> y \<Longrightarrow> y \<le> x \<Longrightarrow> x = y"
    by (cases x; cases y) (auto simp: less_eq_tcmTimestamp_def IS_EARLIER_THAN_def)
  show "x \<le> y \<or> y \<le> x"
    by (auto simp: less_eq_tcmTimestamp_def IS_EARLIER_THAN_def)
qed

end

section \<open>What they compute\<close>

text \<open>Nanoseconds since the clock's origin, as a number without wrap-around.\<close>

definition total_ns :: "tcmTimestamp \<Rightarrow> int" where
  "total_ns t = uint (sec t) * 1000000000 + uint (nsec t)"

definition normalised :: "tcmTimestamp \<Rightarrow> bool" where
  "normalised t \<longleftrightarrow> nsec t < NSECS_IN_SEC"

lemmas tms_consts = NSECS_IN_SEC_def NSECS_IN_MSEC_def MSECS_IN_SEC_def MAX_UINT32_def

lemma uint_bounds: "0 \<le> uint (x::UINT32)" "uint (x::UINT32) < 4294967296"
  using uint_lt2p[of x] by auto

lemma uint_minus_ge: "y \<le> x \<Longrightarrow> uint (x - y :: UINT32) = uint x - uint y"
  by (simp add: uint_sub_lem word_le_def)

lemma uint_plus_small: "uint x + uint (y::UINT32) < 4294967296 \<Longrightarrow> uint (x + y) = uint x + uint y"
  using uint_plus_simple_iff[of x y] uint_add_lem[of x y] by simp

lemma uint_arith_wrap:
  "uint (x + y :: UINT32) = (uint x + uint y) mod 4294967296"
  "uint (x - y :: UINT32) = (uint x - uint y) mod 4294967296"
  by (simp_all add: uint_word_ariths)

lemma sec_nsec_cases: "uint (nsec t) < 1000000000 \<longleftrightarrow> normalised t"
  by (simp add: normalised_def word_less_def NSECS_IN_SEC_def)

lemma max_minus_one: "MAX_UINT32 = (- 1 :: UINT32)"
  by (simp add: MAX_UINT32_def)

text \<open>The four branches of the difference are two: with and without a borrow of a second.\<close>

lemma tcmTms_delta_borrow:
  "tcmTms_delta n old =
     (if nsec old \<le> nsec n then Tms (sec n - sec old) (nsec n - nsec old)
      else Tms (sec n - sec old - 1) (NSECS_IN_SEC - nsec old + nsec n))"
  by (simp add: tcmTms_delta_def max_minus_one algebra_simps)

lemma uint_nsec_borrow:
  assumes "uint (x::UINT32) < 1000000000" and "uint y < 1000000000" and "x < y"
  shows "uint (NSECS_IN_SEC - y + x) = 1000000000 - uint y + uint x"
proof -
  have "uint (NSECS_IN_SEC - y) = 1000000000 - uint y"
    using assms by (subst uint_minus_ge) (simp_all add: word_le_def NSECS_IN_SEC_def)
  then show ?thesis
    using assms uint_bounds by (subst uint_plus_small) (auto simp: word_less_def)
qed

lemma delta_modular:
  assumes "normalised n" and "normalised old"
  shows "normalised (tcmTms_delta n old) \<and>
    total_ns (tcmTms_delta n old) = (total_ns n - total_ns old) mod (4294967296 * 1000000000)"
proof -
  have n: "uint (nsec n) < 1000000000" and o: "uint (nsec old) < 1000000000"
    using assms by (simp_all add: sec_nsec_cases)
  have split: "(k * 1000000000 + r) mod (4294967296 * 1000000000)
      = (k mod 4294967296) * 1000000000 + r" if "0 \<le> r" "r < 1000000000" for k r :: int
    using that zmod_zmult2_eq[of 4294967296 "k * 1000000000 + r" 1000000000]
    by (simp add: mult.commute)
  show ?thesis
  proof (cases "nsec old \<le> nsec n")
    case True
    then have e: "uint (nsec n - nsec old) = uint (nsec n) - uint (nsec old)"
      by (rule uint_minus_ge)
    have d: "uint (sec n - sec old) = (uint (sec n) - uint (sec old)) mod 4294967296"
      by (rule uint_arith_wrap)
    have le: "uint (nsec old) \<le> uint (nsec n)" using True by (simp add: word_le_def)
    have lt: "uint (nsec n) - uint (nsec old) < 1000000000"
      using n uint_bounds(1)[of "nsec old"] by linarith
    show ?thesis
      using True e d lt split[of "uint (nsec n) - uint (nsec old)" "uint (sec n) - uint (sec old)"] le
      by (simp add: tcmTms_delta_borrow total_ns_def sec_nsec_cases[symmetric] algebra_simps)
  next
    case False
    then have e: "uint (NSECS_IN_SEC - nsec old + nsec n) = 1000000000 - uint (nsec old) + uint (nsec n)"
      using n o by (intro uint_nsec_borrow) auto
    have d: "uint (sec n - sec old - 1) = (uint (sec n) - uint (sec old) - 1) mod 4294967296"
      by (simp add: uint_arith_wrap mod_simps)
    have lt: "1000000000 - uint (nsec old) + uint (nsec n) < 1000000000"
      using False by (simp add: word_le_def)
    have ge: "0 \<le> 1000000000 - uint (nsec old) + uint (nsec n)"
      using o uint_bounds(1)[of "nsec n"] by linarith
    show ?thesis
      using False e d lt ge
        split[of "1000000000 - uint (nsec old) + uint (nsec n)" "uint (sec n) - uint (sec old) - 1"]
      by (simp add: tcmTms_delta_borrow total_ns_def sec_nsec_cases[symmetric] algebra_simps)
  qed
qed

text \<open>The difference of two normalised timestamps is normalised, and it is the exact
  difference in nanoseconds modulo the 2^32 seconds the clock can count: every roll-over of
  the second field and every borrow from it gives the time that really passed.\<close>

theorem tcmTms_delta_modular:
  assumes "normalised n" and "normalised old"
  shows "normalised (tcmTms_delta n old) \<and>
    total_ns (tcmTms_delta n old) = (total_ns n - total_ns old) mod (4294967296 * 1000000000)"
  by (rule delta_modular[OF assms])

theorem tcmTms_delta_modular_witness:
  "normalised (tcmTms_delta (Tms 1 5) (Tms 4294967295 7)) \<and>
    total_ns (tcmTms_delta (Tms 1 5) (Tms 4294967295 7)) = 1999999998"
  using tcmTms_delta_modular[of "Tms 1 5" "Tms 4294967295 7"]
  by (simp add: normalised_def total_ns_def NSECS_IN_SEC_def)

lemma deltaInMilliSeconds_value:
  "uint (tcmTms_deltaInMilliSeconds n old) = min 4294967295
     (uint (sec (tcmTms_delta n old)) * 1000 + uint (nsec (tcmTms_delta n old)) div 1000000)"
proof -
  define s k where "s = sec (tcmTms_delta n old)" and "k = nsec (tcmTms_delta n old) div NSECS_IN_MSEC"
  have k: "uint k = uint (nsec (tcmTms_delta n old)) div 1000000"
    by (simp add: k_def uint_div NSECS_IN_MSEC_def)
  have c: "uint (MAX_UINT32 div MSECS_IN_SEC) = 4294967"
    by (simp add: uint_div MAX_UINT32_def MSECS_IN_SEC_def)
  show ?thesis
  proof (cases "s > MAX_UINT32 div MSECS_IN_SEC")
    case True
    then have "4294967 < uint s" by (simp add: word_less_def c)
    then have "min 4294967295 (uint s * 1000 + uint k) = 4294967295"
      using uint_bounds(1)[of k] by linarith
    then show ?thesis using True
      by (simp add: tcmTms_deltaInMilliSeconds_def Let_def s_def[symmetric] k[symmetric]) (simp add: MAX_UINT32_def)
  next
    case False
    then have le: "uint s \<le> 4294967" by (simp add: word_less_def c)
    then have m: "uint (s * MSECS_IN_SEC) = uint s * 1000"
      by (simp add: uint_word_ariths MSECS_IN_SEC_def uint_bounds)
    have r: "uint (MAX_UINT32 - s * MSECS_IN_SEC) = 4294967295 - uint s * 1000"
      using le by (subst uint_minus_ge) (simp_all add: word_le_def m, simp_all add: MAX_UINT32_def)
    show ?thesis
    proof (cases "MAX_UINT32 - s * MSECS_IN_SEC < k")
      case True
      then have "4294967295 - uint s * 1000 < uint k" by (simp add: word_less_def r)
      with False True show ?thesis
        by (simp add: tcmTms_deltaInMilliSeconds_def Let_def s_def[symmetric] k_def[symmetric] k[symmetric])
          (simp add: MAX_UINT32_def)
    next
      case F: False
      then have "uint k \<le> 4294967295 - uint s * 1000" by (simp add: word_less_def r)
      then have "uint (s * MSECS_IN_SEC + k) = uint s * 1000 + uint k" "uint s * 1000 + uint k \<le> 4294967295"
        by (simp_all add: uint_plus_small m)
      with False F show ?thesis
        by (simp add: tcmTms_deltaInMilliSeconds_def Let_def s_def[symmetric] k_def[symmetric] k[symmetric])
    qed
  qed
qed

text \<open>The difference in milliseconds never wraps: it is the difference of the two
  timestamps cut to whole milliseconds, and the largest 32-bit value where that does not fit.\<close>

theorem tcmTms_deltaInMilliSeconds_saturates:
  "uint (tcmTms_deltaInMilliSeconds n old) = min 4294967295
     (uint (sec (tcmTms_delta n old)) * 1000 + uint (nsec (tcmTms_delta n old)) div 1000000)"
  by (rule deltaInMilliSeconds_value)

lemma uint_addNano:
  "uint ((ms mod MSECS_IN_SEC) * NSECS_IN_MSEC) = (uint ms mod 1000) * 1000000"
proof -
  have "uint (ms mod MSECS_IN_SEC) = uint ms mod 1000"
    by (simp add: uint_mod MSECS_IN_SEC_def)
  moreover have "uint ms mod 1000 < 1000" by simp
  ultimately show ?thesis
    by (simp add: uint_word_ariths NSECS_IN_MSEC_def)
qed

lemma uint_addSeconds: "uint (ms div MSECS_IN_SEC) = uint ms div 1000"
  by (simp add: uint_div MSECS_IN_SEC_def)

text \<open>Adding milliseconds to a normalised timestamp moves it by exactly that time as long
  as the seconds do not overflow; the nanosecond field stays at most, and can be equal to, a
  full second, because the carry test is strict.\<close>

theorem tcmTms_addMilliSeconds_exact:
  assumes "normalised t" and "uint (sec t) + uint ms div 1000 < 4294967295"
  shows "total_ns (tcmTms_addMilliSeconds t ms) = total_ns t + uint ms * 1000000
    \<and> nsec (tcmTms_addMilliSeconds t ms) \<le> NSECS_IN_SEC"
proof -
  define s n where "s = sec t + ms div MSECS_IN_SEC"
    and "n = nsec t + (ms mod MSECS_IN_SEC) * NSECS_IN_MSEC"
  have b: "uint (nsec t) < 1000000000" using assms(1) by (simp add: sec_nsec_cases)
  have m: "uint ms = 1000 * (uint ms div 1000) + uint ms mod 1000" by simp
  have r: "0 \<le> uint ms mod 1000" "uint ms mod 1000 < 1000" by simp_all
  have n: "uint n = uint (nsec t) + (uint ms mod 1000) * 1000000"
    unfolding n_def using b r by (subst uint_plus_small) (simp_all add: uint_addNano)
  have s: "uint s = uint (sec t) + uint ms div 1000"
    unfolding s_def using assms(2) by (subst uint_plus_small) (simp_all add: uint_addSeconds)
  have s1: "uint (s + 1) = uint s + 1"
    using assms(2) s by (subst uint_plus_small) simp_all
  show ?thesis
  proof (cases "n > NSECS_IN_SEC")
    case True
    then have "uint (n - NSECS_IN_SEC) = uint n - 1000000000" "1000000000 < uint n"
      by (simp_all add: uint_minus_ge less_imp_le word_less_def NSECS_IN_SEC_def)
    then have "total_ns (tcmTms_addMilliSeconds t ms) = total_ns t + uint ms * 1000000"
      using True n s s1
      by (simp add: tcmTms_addMilliSeconds_def Let_def s_def[symmetric] n_def[symmetric] total_ns_def)
        (use m in linarith)
    moreover have "uint (n - NSECS_IN_SEC) \<le> 1000000000"
      using \<open>uint (n - NSECS_IN_SEC) = uint n - 1000000000\<close> b r n by linarith
    ultimately show ?thesis using True
      by (simp add: tcmTms_addMilliSeconds_def Let_def s_def[symmetric] n_def[symmetric]
          word_le_def NSECS_IN_SEC_def)
  next
    case False
    then have "total_ns (tcmTms_addMilliSeconds t ms) = total_ns t + uint ms * 1000000"
      using n s
      by (simp add: tcmTms_addMilliSeconds_def Let_def s_def[symmetric] n_def[symmetric] total_ns_def)
        (use m in linarith)
    with False show ?thesis
      by (simp add: tcmTms_addMilliSeconds_def Let_def s_def[symmetric] n_def[symmetric])
  qed
qed

theorem tcmTms_addMilliSeconds_exact_witness:
  "total_ns (tcmTms_addMilliSeconds (Tms 7 999000000) 1) = 8000000000 \<and>
   nsec (tcmTms_addMilliSeconds (Tms 7 999000000) 1) \<le> NSECS_IN_SEC \<and>
   \<not> normalised (tcmTms_addMilliSeconds (Tms 7 999000000) 1)"
  using tcmTms_addMilliSeconds_exact[of "Tms 7 999000000" 1]
  by (simp add: normalised_def total_ns_def tms_consts tcmTms_addMilliSeconds_def)

end
