(* ===== verification/Timer_Queue.thy ===== *)
theory Timer_Queue
  imports Timestamp "HOL-Library.Multiset"
begin

text \<open>
  The event timers of \<^verbatim>\<open>liboal/timer.c\<close>: a queue of events ordered by expiry time. Events are kept
  in a singly linked list, here a list; handlers and contexts are pointers, here numbers that are
  only compared. The clock (\<open>now\<close>) and the outcome of an allocation are arguments.
\<close>

section \<open>Data\<close>

definition TCM_EVENT_TIMER_NAME_LENGTH :: nat where "TCM_EVENT_TIMER_NAME_LENGTH = 32"

record tcmTimerEvent =
  expireTms :: tcmTimestamp
  func :: nat
  ctxData :: nat
  ev_name :: string

record tcmTimerHandle =
  events :: "tcmTimerEvent list"
  numEvents :: UINT32

definition tcmTmr_init :: "bool \<Rightarrow> tcmRet \<times> tcmTimerHandle option" where
  "tcmTmr_init alloc =
     (if alloc then (TCMRET_SUCCESS, Some \<lparr>events = [], numEvents = 0\<rparr>) else (TCMRET_RESOURCE_EXCEEDED, None))"

definition same_event :: "nat \<Rightarrow> nat \<Rightarrow> tcmTimerEvent \<Rightarrow> bool" where
  "same_event f c e \<longleftrightarrow> func e = f \<and> ctxData e = c"

fun event_found :: "nat \<Rightarrow> nat \<Rightarrow> tcmTimerEvent list \<Rightarrow> bool" where
  "event_found f c [] \<longleftrightarrow> False"
| "event_found f c (e # es) \<longleftrightarrow> same_event f c e \<or> event_found f c es"

definition tcmTmr_isEventPresent :: "tcmTimerHandle \<Rightarrow> nat \<Rightarrow> nat \<Rightarrow> bool" where
  "tcmTmr_isEventPresent h f c = event_found f c (events h)"

section \<open>Setting a timer\<close>

text \<open>The two ways into the list: in front of the head, or behind the node \<^verbatim>\<open>prevEvent\<close>.\<close>

fun insert_behind :: "tcmTimerEvent \<Rightarrow> tcmTimerEvent list \<Rightarrow> tcmTimerEvent list" where
  "insert_behind e (p # x # xs) =
     (if IS_EARLIER_THAN (expireTms e) (expireTms x) then p # e # x # xs else p # insert_behind e (x # xs))"
| "insert_behind e ps = ps @ [e]"

fun insert_event :: "tcmTimerEvent \<Rightarrow> tcmTimerEvent list \<Rightarrow> tcmTimerEvent list" where
  "insert_event e [] = [e]"
| "insert_event e (x # xs) =
     (if IS_EARLIER_THAN (expireTms e) (expireTms x) then e # x # xs else insert_behind e (x # xs))"

definition tcmTmr_set ::
    "bool \<Rightarrow> tcmTimestamp \<Rightarrow> tcmTimerHandle \<Rightarrow> nat \<Rightarrow> nat \<Rightarrow> UINT32 \<Rightarrow> string option \<Rightarrow> (tcmRet \<times> tcmTimerHandle) run" where
  "tcmTmr_set alloc now h f c ms nm =
     (if tcmTmr_isEventPresent h f c then Some (TCMRET_INVALID_ARGUMENTS, h)
      else if nm \<noteq> None \<and> TCM_EVENT_TIMER_NAME_LENGTH \<le> length (the nm) then Some (TCMRET_INVALID_ARGUMENTS, h)
      else if \<not> alloc then Some (TCMRET_RESOURCE_EXCEEDED, h)
      else
        let e = \<lparr>expireTms = tcmTms_addMilliSeconds now ms, func = f, ctxData = c,
                 ev_name = (case nm of None \<Rightarrow> [] | Some s \<Rightarrow> s)\<rparr> in
        if numEvents h = 0 then Some (TCMRET_SUCCESS, \<lparr>events = [e], numEvents = numEvents h + 1\<rparr>)
        else if events h = [] then None
        else Some (TCMRET_SUCCESS, \<lparr>events = insert_event e (events h), numEvents = numEvents h + 1\<rparr>))"

section \<open>Cancelling a timer\<close>

fun remove_behind :: "nat \<Rightarrow> nat \<Rightarrow> tcmTimerEvent list \<Rightarrow> tcmTimerEvent list option" where
  "remove_behind f c (p # x # xs) =
     (if same_event f c x then Some (p # xs) else map_option (Cons p) (remove_behind f c (x # xs)))"
| "remove_behind f c ps = None"

definition tcmTmr_cancel :: "tcmTimerHandle \<Rightarrow> nat \<Rightarrow> nat \<Rightarrow> tcmTimerHandle" where
  "tcmTmr_cancel h f c =
     (case events h of [] \<Rightarrow> h
      | e # es \<Rightarrow>
          if same_event f c e then \<lparr>events = es, numEvents = numEvents h - 1\<rparr>
          else (case remove_behind f c (e # es) of None \<Rightarrow> h
                | Some es' \<Rightarrow> \<lparr>events = es', numEvents = numEvents h - 1\<rparr>))"

section \<open>Time to the next event\<close>

definition time_to :: "tcmTimestamp \<Rightarrow> tcmTimerEvent \<Rightarrow> UINT32" where
  "time_to now e =
     (if IS_EARLIER_THAN (expireTms e) now then 0 else tcmTms_deltaInMilliSeconds (expireTms e) now)"

definition tcmTmr_getTimeToNextEvent :: "tcmTimestamp \<Rightarrow> tcmTimerHandle \<Rightarrow> tcmRet \<times> UINT32" where
  "tcmTmr_getTimeToNextEvent now h =
     (case events h of [] \<Rightarrow> (TCMRET_NO_MORE_INSTANCES, MAX_UINT32)
      | e # es \<Rightarrow> (TCMRET_SUCCESS, time_to now e))"

definition tcmTmr_getNumberOfEvents :: "tcmTimerHandle \<Rightarrow> UINT32" where
  "tcmTmr_getNumberOfEvents h = numEvents h"

section \<open>Executing expired events\<close>

text \<open>
  A handler runs on the state of its program and may use the timers again, so it gets and returns
  both; nothing bounds the loop when a handler keeps setting timers that have already expired.
\<close>

partial_function (option) tcmTmr_executeExpiredEvents ::
    "(nat \<Rightarrow> nat \<Rightarrow> 's \<times> tcmTimerHandle \<Rightarrow> ('s \<times> tcmTimerHandle) run) \<Rightarrow> tcmTimestamp \<Rightarrow>
       's \<times> tcmTimerHandle \<Rightarrow> ('s \<times> tcmTimerHandle) run" where
  "tcmTmr_executeExpiredEvents call now sh =
     (case events (snd sh) of [] \<Rightarrow> Some sh
      | e # es \<Rightarrow>
          if IS_EARLIER_THAN (expireTms e) now
          then Option.bind (call (func e) (ctxData e) (fst sh, \<lparr>events = es, numEvents = numEvents (snd sh) - 1\<rparr>))
                 (tcmTmr_executeExpiredEvents call now)
          else Some sh)"

text \<open>\<open>tcmTmr_dumpEvents\<close> computes the remaining time of every event (and prints nothing).\<close>

definition tcmTmr_dumpEvents :: "tcmTimestamp \<Rightarrow> tcmTimerHandle \<Rightarrow> UINT32 list" where
  "tcmTmr_dumpEvents now h = map (time_to now) (events h)"

section \<open>The invariant\<close>

abbreviation event_key :: "tcmTimerEvent \<Rightarrow> nat \<times> nat" where
  "event_key e \<equiv> (func e, ctxData e)"

definition wf_timers :: "tcmTimerHandle \<Rightarrow> bool" where
  "wf_timers h \<longleftrightarrow> sorted (map expireTms (events h)) \<and> distinct (map event_key (events h)) \<and>
     length (events h) < 4294967296 \<and> numEvents h = of_nat (length (events h))"

text \<open>Both ways of inserting are one insertion behind all events that do not expire later.\<close>

lemma earlier_less: "IS_EARLIER_THAN a b \<longleftrightarrow> a < b"
  by (simp add: less_tcmTimestamp_def)

lemma insert_behind_split:
  "insert_behind e (p # xs) = p # takeWhile (\<lambda>x. expireTms x \<le> expireTms e) xs @ e # dropWhile (\<lambda>x. expireTms x \<le> expireTms e) xs"
  by (induction xs arbitrary: p) (auto simp: earlier_less)

lemma insert_event_split:
  "insert_event e xs = takeWhile (\<lambda>x. expireTms x \<le> expireTms e) xs @ e # dropWhile (\<lambda>x. expireTms x \<le> expireTms e) xs"
  by (cases xs) (auto simp: insert_behind_split earlier_less)

lemma mset_insert_event: "mset (insert_event e xs) = add_mset e (mset xs)"
proof -
  have "mset xs = mset (takeWhile (\<lambda>x. expireTms x \<le> expireTms e) xs) + mset (dropWhile (\<lambda>x. expireTms x \<le> expireTms e) xs)"
    by (metis mset_append takeWhile_dropWhile_id)
  then show ?thesis by (simp add: insert_event_split)
qed

lemma sorted_halves:
  assumes "sorted (map g xs)"
  shows "sorted (map g (takeWhile P xs)) \<and> sorted (map g (dropWhile P xs)) \<and>
    (\<forall>a \<in> set (takeWhile P xs). \<forall>b \<in> set (dropWhile P xs). g a \<le> g b)"
proof -
  have "map g xs = map g (takeWhile P xs) @ map g (dropWhile P xs)"
    by (metis map_append takeWhile_dropWhile_id)
  with assms show ?thesis by (simp add: sorted_append)
qed

lemma dropWhile_later:
  assumes "sorted (map expireTms xs)" and "y \<in> set (dropWhile (\<lambda>x. expireTms x \<le> t) xs)"
  shows "t < expireTms y"
proof (cases "dropWhile (\<lambda>x. expireTms x \<le> t) xs")
  case (Cons z zs)
  then have "\<not> expireTms z \<le> t" by (metis hd_dropWhile list.distinct(1) list.sel(1))
  moreover have "sorted (map expireTms (z # zs))"
    using sorted_halves[OF assms(1), of "\<lambda>x. expireTms x \<le> t"] Cons by simp
  ultimately show ?thesis using assms(2) Cons by auto
next
  case Nil
  with assms(2) have False unfolding Nil by simp
  then show ?thesis ..
qed

lemma sorted_insert_event:
  assumes "sorted (map expireTms xs)"
  shows "sorted (map expireTms (insert_event e xs))"
  using sorted_halves[OF assms, of "\<lambda>x. expireTms x \<le> expireTms e"] dropWhile_later[OF assms, of _ "expireTms e"]
  by (auto simp: insert_event_split sorted_append less_imp_le dest: set_takeWhileD)

lemma length_insert_event [simp]: "length (insert_event e xs) = Suc (length xs)"
  by (metis mset_insert_event size_add_mset size_mset)

lemma event_found_iff: "event_found f c es \<longleftrightarrow> (f, c) \<in> event_key ` set es"
  by (induction es) (auto simp: same_event_def)

lemma remove_behind_None: "remove_behind f c (p # xs) = None \<longleftrightarrow> \<not> event_found f c xs"
  by (induction xs arbitrary: p) auto

lemma remove_behind_filter:
  "distinct (map event_key xs) \<Longrightarrow> remove_behind f c (p # xs) = Some ys \<Longrightarrow>
     ys = p # filter (\<lambda>x. \<not> same_event f c x) xs"
proof (induction xs arbitrary: p ys)
  case (Cons x xs)
  have "same_event f c x \<Longrightarrow> filter (\<lambda>x. \<not> same_event f c x) xs = xs"
    using Cons.prems(1) by (intro filter_True) (force simp: same_event_def image_iff)
  with Cons show ?case by (auto split: if_splits)
qed simp

lemma cancel_filter:
  assumes "wf_timers h"
  shows "events (tcmTmr_cancel h f c) = filter (\<lambda>x. \<not> same_event f c x) (events h)"
    and "wf_timers (tcmTmr_cancel h f c)"
proof -
  have d: "distinct (map event_key (events h))" using assms by (simp add: wf_timers_def)
  have wf: "wf_timers \<lparr>events = filter P (events h), numEvents = numEvents h - 1\<rparr>"
    if "Suc (length (filter P (events h))) = length (events h)" for P
  proof -
    have n: "numEvents h = of_nat (Suc (length (filter P (events h))))" using assms that by (simp add: wf_timers_def)
    then have "numEvents h - 1 = of_nat (length (filter P (events h)))" by simp
    moreover have "sorted (map expireTms (filter P (events h)))" "distinct (map event_key (filter P (events h)))"
      using assms by (simp_all add: wf_timers_def sorted_filter distinct_map_filter)
    ultimately show ?thesis using assms that by (simp add: wf_timers_def)
  qed
  have *: "events (tcmTmr_cancel h f c) = filter (\<lambda>x. \<not> same_event f c x) (events h) \<and> wf_timers (tcmTmr_cancel h f c)"
  proof (cases "events h")
    case Nil
    then show ?thesis using assms by (simp add: tcmTmr_cancel_def)
  next
    case (Cons e es)
    show ?thesis
    proof (cases "same_event f c e")
      case True
      with Cons d have "filter (\<lambda>x. \<not> same_event f c x) (events h) = es"
        by (simp, intro filter_True) (force simp: same_event_def image_iff)
      with True Cons wf[of "\<lambda>x. \<not> same_event f c x"] show ?thesis by (simp add: tcmTmr_cancel_def)
    next
      case False
      show ?thesis
      proof (cases "remove_behind f c (e # es)")
        case None
        then have "\<not> event_found f c es" by (simp add: remove_behind_None)
        then have "filter (\<lambda>x. \<not> same_event f c x) es = es"
          by (intro filter_True) (force simp: event_found_iff same_event_def image_iff)
        with None False Cons assms show ?thesis by (simp add: tcmTmr_cancel_def)
      next
        case (Some ys)
        have "distinct (map event_key es)" using d Cons by simp
        from remove_behind_filter[OF this Some] have ys: "ys = e # filter (\<lambda>x. \<not> same_event f c x) es" .
        have "event_found f c es" using Some remove_behind_None[of f c e es] by auto
        then obtain x where x: "x \<in> set es" "same_event f c x" by (auto simp: event_found_iff same_event_def)
        have "length (filter (same_event f c) es) = 1"
        proof -
          obtain a b where es: "es = a @ x # b" using x(1) by (meson split_list)
          then have "filter (same_event f c) a = []" "filter (same_event f c) b = []"
            using d Cons x(2) by (force simp: filter_empty_conv same_event_def image_iff)+
          then show ?thesis using es x(2) by simp
        qed
        then have "Suc (length (filter (\<lambda>x. \<not> same_event f c x) es)) = length es"
          using sum_length_filter_compl[of "same_event f c" es] by simp
        with False Some Cons ys wf[of "\<lambda>x. \<not> same_event f c x"] show ?thesis by (simp add: tcmTmr_cancel_def)
      qed
    qed
  qed
  then show "events (tcmTmr_cancel h f c) = filter (\<lambda>x. \<not> same_event f c x) (events h)"
    and "wf_timers (tcmTmr_cancel h f c)" by blast+
qed

lemma wf_timers_tl:
  assumes "events h = e # es" and "wf_timers h"
  shows "wf_timers \<lparr>events = es, numEvents = numEvents h - 1\<rparr>"
  using assms(2) unfolding wf_timers_def assms(1) by simp

lemma total_ns_mono:
  assumes "a \<le> b" and "normalised a"
  shows "total_ns a \<le> total_ns b"
proof (cases "sec a = sec b")
  case True
  with assms(1) show ?thesis by (simp add: less_eq_tcmTimestamp_def IS_EARLIER_THAN_def total_ns_def word_less_def)
next
  case False
  with assms(1) have "uint (sec a) < uint (sec b)"
    by (auto simp: less_eq_tcmTimestamp_def IS_EARLIER_THAN_def word_less_def word_uint_eq_iff)
  moreover have "uint (nsec a) < 1000000000" using assms(2) by (simp add: sec_nsec_cases)
  moreover have "0 \<le> uint (nsec b)" by simp
  ultimately show ?thesis unfolding total_ns_def by linarith
qed

section \<open>Properties\<close>

text \<open>C28. Setting a timer that is not set yet puts exactly one event into the queue, at its place
  in the order of expiry and behind the events that expire at the same time, and keeps the
  queue ordered, its keys different and its counter right; a timer that is set already is
  refused and the queue stays as it is.\<close>

theorem tcmTmr_set_inserts:
  assumes "wf_timers h" and "length (events h) + 1 < 4294967296"
    and "nm \<noteq> None \<longrightarrow> length (the nm) < TCM_EVENT_TIMER_NAME_LENGTH"
  shows "(tcmTmr_isEventPresent h f c \<longrightarrow> tcmTmr_set True now h f c ms nm = Some (TCMRET_INVALID_ARGUMENTS, h)) \<and>
    (\<not> tcmTmr_isEventPresent h f c \<longrightarrow> (\<exists>e h' xs ys. tcmTmr_set True now h f c ms nm = Some (TCMRET_SUCCESS, h') \<and>
       event_key e = (f, c) \<and> expireTms e = tcmTms_addMilliSeconds now ms \<and> wf_timers h' \<and>
       events h = xs @ ys \<and> events h' = xs @ e # ys \<and>
       (\<forall>x \<in> set xs. expireTms x \<le> expireTms e) \<and> (\<forall>y \<in> set ys. expireTms e < expireTms y)))"
proof (intro conjI impI)
  show "tcmTmr_set True now h f c ms nm = Some (TCMRET_INVALID_ARGUMENTS, h)" if "tcmTmr_isEventPresent h f c"
    using that by (simp add: tcmTmr_set_def)
  assume new: "\<not> tcmTmr_isEventPresent h f c"
  define e where "e = \<lparr>expireTms = tcmTms_addMilliSeconds now ms, func = f, ctxData = c,
                 ev_name = (case nm of None \<Rightarrow> [] | Some s \<Rightarrow> s)\<rparr>"
  let ?h = "\<lparr>events = insert_event e (events h), numEvents = numEvents h + 1\<rparr>"
  have n: "numEvents h = of_nat (length (events h))" "length (events h) < 4294967296" using assms(1) by (simp_all add: wf_timers_def)
  then have "numEvents h = 0 \<longleftrightarrow> events h = []"
    using of_nat_eq_0_iff word_of_nat_eq_0_iff[of "length (events h)", where ?'a = 32] by (auto dest: nat_dvd_not_less)
  then have set: "tcmTmr_set True now h f c ms nm = Some (TCMRET_SUCCESS, ?h)"
    using new assms(3) by (auto simp: tcmTmr_set_def e_def Let_def)
  have e: "event_key e = (f, c)" by (simp add: e_def)
  have "distinct (map event_key (insert_event e (events h)))"
  proof -
    have "mset (map event_key (insert_event e (events h))) = mset (map event_key (e # events h))"
      by (simp add: mset_insert_event)
    then have "distinct (map event_key (insert_event e (events h))) \<longleftrightarrow> distinct (map event_key (e # events h))"
      by (rule mset_eq_imp_distinct_iff)
    then show ?thesis using assms(1) new e by (simp add: wf_timers_def tcmTmr_isEventPresent_def event_found_iff)
  qed
  then have wf: "wf_timers ?h"
    using assms(1,2) n sorted_insert_event by (simp add: wf_timers_def add.commute)
  let ?P = "\<lambda>x. expireTms x \<le> expireTms e"
  have "\<forall>y \<in> set (dropWhile ?P (events h)). expireTms e < expireTms y"
    using assms(1) dropWhile_later by (auto simp: wf_timers_def)
  then show "\<exists>e h' xs ys. tcmTmr_set True now h f c ms nm = Some (TCMRET_SUCCESS, h') \<and>
       event_key e = (f, c) \<and> expireTms e = tcmTms_addMilliSeconds now ms \<and> wf_timers h' \<and>
       events h = xs @ ys \<and> events h' = xs @ e # ys \<and>
       (\<forall>x \<in> set xs. expireTms x \<le> expireTms e) \<and> (\<forall>y \<in> set ys. expireTms e < expireTms y)"
    using set e wf
    by (intro exI[of _ e] exI[of _ ?h] exI[of _ "takeWhile ?P (events h)"] exI[of _ "dropWhile ?P (events h)"])
      (auto simp: insert_event_split e_def dest: set_takeWhileD)
qed

definition demo_timers :: tcmTimerHandle where
  "demo_timers = \<lparr>events = [\<lparr>expireTms = Tms 5 0, func = 1, ctxData = 10, ev_name = ''a''\<rparr>,
     \<lparr>expireTms = Tms 9 500000000, func = 1, ctxData = 11, ev_name = ''b''\<rparr>], numEvents = 2\<rparr>"

lemma demo_timers_wf: "wf_timers demo_timers"
  by (simp add: wf_timers_def demo_timers_def less_eq_tcmTimestamp_def IS_EARLIER_THAN_def)

theorem tcmTmr_set_inserts_witness:
  "\<exists>e h' xs ys. tcmTmr_set True (Tms 2 0) demo_timers 1 12 3000 None = Some (TCMRET_SUCCESS, h') \<and>
     event_key e = (1, 12) \<and> expireTms e = tcmTms_addMilliSeconds (Tms 2 0) 3000 \<and> wf_timers h' \<and>
     events demo_timers = xs @ ys \<and> events h' = xs @ e # ys \<and>
     (\<forall>x \<in> set xs. expireTms x \<le> expireTms e) \<and> (\<forall>y \<in> set ys. expireTms e < expireTms y)"
proof -
  have "length (events demo_timers) + 1 < 4294967296" by (simp add: demo_timers_def)
  moreover have "\<not> tcmTmr_isEventPresent demo_timers 1 12"
    by (simp add: tcmTmr_isEventPresent_def demo_timers_def same_event_def)
  ultimately show ?thesis using tcmTmr_set_inserts[OF demo_timers_wf, of None 1 12 "Tms 2 0" 3000] by blast
qed

text \<open>Cancelling a timer removes exactly the event of this handler and context, if there is one,
  and nothing else; the others stay in order and the counter right.\<close>

theorem tcmTmr_cancel_removes:
  assumes "wf_timers h"
  shows "events (tcmTmr_cancel h f c) = filter (\<lambda>e. event_key e \<noteq> (f, c)) (events h) \<and>
    wf_timers (tcmTmr_cancel h f c) \<and> \<not> tcmTmr_isEventPresent (tcmTmr_cancel h f c) f c"
  using cancel_filter[OF assms, of f c]
  by (auto simp: same_event_def tcmTmr_isEventPresent_def event_found_iff)

theorem tcmTmr_cancel_removes_witness:
  "events (tcmTmr_cancel demo_timers 1 10) = [\<lparr>expireTms = Tms 9 500000000, func = 1, ctxData = 11, ev_name = ''b''\<rparr>]"
  using tcmTmr_cancel_removes[OF demo_timers_wf, of 1 10] by (simp add: demo_timers_def)

text \<open>The time that \<open>tcmTmr_getTimeToNextEvent\<close> returns is safe to sleep: at its end no event of
  the queue has been due for as much as a millisecond more than the sleeper could know; in exact
  terms it is 0 or the earliest event expires at that time or less than a millisecond after it
  (unless it is more than 2^32 - 1 ms away), and no event of the queue expires before.\<close>

theorem tcmTmr_getTimeToNextEvent_earliest:
  assumes "wf_timers h" and "normalised now" and "\<forall>e \<in> set (events h). normalised (expireTms e)" and "events h \<noteq> []"
  shows "\<exists>ms. tcmTmr_getTimeToNextEvent now h = (TCMRET_SUCCESS, ms) \<and>
    (if \<exists>e \<in> set (events h). expireTms e < now then ms = 0
     else (\<forall>e \<in> set (events h). total_ns now + uint ms * 1000000 \<le> total_ns (expireTms e)) \<and>
       (uint ms = 4294967295 \<or> (\<exists>e \<in> set (events h). total_ns (expireTms e) < total_ns now + (uint ms + 1) * 1000000)))"
proof -
  obtain e es where h: "events h = e # es" using assms(4) by (cases "events h") auto
  have first: "\<forall>x \<in> set (events h). expireTms e \<le> expireTms x" using assms(1) h by (auto simp: wf_timers_def)
  note tot = total_ns_mono
  show ?thesis
  proof (cases "expireTms e < now")
    case True
    then show ?thesis using h by (auto simp: tcmTmr_getTimeToNextEvent_def time_to_def earlier_less)
  next
    case False
    then have no: "\<not> (\<exists>x \<in> set (events h). expireTms x < now)" using first by force
    let ?ms = "tcmTms_deltaInMilliSeconds (expireTms e) now" and ?d = "tcmTms_delta (expireTms e) now"
    have ne: "normalised (expireTms e)" using assms(3) h by simp
    have le: "total_ns now \<le> total_ns (expireTms e)" using False tot assms(2) ne by simp
    have big: "total_ns (expireTms e) < 4294967296 * 1000000000" "0 \<le> total_ns now"
      using uint_bounds[of "sec (expireTms e)"] uint_bounds[of "sec now"] uint_bounds[of "nsec now"] sec_nsec_cases[of "expireTms e"] ne
      by (auto simp: total_ns_def)
    have d: "total_ns ?d = total_ns (expireTms e) - total_ns now" "normalised ?d"
      using delta_modular[OF ne assms(2)] le big by (auto simp: mod_pos_pos_trivial)
    have "uint (sec ?d) * 1000 + uint (nsec ?d) div 1000000 = total_ns ?d div 1000000"
      by (simp add: total_ns_def)
    then have ms: "uint ?ms = min 4294967295 ((total_ns (expireTms e) - total_ns now) div 1000000)"
      by (simp add: deltaInMilliSeconds_value d(1))
    then have "uint ?ms * 1000000 \<le> total_ns (expireTms e) - total_ns now" by linarith
    moreover have "total_ns (expireTms e) \<le> total_ns (expireTms x)" if "x \<in> set (events h)" for x
      using that first assms(3) ne tot by blast
    ultimately have "\<forall>x \<in> set (events h). total_ns now + uint ?ms * 1000000 \<le> total_ns (expireTms x)" by fastforce
    moreover have "uint ?ms = 4294967295 \<or> total_ns (expireTms e) < total_ns now + (uint ?ms + 1) * 1000000"
      using ms by (auto simp: min_def split: if_splits)
    ultimately show ?thesis
      using no h False by (auto simp: tcmTmr_getTimeToNextEvent_def time_to_def earlier_less)
  qed
qed

theorem tcmTmr_getTimeToNextEvent_earliest_witness:
  "\<exists>ms. tcmTmr_getTimeToNextEvent (Tms 2 0) demo_timers = (TCMRET_SUCCESS, ms) \<and>
    (\<forall>e \<in> set (events demo_timers). total_ns (Tms 2 0) + uint ms * 1000000 \<le> total_ns (expireTms e))"
proof -
  have n: "normalised (Tms 2 0)" "\<forall>e \<in> set (events demo_timers). normalised (expireTms e)" "events demo_timers \<noteq> []"
    by (simp_all add: normalised_def demo_timers_def NSECS_IN_SEC_def)
  have "\<not> (\<exists>e \<in> set (events demo_timers). expireTms e < Tms 2 0)"
    by (simp add: demo_timers_def less_tcmTimestamp_def IS_EARLIER_THAN_def)
  with tcmTmr_getTimeToNextEvent_earliest[OF demo_timers_wf n] show ?thesis by auto
qed

section \<open>What a round calls\<close>

text \<open>
  A handler may use the timers: it cancels events by \<open>tcmTmr_cancel\<close> and sets others by
  \<open>tcmTmr_set\<close>. \<open>timer_uses now h K h'\<close> says that such calls, in any order, lead from the timers \<open>h\<close>
  to \<open>h'\<close>, that \<open>K\<close> holds the keys they cancel, and that no timer is set which \<open>now\<close> has already passed.
  A set finds memory only while the counter can still count the event.
\<close>

inductive timer_uses :: "tcmTimestamp \<Rightarrow> tcmTimerHandle \<Rightarrow> (nat \<times> nat) set \<Rightarrow> tcmTimerHandle \<Rightarrow> bool"
  for now h where
  uses_nothing: "timer_uses now h {} h"
| uses_cancel: "timer_uses now h K h' \<Longrightarrow> timer_uses now h (insert (f, c) K) (tcmTmr_cancel h' f c)"
| uses_set: "timer_uses now h K h' \<Longrightarrow> tcmTmr_set alloc clock h' f c ms nm = Some (r, h'') \<Longrightarrow>
    \<not> tcmTms_addMilliSeconds clock ms < now \<Longrightarrow> (alloc \<longrightarrow> length (events h') + 1 < 4294967296) \<Longrightarrow>
    timer_uses now h K h''"

definition due :: "tcmTimestamp \<Rightarrow> tcmTimerHandle \<Rightarrow> tcmTimerEvent list" where
  "due now h = filter (\<lambda>e. expireTms e < now) (events h)"

text \<open>The calls a round owes: the expired events in their order, without those a handler has cancelled.\<close>

fun due_calls :: "(nat \<Rightarrow> nat \<Rightarrow> 's \<Rightarrow> 's) \<Rightarrow> (nat \<Rightarrow> nat \<Rightarrow> 's \<Rightarrow> (nat \<times> nat) set) \<Rightarrow> tcmTimerEvent list \<Rightarrow> 's \<Rightarrow> 's" where
  "due_calls act K [] s = s"
| "due_calls act K (e # es) s =
     due_calls act K (filter (\<lambda>x. event_key x \<notin> K (func e) (ctxData e) s) es) (act (func e) (ctxData e) s)"

lemma due_calls_fold: "(\<And>f c s. K f c s = {}) \<Longrightarrow> due_calls act K es s = fold (\<lambda>e. act (func e) (ctxData e)) es s"
  by (induction es arbitrary: s) simp_all

lemma timer_set_cases:
  assumes "tcmTmr_set alloc clock h f c ms nm = Some (r, h')" and "wf_timers h"
  shows "h' = h \<or> (alloc \<and> \<not> tcmTmr_isEventPresent h f c \<and> (\<exists>e. expireTms e = tcmTms_addMilliSeconds clock ms \<and>
    event_key e = (f, c) \<and> h' = \<lparr>events = insert_event e (events h), numEvents = numEvents h + 1\<rparr>))"
proof -
  define e where "e = \<lparr>expireTms = tcmTms_addMilliSeconds clock ms, func = f, ctxData = c,
                 ev_name = (case nm of None \<Rightarrow> [] | Some s \<Rightarrow> s)\<rparr>"
  have "numEvents h = 0 \<Longrightarrow> events h = []" using assms(2)
    by (auto simp: wf_timers_def word_of_nat_eq_0_iff dest: nat_dvd_not_less)
  then have "h' = h \<or> (alloc \<and> \<not> tcmTmr_isEventPresent h f c \<and>
      h' = \<lparr>events = insert_event e (events h), numEvents = numEvents h + 1\<rparr>)"
    using assms(1) unfolding tcmTmr_set_def Let_def e_def[symmetric] by (auto split: if_splits)
  moreover have "expireTms e = tcmTms_addMilliSeconds clock ms" "event_key e = (f, c)" by (simp_all add: e_def)
  ultimately show ?thesis by blast
qed

lemma timer_set_returns:
  assumes "wf_timers h"
  shows "\<exists>r h'. tcmTmr_set alloc clock h f c ms nm = Some (r, h')"
proof -
  have "numEvents h \<noteq> 0 \<Longrightarrow> events h \<noteq> []" using assms by (auto simp: wf_timers_def)
  then show ?thesis unfolding tcmTmr_set_def Let_def by (simp split: if_splits)
qed

lemma wf_timers_insert:
  assumes "wf_timers h" and "\<not> tcmTmr_isEventPresent h f c" and "event_key e = (f, c)" and "length (events h) + 1 < 4294967296"
  shows "wf_timers \<lparr>events = insert_event e (events h), numEvents = numEvents h + 1\<rparr>"
proof -
  have "mset (map event_key (insert_event e (events h))) = mset (map event_key (e # events h))"
    by (simp add: mset_insert_event)
  then have "distinct (map event_key (insert_event e (events h))) \<longleftrightarrow> distinct (map event_key (e # events h))"
    by (rule mset_eq_imp_distinct_iff)
  then have "distinct (map event_key (insert_event e (events h)))"
    using assms(1-3) by (simp add: wf_timers_def tcmTmr_isEventPresent_def event_found_iff)
  then show ?thesis using assms(1,4) sorted_insert_event by (simp add: wf_timers_def add.commute)
qed

lemma due_insert_later:
  assumes "\<not> expireTms e < now"
  shows "filter (\<lambda>e. expireTms e < now) (insert_event e es) = filter (\<lambda>e. expireTms e < now) es"
proof -
  have "filter (\<lambda>e. expireTms e < now) (takeWhile P es) @ filter (\<lambda>e. expireTms e < now) (dropWhile P es) =
      filter (\<lambda>e. expireTms e < now) es" for P
    by (metis filter_append takeWhile_dropWhile_id)
  then show ?thesis using assms by (simp add: insert_event_split)
qed

lemma timer_uses_effect:
  assumes "timer_uses now h K h'" and "wf_timers h"
  shows "wf_timers h' \<and> due now h' = filter (\<lambda>e. event_key e \<notin> K) (due now h) \<and>
    {e \<in> set (events h). event_key e \<notin> K} \<subseteq> set (events h')"
  using assms(1)
proof induction
  case (uses_nothing)
  then show ?case using assms(2) by simp
next
  case (uses_cancel K h' f c)
  then have "wf_timers h'" by blast
  note c = cancel_filter[OF this, of f c]
  have "due now (tcmTmr_cancel h' f c) = filter (\<lambda>x. \<not> same_event f c x) (due now h')"
    unfolding due_def c(1) by (simp add: conj_commute)
  also have "\<dots> = filter (\<lambda>x. \<not> same_event f c x) (filter (\<lambda>e. event_key e \<notin> K) (due now h))"
    using uses_cancel.IH by simp
  also have "\<dots> = filter (\<lambda>e. event_key e \<notin> insert (f, c) K) (due now h)"
    unfolding filter_filter by (rule filter_cong) (auto simp: same_event_def)
  finally show ?case using uses_cancel.IH c by (auto simp: same_event_def)
next
  case (uses_set K h' alloc clock f c ms nm r h'')
  from timer_set_cases[OF uses_set.hyps(2)] uses_set.IH consider "h'' = h'" |
    e where "alloc" "\<not> tcmTmr_isEventPresent h' f c" "expireTms e = tcmTms_addMilliSeconds clock ms" "event_key e = (f, c)"
      "h'' = \<lparr>events = insert_event e (events h'), numEvents = numEvents h' + 1\<rparr>" by blast
  then show ?case
  proof cases
    case 1
    then show ?thesis using uses_set.IH by simp
  next
    case 2
    have "set (events h') \<subseteq> set (events h'')"
      using mset_insert_event[of e "events h'"] 2(5) by (metis insert_subset mset_eq_setD set_mset_add_mset_insert set_mset_mset subset_insertI tcmTimerHandle.select_convs(1))
    then show ?thesis using uses_set.IH uses_set.hyps(3,4) 2 wf_timers_insert[of h' f c e]
      by (auto simp: due_def due_insert_later)
  qed
qed

text \<open>C36. One round of \<open>tcmTmr_executeExpiredEvents\<close> with handlers that return and may cancel any
  timers and set timers that have not expired yet: it ends, it has called the handlers of the expired
  events in the order of their expiry (and of their setting among equal ones), each once, except of
  those that a handler called before has cancelled; no expired event is left, and every other event
  is kept unless a handler cancelled it. With handlers that leave the timers alone
  the queue is exactly the events that have not expired.\<close>

theorem executeExpired_in_order:
  assumes "wf_timers h"
    and "\<forall>f c s h. wf_timers h \<longrightarrow> (\<exists>h'. call f c (s, h) = Some (act f c s, h') \<and> timer_uses now h (K f c s) h')"
  shows "\<exists>h'. tcmTmr_executeExpiredEvents call now (s, h) = Some (due_calls act K (due now h) s, h') \<and>
    wf_timers h' \<and> due now h' = [] \<and>
    (\<forall>e \<in> set (events h). \<not> expireTms e < now \<and> (\<forall>f c s. event_key e \<notin> K f c s) \<longrightarrow> e \<in> set (events h')) \<and>
    ((\<forall>f c s h. call f c (s, h) = Some (act f c s, h)) \<longrightarrow> events h' = filter (\<lambda>e. \<not> expireTms e < now) (events h))"
  using assms(1)
proof (induction "length (due now h)" arbitrary: h s rule: less_induct)
  case less
  show ?case
  proof (cases "\<exists>e es. events h = e # es \<and> expireTms e < now")
    case True
    then obtain e es where e: "events h = e # es" "expireTms e < now" by blast
    let ?h = "\<lparr>events = es, numEvents = numEvents h - 1\<rparr>" and ?s = "act (func e) (ctxData e) s"
    have "wf_timers ?h" using wf_timers_tl[OF e(1) less.prems] .
    with assms(2) obtain h1 where
      c: "call (func e) (ctxData e) (s, ?h) = Some (?s, h1)" "timer_uses now ?h (K (func e) (ctxData e) s) h1" by blast
    note h1 = timer_uses_effect[OF c(2) \<open>wf_timers ?h\<close>]
    have d: "due now h = e # due now ?h" using e by (simp add: due_def)
    have "length (due now h1) < length (due now h)" using h1 d by (simp add: le_imp_less_Suc)
    from less.hyps[OF this, of ?s] h1 obtain h' where
      h': "tcmTmr_executeExpiredEvents call now (?s, h1) = Some (due_calls act K (due now h1) ?s, h')" "wf_timers h'"
        "due now h' = []"
        "\<forall>e \<in> set (events h1). \<not> expireTms e < now \<and> (\<forall>f c s. event_key e \<notin> K f c s) \<longrightarrow> e \<in> set (events h')"
        "(\<forall>f c s h. call f c (s, h) = Some (act f c s, h)) \<longrightarrow> events h' = filter (\<lambda>e. \<not> expireTms e < now) (events h1)"
      by blast
    have "tcmTmr_executeExpiredEvents call now (s, h) = Some (due_calls act K (due now h) s, h')"
      using e c(1) h'(1) h1 d by (simp add: tcmTmr_executeExpiredEvents.simps[of call now "(s, h)"] earlier_less)
    moreover have "x \<in> set (events h1)" if "x \<in> set (events h)" "\<not> expireTms x < now" "\<forall>f c s. event_key x \<notin> K f c s" for x
      using h1 that e by auto
    moreover have "h1 = ?h" if "\<forall>f c s h. call f c (s, h) = Some (act f c s, h)" using c(1) that by simp
    ultimately show ?thesis using h' e by (intro exI[of _ h']) auto
  next
    case False
    then have no: "\<forall>x \<in> set (events h). \<not> expireTms x < now"
      using less.prems by (cases "events h") (auto simp: wf_timers_def not_less)
    then have "due now h = []" "filter (\<lambda>e. \<not> expireTms e < now) (events h) = events h"
      by (simp_all add: due_def filter_empty_conv)
    then show ?thesis
      using False less.prems
      by (intro exI[of _ h]) (auto simp: tcmTmr_executeExpiredEvents.simps[of call now "(s, h)"] earlier_less split: list.split)
  qed
qed

text \<open>The handler of the example notes its context, cancels its event with context 12 and sets one for context 20.\<close>

definition demo_handler :: "nat \<Rightarrow> nat \<Rightarrow> nat list \<times> tcmTimerHandle \<Rightarrow> (nat list \<times> tcmTimerHandle) run" where
  "demo_handler f c sh = map_option (\<lambda>(r, h). (fst sh @ [c], h))
     (let h = tcmTmr_cancel (snd sh) 1 12 in
      tcmTmr_set (length (events h) + 1 < 4294967296) (Tms 7 0) h 1 20 1000 None)"

theorem executeExpired_in_order_witness:
  "\<exists>h'. tcmTmr_executeExpiredEvents demo_handler (Tms 7 0)
      ([], \<lparr>events = [\<lparr>expireTms = Tms 5 0, func = 1, ctxData = 10, ev_name = ''a''\<rparr>,
              \<lparr>expireTms = Tms 6 0, func = 1, ctxData = 12, ev_name = ''b''\<rparr>,
              \<lparr>expireTms = Tms 9 0, func = 1, ctxData = 11, ev_name = ''c''\<rparr>], numEvents = 3\<rparr>) = Some ([10], h') \<and>
    due (Tms 7 0) h' = []"
proof -
  let ?h = "\<lparr>events = [\<lparr>expireTms = Tms 5 0, func = 1, ctxData = 10, ev_name = ''a''\<rparr>,
              \<lparr>expireTms = Tms 6 0, func = 1, ctxData = 12, ev_name = ''b''\<rparr>,
              \<lparr>expireTms = Tms 9 0, func = 1, ctxData = 11, ev_name = ''c''\<rparr>], numEvents = 3\<rparr>"
  have wf: "wf_timers ?h" by (simp add: wf_timers_def less_eq_tcmTimestamp_def IS_EARLIER_THAN_def)
  have late: "\<not> tcmTms_addMilliSeconds (Tms 7 0) 1000 < Tms 7 0"
    by (simp add: less_tcmTimestamp_def IS_EARLIER_THAN_def tcmTms_addMilliSeconds_def Let_def NSECS_IN_SEC_def
        MSECS_IN_SEC_def NSECS_IN_MSEC_def)
  have "\<exists>h'. demo_handler f c (s, h) = Some (s @ [c], h') \<and> timer_uses (Tms 7 0) h {(1, 12)} h'"
    if "wf_timers h" for f c s h
  proof -
    let ?c = "tcmTmr_cancel h 1 12" and ?m = "length (events (tcmTmr_cancel h 1 12)) + 1 < 4294967296"
    have "wf_timers ?c" using cancel_filter[OF that] by blast
    from timer_set_returns[OF this, of ?m] obtain r h' where "tcmTmr_set ?m (Tms 7 0) ?c 1 20 1000 None = Some (r, h')" by blast
    then show ?thesis using uses_set[OF uses_cancel[OF uses_nothing], of ?m "Tms 7 0" h 1 12 1 20 1000 None r h' "Tms 7 0"] late
      by (auto simp: demo_handler_def Let_def)
  qed
  with executeExpired_in_order[OF wf, of demo_handler "\<lambda>f c s. s @ [c]" "Tms 7 0" "\<lambda>f c s. {(1, 12)}" "[]"]
  show ?thesis by (auto simp: due_def less_tcmTimestamp_def IS_EARLIER_THAN_def)
qed

section \<open>Handlers that use the timers\<close>

text \<open>
  What a program has to promise of its handlers: they return, keep the queue in order, and set no
  timer that has already expired. Then a round of expired events ends and leaves none behind.
\<close>

locale timer_handlers =
  fixes call :: "nat \<Rightarrow> nat \<Rightarrow> 's \<times> tcmTimerHandle \<Rightarrow> ('s \<times> tcmTimerHandle) run"
    and now :: tcmTimestamp and ok :: "'s \<Rightarrow> tcmTimerEvent list \<Rightarrow> bool"
  assumes call_ok: "ok s (events h) \<Longrightarrow> wf_timers h \<Longrightarrow> events h = e # es \<Longrightarrow> expireTms e < now \<Longrightarrow>
    \<exists>s' h'. call (func e) (ctxData e) (s, \<lparr>events = es, numEvents = numEvents h - 1\<rparr>) = Some (s', h') \<and>
      ok s' (events h') \<and> wf_timers h' \<and>
      set (filter (\<lambda>x. expireTms x < now) (events h')) \<subseteq> set (filter (\<lambda>x. expireTms x < now) es)"
begin

lemma round_ends:
  assumes "ok s (events h)" and "wf_timers h"
  shows "\<exists>s' h'. tcmTmr_executeExpiredEvents call now (s, h) = Some (s', h') \<and> ok s' (events h') \<and> wf_timers h' \<and>
    (\<forall>e \<in> set (events h'). \<not> expireTms e < now)"
  using assms
proof (induction "length (filter (\<lambda>x. expireTms x < now) (events h))" arbitrary: s h rule: less_induct)
  case less
  show ?case
  proof (cases "events h")
    case Nil
    then show ?thesis using less.prems
      by (intro exI[of _ s] exI[of _ h]) (simp add: tcmTmr_executeExpiredEvents.simps[of call now "(s, h)"])
  next
    case (Cons e es)
    show ?thesis
    proof (cases "expireTms e < now")
      case True
      let ?due = "\<lambda>h. filter (\<lambda>x. expireTms x < now) (events h)"
      from call_ok[OF less.prems Cons True] obtain s' h' where
        c: "call (func e) (ctxData e) (s, \<lparr>events = es, numEvents = numEvents h - 1\<rparr>) = Some (s', h')"
          "ok s' (events h')" "wf_timers h'" "set (?due h') \<subseteq> set (filter (\<lambda>x. expireTms x < now) es)" by blast
      have "distinct (events h')" using c(3) by (auto simp: wf_timers_def distinct_map)
      then have "distinct (?due h')" by (rule distinct_filter)
      then have "length (?due h') = card (set (?due h'))" by (rule distinct_card[symmetric])
      also have "\<dots> \<le> card (set (filter (\<lambda>x. expireTms x < now) es))" by (rule card_mono[OF _ c(4)]) simp
      also have "\<dots> \<le> length (filter (\<lambda>x. expireTms x < now) es)" by (rule card_length)
      finally have "length (?due h') < length (?due h)" using Cons True by simp
      from less.hyps[OF this c(2,3)] show ?thesis
        using True Cons c(1) by (simp add: tcmTmr_executeExpiredEvents.simps[of call now "(s, h)"] earlier_less)
    next
      case False
      have "sorted (map expireTms (e # es))" using less.prems(2) Cons by (simp add: wf_timers_def)
      then have "\<forall>x \<in> set (events h). \<not> expireTms x < now" using False Cons by auto
      then show ?thesis using less.prems Cons False
        by (intro exI[of _ s] exI[of _ h]) (simp add: tcmTmr_executeExpiredEvents.simps[of call now "(s, h)"] earlier_less)
    qed
  qed
qed

end

end
