(* ===== verification/Kernel.thy ===== *)
theory Kernel
  imports Timestamp
begin

text \<open>
  The operating system as the programs of \<^verbatim>\<open>liboal\<close>, \<^verbatim>\<open>libmsg\<close> and \<^verbatim>\<open>sched\<close> see it: a record of
  the system and C library calls they make, each a function of a world \<open>'w\<close> that is threaded
  through every definition. Nothing is assumed of the calls here; a property that relies on
  documented behaviour of one of them states it as a hypothesis.
\<close>

section \<open>The calls\<close>

text \<open>
  \<open>k_alloc\<close> is whether \<^verbatim>\<open>malloc\<close> returns memory. Calls that return a C \<^verbatim>\<open>int\<close> return it as an
  integer, \<open>-1\<close> for failure. A write returns its result and \<^verbatim>\<open>errno\<close>, a read the
  error number or the bytes read (none at the end of the stream). \<open>k_waitpid\<close> may block for
  ever, its arguments are the requested pid and whether \<^verbatim>\<open>WNOHANG\<close> is set, its results the
  return value and the status word.
\<close>

record 'w kernel =
  k_alloc :: "'w \<Rightarrow> bool \<times> 'w"
  k_now :: "'w \<Rightarrow> tcmTimestamp \<times> 'w"
  k_getpid :: int
  k_socket :: "string \<Rightarrow> string \<Rightarrow> 'w \<Rightarrow> int \<times> 'w"
  k_fcntl :: "int \<Rightarrow> 'w \<Rightarrow> int \<times> 'w"
  k_setsockopt :: "int \<Rightarrow> string \<Rightarrow> 'w \<Rightarrow> int \<times> 'w"
  k_bind :: "int \<Rightarrow> string \<Rightarrow> int \<Rightarrow> 'w \<Rightarrow> int \<times> 'w"
  k_listen :: "int \<Rightarrow> int \<Rightarrow> 'w \<Rightarrow> int \<times> 'w"
  k_connect :: "int \<Rightarrow> string \<Rightarrow> 'w \<Rightarrow> int \<times> 'w"
  k_accept :: "int \<Rightarrow> 'w \<Rightarrow> int \<times> 'w"
  k_close :: "int \<Rightarrow> 'w \<Rightarrow> 'w"
  k_unlink :: "string \<Rightarrow> 'w \<Rightarrow> 'w"
  k_write :: "int \<Rightarrow> char list \<Rightarrow> 'w \<Rightarrow> (int \<times> int) \<times> 'w"
  k_read :: "int \<Rightarrow> nat \<Rightarrow> 'w \<Rightarrow> (int + char list) \<times> 'w"
  k_select :: "int \<Rightarrow> int set \<Rightarrow> int \<Rightarrow> int \<Rightarrow> 'w \<Rightarrow> (int \<times> int set) \<times> 'w"
  k_usleep :: "UINT32 \<Rightarrow> 'w \<Rightarrow> 'w"
  k_fork :: "string \<Rightarrow> string list \<Rightarrow> 'w \<Rightarrow> int \<times> 'w"
  k_kill :: "int \<Rightarrow> int \<Rightarrow> 'w \<Rightarrow> int \<times> 'w"
  k_waitpid :: "int \<Rightarrow> bool \<Rightarrow> 'w \<Rightarrow> ((int \<times> UINT32) \<times> 'w) run"

section \<open>Constants of the headers\<close>

definition TCM_INVALID_FD :: int where "TCM_INVALID_FD = - 1"
definition TCM_INVALID_PID :: int where "TCM_INVALID_PID = 0"
definition USECS_IN_MSEC :: int where "USECS_IN_MSEC = 1000"
definition EPIPE :: int where "EPIPE = 32"
definition SCHED_MESSAGE_ADDR :: string where "SCHED_MESSAGE_ADDR = ''/home/nick/etc/sched_msg_svr_addr''"

text \<open>The value of a return code where the program passes it on as a number.\<close>

fun ret_code :: "tcmRet \<Rightarrow> UINT32" where
  "ret_code TCMRET_SUCCESS = 0"
| "ret_code TCMRET_FAILURE = 1"
| "ret_code TCMRET_RESOURCE_EXCEEDED = 2"
| "ret_code TCMRET_INVALID_PARAMETER = 3"
| "ret_code TCMRET_INTERNAL_ERROR = 4"
| "ret_code TCMRET_DISCONNECTED = 5"
| "ret_code TCMRET_TIMED_OUT = 6"
| "ret_code TCMRET_SUCCESS_REBOOT_REQUIRED = 7"
| "ret_code TCMRET_INVALID_ARGUMENTS = 8"
| "ret_code TCMRET_SUCCESS_UNRECOGNIZED_DATA_IGNORED = 9"
| "ret_code TCMRET_NO_MORE_INSTANCES = 10"
| "ret_code TCMRET_INVALID_IMAGE = 11"
| "ret_code TCMRET_INVALID_PARAM_VALUE = 12"
| "ret_code TCMRET_OBJECT_NOT_FOUND = 13"
| "ret_code TCMRET_CONFLIB_READ_ERROR = 14"
| "ret_code TCMRET_WRITE_FLASH_ERROR = 15"
| "ret_code TCMRET_CONFLIB_PARAMETER_INVALID = 16"
| "ret_code TCMRET_CONFLIB_WRITE_ERROR = 17"
| "ret_code TCMRET_INVALID_DUPLICATE = 18"
| "ret_code TCMRET_INVALID_EXIST = 19"
| "ret_code TCMRET_INVALID_SAME = 20"
| "ret_code TCMRET_REACH_MAX_NUM = 21"

section \<open>Memory (\<^verbatim>\<open>liboal/memory.c\<close>)\<close>

text \<open>The length of the string in a buffer, at most \<open>maxlen\<close>, and whether it ends there.\<close>

fun tcmMem_strnlen :: "buf \<Rightarrow> nat \<Rightarrow> (nat \<times> bool) run" where
  "tcmMem_strnlen [] maxlen = None"
| "tcmMem_strnlen (c # cs) 0 = Some (0, c = NUL)"
| "tcmMem_strnlen (c # cs) (Suc n) =
     (if c = NUL then Some (0, True) else map_option (\<lambda>(k, t). (Suc k, t)) (tcmMem_strnlen cs n))"

definition tcmMem_strdup :: "'w kernel \<Rightarrow> string option \<Rightarrow> 'w \<Rightarrow> string option \<times> 'w" where
  "tcmMem_strdup K str w =
     (case str of None \<Rightarrow> (None, w)
      | Some s \<Rightarrow> (case k_alloc K w of (al, w1) \<Rightarrow> (if al then Some s else None, w1)))"

text \<open>The copy of at most \<open>maxlen\<close> characters; a shorter buffer without a NUL is read past its end.\<close>

definition tcmMem_strndup :: "'w kernel \<Rightarrow> buf option \<Rightarrow> nat \<Rightarrow> 'w \<Rightarrow> (string option \<times> 'w) run" where
  "tcmMem_strndup K str maxlen w =
     (case str of None \<Rightarrow> Some (None, w)
      | Some b \<Rightarrow>
          if length b < maxlen \<and> \<not> terminated b then None
          else let k = length (takeWhile (\<lambda>c. c \<noteq> NUL) (take maxlen b)) in
            (case k_alloc K w of (al, w1) \<Rightarrow> Some (if al then Some (take k b) else None, w1)))"

section \<open>A sample kernel\<close>

text \<open>
  For concrete runs: every call succeeds, there is never anything to read or to wait for, and the
  world does not change; a sample overrides the calls it is about.
\<close>

definition quiet_kernel :: "'w kernel" where
  "quiet_kernel = \<lparr>k_alloc = \<lambda>w. (True, w), k_now = \<lambda>w. (Tms 0 0, w), k_getpid = 77,
     k_socket = \<lambda>d t w. (5, w), k_fcntl = \<lambda>fd w. (0, w), k_setsockopt = \<lambda>fd x w. (0, w),
     k_bind = \<lambda>fd d p w. (0, w), k_listen = \<lambda>fd b w. (0, w), k_connect = \<lambda>fd a w. (0, w),
     k_accept = \<lambda>fd w. (6, w), k_close = \<lambda>fd w. w, k_unlink = \<lambda>p w. w,
     k_write = \<lambda>fd b w. ((int (length b), 0), w), k_read = \<lambda>fd n w. (Inr [], w),
     k_select = \<lambda>n fds s u w. ((0, {}), w), k_usleep = \<lambda>us w. w,
     k_fork = \<lambda>e a w. (100, w), k_kill = \<lambda>p s w. (0, w), k_waitpid = \<lambda>p n w. Some ((0, 0), w)\<rparr>"

end
