(* ===== verification/Entity.thy ===== *)
theory Entity
  imports Prelude
begin

text \<open>
  \<^verbatim>\<open>conflib/tcm_eid.h\<close> and \<^verbatim>\<open>conflib/eid.c\<close>: the entity table, one record per
  application, and the lookups over it. The table is an argument of every operation that
  walks it; \<open>entityInfoArray\<close> is the one the library is built with.
\<close>

section \<open>The table\<close>

text \<open>A parameter name list ends with an entry whose name is \<^verbatim>\<open>NULL\<close>.\<close>

record tcmParamInfo =
  pi_id :: int
  pi_name :: "string option"

record tcmEntityInfo =
  eid :: int
  ei_name :: string
  ei_path :: string
  runArgs :: string
  ei_flags :: "16 word"
  backLog :: "8 word"
  port :: "16 word"
  featureCompiled :: bool
  app_maxnum :: int
  row_paras :: "tcmParamInfo list option"
  row_maxnum :: int
  row_end :: int

definition ID_LAN :: int where "ID_LAN = 1"
definition ID_DHCPD :: int where "ID_DHCPD = 2"
definition ID_END :: int where "ID_END = 3"

definition PARA_LAN_END :: int where "PARA_LAN_END = 3"
definition PARA_DHCPD_END :: int where "PARA_DHCPD_END = 6"

definition entityInfoArray :: "tcmEntityInfo list" where
  "entityInfoArray =
    [ \<lparr>eid = ID_LAN, ei_name = ''lan'', ei_path = '''', runArgs = '''', ei_flags = 0,
       backLog = 0, port = 0, featureCompiled = True, app_maxnum = PARA_LAN_END,
       row_paras = None, row_maxnum = 0, row_end = 0\<rparr>,
      \<lparr>eid = ID_DHCPD, ei_name = ''dhcpd'', ei_path = ''/bin/dhcpd'', runArgs = '''',
       ei_flags = 0, backLog = 0, port = 0, featureCompiled = True,
       app_maxnum = PARA_DHCPD_END, row_paras = None, row_maxnum = 0, row_end = 0\<rparr> ]"

section \<open>Lookups of \<^verbatim>\<open>eid.c\<close>\<close>

definition tcmEid_getNumberOfEntityInfoEntries :: "tcmEntityInfo list \<Rightarrow> nat" where
  "tcmEid_getNumberOfEntityInfoEntries tab = length tab"

text \<open>The \<open>while\<close> loops over the index, bounded by the number of entries.\<close>

fun tcmEid_getEntityInfo :: "tcmEntityInfo list \<Rightarrow> int \<Rightarrow> tcmEntityInfo option" where
  "tcmEid_getEntityInfo [] e = None"
| "tcmEid_getEntityInfo (i # is) e = (if eid i = e then Some i else tcmEid_getEntityInfo is e)"

fun name_scan :: "tcmEntityInfo list \<Rightarrow> string \<Rightarrow> tcmEntityInfo option" where
  "name_scan [] n = None"
| "name_scan (i # is) n = (if ei_name i = n then Some i else name_scan is n)"

definition tcmEid_getEntityInfoByStringName ::
    "tcmEntityInfo list \<Rightarrow> string option \<Rightarrow> tcmEntityInfo option" where
  "tcmEid_getEntityInfoByStringName tab name =
     (case name of None \<Rightarrow> None | Some n \<Rightarrow> name_scan tab n)"

lemma getEntityInfo_find: "tcmEid_getEntityInfo tab e = find (\<lambda>i. eid i = e) tab"
  by (induction tab) auto

lemma name_scan_find: "name_scan tab n = find (\<lambda>i. ei_name i = n) tab"
  by (induction tab) auto

section \<open>The walks of \<^verbatim>\<open>configapi.c\<close>\<close>

text \<open>
  The configuration library walks the same array without its length, up to an entry whose
  id is at least \<open>ID_END\<close>: a table without such an entry sends the walk past its end,
  which has no defined result. \<open>has_end\<close> is what the walks rely on.
\<close>

fun entity_walk :: "(tcmEntityInfo \<Rightarrow> bool) \<Rightarrow> tcmEntityInfo list \<Rightarrow> tcmEntityInfo option run" where
  "entity_walk hit [] = None"
| "entity_walk hit (i # is) =
     (if eid i < ID_END then (if hit i then Some (Some i) else entity_walk hit is)
      else Some None)"

definition has_end :: "tcmEntityInfo list \<Rightarrow> bool" where
  "has_end tab \<longleftrightarrow> (\<exists>i \<in> set tab. ID_END \<le> eid i)"

definition walked :: "tcmEntityInfo list \<Rightarrow> tcmEntityInfo list" where
  "walked tab = takeWhile (\<lambda>i. eid i < ID_END) tab"

lemma entity_walk_find:
  "has_end tab \<Longrightarrow> entity_walk hit tab = Some (find hit (walked tab))"
  by (induction tab) (auto simp: has_end_def walked_def)

lemma entity_walk_stuck:
  "\<not> has_end tab \<Longrightarrow> find hit tab = None \<Longrightarrow> entity_walk hit tab = None"
  by (induction tab) (auto simp: has_end_def split: if_splits)

text \<open>\<open>tcmUtl_strcmp\<close> treats \<^verbatim>\<open>NULL\<close> as the empty string; here it is only tested for 0.\<close>

definition nullstr :: "string option \<Rightarrow> string" where
  "nullstr s = (case s of None \<Rightarrow> [] | Some x \<Rightarrow> x)"

definition tcmUtl_strcmp_eq :: "string option \<Rightarrow> string option \<Rightarrow> bool" where
  "tcmUtl_strcmp_eq s1 s2 \<longleftrightarrow> nullstr s1 = nullstr s2"

definition config_api_get_app_id_by_name :: "tcmEntityInfo list \<Rightarrow> string \<Rightarrow> int run" where
  "config_api_get_app_id_by_name tab app_name =
     do { r \<leftarrow> entity_walk (\<lambda>i. tcmUtl_strcmp_eq (Some (ei_name i)) (Some app_name)) tab;
          Some (case r of None \<Rightarrow> - 1 | Some i \<Rightarrow> eid i) }"

fun param_walk :: "int \<Rightarrow> tcmParamInfo list \<Rightarrow> string option run" where
  "param_walk k [] = None"
| "param_walk k (p # ps) =
     (case pi_name p of None \<Rightarrow> Some None
      | Some n \<Rightarrow> if pi_id p = k then Some (Some n) else param_walk k ps)"

definition config_api_app_exist_table ::
    "tcmEntityInfo list \<Rightarrow> int \<Rightarrow> (int \<times> int) option run" where
  "config_api_app_exist_table tab app_index =
     do { r \<leftarrow> entity_walk (\<lambda>i. eid i = app_index) tab;
          Some (case r of None \<Rightarrow> None
                | Some i \<Rightarrow> (if row_paras i \<noteq> None then Some (row_maxnum i, row_end i) else None)) }"

end
