(* ===== verification/Message.thy ===== *)
theory Message
  imports Kernel Entity
begin

text \<open>
  Messages and the message library of the applications: \<^verbatim>\<open>libmsg/tcm_msg.h\<close>, \<^verbatim>\<open>libmsg/oal_msg.c\<close>
  (sockets) and \<^verbatim>\<open>libmsg/tcm_msg.c\<close> (handles, put-back queue, requests with a reply).
  Queues linked through \<^verbatim>\<open>next\<close> are lists, so the field itself is not part of a message.
\<close>

section \<open>Messages\<close>

text \<open>
  \<open>mdata\<close> is what follows the header in memory. The layout on the wire is that of the 32-bit
  little-endian target: 28 bytes of header, the bit-fields from the least significant bit on.
\<close>

record tcmMsgHeader =
  msg_type :: UINT32
  msg_src :: UINT32
  msg_dst :: UINT32
  msg_flags :: "16 word"
  seqNum :: "16 word"
  wordData :: UINT32
  dataLength :: UINT32
  mdata :: "char list"

definition TCM_MSG_APP_LAUNCHED :: UINT32 where "TCM_MSG_APP_LAUNCHED = 0x10000001"
definition TCM_MSG_SYSTEM_BOOT :: UINT32 where "TCM_MSG_SYSTEM_BOOT = 0x10000002"
definition TCM_MSG_DELAYED_MSG :: UINT32 where "TCM_MSG_DELAYED_MSG = 0x10000003"
definition TCM_MSG_REGISTER_EVENT_INTEREST :: UINT32 where "TCM_MSG_REGISTER_EVENT_INTEREST = 0x10000004"
definition TCM_MSG_UNREGISTER_EVENT_INTEREST :: UINT32 where "TCM_MSG_UNREGISTER_EVENT_INTEREST = 0x10000005"
definition TCM_MSG_BOUNCED :: UINT32 where "TCM_MSG_BOUNCED = 0x10000006"
definition TCM_MSG_START_APP :: UINT32 where "TCM_MSG_START_APP = 0x10000007"
definition TCM_MSG_STOP_APP :: UINT32 where "TCM_MSG_STOP_APP = 0x10000008"
definition TCM_MSG_RESTART_APP :: UINT32 where "TCM_MSG_RESTART_APP = 0x10000009"
definition TCM_MSG_IS_APP_RUNNING :: UINT32 where "TCM_MSG_IS_APP_RUNNING = 0x1000000A"

definition flags_event :: "tcmMsgHeader \<Rightarrow> bool" where "flags_event m = bit (msg_flags m) 0"
definition flags_request :: "tcmMsgHeader \<Rightarrow> bool" where "flags_request m = bit (msg_flags m) 1"
definition flags_response :: "tcmMsgHeader \<Rightarrow> bool" where "flags_response m = bit (msg_flags m) 2"
definition flags_requeue :: "tcmMsgHeader \<Rightarrow> bool" where "flags_requeue m = bit (msg_flags m) 3"
definition flags_bounceIfNotRunning :: "tcmMsgHeader \<Rightarrow> bool" where
  "flags_bounceIfNotRunning m = bit (msg_flags m) 4"

definition put_flag :: "nat \<Rightarrow> bool \<Rightarrow> tcmMsgHeader \<Rightarrow> tcmMsgHeader" where
  "put_flag i b m = m\<lparr>msg_flags := (if b then set_bit i (msg_flags m) else unset_bit i (msg_flags m))\<rparr>"

definition EMPTY_MSG_HEADER :: tcmMsgHeader where
  "EMPTY_MSG_HEADER = \<lparr>msg_type = 0, msg_src = 0, msg_dst = 0, msg_flags = 0, seqNum = 0,
     wordData = 0, dataLength = 0, mdata = []\<rparr>"

definition sizeof_tcmMsgHeader :: nat where "sizeof_tcmMsgHeader = 28"

fun le_bytes :: "nat \<Rightarrow> nat \<Rightarrow> char list" where
  "le_bytes 0 n = []"
| "le_bytes (Suc k) n = char_of (n mod 256) # le_bytes k (n div 256)"

fun le_value :: "char list \<Rightarrow> nat" where
  "le_value [] = 0"
| "le_value (c # cs) = of_char c + 256 * le_value cs"

text \<open>
  A header on the wire, little endian. Bytes 16 to 19 are the pointer \<^verbatim>\<open>next\<close>: it is \<^verbatim>\<open>NULL\<close> whenever the program
  sends a message, since blocks are allocated with zeros and \<^verbatim>\<open>next\<close> is cleared when one is taken out of a queue
  (\<^verbatim>\<open>tcm_msg.c\<close> line 52, \<^verbatim>\<open>tpciserv.c\<close> lines 75 and 761); a receiver overwrites or ignores it.
\<close>

definition header_bytes :: "tcmMsgHeader \<Rightarrow> char list" where
  "header_bytes m = le_bytes 4 (unat (msg_type m)) @ le_bytes 4 (unat (msg_src m)) @
     le_bytes 4 (unat (msg_dst m)) @ le_bytes 2 (unat (msg_flags m)) @ le_bytes 2 (unat (seqNum m)) @
     le_bytes 4 0 @ le_bytes 4 (unat (wordData m)) @ le_bytes 4 (unat (dataLength m))"

definition header_of :: "char list \<Rightarrow> tcmMsgHeader" where
  "header_of b = \<lparr>msg_type = of_nat (le_value (take 4 b)), msg_src = of_nat (le_value (take 4 (drop 4 b))),
     msg_dst = of_nat (le_value (take 4 (drop 8 b))), msg_flags = of_nat (le_value (take 2 (drop 12 b))),
     seqNum = of_nat (le_value (take 2 (drop 14 b))), wordData = of_nat (le_value (take 4 (drop 20 b))),
     dataLength = of_nat (le_value (take 4 (drop 24 b))), mdata = []\<rparr>"

lemma length_le_bytes [simp]: "length (le_bytes k n) = k"
  by (induction k arbitrary: n) auto

lemma le_value_bytes: "le_value (le_bytes k n) = n mod 256 ^ k"
proof (induction k arbitrary: n)
  case (Suc k)
  have "n mod (256 * 256 ^ k) = 256 * (n div 256 mod 256 ^ k) + n mod 256" by (rule mod_mult2_eq)
  then show ?case using Suc by simp
qed simp

lemma le_value_word32 [simp]: "(of_nat (le_value (le_bytes 4 (unat (w :: 32 word)))) :: 32 word) = w"
proof -
  have "unat w < 256 ^ 4" using unsigned_less[of w] by simp
  then show ?thesis by (simp add: le_value_bytes)
qed

lemma le_value_word16 [simp]: "(of_nat (le_value (le_bytes 2 (unat (w :: 16 word)))) :: 16 word) = w"
proof -
  have "unat w < 256 ^ 2" using unsigned_less[of w] by simp
  then show ?thesis by (simp add: le_value_bytes)
qed

lemma length_header_bytes [simp]: "length (header_bytes m) = sizeof_tcmMsgHeader"
  by (simp add: header_bytes_def sizeof_tcmMsgHeader_def)

lemma header_roundtrip: "header_of (header_bytes m) = m\<lparr>mdata := []\<rparr>"
  by (simp add: header_of_def header_bytes_def)

section \<open>Sending and receiving (\<^verbatim>\<open>oal_msg.c\<close>)\<close>

text \<open>
  \<open>sizeof(tcmMsgHeader) + dataLength\<close> is computed in 32 bits; when it wraps, the program goes on
  with a block shorter than a header, and when the message has fewer bytes than it claims, it
  reads behind it: no defined result.
\<close>

definition totalLen :: "tcmMsgHeader \<Rightarrow> UINT32" where
  "totalLen m = of_nat sizeof_tcmMsgHeader + dataLength m"

definition msg_bytes :: "tcmMsgHeader \<Rightarrow> char list run" where
  "msg_bytes m =
     (if unat (totalLen m) < sizeof_tcmMsgHeader \<or> length (mdata m) < unat (dataLength m) then None
      else Some (header_bytes m @ take (unat (dataLength m)) (mdata m)))"

definition oalMsg_send :: "'w kernel \<Rightarrow> int \<Rightarrow> tcmMsgHeader \<Rightarrow> 'w \<Rightarrow> (tcmRet \<times> 'w) run" where
  "oalMsg_send K fd m w =
     do { b \<leftarrow> msg_bytes m;
          let ((rc, errno), w1) = k_write K fd b w;
          Some (if rc < 0 then (if errno = EPIPE then TCMRET_DISCONNECTED else TCMRET_INTERNAL_ERROR)
                else if rc \<noteq> sint (totalLen m) then TCMRET_INTERNAL_ERROR else TCMRET_SUCCESS, w1) }"

definition waitForDataAvailable :: "'w kernel \<Rightarrow> int \<Rightarrow> UINT32 \<Rightarrow> 'w \<Rightarrow> tcmRet \<times> 'w" where
  "waitForDataAvailable K fd timeout w =
     (let ((rc, ready), w1) = k_select K (fd + 1) {fd} (uint timeout div uint MSECS_IN_SEC)
                                (uint timeout mod uint MSECS_IN_SEC * USECS_IN_MSEC) w in
      (if rc = 1 \<and> fd \<in> ready then TCMRET_SUCCESS else TCMRET_TIMED_OUT, w1))"

definition wait_if :: "'w kernel \<Rightarrow> int \<Rightarrow> UINT32 option \<Rightarrow> 'w \<Rightarrow> tcmRet \<times> 'w" where
  "wait_if K fd timeout w =
     (case timeout of None \<Rightarrow> (TCMRET_SUCCESS, w) | Some t \<Rightarrow> waitForDataAvailable K fd t w)"

text \<open>The loop that reads the data part; \<open>n\<close> is \<^verbatim>\<open>totalRemaining\<close>. A read returns at most what was asked for.\<close>

function read_data :: "'w kernel \<Rightarrow> int \<Rightarrow> UINT32 option \<Rightarrow> nat \<Rightarrow> 'w \<Rightarrow> (tcmRet + char list) \<times> 'w" where
  "read_data K fd timeout n w =
     (if n = 0 then (Inr [], w)
      else case wait_if K fd timeout w of
        (ret, w1) \<Rightarrow>
          if ret \<noteq> TCMRET_SUCCESS then (Inl ret, w1)
          else (case k_read K fd n w1 of
              (Inl e, w2) \<Rightarrow> (Inl TCMRET_INTERNAL_ERROR, w2)
            | (Inr b, w2) \<Rightarrow>
                if b = [] then (Inl TCMRET_INTERNAL_ERROR, w2)
                else (case read_data K fd timeout (n - length b) w2 of
                    (Inl r, w3) \<Rightarrow> (Inl r, w3)
                  | (Inr bs, w3) \<Rightarrow> (Inr (take n b @ bs), w3))))"
  by pat_completeness auto
termination by (relation "measure (\<lambda>(K, fd, t, n, w). n)") auto

declare read_data.simps [simp del]

text \<open>A data length of 2^31 or more makes \<^verbatim>\<open>totalRemaining\<close> negative, which \<^verbatim>\<open>read\<close> takes as a huge size.\<close>

definition oalMsg_receive ::
    "'w kernel \<Rightarrow> int \<Rightarrow> UINT32 option \<Rightarrow> 'w \<Rightarrow> (tcmRet \<times> tcmMsgHeader option \<times> 'w) run" where
  "oalMsg_receive K fd timeout w =
     (case wait_if K fd timeout w of (ret, w1) \<Rightarrow>
        if ret \<noteq> TCMRET_SUCCESS then Some (ret, None, w1)
        else case k_alloc K w1 of (al, w2) \<Rightarrow>
          if \<not> al then Some (TCMRET_INTERNAL_ERROR, None, w2)
          else case k_read K fd sizeof_tcmMsgHeader w2 of
            (Inl e, w3) \<Rightarrow> Some (if e = 131 then TCMRET_DISCONNECTED else TCMRET_INTERNAL_ERROR, None, w3)
          | (Inr b, w3) \<Rightarrow>
              if b = [] then Some (TCMRET_DISCONNECTED, None, w3)
              else if length b \<noteq> sizeof_tcmMsgHeader then Some (TCMRET_INTERNAL_ERROR, None, w3)
              else let m = header_of b in
                if dataLength m = 0 then Some (TCMRET_SUCCESS, Some m, w3)
                else case k_alloc K w3 of (al2, w4) \<Rightarrow>
                  if \<not> al2 then Some (TCMRET_DISCONNECTED, None, w4)
                  else if 2147483648 \<le> dataLength m then None
                  else (case read_data K fd timeout (unat (dataLength m)) w4 of
                      (Inl r, w5) \<Rightarrow> Some (r, None, w5)
                    | (Inr d, w5) \<Rightarrow> Some (TCMRET_SUCCESS, Some (m\<lparr>mdata := d\<rparr>), w5)))"


section \<open>Connecting to the scheduler\<close>

definition ID_CONSOLE :: int where "ID_CONSOLE = 4"
definition ID_SCHED :: int where "ID_SCHED = 5"

definition APPCFG_MULTIPLE_INSTANCES :: "16 word" where "APPCFG_MULTIPLE_INSTANCES = 0x80"

definition has_flag :: "tcmEntityInfo \<Rightarrow> 16 word \<Rightarrow> bool" where
  "has_flag i f \<longleftrightarrow> and (ei_flags i) f \<noteq> 0"

definition EID_EID_MASK :: UINT32 where "EID_EID_MASK = 0x0000ffff"

definition GENERIC_EID :: "UINT32 \<Rightarrow> UINT32" where "GENERIC_EID e = and e EID_EID_MASK"

definition PID_IN_EID :: "UINT32 \<Rightarrow> UINT32" where "PID_IN_EID e = drop_bit 16 (and e EID_EID_MASK)"

definition MAKE_SPECIFIC_EID :: "int \<Rightarrow> UINT32 \<Rightarrow> UINT32" where
  "MAKE_SPECIFIC_EID p e = or (push_bit 16 (of_int p)) (and e EID_EID_MASK)"

text \<open>
  The handle of a connection. \<^verbatim>\<open>oalMsg_init\<close> fills in the entity and the descriptor of a block
  it gets from \<^verbatim>\<open>malloc\<close>; the put-back queue of a new handle is indeterminate, here \<open>None\<close>.
\<close>

record tcmMsgHandle =
  h_eid :: UINT32
  commFd :: int
  putBackQueue :: "tcmMsgHeader list option"

definition launch_msg :: "'w kernel \<Rightarrow> tcmEntityInfo \<Rightarrow> UINT32 \<Rightarrow> tcmMsgHeader" where
  "launch_msg K i e = put_flag 0 True (EMPTY_MSG_HEADER\<lparr>msg_type := TCM_MSG_APP_LAUNCHED,
     msg_src := (if has_flag i APPCFG_MULTIPLE_INSTANCES then MAKE_SPECIFIC_EID (k_getpid K) e else e),
     msg_dst := of_int ID_SCHED\<rparr>)"

definition oalMsg_init ::
    "'w kernel \<Rightarrow> tcmEntityInfo list \<Rightarrow> UINT32 \<Rightarrow> 'w \<Rightarrow> (tcmRet \<times> tcmMsgHandle option \<times> 'w) run" where
  "oalMsg_init K tab e w =
     (case tcmEid_getEntityInfo tab (uint e) of
        None \<Rightarrow> Some (TCMRET_INVALID_PARAMETER, None, w)
      | Some i \<Rightarrow>
          let (al, w1) = k_alloc K w in
          if \<not> al then Some (TCMRET_INTERNAL_ERROR, None, w1)
          else let (fd, w2) = k_socket K ''AF_LOCAL'' ''SOCK_STREAM'' w1 in
          if fd < 0 then Some (TCMRET_INTERNAL_ERROR, None, w2)
          else let (rc, w3) = k_fcntl K fd w2 in
          if rc \<noteq> 0 then Some (TCMRET_INTERNAL_ERROR, None, k_close K fd w3)
          else let (rc2, w4) = k_connect K fd SCHED_MESSAGE_ADDR w3 in
          if rc2 \<noteq> 0 then Some (TCMRET_INTERNAL_ERROR, None, k_close K fd w4)
          else do { (ret, w5) \<leftarrow> oalMsg_send K fd (launch_msg K i e) w4;
            Some (if ret \<noteq> TCMRET_SUCCESS then (TCMRET_INTERNAL_ERROR, None, k_close K fd w5)
                  else (TCMRET_SUCCESS, Some \<lparr>h_eid = e, commFd = fd, putBackQueue = None\<rparr>, w5)) })"

text \<open>
  \<open>oalMsg_cleanup\<close> closes the descriptor and passes \<^verbatim>\<open>msgHandle\<close>, the address of the caller's
  pointer, to \<^verbatim>\<open>free\<close>: defined only if the caller keeps that pointer in a heap block of its own
  (\<open>heap_cell\<close>); the handle is never freed.
\<close>

definition oalMsg_cleanup :: "'w kernel \<Rightarrow> bool \<Rightarrow> tcmMsgHandle \<Rightarrow> 'w \<Rightarrow> 'w run" where
  "oalMsg_cleanup K heap_cell h w =
     (let w1 = (if commFd h \<noteq> TCM_INVALID_FD then k_close K (commFd h) w else w) in
      if heap_cell then Some w1 else None)"

definition oalMsg_getEventHandle :: "tcmMsgHandle \<Rightarrow> tcmRet \<times> int" where
  "oalMsg_getEventHandle h = (TCMRET_SUCCESS, commFd h)"

section \<open>The library calls (\<^verbatim>\<open>tcm_msg.c\<close>)\<close>

definition tcmMsg_putBack :: "tcmMsgHandle \<Rightarrow> tcmMsgHeader \<Rightarrow> tcmMsgHandle run" where
  "tcmMsg_putBack h m =
     (case putBackQueue h of None \<Rightarrow> None | Some q \<Rightarrow> Some (h\<lparr>putBackQueue := Some (q @ [m])\<rparr>))"

fun requeue_all :: "'w kernel \<Rightarrow> int \<Rightarrow> tcmMsgHeader list \<Rightarrow> 'w \<Rightarrow> 'w run" where
  "requeue_all K fd [] w = Some w"
| "requeue_all K fd (m # ms) w =
     do { (ret, w1) \<leftarrow> oalMsg_send K fd (put_flag 3 True m) w; requeue_all K fd ms w1 }"

definition tcmMsg_requeuePutBacks :: "'w kernel \<Rightarrow> tcmMsgHandle \<Rightarrow> 'w \<Rightarrow> (tcmMsgHandle \<times> 'w) run" where
  "tcmMsg_requeuePutBacks K h w =
     (case putBackQueue h of None \<Rightarrow> None
      | Some q \<Rightarrow> do { w1 \<leftarrow> requeue_all K (commFd h) q w; Some (h\<lparr>putBackQueue := Some []\<rparr>, w1) })"

definition tcmMsg_init ::
    "'w kernel \<Rightarrow> tcmEntityInfo list \<Rightarrow> UINT32 \<Rightarrow> 'w \<Rightarrow> (tcmRet \<times> tcmMsgHandle option \<times> 'w) run" where
  "tcmMsg_init K tab e w = oalMsg_init K tab e w"

definition tcmMsg_cleanup :: "'w kernel \<Rightarrow> bool \<Rightarrow> tcmMsgHandle \<Rightarrow> 'w \<Rightarrow> 'w run" where
  "tcmMsg_cleanup K heap_cell h w =
     (case putBackQueue h of None \<Rightarrow> None
      | Some q \<Rightarrow> oalMsg_cleanup K heap_cell (h\<lparr>putBackQueue := Some []\<rparr>) w)"

definition tcmMsg_send :: "'w kernel \<Rightarrow> tcmMsgHandle \<Rightarrow> tcmMsgHeader \<Rightarrow> 'w \<Rightarrow> (tcmRet \<times> 'w) run" where
  "tcmMsg_send K h m w = oalMsg_send K (commFd h) m w"

definition tcmMsg_sendBySocket :: "'w kernel \<Rightarrow> int \<Rightarrow> tcmMsgHeader \<Rightarrow> 'w \<Rightarrow> (tcmRet \<times> 'w) run" where
  "tcmMsg_sendBySocket K fd m w = oalMsg_send K fd m w"

definition reply_to :: "tcmMsgHeader \<Rightarrow> tcmRet \<Rightarrow> tcmMsgHeader" where
  "reply_to m code = put_flag 2 True (put_flag 1 False (EMPTY_MSG_HEADER\<lparr>msg_dst := msg_src m,
     msg_src := msg_dst m, msg_type := msg_type m, wordData := ret_code code\<rparr>))"

definition tcmMsg_sendReply ::
    "'w kernel \<Rightarrow> tcmMsgHandle \<Rightarrow> tcmMsgHeader \<Rightarrow> tcmRet \<Rightarrow> 'w \<Rightarrow> (tcmRet \<times> 'w) run" where
  "tcmMsg_sendReply K h m code w = oalMsg_send K (commFd h) (reply_to m code) w"

text \<open>
  The loop of \<^verbatim>\<open>sendAndGetReply\<close>: a message of another type goes to the put-back queue and the
  timeout, if there is one, is divided by three. It may receive for ever. The reply is what
  \<open>on_reply\<close> makes of the message of the right type.
\<close>

partial_function (option) await_reply ::
    "(tcmMsgHeader \<Rightarrow> 'r run) \<Rightarrow> 'w kernel \<Rightarrow> UINT32 \<Rightarrow> tcmMsgHandle \<Rightarrow> UINT32 option \<Rightarrow> 'w \<Rightarrow>
       ((tcmRet + 'r) \<times> tcmMsgHandle \<times> 'w) run" where
  "await_reply on_reply K sentType h timeout w =
     do { (ret, r, w1) \<leftarrow> oalMsg_receive K (commFd h) timeout w;
          case r of
            None \<Rightarrow> Some (Inl ret, h, w1)
          | Some m \<Rightarrow>
              if msg_type m = sentType then do { x \<leftarrow> on_reply m; Some (Inr x, h, w1) }
              else do { h1 \<leftarrow> tcmMsg_putBack h m;
                        await_reply on_reply K sentType h1 (map_option (\<lambda>t. t div 3) timeout) w1 } }"

definition sendAndGetReply ::
    "'w kernel \<Rightarrow> tcmMsgHandle \<Rightarrow> tcmMsgHeader \<Rightarrow> UINT32 option \<Rightarrow> 'w \<Rightarrow> (UINT32 \<times> tcmMsgHandle \<times> 'w) run" where
  "sendAndGetReply K h m timeout w =
     do { (ret, w1) \<leftarrow> oalMsg_send K (commFd h) m w;
          if ret \<noteq> TCMRET_SUCCESS then Some (ret_code ret, h, w1)
          else do {
            (r, h1, w2) \<leftarrow> await_reply (\<lambda>a. Some (wordData a)) K (msg_type m) h timeout w1;
            (h2, w3) \<leftarrow> tcmMsg_requeuePutBacks K h1 w2;
            Some (case r of Inl e \<Rightarrow> ret_code e | Inr x \<Rightarrow> x, h2, w3) } }"

text \<open>
  \<^verbatim>\<open>sendAndGetReplyBuf\<close> copies the reply into the caller's buffer (of \<open>cap\<close> bytes) and then frees
  \<^verbatim>\<open>replyBuf\<close>, the address of the caller's pointer to it, instead of the message.
\<close>

definition copy_reply :: "nat \<Rightarrow> bool \<Rightarrow> tcmMsgHeader \<Rightarrow> tcmMsgHeader run" where
  "copy_reply cap heap_cell a =
     (if sizeof_tcmMsgHeader + unat (dataLength a) \<le> cap \<and> heap_cell then Some a else None)"

definition sendAndGetReplyBuf ::
    "'w kernel \<Rightarrow> tcmMsgHandle \<Rightarrow> tcmMsgHeader \<Rightarrow> nat \<Rightarrow> bool \<Rightarrow> UINT32 option \<Rightarrow> 'w \<Rightarrow>
       (tcmRet \<times> tcmMsgHeader option \<times> tcmMsgHandle \<times> 'w) run" where
  "sendAndGetReplyBuf K h m cap heap_cell timeout w =
     do { (ret, w1) \<leftarrow> oalMsg_send K (commFd h) m w;
          if ret \<noteq> TCMRET_SUCCESS then Some (ret, None, h, w1)
          else do {
            (r, h1, w2) \<leftarrow> await_reply (copy_reply cap heap_cell) K (msg_type m) h timeout w1;
            (h2, w3) \<leftarrow> tcmMsg_requeuePutBacks K h1 w2;
            Some (case r of Inl e \<Rightarrow> (e, None, h2, w3) | Inr x \<Rightarrow> (TCMRET_SUCCESS, Some x, h2, w3)) } }"

definition tcmMsg_sendAndGetReply where
  "tcmMsg_sendAndGetReply K h m w = sendAndGetReply K h m None w"

definition tcmMsg_sendAndGetReplyWithTimeout where
  "tcmMsg_sendAndGetReplyWithTimeout K h m ms w = sendAndGetReply K h m (Some ms) w"

definition tcmMsg_sendAndGetReplyBuf where
  "tcmMsg_sendAndGetReplyBuf K h m cap heap_cell w = sendAndGetReplyBuf K h m cap heap_cell None w"

definition tcmMsg_sendAndGetReplyBufWithTimeout where
  "tcmMsg_sendAndGetReplyBufWithTimeout K h m cap heap_cell ms w = sendAndGetReplyBuf K h m cap heap_cell (Some ms) w"

definition tcmMsg_receive where
  "tcmMsg_receive K h w = oalMsg_receive K (commFd h) None w"

definition tcmMsg_receiveBySocket where
  "tcmMsg_receiveBySocket K fd timeout w = oalMsg_receive K fd timeout w"

definition tcmMsg_receiveWithTimeout where
  "tcmMsg_receiveWithTimeout K h ms w = oalMsg_receive K (commFd h) (Some ms) w"

definition tcmMsg_getEventHandle where
  "tcmMsg_getEventHandle h = oalMsg_getEventHandle h"

definition tcmMsg_getHandleEid :: "tcmMsgHandle option \<Rightarrow> UINT32" where
  "tcmMsg_getHandleEid h = (case h of None \<Rightarrow> 0 | Some x \<Rightarrow> h_eid x)"

text \<open>A duplicate holds the header and as many bytes as the header claims.\<close>

definition tcmMsg_duplicate :: "'w kernel \<Rightarrow> tcmMsgHeader \<Rightarrow> 'w \<Rightarrow> (tcmMsgHeader option \<times> 'w) run" where
  "tcmMsg_duplicate K m w =
     (let (al, w1) = k_alloc K w in
      if \<not> al then Some (None, w1)
      else do { b \<leftarrow> msg_bytes m; Some (Some (m\<lparr>mdata := take (unat (dataLength m)) (mdata m)\<rparr>), w1) })"

end
