(* ===== verification/Message_Props.thy ===== *)
theory Message_Props
  imports Message
begin

text \<open>
  What the message library promises: messages written to a stream are read from it one by one,
  each intact; a request for a reply returns the reply and sends every other message that
  arrived meanwhile back; and the two calls that free the wrong block, or use a handle
  whose queue was never set, have no defined result.
\<close>

section \<open>Streams\<close>

text \<open>
  What a connected local stream socket promises (\<open>pend\<close> are the bytes written to \<open>fdo\<close> and not
  yet read from \<open>fdi\<close>): a write appends all its bytes; a read of pending bytes returns a
  non-empty first part of them, of any length up to the one asked for, and a whole header when
  that is there. Memory is available.
\<close>

definition stream_kernel :: "'w kernel \<Rightarrow> int \<Rightarrow> int \<Rightarrow> ('w \<Rightarrow> char list) \<Rightarrow> bool" where
  "stream_kernel K fdo fdi pend \<longleftrightarrow>
     (\<forall>w. fst (k_alloc K w) \<and> pend (snd (k_alloc K w)) = pend w) \<and>
     (\<forall>b w. \<exists>w'. k_write K fdo b w = ((int (length b), 0), w') \<and> pend w' = pend w @ b) \<and>
     (\<forall>n w. 0 < n \<and> pend w \<noteq> [] \<longrightarrow>
        (\<exists>k w'. k_read K fdi n w = (Inr (take k (pend w)), w') \<and> 0 < k \<and> k \<le> n \<and> pend w' = drop k (pend w) \<and>
           (n = sizeof_tcmMsgHeader \<and> n \<le> length (pend w) \<longrightarrow> k = n)))"

definition valid_msg :: "tcmMsgHeader \<Rightarrow> bool" where
  "valid_msg m \<longleftrightarrow> length (mdata m) = unat (dataLength m) \<and> length (mdata m) + sizeof_tcmMsgHeader < 2147483648"

fun send_all :: "'w kernel \<Rightarrow> int \<Rightarrow> tcmMsgHeader list \<Rightarrow> 'w \<Rightarrow> 'w run" where
  "send_all K fd [] w = Some w"
| "send_all K fd (m # ms) w =
     do { (ret, w1) \<leftarrow> oalMsg_send K fd m w; if ret = TCMRET_SUCCESS then send_all K fd ms w1 else None }"

fun receive_n :: "'w kernel \<Rightarrow> int \<Rightarrow> nat \<Rightarrow> 'w \<Rightarrow> (tcmMsgHeader list \<times> 'w) run" where
  "receive_n K fd 0 w = Some ([], w)"
| "receive_n K fd (Suc n) w =
     do { (ret, r, w1) \<leftarrow> oalMsg_receive K fd None w;
          m \<leftarrow> r;
          (ms, w2) \<leftarrow> receive_n K fd n w1;
          Some (m # ms, w2) }"

lemma stream_write:
  "stream_kernel K fdo fdi pend \<Longrightarrow> \<exists>w'. k_write K fdo b w = ((int (length b), 0), w') \<and> pend w' = pend w @ b"
  by (auto simp: stream_kernel_def)

lemma stream_read:
  assumes "stream_kernel K fdo fdi pend" and "0 < n" and "pend w \<noteq> []"
  obtains k w' where "k_read K fdi n w = (Inr (take k (pend w)), w')" and "0 < k" and "k \<le> n"
    and "pend w' = drop k (pend w)" and "n = sizeof_tcmMsgHeader \<Longrightarrow> n \<le> length (pend w) \<Longrightarrow> k = n"
  using assms unfolding stream_kernel_def by meson

lemma stream_alloc:
  assumes "stream_kernel K fdo fdi pend"
  obtains w' where "k_alloc K w = (True, w')" and "pend w' = pend w"
proof (rule that)
  have "fst (k_alloc K w)" and "pend (snd (k_alloc K w)) = pend w" using assms unfolding stream_kernel_def by blast+
  then show "k_alloc K w = (True, snd (k_alloc K w))" and "pend (snd (k_alloc K w)) = pend w"
    by (simp_all add: prod_eq_iff)
qed

lemma valid_totalLen:
  assumes "valid_msg m"
  shows "unat (totalLen m) = sizeof_tcmMsgHeader + length (mdata m)" and "sint (totalLen m) = int (sizeof_tcmMsgHeader + length (mdata m))"
proof -
  have l: "unat (dataLength m) = length (mdata m)" "length (mdata m) + 28 < 2147483648"
    using assms by (auto simp: valid_msg_def sizeof_tcmMsgHeader_def)
  show u: "unat (totalLen m) = sizeof_tcmMsgHeader + length (mdata m)"
    using l by (simp add: totalLen_def sizeof_tcmMsgHeader_def unat_word_ariths)
  show "sint (totalLen m) = int (sizeof_tcmMsgHeader + length (mdata m))"
  proof -
    have "uint (totalLen m) = int (sizeof_tcmMsgHeader + length (mdata m))" using u by (metis of_nat_unat)
    then show ?thesis using l(2) by (simp add: sint_uint signed_take_bit_int_eq_self sizeof_tcmMsgHeader_def)
  qed
qed

lemma msg_bytes_valid: "valid_msg m \<Longrightarrow> msg_bytes m = Some (header_bytes m @ mdata m)"
  using valid_totalLen(1)[of m] by (simp add: msg_bytes_def valid_msg_def)

lemma send_stream:
  assumes "stream_kernel K fdo fdi pend" and "valid_msg m"
  shows "\<exists>w'. oalMsg_send K fdo m w = Some (TCMRET_SUCCESS, w') \<and> pend w' = pend w @ header_bytes m @ mdata m"
  using stream_write[OF assms(1), of "header_bytes m @ mdata m" w] valid_totalLen(2)[OF assms(2)]
  by (auto simp: oalMsg_send_def msg_bytes_valid[OF assms(2)])

lemma read_data_stream:
  assumes "stream_kernel K fdo fdi pend"
  shows "pend w = d @ rest \<Longrightarrow> \<exists>w'. read_data K fdi None (length d) w = (Inr d, w') \<and> pend w' = rest"
proof (induction "length d" arbitrary: d w rule: less_induct)
  case less
  show ?case
  proof (cases "d = []")
    case True
    with less.prems show ?thesis by (simp add: read_data.simps)
  next
    case False
    then have "0 < length d" "pend w \<noteq> []" using less.prems by auto
    from stream_read[OF assms this] obtain k w' where
      r: "k_read K fdi (length d) w = (Inr (take k (pend w)), w')" "0 < k" "k \<le> length d" "pend w' = drop k (pend w)" by metis
    then have t: "take k (pend w) = take k d" "pend w' = drop k d @ rest" using less.prems by auto
    have "length (drop k d) < length d" using r(2) False by simp
    from less.hyps[OF this t(2)] obtain w2 where
      w2: "read_data K fdi None (length d - k) w' = (Inr (drop k d), w2)" "pend w2 = rest" by auto
    have "length (take k d) = k" "take k d \<noteq> []" using r(2,3) False by auto
    then show ?thesis
      using r(1) t(1) w2 False by (subst read_data.simps) (simp add: wait_if_def)
  qed
qed

lemma receive_stream:
  assumes "stream_kernel K fdo fdi pend" and "valid_msg m" and "pend w = header_bytes m @ mdata m @ rest"
  shows "\<exists>w'. oalMsg_receive K fdi None w = Some (TCMRET_SUCCESS, Some m, w') \<and> pend w' = rest"
proof -
  let ?n = sizeof_tcmMsgHeader
  have n: "0 < ?n" by (simp add: sizeof_tcmMsgHeader_def)
  obtain w1 where w1: "k_alloc K w = (True, w1)" "pend w1 = pend w" using stream_alloc[OF assms(1)] by metis
  have l: "?n \<le> length (pend w1)" using w1 assms(3) by simp
  then have "pend w1 \<noteq> []" using n by auto
  from stream_read[OF assms(1) n this] l obtain w2 where
    r: "k_read K fdi ?n w1 = (Inr (take ?n (pend w1)), w2)" "pend w2 = drop ?n (pend w1)" by metis
  have h: "take ?n (pend w1) = header_bytes m" "pend w2 = mdata m @ rest"
    using w1(2) r(2) assms(3) by simp_all
  have nh: "header_bytes m \<noteq> []" using n by (metis length_header_bytes list.size(3) less_irrefl)
  have d: "dataLength m = 0 \<longleftrightarrow> mdata m = []" "\<not> 2147483648 \<le> dataLength m"
    using assms(2) by (auto simp: valid_msg_def unat_eq_0 word_le_nat_alt)
  show ?thesis
  proof (cases "mdata m = []")
    case True
    then have "m\<lparr>mdata := []\<rparr> = m" by simp
    then show ?thesis using True w1 r h d nh
      by (simp add: oalMsg_receive_def wait_if_def header_roundtrip Let_def)
  next
    case False
    obtain w3 where w3: "k_alloc K w2 = (True, w3)" "pend w3 = pend w2" using stream_alloc[OF assms(1)] by metis
    have "pend w3 = mdata m @ rest" using w3 h by simp
    from read_data_stream[OF assms(1) this] obtain w4 where
      "read_data K fdi None (length (mdata m)) w3 = (Inr (mdata m), w4)" "pend w4 = rest" by blast
    then show ?thesis using False w1 r h d nh w3 assms(2)
      by (simp add: oalMsg_receive_def wait_if_def header_roundtrip Let_def valid_msg_def)
  qed
qed

lemma send_all_stream:
  assumes "stream_kernel K fdo fdi pend" and "\<forall>m \<in> set ms. valid_msg m"
  shows "\<exists>w'. send_all K fdo ms w = Some w' \<and> pend w' = pend w @ concat (map (\<lambda>m. header_bytes m @ mdata m) ms)"
  using assms(2)
proof (induction ms arbitrary: w)
  case (Cons m ms)
  then obtain w1 where "oalMsg_send K fdo m w = Some (TCMRET_SUCCESS, w1)" "pend w1 = pend w @ header_bytes m @ mdata m"
    using send_stream[OF assms(1)] by (metis list.set_intros(1))
  with Cons.IH[of w1] Cons.prems show ?case by auto
qed simp

lemma receive_n_stream:
  assumes "stream_kernel K fdo fdi pend" and "\<forall>m \<in> set ms. valid_msg m"
    and "pend w = concat (map (\<lambda>m. header_bytes m @ mdata m) ms) @ rest"
  shows "\<exists>w'. receive_n K fdi (length ms) w = Some (ms, w') \<and> pend w' = rest"
  using assms(2,3)
proof (induction ms arbitrary: w)
  case (Cons m ms)
  have "pend w = header_bytes m @ mdata m @ concat (map (\<lambda>m. header_bytes m @ mdata m) ms) @ rest"
    using Cons.prems(2) by simp
  from receive_stream[OF assms(1) _ this] Cons.prems(1) obtain w1 where
    "oalMsg_receive K fdi None w = Some (TCMRET_SUCCESS, Some m, w1)"
    "pend w1 = concat (map (\<lambda>m. header_bytes m @ mdata m) ms) @ rest" by auto
  with Cons.IH[of w1] Cons.prems(1) show ?case by auto
qed simp

text \<open>C10. Messages sent one after another through a stream socket that is empty at first are received
  one after another in the same order, every field and every byte of data intact, however the
  reads split the data.\<close>

theorem stream_delivers_in_order:
  assumes "stream_kernel K fdo fdi pend" and "\<forall>m \<in> set ms. valid_msg m" and "pend w = []"
  shows "\<exists>w1 w2. send_all K fdo ms w = Some w1 \<and> receive_n K fdi (length ms) w1 = Some (ms, w2) \<and> pend w2 = []"
proof -
  obtain w1 where "send_all K fdo ms w = Some w1" "pend w1 = concat (map (\<lambda>m. header_bytes m @ mdata m) ms)"
    using send_all_stream[OF assms(1,2), of w] assms(3) by auto
  with receive_n_stream[OF assms(1,2), of w1 "[]"] show ?thesis by auto
qed

text \<open>A pipe that hands out at most seven bytes at a time, except for a header.\<close>

definition demo_kernel :: "char list kernel" where
  "demo_kernel = quiet_kernel\<lparr>k_write := \<lambda>fd b w. ((int (length b), 0), w @ b),
     k_read := \<lambda>fd n w. (let k = (if n = sizeof_tcmMsgHeader \<and> n \<le> length w then n else min n 7) in (Inr (take k w), drop k w))\<rparr>"

lemma demo_stream: "stream_kernel demo_kernel 5 5 (\<lambda>w. w)"
  by (auto simp: stream_kernel_def demo_kernel_def quiet_kernel_def Let_def)

definition demo_msgs :: "tcmMsgHeader list" where
  "demo_msgs = [EMPTY_MSG_HEADER\<lparr>msg_type := 7, wordData := 300, dataLength := 10, mdata := ''0123456789''\<rparr>,
     EMPTY_MSG_HEADER\<lparr>msg_type := 9, msg_src := 5\<rparr>]"

theorem stream_delivers_in_order_witness:
  "\<exists>w1 w2. send_all demo_kernel 5 demo_msgs [] = Some w1 \<and> receive_n demo_kernel 5 2 w1 = Some (demo_msgs, w2) \<and> w2 = []"
proof -
  have "\<forall>m \<in> set demo_msgs. valid_msg m"
    by (simp add: demo_msgs_def valid_msg_def EMPTY_MSG_HEADER_def sizeof_tcmMsgHeader_def)
  moreover have "length demo_msgs = 2" by (simp add: demo_msgs_def)
  ultimately show ?thesis using stream_delivers_in_order[OF demo_stream, of demo_msgs "[]"] by metis
qed

section \<open>Requests with a reply\<close>

inductive arrivals :: "'w kernel \<Rightarrow> int \<Rightarrow> tcmMsgHeader list \<Rightarrow> 'w \<Rightarrow> 'w \<Rightarrow> bool" for K fd where
  none: "arrivals K fd [] w w"
| more: "oalMsg_receive K fd None w = Some (TCMRET_SUCCESS, Some m, w1) \<Longrightarrow> arrivals K fd ms w1 w2 \<Longrightarrow>
    arrivals K fd (m # ms) w w2"

lemma await_reply_collects:
  assumes "arrivals K fd ms w w1" and "\<forall>m \<in> set ms. msg_type m \<noteq> t"
    and "oalMsg_receive K fd None w1 = Some (TCMRET_SUCCESS, Some r, w2)" and "msg_type r = t"
    and "putBackQueue h = Some q" and "commFd h = fd"
  shows "await_reply f K t h None w =
    do { x \<leftarrow> f r; Some (Inr x, h\<lparr>putBackQueue := Some (q @ ms)\<rparr>, w2) }"
  using assms
proof (induction ms w w1 arbitrary: h q rule: arrivals.induct)
  case (none w)
  then have eq: "h\<lparr>putBackQueue := Some (q @ [])\<rparr> = h" by (cases h) simp
  show ?case unfolding eq using none by (subst await_reply.simps) simp
next
  case (more w m w1 ms w3)
  let ?h = "h\<lparr>putBackQueue := Some (q @ [m])\<rparr>"
  have "await_reply f K t ?h None w1 = do { x \<leftarrow> f r; Some (Inr x, ?h\<lparr>putBackQueue := Some ((q @ [m]) @ ms)\<rparr>, w2) }"
    by (rule more.IH) (use more.prems in simp_all)
  then show ?case using more by (simp add: await_reply.simps[of f K t h] tcmMsg_putBack_def)
qed

text \<open>Messages that leave through a socket one after another, each with what the call that sent it returned.\<close>

inductive departures :: "'w kernel \<Rightarrow> int \<Rightarrow> (tcmMsgHeader \<times> tcmRet) list \<Rightarrow> 'w \<Rightarrow> 'w \<Rightarrow> bool" for K fd where
  nothing: "departures K fd [] w w"
| another: "oalMsg_send K fd m w = Some (ret, w1) \<Longrightarrow> departures K fd ms w1 w2 \<Longrightarrow> departures K fd ((m, ret) # ms) w w2"

definition requeue_mark :: "tcmMsgHeader \<Rightarrow> tcmMsgHeader" where
  "requeue_mark m = m\<lparr>msg_flags := or (msg_flags m) 8\<rparr>"

lemma requeue_mark_flag: "requeue_mark m = put_flag 3 True m"
  by (simp add: requeue_mark_def put_flag_def set_bit_eq_or push_bit_eq_mult)

lemma requeue_departures:
  "departures K fd ds w w1 \<Longrightarrow> map fst ds = map requeue_mark xs \<Longrightarrow> requeue_all K fd xs w = Some w1"
proof (induction ds w w1 arbitrary: xs rule: departures.induct)
  case (another m w ret w1 ms w2)
  then obtain x ys where "xs = x # ys" "m = requeue_mark x" "map fst ms = map requeue_mark ys" by (cases xs) auto
  then show ?case using another by (simp add: requeue_mark_flag)
qed simp


text \<open>A socket whose incoming messages and outgoing bytes are kept apart.\<close>

definition duplex_kernel :: "(char list \<times> char list) kernel" where
  "duplex_kernel = quiet_kernel\<lparr>k_write := \<lambda>fd b (i, x). ((int (length b), 0), (i, x @ b)),
     k_read := \<lambda>fd n (i, x). (Inr (take n i), (drop n i, x))\<rparr>"

definition demo_request :: tcmMsgHeader where
  "demo_request = EMPTY_MSG_HEADER\<lparr>msg_type := 9, msg_src := 1, msg_dst := 5\<rparr>"

definition demo_event :: tcmMsgHeader where
  "demo_event = EMPTY_MSG_HEADER\<lparr>msg_type := 3, msg_src := 2, msg_dst := 1, wordData := 8\<rparr>"

definition demo_reply :: tcmMsgHeader where
  "demo_reply = EMPTY_MSG_HEADER\<lparr>msg_type := 9, msg_src := 5, msg_dst := 1, wordData := 6\<rparr>"

lemma duplex_receive:
  assumes "dataLength m = 0" and "mdata m = []"
  shows "oalMsg_receive duplex_kernel fd None (header_bytes m @ b, c) = Some (TCMRET_SUCCESS, Some m, (b, c))"
proof -
  have "header_bytes m \<noteq> []" by (metis length_header_bytes list.size(3) sizeof_tcmMsgHeader_def zero_neq_numeral)
  moreover have "m\<lparr>mdata := []\<rparr> = m" using assms by simp
  ultimately show ?thesis using assms
    by (simp add: oalMsg_receive_def wait_if_def duplex_kernel_def quiet_kernel_def header_roundtrip Let_def)
qed

lemma duplex_send:
  assumes "dataLength m = 0" and "mdata m = []"
  shows "oalMsg_send duplex_kernel fd m (b, c) = Some (TCMRET_SUCCESS, (b, c @ header_bytes m))"
proof -
  have "valid_msg m" using assms by (simp add: valid_msg_def sizeof_tcmMsgHeader_def)
  with assms show ?thesis
    by (simp add: oalMsg_send_def msg_bytes_valid duplex_kernel_def quiet_kernel_def valid_totalLen(2))
qed


lemma await_reply_queue_unset:
  assumes "await_reply f K t h timeout w = Some (r, h1, w1)" and "putBackQueue h = None"
  shows "putBackQueue h1 = None"
proof -
  have "putBackQueue h = None \<longrightarrow> putBackQueue (fst (snd y)) = None" if "await_reply f K t h timeout w = Some y" for y
    by (rule await_reply.raw_induct[where P = "\<lambda>f K t h timeout w y. putBackQueue h = None \<longrightarrow> putBackQueue (fst (snd y)) = None", OF _ that])
      (auto simp: run_simps tcmMsg_putBack_def split: option.splits if_splits)
  from this[OF assms(1)] assms(2) show ?thesis by simp
qed

text \<open>A handle as \<open>tcmMsg_init\<close> returns it cannot be used for a request: its put-back queue was
  never set, so whatever the peer answers the call that sends the request and gets a reply has
  no defined result, and neither has \<open>tcmMsg_cleanup\<close>.\<close>

theorem fresh_handle_unusable:
  assumes "tcmMsg_init K tab e w = Some (TCMRET_SUCCESS, Some h, w0)"
    and "oalMsg_send K (commFd h) m w1 = Some (TCMRET_SUCCESS, w2)"
  shows "tcmMsg_sendAndGetReply K h m w1 = None \<and> tcmMsg_cleanup K heap_cell h w1 = None"
proof -
  have q: "putBackQueue h = None"
    using assms(1) by (auto simp: tcmMsg_init_def oalMsg_init_def run_simps Let_def split: option.splits prod.splits if_splits)
  have "await_reply (\<lambda>a. Some (wordData a)) K (msg_type m) h None w2 = Some (r, h1, w3) \<Longrightarrow> putBackQueue h1 = None" for r h1 w3
    using await_reply_queue_unset q by metis
  then have "tcmMsg_sendAndGetReply K h m w1 = None"
    using assms(2) by (cases "await_reply (\<lambda>a. Some (wordData a)) K (msg_type m) h None w2")
      (auto simp: tcmMsg_sendAndGetReply_def sendAndGetReply_def tcmMsg_requeuePutBacks_def)
  then show ?thesis using q by (simp add: tcmMsg_cleanup_def)
qed

theorem fresh_handle_unusable_witness:
  "\<exists>h w0. tcmMsg_init duplex_kernel entityInfoArray 1 ([], []) = Some (TCMRET_SUCCESS, Some h, w0) \<and>
     tcmMsg_sendAndGetReply duplex_kernel h demo_request w0 = None"
proof -
  let ?i = "hd entityInfoArray"
  have e: "tcmEid_getEntityInfo entityInfoArray 1 = Some ?i"
    by (simp add: entityInfoArray_def ID_LAN_def)
  have k: "k_alloc duplex_kernel w = (True, w)" "k_socket duplex_kernel d t w = (5, w)" "k_fcntl duplex_kernel fd w = (0, w)"
    "k_connect duplex_kernel fd a w = (0, w)" for d t w fd a by (simp_all add: duplex_kernel_def quiet_kernel_def)
  have l: "dataLength (launch_msg duplex_kernel ?i 1) = 0" "mdata (launch_msg duplex_kernel ?i 1) = []"
    by (simp_all add: launch_msg_def put_flag_def EMPTY_MSG_HEADER_def)
  have i: "tcmMsg_init duplex_kernel entityInfoArray 1 ([], []) =
      Some (TCMRET_SUCCESS, Some \<lparr>h_eid = 1, commFd = 5, putBackQueue = None\<rparr>, ([], header_bytes (launch_msg duplex_kernel ?i 1)))"
    using duplex_send[OF l, of 5 "[]" "[]"] by (simp add: tcmMsg_init_def oalMsg_init_def e k del: One_nat_def)
  have s: "oalMsg_send duplex_kernel (commFd \<lparr>h_eid = 1, commFd = 5, putBackQueue = None\<rparr>) demo_request
      ([], header_bytes (launch_msg duplex_kernel ?i 1)) =
      Some (TCMRET_SUCCESS, ([], header_bytes (launch_msg duplex_kernel ?i 1) @ header_bytes demo_request))"
    using duplex_send[of demo_request] by (simp add: demo_request_def EMPTY_MSG_HEADER_def)
  show ?thesis using fresh_handle_unusable[OF i s] i by blast
qed


section \<open>What is received\<close>

lemma read_data_typed:
  "(case fst (read_data K fd t n w) of Inr d \<Rightarrow> length d = n | Inl r \<Rightarrow> r \<noteq> TCMRET_SUCCESS)"
proof (induction n arbitrary: w rule: less_induct)
  case (less n)
  show ?case
  proof (cases "n = 0")
    case False
    obtain ret w1 where r: "wait_if K fd t w = (ret, w1)" by (cases "wait_if K fd t w")
    show ?thesis
    proof (cases "\<exists>b w2. ret = TCMRET_SUCCESS \<and> k_read K fd n w1 = (Inr b, w2) \<and> b \<noteq> []")
      case True
      then obtain b w2 where b: "ret = TCMRET_SUCCESS" "k_read K fd n w1 = (Inr b, w2)" "b \<noteq> []" by blast
      then have "n - length b < n" using False by (cases b) auto
      from less.IH[OF this, of w2] show ?thesis
        by (subst read_data.simps) (auto simp: r b False split: prod.splits sum.splits)
    next
      case f: False
      then show ?thesis
        by (subst read_data.simps) (auto simp: r False split: prod.splits sum.splits)
    qed
  qed (simp add: read_data.simps)
qed

lemma read_data_result:
  "read_data K fd t n w = (Inr d, w') \<Longrightarrow> length d = n" "read_data K fd t n w \<noteq> (Inl TCMRET_SUCCESS, w')"
  using read_data_typed[of n K fd t w] by auto

lemma room_to_send:
  assumes "length (mdata x) = unat (dataLength x)" "dataLength x < 2147483648"
  shows "msg_bytes x \<noteq> None"
proof -
  have "unat (dataLength x) < 2147483648" using assms(2) by (simp add: word_less_nat_alt)
  then have "unat (totalLen x) = 28 + unat (dataLength x)"
    by (simp add: totalLen_def sizeof_tcmMsgHeader_def unat_word_ariths)
  then show ?thesis using assms by (simp add: msg_bytes_def sizeof_tcmMsgHeader_def)
qed

text \<open>C33. Whatever the peer sends and the kernel returns, a receive has a defined result unless the peer's header says that 2^31 bytes
  or more of data follow and memory for them is granted. It then hands out a message exactly when it reports
  success, and the message is well formed: its data are as long as its length field says, and it can be sent on.
\<close>

theorem received_well_formed:
  "(oalMsg_receive K fd timeout w = None \<longleftrightarrow>
      (\<exists>w1 w2 b w3 w4. wait_if K fd timeout w = (TCMRET_SUCCESS, w1) \<and> k_alloc K w1 = (True, w2) \<and>
         k_read K fd sizeof_tcmMsgHeader w2 = (Inr b, w3) \<and> length b = sizeof_tcmMsgHeader \<and>
         2147483648 \<le> dataLength (header_of b) \<and> k_alloc K w3 = (True, w4))) \<and>
   (\<forall>r m w'. oalMsg_receive K fd timeout w = Some (r, m, w') \<longrightarrow> (m \<noteq> None) = (r = TCMRET_SUCCESS) \<and>
      (\<forall>x. m = Some x \<longrightarrow> length (mdata x) = unat (dataLength x) \<and> msg_bytes x \<noteq> None))"
proof (intro conjI allI impI)
  show "oalMsg_receive K fd timeout w = None \<longleftrightarrow>
      (\<exists>w1 w2 b w3 w4. wait_if K fd timeout w = (TCMRET_SUCCESS, w1) \<and> k_alloc K w1 = (True, w2) \<and>
         k_read K fd sizeof_tcmMsgHeader w2 = (Inr b, w3) \<and> length b = sizeof_tcmMsgHeader \<and>
         2147483648 \<le> dataLength (header_of b) \<and> k_alloc K w3 = (True, w4))"
    by (auto simp: oalMsg_receive_def Let_def sizeof_tcmMsgHeader_def split: prod.splits sum.splits if_splits)
next
  fix r m w' assume a: "oalMsg_receive K fd timeout w = Some (r, m, w')"
  let ?ok = "\<lambda>(r, m, w). (m \<noteq> None) = (r = TCMRET_SUCCESS) \<and>
      (\<forall>x. m = Some x \<longrightarrow> length (mdata x) = unat (dataLength x) \<and> dataLength x < 2147483648)"
  have ok: "?ok (r, m, w')"
    using a
    by (auto simp: oalMsg_receive_def Let_def header_of_def not_le read_data_result dest: read_data_result(1)
        split: prod.splits if_splits sum.splits)
  then show "(m \<noteq> None) = (r = TCMRET_SUCCESS)" by simp
  { fix x assume "m = Some x"
    with ok show "length (mdata x) = unat (dataLength x)" and "msg_bytes x \<noteq> None" using room_to_send by auto }
qed

theorem received_well_formed_witness:
  "\<exists>x w'. oalMsg_receive demo_kernel 5 None (header_bytes (hd demo_msgs) @ mdata (hd demo_msgs)) = Some (TCMRET_SUCCESS, Some x, w')
    \<and> length (mdata x) = unat (dataLength x) \<and> msg_bytes x \<noteq> None"
proof -
  have "valid_msg (hd demo_msgs)"
    by (simp add: demo_msgs_def valid_msg_def EMPTY_MSG_HEADER_def sizeof_tcmMsgHeader_def)
  then obtain w' where "oalMsg_receive demo_kernel 5 None (header_bytes (hd demo_msgs) @ mdata (hd demo_msgs))
      = Some (TCMRET_SUCCESS, Some (hd demo_msgs), w')"
    using receive_stream[OF demo_stream, of "hd demo_msgs" "header_bytes (hd demo_msgs) @ mdata (hd demo_msgs)" "[]"] by auto
  with received_well_formed[THEN conjunct2, rule_format, OF this] show ?thesis by auto
qed

end
