(* ===== verification/Process.thy ===== *)
theory Process
  imports Kernel
begin

text \<open>
  \<^verbatim>\<open>sched/prctl.c\<close>: starting, signalling and collecting processes. The child's side of a fork
  (descriptors, signal handlers, \<^verbatim>\<open>execv\<close>) happens in another process and is not modelled; the
  kernel gets the executable and the argument vector.
\<close>

section \<open>Data\<close>

datatype SpawnProcessMode = SPAWN_AND_RETURN | SPAWN_AND_WAIT

text \<open>A cleared structure has neither of the two states.\<close>

datatype SpawnedProcessStatus = PSTAT_ZERO | PSTAT_RUNNING | PSTAT_EXITED

datatype CollectProcessMode = COLLECT_PID | COLLECT_PID_TIMEOUT | COLLECT_ANY | COLLECT_ANY_TIMEOUT

record CollectProcessInfo =
  collectMode :: CollectProcessMode
  ci_pid :: int
  ci_timeout :: UINT32

record SpawnProcessInfo =
  exe :: string
  args :: "string option"
  spawnMode :: SpawnProcessMode
  si_timeout :: UINT32

record SpawnedProcessInfo =
  pi_pid :: int
  pi_status :: SpawnedProcessStatus
  signalNumber :: int
  exitCode :: int

definition cleared_info :: SpawnedProcessInfo where
  "cleared_info = \<lparr>pi_pid = 0, pi_status = PSTAT_ZERO, signalNumber = 0, exitCode = 0\<rparr>"

definition COLLECT_WAIT_INTERVAL_MS :: UINT32 where "COLLECT_WAIT_INTERVAL_MS = 40"
definition SIGKILL :: int where "SIGKILL = 9"
definition SIGTERM :: int where "SIGTERM = 15"

text \<open>The macros on the status word of \<^verbatim>\<open>waitpid\<close>.\<close>

definition WTERMSIG :: "UINT32 \<Rightarrow> int" where "WTERMSIG s = uint (and s 0x7f)"
definition WIFSIGNALED :: "UINT32 \<Rightarrow> bool" where "WIFSIGNALED s \<longleftrightarrow> 0 < WTERMSIG s \<and> WTERMSIG s < 0x7f"
definition WEXITSTATUS :: "UINT32 \<Rightarrow> int" where "WEXITSTATUS s = uint (drop_bit 8 (and s 0xff00))"

section \<open>Collecting a process\<close>

definition sleep_time :: "UINT32 \<Rightarrow> UINT32" where
  "sleep_time remaining =
     (if COLLECT_WAIT_INTERVAL_MS < remaining then COLLECT_WAIT_INTERVAL_MS else remaining - 1)"

lemma sleep_time_decreases: "1 < r \<Longrightarrow> unat (r - sleep_time r) < unat r"
  by (auto simp: sleep_time_def COLLECT_WAIT_INTERVAL_MS_def word_less_nat_alt unat_sub_if_size word_size
      split: if_splits)

text \<open>The loop; its result is the final return code and what is filled into \<^verbatim>\<open>procInfo\<close>.\<close>

function collect_loop ::
    "'w kernel \<Rightarrow> int \<Rightarrow> bool \<Rightarrow> UINT32 \<Rightarrow> 'w \<Rightarrow> ((tcmRet \<times> SpawnedProcessInfo) \<times> 'w) run" where
  "collect_loop K requestedPid nohang remaining w =
     (if remaining = 0 then Some ((TCMRET_SUCCESS, cleared_info), w)
      else (case k_waitpid K requestedPid nohang w of
          None \<Rightarrow> None
        | Some ((rc, status), w1) \<Rightarrow>
            if rc = 0 then
              (if 1 < remaining
               then collect_loop K requestedPid nohang (remaining - sleep_time remaining)
                      (k_usleep K (sleep_time remaining * of_int USECS_IN_MSEC) w1)
               else Some ((TCMRET_SUCCESS, cleared_info), w1))
            else if 0 < rc then
              Some ((TCMRET_SUCCESS, \<lparr>pi_pid = rc, pi_status = PSTAT_EXITED,
                signalNumber = (if WIFSIGNALED status then WTERMSIG status else 0),
                exitCode = WEXITSTATUS status\<rparr>), w1)
            else Some ((TCMRET_INVALID_ARGUMENTS, cleared_info), w1)))"
  by pat_completeness auto
termination
  by (relation "measure (\<lambda>(K, p, n, r, w). unat r)") (simp_all add: sleep_time_decreases)

declare collect_loop.simps [simp del]

definition oal_collectProcess ::
    "'w kernel \<Rightarrow> CollectProcessInfo \<Rightarrow> 'w \<Rightarrow> ((tcmRet \<times> SpawnedProcessInfo) \<times> 'w) run" where
  "oal_collectProcess K c w =
     (let (requestedPid, t, nohang) =
        (case collectMode c of
           COLLECT_PID \<Rightarrow> (ci_pid c, 0, False)
         | COLLECT_PID_TIMEOUT \<Rightarrow> (ci_pid c, ci_timeout c, True)
         | COLLECT_ANY \<Rightarrow> (- 1, 0, False)
         | COLLECT_ANY_TIMEOUT \<Rightarrow> (- 1, ci_timeout c, True)) in
      do { ((ret, p), w1) \<leftarrow> collect_loop K requestedPid nohang (if t \<le> 1 then t + 1 else t) w;
           Some ((if pi_status p \<noteq> PSTAT_EXITED then TCMRET_TIMED_OUT else ret, p), w1) })"

definition oal_signalProcess :: "'w kernel \<Rightarrow> int \<Rightarrow> int \<Rightarrow> 'w \<Rightarrow> tcmRet \<times> 'w" where
  "oal_signalProcess K p sig w =
     (if p \<le> 0 then (TCMRET_INVALID_ARGUMENTS, w)
      else case k_kill K p sig w of
        (rc, w1) \<Rightarrow> (if rc < 0 then TCMRET_INVALID_ARGUMENTS else TCMRET_SUCCESS, w1))"

definition prctl_collectProcess where "prctl_collectProcess K c w = oal_collectProcess K c w"
definition prctl_signalProcess where "prctl_signalProcess K p sig w = oal_signalProcess K p sig w"
definition prctl_terminateProcessForcefully where
  "prctl_terminateProcessForcefully K p w = oal_signalProcess K p SIGTERM w"

section \<open>The argument vector\<close>

text \<open>The array of pointers is a list of optional strings of its allocated length; \<^verbatim>\<open>NULL\<close> is \<open>None\<close>.\<close>

fun count_args :: "bool \<Rightarrow> nat \<Rightarrow> string \<Rightarrow> nat" where
  "count_args inSpace n [] = n"
| "count_args inSpace n (c # cs) =
     (if c = CHR '' '' \<and> \<not> inSpace then count_args True (n + 1) cs else count_args False n cs)"

definition store_arg :: "string option list \<Rightarrow> nat \<Rightarrow> string \<Rightarrow> string option list run" where
  "store_arg a i s = (if i < length a then Some (a[i := Some s]) else None)"

text \<open>\<^verbatim>\<open>freeArgs\<close> walks to the first \<^verbatim>\<open>NULL\<close>; without one it leaves the array.\<close>

fun freeArgs :: "string option list \<Rightarrow> unit run" where
  "freeArgs [] = None"
| "freeArgs (None # a) = Some ()"
| "freeArgs (Some s # a) = freeArgs a"

definition command_name :: "string \<Rightarrow> string" where
  "command_name cmd = rev (takeWhile (\<lambda>c. c \<noteq> CHR ''/'') (rev cmd))"

fun fill_args :: "'w kernel \<Rightarrow> string option list \<Rightarrow> nat \<Rightarrow> bool \<Rightarrow> string \<Rightarrow> 'w \<Rightarrow>
    (tcmRet \<times> string option list \<times> 'w) run" where
  "fill_args K a argIndex inSpace [] w = Some (TCMRET_SUCCESS, a, w)"
| "fill_args K a argIndex inSpace (c # cs) w =
     (if c = CHR '' '' \<and> \<not> inSpace then fill_args K a argIndex True cs w
      else if c \<noteq> CHR '' '' \<and> inSpace then
        (case k_alloc K w of (al, w1) \<Rightarrow>
          if \<not> al then do { _ \<leftarrow> freeArgs a; Some (TCMRET_RESOURCE_EXCEEDED, [], w1) }
          else do { a1 \<leftarrow> store_arg a argIndex (takeWhile (\<lambda>c. c \<noteq> CHR '' '') (c # cs));
                    fill_args K a1 (argIndex + 1) False cs w1 })
      else fill_args K a argIndex inSpace cs w)"

definition parseArgs ::
    "'w kernel \<Rightarrow> string \<Rightarrow> string option \<Rightarrow> 'w \<Rightarrow> (tcmRet \<times> string option list \<times> 'w) run" where
  "parseArgs K cmd arg w =
     (let s = (case arg of None \<Rightarrow> [] | Some x \<Rightarrow> x);
          n = count_args True 3 s;
          (al, w1) = k_alloc K w in
      if \<not> al then Some (TCMRET_RESOURCE_EXCEEDED, [], w1)
      else let a = replicate n None; (al2, w2) = k_alloc K w1 in
      if \<not> al2 then do { _ \<leftarrow> freeArgs a; Some (TCMRET_RESOURCE_EXCEEDED, [], w2) }
      else do { a1 \<leftarrow> store_arg a 0 (command_name cmd);
                (ret, a2, w3) \<leftarrow> fill_args K a1 1 True s w2;
                if ret \<noteq> TCMRET_SUCCESS then Some (ret, [], w3)
                else do { _ \<leftarrow> freeArgs a2; Some (TCMRET_SUCCESS, a2, w3) } })"

text \<open>The strings before the first \<^verbatim>\<open>NULL\<close>, which \<^verbatim>\<open>execv\<close> gets.\<close>

definition argv_of :: "string option list \<Rightarrow> string list" where
  "argv_of a = map the (takeWhile (\<lambda>x. x \<noteq> None) a)"

section \<open>Spawning\<close>

definition await_child ::
    "'w kernel \<Rightarrow> int \<Rightarrow> UINT32 \<Rightarrow> 'w \<Rightarrow> ((tcmRet \<times> SpawnedProcessInfo) \<times> 'w) run" where
  "await_child K p timeout w =
     do { ((ret, info), w1) \<leftarrow> oal_collectProcess K \<lparr>collectMode = COLLECT_PID_TIMEOUT, ci_pid = p, ci_timeout = timeout\<rparr> w;
          if ret = TCMRET_TIMED_OUT then
            (case oal_signalProcess K p SIGKILL w1 of (r2, w2) \<Rightarrow>
              do { ((r3, info3), w3) \<leftarrow> oal_collectProcess K
                     \<lparr>collectMode = COLLECT_PID_TIMEOUT, ci_pid = p, ci_timeout = COLLECT_WAIT_INTERVAL_MS\<rparr> w2;
                   Some ((if r3 = TCMRET_SUCCESS then TCMRET_SUCCESS else ret, info3), w3) })
          else Some ((ret, info), w1) }"

text \<open>When the arguments cannot be allocated, \<^verbatim>\<open>procInfo\<close> is not touched; the callers do not read it then.\<close>

definition prctl_spawnProcess ::
    "'w kernel \<Rightarrow> SpawnProcessInfo \<Rightarrow> 'w \<Rightarrow> ((tcmRet \<times> SpawnedProcessInfo option) \<times> 'w) run" where
  "prctl_spawnProcess K si w =
     do { (ret, a, w1) \<leftarrow> parseArgs K (exe si) (args si) w;
          if ret \<noteq> TCMRET_SUCCESS then Some ((ret, None), w1)
          else case k_fork K (exe si) (argv_of a) w1 of
            (p, w2) \<Rightarrow>
              do { _ \<leftarrow> freeArgs a;
                   if spawnMode si = SPAWN_AND_WAIT
                   then do { ((r, info), w3) \<leftarrow> await_child K p (si_timeout si) w2; Some ((r, Some info), w3) }
                   else Some ((TCMRET_SUCCESS, Some (cleared_info\<lparr>pi_pid := p, pi_status := PSTAT_RUNNING\<rparr>)), w2) } }"

section \<open>Properties\<close>

lemma collect_loop_timeout:
  assumes "\<And>w. \<exists>s w'. k_waitpid K p True w = Some ((0, s), w') \<and> slept w' = slept w"
    and "\<And>us w. slept (k_usleep K us w) = slept w + unat us"
  shows "0 < r \<Longrightarrow> \<exists>w'. collect_loop K p True r w = Some ((TCMRET_SUCCESS, cleared_info), w') \<and>
    slept w' = slept w + 1000 * (unat r - 1)"
proof (induction "unat r" arbitrary: r w rule: less_induct)
  case less
  obtain s w1 where w1: "k_waitpid K p True w = Some ((0, s), w1)" "slept w1 = slept w" using assms(1) by blast
  show ?case
  proof (cases "1 < r")
    case False
    then have "unat r = 1" using less.prems by (simp add: word_less_nat_alt)
    then show ?thesis using w1 False less.prems by (subst collect_loop.simps) simp
  next
    case True
    let ?t = "sleep_time r"
    have t: "unat ?t = (if 40 < unat r then 40 else unat r - 1)"
      using True by (auto simp: sleep_time_def COLLECT_WAIT_INTERVAL_MS_def word_less_nat_alt unat_sub_if_size word_size)
    have r: "unat (r - ?t) = unat r - unat ?t" using t by (simp add: unat_sub_if_size word_size)
    have us: "unat (?t * of_int USECS_IN_MSEC) = 1000 * unat ?t"
      using t by (simp add: USECS_IN_MSEC_def unat_word_ariths)
    have "0 < r - ?t" using r t True by (simp add: word_less_nat_alt split: if_splits)
    from less.hyps[OF sleep_time_decreases[OF True] this] obtain w2 where
      "collect_loop K p True (r - ?t) (k_usleep K (?t * of_int USECS_IN_MSEC) w1) = Some ((TCMRET_SUCCESS, cleared_info), w2)"
      "slept w2 = slept (k_usleep K (?t * of_int USECS_IN_MSEC) w1) + 1000 * (unat (r - ?t) - 1)" by blast
    moreover have "slept (k_usleep K (?t * of_int USECS_IN_MSEC) w1) + 1000 * (unat (r - ?t) - 1) = slept w + 1000 * (unat r - 1)"
      using assms(2) w1(2) us r t True by (simp add: word_less_nat_alt split: if_splits)
    ultimately show ?thesis using w1(1) True less.prems by (subst collect_loop.simps) simp
  qed
qed

text \<open>Collecting a process with a timeout of at least two milliseconds ends: as long as the
  process does not exit, the call sleeps exactly one millisecond less than the timeout in all,
  never more than forty at once, and returns \<open>TCMRET_TIMED_OUT\<close>.\<close>

theorem collect_waits_timeout:
  assumes "\<And>w. \<exists>s w'. k_waitpid K p True w = Some ((0, s), w') \<and> slept w' = slept w"
    and "\<And>us w. slept (k_usleep K us w) = slept w + unat us" and "2 \<le> t"
  shows "\<exists>w'. prctl_collectProcess K \<lparr>collectMode = COLLECT_PID_TIMEOUT, ci_pid = p, ci_timeout = t\<rparr> w =
      Some ((TCMRET_TIMED_OUT, cleared_info), w') \<and> slept w' = slept w + 1000 * (unat t - 1)"
proof -
  have "0 < t" "\<not> t \<le> 1" using assms(3) by (auto simp: word_less_nat_alt word_le_nat_alt)
  from collect_loop_timeout[OF assms(1,2) this(1), of w] this(2) show ?thesis
    by (auto simp: prctl_collectProcess_def oal_collectProcess_def cleared_info_def)
qed

definition idle_kernel :: "nat kernel" where
  "idle_kernel = quiet_kernel\<lparr>k_usleep := \<lambda>us w. w + unat us\<rparr>"

theorem collect_waits_timeout_witness:
  "\<exists>w'. prctl_collectProcess idle_kernel \<lparr>collectMode = COLLECT_PID_TIMEOUT, ci_pid = 9, ci_timeout = 5000\<rparr> 0 =
     Some ((TCMRET_TIMED_OUT, cleared_info), w') \<and> w' = 4999000"
proof -
  have "\<exists>s w'. k_waitpid idle_kernel 9 True w = Some ((0, s), w') \<and> id w' = id w" for w by (simp add: idle_kernel_def quiet_kernel_def)
  moreover have "id (k_usleep idle_kernel us w) = id w + unat us" for us w by (simp add: idle_kernel_def quiet_kernel_def)
  moreover have "(2 :: UINT32) \<le> 5000" by simp
  ultimately show ?thesis using collect_waits_timeout[of idle_kernel 9 id 5000 0] by auto
qed

text \<open>A failure of \<^verbatim>\<open>waitpid\<close> (there is no such child) is never reported: the code sets
  \<open>TCMRET_INVALID_ARGUMENTS\<close> and then overwrites it, so that collecting returns either success with
  an exited process or \<open>TCMRET_TIMED_OUT\<close>.\<close>

lemma collect_loop_outcome:
  "collect_loop K p n r w = Some ((ret, info), w1) \<Longrightarrow> pi_status info = PSTAT_EXITED \<Longrightarrow> ret = TCMRET_SUCCESS"
proof (induction K p n r w rule: collect_loop.induct)
  case (1 K p n r w)
  from 1(2,3) 1(1) show ?case
    by (simp add: collect_loop.simps[of K p n r w] split: if_splits option.splits prod.splits)
      (auto simp: cleared_info_def)
qed

theorem collect_hides_errors:
  "oal_collectProcess K c w = Some ((ret, info), w1) \<Longrightarrow>
     ret = (if pi_status info = PSTAT_EXITED then TCMRET_SUCCESS else TCMRET_TIMED_OUT)"
  using collect_loop_outcome
  by (auto simp: oal_collectProcess_def run_simps Let_def split: CollectProcessMode.splits prod.splits)

text \<open>What the argument string means: its maximal pieces without a space, in order.\<close>

lemma dropWhile_head: "dropWhile P xs = c # cs \<Longrightarrow> \<not> P c"
  by (induction xs) (auto split: if_splits)

function words :: "string \<Rightarrow> string list" where
  "words s = (case dropWhile (\<lambda>c. c = CHR '' '') s of [] \<Rightarrow> []
     | t \<Rightarrow> takeWhile (\<lambda>c. c \<noteq> CHR '' '') t # words (dropWhile (\<lambda>c. c \<noteq> CHR '' '') t))"
  by pat_completeness auto
termination
proof (relation "measure length", simp)
  fix s t :: string and c and cs
  assume t: "dropWhile (\<lambda>c. c = CHR '' '') s = c # cs" and "t = c # cs"
  have "c \<noteq> CHR '' ''" using dropWhile_head[OF t] .
  moreover have "length (c # cs) \<le> length s" using t by (metis length_dropWhile_le)
  ultimately show "(dropWhile (\<lambda>c. c \<noteq> CHR '' '') (c # cs), s) \<in> measure length"
    using length_dropWhile_le[of "\<lambda>c. c \<noteq> CHR '' ''" cs] by simp
qed

declare words.simps [simp del]

fun starts :: "bool \<Rightarrow> string \<Rightarrow> string list" where
  "starts inSpace [] = []"
| "starts inSpace (c # cs) =
     (if c = CHR '' '' \<and> \<not> inSpace then starts True cs
      else if c \<noteq> CHR '' '' \<and> inSpace then takeWhile (\<lambda>c. c \<noteq> CHR '' '') (c # cs) # starts False cs
      else starts inSpace cs)"

lemma starts_skip: "starts False s = starts True (dropWhile (\<lambda>c. c \<noteq> CHR '' '') s)"
  by (induction s) auto

lemma starts_spaces: "starts True (dropWhile (\<lambda>c. c = CHR '' '') s) = starts True s"
  by (induction s) auto

lemma starts_words: "starts True s = words s"
proof (induction s rule: words.induct)
  case (1 s)
  show ?case
  proof (cases "dropWhile (\<lambda>c. c = CHR '' '') s")
    case Nil
    have "starts True s = []" using starts_spaces[of s] unfolding Nil by simp
    then show ?thesis unfolding words.simps[of s] Nil by simp
  next
    case (Cons c cs)
    then have c: "c \<noteq> CHR '' ''" by (rule dropWhile_head)
    with 1[OF Cons] Cons starts_spaces[of s] show ?thesis
      by (simp add: words.simps[of s] starts_skip[of cs])
  qed
qed

lemma count_bounds_starts:
  "f \<or> \<not> c \<Longrightarrow> n + length (starts f s) \<le> count_args c n s + (if f then 1 else 0)"
proof (induction s arbitrary: f c n)
  case (Cons x s)
  show ?case
    using Cons.IH[of True True "n + 1"] Cons.IH[of False False n] Cons.IH[of True False n] Cons.prems
    by auto
qed simp

lemma fill_args_starts:
  assumes "\<And>w. fst (k_alloc K w)"
  shows "a = map Some pre @ replicate k None \<Longrightarrow> i = length pre \<Longrightarrow> length (starts f s) < k \<Longrightarrow>
    \<exists>w' j. fill_args K a i f s w = Some (TCMRET_SUCCESS, map Some (pre @ starts f s) @ replicate (Suc j) None, w')"
proof (induction s arbitrary: a pre k i f w)
  case Nil
  then obtain j where "k = Suc j" by (cases k) auto
  with Nil show ?case by auto
next
  case (Cons c s)
  show ?case
  proof (cases "c \<noteq> CHR '' '' \<and> f")
    case True
    let ?x = "takeWhile (\<lambda>c. c \<noteq> CHR '' '') (c # s)"
    obtain w1 where w1: "k_alloc K w = (True, w1)" using assms[of w] by (cases "k_alloc K w") auto
    obtain k' where k: "k = Suc k'" using Cons.prems(3) by (cases k) auto
    have "store_arg a i ?x = Some (map Some (pre @ [?x]) @ replicate k' None)"
      using Cons.prems(1,2) k by (simp add: store_arg_def list_update_append)
    with Cons.IH[of "map Some (pre @ [?x]) @ replicate k' None" "pre @ [?x]" k' "i + 1" False w1] Cons.prems True w1 k
    show ?thesis by auto
  next
    case False
    then show ?thesis
      using Cons.IH[OF Cons.prems(1,2), of True w] Cons.IH[OF Cons.prems(1,2), of f w] Cons.prems(3) by (auto split: if_splits)
  qed
qed

lemma freeArgs_ok: "freeArgs (map Some xs @ replicate (Suc j) None) = Some ()"
  by (induction xs) auto

lemma argv_of_filled: "argv_of (map Some xs @ replicate (Suc j) None) = xs"
  by (induction xs) (auto simp: argv_of_def)

lemma parseArgs_words:
  assumes "\<And>w. fst (k_alloc K w)"
  shows "\<exists>w' j. parseArgs K cmd arg w = Some (TCMRET_SUCCESS,
    map Some (command_name cmd # words (case arg of None \<Rightarrow> [] | Some x \<Rightarrow> x)) @ replicate (Suc j) None, w')"
proof -
  let ?s = "case arg of None \<Rightarrow> [] | Some x \<Rightarrow> x"
  obtain k where k: "count_args True 3 ?s = Suc k" and l: "length (starts True ?s) < k"
  proof -
    have "3 + length (starts True ?s) \<le> count_args True 3 ?s + 1" using count_bounds_starts[of True True 3 ?s] by simp
    then show thesis using that[of "count_args True 3 ?s - 1"] by linarith
  qed
  obtain w1 w2 where w: "k_alloc K w = (True, w1)" "k_alloc K w1 = (True, w2)"
    using assms by (metis prod.collapse)
  have "store_arg (replicate (Suc k) None) 0 (command_name cmd) = Some (map Some [command_name cmd] @ replicate k None)"
    by (simp add: store_arg_def)
  moreover from fill_args_starts[OF assms refl _ l, of 1 "[command_name cmd]" w2] obtain w3 j where
    "fill_args K (map Some [command_name cmd] @ replicate k None) 1 True ?s w2 =
      Some (TCMRET_SUCCESS, map Some ([command_name cmd] @ starts True ?s) @ replicate (Suc j) None, w3)" by auto
  ultimately show ?thesis
    using w k freeArgs_ok[of "[command_name cmd] @ starts True ?s" j]
    by (auto simp: parseArgs_def Let_def starts_words)
qed

text \<open>C35. The argument vector of a spawned process is the last component of the path followed by the
  pieces of the argument string between spaces, in order, whatever spaces come first, last or
  in a row: the array is always large enough for them and its terminating \<^verbatim>\<open>NULL\<close>.\<close>

theorem parseArgs_splits:
  assumes "\<And>w. fst (k_alloc K w)"
  shows "\<exists>a w'. parseArgs K cmd arg w = Some (TCMRET_SUCCESS, a, w') \<and>
    argv_of a = command_name cmd # words (case arg of None \<Rightarrow> [] | Some x \<Rightarrow> x) \<and> freeArgs a = Some ()"
proof -
  obtain w' j where "parseArgs K cmd arg w = Some (TCMRET_SUCCESS,
    map Some (command_name cmd # words (case arg of None \<Rightarrow> [] | Some x \<Rightarrow> x)) @ replicate (Suc j) None, w')"
    using parseArgs_words[OF assms] by blast
  then show ?thesis using argv_of_filled freeArgs_ok by blast
qed

theorem parseArgs_splits_witness:
  "\<exists>a w'. parseArgs idle_kernel ''/bin/dhcpd'' (Some ''  -f  eth0 '') 0 = Some (TCMRET_SUCCESS, a, w') \<and>
     argv_of a = [''dhcpd'', ''-f'', ''eth0'']"
proof -
  have "fst (k_alloc idle_kernel w)" for w by (simp add: idle_kernel_def quiet_kernel_def)
  moreover have "command_name ''/bin/dhcpd'' = ''dhcpd''" "words ''  -f  eth0 '' = [''-f'', ''eth0'']"
    by (simp_all add: command_name_def words.simps)
  ultimately show ?thesis using parseArgs_splits[of idle_kernel "''/bin/dhcpd''" "Some ''  -f  eth0 ''" 0] by auto
qed

theorem collect_hides_errors_witness:
  "\<exists>w'. oal_collectProcess (idle_kernel\<lparr>k_waitpid := \<lambda>p n w. Some ((- 1, 0), w)\<rparr>)
     \<lparr>collectMode = COLLECT_PID, ci_pid = 9, ci_timeout = 0\<rparr> 0 = Some ((TCMRET_TIMED_OUT, cleared_info), w')"
proof -
  have e: "oal_collectProcess (idle_kernel\<lparr>k_waitpid := \<lambda>p n w. Some ((- 1, 0), w)\<rparr>)
     \<lparr>collectMode = COLLECT_PID, ci_pid = 9, ci_timeout = 0\<rparr> 0 =
     Some ((TCMRET_TIMED_OUT, cleared_info), 0)"
    by (simp add: oal_collectProcess_def collect_loop.simps cleared_info_def)
  from collect_hides_errors[OF e] e show ?thesis by blast
qed

end
