(* ===== verification/Interest.thy ===== *)
theory Interest
  imports Kernel "HOL-Library.Multiset"
begin

text \<open>
  \<^verbatim>\<open>sched/interest.c\<close>: which entities want to hear of which event. The doubly linked lists are
  lists in the order of \<^verbatim>\<open>dlist_for_each_entry\<close>; \<^verbatim>\<open>dlist_append\<close> to a list head puts the new entry
  at the front.
\<close>

section \<open>Data\<close>

record EvtInterestInfo =
  i_eid :: UINT32
  matchData :: "string option"

record EvtInterest =
  ei_type :: UINT32
  evtInfoHead :: "EvtInterestInfo list"

definition dlist_append_head :: "'a \<Rightarrow> 'a list \<Rightarrow> 'a list" where "dlist_append_head x xs = x # xs"
definition dlist_prepend_head :: "'a \<Rightarrow> 'a list \<Rightarrow> 'a list" where "dlist_prepend_head x xs = xs @ [x]"
definition dlist_unlink_nth :: "nat \<Rightarrow> 'a list \<Rightarrow> 'a list" where "dlist_unlink_nth i xs = take i xs @ drop (Suc i) xs"

section \<open>Lookups\<close>

text \<open>
  Both lookups end without a \<^verbatim>\<open>return\<close> when nothing is found. What their callers then see is not
  defined by the language; \<open>nul\<close> says whether the compiler makes it \<^verbatim>\<open>NULL\<close>.
\<close>

fun index_of :: "('a \<Rightarrow> bool) \<Rightarrow> 'a list \<Rightarrow> nat option" where
  "index_of P [] = None"
| "index_of P (x # xs) = (if P x then Some 0 else map_option Suc (index_of P xs))"

definition no_return :: "bool \<Rightarrow> 'a option run" where
  "no_return nul = (if nul then Some None else None)"

definition interest_findByType :: "bool \<Rightarrow> EvtInterest list \<Rightarrow> UINT32 \<Rightarrow> nat option run" where
  "interest_findByType nul tab t =
     (case index_of (\<lambda>x. ei_type x = t) tab of Some i \<Rightarrow> Some (Some i) | None \<Rightarrow> no_return nul)"

definition interest_findInfo :: "bool \<Rightarrow> EvtInterest \<Rightarrow> UINT32 \<Rightarrow> nat option run" where
  "interest_findInfo nul x e =
     (case index_of (\<lambda>y. i_eid y = e) (evtInfoHead x) of Some j \<Rightarrow> Some (Some j) | None \<Rightarrow> no_return nul)"

section \<open>Registering\<close>

definition add_info ::
    "bool \<Rightarrow> 'w kernel \<Rightarrow> EvtInterest list \<Rightarrow> nat \<Rightarrow> UINT32 \<Rightarrow> string option \<Rightarrow> 'w \<Rightarrow> (tcmRet \<times> EvtInterest list \<times> 'w) run" where
  "add_info nul K tab i e md w =
     do { r \<leftarrow> interest_findInfo nul (tab ! i) e;
          case r of
            Some j \<Rightarrow> Some (TCMRET_INVALID_ARGUMENTS, tab, w)
          | None \<Rightarrow>
              let (al, w1) = k_alloc K w in
              if \<not> al then Some (TCMRET_RESOURCE_EXCEEDED, tab, w1)
              else let (d, w2) = tcmMem_strdup K md w1;
                       x = tab ! i in
                Some (TCMRET_SUCCESS,
                  tab[i := x\<lparr>evtInfoHead := dlist_append_head \<lparr>i_eid = e, matchData = d\<rparr> (evtInfoHead x)\<rparr>], w2) }"

definition interest_register ::
    "bool \<Rightarrow> 'w kernel \<Rightarrow> UINT32 \<Rightarrow> UINT32 \<Rightarrow> string option \<Rightarrow> EvtInterest list \<Rightarrow> 'w \<Rightarrow>
       (tcmRet \<times> EvtInterest list \<times> 'w) run" where
  "interest_register nul K t e md tab w =
     do { r \<leftarrow> interest_findByType nul tab t;
          case r of
            Some i \<Rightarrow> add_info nul K tab i e md w
          | None \<Rightarrow>
              let (al, w1) = k_alloc K w in
              if \<not> al then Some (TCMRET_RESOURCE_EXCEEDED, tab, w1)
              else add_info nul K (dlist_append_head \<lparr>ei_type = t, evtInfoHead = []\<rparr> tab) 0 e md w1 }"

definition interest_unregister ::
    "bool \<Rightarrow> UINT32 \<Rightarrow> UINT32 \<Rightarrow> EvtInterest list \<Rightarrow> (tcmRet \<times> EvtInterest list) run" where
  "interest_unregister nul t e tab =
     do { r \<leftarrow> interest_findByType nul tab t;
          case r of
            None \<Rightarrow> Some (TCMRET_INVALID_ARGUMENTS, tab)
          | Some i \<Rightarrow> do {
              s \<leftarrow> interest_findInfo nul (tab ! i) e;
              case s of
                None \<Rightarrow> Some (TCMRET_INVALID_ARGUMENTS, tab)
              | Some j \<Rightarrow>
                  let x = (tab ! i)\<lparr>evtInfoHead := dlist_unlink_nth j (evtInfoHead (tab ! i))\<rparr> in
                  Some (TCMRET_SUCCESS, if evtInfoHead x = [] then dlist_unlink_nth i tab else tab[i := x]) } }"

text \<open>
  \<open>interest_unregisterAll\<close> looks for the first list with an entry of the entity, unregisters it by
  its type and starts again; nothing bounds the loop if the types were not different.
\<close>

fun first_interested :: "bool \<Rightarrow> UINT32 \<Rightarrow> EvtInterest list \<Rightarrow> EvtInterest option run" where
  "first_interested nul e [] = Some None"
| "first_interested nul e (x # xs) =
     do { r \<leftarrow> interest_findInfo nul x e;
          if r \<noteq> None then Some (Some x) else first_interested nul e xs }"

partial_function (option) interest_unregisterAll :: "bool \<Rightarrow> UINT32 \<Rightarrow> EvtInterest list \<Rightarrow> EvtInterest list run" where
  "interest_unregisterAll nul e tab =
     do { r \<leftarrow> first_interested nul e tab;
          case r of None \<Rightarrow> Some tab
          | Some x \<Rightarrow> do { (ret, tab1) \<leftarrow> interest_unregister nul (ei_type x) e tab;
                            interest_unregisterAll nul e tab1 } }"

definition interest_cleanup :: "EvtInterest list \<Rightarrow> EvtInterest list" where
  "interest_cleanup tab = []"

section \<open>The table as a map\<close>

text \<open>
  The invariant: types differ, entities differ within a type, no list is empty (an allocation
  that fails half-way can leave an empty one). The table then stands for a map from event type
  and entity to match data.
\<close>

definition wf_interest :: "EvtInterest list \<Rightarrow> bool" where
  "wf_interest tab \<longleftrightarrow> distinct (map ei_type tab) \<and> (\<forall>x \<in> set tab. distinct (map i_eid (evtInfoHead x)))"

definition interest_map :: "EvtInterest list \<Rightarrow> UINT32 \<times> UINT32 \<Rightarrow> string option option" where
  "interest_map tab k =
     (case find (\<lambda>x. ei_type x = fst k) tab of None \<Rightarrow> None
      | Some x \<Rightarrow> map_option matchData (find (\<lambda>y. i_eid y = snd k) (evtInfoHead x)))"

lemma index_of_None: "index_of P xs = None \<longleftrightarrow> find P xs = None"
  by (induction xs) auto

lemma index_of_Some:
  "index_of P xs = Some i \<Longrightarrow> i < length xs \<and> find P xs = Some (xs ! i) \<and> P (xs ! i) \<and> (\<forall>j < i. \<not> P (xs ! j))"
proof (induction xs arbitrary: i)
  case (Cons x xs)
  then show ?case by (auto simp: less_Suc_eq_0_disj split: if_splits)
qed simp

lemma find_update_key:
  assumes "index_of (\<lambda>x. f x = t) xs = Some i" and "f y = t"
  shows "find (\<lambda>x. f x = k) (xs[i := y]) = (if k = t then Some y else find (\<lambda>x. f x = k) xs)"
  using assms(1)
proof (induction xs arbitrary: i)
  case (Cons x xs)
  then show ?case using assms(2) by (cases i) (auto split: if_splits)
qed simp

lemma dlist_unlink_Suc [simp]: "dlist_unlink_nth (Suc i) (x # xs) = x # dlist_unlink_nth i xs"
  by (simp add: dlist_unlink_nth_def)

lemma dlist_unlink_0 [simp]: "dlist_unlink_nth 0 (x # xs) = xs"
  by (simp add: dlist_unlink_nth_def)

lemma unlink_filter:
  assumes "index_of (\<lambda>x. f x = t) xs = Some i" and "distinct (map f xs)"
  shows "dlist_unlink_nth i xs = filter (\<lambda>x. f x \<noteq> t) xs"
  using assms
proof (induction xs arbitrary: i)
  case (Cons x xs)
  have "f x = t \<Longrightarrow> filter (\<lambda>x. f x \<noteq> t) xs = xs"
    using Cons.prems(2) by (intro filter_True) (force simp: image_iff)
  with Cons show ?case by (auto split: if_splits)
qed simp

lemma find_filter_key:
  "find (\<lambda>x. f x = k) (filter (\<lambda>x. f x \<noteq> t) xs) = (if k = t then None else find (\<lambda>x. f x = k) xs)"
  by (induction xs) auto

lemma interest_map_update:
  assumes "index_of (\<lambda>x. ei_type x = t) tab = Some i" and "ei_type y = t"
  shows "interest_map (tab[i := y]) k =
    (if fst k = t then map_option matchData (find (\<lambda>z. i_eid z = snd k) (evtInfoHead y)) else interest_map tab k)"
  by (simp add: interest_map_def find_update_key[OF assms])

lemma wf_interest_update:
  assumes "wf_interest tab" and "i < length tab" and "ei_type y = ei_type (tab ! i)" and "distinct (map i_eid (evtInfoHead y))"
  shows "wf_interest (tab[i := y])"
proof -
  have "map ei_type (tab[i := y]) = map ei_type tab"
    using assms(2,3) by (metis list_update_id map_update)
  with assms show ?thesis by (auto simp: wf_interest_def dest: set_update_subset_insert[THEN subsetD])
qed

lemma alloc_ok:
  assumes "\<And>w. fst (k_alloc K w)"
  shows "\<exists>w1. k_alloc K w = (True, w1)"
  using assms[of w] by (cases "k_alloc K w") auto

lemma strdup_ok:
  assumes "\<And>w. fst (k_alloc K w)"
  shows "\<exists>w1. tcmMem_strdup K s w = (s, w1)"
  using alloc_ok[OF assms, of w] by (cases s) (auto simp: tcmMem_strdup_def)

text \<open>Adding an entry below the list of its type.\<close>

lemma add_info_spec:
  assumes "wf_interest tab" and "index_of (\<lambda>x. ei_type x = t) tab = Some i" and "\<And>w. fst (k_alloc K w)"
  shows "\<exists>w1. add_info True K tab i e md w =
      (if interest_map tab (t, e) \<noteq> None then Some (TCMRET_INVALID_ARGUMENTS, tab, w1)
       else Some (TCMRET_SUCCESS, tab[i := (tab ! i)\<lparr>evtInfoHead := \<lparr>i_eid = e, matchData = md\<rparr> # evtInfoHead (tab ! i)\<rparr>], w1))"
proof -
  have i: "i < length tab" "find (\<lambda>x. ei_type x = t) tab = Some (tab ! i)" using index_of_Some[OF assms(2)] by auto
  show ?thesis
  proof (cases "index_of (\<lambda>y. i_eid y = e) (evtInfoHead (tab ! i))")
    case None
    then have "interest_map tab (t, e) = None" using i by (simp add: interest_map_def index_of_None)
    moreover obtain w1 where "k_alloc K w = (True, w1)" using alloc_ok[OF assms(3)] by blast
    moreover obtain w2 where "tcmMem_strdup K md w1 = (md, w2)" using strdup_ok[OF assms(3)] by blast
    ultimately show ?thesis using None
      by (auto simp: add_info_def interest_findInfo_def no_return_def dlist_append_head_def Let_def)
  next
    case (Some j)
    then have "interest_map tab (t, e) \<noteq> None" using i index_of_None[of "\<lambda>y. i_eid y = e" "evtInfoHead (tab ! i)"]
      by (auto simp: interest_map_def)
    then show ?thesis using Some by (simp add: add_info_def interest_findInfo_def)
  qed
qed

lemma register_spec:
  assumes "wf_interest tab" and "\<And>w. fst (k_alloc K w)"
  shows "\<exists>tab' w1. interest_register True K t e md tab w =
      Some (if interest_map tab (t, e) = None then TCMRET_SUCCESS else TCMRET_INVALID_ARGUMENTS, tab', w1) \<and>
    wf_interest tab' \<and>
    interest_map tab' = (if interest_map tab (t, e) = None then (interest_map tab)((t, e) \<mapsto> md) else interest_map tab)"
proof -
  have core: "\<exists>tab'' w1. add_info True K tab' i e md w' =
      Some (if interest_map tab' (t, e) = None then TCMRET_SUCCESS else TCMRET_INVALID_ARGUMENTS, tab'', w1) \<and>
      wf_interest tab'' \<and>
      interest_map tab'' = (if interest_map tab' (t, e) = None then (interest_map tab')((t, e) \<mapsto> md) else interest_map tab')"
    if wf: "wf_interest tab'" and ix: "index_of (\<lambda>x. ei_type x = t) tab' = Some i" for tab' i w'
  proof (cases "interest_map tab' (t, e) = None")
    case True
    let ?x = "(tab' ! i)\<lparr>evtInfoHead := \<lparr>i_eid = e, matchData = md\<rparr> # evtInfoHead (tab' ! i)\<rparr>"
    have i: "i < length tab'" "ei_type (tab' ! i) = t" "find (\<lambda>x. ei_type x = t) tab' = Some (tab' ! i)"
      using index_of_Some[OF ix] by auto
    have "find (\<lambda>y. i_eid y = e) (evtInfoHead (tab' ! i)) = None" using True i by (simp add: interest_map_def)
    then have "e \<notin> i_eid ` set (evtInfoHead (tab' ! i))" by (auto simp: find_None_iff)
    then have wf': "wf_interest (tab'[i := ?x])"
      using wf i by (intro wf_interest_update) (auto simp: wf_interest_def)
    have upd: "interest_map (tab'[i := ?x]) k =
        (if fst k = t then map_option matchData (find (\<lambda>z. i_eid z = snd k) (evtInfoHead ?x)) else interest_map tab' k)" for k
      using i by (intro interest_map_update[OF ix]) simp
    have "interest_map (tab'[i := ?x]) = (interest_map tab')((t, e) \<mapsto> md)"
      using i by (intro ext) (auto simp: upd interest_map_def[of tab'])
    with wf' True add_info_spec[OF wf ix assms(2), of e md w'] show ?thesis by auto
  next
    case False
    then show ?thesis using add_info_spec[OF wf ix assms(2), of e md w'] wf by auto
  qed
  show ?thesis
  proof (cases "index_of (\<lambda>x. ei_type x = t) tab")
    case (Some i)
    then show ?thesis using core[OF assms(1) Some, of w] by (simp add: interest_register_def interest_findByType_def)
  next
    case None
    let ?tab = "\<lparr>ei_type = t, evtInfoHead = []\<rparr> # tab"
    have f: "find (\<lambda>x. ei_type x = t) tab = None" using None by (simp add: index_of_None)
    then have wf: "wf_interest ?tab" using assms(1) by (auto simp: wf_interest_def find_None_iff)
    have m: "interest_map ?tab = interest_map tab"
      using f by (auto simp: fun_eq_iff interest_map_def)
    obtain w1 where "k_alloc K w = (True, w1)" using alloc_ok[OF assms(2)] by blast
    then have reg: "interest_register True K t e md tab w = add_info True K ?tab 0 e md w1"
      using None by (simp add: interest_register_def interest_findByType_def no_return_def dlist_append_head_def)
    have "index_of (\<lambda>x. ei_type x = t) ?tab = Some 0" by simp
    from core[OF wf this, of w1] show ?thesis unfolding reg m .
  qed
qed

lemma unregister_spec:
  assumes "wf_interest tab"
  shows "\<exists>tab'. interest_unregister True t e tab =
      Some (if interest_map tab (t, e) = None then TCMRET_INVALID_ARGUMENTS else TCMRET_SUCCESS, tab') \<and>
    wf_interest tab' \<and> interest_map tab' = (interest_map tab)((t, e) := None) \<and>
    (interest_map tab (t, e) \<noteq> None \<longrightarrow> sum_list (map (length \<circ> evtInfoHead) tab') < sum_list (map (length \<circ> evtInfoHead) tab))"
proof (cases "index_of (\<lambda>x. ei_type x = t) tab")
  case None
  then have "interest_map tab (t, e) = None" by (simp add: interest_map_def index_of_None)
  moreover from this have "(interest_map tab)((t, e) := None) = interest_map tab" by auto
  ultimately show ?thesis using None assms by (simp add: interest_unregister_def interest_findByType_def no_return_def)
next
  case (Some i)
  have i: "i < length tab" "ei_type (tab ! i) = t" "find (\<lambda>x. ei_type x = t) tab = Some (tab ! i)"
    using index_of_Some[OF Some] by auto
  show ?thesis
  proof (cases "index_of (\<lambda>y. i_eid y = e) (evtInfoHead (tab ! i))")
    case None
    then have "interest_map tab (t, e) = None" using i by (simp add: interest_map_def index_of_None)
    moreover from this have "(interest_map tab)((t, e) := None) = interest_map tab" by auto
    ultimately show ?thesis using None Some assms
      by (simp add: interest_unregister_def interest_findByType_def interest_findInfo_def no_return_def)
  next
    case j: (Some j)
    let ?ys = "evtInfoHead (tab ! i)"
    let ?x = "(tab ! i)\<lparr>evtInfoHead := filter (\<lambda>y. i_eid y \<noteq> e) ?ys\<rparr>"
    let ?tab = "if evtInfoHead ?x = [] then dlist_unlink_nth i tab else tab[i := ?x]"
    have dy: "distinct (map i_eid ?ys)" and dt: "distinct (map ei_type tab)" using assms i by (auto simp: wf_interest_def)
    have has: "interest_map tab (t, e) \<noteq> None" using i j index_of_None[of "\<lambda>y. i_eid y = e" ?ys]
      by (auto simp: interest_map_def)
    have run: "interest_unregister True t e tab = Some (TCMRET_SUCCESS, ?tab)"
      using Some j unlink_filter[OF j dy] by (simp add: interest_unregister_def interest_findByType_def interest_findInfo_def Let_def)
    have unl: "dlist_unlink_nth i tab = filter (\<lambda>x. ei_type x \<noteq> t) tab" by (rule unlink_filter[OF Some dt])
    have "distinct (map i_eid (filter (\<lambda>y. i_eid y \<noteq> e) ?ys))" using dy by (rule distinct_map_filter)
    then have "wf_interest (tab[i := ?x])" using assms i by (intro wf_interest_update) simp_all
    moreover have "wf_interest (filter (\<lambda>x. ei_type x \<noteq> t) tab)"
      using assms by (auto simp: wf_interest_def distinct_map_filter)
    ultimately have wf: "wf_interest ?tab" by (simp add: unl)
    have map: "interest_map ?tab = (interest_map tab)((t, e) := None)"
    proof (rule ext)
      fix k
      show "interest_map ?tab k = ((interest_map tab)((t, e) := None)) k"
      proof (cases "evtInfoHead ?x = []")
        case True
        then have "\<forall>y \<in> set ?ys. i_eid y = e" by (auto simp: filter_empty_conv)
        then have "interest_map tab (t, e') = None" if "e' \<noteq> e" for e'
          using i that by (auto simp: interest_map_def find_None_iff)
        with True show ?thesis by (cases k) (auto simp: unl interest_map_def find_filter_key)
      next
        case False
        have "interest_map ?tab k = interest_map (tab[i := ?x]) k" by (simp only: False if_False)
        also have "\<dots> =
            (if fst k = t then map_option matchData (find (\<lambda>z. i_eid z = snd k) (evtInfoHead ?x)) else interest_map tab k)"
          using i by (intro interest_map_update[OF Some]) simp
        also have "\<dots> = ((interest_map tab)((t, e) := None)) k"
          using i by (cases k) (auto simp: interest_map_def[of tab] find_filter_key)
        finally show ?thesis .
      qed
    qed
    have jl: "j < length ?ys" "i_eid (?ys ! j) = e" using index_of_Some[OF j] by auto
    then have lt: "length (filter (\<lambda>y. i_eid y \<noteq> e) ?ys) < length ?ys"
      by (intro length_filter_less[of "?ys ! j"]) auto
    have split: "tab = take i tab @ (tab ! i) # drop (Suc i) tab" using i(1) by (rule id_take_nth_drop)
    have "sum_list (map (length \<circ> evtInfoHead) ?tab) < sum_list (map (length \<circ> evtInfoHead) tab)"
    proof -
      have s: "sum_list (map (length \<circ> evtInfoHead) tab) =
          sum_list (map (length \<circ> evtInfoHead) (take i tab)) + (length ?ys + sum_list (map (length \<circ> evtInfoHead) (drop (Suc i) tab)))"
        by (subst split) (simp only: map_append sum_list.append list.map sum_list.Cons o_apply)
      have u: "tab[i := ?x] = take i tab @ ?x # drop (Suc i) tab" using i(1) by (rule upd_conv_take_nth_drop)
      show ?thesis using lt s by (auto simp: dlist_unlink_nth_def u)
    qed
    with run wf map has show ?thesis by (intro exI[of _ ?tab]) simp
  qed
qed

lemma first_interested_find:
  "first_interested True e tab = Some (find (\<lambda>x. e \<in> i_eid ` set (evtInfoHead x)) tab)"
proof (induction tab)
  case (Cons x tab)
  have "index_of (\<lambda>y. i_eid y = e) (evtInfoHead x) = None \<longleftrightarrow> e \<notin> i_eid ` set (evtInfoHead x)"
    by (auto simp: index_of_None find_None_iff)
  with Cons show ?case
    by (auto simp: interest_findInfo_def no_return_def split: option.split)
qed simp

lemma interested_map:
  assumes "distinct (map ei_type tab)" and "x \<in> set tab" and "e \<in> i_eid ` set (evtInfoHead x)"
  shows "interest_map tab (ei_type x, e) \<noteq> None"
proof -
  have "find (\<lambda>y. ei_type y = ei_type x) tab = Some x"
    using assms(1,2) by (induction tab) (auto simp: image_iff)
  then show ?thesis using assms(3) by (auto simp: interest_map_def find_None_iff)
qed

lemma unregisterAll_spec:
  "wf_interest tab \<Longrightarrow> \<exists>tab'. interest_unregisterAll True e tab = Some tab' \<and> wf_interest tab' \<and>
     interest_map tab' = (\<lambda>k. if snd k = e then None else interest_map tab k)"
proof (induction "sum_list (map (length \<circ> evtInfoHead) tab)" arbitrary: tab rule: less_induct)
  case less
  show ?case
  proof (cases "find (\<lambda>x. e \<in> i_eid ` set (evtInfoHead x)) tab")
    case None
    have "interest_map tab (t, e) = None" for t
    proof (cases "find (\<lambda>x. ei_type x = t) tab")
      case (Some x)
      then have "x \<in> set tab" by (auto simp: find_Some_iff)
      with None have "e \<notin> i_eid ` set (evtInfoHead x)" by (auto simp: find_None_iff)
      with Some show ?thesis by (auto simp: interest_map_def find_None_iff)
    qed (simp add: interest_map_def)
    then have "interest_map tab = (\<lambda>k. if snd k = e then None else interest_map tab k)" by auto
    then show ?thesis using None less.prems
      by (subst interest_unregisterAll.simps) (simp add: first_interested_find)
  next
    case (Some x)
    then have x: "x \<in> set tab" "e \<in> i_eid ` set (evtInfoHead x)" by (auto simp: find_Some_iff)
    have "interest_map tab (ei_type x, e) \<noteq> None" using interested_map less.prems x by (simp add: wf_interest_def)
    with unregister_spec[OF less.prems, of "ei_type x" e] obtain tab1 where
      t: "interest_unregister True (ei_type x) e tab = Some (TCMRET_SUCCESS, tab1)" "wf_interest tab1"
        "interest_map tab1 = (interest_map tab)((ei_type x, e) := None)"
        "sum_list (map (length \<circ> evtInfoHead) tab1) < sum_list (map (length \<circ> evtInfoHead) tab)" by auto
    from less.hyps[OF t(4,2)] obtain tab' where
      t': "interest_unregisterAll True e tab1 = Some tab'" "wf_interest tab'"
        "interest_map tab' = (\<lambda>k. if snd k = e then None else interest_map tab1 k)" by blast
    have "interest_map tab' = (\<lambda>k. if snd k = e then None else interest_map tab k)" using t'(3) t(3) by auto
    with t' show ?thesis using Some t(1)
      by (subst interest_unregisterAll.simps) (simp add: first_interested_find)
  qed
qed

section \<open>The contract of a table of subscriptions\<close>

datatype ('k, 'v) subscription = Subscribe 'k 'v | Unsubscribe 'k

fun map_ops :: "('k \<Rightarrow> 'v option) \<Rightarrow> ('k, 'v) subscription list \<Rightarrow> 'k \<Rightarrow> 'v option" where
  "map_ops m [] = m"
| "map_ops m (Subscribe k v # ops) = map_ops (if m k = None then m(k \<mapsto> v) else m) ops"
| "map_ops m (Unsubscribe k # ops) = map_ops (m(k := None)) ops"

fun run_ops ::
    "('k \<Rightarrow> 'v \<Rightarrow> 's \<Rightarrow> (tcmRet \<times> 's) run) \<Rightarrow> ('k \<Rightarrow> 's \<Rightarrow> (tcmRet \<times> 's) run) \<Rightarrow>
       ('k, 'v) subscription list \<Rightarrow> 's \<Rightarrow> 's run" where
  "run_ops reg unreg [] s = Some s"
| "run_ops reg unreg (Subscribe k v # ops) s = do { (ret, s1) \<leftarrow> reg k v s; run_ops reg unreg ops s1 }"
| "run_ops reg unreg (Unsubscribe k # ops) s = do { (ret, s1) \<leftarrow> unreg k s; run_ops reg unreg ops s1 }"

locale subscriptions =
  fixes ok :: "'s \<Rightarrow> bool" and look :: "'s \<Rightarrow> 'k \<Rightarrow> 'v option"
    and reg :: "'k \<Rightarrow> 'v \<Rightarrow> 's \<Rightarrow> (tcmRet \<times> 's) run" and unreg :: "'k \<Rightarrow> 's \<Rightarrow> (tcmRet \<times> 's) run"
  assumes reg_law: "ok s \<Longrightarrow> \<exists>s'. reg k v s = Some (if look s k = None then TCMRET_SUCCESS else TCMRET_INVALID_ARGUMENTS, s') \<and>
      ok s' \<and> look s' = (if look s k = None then (look s)(k \<mapsto> v) else look s)"
    and unreg_law: "ok s \<Longrightarrow> \<exists>s'. unreg k s = Some (if look s k = None then TCMRET_INVALID_ARGUMENTS else TCMRET_SUCCESS, s') \<and>
      ok s' \<and> look s' = (look s)(k := None)"
begin

lemma ops_refine: "ok s \<Longrightarrow> \<exists>s'. run_ops reg unreg ops s = Some s' \<and> ok s' \<and> look s' = map_ops (look s) ops"
proof (induction ops arbitrary: s)
  case (Cons x ops)
  show ?case
  proof (cases x)
    case (Subscribe k v)
    with reg_law[OF Cons.prems, of k v] Cons.IH show ?thesis by fastforce
  next
    case (Unsubscribe k)
    with unreg_law[OF Cons.prems, of k] Cons.IH show ?thesis by fastforce
  qed
qed simp

lemma subscribe_twice:
  assumes "ok s" and "look s k = None"
  shows "\<exists>s1 s2. reg k v s = Some (TCMRET_SUCCESS, s1) \<and> reg k v' s1 = Some (TCMRET_INVALID_ARGUMENTS, s2) \<and>
    look s2 k = Some v"
proof -
  obtain s1 where s1: "reg k v s = Some (TCMRET_SUCCESS, s1)" "ok s1" "look s1 = (look s)(k \<mapsto> v)"
    using reg_law[OF assms(1), of k v] assms(2) by auto
  then have "look s1 k = Some v" by simp
  with reg_law[OF s1(2), of k v'] s1(1) show ?thesis by auto
qed

end

definition interest_ok :: "'w kernel \<Rightarrow> EvtInterest list \<times> 'w \<Rightarrow> bool" where
  "interest_ok K s \<longleftrightarrow> wf_interest (fst s) \<and> (\<forall>w. fst (k_alloc K w))"

text \<open>The operations on a table and the world, for either value of \<open>nul\<close>.\<close>

definition interest_reg ::
    "bool \<Rightarrow> 'w kernel \<Rightarrow> UINT32 \<times> UINT32 \<Rightarrow> string option \<Rightarrow> EvtInterest list \<times> 'w \<Rightarrow> (tcmRet \<times> EvtInterest list \<times> 'w) run" where
  "interest_reg nul K k md s = interest_register nul K (fst k) (snd k) md (fst s) (snd s)"

definition interest_unreg ::
    "bool \<Rightarrow> UINT32 \<times> UINT32 \<Rightarrow> EvtInterest list \<times> 'w \<Rightarrow> (tcmRet \<times> EvtInterest list \<times> 'w) run" where
  "interest_unreg nul k s = do { (ret, tab) \<leftarrow> interest_unregister nul (fst k) (snd k) (fst s); Some (ret, tab, snd s) }"

interpretation interests: subscriptions "interest_ok K" "interest_map \<circ> fst" "interest_reg True K" "interest_unreg True" for K :: "'w kernel"
proof unfold_locales
  fix s :: "EvtInterest list \<times> 'w" and k v
  assume ok: "interest_ok K s"
  then have w: "wf_interest (fst s)" "\<And>w. fst (k_alloc K w)" by (auto simp: interest_ok_def)
  show "\<exists>s'. interest_reg True K k v s = Some (if (interest_map \<circ> fst) s k = None then TCMRET_SUCCESS else TCMRET_INVALID_ARGUMENTS, s') \<and>
      interest_ok K s' \<and> (interest_map \<circ> fst) s' =
        (if (interest_map \<circ> fst) s k = None then ((interest_map \<circ> fst) s)(k \<mapsto> v) else (interest_map \<circ> fst) s)"
    using register_spec[OF w, of "fst k" "snd k" v "snd s"] w by (auto simp: interest_reg_def interest_ok_def)
  show "\<exists>s'. interest_unreg True k s = Some (if (interest_map \<circ> fst) s k = None then TCMRET_INVALID_ARGUMENTS else TCMRET_SUCCESS, s') \<and>
      interest_ok K s' \<and> (interest_map \<circ> fst) s' = ((interest_map \<circ> fst) s)(k := None)"
    using unregister_spec[OF w(1), of "fst k" "snd k"] w by (auto simp: interest_unreg_def interest_ok_def)
qed

section \<open>Properties\<close>

lemma not_there:
  "interest_map tab (t, e) = None \<longleftrightarrow> (case index_of (\<lambda>x. ei_type x = t) tab of None \<Rightarrow> True
     | Some i \<Rightarrow> index_of (\<lambda>y. i_eid y = e) (evtInfoHead (tab ! i)) = None)"
proof (cases "index_of (\<lambda>x. ei_type x = t) tab")
  case None
  then show ?thesis using index_of_None[of "\<lambda>x. ei_type x = t" tab] by (simp add: interest_map_def)
next
  case (Some i)
  then show ?thesis using index_of_Some[OF Some] index_of_None[of "\<lambda>y. i_eid y = e" "evtInfoHead (tab ! i)"]
    by (simp add: interest_map_def)
qed

text \<open>C29. When memory is available and a lookup that ends without a return statement yields \<^verbatim>\<open>NULL\<close>, as compilers may make it,
  the table of interests is a map from event type and entity to match data: after any sequence
  of registrations and unregistrations it holds what the same sequence makes of the map, where
  a second registration of a pair is refused and changes nothing. By the language alone registering or unregistering
  a pair that is not in the table has no defined result.\<close>

theorem interest_refines_map:
  assumes "wf_interest tab"
  shows "((\<forall>w. fst (k_alloc K w)) \<longrightarrow>
      (\<exists>tab' w'. run_ops (interest_reg True K) (interest_unreg True) ops (tab, w) = Some (tab', w') \<and> wf_interest tab' \<and>
        interest_map tab' = map_ops (interest_map tab) ops)) \<and>
    (\<forall>k v. interest_map tab k = None \<longrightarrow> interest_reg False K k v (tab, w) = None \<and> interest_unreg False k (tab, w) = None)"
proof (intro conjI impI allI)
  assume "\<forall>w. fst (k_alloc K w)"
  then show "\<exists>tab' w'. run_ops (interest_reg True K) (interest_unreg True) ops (tab, w) = Some (tab', w') \<and> wf_interest tab' \<and>
      interest_map tab' = map_ops (interest_map tab) ops"
    using interests.ops_refine[of K "(tab, w)" ops] assms by (auto simp: interest_ok_def)
next
  fix k v assume n: "interest_map tab k = None"
  obtain t e where k: "k = (t, e)" by (cases k)
  note n = n[unfolded k not_there]
  show "interest_reg False K k v (tab, w) = None" and "interest_unreg False k (tab, w) = None"
    using n by (auto simp: k interest_reg_def interest_unreg_def interest_register_def interest_unregister_def add_info_def
        interest_findByType_def interest_findInfo_def no_return_def split: option.splits)
qed

theorem interest_refines_map_witness:
  "\<exists>tab'. run_ops (interest_reg True quiet_kernel) (interest_unreg True)
     [Subscribe (3, 1) (Some ''wan0''), Subscribe (3, 2) None, Subscribe (3, 1) None, Unsubscribe (3, 2)] ([], ()) = Some (tab', ()) \<and>
     interest_map tab' (3, 1) = Some (Some ''wan0'') \<and> interest_map tab' (3, 2) = None"
proof -
  let ?ops = "[Subscribe (3, 1) (Some ''wan0''), Subscribe (3, 2) None, Subscribe (3, 1) None, Unsubscribe (3, 2)]"
  have "wf_interest []" "\<forall>w. fst (k_alloc quiet_kernel w)" by (simp_all add: wf_interest_def quiet_kernel_def)
  from interest_refines_map[OF this(1), of quiet_kernel ?ops "()"] this(2) obtain tab' where
    "run_ops (interest_reg True quiet_kernel) (interest_unreg True) ?ops ([], ()) = Some (tab', ())"
    "interest_map tab' = map_ops (interest_map []) ?ops" by auto
  moreover have "interest_map [] = (\<lambda>k. None)" by (simp add: interest_map_def fun_eq_iff)
  ultimately show ?thesis by (intro exI[of _ tab']) simp
qed

text \<open>When an application goes, all its interests are dropped and no other: \<open>interest_unregisterAll\<close>
  returns (its restarting loop ends), and afterwards exactly the entries of the entity are
  missing.\<close>

theorem interest_unregisterAll_drops:
  assumes "wf_interest tab"
  shows "\<exists>tab'. interest_unregisterAll True e tab = Some tab' \<and> wf_interest tab' \<and>
    (\<forall>t e'. interest_map tab' (t, e') = (if e' = e then None else interest_map tab (t, e')))"
  using unregisterAll_spec[OF assms, of e] by auto

theorem interest_unregisterAll_drops_witness:
  "\<exists>tab'. interest_unregisterAll True 1 [\<lparr>ei_type = 3, evtInfoHead = [\<lparr>i_eid = 2, matchData = None\<rparr>, \<lparr>i_eid = 1, matchData = None\<rparr>]\<rparr>,
       \<lparr>ei_type = 4, evtInfoHead = [\<lparr>i_eid = 1, matchData = Some ''x''\<rparr>]\<rparr>] = Some tab' \<and>
     interest_map tab' (3, 2) = Some None \<and> interest_map tab' (3, 1) = None \<and> interest_map tab' (4, 1) = None"
proof -
  let ?tab = "[\<lparr>ei_type = 3, evtInfoHead = [\<lparr>i_eid = 2, matchData = None\<rparr>, \<lparr>i_eid = 1, matchData = None\<rparr>]\<rparr>,
       \<lparr>ei_type = 4, evtInfoHead = [\<lparr>i_eid = 1, matchData = Some ''x''\<rparr>]\<rparr>]"
  have "wf_interest ?tab" by (simp add: wf_interest_def)
  moreover have "interest_map ?tab (3, 2) = Some None" by (simp add: interest_map_def)
  ultimately show ?thesis using interest_unregisterAll_drops[of ?tab 1] by fastforce
qed

text \<open>By the language alone no registration ever succeeds: both lookups end without a return
  statement when there is nothing to find, and a new registration needs both to find nothing.
  The only defined outcome is the refusal of a pair that is already there.\<close>

theorem interest_register_never_succeeds:
  assumes "interest_register False K t e md tab w = Some (ret, tab', w')"
  shows "ret = TCMRET_INVALID_ARGUMENTS \<and> tab' = tab"
  using assms
  by (auto simp: interest_register_def interest_findByType_def interest_findInfo_def add_info_def no_return_def run_simps
      split: option.splits)

theorem interest_register_never_succeeds_witness:
  "\<exists>tab ret tab'. interest_register False quiet_kernel 3 1 None tab () = Some (ret, tab', ()) \<and>
     ret = TCMRET_INVALID_ARGUMENTS \<and> tab' = tab"
proof -
  let ?tab = "[\<lparr>ei_type = 3, evtInfoHead = [\<lparr>i_eid = 1, matchData = None\<rparr>]\<rparr>]"
  have "interest_register False quiet_kernel 3 1 None ?tab () = Some (TCMRET_INVALID_ARGUMENTS, ?tab, ())"
    by (simp add: interest_register_def interest_findByType_def interest_findInfo_def add_info_def)
  from interest_register_never_succeeds[OF this] this show ?thesis by blast
qed

end
