(* ===== verification/Dlist_Ptr.thy ===== *)
theory Dlist_Ptr
  imports Interest
begin

text \<open>
  \<^verbatim>\<open>sched/tcm_dlist.h\<close>, circular doubly linked lists, with their pointers: the operations of the
  header do to the sequence of nodes of a list what the list functions used for it elsewhere in
  this development do.
\<close>

section \<open>Nodes and operations\<close>

text \<open>One map per field of \<^verbatim>\<open>struct dlist_node\<close>; 0 is \<^verbatim>\<open>NULL\<close>.\<close>

record dlist_heap =
  nextp :: "nat \<rightharpoonup> nat"
  prevp :: "nat \<rightharpoonup> nat"

definition set_next :: "nat \<Rightarrow> nat \<Rightarrow> dlist_heap \<Rightarrow> dlist_heap run" where
  "set_next a v h = (if nextp h a = None then None else Some (h\<lparr>nextp := (nextp h)(a \<mapsto> v)\<rparr>))"

definition set_prev :: "nat \<Rightarrow> nat \<Rightarrow> dlist_heap \<Rightarrow> dlist_heap run" where
  "set_prev a v h = (if prevp h a = None then None else Some (h\<lparr>prevp := (prevp h)(a \<mapsto> v)\<rparr>))"

definition DLIST_HEAD_INIT :: "nat \<Rightarrow> dlist_heap \<Rightarrow> dlist_heap run" where
  "DLIST_HEAD_INIT a h = do { h1 \<leftarrow> set_next a a h; set_prev a a h1 }"

definition dlist_empty :: "nat \<Rightarrow> dlist_heap \<Rightarrow> bool run" where
  "dlist_empty a h = do { n \<leftarrow> nextp h a; p \<leftarrow> prevp h a; Some (n = a \<and> p = a) }"

definition dlist_append :: "nat \<Rightarrow> nat \<Rightarrow> dlist_heap \<Rightarrow> dlist_heap run" where
  "dlist_append new existing h =
     do { n \<leftarrow> nextp h existing;
          h1 \<leftarrow> set_prev n new h;
          n1 \<leftarrow> nextp h1 existing;
          h2 \<leftarrow> set_next new n1 h1;
          h3 \<leftarrow> set_prev new existing h2;
          set_next existing new h3 }"

definition dlist_prepend :: "nat \<Rightarrow> nat \<Rightarrow> dlist_heap \<Rightarrow> dlist_heap run" where
  "dlist_prepend new existing h =
     do { p \<leftarrow> prevp h existing;
          h1 \<leftarrow> set_next p new h;
          h2 \<leftarrow> set_next new existing h1;
          p1 \<leftarrow> prevp h2 existing;
          h3 \<leftarrow> set_prev new p1 h2;
          set_prev existing new h3 }"

definition dlist_unlink :: "nat \<Rightarrow> dlist_heap \<Rightarrow> dlist_heap run" where
  "dlist_unlink entry h =
     do { n \<leftarrow> nextp h entry;
          p \<leftarrow> prevp h entry;
          h1 \<leftarrow> set_prev n p h;
          p1 \<leftarrow> prevp h1 entry;
          n1 \<leftarrow> nextp h1 entry;
          h2 \<leftarrow> set_next p1 n1 h1;
          h3 \<leftarrow> set_next entry 0 h2;
          set_prev entry 0 h3 }"

text \<open>The nodes a \<^verbatim>\<open>dlist_for_each_entry\<close> loop visits from \<open>pos\<close> on; on a broken list it may run for ever.\<close>

partial_function (option) visit :: "nat \<Rightarrow> nat \<Rightarrow> dlist_heap \<Rightarrow> nat list run" where
  "visit head pos h =
     (if pos = head then Some []
      else do { n \<leftarrow> nextp h pos; xs \<leftarrow> visit head n h; Some (pos # xs) })"

definition dlist_for_each_entry :: "nat \<Rightarrow> dlist_heap \<Rightarrow> nat list run" where
  "dlist_for_each_entry head h = do { n \<leftarrow> nextp h head; visit head n h }"

section \<open>Lists in the heap\<close>

fun chain :: "(nat \<rightharpoonup> nat) \<Rightarrow> nat \<Rightarrow> nat list \<Rightarrow> nat \<Rightarrow> bool" where
  "chain f a [] b \<longleftrightarrow> f a = Some b"
| "chain f a (x # xs) b \<longleftrightarrow> f a = Some x \<and> chain f x xs b"

definition is_dlist :: "dlist_heap \<Rightarrow> nat \<Rightarrow> nat list \<Rightarrow> bool" where
  "is_dlist h head xs \<longleftrightarrow> distinct (head # xs) \<and> chain (nextp h) head xs head \<and> chain (prevp h) head (rev xs) head"

text \<open>An allocated node that is in no list.\<close>

definition free_node :: "dlist_heap \<Rightarrow> nat \<Rightarrow> bool" where
  "free_node h a \<longleftrightarrow> nextp h a \<noteq> None \<and> prevp h a \<noteq> None"

lemma chain_update [simp]: "y \<notin> set (a # xs) \<Longrightarrow> chain (f(y := v)) a xs b = chain f a xs b"
  by (induction xs arbitrary: a) auto

lemma chain_append: "chain f a (xs @ y # ys) b \<longleftrightarrow> chain f a xs y \<and> chain f y ys b"
  by (induction xs arbitrary: a) auto

lemma chain_redirect: "distinct (a # xs) \<Longrightarrow> chain f a xs b \<Longrightarrow> chain (f(last (a # xs) \<mapsto> v)) a xs v"
  by (induction xs arbitrary: a) auto

lemma chain_first: "chain f a xs b \<Longrightarrow> f a = Some (hd (xs @ [b]))"
  by (cases xs) auto

lemma chain_last: "chain f a xs b \<Longrightarrow> f (last (a # xs)) = Some b"
  by (induction xs arbitrary: a) auto

lemma chain_restart:
  "distinct (a # xs) \<Longrightarrow> c \<notin> set xs \<Longrightarrow> chain f a xs b \<Longrightarrow> chain (f(c \<mapsto> hd (xs @ [b]))) c xs b"
  by (cases xs) auto

lemma chain_dom: "chain f a xs b \<Longrightarrow> x \<in> set (a # xs) \<Longrightarrow> f x \<noteq> None"
  by (induction xs arbitrary: a) auto

lemma last_rev_hd: "last (b # rev xs) = hd (xs @ [b])"
  by (cases xs) auto

lemma chain_join: "chain f a xs (hd (ys @ [b])) \<Longrightarrow> ys \<noteq> [] \<longrightarrow> chain f (hd ys) (tl ys) b \<Longrightarrow> chain f a (xs @ ys) b"
  by (cases ys) (auto simp: chain_append)

lemma chain_tail: "chain f a xs b \<Longrightarrow> xs \<noteq> [] \<longrightarrow> chain f (hd xs) (tl xs) b"
  by (cases xs) auto

lemma dlist_first: "is_dlist h head xs \<Longrightarrow> nextp h head = Some (hd (xs @ [head]))"
  by (auto simp: is_dlist_def dest: chain_first)

lemma dlist_last: "is_dlist h head xs \<Longrightarrow> prevp h head = Some (hd (rev xs @ [head]))"
  by (auto simp: is_dlist_def dest: chain_first)

lemma append_spec:
  assumes "is_dlist h head xs" and "free_node h new" and "new \<notin> set (head # xs)"
  shows "\<exists>h'. dlist_append new head h = Some h' \<and> is_dlist h' head (new # xs)"
proof -
  let ?n = "hd (xs @ [head])"
  have c: "chain (nextp h) head xs head" "chain (prevp h) head (rev xs) head" "distinct (head # xs)"
    using assms(1) by (auto simp: is_dlist_def)
  have n: "?n \<in> set (head # xs)" by (cases xs) auto
  have pn: "prevp h ?n \<noteq> None" using chain_dom[OF c(2), of ?n] n by auto
  let ?h = "h\<lparr>nextp := (nextp h)(new \<mapsto> ?n, head \<mapsto> new), prevp := (prevp h)(?n \<mapsto> new, new \<mapsto> head)\<rparr>"
  have "dlist_append new head h = Some ?h"
    using pn assms(2,3) dlist_first[OF assms(1)]
    by (auto simp: dlist_append_def set_next_def set_prev_def free_node_def)
  moreover have "chain (nextp ?h) head (new # xs) head"
    using chain_restart[OF c(3) _ c(1), of new] assms(3) c(3) by auto
  moreover have "chain (prevp ?h) head (rev xs) new"
    using chain_redirect[OF _ c(2), of new] c(3) assms(3)
    unfolding last_rev_hd by simp
  ultimately show ?thesis using c(3) assms(3) by (auto simp: is_dlist_def chain_append)
qed

text \<open>Exchanging the two fields turns a list around.\<close>

definition mirror :: "dlist_heap \<Rightarrow> dlist_heap" where
  "mirror h = \<lparr>nextp = prevp h, prevp = nextp h\<rparr>"

lemma mirror_dlist: "is_dlist (mirror h) head (rev xs) = is_dlist h head xs"
  by (auto simp: is_dlist_def mirror_def)

lemma mirror_mirror [simp]: "mirror (mirror h) = h"
  by (simp add: mirror_def)

lemma prepend_mirror: "new \<noteq> head \<Longrightarrow> dlist_prepend new head h = map_option mirror (dlist_append new head (mirror h))"
  by (auto simp: dlist_prepend_def dlist_append_def set_next_def set_prev_def mirror_def split: option.splits bind_splits)

lemma prepend_spec:
  assumes "is_dlist h head xs" and "free_node h new" and "new \<notin> set (head # xs)"
  shows "\<exists>h'. dlist_prepend new head h = Some h' \<and> is_dlist h' head (xs @ [new])"
proof -
  have "is_dlist (mirror h) head (rev xs)" "free_node (mirror h) new" "new \<notin> set (head # rev xs)"
    using assms by (simp_all add: mirror_dlist) (auto simp: free_node_def mirror_def)
  from append_spec[OF this] obtain h' where h': "dlist_append new head (mirror h) = Some h'" "is_dlist h' head (new # rev xs)" by blast
  have "is_dlist (mirror h') head (xs @ [new])" using h'(2) mirror_dlist[of "mirror h'" head "xs @ [new]"] by simp
  then show ?thesis using h'(1) assms(3) by (simp add: prepend_mirror)
qed

lemma unlink_spec:
  assumes "is_dlist h head (xs @ x # ys)"
  shows "\<exists>h'. dlist_unlink x h = Some h' \<and> is_dlist h' head (xs @ ys) \<and> nextp h' x = Some 0 \<and> prevp h' x = Some 0"
proof -
  let ?n = "hd (ys @ [head])" and ?p = "hd (rev xs @ [head])"
  have d: "distinct (head # xs @ x # ys)" and cn: "chain (nextp h) head xs x" "chain (nextp h) x ys head"
    and cp: "chain (prevp h) head (rev ys) x" "chain (prevp h) x (rev xs) head"
    using assms by (auto simp: is_dlist_def chain_append)
  have nx: "nextp h x = Some ?n" using chain_first[OF cn(2)] .
  have px: "prevp h x = Some ?p" using chain_first[OF cp(2)] .
  have lp: "?p = last (head # xs)" by (metis last_rev_hd rev_rev_ident)
  have ln: "?n = last (head # rev ys)" by (simp only: last_rev_hd)
  have p: "?p \<in> set (head # xs)" unfolding lp by (rule last_in_set) simp
  have n: "?n \<in> set (head # ys)" by (cases ys) auto
  have npy: "?p \<notin> set ys" and nnx: "?n \<notin> set (rev xs)" using d p n by auto
  have ne: "?n \<noteq> x" "?p \<noteq> x" using d p n by auto
  have pn: "prevp h ?n \<noteq> None" using chain_dom[OF cp(1), of ?n] n by auto
  have np: "nextp h ?p \<noteq> None" using chain_dom[OF cn(1), of ?p] p by auto
  let ?h = "h\<lparr>nextp := (nextp h)(?p \<mapsto> ?n, x \<mapsto> 0), prevp := (prevp h)(?n \<mapsto> ?p, x \<mapsto> 0)\<rparr>"
  have "dlist_unlink x h = Some ?h"
    using nx px pn np ne by (auto simp: dlist_unlink_def set_next_def set_prev_def)
  moreover have "chain (nextp ?h) head (xs @ ys) head"
  proof (rule chain_join)
    have "chain ((nextp h)(?p \<mapsto> ?n)) head xs ?n"
      unfolding lp by (rule chain_redirect[OF _ cn(1)]) (use d in auto)
    then show "chain (nextp ?h) head xs ?n" using d by simp
    show "ys \<noteq> [] \<longrightarrow> chain (nextp ?h) (hd ys) (tl ys) head"
      using chain_tail[OF cn(2)] d npy by (cases ys) simp_all
  qed
  moreover have "chain (prevp ?h) head (rev ys @ rev xs) head"
  proof (rule chain_join)
    have "chain ((prevp h)(?n \<mapsto> ?p)) head (rev ys) ?p"
      unfolding ln by (rule chain_redirect[OF _ cp(1)]) (use d in auto)
    then show "chain (prevp ?h) head (rev ys) ?p" using d by simp
    show "rev xs \<noteq> [] \<longrightarrow> chain (prevp ?h) (hd (rev xs)) (tl (rev xs)) head"
      using chain_tail[OF cp(2)] d nnx by (cases "rev xs") simp_all
  qed
  ultimately show ?thesis using d by (auto simp: is_dlist_def)
qed

lemma visit_head: "visit head head h = Some []"
  by (subst visit.simps) simp

lemma visit_step: "pos \<noteq> head \<Longrightarrow> visit head pos h = do { n \<leftarrow> nextp h pos; xs \<leftarrow> visit head n h; Some (pos # xs) }"
  by (subst visit.simps) simp

lemma visit_chain: "chain (nextp h) a xs head \<Longrightarrow> head \<notin> set xs \<Longrightarrow> visit head (hd (xs @ [head])) h = Some xs"
proof (induction xs arbitrary: a)
  case Nil
  then show ?case by (simp add: visit_head)
next
  case (Cons x xs)
  then show ?case using chain_first[of "nextp h" x xs head] Cons.IH[of x] by (simp add: visit_step)
qed

lemma for_each_spec: "is_dlist h head xs \<Longrightarrow> dlist_for_each_entry head h = Some xs"
  using dlist_first[of h head xs] visit_chain[of h head xs head] by (auto simp: is_dlist_def dlist_for_each_entry_def)

lemma empty_spec: "is_dlist h head xs \<Longrightarrow> dlist_empty head h = Some (xs = [])"
proof -
  assume a: "is_dlist h head xs"
  have "(hd (xs @ [head]) = head) = (xs = [])" using a by (cases xs) (auto simp: is_dlist_def)
  moreover have "(hd (rev xs @ [head]) = head) = (xs = [])" if "xs = []" using that by simp
  ultimately show ?thesis using dlist_first[OF a] dlist_last[OF a] by (auto simp: dlist_empty_def)
qed

lemma init_spec: "free_node h a \<Longrightarrow> \<exists>h'. DLIST_HEAD_INIT a h = Some h' \<and> is_dlist h' a []"
  by (auto simp: free_node_def DLIST_HEAD_INIT_def set_next_def set_prev_def is_dlist_def)

section \<open>Sequences of operations\<close>

text \<open>What the users of the header do to one list, and what each does to its sequence of nodes.\<close>

datatype dlist_op = Append nat | Prepend nat | Unlink nat

fun dlist_op_step :: "nat \<Rightarrow> dlist_op \<Rightarrow> dlist_heap \<Rightarrow> dlist_heap run" where
  "dlist_op_step head (Append a) h = dlist_append a head h"
| "dlist_op_step head (Prepend a) h = dlist_prepend a head h"
| "dlist_op_step head (Unlink a) h = dlist_unlink a h"

fun dlist_op_ok :: "dlist_op \<Rightarrow> nat list \<Rightarrow> bool" where
  "dlist_op_ok (Append a) xs = (a \<notin> set xs)"
| "dlist_op_ok (Prepend a) xs = (a \<notin> set xs)"
| "dlist_op_ok (Unlink a) xs = (a \<in> set xs)"

fun dlist_op_list :: "dlist_op \<Rightarrow> nat list \<Rightarrow> nat list" where
  "dlist_op_list (Append a) xs = dlist_append_head a xs"
| "dlist_op_list (Prepend a) xs = dlist_prepend_head a xs"
| "dlist_op_list (Unlink a) xs = dlist_unlink_nth (length (takeWhile (\<lambda>b. b \<noteq> a) xs)) xs"

fun dlist_ops :: "nat \<Rightarrow> dlist_op list \<Rightarrow> dlist_heap \<Rightarrow> dlist_heap run" where
  "dlist_ops head [] h = Some h"
| "dlist_ops head (p # ps) h = do { h1 \<leftarrow> dlist_op_step head p h; dlist_ops head ps h1 }"

text \<open>A sequence never links a node that is linked, nor the head, and unlinks linked nodes only.\<close>

fun dlist_ops_ok :: "dlist_op list \<Rightarrow> nat list \<Rightarrow> bool" where
  "dlist_ops_ok [] xs = True"
| "dlist_ops_ok (p # ps) xs = (dlist_op_ok p xs \<and> dlist_ops_ok ps (dlist_op_list p xs))"

fun dlist_op_node :: "dlist_op \<Rightarrow> nat" where
  "dlist_op_node (Append a) = a"
| "dlist_op_node (Prepend a) = a"
| "dlist_op_node (Unlink a) = a"

lemma free_set [dest!]: "set_next a v h = Some h' \<Longrightarrow> free_node h' = free_node h"
  "set_prev a v h = Some h' \<Longrightarrow> free_node h' = free_node h"
  by (auto simp: set_next_def set_prev_def free_node_def split: if_splits)

lemma step_free: "dlist_op_step head p h = Some h' \<Longrightarrow> free_node h' = free_node h"
  by (cases p) (auto simp: dlist_append_def dlist_prepend_def dlist_unlink_def bind_Some_iff)

lemma step_spec:
  assumes "is_dlist h head xs" and "dlist_op_ok p xs" and "free_node h (dlist_op_node p)" and "dlist_op_node p \<noteq> head"
  shows "\<exists>h'. dlist_op_step head p h = Some h' \<and> is_dlist h' head (dlist_op_list p xs)"
proof (cases p)
  case (Append a)
  with assms show ?thesis using append_spec[of h head xs a] by (simp add: dlist_append_head_def)
next
  case (Prepend a)
  with assms show ?thesis using prepend_spec[of h head xs a] by (simp add: dlist_prepend_head_def)
next
  case (Unlink a)
  let ?l = "takeWhile (\<lambda>b. b \<noteq> a) xs" and ?r = "tl (dropWhile (\<lambda>b. b \<noteq> a) xs)"
  have "dropWhile (\<lambda>b. b \<noteq> a) xs \<noteq> []" using assms(2) Unlink by (auto simp: dropWhile_eq_Nil_conv)
  then have "dropWhile (\<lambda>b. b \<noteq> a) xs = a # ?r" using hd_dropWhile[of "\<lambda>b. b \<noteq> a" xs] by (cases "dropWhile (\<lambda>b. b \<noteq> a) xs") auto
  then have "xs = ?l @ a # ?r" by (metis takeWhile_dropWhile_id)
  then obtain l r where xs: "xs = l @ a # r" and l: "l = ?l" by blast
  have "dlist_op_list p xs = l @ r" using Unlink l by (simp add: xs[symmetric] dlist_unlink_nth_def) (simp add: xs)
  then show ?thesis using unlink_spec[of h head l a r] assms(1) Unlink xs by auto
qed

lemma ops_spec:
  assumes "is_dlist h head xs" and "dlist_ops_ok ps xs" and "\<forall>p \<in> set ps. free_node h (dlist_op_node p) \<and> dlist_op_node p \<noteq> head"
  shows "\<exists>h'. dlist_ops head ps h = Some h' \<and> is_dlist h' head (fold dlist_op_list ps xs)"
  using assms
proof (induction ps arbitrary: h xs)
  case (Cons p ps)
  obtain h1 where h1: "dlist_op_step head p h = Some h1" "is_dlist h1 head (dlist_op_list p xs)"
    using step_spec[of h head xs p] Cons.prems by auto
  have "\<forall>q \<in> set ps. free_node h1 (dlist_op_node q) \<and> dlist_op_node q \<noteq> head"
    using Cons.prems(3) step_free[OF h1(1)] by simp
  then show ?case using Cons.IH[OF h1(2)] Cons.prems(2) h1(1) by simp
qed simp

text \<open>C27. 
  From an initialised head, any sequence of appends, prepends and unlinks of nodes
  has a defined result, and iterating over the list then visits exactly the nodes that the list
  functions used for these lists elsewhere give, in the same order.
\<close>

theorem dlist_refines_lists:
  assumes "free_node h head" and "dlist_ops_ok ps []"
    and "\<forall>p \<in> set ps. free_node h (dlist_op_node p) \<and> dlist_op_node p \<noteq> head"
  shows "\<exists>h1 h2. DLIST_HEAD_INIT head h = Some h1 \<and> dlist_ops head ps h1 = Some h2
    \<and> dlist_for_each_entry head h2 = Some (fold dlist_op_list ps [])
    \<and> dlist_empty head h2 = Some (fold dlist_op_list ps [] = [])"
proof -
  obtain h1 where h1: "DLIST_HEAD_INIT head h = Some h1" "is_dlist h1 head []" using init_spec[OF assms(1)] by blast
  have "\<forall>p \<in> set ps. free_node h1 (dlist_op_node p) \<and> dlist_op_node p \<noteq> head"
    using assms(3) h1(1) by (auto simp: DLIST_HEAD_INIT_def bind_Some_iff)
  then show ?thesis using ops_spec[OF h1(2) assms(2)] h1(1) for_each_spec empty_spec by meson
qed

theorem dlist_refines_lists_witness:
  "let h = \<lparr>nextp = [1 \<mapsto> 0, 2 \<mapsto> 0, 3 \<mapsto> 0], prevp = [1 \<mapsto> 0, 2 \<mapsto> 0, 3 \<mapsto> 0]\<rparr> in
   \<exists>h1 h2. DLIST_HEAD_INIT 1 h = Some h1 \<and> dlist_ops 1 [Append 2, Append 3, Unlink 2, Prepend 2] h1 = Some h2
     \<and> dlist_for_each_entry 1 h2 = Some [3, 2]"
  unfolding Let_def
  using dlist_refines_lists[of "\<lparr>nextp = [1 \<mapsto> 0, 2 \<mapsto> 0, 3 \<mapsto> 0], prevp = [1 \<mapsto> 0, 2 \<mapsto> 0, 3 \<mapsto> 0]\<rparr>" 1
      "[Append 2, Append 3, Unlink 2, Prepend 2]"]
  by (simp add: free_node_def dlist_append_head_def dlist_prepend_head_def dlist_unlink_nth_def) blast

end
