(* ===== verification/Strconv.thy ===== *)
theory Strconv
  imports Prelude
begin

text \<open>
  \<^verbatim>\<open>liboal/liboal/strconv.c\<close>: conversions and checks of strings. A \<^verbatim>\<open>char *\<close> that may be
  \<^verbatim>\<open>NULL\<close> is an option; a string is the list of its characters before the NUL, shorter than
  \<open>2^32\<close>. The functions of the C library they call come first, in the C locale. Functions under
  \<^verbatim>\<open>#if 0\<close> or \<^verbatim>\<open>SUPPORT_IPV6_1\<close> are not compiled.
\<close>

unbundle bit_operations_syntax

section \<open>The C library\<close>

definition isspace :: "char \<Rightarrow> bool" where
  "isspace c \<longleftrightarrow> c \<in> {CHR '' '', CHR 0x09, CHR 0x0A, CHR 0x0B, CHR 0x0C, CHR 0x0D}"

definition tolower :: "char \<Rightarrow> char" where
  "tolower c = (let n = of_char c :: nat in if 65 \<le> n \<and> n \<le> 90 then char_of (n + 32) else c)"

definition digit_val :: "char \<Rightarrow> nat option" where
  "digit_val c =
     (let n = of_char c :: nat in
      if 48 \<le> n \<and> n \<le> 57 then Some (n - 48)
      else if 97 \<le> n \<and> n \<le> 122 then Some (n - 87)
      else if 65 \<le> n \<and> n \<le> 90 then Some (n - 55)
      else None)"

definition is_digit :: "nat \<Rightarrow> char \<Rightarrow> bool" where
  "is_digit b c = (case digit_val c of Some d \<Rightarrow> d < b | None \<Rightarrow> False)"

definition number :: "nat \<Rightarrow> string \<Rightarrow> nat" where
  "number b ds = foldl (\<lambda>a c. a * b + the (digit_val c)) 0 ds"

text \<open>
  What \<^verbatim>\<open>strtol\<close> and \<^verbatim>\<open>strtoul\<close> read: whether there is a minus sign, the number and the count of
  characters. Without digits they read nothing.
\<close>

definition hex_prefix :: "string \<Rightarrow> bool" where
  "hex_prefix s = (case s of z # x # d # _ \<Rightarrow> z = CHR ''0'' \<and> (x = CHR ''x'' \<or> x = CHR ''X'') \<and> is_digit 16 d | _ \<Rightarrow> False)"

definition strto_scan :: "nat \<Rightarrow> string \<Rightarrow> bool \<times> nat \<times> nat" where
  "strto_scan base s =
     (let s1 = dropWhile isspace s;
          neg = (s1 \<noteq> [] \<and> hd s1 = CHR ''-'');
          s2 = (if s1 \<noteq> [] \<and> (hd s1 = CHR ''-'' \<or> hd s1 = CHR ''+'') then tl s1 else s1);
          hex = ((base = 0 \<or> base = 16) \<and> hex_prefix s2);
          b = (if base \<noteq> 0 then base else if hex then 16 else if s2 \<noteq> [] \<and> hd s2 = CHR ''0'' then 8 else 10);
          s3 = (if hex then drop 2 s2 else s2);
          ds = takeWhile (is_digit b) s3
      in if ds = [] then (False, 0, 0) else (neg, number b ds, length s - length s3 + length ds))"

definition base_ok :: "int \<Rightarrow> bool" where
  "base_ok base \<longleftrightarrow> base = 0 \<or> (2 \<le> base \<and> base \<le> 36)"

text \<open>
  The number, the characters read (none when the base is bad: the end pointer is not set) and
  whether \<^verbatim>\<open>errno\<close> is set. A \<^verbatim>\<open>long\<close> has \<open>w\<close> bits, 32 or 64 with the machine.
\<close>

definition strtol :: "nat \<Rightarrow> string \<Rightarrow> int \<Rightarrow> int \<times> nat option \<times> bool" where
  "strtol w s base =
     (if \<not> base_ok base then (0, None, True)
      else case strto_scan (nat base) s of (neg, n, k) \<Rightarrow>
        let v = (if neg then - int n else int n) in
        if v < - (2 ^ (w - 1)) then (- (2 ^ (w - 1)), Some k, True)
        else if v > 2 ^ (w - 1) - 1 then (2 ^ (w - 1) - 1, Some k, True)
        else (v, Some k, False))"

definition strtoul :: "nat \<Rightarrow> string \<Rightarrow> int \<Rightarrow> int \<times> nat option \<times> bool" where
  "strtoul w s base =
     (if \<not> base_ok base then (0, None, True)
      else case strto_scan (nat base) s of (neg, n, k) \<Rightarrow>
        if n > 2 ^ w - 1 then (2 ^ w - 1, Some k, True)
        else (if neg then (- int n) mod 2 ^ w else int n, Some k, False))"

text \<open>\<^verbatim>\<open>strtok_r\<close> with one delimiter: the token, if any, and what \<^verbatim>\<open>pLast\<close> points to afterwards.\<close>

definition strtok :: "char \<Rightarrow> string \<Rightarrow> string option \<times> string" where
  "strtok d s =
     (let t = dropWhile (\<lambda>c. c = d) s; k = takeWhile (\<lambda>c. c \<noteq> d) t in
      if t = [] then (None, []) else (Some k, drop (Suc (length k)) t))"

definition strcpy :: "buf \<Rightarrow> string \<Rightarrow> buf run" where
  "strcpy dst s = (if length s < length dst then Some (s @ NUL # drop (Suc (length s)) dst) else None)"

text \<open>What \<^verbatim>\<open>snprintf\<close> writes of the formatted text \<open>s\<close>; it returns the length of \<open>s\<close>.\<close>

definition snprintf :: "buf \<Rightarrow> nat \<Rightarrow> string \<Rightarrow> buf run" where
  "snprintf dst n s = (if n = 0 then Some dst else strcpy dst (take (n - 1) s))"

fun dec :: "nat \<Rightarrow> string" where
  "dec n = (if n < 10 then [char_of (48 + n)] else dec (n div 10) @ [char_of (48 + n mod 10)])"

declare dec.simps [simp del]

definition hexdigit :: "nat \<Rightarrow> char" where
  "hexdigit n = (if n < 10 then char_of (48 + n) else char_of (87 + n))"

fun strcmp :: "string \<Rightarrow> string \<Rightarrow> int" where
  "strcmp [] [] = 0"
| "strcmp [] (_ # _) = - 1"
| "strcmp (_ # _) [] = 1"
| "strcmp (a # s) (b # t) =
     (if a = b then strcmp s t else if (of_char a :: nat) < of_char b then - 1 else 1)"

fun strstr :: "string \<Rightarrow> string \<Rightarrow> string option" where
  "strstr [] t = (if t = [] then Some [] else None)"
| "strstr (c # s) t = (if take (length t) (c # s) = t then Some (c # s) else strstr s t)"

section \<open>Addresses\<close>

text \<open>An IPv4 address are its four bytes in network order; \<open>s_addr\<close> is how the host reads them as one number.\<close>

type_synonym in_addr = "8 word \<times> 8 word \<times> 8 word \<times> 8 word"

definition join4 :: "8 word \<Rightarrow> 8 word \<Rightarrow> 8 word \<Rightarrow> 8 word \<Rightarrow> UINT32" where
  "join4 a b c d = push_bit 24 (ucast a) OR push_bit 16 (ucast b) OR push_bit 8 (ucast c) OR ucast d"

fun s_addr :: "bool \<Rightarrow> in_addr \<Rightarrow> UINT32" where
  "s_addr little (a, b, c, d) = (if little then join4 d c b a else join4 a b c d)"

fun in_addr_and :: "in_addr \<Rightarrow> in_addr \<Rightarrow> in_addr" where
  "in_addr_and (a, b, c, d) (a', b', c', d') = (a AND a', b AND b', c AND c', d AND d')"

fun inet_ntoa :: "in_addr \<Rightarrow> string" where
  "inet_ntoa (a, b, c, d) = dec (unat a) @ CHR ''.'' # dec (unat b) @ CHR ''.'' # dec (unat c) @ CHR ''.'' # dec (unat d)"

definition tcmUtl_macNumToStr :: "8 word list option \<Rightarrow> buf option \<Rightarrow> (tcmRet \<times> buf option) run" where
  "tcmUtl_macNumToStr macNum macStr =
     (case (macNum, macStr) of
        (Some m, Some dst) \<Rightarrow>
          if length m < 6 then None
          else do { b \<leftarrow> strcpy dst (tl (concat (map (\<lambda>x. [CHR '':'', hexdigit (unat x div 16), hexdigit (unat x mod 16)]) (take 6 m))));
                    Some (TCMRET_SUCCESS, Some b) }
      | _ \<Rightarrow> Some (TCMRET_INVALID_ARGUMENTS, macStr))"

text \<open>The loop counts the leading one bits; \<open>n\<close> is one more than the index \<open>i\<close> of the code.\<close>

fun cidr_loop :: "nat \<Rightarrow> UINT32 \<Rightarrow> nat" where
  "cidr_loop 0 x = 0"
| "cidr_loop (Suc n) x = (if bit x n then Suc (cidr_loop n x) else 0)"

definition tcmUtl_ipMaskToCidrLen :: "(string \<Rightarrow> in_addr option) \<Rightarrow> bool \<Rightarrow> string \<Rightarrow> nat" where
  "tcmUtl_ipMaskToCidrLen inet_aton little ipMask =
     (case inet_aton ipMask of Some ad \<Rightarrow> cidr_loop 32 (s_addr little ad) | None \<Rightarrow> 0)"

definition tcmUtl_mergeIpWithMask ::
    "(string \<Rightarrow> in_addr option) \<Rightarrow> string option \<Rightarrow> string option \<Rightarrow> buf option \<Rightarrow> (tcmRet \<times> buf option) run" where
  "tcmUtl_mergeIpWithMask inet_aton ipStr maskStr resultStr =
     (case (ipStr, maskStr, resultStr) of
        (Some i, Some m, Some dst) \<Rightarrow>
          (case (inet_aton i, inet_aton m) of
             (Some x, Some y) \<Rightarrow> do { b \<leftarrow> strcpy dst (inet_ntoa (in_addr_and x y)); Some (TCMRET_SUCCESS, Some b) }
           | _ \<Rightarrow> Some (TCMRET_INVALID_ARGUMENTS, resultStr))
      | _ \<Rightarrow> Some (TCMRET_INVALID_ARGUMENTS, resultStr))"

section \<open>Numbers\<close>

text \<open>
  The code, the end pointer as an offset into the string (\<open>None\<close> is \<^verbatim>\<open>NULL\<close>) and the value. The value
  is an integer of 32 bits; \<^verbatim>\<open>NULL\<close> strings are followed.
\<close>

definition tcmUtl_strtol :: "nat \<Rightarrow> string option \<Rightarrow> int \<Rightarrow> (tcmRet \<times> nat option \<times> 32 word) run" where
  "tcmUtl_strtol w str base =
     do { s \<leftarrow> str;
          let (v, end, err) = strtol w s base in
          if err \<or> end \<noteq> Some (length s) then Some (TCMRET_INVALID_ARGUMENTS, end, 0)
          else Some (TCMRET_SUCCESS, end, word_of_int v) }"

definition tcmUtl_strtoul :: "nat \<Rightarrow> string option \<Rightarrow> int \<Rightarrow> (tcmRet \<times> nat option \<times> UINT32) run" where
  "tcmUtl_strtoul w str base =
     do { s0 \<leftarrow> str;
          let ws = length (takeWhile isspace s0); s = dropWhile isspace s0 in
          if s \<noteq> [] \<and> hd s = CHR ''-'' then Some (TCMRET_INVALID_ARGUMENTS, Some ws, 0)
          else case strtoul w s base of (v, end, err) \<Rightarrow>
            let e = map_option (\<lambda>k. ws + k) end in
            if err \<or> end \<noteq> Some (length s) then Some (TCMRET_INVALID_ARGUMENTS, e, 0)
            else Some (TCMRET_SUCCESS, e, word_of_int v) }"

definition tcmUtl_strToLower :: "string option \<Rightarrow> string run" where
  "tcmUtl_strToLower str = map_option (map tolower) str"

definition tcmUtl_getBaseDir :: "buf \<Rightarrow> nat \<Rightarrow> (tcmRet \<times> buf) run" where
  "tcmUtl_getBaseDir pathBuf pathBufLen =
     do { b \<leftarrow> snprintf pathBuf pathBufLen ''/var'';
          Some (if 4 \<ge> pathBufLen then TCMRET_RESOURCE_EXCEEDED else TCMRET_SUCCESS, b) }"

section \<open>Checks\<close>

definition tcmUtl_isValidSyslogMode :: "nat \<Rightarrow> string option \<Rightarrow> bool run" where
  "tcmUtl_isValidSyslogMode w modeStr =
     do { (r, _, mode) \<leftarrow> tcmUtl_strtoul w modeStr 10; Some (r = TCMRET_SUCCESS \<and> mode \<ge> 1 \<and> mode \<le> 3) }"

definition tcmUtl_isValidSyslogLevel :: "nat \<Rightarrow> string option \<Rightarrow> bool run" where
  "tcmUtl_isValidSyslogLevel w levelStr =
     do { (r, _, level) \<leftarrow> tcmUtl_strtoul w levelStr 10; Some (r = TCMRET_SUCCESS \<and> level \<le> 7) }"

definition tcmUtl_isValidPortNumber :: "nat \<Rightarrow> string option \<Rightarrow> bool run" where
  "tcmUtl_isValidPortNumber w portNumberStr =
     do { (r, _, portNum) \<leftarrow> tcmUtl_strtoul w portNumberStr 10; Some (r = TCMRET_SUCCESS \<and> portNum < 64 * 1024) }"

text \<open>One token, which may be \<^verbatim>\<open>NULL\<close>: whether it is accepted, and its number.\<close>

definition octet :: "nat \<Rightarrow> string option \<Rightarrow> (bool \<times> UINT32) run" where
  "octet w tok = do { (r, _, num) \<leftarrow> tcmUtl_strtoul w tok 10; Some (r = TCMRET_SUCCESS \<and> \<not> num > 255, num) }"

fun ip_loop :: "nat \<Rightarrow> nat \<Rightarrow> string \<Rightarrow> bool run" where
  "ip_loop w 0 pLast = Some True"
| "ip_loop w (Suc n) pLast =
     (case strtok CHR ''.'' pLast of (tok, pLast1) \<Rightarrow>
        do { (ok, _) \<leftarrow> octet w tok; if ok then ip_loop w n pLast1 else Some False })"

definition tcmUtl_isValidIpAddress :: "nat \<Rightarrow> string option \<Rightarrow> bool run" where
  "tcmUtl_isValidIpAddress w input =
     (case input of
        None \<Rightarrow> Some False
      | Some s \<Rightarrow>
          if length s < 7 \<or> length s > 15 then Some False
          else case strtok CHR ''.'' s of (tok, pLast) \<Rightarrow>
            do { (ok, _) \<leftarrow> octet w tok; if ok then ip_loop w 3 pLast else Some False })"

text \<open>\<open>output\<close> is the array of characters the octets are stored to.\<close>

definition put_octet :: "8 word list \<Rightarrow> nat \<Rightarrow> UINT32 \<Rightarrow> 8 word list run" where
  "put_octet out i num = (if i < length out then Some (out[i := ucast num]) else None)"

fun octets_loop :: "nat \<Rightarrow> nat \<Rightarrow> nat \<Rightarrow> string \<Rightarrow> 8 word list \<Rightarrow> (bool \<times> 8 word list) run" where
  "octets_loop w 0 i pLast out = Some (True, out)"
| "octets_loop w (Suc n) i pLast out =
     (case strtok CHR ''.'' pLast of (tok, pLast1) \<Rightarrow>
        do { (ok, num) \<leftarrow> octet w tok;
             if ok then do { out1 \<leftarrow> put_octet out (i + 1) num; octets_loop w n (i + 1) pLast1 out1 }
             else Some (False, out) })"

definition tcmUtl_ipStrToOctets :: "nat \<Rightarrow> string option \<Rightarrow> 8 word list \<Rightarrow> (bool \<times> 8 word list) run" where
  "tcmUtl_ipStrToOctets w input output =
     (case input of
        None \<Rightarrow> Some (False, output)
      | Some s \<Rightarrow>
          if length s < 7 \<or> length s > 15 then Some (False, output)
          else case strtok CHR ''.'' s of (tok, pLast) \<Rightarrow>
            do { (ok, num) \<leftarrow> octet w tok;
                 if ok then do { out1 \<leftarrow> put_octet output 0 num; octets_loop w 3 0 pLast out1 }
                 else Some (False, output) })"


section \<open>Strings\<close>

definition nullstr :: "string option \<Rightarrow> string" where
  "nullstr s = (case s of None \<Rightarrow> [] | Some x \<Rightarrow> x)"

definition tcmUtl_strcmp :: "string option \<Rightarrow> string option \<Rightarrow> int" where
  "tcmUtl_strcmp s1 s2 = strcmp (nullstr s1) (nullstr s2)"

definition tcmUtl_strcpy :: "buf option \<Rightarrow> string option \<Rightarrow> buf option run" where
  "tcmUtl_strcpy s1 s2 =
     (case (s1, s2) of (Some d, Some s) \<Rightarrow> map_option Some (strcpy d s) | _ \<Rightarrow> Some None)"

definition tcmUtl_strcasecmp :: "string option \<Rightarrow> string option \<Rightarrow> int" where
  "tcmUtl_strcasecmp s1 s2 = strcmp (map tolower (nullstr s1)) (map tolower (nullstr s2))"

text \<open>The count is converted to an unsigned number: a negative one is beyond any string.\<close>

definition upto :: "int \<Rightarrow> string \<Rightarrow> string" where
  "upto n s = (if n < 0 then s else take (nat n) s)"

definition tcmUtl_strncmp :: "string option \<Rightarrow> string option \<Rightarrow> int \<Rightarrow> int" where
  "tcmUtl_strncmp s1 s2 n = strcmp (upto n (nullstr s1)) (upto n (nullstr s2))"

definition tcmUtl_strncasecmp :: "string option \<Rightarrow> string option \<Rightarrow> int \<Rightarrow> int" where
  "tcmUtl_strncasecmp s1 s2 n = strcmp (map tolower (upto n (nullstr s1))) (map tolower (upto n (nullstr s2)))"

text \<open>
  The result is the rest of the string from the match on, if any. A match in \<^verbatim>\<open>NULL\<close> is a
  pointer to a local variable of the function, which nobody can use.
\<close>

definition tcmUtl_strstr :: "string option \<Rightarrow> string option \<Rightarrow> string option run" where
  "tcmUtl_strstr s1 s2 =
     (case strstr (nullstr s1) (nullstr s2) of
        Some r \<Rightarrow> if s1 = None then None else Some (Some r)
      | None \<Rightarrow> Some None)"

definition isProtocolCover :: "string option \<Rightarrow> string option \<Rightarrow> bool" where
  "isProtocolCover inputProtocol saveProtocol =
     (let ipputBit = (if tcmUtl_strcmp inputProtocol (Some ''1'') = 0 then 0x01
                      else if tcmUtl_strcmp inputProtocol (Some ''2'') = 0 then 0x10 else 0x11) :: 16 word;
          saveBit = (if tcmUtl_strcmp saveProtocol (Some ''TCP'') = 0 then 0x01
                     else if tcmUtl_strcmp saveProtocol (Some ''UDP'') = 0 then 0x10 else 0x11) :: 16 word
      in ipputBit AND saveBit \<noteq> 0)"

text \<open>
  \<open>al\<close> is whether memory for the copy is there. The comma splits the copy; of the rest the white space in
  front and everything from the next comma on are left out. An output that is \<^verbatim>\<open>NULL\<close> is not written.
\<close>

definition put_string :: "buf option \<Rightarrow> string \<Rightarrow> buf option run" where
  "put_string dst s = (case dst of None \<Rightarrow> Some None | Some b \<Rightarrow> map_option Some (strcpy b s))"

definition tcmUtl_parseDNS ::
    "bool \<Rightarrow> string option \<Rightarrow> buf option \<Rightarrow> buf option \<Rightarrow> (tcmRet \<times> buf option \<times> buf option) run" where
  "tcmUtl_parseDNS al inDsnServers outDnsPrimary outDnsSecondary =
     (case inDsnServers of
        None \<Rightarrow> Some (TCMRET_INVALID_ARGUMENTS, outDnsPrimary, outDnsSecondary)
      | Some s \<Rightarrow>
          if \<not> al then Some (TCMRET_INTERNAL_ERROR, outDnsPrimary, outDnsSecondary)
          else do {
            sec1 \<leftarrow> (case dropWhile (\<lambda>c. c \<noteq> CHR '','') s of
                      [] \<Rightarrow> Some outDnsSecondary
                    | _ # r \<Rightarrow> put_string outDnsSecondary (takeWhile (\<lambda>c. c \<noteq> CHR '','') (dropWhile isspace r)));
            prim1 \<leftarrow> put_string outDnsPrimary (takeWhile (\<lambda>c. c \<noteq> CHR '','') s);
            Some (TCMRET_SUCCESS, prim1, sec1) })"

definition opt_sep :: "char \<Rightarrow> bool" where
  "opt_sep c \<longleftrightarrow> c = CHR '' '' \<or> c = CHR '',''"

text \<open>The loop of \<^verbatim>\<open>tcmUtl_isSubOptionPresent\<close>, \<open>s\<close> being the rest from \<^verbatim>\<open>startChar\<close> on.\<close>

function suboption_loop :: "string \<Rightarrow> string \<Rightarrow> bool" where
  "suboption_loop sub s =
     (if s = [] then False
      else let k = takeWhile (\<lambda>c. \<not> opt_sep c) s; r = dropWhile (\<lambda>c. \<not> opt_sep c) s in
        if length k = length sub \<and> strcmp (take (length k) sub) k = 0 then True
        else if r = [] then False
        else suboption_loop sub (dropWhile opt_sep r))"
  by pat_completeness auto

lemma suboption_shrinks:
  assumes "dropWhile (\<lambda>c. \<not> opt_sep c) s \<noteq> []"
  shows "length (dropWhile opt_sep (dropWhile (\<lambda>c. \<not> opt_sep c) s)) < length s"
proof -
  obtain c t where ct: "dropWhile (\<lambda>c. \<not> opt_sep c) s = c # t" using assms by (cases "dropWhile (\<lambda>c. \<not> opt_sep c) s") auto
  have "opt_sep c" using hd_dropWhile[OF assms] ct by simp
  then have "length (dropWhile opt_sep (c # t)) \<le> length t" using length_dropWhile_le[of opt_sep t] by simp
  moreover have "length (c # t) \<le> length s" using length_dropWhile_le[of "\<lambda>c. \<not> opt_sep c" s] ct by simp
  ultimately show ?thesis using ct by simp
qed

termination suboption_loop
  by (relation "measure (length \<circ> snd)") (auto simp: suboption_shrinks)

declare suboption_loop.simps [simp del]

definition tcmUtl_isSubOptionPresent :: "string option \<Rightarrow> string option \<Rightarrow> bool" where
  "tcmUtl_isSubOptionPresent fullOptionString subOption =
     (case (fullOptionString, subOption) of (Some s, Some sub) \<Rightarrow> suboption_loop sub s | _ \<Rightarrow> False)"

section \<open>Numbers in decimal\<close>

definition decimal :: "string \<Rightarrow> bool" where
  "decimal s \<longleftrightarrow> s \<noteq> [] \<and> (\<forall>c \<in> set s. is_digit 10 c)"

lemma digit_val_less: "is_digit 10 c \<longleftrightarrow> 48 \<le> (of_char c :: nat) \<and> (of_char c :: nat) \<le> 57"
  by (auto simp: is_digit_def digit_val_def Let_def)

lemma digit_other:
  assumes "is_digit 10 c"
  shows "\<not> isspace c" "c \<noteq> CHR ''-''" "c \<noteq> CHR ''+''" "c \<noteq> CHR ''.''"
  using assms by (auto simp: digit_val_less isspace_def)

lemma digit_char_value: "n < 10 \<Longrightarrow> is_digit 10 (char_of (48 + n)) \<and> digit_val (char_of (48 + n)) = Some n"
  by (simp add: is_digit_def digit_val_def Let_def)

lemma number_snoc: "number b (ds @ [c]) = number b ds * b + the (digit_val c)"
  by (simp add: number_def)

lemma dec_decimal: "decimal (dec n)"
proof (induction n rule: dec.induct)
  case (1 n)
  show ?case
  proof (cases "n < 10")
    case True
    then show ?thesis using digit_char_value[of n] by (subst dec.simps) (simp add: decimal_def)
  next
    case False
    then show ?thesis using 1 digit_char_value[of "n mod 10"] by (subst dec.simps) (auto simp: decimal_def)
  qed
qed

lemma number_dec [simp]: "number 10 (dec n) = n"
proof (induction n rule: dec.induct)
  case (1 n)
  show ?case
  proof (cases "n < 10")
    case True
    then show ?thesis using digit_char_value[of n] by (subst dec.simps) (simp add: number_def)
  next
    case False
    then show ?thesis using 1 digit_char_value[of "n mod 10"] by (subst dec.simps) (simp add: number_snoc)
  qed
qed

lemma dec_short: "n < 1000 \<Longrightarrow> length (dec n) \<le> 3"
  by (simp add: dec.simps)

lemma takeWhile_decimal: "decimal s \<Longrightarrow> takeWhile (is_digit 10) s = s"
  by (auto simp: decimal_def)

lemma dropWhile_decimal: "decimal s \<Longrightarrow> dropWhile isspace s = s"
  by (cases s) (auto simp: decimal_def digit_other)

lemma strto_scan_decimal:
  assumes "decimal s"
  shows "strto_scan 10 s = (False, number 10 s, length s)"
proof -
  have "s \<noteq> []" "hd s \<noteq> CHR ''-''" "hd s \<noteq> CHR ''+''"
    using assms digit_other[of "hd s"] by (auto simp: decimal_def)
  then show ?thesis by (simp add: strto_scan_def Let_def dropWhile_decimal[OF assms] takeWhile_decimal[OF assms])
qed

lemma strtoul_decimal:
  assumes "decimal s"
  shows "tcmUtl_strtoul w (Some s) 10 =
     Some (if number 10 s < 2 ^ w then (TCMRET_SUCCESS, Some (length s), of_nat (number 10 s))
           else (TCMRET_INVALID_ARGUMENTS, Some (length s), 0))"
proof -
  have h: "hd s \<noteq> CHR ''-''" using assms digit_other[of "hd s"] by (auto simp: decimal_def)
  have t: "takeWhile isspace s = []" using dropWhile_decimal[OF assms] assms
    by (cases s) (auto simp: decimal_def digit_other)
  have "(number 10 s > 2 ^ w - 1) = (\<not> number 10 s < 2 ^ w)"
    using zero_less_power[of "2::nat" w] by linarith
  then show ?thesis using h t
    by (simp add: tcmUtl_strtoul_def strtoul_def strto_scan_decimal[OF assms] base_ok_def dropWhile_decimal[OF assms] Let_def)
qed


section \<open>Addresses\<close>

lemma decimal_no_dot: "decimal t \<Longrightarrow> c \<in> set t \<Longrightarrow> c \<noteq> CHR ''.''"
  using digit_other(4) by (auto simp: decimal_def)

lemma strtok_next:
  assumes "decimal t"
  shows "strtok CHR ''.'' (t @ CHR ''.'' # r) = (Some t, r)" "strtok CHR ''.'' t = (Some t, [])"
proof -
  obtain c u where t: "t = c # u" using assms by (cases t) (auto simp: decimal_def)
  have c: "c \<noteq> CHR ''.''" "\<forall>x \<in> set u. x \<noteq> CHR ''.''" using assms decimal_no_dot[OF assms] by (auto simp: t)
  have k: "takeWhile (\<lambda>x. x \<noteq> CHR ''.'') (u @ CHR ''.'' # r) = u" "takeWhile (\<lambda>x. x \<noteq> CHR ''.'') u = u"
    using c(2) by (simp_all add: takeWhile_append2)
  show "strtok CHR ''.'' (t @ CHR ''.'' # r) = (Some t, r)" "strtok CHR ''.'' t = (Some t, [])"
    using c(1) by (simp_all add: strtok_def t k Let_def)
qed

lemma strtok_end: "strtok d [] = (None, [])"
  by (simp add: strtok_def)

lemma octet_NULL: "octet w None = None"
  by (simp add: octet_def tcmUtl_strtoul_def)

lemma byte_less: "unat (x :: 8 word) < 256"
  using unsigned_less[of x, where ?'a = nat] by simp

lemma byte_small: "8 \<le> w \<Longrightarrow> unat (x :: 8 word) < 2 ^ w"
  using byte_less[of x] power_increasing[of 8 w "2::nat"] by simp

lemma octet_byte:
  assumes "8 \<le> w"
  shows "octet w (Some (dec (unat (x :: 8 word)))) = Some (True, ucast x)"
proof -
  have "unat (ucast x :: UINT32) = unat x"
    using byte_less[of x] by (simp add: unsigned_ucast_eq take_bit_nat_eq_self)
  then have "\<not> (ucast x :: UINT32) > 255" using byte_less[of x] by (simp add: word_less_nat_alt)
  then show ?thesis using byte_small[OF assms, of x]
    by (simp add: octet_def strtoul_decimal[OF dec_decimal])
qed

lemma byte_dec: "length (dec (unat (x :: 8 word))) \<le> 3" "1 \<le> length (dec (unat x))"
  using dec_short[of "unat x"] byte_less[of x] dec_decimal[of "unat x"]
  by (auto simp: decimal_def Suc_le_eq)

lemma ntoa_length: "7 \<le> length (inet_ntoa (a, b, c, d)) \<and> length (inet_ntoa (a, b, c, d)) \<le> 15"
  using byte_dec[of a] byte_dec[of b] byte_dec[of c] byte_dec[of d] by simp

lemma ucast_back: "ucast (ucast (x :: 8 word) :: UINT32) = x"
  by (simp add: ucast_down_ucast_id is_down)

text \<open>C39. 
  The octets of the dotted form of an address are its bytes, whatever the address; what
  lies behind the fourth element of the array is kept.
\<close>

theorem ipStrToOctets_roundtrip:
  assumes "8 \<le> w" and "4 \<le> length out"
  shows "tcmUtl_ipStrToOctets w (Some (inet_ntoa (a, b, c, d))) out = Some (True, [a, b, c, d] @ drop 4 out)"
proof -
  obtain x0 x1 x2 x3 rest where out: "out = x0 # x1 # x2 # x3 # rest"
    using assms(2) by (metis Suc_le_length_iff eval_nat_numeral(2) semiring_norm(26) numeral_eq_Suc pred_numeral_simps(2) BitM.simps eval_nat_numeral(3))
  show ?thesis
    using ntoa_length[of a b c d]
    by (simp add: tcmUtl_ipStrToOctets_def strtok_next dec_decimal octet_byte[OF assms(1)] put_octet_def out
        eval_nat_numeral ucast_back)
qed

theorem ipStrToOctets_roundtrip_witness:
  "tcmUtl_ipStrToOctets 32 (Some (inet_ntoa (192, 168, 0, 1))) [0, 0, 0, 0] = Some (True, [192, 168, 0, 1])"
  using ipStrToOctets_roundtrip[of 32 "[0, 0, 0, 0]" 192 168 0 1] by simp

text \<open>
  An address is valid exactly when its octets can be stored, on every string, with the same
  undefined results.
\<close>

lemma ip_loop_octets:
  "i + n < length out \<Longrightarrow> ip_loop w n p = map_option fst (octets_loop w n i p out)"
proof (induction n arbitrary: i p out)
  case (Suc n)
  then show ?case
    by (auto simp: put_octet_def option.map_comp split: prod.splits Option.bind_splits)
qed simp

theorem valid_address_has_octets:
  assumes "4 \<le> length out"
  shows "tcmUtl_isValidIpAddress w input = map_option fst (tcmUtl_ipStrToOctets w input out)"
  using assms ip_loop_octets[of 0 3]
  by (auto simp: tcmUtl_isValidIpAddress_def tcmUtl_ipStrToOctets_def put_octet_def
      split: option.splits prod.splits Option.bind_splits)

theorem valid_address_has_octets_witness:
  "tcmUtl_isValidIpAddress 32 (Some ''10.0.0.256'') = map_option fst (tcmUtl_ipStrToOctets 32 (Some ''10.0.0.256'') [0, 0, 0, 0])"
  by (rule valid_address_has_octets) simp

text \<open>
  Three numbers where four are wanted send the check after a fourth token that is \<^verbatim>\<open>NULL\<close>.
\<close>

theorem three_numbers_follow_NULL:
  assumes "8 \<le> w" and "7 \<le> length (dec (unat (a :: 8 word)) @ CHR ''.'' # dec (unat (b :: 8 word)) @ CHR ''.'' # dec (unat (c :: 8 word)))"
  shows "tcmUtl_isValidIpAddress w (Some (dec (unat a) @ CHR ''.'' # dec (unat b) @ CHR ''.'' # dec (unat c))) = None"
  using assms(2) byte_dec[of a] byte_dec[of b] byte_dec[of c]
  by (simp add: tcmUtl_isValidIpAddress_def strtok_next dec_decimal octet_byte[OF assms(1)] eval_nat_numeral strtok_end octet_NULL)

text \<open>Anything behind a fourth number is accepted unseen.\<close>

lemma five_numbers_valid:
  assumes "8 \<le> w" and "length (inet_ntoa (a, b, c, d) @ CHR ''.'' # rest) \<le> 15"
  shows "tcmUtl_isValidIpAddress w (Some (inet_ntoa (a, b, c, d) @ CHR ''.'' # rest)) = Some True"
  using assms(2) ntoa_length[of a b c d]
  by (simp add: tcmUtl_isValidIpAddress_def strtok_next dec_decimal octet_byte[OF assms(1)] eval_nat_numeral)


theorem three_numbers_follow_NULL_witness:
  "tcmUtl_isValidIpAddress 32 (Some (dec (unat (10 :: 8 word)) @ CHR ''.'' # dec (unat (20 :: 8 word)) @ CHR ''.'' # dec (unat (30 :: 8 word)))) = None"
  by (rule three_numbers_follow_NULL) (simp_all add: dec.simps)

text \<open>A network mask with \<open>n\<close> leading ones.\<close>

definition mask_bytes :: "nat \<Rightarrow> in_addr" where
  "mask_bytes n = (let m = push_bit (32 - n) (mask 32) :: UINT32 in
     (ucast (drop_bit 24 m), ucast (drop_bit 16 m), ucast (drop_bit 8 m), ucast m))"

lemma cidr_count:
  "k \<le> n \<Longrightarrow> (\<And>i. n - k \<le> i \<Longrightarrow> i < n \<Longrightarrow> bit x i) \<Longrightarrow> (k < n \<Longrightarrow> \<not> bit x (n - k - 1)) \<Longrightarrow> cidr_loop n x = k"
proof (induction n arbitrary: k)
  case (Suc n)
  show ?case
  proof (cases k)
    case 0
    then show ?thesis using Suc.prems(3) by simp
  next
    case (Suc j)
    then have "bit x n" "cidr_loop n x = j"
      using Suc.prems by (auto intro!: Suc.IH)
    then show ?thesis using Suc by simp
  qed
qed simp

lemma mask_bit: "n \<le> 32 \<Longrightarrow> bit (push_bit (32 - n) (mask 32) :: UINT32) i = (32 - n \<le> i \<and> i < 32)"
  by (auto simp: bit_push_bit_iff bit_mask_iff)

lemma join4_bit:
  "bit (join4 a b c d) i = (if i < 8 then bit d i else if i < 16 then bit c (i - 8) else if i < 24 then bit b (i - 16)
     else i < 32 \<and> bit a (i - 24))"
  by (auto simp: join4_def bit_or_iff bit_push_bit_iff bit_ucast_iff dest: bit_imp_le_length)

lemma mask_big_bit: "n \<le> 32 \<Longrightarrow> bit (s_addr False (mask_bytes n)) i = (32 - n \<le> i \<and> i < 32)"
  by (auto simp: mask_bytes_def Let_def join4_bit bit_ucast_iff bit_drop_bit_eq mask_bit)

lemma mask_little_bit:
  "n \<le> 32 \<Longrightarrow> 24 \<le> i \<Longrightarrow> i < 32 \<Longrightarrow> bit (s_addr True (mask_bytes n)) i = (32 - n \<le> i - 24)"
  by (auto simp: mask_bytes_def Let_def join4_bit bit_ucast_iff mask_bit)

lemma mask_full: "s_addr True (mask_bytes 32) = s_addr False (mask_bytes 32)"
  by (rule bit_word_eqI) (auto simp: mask_bytes_def Let_def join4_bit bit_ucast_iff bit_drop_bit_eq mask_bit bit_mask_iff)

lemma mask_cidr:
  assumes "n \<le> 32"
  shows "cidr_loop 32 (s_addr little (mask_bytes n)) = (if little \<and> n < 32 then n - 24 else n)"
proof -
  have big: "cidr_loop 32 (s_addr False (mask_bytes n)) = n"
    using assms by (intro cidr_count) (auto simp: mask_big_bit)
  have "cidr_loop 32 (s_addr True (mask_bytes n)) = n - 24" if "n < 32"
    using that by (intro cidr_count) (auto simp: mask_little_bit)
  then show ?thesis using big assms by (cases little; cases "n = 32") (auto simp: mask_full)
qed

text \<open>
  The length of a mask is right where the host's byte order is the network's; on the
  others the code counts in the last byte, so that every mask of at most 24 ones has length 0.
\<close>

theorem cidr_length_of_mask:
  assumes "inet_aton s = Some (mask_bytes n)" and "n \<le> 32"
  shows "tcmUtl_ipMaskToCidrLen inet_aton little s = (if little \<and> n < 32 then n - 24 else n)"
  using assms by (simp add: tcmUtl_ipMaskToCidrLen_def mask_cidr)

theorem cidr_length_of_mask_witness:
  "let aton = (\<lambda>s. if s = ''255.255.255.0'' then Some (mask_bytes 24) else None) in
   tcmUtl_ipMaskToCidrLen aton True ''255.255.255.0'' = 0 \<and> tcmUtl_ipMaskToCidrLen aton False ''255.255.255.0'' = 24"
  unfolding Let_def
  using cidr_length_of_mask[of "\<lambda>s. if s = ''255.255.255.0'' then Some (mask_bytes 24) else None" "''255.255.255.0''" 24] by simp

section \<open>Ports\<close>

text \<open>C40. 
  A decimal number is a valid port exactly when it is below \<open>65536\<close>, where a \<^verbatim>\<open>long\<close> has 32 bits;
  with 64 bits the number is first cut to 32, so that \<open>4294967376\<close> is valid as well.
\<close>

theorem port_number_bounds:
  "tcmUtl_isValidPortNumber 32 (Some (dec n)) = Some (n < 65536) \<and>
   tcmUtl_isValidPortNumber 64 (Some (dec n)) = Some (n < 2 ^ 64 \<and> n mod 2 ^ 32 < 65536)"
proof -
  have v: "((of_nat n :: UINT32) < 65536) = (n mod 2 ^ 32 < 65536)"
    by (simp add: word_less_nat_alt unsigned_of_nat take_bit_eq_mod)
  have "(n < 2 ^ 32 \<and> n mod 2 ^ 32 < 65536) = (n < 65536)" by auto
  then show ?thesis by (simp add: tcmUtl_isValidPortNumber_def strtoul_decimal[OF dec_decimal] v)
qed

section \<open>Options\<close>

text \<open>The fields of a string between spaces and commas.\<close>

fun fields :: "string \<Rightarrow> string list" where
  "fields [] = [[]]"
| "fields (c # s) = (if opt_sep c then [] # fields s else (c # hd (fields s)) # tl (fields s))"

lemma fields_hd: "fields s = takeWhile (\<lambda>c. \<not> opt_sep c) s #
   (case dropWhile (\<lambda>c. \<not> opt_sep c) s of [] \<Rightarrow> [] | _ # r \<Rightarrow> fields r)"
  by (induction s) auto

lemma fields_skip: "sub \<noteq> [] \<Longrightarrow> sub \<in> set (fields (dropWhile opt_sep s)) \<longleftrightarrow> sub \<in> set (fields s)"
  by (induction s) auto

lemma strcmp_eq: "strcmp s t = 0 \<longleftrightarrow> s = t"
  by (induction s t rule: strcmp.induct) auto

lemma suboption_fields: "sub \<noteq> [] \<Longrightarrow> suboption_loop sub s \<longleftrightarrow> sub \<in> set (fields s)"
proof (induction sub s rule: suboption_loop.induct)
  case (1 sub s)
  let ?k = "takeWhile (\<lambda>c. \<not> opt_sep c) s" and ?r = "dropWhile (\<lambda>c. \<not> opt_sep c) s"
  have hit: "(length ?k = length sub \<and> strcmp (take (length ?k) sub) ?k = 0) = (sub = ?k)"
    by (auto simp: strcmp_eq)
  show ?case
  proof (cases "s = [] \<or> sub = ?k \<or> ?r = []")
    case True
    have "suboption_loop sub s = (s \<noteq> [] \<and> sub = ?k)"
      using True by (subst suboption_loop.simps) (simp only: Let_def hit if_True if_False, auto)
    moreover have "sub \<in> set (fields s) \<longleftrightarrow> sub = ?k \<or> sub \<in> set (case ?r of [] \<Rightarrow> [] | _ # r \<Rightarrow> fields r)"
      by (subst fields_hd) simp
    ultimately show ?thesis using True 1(2) by (cases ?r) auto
  next
    case False
    then obtain c t where ct: "?r = c # t" by (cases ?r) auto
    have c: "opt_sep c" using hd_dropWhile[of "\<lambda>c. \<not> opt_sep c" s] ct by simp
    have "suboption_loop sub s = suboption_loop sub (dropWhile opt_sep ?r)"
      using False by (subst suboption_loop.simps) (simp only: Let_def hit de_Morgan_disj if_False)
    also have "\<dots> = (sub \<in> set (fields (dropWhile opt_sep ?r)))"
      by (rule 1(1)[OF _ refl refl _ _ 1(2)]) (use False hit in blast)+
    also have "\<dots> = (sub \<in> set (fields t))"
      using fields_skip[OF 1(2), of t] ct c by simp
    finally show ?thesis using False ct fields_hd[of s] by auto
  qed
qed

text \<open>A sub-option is present exactly when it is one of the fields of the option string; the empty one is left out.\<close>

theorem suboption_is_field:
  assumes "sub \<noteq> []"
  shows "tcmUtl_isSubOptionPresent (Some s) (Some sub) \<longleftrightarrow> sub \<in> set (fields s)"
  using suboption_fields[OF assms] by (simp add: tcmUtl_isSubOptionPresent_def)

theorem suboption_is_field_witness:
  "tcmUtl_isSubOptionPresent (Some ''ab, cd ,e'') (Some ''cd'') \<and> \<not> tcmUtl_isSubOptionPresent (Some ''ab, cd ,e'') (Some ''c'')"
  using suboption_is_field[of "''cd''" "''ab, cd ,e''"] suboption_is_field[of "''c''" "''ab, cd ,e''"]
  by (simp add: opt_sep_def)

section \<open>Name servers\<close>

lemma split_comma:
  assumes "\<forall>c \<in> set p. c \<noteq> CHR '',''"
  shows "dropWhile (\<lambda>c. c \<noteq> CHR '','') (p @ CHR '','' # r) = CHR '','' # r"
    and "takeWhile (\<lambda>c. c \<noteq> CHR '','') (p @ CHR '','' # r) = p"
  using assms by (simp_all add: dropWhile_append2 takeWhile_append2)

lemma upto_comma:
  assumes "\<forall>c \<in> set q. c \<noteq> CHR '',''" and "more = [] \<or> hd more = CHR '',''"
  shows "takeWhile (\<lambda>c. c \<noteq> CHR '','') (q @ more) = q"
  using assms by (cases more) (auto simp: takeWhile_append2)

lemma skip_space:
  assumes "\<forall>c \<in> set ws. isspace c" and "q \<noteq> []" and "\<not> isspace (hd q)"
  shows "dropWhile isspace (ws @ q @ more) = q @ more"
proof -
  have "dropWhile isspace (q @ more) = q @ more" using assms(2,3) by (cases q) auto
  then show ?thesis using assms(1) by (induction ws) auto
qed

text \<open>
  Two name servers separated by a comma, with white space behind it and more of them
  following, come out as they are, each as the string in its buffer.
\<close>

theorem parseDNS_splits:
  assumes "\<forall>c \<in> set p. c \<noteq> CHR '',''" and "\<forall>c \<in> set ws. isspace c"
    and "q \<noteq> []" and "\<not> isspace (hd q)" and "\<forall>c \<in> set q. c \<noteq> CHR '',''" and "more = [] \<or> hd more = CHR '',''"
    and "NUL \<notin> set p" and "NUL \<notin> set q" and "length p < length b1" and "length q < length b2"
  shows "\<exists>p1 s1. tcmUtl_parseDNS True (Some (p @ CHR '','' # ws @ q @ more)) (Some b1) (Some b2) = Some (TCMRET_SUCCESS, Some p1, Some s1)
    \<and> cstr p1 = p \<and> cstr s1 = q"
proof -
  have sec: "takeWhile (\<lambda>c. c \<noteq> CHR '','') (dropWhile isspace (ws @ q @ more)) = q"
    using skip_space[OF assms(2,3,4)] upto_comma[OF assms(5,6)] by simp
  note first = split_comma[OF assms(1), of "ws @ q @ more"]
  have "strcpy b1 p = Some (p @ NUL # drop (Suc (length p)) b1)" "strcpy b2 q = Some (q @ NUL # drop (Suc (length q)) b2)"
    using assms(9,10) by (simp_all add: strcpy_def)
  then have "tcmUtl_parseDNS True (Some (p @ CHR '','' # ws @ q @ more)) (Some b1) (Some b2) =
      Some (TCMRET_SUCCESS, Some (p @ NUL # drop (Suc (length p)) b1), Some (q @ NUL # drop (Suc (length q)) b2))"
    by (simp only: tcmUtl_parseDNS_def first sec option.case not_True_eq_False if_False list.case put_string_def
        option.map Option.bind.bind_lunit)
  then show ?thesis using assms(7,8) by simp
qed

theorem parseDNS_splits_witness:
  "\<exists>p1 s1. tcmUtl_parseDNS True (Some (''10.0.0.1'' @ CHR '','' # '' '' @ ''10.0.0.2'' @ '',x'')) (Some (replicate 16 NUL)) (Some (replicate 16 NUL))
      = Some (TCMRET_SUCCESS, Some p1, Some s1) \<and> cstr p1 = ''10.0.0.1'' \<and> cstr s1 = ''10.0.0.2''"
  by (rule parseDNS_splits) (simp_all add: isspace_def)

end
