(* ===== verification/Logging.thy ===== *)
theory Logging
  imports Strconv Entity Timestamp
begin

text \<open>
  \<^verbatim>\<open>liboal/liboal/logging.c\<close>: the log line and where it goes. The clock, the entity table and the
  text that the caller's format and arguments give are arguments of \<open>log_log\<close>.
\<close>

unbundle bit_operations_syntax

section \<open>Settings\<close>

definition LOG_LEVEL_ERR :: int where "LOG_LEVEL_ERR = 3"
definition LOG_LEVEL_NOTICE :: int where "LOG_LEVEL_NOTICE = 5"
definition LOG_LEVEL_DEBUG :: int where "LOG_LEVEL_DEBUG = 7"

datatype tcmLogDestination = LOG_DEST_STDERR | LOG_DEST_SYSLOG | LOG_DEST_TELNET

definition TCMLOG_HDRMASK_APPNAME :: UINT32 where "TCMLOG_HDRMASK_APPNAME = 0x0001"
definition TCMLOG_HDRMASK_LEVEL :: UINT32 where "TCMLOG_HDRMASK_LEVEL = 0x0002"
definition TCMLOG_HDRMASK_TIMESTAMP :: UINT32 where "TCMLOG_HDRMASK_TIMESTAMP = 0x0004"
definition TCMLOG_HDRMASK_LOCATION :: UINT32 where "TCMLOG_HDRMASK_LOCATION = 0x0008"

definition DEFAULT_LOG_HEADER_MASK :: UINT32 where
  "DEFAULT_LOG_HEADER_MASK =
     TCMLOG_HDRMASK_APPNAME OR TCMLOG_HDRMASK_LEVEL OR TCMLOG_HDRMASK_TIMESTAMP OR TCMLOG_HDRMASK_LOCATION"

definition MAX_LOG_LINE_LENGTH :: nat where "MAX_LOG_LINE_LENGTH = 512"

record log_state =
  gEid :: int
  logLevel :: int
  logDestination :: tcmLogDestination
  logHeaderMask :: UINT32

definition tcmLog_init :: "int \<Rightarrow> log_state" where
  "tcmLog_init e = \<lparr>gEid = e, logLevel = LOG_LEVEL_ERR, logDestination = LOG_DEST_STDERR,
     logHeaderMask = DEFAULT_LOG_HEADER_MASK\<rparr>"

definition tcmLog_setLevel :: "int \<Rightarrow> log_state \<Rightarrow> log_state" where
  "tcmLog_setLevel l s = s\<lparr>logLevel := l\<rparr>"

definition tcmLog_getLevel :: "log_state \<Rightarrow> int" where
  "tcmLog_getLevel s = logLevel s"

definition tcmLog_setDestination :: "tcmLogDestination \<Rightarrow> log_state \<Rightarrow> log_state" where
  "tcmLog_setDestination d s = s\<lparr>logDestination := d\<rparr>"

definition tcmLog_getDestination :: "log_state \<Rightarrow> tcmLogDestination" where
  "tcmLog_getDestination s = logDestination s"

definition tcmLog_setHeaderMask :: "UINT32 \<Rightarrow> log_state \<Rightarrow> log_state" where
  "tcmLog_setHeaderMask m s = s\<lparr>logHeaderMask := m\<rparr>"

definition tcmLog_getHeaderMask :: "log_state \<Rightarrow> UINT32" where
  "tcmLog_getHeaderMask s = logHeaderMask s"

section \<open>The log line\<close>

text \<open>The line so far: the buffer and \<^verbatim>\<open>len\<close>, which may be beyond its end. A field is written only before it.\<close>

type_synonym line = "buf \<times> nat"

definition put_field :: "bool \<Rightarrow> string \<Rightarrow> line \<Rightarrow> line run" where
  "put_field wanted s l =
     (case l of (b, len) \<Rightarrow>
        if wanted \<and> len < MAX_LOG_LINE_LENGTH
        then do { r \<leftarrow> snprintf (drop len b) (MAX_LOG_LINE_LENGTH - len) s; Some (take len b @ r, len + length s) }
        else Some (b, len))"

definition level_name :: "int \<Rightarrow> string" where
  "level_name level =
     (if level = LOG_LEVEL_ERR then ''error'' else if level = LOG_LEVEL_NOTICE then ''notice''
      else if level = LOG_LEVEL_DEBUG then ''debug'' else ''invalid'')"

definition zero3 :: "nat \<Rightarrow> string" where
  "zero3 n = replicate (3 - length (dec n)) (CHR ''0'') @ dec n"

definition app_field :: "tcmEntityInfo list \<Rightarrow> log_state \<Rightarrow> string" where
  "app_field tab s = (case tcmEid_getEntityInfo tab (gEid s) of Some i \<Rightarrow> ei_name i @ '':'' | None \<Rightarrow> ''unknown:'')"

definition time_field :: "tcmTimestamp \<Rightarrow> string" where
  "time_field ts = dec (unat (sec ts mod 1000)) @ ''.'' @ zero3 (unat (nsec ts div NSECS_IN_MSEC)) @ '':''"

definition location_field :: "string \<Rightarrow> UINT32 \<Rightarrow> string" where
  "location_field func lineNum = func @ '':'' @ dec (unat lineNum) @ '':''"

definition masked :: "UINT32 \<Rightarrow> log_state \<Rightarrow> bool" where
  "masked m s \<longleftrightarrow> logHeaderMask s AND m \<noteq> 0"

text \<open>Where the line goes; \<open>tty\<close> is whether the terminal can be opened.\<close>

datatype log_out = Stderr string | Syslog int string | Telnet string

text \<open>
  \<^verbatim>\<open>syslog\<close> gets the line as its format and no arguments: \<^verbatim>\<open>%%\<close> is a percent sign, \<^verbatim>\<open>%m\<close> the text \<open>err\<close>
  of the last error, and a conversion that wants an argument, or a percent sign at the end, has no defined result.
\<close>

fun syslog_text :: "string \<Rightarrow> string \<Rightarrow> string run" where
  "syslog_text err [] = Some []"
| "syslog_text err [c] = (if c = CHR ''%'' then None else Some [c])"
| "syslog_text err (c # d # cs) =
     (if c \<noteq> CHR ''%'' then map_option (Cons c) (syslog_text err (d # cs))
      else if d = CHR ''%'' then map_option (Cons d) (syslog_text err cs)
      else if d = CHR ''m'' then map_option (append err) (syslog_text err cs)
      else None)"

definition log_log ::
    "tcmEntityInfo list \<Rightarrow> tcmTimestamp \<Rightarrow> bool \<Rightarrow> string \<Rightarrow> log_state \<Rightarrow> int \<Rightarrow> string \<Rightarrow> UINT32 \<Rightarrow> string \<Rightarrow> log_out option run" where
  "log_log tab ts tty err s level func lineNum msg =
     (if \<not> level \<le> logLevel s then Some None
      else do {
        l0 \<leftarrow> put_field (masked TCMLOG_HDRMASK_APPNAME s) (app_field tab s) (replicate MAX_LOG_LINE_LENGTH NUL, 0);
        l1 \<leftarrow> put_field (masked TCMLOG_HDRMASK_LEVEL s \<and> logDestination s = LOG_DEST_STDERR) (level_name level @ '':'') l0;
        l2 \<leftarrow> put_field (masked TCMLOG_HDRMASK_TIMESTAMP s) (time_field ts) l1;
        l3 \<leftarrow> put_field (masked TCMLOG_HDRMASK_LOCATION s) (location_field func lineNum) l2;
        l4 \<leftarrow> put_field True msg l3;
        case logDestination s of
          LOG_DEST_STDERR \<Rightarrow> Some (Some (Stderr (cstr (fst l4))))
        | LOG_DEST_TELNET \<Rightarrow> Some (if tty then Some (Telnet (cstr (fst l4))) else None)
        | LOG_DEST_SYSLOG \<Rightarrow> do { x \<leftarrow> syslog_text err (cstr (fst l4)); Some (Some (Syslog level x)) } })"

section \<open>What is logged\<close>

text \<open>A buffer that holds the text \<open>t\<close> as far as it has room, and its length unless that is beyond the buffer.\<close>

definition holds :: "string \<Rightarrow> line \<Rightarrow> bool" where
  "holds t l \<longleftrightarrow> length (fst l) = MAX_LOG_LINE_LENGTH \<and> min MAX_LOG_LINE_LENGTH (snd l) = min MAX_LOG_LINE_LENGTH (length t) \<and> NUL \<notin> set t
    \<and> cstr (fst l) = take (MAX_LOG_LINE_LENGTH - 1) t"

lemma holds_start: "holds [] (replicate MAX_LOG_LINE_LENGTH NUL, 0)"
  by (simp add: holds_def cstr_def MAX_LOG_LINE_LENGTH_def)

lemma strcpy_ok: "length s < length d \<Longrightarrow> \<exists>r. strcpy d s = Some (s @ NUL # r) \<and> length (s @ NUL # r) = length d"
  by (simp add: strcpy_def)

lemma put_field_holds:
  assumes "holds t l" and "NUL \<notin> set u"
  shows "\<exists>l'. put_field wanted u l = Some l' \<and> holds (if wanted then t @ u else t) l'"
proof -
  obtain b len where l: "l = (b, len)" by (cases l)
  let ?M = MAX_LOG_LINE_LENGTH
  have b: "length b = ?M" "min ?M len = min ?M (length t)" "NUL \<notin> set t" "cstr b = take (?M - 1) t"
    using assms(1) by (auto simp: holds_def l)
  show ?thesis
  proof (cases "wanted \<and> len < ?M")
    case True
    then have tl: "len = length t" using b(2) by (auto simp: min_def split: if_splits)
    then have "length t \<le> ?M - 1" using True by linarith
    then have t: "cstr b = t" using b(4) by simp
    then have tb: "take len b = t" using tl unfolding cstr_def by (metis takeWhile_eq_take)
    let ?u = "take (?M - len - 1) u"
    have room: "length ?u < length (drop len b)"
      unfolding length_take length_drop b(1) using True by linarith
    obtain r where r: "strcpy (drop len b) ?u = Some (?u @ NUL # r)" "length (?u @ NUL # r) = ?M - len"
      using strcpy_ok[of ?u "drop len b"] room b(1) by auto
    have n: "NUL \<notin> set ?u" using assms(2) in_set_takeD[of NUL] by fast
    have eq: "take (?M - 1) (t @ u) = t @ ?u" using True tl by (auto simp: Suc_le_eq[symmetric] le_diff_conv2 min_def)
    have len: "length (t @ ?u @ NUL # r) = ?M" using r(2) True tl by simp
    have "cstr (t @ ?u @ NUL # r) = t @ ?u" using cstr_NUL_append[of "t @ ?u" r] n b(3) by simp
    then have "holds (t @ u) (t @ ?u @ NUL # r, len + length u)"
      using eq len tl b(3) assms(2) by (simp add: holds_def)
    then show ?thesis using True r(1) tb by (auto simp: put_field_def l snprintf_def)
  next
    case False
    show ?thesis
    proof (cases wanted)
      case True
      then have "?M \<le> length t" using False b(2) by (auto simp: min_def split: if_splits)
      then show ?thesis using True False assms(2) b by (auto simp: put_field_def l holds_def)
    qed (use assms(1) in \<open>auto simp: put_field_def l\<close>)
  qed
qed

text \<open>The text of a line before it is cut.\<close>

definition log_text :: "tcmEntityInfo list \<Rightarrow> tcmTimestamp \<Rightarrow> log_state \<Rightarrow> int \<Rightarrow> string \<Rightarrow> UINT32 \<Rightarrow> string \<Rightarrow> string" where
  "log_text tab ts s level func lineNum msg =
     (if masked TCMLOG_HDRMASK_APPNAME s then app_field tab s else []) @
     (if masked TCMLOG_HDRMASK_LEVEL s \<and> logDestination s = LOG_DEST_STDERR then level_name level @ '':'' else []) @
     (if masked TCMLOG_HDRMASK_TIMESTAMP s then time_field ts else []) @
     (if masked TCMLOG_HDRMASK_LOCATION s then location_field func lineNum else []) @ msg"

lemma dec_no_NUL [simp]: "NUL \<notin> set (dec n)"
  using dec_decimal[of n] by (auto simp: decimal_def is_digit_def digit_val_def)


lemma fields_no_NUL [simp]: "NUL \<notin> set (time_field ts)" "NUL \<notin> set (level_name level)"
  "NUL \<notin> set func \<Longrightarrow> NUL \<notin> set (location_field func n)"
  by (auto simp: time_field_def zero3_def level_name_def location_field_def)

text \<open>Where a line goes, literally except to \<^verbatim>\<open>syslog\<close>.\<close>

definition deliver :: "log_state \<Rightarrow> bool \<Rightarrow> string \<Rightarrow> int \<Rightarrow> string \<Rightarrow> log_out option run" where
  "deliver s tty err level line =
     (case logDestination s of
        LOG_DEST_STDERR \<Rightarrow> Some (Some (Stderr line))
      | LOG_DEST_TELNET \<Rightarrow> Some (if tty then Some (Telnet line) else None)
      | LOG_DEST_SYSLOG \<Rightarrow> map_option (\<lambda>x. Some (Syslog level x)) (syslog_text err line))"

lemma syslog_literal: "CHR ''%'' \<notin> set line \<Longrightarrow> syslog_text err line = Some line"
  by (induction err line rule: syslog_text.induct) auto

lemma syslog_conversion:
  "CHR ''%'' \<notin> set a \<Longrightarrow> c \<noteq> CHR ''%'' \<Longrightarrow> c \<noteq> CHR ''m'' \<Longrightarrow> syslog_text err (a @ CHR ''%'' # c # z) = None"
proof (induction a)
  case (Cons x a)
  then show ?case by (cases a) auto
qed simp

definition log_fields :: "tcmEntityInfo list \<Rightarrow> tcmTimestamp \<Rightarrow> log_state \<Rightarrow> int \<Rightarrow> string \<Rightarrow> UINT32 \<Rightarrow> string \<Rightarrow> (bool \<times> string) list" where
  "log_fields tab ts s level func lineNum msg =
     [(masked TCMLOG_HDRMASK_APPNAME s, app_field tab s),
      (masked TCMLOG_HDRMASK_LEVEL s \<and> logDestination s = LOG_DEST_STDERR, level_name level @ '':''),
      (masked TCMLOG_HDRMASK_TIMESTAMP s, time_field ts),
      (masked TCMLOG_HDRMASK_LOCATION s, location_field func lineNum), (True, msg)]"

fun put_fields :: "(bool \<times> string) list \<Rightarrow> line \<Rightarrow> line run" where
  "put_fields [] l = Some l"
| "put_fields (f # fs) l = do { l1 \<leftarrow> put_field (fst f) (snd f) l; put_fields fs l1 }"

lemma put_fields_holds:
  "holds t l \<Longrightarrow> \<forall>f \<in> set fs. NUL \<notin> set (snd f) \<Longrightarrow>
   \<exists>l'. put_fields fs l = Some l' \<and> holds (t @ concat (map (\<lambda>f. if fst f then snd f else []) fs)) l'"
proof (induction fs arbitrary: t l)
  case (Cons f fs)
  obtain l1 where l1: "put_field (fst f) (snd f) l = Some l1" "holds (t @ (if fst f then snd f else [])) l1"
    using put_field_holds[OF Cons.prems(1), of "snd f" "fst f"] Cons.prems(2) by (cases "fst f") auto
  then show ?case using Cons.IH[OF l1(2)] Cons.prems(2) by simp
qed simp

lemma log_log_fields:
  "level \<le> logLevel s \<Longrightarrow> log_log tab ts tty err s level func lineNum msg =
     put_fields (log_fields tab ts s level func lineNum msg) (replicate MAX_LOG_LINE_LENGTH NUL, 0) \<bind>
       (\<lambda>l. deliver s tty err level (cstr (fst l)))"
  by (auto simp: log_log_def log_fields_def deliver_def map_conv_bind_option comp_def split: Option.bind_splits tcmLogDestination.splits)

text \<open>C34. A call at most as severe as the level logs the fields the mask selects and the message,
  cut to 511 characters wherever the cut falls; the buffer is never overrun. Other calls log nothing.
  \<^verbatim>\<open>syslog\<close> takes the cut line for a format: it logs it literally when there is no percent sign in it, and what
  happens is not defined when a conversion other than \<^verbatim>\<open>%%\<close> and \<^verbatim>\<open>%m\<close> is in it.
\<close>

theorem log_line_is_cut_text:
  assumes "NUL \<notin> set (app_field tab s)" and "NUL \<notin> set func" and "NUL \<notin> set msg"
    and line: "line = take (MAX_LOG_LINE_LENGTH - 1) (log_text tab ts s level func lineNum msg)"
  shows "log_log tab ts tty err s level func lineNum msg = (if level \<le> logLevel s then deliver s tty err level line else Some None) \<and>
    (CHR ''%'' \<notin> set line \<longrightarrow> deliver s tty err level line = Some (case logDestination s of
       LOG_DEST_STDERR \<Rightarrow> Some (Stderr line) | LOG_DEST_TELNET \<Rightarrow> if tty then Some (Telnet line) else None
     | LOG_DEST_SYSLOG \<Rightarrow> Some (Syslog level line))) \<and>
    (logDestination s = LOG_DEST_SYSLOG \<and> line = a @ CHR ''%'' # c # z \<and> CHR ''%'' \<notin> set a \<and> c \<noteq> CHR ''%'' \<and> c \<noteq> CHR ''m'' \<longrightarrow>
       deliver s tty err level line = None)"
proof (intro conjI impI)
  show "deliver s tty err level line = Some (case logDestination s of
       LOG_DEST_STDERR \<Rightarrow> Some (Stderr line) | LOG_DEST_TELNET \<Rightarrow> if tty then Some (Telnet line) else None
     | LOG_DEST_SYSLOG \<Rightarrow> Some (Syslog level line))" if "CHR ''%'' \<notin> set line"
    using syslog_literal[OF that] by (simp add: deliver_def split: tcmLogDestination.splits)
  show "deliver s tty err level line = None"
    if "logDestination s = LOG_DEST_SYSLOG \<and> line = a @ CHR ''%'' # c # z \<and> CHR ''%'' \<notin> set a \<and> c \<noteq> CHR ''%'' \<and> c \<noteq> CHR ''m''"
    using that syslog_conversion by (simp add: deliver_def)
  show "log_log tab ts tty err s level func lineNum msg = (if level \<le> logLevel s then deliver s tty err level line else Some None)"
  proof (cases "level \<le> logLevel s")
    case True
    have "\<forall>f \<in> set (log_fields tab ts s level func lineNum msg). NUL \<notin> set (snd f)"
      using assms by (simp add: log_fields_def)
    moreover have "[] @ concat (map (\<lambda>f. if fst f then snd f else []) (log_fields tab ts s level func lineNum msg))
        = log_text tab ts s level func lineNum msg"
      by (simp add: log_fields_def log_text_def)
    ultimately obtain l where
      l: "put_fields (log_fields tab ts s level func lineNum msg) (replicate MAX_LOG_LINE_LENGTH NUL, 0) = Some l"
      and "holds (log_text tab ts s level func lineNum msg) l"
      using put_fields_holds[OF holds_start] by metis
    then have "cstr (fst l) = take (MAX_LOG_LINE_LENGTH - 1) (log_text tab ts s level func lineNum msg)"
      by (simp add: holds_def)
    then show ?thesis using True l line by (simp add: log_log_fields)
  qed (simp add: log_log_def)
qed

theorem log_line_is_cut_text_witness:
  "log_log [] (Tms 12345 6000000) True [] (tcmLog_init 1) 3 ''main'' 17 ''no memory''
     = Some (Some (Stderr ''unknown:error:345.006:main:17:no memory'')) \<and>
   log_log [] (Tms 12345 6000000) True [] (tcmLog_setDestination LOG_DEST_SYSLOG (tcmLog_init 1)) 3 ''main'' 17 ''50%s'' = None"
proof -
  have d: "dec 345 = ''345''" "dec 6 = ''6''" "dec 17 = ''17''" "zero3 6 = ''006''" by code_simp+
  note k = log_text_def masked_def tcmLog_init_def DEFAULT_LOG_HEADER_MASK_def TCMLOG_HDRMASK_APPNAME_def
        TCMLOG_HDRMASK_LEVEL_def TCMLOG_HDRMASK_TIMESTAMP_def TCMLOG_HDRMASK_LOCATION_def app_field_def level_name_def
        LOG_LEVEL_ERR_def time_field_def NSECS_IN_MSEC_def location_field_def d
  let ?y = "tcmLog_setDestination LOG_DEST_SYSLOG (tcmLog_init 1)"
  have "log_text [] (Tms 12345 6000000) (tcmLog_init 1) 3 ''main'' 17 ''no memory'' = ''unknown:error:345.006:main:17:no memory''"
    by (simp add: k)
  then have one: "log_log [] (Tms 12345 6000000) True [] (tcmLog_init 1) 3 ''main'' 17 ''no memory''
     = Some (Some (Stderr ''unknown:error:345.006:main:17:no memory''))"
    using log_line_is_cut_text[of "[]" "tcmLog_init 1" "''main''" "''no memory''" _ "Tms 12345 6000000" 3 17 True "[]" "[]" _ "[]"]
    by (simp add: app_field_def deliver_def tcmLog_init_def LOG_LEVEL_ERR_def MAX_LOG_LINE_LENGTH_def)
  have "log_text [] (Tms 12345 6000000) ?y 3 ''main'' 17 ''50%s'' = ''unknown:345.006:main:17:50%s''"
    by (simp add: k tcmLog_setDestination_def)
  then have "log_log [] (Tms 12345 6000000) True [] ?y 3 ''main'' 17 ''50%s'' = None"
    using log_line_is_cut_text[of "[]" ?y "''main''" "''50%s''" "''unknown:345.006:main:17:50%s''" "Tms 12345 6000000" 3 17 True "[]"
        "''unknown:345.006:main:17:50''" "CHR ''s''" "[]"]
    by (simp add: app_field_def deliver_def tcmLog_init_def tcmLog_setDestination_def LOG_LEVEL_ERR_def MAX_LOG_LINE_LENGTH_def)
  then show ?thesis using one by blast
qed

end
