(* ===== verification/Conf_Store.thy ===== *)
theory Conf_Store
  imports Prelude Entity
begin

text \<open>
  The shared memory of \<^verbatim>\<open>conflib/configapi.c\<close>: three arrays of nodes (applications, table
  rows, parameters) in one segment, linked by byte offsets from the start of the segment so
  that every process can follow them. This theory has the node types, the layout, the walk
  along a chain of offsets that every handler of the library uses, and what such a chain is.
\<close>

section \<open>Nodes and layout\<close>

definition MAX_NAME_LEN :: nat where "MAX_NAME_LEN = 240"
definition MAX_VALUE_LEN :: nat where "MAX_VALUE_LEN = 640"

record para_node =
  para_id :: int
  para_name :: buf
  para_val :: buf
  para_next :: int

record row_node =
  row_id :: int
  row_para :: int
  row_next :: int

record app_node =
  app_id :: int
  app_name :: buf
  app_para :: int
  app_row :: int
  app_next :: int

record shm =
  magic1 :: UINT32
  apps :: "app_node list"
  rows :: "row_node list"
  paras :: "para_node list"
  magic2 :: UINT32

text \<open>
  Sizes in bytes. The arrays hold \<open>gMaxAppNum\<close>, \<open>gMaxTabNum\<close> and \<open>gMaxParaNum\<close> nodes: their
  lengths are these three globals. An offset is relative to the segment's base.
\<close>

definition sizeof_int :: int where "sizeof_int = 4"
definition sizeof_para_node :: int where "sizeof_para_node = 888"
definition sizeof_row_node :: int where "sizeof_row_node = 12"
definition sizeof_app_node :: int where "sizeof_app_node = 256"

lemmas sizeof_defs = sizeof_int_def sizeof_para_node_def sizeof_row_node_def sizeof_app_node_def

definition APP_START_NODE :: "shm \<Rightarrow> int" where
  "APP_START_NODE m = sizeof_int"

definition ROW_START_NODE :: "shm \<Rightarrow> int" where
  "ROW_START_NODE m = APP_START_NODE m + sizeof_app_node * int (length (apps m))"

definition PARA_START_NODE :: "shm \<Rightarrow> int" where
  "PARA_START_NODE m = ROW_START_NODE m + sizeof_row_node * int (length (rows m))"

text \<open>\<open>OFFSET_BASE\<close> of the \<open>i\<close>-th node of each array.\<close>

definition app_off :: "shm \<Rightarrow> nat \<Rightarrow> int" where
  "app_off m i = APP_START_NODE m + sizeof_app_node * int i"

definition row_off :: "shm \<Rightarrow> nat \<Rightarrow> int" where
  "row_off m i = ROW_START_NODE m + sizeof_row_node * int i"

definition para_off :: "shm \<Rightarrow> nat \<Rightarrow> int" where
  "para_off m i = PARA_START_NODE m + sizeof_para_node * int i"

text \<open>
  Following a non-zero offset: the index of the node of the wanted type that starts there. An
  offset that is not the start of such a node has no defined meaning.
\<close>

definition node_at :: "int \<Rightarrow> int \<Rightarrow> nat \<Rightarrow> int \<Rightarrow> nat run" where
  "node_at start sz n off =
     (let d = off - start in
      if 0 \<le> d \<and> d mod sz = 0 \<and> d div sz < int n then Some (nat (d div sz)) else None)"

definition app_at :: "shm \<Rightarrow> int \<Rightarrow> nat run" where
  "app_at m = node_at (APP_START_NODE m) sizeof_app_node (length (apps m))"

definition row_at :: "shm \<Rightarrow> int \<Rightarrow> nat run" where
  "row_at m = node_at (ROW_START_NODE m) sizeof_row_node (length (rows m))"

definition para_at :: "shm \<Rightarrow> int \<Rightarrow> nat run" where
  "para_at m = node_at (PARA_START_NODE m) sizeof_para_node (length (paras m))"

lemma node_at_offset: "0 < sz \<Longrightarrow> i < n \<Longrightarrow> node_at start sz n (start + sz * int i) = Some i"
  by (simp add: node_at_def)

lemma node_at_Some:
  assumes "node_at start sz n off = Some i" and "0 < sz"
  shows "i < n \<and> off = start + sz * int i"
proof -
  from assms have d: "0 \<le> off - start" "(off - start) mod sz = 0" "(off - start) div sz < int n"
    and i: "i = nat ((off - start) div sz)"
    by (auto simp: node_at_def Let_def split: if_splits)
  then have "0 \<le> (off - start) div sz" using assms(2) by (simp add: pos_imp_zdiv_nonneg_iff)
  with d i show ?thesis using div_mult_mod_eq[of "off - start" sz] by (auto simp: mult.commute)
qed

lemma at_off [simp]:
  "i < length (apps m) \<Longrightarrow> app_at m (app_off m i) = Some i"
  "i < length (rows m) \<Longrightarrow> row_at m (row_off m i) = Some i"
  "i < length (paras m) \<Longrightarrow> para_at m (para_off m i) = Some i"
  by (simp_all add: app_at_def row_at_def para_at_def app_off_def row_off_def para_off_def
      node_at_offset sizeof_defs)

lemma at_Some:
  "app_at m off = Some i \<Longrightarrow> i < length (apps m) \<and> off = app_off m i"
  "row_at m off = Some i \<Longrightarrow> i < length (rows m) \<and> off = row_off m i"
  "para_at m off = Some i \<Longrightarrow> i < length (paras m) \<and> off = para_off m i"
  by (auto simp: app_at_def row_at_def para_at_def app_off_def row_off_def para_off_def sizeof_defs
      dest!: node_at_Some)

lemma off_pos [simp]:
  "0 < app_off m i" "0 < row_off m i" "0 < para_off m i"
  by (simp_all add: app_off_def row_off_def para_off_def PARA_START_NODE_def ROW_START_NODE_def
      APP_START_NODE_def sizeof_defs)

lemma off_nonzero [simp]: "app_off m i \<noteq> 0" "row_off m i \<noteq> 0" "para_off m i \<noteq> 0"
  using off_pos[of m i] by linarith+

lemma off_inj [simp]:
  "app_off m i = app_off m j \<longleftrightarrow> i = j" "row_off m i = row_off m j \<longleftrightarrow> i = j"
  "para_off m i = para_off m j \<longleftrightarrow> i = j"
  by (simp_all add: app_off_def row_off_def para_off_def sizeof_defs)

section \<open>Identifiers\<close>

text \<open>
  \<^verbatim>\<open>int\<close> has 32 bits: a shift or sum beyond them is cut to 32 bits and read as a signed
  value, as the compiled code does.
\<close>

definition c_int :: "int \<Rightarrow> int" where
  "c_int x = signed_take_bit 31 x"

definition GET_ROW_ID :: "int \<Rightarrow> int \<Rightarrow> int" where
  "GET_ROW_ID app row = c_int (app * 65536 + row * 256)"

definition GET_PARA_ID :: "int \<Rightarrow> int \<Rightarrow> int \<Rightarrow> int" where
  "GET_PARA_ID app row para = c_int (app * 65536 + row * 256 + para)"

lemma c_int_ident: "- 2147483648 \<le> x \<Longrightarrow> x < 2147483648 \<Longrightarrow> c_int x = x"
  by (simp add: c_int_def signed_take_bit_int_eq_self)

section \<open>Walks along a chain of offsets\<close>

text \<open>
  Every loop of the library over a list of nodes has the header
  \<^verbatim>\<open>for (t = NEXT(type, off, base); t && t->id != -1; t = NEXT(type, t->next, base))\<close>.
  \<open>walk_find\<close> is that loop with a body that returns at the first node that satisfies \<open>hit\<close>;
  \<open>walk_all\<close> is the loop that visits every node and gives the visited nodes in order. Nothing
  bounds these loops, so a cyclic chain gives \<open>None\<close>.
\<close>

partial_function (option) walk_find ::
    "(int \<Rightarrow> nat run) \<Rightarrow> (nat \<Rightarrow> int) \<Rightarrow> (nat \<Rightarrow> bool) \<Rightarrow> (nat \<Rightarrow> bool) \<Rightarrow> int \<Rightarrow> nat option run" where
  "walk_find deref nxt live hit off =
     (if off = 0 then Some None
      else Option.bind (deref off) (\<lambda>i.
        if \<not> live i then Some None
        else if hit i then Some (Some i)
        else walk_find deref nxt live hit (nxt i)))"

partial_function (option) walk_all ::
    "(int \<Rightarrow> nat run) \<Rightarrow> (nat \<Rightarrow> int) \<Rightarrow> (nat \<Rightarrow> bool) \<Rightarrow> int \<Rightarrow> nat list run" where
  "walk_all deref nxt live off =
     (if off = 0 then Some []
      else Option.bind (deref off) (\<lambda>i.
        if \<not> live i then Some []
        else Option.bind (walk_all deref nxt live (nxt i)) (\<lambda>is. Some (i # is))))"

text \<open>
  \<open>path deref nxt live off is off'\<close>: following \<open>off\<close> visits exactly the live nodes \<open>is\<close> and
  arrives at \<open>off'\<close>; a \<open>chain\<close> arrives at offset 0.
\<close>

fun path :: "(int \<Rightarrow> nat run) \<Rightarrow> (nat \<Rightarrow> int) \<Rightarrow> (nat \<Rightarrow> bool) \<Rightarrow> int \<Rightarrow> nat list \<Rightarrow> int \<Rightarrow> bool" where
  "path deref nxt live off [] off' \<longleftrightarrow> off = off'"
| "path deref nxt live off (i # is) off' \<longleftrightarrow>
     off \<noteq> 0 \<and> deref off = Some i \<and> live i \<and> path deref nxt live (nxt i) is off'"

abbreviation chain :: "(int \<Rightarrow> nat run) \<Rightarrow> (nat \<Rightarrow> int) \<Rightarrow> (nat \<Rightarrow> bool) \<Rightarrow> int \<Rightarrow> nat list \<Rightarrow> bool" where
  "chain deref nxt live off is \<equiv> path deref nxt live off is 0"

lemma path_append:
  "path deref nxt live off (is @ js) z \<longleftrightarrow>
     (\<exists>y. path deref nxt live off is y \<and> path deref nxt live y js z)"
  by (induction "is" arbitrary: off) auto

lemma path_snoc:
  "path deref nxt live off (is @ [i]) z \<longleftrightarrow>
     (\<exists>y. path deref nxt live off is y \<and> y \<noteq> 0 \<and> deref y = Some i \<and> live i \<and> nxt i = z)"
  by (simp add: path_append)

lemma walk_find_chain:
  "chain deref nxt live off is \<Longrightarrow> walk_find deref nxt live hit off = Some (find hit is)"
  by (induction "is" arbitrary: off) (auto simp: walk_find.simps)

lemma walk_all_chain:
  "chain deref nxt live off is \<Longrightarrow> walk_all deref nxt live off = Some is"
  by (induction "is" arbitrary: off) (auto simp: walk_all.simps)

lemma chain_unique:
  "chain deref nxt live off is \<Longrightarrow> chain deref nxt live off js \<Longrightarrow> is = js"
  by (drule walk_all_chain)+ simp

lemma path_live: "path deref nxt live off is z \<Longrightarrow> i \<in> set is \<Longrightarrow> live i"
  by (induction "is" arbitrary: off) auto

lemma path_deref: "path deref nxt live off is z \<Longrightarrow> i \<in> set is \<Longrightarrow> \<exists>y. deref y = Some i"
  by (induction "is" arbitrary: off) auto

text \<open>No node is visited twice: a chain that comes back to a node does not end.\<close>

lemma chain_distinct: "chain deref nxt live off is \<Longrightarrow> distinct is"
proof (induction "is" arbitrary: off)
  case (Cons i js)
  then have tail: "chain deref nxt live (nxt i) js" by simp
  have "i \<notin> set js"
  proof
    assume "i \<in> set js"
    then obtain xs ys where js: "js = xs @ i # ys" by (meson split_list)
    with tail have "chain deref nxt live (nxt i) ys" by (auto simp: path_append)
    with tail have "ys = js" by (rule chain_unique[rotated])
    with js show False by simp
  qed
  with tail Cons.IH show ?case by auto
qed simp

text \<open>A path does not depend on what happens away from its nodes.\<close>

lemma path_cong:
  "path deref nxt live off is z \<Longrightarrow>
   (\<And>i. i \<in> set is \<Longrightarrow> nxt' i = nxt i \<and> live' i) \<Longrightarrow>
   (\<And>o' i. deref o' = Some i \<Longrightarrow> deref' o' = Some i) \<Longrightarrow>
   path deref' nxt' live' off is z"
  by (induction "is" arbitrary: off) auto

end
