(* ===== verification/Conf_Layout.thy ===== *)
theory Conf_Layout
  imports Conf_Store
begin

text \<open>
  The invariant of the shared memory. A \<open>tree\<close> lists, for every application in use, the nodes
  of its parameters and of its table rows with their parameters; \<open>represents m T\<close> says that
  following the offsets of \<open>m\<close> visits exactly the nodes of \<open>T\<close>, and \<open>numbered m T\<close> that the
  identifiers stored in the nodes are those the library computes from their position.
\<close>

type_synonym plist = "nat list"
type_synonym tree = "(plist \<times> (nat \<times> plist) list) list"

section \<open>Chains of the three node types\<close>

abbreviation para_live :: "shm \<Rightarrow> nat \<Rightarrow> bool" where
  "para_live m j \<equiv> para_id (paras m ! j) \<noteq> - 1"

abbreviation row_live :: "shm \<Rightarrow> nat \<Rightarrow> bool" where
  "row_live m r \<equiv> row_id (rows m ! r) \<noteq> - 1"

abbreviation app_live :: "shm \<Rightarrow> nat \<Rightarrow> bool" where
  "app_live m i \<equiv> app_id (apps m ! i) \<noteq> - 1"

abbreviation pchain :: "shm \<Rightarrow> int \<Rightarrow> plist \<Rightarrow> bool" where
  "pchain m \<equiv> chain (para_at m) (\<lambda>j. para_next (paras m ! j)) (para_live m)"

abbreviation rchain :: "shm \<Rightarrow> int \<Rightarrow> nat list \<Rightarrow> bool" where
  "rchain m \<equiv> chain (row_at m) (\<lambda>r. row_next (rows m ! r)) (row_live m)"

text \<open>The three loops of the handlers, each returning the first node its body accepts.\<close>

definition find_app :: "shm \<Rightarrow> int \<Rightarrow> nat option run" where
  "find_app m app_index =
     walk_find (app_at m) (\<lambda>i. app_next (apps m ! i)) (app_live m)
       (\<lambda>i. app_id (apps m ! i) = app_index) (APP_START_NODE m)"

definition find_row :: "shm \<Rightarrow> int \<Rightarrow> int \<Rightarrow> nat option run" where
  "find_row m off rid =
     walk_find (row_at m) (\<lambda>r. row_next (rows m ! r)) (row_live m)
       (\<lambda>r. row_id (rows m ! r) = rid) off"

definition find_para :: "shm \<Rightarrow> int \<Rightarrow> int \<Rightarrow> nat option run" where
  "find_para m off pid =
     walk_find (para_at m) (\<lambda>j. para_next (paras m ! j)) (para_live m)
       (\<lambda>j. para_id (paras m ! j) = pid) off"

lemma find_row_chain:
  "rchain m off rs \<Longrightarrow> find_row m off rid = Some (find (\<lambda>r. row_id (rows m ! r) = rid) rs)"
  unfolding find_row_def by (rule walk_find_chain)

lemma find_para_chain:
  "pchain m off js \<Longrightarrow> find_para m off pid = Some (find (\<lambda>j. para_id (paras m ! j) = pid) js)"
  unfolding find_para_def by (rule walk_find_chain)

section \<open>The tree a memory represents\<close>

definition tree_rows :: "tree \<Rightarrow> nat list" where
  "tree_rows T = concat (map (\<lambda>(ps, rs). map fst rs) T)"

definition tree_paras :: "tree \<Rightarrow> nat list" where
  "tree_paras T = concat (map (\<lambda>(ps, rs). ps @ concat (map snd rs)) T)"

definition apps_ok :: "shm \<Rightarrow> nat \<Rightarrow> bool" where
  "apps_ok m k \<longleftrightarrow> 0 < length (apps m) \<and> k \<le> length (apps m) \<and>
     (\<forall>i < length (apps m).
        app_next (apps m ! i) = (if Suc i < length (apps m) then app_off m (Suc i) else 0) \<and>
        (app_live m i \<longleftrightarrow> i < k))"

definition app_repr :: "shm \<Rightarrow> app_node \<Rightarrow> plist \<times> (nat \<times> plist) list \<Rightarrow> bool" where
  "app_repr m a t \<longleftrightarrow> pchain m (app_para a) (fst t) \<and> rchain m (app_row a) (map fst (snd t)) \<and>
     (\<forall>(r, ks) \<in> set (snd t). pchain m (row_para (rows m ! r)) ks)"

definition buf_ok :: "nat \<Rightarrow> buf \<Rightarrow> bool" where
  "buf_ok n b \<longleftrightarrow> length b = n \<and> last b = NUL"

definition bufs_ok :: "shm \<Rightarrow> bool" where
  "bufs_ok m \<longleftrightarrow> (\<forall>p \<in> set (paras m). buf_ok MAX_NAME_LEN (para_name p) \<and> buf_ok MAX_VALUE_LEN (para_val p))
     \<and> (\<forall>a \<in> set (apps m). buf_ok MAX_NAME_LEN (app_name a))"

definition represents :: "shm \<Rightarrow> tree \<Rightarrow> bool" where
  "represents m T \<longleftrightarrow> apps_ok m (length T) \<and>
     (\<forall>i < length T. app_repr m (apps m ! i) (T ! i)) \<and>
     distinct (tree_rows T) \<and> distinct (tree_paras T) \<and> bufs_ok m"

text \<open>The \<open>n\<close>-th parameter of row \<open>x\<close> of application \<open>a\<close> (row 0: the application itself).\<close>

definition plist_numbered :: "shm \<Rightarrow> int \<Rightarrow> int \<Rightarrow> plist \<Rightarrow> bool" where
  "plist_numbered m a x ks \<longleftrightarrow> length ks < 256 \<and>
     (\<forall>n < length ks. para_id (paras m ! (ks ! n)) = GET_PARA_ID a x (int n + 1))"

definition row_number :: "shm \<Rightarrow> int \<Rightarrow> nat \<Rightarrow> int" where
  "row_number m a r = (row_id (rows m ! r) - a * 65536) div 256"

definition app_numbered :: "shm \<Rightarrow> int \<Rightarrow> plist \<times> (nat \<times> plist) list \<Rightarrow> bool" where
  "app_numbered m a t \<longleftrightarrow> plist_numbered m a 0 (fst t) \<and>
     (\<forall>(r, ks) \<in> set (snd t).
        let x = row_number m a r in
        1 \<le> x \<and> x < 256 \<and> row_id (rows m ! r) = GET_ROW_ID a x \<and> plist_numbered m a x ks) \<and>
     sorted_wrt (<) (map (\<lambda>(r, ks). row_id (rows m ! r)) (snd t))"

definition numbered :: "shm \<Rightarrow> tree \<Rightarrow> bool" where
  "numbered m T \<longleftrightarrow>
     (\<forall>i < length T. 0 < app_id (apps m ! i) \<and> app_id (apps m ! i) < ID_END \<and>
        app_numbered m (app_id (apps m ! i)) (T ! i)) \<and>
     distinct (map app_id (take (length T) (apps m)))"

definition wf_shm :: "shm \<Rightarrow> bool" where
  "wf_shm m \<longleftrightarrow> (\<exists>T. represents m T \<and> numbered m T)"

section \<open>What the tree says of the walks\<close>

lemma walk_find_path:
  assumes "path deref nxt live off is z" and "z = 0 \<or> (\<exists>i. deref z = Some i \<and> \<not> live i)"
  shows "walk_find deref nxt live hit off = Some (find hit is)"
  using assms by (induction "is" arbitrary: off) (auto simp: walk_find.simps)

lemma apps_path:
  assumes "apps_ok m k" and "j \<le> k" and "j < length (apps m)"
  shows "path (app_at m) (\<lambda>i. app_next (apps m ! i)) (app_live m) (app_off m j) [j..<k]
           (if k < length (apps m) then app_off m k else 0)"
  using assms(2,3)
proof (induction "k - j" arbitrary: j)
  case 0
  then show ?case by simp
next
  case (Suc d)
  then have jk: "j < k" by simp
  have nxt: "app_next (apps m ! j) = (if Suc j < length (apps m) then app_off m (Suc j) else 0)"
    and live: "app_live m j"
    using assms(1) Suc.prems jk by (auto simp: apps_ok_def)
  have list: "[j..<k] = j # [Suc j..<k]" using jk by (rule upt_conv_Cons)
  show ?case
  proof (cases "Suc j < length (apps m)")
    case True
    then have "path (app_at m) (\<lambda>i. app_next (apps m ! i)) (app_live m) (app_off m (Suc j)) [Suc j..<k]
           (if k < length (apps m) then app_off m k else 0)"
      using Suc.hyps(1)[of "Suc j"] Suc.hyps(2) jk by simp
    with True nxt live list Suc.prems show ?thesis by simp
  next
    case False
    with assms(1) jk have "k = Suc j" by (auto simp: apps_ok_def)
    with False nxt live list Suc.prems show ?thesis by simp
  qed
qed

lemma app_start: "APP_START_NODE m = app_off m 0"
  by (simp add: app_off_def)

lemma find_app_upt:
  assumes "apps_ok m k"
  shows "find_app m a = Some (find (\<lambda>i. app_id (apps m ! i) = a) [0..<k])"
proof -
  have len: "0 < length (apps m)" using assms by (simp add: apps_ok_def)
  have "k < length (apps m) \<Longrightarrow> \<not> app_live m k" using assms by (auto simp: apps_ok_def)
  then show ?thesis
    unfolding find_app_def app_start
    by (intro walk_find_path[OF apps_path[OF assms _ len]]) auto
qed

lemma represents_app:
  assumes "represents m T" and "i < length T"
  shows "i < length (apps m)"
    and "pchain m (app_para (apps m ! i)) (fst (T ! i))"
    and "rchain m (app_row (apps m ! i)) (map fst (snd (T ! i)))"
    and "(r, ks) \<in> set (snd (T ! i)) \<Longrightarrow> pchain m (row_para (rows m ! r)) ks"
  using assms by (auto simp: represents_def apps_ok_def app_repr_def)

end
