(* ===== verification/Conf_View.thy ===== *)
theory Conf_View
  imports Conf_Layout
begin

text \<open>
  What a caller can see of the shared memory: the parameters of each row of each application
  (\<open>tbl\<close>) and the partial map \<open>cfg\<close> from application, row and parameter number to the stored
  string, computed from the memory by the walks of the library, and their relation to the tree
  the memory represents.
\<close>

section \<open>Identifiers\<close>

definition is_int :: "int \<Rightarrow> bool" where
  "is_int x \<longleftrightarrow> - 2147483648 \<le> x \<and> x < 2147483648"

definition app_range :: "int \<Rightarrow> bool" where
  "app_range a \<longleftrightarrow> 0 < a \<and> a < ID_END"

lemma c_int_eq_iff: "c_int x = c_int y \<longleftrightarrow> x mod 4294967296 = y mod 4294967296"
  by (simp add: c_int_def signed_take_bit_eq_iff_take_bit_eq take_bit_eq_mod)

lemma mod_small_eq:
  assumes "is_int x" and "is_int y" and "(b + x) mod 4294967296 = (b + y) mod 4294967296"
  shows "x = y"
proof -
  have "4294967296 dvd (b + x) - (b + y)" using assms(3) by (rule mod_eq_dvd_iff[THEN iffD1])
  then have "4294967296 dvd x - y" by simp
  moreover have "\<bar>x - y\<bar> < 4294967296" using assms(1,2) by (auto simp: is_int_def)
  ultimately show ?thesis using zdvd_not_zless[of "\<bar>x - y\<bar>" 4294967296] by fastforce
qed

lemma GET_PARA_ID_eq_iff [simp]:
  assumes "is_int p" and "is_int k"
  shows "GET_PARA_ID a x p = GET_PARA_ID a x k \<longleftrightarrow> p = k"
  using mod_small_eq[OF assms, of "a * 65536 + x * 256"] by (auto simp: GET_PARA_ID_def c_int_eq_iff)

lemma GET_ROW_ID_eq_iff [simp]:
  assumes "is_int (x * 256)" and "is_int (y * 256)"
  shows "GET_ROW_ID a x = GET_ROW_ID a y \<longleftrightarrow> x = y"
  using mod_small_eq[OF assms, of "a * 65536"] by (auto simp: GET_ROW_ID_def c_int_eq_iff)

lemma ids_exact:
  assumes "app_range a" and "0 \<le> x" and "x < 256"
  shows "GET_ROW_ID a x = a * 65536 + x * 256"
    and "0 \<le> k \<Longrightarrow> k < 256 \<Longrightarrow> GET_PARA_ID a x k = a * 65536 + x * 256 + k"
  using assms by (auto simp: GET_ROW_ID_def GET_PARA_ID_def app_range_def ID_END_def intro!: c_int_ident)

lemma small_is_int: "0 \<le> k \<Longrightarrow> k < 65536 \<Longrightarrow> is_int k" "0 \<le> k \<Longrightarrow> k < 256 \<Longrightarrow> is_int (k * 256)"
  by (auto simp: is_int_def)

section \<open>Numbered lists\<close>

lemma plist_numbered_nth:
  "plist_numbered m a x ks \<Longrightarrow> n < length ks \<Longrightarrow> para_id (paras m ! (ks ! n)) = GET_PARA_ID a x (int n + 1)"
  by (simp add: plist_numbered_def)

text \<open>Searching a numbered list for a parameter id gives the parameter at that position.\<close>

lemma find_numbered:
  assumes "plist_numbered m a x ks" and "is_int p"
  shows "find (\<lambda>j. para_id (paras m ! j) = GET_PARA_ID a x p) ks =
     (if 1 \<le> p \<and> p \<le> int (length ks) then Some (ks ! nat (p - 1)) else None)"
proof -
  have hit: "para_id (paras m ! (ks ! n)) = GET_PARA_ID a x p \<longleftrightarrow> int n + 1 = p" if "n < length ks" for n
  proof -
    have "is_int (int n + 1)" using assms(1) that by (intro small_is_int) (auto simp: plist_numbered_def)
    then show ?thesis using assms that by (auto simp: plist_numbered_nth)
  qed
  show ?thesis
  proof (cases "1 \<le> p \<and> p \<le> int (length ks)")
    case True
    then have n: "nat (p - 1) < length ks" "int (nat (p - 1)) + 1 = p" by auto
    have "find (\<lambda>j. para_id (paras m ! j) = GET_PARA_ID a x p) ks = Some (ks ! nat (p - 1))"
      unfolding find_Some_iff using n hit by (intro exI[of _ "nat (p - 1)"]) fastforce
    with True show ?thesis by simp
  next
    case False
    then have "\<forall>j \<in> set ks. para_id (paras m ! j) \<noteq> GET_PARA_ID a x p"
      using hit by (fastforce simp: in_set_conv_nth)
    with False show ?thesis by (auto simp: find_None_iff)
  qed
qed

section \<open>The parameter lists of a memory\<close>

definition app_lists :: "shm \<Rightarrow> nat \<Rightarrow> plist \<times> (nat \<times> plist) list \<Rightarrow> ((int \<times> int) \<times> plist) list" where
  "app_lists m i t =
     (let a = app_id (apps m ! i) in
      ((a, 0), fst t) # map (\<lambda>(r, ks). ((a, row_number m a r), ks)) (snd t))"

definition tree_lists :: "shm \<Rightarrow> tree \<Rightarrow> ((int \<times> int) \<times> plist) list" where
  "tree_lists m T = concat (map (\<lambda>i. app_lists m i (T ! i)) [0..<length T])"

lemma concat_app_lists: "concat (map snd (app_lists m i t)) = fst t @ concat (map snd (snd t))"
  by (simp add: app_lists_def Let_def comp_def case_prod_beta)

lemma concat_map_concat: "concat (map f (concat L)) = concat (map (\<lambda>l. concat (map f l)) L)"
  by (induction L) auto

lemma tree_paras_lists: "tree_paras T = concat (map snd (tree_lists m T))"
proof -
  have "concat (map snd (tree_lists m T))
     = concat (map ((\<lambda>t. fst t @ concat (map snd (snd t))) \<circ> (\<lambda>i. T ! i)) [0..<length T])"
    by (simp add: tree_lists_def concat_map_concat comp_def concat_app_lists)
  also have "\<dots> = concat (map (\<lambda>t. fst t @ concat (map snd (snd t))) T)"
    by (simp only: map_map[symmetric] map_nth)
  finally show ?thesis by (simp add: tree_paras_def case_prod_unfold)
qed

text \<open>The keys of the lists are pairwise different, because application ids are and row ids grow.\<close>

lemma app_lists_keys:
  "fst ` set (app_lists m i t) = (\<lambda>x. (app_id (apps m ! i), x)) ` (insert 0 ((\<lambda>(r, ks). row_number m (app_id (apps m ! i)) r) ` set (snd t)))"
  by (auto simp: app_lists_def Let_def image_iff) force+

lemma distinct_app_lists:
  assumes "app_numbered m (app_id (apps m ! i)) t" and a: "app_range (app_id (apps m ! i))"
  shows "distinct (map fst (app_lists m i t))"
proof -
  let ?a = "app_id (apps m ! i)"
  have x: "(r, ks) \<in> set (snd t) \<Longrightarrow> 1 \<le> row_number m ?a r \<and>
      row_id (rows m ! r) = ?a * 65536 + row_number m ?a r * 256" for r ks
    using assms(1) ids_exact(1)[OF a] by (fastforce simp: app_numbered_def Let_def)
  have "sorted_wrt (<) (map (\<lambda>(r, ks). row_number m ?a r) (snd t))"
    using assms(1) x unfolding app_numbered_def sorted_wrt_map
    by (elim conjE, elim sorted_wrt_mono_rel[rotated]) fastforce
  then have "distinct (map (\<lambda>(r, ks). row_number m ?a r) (snd t))"
    by (simp add: strict_sorted_iff)
  then have "distinct (map (\<lambda>(r, ks). (?a, row_number m ?a r)) (snd t))"
    by (simp add: distinct_map inj_on_def case_prod_beta)
  moreover have "map fst (app_lists m i t) = (?a, 0) # map (\<lambda>(r, ks). (?a, row_number m ?a r)) (snd t)"
    by (simp add: app_lists_def Let_def comp_def case_prod_unfold)
  moreover have "(?a, 0) \<notin> set (map (\<lambda>(r, ks). (?a, row_number m ?a r)) (snd t))"
    using x by fastforce
  ultimately show ?thesis by simp
qed

lemma distinct_tree_keys:
  assumes "numbered m T" and k: "length T \<le> length (apps m)"
  shows "distinct (map fst (tree_lists m T))"
proof -
  have dist: "\<lbrakk>i < length T; j < length T; i \<noteq> j\<rbrakk> \<Longrightarrow> app_id (apps m ! i) \<noteq> app_id (apps m ! j)" for i j
    using assms nth_eq_iff_index_eq[of "map app_id (take (length T) (apps m))" i j]
    by (simp add: numbered_def)
  have "n \<le> length T \<Longrightarrow> distinct (map fst (concat (map (\<lambda>i. app_lists m i (T ! i)) [0..<n])))" for n
  proof (induction n)
    case (Suc n)
    have "distinct (map fst (app_lists m n (T ! n)))"
      using assms Suc.prems by (intro distinct_app_lists) (auto simp: numbered_def app_range_def)
    moreover have "fst ` set (app_lists m i (T ! i)) \<inter> fst ` set (app_lists m n (T ! n)) = {}" if "i < n" for i
      using dist[of i n] that Suc.prems by (auto simp: app_lists_keys)
    ultimately show ?case using Suc by (fastforce simp: image_iff)
  qed simp
  then show ?thesis unfolding tree_lists_def by blast
qed

text \<open>A parameter node belongs to one list only.\<close>

lemma assoc_nodes_unique:
  assumes "distinct (concat (map snd L))" and "(k, js) \<in> set L" and "(k', js') \<in> set L"
    and "j \<in> set js" and "j \<in> set js'"
  shows "(k, js) = (k', js')"
  using assms
proof (induction L)
  case (Cons p L)
  have disj: "j \<in> set (snd p) \<Longrightarrow> (k'', js'') \<in> set L \<Longrightarrow> j \<notin> set js''" for k'' js''
    using Cons.prems(1) by fastforce
  have "distinct (concat (map snd L))" using Cons.prems(1) by simp
  with Cons disj show ?case by (metis set_ConsD snd_conv)
qed simp

section \<open>The map a caller sees\<close>

text \<open>
  The parameter list of row \<open>x\<close> of application \<open>a\<close> (row 0: of the application itself), found
  with the walks of the library, and the name and value of each of its parameters. A row number that does
  not fit into the identifier would be cut to that of another row; the map leaves it out.
\<close>

definition paras_from :: "shm \<Rightarrow> int \<Rightarrow> plist run" where
  "paras_from m off = walk_all (para_at m) (\<lambda>j. para_next (paras m ! j)) (para_live m) off"

definition db_plist :: "shm \<Rightarrow> int \<Rightarrow> int \<Rightarrow> plist option run" where
  "db_plist m a x =
     do { ai \<leftarrow> find_app m a;
          case ai of None \<Rightarrow> Some None
          | Some i \<Rightarrow>
              if x = 0 then map_option Some (paras_from m (app_para (apps m ! i)))
              else do { ri \<leftarrow> find_row m (app_row (apps m ! i)) (GET_ROW_ID a x);
                        case ri of None \<Rightarrow> Some None
                        | Some r \<Rightarrow> map_option Some (paras_from m (row_para (rows m ! r))) } }"

definition entry :: "shm \<Rightarrow> nat \<Rightarrow> string \<times> string" where
  "entry m j = (cstr (para_name (paras m ! j)), cstr (para_val (paras m ! j)))"

fun tbl :: "shm \<Rightarrow> int \<times> int \<Rightarrow> (string \<times> string) list option" where
  "tbl m (a, x) =
     (if is_int (x * 256)
      then (case db_plist m a x of Some (Some ks) \<Rightarrow> Some (map (entry m) ks) | _ \<Rightarrow> None)
      else None)"

definition nth_value :: "(string \<times> string) list option \<Rightarrow> int \<Rightarrow> string option" where
  "nth_value es k =
     (case es of None \<Rightarrow> None
      | Some l \<Rightarrow> if 1 \<le> k \<and> k \<le> int (length l) then Some (snd (l ! nat (k - 1))) else None)"

fun cfg :: "shm \<Rightarrow> int \<times> int \<times> int \<Rightarrow> string option" where
  "cfg m (a, x, k) = nth_value (tbl m (a, x)) k"

declare tbl.simps [simp del] cfg.simps [simp del]

lemma paras_from_chain: "pchain m off ks \<Longrightarrow> paras_from m off = Some ks"
  unfolding paras_from_def by (rule walk_all_chain)

lemma in_tree_lists:
  "(k, js) \<in> set (tree_lists m T) \<longleftrightarrow>
     (\<exists>i < length T. (k = (app_id (apps m ! i), 0) \<and> js = fst (T ! i)) \<or>
        (\<exists>r. (r, js) \<in> set (snd (T ! i)) \<and>
             k = (app_id (apps m ! i), row_number m (app_id (apps m ! i)) r)))"
  by (fastforce simp: tree_lists_def app_lists_def Let_def)

lemma numbered_app:
  assumes "numbered m T" and "i < length T"
  shows "app_range (app_id (apps m ! i))"
    and "plist_numbered m (app_id (apps m ! i)) 0 (fst (T ! i))"
    and "(r, ks) \<in> set (snd (T ! i)) \<Longrightarrow>
       1 \<le> row_number m (app_id (apps m ! i)) r \<and> row_number m (app_id (apps m ! i)) r < 256 \<and>
       row_id (rows m ! r) = GET_ROW_ID (app_id (apps m ! i)) (row_number m (app_id (apps m ! i)) r) \<and>
       plist_numbered m (app_id (apps m ! i)) (row_number m (app_id (apps m ! i)) r) ks"
  using assms by (auto simp: numbered_def app_range_def app_numbered_def Let_def)

lemma numbered_app_unique:
  assumes "numbered m T" and "represents m T" and "i < length T" and "j < length T"
    and "app_id (apps m ! i) = app_id (apps m ! j)"
  shows "i = j"
  using assms nth_eq_iff_index_eq[of "map app_id (take (length T) (apps m))" i j]
  by (simp add: numbered_def represents_def apps_ok_def)

lemma find_app_represents:
  assumes "represents m T"
  shows "find_app m a = Some (find (\<lambda>i. app_id (apps m ! i) = a) [0..<length T])"
  using assms by (intro find_app_upt) (simp add: represents_def)

lemma find_app_cases:
  assumes "represents m T"
  obtains (None) "find_app m a = Some None" "\<And>i. i < length T \<Longrightarrow> app_id (apps m ! i) \<noteq> a"
  | (Some) i where "find_app m a = Some (Some i)" "i < length T" "app_id (apps m ! i) = a"
proof (cases "find (\<lambda>i. app_id (apps m ! i) = a) [0..<length T]")
  case None
  then show ?thesis using that(1) by (simp add: find_app_represents[OF assms] find_None_iff)
next
  case (Some i)
  moreover from Some have "i < length T" "app_id (apps m ! i) = a"
    by (auto simp: find_Some_iff)
  ultimately show ?thesis using that(2) by (simp add: find_app_represents[OF assms])
qed

lemma find_row_cases:
  assumes R: "represents m T" and N: "numbered m T" and i: "i < length T" "app_id (apps m ! i) = a"
    and x: "is_int (x * 256)"
  obtains (None) "find_row m (app_row (apps m ! i)) (GET_ROW_ID a x) = Some None"
      "\<And>r ks. (r, ks) \<in> set (snd (T ! i)) \<Longrightarrow> row_number m a r \<noteq> x"
  | (Some) r ks where "find_row m (app_row (apps m ! i)) (GET_ROW_ID a x) = Some (Some r)"
      "(r, ks) \<in> set (snd (T ! i))" "row_number m a r = x"
proof -
  have f: "find_row m (app_row (apps m ! i)) (GET_ROW_ID a x)
      = Some (find (\<lambda>r. row_id (rows m ! r) = GET_ROW_ID a x) (map fst (snd (T ! i))))"
    by (rule find_row_chain) (rule represents_app(3)[OF R i(1)])
  have num: "row_id (rows m ! r) = GET_ROW_ID a x \<longleftrightarrow> row_number m a r = x" if "(r, ks) \<in> set (snd (T ! i))" for r ks
  proof -
    have *: "1 \<le> row_number m a r" "row_number m a r < 256"
      "row_id (rows m ! r) = GET_ROW_ID a (row_number m a r)"
      using numbered_app(3)[OF N i(1) that] i(2) by auto
    then have "is_int (row_number m a r * 256)" by (intro small_is_int) auto
    with * x show ?thesis by simp
  qed
  show ?thesis
  proof (cases "find (\<lambda>r. row_id (rows m ! r) = GET_ROW_ID a x) (map fst (snd (T ! i)))")
    case N: None
    then have "\<And>r ks. (r, ks) \<in> set (snd (T ! i)) \<Longrightarrow> row_number m a r \<noteq> x"
      using num by (fastforce simp: find_None_iff)
    with N f that(1) show ?thesis by simp
  next
    case S: (Some r)
    then have "r \<in> fst ` set (snd (T ! i))" "row_id (rows m ! r) = GET_ROW_ID a x"
      by (auto simp: find_Some_iff)
    then obtain ks where "(r, ks) \<in> set (snd (T ! i))" "row_number m a r = x"
      using num by fastforce
    with S f that(2) show ?thesis by simp
  qed
qed

text \<open>The lookups agree with the tree: they return, and find exactly the list stored there.\<close>

lemma db_plist_lists:
  assumes R: "represents m T" and N: "numbered m T" and x: "is_int (x * 256)"
  shows "db_plist m a x = Some (map_of (tree_lists m T) (a, x))"
proof -
  have dk: "distinct (map fst (tree_lists m T))"
    using R by (intro distinct_tree_keys[OF N]) (simp add: represents_def apps_ok_def)
  note mapof = map_of_is_SomeI[OF dk]
  from R show ?thesis
  proof (cases rule: find_app_cases[where a = a])
    case None
    then have "(a, x) \<notin> fst ` set (tree_lists m T)"
      by (force simp: in_tree_lists)
    then have "map_of (tree_lists m T) (a, x) = None" by (simp add: map_of_eq_None_iff)
    with None show ?thesis by (simp add: db_plist_def)
  next
    case (Some i)
    note ch = represents_app[OF R Some(2)]
    show ?thesis
    proof (cases "x = 0")
      case True
      have "((a, 0), fst (T ! i)) \<in> set (tree_lists m T)"
        using Some by (auto simp: in_tree_lists)
      then have "map_of (tree_lists m T) (a, 0) = Some (fst (T ! i))" by (rule mapof)
      with True Some ch(2) show ?thesis by (simp add: db_plist_def paras_from_chain)
    next
      case False
      from R N Some(2,3) x show ?thesis
      proof (cases rule: find_row_cases)
        case none: None
        have "(a, x) \<notin> fst ` set (tree_lists m T)"
        proof
          assume "(a, x) \<in> fst ` set (tree_lists m T)"
          then obtain j r ks where "j < length T" "app_id (apps m ! j) = a"
              "(r, ks) \<in> set (snd (T ! j))" "x = row_number m a r"
            using False by (auto simp: in_tree_lists)
          with none(2) numbered_app_unique[OF N R, of j i] Some show False by auto
        qed
        then have "map_of (tree_lists m T) (a, x) = None" by (simp add: map_of_eq_None_iff)
        with none(1) False Some show ?thesis by (simp add: db_plist_def)
      next
        case some: (Some r ks)
        then have "((a, x), ks) \<in> set (tree_lists m T)"
          using Some by (auto simp: in_tree_lists)
        then have "map_of (tree_lists m T) (a, x) = Some ks" by (rule mapof)
        with some ch(4)[of r ks] False Some show ?thesis by (simp add: db_plist_def paras_from_chain)
      qed
    qed
  qed
qed

text \<open>So the rows a caller sees are those of the tree.\<close>

lemma tree_keys_small:
  assumes "numbered m T" and "((a, x), ks) \<in> set (tree_lists m T)"
  shows "0 \<le> x \<and> x < 256"
  using assms numbered_app(3)[OF assms(1)] by (fastforce simp: in_tree_lists)

lemma tbl_tree:
  assumes R: "represents m T" and N: "numbered m T"
  shows "tbl m = map_of (map (\<lambda>(k, ks). (k, map (entry m) ks)) (tree_lists m T))"
proof (rule ext)
  fix k :: "int \<times> int"
  obtain a x where k: "k = (a, x)" by (cases k)
  show "tbl m k = map_of (map (\<lambda>(k, ks). (k, map (entry m) ks)) (tree_lists m T)) k"
  proof (cases "is_int (x * 256)")
    case True
    then show ?thesis
      by (simp add: k tbl.simps db_plist_lists[OF R N] map_of_map option.map_comp split: option.splits)
  next
    case False
    have "(a, x) \<notin> fst ` set (tree_lists m T)"
      using tree_keys_small[OF N] small_is_int(2)[of x] False by force
    then have "map_of (tree_lists m T) (a, x) = None" by (simp add: map_of_eq_None_iff)
    with False show ?thesis by (simp add: k tbl.simps map_of_map)
  qed
qed

lemma tbl_Some_iff:
  assumes R: "represents m T" and N: "numbered m T"
  shows "tbl m k = Some es \<longleftrightarrow> (\<exists>ks. (k, ks) \<in> set (tree_lists m T) \<and> es = map (entry m) ks)"
proof -
  have "distinct (map fst (tree_lists m T))"
    using R by (intro distinct_tree_keys[OF N]) (simp add: represents_def apps_ok_def)
  then show ?thesis by (auto simp: tbl_tree[OF R N] map_of_map dest: map_of_SomeD)
qed

lemma tree_lists_unique:
  assumes "represents m T" and "numbered m T" and "(k, ks) \<in> set (tree_lists m T)" and "(k, js) \<in> set (tree_lists m T)"
  shows "ks = js"
proof -
  have "distinct (map fst (tree_lists m T))"
    using assms(1) by (intro distinct_tree_keys[OF assms(2)]) (simp add: represents_def apps_ok_def)
  then show ?thesis using assms(3,4) by (rule eq_key_imp_eq_value)
qed

text \<open>A change of one row only, and its disappearance.\<close>

lemma map_entry_change:
  assumes "\<And>ks. (k, ks) \<in> L \<Longrightarrow> map (entry m') ks = map (entry m) ks"
  shows "(\<exists>ks. (k, ks) \<in> L \<and> es = map (entry m') ks) \<longleftrightarrow> (\<exists>ks. (k, ks) \<in> L \<and> es = map (entry m) ks)"
  using assms by metis

lemma tbl_change:
  assumes R: "represents m T" "numbered m T" and R': "represents m' T'" "numbered m' T'"
    and lists: "set (tree_lists m' T') = insert (k0, ks0) {l \<in> set (tree_lists m T). fst l \<noteq> k0}"
    and same: "\<And>k ks. (k, ks) \<in> set (tree_lists m T) \<Longrightarrow> k \<noteq> k0 \<Longrightarrow> map (entry m') ks = map (entry m) ks"
  shows "tbl m' = (tbl m)(k0 \<mapsto> map (entry m') ks0)"
proof (rule map_eqI)
  fix k es
  show "tbl m' k = Some es \<longleftrightarrow> ((tbl m)(k0 \<mapsto> map (entry m') ks0)) k = Some es"
    using map_entry_change[of k "set (tree_lists m T)", OF same]
    by (cases "k = k0") (auto simp: tbl_Some_iff[OF R] tbl_Some_iff[OF R'] lists)
qed

lemma tbl_drop:
  assumes R: "represents m T" "numbered m T" and R': "represents m' T'" "numbered m' T'"
    and lists: "set (tree_lists m' T') = {l \<in> set (tree_lists m T). fst l \<noteq> k0}"
    and same: "\<And>k ks. (k, ks) \<in> set (tree_lists m T) \<Longrightarrow> k \<noteq> k0 \<Longrightarrow> map (entry m') ks = map (entry m) ks"
  shows "tbl m' = (tbl m)(k0 := None)"
proof (rule map_eqI)
  fix k es
  show "tbl m' k = Some es \<longleftrightarrow> ((tbl m)(k0 := None)) k = Some es"
    using map_entry_change[of k "set (tree_lists m T)", OF same]
    by (cases "k = k0") (auto simp: tbl_Some_iff[OF R] tbl_Some_iff[OF R'] lists)
qed

end
