(* ===== verification/Conf_Access.thy ===== *)
theory Conf_Access
  imports Conf_View
begin

text \<open>
  Reading and writing parameters (\<^verbatim>\<open>config_api_read_parameter\<close> and its siblings): the state of
  the library in one process, the semaphore that guards the shared memory, and the handlers.
\<close>

section \<open>State\<close>

text \<open>
  \<open>cache_addr\<close> is the mapped segment (\<open>None\<close>: not initialised). \<open>semv\<close> is the semaphore set
  the kernel keeps under \<open>KEY_LOCK_CACHE_FILE\<close>, its value or \<open>None\<close> when no set exists; \<open>shm_key\<close>
  says whether a segment exists under \<open>KEY_SHARE_MEMORY\<close>. The two files are their contents.
\<close>

record conf =
  cache_addr :: "shm option"
  gRecordWriteID :: "char list"
  gMaxAppNum :: int
  gMaxTabNum :: int
  gMaxParaNum :: int
  gMMAPSIZE :: int
  semv :: "nat option"
  shm_key :: bool
  PARAMETER_FILE :: "string option"
  DEFAULT_FILE :: "string option"

section \<open>The cache lock\<close>

definition get_sem_id :: "conf \<Rightarrow> int" where
  "get_sem_id c = (if semv c = None then - 1 else 0)"

text \<open>Taking the lock waits while the value is 0; in one process nobody ends that wait.\<close>

definition lock_cache :: "conf \<Rightarrow> (int \<times> conf) run" where
  "lock_cache c =
     (case semv c of None \<Rightarrow> Some (- 1, c)
      | Some 0 \<Rightarrow> None
      | Some (Suc n) \<Rightarrow> Some (0, c\<lparr>semv := Some n\<rparr>))"

definition unlock_cache :: "conf \<Rightarrow> int \<times> conf" where
  "unlock_cache c =
     (case semv c of None \<Rightarrow> (- 1, c) | Some n \<Rightarrow> (0, c\<lparr>semv := Some (Suc n)\<rparr>))"

text \<open>The frame of every handler that changes the memory: each of its exits unlocks.\<close>

definition with_lock :: "conf \<Rightarrow> (conf \<Rightarrow> (int \<times> conf) run) \<Rightarrow> (int \<times> conf) run" where
  "with_lock c body =
     (if get_sem_id c < 0 then Some (- 1, c)
      else do { (l, c1) \<leftarrow> lock_cache c;
                if l < 0 then Some (- 1, c1)
                else do { (r, c2) \<leftarrow> body c1; Some (r, snd (unlock_cache c2)) } })"

text \<open>The body of \<open>check_library\<close> is compiled out.\<close>

definition check_library :: "shm \<Rightarrow> int" where
  "check_library m = 0"

section \<open>Handlers for single parameters\<close>

text \<open>
  \<open>copy_value\<close> is the \<open>strncpy\<close> into the caller's buffer: one character more than the string
  as long as that is below \<open>MAX_VALUE_LEN - 1\<close>.
\<close>

definition c_strlen :: "buf \<Rightarrow> nat run" where
  "c_strlen b = (if terminated b then Some (length (cstr b)) else None)"

definition copy_value :: "buf \<Rightarrow> buf \<Rightarrow> buf run" where
  "copy_value result val =
     do { n \<leftarrow> c_strlen val;
          strncpy result (cstr val) (if n + 1 < MAX_VALUE_LEN - 1 then n + 1 else MAX_VALUE_LEN - 1) }"

definition app_index_error :: "int \<Rightarrow> bool" where
  "app_index_error a \<longleftrightarrow> a \<ge> ID_END \<or> a \<le> 0"

definition config_api_read_parameter ::
    "conf \<Rightarrow> int \<Rightarrow> int \<Rightarrow> buf option \<Rightarrow> (int \<times> buf option) run" where
  "config_api_read_parameter c app_index para_index result =
     (case (cache_addr c, result) of
        (Some m, Some b) \<Rightarrow>
          if app_index_error app_index then Some (- 1, result)
          else if check_library m \<noteq> 0 then Some (- 1, result)
          else do { ai \<leftarrow> find_app m app_index;
            case ai of None \<Rightarrow> Some (- 1, result)
            | Some i \<Rightarrow> do {
                pj \<leftarrow> find_para m (app_para (apps m ! i)) (GET_PARA_ID app_index 0 para_index);
                case pj of None \<Rightarrow> Some (- 1, result)
                | Some j \<Rightarrow> do { b' \<leftarrow> copy_value b (para_val (paras m ! j)); Some (0, Some b') } } }
      | _ \<Rightarrow> Some (- 1, result))"

definition set_val :: "shm \<Rightarrow> nat \<Rightarrow> buf \<Rightarrow> shm" where
  "set_val m j v = m\<lparr>paras := (paras m)[j := (paras m ! j)\<lparr>para_val := v\<rparr>]\<rparr>"

definition record_write :: "int \<Rightarrow> char list \<Rightarrow> char list" where
  "record_write a g = g[nat (a - 1) := CHR ''1'']"

definition store_value :: "conf \<Rightarrow> shm \<Rightarrow> int \<Rightarrow> nat \<Rightarrow> string \<Rightarrow> (int \<times> conf) run" where
  "store_value c m app_index j v =
     do { b \<leftarrow> strncpy (para_val (paras m ! j)) v (MAX_VALUE_LEN - 1);
          Some (0, c\<lparr>cache_addr := Some (set_val m j b),
                     gRecordWriteID := record_write app_index (gRecordWriteID c)\<rparr>) }"

definition config_api_write_parameter ::
    "conf \<Rightarrow> int \<Rightarrow> int \<Rightarrow> string option \<Rightarrow> (int \<times> conf) run" where
  "config_api_write_parameter c app_index para_index val =
     (case (cache_addr c, val) of
        (Some m, Some v) \<Rightarrow>
          if app_index_error app_index then Some (- 1, c)
          else if check_library m \<noteq> 0 then Some (- 1, c)
          else with_lock c (\<lambda>c1. do {
            ai \<leftarrow> find_app m app_index;
            case ai of None \<Rightarrow> Some (- 1, c1)
            | Some i \<Rightarrow> do {
                pj \<leftarrow> find_para m (app_para (apps m ! i)) (GET_PARA_ID app_index 0 para_index);
                case pj of None \<Rightarrow> Some (- 1, c1)
                | Some j \<Rightarrow> store_value c1 m app_index j v } })
      | _ \<Rightarrow> Some (- 1, c))"

section \<open>Handlers for table parameters\<close>

definition config_api_read_table_parameter ::
    "conf \<Rightarrow> int \<Rightarrow> int \<Rightarrow> int \<Rightarrow> buf option \<Rightarrow> (int \<times> buf option) run" where
  "config_api_read_table_parameter c app_index row_index para_index result =
     (case (cache_addr c, result) of
        (Some m, Some b) \<Rightarrow>
          if app_index_error app_index then Some (- 1, result)
          else if check_library m \<noteq> 0 then Some (- 1, result)
          else do { ai \<leftarrow> find_app m app_index;
            case ai of None \<Rightarrow> Some (- 1, result)
            | Some i \<Rightarrow> do {
                rr \<leftarrow> find_row m (app_row (apps m ! i)) (GET_ROW_ID app_index row_index);
                case rr of None \<Rightarrow> Some (- 1, result)
                | Some r \<Rightarrow> do {
                    pj \<leftarrow> find_para m (row_para (rows m ! r))
                            (GET_PARA_ID app_index row_index para_index);
                    case pj of None \<Rightarrow> Some (- 1, result)
                    | Some j \<Rightarrow> do { b' \<leftarrow> copy_value b (para_val (paras m ! j)); Some (0, Some b') } } } }
      | _ \<Rightarrow> Some (- 1, result))"

definition config_api_write_table_parameter ::
    "conf \<Rightarrow> int \<Rightarrow> int \<Rightarrow> int \<Rightarrow> string option \<Rightarrow> (int \<times> conf) run" where
  "config_api_write_table_parameter c app_index row_index para_index val =
     (case (cache_addr c, val) of
        (Some m, Some v) \<Rightarrow>
          if app_index_error app_index then Some (- 1, c)
          else if check_library m \<noteq> 0 then Some (- 1, c)
          else with_lock c (\<lambda>c1. do {
            ai \<leftarrow> find_app m app_index;
            case ai of None \<Rightarrow> Some (- 1, c1)
            | Some i \<Rightarrow> do {
                rr \<leftarrow> find_row m (app_row (apps m ! i)) (GET_ROW_ID app_index row_index);
                case rr of None \<Rightarrow> Some (- 1, c1)
                | Some r \<Rightarrow> do {
                    pj \<leftarrow> find_para m (row_para (rows m ! r))
                            (GET_PARA_ID app_index row_index para_index);
                    case pj of None \<Rightarrow> Some (- 1, c1)
                    | Some j \<Rightarrow> store_value c1 m app_index j v } } })
      | _ \<Rightarrow> Some (- 1, c))"

text \<open>
  Reading a row copies its parameters into \<open>val[0]\<close>, \<open>val[1]\<close>, \dots without a bound: an entry
  that is missing or \<^verbatim>\<open>NULL\<close> has no defined result.
\<close>

fun copy_row :: "shm \<Rightarrow> nat list \<Rightarrow> buf option list \<Rightarrow> buf option list run" where
  "copy_row m [] vs = Some vs"
| "copy_row m (j # js) [] = None"
| "copy_row m (j # js) (None # vs) = None"
| "copy_row m (j # js) (Some b # vs) =
     do { b' \<leftarrow> copy_value b (para_val (paras m ! j)); vs' \<leftarrow> copy_row m js vs; Some (Some b' # vs') }"

definition config_api_read_table_row ::
    "conf \<Rightarrow> int \<Rightarrow> int \<Rightarrow> buf option list \<Rightarrow> (int \<times> buf option list) run" where
  "config_api_read_table_row c app_index row_index val =
     (case cache_addr c of None \<Rightarrow> Some (- 1, val)
      | Some m \<Rightarrow>
          if app_index_error app_index then Some (- 1, val)
          else if val = [] then None
          else if hd val = None then Some (- 1, val)
          else if check_library m \<noteq> 0 then Some (- 1, val)
          else do { ai \<leftarrow> find_app m app_index;
            case ai of None \<Rightarrow> Some (- 1, val)
            | Some i \<Rightarrow> do {
                rr \<leftarrow> find_row m (app_row (apps m ! i)) (GET_ROW_ID app_index row_index);
                case rr of None \<Rightarrow> Some (- 1, val)
                | Some r \<Rightarrow> do { js \<leftarrow> paras_from m (row_para (rows m ! r));
                                vs \<leftarrow> copy_row m js val; Some (0, vs) } } })"

section \<open>The lock is released on every path\<close>

lemma with_lock_released:
  assumes "with_lock c body = Some (r, c')"
    and "\<And>c1 c2 r. body c1 = Some (r, c2) \<Longrightarrow> semv c2 = semv c1"
  shows "semv c' = semv c"
  using assms
  by (auto simp: with_lock_def lock_cache_def unlock_cache_def get_sem_id_def
      split: option.splits nat.splits if_splits bind_splits)

section \<open>What the lookups of the handlers find\<close>

text \<open>The node of parameter \<open>p\<close> of row \<open>x\<close>, and the two lookups the handlers do.\<close>

definition node_of :: "shm \<Rightarrow> int \<Rightarrow> int \<Rightarrow> int \<Rightarrow> nat option" where
  "node_of m a x p =
     (case db_plist m a x of Some (Some ks) \<Rightarrow>
        (if 1 \<le> p \<and> p \<le> int (length ks) then Some (ks ! nat (p - 1)) else None)
      | _ \<Rightarrow> None)"

definition locate :: "shm \<Rightarrow> int \<Rightarrow> int \<Rightarrow> nat option run" where
  "locate m a p =
     do { ai \<leftarrow> find_app m a;
          case ai of None \<Rightarrow> Some None
          | Some i \<Rightarrow> find_para m (app_para (apps m ! i)) (GET_PARA_ID a 0 p) }"

definition locate_tab :: "shm \<Rightarrow> int \<Rightarrow> int \<Rightarrow> int \<Rightarrow> nat option run" where
  "locate_tab m a x p =
     do { ai \<leftarrow> find_app m a;
          case ai of None \<Rightarrow> Some None
          | Some i \<Rightarrow> do {
              rr \<leftarrow> find_row m (app_row (apps m ! i)) (GET_ROW_ID a x);
              case rr of None \<Rightarrow> Some None
              | Some r \<Rightarrow> find_para m (row_para (rows m ! r)) (GET_PARA_ID a x p) } }"

lemma cfg_node_of:
  "is_int (x * 256) \<Longrightarrow>
   cfg m (a, x, p) = map_option (\<lambda>j. cstr (para_val (paras m ! j))) (node_of m a x p)"
  by (auto simp: cfg.simps tbl.simps nth_value_def node_of_def entry_def split: option.splits)

lemma locate_node_of:
  assumes R: "represents m T" and N: "numbered m T" and p: "is_int p"
  shows "locate m a p = Some (node_of m a 0 p)"
  using R
proof (cases rule: find_app_cases[where a = a])
  case None
  then show ?thesis by (simp add: locate_def node_of_def db_plist_def)
next
  case (Some i)
  note ch = represents_app(2)[OF R Some(2)]
  have "find_para m (app_para (apps m ! i)) (GET_PARA_ID a 0 p)
     = Some (find (\<lambda>j. para_id (paras m ! j) = GET_PARA_ID a 0 p) (fst (T ! i)))"
    by (rule find_para_chain) (rule ch)
  with Some find_numbered[OF numbered_app(2)[OF N Some(2)] p] ch show ?thesis
    by (simp add: locate_def node_of_def db_plist_def paras_from_chain)
qed

lemma locate_tab_node_of:
  assumes R: "represents m T" and N: "numbered m T" and p: "is_int p" and x: "is_int (x * 256)" "x \<noteq> 0"
  shows "locate_tab m a x p = Some (node_of m a x p)"
  using R
proof (cases rule: find_app_cases[where a = a])
  case None
  then show ?thesis by (simp add: locate_tab_def node_of_def db_plist_def)
next
  case app: (Some i)
  from R N app(2,3) x(1) show ?thesis
  proof (cases rule: find_row_cases)
    case None
    with app x(2) show ?thesis by (simp add: locate_tab_def node_of_def db_plist_def)
  next
    case (Some r ks)
    note ch = represents_app(4)[OF R app(2) Some(2)]
    have num: "plist_numbered m a x ks"
      using numbered_app(3)[OF N app(2) Some(2)] app(3) Some(3) by auto
    have "find_para m (row_para (rows m ! r)) (GET_PARA_ID a x p)
     = Some (find (\<lambda>j. para_id (paras m ! j) = GET_PARA_ID a x p) ks)"
      by (rule find_para_chain) (rule ch)
    with app Some x(2) find_numbered[OF num p] ch show ?thesis
      by (simp add: locate_tab_def node_of_def db_plist_def paras_from_chain)
  qed
qed

lemma node_of_bound:
  assumes "represents m T" and "numbered m T" and "is_int (x * 256)" and "node_of m a x p = Some j"
  shows "j < length (paras m) \<and> (\<exists>ks. ((a, x), ks) \<in> set (tree_lists m T) \<and> 1 \<le> p \<and> p \<le> int (length ks) \<and> j = ks ! nat (p - 1))"
proof -
  from assms obtain ks where ks: "map_of (tree_lists m T) (a, x) = Some ks" "1 \<le> p" "p \<le> int (length ks)"
      "j = ks ! nat (p - 1)"
    by (auto simp: node_of_def db_plist_lists split: option.splits if_splits)
  then have mem: "((a, x), ks) \<in> set (tree_lists m T)" by (simp add: map_of_SomeD)
  have "j \<in> set ks" using ks by (intro nth_mem[of "nat (p - 1)" ks, folded ks(4)]) auto
  moreover from mem obtain off where "pchain m off ks"
    using assms(1) by (auto simp: in_tree_lists dest: represents_app)
  ultimately have "\<exists>y. para_at m y = Some j" by (rule path_deref[rotated])
  with mem ks show ?thesis by (auto dest: at_Some)
qed

section \<open>Changing one value\<close>

lemma set_val_simps [simp]:
  "apps (set_val m j v) = apps m" "rows (set_val m j v) = rows m"
  "length (paras (set_val m j v)) = length (paras m)"
  by (simp_all add: set_val_def)

lemma set_val_node [simp]:
  "para_id (paras (set_val m j v) ! i) = para_id (paras m ! i)"
  "para_next (paras (set_val m j v) ! i) = para_next (paras m ! i)"
  "para_name (paras (set_val m j v) ! i) = para_name (paras m ! i)"
  by (cases "i = j"; cases "j < length (paras m)"; simp add: set_val_def list_update_beyond)+

lemma set_val_val:
  "para_val (paras (set_val m j v) ! i) = (if i = j \<and> j < length (paras m) then v else para_val (paras m ! i))"
  by (cases "i = j"; cases "j < length (paras m)"; simp add: set_val_def list_update_beyond)

lemma set_val_offsets [simp]:
  "APP_START_NODE (set_val m j v) = APP_START_NODE m"
  "app_off (set_val m j v) = app_off m"
  "app_at (set_val m j v) = app_at m" "row_at (set_val m j v) = row_at m" "para_at (set_val m j v) = para_at m"
  by (simp_all add: fun_eq_iff app_off_def app_at_def row_at_def para_at_def APP_START_NODE_def
      ROW_START_NODE_def PARA_START_NODE_def)

lemma set_val_walks [simp]:
  "find_app (set_val m j v) = find_app m" "find_row (set_val m j v) = find_row m"
  "paras_from (set_val m j v) = paras_from m"
  by (simp_all add: fun_eq_iff find_app_def find_row_def paras_from_def)

lemma set_val_lists [simp]: "db_plist (set_val m j v) = db_plist m"
  by (intro ext) (auto simp: db_plist_def split: option.splits bind_splits)

lemma set_val_node_of [simp]: "node_of (set_val m j v) = node_of m"
  by (simp add: fun_eq_iff node_of_def)

lemma represents_set_val:
  "represents m T \<Longrightarrow> buf_ok MAX_VALUE_LEN v \<Longrightarrow> represents (set_val m j v) T"
  by (auto simp: represents_def apps_ok_def app_repr_def bufs_ok_def set_conv_nth set_val_val
      split: if_splits)

lemma numbered_set_val: "numbered (set_val m j v) T \<longleftrightarrow> numbered m T"
  by (simp add: numbered_def app_numbered_def plist_numbered_def row_number_def)

definition set_entry :: "(string \<times> string) list \<Rightarrow> int \<Rightarrow> string \<Rightarrow> (string \<times> string) list" where
  "set_entry es p v = es[nat (p - 1) := (fst (es ! nat (p - 1)), v)]"

lemma map_entry_set_val:
  assumes "distinct ks" and "n < length ks" and "ks ! n < length (paras m)"
  shows "map (entry (set_val m (ks ! n) v)) ks
     = (map (entry m) ks)[n := (fst (entry m (ks ! n)), cstr v)]"
proof (rule nth_equalityI)
  fix i assume "i < length (map (entry (set_val m (ks ! n) v)) ks)"
  then have i: "i < length ks" by simp
  with assms have "ks ! i = ks ! n \<longleftrightarrow> i = n" by (simp add: nth_eq_iff_index_eq)
  with i assms show "map (entry (set_val m (ks ! n) v)) ks ! i
      = (map (entry m) ks)[n := (fst (entry m (ks ! n)), cstr v)] ! i"
    by (simp add: nth_list_update entry_def set_val_val)
qed simp

lemma set_val_tree_lists [simp]: "tree_lists (set_val m j v) T = tree_lists m T"
  by (simp add: tree_lists_def app_lists_def row_number_def)

lemma insert_unique:
  assumes "(k, v) \<in> S" and "\<And>w. (k, w) \<in> S \<Longrightarrow> w = v"
  shows "S = insert (k, v) {l \<in> S. fst l \<noteq> k}"
proof (rule set_eqI)
  fix l
  show "l \<in> S \<longleftrightarrow> l \<in> insert (k, v) {l \<in> S. fst l \<noteq> k}"
    using assms(1) assms(2)[of "snd l"] by (cases l; cases "fst l = k") auto
qed

lemma tbl_set_val:
  assumes R: "represents m T" and N: "numbered m T" and v: "buf_ok MAX_VALUE_LEN v"
    and x: "is_int (x * 256)" and j: "node_of m a x p = Some j"
  obtains es where "tbl m (a, x) = Some es" "1 \<le> p" "p \<le> int (length es)"
    "tbl (set_val m j v) = (tbl m)((a, x) \<mapsto> set_entry es p (cstr v))"
proof -
  from node_of_bound[OF R N x j] obtain ks where ks: "((a, x), ks) \<in> set (tree_lists m T)"
    "1 \<le> p" "p \<le> int (length ks)" "j = ks ! nat (p - 1)" and len: "j < length (paras m)" by blast
  have dist: "distinct (concat (map snd (tree_lists m T)))"
    using R by (simp add: represents_def tree_paras_lists[symmetric])
  have n: "nat (p - 1) < length ks" and jks: "j \<in> set ks" using ks by auto
  have dks: "distinct ks" using dist ks(1) by (auto simp: distinct_concat_iff)
  have lt: "ks ! nat (p - 1) < length (paras m)" using len ks(4) by simp
  have new: "map (entry (set_val m j v)) ks = set_entry (map (entry m) ks) p (cstr v)"
    by (simp only: set_entry_def ks(4) map_entry_set_val[OF dks n lt] nth_map[OF n])
  have "tbl (set_val m j v) = (tbl m)((a, x) \<mapsto> map (entry (set_val m j v)) ks)"
  proof (rule tbl_change[OF R N represents_set_val[OF R v] numbered_set_val[THEN iffD2, OF N]])
    show "set (tree_lists (set_val m j v) T)
        = insert ((a, x), ks) {l \<in> set (tree_lists m T). fst l \<noteq> (a, x)}"
      unfolding set_val_tree_lists by (rule insert_unique[OF ks(1)]) (rule tree_lists_unique[OF R N _ ks(1)])
    show "map (entry (set_val m j v)) js = map (entry m) js"
      if "(k, js) \<in> set (tree_lists m T)" "k \<noteq> (a, x)" for k js
      using assoc_nodes_unique[OF dist ks(1) that(1) jks] that(2)
      by (auto simp: entry_def set_val_val)
  qed
  moreover have "tbl m (a, x) = Some (map (entry m) ks)"
    using ks(1) by (auto simp: tbl_Some_iff[OF R N])
  ultimately show ?thesis using that[of "map (entry m) ks"] ks new by simp
qed

lemma cfg_set_entry:
  assumes "tbl m (a, x) = Some es" and "1 \<le> p" and "p \<le> int (length es)"
    and "tbl m' = (tbl m)((a, x) \<mapsto> set_entry es p s)"
  shows "cfg m' = (cfg m)((a, x, p) \<mapsto> s)"
proof (rule ext)
  fix k :: "int \<times> int \<times> int"
  obtain a' x' p' where k: "k = (a', x', p')" by (cases k)
  have "nat (p' - 1) = nat (p - 1) \<longleftrightarrow> p' = p" if "1 \<le> p'" using that assms(2) by auto
  then show "cfg m' k = ((cfg m)((a, x, p) \<mapsto> s)) k"
    using assms by (auto simp: k cfg.simps nth_value_def set_entry_def nth_list_update)
qed

lemma cfg_set_val:
  assumes "represents m T" and "numbered m T" and "buf_ok MAX_VALUE_LEN v"
    and "is_int (x * 256)" and "node_of m a x p = Some j"
  shows "cfg (set_val m j v) = (cfg m)((a, x, p) \<mapsto> cstr v)"
  by (rule tbl_set_val[OF assms]) (rule cfg_set_entry)

section \<open>The handlers by their lookups\<close>

lemma read_parameter_locate:
  "cache_addr c = Some m \<Longrightarrow> app_range a \<Longrightarrow>
   config_api_read_parameter c a p (Some b) =
     do { l \<leftarrow> locate m a p;
          case l of None \<Rightarrow> Some (- 1, Some b)
          | Some j \<Rightarrow> do { b' \<leftarrow> copy_value b (para_val (paras m ! j)); Some (0, Some b') } }"
  by (auto simp: config_api_read_parameter_def locate_def app_range_def app_index_error_def check_library_def
      split: option.splits bind_splits)

lemma read_table_parameter_locate:
  "cache_addr c = Some m \<Longrightarrow> app_range a \<Longrightarrow>
   config_api_read_table_parameter c a x p (Some b) =
     do { l \<leftarrow> locate_tab m a x p;
          case l of None \<Rightarrow> Some (- 1, Some b)
          | Some j \<Rightarrow> do { b' \<leftarrow> copy_value b (para_val (paras m ! j)); Some (0, Some b') } }"
  by (auto simp: config_api_read_table_parameter_def locate_tab_def app_range_def app_index_error_def
      check_library_def split: option.splits bind_splits)

lemma write_parameter_locate:
  "cache_addr c = Some m \<Longrightarrow> app_range a \<Longrightarrow>
   config_api_write_parameter c a p (Some v) =
     with_lock c (\<lambda>c1. do {
       l \<leftarrow> locate m a p;
       case l of None \<Rightarrow> Some (- 1, c1) | Some j \<Rightarrow> store_value c1 m a j v })"
  unfolding config_api_write_parameter_def
  by (auto simp: locate_def app_range_def app_index_error_def check_library_def
      intro!: arg_cong[where f = "with_lock c"] split: option.splits bind_splits)

lemma write_table_parameter_locate:
  "cache_addr c = Some m \<Longrightarrow> app_range a \<Longrightarrow>
   config_api_write_table_parameter c a x p (Some v) =
     with_lock c (\<lambda>c1. do {
       l \<leftarrow> locate_tab m a x p;
       case l of None \<Rightarrow> Some (- 1, c1) | Some j \<Rightarrow> store_value c1 m a j v })"
  unfolding config_api_write_table_parameter_def
  by (auto simp: locate_tab_def app_range_def app_index_error_def check_library_def
      intro!: arg_cong[where f = "with_lock c"] split: option.splits bind_splits)

section \<open>Values\<close>

lemma buf_ok_cstr:
  assumes "buf_ok n b" and "0 < n"
  shows "terminated b" and "length (cstr b) < n"
proof -
  from assms have "b \<noteq> []" "last b = NUL" "length b = n" by (auto simp: buf_ok_def)
  then show "terminated b" by (metis last_in_set terminated_def)
  then show "length (cstr b) < n" using assms by (simp add: length_cstr_terminated buf_ok_def)
qed

text \<open>What a read leaves in the caller's buffer: a value of 639 characters has no NUL after it.\<close>

definition read_into :: "buf \<Rightarrow> string \<Rightarrow> buf" where
  "read_into b s = (if length s < 639 then s @ NUL # drop (Suc (length s)) b else s @ drop 639 b)"

lemma copy_value_read:
  assumes "buf_ok MAX_VALUE_LEN val" and "MAX_VALUE_LEN \<le> length b"
  shows "copy_value b val = Some (read_into b (cstr val))"
proof -
  have len: "terminated val" "length (cstr val) < 640"
    using buf_ok_cstr[OF assms(1)] by (simp_all add: MAX_VALUE_LEN_def)
  then consider "length (cstr val) < 638" | "length (cstr val) = 638" | "length (cstr val) = 639" by linarith
  then show ?thesis
    using len assms(2) by cases (simp_all add: copy_value_def c_strlen_def strncpy_def pad_def read_into_def
        MAX_VALUE_LEN_def Suc_diff_le)
qed

lemma cstr_read_into: "NUL \<notin> set s \<Longrightarrow> length s < 639 \<Longrightarrow> cstr (read_into b s) = s"
  by (simp add: read_into_def)

lemma drop_to_last:
  assumes "length b = Suc n"
  shows "drop n b = [last b]"
proof -
  have "b \<noteq> []" using assms by auto
  then have "last b = b ! n" using assms by (simp add: last_conv_nth)
  then show ?thesis using assms Cons_nth_drop_Suc[of n b] by simp
qed

lemma strncpy_value:
  assumes "buf_ok MAX_VALUE_LEN old" and "NUL \<notin> set v"
  obtains b where "strncpy old v (MAX_VALUE_LEN - 1) = Some b" "buf_ok MAX_VALUE_LEN b" "cstr b = take 639 v"
proof
  have len: "length old = 640" "last old = NUL" using assms(1) by (auto simp: buf_ok_def MAX_VALUE_LEN_def)
  have tail: "drop 639 old = [NUL]"
    using len drop_to_last[of old 639] by simp
  let ?b = "pad 639 v @ [NUL]"
  show "strncpy old v (MAX_VALUE_LEN - 1) = Some ?b"
    using len tail by (simp add: strncpy_def MAX_VALUE_LEN_def)
  show "buf_ok MAX_VALUE_LEN ?b" by (simp add: buf_ok_def MAX_VALUE_LEN_def)
  show "cstr ?b = take 639 v" using assms(2) by (simp add: cstr_pad_append cstr_NUL_append[of "[]", simplified])
qed

lemma node_val_ok:
  assumes "represents m T" and "j < length (paras m)"
  shows "buf_ok MAX_VALUE_LEN (para_val (paras m ! j))"
  using assms by (auto simp: represents_def bufs_ok_def)


section \<open>What the handlers do\<close>

lemma wf_shmE:
  assumes "wf_shm m"
  obtains T where "represents m T" "numbered m T"
  using assms by (auto simp: wf_shm_def)

lemma read_result:
  assumes "represents m T" and "numbered m T" and "is_int (x * 256)" and "MAX_VALUE_LEN \<le> length b"
  shows "(case node_of m a x p of None \<Rightarrow> Some (- 1, Some b)
          | Some j \<Rightarrow> do { b' \<leftarrow> copy_value b (para_val (paras m ! j)); Some (0, Some b') })
       = Some (case cfg m (a, x, p) of None \<Rightarrow> (- 1, Some b) | Some s \<Rightarrow> (0, Some (read_into b s)))"
proof (cases "node_of m a x p")
  case (Some j)
  then have "j < length (paras m)" using node_of_bound[OF assms(1-3)] by blast
  from copy_value_read[OF node_val_ok[OF assms(1) this] assms(4)] Some assms(3)
  show ?thesis by (simp add: cfg_node_of)
qed (use assms(3) in \<open>simp add: cfg_node_of\<close>)

text \<open>A write through either handler, seen by the map.\<close>

definition written :: "conf \<Rightarrow> int \<Rightarrow> shm \<Rightarrow> conf" where
  "written c a m' = c\<lparr>cache_addr := Some m', gRecordWriteID := record_write a (gRecordWriteID c)\<rparr>"

lemma with_lock_free:
  assumes "semv c = Some (Suc n)"
  shows "with_lock c body = do { (r, c2) \<leftarrow> body (c\<lparr>semv := Some n\<rparr>); Some (r, snd (unlock_cache c2)) }"
  using assms by (simp add: with_lock_def lock_cache_def get_sem_id_def)

lemma write_result:
  assumes R: "represents m T" and N: "numbered m T" and x: "is_int (x * 256)" and v: "NUL \<notin> set v"
    and sem: "semv c = Some (Suc n)"
  obtains (absent) "cfg m (a, x, p) = None"
      "with_lock c (\<lambda>c1. case node_of m a x p of None \<Rightarrow> Some (- 1, c1) | Some j \<Rightarrow> store_value c1 m a j v)
         = Some (- 1, c)"
  | (present) m' where "cfg m (a, x, p) \<noteq> None"
      "with_lock c (\<lambda>c1. case node_of m a x p of None \<Rightarrow> Some (- 1, c1) | Some j \<Rightarrow> store_value c1 m a j v)
         = Some (0, written c a m')"
      "represents m' T" "numbered m' T" "cfg m' = (cfg m)((a, x, p) \<mapsto> take 639 v)"
proof (cases "node_of m a x p")
  case None
  with x sem show ?thesis
    by (intro absent) (simp_all add: cfg_node_of with_lock_free unlock_cache_def)
next
  case (Some j)
  then have j: "j < length (paras m)" using node_of_bound[OF R N x] by blast
  from strncpy_value[OF node_val_ok[OF R j] v] obtain b where
    b: "strncpy (para_val (paras m ! j)) v (MAX_VALUE_LEN - 1) = Some b" "buf_ok MAX_VALUE_LEN b" "cstr b = take 639 v" .
  show ?thesis
  proof (rule present[of "set_val m j b"])
    show "cfg m (a, x, p) \<noteq> None" using Some x by (simp add: cfg_node_of)
    show "with_lock c (\<lambda>c1. case node_of m a x p of None \<Rightarrow> Some (- 1, c1) | Some j \<Rightarrow> store_value c1 m a j v)
         = Some (0, written c a (set_val m j b))"
      using Some b sem by (simp add: with_lock_free store_value_def unlock_cache_def written_def)
    show "cfg (set_val m j b) = (cfg m)((a, x, p) \<mapsto> take 639 v)"
      using cfg_set_val[OF R N b(2) x Some] b(3) by simp
  qed (use R N b in \<open>simp_all add: represents_set_val numbered_set_val\<close>)
qed

end
