(* ===== verification/Conf_Rows.thy ===== *)
theory Conf_Rows
  imports Conf_Access
begin

text \<open>
  Adding and deleting table rows: the allocation of free nodes, \<^verbatim>\<open>add_row_tail\<close>,
  \<^verbatim>\<open>add_para_tail\<close>, \<^verbatim>\<open>config_api_add_table_row\<close> and \<^verbatim>\<open>config_api_delete_table_row\<close>, in the
  build the file selects (\<^verbatim>\<open>CONFLIB_TABLE_ID_SENSITIVITY\<close>), and the two changes of the tree
  they make.
\<close>

section \<open>Nodes\<close>

text \<open>
  \<^verbatim>\<open>find_free_node\<close> for the two node types it serves: the first node with identifier \<open>- 1\<close>,
  cleared, or no node.
\<close>

definition find_free_row :: "shm \<Rightarrow> (nat \<times> shm) option" where
  "find_free_row m =
     (case find (\<lambda>r. row_id (rows m ! r) = - 1) [0..<length (rows m)] of
        None \<Rightarrow> None
      | Some r \<Rightarrow> Some (r, m\<lparr>rows := (rows m)[r := (rows m ! r)\<lparr>row_next := 0, row_para := 0\<rparr>]\<rparr>))"

definition find_free_para :: "shm \<Rightarrow> (nat \<times> shm) option" where
  "find_free_para m =
     (case find (\<lambda>j. para_id (paras m ! j) = - 1) [0..<length (paras m)] of
        None \<Rightarrow> None
      | Some j \<Rightarrow> Some (j, m\<lparr>paras := (paras m)[j := (paras m ! j)\<lparr>para_name := replicate MAX_NAME_LEN NUL,
                                para_val := replicate MAX_VALUE_LEN NUL, para_next := 0\<rparr>]\<rparr>))"

text \<open>The \<^verbatim>\<open>int *next\<close> of the two functions that append a node: where the offset is stored.\<close>

datatype row_slot = App_row nat | Row_next nat
datatype para_slot = Row_para nat | Para_next nat

fun set_row_slot :: "shm \<Rightarrow> row_slot \<Rightarrow> int \<Rightarrow> shm" where
  "set_row_slot m (App_row i) off = m\<lparr>apps := (apps m)[i := (apps m ! i)\<lparr>app_row := off\<rparr>]\<rparr>"
| "set_row_slot m (Row_next r) off = m\<lparr>rows := (rows m)[r := (rows m ! r)\<lparr>row_next := off\<rparr>]\<rparr>"

fun set_para_slot :: "shm \<Rightarrow> para_slot \<Rightarrow> int \<Rightarrow> shm" where
  "set_para_slot m (Row_para r) off = m\<lparr>rows := (rows m)[r := (rows m ! r)\<lparr>row_para := off\<rparr>]\<rparr>"
| "set_para_slot m (Para_next j) off = m\<lparr>paras := (paras m)[j := (paras m ! j)\<lparr>para_next := off\<rparr>]\<rparr>"

definition add_row_tail :: "shm \<Rightarrow> row_slot \<Rightarrow> int \<Rightarrow> (nat \<times> shm) option" where
  "add_row_tail m next rid =
     (case find_free_row m of None \<Rightarrow> None
      | Some (r, m1) \<Rightarrow>
          let m2 = m1\<lparr>rows := (rows m1)[r := \<lparr>row_id = rid, row_para = 0, row_next = 0\<rparr>]\<rparr>
          in Some (r, set_row_slot m2 next (row_off m r)))"

text \<open>
  The name of the \<open>k\<close>-th row parameter of an application: the \<open>MAX_NAME_LEN - 1\<close> characters
  that are stored into the caller's buffer, or an error.
\<close>

definition config_api_get_para_name_by_id ::
    "tcmEntityInfo list \<Rightarrow> int \<Rightarrow> int \<Rightarrow> buf option run" where
  "config_api_get_para_name_by_id tab app_index para_index =
     do { r \<leftarrow> entity_walk (\<lambda>i. eid i = app_index) tab;
          case r of None \<Rightarrow> Some None
          | Some i \<Rightarrow>
              (case row_paras i of None \<Rightarrow> Some None
               | Some ps \<Rightarrow> do { n \<leftarrow> param_walk para_index ps;
                               Some (map_option (pad (MAX_NAME_LEN - 1)) n) }) }"

text \<open>
  \<open>add_para_tail\<close> gives the new node, or \<open>None\<close> for \<^verbatim>\<open>NULL\<close>; a node it found is cleared
  even when its name is not found.
\<close>

definition add_para_tail ::
    "tcmEntityInfo list \<Rightarrow> shm \<Rightarrow> para_slot \<Rightarrow> int \<Rightarrow> string \<Rightarrow> (nat option \<times> shm) run" where
  "add_para_tail tab m next pid val =
     (let app_index = drop_bit 16 pid; para_index = take_bit 8 pid in
      case find_free_para m of None \<Rightarrow> Some (None, m)
      | Some (j, m1) \<Rightarrow> do {
          tmp_name \<leftarrow> config_api_get_para_name_by_id tab app_index para_index;
          case tmp_name of None \<Rightarrow> Some (None, m1)
          | Some t \<Rightarrow> do {
              n \<leftarrow> strncpy (para_name (paras m1 ! j)) (cstr t) (MAX_NAME_LEN - 1);
              v \<leftarrow> strncpy (para_val (paras m1 ! j)) val (MAX_VALUE_LEN - 1);
              let m2 = m1\<lparr>paras := (paras m1)[j := \<lparr>para_id = pid, para_name = n, para_val = v,
                                                    para_next = 0\<rparr>]\<rparr>;
              Some (Some j, set_para_slot m2 next (para_off m j)) } })"

section \<open>Adding a row\<close>

text \<open>
  The position of row \<open>rid\<close> among the rows, which are kept in the order of their identifiers:
  the last row before it and the first row behind it, or \<open>None\<close> when the row exists.
\<close>

partial_function (option) row_position ::
    "shm \<Rightarrow> int \<Rightarrow> nat option \<Rightarrow> int \<Rightarrow> (nat option \<times> nat option) option run" where
  "row_position m rid pre off =
     (if off = 0 then Some (Some (pre, None))
      else Option.bind (row_at m off) (\<lambda>r.
        if \<not> row_live m r then Some (Some (pre, None))
        else if row_id (rows m ! r) < rid then row_position m rid (Some r) (row_next (rows m ! r))
        else if row_id (rows m ! r) = rid then Some None
        else Some (Some (pre, Some r))))"

text \<open>For row number 0: the first number that is not in use.\<close>

partial_function (option) free_position ::
    "shm \<Rightarrow> int \<Rightarrow> int \<Rightarrow> nat option \<Rightarrow> int \<Rightarrow> (int \<times> nat option \<times> nat option) run" where
  "free_position m a i pre off =
     (if off = 0 then Some (i, pre, None)
      else Option.bind (row_at m off) (\<lambda>r.
        if \<not> row_live m r then Some (i, pre, None)
        else if row_id (rows m ! r) = GET_ROW_ID a i
        then free_position m a (i + 1) (Some r) (row_next (rows m ! r))
        else Some (i, pre, Some r)))"

fun add_row_paras ::
    "tcmEntityInfo list \<Rightarrow> shm \<Rightarrow> para_slot \<Rightarrow> int \<Rightarrow> int \<Rightarrow> int \<Rightarrow> nat \<Rightarrow> string option list \<Rightarrow> (bool \<times> shm) run" where
  "add_row_paras tab m slot a x i 0 vals = Some (True, m)"
| "add_row_paras tab m slot a x i (Suc n) [] = None"
| "add_row_paras tab m slot a x i (Suc n) (v # vals) =
     do { str_tmp \<leftarrow> (case v of None \<Rightarrow> Some (replicate MAX_VALUE_LEN NUL)
                      | Some s \<Rightarrow> strncpy (replicate MAX_VALUE_LEN NUL) s (MAX_VALUE_LEN - 1));
          (q, m1) \<leftarrow> add_para_tail tab m slot (GET_PARA_ID a x (i + 1)) (cstr str_tmp);
          case q of None \<Rightarrow> Some (False, m1)
          | Some j \<Rightarrow> add_row_paras tab m1 (Para_next j) a x (i + 1) n vals }"

definition slot_after :: "nat \<Rightarrow> nat option \<Rightarrow> row_slot" where
  "slot_after i pre = (case pre of None \<Rightarrow> App_row i | Some r \<Rightarrow> Row_next r)"

definition link_row :: "shm \<Rightarrow> nat \<Rightarrow> nat option \<Rightarrow> shm" where
  "link_row m r behind =
     (case behind of None \<Rightarrow> m | Some l \<Rightarrow> set_row_slot m (Row_next r) (row_off m l))"

definition add_row_at ::
    "tcmEntityInfo list \<Rightarrow> shm \<Rightarrow> nat \<Rightarrow> int \<Rightarrow> int \<Rightarrow> nat option \<Rightarrow> nat option \<Rightarrow> int \<Rightarrow> string option list
       \<Rightarrow> (bool \<times> shm) run" where
  "add_row_at tab m i a x pre behind irow_endnum val =
     (if hd val = None then Some (False, m)
      else case add_row_tail m (slot_after i pre) (GET_ROW_ID a x) of None \<Rightarrow> Some (False, m)
      | Some (r, m1) \<Rightarrow>
          add_row_paras tab (link_row m1 r behind) (Row_para r) a x 0 (nat (irow_endnum - 1)) val)"

definition config_api_add_table_row ::
    "tcmEntityInfo list \<Rightarrow> conf \<Rightarrow> int \<Rightarrow> int \<Rightarrow> string option list \<Rightarrow> (int \<times> conf) run" where
  "config_api_add_table_row tab c app_index row_index val =
     (case cache_addr c of None \<Rightarrow> Some (- 1, c)
      | Some m \<Rightarrow>
          if app_index_error app_index then Some (- 1, c)
          else if val = [] then None
          else if hd val = None then Some (- 1, c)
          else if check_library m \<noteq> 0 then Some (- 1, c)
          else with_lock c (\<lambda>c1. do {
            ai \<leftarrow> find_app m app_index;
            case ai of None \<Rightarrow> Some (- 1, c1)
            | Some i \<Rightarrow> do {
                t \<leftarrow> config_api_app_exist_table tab app_index;
                case t of None \<Rightarrow> Some (- 1, c1)
                | Some (irow_maxnum, irow_endnum) \<Rightarrow>
                    if row_index > irow_maxnum \<or> row_index < 0 then Some (- 1, c1)
                    else do {
                      pos \<leftarrow> (if row_index > 0
                             then do { p \<leftarrow> row_position m (GET_ROW_ID app_index row_index) None
                                            (app_row (apps m ! i));
                                       Some (map_option (\<lambda>pl. (row_index, pl)) p) }
                             else do { p \<leftarrow> free_position m app_index 1 None (app_row (apps m ! i));
                                       Some (Some p) });
                      case pos of None \<Rightarrow> Some (- 1, c1)
                      | Some (x, pre, behind) \<Rightarrow> do {
                          (ok, m') \<leftarrow> add_row_at tab m i app_index x pre behind irow_endnum val;
                          let c2 = c1\<lparr>cache_addr := Some m'\<rparr>;
                          Some (if ok
                            then (0, c2\<lparr>gRecordWriteID := record_write app_index (gRecordWriteID c2)\<rparr>)
                            else (- 1, c2)) } } } }))"

section \<open>Deleting a row\<close>

definition clear_para :: "shm \<Rightarrow> nat \<Rightarrow> shm" where
  "clear_para m j = m\<lparr>paras := (paras m)[j := (paras m ! j)\<lparr>para_id := - 1,
     para_name := (para_name (paras m ! j))[0 := NUL], para_val := (para_val (paras m ! j))[0 := NUL]\<rparr>]\<rparr>"

partial_function (option) clear_paras :: "shm \<Rightarrow> int \<Rightarrow> shm run" where
  "clear_paras m off =
     (if off = 0 then Some m
      else Option.bind (para_at m off) (\<lambda>j.
        if \<not> para_live m j then Some m
        else clear_paras (clear_para m j) (para_next (paras m ! j))))"

text \<open>
  \<open>NEXT\<close> of the row's \<open>next\<close> is compared with \<^verbatim>\<open>NULL\<close> and turned back into its offset, so an
  offset that is not 0 is stored as it is.
\<close>

definition delete_row_node :: "shm \<Rightarrow> nat \<Rightarrow> nat option \<Rightarrow> nat \<Rightarrow> shm run" where
  "delete_row_node m i prev r =
     (let next = row_next (rows m ! r) in
      do { m1 \<leftarrow> clear_paras m (row_para (rows m ! r));
           let m2 = m1\<lparr>rows := (rows m1)[r := \<lparr>row_id = - 1, row_para = 0, row_next = 0\<rparr>]\<rparr>;
           Some (set_row_slot m2 (slot_after i prev) next) })"

partial_function (option) delete_position ::
    "shm \<Rightarrow> int \<Rightarrow> nat option \<Rightarrow> int \<Rightarrow> (nat option \<times> nat) option run" where
  "delete_position m rid prev off =
     (if off = 0 then Some None
      else Option.bind (row_at m off) (\<lambda>r.
        if \<not> row_live m r then Some None
        else if row_id (rows m ! r) < rid then delete_position m rid (Some r) (row_next (rows m ! r))
        else if row_id (rows m ! r) > rid then Some None
        else Some (Some (prev, r))))"

definition config_api_delete_table_row :: "conf \<Rightarrow> int \<Rightarrow> int \<Rightarrow> (int \<times> conf) run" where
  "config_api_delete_table_row c app_index row_index =
     (case cache_addr c of None \<Rightarrow> Some (- 1, c)
      | Some m \<Rightarrow>
          if app_index_error app_index then Some (- 1, c)
          else if check_library m \<noteq> 0 then Some (- 1, c)
          else with_lock c (\<lambda>c1. do {
            ai \<leftarrow> find_app m app_index;
            case ai of None \<Rightarrow> Some (- 1, c1)
            | Some i \<Rightarrow> do {
                pos \<leftarrow> delete_position m (GET_ROW_ID app_index row_index) None (app_row (apps m ! i));
                case pos of None \<Rightarrow> Some (- 1, c1)
                | Some (prev, r) \<Rightarrow> do {
                    m' \<leftarrow> delete_row_node m i prev r;
                    Some (0, c1\<lparr>cache_addr := Some m',
                                gRecordWriteID := record_write app_index (gRecordWriteID c1)\<rparr>) } } }))"

end
