(* ===== verification/Conf_File.thy ===== *)
theory Conf_File
  imports Conf_Rows
begin

text \<open>
  The configuration file: building the memory from it (\<^verbatim>\<open>build_cache\<close>, \<^verbatim>\<open>init_node\<close>,
  \<^verbatim>\<open>build_para_table\<close>) and writing the memory back (\<^verbatim>\<open>config_api_write_to_flash\<close>).
\<close>

section \<open>Text\<close>

abbreviation NEWLINE :: char where
  "NEWLINE \<equiv> CHR 0x0A"

text \<open>
  \<open>fgets n s\<close>: at most \<open>n - 1\<close> characters up to and including a newline, and the rest of the
  stream; \<open>None\<close> is its \<^verbatim>\<open>NULL\<close> at the end of the file.
\<close>

fun take_line :: "nat \<Rightarrow> string \<Rightarrow> string \<times> string" where
  "take_line 0 s = ([], s)"
| "take_line (Suc n) [] = ([], [])"
| "take_line (Suc n) (c # s) =
     (if c = NEWLINE then ([c], s) else (c # fst (take_line n s), snd (take_line n s)))"

definition fgets :: "nat \<Rightarrow> string \<Rightarrow> (string \<times> string) option" where
  "fgets n s = (if s = [] then None else Some (take_line (n - 1) s))"

text \<open>\<open>strchr\<close>: what is before the first occurrence and what is behind it.\<close>

fun strchr :: "string \<Rightarrow> char \<Rightarrow> (string \<times> string) option" where
  "strchr [] c = None"
| "strchr (d # s) c = (if d = c then Some ([], s) else map_option (\<lambda>(b, r). (d # b, r)) (strchr s c))"

definition is_space :: "char \<Rightarrow> bool" where
  "is_space c \<longleftrightarrow> c \<in> {CHR '' '', CHR 0x09, CHR 0x0A, CHR 0x0B, CHR 0x0C, CHR 0x0D}"

definition is_digit :: "char \<Rightarrow> bool" where
  "is_digit c \<longleftrightarrow> 48 \<le> (of_char c :: nat) \<and> (of_char c :: nat) \<le> 57"

definition digits_val :: "string \<Rightarrow> int" where
  "digits_val ds = foldl (\<lambda>v c. 10 * v + (int (of_char c) - 48)) 0 ds"

text \<open>\<open>atoi\<close> has no defined result when the number does not fit into an \<^verbatim>\<open>int\<close>.\<close>

definition atoi :: "string \<Rightarrow> int run" where
  "atoi s =
     (let t = dropWhile is_space s;
          neg = (t \<noteq> [] \<and> hd t = CHR ''-'');
          u = (if t \<noteq> [] \<and> (hd t = CHR ''-'' \<or> hd t = CHR ''+'') then tl t else t);
          v = digits_val (takeWhile is_digit u);
          w = (if neg then - v else v)
      in if - 2147483648 \<le> w \<and> w < 2147483648 then Some w else None)"

section \<open>An empty memory\<close>

text \<open>
  \<open>build_cache\<close> creates and clears the segment, \<open>init_node\<close> makes every node free. The segment
  is as large as the three globals say.
\<close>

definition zero_para :: para_node where
  "zero_para = \<lparr>para_id = 0, para_name = replicate MAX_NAME_LEN NUL, para_val = replicate MAX_VALUE_LEN NUL,
     para_next = 0\<rparr>"

definition zero_row :: row_node where
  "zero_row = \<lparr>row_id = 0, row_para = 0, row_next = 0\<rparr>"

definition zero_app :: app_node where
  "zero_app = \<lparr>app_id = 0, app_name = replicate MAX_NAME_LEN NUL, app_para = 0, app_row = 0, app_next = 0\<rparr>"

definition MAGIC_NUM_1 :: UINT32 where "MAGIC_NUM_1 = 0xf0f0f0f0"
definition MAGIC_NUM_2 :: UINT32 where "MAGIC_NUM_2 = 0x0f0f0f0f"

definition build_cache :: "conf \<Rightarrow> shm" where
  "build_cache c = \<lparr>magic1 = MAGIC_NUM_1, apps = replicate (nat (gMaxAppNum c)) zero_app,
     rows = replicate (nat (gMaxTabNum c)) zero_row, paras = replicate (nat (gMaxParaNum c)) zero_para,
     magic2 = MAGIC_NUM_2\<rparr>"

definition init_app :: "shm \<Rightarrow> nat \<Rightarrow> app_node \<Rightarrow> app_node" where
  "init_app m i a = a\<lparr>app_id := - 1, app_name := (app_name a)[0 := NUL], app_para := 0, app_row := 0,
     app_next := (if i = length (apps m) - 1 then 0 else app_off m (Suc i))\<rparr>"

definition init_row :: "row_node \<Rightarrow> row_node" where
  "init_row r = r\<lparr>row_id := - 1, row_next := 0, row_para := 0\<rparr>"

definition init_para :: "para_node \<Rightarrow> para_node" where
  "init_para p = p\<lparr>para_id := - 1, para_name := (para_name p)[0 := NUL],
     para_val := (para_val p)[0 := NUL], para_next := 0\<rparr>"

definition init_node :: "shm \<Rightarrow> shm" where
  "init_node m = m\<lparr>apps := map (\<lambda>(i, a). init_app m i a) (zip [0..<length (apps m)] (apps m)),
     rows := map init_row (rows m), paras := map init_para (paras m)\<rparr>"

section \<open>Reading the file\<close>

text \<open>
  The variables of \<open>build_para_table\<close>: the memory, the next free node of each type (\<^verbatim>\<open>app\<close>,
  \<^verbatim>\<open>row\<close>, \<^verbatim>\<open>para\<close>), the current nodes and the counters. \<^verbatim>\<open>pre_app\<close> has no value before the
  first section of the file; a node behind the end of its array does not exist.
\<close>

record loader =
  mem :: shm
  napp :: nat
  nrow :: nat
  npara :: nat
  pre_app :: "nat option"
  pre_row :: "nat option"
  pre_para :: "nat option"
  parameter :: int
  row_num :: int

definition set_app :: "shm \<Rightarrow> nat \<Rightarrow> (app_node \<Rightarrow> app_node) \<Rightarrow> shm run" where
  "set_app m i f = (if i < length (apps m) then Some (m\<lparr>apps := (apps m)[i := f (apps m ! i)]\<rparr>) else None)"

definition set_row :: "shm \<Rightarrow> nat \<Rightarrow> (row_node \<Rightarrow> row_node) \<Rightarrow> shm run" where
  "set_row m r f = (if r < length (rows m) then Some (m\<lparr>rows := (rows m)[r := f (rows m ! r)]\<rparr>) else None)"

definition set_para :: "shm \<Rightarrow> nat \<Rightarrow> (para_node \<Rightarrow> para_node) \<Rightarrow> shm run" where
  "set_para m j f = (if j < length (paras m) then Some (m\<lparr>paras := (paras m)[j := f (paras m ! j)]\<rparr>) else None)"

text \<open>The three kinds of lines; \<open>Inl\<close> is the return with - 1.\<close>

definition app_line :: "tcmEntityInfo list \<Rightarrow> loader \<Rightarrow> string \<Rightarrow> (loader + loader) run" where
  "app_line tab l line =
     (case strchr line (CHR '']'') of None \<Rightarrow> Some (Inl l)
      | Some (before, _) \<Rightarrow> do {
          let i = napp l;
          _ \<leftarrow> (if i < length (apps (mem l)) then Some () else None);
          n \<leftarrow> strncpy (app_name (apps (mem l) ! i)) (tl before) (MAX_NAME_LEN - 1);
          m1 \<leftarrow> set_app (mem l) i (app_name_update (\<lambda>_. n));
          index \<leftarrow> config_api_get_app_id_by_name tab (cstr n);
          if index = - 1 then Some (Inl (l\<lparr>mem := m1\<rparr>))
          else do {
            m2 \<leftarrow> set_app m1 i (app_id_update (\<lambda>_. index));
            Some (Inr (l\<lparr>mem := m2, napp := Suc i, pre_app := Some i, row_num := 0, parameter := 1,
                        pre_para := None, pre_row := None\<rparr>)) } })"

definition row_line :: "loader \<Rightarrow> string \<Rightarrow> (loader + loader) run" where
  "row_line l behind =
     (case strchr behind (CHR ''>'') of None \<Rightarrow> Some (Inl l)
      | Some (num, _) \<Rightarrow> do {
          n \<leftarrow> atoi num;
          if n \<le> 0 then Some (Inl (l\<lparr>row_num := n\<rparr>))
          else do {
            i \<leftarrow> pre_app l;
            let r = nrow l;
            let rid = GET_ROW_ID (app_id (apps (mem l) ! i)) n;
            m1 \<leftarrow> set_row (mem l) r (row_id_update (\<lambda>_. rid));
            m2 \<leftarrow> (case pre_row l of
                     Some q \<Rightarrow> set_row m1 q (row_next_update (\<lambda>_. row_off m1 r))
                   | None \<Rightarrow> set_app m1 i (app_row_update (\<lambda>_. row_off m1 r)));
            m3 \<leftarrow> (case pre_para l of Some j \<Rightarrow> set_para m2 j (para_next_update (\<lambda>_. 0)) | None \<Rightarrow> Some m2);
            Some (Inr (l\<lparr>mem := m3, nrow := Suc r, pre_row := Some r, pre_para := None, parameter := 1,
                        row_num := n\<rparr>)) } })"

definition chop_newline :: "string \<Rightarrow> string" where
  "chop_newline v = (if v \<noteq> [] \<and> last v = NEWLINE then butlast v else v)"

definition para_line :: "loader \<Rightarrow> string \<Rightarrow> (loader + loader) run" where
  "para_line l line =
     (case strchr line (CHR ''='') of None \<Rightarrow> Some (Inl l)
      | Some (var, rest) \<Rightarrow> do {
          let val = chop_newline rest;
          i \<leftarrow> pre_app l;
          let j = npara l;
          let pid = GET_PARA_ID (app_id (apps (mem l) ! i)) (row_num l) (parameter l);
          _ \<leftarrow> (if j < length (paras (mem l)) then Some () else None);
          n \<leftarrow> strncpy (para_name (paras (mem l) ! j)) var (MAX_NAME_LEN - 1);
          v \<leftarrow> strncpy (para_val (paras (mem l) ! j)) val (MAX_VALUE_LEN - 1);
          m1 \<leftarrow> set_para (mem l) j (\<lambda>p. p\<lparr>para_id := pid, para_name := n, para_val := v\<rparr>);
          m2 \<leftarrow> (case pre_para l of
                   Some k \<Rightarrow> set_para m1 k (para_next_update (\<lambda>_. para_off m1 j))
                 | None \<Rightarrow> (case pre_row l of
                     Some r \<Rightarrow> set_row m1 r (row_para_update (\<lambda>_. para_off m1 j))
                   | None \<Rightarrow> set_app m1 i (app_para_update (\<lambda>_. para_off m1 j))));
          Some (Inr (l\<lparr>mem := m2, npara := Suc j, pre_para := Some j, parameter := parameter l + 1\<rparr>)) })"

definition conf_line :: "tcmEntityInfo list \<Rightarrow> loader \<Rightarrow> string \<Rightarrow> (loader + loader) run" where
  "conf_line tab l line =
     (if line \<noteq> [] \<and> hd line = CHR ''['' then app_line tab l line
      else case strchr line (CHR ''<'') of
             Some (_, behind) \<Rightarrow> (if strchr line (CHR ''='') = None then row_line l behind else para_line l line)
           | None \<Rightarrow> para_line l line)"

lemma take_line_length: "length (snd (take_line n s)) \<le> length s"
  by (induction n s rule: take_line.induct) auto

lemma take_line_shorter:
  assumes "s \<noteq> []" and "0 < n"
  shows "length (snd (take_line n s)) < length s"
proof -
  from assms obtain c t k where "s = c # t" "n = Suc k" by (metis gr0_implies_Suc neq_Nil_conv)
  then show ?thesis using take_line_length[of k t] by simp
qed

definition MAX_CONF_LINE :: nat where "MAX_CONF_LINE = 255"

function read_lines :: "tcmEntityInfo list \<Rightarrow> loader \<Rightarrow> string \<Rightarrow> (loader + loader) run" where
  "read_lines tab l s =
     (if s = [] then Some (Inr l)
      else do { r \<leftarrow> conf_line tab l (cstr (fst (take_line (MAX_CONF_LINE - 1) s)));
                case r of Inl l' \<Rightarrow> Some (Inl l')
                | Inr l' \<Rightarrow> read_lines tab l' (snd (take_line (MAX_CONF_LINE - 1) s)) })"
  by auto
termination
proof (relation "measure (\<lambda>(tab, l, s). length s)")
  fix tab :: "tcmEntityInfo list" and l :: loader and s :: string and r l'
  assume "s \<noteq> []"
  moreover have "0 < MAX_CONF_LINE - 1" by (simp add: MAX_CONF_LINE_def)
  ultimately show "((tab, l', snd (take_line (MAX_CONF_LINE - 1) s)), tab, l, s) \<in> measure (\<lambda>(tab, l, s). length s)"
    using take_line_shorter by simp
qed simp

declare read_lines.simps [simp del]

definition start_loader :: "shm \<Rightarrow> loader" where
  "start_loader m = \<lparr>mem = m, napp = 0, nrow = 0, npara = 0, pre_app = None, pre_row = None, pre_para = None,
     parameter = 1, row_num = 0\<rparr>"

definition build_para_table :: "tcmEntityInfo list \<Rightarrow> string \<Rightarrow> shm \<Rightarrow> (int \<times> shm) run" where
  "build_para_table tab fp m =
     do { r \<leftarrow> read_lines tab (start_loader m) fp;
          Some (case r of Inl l \<Rightarrow> (- 1, mem l) | Inr l \<Rightarrow> (0, mem l)) }"

section \<open>Writing the file\<close>

text \<open>Decimal output of a number that is not negative, as \<^verbatim>\<open>%d\<close> prints it.\<close>

fun show_nat :: "nat \<Rightarrow> string" where
  "show_nat n = (if n < 10 then [char_of (48 + n)] else show_nat (n div 10) @ [char_of (48 + n mod 10)])"

declare show_nat.simps [simp del]

definition para_text :: "shm \<Rightarrow> nat \<Rightarrow> string run" where
  "para_text m j =
     (let p = paras m ! j in
      if terminated (para_name p) \<and> terminated (para_val p)
      then Some (cstr (para_name p) @ ''='' @ cstr (para_val p) @ [NEWLINE]) else None)"

fun texts :: "(nat \<Rightarrow> string run) \<Rightarrow> nat list \<Rightarrow> string run" where
  "texts f [] = Some []"
| "texts f (j # js) = do { t \<leftarrow> f j; ts \<leftarrow> texts f js; Some (t @ ts) }"

definition list_text :: "shm \<Rightarrow> int \<Rightarrow> string run" where
  "list_text m off = do { js \<leftarrow> paras_from m off; texts (para_text m) js }"

definition row_text :: "shm \<Rightarrow> nat \<Rightarrow> string run" where
  "row_text m r =
     do { ps \<leftarrow> list_text m (row_para (rows m ! r));
          Some (''<'' @ show_nat (nat (take_bit 8 (drop_bit 8 (row_id (rows m ! r))))) @ ''>'' @ [NEWLINE] @ ps) }"

definition app_text :: "shm \<Rightarrow> nat \<Rightarrow> string run" where
  "app_text m i =
     (if terminated (app_name (apps m ! i))
      then do { ps \<leftarrow> list_text m (app_para (apps m ! i));
                rs \<leftarrow> walk_all (row_at m) (\<lambda>r. row_next (rows m ! r)) (row_live m) (app_row (apps m ! i));
                ts \<leftarrow> texts (row_text m) rs;
                Some (''['' @ cstr (app_name (apps m ! i)) @ '']'' @ [NEWLINE] @ ps @ ts) }
      else None)"

definition flash_text :: "shm \<Rightarrow> string run" where
  "flash_text m =
     do { is \<leftarrow> walk_all (app_at m) (\<lambda>i. app_next (apps m ! i)) (app_live m) (APP_START_NODE m);
          texts (app_text m) is }"

text \<open>\<open>opens\<close>: whether the parameter file can be opened for writing.\<close>

definition config_api_write_to_flash :: "bool \<Rightarrow> conf \<Rightarrow> (int \<times> conf) run" where
  "config_api_write_to_flash opens c =
     (case cache_addr c of None \<Rightarrow> Some (- 1, c)
      | Some m \<Rightarrow>
          if check_library m \<noteq> 0 then Some (- 1, c)
          else with_lock c (\<lambda>c1.
            if \<not> opens then Some (- 1, c1)
            else do { t \<leftarrow> flash_text m; Some (0, c1\<lparr>PARAMETER_FILE := Some t\<rparr>) }))"

text \<open>\<open>dump_para_table\<close> prints the same text on the standard output; here its result is what it prints.\<close>

definition dump_para_table :: "conf \<Rightarrow> string run" where
  "dump_para_table c =
     (case cache_addr c of None \<Rightarrow> Some []
      | Some m \<Rightarrow> if check_library m \<noteq> 0 then Some [] else flash_text m)"

end
