(* ===== verification/Conf_Init.thy ===== *)
theory Conf_Init
  imports Conf_File
begin

text \<open>
  The life cycle of the library: \<^verbatim>\<open>init_Param\<close>, \<^verbatim>\<open>init_library\<close>, the creation and removal of
  the semaphore, \<^verbatim>\<open>config_api_init_library\<close>, \<^verbatim>\<open>config_api_uninit_library\<close> and
  \<^verbatim>\<open>config_api_release_library\<close>. \<open>ipc\<close> says whether the kernel grants the calls that create a
  semaphore or attach a segment.
\<close>

section \<open>Sizes\<close>

text \<open>The loop over the entity table up to the entry \<open>ID_END\<close>, with its two sums.\<close>

fun param_totals :: "tcmEntityInfo list \<Rightarrow> int \<Rightarrow> int \<Rightarrow> (int \<times> int) run" where
  "param_totals [] tabs pars = None"
| "param_totals (i # is) tabs pars =
     (if eid i < ID_END
      then (let p1 = (if app_maxnum i > 1 then pars + (app_maxnum i - 1) else pars) in
            case row_paras i of None \<Rightarrow> param_totals is tabs p1
            | Some _ \<Rightarrow> param_totals is (tabs + row_maxnum i)
                 (if row_end i > 1 then p1 + (row_end i - 1) * row_maxnum i else p1))
      else Some (tabs, pars))"

definition init_Param :: "tcmEntityInfo list \<Rightarrow> conf \<Rightarrow> conf run" where
  "init_Param tab c =
     do { (tabs, pars) \<leftarrow> param_totals tab 0 0;
          Some (c\<lparr>gMaxAppNum := ID_END - 1, gMaxTabNum := tabs, gMaxParaNum := pars,
                  gMMAPSIZE := (ID_END - 1) * sizeof_app_node + tabs * sizeof_row_node + pars * sizeof_para_node
                    + 2 * sizeof_int,
                  gRecordWriteID := replicate (nat (ID_END - 1)) NUL\<rparr>) }"

section \<open>Loading\<close>

definition open_para_file :: "conf \<Rightarrow> string option" where
  "open_para_file c = (case PARAMETER_FILE c of Some f \<Rightarrow> Some f | None \<Rightarrow> DEFAULT_FILE c)"

definition init_library :: "bool \<Rightarrow> tcmEntityInfo list \<Rightarrow> conf \<Rightarrow> (int \<times> conf) run" where
  "init_library ipc tab c =
     (case open_para_file c of None \<Rightarrow> Some (- 1, c)
      | Some fp \<Rightarrow>
          if \<not> ipc then Some (- 1, c)
          else do {
            (r, m) \<leftarrow> build_para_table tab fp (init_node (build_cache c));
            let c1 = c\<lparr>shm_key := True\<rparr>;
            Some (if r < 0 then (- 1, c1) else (0, c1\<lparr>cache_addr := Some m\<rparr>)) })"

section \<open>The semaphore\<close>

definition init_cache_lock :: "bool \<Rightarrow> conf \<Rightarrow> int \<times> conf" where
  "init_cache_lock ipc c =
     (case semv c of Some _ \<Rightarrow> (0, c)
      | None \<Rightarrow> if ipc then (0, c\<lparr>semv := Some 1\<rparr>) else (- 1, c))"

definition uninit_cache_lock :: "conf \<Rightarrow> int \<times> conf" where
  "uninit_cache_lock c = (if get_sem_id c = - 1 then (- 1, c) else (0, c\<lparr>semv := None\<rparr>))"

section \<open>Initialisation and release\<close>

definition config_api_init_library :: "bool \<Rightarrow> tcmEntityInfo list \<Rightarrow> conf \<Rightarrow> (int \<times> conf) run" where
  "config_api_init_library ipc tab c0 =
     (let (ret, c1) = init_cache_lock ipc c0 in
      if ret < 0 then Some (- 1, c1)
      else if get_sem_id c1 < 0 then Some (- 1, c1)
      else do {
        (l, c2) \<leftarrow> lock_cache c1;
        if l < 0 then Some (- 1, snd (uninit_cache_lock c2))
        else if cache_addr c2 \<noteq> None
        then Some (0, snd (uninit_cache_lock (snd (unlock_cache c2))))
        else do {
          c3 \<leftarrow> init_Param tab c2;
          let first = \<not> shm_key c3;
          (b, c4) \<leftarrow> init_library ipc tab c3;
          let c5 = snd (unlock_cache c4);
          Some (if first then (b, snd (uninit_cache_lock c5))
                else if b < 0 then (b, snd (uninit_cache_lock c5))
                else (case cache_addr c4 of
                        Some m \<Rightarrow> if check_library m \<noteq> 0 then (- 1, snd (uninit_cache_lock c5)) else (0, c5)
                      | None \<Rightarrow> (0, c5))) } })"

definition config_api_uninit_library :: "conf \<Rightarrow> conf" where
  "config_api_uninit_library c = snd (uninit_cache_lock (c\<lparr>cache_addr := None\<rparr>))"

definition config_api_release_library :: "conf \<Rightarrow> int \<times> conf" where
  "config_api_release_library c =
     (if \<not> shm_key c then (- 1, c)
      else let c1 = c\<lparr>shm_key := False\<rparr> in
        if semv c1 = None then (- 1, c1) else (0, c1\<lparr>semv := None\<rparr>))"

end
