(* ===== verification/Conf_Tree.thy ===== *)
theory Conf_Tree
  imports Conf_Rows
begin

text \<open>
  How the tree changes when one row of one application changes: a memory that agrees with the
  old one away from that row represents the tree with that row replaced, added or removed.
\<close>

section \<open>Chains\<close>

lemma path_same:
  assumes "path deref nxt live off is z" and "\<And>n. n \<in> set is \<Longrightarrow> nxt' n = nxt n \<and> live' n = live n"
  shows "path deref nxt' live' off is z"
  using assms by (induction "is" arbitrary: off) auto

text \<open>Inserting a node into a chain and unlinking one.\<close>

lemma path_insert:
  assumes p: "path deref nxt live off is y" and c: "chain deref nxt live y js"
    and dist: "distinct (is @ js)"
    and k: "nxt' k = y" "live' k" "deref z = Some k" "z \<noteq> 0"
    and live: "\<And>n. n \<in> set is \<union> set js \<Longrightarrow> live' n = live n"
    and nxt: "\<And>n. n \<in> set (butlast is) \<union> set js \<Longrightarrow> nxt' n = nxt n"
    and l: "is \<noteq> [] \<Longrightarrow> nxt' (last is) = z"
  shows "chain deref nxt' live' (if is = [] then z else off) (is @ k # js)"
proof -
  have "chain deref nxt' live' y js"
    by (rule path_same[OF c]) (simp add: nxt live)
  then have c': "chain deref nxt' live' z (k # js)" using k by simp
  show ?thesis
  proof (cases "is" rule: rev_cases)
    case Nil
    with c' show ?thesis by simp
  next
    case (snoc is0 n)
    with p obtain w where w: "path deref nxt live off is0 w" "w \<noteq> 0" "deref w = Some n" "live n"
      by (auto simp: path_snoc)
    have "path deref nxt' live' off is0 w"
      by (rule path_same[OF w(1)]) (use snoc in \<open>simp add: nxt live\<close>)
    with w snoc l live[of n] c' show ?thesis by (auto simp: path_append)
  qed
qed

lemma path_remove:
  assumes c: "chain deref nxt live off (is @ k # js)"
    and live: "\<And>n. n \<in> set is \<union> set js \<Longrightarrow> live' n = live n"
    and nxt: "\<And>n. n \<in> set (butlast is) \<union> set js \<Longrightarrow> nxt' n = nxt n"
    and l: "is \<noteq> [] \<Longrightarrow> nxt' (last is) = nxt k"
  shows "chain deref nxt' live' (if is = [] then nxt k else off) (is @ js)"
proof -
  from c obtain w where w: "path deref nxt live off is w" "chain deref nxt live w (k # js)"
    by (auto simp: path_append)
  then have "chain deref nxt live (nxt k) js" by simp
  then have c': "chain deref nxt' live' (nxt k) js" by (rule path_same) (simp add: nxt live)
  show ?thesis
  proof (cases "is" rule: rev_cases)
    case Nil
    with c' show ?thesis by simp
  next
    case (snoc is0 n)
    with w obtain u where u: "path deref nxt live off is0 u" "u \<noteq> 0" "deref u = Some n" "live n"
      by (auto simp: path_snoc)
    have "path deref nxt' live' off is0 u"
      by (rule path_same[OF u(1)]) (use snoc in \<open>simp add: nxt live\<close>)
    with u snoc l live[of n] c' show ?thesis by (auto simp: path_append)
  qed
qed

section \<open>The nodes of a tree\<close>

lemma tree_rows_simps [simp]:
  "tree_rows [] = []" "tree_rows (t # T) = map fst (snd t) @ tree_rows T"
  "tree_rows (T1 @ T2) = tree_rows T1 @ tree_rows T2"
  by (simp_all add: tree_rows_def case_prod_unfold)

lemma tree_paras_simps [simp]:
  "tree_paras [] = []" "tree_paras (t # T) = fst t @ concat (map snd (snd t)) @ tree_paras T"
  "tree_paras (T1 @ T2) = tree_paras T1 @ tree_paras T2"
  by (simp_all add: tree_paras_def case_prod_unfold)

lemma ex_nth: "(\<exists>t \<in> set T. P t) \<longleftrightarrow> (\<exists>i < length T. P (T ! i))"
  by (metis in_set_conv_nth)

lemma in_tree_rows: "r \<in> set (tree_rows T) \<longleftrightarrow> (\<exists>i < length T. r \<in> fst ` set (snd (T ! i)))"
proof -
  have "r \<in> set (tree_rows T) \<longleftrightarrow> (\<exists>t \<in> set T. r \<in> fst ` set (snd t))"
    by (induction T) auto
  then show ?thesis by (simp only: ex_nth)
qed

lemma in_tree_paras:
  "j \<in> set (tree_paras T) \<longleftrightarrow>
     (\<exists>i < length T. j \<in> set (fst (T ! i)) \<or> (\<exists>(r, ks) \<in> set (snd (T ! i)). j \<in> set ks))"
proof -
  have "j \<in> set (tree_paras T) \<longleftrightarrow>
     (\<exists>t \<in> set T. j \<in> set (fst t) \<or> (\<exists>(r, ks) \<in> set (snd t). j \<in> set ks))"
    by (induction T) (auto simp: case_prod_unfold)
  then show ?thesis by (simp only: ex_nth)
qed

lemma tree_rows_live:
  assumes "represents m T" and "r \<in> set (tree_rows T)"
  shows "row_live m r" and "r < length (rows m)"
proof -
  from assms(2) obtain i where i: "i < length T" "r \<in> set (map fst (snd (T ! i)))"
    by (auto simp: in_tree_rows)
  note ch = represents_app(3)[OF assms(1) i(1)]
  show "row_live m r" using path_live[OF ch i(2)] .
  show "r < length (rows m)" using path_deref[OF ch i(2)] by (auto dest: at_Some)
qed

lemma tree_paras_live:
  assumes "represents m T" and "j \<in> set (tree_paras T)"
  shows "para_live m j" and "j < length (paras m)"
proof -
  from assms obtain off ks where ch: "pchain m off ks" "j \<in> set ks"
    by (fastforce simp: in_tree_paras dest: represents_app(2,4))
  show "para_live m j" using path_live[OF ch] .
  show "j < length (paras m)" using path_deref[OF ch] by (auto dest: at_Some)
qed

section \<open>Changing one row\<close>

definition same_shape :: "shm \<Rightarrow> shm \<Rightarrow> bool" where
  "same_shape m m' \<longleftrightarrow> length (apps m') = length (apps m) \<and> length (rows m') = length (rows m) \<and>
     length (paras m') = length (paras m)"

lemma same_shape_at:
  assumes "same_shape m m'"
  shows "app_at m' = app_at m" "row_at m' = row_at m" "para_at m' = para_at m"
    "app_off m' = app_off m" "row_off m' = row_off m" "para_off m' = para_off m"
  using assms
  by (simp_all add: same_shape_def fun_eq_iff app_at_def row_at_def para_at_def app_off_def row_off_def
      para_off_def APP_START_NODE_def ROW_START_NODE_def PARA_START_NODE_def)

definition other_rows :: "tree \<Rightarrow> (nat \<times> plist) list \<Rightarrow> (nat \<times> plist) list \<Rightarrow> tree \<Rightarrow> nat set" where
  "other_rows T1 L R T2 = set (tree_rows T1) \<union> fst ` set L \<union> fst ` set R \<union> set (tree_rows T2)"

definition other_paras :: "tree \<Rightarrow> plist \<Rightarrow> (nat \<times> plist) list \<Rightarrow> (nat \<times> plist) list \<Rightarrow> tree \<Rightarrow> nat set" where
  "other_paras T1 ps L R T2 = set (tree_paras T1) \<union> set ps \<union> (\<Union>(r, ks) \<in> set L \<union> set R. set ks)
     \<union> set (tree_paras T2)"

lemma other_row:
  assumes "(r, ks) \<in> set L \<union> set R"
  shows "r \<in> other_rows T1 L R T2" and "j \<in> set ks \<Longrightarrow> j \<in> other_paras T1 ps L R T2"
proof -
  from assms have "r \<in> fst ` set L \<union> fst ` set R" by (metis UnE UnI1 UnI2 fst_conv image_eqI)
  then show "r \<in> other_rows T1 L R T2" by (auto simp: other_rows_def)
  assume "j \<in> set ks"
  with assms show "j \<in> other_paras T1 ps L R T2" unfolding other_paras_def by blast
qed

definition row_frame ::
    "shm \<Rightarrow> shm \<Rightarrow> tree \<Rightarrow> plist \<Rightarrow> (nat \<times> plist) list \<Rightarrow> (nat \<times> plist) list \<Rightarrow> tree \<Rightarrow> bool" where
  "row_frame m m' T1 ps L R T2 \<longleftrightarrow> same_shape m m' \<and>
     (\<forall>i. i \<noteq> length T1 \<longrightarrow> apps m' ! i = apps m ! i) \<and>
     (\<exists>z. apps m' ! length T1 = (apps m ! length T1)\<lparr>app_row := z\<rparr>) \<and>
     (\<forall>r \<in> other_rows T1 L R T2. row_id (rows m' ! r) = row_id (rows m ! r) \<and>
        row_para (rows m' ! r) = row_para (rows m ! r)) \<and>
     (\<forall>r \<in> set (tree_rows T1) \<union> set (tree_rows T2). row_next (rows m' ! r) = row_next (rows m ! r)) \<and>
     (\<forall>j \<in> other_paras T1 ps L R T2. paras m' ! j = paras m ! j)"

lemma row_frameD:
  assumes "row_frame m m' T1 ps L R T2"
  shows "same_shape m m'" "i \<noteq> length T1 \<Longrightarrow> apps m' ! i = apps m ! i"
    "app_id (apps m' ! i) = app_id (apps m ! i)" "app_next (apps m' ! i) = app_next (apps m ! i)"
    "app_para (apps m' ! i) = app_para (apps m ! i)" "app_name (apps m' ! i) = app_name (apps m ! i)"
    "r \<in> other_rows T1 L R T2 \<Longrightarrow> row_id (rows m' ! r) = row_id (rows m ! r)"
    "r \<in> other_rows T1 L R T2 \<Longrightarrow> row_para (rows m' ! r) = row_para (rows m ! r)"
    "r \<in> set (tree_rows T1) \<union> set (tree_rows T2) \<Longrightarrow> row_next (rows m' ! r) = row_next (rows m ! r)"
    "j \<in> other_paras T1 ps L R T2 \<Longrightarrow> paras m' ! j = paras m ! j"
  using assms unfolding row_frame_def by (cases "i = length T1"; auto)+

lemma pchain_frame:
  assumes "pchain m off ks" and "same_shape m m'" and "\<And>j. j \<in> set ks \<Longrightarrow> paras m' ! j = paras m ! j"
  shows "pchain m' off ks"
  unfolding same_shape_at[OF assms(2)] by (rule path_same[OF assms(1)]) (simp add: assms(3))

lemma rchain_frame:
  assumes "rchain m off rs" and "same_shape m m'"
    and "\<And>r. r \<in> set rs \<Longrightarrow> row_id (rows m' ! r) = row_id (rows m ! r) \<and> row_next (rows m' ! r) = row_next (rows m ! r)"
  shows "rchain m' off rs"
  unfolding same_shape_at[OF assms(2)] by (rule path_same[OF assms(1)]) (simp add: assms(3))

lemma nth_split:
  assumes "i \<noteq> length T1"
  shows "(T1 @ t # T2) ! i = (T1 @ t' # T2) ! i"
    and "i < length (T1 @ t # T2) \<Longrightarrow> (T1 @ t # T2) ! i \<in> set T1 \<union> set T2"
proof -
  show "(T1 @ t # T2) ! i = (T1 @ t' # T2) ! i"
    using assms by (simp add: nth_append nth_Cons')
  assume "i < length (T1 @ t # T2)"
  with assms show "(T1 @ t # T2) ! i \<in> set T1 \<union> set T2"
    by (auto simp: nth_append nth_Cons')
qed


lemma tree_rows_member: "u \<in> set T \<Longrightarrow> fst ` set (snd u) \<subseteq> set (tree_rows T)"
  by (induction T) auto

lemma tree_paras_member:
  "u \<in> set T \<Longrightarrow> set (fst u) \<subseteq> set (tree_paras T)"
  "u \<in> set T \<Longrightarrow> (r, ks) \<in> set (snd u) \<Longrightarrow> set ks \<subseteq> set (tree_paras T)"
  by (induction T) (auto simp: case_prod_unfold)

lemma other_app:
  assumes F: "row_frame m m' T1 ps L R T2" and i: "i \<noteq> length T1" "i < length (T1 @ t # T2)"
    and repr: "app_repr m (apps m ! i) ((T1 @ t # T2) ! i)"
  shows "app_repr m' (apps m' ! i) ((T1 @ t' # T2) ! i)"
proof -
  define u where "u = (T1 @ t # T2) ! i"
  from nth_split(2)[OF i] have u: "u \<in> set T1 \<union> set T2" by (simp add: u_def)
  have sub1: "fst ` set (snd u) \<subseteq> set (tree_rows T1) \<union> set (tree_rows T2)"
    using u tree_rows_member[of u T1] tree_rows_member[of u T2] by auto
  have op: "set (tree_paras T1) \<subseteq> other_paras T1 ps L R T2" "set (tree_paras T2) \<subseteq> other_paras T1 ps L R T2"
    by (auto simp: other_paras_def)
  have sub2: "set (fst u) \<subseteq> other_paras T1 ps L R T2"
    using u op tree_paras_member(1) by (meson UnE subset_trans)
  have sub3: "\<And>r ks. (r, ks) \<in> set (snd u) \<Longrightarrow> set ks \<subseteq> other_paras T1 ps L R T2"
    using u op tree_paras_member(2) by (meson UnE subset_trans)
  note sub = sub1 sub2 sub3
  from sub1 have rsub: "\<And>r ks. (r, ks) \<in> set (snd u) \<Longrightarrow> r \<in> other_rows T1 L R T2"
    by (force simp: other_rows_def)
  note F' = row_frameD[OF F]
  have "pchain m' (app_para (apps m ! i)) (fst u)"
    using repr sub(2) F'(10) by (intro pchain_frame[OF _ F'(1)]) (auto simp: app_repr_def u_def)
  moreover have "rchain m' (app_row (apps m ! i)) (map fst (snd u))"
  proof (rule rchain_frame[OF _ F'(1)])
    show "rchain m (app_row (apps m ! i)) (map fst (snd u))"
      using repr by (simp add: app_repr_def u_def)
    fix r assume "r \<in> set (map fst (snd u))"
    then have "r \<in> other_rows T1 L R T2" "r \<in> set (tree_rows T1) \<union> set (tree_rows T2)"
      using rsub sub(1) by fastforce+
    with F'(7,9) show "row_id (rows m' ! r) = row_id (rows m ! r) \<and> row_next (rows m' ! r) = row_next (rows m ! r)"
      by simp
  qed
  moreover have "pchain m' (row_para (rows m' ! r)) ks" if "(r, ks) \<in> set (snd u)" for r ks
  proof -
    have "pchain m (row_para (rows m ! r)) ks" using repr that by (auto simp: app_repr_def u_def)
    then show ?thesis
      unfolding F'(8)[OF rsub[OF that]] using sub(3)[OF that] F'(10) by (intro pchain_frame[OF _ F'(1)]) auto
  qed
  ultimately show ?thesis
    using F'(2)[OF i(1)] nth_split(1)[OF i(1), of t T2 t'] by (auto simp: app_repr_def u_def)
qed

text \<open>
  The row of one application that changes is \<open>M\<close> before and \<open>M'\<close> after (at most one row each).
\<close>

lemma represents_row:
  assumes R: "represents m (T1 @ (ps, L @ M @ R) # T2)"
    and F: "row_frame m m' T1 ps L R T2"
    and rch: "rchain m' (app_row (apps m' ! length T1)) (map fst (L @ M' @ R))"
    and pch: "\<And>r ks. (r, ks) \<in> set M' \<Longrightarrow> pchain m' (row_para (rows m' ! r)) ks"
    and drows: "distinct (map fst M')" "fst ` set M' \<inter> other_rows T1 L R T2 = {}"
    and dparas: "distinct (concat (map snd M'))"
      "set (concat (map snd M')) \<inter> other_paras T1 ps L R T2 = {}"
    and bufs: "bufs_ok m'"
  shows "represents m' (T1 @ (ps, L @ M' @ R) # T2)" (is "represents m' ?T'")
  unfolding represents_def
proof (intro conjI allI impI)
  note F' = row_frameD[OF F]
  have len: "length (T1 @ (ps, L @ M @ R) # T2) = length ?T'" by simp
  have apps: "apps_ok m (length ?T')" using R len by (simp add: represents_def)
  then show "apps_ok m' (length ?T')"
    using F' same_shape_at[OF F'(1)] F'(1) by (simp add: apps_ok_def same_shape_def)
  show "bufs_ok m'" by (rule bufs)
  show "distinct (tree_rows ?T')"
    using R drows by (auto simp: represents_def other_rows_def)
  show "distinct (tree_paras ?T')"
    using R dparas by (auto simp: represents_def other_paras_def case_prod_unfold)
  fix i assume i: "i < length ?T'"
  have repr: "app_repr m (apps m ! i) ((T1 @ (ps, L @ M @ R) # T2) ! i)"
    using R i len by (simp add: represents_def)
  show "app_repr m' (apps m' ! i) (?T' ! i)"
  proof (cases "i = length T1")
    case False
    with other_app[OF F False _ repr] i len show ?thesis by simp
  next
    case True
    have old: "pchain m (app_para (apps m ! i)) ps"
      "\<And>r ks. (r, ks) \<in> set L \<union> set R \<Longrightarrow> pchain m (row_para (rows m ! r)) ks"
      using repr True by (auto simp: app_repr_def)
    have "pchain m' (app_para (apps m' ! i)) ps"
      unfolding F'(5) using F'(10) by (intro pchain_frame[OF old(1) F'(1)]) (auto simp: other_paras_def)
    moreover have "pchain m' (row_para (rows m' ! r)) ks" if "(r, ks) \<in> set L \<union> set R" for r ks
    proof -
      note o = other_row[OF that]
      show ?thesis
        unfolding F'(8)[OF o(1)] by (rule pchain_frame[OF old(2)[OF that] F'(1)]) (rule F'(10)[OF o(2)])
    qed
    ultimately show ?thesis using True rch pch by (auto simp: app_repr_def)
  qed
qed


lemma plist_numbered_frame:
  assumes "plist_numbered m a x ks" and "\<And>j. j \<in> set ks \<Longrightarrow> paras m' ! j = paras m ! j"
  shows "plist_numbered m' a x ks"
  using assms by (simp add: plist_numbered_def)

text \<open>What \<open>app_numbered\<close> asks of one row.\<close>

definition row_numbered :: "shm \<Rightarrow> int \<Rightarrow> nat \<times> plist \<Rightarrow> bool" where
  "row_numbered m a = (\<lambda>(r, ks). 1 \<le> row_number m a r \<and> row_number m a r < 256 \<and>
     row_id (rows m ! r) = GET_ROW_ID a (row_number m a r) \<and> plist_numbered m a (row_number m a r) ks)"

lemma app_numbered_rows:
  "app_numbered m a t \<longleftrightarrow> plist_numbered m a 0 (fst t) \<and> (\<forall>e \<in> set (snd t). row_numbered m a e) \<and>
     sorted_wrt (<) (map (\<lambda>e. row_id (rows m ! fst e)) (snd t))"
  unfolding app_numbered_def row_numbered_def Let_def case_prod_unfold by blast

lemma row_numbered_frame:
  assumes "row_numbered m a (r, ks)" and "row_id (rows m' ! r) = row_id (rows m ! r)"
    and "\<And>j. j \<in> set ks \<Longrightarrow> paras m' ! j = paras m ! j"
  shows "row_numbered m' a (r, ks)"
  using assms plist_numbered_frame[of m a _ ks m'] by (auto simp: row_numbered_def row_number_def)

lemma app_numbered_frame:
  assumes "app_numbered m a u"
    and "\<And>r. r \<in> fst ` set (snd u) \<Longrightarrow> row_id (rows m' ! r) = row_id (rows m ! r)"
    and "\<And>j. j \<in> set (fst u) \<Longrightarrow> paras m' ! j = paras m ! j"
    and "\<And>r ks j. (r, ks) \<in> set (snd u) \<Longrightarrow> j \<in> set ks \<Longrightarrow> paras m' ! j = paras m ! j"
  shows "app_numbered m' a u"
proof -
  have ids: "map (\<lambda>e. row_id (rows m' ! fst e)) (snd u) = map (\<lambda>e. row_id (rows m ! fst e)) (snd u)"
    using assms(2) by simp
  have "row_numbered m' a e" if "e \<in> set (snd u)" for e
  proof (cases e)
    case (Pair r ks)
    with that have r: "(r, ks) \<in> set (snd u)" by simp
    then have id: "row_id (rows m' ! r) = row_id (rows m ! r)" by (intro assms(2)) force
    have "row_numbered m a (r, ks)" using assms(1) r by (auto simp: app_numbered_rows)
    from row_numbered_frame[OF this id assms(4)[OF r]] show ?thesis by (simp add: Pair)
  qed
  moreover have "plist_numbered m' a 0 (fst u)"
    using assms(1) by (intro plist_numbered_frame[OF _ assms(3)]) (simp_all add: app_numbered_rows)
  ultimately show ?thesis
    using assms(1) unfolding app_numbered_rows ids by blast
qed

lemma numbered_row:
  assumes N: "numbered m (T1 @ (ps, L @ M @ R) # T2)"
    and k: "length (T1 @ (ps, L @ M @ R) # T2) \<le> length (apps m)"
    and F: "row_frame m m' T1 ps L R T2"
    and a: "app_id (apps m ! length T1) = a"
    and new: "\<And>e. e \<in> set M' \<Longrightarrow> row_numbered m' a e"
    and sorted: "sorted_wrt (<) (map (\<lambda>e. row_id (rows m' ! fst e)) (L @ M' @ R))"
  shows "numbered m' (T1 @ (ps, L @ M' @ R) # T2)" (is "numbered m' ?T'")
proof -
  note F' = row_frameD[OF F]
  let ?T = "T1 @ (ps, L @ M @ R) # T2"
  have len: "length ?T = length ?T'" by simp
  have ids: "map app_id (take (length ?T') (apps m')) = map app_id (take (length ?T) (apps m))"
    using F' by (intro nth_equalityI) (auto simp: same_shape_def)
  have "app_numbered m' (app_id (apps m' ! i)) (?T' ! i)" if i: "i < length ?T'" for i
  proof -
    have old: "app_numbered m (app_id (apps m ! i)) (?T ! i)"
      using N i len by (simp add: numbered_def)
    show ?thesis
    proof (cases "i = length T1")
      case False
      define u where "u = ?T ! i"
      have u: "u \<in> set T1 \<union> set T2" unfolding u_def using nth_split(2)[OF False] i len by simp
      have "app_numbered m' (app_id (apps m ! i)) u"
      proof (rule app_numbered_frame)
        show "app_numbered m (app_id (apps m ! i)) u" using old by (simp add: u_def)
        show "row_id (rows m' ! r) = row_id (rows m ! r)" if "r \<in> fst ` set (snd u)" for r
          using u that tree_rows_member by (intro F'(7)) (fastforce simp: other_rows_def)
        show "paras m' ! j = paras m ! j" if "j \<in> set (fst u)" for j
          using u that tree_paras_member(1) by (intro F'(10)) (fastforce simp: other_paras_def)
        show "paras m' ! j = paras m ! j" if "(r, ks) \<in> set (snd u)" "j \<in> set ks" for r ks j
          using u that(2) tree_paras_member(2)[OF _ that(1)] by (intro F'(10)) (fastforce simp: other_paras_def)
      qed
      then show ?thesis using nth_split(1)[OF False] F'(3) u_def by metis
    next
      case True
      have rown: "row_numbered m' a e" if "e \<in> set L \<union> set R" for e
      proof (cases e)
        case (Pair r ks)
        with that have r: "(r, ks) \<in> set L \<union> set R" by simp
        note o = other_row[OF r]
        have "row_numbered m a (r, ks)" using old True a r by (auto simp: app_numbered_rows)
        from row_numbered_frame[OF this F'(7)[OF o(1)] F'(10)[OF o(2)]] show ?thesis by (simp add: Pair)
      qed
      have "plist_numbered m' a 0 ps"
        by (rule plist_numbered_frame[of m])
          (use old True a F'(10) in \<open>simp_all add: app_numbered_rows other_paras_def\<close>)
      moreover have "\<forall>e \<in> set (L @ M' @ R). row_numbered m' a e" using rown new by auto
      moreover have "?T' ! i = (ps, L @ M' @ R)" "app_id (apps m' ! i) = a" using True a F'(3) by simp_all
      ultimately show ?thesis using sorted by (simp add: app_numbered_rows)
    qed
  qed
  then show ?thesis using N F'(3) len unfolding numbered_def ids by simp
qed

text \<open>The lists of the new tree: those of the other rows as before, and those of \<open>M'\<close>.\<close>

abbreviation row_list :: "shm \<Rightarrow> int \<Rightarrow> nat \<times> plist \<Rightarrow> (int \<times> int) \<times> plist" where
  "row_list m a \<equiv> \<lambda>(r, ks). ((a, row_number m a r), ks)"

definition lists_before :: "shm \<Rightarrow> tree \<Rightarrow> plist \<Rightarrow> (nat \<times> plist) list \<Rightarrow> ((int \<times> int) \<times> plist) list" where
  "lists_before m T1 ps L =
     concat (map (\<lambda>i. app_lists m i (T1 ! i)) [0..<length T1]) @
     ((app_id (apps m ! length T1), 0), ps) # map (row_list m (app_id (apps m ! length T1))) L"

definition lists_behind :: "shm \<Rightarrow> tree \<Rightarrow> (nat \<times> plist) list \<Rightarrow> tree \<Rightarrow> ((int \<times> int) \<times> plist) list" where
  "lists_behind m T1 R T2 =
     map (row_list m (app_id (apps m ! length T1))) R @
     concat (map (\<lambda>i. app_lists m (Suc (length T1 + i)) (T2 ! i)) [0..<length T2])"

lemma tree_lists_split:
  "tree_lists m (T1 @ (ps, L @ M @ R) # T2) =
     lists_before m T1 ps L @ map (row_list m (app_id (apps m ! length T1))) M @ lists_behind m T1 R T2"
proof -
  let ?n = "length T1" and ?T = "T1 @ (ps, L @ M @ R) # T2"
  have "[0..<length ?T] = [0..<?n] @ [?n..<?n + Suc (length T2)]"
    using upt_add_eq_append[of 0 ?n "Suc (length T2)"] by simp
  also have "[?n..<?n + Suc (length T2)] = ?n # map (\<lambda>i. i + Suc ?n) [0..<length T2]"
    using map_add_upt[of "Suc ?n" "length T2"] by (simp add: upt_conv_Cons add.commute del: upt_Suc)
  finally have upt: "[0..<length ?T] = [0..<?n] @ ?n # map (\<lambda>i. i + Suc ?n) [0..<length T2]" .
  have "concat (map (\<lambda>i. app_lists m i (?T ! i)) [0..<?n]) = concat (map (\<lambda>i. app_lists m i (T1 ! i)) [0..<?n])"
    by (rule arg_cong[where f = concat]) (simp add: nth_append)
  moreover have "?T ! (i + Suc ?n) = T2 ! i" for i by (simp add: nth_append)
  ultimately show ?thesis
    unfolding tree_lists_def upt
    by (simp add: lists_before_def lists_behind_def app_lists_def Let_def comp_def add.commute)
qed

lemma app_lists_frame:
  assumes "app_id (apps m' ! i) = app_id (apps m ! i)"
    and "\<And>r. r \<in> fst ` set (snd t) \<Longrightarrow> row_id (rows m' ! r) = row_id (rows m ! r)"
  shows "app_lists m' i t = app_lists m i t"
proof -
  have "row_id (rows m' ! r) = row_id (rows m ! r)" if "(r, ks) \<in> set (snd t)" for r ks
    using that by (intro assms(2)) force
  then show ?thesis using assms(1) by (auto simp: app_lists_def row_number_def Let_def)
qed

lemma lists_frame:
  assumes "row_frame m m' T1 ps L R T2"
  shows "lists_before m' T1 ps L = lists_before m T1 ps L" "lists_behind m' T1 R T2 = lists_behind m T1 R T2"
proof -
  note F' = row_frameD[OF assms]
  have 1: "app_lists m' i (T1 ! i) = app_lists m i (T1 ! i)" if "i < length T1" for i
    using tree_rows_member[OF nth_mem[OF that]]
    by (intro app_lists_frame F'(3) F'(7)) (auto simp: other_rows_def)
  have 2: "app_lists m' k (T2 ! i) = app_lists m k (T2 ! i)" if "i < length T2" for i k
    using tree_rows_member[OF nth_mem[OF that]]
    by (intro app_lists_frame F'(3) F'(7)) (auto simp: other_rows_def)
  have 3: "row_list m' b e = row_list m b e" if "e \<in> set L \<union> set R" for b e
    using F'(7)[OF other_row(1)[of "fst e" "snd e" L R T1 T2]] that
    by (simp add: row_number_def case_prod_unfold)
  have "map (row_list m' b) L = map (row_list m b) L" "map (row_list m' b) R = map (row_list m b) R" for b
    using 3 by (auto intro!: map_cong simp del: map_eq_conv)
  moreover have "map (\<lambda>i. app_lists m' i (T1 ! i)) [0..<length T1] = map (\<lambda>i. app_lists m i (T1 ! i)) [0..<length T1]"
    "map (\<lambda>i. app_lists m' (Suc (length T1 + i)) (T2 ! i)) [0..<length T2]
      = map (\<lambda>i. app_lists m (Suc (length T1 + i)) (T2 ! i)) [0..<length T2]"
    using 1 2 by simp_all
  ultimately show "lists_before m' T1 ps L = lists_before m T1 ps L"
    "lists_behind m' T1 R T2 = lists_behind m T1 R T2"
    unfolding lists_before_def lists_behind_def F'(3) by (simp_all only:)
qed

text \<open>What a caller sees: the new rows, and the entries of all other rows unchanged.\<close>

lemma other_lists_paras:
  assumes "((k, js) \<in> set (lists_before m T1 ps L) \<or> (k, js) \<in> set (lists_behind m T1 R T2))" and "j \<in> set js"
  shows "j \<in> other_paras T1 ps L R T2"
proof -
  have "j \<in> set (concat (map snd (lists_before m T1 ps L @ lists_behind m T1 R T2)))"
    using assms by force
  also have "\<dots> = set (tree_paras (T1 @ (ps, L @ [] @ R) # T2))"
    unfolding tree_paras_lists[of _ m] tree_lists_split by simp
  also have "\<dots> = other_paras T1 ps L R T2"
    by (auto simp: other_paras_def case_prod_unfold)
  finally show ?thesis .
qed

lemma entries_frame:
  assumes "row_frame m m' T1 ps L R T2"
    and "(k, js) \<in> set (lists_before m T1 ps L) \<or> (k, js) \<in> set (lists_behind m T1 R T2)"
  shows "map (entry m') js = map (entry m) js"
  using row_frameD(10)[OF assms(1) other_lists_paras[OF assms(2)]] by (simp add: entry_def)

lemma distinct_keys:
  "represents m T \<Longrightarrow> numbered m T \<Longrightarrow> distinct (map fst (tree_lists m T))"
  by (intro distinct_tree_keys) (simp_all add: represents_def apps_ok_def)

lemma fresh_lists:
  assumes "distinct (map fst (A @ [(k, v)] @ B))"
  shows "{l \<in> set (A @ B). fst l \<noteq> k} = set (A @ B)" "{l \<in> set (A @ [(k, v)] @ B). fst l \<noteq> k} = set (A @ B)"
  using assms by (force simp: image_iff)+

lemma tbl_row_set:
  assumes R: "represents m (T1 @ (ps, L @ M @ R) # T2)" and N: "numbered m (T1 @ (ps, L @ M @ R) # T2)"
    and R': "represents m' (T1 @ (ps, L @ [(r, ks)] @ R) # T2)" and N': "numbered m' (T1 @ (ps, L @ [(r, ks)] @ R) # T2)"
    and F: "row_frame m m' T1 ps L R T2"
    and a: "app_id (apps m ! length T1) = a" and x: "row_number m' a r = x"
    and M: "M = [] \<or> (\<exists>ks0. M = [(r, ks0)] \<and> row_number m a r = x)"
  shows "tbl m' = (tbl m)((a, x) \<mapsto> map (entry m') ks)"
proof (rule tbl_change[OF R N R' N'])
  let ?A = "lists_before m T1 ps L" and ?B = "lists_behind m T1 R T2"
  have a': "app_id (apps m' ! length T1) = a" using row_frameD(3)[OF F] a by simp
  have T': "tree_lists m' (T1 @ (ps, L @ [(r, ks)] @ R) # T2) = ?A @ [((a, x), ks)] @ ?B"
    unfolding tree_lists_split a' lists_frame[OF F] using x by simp
  have T: "tree_lists m (T1 @ (ps, L @ M @ R) # T2) = ?A @ map (row_list m a) M @ ?B"
    unfolding tree_lists_split a ..
  have "distinct (map fst (?A @ [((a, x), ks)] @ ?B))" using distinct_keys[OF R' N'] unfolding T' .
  note fresh = fresh_lists[OF this]
  from M have o: "{l \<in> set (?A @ map (row_list m a) M @ ?B). fst l \<noteq> (a, x)} = set (?A @ ?B)"
  proof
    assume "M = []"
    with fresh(1) show ?thesis by simp
  next
    assume "\<exists>ks0. M = [(r, ks0)] \<and> row_number m a r = x"
    then obtain ks0 where "map (row_list m a) M = [((a, x), ks0)]" by auto
    moreover have "{l \<in> set (?A @ [((a, x), ks0)] @ ?B). fst l \<noteq> (a, x)} = {l \<in> set (?A @ ?B). fst l \<noteq> (a, x)}"
      by auto
    ultimately show ?thesis using fresh(1) by simp
  qed
  show "set (tree_lists m' (T1 @ (ps, L @ [(r, ks)] @ R) # T2)) =
      insert ((a, x), ks) {l \<in> set (tree_lists m (T1 @ (ps, L @ M @ R) # T2)). fst l \<noteq> (a, x)}"
    unfolding T T' o by auto
  show "map (entry m') js = map (entry m) js"
    if "(k, js) \<in> set (tree_lists m (T1 @ (ps, L @ M @ R) # T2))" "k \<noteq> (a, x)" for k js
    using that M unfolding T by (intro entries_frame[OF F]) auto
qed

lemma tbl_row_drop:
  assumes R: "represents m (T1 @ (ps, L @ [(r, ks)] @ R) # T2)" and N: "numbered m (T1 @ (ps, L @ [(r, ks)] @ R) # T2)"
    and R': "represents m' (T1 @ (ps, L @ [] @ R) # T2)" and N': "numbered m' (T1 @ (ps, L @ [] @ R) # T2)"
    and F: "row_frame m m' T1 ps L R T2"
    and a: "app_id (apps m ! length T1) = a" and x: "row_number m a r = x"
  shows "tbl m' = (tbl m)((a, x) := None)"
proof (rule tbl_drop[OF R N R' N'])
  let ?A = "lists_before m T1 ps L" and ?B = "lists_behind m T1 R T2"
  have T': "tree_lists m' (T1 @ (ps, L @ [] @ R) # T2) = ?A @ ?B"
    unfolding tree_lists_split lists_frame[OF F] by simp
  have T: "tree_lists m (T1 @ (ps, L @ [(r, ks)] @ R) # T2) = ?A @ [((a, x), ks)] @ ?B"
    unfolding tree_lists_split a using x by simp
  have "distinct (map fst (?A @ [((a, x), ks)] @ ?B))" using distinct_keys[OF R N] unfolding T .
  from fresh_lists(2)[OF this]
  show "set (tree_lists m' (T1 @ (ps, L @ [] @ R) # T2)) =
      {l \<in> set (tree_lists m (T1 @ (ps, L @ [(r, ks)] @ R) # T2)). fst l \<noteq> (a, x)}"
    unfolding T T' by simp
  show "map (entry m') js = map (entry m) js"
    if "(k, js) \<in> set (tree_lists m (T1 @ (ps, L @ [(r, ks)] @ R) # T2))" "k \<noteq> (a, x)" for k js
    using that unfolding T by (intro entries_frame[OF F]) auto
qed

end
