(* ===== verification/Conf_Add.thy ===== *)
theory Conf_Add
  imports Conf_Tree
begin

text \<open>
  Adding a row: the place the row goes to, the two appends, and what the handler does to the
  rows a caller sees, also when it runs out of nodes half way.
\<close>

section \<open>Where a row goes\<close>

definition opt_last :: "'a list \<Rightarrow> 'a option" where
  "opt_last l = (if l = [] then None else Some (last l))"

definition opt_hd :: "'a list \<Rightarrow> 'a option" where
  "opt_hd l = (case l of [] \<Rightarrow> None | x # _ \<Rightarrow> Some x)"

lemma opt_hd_simps [simp]: "opt_hd [] = None" "opt_hd (x # xs) = Some x"
  by (simp_all add: opt_hd_def)

definition pred_row :: "nat option \<Rightarrow> nat list \<Rightarrow> nat option" where
  "pred_row pre l = (if l = [] then pre else Some (last l))"

lemma pred_row_simps [simp]: "pred_row pre [] = pre" "pred_row pre (r # l) = pred_row (Some r) l"
  "pred_row None l = opt_last l"
  by (simp_all add: pred_row_def opt_last_def)

lemma row_position_absent:
  assumes "rchain m off (L @ R)" and "\<forall>r \<in> set L. row_id (rows m ! r) < rid"
    and "R = [] \<or> rid < row_id (rows m ! hd R)"
  shows "row_position m rid pre off = Some (Some (pred_row pre L, opt_hd R))"
  using assms
proof (induction L arbitrary: off pre)
  case Nil
  then show ?case by (cases R) (auto simp: row_position.simps)
qed (auto simp: row_position.simps[of m rid])

lemma row_position_present:
  assumes "rchain m off (L @ r # R)" and "\<forall>r \<in> set L. row_id (rows m ! r) < rid"
    and "row_id (rows m ! r) = rid"
  shows "row_position m rid pre off = Some None"
  using assms by (induction L arbitrary: off pre) (auto simp: row_position.simps[of m rid])

lemma free_position_split:
  assumes "rchain m off (L @ R)"
    and "\<And>n. n < length L \<Longrightarrow> row_id (rows m ! (L ! n)) = GET_ROW_ID a (i + int n)"
    and "R = [] \<or> row_id (rows m ! hd R) \<noteq> GET_ROW_ID a (i + int (length L))"
  shows "free_position m a i pre off = Some (i + int (length L), pred_row pre L, opt_hd R)"
  using assms
proof (induction L arbitrary: off pre i)
  case Nil
  then show ?case by (cases R) (auto simp: free_position.simps)
next
  case (Cons r L)
  have "row_id (rows m ! r) = GET_ROW_ID a i" using Cons.prems(2)[of 0] by simp
  moreover have "free_position m a (i + 1) (Some r) (row_next (rows m ! r))
      = Some (i + 1 + int (length L), pred_row (Some r) L, opt_hd R)"
  proof (rule Cons.IH)
    show "rchain m (row_next (rows m ! r)) (L @ R)" using Cons.prems(1) by simp
    show "row_id (rows m ! (L ! n)) = GET_ROW_ID a (i + 1 + int n)" if "n < length L" for n
      using Cons.prems(2)[of "Suc n"] that by (simp add: add.assoc)
    show "R = [] \<or> row_id (rows m ! hd R) \<noteq> GET_ROW_ID a (i + 1 + int (length L))"
      using Cons.prems(3) by (simp add: add.assoc)
  qed
  ultimately show ?case using Cons.prems(1) by (simp add: free_position.simps[of m a i])
qed

text \<open>The first prefix of the row list that is numbered from 1 without a gap.\<close>

lemma gap_split:
  fixes f :: "'a \<Rightarrow> int"
  shows "\<exists>L R. rs = L @ R \<and> (\<forall>n < length L. f (L ! n) = i + int n) \<and> (R = [] \<or> f (hd R) \<noteq> i + int (length L))"
proof (induction rs arbitrary: i)
  case (Cons r rs)
  show ?case
  proof (cases "f r = i")
    case True
    from Cons.IH[of "i + 1"] obtain L R where *: "rs = L @ R" "\<forall>n < length L. f (L ! n) = i + 1 + int n"
      "R = [] \<or> f (hd R) \<noteq> i + 1 + int (length L)" by blast
    show ?thesis
    proof (intro exI conjI allI impI)
      show "r # rs = (r # L) @ R" using * by simp
      show "f ((r # L) ! n) = i + int n" if "n < length (r # L)" for n
        using * True that by (cases n) auto
      show "R = [] \<or> f (hd R) \<noteq> i + int (length (r # L))" using * by (simp add: add.assoc)
    qed
  next
    case False
    then show ?thesis by (intro exI[of _ "[]"] exI[of _ "r # rs"]) simp
  qed
qed simp

lemma sorted_split_at:
  fixes f :: "'a \<Rightarrow> int"
  assumes "sorted_wrt (<) (map f rs)"
  shows "(\<exists>L R. rs = L @ R \<and> (\<forall>r \<in> set L. f r < k) \<and> (\<forall>r \<in> set R. k < f r)) \<or>
     (\<exists>L r R. rs = L @ r # R \<and> (\<forall>r \<in> set L. f r < k) \<and> f r = k \<and> (\<forall>r \<in> set R. k < f r))"
proof -
  let ?L = "takeWhile (\<lambda>r. f r < k) rs" and ?R = "dropWhile (\<lambda>r. f r < k) rs"
  have L: "\<forall>r \<in> set ?L. f r < k" by (auto dest: set_takeWhileD)
  have s: "sorted_wrt (<) (map f ?R)"
    using assms by (metis map_append sorted_wrt_append takeWhile_dropWhile_id)
  show ?thesis
  proof (cases ?R)
    case Nil
    then have "rs = ?L @ []" by (metis takeWhile_dropWhile_id)
    with L show ?thesis by (intro disjI1 exI[of _ ?L] exI[of _ "[]"]) simp
  next
    case (Cons r R)
    then have r: "\<not> f r < k" by (metis hd_dropWhile list.distinct(1) list.sel(1))
    have R: "\<forall>q \<in> set R. f r < f q" using s Cons by simp
    have rs: "rs = ?L @ r # R" using Cons by (metis takeWhile_dropWhile_id)
    show ?thesis
    proof (cases "f r = k")
      case True
      with rs L R show ?thesis by blast
    next
      case False
      with r R have "\<forall>q \<in> set (r # R). k < f q" by auto
      with rs L show ?thesis by blast
    qed
  qed
qed

section \<open>Linking the new row\<close>

lemma find_free_row_Some:
  assumes "find_free_row m = Some (r, m1)"
  shows "r < length (rows m)" "\<not> row_live m r"
    "m1 = m\<lparr>rows := (rows m)[r := (rows m ! r)\<lparr>row_next := 0, row_para := 0\<rparr>]\<rparr>"
  using assms by (auto simp: find_free_row_def find_Some_iff split: option.splits)

definition insert_row :: "shm \<Rightarrow> nat \<Rightarrow> nat \<Rightarrow> int \<Rightarrow> nat option \<Rightarrow> nat option \<Rightarrow> shm" where
  "insert_row m i r rid pre behind =
     link_row (set_row_slot (m\<lparr>rows := (rows m)[r := \<lparr>row_id = rid, row_para = 0, row_next = 0\<rparr>]\<rparr>)
                 (slot_after i pre) (row_off m r)) r behind"

lemma set_row_slot_shape [simp]:
  "length (apps (set_row_slot m s off)) = length (apps m)"
  "length (rows (set_row_slot m s off)) = length (rows m)" "paras (set_row_slot m s off) = paras m"
  by (cases s; simp)+

lemma set_para_slot_shape [simp]:
  "length (rows (set_para_slot m s off)) = length (rows m)" "apps (set_para_slot m s off) = apps m"
  "length (paras (set_para_slot m s off)) = length (paras m)"
  by (cases s; simp)+

lemma add_row_tail_insert:
  assumes "find_free_row m = Some (r, m1)"
  shows "\<exists>m2. add_row_tail m (slot_after i pre) rid = Some (r, m2) \<and>
     link_row m2 r behind = insert_row m i r rid pre behind"
  using find_free_row_Some[OF assms] assms
  by (simp add: add_row_tail_def insert_row_def Let_def)

lemma off_update [simp]:
  "row_off (m\<lparr>rows := xs\<rparr>) = row_off m" "row_off (m\<lparr>paras := ys\<rparr>) = row_off m"
  "length zs = length (apps m) \<Longrightarrow> row_off (m\<lparr>apps := zs\<rparr>) = row_off m"
  "para_off (m\<lparr>paras := ys\<rparr>) = para_off m"
  "length xs = length (rows m) \<Longrightarrow> para_off (m\<lparr>rows := xs\<rparr>) = para_off m"
  "length zs = length (apps m) \<Longrightarrow> para_off (m\<lparr>apps := zs\<rparr>) = para_off m"
  by (simp_all add: fun_eq_iff row_off_def para_off_def ROW_START_NODE_def PARA_START_NODE_def APP_START_NODE_def)

lemma insert_row_shape: "same_shape m (insert_row m i r rid pre behind)"
  by (simp add: same_shape_def insert_row_def link_row_def split: option.splits)

text \<open>The fields of the memory after the two stores.\<close>

lemma insert_row_fields:
  fixes m i r rid pre behind
  defines "m' \<equiv> insert_row m i r rid pre behind"
  assumes r: "r < length (rows m)" and i: "i < length (apps m)"
    and pre: "\<forall>q. pre = Some q \<longrightarrow> q < length (rows m) \<and> q \<noteq> r"
  shows "paras m' = paras m"
    and "apps m' ! k = (if k = i \<and> pre = None then (apps m ! i)\<lparr>app_row := row_off m r\<rparr> else apps m ! k)"
    and "rows m' ! r = \<lparr>row_id = rid, row_para = 0,
           row_next = (case behind of None \<Rightarrow> 0 | Some l \<Rightarrow> row_off m l)\<rparr>"
    and "q \<noteq> r \<Longrightarrow> rows m' ! q = (if pre = Some q then (rows m ! q)\<lparr>row_next := row_off m r\<rparr> else rows m ! q)"
proof -
  note defs = m'_def insert_row_def link_row_def
  show "paras m' = paras m" by (simp add: defs split: option.splits)
  show "apps m' ! k = (if k = i \<and> pre = None then (apps m ! i)\<lparr>app_row := row_off m r\<rparr> else apps m ! k)"
    using i by (cases pre; cases behind) (auto simp: defs slot_after_def)
  show "rows m' ! r = \<lparr>row_id = rid, row_para = 0,
           row_next = (case behind of None \<Rightarrow> 0 | Some l \<Rightarrow> row_off m l)\<rparr>"
    using r pre by (cases pre; cases behind) (auto simp: defs slot_after_def)
  assume "q \<noteq> r"
  then show "rows m' ! q = (if pre = Some q then (rows m ! q)\<lparr>row_next := row_off m r\<rparr> else rows m ! q)"
    using r pre by (cases pre; cases behind) (auto simp: defs slot_after_def)
qed

lemma opt_last_in: "opt_last l = Some q \<Longrightarrow> q \<in> set l" "opt_last l = Some q \<Longrightarrow> l \<noteq> [] \<and> q = last l"
  by (auto simp: opt_last_def split: if_splits)

lemma chain_hd_off:
  assumes "chain (row_at m) nxt live y R"
  shows "y = (case opt_hd R of None \<Rightarrow> 0 | Some l \<Rightarrow> row_off m l)"
  using assms by (cases R) (auto dest: at_Some)

lemma butlast_last_distinct: "distinct l \<Longrightarrow> n \<in> set (butlast l) \<Longrightarrow> n \<noteq> last l"
  by (cases l rule: rev_cases) auto

lemma insert_row_represents:
  assumes R: "represents m (T1 @ (ps, L @ [] @ R) # T2)"
    and r: "r < length (rows m)" "\<not> row_live m r" and rid: "rid \<noteq> - 1"
  defines "m' \<equiv> insert_row m (length T1) r rid (opt_last (map fst L)) (opt_hd (map fst R))"
  shows "represents m' (T1 @ (ps, L @ [(r, [])] @ R) # T2)" and "row_frame m m' T1 ps L R T2"
proof -
  let ?T = "T1 @ (ps, L @ [] @ R) # T2" and ?i = "length T1"
  have i: "?i < length (apps m)" using represents_app(1)[OF R, of ?i] by simp
  have live: "row_live m q" if "q \<in> other_rows T1 L R T2" for q
    using that by (intro tree_rows_live(1)[OF R]) (auto simp: other_rows_def)
  then have nr: "r \<notin> other_rows T1 L R T2" using r(2) by blast
  have inL: "fst ` set L \<subseteq> other_rows T1 L R T2" "fst ` set R \<subseteq> other_rows T1 L R T2"
    by (auto simp: other_rows_def)
  have pre: "q < length (rows m) \<and> q \<noteq> r" if "opt_last (map fst L) = Some q" for q
  proof -
    have "q \<in> fst ` set L" using opt_last_in(1)[OF that] by simp
    with inL nr show ?thesis using tree_rows_live(2)[OF R, of q] by auto
  qed
  then have "\<forall>q. opt_last (map fst L) = Some q \<longrightarrow> q < length (rows m) \<and> q \<noteq> r" by blast
  note fl = insert_row_fields[OF r(1) i this, where behind = "opt_hd (map fst R)" and rid = rid, folded m'_def]
  have shape: "same_shape m m'" unfolding m'_def by (rule insert_row_shape)
  have drows: "distinct (tree_rows ?T)" using R by (simp add: represents_def)
  show frame: "row_frame m m' T1 ps L R T2"
    unfolding row_frame_def
  proof (intro conjI allI impI ballI)
    show "same_shape m m'" by (rule shape)
    show "apps m' ! k = apps m ! k" if "k \<noteq> ?i" for k using that by (simp add: fl(2))
    show "\<exists>z. apps m' ! ?i = (apps m ! ?i)\<lparr>app_row := z\<rparr>"
      by (cases "opt_last (map fst L)") (auto simp: fl(2) intro: exI[of _ "app_row (apps m ! ?i)"])
    fix q
    have q: "row_id (rows m' ! q) = row_id (rows m ! q) \<and> row_para (rows m' ! q) = row_para (rows m ! q)"
      if "q \<in> other_rows T1 L R T2"
    proof -
      have "q \<noteq> r" using that nr by auto
      then show ?thesis by (simp add: fl(4))
    qed
    show "row_id (rows m' ! q) = row_id (rows m ! q)" if "q \<in> other_rows T1 L R T2"
      using q[OF that] by simp
    show "row_para (rows m' ! q) = row_para (rows m ! q)" if "q \<in> other_rows T1 L R T2"
      using q[OF that] by simp
    show "row_next (rows m' ! q) = row_next (rows m ! q)" if q: "q \<in> set (tree_rows T1) \<union> set (tree_rows T2)"
    proof -
      have "q \<noteq> r" using q nr by (auto simp: other_rows_def)
      moreover have "q \<notin> set (map fst L)" using q drows by auto
      then have "opt_last (map fst L) \<noteq> Some q" by (metis opt_last_in(1))
      ultimately show ?thesis by (simp add: fl(4))
    qed
  qed (simp add: fl(1))
  have old: "rchain m (app_row (apps m ! ?i)) (map fst L @ map fst R)"
    using represents_app(3)[OF R, of ?i] by simp
  then obtain y where y: "path (row_at m) (\<lambda>r. row_next (rows m ! r)) (row_live m) (app_row (apps m ! ?i)) (map fst L) y"
      "rchain m y (map fst R)" by (auto simp: path_append)
  have dLR: "distinct (map fst L @ map fst R)" using drows by auto
  have rch: "rchain m' (if map fst L = [] then row_off m r else app_row (apps m ! ?i)) (map fst L @ r # map fst R)"
    unfolding same_shape_at[OF shape]
  proof (rule path_insert[OF y dLR])
    show "row_next (rows m' ! r) = y" using chain_hd_off[OF y(2)] by (simp add: fl(3))
    show "row_live m' r" using rid by (simp add: fl(3))
    show "row_at m (row_off m r) = Some r" using r by simp
    show "row_live m' n = row_live m n" if "n \<in> set (map fst L) \<union> set (map fst R)" for n
      using that row_frameD(7)[OF frame, of n] by (auto simp: other_rows_def)
    show "row_next (rows m' ! n) = row_next (rows m ! n)"
      if n: "n \<in> set (butlast (map fst L)) \<union> set (map fst R)" for n
    proof -
      have "n \<in> set (map fst L) \<union> set (map fst R)" using n by (auto dest: in_set_butlastD)
      then have "n \<noteq> r" using inL nr by auto
      moreover have "opt_last (map fst L) \<noteq> Some n"
      proof
        assume e: "opt_last (map fst L) = Some n"
        have nL: "n \<in> set (map fst L)" by (rule opt_last_in(1)[OF e])
        have nl: "n = last (map fst L)" using opt_last_in(2)[OF e] by (rule conjunct2)
        have d: "distinct (map fst L)" "set (map fst L) \<inter> set (map fst R) = {}" using dLR by auto
        have "n \<notin> set (butlast (map fst L))" using butlast_last_distinct[OF d(1)] nl by metis
        moreover have "n \<notin> set (map fst R)" using nL d(2) by (metis disjoint_iff)
        ultimately show False using n by (metis UnE)
      qed
      ultimately show ?thesis by (simp add: fl(4))
    qed
    show "row_next (rows m' ! last (map fst L)) = row_off m r" if "map fst L \<noteq> []"
      using that pre[of "last (map fst L)"] by (simp add: fl(4) opt_last_def)
  qed simp
  have "app_row (apps m' ! ?i) = (if map fst L = [] then row_off m r else app_row (apps m ! ?i))"
    by (simp add: fl(2) opt_last_def)
  with rch have rch': "rchain m' (app_row (apps m' ! ?i)) (map fst (L @ [(r, [])] @ R))" by simp
  show "represents m' (T1 @ (ps, L @ [(r, [])] @ R) # T2)"
  proof (rule represents_row[OF R frame rch'])
    show "pchain m' (row_para (rows m' ! q)) ks" if "(q, ks) \<in> set [(r, [])]" for q ks
      using that by (simp add: fl(3))
    show "bufs_ok m'"
      using R shape row_frameD(6)[OF frame] fl(1)
      by (simp add: represents_def bufs_ok_def all_set_conv_all_nth same_shape_def)
  qed (use nr in auto)
qed

lemma insert_row_numbered:
  assumes R: "represents m (T1 @ (ps, L @ [] @ R) # T2)" and N: "numbered m (T1 @ (ps, L @ [] @ R) # T2)"
    and r: "r < length (rows m)" "\<not> row_live m r"
    and a: "app_id (apps m ! length T1) = a" and x: "1 \<le> x" "x < 256"
    and L: "\<forall>q \<in> fst ` set L. row_id (rows m ! q) < GET_ROW_ID a x"
    and Rr: "\<forall>q \<in> fst ` set R. GET_ROW_ID a x < row_id (rows m ! q)"
  defines "m' \<equiv> insert_row m (length T1) r (GET_ROW_ID a x) (opt_last (map fst L)) (opt_hd (map fst R))"
  shows "represents m' (T1 @ (ps, L @ [(r, [])] @ R) # T2)" and "numbered m' (T1 @ (ps, L @ [(r, [])] @ R) # T2)"
    and "row_frame m m' T1 ps L R T2" and "tbl m' = (tbl m)((a, x) \<mapsto> [])" and "row_number m' a r = x"
proof -
  let ?i = "length T1" and ?T' = "T1 @ (ps, L @ [(r, [])] @ R) # T2"
  have i: "?i < length (apps m)" using represents_app(1)[OF R, of ?i] by simp
  have arange: "app_range a" using numbered_app(1)[OF N, of ?i] a by simp
  have id: "GET_ROW_ID a x = a * 65536 + x * 256" using ids_exact(1)[OF arange] x by simp
  then have rid: "GET_ROW_ID a x \<noteq> - 1" using arange x by (simp add: app_range_def)
  note ins = insert_row_represents[OF R r rid, folded m'_def]
  show rep': "represents m' ?T'" and frame: "row_frame m m' T1 ps L R T2" by (rule ins)+
  have r': "row_id (rows m' ! r) = GET_ROW_ID a x"
    using r unfolding m'_def insert_row_def link_row_def
    by (auto simp: slot_after_def nth_list_update split: option.splits)
  show x': "row_number m' a r = x" using r' id by (simp add: row_number_def)
  have ids: "row_id (rows m' ! q) = row_id (rows m ! q)" if "q \<in> fst ` set L \<union> fst ` set R" for q
    using that by (intro row_frameD(7)[OF frame]) (auto simp: other_rows_def)
  show num': "numbered m' ?T'"
  proof (rule numbered_row[OF N _ frame a])
    show "length (T1 @ (ps, L @ [] @ R) # T2) \<le> length (apps m)"
      using R unfolding represents_def apps_ok_def by blast
    show "row_numbered m' a e" if "e \<in> set [(r, [])]" for e
      using that x x' r' by (simp add: row_numbered_def plist_numbered_def)
    have "sorted_wrt (<) (map (\<lambda>e. row_id (rows m ! fst e)) (L @ R))"
      using N a by (auto simp: numbered_def app_numbered_rows dest: spec[of _ ?i])
    then show "sorted_wrt (<) (map (\<lambda>e. row_id (rows m' ! fst e)) (L @ [(r, [])] @ R))"
    proof -
      have eq: "map (\<lambda>e. row_id (rows m' ! fst e)) L = map (\<lambda>e. row_id (rows m ! fst e)) L"
        "map (\<lambda>e. row_id (rows m' ! fst e)) R = map (\<lambda>e. row_id (rows m ! fst e)) R"
        using ids by auto
      assume "sorted_wrt (<) (map (\<lambda>e. row_id (rows m ! fst e)) (L @ R))"
      then show ?thesis
        unfolding map_append eq using L Rr r' by (auto simp: sorted_wrt_append)
    qed
  qed
  have "tbl m' = (tbl m)((a, x) \<mapsto> map (entry m') [])"
    by (rule tbl_row_set[OF R N rep' num' frame a x']) simp
  then show "tbl m' = (tbl m)((a, x) \<mapsto> [])" by simp
qed

section \<open>Appending a parameter\<close>

definition free_rows :: "shm \<Rightarrow> nat" where
  "free_rows m = length (filter (\<lambda>r. row_id r = - 1) (rows m))"

definition free_paras :: "shm \<Rightarrow> nat" where
  "free_paras m = length (filter (\<lambda>p. para_id p = - 1) (paras m))"

lemma length_filter_update:
  "i < length xs \<Longrightarrow> length (filter P (xs[i := y])) + (if P (xs ! i) then 1 else 0)
     = length (filter P xs) + (if P y then 1 else 0)"
proof (induction xs arbitrary: i)
  case (Cons x xs)
  then show ?case by (cases i) auto
qed simp

lemma find_upt_None: "find (\<lambda>i. P (xs ! i)) [0..<length xs] = None \<longleftrightarrow> filter P xs = []"
  by (auto simp: find_None_iff filter_empty_conv all_set_conv_all_nth)

lemma find_free_row_None: "find_free_row m = None \<longleftrightarrow> free_rows m = 0"
  using find_upt_None[of "\<lambda>r. row_id r = - 1" "rows m"]
  by (auto simp: find_free_row_def free_rows_def split: option.splits)

lemma find_free_para_None: "find_free_para m = None \<longleftrightarrow> free_paras m = 0"
  using find_upt_None[of "\<lambda>p. para_id p = - 1" "paras m"]
  by (auto simp: find_free_para_def free_paras_def split: option.splits)

lemma find_free_para_Some:
  assumes "find_free_para m = Some (j, m1)"
  shows "j < length (paras m)" "\<not> para_live m j"
    "m1 = m\<lparr>paras := (paras m)[j := (paras m ! j)\<lparr>para_name := replicate MAX_NAME_LEN NUL,
            para_val := replicate MAX_VALUE_LEN NUL, para_next := 0\<rparr>]\<rparr>"
  using assms by (auto simp: find_free_para_def find_Some_iff split: option.splits)

definition append_slot :: "nat \<Rightarrow> plist \<Rightarrow> para_slot" where
  "append_slot r ks = (if ks = [] then Row_para r else Para_next (last ks))"

definition append_para :: "shm \<Rightarrow> nat \<Rightarrow> plist \<Rightarrow> nat \<Rightarrow> int \<Rightarrow> buf \<Rightarrow> buf \<Rightarrow> shm" where
  "append_para m r ks j pid n v =
     set_para_slot (m\<lparr>paras := (paras m)[j := \<lparr>para_id = pid, para_name = n, para_val = v, para_next = 0\<rparr>]\<rparr>)
       (append_slot r ks) (para_off m j)"

lemma append_para_fields:
  fixes m r ks j pid n v
  defines "m' \<equiv> append_para m r ks j pid n v"
  assumes j: "j < length (paras m)" "ks \<noteq> [] \<longrightarrow> last ks \<noteq> j \<and> last ks < length (paras m)"
    and r: "r < length (rows m)"
  shows "apps m' = apps m"
    and "rows m' ! q = (if q = r \<and> ks = [] then (rows m ! r)\<lparr>row_para := para_off m j\<rparr> else rows m ! q)"
    and "paras m' ! j = \<lparr>para_id = pid, para_name = n, para_val = v, para_next = 0\<rparr>"
    and "k \<noteq> j \<Longrightarrow> paras m' ! k = (if ks \<noteq> [] \<and> k = last ks then (paras m ! k)\<lparr>para_next := para_off m j\<rparr> else paras m ! k)"
    and "same_shape m m'"
  using assms by (auto simp: m'_def append_para_def append_slot_def same_shape_def nth_list_update)

lemma free_paras_append:
  assumes j: "j < length (paras m)" "ks \<noteq> [] \<longrightarrow> last ks \<noteq> j \<and> last ks < length (paras m)"
    and "\<not> para_live m j" and "pid \<noteq> - 1"
  shows "Suc (free_paras (append_para m r ks j pid n v)) = free_paras m"
proof -
  let ?p = "\<lparr>para_id = pid, para_name = n, para_val = v, para_next = 0\<rparr>"
  let ?f = "\<lambda>p. para_id p = - 1"
  have 1: "Suc (length (filter ?f ((paras m)[j := ?p]))) = length (filter ?f (paras m))"
    using length_filter_update[of j "paras m" ?f ?p] assms by simp
  have "length (filter ?f ((paras m)[j := ?p, k := ((paras m) ! k)\<lparr>para_next := z\<rparr>]))
      = length (filter ?f ((paras m)[j := ?p]))" if "k \<noteq> j" "k < length (paras m)" for k z
    using length_filter_update[of k "(paras m)[j := ?p]" ?f "((paras m) ! k)\<lparr>para_next := z\<rparr>"] that
    by (simp split: if_splits)
  with 1 j show ?thesis
    by (cases "ks = []") (simp_all add: free_paras_def append_para_def append_slot_def)
qed

lemma free_rows_append: "free_rows (append_para m r ks j pid n v) = free_rows m"
proof (cases "ks = [] \<and> r < length (rows m)")
  case True
  then show ?thesis
    using length_filter_update[of r "rows m" "\<lambda>r. row_id r = - 1" "(rows m ! r)\<lparr>row_para := para_off m j\<rparr>"]
    by (simp add: free_rows_def append_para_def append_slot_def split: if_splits)
next
  case False
  then show ?thesis by (auto simp: free_rows_def append_para_def append_slot_def list_update_beyond)
qed

lemma other_paras_eq:
  "other_paras T1 ps L R T2 = set (tree_paras T1) \<union> set ps \<union> set (concat (map snd L)) \<union>
     set (concat (map snd R)) \<union> set (tree_paras T2)"
  by (auto simp: other_paras_def case_prod_unfold)

lemma row_paras_apart:
  assumes "represents m (T1 @ (ps, L @ [(r, ks)] @ R) # T2)"
  shows "set ks \<inter> other_paras T1 ps L R T2 = {}" and "distinct ks"
proof -
  have "distinct (tree_paras T1 @ ps @ concat (map snd L) @ ks @ concat (map snd R) @ tree_paras T2)"
    using assms by (simp add: represents_def)
  then show "set ks \<inter> other_paras T1 ps L R T2 = {}" "distinct ks"
    unfolding other_paras_eq distinct_append set_append by blast+
qed

lemma append_para_numbered:
  assumes R: "represents m (T1 @ (ps, L @ [(r, ks)] @ R) # T2)" and N: "numbered m (T1 @ (ps, L @ [(r, ks)] @ R) # T2)"
    and j: "j < length (paras m)" "\<not> para_live m j"
    and n: "buf_ok MAX_NAME_LEN n" and v: "buf_ok MAX_VALUE_LEN v"
    and a: "app_id (apps m ! length T1) = a" and x: "row_number m a r = x" and len: "length ks + 1 < 256"
  defines "m' \<equiv> append_para m r ks j (GET_PARA_ID a x (int (length ks) + 1)) n v"
  shows "represents m' (T1 @ (ps, L @ [(r, ks @ [j])] @ R) # T2)"
    and "numbered m' (T1 @ (ps, L @ [(r, ks @ [j])] @ R) # T2)"
    and "tbl m' = (tbl m)((a, x) \<mapsto> map (entry m) ks @ [(cstr n, cstr v)])"
    and "row_number m' a r = x" and "app_id (apps m' ! length T1) = a"
    and "map (entry m') (ks @ [j]) = map (entry m) ks @ [(cstr n, cstr v)]"
    and "Suc (free_paras m') = free_paras m" and "row_frame m m' T1 ps L R T2"
proof -
  let ?i = "length T1" and ?T = "T1 @ (ps, L @ [(r, ks)] @ R) # T2"
    and ?T' = "T1 @ (ps, L @ [(r, ks @ [j])] @ R) # T2" and ?pid = "GET_PARA_ID a x (int (length ks) + 1)"
  have arange: "app_range a" using numbered_app(1)[OF N, of ?i] a by simp
  have row: "1 \<le> x" "x < 256" "row_id (rows m ! r) = GET_ROW_ID a x" "plist_numbered m a x ks"
    using numbered_app(3)[OF N, of ?i r ks] a x by auto
  have "?pid = a * 65536 + x * 256 + (int (length ks) + 1)" using ids_exact(2)[OF arange] row len by simp
  then have pid: "?pid \<noteq> - 1" using arange row by (simp add: app_range_def)
  have op: "para_live m k" if "k \<in> other_paras T1 ps L R T2 \<union> set ks" for k
    using that by (intro tree_paras_live(1)[OF R]) (auto simp: other_paras_def case_prod_unfold)
  then have nj: "j \<notin> other_paras T1 ps L R T2" "j \<notin> set ks" using j(2) by auto
  have dist: "distinct (tree_paras ?T)" "distinct (tree_rows ?T)" using R by (auto simp: represents_def)
  have ks: "set ks \<inter> other_paras T1 ps L R T2 = {}" "distinct ks"
    using row_paras_apart[OF R] by auto
  have rr: "r \<notin> other_rows T1 L R T2" "r < length (rows m)"
    using dist(2) tree_rows_live(2)[OF R, of r] by (auto simp: other_rows_def)
  have lastks: "ks \<noteq> [] \<longrightarrow> last ks \<noteq> j \<and> last ks < length (paras m)"
  proof
    assume "ks \<noteq> []"
    then have l: "last ks \<in> set ks" by simp
    then have "last ks < length (paras m)" by (intro tree_paras_live(2)[OF R]) auto
    with l nj show "last ks \<noteq> j \<and> last ks < length (paras m)" by auto
  qed
  note fl = append_para_fields[OF j(1) lastks rr(2), where pid = ?pid and n = n and v = v, folded m'_def]
  have para: "paras m' ! k = paras m ! k" if "k \<noteq> j" "ks = [] \<or> k \<noteq> last ks" for k
    using fl(4)[OF that(1)] that(2) by auto
  have ids: "row_id (rows m' ! q) = row_id (rows m ! q)" for q by (simp add: fl(2))
  show frame0: "app_id (apps m' ! ?i) = a" using a fl(1) by simp
  show x': "row_number m' a r = x" using x ids by (simp add: row_number_def)
  show frame: "row_frame m m' T1 ps L R T2"
    unfolding row_frame_def
  proof (intro conjI allI impI ballI)
    show "same_shape m m'" by (rule fl(5))
    show "\<exists>z. apps m' ! ?i = (apps m ! ?i)\<lparr>app_row := z\<rparr>"
      by (auto simp: fl(1) intro: exI[of _ "app_row (apps m ! ?i)"])
    show "paras m' ! k = paras m ! k" if "k \<in> other_paras T1 ps L R T2" for k
    proof (rule para)
      show "k \<noteq> j" using that nj by auto
      have "k \<notin> set ks" using that ks(1) by blast
      then show "ks = [] \<or> k \<noteq> last ks" by auto
    qed
    show "row_para (rows m' ! q) = row_para (rows m ! q)" if "q \<in> other_rows T1 L R T2" for q
      using that rr by (auto simp: fl(2))
  qed (simp_all add: fl(1,2))
  have "rchain m (app_row (apps m ! ?i)) (map fst (L @ [(r, ks)] @ R))"
    using represents_app(3)[OF R, of ?i] by simp
  then have rch: "rchain m' (app_row (apps m' ! ?i)) (map fst (L @ [(r, ks @ [j])] @ R))"
    unfolding fl(1) by (intro rchain_frame[OF _ fl(5)]) (simp_all add: fl(2))
  have old: "pchain m (row_para (rows m ! r)) ks" using represents_app(4)[OF R, of ?i r ks] by simp
  have new: "pchain m' (if ks = [] then para_off m j else row_para (rows m ! r)) (ks @ [j])"
    unfolding same_shape_at[OF fl(5)]
  proof (rule path_insert[OF old])
    show "para_live m' j" using pid by (simp add: fl(3))
    show "para_live m' k = para_live m k" if "k \<in> set ks \<union> set []" for k
    proof -
      have "k \<noteq> j" using that nj by auto
      then show ?thesis by (simp add: fl(4))
    qed
    show "para_next (paras m' ! k) = para_next (paras m ! k)" if "k \<in> set (butlast ks) \<union> set []" for k
    proof -
      have "k \<in> set ks" "k \<noteq> last ks"
        using that ks(2) butlast_last_distinct[of ks k] by (auto dest: in_set_butlastD)
      moreover from this(1) have "k \<noteq> j" using nj by auto
      ultimately show ?thesis by (simp add: fl(4))
    qed
    show "para_next (paras m' ! last ks) = para_off m j" if "ks \<noteq> []"
      using that lastks by (simp add: fl(4))
  qed (use j fl(3) ks in auto)
  have roff: "row_para (rows m' ! r) = (if ks = [] then para_off m j else row_para (rows m ! r))"
    by (simp add: fl(2))
  show rep': "represents m' ?T'"
  proof (rule represents_row[OF R frame rch])
    show "pchain m' (row_para (rows m' ! q)) js" if "(q, js) \<in> set [(r, ks @ [j])]" for q js
      using that new roff by simp
    have "\<forall>k < length (paras m). buf_ok MAX_NAME_LEN (para_name (paras m' ! k)) \<and>
        buf_ok MAX_VALUE_LEN (para_val (paras m' ! k))"
    proof (intro allI impI)
      fix k assume k: "k < length (paras m)"
      show "buf_ok MAX_NAME_LEN (para_name (paras m' ! k)) \<and> buf_ok MAX_VALUE_LEN (para_val (paras m' ! k))"
        using R k n v by (cases "k = j") (auto simp: fl(3,4) represents_def bufs_ok_def)
    qed
    then show "bufs_ok m'"
      using R fl(1,5) by (simp add: represents_def bufs_ok_def all_set_conv_all_nth same_shape_def)
  qed (use rr nj ks in auto)
  have ent: "map (entry m') ks = map (entry m) ks"
  proof (rule map_cong[OF refl])
    fix k assume "k \<in> set ks"
    then have "k \<noteq> j" using nj by auto
    then show "entry m' k = entry m k" by (simp add: entry_def fl(4))
  qed
  show new_entries: "map (entry m') (ks @ [j]) = map (entry m) ks @ [(cstr n, cstr v)]"
    using ent by (simp add: entry_def fl(3))
  have pn: "plist_numbered m' a x (ks @ [j])"
  proof -
    have "para_id (paras m' ! (ks ! k)) = para_id (paras m ! (ks ! k))" if "k < length ks" for k
    proof -
      have "ks ! k \<noteq> j" using nj that by auto
      then show ?thesis by (simp add: fl(4))
    qed
    then show ?thesis using row(4) len by (auto simp: plist_numbered_def nth_append fl(3) less_Suc_eq)
  qed
  show num': "numbered m' ?T'"
  proof (rule numbered_row[OF N _ frame a])
    show "length ?T \<le> length (apps m)" using R unfolding represents_def apps_ok_def by blast
    show "row_numbered m' a e" if "e \<in> set [(r, ks @ [j])]" for e
      using that row x' pn ids by (simp add: row_numbered_def)
    have "sorted_wrt (<) (map (\<lambda>e. row_id (rows m ! fst e)) (L @ [(r, ks)] @ R))"
      using N a by (auto simp: numbered_def app_numbered_rows dest: spec[of _ ?i])
    then show "sorted_wrt (<) (map (\<lambda>e. row_id (rows m' ! fst e)) (L @ [(r, ks @ [j])] @ R))"
      by (simp add: ids)
  qed
  have "tbl m' = (tbl m)((a, x) \<mapsto> map (entry m') (ks @ [j]))"
    using x by (intro tbl_row_set[OF R N rep' num' frame a x']) auto
  then show "tbl m' = (tbl m)((a, x) \<mapsto> map (entry m) ks @ [(cstr n, cstr v)])"
    unfolding new_entries .
  show "Suc (free_paras m') = free_paras m"
    unfolding m'_def by (rule free_paras_append[OF j(1) lastks j(2) pid])
qed

section \<open>Appending all parameters of a row\<close>

lemma strncpy_field:
  assumes "buf_ok (Suc n) old" and "NUL \<notin> set v"
  obtains b where "strncpy old v n = Some b" "buf_ok (Suc n) b" "cstr b = take n v"
proof
  have len: "length old = Suc n" "last old = NUL" using assms(1) by (auto simp: buf_ok_def)
  let ?b = "pad n v @ [NUL]"
  show "strncpy old v n = Some ?b"
    using len drop_to_last[of old n] by (simp add: strncpy_def)
  show "buf_ok (Suc n) ?b" by (simp add: buf_ok_def)
  show "cstr ?b = take n v" using assms(2) by (simp add: cstr_pad_append cstr_NUL_append[of "[]", simplified])
qed

lemma buf_ok_zero: "buf_ok (Suc n) (replicate (Suc n) NUL)"
  by (simp add: buf_ok_def last_replicate)

lemma cstr_pad: "NUL \<notin> set s \<Longrightarrow> cstr (pad n s) = take n s"
  using cstr_pad_append[of s n "[]"] by (simp add: cstr_def)

lemma id_fields:
  assumes "app_range a" and "0 \<le> x" and "x < 256" and "0 \<le> k" and "k < 256"
  shows "drop_bit 16 (GET_PARA_ID a x k) = a" and "take_bit 8 (GET_PARA_ID a x k) = k"
proof -
  have id: "GET_PARA_ID a x k = a * 65536 + (x * 256 + k)" using ids_exact(2)[OF assms] by simp
  have "0 \<le> x * 256 + k" "x * 256 + k < 65536" using assms by auto
  then show "drop_bit 16 (GET_PARA_ID a x k) = a"
    unfolding id by (simp add: drop_bit_eq_div div_pos_pos_trivial)
  have "(a * 65536 + (x * 256 + k)) mod 256 = (k + 256 * (a * 256 + x)) mod 256" by (simp add: algebra_simps)
  also have "\<dots> = k" using assms by (simp only: mod_mult_self2 mod_pos_pos_trivial)
  finally show "take_bit 8 (GET_PARA_ID a x k) = k" unfolding id by (simp add: take_bit_eq_mod)
qed

text \<open>The name table: \<open>nm k\<close> is the name of the parameter with index \<open>k + 1\<close>.\<close>

definition row_names :: "tcmEntityInfo list \<Rightarrow> int \<Rightarrow> nat \<Rightarrow> (nat \<Rightarrow> string) \<Rightarrow> bool" where
  "row_names tab a n nm \<longleftrightarrow> (\<forall>k < n. NUL \<notin> set (nm k) \<and>
     config_api_get_para_name_by_id tab a (int k + 1) = Some (Some (pad (MAX_NAME_LEN - 1) (nm k))))"

fun new_entries :: "(nat \<Rightarrow> string) \<Rightarrow> nat \<Rightarrow> string option list \<Rightarrow> (string \<times> string) list" where
  "new_entries nm i [] = []"
| "new_entries nm i (v # vs) =
     (take (MAX_NAME_LEN - 1) (nm i), take (MAX_VALUE_LEN - 1) (nullstr v)) # new_entries nm (Suc i) vs"

lemma length_new_entries [simp]: "length (new_entries nm i vs) = length vs"
  by (induction vs arbitrary: i) auto

definition c_value :: "string option \<Rightarrow> bool" where
  "c_value v \<longleftrightarrow> NUL \<notin> set (nullstr v)"

text \<open>One step of the loop.\<close>

lemma add_para_tail_full:
  "free_paras m = 0 \<Longrightarrow> add_para_tail tab m slot pid v = Some (None, m)"
  using find_free_para_None[of m] by (simp add: add_para_tail_def)

lemma add_para_tail_append:
  assumes free: "free_paras m \<noteq> 0" and pid: "drop_bit 16 pid = a" "take_bit 8 pid = k"
    and nm: "config_api_get_para_name_by_id tab a k = Some (Some (pad (MAX_NAME_LEN - 1) n))"
    and c: "NUL \<notin> set n" "NUL \<notin> set v"
  obtains j bn bv where "add_para_tail tab m (append_slot r ks) pid v = Some (Some j, append_para m r ks j pid bn bv)"
    "j < length (paras m)" "\<not> para_live m j" "buf_ok MAX_NAME_LEN bn" "buf_ok MAX_VALUE_LEN bv"
    "cstr bn = take (MAX_NAME_LEN - 1) n" "cstr bv = take (MAX_VALUE_LEN - 1) v"
proof -
  from free find_free_para_None[of m] obtain j m1 where f: "find_free_para m = Some (j, m1)" by auto
  note f' = find_free_para_Some[OF f]
  have zero: "para_name (paras m1 ! j) = replicate (Suc (MAX_NAME_LEN - 1)) NUL"
    "para_val (paras m1 ! j) = replicate (Suc (MAX_VALUE_LEN - 1)) NUL"
    using f' by (simp_all add: MAX_NAME_LEN_def MAX_VALUE_LEN_def)
  have cn: "cstr (pad (MAX_NAME_LEN - 1) n) = take (MAX_NAME_LEN - 1) n" by (rule cstr_pad) (rule c)
  have ct: "NUL \<notin> set (take (MAX_NAME_LEN - 1) n)" using c(1) by (meson in_set_takeD)
  from strncpy_field[OF buf_ok_zero ct] obtain bn where
    bn: "strncpy (para_name (paras m1 ! j)) (take (MAX_NAME_LEN - 1) n) (MAX_NAME_LEN - 1) = Some bn"
      "buf_ok (Suc (MAX_NAME_LEN - 1)) bn" "cstr bn = take (MAX_NAME_LEN - 1) n"
    unfolding zero by (metis min.idem take_take)
  from strncpy_field[OF buf_ok_zero c(2)] obtain bv where
    bv: "strncpy (para_val (paras m1 ! j)) v (MAX_VALUE_LEN - 1) = Some bv"
      "buf_ok (Suc (MAX_VALUE_LEN - 1)) bv" "cstr bv = take (MAX_VALUE_LEN - 1) v"
    unfolding zero by metis
  have "para_off m1 = para_off m" using f'(3) by simp
  then have "add_para_tail tab m (append_slot r ks) pid v = Some (Some j, append_para m r ks j pid bn bv)"
    using f f'(3) nm cn bn bv pid by (simp add: add_para_tail_def append_para_def Let_def)
  moreover have "buf_ok MAX_NAME_LEN bn" "buf_ok MAX_VALUE_LEN bv"
    using bn(2) bv(2) by (simp_all add: MAX_NAME_LEN_def MAX_VALUE_LEN_def)
  ultimately show ?thesis using that f' bn bv by blast
qed

lemma str_tmp:
  assumes "c_value v"
  obtains b where "(case v of None \<Rightarrow> Some (replicate MAX_VALUE_LEN NUL)
      | Some s \<Rightarrow> strncpy (replicate MAX_VALUE_LEN NUL) s (MAX_VALUE_LEN - 1)) = Some b"
    "cstr b = take (MAX_VALUE_LEN - 1) (nullstr v)"
proof (cases v)
  case None
  then show ?thesis
    by (intro that[of "replicate MAX_VALUE_LEN NUL"]) (simp_all add: nullstr_def cstr_def MAX_VALUE_LEN_def)
next
  case (Some s)
  have "MAX_VALUE_LEN = Suc (MAX_VALUE_LEN - 1)" by (simp add: MAX_VALUE_LEN_def)
  moreover from assms Some have "NUL \<notin> set s" by (simp add: c_value_def nullstr_def)
  ultimately show ?thesis
    using strncpy_field[OF buf_ok_zero, of s "MAX_VALUE_LEN - 1"] Some that
    by (metis nullstr_def option.simps(5))
qed

lemma add_row_paras_spec:
  assumes "represents m (T1 @ (ps, L @ [(r, ks)] @ R) # T2)" and "numbered m (T1 @ (ps, L @ [(r, ks)] @ R) # T2)"
    and "app_id (apps m ! length T1) = a" and "row_number m a r = x" and "length ks + n < 256"
    and "row_names tab a (length ks + n) nm" and "n \<le> length vals" and "\<forall>v \<in> set vals. c_value v"
    and "tbl m (a, x) = Some (map (entry m) ks)"
  shows "\<exists>m' ks'. add_row_paras tab m (append_slot r ks) a x (int (length ks)) n vals = Some (n \<le> free_paras m, m') \<and>
     represents m' (T1 @ (ps, L @ [(r, ks')] @ R) # T2) \<and> numbered m' (T1 @ (ps, L @ [(r, ks')] @ R) # T2) \<and>
     tbl m' = (tbl m)((a, x) \<mapsto> map (entry m) ks @ take (free_paras m) (new_entries nm (length ks) (take n vals)))"
  using assms
proof (induction n arbitrary: m ks vals)
  case 0
  then show ?case by (intro exI[of _ m] exI[of _ ks]) auto
next
  case (Suc n)
  note R = Suc.prems(1) and N = Suc.prems(2) and a = Suc.prems(3) and x = Suc.prems(4)
  from Suc.prems(7) obtain v vs where vals: "vals = v # vs" "n \<le> length vs" by (cases vals) auto
  with Suc.prems(8) have cv: "c_value v" "\<forall>v \<in> set vs. c_value v" by auto
  from str_tmp[OF cv(1)] obtain b where b: "(case v of None \<Rightarrow> Some (replicate MAX_VALUE_LEN NUL)
      | Some s \<Rightarrow> strncpy (replicate MAX_VALUE_LEN NUL) s (MAX_VALUE_LEN - 1)) = Some b"
    "cstr b = take (MAX_VALUE_LEN - 1) (nullstr v)" .
  let ?pid = "GET_PARA_ID a x (int (length ks) + 1)"
  have ar: "app_range a" using numbered_app(1)[OF N, of "length T1"] a by simp
  have "0 \<le> x" "x < 256" using numbered_app(3)[OF N, of "length T1" r ks] a x by auto
  note pid = id_fields[OF ar this, of "int (length ks) + 1"]
  show ?case
  proof (cases "free_paras m = 0")
    case True
    with R N show ?thesis
      by (intro exI[of _ m] exI[of _ ks]) (use Suc.prems(9) vals b in \<open>simp add: add_para_tail_full fun_upd_idem\<close>)
  next
    case False
    have len: "length ks + 1 < 256" using Suc.prems(5) by simp
    have nm: "NUL \<notin> set (nm (length ks))"
      "config_api_get_para_name_by_id tab a (int (length ks) + 1) = Some (Some (pad (MAX_NAME_LEN - 1) (nm (length ks))))"
      using Suc.prems(6) by (simp_all add: row_names_def)
    have "NUL \<notin> set (cstr b)" by (rule cstr_no_NUL)
    from add_para_tail_append[OF False pid nm(2,1) this, of r ks] len
    obtain j bn bv where j: "add_para_tail tab m (append_slot r ks) ?pid (cstr b) = Some (Some j, append_para m r ks j ?pid bn bv)"
      "j < length (paras m)" "\<not> para_live m j" "buf_ok MAX_NAME_LEN bn" "buf_ok MAX_VALUE_LEN bv"
      "cstr bn = take (MAX_NAME_LEN - 1) (nm (length ks))" "cstr bv = take (MAX_VALUE_LEN - 1) (cstr b)" by auto
    define m1 where "m1 = append_para m r ks j ?pid bn bv"
    note ap = append_para_numbered[OF R N j(2-5) a x len, folded m1_def]
    let ?e = "(take (MAX_NAME_LEN - 1) (nm (length ks)), take (MAX_VALUE_LEN - 1) (nullstr v))"
    have e: "(cstr bn, cstr bv) = ?e" using j(6,7) b(2) by simp
    have "\<exists>m' ks'. add_row_paras tab m1 (append_slot r (ks @ [j])) a x (int (length (ks @ [j]))) n vs = Some (n \<le> free_paras m1, m') \<and>
     represents m' (T1 @ (ps, L @ [(r, ks')] @ R) # T2) \<and> numbered m' (T1 @ (ps, L @ [(r, ks')] @ R) # T2) \<and>
     tbl m' = (tbl m1)((a, x) \<mapsto> map (entry m1) (ks @ [j]) @ take (free_paras m1) (new_entries nm (length (ks @ [j])) (take n vs)))"
      by (rule Suc.IH[OF ap(1,2,5,4) _ _ vals(2) cv(2)])
        (use Suc.prems(5,6) ap(3,6) in simp_all)
    then obtain m' ks' where m': "add_row_paras tab m1 (append_slot r (ks @ [j])) a x (int (length (ks @ [j]))) n vs = Some (n \<le> free_paras m1, m')"
     "represents m' (T1 @ (ps, L @ [(r, ks')] @ R) # T2)" "numbered m' (T1 @ (ps, L @ [(r, ks')] @ R) # T2)"
     "tbl m' = (tbl m1)((a, x) \<mapsto> map (entry m1) (ks @ [j]) @ take (free_paras m1) (new_entries nm (length (ks @ [j])) (take n vs)))"
      by blast
    have free: "free_paras m = Suc (free_paras m1)" using ap(7) by simp
    have "append_slot r (ks @ [j]) = Para_next j" by (simp add: append_slot_def)
    with m'(1) j(1) b(1) free
    have "add_row_paras tab m (append_slot r ks) a x (int (length ks)) (Suc n) vals = Some (Suc n \<le> free_paras m, m')"
      by (simp add: vals m1_def add.commute)
    moreover have "tbl m' = (tbl m)((a, x) \<mapsto> map (entry m) ks @ take (free_paras m) (new_entries nm (length ks) (take (Suc n) vals)))"
      unfolding m'(4) ap(3,6) free e vals(1) by simp
    ultimately show ?thesis using m'(2,3) by blast
  qed
qed

section \<open>The handler\<close>

lemma app_split:
  assumes "i < length T"
  obtains T1 ps rs T2 where "T = T1 @ (ps, rs) # T2" "length T1 = i"
proof
  show "T = take i T @ (fst (T ! i), snd (T ! i)) # drop (Suc i) T"
    using assms by (simp add: id_take_nth_drop[symmetric])
  show "length (take i T) = i" using assms by simp
qed

lemma app_present:
  assumes "represents m T" and "numbered m T" and "tbl m (a, 0) \<noteq> None"
  obtains i where "find_app m a = Some (Some i)" "i < length T" "app_id (apps m ! i) = a"
  using assms(1)
proof (cases rule: find_app_cases[where a = a])
  case None
  then have "db_plist m a 0 = Some None" by (simp add: db_plist_def)
  with assms(3) show ?thesis by (simp add: tbl.simps split: if_splits)
qed (use that in blast)

lemma tbl_row_None:
  assumes R: "represents m (T1 @ (ps, rs) # T2)" and N: "numbered m (T1 @ (ps, rs) # T2)"
    and a: "app_id (apps m ! length T1) = a" and x: "1 \<le> x" "x < 256"
  shows "tbl m (a, x) = None \<longleftrightarrow> (\<forall>q \<in> fst ` set rs. row_id (rows m ! q) \<noteq> GET_ROW_ID a x)"
proof -
  let ?T = "T1 @ (ps, rs) # T2" and ?i = "length T1"
  have nth: "?T ! ?i = (ps, rs)" "?i < length ?T" by simp_all
  have num: "row_id (rows m ! r) = GET_ROW_ID a x \<longleftrightarrow> row_number m a r = x" if "(r, ks) \<in> set rs" for r ks
    using numbered_app(3)[OF N nth(2), of r ks] that a nth(1) x small_is_int(2)[of x]
      small_is_int(2)[of "row_number m a r"] by auto
  have "tbl m (a, x) \<noteq> None \<longleftrightarrow> (\<exists>ks. ((a, x), ks) \<in> set (tree_lists m ?T))"
    using tbl_Some_iff[OF R N, of "(a, x)"] by auto
  also have "\<dots> \<longleftrightarrow> (\<exists>r ks. (r, ks) \<in> set rs \<and> row_number m a r = x)"
  proof
    assume "\<exists>ks. ((a, x), ks) \<in> set (tree_lists m ?T)"
    then obtain ks j r where "j < length ?T" "app_id (apps m ! j) = a" "(r, ks) \<in> set (snd (?T ! j))" "row_number m a r = x"
      unfolding in_tree_lists using x by auto
    moreover from this have "j = ?i" using numbered_app_unique[OF N R _ nth(2), of j] a by simp
    ultimately show "\<exists>r ks. (r, ks) \<in> set rs \<and> row_number m a r = x" using nth by auto
  next
    assume "\<exists>r ks. (r, ks) \<in> set rs \<and> row_number m a r = x"
    then show "\<exists>ks. ((a, x), ks) \<in> set (tree_lists m ?T)"
      unfolding in_tree_lists using nth a by (metis snd_conv)
  qed
  finally show ?thesis using num by force
qed

lemma add_row_at_spec:
  assumes R: "represents m (T1 @ (ps, L @ R) # T2)" and N: "numbered m (T1 @ (ps, L @ R) # T2)"
    and a: "app_id (apps m ! length T1) = a" and x: "1 \<le> x" "x < 256"
    and LR: "\<forall>q \<in> fst ` set L. row_id (rows m ! q) < GET_ROW_ID a x"
      "\<forall>q \<in> fst ` set R. GET_ROW_ID a x < row_id (rows m ! q)"
    and free: "free_rows m \<noteq> 0" and en: "en \<le> 256" and nm: "row_names tab a (nat (en - 1)) nm"
    and vals: "nat (en - 1) \<le> length vals" "hd vals \<noteq> None" "\<forall>v \<in> set vals. c_value v"
  shows "\<exists>m'. add_row_at tab m (length T1) a x (opt_last (map fst L)) (opt_hd (map fst R)) en vals
       = Some (nat (en - 1) \<le> free_paras m, m') \<and> wf_shm m' \<and>
     tbl m' = (tbl m)((a, x) \<mapsto> take (free_paras m) (new_entries nm 0 (take (nat (en - 1)) vals)))"
proof -
  from free find_free_row_None[of m] obtain r m0 where f: "find_free_row m = Some (r, m0)" by auto
  note f' = find_free_row_Some[OF f]
  define m1 where "m1 = insert_row m (length T1) r (GET_ROW_ID a x) (opt_last (map fst L)) (opt_hd (map fst R))"
  have R0: "represents m (T1 @ (ps, L @ [] @ R) # T2)" "numbered m (T1 @ (ps, L @ [] @ R) # T2)"
    using R N by simp_all
  note ins = insert_row_numbered[OF R0 f'(1,2) a x LR, folded m1_def]
  from add_row_tail_insert[OF f, of "length T1" "opt_last (map fst L)" "GET_ROW_ID a x" "opt_hd (map fst R)"]
  obtain m2 where m2: "add_row_tail m (slot_after (length T1) (opt_last (map fst L))) (GET_ROW_ID a x) = Some (r, m2)"
    "link_row m2 r (opt_hd (map fst R)) = m1" by (auto simp: m1_def)
  have a1: "app_id (apps m1 ! length T1) = a" using row_frameD(3)[OF ins(3)] a by simp
  have "paras m1 = paras m"
    unfolding m1_def insert_row_def link_row_def by (simp split: option.splits)
  then have fp: "free_paras m1 = free_paras m" by (simp add: free_paras_def)
  have "\<exists>m' ks'. add_row_paras tab m1 (append_slot r []) a x (int (length ([] :: plist))) (nat (en - 1)) vals
        = Some (nat (en - 1) \<le> free_paras m1, m') \<and>
     represents m' (T1 @ (ps, L @ [(r, ks')] @ R) # T2) \<and> numbered m' (T1 @ (ps, L @ [(r, ks')] @ R) # T2) \<and>
     tbl m' = (tbl m1)((a, x) \<mapsto> map (entry m1) [] @ take (free_paras m1) (new_entries nm (length ([] :: plist)) (take (nat (en - 1)) vals)))"
    by (rule add_row_paras_spec[OF ins(1,2) a1 ins(5) _ _ vals(1,3)]) (use en nm ins(4) in simp_all)
  then obtain m' ks' where m': "add_row_paras tab m1 (append_slot r []) a x 0 (nat (en - 1)) vals = Some (nat (en - 1) \<le> free_paras m, m')"
    "represents m' (T1 @ (ps, L @ [(r, ks')] @ R) # T2)" "numbered m' (T1 @ (ps, L @ [(r, ks')] @ R) # T2)"
    "tbl m' = (tbl m1)((a, x) \<mapsto> take (free_paras m) (new_entries nm 0 (take (nat (en - 1)) vals)))"
    by (auto simp: fp)
  have "add_row_at tab m (length T1) a x (opt_last (map fst L)) (opt_hd (map fst R)) en vals
       = Some (nat (en - 1) \<le> free_paras m, m')"
    using m'(1) m2 vals(2) by (auto simp: add_row_at_def append_slot_def)
  moreover have "wf_shm m'" using m'(2,3) by (auto simp: wf_shm_def)
  ultimately show ?thesis using m'(4) ins(4) by auto
qed

lemma add_row_at_full:
  "free_rows m = 0 \<Longrightarrow> add_row_at tab m i a x pre behind en vals = Some (False, m)"
  using find_free_row_None[of m] by (simp add: add_row_at_def add_row_tail_def)

definition row_pos :: "shm \<Rightarrow> int \<Rightarrow> nat \<Rightarrow> int \<Rightarrow> (int \<times> nat option \<times> nat option) option run" where
  "row_pos m a i x =
     (if x > 0
      then do { p \<leftarrow> row_position m (GET_ROW_ID a x) None (app_row (apps m ! i)); Some (map_option (\<lambda>pl. (x, pl)) p) }
      else do { p \<leftarrow> free_position m a 1 None (app_row (apps m ! i)); Some (Some p) })"

lemma add_table_row_pos:
  assumes "cache_addr c = Some m" and "app_range a" and "vals \<noteq> []" and "hd vals \<noteq> None"
    and "semv c = Some (Suc s)" and "find_app m a = Some (Some i)"
    and "config_api_app_exist_table tab a = Some (Some (mx, en))" and "0 \<le> x" and "x \<le> mx"
    and "row_pos m a i x = Some pos"
  shows "config_api_add_table_row tab c a x vals =
     (case pos of None \<Rightarrow> Some (- 1, c)
      | Some (y, pre, behind) \<Rightarrow>
          map_option (\<lambda>(ok, m'). if ok then (0, written c a m') else (- 1, c\<lparr>cache_addr := Some m'\<rparr>))
            (add_row_at tab m i a y pre behind en vals))"
  using assms
  by (auto simp: config_api_add_table_row_def row_pos_def app_range_def app_index_error_def check_library_def
      with_lock_free unlock_cache_def written_def map_option_case
      split: option.splits bind_splits if_splits)

lemma rows_sorted:
  assumes "numbered m (T1 @ (ps, rs) # T2)"
  shows "sorted_wrt (<) (map (\<lambda>e. row_id (rows m ! fst e)) rs)"
proof -
  have "app_numbered m (app_id (apps m ! length T1)) ((T1 @ (ps, rs) # T2) ! length T1)"
    using assms unfolding numbered_def by (metis add_Suc_right length_Cons length_append less_add_Suc1)
  then show ?thesis by (simp add: app_numbered_rows)
qed

lemma row_pos_given:
  assumes R: "represents m (T1 @ (ps, rs) # T2)" and N: "numbered m (T1 @ (ps, rs) # T2)"
    and a: "app_id (apps m ! length T1) = a" and x: "1 \<le> x" "x < 256"
  obtains (present) "tbl m (a, x) \<noteq> None" "row_pos m a (length T1) x = Some None"
  | (absent) L Rs where "tbl m (a, x) = None" "rs = L @ Rs"
      "row_pos m a (length T1) x = Some (Some (x, opt_last (map fst L), opt_hd (map fst Rs)))"
      "\<forall>q \<in> fst ` set L. row_id (rows m ! q) < GET_ROW_ID a x"
      "\<forall>q \<in> fst ` set Rs. GET_ROW_ID a x < row_id (rows m ! q)"
proof -
  let ?off = "app_row (apps m ! length T1)"
  have ch: "rchain m ?off (map fst rs)" using represents_app(3)[OF R, of "length T1"] by simp
  note none = tbl_row_None[OF R N a x]
  consider (abs) L Rs where "rs = L @ Rs" "\<forall>e \<in> set L. row_id (rows m ! fst e) < GET_ROW_ID a x"
      "\<forall>e \<in> set Rs. GET_ROW_ID a x < row_id (rows m ! fst e)"
    | (pres) L e Rs where "rs = L @ e # Rs" "\<forall>e \<in> set L. row_id (rows m ! fst e) < GET_ROW_ID a x"
      "row_id (rows m ! fst e) = GET_ROW_ID a x"
    using sorted_split_at[OF rows_sorted[OF N], of "GET_ROW_ID a x"] by blast
  then show ?thesis
  proof cases
    case abs
    have "row_position m (GET_ROW_ID a x) None ?off
        = Some (Some (pred_row None (map fst L), opt_hd (map fst Rs)))"
      proof (rule row_position_absent)
      show "rchain m ?off (map fst L @ map fst Rs)" using ch abs(1) by simp
      show "\<forall>r \<in> set (map fst L). row_id (rows m ! r) < GET_ROW_ID a x" using abs(2) by simp
      show "map fst Rs = [] \<or> GET_ROW_ID a x < row_id (rows m ! hd (map fst Rs))"
        using abs(3) by (cases Rs) auto
    qed
    moreover have "tbl m (a, x) = None" unfolding none using abs by fastforce
    ultimately show ?thesis using absent[of L Rs] abs x by (simp add: row_pos_def)
  next
    case pres
    have "row_position m (GET_ROW_ID a x) None ?off = Some None"
      by (rule row_position_present[of m _ "map fst L" "fst e" "map fst Rs"]) (use ch pres in auto)
    moreover have "tbl m (a, x) \<noteq> None" unfolding none using pres by auto
    ultimately show ?thesis using present x by (simp add: row_pos_def)
  qed
qed

text \<open>With row number 0 the smallest free number is taken.\<close>

lemma strict_from_one:
  fixes f :: "'a \<Rightarrow> int"
  assumes "sorted_wrt (<) (map f (L @ R))" and "\<forall>n < length L. f (L ! n) = 1 + int n"
    and "R = [] \<or> f (hd R) \<noteq> 1 + int (length L)" and "\<forall>e \<in> set (L @ R). 1 \<le> f e"
  shows "\<forall>e \<in> set R. 1 + int (length L) < f e"
proof (cases R)
  case (Cons e es)
  have le: "int (length L) < f e"
  proof (cases "L = []")
    case False
    then have "0 < length L" by simp
    then have "f (last L) = int (length L)" using assms(2) False by (simp add: last_conv_nth of_nat_diff Suc_le_eq)
    moreover have "f (last L) < f e" using assms(1) False Cons by (simp add: sorted_wrt_append)
    ultimately show ?thesis by simp
  qed (use assms(4) Cons in auto)
  then have "1 + int (length L) < f e" using assms(3) Cons by auto
  moreover have "\<forall>q \<in> set es. f e < f q" using assms(1) Cons by (simp add: sorted_wrt_append)
  ultimately show ?thesis using Cons by auto
qed simp

lemma filter_complement: "length (filter P xs) + length (filter (\<lambda>x. \<not> P x) xs) = length xs"
  by (induction xs) auto

lemma used_rows:
  assumes R: "represents m (T1 @ (ps, rs) # T2)" and free: "free_rows m \<noteq> 0"
  shows "length rs < length (rows m)"
proof -
  let ?U = "{r. r < length (rows m) \<and> row_live m r}"
  have "set (map fst rs) \<subseteq> ?U" using tree_rows_live[OF R] by auto
  then have "card (set (map fst rs)) \<le> card ?U" by (intro card_mono) auto
  moreover have "distinct (map fst rs)" using R by (auto simp: represents_def)
  then have "card (set (map fst rs)) = length rs" by (metis distinct_card length_map)
  moreover have "card ?U = length (filter (\<lambda>r. row_id r \<noteq> - 1) (rows m))"
    by (simp add: length_filter_conv_card)
  ultimately show ?thesis
    using filter_complement[of "\<lambda>r. row_id r = - 1" "rows m"] free
    unfolding free_rows_def by linarith
qed

lemma row_pos_free:
  assumes R: "represents m (T1 @ (ps, rs) # T2)" and N: "numbered m (T1 @ (ps, rs) # T2)"
    and a: "app_id (apps m ! length T1) = a" and free: "free_rows m \<noteq> 0" and max: "length (rows m) \<le> 255"
  obtains y L Rs where "1 \<le> y" "y < 256" "tbl m (a, y) = None" "\<forall>z. 1 \<le> z \<and> z < y \<longrightarrow> tbl m (a, z) \<noteq> None"
      "rs = L @ Rs"
      "row_pos m a (length T1) 0 = Some (Some (y, opt_last (map fst L), opt_hd (map fst Rs)))"
      "\<forall>q \<in> fst ` set L. row_id (rows m ! q) < GET_ROW_ID a y"
      "\<forall>q \<in> fst ` set Rs. GET_ROW_ID a y < row_id (rows m ! q)"
proof -
  let ?off = "app_row (apps m ! length T1)" and ?f = "\<lambda>e. row_number m a (fst e)"
  have ar: "app_range a" using numbered_app(1)[OF N, of "length T1"] a by simp
  have ch: "rchain m ?off (map fst rs)" using represents_app(3)[OF R, of "length T1"] by simp
  obtain L Rs where rs: "rs = L @ Rs" and L: "\<forall>n < length L. ?f (L ! n) = 1 + int n"
    and Rs: "Rs = [] \<or> ?f (hd Rs) \<noteq> 1 + int (length L)" using gap_split[of rs ?f 1] by blast
  define y where "y = 1 + int (length L)"
  have num: "1 \<le> ?f e \<and> ?f e < 256 \<and> row_id (rows m ! fst e) = a * 65536 + ?f e * 256" if "e \<in> set rs" for e
  proof -
    from that have e: "(fst e, snd e) \<in> set (snd ((T1 @ (ps, rs) # T2) ! length T1))" by simp
    show ?thesis
      using numbered_app(3)[OF N _ e] a ids_exact(1)[OF ar, of "?f e"] by simp
  qed
  have "length L < length (rows m)" using used_rows[OF R free] rs by simp
  with max have y: "1 \<le> y" "y < 256" by (simp_all add: y_def)
  have ids: "GET_ROW_ID a z = a * 65536 + z * 256" if "1 \<le> z" "z \<le> y" for z
    using that y ids_exact(1)[OF ar, of z] by simp
  have "sorted_wrt (<) (map ?f (L @ Rs))"
  proof -
    have "sorted_wrt (\<lambda>e q. row_id (rows m ! fst e) < row_id (rows m ! fst q)) rs"
      using rows_sorted[OF N] by (simp add: sorted_wrt_map)
    then show ?thesis
      unfolding rs[symmetric] sorted_wrt_map
      by (rule sorted_wrt_mono_rel[rotated]) (use num in auto)
  qed
  from strict_from_one[OF this L] Rs num rs have big: "\<forall>e \<in> set Rs. y < ?f e"
    by (auto simp: y_def)
  have small: "\<forall>e \<in> set L. ?f e < y" 
  proof
    fix e assume "e \<in> set L"
    then obtain n where "n < length L" "e = L ! n" by (auto simp: in_set_conv_nth)
    with L show "?f e < y" by (simp add: y_def)
  qed
  have LR: "\<forall>q \<in> fst ` set L. row_id (rows m ! q) < GET_ROW_ID a y"
      "\<forall>q \<in> fst ` set Rs. GET_ROW_ID a y < row_id (rows m ! q)"
    using num rs big small ids[of y] y by auto
  have "free_position m a 1 None ?off = Some (1 + int (length (map fst L)), pred_row None (map fst L), opt_hd (map fst Rs))"
  proof (rule free_position_split)
    show "rchain m ?off (map fst L @ map fst Rs)" using ch rs by simp
    show "row_id (rows m ! (map fst L ! n)) = GET_ROW_ID a (1 + int n)" if "n < length (map fst L)" for n
    proof -
      have n: "n < length L" using that by simp
      then have "L ! n \<in> set rs" by (simp add: rs)
      with num[of "L ! n"] L n ids[of "1 + int n"] show ?thesis by (simp add: y_def)
    qed
    show "map fst Rs = [] \<or> row_id (rows m ! hd (map fst Rs)) \<noteq> GET_ROW_ID a (1 + int (length (map fst L)))"
      using LR(2) by (cases Rs) (auto simp: y_def)
  qed
  then have pos: "row_pos m a (length T1) 0 = Some (Some (y, opt_last (map fst L), opt_hd (map fst Rs)))"
    by (simp add: row_pos_def y_def)
  have "tbl m (a, y) = None" unfolding tbl_row_None[OF R N a y] using LR rs by fastforce
  moreover have "tbl m (a, z) \<noteq> None" if z: "1 \<le> z" "z < y" for z
  proof -
    have n: "nat (z - 1) < length L" using z by (simp add: y_def)
    then have "L ! nat (z - 1) \<in> set rs" by (simp add: rs)
    moreover have "?f (L ! nat (z - 1)) = z" using L n z by simp
    ultimately have "row_id (rows m ! fst (L ! nat (z - 1))) = GET_ROW_ID a z"
      using num[of "L ! nat (z - 1)"] ids[of z] z by simp
    with \<open>L ! nat (z - 1) \<in> set rs\<close> show ?thesis
      using tbl_row_None[OF R N a, of z] z y by auto
  qed
  ultimately show ?thesis using that y pos LR rs by blast
qed

text \<open>
  What a caller has to supply for a row of application \<open>a\<close>: a table entry for it, and the values.
\<close>

definition row_args ::
    "tcmEntityInfo list \<Rightarrow> int \<Rightarrow> int \<Rightarrow> int \<Rightarrow> (nat \<Rightarrow> string) \<Rightarrow> string option list \<Rightarrow> bool" where
  "row_args tab a mx en nm vals \<longleftrightarrow> config_api_app_exist_table tab a = Some (Some (mx, en)) \<and>
     en \<le> 256 \<and> row_names tab a (nat (en - 1)) nm \<and> nat (en - 1) \<le> length vals \<and>
     vals \<noteq> [] \<and> hd vals \<noteq> None \<and> (\<forall>v \<in> set vals. c_value v)"

definition ready :: "conf \<Rightarrow> shm \<Rightarrow> bool" where
  "ready c m \<longleftrightarrow> cache_addr c = Some m \<and> wf_shm m \<and> (\<exists>s. semv c = Some (Suc s))"

text \<open>The outcome of a try to add row \<open>y\<close>.\<close>

definition added ::
    "conf \<Rightarrow> shm \<Rightarrow> int \<Rightarrow> int \<Rightarrow> int \<Rightarrow> (nat \<Rightarrow> string) \<Rightarrow> string option list \<Rightarrow> (int \<times> conf) run \<Rightarrow> bool" where
  "added c m a y en nm vals out \<longleftrightarrow>
     (\<exists>m'. out = Some (if nat (en - 1) \<le> free_paras m then (0, written c a m') else (- 1, c\<lparr>cache_addr := Some m'\<rparr>)) \<and>
        wf_shm m' \<and>
        tbl m' = (tbl m)((a, y) \<mapsto> take (free_paras m) (new_entries nm 0 (take (nat (en - 1)) vals))))"

lemma add_row_outcome:
  assumes T: "represents m (T1 @ (ps, L @ Rs) # T2)" "numbered m (T1 @ (ps, L @ Rs) # T2)"
    and a: "app_id (apps m ! length T1) = a" and y: "1 \<le> y" "y < 256"
    and LR: "\<forall>q \<in> fst ` set L. row_id (rows m ! q) < GET_ROW_ID a y"
      "\<forall>q \<in> fst ` set Rs. GET_ROW_ID a y < row_id (rows m ! q)"
    and free: "free_rows m \<noteq> 0" and args: "row_args tab a mx en nm vals"
  shows "added c m a y en nm vals
     (map_option (\<lambda>(ok, m'). if ok then (0, written c a m') else (- 1, c\<lparr>cache_addr := Some m'\<rparr>))
        (add_row_at tab m (length T1) a y (opt_last (map fst L)) (opt_hd (map fst Rs)) en vals))"
proof -
  from args have "en \<le> 256" "row_names tab a (nat (en - 1)) nm" "nat (en - 1) \<le> length vals"
    "hd vals \<noteq> None" "\<forall>v \<in> set vals. c_value v" by (auto simp: row_args_def)
  from add_row_at_spec[OF T a y LR free this] obtain m' where
    "add_row_at tab m (length T1) a y (opt_last (map fst L)) (opt_hd (map fst Rs)) en vals
       = Some (nat (en - 1) \<le> free_paras m, m')" "wf_shm m'"
    "tbl m' = (tbl m)((a, y) \<mapsto> take (free_paras m) (new_entries nm 0 (take (nat (en - 1)) vals)))" by blast
  then show ?thesis unfolding added_def by (intro exI[of _ m']) simp
qed

lemma add_given:
  assumes c: "ready c m" and ar: "app_range a" and app: "tbl m (a, 0) \<noteq> None"
    and args: "row_args tab a mx en nm vals" and x: "1 \<le> x" "x \<le> mx" "x < 256"
  shows "tbl m (a, x) \<noteq> None \<Longrightarrow> config_api_add_table_row tab c a x vals = Some (- 1, c)"
    and "tbl m (a, x) = None \<Longrightarrow> free_rows m = 0 \<Longrightarrow> config_api_add_table_row tab c a x vals = Some (- 1, c)"
    and "tbl m (a, x) = None \<Longrightarrow> free_rows m \<noteq> 0 \<Longrightarrow>
       added c m a x en nm vals (config_api_add_table_row tab c a x vals)"
proof -
  from c obtain s where c': "cache_addr c = Some m" "wf_shm m" "semv c = Some (Suc s)" by (auto simp: ready_def)
  from c'(2) obtain T where T: "represents m T" "numbered m T" by (rule wf_shmE)
  from app_present[OF T app] obtain i where i: "find_app m a = Some (Some i)" "i < length T" "app_id (apps m ! i) = a" .
  from app_split[OF i(2)] obtain T1 ps rs T2 where split: "T = T1 @ (ps, rs) # T2" "length T1 = i" .
  note T' = T[unfolded split(1)]
  have a: "app_id (apps m ! length T1) = a" using i split by simp
  have args': "vals \<noteq> []" "hd vals \<noteq> None" "config_api_app_exist_table tab a = Some (Some (mx, en))"
    using args by (auto simp: row_args_def)
  note H = add_table_row_pos[OF c'(1) ar args'(1,2) c'(3) i(1) args'(3) _ x(2)]
  have x0: "0 \<le> x" using x by simp
  have cc: "c\<lparr>cache_addr := Some m\<rparr> = c" using c'(1) by simp
  from T' a x(1,3) show "config_api_add_table_row tab c a x vals = Some (- 1, c)" if "tbl m (a, x) \<noteq> None"
  proof (cases rule: row_pos_given)
    case present
    then show ?thesis using H[OF x0] split(2) by simp
  qed (use that in simp)
  from T' a x(1,3) show "config_api_add_table_row tab c a x vals = Some (- 1, c)"
    if "tbl m (a, x) = None" "free_rows m = 0"
  proof (cases rule: row_pos_given)
    case (absent L Rs)
    then show ?thesis using H[OF x0] split(2) that(2) cc by (simp add: add_row_at_full)
  qed (use that in simp)
  from T' a x(1,3) show "added c m a x en nm vals (config_api_add_table_row tab c a x vals)"
    if "tbl m (a, x) = None" "free_rows m \<noteq> 0"
  proof (cases rule: row_pos_given)
    case (absent L Rs)
    from add_row_outcome[OF T'[unfolded absent(2)] a x(1,3) absent(4,5) that(2) args, of c]
    show ?thesis using H[OF x0, of "Some (x, opt_last (map fst L), opt_hd (map fst Rs))"] absent(3) split(2) by simp
  qed (use that in simp)
qed

lemma add_free:
  assumes c: "ready c m" and ar: "app_range a" and app: "tbl m (a, 0) \<noteq> None"
    and args: "row_args tab a mx en nm vals" and mx: "0 \<le> mx"
    and free: "free_rows m \<noteq> 0" and max: "length (rows m) \<le> 255"
  obtains y where "1 \<le> y" "y < 256" "tbl m (a, y) = None" "\<forall>z. 1 \<le> z \<and> z < y \<longrightarrow> tbl m (a, z) \<noteq> None"
    "added c m a y en nm vals (config_api_add_table_row tab c a 0 vals)"
proof -
  from c obtain s where c': "cache_addr c = Some m" "wf_shm m" "semv c = Some (Suc s)" by (auto simp: ready_def)
  from c'(2) obtain T where T: "represents m T" "numbered m T" by (rule wf_shmE)
  from app_present[OF T app] obtain i where i: "find_app m a = Some (Some i)" "i < length T" "app_id (apps m ! i) = a" .
  from app_split[OF i(2)] obtain T1 ps rs T2 where split: "T = T1 @ (ps, rs) # T2" "length T1 = i" .
  note T' = T[unfolded split(1)]
  have a: "app_id (apps m ! length T1) = a" using i split by simp
  have args': "vals \<noteq> []" "hd vals \<noteq> None" "config_api_app_exist_table tab a = Some (Some (mx, en))"
    using args by (auto simp: row_args_def)
  note H = add_table_row_pos[OF c'(1) ar args'(1,2) c'(3) i(1) args'(3) order_refl mx]
  from row_pos_free[OF T' a free max] obtain y L Rs where y: "1 \<le> y" "y < 256" "tbl m (a, y) = None"
      "\<forall>z. 1 \<le> z \<and> z < y \<longrightarrow> tbl m (a, z) \<noteq> None" "rs = L @ Rs"
      "row_pos m a (length T1) 0 = Some (Some (y, opt_last (map fst L), opt_hd (map fst Rs)))"
      "\<forall>q \<in> fst ` set L. row_id (rows m ! q) < GET_ROW_ID a y"
      "\<forall>q \<in> fst ` set Rs. GET_ROW_ID a y < row_id (rows m ! q)" .
  from add_row_outcome[OF T'[unfolded y(5)] a y(1,2,7,8) free args, of c]
  have "added c m a y en nm vals (config_api_add_table_row tab c a 0 vals)"
    using H[of "Some (y, opt_last (map fst L), opt_hd (map fst Rs))"] y(6) split(2) by simp
  with y that show ?thesis by blast
qed

end
