(* ===== verification/Conf_Delete.thy ===== *)
theory Conf_Delete
  imports Conf_Add
begin

text \<open>
  Deleting a row: the handler unlinks exactly one row, gives its nodes back and leaves every
  other row as it was.
\<close>

section \<open>Clearing the parameters of a row\<close>

lemma clear_para_fields [simp]:
  "apps (clear_para m j) = apps m" "rows (clear_para m j) = rows m"
  "length (paras (clear_para m j)) = length (paras m)"
  "k \<noteq> j \<Longrightarrow> paras (clear_para m j) ! k = paras m ! k"
  by (simp_all add: clear_para_def)

lemma clear_para_shape: "same_shape m (clear_para m j)"
  by (simp add: same_shape_def)

abbreviation cleared :: "shm \<Rightarrow> plist \<Rightarrow> shm" where
  "cleared m ks \<equiv> foldl clear_para m ks"

lemma cleared_fields [simp]:
  "apps (cleared m ks) = apps m" "rows (cleared m ks) = rows m"
  "length (paras (cleared m ks)) = length (paras m)"
  "k \<notin> set ks \<Longrightarrow> paras (cleared m ks) ! k = paras m ! k"
  by (induction ks arbitrary: m) auto

lemma clear_paras_chain:
  assumes "pchain m off ks"
  shows "clear_paras m off = Some (cleared m ks)"
  using assms
proof (induction ks arbitrary: m off)
  case Nil
  then show ?case by (simp add: clear_paras.simps)
next
  case (Cons j ks)
  have j: "j \<notin> set ks" using chain_distinct[OF Cons.prems] by simp
  have "pchain m (para_next (paras m ! j)) ks" using Cons.prems by simp
  then have "pchain (clear_para m j) (para_next (paras m ! j)) ks"
    by (rule pchain_frame[OF _ clear_para_shape]) (metis clear_para_fields(4) j)
  with Cons.IH Cons.prems show ?case by (simp add: clear_paras.simps[of m])
qed

lemma free_paras_cleared:
  assumes "distinct ks" and "\<forall>j \<in> set ks. j < length (paras m) \<and> para_live m j"
  shows "free_paras (cleared m ks) = free_paras m + length ks"
  using assms
proof (induction ks arbitrary: m)
  case (Cons j ks)
  have "free_paras (clear_para m j) = Suc (free_paras m)"
    using length_filter_update[of j "paras m" "\<lambda>p. para_id p = - 1"] Cons.prems
    by (simp add: free_paras_def clear_para_def)
  moreover have "free_paras (cleared (clear_para m j) ks) = free_paras (clear_para m j) + length ks"
  proof (rule Cons.IH)
    show "distinct ks" using Cons.prems by simp
    show "\<forall>k \<in> set ks. k < length (paras (clear_para m j)) \<and> para_live (clear_para m j) k"
    proof
      fix k assume "k \<in> set ks"
      with Cons.prems have "k \<noteq> j" "k < length (paras m)" "para_live m k" by auto
      then show "k < length (paras (clear_para m j)) \<and> para_live (clear_para m j) k" by simp
    qed
  qed
  ultimately show ?case by simp
qed simp

lemma buf_ok_cleared: "buf_ok n b \<Longrightarrow> buf_ok n (b[0 := NUL])"
  by (cases b rule: rev_cases) (auto simp: buf_ok_def last_list_update list_update_append)

lemma bufs_cleared:
  assumes "bufs_ok m"
  shows "bufs_ok (cleared m ks)"
  using assms
proof (induction ks arbitrary: m)
  case (Cons j ks)
  have "bufs_ok (clear_para m j)"
  proof (cases "j < length (paras m)")
    case True
    with Cons.prems show ?thesis
      by (auto simp: bufs_ok_def clear_para_def buf_ok_cleared all_set_conv_all_nth nth_list_update)
  next
    case False
    with Cons.prems show ?thesis by (simp add: bufs_ok_def clear_para_def list_update_beyond)
  qed
  then show ?case using Cons.IH by simp
qed simp

section \<open>Unlinking the row\<close>

definition remove_row :: "shm \<Rightarrow> nat \<Rightarrow> nat option \<Rightarrow> nat \<Rightarrow> plist \<Rightarrow> shm" where
  "remove_row m i prev r ks =
     (let m1 = cleared m ks in
      set_row_slot (m1\<lparr>rows := (rows m1)[r := \<lparr>row_id = - 1, row_para = 0, row_next = 0\<rparr>]\<rparr>)
        (slot_after i prev) (row_next (rows m ! r)))"

lemma delete_row_node_remove:
  "pchain m (row_para (rows m ! r)) ks \<Longrightarrow> delete_row_node m i prev r = Some (remove_row m i prev r ks)"
  by (simp add: delete_row_node_def remove_row_def clear_paras_chain Let_def)

lemma remove_row_fields:
  fixes m i r prev ks
  defines "m' \<equiv> remove_row m i prev r ks"
  assumes r: "r < length (rows m)" and i: "i < length (apps m)"
    and pre: "\<forall>q. prev = Some q \<longrightarrow> q < length (rows m) \<and> q \<noteq> r"
  shows "paras m' = paras (cleared m ks)"
    and "apps m' ! k = (if k = i \<and> prev = None then (apps m ! i)\<lparr>app_row := row_next (rows m ! r)\<rparr> else apps m ! k)"
    and "rows m' ! r = \<lparr>row_id = - 1, row_para = 0, row_next = 0\<rparr>"
    and "q \<noteq> r \<Longrightarrow> rows m' ! q = (if prev = Some q then (rows m ! q)\<lparr>row_next := row_next (rows m ! r)\<rparr> else rows m ! q)"
    and "same_shape m m'"
proof -
  note defs = m'_def remove_row_def Let_def
  show "paras m' = paras (cleared m ks)" by (simp add: defs)
  show "apps m' ! k = (if k = i \<and> prev = None then (apps m ! i)\<lparr>app_row := row_next (rows m ! r)\<rparr> else apps m ! k)"
    using i by (cases prev) (auto simp: defs slot_after_def)
  show "rows m' ! r = \<lparr>row_id = - 1, row_para = 0, row_next = 0\<rparr>"
    using r pre by (cases prev) (auto simp: defs slot_after_def)
  show "same_shape m m'" by (simp add: same_shape_def defs)
  assume "q \<noteq> r"
  then show "rows m' ! q = (if prev = Some q then (rows m ! q)\<lparr>row_next := row_next (rows m ! r)\<rparr> else rows m ! q)"
    using r pre by (cases prev) (auto simp: defs slot_after_def)
qed

lemma free_rows_removed:
  assumes "r < length (rows m)" "row_live m r" and pre: "\<forall>q. prev = Some q \<longrightarrow> q < length (rows m) \<and> q \<noteq> r"
  shows "free_rows (remove_row m i prev r ks) = Suc (free_rows m)"
proof -
  let ?d = "\<lparr>row_id = - 1, row_para = 0, row_next = 0\<rparr>" and ?f = "\<lambda>r. row_id r = - 1"
  have 1: "length (filter ?f ((rows m)[r := ?d])) = Suc (length (filter ?f (rows m)))"
    using length_filter_update[of r "rows m" ?f ?d] assms by simp
  have "length (filter ?f ((rows m)[r := ?d, q := ((rows m) ! q)\<lparr>row_next := z\<rparr>]))
      = length (filter ?f ((rows m)[r := ?d]))" if "q \<noteq> r" "q < length (rows m)" for q z
    using length_filter_update[of q "(rows m)[r := ?d]" ?f "((rows m) ! q)\<lparr>row_next := z\<rparr>"] that
    by (simp split: if_splits)
  with 1 pre show ?thesis
    by (cases prev) (simp_all add: free_rows_def remove_row_def slot_after_def Let_def)
qed

lemma remove_row_numbered:
  assumes R: "represents m (T1 @ (ps, L @ [(r, ks)] @ R) # T2)" and N: "numbered m (T1 @ (ps, L @ [(r, ks)] @ R) # T2)"
    and a: "app_id (apps m ! length T1) = a" and x: "row_number m a r = x"
  defines "m' \<equiv> remove_row m (length T1) (opt_last (map fst L)) r ks"
  shows "represents m' (T1 @ (ps, L @ [] @ R) # T2)" and "numbered m' (T1 @ (ps, L @ [] @ R) # T2)"
    and "tbl m' = (tbl m)((a, x) := None)"
    and "free_rows m' = Suc (free_rows m)" and "free_paras m' = free_paras m + length ks"
proof -
  let ?i = "length T1" and ?T = "T1 @ (ps, L @ [(r, ks)] @ R) # T2"
  have i: "?i < length (apps m)" using represents_app(1)[OF R, of ?i] by simp
  have drows: "distinct (tree_rows ?T)" using R by (simp add: represents_def)
  have dLR: "distinct (map fst L @ r # map fst R)" using drows by auto
  have nr: "r \<notin> other_rows T1 L R T2" using drows by (auto simp: other_rows_def)
  have r: "r < length (rows m)" "row_live m r" using tree_rows_live[OF R, of r] by auto
  have lq: "q < length (rows m) \<and> q \<noteq> r \<and> q \<notin> set (tree_rows T1) \<union> set (tree_rows T2) \<and>
      q \<notin> set (butlast (map fst L)) \<and> q \<notin> set (map fst R)" if "opt_last (map fst L) = Some q" for q
  proof -
    have inL: "q \<in> set (map fst L)" and q: "q = last (map fst L)" using opt_last_in[OF that] by auto
    have dL: "distinct (map fst L)" using dLR by simp
    have "q \<notin> set (butlast (map fst L))" using butlast_last_distinct[OF dL] q by metis
    moreover have "q < length (rows m)" using inL by (intro tree_rows_live(2)[OF R]) auto
    ultimately show ?thesis using inL dLR drows by auto
  qed
  then have pre: "\<forall>q. opt_last (map fst L) = Some q \<longrightarrow> q < length (rows m) \<and> q \<noteq> r" by blast
  note fl = remove_row_fields[OF r(1) i pre, where ks = ks, folded m'_def]
  have ids: "row_id (rows m' ! q) = row_id (rows m ! q)" "row_para (rows m' ! q) = row_para (rows m ! q)"
    if "q \<noteq> r" for q using that by (simp_all add: fl(4))
  have nextq: "row_next (rows m' ! q) = row_next (rows m ! q)" if "q \<noteq> r" "opt_last (map fst L) \<noteq> Some q" for q
    using that by (simp add: fl(4))
  note ap = row_paras_apart[OF R]
  have frame: "row_frame m m' T1 ps L R T2"
    unfolding row_frame_def
  proof (intro conjI allI impI ballI)
    show "same_shape m m'" by (rule fl(5))
    show "apps m' ! k = apps m ! k" if "k \<noteq> ?i" for k using that by (simp add: fl(2))
    show "\<exists>z. apps m' ! ?i = (apps m ! ?i)\<lparr>app_row := z\<rparr>"
      by (cases "opt_last (map fst L)") (auto simp: fl(2) intro: exI[of _ "app_row (apps m ! ?i)"])
    fix q
    show "row_id (rows m' ! q) = row_id (rows m ! q)" "row_para (rows m' ! q) = row_para (rows m ! q)"
      if "q \<in> other_rows T1 L R T2"
      by (rule ids, metis nr that)+
    show "row_next (rows m' ! q) = row_next (rows m ! q)" if "q \<in> set (tree_rows T1) \<union> set (tree_rows T2)"
    proof (rule nextq)
      show "q \<noteq> r" using nr that by (auto simp: other_rows_def)
      show "opt_last (map fst L) \<noteq> Some q" using lq[of q] that by blast
    qed
  next
    fix k assume "k \<in> other_paras T1 ps L R T2"
    then have "k \<notin> set ks" using ap(1) by blast
    then show "paras m' ! k = paras m ! k" by (simp add: fl(1))
  qed
  have old: "rchain m (app_row (apps m ! ?i)) (map fst L @ r # map fst R)"
    using represents_app(3)[OF R, of ?i] by simp
  have live: "row_live m' n = row_live m n" if "n \<in> set (map fst L) \<union> set (map fst R)" for n
    using that row_frameD(7)[OF frame, of n] by (auto simp: other_rows_def)
  have nxt: "row_next (rows m' ! n) = row_next (rows m ! n)"
    if n: "n \<in> set (butlast (map fst L)) \<union> set (map fst R)" for n
  proof (rule nextq)
    have "n \<in> set (map fst L) \<union> set (map fst R)" using n by (metis Un_iff in_set_butlastD)
    then show "n \<noteq> r" using dLR by auto
    show "opt_last (map fst L) \<noteq> Some n" using lq[of n] n by blast
  qed
  have "rchain m' (if map fst L = [] then row_next (rows m ! r) else app_row (apps m ! ?i)) (map fst L @ map fst R)"
    unfolding same_shape_at[OF fl(5)]
  proof (rule path_remove[OF old live nxt])
    show "row_next (rows m' ! last (map fst L)) = row_next (rows m ! r)" if "map fst L \<noteq> []"
      using that pre by (simp add: fl(4) opt_last_def)
  qed
  moreover have "app_row (apps m' ! ?i) = (if map fst L = [] then row_next (rows m ! r) else app_row (apps m ! ?i))"
    by (simp add: fl(2) opt_last_def)
  ultimately have rch: "rchain m' (app_row (apps m' ! ?i)) (map fst (L @ [] @ R))" by simp
  show rep': "represents m' (T1 @ (ps, L @ [] @ R) # T2)"
  proof (rule represents_row[OF R frame rch])
    have "bufs_ok (cleared m ks)" using R by (intro bufs_cleared) (simp add: represents_def)
    then show "bufs_ok m'"
      using fl(1,5) row_frameD(6)[OF frame]
      by (simp add: bufs_ok_def all_set_conv_all_nth same_shape_def)
  qed simp_all
  show num': "numbered m' (T1 @ (ps, L @ [] @ R) # T2)"
  proof (rule numbered_row[OF N _ frame a])
    show "length ?T \<le> length (apps m)" using R unfolding represents_def apps_ok_def by blast
    have eq: "map (\<lambda>e. row_id (rows m' ! fst e)) L = map (\<lambda>e. row_id (rows m ! fst e)) L"
      "map (\<lambda>e. row_id (rows m' ! fst e)) R = map (\<lambda>e. row_id (rows m ! fst e)) R"
      using dLR by (auto intro!: ids)
    show "sorted_wrt (<) (map (\<lambda>e. row_id (rows m' ! fst e)) (L @ [] @ R))"
      using rows_sorted[OF N] unfolding map_append eq by (simp add: sorted_wrt_append)
  qed simp
  show "tbl m' = (tbl m)((a, x) := None)"
    by (rule tbl_row_drop[OF R N rep' num' frame a x])
  show "free_rows m' = Suc (free_rows m)"
    unfolding m'_def by (rule free_rows_removed[OF r pre])
  have "free_paras m' = free_paras (cleared m ks)" by (simp add: free_paras_def fl(1))
  also have "\<dots> = free_paras m + length ks"
    using ap(2) tree_paras_live[OF R] by (intro free_paras_cleared) auto
  finally show "free_paras m' = free_paras m + length ks" .
qed

section \<open>The handler\<close>

lemma delete_position_present:
  assumes "rchain m off (L @ r # R)" and "\<forall>r \<in> set L. row_id (rows m ! r) < rid"
    and "row_id (rows m ! r) = rid"
  shows "delete_position m rid prev off = Some (Some (pred_row prev L, r))"
  using assms by (induction L arbitrary: off prev) (auto simp: delete_position.simps[of m rid])

lemma delete_position_absent:
  assumes "rchain m off (L @ R)" and "\<forall>r \<in> set L. row_id (rows m ! r) < rid"
    and "R = [] \<or> rid < row_id (rows m ! hd R)"
  shows "delete_position m rid prev off = Some None"
  using assms
proof (induction L arbitrary: off prev)
  case Nil
  then show ?case by (cases R) (auto simp: delete_position.simps)
qed (auto simp: delete_position.simps[of m rid])

lemma delete_pos_given:
  assumes R: "represents m (T1 @ (ps, rs) # T2)" and N: "numbered m (T1 @ (ps, rs) # T2)"
    and a: "app_id (apps m ! length T1) = a" and x: "1 \<le> x" "x < 256"
  obtains (absent) "tbl m (a, x) = None"
      "delete_position m (GET_ROW_ID a x) None (app_row (apps m ! length T1)) = Some None"
  | (present) L r ks Rs where "tbl m (a, x) \<noteq> None" "rs = L @ [(r, ks)] @ Rs" "row_number m a r = x"
      "delete_position m (GET_ROW_ID a x) None (app_row (apps m ! length T1)) = Some (Some (opt_last (map fst L), r))"
proof -
  let ?off = "app_row (apps m ! length T1)"
  have ch: "rchain m ?off (map fst rs)" using represents_app(3)[OF R, of "length T1"] by simp
  note none = tbl_row_None[OF R N a x]
  have ar: "app_range a" using numbered_app(1)[OF N, of "length T1"] a by simp
  consider (abs) L Rs where "rs = L @ Rs" "\<forall>e \<in> set L. row_id (rows m ! fst e) < GET_ROW_ID a x"
      "\<forall>e \<in> set Rs. GET_ROW_ID a x < row_id (rows m ! fst e)"
    | (pres) L e Rs where "rs = L @ e # Rs" "\<forall>e \<in> set L. row_id (rows m ! fst e) < GET_ROW_ID a x"
      "row_id (rows m ! fst e) = GET_ROW_ID a x"
    using sorted_split_at[OF rows_sorted[OF N], of "GET_ROW_ID a x"] by blast
  then show ?thesis
  proof cases
    case abs
    have "delete_position m (GET_ROW_ID a x) None ?off = Some None"
    proof (rule delete_position_absent)
      show "rchain m ?off (map fst L @ map fst Rs)" using ch abs(1) by simp
      show "\<forall>r \<in> set (map fst L). row_id (rows m ! r) < GET_ROW_ID a x" using abs(2) by simp
      show "map fst Rs = [] \<or> GET_ROW_ID a x < row_id (rows m ! hd (map fst Rs))"
        using abs(3) by (cases Rs) auto
    qed
    moreover have "tbl m (a, x) = None" unfolding none using abs by fastforce
    ultimately show ?thesis using absent by blast
  next
    case pres
    have "delete_position m (GET_ROW_ID a x) None ?off = Some (Some (pred_row None (map fst L), fst e))"
      by (rule delete_position_present[of m _ _ _ "map fst Rs"]) (use ch pres in auto)
    moreover have "tbl m (a, x) \<noteq> None" unfolding none using pres by auto
    moreover have "row_number m a (fst e) = x"
      using pres(3) ids_exact(1)[OF ar, of x] x by (simp add: row_number_def)
    moreover have "rs = L @ [(fst e, snd e)] @ Rs" using pres(1) by simp
    ultimately show ?thesis using present[of L "fst e" "snd e" Rs] by simp
  qed
qed

lemma delete_table_row_pos:
  assumes "cache_addr c = Some m" and "app_range a" and "semv c = Some (Suc s)"
    and "find_app m a = Some (Some i)"
    and "delete_position m (GET_ROW_ID a x) None (app_row (apps m ! i)) = Some pos"
  shows "config_api_delete_table_row c a x =
     (case pos of None \<Rightarrow> Some (- 1, c)
      | Some (prev, r) \<Rightarrow> map_option (\<lambda>m'. (0, written c a m')) (delete_row_node m i prev r))"
  using assms
  by (auto simp: config_api_delete_table_row_def app_range_def app_index_error_def check_library_def
      with_lock_free unlock_cache_def written_def map_option_case
      split: option.splits bind_splits if_splits)

lemma delete_given:
  assumes c: "ready c m" and ar: "app_range a" and app: "tbl m (a, 0) \<noteq> None" and x: "1 \<le> x" "x < 256"
  shows "tbl m (a, x) = None \<Longrightarrow> config_api_delete_table_row c a x = Some (- 1, c)"
    and "tbl m (a, x) = Some es \<Longrightarrow>
      \<exists>m'. config_api_delete_table_row c a x = Some (0, written c a m') \<and> wf_shm m' \<and>
        tbl m' = (tbl m)((a, x) := None) \<and> free_rows m' = Suc (free_rows m) \<and>
        free_paras m' = free_paras m + length es"
proof -
  from c obtain s where c': "cache_addr c = Some m" "wf_shm m" "semv c = Some (Suc s)" by (auto simp: ready_def)
  from c'(2) obtain T where T: "represents m T" "numbered m T" by (rule wf_shmE)
  from app_present[OF T app] obtain i where i: "find_app m a = Some (Some i)" "i < length T" "app_id (apps m ! i) = a" .
  from app_split[OF i(2)] obtain T1 ps rs T2 where split: "T = T1 @ (ps, rs) # T2" "length T1 = i" .
  note T' = T[unfolded split(1)]
  have a: "app_id (apps m ! length T1) = a" using i split by simp
  note H = delete_table_row_pos[OF c'(1) ar c'(3) i(1), of x]
  from T' a x show "config_api_delete_table_row c a x = Some (- 1, c)" if "tbl m (a, x) = None"
  proof (cases rule: delete_pos_given)
    case absent
    then show ?thesis using H split(2) by simp
  qed (use that in simp)
  from T' a x show "\<exists>m'. config_api_delete_table_row c a x = Some (0, written c a m') \<and> wf_shm m' \<and>
        tbl m' = (tbl m)((a, x) := None) \<and> free_rows m' = Suc (free_rows m) \<and>
        free_paras m' = free_paras m + length es" if es: "tbl m (a, x) = Some es"
  proof (cases rule: delete_pos_given)
    case (present L r ks Rs)
    note rem = remove_row_numbered[OF T'[unfolded present(2)] a present(3)]
    have "((a, x), ks) \<in> set (tree_lists m (T1 @ (ps, L @ [(r, ks)] @ Rs) # T2))"
      unfolding tree_lists_split a using present(3) by simp
    then have "es = map (entry m) ks"
      using es tbl_Some_iff[OF T'[unfolded present(2)], of "(a, x)" "map (entry m) ks"] by auto
    moreover have "pchain m (row_para (rows m ! r)) ks"
      using represents_app(4)[OF T'(1)[unfolded present(2)], of "length T1" r ks] by simp
    ultimately show ?thesis
      using H[of "Some (opt_last (map fst L), r)"] present(4) split(2) rem delete_row_node_remove
      by (auto simp: wf_shm_def)
  qed (use es in simp)
qed

end
