(* ===== verification/Conf_Text.thy ===== *)
theory Conf_Text
  imports Conf_Init Conf_Delete
begin

text \<open>
  The text of a configuration: documents, their text, what \<^verbatim>\<open>config_api_write_to_flash\<close> writes
  for a memory, and how the reader splits the text into lines again.
\<close>

type_synonym entries = "(string \<times> string) list"
type_synonym sect = "string \<times> entries \<times> (int \<times> entries) list"

section \<open>Documents\<close>

definition entry_line :: "string \<times> string \<Rightarrow> string" where
  "entry_line e = fst e @ ''='' @ snd e @ [NEWLINE]"

definition row_lines :: "int \<times> entries \<Rightarrow> string" where
  "row_lines r = ''<'' @ show_nat (nat (fst r)) @ ''>'' @ [NEWLINE] @ concat (map entry_line (snd r))"

definition sect_lines :: "sect \<Rightarrow> string" where
  "sect_lines s = ''['' @ fst s @ '']'' @ [NEWLINE] @ concat (map entry_line (fst (snd s))) @
     concat (map row_lines (snd (snd s)))"

definition doc_text :: "sect list \<Rightarrow> string" where
  "doc_text d = concat (map sect_lines d)"

definition row_doc :: "shm \<Rightarrow> int \<Rightarrow> nat \<times> plist \<Rightarrow> int \<times> entries" where
  "row_doc m a = (\<lambda>(r, ks). (row_number m a r, map (entry m) ks))"

definition app_doc :: "shm \<Rightarrow> nat \<Rightarrow> plist \<times> (nat \<times> plist) list \<Rightarrow> sect" where
  "app_doc m i t = (cstr (app_name (apps m ! i)), map (entry m) (fst t),
     map (row_doc m (app_id (apps m ! i))) (snd t))"

definition doc_of :: "shm \<Rightarrow> tree \<Rightarrow> sect list" where
  "doc_of m T = map (\<lambda>i. app_doc m i (T ! i)) [0..<length T]"

section \<open>What the writer writes\<close>

lemma texts_concat:
  "(\<And>j. j \<in> set js \<Longrightarrow> f j = Some (g j)) \<Longrightarrow> texts f js = Some (concat (map g js))"
  by (induction js) auto

lemma para_text_entry:
  assumes "represents m T" and "j \<in> set (tree_paras T)"
  shows "para_text m j = Some (entry_line (entry m j))"
proof -
  have "j < length (paras m)" by (rule tree_paras_live(2)[OF assms])
  then have "buf_ok MAX_NAME_LEN (para_name (paras m ! j))" "buf_ok MAX_VALUE_LEN (para_val (paras m ! j))"
    using assms(1) by (simp_all add: represents_def bufs_ok_def)
  then have "terminated (para_name (paras m ! j))" "terminated (para_val (paras m ! j))"
    by (auto dest!: buf_ok_cstr(1) simp: MAX_NAME_LEN_def MAX_VALUE_LEN_def)
  then show ?thesis by (simp add: para_text_def entry_line_def entry_def Let_def)
qed

lemma list_text_entries:
  assumes "represents m T" and "pchain m off ks" and "set ks \<subseteq> set (tree_paras T)"
  shows "list_text m off = Some (concat (map entry_line (map (entry m) ks)))"
proof -
  have "texts (para_text m) ks = Some (concat (map (\<lambda>j. entry_line (entry m j)) ks))"
    using assms(3) by (intro texts_concat para_text_entry[OF assms(1)]) auto
  then show ?thesis by (simp add: list_text_def paras_from_chain[OF assms(2)] comp_def)
qed

lemma row_bits:
  assumes "app_range a" and "0 \<le> x" and "x < 256"
  shows "take_bit 8 (drop_bit 8 (GET_ROW_ID a x)) = x"
proof -
  have "GET_ROW_ID a x = (a * 256 + x) * 256" using ids_exact(1)[OF assms] by simp
  then have "drop_bit 8 (GET_ROW_ID a x) = a * 256 + x" by (simp add: drop_bit_eq_div)
  moreover have "(a * 256 + x) mod 256 = x" using assms(2,3) by (simp add: mod_pos_pos_trivial)
  ultimately show ?thesis by (simp add: take_bit_eq_mod)
qed

lemma member_paras:
  assumes "i < length T"
  shows "set (fst (T ! i)) \<subseteq> set (tree_paras T)"
    and "(r, ks) \<in> set (snd (T ! i)) \<Longrightarrow> set ks \<subseteq> set (tree_paras T)"
  using tree_paras_member[OF nth_mem[OF assms]] by auto

lemma row_text_doc:
  assumes R: "represents m T" and N: "numbered m T" and i: "i < length T" and r: "(r, ks) \<in> set (snd (T ! i))"
  shows "row_text m r = Some (row_lines (row_doc m (app_id (apps m ! i)) (r, ks)))"
proof -
  have num: "1 \<le> row_number m (app_id (apps m ! i)) r" "row_number m (app_id (apps m ! i)) r < 256"
    "row_id (rows m ! r) = GET_ROW_ID (app_id (apps m ! i)) (row_number m (app_id (apps m ! i)) r)"
    using numbered_app(3)[OF N i r] by auto
  have "list_text m (row_para (rows m ! r)) = Some (concat (map entry_line (map (entry m) ks)))"
    by (rule list_text_entries[OF R represents_app(4)[OF R i r] member_paras(2)[OF i r]])
  moreover have "take_bit 8 (drop_bit 8 (row_id (rows m ! r))) = row_number m (app_id (apps m ! i)) r"
    using row_bits[OF numbered_app(1)[OF N i]] num by simp
  ultimately show ?thesis by (simp add: row_text_def row_lines_def row_doc_def)
qed

lemma app_text_doc:
  assumes R: "represents m T" and N: "numbered m T" and i: "i < length T"
  shows "app_text m i = Some (sect_lines (app_doc m i (T ! i)))"
proof -
  have "buf_ok MAX_NAME_LEN (app_name (apps m ! i))"
    using R represents_app(1)[OF R i] by (simp add: represents_def bufs_ok_def)
  then have t: "terminated (app_name (apps m ! i))"
    by (auto dest!: buf_ok_cstr(1) simp: MAX_NAME_LEN_def)
  have ps: "list_text m (app_para (apps m ! i)) = Some (concat (map entry_line (map (entry m) (fst (T ! i)))))"
    by (rule list_text_entries[OF R represents_app(2)[OF R i] member_paras(1)[OF i]])
  have rs: "walk_all (row_at m) (\<lambda>r. row_next (rows m ! r)) (row_live m) (app_row (apps m ! i))
      = Some (map fst (snd (T ! i)))"
    by (rule walk_all_chain[OF represents_app(3)[OF R i]])
  have "texts (row_text m) (map fst (snd (T ! i)))
      = Some (concat (map row_lines (map (row_doc m (app_id (apps m ! i))) (snd (T ! i)))))"
  proof -
    have "texts (row_text m) (map fst es) = Some (concat (map row_lines (map (row_doc m (app_id (apps m ! i))) es)))"
      if "set es \<subseteq> set (snd (T ! i))" for es
      using that by (induction es) (auto simp: row_text_doc[OF R N i])
    then show ?thesis by blast
  qed
  with t ps rs show ?thesis by (simp add: app_text_def app_doc_def sect_lines_def)
qed

lemma walk_all_path:
  assumes "path deref nxt live off is z" and "z = 0 \<or> (\<exists>i. deref z = Some i \<and> \<not> live i)"
  shows "walk_all deref nxt live off = Some is"
  using assms by (induction "is" arbitrary: off) (auto simp: walk_all.simps)

lemma flash_text_doc:
  assumes R: "represents m T" and N: "numbered m T"
  shows "flash_text m = Some (doc_text (doc_of m T))"
proof -
  have ok: "apps_ok m (length T)" using R by (simp add: represents_def)
  then have len: "0 < length (apps m)" by (simp add: apps_ok_def)
  have "length T < length (apps m) \<Longrightarrow> \<not> app_live m (length T)" using ok by (auto simp: apps_ok_def)
  then have "walk_all (app_at m) (\<lambda>i. app_next (apps m ! i)) (app_live m) (APP_START_NODE m) = Some [0..<length T]"
    unfolding app_start by (intro walk_all_path[OF apps_path[OF ok _ len]]) auto
  moreover have "texts (app_text m) [0..<length T]
      = Some (concat (map (\<lambda>i. sect_lines (app_doc m i (T ! i))) [0..<length T]))"
    by (intro texts_concat app_text_doc[OF R N]) auto
  ultimately show ?thesis by (simp add: flash_text_def doc_text_def doc_of_def comp_def)
qed

section \<open>Numbers\<close>

lemma digit_char: "n < 10 \<Longrightarrow> is_digit (char_of (48 + n)) \<and> (of_char (char_of (48 + n) :: char) :: nat) = 48 + n"
  for n :: nat
  by (simp add: is_digit_def)

lemma show_nat_digits: "\<forall>c \<in> set (show_nat n). is_digit c"
proof (induction n rule: show_nat.induct)
  case (1 n)
  then show ?case using digit_char[of n] digit_char[of "n mod 10"] by (subst show_nat.simps) auto
qed

lemma digits_val_show: "digits_val (show_nat n) = int n"
proof (induction n rule: show_nat.induct)
  case (1 n)
  show ?case
  proof (cases "n < 10")
    case True
    with digit_char[of n] show ?thesis by (simp add: show_nat.simps[of n] digits_val_def)
  next
    case False
    with 1 have "digits_val (show_nat (n div 10)) = int (n div 10)" by simp
    with False digit_char[of "n mod 10"] show ?thesis
      by (simp add: show_nat.simps[of n] digits_val_def) presburger
  qed
qed

lemma show_nat_nonempty: "show_nat n \<noteq> []"
  by (subst show_nat.simps) simp

lemma atoi_show:
  assumes "n < 2147483648"
  shows "atoi (show_nat n) = Some (int n)"
proof -
  obtain c t where s: "show_nat n = c # t" using show_nat_nonempty by (cases "show_nat n") auto
  with show_nat_digits have d: "is_digit c" "\<forall>x \<in> set t. is_digit x" by (metis list.set_intros(1), metis list.set_intros(2))
  then have c: "\<not> is_space c" "c \<noteq> CHR ''-''" "c \<noteq> CHR ''+''"
    by (auto simp: is_digit_def is_space_def)
  have "takeWhile is_digit (c # t) = c # t" using d by (simp add: takeWhile_eq_all_conv)
  with c assms digits_val_show[of n] show ?thesis by (simp add: s atoi_def Let_def)
qed

end
