(* ===== verification/Comptool.thy ===== *)
theory Comptool
  imports Conf_Text
begin

text \<open>
  \<^verbatim>\<open>compare_tool/comptool_final.c\<close>, run before the scheduler: it checks the configuration file and,
  when the software has changed, carries the old values over to the new default configuration. Files are
  read into blocks of exactly their size; \<open>behind\<close> are the bytes that can be read behind such a
  block, and reading on after them has no defined result.
\<close>

section \<open>Constants and environment\<close>

definition PATH_NEW_CFG :: string where "PATH_NEW_CFG = ''/var/newcfg''"
definition PATH_COMP_SETTING :: string where "PATH_COMP_SETTING = ''/etc/comptoolsetting.conf''"
definition LEN_LINE :: nat where "LEN_LINE = 128"
definition LEN_PATH :: nat where "LEN_PATH = 128"

datatype check_result = CHECK_FILE_OK | CHECK_ERROR_OPEN_FILE | CHECK_ERROR_FORMAT
datatype set_result = SET_FILE_OK | SET_ERROR_OPEN_FILE | SET_ERROR_FORMAT | SET_LACK_PARA
datatype compat_result =
  COMPAT_OK | COMPAT_OLDFILE_ERROR | COMPAT_FILE_ERROR | COMPAT_MALLOC_ERROR | COMPAT_FAIL | COMPAT_GET_ERROR | COMPAT_SAME_VERSION
datatype version_result = VERSION_SAME | VERSION_CHANGE
datatype key_result = KEY_SEARCH_SUCCESS string | KEY_SEARCH_FAIL | KEY_SEARCH_FILE_ERROR

definition VWMTA_VERSION_KEY :: string where "VWMTA_VERSION_KEY = ''sys_version''"

text \<open>
  What the calls do: the files that can be opened, with their contents; whether the new file
  can be created, \<^verbatim>\<open>stat\<close> and \<^verbatim>\<open>fread\<close> of a path succeed, and there is memory for a block (the old
  configuration's and the current one's).
\<close>

record comp_env =
  files :: "string \<rightharpoonup> string"
  can_create :: bool
  stat_ok :: "string \<Rightarrow> bool"
  read_ok :: "string \<Rightarrow> bool"
  mem_old :: bool
  mem_curr :: bool
  behind :: string

section \<open>Searching\<close>

fun strpos :: "string \<Rightarrow> string \<Rightarrow> nat option" where
  "strpos [] t = (if t = [] then Some 0 else None)"
| "strpos (c # s) t = (if take (length t) (c # s) = t then Some 0 else map_option Suc (strpos s t))"

text \<open>\<^verbatim>\<open>strstr\<close> in a block, as an index; without a match it needs the NUL at the end.\<close>

definition bfind :: "string \<Rightarrow> string \<Rightarrow> nat option run" where
  "bfind blk t = (case strpos (cstr blk) t of
     Some i \<Rightarrow> Some (Some i) | None \<Rightarrow> if terminated blk then Some None else None)"

text \<open>The string in a buffer, which must end in it.\<close>

definition str_in :: "buf \<Rightarrow> string run" where
  "str_in b = (if terminated b then Some (cstr b) else None)"

text \<open>A line of \<open>len\<close> characters and what is left of the block; the line is not terminated when it just fits.\<close>

definition comptool_fgets :: "nat \<Rightarrow> string \<Rightarrow> (buf \<times> string) option run" where
  "comptool_fgets len blk =
     do { p \<leftarrow> bfind blk [NEWLINE];
          case p of None \<Rightarrow> Some None
          | Some i \<Rightarrow>
              if len \<le> i then Some None
              else Some (Some (take (Suc i) blk @ replicate (len - Suc i) NUL, drop (Suc i) blk)) }"

datatype part = CFGSEARCH_OK nat nat | CFGSEARCH_START_FAIL | CFGSEARCH_END_FAIL nat

definition cfg_search_part :: "string \<Rightarrow> string \<Rightarrow> string \<Rightarrow> part run" where
  "cfg_search_part startStr endStr stream =
     do { s \<leftarrow> bfind stream startStr;
          case s of None \<Rightarrow> Some CFGSEARCH_START_FAIL
          | Some i \<Rightarrow> do {
              e \<leftarrow> bfind (drop (Suc i) stream) endStr;
              Some (case e of None \<Rightarrow> CFGSEARCH_END_FAIL i | Some j \<Rightarrow> CFGSEARCH_OK i (Suc i + j)) } }"

lemma comptool_fgets_shorter: "comptool_fgets len blk = Some (Some (b, rest)) \<Longrightarrow> length rest < length blk"
proof -
  have pos: "strpos s t = Some i \<Longrightarrow> t \<noteq> [] \<Longrightarrow> i < length s" for s t i
    by (induction s arbitrary: i) (auto split: if_splits)
  assume "comptool_fgets len blk = Some (Some (b, rest))"
  then obtain i where i: "strpos (cstr blk) [NEWLINE] = Some i" "rest = drop (Suc i) blk"
    by (auto simp: comptool_fgets_def bfind_def bind_Some_iff split: option.splits if_splits)
  then have "i < length blk"
    using pos[OF i(1)] length_takeWhile_le[of "\<lambda>c. c \<noteq> NUL" blk] unfolding cstr_def by simp
  then show ?thesis using i(2) by simp
qed

lemma fgets_shorter: "fgets LEN_LINE f = Some (line, rest) \<Longrightarrow> length rest < length f"
  using take_line_shorter[of f "LEN_LINE - 1"] by (auto simp: fgets_def LEN_LINE_def split: if_splits)

section \<open>Settings\<close>

record comptool =
  g_status_checkosconf :: string
  g_status_compatibility :: string
  g_path_old :: string
  g_path_curr :: string
  ComptoolDebugFlag :: bool

text \<open>
  \<open>sprintf(dst, tmp + 1)\<close> into \<open>n\<close> characters, and the last character overwritten: the value is
  taken as a format, so that a percent sign in it has no defined result.
\<close>

definition setting_value :: "nat \<Rightarrow> string \<Rightarrow> string run" where
  "setting_value n v = (if CHR ''%'' \<in> set v \<or> n \<le> length v \<or> v = [] then None else Some (butlast v))"

definition set_line :: "string \<Rightarrow> string \<Rightarrow> comptool \<times> string set \<Rightarrow> (comptool \<times> string set) run" where
  "set_line name v gs =
     (case gs of (g, seen) \<Rightarrow>
        if name = ''checkosconf'' then do { x \<leftarrow> setting_value 16 v; Some (g\<lparr>g_status_checkosconf := x\<rparr>, insert name seen) }
        else if name = ''checkcompatibility'' then do { x \<leftarrow> setting_value 16 v; Some (g\<lparr>g_status_compatibility := x\<rparr>, insert name seen) }
        else if name = ''oldcfg'' then do { x \<leftarrow> setting_value LEN_PATH v; Some (g\<lparr>g_path_old := x\<rparr>, insert name seen) }
        else if name = ''currcfg'' then do { x \<leftarrow> setting_value LEN_PATH v; Some (g\<lparr>g_path_curr := x\<rparr>, insert name seen) }
        else if name = ''debugflag'' then do { x \<leftarrow> setting_value 13 v; Some (g\<lparr>ComptoolDebugFlag := (x = ''enable'')\<rparr>, insert name seen) }
        else Some gs)"

function parse_lines :: "string \<Rightarrow> comptool \<times> string set \<Rightarrow> (set_result option \<times> comptool \<times> string set) run" where
  "parse_lines fileset gs =
     (case fgets LEN_LINE fileset of None \<Rightarrow> Some (None, gs)
      | Some (line, rest) \<Rightarrow>
          (case strchr (cstr line) (CHR ''='') of None \<Rightarrow> Some (Some SET_ERROR_FORMAT, gs)
           | Some (name, v) \<Rightarrow> do { gs1 \<leftarrow> set_line name v gs; parse_lines rest gs1 }))"
  by pat_completeness auto
termination
  by (relation "measure (\<lambda>(f, gs). length f)") (auto dest: fgets_shorter)

declare parse_lines.simps [simp del]

definition parse_setting :: "comp_env \<Rightarrow> comptool \<Rightarrow> (set_result \<times> comptool) run" where
  "parse_setting E g =
     (case files E PATH_COMP_SETTING of None \<Rightarrow> Some (SET_ERROR_OPEN_FILE, g)
      | Some f \<Rightarrow> do {
          (r, g1, seen) \<leftarrow> parse_lines f (g, {});
          Some (case r of Some e \<Rightarrow> (e, g1)
                | None \<Rightarrow> (if {''checkosconf'', ''checkcompatibility'', ''oldcfg'', ''currcfg'', ''debugflag''} \<subseteq> seen
                           then SET_FILE_OK else SET_LACK_PARA, g1)) })"

definition pare_default_setting :: comptool where
  "pare_default_setting = \<lparr>g_status_checkosconf = ''enable'', g_status_compatibility = ''enable'',
     g_path_old = ''/etc/os.conf'', g_path_curr = ''/etc/default.conf'', ComptoolDebugFlag = False\<rparr>"

section \<open>Checking the old file\<close>

definition line_format :: "buf \<Rightarrow> bool run" where
  "line_format b =
     do { e \<leftarrow> bfind b ''='';
          let l = cstr b;
          Some (e \<noteq> None \<or> (CHR ''['' \<in> set l \<and> CHR '']'' \<in> set l) \<or> (CHR ''<'' \<in> set l \<and> CHR ''>'' \<in> set l)) }"

function check_lines :: "string \<Rightarrow> check_result run" where
  "check_lines blk =
     (case comptool_fgets LEN_LINE blk of None \<Rightarrow> None
      | Some None \<Rightarrow> Some CHECK_FILE_OK
      | Some (Some (b, rest)) \<Rightarrow>
          do { ok \<leftarrow> line_format b; if ok then check_lines rest else Some CHECK_ERROR_FORMAT })"
  by pat_completeness auto
termination by (relation "measure length") (auto dest: comptool_fgets_shorter)

declare check_lines.simps [simp del]

definition check_os_conf :: "comp_env \<Rightarrow> string \<Rightarrow> check_result run" where
  "check_os_conf E pth =
     (case files E pth of None \<Rightarrow> Some CHECK_ERROR_OPEN_FILE
      | Some f \<Rightarrow>
          if \<not> stat_ok E pth then Some CHECK_ERROR_OPEN_FILE
          else if f = [] then Some CHECK_ERROR_FORMAT
          else if \<not> mem_old E then Some CHECK_ERROR_OPEN_FILE
          else if \<not> read_ok E pth then Some CHECK_ERROR_OPEN_FILE
          else check_lines (f @ behind E))"

section \<open>Versions\<close>

text \<open>The value of the version is copied to 64 characters and its last one is cut off.\<close>

definition version_value :: "string \<Rightarrow> string run" where
  "version_value v = (if 64 \<le> length v \<or> v = [] then None else Some (butlast v))"

function version_lines :: "string \<Rightarrow> key_result run" where
  "version_lines f =
     (case fgets LEN_LINE f of None \<Rightarrow> Some KEY_SEARCH_FAIL
      | Some (line, rest) \<Rightarrow>
          (case strpos (cstr line) VWMTA_VERSION_KEY of None \<Rightarrow> version_lines rest
           | Some i \<Rightarrow>
               (case strchr (drop i (cstr line)) (CHR ''='') of None \<Rightarrow> version_lines rest
                | Some (_, v) \<Rightarrow> do { x \<leftarrow> version_value v; Some (KEY_SEARCH_SUCCESS x) })))"
  by pat_completeness auto
termination
  by (relation "measure length") (auto dest: fgets_shorter)

declare version_lines.simps [simp del]

definition get_file_key_value :: "comp_env \<Rightarrow> string \<Rightarrow> key_result run" where
  "get_file_key_value E pth =
     (case files E pth of None \<Rightarrow> Some KEY_SEARCH_FILE_ERROR | Some f \<Rightarrow> version_lines f)"

definition check_vwmta_version :: "comp_env \<Rightarrow> string \<Rightarrow> string \<Rightarrow> version_result run" where
  "check_vwmta_version E path_old path_curr =
     do { ov \<leftarrow> get_file_key_value E path_old;
          cv \<leftarrow> get_file_key_value E path_curr;
          Some (case (ov, cv) of
                  (KEY_SEARCH_SUCCESS x, KEY_SEARCH_SUCCESS y) \<Rightarrow> if x = y then VERSION_SAME else VERSION_CHANGE
                | _ \<Rightarrow> VERSION_CHANGE) }"

section \<open>Carrying values over\<close>

text \<open>
  The old configuration is one block and pointers into it are indices. \<open>line_head\<close> walks back to
  the start of a line; before the first one it leaves the block.
\<close>

fun line_head :: "string \<Rightarrow> nat \<Rightarrow> nat run" where
  "line_head old p =
     (if length old \<le> p then None
      else if old ! p = NEWLINE then Some (Suc p)
      else if p = 0 then None
      else line_head old (p - 1))"

declare line_head.simps [simp del]

text \<open>
  The search for a parameter: a match may be a part of a longer name, or of a value; the search
  goes on from the equals sign of its line. For the empty name it may never end.
\<close>

partial_function (option) old_param :: "string \<Rightarrow> string \<Rightarrow> nat \<Rightarrow> nat option run" where
  "old_param old name from =
     do { r \<leftarrow> bfind (drop from old) name;
          case r of None \<Rightarrow> Some None
          | Some k \<Rightarrow> do {
              e \<leftarrow> bfind (drop (from + k) old) ''='';
              q \<leftarrow> e;
              let eq = from + k + q;
              head \<leftarrow> line_head old (from + k);
              if take (eq - head) (drop head old) = name then Some (Some head) else old_param old name eq } }"

text \<open>
  The rest of the old line from its equals sign on is copied behind the name in the line buffer,
  character by character up to the newline; nothing checks that it has room. What was behind the new
  end of the line is never looked at again.
\<close>

definition take_value :: "string \<Rightarrow> string \<Rightarrow> nat \<Rightarrow> buf run" where
  "take_value old name eq =
     do { n \<leftarrow> strpos (drop eq old) [NEWLINE];
          let l = name @ take n (drop eq old) @ [NEWLINE, NUL];
          if length l \<le> LEN_LINE then Some (l @ replicate (LEN_LINE - length l) NUL) else None }"

text \<open>
  Lines of the current configuration up to the next application, written or left out. The
  result is the last line read, what is left, and the output.
\<close>

function copy_until_app :: "bool \<Rightarrow> buf \<Rightarrow> string \<Rightarrow> string \<Rightarrow> (buf \<times> string \<times> string) run" where
  "copy_until_app write line cur out =
     (case comptool_fgets LEN_LINE cur of None \<Rightarrow> None
      | Some None \<Rightarrow> Some (line, cur, out)
      | Some (Some (b, rest)) \<Rightarrow>
          if hd b = CHR ''['' then Some (b, rest, out)
          else if write then do { l \<leftarrow> str_in b; copy_until_app write b rest (out @ l) }
          else copy_until_app write b rest out)"
  by pat_completeness auto
termination by (relation "measure (\<lambda>(w, l, c, out). length c)") (auto dest: comptool_fgets_shorter)

declare copy_until_app.simps [simp del]

text \<open>The part of an application; \<open>s\<close> is where it starts in the old configuration.\<close>

function merge_params ::
    "string \<Rightarrow> nat \<Rightarrow> buf \<Rightarrow> string \<Rightarrow> string \<Rightarrow> (compat_result \<times> string + buf \<times> string \<times> string) run" where
  "merge_params old s line cur out =
     (case comptool_fgets LEN_LINE cur of None \<Rightarrow> None
      | Some None \<Rightarrow> Some (Inr (line, cur, out))
      | Some (Some (b, rest)) \<Rightarrow>
          do { c \<leftarrow> bfind b ''='';
               case c of
                 Some k \<Rightarrow> do {
                   p \<leftarrow> (if take k b = VWMTA_VERSION_KEY then Some None else old_param old (take k b) (s + 2));
                   case p of
                     None \<Rightarrow> do { l \<leftarrow> str_in b; merge_params old s b rest (out @ l) }
                   | Some head \<Rightarrow> do {
                       e \<leftarrow> bfind (drop head old) ''='';
                       case e of None \<Rightarrow> Some (Inl (COMPAT_OLDFILE_ERROR, out))
                       | Some q \<Rightarrow> do {
                           b1 \<leftarrow> take_value old (take k b) (head + q);
                           merge_params old s b1 rest (out @ cstr b1) } } }
               | None \<Rightarrow> do {
                   t \<leftarrow> bfind (drop s old) [NEWLINE, CHR ''<''];
                   case t of
                     Some j \<Rightarrow> do {
                       tabs \<leftarrow> str_in (drop (s + j + 1) old);
                       map_option Inr (copy_until_app False b rest (out @ tabs)) }
                   | None \<Rightarrow>
                       if CHR ''<'' \<in> set (cstr b) then map_option Inr (copy_until_app True b rest (out @ cstr b))
                       else Some (Inr (b, rest, out)) } })"
  by pat_completeness auto
termination by (relation "measure (\<lambda>(old, s, l, c, out). length c)") (auto dest: comptool_fgets_shorter)

declare merge_params.simps [simp del]

text \<open>
  The loop over the applications of the current configuration. The part of an application in the old
  one is cut off at the next application by a NUL, for as long as it is used.
\<close>

partial_function (option) merge_apps ::
    "string \<Rightarrow> buf \<Rightarrow> string \<Rightarrow> string \<Rightarrow> (compat_result \<times> string) run" where
  "merge_apps old line cur out =
     do { h \<leftarrow> cfg_search_part ''['' ('']'' @ [NEWLINE]) line;
          case h of
            CFGSEARCH_OK i e \<Rightarrow>
              if hd line \<noteq> CHR ''['' then Some (COMPAT_OK, out)
              else do {
                l \<leftarrow> str_in line;
                op \<leftarrow> cfg_search_part (take (Suc (e - i)) (drop i line)) [NEWLINE, CHR ''[''] old;
                case op of
                  CFGSEARCH_START_FAIL \<Rightarrow> do {
                    (line1, cur1, out1) \<leftarrow> copy_until_app True line cur (out @ l);
                    merge_apps old line1 cur1 out1 }
                | CFGSEARCH_END_FAIL s \<Rightarrow> do {
                    r \<leftarrow> merge_params old s line cur (out @ l);
                    case r of Inl res \<Rightarrow> Some res
                    | Inr (line1, cur1, out1) \<Rightarrow> merge_apps old line1 cur1 out1 }
                | CFGSEARCH_OK s oe \<Rightarrow> do {
                    r \<leftarrow> merge_params (old[Suc oe := NUL]) s line cur (out @ l);
                    case r of Inl res \<Rightarrow> Some res
                    | Inr (line1, cur1, out1) \<Rightarrow> merge_apps old line1 cur1 out1 } }
          | _ \<Rightarrow> Some (COMPAT_OK, out) }"

text \<open>The result and the contents of the new file, if it was created.\<close>

definition Compatibility_os_conf :: "comp_env \<Rightarrow> string \<Rightarrow> string \<Rightarrow> (compat_result \<times> string option) run" where
  "Compatibility_os_conf E path_old path_curr =
     (case files E path_old of None \<Rightarrow> Some (COMPAT_FILE_ERROR, None)
      | Some old \<Rightarrow>
     (case files E path_curr of None \<Rightarrow> Some (COMPAT_FILE_ERROR, None)
      | Some cur \<Rightarrow>
          if \<not> can_create E then Some (COMPAT_FILE_ERROR, None)
          else if \<not> stat_ok E path_old then Some (COMPAT_FILE_ERROR, Some [])
          else if \<not> mem_old E then Some (COMPAT_MALLOC_ERROR, Some [])
          else if \<not> read_ok E path_old then Some (COMPAT_FILE_ERROR, Some [])
          else if \<not> stat_ok E path_curr then Some (COMPAT_FILE_ERROR, Some [])
          else if \<not> mem_curr E then Some (COMPAT_MALLOC_ERROR, Some [])
          else if \<not> read_ok E path_curr then Some (COMPAT_FILE_ERROR, Some [])
          else (case comptool_fgets LEN_LINE (cur @ behind E) of None \<Rightarrow> None
            | Some None \<Rightarrow> Some (COMPAT_GET_ERROR, Some [])
            | Some (Some (line, rest)) \<Rightarrow>
                map_option (\<lambda>(c, out). (c, Some out)) (merge_apps (old @ behind E) line rest []))))"

text \<open>\<^verbatim>\<open>fix_os_conf\<close> hands a command of at most 255 characters to the shell; the commands are the result.\<close>

definition fix_os_conf :: "string \<Rightarrow> string \<Rightarrow> string run" where
  "fix_os_conf src des =
     (let cmd = ''cp '' @ src @ '' '' @ des in if length cmd < 256 then Some cmd else None)"

text \<open>
  What \<^verbatim>\<open>main\<close> returns (\<open>None\<close>: it ends without a value) and the shell commands it runs. The new
  file is removed at the end.
\<close>

definition comptool_main :: "comp_env \<Rightarrow> comptool \<Rightarrow> (compat_result option \<times> string list) run" where
  "comptool_main E g0 =
     do { (r, g1) \<leftarrow> parse_setting E g0;
          let g = (if r = SET_FILE_OK then g1 else pare_default_setting);
          chk \<leftarrow> (if g_status_checkosconf g = ''enable'' then check_os_conf E (g_path_old g) else Some CHECK_FILE_OK);
          if chk \<noteq> CHECK_FILE_OK
          then do { c \<leftarrow> fix_os_conf (g_path_curr g) (g_path_old g); Some (Some COMPAT_OLDFILE_ERROR, [c]) }
          else if g_status_compatibility g \<noteq> ''enable'' then Some (None, [])
          else do {
            v \<leftarrow> check_vwmta_version E (g_path_old g) (g_path_curr g);
            case v of VERSION_SAME \<Rightarrow> Some (Some COMPAT_SAME_VERSION, [])
            | VERSION_CHANGE \<Rightarrow> do {
                (res, new) \<leftarrow> Compatibility_os_conf E (g_path_old g) (g_path_curr g);
                c \<leftarrow> fix_os_conf (if res = COMPAT_OK then PATH_NEW_CFG else g_path_curr g) (g_path_old g);
                Some (Some res, [c, ''rm -rf '' @ PATH_NEW_CFG]) } } }"

end
