(* ===== verification/Comptool_Props.thy ===== *)
theory Comptool_Props
  imports Comptool
begin

text \<open>
  What the tool promises for configurations without tables: the new file has the applications and
  parameters of the current one, with the old values where the old configuration has them. And where it fails:
  reading behind its blocks, losing values and whole applications, and never ending.
\<close>

section \<open>Searching\<close>

text \<open>A pattern is searched on both sides of a character that it does not have.\<close>

lemma strpos_length: "strpos s t = Some i \<Longrightarrow> i + length t \<le> length s"
proof (induction s arbitrary: i)
  case (Cons c s)
  show ?case
  proof (cases "take (length t) (c # s) = t")
    case True
    then have "length t \<le> length (c # s)" by (metis length_take min.cobounded1)
    then show ?thesis using Cons.prems True by simp
  qed (use Cons in auto)
qed (auto split: if_splits)

lemma strpos_match: "strpos s t = Some i \<Longrightarrow> take (length t) (drop i s) = t"
  by (induction s arbitrary: i) (auto split: if_splits)

lemma prefix_before:
  assumes "c \<notin> set t"
  shows "take (length t) (a @ c # b) = t \<longleftrightarrow> take (length t) a = t"
proof (cases "length t \<le> length a")
  case False
  then have "c \<in> set (take (length t) (a @ c # b))" by (simp add: take_Cons')
  moreover have "length (take (length t) a) < length t" using False by simp
  ultimately show ?thesis using assms by (metis less_irrefl)
qed simp

lemma strpos_split:
  assumes "t \<noteq> []" and "c \<notin> set t"
  shows "strpos (a @ c # b) t = (case strpos a t of Some i \<Rightarrow> Some i | None \<Rightarrow> map_option ((+) (Suc (length a))) (strpos b t))"
proof (induction a)
  case Nil
  have "take (length t) (c # b) \<noteq> t" using assms by (cases t) auto
  then show ?case using assms(1) by (cases "strpos b t") auto
next
  case (Cons d a)
  have "take (length t) ((d # a) @ c # b) = t \<longleftrightarrow> take (length t) (d # a) = t"
    using prefix_before[OF assms(2), of "d # a" b] by simp
  moreover have "Suc \<circ> (+) (Suc (length a)) = (+) (Suc (length (d # a)))" by auto
  ultimately show ?case using Cons by (auto simp: option.map_comp split: option.splits)
qed

lemma strpos_absent: "c \<in> set t \<Longrightarrow> c \<notin> set s \<Longrightarrow> strpos s t = None"
proof (induction s)
  case (Cons d s)
  have "take (length t) (d # s) \<noteq> t" using Cons.prems by (metis in_set_takeD)
  then show ?case using Cons by simp
qed auto

lemma strpos_char: "c \<notin> set a \<Longrightarrow> strpos (a @ c # b) [c] = Some (length a)"
  by (induction a) auto

lemma strpos_prefix: "strpos (t @ b) t = Some 0"
  by (cases t; cases b) auto

section \<open>Blocks and lines\<close>

text \<open>Text followed by a NUL.\<close>

lemma cstr_block: "NUL \<notin> set a \<Longrightarrow> cstr (a @ NUL # z) = a" "NUL \<notin> set a \<Longrightarrow> terminated (a @ NUL # z)"
  by (simp_all add: terminated_def)

lemma bfind_block: "NUL \<notin> set a \<Longrightarrow> bfind (a @ NUL # z) t = Some (strpos a t)"
  by (simp add: bfind_def cstr_block split: option.splits)

lemma bfind_char: "c \<notin> set a \<Longrightarrow> NUL \<notin> set a \<Longrightarrow> c \<noteq> NUL \<Longrightarrow> bfind (a @ c # b) [c] = Some (Some (length a))"
proof -
  assume a: "c \<notin> set a" "NUL \<notin> set a" "c \<noteq> NUL"
  then have "cstr (a @ c # b) = a @ c # cstr b" by (induction a) (auto simp: cstr_def)
  then show ?thesis using a(1) by (simp add: bfind_def strpos_char)
qed

definition line_buf :: "string \<Rightarrow> buf" where
  "line_buf l = l @ replicate (LEN_LINE - length l) NUL"

lemma line_buf_block: "length l < LEN_LINE \<Longrightarrow> \<exists>z. line_buf l = l @ NUL # z"
  by (metis line_buf_def Suc_diff_Suc replicate_Suc)

lemma line_buf_string:
  assumes "NUL \<notin> set l" and "length l < LEN_LINE"
  shows "str_in (line_buf l) = Some l" "cstr (line_buf l) = l" "bfind (line_buf l) t = Some (strpos l t)"
  using line_buf_block[OF assms(2)] cstr_block[OF assms(1)] bfind_block[OF assms(1)] by (auto simp: str_in_def)

lemma fgets_line:
  assumes "NEWLINE \<notin> set l" and "NUL \<notin> set l" and "Suc (length l) < LEN_LINE"
  shows "comptool_fgets LEN_LINE (l @ NEWLINE # r) = Some (Some (line_buf (l @ [NEWLINE]), r))"
proof -
  have "cstr (l @ NEWLINE # r) = l @ NEWLINE # cstr r"
    using assms(2) by (induction l) (auto simp: cstr_def)
  then have "bfind (l @ NEWLINE # r) [NEWLINE] = Some (Some (length l))"
    using assms(1) by (simp add: bfind_def strpos_char)
  then show ?thesis using assms(3) by (simp add: comptool_fgets_def line_buf_def)
qed

lemma fgets_end: "comptool_fgets LEN_LINE (NUL # z) = Some None"
  using bfind_block[of "[]" z] by (simp add: comptool_fgets_def)

section \<open>Configurations without tables\<close>

definition word :: "string \<Rightarrow> bool" where
  "word s \<longleftrightarrow> set s \<inter> {CHR ''['', CHR '']'', CHR ''='', CHR ''<'', CHR ''>'', NEWLINE, NUL} = {}"

definition flat_entry_ok :: "string \<times> string \<Rightarrow> bool" where
  "flat_entry_ok e \<longleftrightarrow> word (fst e) \<and> fst e \<noteq> [] \<and> word (snd e) \<and> length (fst e) + length (snd e) < 126"

definition flat_sect_ok :: "string \<times> entries \<Rightarrow> bool" where
  "flat_sect_ok s \<longleftrightarrow> word (fst s) \<and> fst s \<noteq> [] \<and> length (fst s) < 125 \<and> (\<forall>e \<in> set (snd s). flat_entry_ok e)"

definition entries_text :: "entries \<Rightarrow> string" where
  "entries_text es = concat (map entry_line es)"

definition header :: "string \<Rightarrow> string" where
  "header n = CHR ''['' # n @ [CHR '']'']"

definition flat_text :: "(string \<times> entries) list \<Rightarrow> string" where
  "flat_text d = concat (map (\<lambda>(n, es). header n @ NEWLINE # entries_text es) d)"

lemma flat_text_doc: "flat_text d = doc_text (map (\<lambda>(n, es). (n, es, [])) d)"
  by (induction d) (auto simp: flat_text_def doc_text_def sect_lines_def header_def entries_text_def)

lemma text_simps [simp]:
  "entries_text [] = []" "entries_text (e # es) = fst e @ CHR ''='' # snd e @ NEWLINE # entries_text es"
  "flat_text [] = []" "flat_text ((n, es) # d) = header n @ NEWLINE # entries_text es @ flat_text d"
  by (simp_all add: entries_text_def entry_line_def flat_text_def)

lemma wordD: "word s \<Longrightarrow> CHR ''['' \<notin> set s" "word s \<Longrightarrow> CHR '']'' \<notin> set s" "word s \<Longrightarrow> CHR ''='' \<notin> set s"
  "word s \<Longrightarrow> CHR ''<'' \<notin> set s" "word s \<Longrightarrow> NEWLINE \<notin> set s" "word s \<Longrightarrow> NUL \<notin> set s"
  by (auto simp: word_def)

lemma entries_text_chars:
  assumes "\<forall>e \<in> set es. flat_entry_ok e"
  shows "NUL \<notin> set (entries_text es)" "CHR ''['' \<notin> set (entries_text es)" "CHR ''<'' \<notin> set (entries_text es)"
  using assms by (induction es) (auto simp: flat_entry_ok_def dest: wordD)

lemma header_chars: "word n \<Longrightarrow> NUL \<notin> set (header n)" "word n \<Longrightarrow> NEWLINE \<notin> set (header n)"
  by (auto simp: header_def dest: wordD)

lemma flat_text_NUL: "\<forall>s \<in> set d. flat_sect_ok s \<Longrightarrow> NUL \<notin> set (flat_text d)"
  by (induction d) (auto simp: flat_sect_ok_def entries_text_chars header_chars)

section \<open>Finding a parameter in its section\<close>

lemma line_head_entry:
  assumes "length P = p" and "j < length m" and "NEWLINE \<notin> set m"
  shows "line_head (P @ [NEWLINE] @ m @ r) (Suc p + j) = Some (Suc p)"
  using assms(2)
proof (induction j)
  case 0
  have a: "(P @ [NEWLINE] @ m @ r) ! Suc p = m ! 0" using assms(1) 0 by (simp add: nth_append)
  have b: "m ! 0 \<noteq> NEWLINE" using assms(3) 0 nth_mem[of 0 m] by metis
  have c: "line_head (P @ [NEWLINE] @ m @ r) p = Some (Suc p)"
    using assms(1) by (subst line_head.simps) (auto simp: nth_append)
  show ?case using assms(1) 0 a b c by (subst line_head.simps) (simp add: not_le)
next
  case (Suc j)
  have a: "(P @ [NEWLINE] @ m @ r) ! (Suc p + Suc j) = m ! Suc j" using assms(1) Suc.prems by (simp add: nth_append)
  have b: "m ! Suc j \<noteq> NEWLINE" using assms(3) Suc.prems nth_mem[of "Suc j" m] by metis
  have "line_head (P @ [NEWLINE] @ m @ r) (Suc p + Suc j) = line_head (P @ [NEWLINE] @ m @ r) (Suc p + j)"
    using assms(1) Suc.prems a b by (subst line_head.simps) simp
  then show ?case using Suc by simp
qed

text \<open>\<open>X\<close> is text that was passed, \<open>es\<close> are the entries that follow.\<close>

fun entry_pos :: "string \<Rightarrow> entries \<Rightarrow> nat option" where
  "entry_pos w [] = None"
| "entry_pos w (e # es) =
     (if fst e = w then Some 0 else map_option (\<lambda>i. Suc (Suc (length (fst e) + length (snd e))) + i) (entry_pos w es))"

lemma old_param_finds:
  assumes "word w" and "w \<noteq> []"
  shows "strpos X w = None \<Longrightarrow> NUL \<notin> set X \<Longrightarrow> \<forall>e \<in> set es. flat_entry_ok e \<and> strpos (snd e) w = None \<Longrightarrow>
    old_param (P @ X @ NEWLINE # entries_text es @ NUL # z) w (length P)
      = Some (map_option ((+) (Suc (length P + length X))) (entry_pos w es))"
proof (induction es arbitrary: P X)
  case Nil
  have "strpos (X @ [NEWLINE]) w = None"
    using strpos_split[of w NEWLINE X "[]"] Nil.prems(1) assms wordD(5)[OF assms(1)] by simp
  moreover have "bfind ((X @ [NEWLINE]) @ NUL # z) w = Some (strpos (X @ [NEWLINE]) w)"
    using Nil.prems(2) by (intro bfind_block) auto
  ultimately show ?case by (subst old_param.simps) simp
next
  case (Cons e es)
  obtain m v where e: "e = (m, v)" by (cases e)
  have ok: "word m" "word v" "strpos v w = None" "m \<noteq> []" using Cons.prems(3) by (auto simp: e flat_entry_ok_def)
  let ?R = "entries_text es"
  have R: "NUL \<notin> set ?R" using Cons.prems(3) by (intro entries_text_chars) auto
  have nl: "NEWLINE \<notin> set w" "CHR ''='' \<notin> set w" using wordD[OF assms(1)] by auto
  have bl: "P @ X @ NEWLINE # entries_text (e # es) @ NUL # z = P @ (X @ NEWLINE # m @ CHR ''='' # v @ NEWLINE # ?R) @ NUL # z"
    by (simp add: e)
  have nul: "NUL \<notin> set (X @ NEWLINE # m @ CHR ''='' # v @ NEWLINE # ?R)"
    using Cons.prems(2) R ok wordD by auto
  have tail: "strpos (m @ CHR ''='' # v @ NEWLINE # ?R) w =
      (case strpos m w of Some i \<Rightarrow> Some i | None \<Rightarrow> map_option ((+) (Suc (length m))) (strpos (v @ NEWLINE # ?R) w))"
    by (rule strpos_split[OF assms(2) nl(2)])
  have all: "strpos (X @ NEWLINE # m @ CHR ''='' # v @ NEWLINE # ?R) w
      = map_option ((+) (Suc (length X))) (strpos (m @ CHR ''='' # v @ NEWLINE # ?R) w)"
    using strpos_split[OF assms(2) nl(1), of X] Cons.prems(1) by simp
  show ?case
  proof (cases "strpos m w")
    case None
    have "strpos (X @ NEWLINE # m @ CHR ''='' # v) w = None"
      using strpos_split[OF assms(2) nl(1), of X "m @ CHR ''='' # v"] strpos_split[OF assms(2) nl(2), of m v] Cons.prems(1) None ok(3)
      by simp
    moreover have "m \<noteq> w" using None strpos_prefix[of w "[]"] by auto
    ultimately show ?thesis
      using Cons.IH[of "X @ NEWLINE # m @ CHR ''='' # v" P] Cons.prems nul
      by (simp add: e option.map_comp comp_def add.assoc add.left_commute)
  next
    case (Some j)
    have j: "j + length w \<le> length m" using strpos_length[OF Some] .
    have jm: "j < length m" using j assms(2) by (cases w) auto
    let ?B = "P @ X @ NEWLINE # entries_text (e # es) @ NUL # z"
    let ?k = "Suc (length X) + j"
    have find: "bfind (drop (length P) ?B) w = Some (Some ?k)"
      unfolding bl using bfind_block[OF nul, of z w] by (simp add: all tail Some)
    have dr: "drop (length P + ?k) ?B = (drop j m @ CHR ''='' # v @ NEWLINE # ?R) @ NUL # z"
      using jm by (simp add: e)
    have eqn: "CHR ''='' \<notin> set (drop j m)" using ok(1) wordD(3) in_set_dropD by metis
    have "NUL \<notin> set (drop j m @ CHR ''='' # v @ NEWLINE # ?R)"
      using nul in_set_dropD[of NUL j m] by auto
    then have find2: "bfind (drop (length P + ?k) ?B) ''='' = Some (Some (length m - j))"
      unfolding dr using strpos_char[OF eqn, of "v @ NEWLINE # ?R"] by (subst bfind_block) simp_all
    have head: "line_head ?B (length P + ?k) = Some (Suc (length P + length X))"
      using line_head_entry[of "P @ X" "length P + length X" j m "CHR ''='' # v @ NEWLINE # ?R @ NUL # z"] jm ok(1) wordD(5)
      by (simp add: e add.assoc)
    have eq: "length P + ?k + (length m - j) = Suc (length P + length X + length m)" using jm by simp
    have name: "take (Suc (length P + length X + length m) - Suc (length P + length X)) (drop (Suc (length P + length X)) ?B) = m"
      by (simp add: e)
    have step: "old_param ?B w (length P) =
        (if m = w then Some (Some (Suc (length P + length X))) else old_param ?B w (Suc (length P + length X + length m)))"
      by (subst old_param.simps) (simp only: find find2 head eq name Option.bind.bind_lunit option.case Let_def)
    show ?thesis
    proof (cases "m = w")
      case False
      have "strpos (CHR ''='' # v) w = None"
        using strpos_split[OF assms(2) nl(2), of "[]" v] ok(3) assms(2) by simp
      then have "old_param ((P @ X @ NEWLINE # m) @ (CHR ''='' # v) @ NEWLINE # ?R @ NUL # z) w (length (P @ X @ NEWLINE # m))
          = Some (map_option ((+) (Suc (length (P @ X @ NEWLINE # m) + length (CHR ''='' # v)))) (entry_pos w es))"
        using Cons.prems ok(2) wordD(6) by (intro Cons.IH) auto
      then show ?thesis using False step
        by (cases "entry_pos w es") (simp_all add: e add.assoc add.left_commute)
    next
      case True
      then show ?thesis using step by (simp add: e)
    qed
  qed
qed

lemma entry_pos_map: "entry_pos w es = None \<longleftrightarrow> map_of es w = None"
  by (induction es) auto

lemma entry_pos_text:
  "entry_pos w es = Some i \<Longrightarrow> \<exists>v r. map_of es w = Some v \<and> (w, v) \<in> set es \<and> drop i (entries_text es @ z) = w @ CHR ''='' # v @ NEWLINE # r"
proof (induction es arbitrary: i)
  case (Cons e es)
  then show ?case
  proof (cases "fst e = w")
    case False
    then obtain j where "entry_pos w es = Some j" "i = Suc (Suc (length (fst e) + length (snd e))) + j" using Cons.prems by auto
    then show ?thesis using Cons.IH[of j] False by (cases e) auto
  qed (cases e, auto)
qed simp

section \<open>One application\<close>

text \<open>The last line that was read, and the lines of entries.\<close>

abbreviation entry_buf :: "string \<times> string \<Rightarrow> buf" where
  "entry_buf e \<equiv> line_buf (fst e @ CHR ''='' # snd e @ [NEWLINE])"

fun last_line :: "buf \<Rightarrow> entries \<Rightarrow> buf" where
  "last_line b [] = b"
| "last_line b (e # es) = last_line (entry_buf e) es"

lemma entry_line_buf:
  assumes "flat_entry_ok e"
  shows "str_in (entry_buf e) = Some (fst e @ CHR ''='' # snd e @ [NEWLINE])"
    and "cstr (entry_buf e) = fst e @ CHR ''='' # snd e @ [NEWLINE]"
    and "bfind (entry_buf e) ''='' = Some (Some (length (fst e)))"
    and "take (length (fst e)) (entry_buf e) = fst e"
    and "hd (entry_buf e) \<noteq> CHR ''[''"
    and "comptool_fgets LEN_LINE (entries_text (e # es) @ r) = Some (Some (entry_buf e, entries_text es @ r))"
proof -
  let ?l = "fst e @ CHR ''='' # snd e @ [NEWLINE]"
  have ok: "word (fst e)" "fst e \<noteq> []" "word (snd e)" "length ?l < LEN_LINE"
    using assms by (auto simp: flat_entry_ok_def LEN_LINE_def)
  have nul: "NUL \<notin> set ?l" using ok(1,3) by (auto dest: wordD)
  show "str_in (entry_buf e) = Some ?l" "cstr (entry_buf e) = ?l" using line_buf_string[OF nul ok(4)] by auto
  show "bfind (entry_buf e) ''='' = Some (Some (length (fst e)))"
    using line_buf_string(3)[OF nul ok(4), of "''=''"] strpos_char[OF wordD(3)[OF ok(1)]] by simp
  show "take (length (fst e)) (entry_buf e) = fst e" by (simp add: line_buf_def)
  have "hd (fst e) \<noteq> CHR ''[''" using ok(1,2) wordD(1) hd_in_set by metis
  then show "hd (entry_buf e) \<noteq> CHR ''[''" using ok(2) by (simp add: line_buf_def)
  have "NEWLINE \<notin> set (fst e @ CHR ''='' # snd e)" "NUL \<notin> set (fst e @ CHR ''='' # snd e)"
    using ok(1,3) by (auto dest: wordD)
  from fgets_line[OF this] show "comptool_fgets LEN_LINE (entries_text (e # es) @ r) = Some (Some (entry_buf e, entries_text es @ r))"
    using ok(4) by (simp add: LEN_LINE_def)
qed

lemma header_line:
  assumes "word n" and "length n < 125"
  shows "str_in (line_buf (header n @ [NEWLINE])) = Some (header n @ [NEWLINE])"
    and "cstr (line_buf (header n @ [NEWLINE])) = header n @ [NEWLINE]"
    and "bfind (line_buf (header n @ [NEWLINE])) t = Some (strpos (header n @ [NEWLINE]) t)"
    and "hd (line_buf (header n @ [NEWLINE])) = CHR ''[''"
    and "comptool_fgets LEN_LINE (header n @ NEWLINE # r) = Some (Some (line_buf (header n @ [NEWLINE]), r))"
proof -
  have nul: "NUL \<notin> set (header n @ [NEWLINE])" using header_chars(1)[OF assms(1)] by simp
  have len: "length (header n @ [NEWLINE]) < LEN_LINE" using assms(2) by (simp add: header_def LEN_LINE_def)
  show "str_in (line_buf (header n @ [NEWLINE])) = Some (header n @ [NEWLINE])"
    "cstr (line_buf (header n @ [NEWLINE])) = header n @ [NEWLINE]"
    "bfind (line_buf (header n @ [NEWLINE])) t = Some (strpos (header n @ [NEWLINE]) t)"
    using line_buf_string[OF nul len] by auto
  show "hd (line_buf (header n @ [NEWLINE])) = CHR ''[''" by (simp add: line_buf_def header_def)
  show "comptool_fgets LEN_LINE (header n @ NEWLINE # r) = Some (Some (line_buf (header n @ [NEWLINE]), r))"
    using fgets_line[OF header_chars(2,1)[OF assms(1)], of r] len by simp
qed

text \<open>What follows the entries of an application: the end of the block, or another application.\<close>

definition app_tail :: "string \<Rightarrow> bool" where
  "app_tail r \<longleftrightarrow> (\<exists>z. r = NUL # z) \<or> (\<exists>n u. word n \<and> length n < 125 \<and> r = header n @ NEWLINE # u)"

text \<open>The line and the block after the tail was looked at.\<close>

fun after_tail :: "buf \<Rightarrow> string \<Rightarrow> buf \<times> string" where
  "after_tail b r = (case comptool_fgets LEN_LINE r of Some (Some x) \<Rightarrow> x | _ \<Rightarrow> (b, r))"

lemma copy_rest:
  assumes "app_tail r" and "\<forall>e \<in> set es. flat_entry_ok e"
  shows "copy_until_app True b (entries_text es @ r) out
    = (case after_tail (last_line b es) r of (b1, r1) \<Rightarrow> Some (b1, r1, out @ entries_text es))"
  using assms(2)
proof (induction es arbitrary: b out)
  case Nil
  from assms(1) show ?case
    by (subst copy_until_app.simps) (auto simp: app_tail_def fgets_end header_line)
next
  case (Cons e es)
  then have e: "flat_entry_ok e" by simp
  show ?case
    by (subst copy_until_app.simps) (simp add: entry_line_buf[OF e, simplified] Cons del: after_tail.simps)
qed

section \<open>Values carried over\<close>

text \<open>
  The value of a parameter in the new file. The version is the new one; a parameter whose name is
  part of the name of the application or of an old value may be missed, so it is left out of what is promised.
\<close>

definition carried :: "entries \<Rightarrow> string \<times> string \<Rightarrow> string \<times> string" where
  "carried oes e = (fst e, if fst e = VWMTA_VERSION_KEY then snd e else case map_of oes (fst e) of Some v \<Rightarrow> v | None \<Rightarrow> snd e)"

definition apart :: "string \<Rightarrow> entries \<Rightarrow> string \<Rightarrow> bool" where
  "apart n oes w \<longleftrightarrow> strpos n w = None \<and> (\<forall>v \<in> snd ` set oes. strpos v w = None)"

lemma strpos_tl: "strpos s w = None \<Longrightarrow> strpos (tl s) w = None"
  by (cases s) (auto split: if_splits)

lemma take_value_entry:
  assumes "drop p old = w @ CHR ''='' # v @ NEWLINE # r" and "word v" and "length w + length v < 126"
  shows "take_value old w (p + length w) = Some (entry_buf (w, v))"
proof -
  have d: "drop (p + length w) old = (CHR ''='' # v) @ NEWLINE # r"
    using assms(1) by (metis append_eq_conv_conj add.commute drop_drop append_Cons)
  have "NEWLINE \<notin> set (CHR ''='' # v)" using wordD(5)[OF assms(2)] by simp
  then have "strpos (drop (p + length w) old) [NEWLINE] = Some (Suc (length v))"
    unfolding d using strpos_char[of NEWLINE "CHR ''='' # v" r] by simp
  then show ?thesis using assms(3)
    by (simp add: take_value_def d line_buf_def LEN_LINE_def Let_def replicate_app_Cons_same flip: replicate_Suc)
qed

text \<open>The part of one application in the old configuration, up to a NUL.\<close>

abbreviation old_block :: "string \<Rightarrow> string \<Rightarrow> entries \<Rightarrow> string \<Rightarrow> string" where
  "old_block pre n oes z \<equiv> pre @ header n @ NEWLINE # entries_text oes @ NUL # z"

lemma find_in_section:
  assumes "flat_sect_ok (n, oes)" and "flat_entry_ok e" and "apart n oes (fst e)"
  shows "old_param (old_block pre n oes z) (fst e) (length pre + 2)
     = Some (map_option (\<lambda>i. length pre + length n + 3 + i) (entry_pos (fst e) oes))"
proof -
  have n: "word n" "n \<noteq> []" and oes: "\<forall>e \<in> set oes. flat_entry_ok e" using assms(1) by (auto simp: flat_sect_ok_def)
  have w: "word (fst e)" "fst e \<noteq> []" using assms(2) by (auto simp: flat_entry_ok_def)
  obtain c m where cm: "n = c # m" using n(2) by (cases n) auto
  have "strpos m (fst e) = None" using assms(3) strpos_tl[of n "fst e"] by (simp add: apart_def cm)
  then have X: "strpos (m @ [CHR '']'']) (fst e) = None"
    using strpos_split[OF w(2) wordD(2)[OF w(1)], of m "[]"] w(2) by simp
  have B: "old_block pre n oes z = (pre @ [CHR ''['', c]) @ (m @ [CHR '']'']) @ NEWLINE # entries_text oes @ NUL # z"
    by (simp add: header_def cm)
  have "NUL \<notin> set (m @ [CHR '']''])" using n(1) by (auto simp: cm dest: wordD)
  then have "old_param (old_block pre n oes z) (fst e) (length (pre @ [CHR ''['', c]))
    = Some (map_option ((+) (Suc (length (pre @ [CHR ''['', c]) + length (m @ [CHR '']''])))) (entry_pos (fst e) oes))"
    unfolding B using oes assms(3) by (intro old_param_finds[OF w X]) (auto simp: apart_def)
  then show ?thesis by (cases "entry_pos (fst e) oes") (simp_all add: cm add.assoc)
qed

lemma merge_entry:
  assumes "flat_sect_ok (n, oes)" and "flat_entry_ok e" and "apart n oes (fst e)"
  shows "merge_params (old_block pre n oes z) (length pre) b (entries_text (e # es) @ r) out
     = merge_params (old_block pre n oes z) (length pre) (entry_buf (carried oes e)) (entries_text es @ r)
         (out @ entries_text [carried oes e])"
    and "flat_entry_ok (carried oes e)"
proof -
  let ?B = "old_block pre n oes z" and ?e = "entry_buf e"
  have oes: "\<forall>e \<in> set oes. flat_entry_ok e" using assms(1) by (simp add: flat_sect_ok_def)
  show "flat_entry_ok (carried oes e)"
  proof (cases "map_of oes (fst e)")
    case (Some v)
    then have "flat_entry_ok (fst e, v)" using oes by (auto dest: map_of_SomeD)
    then show ?thesis using Some assms(2) by (auto simp: carried_def flat_entry_ok_def)
  qed (use assms(2) in \<open>auto simp: carried_def flat_entry_ok_def\<close>)
  note line = entry_line_buf[OF assms(2)]
  show "merge_params ?B (length pre) b (entries_text (e # es) @ r) out
     = merge_params ?B (length pre) (entry_buf (carried oes e)) (entries_text es @ r) (out @ entries_text [carried oes e])"
  proof (cases "fst e = VWMTA_VERSION_KEY \<or> map_of oes (fst e) = None")
    case True
    then have p: "(if fst e = VWMTA_VERSION_KEY then Some None else old_param ?B (fst e) (length pre + 2)) = Some None"
      using find_in_section[OF assms, of pre z] entry_pos_map[of "fst e" oes] by auto
    have "carried oes e = e" using True by (cases e) (auto simp: carried_def)
    then show ?thesis
      using p[simplified] by (subst merge_params.simps) (auto simp: line[simplified])
  next
    case False
    then obtain v where v: "map_of oes (fst e) = Some v" by auto
    then obtain i where i: "entry_pos (fst e) oes = Some i" using entry_pos_map[of "fst e" oes] by (cases "entry_pos (fst e) oes") auto
    let ?p = "length pre + length n + 3 + i"
    have p: "old_param ?B (fst e) (length pre + 2) = Some (Some ?p)"
      using find_in_section[OF assms, of pre z] i by simp
    have "?B = (pre @ header n @ [NEWLINE]) @ entries_text oes @ NUL # z" "length (pre @ header n @ [NEWLINE]) = length pre + length n + 3"
      by (simp_all add: header_def)
    then have dd: "drop ?p ?B = drop i (entries_text oes @ NUL # z)" by (metis append_eq_conv_conj drop_drop add.commute)
    obtain r' where d: "drop ?p ?B = fst e @ CHR ''='' # v @ NEWLINE # r'" and "(fst e, v) \<in> set oes"
      using entry_pos_text[OF i, of "NUL # z"] v unfolding dd by auto
    then have ve: "flat_entry_ok (fst e, v)" using oes by auto
    have "word (fst e)" using assms(2) by (simp add: flat_entry_ok_def)
    then have "bfind (drop ?p ?B) ''='' = Some (Some (length (fst e)))"
      unfolding d by (intro bfind_char) (auto dest: wordD)
    moreover have "take_value ?B (fst e) (?p + length (fst e)) = Some (entry_buf (fst e, v))"
      using take_value_entry[OF d] ve by (simp add: flat_entry_ok_def)
    moreover have "carried oes e = (fst e, v)" using False v by (simp add: carried_def)
    ultimately show ?thesis using False p entry_line_buf(2)[OF ve]
      by (subst merge_params.simps) (simp add: line[simplified])
  qed
qed

lemma merge_entries:
  assumes "flat_sect_ok (n, oes)" and "app_tail r"
  shows "\<forall>e \<in> set es. flat_entry_ok e \<and> apart n oes (fst e) \<Longrightarrow>
    merge_params (old_block pre n oes z) (length pre) b (entries_text es @ r) out
     = (case after_tail (last_line b (map (carried oes) es)) r of (b1, r1) \<Rightarrow>
          Some (Inr (b1, r1, out @ entries_text (map (carried oes) es))))"
proof (induction es arbitrary: b out)
  case Nil
  let ?B = "old_block pre n oes z"
  have oes: "\<forall>e \<in> set oes. flat_entry_ok e" and n: "word n" using assms(1) by (auto simp: flat_sect_ok_def)
  from assms(2) consider x where "r = NUL # x" | m u where "word m" "length m < 125" "r = header m @ NEWLINE # u"
    by (auto simp: app_tail_def)
  then show ?case
  proof cases
    case 1
    then show ?thesis by (subst merge_params.simps) (simp add: fgets_end)
  next
    case 2
    note h = header_line[OF 2(1,2)]
    have "CHR ''='' \<notin> set (header m @ [NEWLINE])" "CHR ''<'' \<notin> set (header m @ [NEWLINE])"
      using 2(1) by (auto simp: header_def dest: wordD)
    then have no: "strpos (header m @ [NEWLINE]) ''='' = None" "CHR ''<'' \<notin> set (header m @ [NEWLINE])"
      using strpos_absent[of "CHR ''=''" "''=''"] by auto
    let ?X = "header n @ NEWLINE # entries_text oes"
    have "CHR ''<'' \<notin> set ?X" using n entries_text_chars(3)[OF oes] by (auto simp: header_def dest: wordD)
    then have t: "strpos ?X [NEWLINE, CHR ''<''] = None" by (intro strpos_absent[of "CHR ''<''"]) auto
    have "NUL \<notin> set ?X" using header_chars(1)[OF n] entries_text_chars(1)[OF oes] by simp
    from bfind_block[OF this, of z "[NEWLINE, CHR ''<'']"]
    have "bfind (drop (length pre) ?B) [NEWLINE, CHR ''<''] = Some None" by (simp add: t)
    then show ?thesis using no by (subst merge_params.simps) (simp add: 2(3) h)
  qed
next
  case (Cons e es)
  then have e: "flat_entry_ok e" "apart n oes (fst e)" by auto
  show ?case
    using merge_entry(1)[OF assms(1) e, of pre z b es r out] Cons by (cases "carried oes e") (simp del: after_tail.simps)
qed

section \<open>Finding an application\<close>

definition flat_ok :: "(string \<times> entries) list \<Rightarrow> bool" where
  "flat_ok d \<longleftrightarrow> (\<forall>s \<in> set d. flat_sect_ok s)"

lemma header_match:
  assumes "word n" and "word m"
  shows "strpos (header m) (header n) = (if m = n then Some 0 else None)"
proof (cases "m = n")
  case False
  have "take (length (header n)) (header m) \<noteq> header n"
  proof
    assume t: "take (length (header n)) (header m) = header n"
    then have "header m = header n @ drop (length (header n)) (header m)" by (metis append_take_drop_id)
    then have a: "m @ [CHR '']''] = n @ CHR '']'' # drop (length (header n)) (header m)" by (simp add: header_def)
    moreover have "CHR '']'' \<notin> set m" "CHR '']'' \<notin> set n" using assms by (auto dest: wordD)
    ultimately show False using False by (metis append_Cons_eq_iff list.set_intros(1) append_Nil list.distinct(1) empty_iff list.set(1))
  qed
  moreover have "strpos (m @ [CHR '']'']) (header n) = None"
    using assms(2) by (intro strpos_absent[of "CHR ''[''"]) (auto simp: header_def dest: wordD)
  ultimately show ?thesis using False by (simp add: header_def)
qed (use strpos_prefix[of "header n" "[]"] in simp)

fun app_pos :: "string \<Rightarrow> (string \<times> entries) list \<Rightarrow> nat option" where
  "app_pos n [] = None"
| "app_pos n ((m, es) # d) =
     (if m = n then Some 0 else map_option ((+) (length (header m @ NEWLINE # entries_text es))) (app_pos n d))"

lemma find_app_header:
  assumes "word n"
  shows "flat_ok d \<Longrightarrow> strpos (flat_text d) (header n) = app_pos n d"
proof (induction d)
  case (Cons s d)
  obtain m es where s: "s = (m, es)" by (cases s)
  have m: "word m" "\<forall>e \<in> set es. flat_entry_ok e" using Cons.prems by (auto simp: s flat_ok_def flat_sect_ok_def)
  have nn: "header n \<noteq> []" "NEWLINE \<notin> set (header n)" using header_chars(2)[OF assms] by (auto simp: header_def)
  have skip: "strpos (entries_text es @ u) (header n) = map_option ((+) (length (entries_text es))) (strpos u (header n))" for u
    using m(2)
  proof (induction es)
    case (Cons e es)
    have ok: "word (fst e)" "word (snd e)" using Cons.prems by (auto simp: flat_entry_ok_def)
    have "CHR ''[''  \<notin> set (fst e @ CHR ''='' # snd e)" using ok by (auto dest: wordD)
    then have "strpos (fst e @ CHR ''='' # snd e) (header n) = None"
      by (intro strpos_absent[of "CHR ''[''"]) (simp_all add: header_def)
    then show ?case using strpos_split[OF nn, of "fst e @ CHR ''='' # snd e" "entries_text es @ u"] Cons
      by (simp add: option.map_comp comp_def add.assoc)
  qed (cases "strpos u (header n)", auto)
  show ?case
    using strpos_split[OF nn, of "header m" "entries_text es @ flat_text d"] header_match[OF assms m(1)] skip[of "flat_text d"] Cons
    by (cases "app_pos n d") (simp_all add: s flat_ok_def)
qed (simp add: header_def)

lemma app_pos_None: "app_pos n d = None \<longleftrightarrow> map_of d n = None"
  by (induction n d rule: app_pos.induct) auto

lemma app_pos_split:
  "app_pos n d = Some i \<Longrightarrow> \<exists>d1 oes d2. d = d1 @ (n, oes) # d2 \<and> map_of d n = Some oes \<and> i = length (flat_text d1)"
proof (induction n d arbitrary: i rule: app_pos.induct)
  case (2 n m es d)
  show ?case
  proof (cases "m = n")
    case True
    then show ?thesis using "2.prems" by (intro exI[of _ "[]"] exI[of _ es] exI[of _ d]) auto
  next
    case False
    then obtain j where j: "app_pos n d = Some j" "i = length (header m @ NEWLINE # entries_text es) + j" using "2.prems" by auto
    from "2.IH"[OF False j(1)] obtain d1 oes d2 where
      "d = d1 @ (n, oes) # d2" "map_of d n = Some oes" "j = length (flat_text d1)" by blast
    then show ?thesis using False j(2) by (intro exI[of _ "(m, es) # d1"]) auto
  qed
qed simp

lemma flat_text_append: "flat_text (d1 @ d2) = flat_text d1 @ flat_text d2"
  by (simp add: flat_text_def)

lemma strpos_two: "c \<notin> set a \<Longrightarrow> b \<noteq> c \<Longrightarrow> strpos (a @ b # c # u) [b, c] = Some (length a)"
proof (induction a)
  case (Cons x a)
  have "take 2 (x # a @ b # c # u) \<noteq> [b, c]" using Cons.prems by (cases a) auto
  then show ?case using Cons by (simp add: numeral_2_eq_2)
qed simp

lemma section_end:
  assumes "flat_sect_ok (n, oes)"
  obtains a where "tl (header n) @ NEWLINE # entries_text oes = a @ [NEWLINE]" and "CHR ''['' \<notin> set a" and "NUL \<notin> set a"
proof -
  have ok: "word n" "\<forall>e \<in> set oes. flat_entry_ok e" using assms by (auto simp: flat_sect_ok_def)
  have ch: "CHR ''['' \<notin> set (tl (header n) @ NEWLINE # entries_text oes)" "NUL \<notin> set (tl (header n) @ NEWLINE # entries_text oes)"
    using ok entries_text_chars(1,2)[OF ok(2)] by (auto simp: header_def dest: wordD)
  have "\<exists>a. u @ NEWLINE # entries_text oes = a @ [NEWLINE]" for u
  proof (induction oes arbitrary: u)
    case (Cons e es)
    show ?case using Cons.IH[of "u @ NEWLINE # fst e @ CHR ''='' # snd e"] by simp
  qed simp
  then obtain a where a: "tl (header n) @ NEWLINE # entries_text oes = a @ [NEWLINE]" by blast
  have "CHR ''['' \<notin> set (a @ [NEWLINE])" "NUL \<notin> set (a @ [NEWLINE])" using ch unfolding a .
  then show thesis using that[OF a] by simp
qed

lemma flat_split_NUL: "flat_ok d \<Longrightarrow> NUL \<notin> set (flat_text d)"
  by (intro flat_text_NUL) (simp add: flat_ok_def)

text \<open>
  Where an application is in the old configuration: nowhere, or in a block of its own once the next
  application is cut off.
\<close>

lemma search_old:
  assumes "flat_ok d" and "word n"
  shows "map_of d n = None \<Longrightarrow> cfg_search_part (header n) [NEWLINE, CHR ''[''] (flat_text d @ NUL # z) = Some CFGSEARCH_START_FAIL"
    and "map_of d n = Some oes \<Longrightarrow> \<exists>pre z'. flat_sect_ok (n, oes) \<and>
      (cfg_search_part (header n) [NEWLINE, CHR ''[''] (flat_text d @ NUL # z) = Some (CFGSEARCH_END_FAIL (length pre))
         \<and> flat_text d @ NUL # z = old_block pre n oes z' \<or>
       (\<exists>e. cfg_search_part (header n) [NEWLINE, CHR ''[''] (flat_text d @ NUL # z) = Some (CFGSEARCH_OK (length pre) e)
         \<and> (flat_text d @ NUL # z)[Suc e := NUL] = old_block pre n oes z'))"
proof -
  note f = bfind_block[OF flat_split_NUL[OF assms(1)], of z "header n", unfolded find_app_header[OF assms(2,1)]]
  show "cfg_search_part (header n) [NEWLINE, CHR ''[''] (flat_text d @ NUL # z) = Some CFGSEARCH_START_FAIL" if "map_of d n = None"
    using f that app_pos_None[of n d] by (simp add: cfg_search_part_def)
  assume "map_of d n = Some oes"
  then obtain i where i: "app_pos n d = Some i" using app_pos_None[of n d] by (cases "app_pos n d") auto
  from app_pos_split[OF i] \<open>map_of d n = Some oes\<close> obtain d1 d2 where
    d: "d = d1 @ (n, oes) # d2" and pre: "i = length (flat_text d1)" by auto
  have ok: "flat_sect_ok (n, oes)" and ok2: "flat_ok d2" using assms(1) by (auto simp: d flat_ok_def)
  obtain a where a: "tl (header n) @ NEWLINE # entries_text oes = a @ [NEWLINE]" and no: "CHR ''['' \<notin> set a" "NUL \<notin> set a"
    using section_end[OF ok] .
  have dr: "drop (Suc i) (flat_text d @ NUL # z) = (a @ NEWLINE # flat_text d2) @ NUL # z"
    using a by (simp add: d pre flat_text_append header_def)
  have "NUL \<notin> set (a @ NEWLINE # flat_text d2)" using no(2) flat_split_NUL[OF ok2] by simp
  note g = bfind_block[OF this, of z "[NEWLINE, CHR ''['']", folded dr]
  show "\<exists>pre z'. flat_sect_ok (n, oes) \<and>
      (cfg_search_part (header n) [NEWLINE, CHR ''[''] (flat_text d @ NUL # z) = Some (CFGSEARCH_END_FAIL (length pre))
         \<and> flat_text d @ NUL # z = old_block pre n oes z' \<or>
       (\<exists>e. cfg_search_part (header n) [NEWLINE, CHR ''[''] (flat_text d @ NUL # z) = Some (CFGSEARCH_OK (length pre) e)
         \<and> (flat_text d @ NUL # z)[Suc e := NUL] = old_block pre n oes z'))"
  proof (cases d2)
    case Nil
    have "strpos (a @ [NEWLINE]) [NEWLINE, CHR ''[''] = None" using no(1) by (intro strpos_absent[of "CHR ''[''"]) auto
    then have "cfg_search_part (header n) [NEWLINE, CHR ''[''] (flat_text d @ NUL # z) = Some (CFGSEARCH_END_FAIL (length (flat_text d1)))"
      using f g i by (simp add: cfg_search_part_def Nil pre)
    then show ?thesis using ok by (intro exI[of _ "flat_text d1"] exI[of _ z]) (simp add: d Nil flat_text_append)
  next
    case (Cons s d3)
    obtain m es where s: "s = (m, es)" by (cases s)
    have "flat_text d2 = CHR ''['' # (m @ [CHR '']'']) @ NEWLINE # entries_text es @ flat_text d3" by (simp add: Cons s header_def)
    then have "strpos (a @ NEWLINE # flat_text d2) [NEWLINE, CHR ''[''] = Some (length a)" using strpos_two[OF no(1), of NEWLINE] by simp
    then have "cfg_search_part (header n) [NEWLINE, CHR ''[''] (flat_text d @ NUL # z) = Some (CFGSEARCH_OK (length (flat_text d1)) (Suc i + length a))"
      using f g i by (simp add: cfg_search_part_def pre)
    moreover have "(flat_text d @ NUL # z)[Suc (Suc i + length a) := NUL]
        = old_block (flat_text d1) n oes ((m @ [CHR '']'']) @ NEWLINE # entries_text es @ flat_text d3 @ NUL # z)"
    proof -
      let ?P = "flat_text d1 @ header n @ NEWLINE # entries_text oes" and ?u = "(m @ [CHR '']'']) @ NEWLINE # entries_text es @ flat_text d3 @ NUL # z"
      have len: "Suc (Suc i + length a) = length ?P" using arg_cong[OF a, of length] by (simp add: header_def pre)
      have "flat_text d @ NUL # z = ?P @ CHR ''['' # ?u" by (simp add: d Cons s flat_text_append header_def)
      then show ?thesis unfolding len by (simp only: list_update_length) simp
    qed
    ultimately show ?thesis using ok by blast
  qed
qed

section \<open>The new configuration\<close>

definition carried_sect :: "(string \<times> entries) list \<Rightarrow> string \<times> entries \<Rightarrow> string \<times> entries" where
  "carried_sect d s = (fst s, case map_of d (fst s) of None \<Rightarrow> snd s | Some oes \<Rightarrow> map (carried oes) (snd s))"

definition sect_apart :: "(string \<times> entries) list \<Rightarrow> string \<times> entries \<Rightarrow> bool" where
  "sect_apart d s \<longleftrightarrow> (\<forall>oes. map_of d (fst s) = Some oes \<longrightarrow> (\<forall>e \<in> set (snd s). apart (fst s) oes (fst e)))"

lemma search_header_line:
  assumes "word n" and "length n < 125"
  shows "cfg_search_part ''['' [CHR '']'', NEWLINE] (line_buf (header n @ [NEWLINE])) = Some (CFGSEARCH_OK 0 (Suc (length n)))"
    and "take (Suc (Suc (length n))) (line_buf (header n @ [NEWLINE])) = header n"
proof -
  have "NUL \<notin> set (header n @ [NEWLINE])" using header_chars(1)[OF assms(1)] by simp
  moreover obtain z where z: "line_buf (header n @ [NEWLINE]) = (header n @ [NEWLINE]) @ NUL # z"
    using line_buf_block[of "header n @ [NEWLINE]"] assms(2) by (auto simp: header_def LEN_LINE_def)
  ultimately have "bfind (line_buf (header n @ [NEWLINE])) ''['' = Some (Some 0)"
    unfolding z by (subst bfind_block) (simp_all add: header_def)
  moreover have "CHR '']'' \<notin> set n" using wordD(2)[OF assms(1)] .
  then have "strpos (n @ CHR '']'' # [NEWLINE]) [CHR '']'', NEWLINE] = Some (length n)"
  proof (induction n)
    case (Cons c n)
    have "take 2 (c # n @ CHR '']'' # [NEWLINE]) \<noteq> [CHR '']'', NEWLINE]" using Cons.prems by auto
    then show ?case using Cons by (simp add: numeral_2_eq_2)
  qed simp
  then have "bfind (drop (Suc 0) (line_buf (header n @ [NEWLINE]))) [CHR '']'', NEWLINE] = Some (Some (length n))"
    using bfind_block[of "n @ CHR '']'' # [NEWLINE]" z] wordD(6)[OF assms(1)] unfolding z by (simp add: header_def)
  ultimately show "cfg_search_part ''['' [CHR '']'', NEWLINE] (line_buf (header n @ [NEWLINE])) = Some (CFGSEARCH_OK 0 (Suc (length n)))"
    by (simp add: cfg_search_part_def)
  show "take (Suc (Suc (length n))) (line_buf (header n @ [NEWLINE])) = header n"
    unfolding z by (simp add: header_def)
qed

lemma header_end: "'']'' @ [NEWLINE] = [CHR '']'', NEWLINE]"
  by simp

lemma search_entry_line:
  assumes "flat_entry_ok e"
  shows "cfg_search_part ''['' t (entry_buf e) = Some CFGSEARCH_START_FAIL"
proof -
  let ?l = "fst e @ CHR ''='' # snd e @ [NEWLINE]"
  have "CHR ''['' \<notin> set ?l" using assms by (auto simp: flat_entry_ok_def dest: wordD)
  then have "strpos ?l ''['' = None" by (intro strpos_absent[of "CHR ''[''"]) auto
  moreover have "NUL \<notin> set ?l" "length ?l < LEN_LINE" using assms by (auto simp: flat_entry_ok_def LEN_LINE_def dest: wordD)
  ultimately show ?thesis using line_buf_string(3)[of ?l "''[''"] by (simp add: cfg_search_part_def)
qed

lemma last_line_entry: "es \<noteq> [] \<Longrightarrow> last_line b es = entry_buf (last es)"
  by (induction es arbitrary: b) auto

lemma flat_tail: "flat_ok d \<Longrightarrow> app_tail (flat_text d @ NUL # y)"
  by (cases d) (auto simp: app_tail_def flat_ok_def flat_sect_ok_def)

lemma carried_sect_ok:
  assumes "flat_ok d" and "flat_sect_ok s" and "sect_apart d s"
  shows "\<forall>e \<in> set (snd (carried_sect d s)). flat_entry_ok e"
proof (cases "map_of d (fst s)")
  case (Some oes)
  then have "flat_sect_ok (fst s, oes)" using assms(1) by (auto simp: flat_ok_def dest: map_of_SomeD)
  then show ?thesis using merge_entry(2) Some assms(2,3) by (auto simp: carried_sect_def sect_apart_def flat_sect_ok_def)
qed (use assms(2) in \<open>simp add: carried_sect_def flat_sect_ok_def\<close>)

text \<open>One round of the loop, with the rest of the loop as an argument.\<close>

definition merge_body ::
    "(string \<Rightarrow> buf \<Rightarrow> string \<Rightarrow> string \<Rightarrow> (compat_result \<times> string) run) \<Rightarrow>
     string \<Rightarrow> buf \<Rightarrow> string \<Rightarrow> string \<Rightarrow> (compat_result \<times> string) run" where
  "merge_body f old line cur out =

     do { h \<leftarrow> cfg_search_part ''['' ('']'' @ [NEWLINE]) line;
          case h of
            CFGSEARCH_OK i e \<Rightarrow>
              if hd line \<noteq> CHR ''['' then Some (COMPAT_OK, out)
              else do {
                l \<leftarrow> str_in line;
                op \<leftarrow> cfg_search_part (take (Suc (e - i)) (drop i line)) [NEWLINE, CHR ''[''] old;
                case op of
                  CFGSEARCH_START_FAIL \<Rightarrow> do {
                    (line1, cur1, out1) \<leftarrow> copy_until_app True line cur (out @ l);
                    f old line1 cur1 out1 }
                | CFGSEARCH_END_FAIL s \<Rightarrow> do {
                    r \<leftarrow> merge_params old s line cur (out @ l);
                    case r of Inl res \<Rightarrow> Some res
                    | Inr (line1, cur1, out1) \<Rightarrow> f old line1 cur1 out1 }
                | CFGSEARCH_OK s oe \<Rightarrow> do {
                    r \<leftarrow> merge_params (old[Suc oe := NUL]) s line cur (out @ l);
                    case r of Inl res \<Rightarrow> Some res
                    | Inr (line1, cur1, out1) \<Rightarrow> f old line1 cur1 out1 } }
          | _ \<Rightarrow> Some (COMPAT_OK, out) }"

lemma merge_body_step:
  assumes "flat_ok d" and "flat_sect_ok s" and "sect_apart d s" and "app_tail r"
  shows "merge_body f (flat_text d @ NUL # z) (line_buf (header (fst s) @ [NEWLINE])) (entries_text (snd s) @ r) out
    = (case after_tail (last_line (line_buf (header (fst s) @ [NEWLINE])) (snd (carried_sect d s))) r of (b1, r1) \<Rightarrow>
         f (flat_text d @ NUL # z) b1 r1 (out @ flat_text [carried_sect d s]))"
proof -
  let ?n = "fst s" and ?old = "flat_text d @ NUL # z"
  let ?b = "line_buf (header ?n @ [NEWLINE])"
  have n: "word ?n" "length ?n < 125" and es: "\<forall>e \<in> set (snd s). flat_entry_ok e" using assms(2) by (auto simp: flat_sect_ok_def)
  note h = search_header_line[OF n] header_line[OF n]
  have one: "flat_text [x] = header (fst x) @ NEWLINE # entries_text (snd x)" for x by (cases x) simp
  note old = search_old[OF assms(1) n(1), where z = z]
  show ?thesis
  proof (cases "map_of d ?n")
    case None
    note c = copy_rest[OF assms(4) es, of ?b "out @ header ?n @ [NEWLINE]"]
    show ?thesis
      by (simp add: merge_body_def h old(1)[OF None] c carried_sect_def None one del: after_tail.simps split: prod.splits)
  next
    case (Some oes)
    from old(2)[OF Some] obtain pre z' where ok: "flat_sect_ok (?n, oes)" and
      cs: "cfg_search_part (header ?n) [NEWLINE, CHR ''[''] ?old = Some (CFGSEARCH_END_FAIL (length pre)) \<and> ?old = old_block pre ?n oes z' \<or>
       (\<exists>e. cfg_search_part (header ?n) [NEWLINE, CHR ''[''] ?old = Some (CFGSEARCH_OK (length pre) e) \<and> ?old[Suc e := NUL] = old_block pre ?n oes z')"
      by blast
    have ap: "\<forall>e \<in> set (snd s). flat_entry_ok e \<and> apart ?n oes (fst e)"
      using es assms(3) Some by (auto simp: sect_apart_def)
    note m = merge_entries[OF ok assms(4) ap, where pre = pre and z = z' and b = ?b and out = "out @ header ?n @ [NEWLINE]"]
    from cs show ?thesis
    proof (elim disjE exE conjE)
      assume c: "cfg_search_part (header ?n) [NEWLINE, CHR ''[''] ?old = Some (CFGSEARCH_END_FAIL (length pre))" and b: "?old = old_block pre ?n oes z'"
      show ?thesis
        by (simp add: merge_body_def h c[unfolded b] b m carried_sect_def Some one del: after_tail.simps split: prod.splits)
    next
      fix e
      assume c: "cfg_search_part (header ?n) [NEWLINE, CHR ''[''] ?old = Some (CFGSEARCH_OK (length pre) e)" and b: "?old[Suc e := NUL] = old_block pre ?n oes z'"
      show ?thesis
        by (simp add: merge_body_def h c b m carried_sect_def Some one del: after_tail.simps split: prod.splits)
    qed
  qed
qed

lemmas merge_app_step = merge_body_step[of d s r merge_apps z out for d s r z out, unfolded merge_body_def merge_apps.simps[symmetric]]

lemma after_next_app:
  assumes "word (fst t)" and "length (fst t) < 125"
  shows "after_tail b (flat_text (t # ds) @ NUL # y) = (line_buf (header (fst t) @ [NEWLINE]), entries_text (snd t) @ flat_text ds @ NUL # y)"
  using header_line(5)[OF assms] by (cases t) simp

lemma first_line:
  assumes "flat_ok ((n, es) # ds)"
  shows "comptool_fgets LEN_LINE (flat_text ((n, es) # ds) @ NUL # z)
     = Some (Some (line_buf (header n @ [NEWLINE]), entries_text es @ flat_text ds @ NUL # z))"
  using assms header_line(5)[of n "entries_text es @ flat_text ds @ NUL # z"] by (simp add: flat_ok_def flat_sect_ok_def)

lemma merge_all:
  assumes "flat_ok d"
  shows "flat_ok (s # ds) \<Longrightarrow> \<forall>t \<in> set (s # ds). sect_apart d t \<Longrightarrow> snd (last (s # ds)) \<noteq> [] \<Longrightarrow>
    merge_apps (flat_text d @ NUL # z) (line_buf (header (fst s) @ [NEWLINE])) (entries_text (snd s) @ flat_text ds @ NUL # y) out
      = Some (COMPAT_OK, out @ flat_text (map (carried_sect d) (s # ds)))"
proof (induction ds arbitrary: s out)
  case Nil
  have s: "flat_sect_ok s" "sect_apart d s" "snd s \<noteq> []" using Nil.prems by (auto simp: flat_ok_def)
  let ?es = "snd (carried_sect d s)"
  have ne: "?es \<noteq> []" using s(3) by (auto simp: carried_sect_def split: option.splits)
  have "flat_entry_ok (last ?es)" using carried_sect_ok[OF assms s(1,2)] ne by (meson last_in_set)
  from search_entry_line[OF this] have "merge_apps (flat_text d @ NUL # z) (entry_buf (last ?es)) r o1 = Some (COMPAT_OK, o1)" for r o1
    by (subst merge_apps.simps) simp
  then show ?case
    using merge_app_step[OF assms s(1,2), where r = "NUL # y" and z = z and out = out] flat_tail[of "[]" y] fgets_end last_line_entry[OF ne]
    by (simp add: flat_ok_def)
next
  case (Cons t ds)
  have s: "flat_sect_ok s" "sect_apart d s" and t: "word (fst t)" "length (fst t) < 125"
    and tail: "flat_ok (t # ds)" using Cons.prems by (auto simp: flat_ok_def flat_sect_ok_def)
  have "merge_apps (flat_text d @ NUL # z) (line_buf (header (fst t) @ [NEWLINE])) (entries_text (snd t) @ flat_text ds @ NUL # y) o1
      = Some (COMPAT_OK, o1 @ flat_text (map (carried_sect d) (t # ds)))" for o1
    using Cons.prems by (intro Cons.IH[OF tail]) auto
  note rest = this
  have "merge_apps (flat_text d @ NUL # z) (line_buf (header (fst s) @ [NEWLINE])) (entries_text (snd s) @ flat_text (t # ds) @ NUL # y) out
      = Some (COMPAT_OK, (out @ flat_text [carried_sect d s]) @ flat_text (map (carried_sect d) (t # ds)))"
    by (simp only: merge_app_step[OF assms s flat_tail[OF tail]] after_next_app[OF t] prod.case rest)
  then show ?case using flat_text_append[of "[carried_sect d s]" "map (carried_sect d) (t # ds)"] by simp
qed

text \<open>The environment in which nothing fails and a NUL follows the blocks.\<close>

definition good_env :: "string \<Rightarrow> string \<Rightarrow> string \<Rightarrow> comp_env" where
  "good_env old cur z = \<lparr>files = [''/etc/os.conf'' \<mapsto> old, ''/etc/default.conf'' \<mapsto> cur], can_create = True,
     stat_ok = (\<lambda>_. True), read_ok = (\<lambda>_. True), mem_old = True, mem_curr = True, behind = NUL # z\<rparr>"


definition sample_old :: "(string \<times> entries) list" where
  "sample_old = [(''lan'', [(''addr'', ''10.0.0.9''), (''sys_version'', ''1.0'')]), (''dhcpd'', [(''lease'', ''60'')])]"

definition sample_cur :: "(string \<times> entries) list" where
  "sample_cur = [(''lan'', [(''sys_version'', ''1.1''), (''addr'', ''192.168.1.1''), (''mtu'', ''1500'')])]"


section \<open>Where it goes wrong\<close>

text \<open>
  The check of a well-formed file reads on behind the block that holds the file; with a NUL there it
  accepts the file.
\<close>

lemma check_entries:
  "\<forall>e \<in> set es. flat_entry_ok e \<Longrightarrow> check_lines (entries_text es @ r) = check_lines r"
proof (induction es)
  case (Cons e es)
  then have e: "flat_entry_ok e" by simp
  show ?case using Cons
    by (subst check_lines.simps) (simp add: entry_line_buf[OF e, simplified] line_format_def)
qed simp

lemma check_flat: "flat_ok d \<Longrightarrow> check_lines (flat_text d @ r) = check_lines r"
proof (induction d)
  case (Cons s d)
  obtain n es where s: "s = (n, es)" by (cases s)
  have n: "word n" "length n < 125" and es: "\<forall>e \<in> set es. flat_entry_ok e" using Cons.prems by (auto simp: s flat_ok_def flat_sect_ok_def)
  have f: "line_format (line_buf (header n @ [NEWLINE])) = Some True"
    by (simp add: line_format_def header_line[OF n] Let_def) (simp add: header_def)
  have "check_lines (flat_text (s # d) @ r) = check_lines (entries_text es @ flat_text d @ r)"
    by (subst check_lines.simps) (simp add: s header_line(5)[OF n] f)
  then show ?case using check_entries[OF es] Cons by (simp add: flat_ok_def)
qed simp

text \<open>
  The check of a well-formed configuration never stops at its end: the block has the size of the file and no
  terminating NUL, so that the result is undefined or decided by the bytes behind it.
\<close>

theorem check_reads_behind_block:
  assumes "flat_ok d" and "d \<noteq> []" and "files E f = Some (flat_text d)" and "stat_ok E f" and "mem_old E" and "read_ok E f"
  shows "check_os_conf E f = (if behind E = [] then None else if hd (behind E) = NUL then Some CHECK_FILE_OK else check_lines (behind E))"
proof -
  have "flat_text d \<noteq> []" using assms(2) by (cases d) auto
  moreover have "check_lines [] = None"
    by (subst check_lines.simps) (simp add: comptool_fgets_def bfind_def cstr_def terminated_def)
  moreover have "check_lines (NUL # y) = Some CHECK_FILE_OK" for y
    by (subst check_lines.simps) (simp add: fgets_end)
  ultimately show ?thesis
    using assms(3-6) check_flat[OF assms(1), of "behind E"] by (cases "behind E") (auto simp: check_os_conf_def)
qed

theorem check_reads_behind_block_witness:
  "check_os_conf (good_env (flat_text sample_old) [] [] \<lparr>behind := []\<rparr>) ''/etc/os.conf'' = None \<and>
   check_os_conf (good_env (flat_text sample_old) [] []) ''/etc/os.conf'' = Some CHECK_FILE_OK"
proof -
  have "flat_ok sample_old" "sample_old \<noteq> []"
    by (simp_all add: flat_ok_def flat_sect_ok_def flat_entry_ok_def word_def sample_old_def)
  note t = check_reads_behind_block[OF this]
  show ?thesis
    using t[of "good_env (flat_text sample_old) [] [] \<lparr>behind := []\<rparr>" "''/etc/os.conf''"]
      t[of "good_env (flat_text sample_old) [] []" "''/etc/os.conf''"] by (simp add: good_env_def)
qed

text \<open>When the current configuration ends with an application without parameters, its name is written for ever.\<close>

lemma merge_same_line:
  assumes "flat_ok d" and "flat_sect_ok (n, [])"
  shows "merge_apps (flat_text d @ NUL # z) (line_buf (header n @ [NEWLINE])) (NUL # y) out
    = merge_apps (flat_text d @ NUL # z) (line_buf (header n @ [NEWLINE])) (NUL # y) (out @ header n @ [NEWLINE])"
  using merge_app_step[OF assms(1,2), of "NUL # y" z out] fgets_end
  by (auto simp: sect_apart_def app_tail_def carried_sect_def split: option.splits)

lemma same_line_never_ends:
  assumes "flat_ok d" and "flat_sect_ok (n, [])"
    and run: "merge_apps old b cur out = Some r"
  shows "\<not> (old = flat_text d @ NUL # z \<and> b = line_buf (header n @ [NEWLINE]) \<and> cur = NUL # y)"
proof (rule merge_apps.raw_induct[where P = "\<lambda>old b cur out r.
    \<not> (old = flat_text d @ NUL # z \<and> b = line_buf (header n @ [NEWLINE]) \<and> cur = NUL # y)", OF _ run], goal_cases)
  case (1 f old b cur out r)
  have body: "merge_body f old b cur out = Some r" unfolding merge_body_def by (rule 1(2))
  show ?case
  proof
    assume eq: "old = flat_text d @ NUL # z \<and> b = line_buf (header n @ [NEWLINE]) \<and> cur = NUL # y"
    let ?b = "line_buf (header n @ [NEWLINE])"
    have c: "snd (carried_sect d (n, [])) = []" by (simp add: carried_sect_def split: option.splits)
    have "after_tail ?b (NUL # y) = (?b, NUL # y)" by (simp add: fgets_end)
    then have "merge_body f (flat_text d @ NUL # z) ?b (NUL # y) out
        = f (flat_text d @ NUL # z) ?b (NUL # y) (out @ flat_text [carried_sect d (n, [])])"
      using merge_body_step[OF assms(1,2), of "NUL # y" f z out] c by (simp add: sect_apart_def app_tail_def)
    then show False using body eq 1(1)[of "flat_text d @ NUL # z" ?b "NUL # y"] by metis
  qed
qed

lemma merge_never_ends:
  assumes "flat_ok d"
  shows "flat_ok (s # ds) \<Longrightarrow> \<forall>t \<in> set (s # ds). sect_apart d t \<Longrightarrow> snd (last (s # ds)) = [] \<Longrightarrow>
    merge_apps (flat_text d @ NUL # z) (line_buf (header (fst s) @ [NEWLINE])) (entries_text (snd s) @ flat_text ds @ NUL # y) out = None"
proof (induction ds arbitrary: s out)
  case Nil
  then have "flat_sect_ok (fst s, [])" "snd s = []" by (auto simp: flat_ok_def flat_sect_ok_def)
  then have "merge_apps (flat_text d @ NUL # z) (line_buf (header (fst s) @ [NEWLINE])) (NUL # y) out \<noteq> Some r" for r
    using same_line_never_ends[OF assms] by blast
  then show ?case using \<open>snd s = []\<close> by simp (metis not_None_eq)
next
  case (Cons t ds)
  have s: "flat_sect_ok s" "sect_apart d s" and t: "word (fst t)" "length (fst t) < 125"
    and tail: "flat_ok (t # ds)" using Cons.prems by (auto simp: flat_ok_def flat_sect_ok_def)
  have rest: "merge_apps (flat_text d @ NUL # z) (line_buf (header (fst t) @ [NEWLINE])) (entries_text (snd t) @ flat_text ds @ NUL # y) o1 = None" for o1
    using Cons.prems by (intro Cons.IH[OF tail]) auto
  show ?case by (simp only: merge_app_step[OF assms s flat_tail[OF tail]] after_next_app[OF t] prod.case rest)
qed

text \<open>
  When the last application of the current configuration has no parameters its name is written over and
  over: the tool does not end.
\<close>

theorem empty_last_app_never_ends:
  assumes "flat_ok old" and "flat_ok cur" and "cur \<noteq> []" and "snd (last cur) = []" and "\<forall>s \<in> set cur. sect_apart old s"
  shows "Compatibility_os_conf (good_env (flat_text old) (flat_text cur) z) ''/etc/os.conf'' ''/etc/default.conf'' = None"
proof -
  obtain n es ds where cur: "cur = (n, es) # ds" using assms(3) by (cases cur) auto
  show ?thesis
    using first_line[OF assms(2)[unfolded cur], of z] merge_never_ends[OF assms(1), of "(n, es)" ds z z "[]"] assms(2,4,5)
    by (simp add: Compatibility_os_conf_def good_env_def cur)
qed

theorem empty_last_app_never_ends_witness:
  "Compatibility_os_conf (good_env (flat_text sample_old) (flat_text [(''lan'', [(''mtu'', ''1500'')]), (''wan'', [])]) []) ''/etc/os.conf'' ''/etc/default.conf'' = None"
proof -
  have "flat_ok sample_old" "flat_ok [(''lan'', [(''mtu'', ''1500'')]), (''wan'', [])]"
    by (simp_all add: flat_ok_def flat_sect_ok_def flat_entry_ok_def word_def sample_old_def)
  moreover have "\<forall>s \<in> set [(''lan'', [(''mtu'', ''1500'')]), (''wan'', [])]. sect_apart sample_old s"
    by (simp add: sect_apart_def apart_def sample_old_def)
  ultimately show ?thesis using empty_last_app_never_ends[of sample_old "[(''lan'', [(''mtu'', ''1500'')]), (''wan'', [])]" "[]"] by simp
qed

text \<open>
  When an old application has tables and the current one has none, the tables are kept, but the whole
  application that follows it in the current configuration is left out.
\<close>

lemma skip_entries:
  "\<forall>e \<in> set es. flat_entry_ok e \<Longrightarrow> copy_until_app False b (entries_text es @ NUL # y) out = Some (last_line b es, NUL # y, out)"
proof (induction es arbitrary: b)
  case Nil
  show ?case by (subst copy_until_app.simps) (simp add: fgets_end)
next
  case (Cons e es)
  then have e: "flat_entry_ok e" by simp
  show ?case using Cons by (subst copy_until_app.simps) (simp add: entry_line_buf[OF e, simplified])
qed

lemma search_only_app:
  assumes "CHR ''['' \<notin> set r" and "NUL \<notin> set r" and "word n"
  shows "cfg_search_part (header n) [NEWLINE, CHR ''[''] ((header n @ r) @ NUL # z) = Some (CFGSEARCH_END_FAIL 0)"
proof -
  have d: "drop (Suc 0) (header n @ r) = n @ CHR '']'' # r" by (simp add: header_def)
  have "CHR ''['' \<notin> set (n @ CHR '']'' # r)" using assms(1,3) by (auto dest: wordD)
  then have p1: "strpos (n @ CHR '']'' # r) [NEWLINE, CHR ''[''] = None" by (intro strpos_absent[of "CHR ''[''"]) auto
  have nul: "NUL \<notin> set (header n @ r)" "NUL \<notin> set (n @ CHR '']'' # r)"
    using assms(2) header_chars(1)[OF assms(3)] by (auto simp: header_def)
  have "drop (Suc 0) ((header n @ r) @ NUL # z) = (n @ CHR '']'' # r) @ NUL # z" by (simp add: header_def)
  then show ?thesis
    using bfind_block[OF nul(1), of z "header n"] bfind_block[OF nul(2), of z "[NEWLINE, CHR ''['']"] strpos_prefix[of "header n" r] p1
    by (simp add: cfg_search_part_def)
qed

text \<open>
  When the tables of an application of the old configuration are carried over, the next application of the
  current configuration is lost with all its parameters: the line that ended the parameters was its name.
\<close>

theorem tables_hide_next_app:
  assumes "flat_sect_ok (n, oes)" and "flat_sect_ok (m, es)" and "es \<noteq> []" and "CHR ''['' \<notin> set t" and "NUL \<notin> set t"
  shows "Compatibility_os_conf (good_env (header n @ NEWLINE # entries_text oes @ CHR ''<'' # t) (flat_text [(n, []), (m, es)]) z)
      ''/etc/os.conf'' ''/etc/default.conf'' = Some (COMPAT_OK, Some (header n @ NEWLINE # CHR ''<'' # t))"
proof -
  let ?txt = "header n @ NEWLINE # entries_text oes @ CHR ''<'' # t"
  let ?old = "?txt @ NUL # z"
  let ?b = "line_buf (header n @ [NEWLINE])" and ?c = "line_buf (header m @ [NEWLINE])"
  have n: "word n" "length n < 125" and m: "word m" "length m < 125"
    and oes: "\<forall>e \<in> set oes. flat_entry_ok e" and es: "\<forall>e \<in> set es. flat_entry_ok e"
    using assms(1,2) by (auto simp: flat_sect_ok_def)
  have nul: "NUL \<notin> set ?txt" using assms(5) header_chars(1)[OF n(1)] entries_text_chars(1)[OF oes] by simp
  have "CHR ''['' \<notin> set (NEWLINE # entries_text oes @ CHR ''<'' # t)" "NUL \<notin> set (NEWLINE # entries_text oes @ CHR ''<'' # t)"
    using assms(4,5) entries_text_chars(1,2)[OF oes] by auto
  from search_only_app[OF this n(1), of z]
  have app: "cfg_search_part (header n) [NEWLINE, CHR ''[''] ?old = Some (CFGSEARCH_END_FAIL 0)" .
  obtain a where a: "tl (header n) @ NEWLINE # entries_text oes = a @ [NEWLINE]" using section_end[OF assms(1)] by blast
  have "CHR ''<'' \<notin> set (header n @ NEWLINE # entries_text oes)"
    using n(1) entries_text_chars(3)[OF oes] by (auto simp: header_def dest: wordD)
  then have la: "CHR ''<'' \<notin> set (CHR ''['' # a)"
    using arg_cong[OF a, of "set"] by (auto simp: header_def set_eq_iff)
  have split: "?txt = (CHR ''['' # a) @ NEWLINE # CHR ''<'' # t" using a by (simp add: header_def)
  have tabs: "bfind ?old [NEWLINE, CHR ''<''] = Some (Some (Suc (length a)))"
    using bfind_block[OF nul, of z] strpos_two[OF la, of NEWLINE t] unfolding split by simp
  have "drop (Suc (Suc (length a))) ?old = (CHR ''<'' # t) @ NUL # z" unfolding split by simp
  then have tt: "str_in (drop (Suc (Suc (length a))) ?old) = Some (CHR ''<'' # t)"
    using cstr_block[of "CHR ''<'' # t" z] assms(5) by (simp add: str_in_def)
  have noeq: "strpos (header m @ [NEWLINE]) ''='' = None"
    using m(1) by (intro strpos_absent[of "CHR ''=''"]) (auto simp: header_def dest: wordD)
  let ?cur = "header m @ NEWLINE # entries_text es @ NUL # z"
  have params: "merge_params ?old 0 ?b ?cur o1 = Some (Inr (last_line ?c es, NUL # z, o1 @ CHR ''<'' # t))" for o1
    by (subst merge_params.simps) (simp add: header_line[OF m] noeq tabs tt skip_entries[OF es] del: append_assoc append_Cons drop_append)
  have "flat_entry_ok (last es)" using es assms(3) by simp
  from search_entry_line[OF this] have stop: "merge_apps ?old (last_line ?c es) r o1 = Some (COMPAT_OK, o1)" for r o1
    by (subst merge_apps.simps) (simp add: last_line_entry[OF assms(3)])
  have "merge_apps ?old ?b ?cur [] = Some (COMPAT_OK, header n @ NEWLINE # CHR ''<'' # t)"
    by (subst merge_apps.simps)
      (simp add: header_end search_header_line[OF n] header_line[OF n] app params stop del: append_assoc append_Cons)
  then show ?thesis
    using header_line(5)[OF n, of ?cur] by (simp add: Compatibility_os_conf_def good_env_def)
qed

theorem tables_hide_next_app_witness:
  "Compatibility_os_conf (good_env (header ''lan'' @ NEWLINE # entries_text [(''addr'', ''1'')] @ ''<1>'' @ [NEWLINE])
      (flat_text [(''lan'', []), (''wan'', [(''mtu'', ''1500'')])]) []) ''/etc/os.conf'' ''/etc/default.conf''
    = Some (COMPAT_OK, Some (header ''lan'' @ NEWLINE # ''<1>'' @ [NEWLINE]))"
  using tables_hide_next_app[of "''lan''" "[(''addr'', ''1'')]" "''wan''" "[(''mtu'', ''1500'')]" "''1>'' @ [NEWLINE]" "[]"]
  by (simp add: flat_sect_ok_def flat_entry_ok_def word_def)

lemma hidden_match:
  assumes "word a" and "word v" and "word w" and "word x" and "word (c # q)" and "w \<noteq> []"
    and "strpos q w = None" and "strpos a w = None" and "strpos v w = Some i"
  shows "bfind (drop 2 ([CHR ''['', c] @ (q @ [CHR '']'']) @ NEWLINE # a @ CHR ''='' # v @ NEWLINE # w @ CHR ''='' # x @ NEWLINE # NUL # z)) w
    = Some (Some (Suc (Suc (Suc (length q + length a + i)))))"
proof -
  note nw = wordD(3,5)[OF assms(3)]
  have "strpos (q @ [CHR '']'']) w = None"
    using strpos_split[OF assms(6) wordD(2)[OF assms(3)], of q "[]"] assms(6,7) by simp
  then have pos: "strpos ((q @ [CHR '']'']) @ NEWLINE # a @ CHR ''='' # v @ NEWLINE # w @ CHR ''='' # x @ [NEWLINE]) w
      = Some (Suc (Suc (Suc (length q + length a + i))))"
    using strpos_split[OF assms(6) nw(2), of "q @ [CHR '']'']"] strpos_split[OF assms(6) nw(1), of a] strpos_split[OF assms(6) nw(2), of v]
      assms(8,9) by (simp del: append_assoc)
  let ?X = "(q @ [CHR '']'']) @ NEWLINE # a @ CHR ''='' # v @ NEWLINE # w @ CHR ''='' # x @ [NEWLINE]"
  have "NUL \<notin> set ?X" using assms(1-5) by (auto dest: wordD)
  then show ?thesis using bfind_block[of ?X z w] pos by simp
qed

lemma hidden_param:
  assumes "word n" and "n \<noteq> []" and ok: "word a" "word v" "word w" "word x" "a \<noteq> []" "w \<noteq> []"
    and "apart n [(''k'', x)] w" and "strpos a w = None" and "strpos v w \<noteq> None"
  shows "old_param (flat_text [(n, [(a, v), (w, x)])] @ NUL # z) w 2 = Some None"
proof -
  let ?B = "flat_text [(n, [(a, v), (w, x)])] @ NUL # z"
  note nw = wordD(3,5)[OF ok(3)]
  obtain i where i: "strpos v w = Some i" using assms(11) by auto
  have iv: "i < length v" using strpos_length[OF i] ok(6) by (cases w) auto
  obtain c q where cq: "n = c # q" using assms(2) by (cases n) auto
  let ?k = "Suc (Suc (Suc (length q + length a + i)))"
  have B: "?B = [CHR ''['', c] @ (q @ [CHR '']'']) @ NEWLINE # a @ CHR ''='' # v @ NEWLINE # w @ CHR ''='' # x @ NEWLINE # NUL # z"
    by (simp add: cq header_def)
  have "strpos q w = None" using assms(9) strpos_tl[of n w] by (simp add: apart_def cq)
  from hidden_match[OF ok(1-4) assms(1)[unfolded cq] ok(6) this assms(10) i, of z]
  have f1: "bfind (drop 2 ?B) w = Some (Some ?k)" unfolding B .
  let ?u = "drop i v @ NEWLINE # w"
  have d: "drop (2 + ?k) ?B = ?u @ CHR ''='' # x @ NEWLINE # NUL # z" unfolding B using iv by (simp add: numeral_3_eq_3)
  have u: "CHR ''='' \<notin> set ?u" "NUL \<notin> set ?u" using ok(2,3) by (auto dest: wordD in_set_dropD)
  have f2: "bfind (drop (2 + ?k) ?B) ''='' = Some (Some (length ?u))" unfolding d using bfind_char[OF u] by simp
  have nl: "NEWLINE \<notin> set (a @ CHR ''='' # v)" using ok(1,2) by (auto dest: wordD)
  have k5: "2 + ?k = 5 + (length q + (length a + i))" by simp
  have f3: "line_head ?B (2 + ?k) = Some (4 + length q)"
    using line_head_entry[of "CHR ''['' # c # q @ [CHR '']'']" "3 + length q" "length a + 1 + i" "a @ CHR ''='' # v"
        "NEWLINE # w @ CHR ''='' # x @ NEWLINE # NUL # z"] iv nl
    unfolding B k5 by simp
  let ?eq = "2 + ?k + length ?u"
  have "drop (4 + length q) ?B = a @ CHR ''='' # v @ NEWLINE # w @ CHR ''='' # x @ NEWLINE # NUL # z" unfolding B by (simp add: eval_nat_numeral)
  then have "CHR ''='' \<in> set (take (?eq - (4 + length q)) (drop (4 + length q) ?B))" using iv by (simp add: take_Cons')
  moreover have "CHR ''='' \<in> set t \<Longrightarrow> t \<noteq> w" for t using nw(1) by auto
  ultimately have f4: "take (?eq - (4 + length q)) (drop (4 + length q) ?B) \<noteq> w" by blast
  have "drop ?eq ?B = drop (length ?u) (drop (2 + ?k) ?B)" by (simp only: drop_drop add.commute)
  then have d2: "drop ?eq ?B = (CHR ''='' # x @ [NEWLINE]) @ NUL # z" unfolding d by simp
  have "strpos x w = None" using assms(9) by (simp add: apart_def)
  then have "strpos (CHR ''='' # x @ [NEWLINE]) w = None"
    using strpos_split[OF ok(6) nw(1), of "[]" "x @ [NEWLINE]"] strpos_split[OF ok(6) nw(2), of x "[]"] ok(6) by simp
  moreover have "NUL \<notin> set (CHR ''='' # x @ [NEWLINE])" using ok(4) by (auto dest: wordD)
  ultimately have f5: "bfind (drop ?eq ?B) w = Some None" unfolding d2 by (subst bfind_block) simp_all
  have "old_param ?B w ?eq = Some None" by (subst old_param.simps) (simp only: f5 Option.bind.bind_lunit option.case)
  then show ?thesis
    by (subst old_param.simps) (simp only: f1 f2 f3 f4 Option.bind.bind_lunit option.case Let_def if_False)
qed

text \<open>
  When the value of a parameter has the name of the next one in it, the old value of that one is lost: the
  search steps over its line.
\<close>

theorem value_hides_parameter:
  assumes "flat_sect_ok (n, [(a, v), (w, x)])" and "flat_sect_ok (n, [(w, y)])" and "apart n [(''k'', x)] w"
    and "strpos a w = None" and "strpos v w \<noteq> None" and "w \<noteq> VWMTA_VERSION_KEY"
  shows "Compatibility_os_conf (good_env (flat_text [(n, [(a, v), (w, x)])]) (flat_text [(n, [(w, y)])]) z)
      ''/etc/os.conf'' ''/etc/default.conf'' = Some (COMPAT_OK, Some (flat_text [(n, [(w, y)])]))"
proof -
  let ?B = "flat_text [(n, [(a, v), (w, x)])] @ NUL # z" and ?e = "(w, y)"
  have n: "word n" "length n < 125" "n \<noteq> []" and ok: "word a" "word v" "word w" "word x" "a \<noteq> []" "w \<noteq> []" and e: "flat_entry_ok ?e"
    using assms(1,2) by (auto simp: flat_sect_ok_def flat_entry_ok_def)
  note none = hidden_param[OF n(1,3) ok assms(3,4,5), of z]
  note line = entry_line_buf(1-5)[OF e, unfolded fst_conv snd_conv]
  have fg: "comptool_fgets LEN_LINE (entries_text [?e] @ NUL # z) = Some (Some (entry_buf ?e, NUL # z))"
    using entry_line_buf(6)[OF e, of "[]"] by simp
  have txt1: "w @ CHR ''='' # y @ [NEWLINE] = entries_text [?e]" by simp
  have end_params: "merge_params ?B 0 b (NUL # z) out = Some (Inr (b, NUL # z, out))" for b out
    by (subst merge_params.simps) (simp add: fgets_end)
  have params: "merge_params ?B 0 b (entries_text [?e] @ NUL # z) out = Some (Inr (entry_buf ?e, NUL # z, out @ entries_text [?e]))" for b out
    unfolding fst_conv snd_conv by (subst merge_params.simps)
      (simp add: fg[unfolded fst_conv snd_conv txt1] line[unfolded txt1] none[unfolded numeral_2_eq_2] end_params numeral_2_eq_2 assms(6) txt1 del: append_assoc append_Cons text_simps)
  have stop: "merge_apps ?B (entry_buf ?e) r o1 = Some (COMPAT_OK, o1)" for r o1
    by (subst merge_apps.simps) (simp add: search_entry_line[OF e, unfolded fst_conv snd_conv])
  have r: "CHR ''['' \<notin> set (NEWLINE # entries_text [(a, v), (w, x)])" "NUL \<notin> set (NEWLINE # entries_text [(a, v), (w, x)])"
    using assms(1) entries_text_chars(1,2)[of "[(a, v), (w, x)]"] by (auto simp: flat_sect_ok_def)
  have B2: "?B = (header n @ NEWLINE # entries_text [(a, v), (w, x)]) @ NUL # z" by simp
  have app: "cfg_search_part (header n) [NEWLINE, CHR ''[''] ?B = Some (CFGSEARCH_END_FAIL 0)"
    unfolding B2 by (rule search_only_app[OF r n(1)])
  have "merge_apps ?B (line_buf (header n @ [NEWLINE])) (entries_text [?e] @ NUL # z) [] = Some (COMPAT_OK, (header n @ [NEWLINE]) @ entries_text [?e])"
    by (subst merge_apps.simps)
      (simp add: header_end search_header_line[OF n(1,2)] header_line[OF n(1,2)] app params[unfolded fst_conv snd_conv] stop[unfolded fst_conv snd_conv] del: append_assoc append_Cons text_simps)
  then show ?thesis
    using header_line(5)[OF n(1,2), of "entries_text [?e] @ NUL # z"] by (simp add: Compatibility_os_conf_def good_env_def)
qed

theorem value_hides_parameter_witness:
  "Compatibility_os_conf (good_env (flat_text [(''lan'', [(''proto'', ''ip''), (''ip'', ''10.0.0.9'')])]) (flat_text [(''lan'', [(''ip'', ''1'')])]) [])
      ''/etc/os.conf'' ''/etc/default.conf'' = Some (COMPAT_OK, Some (flat_text [(''lan'', [(''ip'', ''1'')])]))"
  using value_hides_parameter[of "''lan''" "''proto''" "''ip''" "''ip''" "''10.0.0.9''" "''1''" "[]"]
  by (simp add: flat_sect_ok_def flat_entry_ok_def word_def apart_def VWMTA_VERSION_KEY_def)

end
