(* ===== verification/Compare.thy ===== *)
theory Compare
  imports Prelude
begin

text \<open>
  The comparison functions that \<^verbatim>\<open>DataStructure\<close> passes around: negative, zero or positive, like
  \<^verbatim>\<open>strcmp\<close>.
\<close>

type_synonym 'a cp_compare_fn = "'a \<Rightarrow> 'a \<Rightarrow> int"

text \<open>What a comparison has to satisfy: it is antisymmetric in its sign and transitive.\<close>

definition consistent :: "'a cp_compare_fn \<Rightarrow> bool" where
  "consistent cmp \<longleftrightarrow> (\<forall>x y. (0 < cmp x y) = (cmp y x < 0)) \<and> (\<forall>x y z. cmp x y \<le> 0 \<longrightarrow> cmp y z \<le> 0 \<longrightarrow> cmp x z \<le> 0)"

lemma consistentD:
  assumes "consistent cmp"
  shows "0 < cmp x y \<longleftrightarrow> cmp y x < 0" and "cmp x y \<le> 0 \<Longrightarrow> cmp y z \<le> 0 \<Longrightarrow> cmp x z \<le> 0"
  using assms unfolding consistent_def by blast+

lemma difference_consistent: "consistent (\<lambda>x y. x - y)"
  by (auto simp: consistent_def)

lemma consistent_refl: "consistent cmp \<Longrightarrow> cmp x x = 0"
  using consistentD(1)[of cmp x x] by linarith

lemma consistent_less: "consistent cmp \<Longrightarrow> cmp x y \<le> 0 \<Longrightarrow> cmp y z < 0 \<Longrightarrow> cmp x z < 0"
  using consistentD(2)[of cmp z x y] consistentD(1)[of cmp x z] consistentD(1)[of cmp z x] consistentD(1)[of cmp y z] consistentD(1)[of cmp z y]
  by linarith

end
