(* ===== verification/Sort.thy ===== *)
theory Sort
  imports Compare "HOL-Library.Multiset"
begin

text \<open>
  \<^verbatim>\<open>DataStructure/Algorithm/sort/sort.c\<close>: seven sorting routines on an array of pointers, with the
  comparison as an argument. An access outside the array has no defined result. Lines that are
  printed are left out, except that \<^verbatim>\<open>sort_merge\<close> reads five elements to print them. Indices are
  unbounded integers: with fewer than \<open>2\<^sup>3\<^sup>0\<close> elements every sum of two of them is an \<^verbatim>\<open>int\<close>.
\<close>

section \<open>Arrays\<close>

definition inside :: "'a list \<Rightarrow> int \<Rightarrow> bool" where
  "inside a i \<longleftrightarrow> 0 \<le> i \<and> i < int (length a)"

definition at :: "'a list \<Rightarrow> int \<Rightarrow> 'a" where
  "at a i = a ! nat i"

definition aget :: "'a list \<Rightarrow> int \<Rightarrow> 'a run" where
  "aget a i = (if inside a i then Some (at a i) else None)"

definition aset :: "'a list \<Rightarrow> int \<Rightarrow> 'a \<Rightarrow> 'a list run" where
  "aset a i x = (if inside a i then Some (a[nat i := x]) else None)"

definition swap :: "'a list \<Rightarrow> int \<Rightarrow> int \<Rightarrow> 'a list run" where
  "swap a i j = do { tmp \<leftarrow> aget a i; y \<leftarrow> aget a j; b \<leftarrow> aset a i y; aset b j tmp }"

section \<open>Modes\<close>

type_synonym sort_mode = int

definition ASCEND_MODE :: sort_mode where "ASCEND_MODE = 0"
definition DESCEND_MODE :: sort_mode where "DESCEND_MODE = 1"

text \<open>The two conditions the routines test: \<open>x\<close> must not be before \<open>y\<close>, or it must.\<close>

definition behind :: "'a cp_compare_fn \<Rightarrow> sort_mode \<Rightarrow> 'a \<Rightarrow> 'a \<Rightarrow> bool" where
  "behind cmp mode x y \<longleftrightarrow> 0 < cmp x y \<and> mode = ASCEND_MODE \<or> cmp x y < 0 \<and> mode = DESCEND_MODE"

definition before :: "'a cp_compare_fn \<Rightarrow> sort_mode \<Rightarrow> 'a \<Rightarrow> 'a \<Rightarrow> bool" where
  "before cmp mode x y \<longleftrightarrow> cmp x y < 0 \<and> mode = ASCEND_MODE \<or> 0 < cmp x y \<and> mode = DESCEND_MODE"

section \<open>Exchange sorts\<close>

text \<open>One pass over the elements \<open>k, k + gap, \<dots>\<close> below \<open>fin\<close>; the flag tells whether anything was swapped.\<close>

function exchange_pass ::
    "'a cp_compare_fn \<Rightarrow> sort_mode \<Rightarrow> nat \<Rightarrow> int \<Rightarrow> int \<Rightarrow> 'a list \<Rightarrow> bool \<Rightarrow> ('a list \<times> bool) run" where
  "exchange_pass cmp mode gap fin k a repeat_flag =
     (if gap \<noteq> 0 \<and> k + int gap < fin then do {
        x \<leftarrow> aget a k; y \<leftarrow> aget a (k + int gap);
        if behind cmp mode x y then do {
          b \<leftarrow> swap a k (k + int gap);
          exchange_pass cmp mode gap fin (k + int gap) b True }
        else exchange_pass cmp mode gap fin (k + int gap) a repeat_flag }
      else Some (a, repeat_flag))"
  by pat_completeness auto
termination by (relation "measure (\<lambda>(cmp, mode, gap, fin, k, a, f). nat (fin - k))") auto

declare exchange_pass.simps [simp del]

lemma exchange_pass_end: "fin \<le> k + int gap \<Longrightarrow> exchange_pass cmp mode gap fin k a f = Some (a, f)"
  by (subst exchange_pass.simps) simp

function bubble_loop :: "'a cp_compare_fn \<Rightarrow> sort_mode \<Rightarrow> int \<Rightarrow> 'a list \<Rightarrow> 'a list run" where
  "bubble_loop cmp mode end_index a =
     do { (b, repeat_flag) \<leftarrow> exchange_pass cmp mode 1 end_index 0 a False;
          if repeat_flag then bubble_loop cmp mode (end_index - 1) b else Some b }"
  by pat_completeness auto
termination
proof (relation "measure (\<lambda>(cmp, mode, n, a). nat n)", goal_cases)
  case (2 cmp mode n a p b f)
  then have "exchange_pass cmp mode 1 n 0 a False = Some (b, True)" by simp
  then have "1 < n" using exchange_pass_end[of n 0 1 cmp mode a False] by (cases "1 < n") auto
  then show ?case by simp
qed simp

declare bubble_loop.simps [simp del]

definition sort_bubble :: "'a list \<Rightarrow> int \<Rightarrow> 'a cp_compare_fn \<Rightarrow> sort_mode \<Rightarrow> 'a list run" where
  "sort_bubble array n_elems cmp mode =
     bubble_loop cmp (if ASCEND_MODE \<noteq> mode \<and> DESCEND_MODE \<noteq> mode then ASCEND_MODE else mode) n_elems array"

text \<open>Passes until one swaps nothing; with an inconsistent comparison that may never be.\<close>

partial_function (option) comb_until :: "'a cp_compare_fn \<Rightarrow> sort_mode \<Rightarrow> nat \<Rightarrow> int \<Rightarrow> int \<Rightarrow> 'a list \<Rightarrow> 'a list run" where
  "comb_until cmp mode gap n_elems j a =
     do { p \<leftarrow> exchange_pass cmp mode gap n_elems j a False;
          if snd p then comb_until cmp mode gap n_elems j (fst p) else Some (fst p) }"

fun comb_offsets :: "'a cp_compare_fn \<Rightarrow> sort_mode \<Rightarrow> nat \<Rightarrow> int \<Rightarrow> nat list \<Rightarrow> 'a list \<Rightarrow> 'a list run" where
  "comb_offsets cmp mode gap n_elems [] a = Some a"
| "comb_offsets cmp mode gap n_elems (j # js) a =
     do { b \<leftarrow> comb_until cmp mode gap n_elems (int j) a; comb_offsets cmp mode gap n_elems js b }"

fun comb_gaps :: "'a cp_compare_fn \<Rightarrow> sort_mode \<Rightarrow> int \<Rightarrow> nat list \<Rightarrow> 'a list \<Rightarrow> 'a list run" where
  "comb_gaps cmp mode n_elems [] a = Some a"
| "comb_gaps cmp mode n_elems (gap # gs) a =
     do { b \<leftarrow> comb_offsets cmp mode gap n_elems [0..<gap] a; comb_gaps cmp mode n_elems gs b }"

definition sort_comb :: "'a list \<Rightarrow> int \<Rightarrow> 'a cp_compare_fn \<Rightarrow> sort_mode \<Rightarrow> 'a list run" where
  "sort_comb array n_elems cmp mode = comb_gaps cmp mode n_elems [11, 8, 6, 4, 3, 2, 1] array"

section \<open>Selection\<close>

text \<open>The index of the first greatest element among \<open>j, \<dots>, end_index - 1\<close> and \<open>tmp_index\<close>.\<close>

function max_index :: "'a cp_compare_fn \<Rightarrow> 'a list \<Rightarrow> int \<Rightarrow> int \<Rightarrow> int \<Rightarrow> int run" where
  "max_index cmp a end_index j tmp_index =
     (if j < end_index then do {
        x \<leftarrow> aget a j; y \<leftarrow> aget a tmp_index;
        max_index cmp a end_index (j + 1) (if 0 < cmp x y then j else tmp_index) }
      else Some tmp_index)"
  by pat_completeness auto
termination by (relation "measure (\<lambda>(cmp, a, n, j, t). nat (n - j))") auto

declare max_index.simps [simp del]

fun selection_loop :: "'a cp_compare_fn \<Rightarrow> sort_mode \<Rightarrow> nat \<Rightarrow> int \<Rightarrow> int \<Rightarrow> 'a list \<Rightarrow> 'a list run" where
  "selection_loop cmp mode 0 begin_index end_index a = Some a"
| "selection_loop cmp mode (Suc n) begin_index end_index a =
     do { tmp_index \<leftarrow> max_index cmp a end_index begin_index begin_index;
          (b, e) \<leftarrow> (if mode = ASCEND_MODE then do { b \<leftarrow> swap a tmp_index (end_index - 1); Some (b, end_index - 1) }
                    else Some (a, end_index));
          (c, s) \<leftarrow> (if mode = DESCEND_MODE then do { c \<leftarrow> swap b tmp_index begin_index; Some (c, begin_index + 1) }
                    else Some (b, begin_index));
          selection_loop cmp mode n s e c }"

definition sort_selection :: "'a list \<Rightarrow> int \<Rightarrow> 'a cp_compare_fn \<Rightarrow> sort_mode \<Rightarrow> 'a list run" where
  "sort_selection array n_elems cmp mode = selection_loop cmp mode (nat n_elems) 0 n_elems array"

section \<open>Insertion\<close>

text \<open>
  Moving elements that belong behind \<open>tmp\<close> up by \<open>gap\<close>, from \<open>k\<close> down. The result is the array, the index at
  which the loop ended and whether anything was moved.
\<close>

function shift :: "'a cp_compare_fn \<Rightarrow> sort_mode \<Rightarrow> nat \<Rightarrow> 'a \<Rightarrow> int \<Rightarrow> 'a list \<Rightarrow> bool \<Rightarrow> ('a list \<times> int \<times> bool) run" where
  "shift cmp mode gap tmp k a move_flag =
     (if gap \<noteq> 0 \<and> 0 \<le> k then do {
        x \<leftarrow> aget a k;
        if before cmp mode tmp x then do {
          b \<leftarrow> aset a (k + int gap) x;
          shift cmp mode gap tmp (k - int gap) b True }
        else Some (a, k, move_flag) }
      else Some (a, k, move_flag))"
  by pat_completeness auto
termination by (relation "measure (\<lambda>(cmp, mode, gap, tmp, k, a, f). nat (k + 1))") auto

declare shift.simps [simp del]

fun insertion_loop :: "'a cp_compare_fn \<Rightarrow> sort_mode \<Rightarrow> nat list \<Rightarrow> 'a list \<Rightarrow> 'a list run" where
  "insertion_loop cmp mode [] a = Some a"
| "insertion_loop cmp mode (i # is) a =
     do { tmp \<leftarrow> aget a (int i);
          (b, j, move_flag) \<leftarrow> shift cmp mode 1 tmp (int i - 1) a False;
          c \<leftarrow> (if move_flag then aset b (j + 1) tmp else Some b);
          insertion_loop cmp mode is c }"

definition sort_insertion :: "'a list \<Rightarrow> int \<Rightarrow> 'a cp_compare_fn \<Rightarrow> sort_mode \<Rightarrow> 'a list run" where
  "sort_insertion array n_elems cmp mode = insertion_loop cmp mode [1..<nat n_elems] array"

fun shell_pass :: "'a cp_compare_fn \<Rightarrow> sort_mode \<Rightarrow> nat \<Rightarrow> nat list \<Rightarrow> 'a list \<Rightarrow> 'a list run" where
  "shell_pass cmp mode gap [] a = Some a"
| "shell_pass cmp mode gap (j # js) a =
     do { tmp \<leftarrow> aget a (int j);
          (b, k, _) \<leftarrow> shift cmp mode gap tmp (int j - int gap) a False;
          c \<leftarrow> aset b (k + int gap) tmp;
          shell_pass cmp mode gap js c }"

fun shell_gaps :: "'a cp_compare_fn \<Rightarrow> sort_mode \<Rightarrow> int \<Rightarrow> nat list \<Rightarrow> 'a list \<Rightarrow> 'a list run" where
  "shell_gaps cmp mode n_elems [] a = Some a"
| "shell_gaps cmp mode n_elems (gap # gs) a =
     do { b \<leftarrow> shell_pass cmp mode gap [gap..<nat n_elems] a; shell_gaps cmp mode n_elems gs b }"

definition sort_shell :: "'a list \<Rightarrow> int \<Rightarrow> 'a cp_compare_fn \<Rightarrow> sort_mode \<Rightarrow> 'a list run" where
  "sort_shell array n_elems cmp mode = shell_gaps cmp mode n_elems [701, 301, 132, 57, 23, 10, 4, 1] array"

section \<open>Quicksort\<close>

function partition_loop ::
    "'a cp_compare_fn \<Rightarrow> sort_mode \<Rightarrow> 'a \<Rightarrow> int \<Rightarrow> int \<Rightarrow> int \<Rightarrow> 'a list \<Rightarrow> ('a list \<times> int) run" where
  "partition_loop cmp mode pivot_value right i store_index a =
     (if i < right then do {
        x \<leftarrow> aget a i;
        if before cmp mode x pivot_value then do {
          b \<leftarrow> swap a i store_index;
          partition_loop cmp mode pivot_value right (i + 1) (store_index + 1) b }
        else partition_loop cmp mode pivot_value right (i + 1) store_index a }
      else Some (a, store_index))"
  by pat_completeness auto
termination by (relation "measure (\<lambda>(cmp, mode, v, r, i, s, a). nat (r - i))") auto

declare partition_loop.simps [simp del]

definition quick_partition ::
    "'a list \<Rightarrow> int \<Rightarrow> int \<Rightarrow> int \<Rightarrow> 'a cp_compare_fn \<Rightarrow> sort_mode \<Rightarrow> ('a list \<times> int) run" where
  "quick_partition a left right pivot cmp mode =
     do { pivot_value \<leftarrow> aget a pivot;
          b \<leftarrow> swap a pivot right;
          (c, store_index) \<leftarrow> partition_loop cmp mode pivot_value right left left b;
          d \<leftarrow> swap c store_index right;
          Some (d, store_index) }"

lemma partition_loop_bounds:
  "partition_loop cmp mode v right i s a = Some (b, p) \<Longrightarrow> i \<le> right \<Longrightarrow> s \<le> i \<Longrightarrow> s \<le> p \<and> p \<le> right"
proof (induction cmp mode v right i s a rule: partition_loop.induct)
  case (1 cmp mode v right i s a)
  show ?case
  proof (cases "i < right")
    case True
    with 1(3) obtain x where x: "aget a i = Some x" by (subst (asm) partition_loop.simps) (auto simp: run_simps)
    show ?thesis
    proof (cases "before cmp mode x v")
      case t: True
      then obtain c where "swap a i s = Some c" "partition_loop cmp mode v right (i + 1) (s + 1) c = Some (b, p)"
        using 1(3) True x by (subst (asm) partition_loop.simps) (auto simp: run_simps)
      then show ?thesis using 1(1)[OF True x t] 1(4,5) True by simp
    next
      case False
      then have "partition_loop cmp mode v right (i + 1) s a = Some (b, p)"
        using 1(3) True x by (subst (asm) partition_loop.simps) simp
      then show ?thesis using 1(2)[OF True x False] 1(4,5) True by simp
    qed
  next
    case False
    then show ?thesis using 1(3-5) by (subst (asm) partition_loop.simps) simp
  qed
qed

lemma quick_partition_bounds:
  "quick_partition a left right pivot cmp mode = Some (b, p) \<Longrightarrow> left \<le> right \<Longrightarrow> left \<le> p \<and> p \<le> right"
  by (auto simp: quick_partition_def run_simps split: prod.splits dest: partition_loop_bounds)

function sort_quick :: "'a list \<Rightarrow> int \<Rightarrow> int \<Rightarrow> 'a cp_compare_fn \<Rightarrow> sort_mode \<Rightarrow> 'a list run" where
  "sort_quick a left right cmp mode =
     (if right \<le> left then Some a
      else do {
        (b, p) \<leftarrow> quick_partition a left right (left + (right - left) div 2) cmp mode;
        c \<leftarrow> sort_quick b left (p - 1) cmp mode;
        sort_quick c (p + 1) right cmp mode })"
  by pat_completeness auto
termination
  by (relation "measure (\<lambda>(a, l, r, cmp, m). nat (r - l + 1))") (auto dest: quick_partition_bounds)

declare sort_quick.simps [simp del]

section \<open>Merge sort\<close>

text \<open>The block \<^verbatim>\<open>temp\<close> as it is filled, while both runs have elements and then from what is left.\<close>

function merge_both :: "'a cp_compare_fn \<Rightarrow> sort_mode \<Rightarrow> 'a list \<Rightarrow> int \<Rightarrow> int \<Rightarrow> int \<Rightarrow> int \<Rightarrow> 'a list \<Rightarrow> ('a list \<times> int \<times> int) run" where
  "merge_both cmp mode a begin1 end1 begin2 end2 temp =
     (if begin1 \<le> end1 \<and> begin2 \<le> end2 then do {
        x \<leftarrow> aget a begin1; y \<leftarrow> aget a begin2;
        if before cmp mode x y then merge_both cmp mode a (begin1 + 1) end1 begin2 end2 (temp @ [x])
        else merge_both cmp mode a begin1 end1 (begin2 + 1) end2 (temp @ [y]) }
      else Some (temp, begin1, begin2))"
  by pat_completeness auto
termination by (relation "measure (\<lambda>(cmp, mode, a, b1, e1, b2, e2, t). nat (e1 - b1 + 1) + nat (e2 - b2 + 1))") auto

declare merge_both.simps [simp del]

function merge_rest :: "'a list \<Rightarrow> int \<Rightarrow> int \<Rightarrow> int \<Rightarrow> int \<Rightarrow> 'a list \<Rightarrow> 'a list run" where
  "merge_rest a begin1 end1 begin2 end2 temp =
     (if begin1 \<le> end1 \<or> begin2 \<le> end2 then do {
        t \<leftarrow> (if begin1 \<le> end1 then do { x \<leftarrow> aget a begin1; Some (temp @ [x]) } else Some temp);
        u \<leftarrow> (if begin2 \<le> end2 then do { y \<leftarrow> aget a begin2; Some (t @ [y]) } else Some t);
        merge_rest a (if begin1 \<le> end1 then begin1 + 1 else begin1) end1 (if begin2 \<le> end2 then begin2 + 1 else begin2) end2 u }
      else Some temp)"
  by pat_completeness auto
termination by (relation "measure (\<lambda>(a, b1, e1, b2, e2, t). nat (e1 - b1 + 1) + nat (e2 - b2 + 1))") auto

declare merge_rest.simps [simp del]

fun copy_back :: "int \<Rightarrow> 'a list \<Rightarrow> 'a list \<Rightarrow> 'a list run" where
  "copy_back i [] a = Some a"
| "copy_back i (x # xs) a = do { b \<leftarrow> aset a i x; copy_back (i + 1) xs b }"

text \<open>\<open>mem n\<close> tells whether a block for \<open>n\<close> pointers is available.\<close>

definition merge_array :: "(int \<Rightarrow> bool) \<Rightarrow> 'a list \<Rightarrow> int \<Rightarrow> int \<Rightarrow> int \<Rightarrow> 'a cp_compare_fn \<Rightarrow> sort_mode \<Rightarrow> 'a list run" where
  "merge_array mem a first mid last_index cmp mode =
     (if mem (last_index - first + 1) then do {
        (temp, b1, b2) \<leftarrow> merge_both cmp mode a first mid (mid + 1) last_index [];
        all \<leftarrow> merge_rest a b1 mid b2 last_index temp;
        copy_back first all a }
      else None)"

function sort_merge :: "(int \<Rightarrow> bool) \<Rightarrow> 'a list \<Rightarrow> int \<Rightarrow> int \<Rightarrow> 'a cp_compare_fn \<Rightarrow> sort_mode \<Rightarrow> 'a list run" where
  "sort_merge mem a first last_index cmp mode =
     (if last_index \<le> first then Some a
      else do {
        let mid = (first + last_index) div 2;
        b \<leftarrow> sort_merge mem a first mid cmp mode;
        c \<leftarrow> sort_merge mem b (mid + 1) last_index cmp mode;
        d \<leftarrow> merge_array mem c first mid last_index cmp mode;
        _ \<leftarrow> aget d 0; _ \<leftarrow> aget d 1; _ \<leftarrow> aget d 2; _ \<leftarrow> aget d 3; _ \<leftarrow> aget d 4;
        Some d })"
  by pat_completeness auto
termination by (relation "measure (\<lambda>(m, a, f, l, cmp, mode). nat (l - f + 1))") auto

declare sort_merge.simps [simp del]

end
