(* ===== verification/Sort_Props.thy ===== *)
theory Sort_Props
  imports Sort
begin

text \<open>
  What the routines of \<^verbatim>\<open>sort.c\<close> return: with a consistent comparison, a permutation of the array that is
  in order. The exchange sorts share one lemma on a pass, the insertion sorts one on a shift.
\<close>

section \<open>Orders\<close>

abbreviation le :: "'a cp_compare_fn \<Rightarrow> sort_mode \<Rightarrow> 'a \<Rightarrow> 'a \<Rightarrow> bool" where
  "le cmp mode x y \<equiv> \<not> behind cmp mode x y"

lemma le_modes:
  assumes "consistent cmp"
  shows "le cmp mode x y \<longleftrightarrow> (if mode = ASCEND_MODE then cmp x y \<le> 0 else if mode = DESCEND_MODE then cmp y x \<le> 0 else True)"
  using consistentD(1)[OF assms, of y x] by (auto simp: behind_def ASCEND_MODE_def DESCEND_MODE_def)

lemma le_trans: "consistent cmp \<Longrightarrow> le cmp mode x y \<Longrightarrow> le cmp mode y z \<Longrightarrow> le cmp mode x z"
  using consistentD(2)[of cmp x y z] consistentD(2)[of cmp z y x] by (simp add: le_modes split: if_splits)

lemma behind_le: "consistent cmp \<Longrightarrow> behind cmp mode x y \<Longrightarrow> le cmp mode y x"
  using consistentD(1)[of cmp x y] consistentD(1)[of cmp y x] unfolding behind_def ASCEND_MODE_def DESCEND_MODE_def by linarith

lemma before_behind: "consistent cmp \<Longrightarrow> before cmp mode x y = behind cmp mode y x"
  using consistentD(1)[of cmp x y] consistentD(1)[of cmp y x] by (auto simp: before_def behind_def)

lemma le_refl: "consistent cmp \<Longrightarrow> le cmp mode x x"
  using behind_le[of cmp mode x x] by blast

section \<open>Arrays\<close>

definition swapped :: "'a list \<Rightarrow> int \<Rightarrow> int \<Rightarrow> 'a list" where
  "swapped a i j = a[nat i := at a j, nat j := at a i]"

lemma aget_inside [simp]: "inside a i \<Longrightarrow> aget a i = Some (at a i)"
  by (simp add: aget_def)

lemma inside_update [simp]: "inside (a[i := x]) j = inside a j"
  by (simp add: inside_def)

lemma at_update: "inside a i \<Longrightarrow> 0 \<le> j \<Longrightarrow> at (a[nat i := x]) j = (if j = i then x else at a j)"
  by (auto simp: at_def inside_def nth_list_update)

lemma swap_inside [simp]: "inside a i \<Longrightarrow> inside a j \<Longrightarrow> swap a i j = Some (swapped a i j)"
  by (simp add: swap_def aset_def swapped_def)

lemma length_swapped [simp]: "length (swapped a i j) = length a"
  by (simp add: swapped_def)

lemma inside_swapped [simp]: "inside (swapped a i j) k = inside a k"
  by (simp add: inside_def)

lemma mset_swapped: "inside a i \<Longrightarrow> inside a j \<Longrightarrow> mset (swapped a i j) = mset a"
  using mset_swap[of "nat i" a "nat j"] 
  by (cases "nat i = nat j") (simp_all add: swapped_def inside_def at_def nat_less_iff list_update_swap)

lemma at_swapped:
  "inside a i \<Longrightarrow> inside a j \<Longrightarrow> 0 \<le> k \<Longrightarrow> at (swapped a i j) k = (if k = j then at a i else if k = i then at a j else at a k)"
  by (simp add: swapped_def at_update)

definition in_order :: "('a \<Rightarrow> 'a \<Rightarrow> bool) \<Rightarrow> int \<Rightarrow> int \<Rightarrow> 'a list \<Rightarrow> bool" where
  "in_order R l h a \<longleftrightarrow> (\<forall>p q. l \<le> p \<and> p < q \<and> q \<le> h \<longrightarrow> R (at a p) (at a q))"

lemma in_order_sorted: "in_order R 0 (int (length a) - 1) a \<Longrightarrow> sorted_wrt R a"
  unfolding sorted_wrt_iff_nth_less
proof (intro allI impI)
  fix i j assume "in_order R 0 (int (length a) - 1) a" "i < j" "j < length a"
  then have "R (at a (int i)) (at a (int j))" unfolding in_order_def by simp
  then show "R (a ! i) (a ! j)" by (simp add: at_def)
qed

section \<open>Exchange sorts\<close>

text \<open>
  The elements \<open>j, j + gap, \<dots>\<close> of the array; those from the \<open>e\<close>-th on are settled when each belongs behind all
  elements before it.
\<close>

definition pos :: "nat \<Rightarrow> int \<Rightarrow> nat \<Rightarrow> int" where
  "pos gap j m = j + int m * int gap"

definition settled :: "('a \<Rightarrow> 'a \<Rightarrow> bool) \<Rightarrow> nat \<Rightarrow> int \<Rightarrow> nat \<Rightarrow> 'a list \<Rightarrow> bool" where
  "settled R gap j e a \<longleftrightarrow> (\<forall>p q. p < q \<and> e \<le> q \<and> inside a (pos gap j q) \<longrightarrow> R (at a (pos gap j p)) (at a (pos gap j q)))"

text \<open>In the middle of a pass: what was settled, the current element, and the one before the settled ones if the pass is behind it.\<close>

definition passing :: "('a \<Rightarrow> 'a \<Rightarrow> bool) \<Rightarrow> nat \<Rightarrow> int \<Rightarrow> nat \<Rightarrow> nat \<Rightarrow> 'a list \<Rightarrow> bool" where
  "passing R gap j e m a \<longleftrightarrow> (\<forall>p q. p < q \<and> (e \<le> q \<or> q = m \<or> q < m \<and> e \<le> Suc q) \<and> inside a (pos gap j q)
     \<longrightarrow> R (at a (pos gap j p)) (at a (pos gap j q)))"

lemma pos_Suc: "pos gap j (Suc m) = pos gap j m + int gap"
  by (simp add: pos_def algebra_simps)

lemma pos_less: "gap \<noteq> 0 \<Longrightarrow> pos gap j m < pos gap j n \<longleftrightarrow> m < n"
  by (simp add: pos_def)

lemma pos_eq [simp]: "gap \<noteq> 0 \<Longrightarrow> pos gap j m = pos gap j n \<longleftrightarrow> m = n"
  by (simp add: pos_def)

lemma pos_0 [simp]: "pos gap j 0 = j"
  by (simp add: pos_def)

lemma pos_nonneg: "0 \<le> j \<Longrightarrow> 0 \<le> pos gap j m"
  by (simp add: pos_def)

lemma inside_pos: "gap \<noteq> 0 \<Longrightarrow> 0 \<le> j \<Longrightarrow> m \<le> n \<Longrightarrow> inside a (pos gap j n) \<Longrightarrow> inside a (pos gap j m)"
  using pos_less[of gap j m n] pos_nonneg[of j gap m] by (cases "m = n") (auto simp: inside_def)

lemma settled_passing: "settled R gap j e a \<Longrightarrow> passing R gap j e 0 a"
  unfolding settled_def passing_def by blast

lemma passing_step:
  assumes "passing (le cmp mode) gap j e m a" and "le cmp mode (at a (pos gap j m)) (at a (pos gap j (Suc m)))" and "consistent cmp"
    and "gap \<noteq> 0" and "0 \<le> j"
  shows "passing (le cmp mode) gap j e (Suc m) a"
  unfolding passing_def
proof (intro allI impI, elim conjE)
  fix p q assume pq: "p < q" "e \<le> q \<or> q = Suc m \<or> q < Suc m \<and> e \<le> Suc q" "inside a (pos gap j q)"
  show "le cmp mode (at a (pos gap j p)) (at a (pos gap j q))"
  proof (cases "q = Suc m \<and> p \<noteq> m")
    case True
    then have "le cmp mode (at a (pos gap j p)) (at a (pos gap j m))"
      using assms(1) pq(1,3) inside_pos[OF assms(4,5), of m q a] unfolding passing_def by auto
    then show ?thesis using le_trans[OF assms(3) _ assms(2)] True by blast
  next
    case False
    have "e \<le> q \<or> q = m \<or> q < m \<and> e \<le> Suc q" if "q \<noteq> Suc m" using pq(2) that by auto
    then show ?thesis using assms(1,2) pq(1,3) False unfolding passing_def by (cases "q = Suc m") blast+
  qed
qed

lemma passing_swap:
  assumes "passing (le cmp mode) gap j e m a" and "behind cmp mode (at a (pos gap j m)) (at a (pos gap j (Suc m)))" and "consistent cmp"
    and "gap \<noteq> 0" and "0 \<le> j" and "inside a (pos gap j (Suc m))"
  shows "Suc m < e" and "passing (le cmp mode) gap j e (Suc m) (swapped a (pos gap j m) (pos gap j (Suc m)))"
proof -
  let ?b = "swapped a (pos gap j m) (pos gap j (Suc m))"
  have i: "inside a (pos gap j m)" using inside_pos[OF assms(4,5) _ assms(6), of m] by simp
  show e: "Suc m < e" using assms(1,2,6) unfolding passing_def by (metis lessI not_le)
  have at: "at ?b (pos gap j q) = (if q = Suc m then at a (pos gap j m) else if q = m then at a (pos gap j (Suc m)) else at a (pos gap j q))" for q
    using at_swapped[OF i assms(6) pos_nonneg[OF assms(5)], of gap q] assms(4) by simp
  show "passing (le cmp mode) gap j e (Suc m) ?b"
    unfolding passing_def
  proof (intro allI impI, elim conjE)
    fix p q assume pq: "p < q" "e \<le> q \<or> q = Suc m \<or> q < Suc m \<and> e \<le> Suc q" "inside ?b (pos gap j q)"
    then have q: "q = Suc m \<or> e \<le> q \<and> q \<noteq> m \<and> q \<noteq> Suc m" using e by auto
    have old: "le cmp mode (at a (pos gap j p')) (at a (pos gap j q'))"
      if "p' < q'" "e \<le> q' \<or> q' = m" "inside a (pos gap j q')" for p' q'
      using assms(1) that unfolding passing_def by blast
    show "le cmp mode (at ?b (pos gap j p)) (at ?b (pos gap j q))"
      using q pq(1,3) e old[of p q] old[of "Suc m" q] old[of m q] old[of p m] i behind_le[OF assms(3,2)] unfolding at by auto
  qed
qed

lemma exchange_pass_swapped: "exchange_pass cmp mode gap fin k a f = Some (b, f') \<Longrightarrow> f \<Longrightarrow> f'"
proof (induction cmp mode gap fin k a f rule: exchange_pass.induct)
  case (1 cmp mode gap fin k a f)
  note c = 1(3)[unfolded exchange_pass.simps[of cmp mode gap fin k a f]]
  show ?case
  proof (cases "gap \<noteq> 0 \<and> k + int gap < fin")
    case True
    then obtain x y where xy: "aget a k = Some x" "aget a (k + int gap) = Some y" using c by (auto simp: run_simps)
    show ?thesis
    proof (cases "behind cmp mode x y")
      case t: True
      then obtain d where "swap a k (k + int gap) = Some d" "exchange_pass cmp mode gap fin (k + int gap) d True = Some (b, f')"
        using c True xy by (auto simp: run_simps)
      then show ?thesis using 1(1)[OF True xy t] by simp
    next
      case False
      then show ?thesis using 1(2)[OF True xy False _ 1(4)] c True xy by simp
    qed
  next
    case False
    then have "f' = f" using c by auto
    then show ?thesis using 1(4) by simp
  qed
qed

lemma exchange_pass_spec:
  assumes "consistent cmp" and "gap \<noteq> 0" and "0 \<le> j" and "fin \<le> int (length a)" and "\<And>q. fin \<le> pos gap j q \<Longrightarrow> inside a (pos gap j q) \<Longrightarrow> e \<le> q"
    and "passing (le cmp mode) gap j e m a"
  shows "\<exists>b f'. exchange_pass cmp mode gap fin (pos gap j m) a f = Some (b, f') \<and> mset b = mset a \<and> settled (le cmp mode) gap j (e - 1) b
    \<and> (f' \<longrightarrow> f \<or> 1 < e)
    \<and> (\<not> f' \<longrightarrow> b = a \<and> (\<forall>q. m \<le> q \<and> pos gap j (Suc q) < fin \<longrightarrow> le cmp mode (at a (pos gap j q)) (at a (pos gap j (Suc q)))))"
  using assms(4-6)
proof (induction "nat (fin - pos gap j m)" arbitrary: m a f rule: less_induct)
  case less
  show ?case
  proof (cases "pos gap j (Suc m) < fin")
    case True
    have i: "inside a (pos gap j (Suc m))" "inside a (pos gap j m)"
      using True less.prems(1) pos_nonneg[OF assms(3), of gap] pos_less[OF assms(2), of j m "Suc m"] by (auto simp: inside_def)
    have dec: "nat (fin - pos gap j (Suc m)) < nat (fin - pos gap j m)" using True assms(2) by (simp add: pos_Suc)
    let ?b = "swapped a (pos gap j m) (pos gap j (Suc m))"
    show ?thesis
    proof (cases "behind cmp mode (at a (pos gap j m)) (at a (pos gap j (Suc m)))")
      case b: True
      note sw = passing_swap[OF less.prems(3) b assms(1-3) i(1)]
      from less.hyps[OF dec _ _ sw(2), of True] less.prems(1,2) obtain c f' where
        c: "exchange_pass cmp mode gap fin (pos gap j (Suc m)) ?b True = Some (c, f')" "mset c = mset ?b" "settled (le cmp mode) gap j (e - 1) c"
          "\<not> f' \<longrightarrow> c = ?b \<and> (\<forall>q. Suc m \<le> q \<and> pos gap j (Suc q) < fin \<longrightarrow> le cmp mode (at ?b (pos gap j q)) (at ?b (pos gap j (Suc q))))" by auto
      have t: "f'"
        by (rule exchange_pass_swapped[OF c(1)]) simp
      show ?thesis
        using c(1-3) t sw(1) i b mset_swapped[OF i(2,1)] True assms(2)
        by (subst exchange_pass.simps) (auto simp: pos_Suc)
    next
      case b: False
      from less.hyps[OF dec less.prems(1,2) passing_step[OF less.prems(3) b assms(1-3)], of f] obtain c f' where
        c: "exchange_pass cmp mode gap fin (pos gap j (Suc m)) a f = Some (c, f')" "mset c = mset a" "settled (le cmp mode) gap j (e - 1) c"
          "f' \<longrightarrow> f \<or> 1 < e"
          "\<not> f' \<longrightarrow> c = a \<and> (\<forall>q. Suc m \<le> q \<and> pos gap j (Suc q) < fin \<longrightarrow> le cmp mode (at a (pos gap j q)) (at a (pos gap j (Suc q))))" by auto
      have "exchange_pass cmp mode gap fin (pos gap j m) a f = Some (c, f')"
        using c(1) i b True assms(2) by (subst exchange_pass.simps) (simp add: pos_Suc)
      then show ?thesis using c(2-5) b by (metis le_neq_implies_less Suc_leI)
    qed
  next
    case False
    have fin: "q \<ge> e" if "m < q" "inside a (pos gap j q)" for q
    proof -
      have "pos gap j (Suc m) \<le> pos gap j q" using pos_less[OF assms(2), of j "Suc m" q] that(1) by (cases "q = Suc m") auto
      then show ?thesis using less.prems(2)[OF _ that(2)] False by linarith
    qed
    have "settled (le cmp mode) gap j (e - 1) a"
      unfolding settled_def
    proof (intro allI impI, elim conjE)
      fix p q assume q: "p < q" "e - 1 \<le> q" "inside a (pos gap j q)"
      then have "e \<le> Suc q" by simp
      with q show "le cmp mode (at a (pos gap j p)) (at a (pos gap j q))"
        using less.prems(3) fin[of q] unfolding passing_def by (cases q m rule: linorder_cases) auto
    qed
    moreover have "exchange_pass cmp mode gap fin (pos gap j m) a f = Some (a, f)"
      using exchange_pass_end False by (metis pos_Suc not_less)
    moreover have "\<not> pos gap j (Suc q) < fin" if "m \<le> q" for q
      using False pos_less[OF assms(2), of j "Suc m" "Suc q"] that by (cases "m = q") auto
    ultimately show ?thesis by auto
  qed
qed

lemma adjacent_settled:
  assumes "consistent cmp" and "gap \<noteq> 0" and "0 \<le> j"
    and "\<And>q. inside a (pos gap j (Suc q)) \<Longrightarrow> le cmp mode (at a (pos gap j q)) (at a (pos gap j (Suc q)))"
  shows "settled (le cmp mode) gap j 0 a"
proof -
  have "le cmp mode (at a (pos gap j p)) (at a (pos gap j q))" if "p < q" "inside a (pos gap j q)" for p q
    using that
  proof (induction q)
    case (Suc q)
    have i: "inside a (pos gap j q)" using inside_pos[OF assms(2,3) _ Suc.prems(2), of q] by simp
    show ?case
    proof (cases "p = q")
      case False
      then have "le cmp mode (at a (pos gap j p)) (at a (pos gap j q))" using Suc.IH Suc.prems(1) i by simp
      then show ?thesis using le_trans[OF assms(1) _ assms(4)[OF Suc.prems(2)]] by blast
    qed (simp add: assms(4)[OF Suc.prems(2)])
  qed simp
  then show ?thesis unfolding settled_def by blast
qed

lemma settled_in_order: "settled R 1 0 0 a \<Longrightarrow> in_order R 0 (int (length a) - 1) a"
  unfolding settled_def in_order_def
proof (intro allI impI, elim conjE)
  fix p q :: int
  assume a: "\<forall>p q. p < q \<and> 0 \<le> q \<and> inside a (pos 1 0 q) \<longrightarrow> R (at a (pos 1 0 p)) (at a (pos 1 0 q))"
    and q: "0 \<le> p" "p < q" "q \<le> int (length a) - 1"
  show "R (at a p) (at a q)" using a[rule_format, of "nat p" "nat q"] q by (simp add: pos_def inside_def)
qed

lemma bubble_loop_spec:
  assumes "consistent cmp" and "settled (le cmp mode) 1 0 e a" and "e \<le> length a"
  shows "\<exists>b. bubble_loop cmp mode (int e) a = Some b \<and> mset b = mset a \<and> settled (le cmp mode) 1 0 0 b"
  using assms(2,3)
proof (induction e arbitrary: a rule: less_induct)
  case (less e)
  have q: "q \<ge> e" if "int e \<le> pos 1 0 q" "inside a (pos 1 0 q)" for q using that by (simp add: pos_def)
  have l: "int e \<le> int (length a)" using less.prems(2) by simp
  from exchange_pass_spec[OF assms(1) one_neq_zero order_refl l q settled_passing[OF less.prems(1)], where f = False] obtain b f where
    b: "exchange_pass cmp mode 1 (int e) 0 a False = Some (b, f)" "mset b = mset a" "settled (le cmp mode) 1 0 (e - 1) b" "f \<longrightarrow> 1 < e"
      "\<not> f \<longrightarrow> b = a \<and> (\<forall>q. pos 1 0 (Suc q) < int e \<longrightarrow> le cmp mode (at a (pos 1 0 q)) (at a (pos 1 0 (Suc q))))"
    by auto
  show ?case
  proof (cases f)
    case True
    have "length b = length a" using b(2) mset_eq_length by blast
    then obtain c where "bubble_loop cmp mode (int (e - 1)) b = Some c" "mset c = mset b" "settled (le cmp mode) 1 0 0 c"
      using less.IH[of "e - 1" b] b(3,4) True less.prems(2) by auto
    moreover have "int (e - 1) = int e - 1" using b(4) True by simp
    ultimately show ?thesis using b(1,2) True by (subst bubble_loop.simps) simp
  next
    case False
    have "settled (le cmp mode) 1 0 0 a"
    proof (rule adjacent_settled[OF assms(1)])
      fix q assume q: "inside a (pos 1 0 (Suc q))"
      show "le cmp mode (at a (pos 1 0 q)) (at a (pos 1 0 (Suc q)))"
      proof (cases "Suc q < e")
        case True
        then show ?thesis using b(5) False by (simp add: pos_def)
      next
        case False
        then show ?thesis using less.prems(1) q unfolding settled_def by simp
      qed
    qed simp_all
    then show ?thesis using b(1,5) False by (subst bubble_loop.simps) simp
  qed
qed

text \<open>The result of a sort: a permutation in order.\<close>

definition sorts :: "'a list run \<Rightarrow> 'a cp_compare_fn \<Rightarrow> sort_mode \<Rightarrow> 'a list \<Rightarrow> bool" where
  "sorts r cmp mode a \<longleftrightarrow> (\<exists>b. r = Some b \<and> mset b = mset a \<and> sorted_wrt (le cmp mode) b)"

lemma all_settled: "settled R gap j (length a) a" if "gap \<noteq> 0" "0 \<le> j"
proof -
  have "\<not> inside a (pos gap j q)" if "length a \<le> q" for q
  proof -
    have "int q * 1 \<le> int q * int gap" using \<open>gap \<noteq> 0\<close> by (intro mult_left_mono) auto
    then show ?thesis using that \<open>0 \<le> j\<close> by (simp add: inside_def pos_def)
  qed
  then show ?thesis unfolding settled_def by blast
qed

lemma bubble_sorts:
  assumes "consistent cmp"
  shows "sorts (sort_bubble a (int (length a)) cmp mode) cmp (if mode = DESCEND_MODE then DESCEND_MODE else ASCEND_MODE) a"
proof -
  let ?m = "if ASCEND_MODE \<noteq> mode \<and> DESCEND_MODE \<noteq> mode then ASCEND_MODE else mode"
  obtain b where "bubble_loop cmp ?m (int (length a)) a = Some b" "mset b = mset a" "settled (le cmp ?m) 1 0 0 b"
    using bubble_loop_spec[OF assms(1) all_settled[of 1 0 "le cmp ?m" a]] by auto
  moreover from this have "sorted_wrt (le cmp ?m) b" using settled_in_order in_order_sorted by blast
  moreover have "?m = (if mode = DESCEND_MODE then DESCEND_MODE else ASCEND_MODE)" by simp
  ultimately show ?thesis unfolding sorts_def sort_bubble_def by (simp only:) blast
qed

lemma comb_until_spec:
  assumes "consistent cmp" and "gap \<noteq> 0" and "0 \<le> j" and "settled (le cmp mode) gap j e a"
  shows "\<exists>b. comb_until cmp mode gap (int (length a)) j a = Some b \<and> mset b = mset a \<and> settled (le cmp mode) gap j 0 b"
  using assms(4)
proof (induction e arbitrary: a rule: less_induct)
  case (less e)
  have "q \<ge> e" if "int (length a) \<le> pos gap j q" "inside a (pos gap j q)" for q using that by (simp add: inside_def)
  from exchange_pass_spec[OF assms(1-3) order_refl this settled_passing[OF less.prems(1)], where f = False] obtain b f where
    b: "exchange_pass cmp mode gap (int (length a)) (pos gap j 0) a False = Some (b, f)" "mset b = mset a"
      "settled (le cmp mode) gap j (e - 1) b" "f \<longrightarrow> 1 < e"
      "\<not> f \<longrightarrow> b = a \<and> (\<forall>q. pos gap j (Suc q) < int (length a) \<longrightarrow> le cmp mode (at a (pos gap j q)) (at a (pos gap j (Suc q))))"
    by auto
  have r: "exchange_pass cmp mode gap (int (length a)) j a False = Some (b, f)" using b(1) by (simp add: pos_def)
  show ?case
  proof (cases f)
    case True
    have l: "length b = length a" using b(2) mset_eq_length by blast
    obtain c where "comb_until cmp mode gap (int (length b)) j b = Some c" "mset c = mset b" "settled (le cmp mode) gap j 0 c"
      using less.IH[of "e - 1" b] b(3,4) True by auto
    then show ?thesis using r b(2) True l by (subst comb_until.simps) simp
  next
    case False
    have "settled (le cmp mode) gap j 0 a" using adjacent_settled[OF assms(1-3), of a mode] b(5) False by (auto simp: inside_def)
    then show ?thesis using r b(5) False by (subst comb_until.simps) simp
  qed
qed

lemma comb_offsets_spec:
  assumes "consistent cmp" and "gap \<noteq> 0"
  shows "\<exists>b. comb_offsets cmp mode gap (int (length a)) js a = Some b \<and> mset b = mset a"
proof (induction js arbitrary: a)
  case (Cons j js)
  obtain b where b: "comb_until cmp mode gap (int (length a)) (int j) a = Some b" "mset b = mset a"
    using comb_until_spec[OF assms _ all_settled[OF assms(2)], of "int j"] by auto
  then have "length b = length a" using mset_eq_length by blast
  with b Cons[of b] show ?case by auto
qed simp

lemma comb_gaps_append:
  "comb_gaps cmp mode n (gs @ hs) a = do { b \<leftarrow> comb_gaps cmp mode n gs a; comb_gaps cmp mode n hs b }"
proof (induction gs arbitrary: a)
  case (Cons g gs)
  then show ?case by (cases "comb_offsets cmp mode g n [0..<g] a") simp_all
qed simp

lemma comb_gaps_spec:
  assumes "consistent cmp"
  shows "0 \<notin> set gs \<Longrightarrow> \<exists>b. comb_gaps cmp mode (int (length a)) gs a = Some b \<and> mset b = mset a"
proof (induction gs arbitrary: a)
  case (Cons g gs)
  obtain b where b: "comb_offsets cmp mode g (int (length a)) [0..<g] a = Some b" "mset b = mset a"
    using comb_offsets_spec[OF assms, of g mode a "[0..<g]"] Cons.prems by auto
  then have "length b = length a" using mset_eq_length by blast
  with b Cons.IH[of b] Cons.prems show ?case by auto
qed simp

lemma comb_sorts:
  assumes "consistent cmp"
  shows "sorts (sort_comb a (int (length a)) cmp mode) cmp mode a"
proof -
  obtain b where b: "comb_gaps cmp mode (int (length a)) [11, 8, 6, 4, 3, 2] a = Some b" "mset b = mset a"
    using comb_gaps_spec[OF assms, of "[11, 8, 6, 4, 3, 2]"] by auto
  then have l: "length b = length a" using mset_eq_length by blast
  obtain c where c: "comb_until cmp mode 1 (int (length b)) 0 b = Some c" "mset c = mset b" "settled (le cmp mode) 1 0 0 c"
    using comb_until_spec[OF assms _ _ all_settled[where a = b], of 1 0] by auto
  have "sort_comb a (int (length a)) cmp mode = Some c"
    using b(1) c(1) l comb_gaps_append[of cmp mode "int (length a)" "[11, 8, 6, 4, 3, 2]" "[1]" a] by (simp add: sort_comb_def)
  then show ?thesis using b(2) c(2,3) in_order_sorted[OF settled_in_order] unfolding sorts_def by auto
qed

section \<open>Insertion sorts\<close>

text \<open>A shift moves a hole from \<open>k + gap\<close> down; with \<open>tmp\<close> in the hole the array is always a permutation.\<close>

lemma hole_moves:
  assumes "inside a k" and "inside a (k + int gap)"
  shows "mset (a[nat (k + int gap) := at a k, nat k := tmp]) = mset (a[nat (k + int gap) := tmp])"
proof (cases "gap = 0")
  case False
  let ?b = "a[nat (k + int gap) := tmp]"
  have "swapped ?b k (k + int gap) = a[nat (k + int gap) := at a k, nat k := tmp]"
    using assms False at_update[of a "k + int gap" k tmp] at_update[of a "k + int gap" "k + int gap" tmp]
    by (simp add: swapped_def inside_def list_update_swap[of "nat k"] nat_eq_iff)
  then show ?thesis using mset_swapped[of ?b k "k + int gap"] assms by simp
qed simp

lemma shift_perm:
  assumes "gap \<noteq> 0"
  shows "- int gap \<le> k \<Longrightarrow> inside a (k + int gap) \<Longrightarrow> \<exists>b k' f'. shift cmp mode gap tmp k a f = Some (b, k', f') \<and> - int gap \<le> k' \<and> inside b (k' + int gap)
    \<and> mset (b[nat (k' + int gap) := tmp]) = mset (a[nat (k + int gap) := tmp]) \<and> (f \<longrightarrow> f') \<and> (\<not> f' \<longrightarrow> b = a \<and> k' = k)"
proof (induction "nat (k + 1)" arbitrary: k a f rule: less_induct)
  case less
  show ?case
  proof (cases "0 \<le> k")
    case True
    have i: "inside a k" using True less.prems(2) assms by (simp add: inside_def)
    show ?thesis
    proof (cases "before cmp mode tmp (at a k)")
      case b: True
      let ?a = "a[nat (k + int gap) := at a k]"
      have "\<exists>b k' f'. shift cmp mode gap tmp (k - int gap) ?a True = Some (b, k', f') \<and> - int gap \<le> k' \<and> inside b (k' + int gap)
        \<and> mset (b[nat (k' + int gap) := tmp]) = mset (?a[nat (k - int gap + int gap) := tmp]) \<and> (True \<longrightarrow> f') \<and> (\<not> f' \<longrightarrow> b = ?a \<and> k' = k - int gap)"
        by (rule less.hyps) (use True i assms in auto)
      then show ?thesis
        using True i b less.prems(2) hole_moves[OF i less.prems(2)] assms by (subst shift.simps) (auto simp: aset_def)
    next
      case False
      then show ?thesis using True i less.prems assms by (subst shift.simps) simp
    qed
  next
    case False
    then show ?thesis using less.prems by (subst shift.simps) simp
  qed
qed

text \<open>With steps of one: what is in order around the hole, and \<open>tmp\<close> before everything behind it.\<close>

definition around_hole :: "('a \<Rightarrow> 'a \<Rightarrow> bool) \<Rightarrow> 'a \<Rightarrow> int \<Rightarrow> int \<Rightarrow> 'a list \<Rightarrow> bool" where
  "around_hole R tmp i h a \<longleftrightarrow> (\<forall>p q. 0 \<le> p \<and> p < q \<and> q \<le> i \<and> p \<noteq> h \<and> q \<noteq> h \<longrightarrow> R (at a p) (at a q))
     \<and> (\<forall>q. h < q \<and> q \<le> i \<longrightarrow> R tmp (at a q))"

lemma shift_order:
  assumes "consistent cmp"
  shows "shift cmp mode 1 tmp k a f = Some (b, k', f') \<Longrightarrow> around_hole (le cmp mode) tmp i (k + 1) a \<Longrightarrow> - 1 \<le> k \<Longrightarrow> k < i \<Longrightarrow> i < int (length a)
    \<Longrightarrow> in_order (le cmp mode) 0 i (b[nat (k' + 1) := tmp])"
proof (induction "nat (k + 1)" arbitrary: k a f rule: less_induct)
  case less
  note run = less.prems(1)[unfolded shift.simps[of cmp mode 1 tmp k a f]]
  show ?case
  proof (cases "0 \<le> k \<and> before cmp mode tmp (at a k)")
    case True
    have i: "inside a k" "inside a (k + 1)" using True less.prems(4,5) by (simp_all add: inside_def)
    let ?a = "a[nat (k + 1) := at a k]"
    have at: "at ?a q = (if q = k + 1 then at a k else at a q)" if "0 \<le> q" for q using at_update[OF i(2) that] .
    have "around_hole (le cmp mode) tmp i (k - 1 + 1) ?a"
      using less.prems(2) True before_behind[OF assms(1)] behind_le[OF assms(1), of mode "at a k" tmp]
      unfolding around_hole_def by (auto simp: at)
    moreover have "shift cmp mode 1 tmp (k - 1) ?a True = Some (b, k', f')" using run True i by (simp add: aset_def)
    ultimately show ?thesis using less.hyps[of "k - 1" ?a True] True less.prems(4,5) by simp
  next
    case False
    then have r: "b = a" "k' = k" using run less.prems(4,5) by (auto simp: inside_def split: if_splits)
    have i: "inside a (k + 1)" using less.prems(3-5) by (simp add: inside_def)
    have "le cmp mode (at a p) tmp" if "0 \<le> p" "p \<le> k" for p
    proof -
      have k: "le cmp mode (at a k) tmp" using False that before_behind[OF assms(1), of mode tmp "at a k"] by auto
      show ?thesis
      proof (cases "p = k")
        case False
        then have "le cmp mode (at a p) (at a k)" using less.prems(2,4) that unfolding around_hole_def by auto
        then show ?thesis using le_trans[OF assms(1) _ k] by blast
      qed (use k in simp)
    qed
    then show ?thesis using less.prems(2) unfolding r in_order_def around_hole_def by (auto simp: at_update[OF i])
  qed
qed

lemma insertion_is_shell:
  "\<forall>i \<in> set is. 0 < i \<and> i < length a \<Longrightarrow> insertion_loop cmp mode is a = shell_pass cmp mode 1 is a"
proof (induction "is" arbitrary: a)
  case (Cons i "is")
  have i: "inside a (int i)" "inside a (int i - 1 + int 1)" "- int 1 \<le> int i - 1" using Cons.prems by (auto simp: inside_def)
  from shift_perm[OF one_neq_zero i(3,2), of cmp mode "at a (int i)" False] obtain b k f where
    b: "shift cmp mode 1 (at a (int i)) (int i - 1) a False = Some (b, k, f)" "inside b (k + 1)"
      "mset (b[nat (k + 1) := at a (int i)]) = mset (a[i := at a (int i)])" "\<not> f \<longrightarrow> b = a \<and> k = int i - 1" by auto
  have l: "length b = length a" using mset_eq_length[OF b(3)] by simp
  have same: "(if f then aset b (k + 1) (at a (int i)) else Some b) = aset b (k + 1) (at a (int i))"
    using b(2,4) by (auto simp: aset_def at_def)
  show ?case
    using b(1,2) Cons.IH[of "b[nat (k + 1) := at a (int i)]"] Cons.prems l i(1) unfolding insertion_loop.simps shell_pass.simps
    by (simp add: same del: aset_def) (simp add: aset_def)
qed simp

lemma shell_pass_perm:
  assumes "gap \<noteq> 0"
  shows "\<forall>j \<in> set js. gap \<le> j \<and> j < length a \<Longrightarrow> \<exists>b. shell_pass cmp mode gap js a = Some b \<and> mset b = mset a"
proof (induction js arbitrary: a)
  case (Cons j js)
  have i: "inside a (int j)" "inside a (int j - int gap + int gap)" "- int gap \<le> int j - int gap" using Cons.prems by (auto simp: inside_def)
  from shift_perm[OF assms i(3,2), of cmp mode "at a (int j)" False] obtain b k f where
    b: "shift cmp mode gap (at a (int j)) (int j - int gap) a False = Some (b, k, f)" "inside b (k + int gap)"
      "mset (b[nat (k + int gap) := at a (int j)]) = mset (a[j := at a (int j)])" by auto
  let ?c = "b[nat (k + int gap) := at a (int j)]"
  have m: "mset ?c = mset a" using b(3) by (simp add: at_def)
  then have "length ?c = length a" using mset_eq_length by blast
  then obtain d where "shell_pass cmp mode gap js ?c = Some d" "mset d = mset ?c" using Cons.IH[of ?c] Cons.prems by auto
  then show ?case using b(1,2) i(1) m by (simp add: aset_def)
qed simp

lemma shell_pass_order:
  assumes "consistent cmp"
  shows "shell_pass cmp mode 1 [i..<length a] a = Some b \<Longrightarrow> 0 < i \<Longrightarrow> in_order (le cmp mode) 0 (int i - 1) a
    \<Longrightarrow> in_order (le cmp mode) 0 (int (length a) - 1) b"
proof (induction "length a - i" arbitrary: i a)
  case 0
  then show ?case by (auto simp: in_order_def)
next
  case (Suc n)
  have i: "i < length a" using Suc.hyps(2) by simp
  have ia: "inside a (int i)" "inside a (int i - 1 + int 1)" "- int 1 \<le> int i - 1" using i Suc.prems(2) by (auto simp: inside_def)
  from shift_perm[OF one_neq_zero ia(3,2), of cmp mode "at a (int i)" False] obtain c k f where
    c: "shift cmp mode 1 (at a (int i)) (int i - 1) a False = Some (c, k, f)" "inside c (k + 1)"
      "mset (c[nat (k + 1) := at a (int i)]) = mset (a[i := at a (int i)])" by auto
  let ?c = "c[nat (k + 1) := at a (int i)]"
  have l: "length c = length a" using mset_eq_length[OF c(3)] by simp
  have "around_hole (le cmp mode) (at a (int i)) (int i) (int i - 1 + 1) a"
    using Suc.prems(3) unfolding around_hole_def in_order_def by auto
  from shift_order[OF assms c(1) this] i Suc.prems(2) have o: "in_order (le cmp mode) 0 (int (Suc i) - 1) ?c" by simp
  have "shell_pass cmp mode 1 [Suc i..<length ?c] ?c = Some b"
    using Suc.prems(1) c(1,2) ia(1) i l by (simp add: upt_conv_Cons aset_def)
  from Suc.hyps(1)[OF _ this _ o] Suc.hyps(2) l show ?case by simp
qed

lemma one_pass_sorts:
  assumes "consistent cmp"
  shows "sorts (shell_pass cmp mode 1 [1..<length a] a) cmp mode a"
proof -
  obtain b where b: "shell_pass cmp mode 1 [1..<length a] a = Some b" "mset b = mset a"
    using shell_pass_perm[OF one_neq_zero, of "[1..<length a]" a] by auto
  have "in_order (le cmp mode) 0 (int 1 - 1) a" by (auto simp: in_order_def)
  from shell_pass_order[OF assms b(1) _ this] have "in_order (le cmp mode) 0 (int (length b) - 1) b"
    using mset_eq_length[OF b(2)] by simp
  then show ?thesis using b in_order_sorted unfolding sorts_def by blast
qed

lemma insertion_sorts:
  assumes "consistent cmp"
  shows "sorts (sort_insertion a (int (length a)) cmp mode) cmp mode a"
  using one_pass_sorts[OF assms] insertion_is_shell[of "[1..<length a]" a cmp mode] by (simp add: sort_insertion_def)

lemma shell_gaps_append:
  "shell_gaps cmp mode n (gs @ hs) a = do { b \<leftarrow> shell_gaps cmp mode n gs a; shell_gaps cmp mode n hs b }"
proof (induction gs arbitrary: a)
  case (Cons g gs)
  then show ?case by (cases "shell_pass cmp mode g [g..<nat n] a") simp_all
qed simp

lemma shell_gaps_perm:
  "0 \<notin> set gs \<Longrightarrow> \<exists>b. shell_gaps cmp mode (int (length a)) gs a = Some b \<and> mset b = mset a"
proof (induction gs arbitrary: a)
  case (Cons g gs)
  obtain b where b: "shell_pass cmp mode g [g..<length a] a = Some b" "mset b = mset a"
    using shell_pass_perm[of g "[g..<length a]" a] Cons.prems by auto
  then have "length b = length a" using mset_eq_length by blast
  with b Cons.IH[of b] Cons.prems show ?case by auto
qed simp

lemma shell_sorts:
  assumes "consistent cmp"
  shows "sorts (sort_shell a (int (length a)) cmp mode) cmp mode a"
proof -
  obtain b where b: "shell_gaps cmp mode (int (length a)) [701, 301, 132, 57, 23, 10, 4] a = Some b" "mset b = mset a"
    using shell_gaps_perm[of "[701, 301, 132, 57, 23, 10, 4]" cmp mode a] by auto
  have "sort_shell a (int (length a)) cmp mode = shell_pass cmp mode 1 [1..<length b] b"
    using b shell_gaps_append[of cmp mode "int (length a)" "[701, 301, 132, 57, 23, 10, 4]" "[1]" a] mset_eq_length[OF b(2)]
    by (cases "shell_pass cmp mode 1 [1..<length b] b") (simp_all add: sort_shell_def)
  then show ?thesis using one_pass_sorts[OF assms, of mode b] b(2) unfolding sorts_def by simp
qed

section \<open>Selection sort\<close>

lemma max_index_spec:
  assumes "consistent cmp"
  shows "b \<le> t \<Longrightarrow> t < e \<Longrightarrow> b \<le> j \<Longrightarrow> 0 \<le> b \<Longrightarrow> e \<le> int (length a) \<Longrightarrow> (\<forall>q. b \<le> q \<and> q < j \<longrightarrow> cmp (at a q) (at a t) \<le> 0)
    \<Longrightarrow> \<exists>m. max_index cmp a e j t = Some m \<and> b \<le> m \<and> m < e \<and> (\<forall>q. b \<le> q \<and> q < e \<longrightarrow> cmp (at a q) (at a m) \<le> 0)"
proof (induction "nat (e - j)" arbitrary: j t)
  case 0
  then show ?case by (subst max_index.simps) auto
next
  case (Suc n)
  have j: "j < e" "inside a j" "inside a t" using Suc.hyps(2) Suc.prems by (auto simp: inside_def)
  define t' where "t' = (if 0 < cmp (at a j) (at a t) then j else t)"
  have r: "cmp x x \<le> 0" for x using le_refl[OF assms, of ASCEND_MODE x] by (simp add: behind_def)
  have max: "cmp (at a q) (at a t') \<le> 0" if "b \<le> q" "q < j + 1" for q
  proof (cases "q = j")
    case True
    then show ?thesis using r by (simp add: t'_def)
  next
    case False
    then have q: "cmp (at a q) (at a t) \<le> 0" using Suc.prems(6) that by auto
    show ?thesis
    proof (cases "0 < cmp (at a j) (at a t)")
      case True
      then have "cmp (at a t) (at a j) \<le> 0" using consistentD(1)[OF assms, of "at a j" "at a t"] by simp
      then show ?thesis using consistentD(2)[OF assms q] True by (simp add: t'_def)
    qed (use q in \<open>simp add: t'_def\<close>)
  qed
  have "\<exists>m. max_index cmp a e (j + 1) t' = Some m \<and> b \<le> m \<and> m < e \<and> (\<forall>q. b \<le> q \<and> q < e \<longrightarrow> cmp (at a q) (at a m) \<le> 0)"
  proof (rule Suc.hyps(1))
    show "b \<le> t'" "t' < e" using Suc.prems(1-3) j(1) by (auto simp: t'_def)
  qed (use Suc.hyps(2) Suc.prems(3-5) max in auto)
  then obtain m where "max_index cmp a e (j + 1) t' = Some m" "b \<le> m" "m < e" "\<forall>q. b \<le> q \<and> q < e \<longrightarrow> cmp (at a q) (at a m) \<le> 0" by auto
  then show ?case using j by (subst max_index.simps) (auto simp: t'_def)
qed

text \<open>In ascending mode the elements from \<open>e\<close> on are in place, in descending mode those before \<open>b\<close>.\<close>

definition placed_from :: "('a \<Rightarrow> 'a \<Rightarrow> bool) \<Rightarrow> int \<Rightarrow> 'a list \<Rightarrow> bool" where
  "placed_from R e a \<longleftrightarrow> (\<forall>p q. 0 \<le> p \<and> p < q \<and> e \<le> q \<and> q < int (length a) \<longrightarrow> R (at a p) (at a q))"

definition placed_to :: "('a \<Rightarrow> 'a \<Rightarrow> bool) \<Rightarrow> int \<Rightarrow> 'a list \<Rightarrow> bool" where
  "placed_to R b a \<longleftrightarrow> (\<forall>p q. 0 \<le> p \<and> p < q \<and> p < b \<and> q < int (length a) \<longrightarrow> R (at a p) (at a q))"

lemma selection_ascending:
  assumes "consistent cmp"
  shows "n \<le> length a \<Longrightarrow> placed_from (le cmp ASCEND_MODE) (int n) a \<Longrightarrow>
    \<exists>b. selection_loop cmp ASCEND_MODE n 0 (int n) a = Some b \<and> mset b = mset a \<and> placed_from (le cmp ASCEND_MODE) 0 b"
proof (induction n arbitrary: a)
  case (Suc n)
  obtain m where m: "max_index cmp a (int (Suc n)) 0 0 = Some m" "0 \<le> m" "m < int (Suc n)"
      "\<forall>q. 0 \<le> q \<and> q < int (Suc n) \<longrightarrow> cmp (at a q) (at a m) \<le> 0"
    using max_index_spec[OF assms, of 0 0 "int (Suc n)" 0 a] Suc.prems(1) by auto
  have i: "inside a m" "inside a (int n)" using m(2,3) Suc.prems(1) by (auto simp: inside_def)
  let ?b = "swapped a m (int n)"
  note at = at_swapped[OF i]
  have "placed_from (le cmp ASCEND_MODE) (int n) ?b"
    unfolding placed_from_def
  proof (intro allI impI, elim conjE)
    fix p q assume q: "0 \<le> p" "p < q" "int n \<le> q" "q < int (length ?b)"
    have old: "le cmp ASCEND_MODE (at a p') (at a q)" if "0 \<le> p'" "p' < q" "int n < q" for p'
      using Suc.prems(2) q that unfolding placed_from_def by auto
    have max: "le cmp ASCEND_MODE (at a q') (at a m)" if "0 \<le> q'" "q' \<le> int n" for q'
      using m(4) that le_modes[OF assms] by simp
    show "le cmp ASCEND_MODE (at ?b p) (at ?b q)"
    proof (cases "q = int n")
      case True
      then show ?thesis using max[of p] max[of "int n"] q m(2,3) by (auto simp: at)
    next
      case False
      then show ?thesis using old[of p] old[of m] old[of "int n"] q m(2,3) by (auto simp: at)
    qed
  qed
  then obtain c where "selection_loop cmp ASCEND_MODE n 0 (int n) ?b = Some c" "mset c = mset ?b" "placed_from (le cmp ASCEND_MODE) 0 c"
    using Suc.IH[of ?b] Suc.prems(1) by auto
  then show ?case using m(1) i mset_swapped[OF i] by (simp add: ASCEND_MODE_def DESCEND_MODE_def)
qed simp

lemma selection_descending:
  assumes "consistent cmp"
  shows "n \<le> length a \<Longrightarrow> placed_to (le cmp DESCEND_MODE) (int (length a) - int n) a \<Longrightarrow>
    \<exists>b. selection_loop cmp DESCEND_MODE n (int (length a) - int n) (int (length a)) a = Some b \<and> mset b = mset a
      \<and> placed_to (le cmp DESCEND_MODE) (int (length b)) b"
proof (induction n arbitrary: a)
  case (Suc n)
  define s where "s = int (length a) - int (Suc n)"
  then have sn: "s + 1 = int (length a) - int n" "0 \<le> s" "s < int (length a)" using Suc.prems(1) by auto
  have prem: "placed_to (le cmp DESCEND_MODE) s a" using Suc.prems(2) unfolding s_def .
  obtain m where m: "max_index cmp a (int (length a)) s s = Some m" "s \<le> m" "m < int (length a)"
      "\<forall>q. s \<le> q \<and> q < int (length a) \<longrightarrow> cmp (at a q) (at a m) \<le> 0"
    using max_index_spec[OF assms, of s s "int (length a)" s a] sn by auto
  have i: "inside a m" "inside a s" using m(2,3) sn by (auto simp: inside_def)
  let ?b = "swapped a m s"
  note at = at_swapped[OF i]
  have "placed_to (le cmp DESCEND_MODE) (s + 1) ?b"
    unfolding placed_to_def
  proof (intro allI impI, elim conjE)
    fix p q assume q: "0 \<le> p" "p < q" "p < s + 1" "q < int (length ?b)"
    have old: "le cmp DESCEND_MODE (at a p) (at a q')" if "p < q'" "q' < int (length a)" "p < s" for q'
      using prem q that unfolding placed_to_def by auto
    have max: "le cmp DESCEND_MODE (at a m) (at a q')" if "s \<le> q'" "q' < int (length a)" for q'
      using m(4) that le_modes[OF assms] by (simp add: ASCEND_MODE_def DESCEND_MODE_def)
    show "le cmp DESCEND_MODE (at ?b p) (at ?b q)"
    proof (cases "p = s")
      case True
      then show ?thesis using max[of q] max[of s] q i by (auto simp: at inside_def)
    next
      case False
      then show ?thesis using old[of q] old[of m] old[of s] q m(2,3) by (auto simp: at)
    qed
  qed
  then obtain c where "selection_loop cmp DESCEND_MODE n (s + 1) (int (length a)) ?b = Some c" "mset c = mset ?b"
      "placed_to (le cmp DESCEND_MODE) (int (length c)) c"
    using Suc.IH[of ?b] Suc.prems(1) unfolding sn(1) by auto
  then show ?case unfolding s_def[symmetric] using m(1) i mset_swapped[OF i] by (simp add: ASCEND_MODE_def DESCEND_MODE_def)
qed simp

lemma selection_neither:
  "mode \<noteq> ASCEND_MODE \<Longrightarrow> mode \<noteq> DESCEND_MODE \<Longrightarrow> n \<le> length a \<Longrightarrow> consistent cmp \<Longrightarrow>
    selection_loop cmp mode n 0 (int (length a)) a = Some a"
proof (induction n)
  case (Suc n)
  then have "0 < int (length a)" by linarith
  with Suc.prems obtain m where "max_index cmp a (int (length a)) 0 0 = Some m" using max_index_spec[of cmp 0 0 "int (length a)" 0 a] by auto
  then show ?case using Suc by simp
qed simp

lemma selection_sorts:
  assumes "consistent cmp"
  shows "sorts (sort_selection a (int (length a)) cmp mode) cmp mode a"
proof -
  have p: "in_order R 0 (int (length b) - 1) b" if "placed_from R 0 b \<or> placed_to R (int (length b)) b" for b :: "'a list" and R
    using that unfolding in_order_def placed_from_def placed_to_def by auto
  consider "mode = ASCEND_MODE" | "mode = DESCEND_MODE" | "mode \<noteq> ASCEND_MODE" "mode \<noteq> DESCEND_MODE" by blast
  then show ?thesis
  proof cases
    case 1
    have "placed_from (le cmp ASCEND_MODE) (int (length a)) a" by (auto simp: placed_from_def)
    from selection_ascending[OF assms order_refl this] show ?thesis
      using p in_order_sorted unfolding sorts_def sort_selection_def 1 by fastforce
  next
    case 2
    have "placed_to (le cmp DESCEND_MODE) (int (length a) - int (length a)) a" by (auto simp: placed_to_def)
    from selection_descending[OF assms order_refl this] show ?thesis
      using p in_order_sorted unfolding sorts_def sort_selection_def 2 by fastforce
  next
    case 3
    then show ?thesis using selection_neither[OF 3 order_refl assms] by (simp add: sorts_def sort_selection_def behind_def sorted_wrt_true)
  qed
qed

section \<open>Quicksort\<close>

text \<open>A permutation that changes elements between \<open>l\<close> and \<open>h\<close> only.\<close>

definition within :: "int \<Rightarrow> int \<Rightarrow> 'a list \<Rightarrow> 'a list \<Rightarrow> bool" where
  "within l h a b \<longleftrightarrow> mset b = mset a \<and> (\<forall>i. inside a i \<and> (i < l \<or> h < i) \<longrightarrow> at b i = at a i)"

lemma within_length: "within l h a b \<Longrightarrow> length b = length a"
  unfolding within_def using mset_eq_length by blast

lemma within_inside: "within l h a b \<Longrightarrow> inside b i = inside a i"
  using within_length[of l h a b] by (simp add: inside_def)

lemma within_at: "within l h a b \<Longrightarrow> inside a i \<Longrightarrow> i < l \<or> h < i \<Longrightarrow> at b i = at a i"
  unfolding within_def by blast

lemma within_refl [simp]: "within l h a a"
  by (simp add: within_def)

lemma within_trans:
  assumes "within l h a b" and "within l' h' b c" and "l \<le> l'" and "h' \<le> h"
  shows "within l h a c"
  using assms within_inside[OF assms(1)] unfolding within_def by auto

lemma within_mono: "within l h a b \<Longrightarrow> l' \<le> l \<Longrightarrow> h \<le> h' \<Longrightarrow> within l' h' a b"
  unfolding within_def by auto

lemma within_swapped: "inside a i \<Longrightarrow> inside a j \<Longrightarrow> l \<le> i \<Longrightarrow> i \<le> h \<Longrightarrow> l \<le> j \<Longrightarrow> j \<le> h \<Longrightarrow> within l h a (swapped a i j)"
  by (auto simp: within_def mset_swapped at_swapped inside_def)

definition slice :: "int \<Rightarrow> int \<Rightarrow> 'a list \<Rightarrow> 'a list" where
  "slice l h a = take (nat (h + 1 - l)) (drop (nat l) a)"

lemma slice_split:
  assumes "0 \<le> l" and "l \<le> h + 1"
  shows "a = take (nat l) a @ slice l h a @ drop (nat (h + 1)) a"
proof -
  have "nat (h + 1) = nat l + nat (h + 1 - l)" using assms by simp
  then show ?thesis
    using append_take_drop_id[of "nat l" a] append_take_drop_id[of "nat (h + 1 - l)" "drop (nat l) a"]
    by (simp add: slice_def drop_drop add.commute del: append_take_drop_id)
qed

lemma set_slice:
  assumes "0 \<le> l" and "h < int (length a)"
  shows "set (slice l h a) = {at a q | q. l \<le> q \<and> q \<le> h}"
proof -
  have "set (slice l h a) = {slice l h a ! i | i. i < nat (h + 1 - l)}" using assms by (auto simp: set_conv_nth slice_def)
  also have "\<dots> = {at a q | q. l \<le> q \<and> q \<le> h}"
  proof (intro equalityI subsetI; clarify)
    fix i assume i: "i < nat (h + 1 - l)"
    then have "slice l h a ! i = at a (l + int i)" using assms by (simp add: slice_def at_def nat_add_distrib)
    then show "\<exists>q. slice l h a ! i = at a q \<and> l \<le> q \<and> q \<le> h" using i by (intro exI[of _ "l + int i"]) simp
  next
    fix q assume q: "l \<le> q" "q \<le> h"
    then have "at a q = slice l h a ! nat (q - l)" using assms by (simp add: slice_def at_def flip: nat_add_distrib)
    then show "\<exists>i. at a q = slice l h a ! i \<and> i < nat (h + 1 - l)" using q by (intro exI[of _ "nat (q - l)"]) simp
  qed
  finally show ?thesis .
qed

lemma within_slice:
  assumes "within l h a b" and "0 \<le> l" and "l \<le> h + 1" and "h < int (length a)"
  shows "set (slice l h b) = set (slice l h a)"
proof -
  note len = within_length[OF assms(1)]
  have "take (nat l) b = take (nat l) a"
  proof (rule nth_equalityI)
    fix i assume "i < length (take (nat l) b)"
    then have "int i < l" "i < length a" using len by auto
    then show "take (nat l) b ! i = take (nat l) a ! i" using within_at[OF assms(1), of "int i"] len by (simp add: inside_def at_def)
  qed (simp add: len)
  moreover have "drop (nat (h + 1)) b = drop (nat (h + 1)) a"
  proof (rule nth_equalityI)
    fix i assume "i < length (drop (nat (h + 1)) b)"
    then show "drop (nat (h + 1)) b ! i = drop (nat (h + 1)) a ! i"
      using within_at[OF assms(1), of "int (nat (h + 1) + i)"] len assms(2,3) by (simp add: inside_def at_def nat_add_distrib)
  qed (simp add: len)
  ultimately have "mset (slice l h b) = mset (slice l h a)"
    using arg_cong[OF slice_split[OF assms(2,3), of a], of mset] arg_cong[OF slice_split[OF assms(2,3), of b], of mset] assms(1)
    by (simp add: within_def)
  then show ?thesis by (metis set_mset_mset)
qed

lemma within_all:
  assumes "within l h a b" and "0 \<le> l" and "h < int (length a)" and "\<And>q. l \<le> q \<Longrightarrow> q \<le> h \<Longrightarrow> P (at a q)" and "l \<le> q" and "q \<le> h"
  shows "P (at b q)"
proof -
  have "at b q \<in> set (slice l h b)" using set_slice[of l h b] assms within_length[OF assms(1)] by auto
  then have "at b q \<in> set (slice l h a)" using within_slice[OF assms(1,2) _ assms(3)] assms(5,6) by simp
  then show ?thesis using set_slice[OF assms(2,3)] assms(4) by auto
qed

lemma partition_loop_spec:
  "l \<le> s \<Longrightarrow> s \<le> i \<Longrightarrow> i \<le> r \<Longrightarrow> 0 \<le> l \<Longrightarrow> r < int (length a) \<Longrightarrow> (\<forall>q. l \<le> q \<and> q < s \<longrightarrow> before cmp mode (at a q) v)
    \<Longrightarrow> (\<forall>q. s \<le> q \<and> q < i \<longrightarrow> \<not> before cmp mode (at a q) v)
    \<Longrightarrow> \<exists>b p. partition_loop cmp mode v r i s a = Some (b, p) \<and> l \<le> p \<and> p \<le> r \<and> within l (r - 1) a b
      \<and> (\<forall>q. l \<le> q \<and> q < p \<longrightarrow> before cmp mode (at b q) v) \<and> (\<forall>q. p \<le> q \<and> q < r \<longrightarrow> \<not> before cmp mode (at b q) v)"
proof (induction "nat (r - i)" arbitrary: i s a)
  case 0
  then show ?case by (subst partition_loop.simps) auto
next
  case (Suc n)
  have i: "i < r" "inside a i" "inside a s" using Suc.hyps(2) Suc.prems by (auto simp: inside_def)
  have n: "n = nat (r - (i + 1))" using Suc.hyps(2) by simp
  show ?case
  proof (cases "before cmp mode (at a i) v")
    case True
    let ?a = "swapped a i s"
    have "\<exists>b p. partition_loop cmp mode v r (i + 1) (s + 1) ?a = Some (b, p) \<and> l \<le> p \<and> p \<le> r \<and> within l (r - 1) ?a b
      \<and> (\<forall>q. l \<le> q \<and> q < p \<longrightarrow> before cmp mode (at b q) v) \<and> (\<forall>q. p \<le> q \<and> q < r \<longrightarrow> \<not> before cmp mode (at b q) v)"
    proof (rule Suc.hyps(1)[OF n])
      show "\<forall>q. l \<le> q \<and> q < s + 1 \<longrightarrow> before cmp mode (at ?a q) v" "\<forall>q. s + 1 \<le> q \<and> q < i + 1 \<longrightarrow> \<not> before cmp mode (at ?a q) v"
        using Suc.prems True by (auto simp: at_swapped[OF i(2,3)])
    qed (use Suc.prems i(1) in auto)
    moreover have "within l (r - 1) a ?a" using within_swapped[OF i(2,3)] Suc.prems i(1) by simp
    ultimately show ?thesis using i True within_trans[of l "r - 1" a ?a l "r - 1"] by (subst partition_loop.simps) auto
  next
    case False
    have "\<exists>b p. partition_loop cmp mode v r (i + 1) s a = Some (b, p) \<and> l \<le> p \<and> p \<le> r \<and> within l (r - 1) a b
      \<and> (\<forall>q. l \<le> q \<and> q < p \<longrightarrow> before cmp mode (at b q) v) \<and> (\<forall>q. p \<le> q \<and> q < r \<longrightarrow> \<not> before cmp mode (at b q) v)"
    proof (rule Suc.hyps(1)[OF n])
      show "\<forall>q. s \<le> q \<and> q < i + 1 \<longrightarrow> \<not> before cmp mode (at a q) v"
      proof (intro allI impI, elim conjE)
        fix q assume "s \<le> q" "q < i + 1"
        then show "\<not> before cmp mode (at a q) v" using Suc.prems(7) False by (cases "q = i") auto
      qed
    qed (use Suc.prems i(1) in auto)
    then show ?thesis using i False by (subst partition_loop.simps) simp
  qed
qed

lemma quick_partition_spec:
  assumes "0 \<le> l" and "l \<le> k" and "k \<le> r" and "r < int (length a)"
  shows "\<exists>b p. quick_partition a l r k cmp mode = Some (b, p) \<and> l \<le> p \<and> p \<le> r \<and> within l r a b
    \<and> (\<forall>q. l \<le> q \<and> q < p \<longrightarrow> before cmp mode (at b q) (at b p)) \<and> (\<forall>q. p < q \<and> q \<le> r \<longrightarrow> \<not> before cmp mode (at b q) (at b p))"
proof -
  let ?v = "at a k" and ?a = "swapped a k r"
  have i: "inside a k" "inside a r" using assms by (simp_all add: inside_def)
  obtain c p where c: "partition_loop cmp mode ?v r l l ?a = Some (c, p)" "l \<le> p" "p \<le> r" "within l (r - 1) ?a c"
      "\<forall>q. l \<le> q \<and> q < p \<longrightarrow> before cmp mode (at c q) ?v" "\<forall>q. p \<le> q \<and> q < r \<longrightarrow> \<not> before cmp mode (at c q) ?v"
  proof -
    have "\<exists>c p. partition_loop cmp mode ?v r l l ?a = Some (c, p) \<and> l \<le> p \<and> p \<le> r \<and> within l (r - 1) ?a c
      \<and> (\<forall>q. l \<le> q \<and> q < p \<longrightarrow> before cmp mode (at c q) ?v) \<and> (\<forall>q. p \<le> q \<and> q < r \<longrightarrow> \<not> before cmp mode (at c q) ?v)"
      by (rule partition_loop_spec) (use assms in auto)
    then show ?thesis using that by blast
  qed
  have ic: "inside c p" "inside c r" using c(2,3) assms within_length[OF c(4)] by (simp_all add: inside_def)
  have r: "at c r = ?v" using within_at[OF c(4), of r] i assms by (simp add: at_swapped)
  let ?d = "swapped c p r"
  have "within l r a ?a" using within_swapped[OF i] assms by simp
  moreover have "within l r c ?d" using within_swapped[OF ic] c(2,3) assms by simp
  ultimately have "within l r a ?d" using within_trans[of l r a ?a l "r - 1" c] within_trans[of l r a c l r ?d] c(4) by simp
  moreover have "quick_partition a l r k cmp mode = Some (?d, p)" using i ic c(1) by (simp add: quick_partition_def)
  moreover have "at ?d p = ?v" using r ic c(2) assms(1) by (simp add: at_swapped)
  moreover have "\<forall>q. l \<le> q \<and> q < p \<longrightarrow> before cmp mode (at ?d q) ?v" using c(3,5) assms(1) by (simp add: at_swapped[OF ic])
  moreover have "\<not> before cmp mode (at ?d q) ?v" if "p < q" "q \<le> r" for q
    using c(2,6) assms(1) that by (auto simp: at_swapped[OF ic])
  ultimately show ?thesis using c(2,3) by (intro exI[of _ ?d] exI[of _ p]) simp
qed

lemma in_order_join:
  assumes "in_order R l (p - 1) a" and "in_order R (p + 1) h a" and "\<And>q. l \<le> q \<Longrightarrow> q < p \<Longrightarrow> R (at a q) (at a p)"
    and "\<And>q. p < q \<Longrightarrow> q \<le> h \<Longrightarrow> R (at a p) (at a q)" and "\<And>x y z. R x y \<Longrightarrow> R y z \<Longrightarrow> R x z"
  shows "in_order R l h a"
  unfolding in_order_def
proof (intro allI impI, elim conjE)
  fix i j assume ij: "l \<le> i" "i < j" "j \<le> h"
  consider "j < p" | "p < i" | "i = p" | "j = p" | "i < p" "p < j" by linarith
  then show "R (at a i) (at a j)"
  proof cases
    case 5
    then show ?thesis using assms(3)[of i] assms(4)[of j] assms(5) ij by blast
  qed (use assms(1-4) ij in \<open>auto simp: in_order_def\<close>)
qed

lemma in_order_cong: "in_order R l h a \<Longrightarrow> (\<And>q. l \<le> q \<Longrightarrow> q \<le> h \<Longrightarrow> at b q = at a q) \<Longrightarrow> in_order R l h b"
  unfolding in_order_def by auto

lemma sort_quick_spec:
  assumes "consistent cmp"
  shows "0 \<le> l \<Longrightarrow> r < int (length a) \<Longrightarrow> \<exists>b. sort_quick a l r cmp mode = Some b \<and> within l r a b \<and> in_order (le cmp mode) l r b"
proof (induction "nat (r - l + 1)" arbitrary: a l r rule: less_induct)
  case less
  show ?case
  proof (cases "r \<le> l")
    case True
    then show ?thesis by (subst sort_quick.simps) (auto simp: in_order_def)
  next
    case False
    let ?k = "l + (r - l) div 2"
    have k: "l \<le> ?k" "?k \<le> r" using False by presburger+
    obtain b p where b: "quick_partition a l r ?k cmp mode = Some (b, p)" "l \<le> p" "p \<le> r" "within l r a b"
        "\<forall>q. l \<le> q \<and> q < p \<longrightarrow> before cmp mode (at b q) (at b p)" "\<forall>q. p < q \<and> q \<le> r \<longrightarrow> \<not> before cmp mode (at b q) (at b p)"
      using quick_partition_spec[OF less.prems(1) k less.prems(2), of cmp mode] by blast
    note lb = within_length[OF b(4)]
    obtain c where c: "sort_quick b l (p - 1) cmp mode = Some c" "within l (p - 1) b c" "in_order (le cmp mode) l (p - 1) c"
      using less.hyps[of "p - 1" l b] less.prems b(2,3) lb by auto
    note lc = within_length[OF c(2)]
    obtain d where d: "sort_quick c (p + 1) r cmp mode = Some d" "within (p + 1) r c d" "in_order (le cmp mode) (p + 1) r d"
      using less.hyps[of r "p + 1" c] less.prems b(2,3) lb lc by auto
    have i: "inside b q" "inside c q" if "l \<le> q" "q \<le> r" for q using that less.prems lb lc by (simp_all add: inside_def)
    have dc: "at d q = at c q" if "l \<le> q" "q \<le> p" for q using within_at[OF d(2) i(2)] that b(3) by simp
    have cb: "at c q = at b q" if "p \<le> q" "q \<le> r" for q using within_at[OF c(2) i(1)] that b(2) by simp
    have p: "at d p = at b p" using dc cb b(2,3) by simp
    have "in_order (le cmp mode) l r d"
    proof (rule in_order_join[OF in_order_cong[OF c(3)] d(3)])
      show "at d q = at c q" if "l \<le> q" "q \<le> p - 1" for q using dc that by simp
      show "le cmp mode (at d q) (at d p)" if "l \<le> q" "q < p" for q
      proof -
        have "before cmp mode (at c q) (at b p)"
          by (rule within_all[OF c(2)]) (use less.prems b(3,5) lb that in auto)
        then show ?thesis using behind_le[OF assms] before_behind[OF assms] dc[of q] p that by simp
      qed
      show "le cmp mode (at d p) (at d q)" if "p < q" "q \<le> r" for q
      proof -
        have "\<not> before cmp mode (at d q) (at b p)"
        proof (rule within_all[OF d(2)])
          show "\<not> before cmp mode (at c x) (at b p)" if "p + 1 \<le> x" "x \<le> r" for x using b(6) cb[of x] that by simp
        qed (use less.prems b(2) lb lc that in auto)
        then show ?thesis using before_behind[OF assms] p by simp
      qed
    qed (use le_trans[OF assms] in blast)
    moreover have "within l r a d"
      using within_trans[OF within_trans[OF b(4) c(2)] d(2)] b(2,3) by simp
    ultimately show ?thesis using False b(1) c(1) d(1) by (subst sort_quick.simps) simp
  qed
qed

lemma quick_sorts:
  assumes "consistent cmp"
  shows "sorts (sort_quick a 0 (int (length a) - 1) cmp mode) cmp mode a"
proof -
  obtain b where b: "sort_quick a 0 (int (length a) - 1) cmp mode = Some b" "within 0 (int (length a) - 1) a b"
      "in_order (le cmp mode) 0 (int (length a) - 1) b"
    using sort_quick_spec[OF assms, of 0 "int (length a) - 1" a mode] by auto
  then show ?thesis using in_order_sorted[of "le cmp mode" b] within_length[OF b(2)] unfolding sorts_def within_def by simp
qed

section \<open>Merge sort\<close>

fun merge_lists :: "'a cp_compare_fn \<Rightarrow> sort_mode \<Rightarrow> 'a list \<Rightarrow> 'a list \<Rightarrow> 'a list" where
  "merge_lists cmp mode (x # xs) (y # ys) =
     (if before cmp mode x y then x # merge_lists cmp mode xs (y # ys) else y # merge_lists cmp mode (x # xs) ys)"
| "merge_lists cmp mode [] ys = ys"
| "merge_lists cmp mode xs [] = xs"

lemma merge_lists_mset: "mset (merge_lists cmp mode xs ys) = mset xs + mset ys"
  by (induction cmp mode xs ys rule: merge_lists.induct) auto

lemma merge_lists_set: "set (merge_lists cmp mode xs ys) = set xs \<union> set ys"
  using arg_cong[OF merge_lists_mset[of cmp mode xs ys], of set_mset] by simp

lemma merge_lists_sorted:
  assumes "consistent cmp"
  shows "sorted_wrt (le cmp mode) xs \<Longrightarrow> sorted_wrt (le cmp mode) ys \<Longrightarrow> sorted_wrt (le cmp mode) (merge_lists cmp mode xs ys)"
proof (induction "length xs + length ys" arbitrary: xs ys rule: less_induct)
  case less
  show ?case
  proof (cases "xs = [] \<or> ys = []")
    case True
    then show ?thesis using less.prems by (cases xs) auto
  next
    case False
    then obtain x xs' y ys' where xy: "xs = x # xs'" "ys = y # ys'" by (cases xs; cases ys) auto
    show ?thesis
    proof (cases "before cmp mode x y")
      case True
      then have "le cmp mode x y" using before_behind[OF assms] behind_le[OF assms] by blast
      then have "\<forall>z \<in> set ys'. le cmp mode x z" using less.prems(2) le_trans[OF assms, of mode x y] by (simp add: xy)
      then show ?thesis
        using less.hyps[of xs' ys] less.prems True \<open>le cmp mode x y\<close> by (auto simp: xy merge_lists_set)
    next
      case False
      then have "le cmp mode y x" using before_behind[OF assms, of mode x y] by blast
      then have "\<forall>z \<in> set xs'. le cmp mode y z" using less.prems(1) le_trans[OF assms, of mode y x] by (simp add: xy)
      then show ?thesis
        using less.hyps[of xs ys'] less.prems False \<open>le cmp mode y x\<close> by (auto simp: xy merge_lists_set)
    qed
  qed
qed

lemma slice_empty [simp]: "h < l \<Longrightarrow> slice l h a = []"
  by (simp add: slice_def)

lemma slice_Cons:
  assumes "l \<le> h" and "0 \<le> l" and "h < int (length a)"
  shows "slice l h a = at a l # slice (l + 1) h a"
proof -
  have n: "nat l < length a" "nat (l + 1) = Suc (nat l)" "nat (h + 1 - l) = Suc (nat (h + 1 - (l + 1)))" using assms by auto
  show ?thesis unfolding slice_def n(2,3) Cons_nth_drop_Suc[OF n(1), symmetric] at_def by (simp only: take_Suc_Cons)
qed

lemma merge_rest_spec:
  "0 \<le> b1 \<Longrightarrow> 0 \<le> b2 \<Longrightarrow> e1 < int (length a) \<Longrightarrow> e2 < int (length a) \<Longrightarrow> e1 < b1 \<or> e2 < b2
    \<Longrightarrow> merge_rest a b1 e1 b2 e2 temp = Some (temp @ slice b1 e1 a @ slice b2 e2 a)"
proof (induction "nat (e1 - b1 + 1) + nat (e2 - b2 + 1)" arbitrary: b1 b2 temp)
  case 0
  then show ?case by (subst merge_rest.simps) auto
next
  case (Suc n)
  show ?case
  proof (cases "b1 \<le> e1")
    case True
    then have "n = nat (e1 - (b1 + 1) + 1) + nat (e2 - b2 + 1)" using Suc.hyps(2) by simp
    from Suc.hyps(1)[OF this, of "temp @ [at a b1]"] Suc.prems True show ?thesis
      by (subst merge_rest.simps) (simp add: inside_def slice_Cons)
  next
    case False
    then have b: "b2 \<le> e2" "n = nat (e1 - b1 + 1) + nat (e2 - (b2 + 1) + 1)" using Suc.hyps(2) by auto
    from Suc.hyps(1)[OF b(2), of "temp @ [at a b2]"] Suc.prems False b(1) show ?thesis
      by (subst merge_rest.simps) (simp add: inside_def slice_Cons)
  qed
qed

lemma merge_both_spec:
  "0 \<le> b1 \<Longrightarrow> 0 \<le> b2 \<Longrightarrow> e1 < int (length a) \<Longrightarrow> e2 < int (length a)
    \<Longrightarrow> do { (t, c1, c2) \<leftarrow> merge_both cmp mode a b1 e1 b2 e2 temp; merge_rest a c1 e1 c2 e2 t }
      = Some (temp @ merge_lists cmp mode (slice b1 e1 a) (slice b2 e2 a))"
proof (induction "nat (e1 - b1 + 1) + nat (e2 - b2 + 1)" arbitrary: b1 b2 temp rule: less_induct)
  case less
  show ?case
  proof (cases "b1 \<le> e1 \<and> b2 \<le> e2")
    case True
    then have i: "inside a b1" "inside a b2" using less.prems by (auto simp: inside_def)
    show ?thesis
      using less.hyps[of "b1 + 1" b2 "temp @ [at a b1]"] less.hyps[of b1 "b2 + 1" "temp @ [at a b2]"] less.prems True i
      by (subst merge_both.simps) (simp add: slice_Cons)
  next
    case False
    then have "merge_lists cmp mode (slice b1 e1 a) (slice b2 e2 a) = slice b1 e1 a @ slice b2 e2 a"
      by (cases "slice b1 e1 a") auto
    then show ?thesis using False merge_rest_spec[OF less.prems] by (subst merge_both.simps) auto
  qed
qed

lemma copy_back_spec:
  "0 \<le> i \<Longrightarrow> i + int (length xs) \<le> int (length a) \<Longrightarrow> copy_back i xs a = Some (take (nat i) a @ xs @ drop (nat i + length xs) a)"
proof (induction xs arbitrary: i a)
  case (Cons x xs)
  then have l: "nat i < length a" by auto
  have "copy_back (i + 1) xs (a[nat i := x]) = Some (take (nat (i + 1)) (a[nat i := x]) @ xs @ drop (nat (i + 1) + length xs) (a[nat i := x]))"
    using Cons.prems by (intro Cons.IH) auto
  moreover have "nat (i + 1) = Suc (nat i)" using Cons.prems by simp
  ultimately show ?case using Cons.prems l by (simp add: aset_def inside_def take_Suc_conv_app_nth)
qed simp

lemma slice_in_order:
  assumes "0 \<le> l" and "h < int (length a)"
  shows "in_order R l h a \<longleftrightarrow> sorted_wrt R (slice l h a)"
proof -
  have n: "slice l h a ! i = at a (l + int i)" if "i < nat (h + 1 - l)" for i
    using assms that by (simp add: slice_def at_def nat_add_distrib)
  have len: "length (slice l h a) = nat (h + 1 - l)" using assms by (simp add: slice_def)
  show ?thesis
  proof
    assume "in_order R l h a"
    then show "sorted_wrt R (slice l h a)" unfolding sorted_wrt_iff_nth_less in_order_def by (auto simp: len n)
  next
    assume s: "sorted_wrt R (slice l h a)"
    show "in_order R l h a"
      unfolding in_order_def
    proof (intro allI impI, elim conjE)
      fix p q assume q: "l \<le> p" "p < q" "q \<le> h"
      then have "R (slice l h a ! nat (p - l)) (slice l h a ! nat (q - l))"
        using s unfolding sorted_wrt_iff_nth_less len by auto
      then show "R (at a p) (at a q)" using n[of "nat (p - l)"] n[of "nat (q - l)"] q by simp
    qed
  qed
qed

lemma slice_append: "0 \<le> f \<Longrightarrow> f \<le> m + 1 \<Longrightarrow> m \<le> l \<Longrightarrow> slice f l a = slice f m a @ slice (m + 1) l a"
proof -
  assume "0 \<le> f" "f \<le> m + 1" "m \<le> l"
  then have "nat (l + 1 - f) = nat (m + 1 - f) + nat (l + 1 - (m + 1))" "nat (m + 1) = nat (m + 1 - f) + nat f" by auto
  then show ?thesis by (simp add: slice_def take_add drop_drop)
qed

lemma merge_array_spec:
  assumes "consistent cmp" and "\<forall>n. mem n" and "0 \<le> f" and "f \<le> m" and "m < l" and "l < int (length a)"
    and "in_order (le cmp mode) f m a" and "in_order (le cmp mode) (m + 1) l a"
  shows "\<exists>b. merge_array mem a f m l cmp mode = Some b \<and> within f l a b \<and> in_order (le cmp mode) f l b"
proof -
  let ?xs = "merge_lists cmp mode (slice f m a) (slice (m + 1) l a)"
  have sl: "slice f l a = slice f m a @ slice (m + 1) l a" using assms by (intro slice_append) auto
  have ms: "mset ?xs = mset (slice f l a)" by (simp add: merge_lists_mset sl)
  then have len: "length ?xs = nat (l + 1 - f)" using mset_eq_length[OF ms] assms(3-6) by (simp add: slice_def)
  let ?b = "take (nat f) a @ ?xs @ drop (nat (l + 1)) a"
  have ln: "nat f + length ?xs = nat (l + 1)" using len assms(3-5) by simp
  have "merge_array mem a f m l cmp mode = Some ?b"
    using merge_both_spec[of f "m + 1" m a l cmp mode "[]"] copy_back_spec[of f ?xs a] assms(2-6) ln len
    by (auto simp: merge_array_def bind_eq_Some_conv split: prod.splits)
  moreover have "mset ?b = mset a"
    using arg_cong[OF slice_split[of f l a], of mset] assms(3-5) ms by simp
  moreover have "at ?b i = at a i" if "inside a i" "i < f \<or> l < i" for i
  proof (cases "i < f")
    case True
    then have "nat i < nat f" "nat i < length a" using that(1) by (auto simp: inside_def)
    then show ?thesis by (simp add: at_def nth_append)
  next
    case False
    then have "nat i < length a" "nat (l + 1) \<le> nat i" using that by (auto simp: inside_def)
    moreover from this have "\<not> nat i < nat f" "\<not> nat i - nat f < length ?xs" "nat (l + 1) + (nat i - nat f - length ?xs) = nat i"
      using ln by auto
    ultimately show ?thesis using assms(3-6) by (simp add: at_def nth_append min_def)
  qed
  moreover have "slice f l ?b = ?xs"
    using assms(3-6) len by (simp add: slice_def)
  ultimately show ?thesis
    using merge_lists_sorted[OF assms(1), of mode "slice f m a" "slice (m + 1) l a"] slice_in_order[of f l ?b] mset_eq_length[of ?b a]
      slice_in_order[of f m a "le cmp mode"] slice_in_order[of "m + 1" l a "le cmp mode"] assms(3-8)
    unfolding within_def by (intro exI[of _ ?b]) simp
qed

lemma sort_merge_spec:
  assumes "consistent cmp" and "\<forall>n. mem n" and "5 \<le> length a"
  shows "0 \<le> f \<Longrightarrow> l < int (length a) \<Longrightarrow> \<exists>b. sort_merge mem a f l cmp mode = Some b \<and> within f l a b \<and> in_order (le cmp mode) f l b"
  using assms(3)
proof (induction "nat (l - f + 1)" arbitrary: a f l rule: less_induct)
  case less
  show ?case
  proof (cases "l \<le> f")
    case True
    then show ?thesis by (subst sort_merge.simps) (auto simp: in_order_def)
  next
    case False
    let ?m = "(f + l) div 2"
    have m: "f \<le> ?m" "?m < l" using False by presburger+
    obtain b where b: "sort_merge mem a f ?m cmp mode = Some b" "within f ?m a b" "in_order (le cmp mode) f ?m b"
      using less.hyps[of ?m f a] less.prems m by auto
    note lb = within_length[OF b(2)]
    obtain c where c: "sort_merge mem b (?m + 1) l cmp mode = Some c" "within (?m + 1) l b c" "in_order (le cmp mode) (?m + 1) l c"
      using less.hyps[of l "?m + 1" b] less.prems m lb by auto
    note lc = within_length[OF c(2)]
    have "in_order (le cmp mode) f ?m c"
      by (rule in_order_cong[OF b(3)]) (use within_at[OF c(2)] less.prems m lb in \<open>auto simp: inside_def\<close>)
    then obtain d where d: "merge_array mem c f ?m l cmp mode = Some d" "within f l c d" "in_order (le cmp mode) f l d"
      using merge_array_spec[OF assms(1,2) less.prems(1) m, of c mode] c(3) less.prems lb lc by auto
    have "inside d i" if "0 \<le> i" "i < 5" for i using within_length[OF d(2)] lb lc less.prems(3) that by (simp add: inside_def)
    moreover have "within f l a d"
    proof -
      have "within f l a b" "within f l b c" using within_mono[OF b(2)] within_mono[OF c(2)] m by simp_all
      then show ?thesis using within_trans[OF _ _ order_refl order_refl] d(2) by blast
    qed
    ultimately show ?thesis using False b(1) c(1) d(1,3) by (subst sort_merge.simps) (simp add: Let_def)
  qed
qed

lemma copy_back_length: "copy_back i xs a = Some b \<Longrightarrow> length b = length a"
  by (induction xs arbitrary: i a) (auto simp: aset_def run_simps split: if_splits)

lemma sort_merge_short:
  "length a < 5 \<Longrightarrow> f < l \<Longrightarrow> sort_merge mem a f l cmp mode = None"
proof (induction "nat (l - f + 1)" arbitrary: f l rule: less_induct)
  case less
  let ?m = "(f + l) div 2"
  have m: "f \<le> ?m" "?m < l" using less.prems(2) by presburger+
  have part: "sort_merge mem a f' l' cmp mode = None \<or> sort_merge mem a f' l' cmp mode = Some a" if "l' - f' < l - f" for f' l'
  proof (cases "f' < l'")
    case True
    then show ?thesis using less.hyps[of l' f'] less.prems that by simp
  next
    case False
    then show ?thesis by (subst sort_merge.simps) simp
  qed
  have "aget d 4 = None" if "merge_array mem a f ?m l cmp mode = Some d" for d
    using that less.prems(1) by (auto simp: merge_array_def run_simps aget_def inside_def split: if_splits dest: copy_back_length)
  then show ?case
    using part[of ?m f] part[of l "?m + 1"] m less.prems(2)
    by (subst sort_merge.simps) (auto simp: Let_def split: bind_splits)
qed

section \<open>Properties\<close>

text \<open>C25. 
  Bubble, comb, selection, insertion, Shell sort and quicksort terminate on every array, stay inside it and leave a
  permutation in the order of the mode, provided the comparison is consistent.
\<close>

theorem routines_sort:
  assumes "consistent cmp" and "mode \<in> {ASCEND_MODE, DESCEND_MODE}"
  shows "sorts (sort_bubble a (int (length a)) cmp mode) cmp mode a \<and> sorts (sort_comb a (int (length a)) cmp mode) cmp mode a \<and>
    sorts (sort_selection a (int (length a)) cmp mode) cmp mode a \<and> sorts (sort_insertion a (int (length a)) cmp mode) cmp mode a \<and>
    sorts (sort_shell a (int (length a)) cmp mode) cmp mode a \<and> sorts (sort_quick a 0 (int (length a) - 1) cmp mode) cmp mode a"
  using bubble_sorts[OF assms(1), of a mode] comb_sorts[OF assms(1), of a mode] selection_sorts[OF assms(1), of a mode]
    insertion_sorts[OF assms(1), of a mode] shell_sorts[OF assms(1), of a mode] quick_sorts[OF assms(1), of a mode] assms(2)
  by (auto simp: ASCEND_MODE_def DESCEND_MODE_def)

theorem routines_sort_witness:
  "sorts (sort_comb [3, 1, 2] 3 (\<lambda>x y. x - y) ASCEND_MODE) (\<lambda>x y. x - y) ASCEND_MODE [3, 1, 2::int]"
  using routines_sort[OF difference_consistent, of ASCEND_MODE "[3, 1, 2]"] by simp

text \<open>
  Merge sort works for arrays of at least five elements. For two to four it has no defined result: after every
  merge it prints the first five.
\<close>

theorem merge_needs_five:
  assumes "consistent cmp" and "\<forall>n. mem n" and "mode \<in> {ASCEND_MODE, DESCEND_MODE}"
  shows "if length a \<in> {2, 3, 4} then sort_merge mem a 0 (int (length a) - 1) cmp mode = None
    else sorts (sort_merge mem a 0 (int (length a) - 1) cmp mode) cmp mode a"
proof -
  consider "length a \<in> {2, 3, 4}" | "5 \<le> length a" | "length a \<le> 1" by force
  then show ?thesis
  proof cases
    case 1
    then show ?thesis using sort_merge_short[of a 0 "int (length a) - 1" mem cmp mode] by auto
  next
    case 2
    then obtain b where b: "sort_merge mem a 0 (int (length a) - 1) cmp mode = Some b" "within 0 (int (length a) - 1) a b"
        "in_order (le cmp mode) 0 (int (length a) - 1) b"
      using sort_merge_spec[OF assms(1,2), of a 0 "int (length a) - 1" mode] by auto
    then show ?thesis using 2 in_order_sorted[of "le cmp mode" b] within_length[OF b(2)] unfolding sorts_def within_def by auto
  next
    case 3
    then have "sort_merge mem a 0 (int (length a) - 1) cmp mode = Some a" by (subst sort_merge.simps) simp
    moreover have "sorted_wrt (le cmp mode) a" using 3 by (cases a) auto
    ultimately show ?thesis using 3 by (auto simp: sorts_def)
  qed
qed

theorem merge_needs_five_witness:
  "sort_merge (\<lambda>_. True) [2, 1::int] 0 1 (\<lambda>x y. x - y) ASCEND_MODE = None \<and>
   sorts (sort_merge (\<lambda>_. True) [5, 3, 1, 4, 2::int] 0 4 (\<lambda>x y. x - y) ASCEND_MODE) (\<lambda>x y. x - y) ASCEND_MODE [5, 3, 1, 4, 2]"
  using merge_needs_five[OF difference_consistent, where mem = "\<lambda>_. True" and mode = ASCEND_MODE and a = "[2, 1]"]
    merge_needs_five[OF difference_consistent, where mem = "\<lambda>_. True" and mode = ASCEND_MODE and a = "[5, 3, 1, 4, 2]"] by simp

end
