(* ===== verification/Bst.thy ===== *)
theory Bst
  imports Prelude
begin

text \<open>
  \<^verbatim>\<open>DataStructure/BinaryTree/bst/bst.c\<close>: a binary search tree of linked entries with the operations to
  insert, delete, search and destroy. \<open>0\<close> is \<^verbatim>\<open>NULL\<close> among the entries and \<open>None\<close> among the items; the
  items handed to the destroy function are collected. Debug output is left out.
\<close>

section \<open>Entries\<close>

record 'a Bst_Entry =
  item :: "'a option"
  left :: nat
  right :: nat

type_synonym 'a entries = "nat \<rightharpoonup> 'a Bst_Entry"
type_synonym 'a item_compare_fn = "'a option \<Rightarrow> 'a option \<Rightarrow> int"

record 'a Bst =
  cnt :: int
  dtr :: bool
  comp :: "'a item_compare_fn"
  root :: nat

definition set_left :: "nat \<Rightarrow> nat \<Rightarrow> 'a entries \<Rightarrow> 'a entries run" where
  "set_left p v h = do { e \<leftarrow> h p; Some (h(p \<mapsto> e\<lparr>left := v\<rparr>)) }"

definition set_right :: "nat \<Rightarrow> nat \<Rightarrow> 'a entries \<Rightarrow> 'a entries run" where
  "set_right p v h = do { e \<leftarrow> h p; Some (h(p \<mapsto> e\<lparr>right := v\<rparr>)) }"

text \<open>\<open>fresh\<close> is the block \<^verbatim>\<open>malloc\<close> returns, \<open>0\<close> when there is none.\<close>

definition create_entry :: "('a entries \<Rightarrow> nat) \<Rightarrow> 'a option \<Rightarrow> 'a entries \<Rightarrow> (nat \<times> 'a entries) run" where
  "create_entry fresh data h =
     (if fresh h = 0 then None else Some (fresh h, h(fresh h \<mapsto> \<lparr>item = data, left = 0, right = 0\<rparr>)))"

text \<open>The items that have been destroyed are the last part of a result.\<close>

definition destroy_entry :: "nat \<Rightarrow> bool \<Rightarrow> 'a entries \<Rightarrow> ('a entries \<times> 'a list) run" where
  "destroy_entry entry d h =
     (if entry = 0 then Some (h, [])
      else do { e \<leftarrow> h entry;
                Some (h(entry := None), case item e of Some x \<Rightarrow> if d then [x] else [] | None \<Rightarrow> []) })"

definition create_bst :: "bool \<Rightarrow> 'a item_compare_fn \<Rightarrow> 'a Bst" where
  "create_bst d c = \<lparr>cnt = 0, dtr = d, comp = c, root = 0\<rparr>"

section \<open>Destroying a tree\<close>

partial_function (option) destroy_root :: "nat \<Rightarrow> bool \<Rightarrow> 'a entries \<Rightarrow> ('a entries \<times> 'a option list) run" where
  "destroy_root p d h =
     (if p = 0 then Some (h, [])
      else do {
        e \<leftarrow> h p;
        a \<leftarrow> (if right e \<noteq> 0 then destroy_root (right e) d h else Some (h, []));
        e1 \<leftarrow> fst a p;
        b \<leftarrow> (if left e1 \<noteq> 0 then destroy_root (left e1) d (fst a) else Some (fst a, []));
        e2 \<leftarrow> fst b p;
        Some ((fst b)(p := None), snd a @ snd b @ (if d then [item e2] else [])) })"

text \<open>The new value of the caller's pointer; a tree without entries is left as it is.\<close>

definition destroy_bst :: "'a Bst option \<Rightarrow> 'a entries \<Rightarrow> ('a Bst option \<times> 'a entries \<times> 'a option list) run" where
  "destroy_bst bst h =
     (case bst of None \<Rightarrow> Some (None, h, [])
      | Some b \<Rightarrow>
          if root b = 0 then Some (bst, h, [])
          else do { (h1, xs) \<leftarrow> destroy_root (root b) (dtr b) h; Some (None, h1, xs) })"

section \<open>Inserting\<close>

partial_function (option) insert_entry ::
    "nat \<Rightarrow> nat \<Rightarrow> 'a item_compare_fn \<Rightarrow> 'a entries \<Rightarrow> (nat \<times> 'a entries) run" where
  "insert_entry p entry cmp h =
     (if p = 0 then Some (entry, h)
      else do {
        e \<leftarrow> h entry; n \<leftarrow> h p;
        if 0 < cmp (item e) (item n) then do {
          r \<leftarrow> insert_entry (right n) entry cmp h;
          h2 \<leftarrow> set_right p (fst r) (snd r);
          Some (p, h2) }
        else do {
          r \<leftarrow> insert_entry (left n) entry cmp h;
          h2 \<leftarrow> set_left p (fst r) (snd r);
          Some (p, h2) } })"

definition bst_insert :: "('a entries \<Rightarrow> nat) \<Rightarrow> 'a Bst option \<Rightarrow> 'a option \<Rightarrow> 'a entries \<Rightarrow> (int \<times> 'a Bst option \<times> 'a entries) run" where
  "bst_insert fresh ppbst x h =
     (case ppbst of None \<Rightarrow> Some (- 1, ppbst, h)
      | Some b \<Rightarrow> do {
          (entry, h1) \<leftarrow> create_entry fresh x h;
          (r, h2) \<leftarrow> insert_entry (root b) entry (comp b) h1;
          Some (0, Some (b\<lparr>root := r\<rparr>), h2) })"

section \<open>Searching\<close>

text \<open>The code, the entry that was found and its father, both as they were when nothing was assigned to them.\<close>

partial_function (option) search_entry ::
    "nat \<Rightarrow> 'a option \<Rightarrow> 'a item_compare_fn \<Rightarrow> nat \<Rightarrow> nat \<Rightarrow> 'a entries \<Rightarrow> (int \<times> nat \<times> nat) run" where
  "search_entry p x cmp result father h =
     (if p = 0 \<or> x = None then Some (- 1, result, father)
      else do {
        n \<leftarrow> h p;
        if cmp x (item n) = 0 then Some (0, p, father)
        else if cmp x (item n) < 0 then search_entry (left n) x cmp result p h
        else search_entry (right n) x cmp result p h })"

definition bst_search :: "'a Bst option \<Rightarrow> 'a option \<Rightarrow> 'a entries \<Rightarrow> int run" where
  "bst_search bst x h =
     (case bst of None \<Rightarrow> Some (- 1)
      | Some b \<Rightarrow>
          if root b = 0 then Some (- 1)
          else do { (ret, _, _) \<leftarrow> search_entry (root b) x (comp b) 0 0 h; Some ret })"

section \<open>Deleting\<close>

partial_function (option) bottom_right :: "nat \<Rightarrow> 'a entries \<Rightarrow> nat run" where
  "bottom_right p h = do { e \<leftarrow> h p; if right e \<noteq> 0 then bottom_right (right e) h else Some p }"

text \<open>The four tests one after the other, each on the entry as it then is.\<close>

definition unlink_leaf :: "nat \<Rightarrow> nat \<Rightarrow> 'a entries \<Rightarrow> 'a entries run" where
  "unlink_leaf result father h =
     do { f \<leftarrow> h father;
          h1 \<leftarrow> (if result = left f then set_left father 0 h else Some h);
          f1 \<leftarrow> h1 father;
          if result = right f1 then set_right father 0 h1 else Some h1 }"

definition join_children :: "nat \<Rightarrow> nat \<Rightarrow> 'a entries \<Rightarrow> 'a entries run" where
  "join_children result father h =
     do { e \<leftarrow> h result;
          b \<leftarrow> bottom_right (left e) h;
          h1 \<leftarrow> set_right b (right e) h;
          f \<leftarrow> h1 father;
          e1 \<leftarrow> h1 result;
          h2 \<leftarrow> (if result = left f then set_left father (left e1) h1 else Some h1);
          f2 \<leftarrow> h2 father;
          e2 \<leftarrow> h2 result;
          if result = right f2 then set_right father (left e2) h2 else Some h2 }"

definition delete_entry :: "nat \<Rightarrow> nat \<Rightarrow> bool \<Rightarrow> 'a entries \<Rightarrow> ('a entries \<times> 'a list) run" where
  "delete_entry result father d h =
     do { e \<leftarrow> h result;
          h1 \<leftarrow> (if left e = 0 \<and> right e = 0 then unlink_leaf result father h else Some h);
          e1 \<leftarrow> h1 result;
          h2 \<leftarrow> (if left e1 = 0 \<and> right e1 \<noteq> 0 then set_right father (right e1) h1 else Some h1);
          e2 \<leftarrow> h2 result;
          h3 \<leftarrow> (if right e2 = 0 \<and> left e2 \<noteq> 0 then set_left father (left e2) h2 else Some h2);
          e3 \<leftarrow> h3 result;
          h4 \<leftarrow> (if right e3 \<noteq> 0 \<and> left e3 \<noteq> 0 then join_children result father h3 else Some h3);
          destroy_entry result d h4 }"

definition delete_root :: "'a Bst \<Rightarrow> 'a entries \<Rightarrow> ('a Bst \<times> 'a entries \<times> 'a list) run" where
  "delete_root b h =
     do { e \<leftarrow> h (root b);
          (b1, h1) \<leftarrow> (if left e \<noteq> 0 then do {
              q \<leftarrow> bottom_right (left e) h;
              h1 \<leftarrow> set_right q (right e) h;
              e1 \<leftarrow> h1 (root b);
              Some (b\<lparr>root := left e1\<rparr>, h1) }
            else Some (b\<lparr>root := right e\<rparr>, h));
          (h2, xs) \<leftarrow> destroy_entry (root b) (dtr b) h1;
          Some (b1, h2, xs) }"

definition bst_delete :: "'a Bst option \<Rightarrow> 'a option \<Rightarrow> 'a entries \<Rightarrow> (int \<times> 'a Bst option \<times> 'a entries \<times> 'a list) run" where
  "bst_delete ppbst x h =
     (case ppbst of None \<Rightarrow> Some (- 1, ppbst, h, [])
      | Some b \<Rightarrow> do {
          (res, r, f) \<leftarrow> search_entry (root b) x (comp b) 0 0 h;
          if res = - 1 then Some (res, ppbst, h, [])
          else if f = 0 then do { (b1, h1, xs) \<leftarrow> delete_root b h; Some (0, Some b1, h1, xs) }
          else do { (h1, xs) \<leftarrow> delete_entry r f (dtr b) h; Some (0, ppbst, h1, xs) } })"

section \<open>In order\<close>

text \<open>The items that are shown, in turn.\<close>

partial_function (option) in_order_entry :: "nat \<Rightarrow> 'a entries \<Rightarrow> 'a option list run" where
  "in_order_entry p h =
     (if p = 0 then Some []
      else do {
        e \<leftarrow> h p;
        xs \<leftarrow> (if left e \<noteq> 0 then in_order_entry (left e) h else Some []);
        ys \<leftarrow> (if right e \<noteq> 0 then in_order_entry (right e) h else Some []);
        Some (xs @ item e # ys) })"

definition in_order :: "'a Bst option \<Rightarrow> 'a entries \<Rightarrow> 'a option list run" where
  "in_order bst h = (case bst of None \<Rightarrow> Some [] | Some b \<Rightarrow> in_order_entry (root b) h)"

end
