(* ===== verification/Bst_Props.thy ===== *)
theory Bst_Props
  imports Bst Compare "HOL-Library.Multiset" "HOL-Library.Tree"
begin

text \<open>
  The operations of \<^verbatim>\<open>bst.c\<close> on trees: entries in memory that form a search tree, what inserting,
  searching and deleting do to it, and the two shapes for which deleting goes wrong.
\<close>

section \<open>Trees in memory\<close>

type_synonym 'a node_tree = "(nat \<times> 'a option) tree"

fun tree_at :: "'a entries \<Rightarrow> nat \<Rightarrow> 'a node_tree \<Rightarrow> bool" where
  "tree_at h p Leaf \<longleftrightarrow> p = 0"
| "tree_at h p (Node l (a, x) r) \<longleftrightarrow> p = a \<and> a \<noteq> 0 \<and>
     (\<exists>lp rp. h a = Some \<lparr>item = x, left = lp, right = rp\<rparr> \<and> tree_at h lp l \<and> tree_at h rp r)"

definition addrs :: "'a node_tree \<Rightarrow> nat set" where
  "addrs t = fst ` set_tree t"

definition separate :: "'a node_tree \<Rightarrow> bool" where
  "separate t \<longleftrightarrow> distinct (map fst (inorder t))"

lemma addrs_simps [simp]: "addrs Leaf = {}" "addrs (Node l (a, x) r) = insert a (addrs l \<union> addrs r)"
  by (auto simp: addrs_def)

lemma addrs_inorder: "addrs t = set (map fst (inorder t))"
  by (simp add: addrs_def)

lemma separate_simps [simp]:
  "separate Leaf"
  "separate (Node l (a, x) r) \<longleftrightarrow> separate l \<and> separate r \<and> a \<notin> addrs l \<and> a \<notin> addrs r \<and> addrs l \<inter> addrs r = {}"
  by (auto simp: separate_def addrs_inorder)

lemma tree_at_frame: "tree_at h p t \<Longrightarrow> \<forall>a \<in> addrs t. h' a = h a \<Longrightarrow> tree_at h' p t"
  by (induction h p t rule: tree_at.induct) auto

lemma tree_at_root: "tree_at h p t \<Longrightarrow> (p = 0 \<longleftrightarrow> t = Leaf) \<and> (p \<noteq> 0 \<longrightarrow> p \<in> addrs t)"
  by (cases "(h, p, t)" rule: tree_at.cases) auto

lemma tree_at_nonzero: "tree_at h p t \<Longrightarrow> 0 \<notin> addrs t"
  by (induction h p t rule: tree_at.induct) auto

section \<open>Inserting\<close>

fun ins :: "'a item_compare_fn \<Rightarrow> nat \<times> 'a option \<Rightarrow> 'a node_tree \<Rightarrow> 'a node_tree" where
  "ins cmp e Leaf = Node Leaf e Leaf"
| "ins cmp e (Node l n r) = (if 0 < cmp (snd e) (snd n) then Node l n (ins cmp e r) else Node (ins cmp e l) n r)"

lemma ins_addrs: "addrs (ins cmp (a, x) t) = insert a (addrs t)"
  by (induction t) auto

lemma ins_separate: "separate t \<Longrightarrow> a \<notin> addrs t \<Longrightarrow> separate (ins cmp (a, x) t)"
  by (induction t) (auto simp: ins_addrs)

lemma ins_mset: "mset (inorder (ins cmp e t)) = add_mset e (mset (inorder t))"
  by (induction t) auto

lemma insert_entry_spec:
  "tree_at h p t \<Longrightarrow> separate t \<Longrightarrow> a \<notin> addrs t \<Longrightarrow> a \<noteq> 0 \<Longrightarrow> h a = Some \<lparr>item = x, left = 0, right = 0\<rparr>
    \<Longrightarrow> \<exists>q h'. insert_entry p a cmp h = Some (q, h') \<and> tree_at h' q (ins cmp (a, x) t) \<and> (\<forall>b. b \<notin> addrs t \<longrightarrow> h' b = h b)"
proof (induction t arbitrary: p)
  case Leaf
  then show ?case by (subst insert_entry.simps) auto
next
  case (Node l n r)
  obtain b y where n: "n = (b, y)" by (cases n)
  obtain lp rp where b: "p = b" "b \<noteq> 0" "h b = Some \<lparr>item = y, left = lp, right = rp\<rparr>" "tree_at h lp l" "tree_at h rp r"
    using Node.prems(1) by (auto simp: n)
  show ?case
  proof (cases "0 < cmp x y")
    case True
    obtain q h' where q: "insert_entry rp a cmp h = Some (q, h')" "tree_at h' q (ins cmp (a, x) r)" "\<forall>c. c \<notin> addrs r \<longrightarrow> h' c = h c"
      using Node.IH(2)[OF b(5)] Node.prems by (auto simp: n)
    let ?h = "h'(b \<mapsto> \<lparr>item = y, left = lp, right = q\<rparr>)"
    have "insert_entry p a cmp h = Some (b, ?h)"
      using b(1-3) q(1,3) True Node.prems by (subst insert_entry.simps) (simp add: n set_right_def)
    moreover have "tree_at ?h lp l" by (rule tree_at_frame[OF b(4)]) (use q(3) Node.prems in \<open>auto simp: n\<close>)
    moreover have "tree_at ?h q (ins cmp (a, x) r)"
      by (rule tree_at_frame[OF q(2)]) (use Node.prems in \<open>auto simp: n ins_addrs\<close>)
    ultimately show ?thesis using b(2) q(3) True by (auto simp: n)
  next
    case False
    obtain q h' where q: "insert_entry lp a cmp h = Some (q, h')" "tree_at h' q (ins cmp (a, x) l)" "\<forall>c. c \<notin> addrs l \<longrightarrow> h' c = h c"
      using Node.IH(1)[OF b(4)] Node.prems by (auto simp: n)
    let ?h = "h'(b \<mapsto> \<lparr>item = y, left = q, right = rp\<rparr>)"
    have "insert_entry p a cmp h = Some (b, ?h)"
      using b(1-3) q(1,3) False Node.prems by (subst insert_entry.simps) (simp add: n set_left_def)
    moreover have "tree_at ?h rp r" by (rule tree_at_frame[OF b(5)]) (use q(3) Node.prems in \<open>auto simp: n\<close>)
    moreover have "tree_at ?h q (ins cmp (a, x) l)"
      by (rule tree_at_frame[OF q(2)]) (use Node.prems in \<open>auto simp: n ins_addrs\<close>)
    ultimately show ?thesis using b(2) q(3) False by (auto simp: n)
  qed
qed

section \<open>Order\<close>

fun ordered :: "'a item_compare_fn \<Rightarrow> 'a node_tree \<Rightarrow> bool" where
  "ordered cmp Leaf \<longleftrightarrow> True"
| "ordered cmp (Node l n r) \<longleftrightarrow> ordered cmp l \<and> ordered cmp r \<and>
     (\<forall>m \<in> set_tree l. cmp (snd m) (snd n) \<le> 0) \<and> (\<forall>m \<in> set_tree r. 0 < cmp (snd m) (snd n))"

lemma ins_set: "set_tree (ins cmp e t) = insert e (set_tree t)"
  by (induction t) auto

lemma ins_ordered: "ordered cmp t \<Longrightarrow> ordered cmp (ins cmp e t)"
  by (induction t) (auto simp: ins_set)

fun lookup :: "'a item_compare_fn \<Rightarrow> 'a option \<Rightarrow> 'a node_tree \<Rightarrow> bool" where
  "lookup cmp x Leaf \<longleftrightarrow> False"
| "lookup cmp x (Node l n r) \<longleftrightarrow>
     (if cmp x (snd n) = 0 then True else if cmp x (snd n) < 0 then lookup cmp x l else lookup cmp x r)"

lemma lookup_iff:
  assumes "consistent cmp"
  shows "ordered cmp t \<Longrightarrow> lookup cmp x t \<longleftrightarrow> (\<exists>m \<in> set_tree t. cmp x (snd m) = 0)"
proof (induction t)
  case (Node l n r)
  have l: "cmp x (snd m) \<noteq> 0" if "0 < cmp x (snd n)" "m \<in> set_tree l" for m
  proof -
    have "cmp (snd m) (snd n) \<le> 0" using Node.prems that by auto
    then show ?thesis using consistentD[OF assms] that(1) by (metis less_le_not_le linorder_not_le order_refl)
  qed
  have r: "cmp x (snd m) \<noteq> 0" if "cmp x (snd n) < 0" "m \<in> set_tree r" for m
  proof -
    have "0 < cmp (snd m) (snd n)" using Node.prems that by auto
    then show ?thesis using consistentD[OF assms] that(1) by (metis less_le_not_le linorder_not_le order_refl)
  qed
  show ?case using Node l r by auto
qed simp

lemma search_entry_found:
  "tree_at h p t \<Longrightarrow> x \<noteq> None \<Longrightarrow> \<exists>r f'. search_entry p x cmp res f h = Some (if lookup cmp x t then 0 else - 1, r, f')"
proof (induction t arbitrary: p f)
  case Leaf
  then show ?case by (subst search_entry.simps) simp
next
  case (Node l n r)
  obtain b y where n: "n = (b, y)" by (cases n)
  obtain lp rp where "p = b" "b \<noteq> 0" "h b = Some \<lparr>item = y, left = lp, right = rp\<rparr>" "tree_at h lp l" "tree_at h rp r"
    using Node.prems(1) by (auto simp: n)
  then show ?case using Node.IH(1)[of lp b] Node.IH(2)[of rp b] Node.prems(2) by (subst search_entry.simps) (simp add: n)
qed

section \<open>Deleting\<close>

text \<open>The left subtree with the right one hung below its last entry.\<close>

fun join :: "'a tree \<Rightarrow> 'a tree \<Rightarrow> 'a tree" where
  "join Leaf r = r"
| "join (Node l n m) r = Node l n (join m r)"

lemma inorder_join [simp]: "inorder (join l r) = inorder l @ inorder r"
  by (induction l r rule: join.induct) auto

lemma join_Leaf [simp]: "join l Leaf = l"
  by (induction l) auto

lemma set_join [simp]: "set_tree (join l r) = set_tree l \<union> set_tree r"
  by (induction l r rule: join.induct) auto

lemma addrs_join [simp]: "addrs (join l r) = addrs l \<union> addrs r"
  by (auto simp: addrs_def)

lemma bottom_right_spec:
  "tree_at h p l \<Longrightarrow> l \<noteq> Leaf \<Longrightarrow> separate l \<Longrightarrow> tree_at h q r \<Longrightarrow> addrs l \<inter> addrs r = {}
    \<Longrightarrow> \<exists>b h'. bottom_right p h = Some b \<and> b \<in> addrs l \<and> set_right b q h = Some h' \<and> tree_at h' p (join l r) \<and> (\<forall>c. c \<notin> addrs l \<longrightarrow> h' c = h c)
      \<and> (\<forall>e. h p = Some e \<longrightarrow> (\<exists>rp. h' p = Some (e\<lparr>right := rp\<rparr>)))"
proof (induction l arbitrary: p)
  case (Node l n m)
  obtain b y where n: "n = (b, y)" by (cases n)
  obtain lp rp where b: "p = b" "b \<noteq> 0" "h b = Some \<lparr>item = y, left = lp, right = rp\<rparr>" "tree_at h lp l" "tree_at h rp m"
    using Node.prems(1) by (auto simp: n)
  show ?case
  proof (cases "m = Leaf")
    case True
    then have rp: "rp = 0" using b(5) by simp
    let ?h = "h(b \<mapsto> \<lparr>item = y, left = lp, right = q\<rparr>)"
    have "tree_at ?h lp l" by (rule tree_at_frame[OF b(4)]) (use Node.prems in \<open>auto simp: n\<close>)
    moreover have "tree_at ?h q r" by (rule tree_at_frame[OF Node.prems(4)]) (use Node.prems in \<open>auto simp: n\<close>)
    ultimately show ?thesis using b(1-3) rp True by (subst bottom_right.simps) (auto simp: n set_right_def)
  next
    case False
    then have rp: "rp \<noteq> 0" using tree_at_root[OF b(5)] by simp
    obtain c h' where c: "bottom_right rp h = Some c" "c \<in> addrs m" "set_right c q h = Some h'" "tree_at h' rp (join m r)"
        "\<forall>d. d \<notin> addrs m \<longrightarrow> h' d = h d"
      using Node.IH(2)[OF b(5) False _ Node.prems(4)] Node.prems by (auto simp: n)
    have "tree_at h' lp l" by (rule tree_at_frame[OF b(4)]) (use Node.prems c(5) in \<open>auto simp: n\<close>)
    moreover have "h' b = h b" using c(5) Node.prems by (simp add: n)
    ultimately show ?thesis using b(1-3) c rp by (subst bottom_right.simps) (auto simp: n)
  qed
qed simp

definition destroyed :: "bool \<Rightarrow> 'a option \<Rightarrow> 'a list" where
  "destroyed d x = (case x of Some y \<Rightarrow> if d then [y] else [] | None \<Rightarrow> [])"

text \<open>
  Deleting the entry \<open>b\<close> below \<open>a\<close>. The father gets the joined subtrees in place of \<open>b\<close>, unless \<open>b\<close> has one subtree and
  that is on the other side.
\<close>

lemma join_memory:
  assumes "h b = Some \<lparr>item = z, left = lp, right = rp\<rparr>" and "tree_at h lp l" and "tree_at h rp r" and "separate (Node l (b, z) r)"
    and "h a = Some e" and "a \<notin> insert b (addrs l \<union> addrs r)" and "l \<noteq> Leaf"
  shows "\<exists>q h1. bottom_right lp h = Some q \<and> set_right q rp h = Some h1 \<and> h1 a = h a \<and> h1 b = h b \<and> tree_at h1 lp (join l r)
    \<and> (\<forall>c. c \<notin> addrs l \<longrightarrow> h1 c = h c)"
  using bottom_right_spec[OF assms(2,7) _ assms(3)] assms(4,6) by fastforce

lemma delete_left:
  assumes "h a = Some \<lparr>item = y, left = b, right = s\<rparr>" and "s \<noteq> b" and "b \<noteq> 0" and "a \<noteq> 0"
    and "h b = Some \<lparr>item = z, left = lp, right = rp\<rparr>" and "tree_at h lp l" and "tree_at h rp r" and "separate (Node l (b, z) r)"
    and "a \<notin> insert b (addrs l \<union> addrs r)" and "\<not> (l = Leaf \<and> r \<noteq> Leaf)"
  shows "\<exists>h' q. delete_entry b a d h = Some (h', destroyed d z) \<and> h' a = Some \<lparr>item = y, left = q, right = s\<rparr> \<and> tree_at h' q (join l r)
    \<and> (\<forall>c. c \<notin> insert a (insert b (addrs l)) \<longrightarrow> h' c = h c)"
proof -
  note z = tree_at_root[OF assms(6)] tree_at_root[OF assms(7)]
  consider "l = Leaf" "r = Leaf" | "l \<noteq> Leaf" "r = Leaf" | "l \<noteq> Leaf" "r \<noteq> Leaf" using assms(10) by blast
  then show ?thesis
  proof cases
    case 1
    then show ?thesis
      using assms(1-5,9) z by (auto simp: delete_entry_def unlink_leaf_def set_left_def destroy_entry_def destroyed_def split: option.splits)
  next
    case 2
    let ?h = "h(a \<mapsto> \<lparr>item = y, left = lp, right = s\<rparr>, b := None)"
    have "delete_entry b a d h = Some (?h, destroyed d z)"
      using 2 assms(1-5,9) z by (auto simp: delete_entry_def set_left_def destroy_entry_def destroyed_def)
    moreover have "tree_at ?h lp l" by (rule tree_at_frame[OF assms(6)]) (use assms(8,9) in auto)
    ultimately show ?thesis using 2 assms(9) by auto
  next
    case 3
    obtain q h1 where h1: "bottom_right lp h = Some q" "set_right q rp h = Some h1" "h1 a = h a" "h1 b = h b" "tree_at h1 lp (join l r)"
        "\<forall>c. c \<notin> addrs l \<longrightarrow> h1 c = h c"
      using join_memory[OF assms(5-8,1,9) 3(1)] by blast
    let ?h = "h1(a \<mapsto> \<lparr>item = y, left = lp, right = s\<rparr>, b := None)"
    have "delete_entry b a d h = Some (?h, destroyed d z)"
      using 3 assms(1-5,9) z h1(1-4) by (auto simp: delete_entry_def join_children_def set_left_def destroy_entry_def destroyed_def)
    moreover have "tree_at ?h lp (join l r)" by (rule tree_at_frame[OF h1(5)]) (use assms(8,9) in auto)
    ultimately show ?thesis using h1(6) assms(9) by auto
  qed
qed

lemma delete_right:
  assumes "h a = Some \<lparr>item = y, left = s, right = b\<rparr>" and "s \<noteq> b" and "b \<noteq> 0" and "a \<noteq> 0"
    and "h b = Some \<lparr>item = z, left = lp, right = rp\<rparr>" and "tree_at h lp l" and "tree_at h rp r" and "separate (Node l (b, z) r)"
    and "a \<notin> insert b (addrs l \<union> addrs r)" and "\<not> (l \<noteq> Leaf \<and> r = Leaf)"
  shows "\<exists>h' q. delete_entry b a d h = Some (h', destroyed d z) \<and> h' a = Some \<lparr>item = y, left = s, right = q\<rparr> \<and> tree_at h' q (join l r)
    \<and> (\<forall>c. c \<notin> insert a (insert b (addrs l)) \<longrightarrow> h' c = h c)"
proof -
  note z = tree_at_root[OF assms(6)] tree_at_root[OF assms(7)]
  consider "l = Leaf" "r = Leaf" | "l = Leaf" "r \<noteq> Leaf" | "l \<noteq> Leaf" "r \<noteq> Leaf" using assms(10) by blast
  then show ?thesis
  proof cases
    case 1
    then show ?thesis
      using assms(1-5,9) z by (auto simp: delete_entry_def unlink_leaf_def set_right_def destroy_entry_def destroyed_def split: option.splits)
  next
    case 2
    let ?h = "h(a \<mapsto> \<lparr>item = y, left = s, right = rp\<rparr>, b := None)"
    have "delete_entry b a d h = Some (?h, destroyed d z)"
      using 2 assms(1-5,9) z by (auto simp: delete_entry_def set_right_def destroy_entry_def destroyed_def)
    moreover have "tree_at ?h rp r" by (rule tree_at_frame[OF assms(7)]) (use assms(8,9) in auto)
    ultimately show ?thesis using 2 assms(9) by auto
  next
    case 3
    obtain q h1 where h1: "bottom_right lp h = Some q" "set_right q rp h = Some h1" "h1 a = h a" "h1 b = h b" "tree_at h1 lp (join l r)"
        "\<forall>c. c \<notin> addrs l \<longrightarrow> h1 c = h c"
      using join_memory[OF assms(5-8,1,9) 3(1)] by blast
    have set_a: "set_right a v h1 = Some (h1(a \<mapsto> \<lparr>item = y, left = s, right = v\<rparr>))" for v
      using h1(3) assms(1) by (simp add: set_right_def)
    let ?h = "h1(a \<mapsto> \<lparr>item = y, left = s, right = lp\<rparr>, b := None)"
    have "delete_entry b a d h = Some (?h, destroyed d z)"
      using 3 assms(1-5,9) z h1(1-4) set_a by (auto simp: delete_entry_def join_children_def destroy_entry_def destroyed_def)
    moreover have "tree_at ?h lp (join l r)" by (rule tree_at_frame[OF h1(5)]) (use assms(8,9) in auto)
    ultimately show ?thesis using h1(6) assms(9) by auto
  qed
qed

text \<open>With one subtree on the other side the father keeps its pointer to the entry that has been freed.\<close>

lemma delete_left_skewed:
  assumes "h a = Some \<lparr>item = y, left = b, right = s\<rparr>" and "b \<noteq> 0" and "a \<noteq> 0" and "a \<noteq> b"
    and "h b = Some \<lparr>item = z, left = 0, right = rp\<rparr>" and "rp \<noteq> 0"
  shows "delete_entry b a d h = Some (h(a \<mapsto> \<lparr>item = y, left = b, right = rp\<rparr>, b := None), destroyed d z)"
  using assms by (auto simp: delete_entry_def set_right_def destroy_entry_def destroyed_def)

lemma delete_right_skewed:
  assumes "h a = Some \<lparr>item = y, left = s, right = b\<rparr>" and "b \<noteq> 0" and "a \<noteq> 0" and "a \<noteq> b"
    and "h b = Some \<lparr>item = z, left = lp, right = 0\<rparr>" and "lp \<noteq> 0"
  shows "delete_entry b a d h = Some (h(a \<mapsto> \<lparr>item = y, left = lp, right = b\<rparr>, b := None), destroyed d z)"
  using assms by (auto simp: delete_entry_def set_left_def destroy_entry_def destroyed_def)

section \<open>Deleting in a tree\<close>

fun del :: "'a item_compare_fn \<Rightarrow> 'a option \<Rightarrow> 'a node_tree \<Rightarrow> 'a node_tree" where
  "del cmp x Leaf = Leaf"
| "del cmp x (Node l n r) =
     (if cmp x (snd n) = 0 then join l r else if cmp x (snd n) < 0 then Node (del cmp x l) n r else Node l n (del cmp x r))"

text \<open>The entry found has one subtree only, on the side the entry itself is not on.\<close>

fun root_found :: "'a item_compare_fn \<Rightarrow> 'a option \<Rightarrow> 'a node_tree \<Rightarrow> bool" where
  "root_found cmp x Leaf \<longleftrightarrow> False"
| "root_found cmp x (Node l n r) \<longleftrightarrow> cmp x (snd n) = 0"

fun only_right :: "'a tree \<Rightarrow> bool" where
  "only_right (Node l n r) \<longleftrightarrow> l = Leaf \<and> r \<noteq> Leaf"
| "only_right Leaf \<longleftrightarrow> False"

fun only_left :: "'a tree \<Rightarrow> bool" where
  "only_left (Node l n r) \<longleftrightarrow> l \<noteq> Leaf \<and> r = Leaf"
| "only_left Leaf \<longleftrightarrow> False"

fun skewed :: "'a item_compare_fn \<Rightarrow> 'a option \<Rightarrow> 'a node_tree \<Rightarrow> bool" where
  "skewed cmp x Leaf \<longleftrightarrow> False"
| "skewed cmp x (Node l n r) \<longleftrightarrow>
     (if cmp x (snd n) = 0 then False
      else if cmp x (snd n) < 0 then (if root_found cmp x l then only_right l else skewed cmp x l)
      else (if root_found cmp x r then only_left r else skewed cmp x r))"

fun found :: "'a item_compare_fn \<Rightarrow> 'a option \<Rightarrow> 'a node_tree \<Rightarrow> 'a option" where
  "found cmp x Leaf = None"
| "found cmp x (Node l n r) = (if cmp x (snd n) = 0 then snd n else if cmp x (snd n) < 0 then found cmp x l else found cmp x r)"

lemma del_inorder:
  "lookup cmp x t \<Longrightarrow> \<exists>xs a ys. inorder t = xs @ (a, found cmp x t) # ys \<and> inorder (del cmp x t) = xs @ ys \<and> cmp x (found cmp x t) = 0"
proof (induction t)
  case (Node l n r)
  obtain a y where n: "n = (a, y)" by (cases n)
  consider "cmp x y = 0" | "cmp x y < 0" | "0 < cmp x y" by linarith
  then show ?case
  proof cases
    case 1
    then show ?thesis by (intro exI[of _ "inorder l"] exI[of _ a] exI[of _ "inorder r"]) (simp add: n)
  next
    case 2
    then obtain xs b ys where "inorder l = xs @ (b, found cmp x l) # ys" "inorder (del cmp x l) = xs @ ys" "cmp x (found cmp x l) = 0"
      using Node by (auto simp: n)
    then show ?thesis using 2 by (intro exI[of _ xs] exI[of _ b] exI[of _ "ys @ n # inorder r"]) (simp add: n)
  next
    case 3
    then obtain xs b ys where "inorder r = xs @ (b, found cmp x r) # ys" "inorder (del cmp x r) = xs @ ys" "cmp x (found cmp x r) = 0"
      using Node by (auto simp: n)
    then show ?thesis using 3 by (intro exI[of _ "inorder l @ n # xs"] exI[of _ b] exI[of _ ys]) (simp add: n)
  qed
qed simp

lemma del_set: "set_tree (del cmp x t) \<subseteq> set_tree t"
  by (induction t) auto

lemma del_addrs: "addrs (del cmp x t) \<subseteq> addrs t"
  unfolding addrs_def using del_set by blast

lemma join_separate: "separate l \<Longrightarrow> separate r \<Longrightarrow> addrs l \<inter> addrs r = {} \<Longrightarrow> separate (join l r)"
  unfolding separate_def addrs_inorder by simp

lemma del_separate: "separate t \<Longrightarrow> separate (del cmp x t)"
proof (induction t)
  case (Node l n r)
  obtain a y where "n = (a, y)" by (cases n)
  then show ?case using Node del_addrs[of cmp x l] del_addrs[of cmp x r] join_separate[of l r] by auto
qed simp

lemma join_ordered:
  assumes "consistent cmp"
  shows "ordered cmp l \<Longrightarrow> ordered cmp r \<Longrightarrow> (\<forall>m \<in> set_tree l. \<forall>k \<in> set_tree r. 0 < cmp (snd k) (snd m)) \<Longrightarrow> ordered cmp (join l r)"
  by (induction l r rule: join.induct) auto

lemma del_ordered:
  assumes "consistent cmp"
  shows "ordered cmp t \<Longrightarrow> ordered cmp (del cmp x t)"
proof (induction t)
  case (Node l n r)
  have "0 < cmp (snd k) (snd m)" if "m \<in> set_tree l" "k \<in> set_tree r" for m k
    using consistent_less[OF assms, of "snd m" "snd n" "snd k"] consistentD(1)[OF assms] Node.prems that by auto
  then show ?case using Node join_ordered[OF assms, of l r] del_set[of cmp x l] del_set[of cmp x r] by auto
qed simp

text \<open>Searching below a father and deleting what was found turns the tree into the one without it.\<close>

definition deletes :: "'a item_compare_fn \<Rightarrow> 'a option \<Rightarrow> bool \<Rightarrow> 'a entries \<Rightarrow> nat \<Rightarrow> 'a node_tree \<Rightarrow> nat \<Rightarrow> nat \<Rightarrow> bool" where
  "deletes cmp x d h p t res fa \<longleftrightarrow> (\<exists>r f h'. search_entry p x cmp res fa h = Some (0, r, f) \<and> f \<noteq> 0
     \<and> delete_entry r f d h = Some (h', destroyed d (found cmp x t)) \<and> tree_at h' p (del cmp x t) \<and> (\<forall>c. c \<notin> addrs t \<longrightarrow> h' c = h c))"

lemma search_step:
  assumes "h a = Some \<lparr>item = y, left = lp, right = rp\<rparr>" and "a \<noteq> 0" and "x \<noteq> None" and "cmp x y \<noteq> 0"
  shows "search_entry a x cmp res fa h = search_entry (if cmp x y < 0 then lp else rp) x cmp res a h"
  using assms by (subst search_entry.simps) auto

lemma search_hit:
  "h b = Some \<lparr>item = z, left = lp, right = rp\<rparr> \<Longrightarrow> b \<noteq> 0 \<Longrightarrow> x \<noteq> None \<Longrightarrow> cmp x z = 0 \<Longrightarrow> search_entry b x cmp res fa h = Some (0, b, fa)"
  by (subst search_entry.simps) auto

lemma siblings: "tree_at h lp l \<Longrightarrow> tree_at h rp r \<Longrightarrow> addrs l \<inter> addrs r = {} \<Longrightarrow> lp \<noteq> rp \<or> lp = 0"
  using tree_at_root[of h lp l] tree_at_root[of h rp r] by auto

lemma deletes_left:
  assumes "tree_at h p (Node l (a, y) r)" and sep: "separate (Node l (a, y) r)" and x: "x \<noteq> None" and less: "cmp x y < 0"
    and "lookup cmp x l" and "root_found cmp x l \<longrightarrow> \<not> only_right l"
    and IH: "\<And>q. tree_at h q l \<Longrightarrow> \<not> root_found cmp x l \<Longrightarrow> deletes cmp x d h q l res a"
  shows "deletes cmp x d h p (Node l (a, y) r) res fa"
proof -
  obtain lp rp where a: "p = a" "a \<noteq> 0" "h a = Some \<lparr>item = y, left = lp, right = rp\<rparr>" "tree_at h lp l" "tree_at h rp r"
    using assms(1) by auto
  have step: "search_entry p x cmp res fa h = search_entry lp x cmp res a h" using search_step[of h a, OF a(3,2) x] less a(1) by simp
  obtain ll b z lr where l: "l = Node ll (b, z) lr" using assms(5) by (cases l) auto
  obtain llp lrp where b: "lp = b" "b \<noteq> 0" "h b = Some \<lparr>item = z, left = llp, right = lrp\<rparr>" "tree_at h llp ll" "tree_at h lrp lr"
    using a(4) by (auto simp: l)
  show ?thesis
  proof (cases "cmp x z = 0")
    case True
    then have "\<not> (ll = Leaf \<and> lr \<noteq> Leaf)" "rp \<noteq> b" using assms(6) siblings[OF a(4,5)] sep b(1,2) by (auto simp: l)
    then obtain h' q where h': "delete_entry b a d h = Some (h', destroyed d z)" "h' a = Some \<lparr>item = y, left = q, right = rp\<rparr>"
        "tree_at h' q (join ll lr)" "\<forall>c. c \<notin> insert a (insert b (addrs ll)) \<longrightarrow> h' c = h c"
      using delete_left[OF a(3)[unfolded b(1)] _ b(2) a(2) b(3-5), of d] sep by (auto simp: l)
    have "tree_at h' rp r" by (rule tree_at_frame[OF a(5)]) (use h'(4) sep in \<open>auto simp: l\<close>)
    then show ?thesis
      unfolding deletes_def step using search_hit[where h = h and b = b and cmp = cmp, OF b(3,2) x True] a(1,2) b(1) h' less True by (auto simp: l)
  next
    case False
    then obtain b f h' where h': "search_entry lp x cmp res a h = Some (0, b, f)" "f \<noteq> 0"
        "delete_entry b f d h = Some (h', destroyed d (found cmp x l))" "tree_at h' lp (del cmp x l)" "\<forall>c. c \<notin> addrs l \<longrightarrow> h' c = h c"
      using IH[OF a(4)] unfolding deletes_def by (auto simp: l)
    have "tree_at h' rp r" by (rule tree_at_frame[OF a(5)]) (use h'(5) sep in auto)
    then show ?thesis unfolding deletes_def step using a(1-3) h' less sep by auto
  qed
qed

lemma deletes_right:
  assumes "tree_at h p (Node l (a, y) r)" and sep: "separate (Node l (a, y) r)" and x: "x \<noteq> None" and greater: "0 < cmp x y"
    and "lookup cmp x r" and "root_found cmp x r \<longrightarrow> \<not> only_left r"
    and IH: "\<And>q. tree_at h q r \<Longrightarrow> \<not> root_found cmp x r \<Longrightarrow> deletes cmp x d h q r res a"
  shows "deletes cmp x d h p (Node l (a, y) r) res fa"
proof -
  obtain lp rp where a: "p = a" "a \<noteq> 0" "h a = Some \<lparr>item = y, left = lp, right = rp\<rparr>" "tree_at h lp l" "tree_at h rp r"
    using assms(1) by auto
  have step: "search_entry p x cmp res fa h = search_entry rp x cmp res a h" using search_step[of h a, OF a(3,2) x] greater a(1) by simp
  obtain rl b z rr where r: "r = Node rl (b, z) rr" using assms(5) by (cases r) auto
  obtain rlp rrp where b: "rp = b" "b \<noteq> 0" "h b = Some \<lparr>item = z, left = rlp, right = rrp\<rparr>" "tree_at h rlp rl" "tree_at h rrp rr"
    using a(5) by (auto simp: r)
  show ?thesis
  proof (cases "cmp x z = 0")
    case True
    then have "\<not> (rl \<noteq> Leaf \<and> rr = Leaf)" "lp \<noteq> b" using assms(6) siblings[OF a(4,5)] sep b(1,2) by (auto simp: r)
    then obtain h' q where h': "delete_entry b a d h = Some (h', destroyed d z)" "h' a = Some \<lparr>item = y, left = lp, right = q\<rparr>"
        "tree_at h' q (join rl rr)" "\<forall>c. c \<notin> insert a (insert b (addrs rl)) \<longrightarrow> h' c = h c"
      using delete_right[OF a(3)[unfolded b(1)] _ b(2) a(2) b(3-5), of d] sep by (auto simp: r)
    have "tree_at h' lp l" by (rule tree_at_frame[OF a(4)]) (use h'(4) sep in \<open>auto simp: r\<close>)
    then show ?thesis
      unfolding deletes_def step using search_hit[where h = h and b = b and cmp = cmp, OF b(3,2) x True] a(1,2) b(1) h' greater True by (auto simp: r)
  next
    case False
    then obtain b f h' where h': "search_entry rp x cmp res a h = Some (0, b, f)" "f \<noteq> 0"
        "delete_entry b f d h = Some (h', destroyed d (found cmp x r))" "tree_at h' rp (del cmp x r)" "\<forall>c. c \<notin> addrs r \<longrightarrow> h' c = h c"
      using IH[OF a(5)] unfolding deletes_def by (auto simp: r)
    have "tree_at h' lp l" by (rule tree_at_frame[OF a(4)]) (use h'(5) sep in auto)
    then show ?thesis unfolding deletes_def step using a(1-3) h' greater sep by auto
  qed
qed

lemma delete_below:
  fixes x :: "'a option" and cmp :: "'a item_compare_fn"
  shows "tree_at h p t \<Longrightarrow> separate t \<Longrightarrow> x \<noteq> None \<Longrightarrow> lookup cmp x t \<Longrightarrow> \<not> root_found cmp x t \<Longrightarrow> \<not> skewed cmp x t
    \<Longrightarrow> deletes cmp x d h p t res fa"
proof (induction t arbitrary: p fa)
  case (Node l n r p fa)
  obtain a y where n: "n = (a, y)" by (cases n)
  have sep: "separate l" "separate r" using Node.prems(2) by (auto simp: n)
  show ?case
  proof (cases "cmp x y < 0")
    case True
    then show ?thesis
      using deletes_left[where h = h and p = p and l = l and a = a and y = y and r = r and x = x and cmp = cmp] Node.IH(1)[OF _ sep(1)] Node.prems by (auto simp: n split: if_splits)
  next
    case False
    then have "0 < cmp x y" using Node.prems(5) by (simp add: n)
    then show ?thesis
      using deletes_right[where h = h and p = p and l = l and a = a and y = y and r = r and x = x and cmp = cmp] Node.IH(2)[OF _ sep(2)] Node.prems by (auto simp: n split: if_splits)
  qed
qed simp

section \<open>The shapes deleting does not handle\<close>

definition breaks :: "'a item_compare_fn \<Rightarrow> 'a option \<Rightarrow> bool \<Rightarrow> 'a entries \<Rightarrow> nat \<Rightarrow> 'a node_tree \<Rightarrow> nat \<Rightarrow> nat \<Rightarrow> bool" where
  "breaks cmp x d h p t res fa \<longleftrightarrow> (\<exists>r f h'. search_entry p x cmp res fa h = Some (0, r, f) \<and> f \<noteq> 0
     \<and> delete_entry r f d h = Some (h', destroyed d (found cmp x t)) \<and> (\<forall>res' fa'. search_entry p x cmp res' fa' h' = None)
     \<and> (\<forall>c. c \<notin> addrs t \<longrightarrow> h' c = h c))"

lemma search_lost: "h b = None \<Longrightarrow> b \<noteq> 0 \<Longrightarrow> x \<noteq> None \<Longrightarrow> search_entry b x cmp res fa h = None"
  by (subst search_entry.simps) auto

lemma breaks_step:
  assumes "h a = Some \<lparr>item = y, left = lp, right = rp\<rparr>" and "a \<noteq> 0" and "x \<noteq> None" and "cmp x y \<noteq> 0" and "separate (Node l (a, y) r)"
    and "breaks cmp x d h (if cmp x y < 0 then lp else rp) (if cmp x y < 0 then l else r) res a"
  shows "breaks cmp x d h a (Node l (a, y) r) res fa"
proof -
  let ?t = "if cmp x y < 0 then l else r" and ?q = "if cmp x y < 0 then lp else rp"
  obtain b f h' where h': "search_entry ?q x cmp res a h = Some (0, b, f)" "f \<noteq> 0" "delete_entry b f d h = Some (h', destroyed d (found cmp x ?t))"
      "\<forall>res' fa'. search_entry ?q x cmp res' fa' h' = None" "\<forall>c. c \<notin> addrs ?t \<longrightarrow> h' c = h c"
    using assms(6) unfolding breaks_def by blast
  have "h' a = h a" using h'(5) assms(5) by (auto split: if_splits)
  then have "search_entry a x cmp res' fa' h' = None" for res' fa'
    using search_step[of h' a y lp rp x cmp] assms(1-4) h'(4) by simp
  moreover have "search_entry a x cmp res fa h = Some (0, b, f)" using search_step[of h a y lp rp x cmp] assms(1-4) h'(1) by simp
  moreover have "found cmp x (Node l (a, y) r) = found cmp x ?t" using assms(4) by simp
  moreover have "\<forall>c. c \<notin> addrs (Node l (a, y) r) \<longrightarrow> h' c = h c" using h'(5) by (auto split: if_splits)
  ultimately show ?thesis unfolding breaks_def using h'(2,3) by auto
qed

lemma breaks_here:
  assumes "h a = Some \<lparr>item = y, left = lp, right = rp\<rparr>" and "a \<noteq> 0" and "tree_at h lp l" and "tree_at h rp r" and "x \<noteq> None" and "cmp x y \<noteq> 0"
    and "separate (Node l (a, y) r)" and "if cmp x y < 0 then root_found cmp x l \<and> only_right l else root_found cmp x r \<and> only_left r"
  shows "breaks cmp x d h a (Node l (a, y) r) res fa"
proof -
  define b where "b = (if cmp x y < 0 then lp else rp)"
  define t where "t = (if cmp x y < 0 then l else r)"
  obtain tl z tr where t: "t = Node tl (b, z) tr" using assms(3,4,8) unfolding t_def b_def by (cases l; cases r) (auto split: if_splits)
  have at: "tree_at h b t" using assms(3,4) by (simp add: t_def b_def)
  then obtain u v where b: "b \<noteq> 0" "h b = Some \<lparr>item = z, left = u, right = v\<rparr>" "tree_at h u tl" "tree_at h v tr" by (auto simp: t)
  have z: "cmp x z = 0" using assms(8) t by (auto simp: t_def split: if_splits)
  have ab: "a \<noteq> b" using assms(7) t by (auto simp: t_def split: if_splits)
  let ?h = "if cmp x y < 0 then h(a \<mapsto> \<lparr>item = y, left = b, right = v\<rparr>, b := None) else h(a \<mapsto> \<lparr>item = y, left = u, right = b\<rparr>, b := None)"
  have shape: "if cmp x y < 0 then u = 0 \<and> v \<noteq> 0 else u \<noteq> 0 \<and> v = 0"
    using assms(8) t tree_at_root[OF b(3)] tree_at_root[OF b(4)] by (auto simp: t_def split: if_splits)
  have "delete_entry b a d h = Some (?h, destroyed d z)"
    using delete_left_skewed[of h a y b rp z v d] delete_right_skewed[of h a y lp b z u d] assms(1,2) b(1,2) ab shape
    by (auto simp: b_def split: if_splits)
  moreover have "search_entry a x cmp res fa h = Some (0, b, a)"
    using search_step[of h a y lp rp x cmp res fa] search_hit[of h b z u v x cmp res a] assms(1,2,5,6) b(1,2) z by (simp add: b_def)
  moreover have "search_entry a x cmp res' fa' ?h = None" for res' fa'
    using search_step[of ?h a y "if cmp x y < 0 then b else u" "if cmp x y < 0 then v else b" x cmp res' fa'] search_lost[of ?h b x cmp res' a]
      assms(2,5,6) ab b(1) by (auto split: if_splits)
  moreover have "found cmp x (Node l (a, y) r) = z" using assms(6) t z by (auto simp: t_def split: if_splits)
  moreover have "\<forall>c. c \<notin> addrs (Node l (a, y) r) \<longrightarrow> ?h c = h c" using t by (auto simp: t_def split: if_splits)
  ultimately show ?thesis unfolding breaks_def using assms(2) by blast
qed

lemma skewed_breaks:
  "tree_at h p t \<Longrightarrow> separate t \<Longrightarrow> x \<noteq> None \<Longrightarrow> skewed cmp x t \<Longrightarrow> breaks cmp x d h p t res fa"
proof (induction t arbitrary: p fa)
  case (Node l n r p fa)
  obtain a y where n: "n = (a, y)" by (cases n)
  obtain lp rp where a: "p = a" "a \<noteq> 0" "h a = Some \<lparr>item = y, left = lp, right = rp\<rparr>" "tree_at h lp l" "tree_at h rp r"
    using Node.prems(1) by (auto simp: n)
  have sep: "separate (Node l (a, y) r)" using Node.prems(2) by (simp add: n)
  have y: "cmp x y \<noteq> 0" using Node.prems(4) by (auto simp: n)
  show ?case
  proof (cases "if cmp x y < 0 then root_found cmp x l \<and> only_right l else root_found cmp x r \<and> only_left r")
    case True
    then show ?thesis unfolding a(1) n using a(2-5) Node.prems(3) y sep by (intro breaks_here[where lp = lp and rp = rp])
  next
    case False
    then have sk: "skewed cmp x (if cmp x y < 0 then l else r)" using Node.prems(4) y by (auto simp: n split: if_splits)
    have "breaks cmp x d h (if cmp x y < 0 then lp else rp) (if cmp x y < 0 then l else r) res a"
      using Node.IH(1)[OF a(4) _ Node.prems(3)] Node.IH(2)[OF a(5) _ Node.prems(3)] sep sk by auto
    then show ?thesis unfolding a(1) n using a(2,3) Node.prems(3) y sep by (intro breaks_step[where lp = lp and rp = rp])
  qed
qed simp

section \<open>Whole trees\<close>

text \<open>The entries of a tree object form a search tree of the given items.\<close>

definition holds :: "'a Bst \<Rightarrow> 'a entries \<Rightarrow> 'a node_tree \<Rightarrow> bool" where
  "holds b h t \<longleftrightarrow> tree_at h (root b) t \<and> separate t \<and> ordered (comp b) t"

definition items :: "'a node_tree \<Rightarrow> 'a option list" where
  "items t = map snd (inorder t)"

lemma in_order_items: "tree_at h p t \<Longrightarrow> in_order_entry p h = Some (items t)"
proof (induction t arbitrary: p)
  case Leaf
  then show ?case by (subst in_order_entry.simps) (simp add: items_def)
next
  case (Node l n r p)
  obtain a y where n: "n = (a, y)" by (cases n)
  obtain lp rp where "p = a" "a \<noteq> 0" "h a = Some \<lparr>item = y, left = lp, right = rp\<rparr>" "tree_at h lp l" "tree_at h rp r"
    using Node.prems(1) by (auto simp: n)
  moreover from this have "(if lp \<noteq> 0 then in_order_entry lp h else Some []) = Some (items l)"
      "(if rp \<noteq> 0 then in_order_entry rp h else Some []) = Some (items r)"
    using Node.IH[of lp] Node.IH(2)[of rp] tree_at_root[of h lp l] tree_at_root[of h rp r] by (auto simp: items_def)
  ultimately show ?case by (subst in_order_entry.simps) (auto simp: n items_def split: if_splits)
qed

lemma delete_root_spec:
  assumes "tree_at h (root b) (Node l (a, y) r)" and "separate (Node l (a, y) r)"
  shows "\<exists>q h'. delete_root b h = Some (b\<lparr>root := q\<rparr>, h', destroyed (dtr b) y) \<and> tree_at h' q (join l r)"
proof -
  obtain lp rp where a: "root b = a" "a \<noteq> 0" "h a = Some \<lparr>item = y, left = lp, right = rp\<rparr>" "tree_at h lp l" "tree_at h rp r"
    using assms(1) by auto
  show ?thesis
  proof (cases "l = Leaf")
    case True
    then have "delete_root b h = Some (b\<lparr>root := rp\<rparr>, h(a := None), destroyed (dtr b) y)"
      using a by (simp add: delete_root_def destroy_entry_def destroyed_def)
    moreover have "tree_at (h(a := None)) rp r" by (rule tree_at_frame[OF a(5)]) (use assms(2) in auto)
    ultimately show ?thesis using True by auto
  next
    case False
    then obtain q h1 where h1: "bottom_right lp h = Some q" "set_right q rp h = Some h1" "tree_at h1 lp (join l r)" "\<forall>c. c \<notin> addrs l \<longrightarrow> h1 c = h c"
      using bottom_right_spec[OF a(4) _ _ a(5)] assms(2) by auto
    have "h1 a = h a" using h1(4) assms(2) by simp
    then have "delete_root b h = Some (b\<lparr>root := lp\<rparr>, h1(a := None), destroyed (dtr b) y)"
      using a h1(1,2) False tree_at_root[OF a(4)] by (simp add: delete_root_def destroy_entry_def destroyed_def)
    moreover have "tree_at (h1(a := None)) lp (join l r)" by (rule tree_at_frame[OF h1(3)]) (use assms(2) in auto)
    ultimately show ?thesis by auto
  qed
qed

lemma bst_delete_tree:
  assumes "holds b h t" and "x \<noteq> None" and "lookup (comp b) x t" and "\<not> skewed (comp b) x t"
  shows "\<exists>q h'. bst_delete (Some b) x h = Some (0, Some (b\<lparr>root := q\<rparr>), h', destroyed (dtr b) (found (comp b) x t))
    \<and> tree_at h' q (del (comp b) x t)"
proof (cases "root_found (comp b) x t")
  case True
  then obtain l a y r where t: "t = Node l (a, y) r" by (cases t) auto
  obtain lp rp where a: "root b = a" "a \<noteq> 0" "h a = Some \<lparr>item = y, left = lp, right = rp\<rparr>" using assms(1) by (auto simp: holds_def t)
  have y: "comp b x y = 0" using True by (simp add: t)
  have "search_entry (root b) x (comp b) 0 0 h = Some (0, a, 0)" using search_hit[of h a y lp rp x "comp b" 0 0] a assms(2) y by simp
  moreover obtain q h' where "delete_root b h = Some (b\<lparr>root := q\<rparr>, h', destroyed (dtr b) y)" "tree_at h' q (join l r)"
    using delete_root_spec[of h b l a y r] assms(1) by (auto simp: holds_def t)
  ultimately show ?thesis using y by (intro exI[of _ q] exI[of _ h']) (simp add: bst_delete_def t)
next
  case False
  then obtain r f h' where "search_entry (root b) x (comp b) 0 0 h = Some (0, r, f)" "f \<noteq> 0"
      "delete_entry r f (dtr b) h = Some (h', destroyed (dtr b) (found (comp b) x t))" "tree_at h' (root b) (del (comp b) x t)"
    using delete_below[of h "root b" t x "comp b" "dtr b" 0 0] assms unfolding holds_def deletes_def by blast
  then show ?thesis by (intro exI[of _ "root b"] exI[of _ h']) (simp add: bst_delete_def)
qed

text \<open>
  Inserting into a search tree succeeds when memory is available, leaves a search tree, and adds the item to what
  a traversal in order shows.
\<close>

theorem bst_insert_adds:
  assumes "holds b h t" and "fresh h \<noteq> 0" and "h (fresh h) = None"
  shows "\<exists>q h' t'. bst_insert fresh (Some b) x h = Some (0, Some (b\<lparr>root := q\<rparr>), h') \<and> holds (b\<lparr>root := q\<rparr>) h' t'
    \<and> in_order (Some (b\<lparr>root := q\<rparr>)) h' = Some (items t') \<and> mset (items t') = add_mset x (mset (items t))"
proof -
  let ?a = "fresh h" and ?h = "h(fresh h \<mapsto> \<lparr>item = x, left = 0, right = 0\<rparr>)"
  have used: "c \<in> addrs s \<Longrightarrow> tree_at h p s \<Longrightarrow> h c \<noteq> None" for c p s
    by (induction h p s rule: tree_at.induct) auto
  have a: "?a \<notin> addrs t" using used[of ?a t "root b"] assms by (auto simp: holds_def)
  have "tree_at ?h (root b) t" by (rule tree_at_frame[of h]) (use assms(1) a in \<open>auto simp: holds_def\<close>)
  then obtain q h' where q: "insert_entry (root b) ?a (comp b) ?h = Some (q, h')" "tree_at h' q (ins (comp b) (?a, x) t)"
    using insert_entry_spec[of ?h "root b" t ?a x "comp b"] a assms by (auto simp: holds_def)
  have "holds (b\<lparr>root := q\<rparr>) h' (ins (comp b) (?a, x) t)"
    using q(2) a assms(1) by (simp add: holds_def ins_separate ins_ordered)
  moreover have "mset (items (ins (comp b) (?a, x) t)) = add_mset x (mset (items t))" by (simp add: items_def ins_mset)
  moreover have "bst_insert fresh (Some b) x h = Some (0, Some (b\<lparr>root := q\<rparr>), h')"
    using q(1) assms(2) by (simp add: bst_insert_def create_entry_def)
  moreover have "in_order (Some (b\<lparr>root := q\<rparr>)) h' = Some (items (ins (comp b) (?a, x) t))"
    using in_order_items[OF q(2)] by (simp add: in_order_def)
  ultimately show ?thesis by blast
qed

text \<open>Searching finds an item exactly when the tree has one that compares equal.\<close>

theorem bst_search_finds:
  assumes "holds b h t" and "consistent (comp b)" and "x \<noteq> None"
  shows "bst_search (Some b) x h = Some (if \<exists>y \<in> set (items t). comp b x y = 0 then 0 else - 1)"
proof -
  have "(\<exists>y \<in> set (items t). comp b x y = 0) \<longleftrightarrow> lookup (comp b) x t"
    using lookup_iff[OF assms(2), of t x] assms(1) by (auto simp: holds_def items_def)
  moreover obtain r f where "search_entry (root b) x (comp b) 0 0 h = Some (if lookup (comp b) x t then 0 else - 1, r, f)"
    using search_entry_found[of h "root b" t x "comp b" 0 0] assms(1,3) unfolding holds_def by blast
  moreover have "root b = 0 \<Longrightarrow> \<not> lookup (comp b) x t" using assms(1) tree_at_root[of h "root b" t] by (auto simp: holds_def)
  ultimately show ?thesis by (simp add: bst_search_def)
qed

text \<open>C26. 
  Deleting an item the tree has removes one entry that compares equal, hands its item to the destroy function and
  leaves a search tree of the others, unless that entry has one subtree only and is on the other side of its father.
\<close>

theorem bst_delete_removes:
  assumes "holds b h t" and "consistent (comp b)" and "x \<noteq> None" and "\<exists>y \<in> set (items t). comp b x y = 0" and "\<not> skewed (comp b) x t"
  shows "\<exists>y q h' t'. bst_delete (Some b) x h = Some (0, Some (b\<lparr>root := q\<rparr>), h', destroyed (dtr b) y) \<and> comp b x y = 0
    \<and> holds (b\<lparr>root := q\<rparr>) h' t' \<and> in_order (Some (b\<lparr>root := q\<rparr>)) h' = Some (items t') \<and> mset (items t) = add_mset y (mset (items t'))"
proof -
  have lk: "lookup (comp b) x t" using lookup_iff[OF assms(2), of t x] assms(1,4) by (auto simp: holds_def items_def)
  obtain q h' where q: "bst_delete (Some b) x h = Some (0, Some (b\<lparr>root := q\<rparr>), h', destroyed (dtr b) (found (comp b) x t))"
      "tree_at h' q (del (comp b) x t)"
    using bst_delete_tree[OF assms(1,3) lk assms(5)] by blast
  obtain xs a ys where "inorder t = xs @ (a, found (comp b) x t) # ys" "inorder (del (comp b) x t) = xs @ ys"
      "comp b x (found (comp b) x t) = 0"
    using del_inorder[OF lk] by blast
  moreover have "holds (b\<lparr>root := q\<rparr>) h' (del (comp b) x t)"
    using q(2) assms(1) del_separate[of t] del_ordered[OF assms(2)] by (simp add: holds_def)
  moreover have "in_order (Some (b\<lparr>root := q\<rparr>)) h' = Some (items (del (comp b) x t))"
    using in_order_items[OF q(2)] by (simp add: in_order_def)
  ultimately show ?thesis using q(1) by (intro exI[of _ "found (comp b) x t"] exI[of _ q] exI[of _ h'] exI[of _ "del (comp b) x t"]) (simp add: items_def)
qed

text \<open>
  In that case the delete reports success, but the father keeps its pointer to the freed entry and loses its
  other subtree: the next search for the same item reads memory that has been freed.
\<close>

theorem bst_delete_skewed:
  assumes "holds b h t" and "x \<noteq> None" and "skewed (comp b) x t"
  shows "\<exists>h' ys. bst_delete (Some b) x h = Some (0, Some b, h', ys) \<and> bst_search (Some b) x h' = None"
proof -
  obtain r f h' where h': "search_entry (root b) x (comp b) 0 0 h = Some (0, r, f)" "f \<noteq> 0"
      "delete_entry r f (dtr b) h = Some (h', destroyed (dtr b) (found (comp b) x t))" "search_entry (root b) x (comp b) 0 0 h' = None"
    using skewed_breaks[of h "root b" t x "comp b" "dtr b" 0 0] assms unfolding holds_def breaks_def by blast
  have "root b \<noteq> 0" using assms tree_at_root[of h "root b" t] by (auto simp: holds_def)
  then show ?thesis using h' by (simp add: bst_delete_def bst_search_def)
qed

section \<open>A tree of four entries\<close>

definition number_comp :: "int item_compare_fn" where
  "number_comp x y = (case (x, y) of (Some m, Some n) \<Rightarrow> m - n | (None, None) \<Rightarrow> 0 | (None, _) \<Rightarrow> - 1 | (_, None) \<Rightarrow> 1)"

definition sample :: "int Bst" where
  "sample = \<lparr>cnt = 0, dtr = True, comp = number_comp, root = 1\<rparr>"

definition sample_mem :: "int entries" where
  "sample_mem = [1 \<mapsto> \<lparr>item = Some 5, left = 2, right = 3\<rparr>, 2 \<mapsto> \<lparr>item = Some 2, left = 0, right = 4\<rparr>,
     3 \<mapsto> \<lparr>item = Some 8, left = 0, right = 0\<rparr>, 4 \<mapsto> \<lparr>item = Some 3, left = 0, right = 0\<rparr>]"

definition sample_tree :: "int node_tree" where
  "sample_tree = Node (Node Leaf (2, Some 2) (Node Leaf (4, Some 3) Leaf)) (1, Some 5) (Node Leaf (3, Some 8) Leaf)"

lemma sample_holds: "holds sample sample_mem sample_tree"
  by (simp add: holds_def sample_def sample_mem_def sample_tree_def number_comp_def)

lemma number_consistent: "consistent number_comp"
  unfolding consistent_def number_comp_def by (auto split: option.splits)

lemma sample_items: "items sample_tree = [Some 2, Some 3, Some 5, Some 8]"
  by (simp add: items_def sample_tree_def)

theorem bst_insert_adds_witness:
  "\<exists>q h' xs. bst_insert (\<lambda>_. 7) (Some sample) (Some 4) sample_mem = Some (0, Some (sample\<lparr>root := q\<rparr>), h')
    \<and> in_order (Some (sample\<lparr>root := q\<rparr>)) h' = Some xs \<and> mset xs = {#Some 4, Some 2, Some 3, Some 5, Some 8#}"
  using bst_insert_adds[OF sample_holds, of "\<lambda>_. 7" "Some 4"] by (auto simp: sample_items sample_mem_def)

theorem bst_search_finds_witness:
  "bst_search (Some sample) (Some 3) sample_mem = Some 0 \<and> bst_search (Some sample) (Some 4) sample_mem = Some (- 1)"
  using bst_search_finds[OF sample_holds, of "Some 3"] bst_search_finds[OF sample_holds, of "Some 4"] number_consistent
  by (simp add: sample_items) (simp add: sample_def number_comp_def)

theorem bst_delete_removes_witness:
  "\<exists>q h' xs. bst_delete (Some sample) (Some 5) sample_mem = Some (0, Some (sample\<lparr>root := q\<rparr>), h', [5])
    \<and> in_order (Some (sample\<lparr>root := q\<rparr>)) h' = Some xs \<and> mset xs = {#Some 2, Some 3, Some 8#}"
proof -
  have "consistent (comp sample)" "\<exists>y \<in> set (items sample_tree). comp sample (Some 5) y = 0" "\<not> skewed (comp sample) (Some 5) sample_tree"
    using number_consistent by (simp add: sample_def, simp add: sample_items sample_def number_comp_def,
      simp add: sample_def number_comp_def sample_tree_def)
  from bst_delete_removes[OF sample_holds this(1) _ this(2,3)] obtain y q h' t' where
    d: "bst_delete (Some sample) (Some 5) sample_mem = Some (0, Some (sample\<lparr>root := q\<rparr>), h', destroyed (dtr sample) y)" "comp sample (Some 5) y = 0"
      "in_order (Some (sample\<lparr>root := q\<rparr>)) h' = Some (items t')" "mset (items sample_tree) = add_mset y (mset (items t'))" by auto
  have y: "y = Some 5" using d(2) by (auto simp: sample_def number_comp_def split: option.splits)
  have "mset (items t') = {#Some 2, Some 3, Some 8#}" using d(4) by (simp add: y sample_items add_mset_commute)
  then show ?thesis using d(1,3) by (auto simp: y destroyed_def sample_def)
qed

theorem bst_delete_skewed_witness:
  "\<exists>h' ys. bst_delete (Some sample) (Some 2) sample_mem = Some (0, Some sample, h', ys) \<and> bst_search (Some sample) (Some 2) h' = None"
  using bst_delete_skewed[OF sample_holds, of "Some 2"] by (simp add: sample_def number_comp_def sample_tree_def)

end
