(* ===== verification/Bt.thy ===== *)
theory Bt
  imports Bst_Props
begin

text \<open>
  \<^verbatim>\<open>DataStructure/BinaryTree/bs/bt.c\<close>: the plain binary tree, on the same entries as \<^verbatim>\<open>bst.c\<close>: its traversals,
  depth and the searches for an entry, its father and its siblings, and what traversing by levels shows.
\<close>

section \<open>Building\<close>

record Bt =
  bt_cnt :: int
  bt_root :: nat

definition create_bt :: Bt where
  "create_bt = \<lparr>bt_cnt = 0, bt_root = 0\<rparr>"

definition load :: "'a entries \<Rightarrow> nat \<Rightarrow> 'a Bst_Entry run" where
  "load h p = (if p = 0 then None else h p)"

partial_function (option) bt_insert_entry ::
    "nat \<Rightarrow> nat \<Rightarrow> 'a item_compare_fn \<Rightarrow> 'a entries \<Rightarrow> (nat \<times> 'a entries) run" where
  "bt_insert_entry p entry cmp h =
     (if p = 0 then Some (entry, h)
      else do {
        e \<leftarrow> load h entry; n \<leftarrow> load h p;
        if 0 < cmp (item e) (item n) then do {
          r \<leftarrow> bt_insert_entry (Bst_Entry.right n) entry cmp h;
          h2 \<leftarrow> set_right p (fst r) (snd r);
          Some (p, h2) }
        else do {
          r \<leftarrow> bt_insert_entry (Bst_Entry.left n) entry cmp h;
          h2 \<leftarrow> set_left p (fst r) (snd r);
          Some (p, h2) } })"

fun init_bt :: "('a entries \<Rightarrow> nat) \<Rightarrow> Bt \<Rightarrow> 'a option list \<Rightarrow> 'a item_compare_fn \<Rightarrow> 'a entries \<Rightarrow> (Bt \<times> 'a entries) run" where
  "init_bt fresh bt [] cmp h = Some (bt, h)"
| "init_bt fresh bt (x # xs) cmp h =
     do { (entry, h1) \<leftarrow> create_entry fresh x h;
          (r, h2) \<leftarrow> bt_insert_entry (bt_root bt) entry cmp h1;
          init_bt fresh (bt\<lparr>bt_root := r\<rparr>) xs cmp h2 }"

definition bt_is_empty :: "Bt \<Rightarrow> int" where
  "bt_is_empty bt = (if bt_root bt \<noteq> 0 then 0 else 1)"

definition get_root :: "Bt \<Rightarrow> nat" where
  "get_root bt = bt_root bt"

partial_function (option) bt_destroy_root :: "nat \<Rightarrow> bool \<Rightarrow> 'a entries \<Rightarrow> ('a entries \<times> 'a option list) run" where
  "bt_destroy_root p d h =
     (if p = 0 then Some (h, [])
      else do {
        e \<leftarrow> load h p;
        a \<leftarrow> (if Bst_Entry.right e \<noteq> 0 then bt_destroy_root (Bst_Entry.right e) d h else Some (h, []));
        e1 \<leftarrow> load (fst a) p;
        b \<leftarrow> (if Bst_Entry.left e1 \<noteq> 0 then bt_destroy_root (Bst_Entry.left e1) d (fst a) else Some (fst a, []));
        e2 \<leftarrow> load (fst b) p;
        Some ((fst b)(p := None), snd a @ snd b @ (if d then [item e2] else [])) })"

definition destroy_bt :: "Bt option \<Rightarrow> bool \<Rightarrow> 'a entries \<Rightarrow> ('a entries \<times> 'a option list) run" where
  "destroy_bt bt d h = do { b \<leftarrow> bt; bt_destroy_root (bt_root b) d h }"

section \<open>Traversals\<close>

text \<open>The items that are shown. A child is visited when there is one, so that only an empty tree reports that it is.\<close>

partial_function (option) bt_pre_order :: "nat \<Rightarrow> 'a entries \<Rightarrow> 'a option list run" where
  "bt_pre_order p h =
     (if p = 0 then Some []
      else do {
        e \<leftarrow> load h p;
        xs \<leftarrow> (if Bst_Entry.left e \<noteq> 0 then bt_pre_order (Bst_Entry.left e) h else Some []);
        ys \<leftarrow> (if Bst_Entry.right e \<noteq> 0 then bt_pre_order (Bst_Entry.right e) h else Some []);
        Some (item e # xs @ ys) })"

partial_function (option) bt_in_order :: "nat \<Rightarrow> 'a entries \<Rightarrow> 'a option list run" where
  "bt_in_order p h =
     (if p = 0 then Some []
      else do {
        e \<leftarrow> load h p;
        xs \<leftarrow> (if Bst_Entry.left e \<noteq> 0 then bt_in_order (Bst_Entry.left e) h else Some []);
        ys \<leftarrow> (if Bst_Entry.right e \<noteq> 0 then bt_in_order (Bst_Entry.right e) h else Some []);
        Some (xs @ item e # ys) })"

partial_function (option) bt_post_order :: "nat \<Rightarrow> 'a entries \<Rightarrow> 'a option list run" where
  "bt_post_order p h =
     (if p = 0 then Some []
      else do {
        e \<leftarrow> load h p;
        xs \<leftarrow> (if Bst_Entry.left e \<noteq> 0 then bt_post_order (Bst_Entry.left e) h else Some []);
        ys \<leftarrow> (if Bst_Entry.right e \<noteq> 0 then bt_post_order (Bst_Entry.right e) h else Some []);
        Some (xs @ ys @ [item e]) })"

partial_function (option) calc_tree_depth :: "nat \<Rightarrow> 'a entries \<Rightarrow> int run" where
  "calc_tree_depth p h =
     (if p = 0 then Some 0
      else do {
        e \<leftarrow> load h p;
        ldepth \<leftarrow> calc_tree_depth (Bst_Entry.left e) h;
        rdepth \<leftarrow> calc_tree_depth (Bst_Entry.right e) h;
        Some (if rdepth < ldepth then ldepth + 1 else rdepth + 1) })"

text \<open>The items shown and the number of them.\<close>

partial_function (option) special_level_order :: "nat \<Rightarrow> int \<Rightarrow> 'a entries \<Rightarrow> (int \<times> 'a option list) run" where
  "special_level_order p level h =
     (if p = 0 \<or> level < 0 then Some (0, [])
      else do {
        e \<leftarrow> load h p;
        if level = 0 then Some (1, [item e])
        else do {
          a \<leftarrow> special_level_order (Bst_Entry.left e) (level - 1) h;
          b \<leftarrow> special_level_order (Bst_Entry.right e) (level - 1) h;
          Some (fst a + fst b, snd a @ snd b) } })"

fun show_levels :: "nat \<Rightarrow> nat list \<Rightarrow> 'a entries \<Rightarrow> 'a option list run" where
  "show_levels p [] h = Some []"
| "show_levels p (i # is) h = do { (_, xs) \<leftarrow> special_level_order p (int i) h; ys \<leftarrow> show_levels p is h; Some (xs @ ys) }"

definition level_order :: "nat \<Rightarrow> 'a entries \<Rightarrow> 'a option list run" where
  "level_order p h = do { depth \<leftarrow> calc_tree_depth p h; show_levels p [0..<nat depth] h }"

section \<open>Searching\<close>

partial_function (option) bt_get_entry :: "nat \<Rightarrow> 'a option \<Rightarrow> 'a item_compare_fn \<Rightarrow> 'a entries \<Rightarrow> nat run" where
  "bt_get_entry p x cmp h =
     (if p = 0 then Some 0
      else do {
        n \<leftarrow> load h p;
        if cmp (item n) x = 0 then Some p
        else do {
          a \<leftarrow> (if Bst_Entry.left n \<noteq> 0 then bt_get_entry (Bst_Entry.left n) x cmp h else Some 0);
          if a \<noteq> 0 then Some a
          else if Bst_Entry.right n \<noteq> 0 then bt_get_entry (Bst_Entry.right n) x cmp h
          else Some 0 } })"

definition set_entry :: "nat \<Rightarrow> 'a option \<Rightarrow> 'a option \<Rightarrow> 'a item_compare_fn \<Rightarrow> 'a entries \<Rightarrow> (int \<times> 'a entries) run" where
  "set_entry p old_item new_item cmp h =
     do { a \<leftarrow> bt_get_entry p old_item cmp h;
          if a \<noteq> 0 then do { e \<leftarrow> load h a; Some (1, h(a \<mapsto> e\<lparr>item := new_item\<rparr>)) } else Some (0, h) }"

partial_function (option) get_parent :: "nat \<Rightarrow> 'a option \<Rightarrow> 'a item_compare_fn \<Rightarrow> 'a entries \<Rightarrow> nat run" where
  "get_parent p x cmp h =
     (if p = 0 then Some 0
      else do {
        n \<leftarrow> load h p;
        if Bst_Entry.right n = 0 \<or> Bst_Entry.left n = 0 then Some 0
        else do {
          r \<leftarrow> load h (Bst_Entry.right n); l \<leftarrow> load h (Bst_Entry.left n);
          if cmp (item r) x = 0 \<or> cmp (item l) x = 0 then Some p
          else do {
            a \<leftarrow> get_parent (Bst_Entry.right n) x cmp h;
            if a \<noteq> 0 then Some a else get_parent (Bst_Entry.left n) x cmp h } } })"

partial_function (option) get_right :: "nat \<Rightarrow> 'a option \<Rightarrow> 'a item_compare_fn \<Rightarrow> 'a entries \<Rightarrow> nat run" where
  "get_right p x cmp h =
     (if p = 0 then Some 0
      else do {
        n \<leftarrow> load h p;
        if Bst_Entry.left n = 0 then get_right (Bst_Entry.right n) x cmp h
        else do {
          l \<leftarrow> load h (Bst_Entry.left n);
          if cmp (item l) x = 0 then Some (Bst_Entry.right n)
          else do {
            a \<leftarrow> get_right (Bst_Entry.right n) x cmp h;
            if a \<noteq> 0 then Some a else get_right (Bst_Entry.left n) x cmp h } } })"

partial_function (option) get_left :: "nat \<Rightarrow> 'a option \<Rightarrow> 'a item_compare_fn \<Rightarrow> 'a entries \<Rightarrow> nat run" where
  "get_left p x cmp h =
     (if p = 0 then Some 0
      else do {
        n \<leftarrow> load h p;
        if Bst_Entry.right n = 0 then get_left (Bst_Entry.left n) x cmp h
        else do {
          r \<leftarrow> load h (Bst_Entry.right n);
          if cmp (item r) x = 0 then Some (Bst_Entry.left n)
          else do {
            a \<leftarrow> get_left (Bst_Entry.right n) x cmp h;
            if a \<noteq> 0 then Some a else get_left (Bst_Entry.left n) x cmp h } } })"

section \<open>Levels\<close>

fun level_items :: "'a node_tree \<Rightarrow> nat \<Rightarrow> 'a option list" where
  "level_items Leaf i = []"
| "level_items (Node l n r) 0 = [snd n]"
| "level_items (Node l n r) (Suc i) = level_items l i @ level_items r i"

lemma calc_depth: "tree_at h p t \<Longrightarrow> calc_tree_depth p h = Some (int (height t))"
proof (induction t arbitrary: p)
  case Leaf
  then show ?case by (subst calc_tree_depth.simps) simp
next
  case (Node l n r p)
  obtain a y where n: "n = (a, y)" by (cases n)
  obtain lp rp where "p = a" "a \<noteq> 0" "h a = Some \<lparr>item = y, left = lp, right = rp\<rparr>" "tree_at h lp l" "tree_at h rp r"
    using Node.prems(1) by (auto simp: n)
  then show ?case using Node.IH by (subst calc_tree_depth.simps) (simp add: load_def max_def)
qed

lemma special_level: "tree_at h p t \<Longrightarrow> special_level_order p (int i) h = Some (int (length (level_items t i)), level_items t i)"
proof (induction t arbitrary: p i)
  case Leaf
  then show ?case by (subst special_level_order.simps) simp
next
  case (Node l n r p i)
  obtain a y where n: "n = (a, y)" by (cases n)
  obtain lp rp where "p = a" "a \<noteq> 0" "h a = Some \<lparr>item = y, left = lp, right = rp\<rparr>" "tree_at h lp l" "tree_at h rp r"
    using Node.prems(1) by (auto simp: n)
  then show ?case using Node.IH by (subst special_level_order.simps) (cases i; simp add: load_def n)
qed

lemma show_levels_items: "tree_at h p t \<Longrightarrow> show_levels p is h = Some (concat (map (level_items t) is))"
  by (induction "is") (simp_all add: special_level)

lemma level_items_high: "height t \<le> i \<Longrightarrow> level_items t i = []"
  by (induction t i rule: level_items.induct) auto

lemma sum_levels: "height t \<le> k \<Longrightarrow> mset (concat (map (level_items t) [0..<k])) = mset (items t)"
proof (induction t arbitrary: k)
  case Leaf
  have "concat (map (level_items Leaf) xs) = []" for xs by (induction xs) auto
  then show ?case by (simp add: items_def)
next
  case (Node l n r k)
  then obtain j where k: "k = Suc j" "height l \<le> j" "height r \<le> j" by (cases k) auto
  have "mset (concat (map (\<lambda>i. level_items l i @ level_items r i) xs)) = mset (concat (map (level_items l) xs)) + mset (concat (map (level_items r) xs))" for xs
    by (induction xs) auto
  moreover have "map (level_items (Node l n r)) [0..<Suc j] = [snd n] # map (\<lambda>i. level_items l i @ level_items r i) [0..<j]"
    unfolding upt_conv_Cons[OF zero_less_Suc] map_Suc_upt[symmetric] by (simp add: comp_def)
  ultimately show ?case using Node.IH(1)[OF k(2)] Node.IH(2)[OF k(3)] by (simp add: k(1) items_def del: upt_Suc)
qed

text \<open>The traversal by levels shows the levels of the tree from the root on, and every item exactly once.\<close>

theorem level_order_levels:
  assumes "tree_at h p t"
  shows "level_order p h = Some (concat (map (level_items t) [0..<height t])) \<and>
    mset (concat (map (level_items t) [0..<height t])) = mset (items t)"
  using calc_depth[OF assms] show_levels_items[OF assms] sum_levels[OF order_refl] by (simp add: level_order_def)

theorem level_order_levels_witness:
  "level_order 1 sample_mem = Some [Some 5, Some 2, Some 8, Some 3]"
  using level_order_levels[of sample_mem 1 sample_tree] sample_holds
  by (simp add: holds_def) (simp add: sample_def sample_tree_def numeral_3_eq_3 numeral_2_eq_2)

text \<open>The father of an entry is not found below an entry with one child: in such a tree of two entries there is none.\<close>

theorem get_parent_needs_both:
  assumes "h p = Some \<lparr>item = x, left = q, right = 0\<rparr>" and "p \<noteq> 0"
  shows "get_parent p y cmp h = Some 0"
  using assms by (subst get_parent.simps) (simp add: load_def)

theorem get_parent_needs_both_witness:
  "get_parent 1 (Some (3::int)) number_comp [1 \<mapsto> \<lparr>item = Some 4, left = 2, right = 0\<rparr>, 2 \<mapsto> \<lparr>item = Some 3, left = 0, right = 0\<rparr>] = Some 0"
  by (rule get_parent_needs_both[where q = 2 and x = "Some 4"]) simp_all

end
