(* ===== verification/Heap_Array.thy ===== *)
theory Heap_Array
  imports Compare "HOL-Library.Multiset"
begin

text \<open>
  \<^verbatim>\<open>DataStructure/BinaryTree/bh/bh.c\<close>: a binary heap in an array, greatest item first, with the invariant of its
  order and its operations as those of a multiset. Sizes are natural numbers; they stay below \<open>2\<^sup>3\<^sup>1\<close> as long as
  memory lasts. Debug output is left out.
\<close>

section \<open>The heap\<close>

text \<open>Cell 0 of the array is never used. \<open>junk n\<close> is what \<open>n\<close> new cells hold.\<close>

record 'a Bh =
  heap :: "'a list"
  heap_height :: nat
  heap_end :: nat
  heap_length :: nat
  bh_dtr :: bool

definition PARENT :: "nat \<Rightarrow> nat" where "PARENT x = x div 2"
definition LEVELSIZE :: "nat \<Rightarrow> nat" where "LEVELSIZE x = 2 ^ x"
definition LEFTCHILD :: "nat \<Rightarrow> nat" where "LEFTCHILD x = x * 2"

definition bh_count :: "'a Bh \<Rightarrow> nat" where "bh_count h = heap_end h"
definition bh_size :: "'a Bh \<Rightarrow> nat" where "bh_size h = heap_length h"

definition cell :: "'a list \<Rightarrow> nat \<Rightarrow> 'a run" where
  "cell a i = (if i < length a then Some (a ! i) else None)"

definition set_cell :: "'a list \<Rightarrow> nat \<Rightarrow> 'a \<Rightarrow> 'a list run" where
  "set_cell a i x = (if i < length a then Some (a[i := x]) else None)"

definition swap_cells :: "'a list \<Rightarrow> nat \<Rightarrow> nat \<Rightarrow> 'a list run" where
  "swap_cells a i j = do { c \<leftarrow> cell a i; y \<leftarrow> cell a j; b \<leftarrow> set_cell a i y; set_cell b j c }"

lemma LEVELSIZE_pos: "0 < LEVELSIZE height"
  by (simp add: LEVELSIZE_def)

text \<open>As many full levels as fit; the second component is the number of levels.\<close>

function full_levels :: "int \<Rightarrow> nat \<Rightarrow> nat \<Rightarrow> nat \<times> nat" where
  "full_levels initial_size len height =
     (if int (len + LEVELSIZE height) \<le> initial_size then full_levels initial_size (len + LEVELSIZE height) (Suc height)
      else (len, height))"
  by pat_completeness auto
termination
proof (relation "measure (\<lambda>(s, l, h). nat (s - int l))", goal_cases)
  case (2 s l h)
  then show ?case using LEVELSIZE_pos[of h] by simp
qed simp

declare full_levels.simps [simp del]

definition bh_create :: "(nat \<Rightarrow> 'a list) \<Rightarrow> int \<Rightarrow> bool \<Rightarrow> 'a Bh option" where
  "bh_create junk initial_size d =
     (if initial_size \<le> 0 then None
      else case full_levels initial_size 0 0 of (len, height) \<Rightarrow>
        Some \<lparr>heap = junk len, heap_height = height - 1, heap_end = 0, heap_length = len, bh_dtr = d\<rparr>)"

text \<open>Destroying reads the heap to print it before it looks whether there is one.\<close>

definition bh_destroy :: "('a \<Rightarrow> bool) \<Rightarrow> 'a Bh option \<Rightarrow> 'a list run" where
  "bh_destroy null h =
     do { r \<leftarrow> h;
          if bh_dtr r then
            (if heap_end r < length (heap r) then Some (filter (\<lambda>x. \<not> null x) (map ((!) (heap r)) [1..<heap_end r + 1])) else None)
          else Some [] }"

definition heap_resize :: "(nat \<Rightarrow> bool) \<Rightarrow> (nat \<Rightarrow> 'a list) \<Rightarrow> 'a Bh \<Rightarrow> int \<times> 'a Bh" where
  "heap_resize mem junk h =
     (if heap_end h + 1 \<ge> heap_length h then
        let new_length = heap_length h + LEVELSIZE (heap_height h + 1) in
        if mem new_length then
          (0, h\<lparr>heap := heap h @ junk (new_length - heap_length h), heap_height := heap_height h + 1, heap_length := new_length\<rparr>)
        else (- 1, h)
      else (0, h))"

function siftup :: "'a cp_compare_fn \<Rightarrow> nat \<Rightarrow> 'a list \<Rightarrow> 'a list run" where
  "siftup cmp c a =
     (if c = 0 then None
      else if c = 1 then Some a
      else do {
        x \<leftarrow> cell a (PARENT c); y \<leftarrow> cell a c;
        if cmp x y \<le> 0 then do { b \<leftarrow> swap_cells a (PARENT c) c; siftup cmp (PARENT c) b }
        else Some a })"
  by pat_completeness auto
termination by (relation "measure (\<lambda>(cmp, c, a). c)") (auto simp: PARENT_def)

declare siftup.simps [simp del]

definition bh_push :: "(nat \<Rightarrow> bool) \<Rightarrow> (nat \<Rightarrow> 'a list) \<Rightarrow> 'a cp_compare_fn \<Rightarrow> 'a Bh \<Rightarrow> 'a \<Rightarrow> (int \<times> 'a Bh) run" where
  "bh_push mem junk cmp h x =
     (case heap_resize mem junk h of (rc, h1) \<Rightarrow>
        if rc \<noteq> 0 then Some (rc, h1)
        else do {
          a \<leftarrow> set_cell (heap h1) (heap_end h1 + 1) x;
          b \<leftarrow> siftup cmp (heap_end h1 + 1) a;
          Some (0, h1\<lparr>heap := b, heap_end := heap_end h1 + 1\<rparr>) })"

text \<open>The loop swaps with the greater child; a last child without a sibling is looked at behind the loop.\<close>

function siftdown :: "'a cp_compare_fn \<Rightarrow> nat \<Rightarrow> nat \<Rightarrow> 'a list \<Rightarrow> 'a list run" where
  "siftdown cmp fin p a =
     (let c = LEFTCHILD p in
      if p \<noteq> 0 \<and> c < fin then do {
        x \<leftarrow> cell a c; y \<leftarrow> cell a (c + 1);
        let k = (if cmp x y \<le> 0 then c + 1 else c);
        u \<leftarrow> cell a p; v \<leftarrow> cell a k;
        if cmp u v \<le> 0 then do { b \<leftarrow> swap_cells a p k; siftdown cmp fin k b }
        else Some a }
      else if c = fin then do {
        u \<leftarrow> cell a p; v \<leftarrow> cell a c;
        if cmp u v \<le> 0 then swap_cells a p c else Some a }
      else Some a)"
  by pat_completeness auto
termination by (relation "measure (\<lambda>(cmp, fin, p, a). fin + 1 - p)") (auto simp: LEFTCHILD_def)

declare siftdown.simps [simp del]

text \<open>The item that is returned has been handed to the destroy function before, when there is one.\<close>

definition bh_pop :: "'a cp_compare_fn \<Rightarrow> 'a Bh option \<Rightarrow> ('a option \<times> 'a Bh option \<times> 'a list) run" where
  "bh_pop cmp h =
     (case h of None \<Rightarrow> Some (None, None, [])
      | Some r \<Rightarrow>
          if heap_end r \<ge> 1 then do {
            x \<leftarrow> cell (heap r) 1;
            y \<leftarrow> cell (heap r) (heap_end r);
            a \<leftarrow> set_cell (heap r) 1 y;
            b \<leftarrow> siftdown cmp (heap_end r - 1) 1 a;
            Some (Some x, Some (r\<lparr>heap := b, heap_end := heap_end r - 1\<rparr>), if bh_dtr r then [x] else []) }
          else Some (None, h, []))"

definition bh_peek :: "'a Bh option \<Rightarrow> 'a option run" where
  "bh_peek h =
     (case h of None \<Rightarrow> Some None
      | Some r \<Rightarrow> if heap_end r \<ge> 1 then do { x \<leftarrow> cell (heap r) 1; Some (Some x) } else Some None)"

text \<open>The path from one cell to the root as long as parents are strictly less, or strictly greater.\<close>

definition MIN_HEAP :: int where "MIN_HEAP = 0"
definition MAX_HEAP :: int where "MAX_HEAP = 1"

function verify_path :: "'a cp_compare_fn \<Rightarrow> int \<Rightarrow> 'a list \<Rightarrow> nat \<Rightarrow> bool run" where
  "verify_path cmp typ a c =
     (if c = 0 then None
      else if c = 1 then Some True
      else do {
        x \<leftarrow> cell a (PARENT c); y \<leftarrow> cell a c;
        if (if typ = MIN_HEAP then cmp x y < 0 else 0 < cmp x y) then verify_path cmp typ a (PARENT c) else Some False })"
  by pat_completeness auto
termination by (relation "measure (\<lambda>(cmp, typ, a, c). c)") (auto simp: PARENT_def)

declare verify_path.simps [simp del]

fun verify_all :: "'a cp_compare_fn \<Rightarrow> int \<Rightarrow> 'a list \<Rightarrow> nat list \<Rightarrow> bool run" where
  "verify_all cmp typ a [] = Some True"
| "verify_all cmp typ a (i # is) = do { ok \<leftarrow> verify_path cmp typ a i; if ok then verify_all cmp typ a is else Some False }"

definition bh_verify :: "'a cp_compare_fn \<Rightarrow> 'a Bh option \<Rightarrow> int \<Rightarrow> bool run" where
  "bh_verify cmp h typ =
     (case h of None \<Rightarrow> Some True
      | Some r \<Rightarrow>
          if heap_end r < 1 then Some True
          else verify_all cmp typ (heap r) (rev [PARENT (heap_end r) + 1..<heap_end r + 1]))"

definition bh_callback :: "'a Bh option \<Rightarrow> 'a list run" where
  "bh_callback h =
     (case h of None \<Rightarrow> Some []
      | Some r \<Rightarrow> if heap_end r < length (heap r) then Some (map ((!) (heap r)) [1..<heap_end r + 1]) else None)"

section \<open>Order and contents\<close>

definition is_heap :: "'a cp_compare_fn \<Rightarrow> 'a list \<Rightarrow> nat \<Rightarrow> bool" where
  "is_heap cmp a n \<longleftrightarrow> (\<forall>i. 2 \<le> i \<and> i \<le> n \<longrightarrow> cmp (a ! i) (a ! (i div 2)) \<le> 0)"

definition elems :: "'a list \<Rightarrow> nat \<Rightarrow> 'a multiset" where
  "elems a n = mset (take n (drop 1 a))"

definition wf_bh :: "'a cp_compare_fn \<Rightarrow> 'a Bh \<Rightarrow> bool" where
  "wf_bh cmp h \<longleftrightarrow> length (heap h) = heap_length h \<and> heap_end h < heap_length h \<and> is_heap cmp (heap h) (heap_end h)"

definition contents :: "'a Bh \<Rightarrow> 'a multiset" where
  "contents h = elems (heap h) (heap_end h)"

definition exchanged :: "'a list \<Rightarrow> nat \<Rightarrow> nat \<Rightarrow> 'a list" where
  "exchanged a i j = a[i := a ! j, j := a ! i]"

lemma cell_Some [simp]: "i < length a \<Longrightarrow> cell a i = Some (a ! i)"
  by (simp add: cell_def)

lemma swap_cells_Some [simp]: "i < length a \<Longrightarrow> j < length a \<Longrightarrow> swap_cells a i j = Some (exchanged a i j)"
  by (simp add: swap_cells_def set_cell_def exchanged_def)

lemma length_exchanged [simp]: "length (exchanged a i j) = length a"
  by (simp add: exchanged_def)

lemma nth_exchanged: "i < length a \<Longrightarrow> j < length a \<Longrightarrow> exchanged a i j ! k = (if k = j then a ! i else if k = i then a ! j else a ! k)"
  by (simp add: exchanged_def nth_list_update)

lemma mset_exchanged: "i < length a \<Longrightarrow> j < length a \<Longrightarrow> mset (exchanged a i j) = mset a"
  using mset_swap[of i a j] by (cases "i = j") (simp_all add: exchanged_def list_update_swap)

lemma elems_exchanged:
  assumes "1 \<le> i" and "i \<le> n" and "1 \<le> j" and "j \<le> n" and "n < length a"
  shows "elems (exchanged a i j) n = elems a n"
proof -
  have split: "mset xs = mset (take 1 xs) + elems xs n + mset (drop (Suc n) xs)" for xs :: "'a list"
  proof -
    have "mset (take n (drop 1 xs)) + mset (drop (Suc n) xs) = mset (drop 1 xs)"
      using arg_cong[OF append_take_drop_id[of n "drop 1 xs"], of mset] by (simp add: drop_drop)
    moreover have "mset (take 1 xs) + mset (drop 1 xs) = mset xs" by (metis append_take_drop_id mset_append)
    ultimately show ?thesis by (metis elems_def add.assoc)
  qed
  have "take 1 (exchanged a i j) = take 1 a" "drop (Suc n) (exchanged a i j) = drop (Suc n) a"
    using assms by (simp_all add: exchanged_def)
  then show ?thesis using split[of a] split[of "exchanged a i j"] mset_exchanged[of i a j] assms by simp
qed

section \<open>Moving up\<close>

text \<open>In order except between cell \<open>c\<close> and its parent, and the children of \<open>c\<close> are in order with that parent.\<close>

definition heap_but_up :: "'a cp_compare_fn \<Rightarrow> 'a list \<Rightarrow> nat \<Rightarrow> nat \<Rightarrow> bool" where
  "heap_but_up cmp a n c \<longleftrightarrow> (\<forall>i. 2 \<le> i \<and> i \<le> n \<and> i \<noteq> c \<longrightarrow> cmp (a ! i) (a ! (i div 2)) \<le> 0) \<and>
     (\<forall>i. 2 \<le> i \<and> i \<le> n \<and> i div 2 = c \<and> 2 \<le> c \<longrightarrow> cmp (a ! i) (a ! (c div 2)) \<le> 0)"

lemma siftup_spec:
  assumes "consistent cmp"
  shows "heap_but_up cmp a n c \<Longrightarrow> 1 \<le> c \<Longrightarrow> c \<le> n \<Longrightarrow> n < length a
    \<Longrightarrow> \<exists>b. siftup cmp c a = Some b \<and> length b = length a \<and> elems b n = elems a n \<and> is_heap cmp b n"
proof (induction c arbitrary: a rule: less_induct)
  case (less c)
  show ?case
  proof (cases "c = 1")
    case True
    then show ?thesis using less.prems by (subst siftup.simps) (auto simp: is_heap_def heap_but_up_def)
  next
    case False
    then have c: "2 \<le> c" "c div 2 < c" "1 \<le> c div 2" "c div 2 \<le> n" using less.prems(2,3) by auto
    note ord = less.prems(1)[unfolded heap_but_up_def]
    show ?thesis
    proof (cases "cmp (a ! (c div 2)) (a ! c) \<le> 0")
      case True
      let ?b = "exchanged a (c div 2) c"
      have at: "?b ! k = (if k = c then a ! (c div 2) else if k = c div 2 then a ! c else a ! k)" for k
        using nth_exchanged[of "c div 2" a c k] c less.prems by simp
      have "heap_but_up cmp ?b n (c div 2)"
        unfolding heap_but_up_def
      proof (intro conjI allI impI; elim conjE)
        fix i assume i: "2 \<le> i" "i \<le> n" "i \<noteq> c div 2"
        consider "i = c" | "i \<noteq> c" "i div 2 = c" | "i \<noteq> c" "i div 2 = c div 2" | "i \<noteq> c" "i div 2 \<noteq> c" "i div 2 \<noteq> c div 2" by blast
        then show "cmp (?b ! i) (?b ! (i div 2)) \<le> 0"
        proof cases
          case 1
          then show ?thesis using True c by (auto simp: at)
        next
          case 2
          then show ?thesis using ord i c by (auto simp: at)
        next
          case 3
          then have "cmp (a ! i) (a ! (c div 2)) \<le> 0" using ord i by (metis)
          then show ?thesis using consistentD(2)[OF assms _ True] 3 i c by (simp add: at)
        next
          case 4
          then show ?thesis using ord i by (simp add: at)
        qed
      next
        fix i assume i: "2 \<le> i" "i \<le> n" "i div 2 = c div 2" "2 \<le> c div 2"
        have p: "cmp (a ! (c div 2)) (a ! (c div 2 div 2)) \<le> 0" using ord i(4) c by auto
        have "c div 2 div 2 \<noteq> c" "c div 2 div 2 \<noteq> c div 2" using i(4) c by auto
        moreover have "i \<noteq> c div 2" using i(1,3) by auto
        moreover have "i \<noteq> c \<Longrightarrow> cmp (a ! i) (a ! (c div 2)) \<le> 0" using ord i by metis
        ultimately show "cmp (?b ! i) (?b ! (c div 2 div 2)) \<le> 0"
          using p consistentD(2)[OF assms _ p] by (auto simp: at)
      qed
      from less.IH[OF c(2) this c(3,4)] less.prems(4) obtain d where
        "siftup cmp (c div 2) ?b = Some d" "length d = length a" "elems d n = elems ?b n" "is_heap cmp d n" by auto
      then show ?thesis
        using True c less.prems elems_exchanged[of "c div 2" n c a] False by (subst siftup.simps) (simp add: PARENT_def)
    next
      case n: False
      then have "cmp (a ! c) (a ! (c div 2)) \<le> 0" using consistentD(1)[OF assms, of "a ! (c div 2)" "a ! c"] by simp
      then have "is_heap cmp a n" using ord unfolding is_heap_def by metis
      then show ?thesis using n c less.prems False by (subst siftup.simps) (simp add: PARENT_def)
    qed
  qed
qed

section \<open>Moving down\<close>

definition heap_but_down :: "'a cp_compare_fn \<Rightarrow> 'a list \<Rightarrow> nat \<Rightarrow> nat \<Rightarrow> bool" where
  "heap_but_down cmp a n p \<longleftrightarrow> (\<forall>i. 2 \<le> i \<and> i \<le> n \<and> i div 2 \<noteq> p \<longrightarrow> cmp (a ! i) (a ! (i div 2)) \<le> 0) \<and>
     (\<forall>i. 2 \<le> i \<and> i \<le> n \<and> i div 2 = p \<and> 2 \<le> p \<longrightarrow> cmp (a ! i) (a ! (p div 2)) \<le> 0)"

lemma child_cases: "i div 2 = p \<longleftrightarrow> i = p * 2 \<or> i = p * 2 + (1::nat)"
  by auto

text \<open>Swapping with a child \<open>k\<close> that is not less than its sibling moves the gap down to \<open>k\<close>.\<close>

lemma gap_moves:
  assumes "consistent cmp" and "heap_but_down cmp a n p" and "1 \<le> p" and "k div 2 = p" and "k \<le> n" and "n < length a"
    and "\<And>i. i div 2 = p \<Longrightarrow> i \<le> n \<Longrightarrow> cmp (a ! i) (a ! k) \<le> 0" and "cmp (a ! p) (a ! k) \<le> 0"
  shows "heap_but_down cmp (exchanged a p k) n k"
proof -
  let ?b = "exchanged a p k"
  have k: "p < k" "2 \<le> k" using assms(3,4) by auto
  have at: "?b ! j = (if j = k then a ! p else if j = p then a ! k else a ! j)" for j
    using nth_exchanged[of p a k j] k assms(5,6) by simp
  note ord = assms(2)[unfolded heap_but_down_def]
  show ?thesis
    unfolding heap_but_down_def
  proof (intro conjI allI impI; elim conjE)
    fix i assume i: "2 \<le> i" "i \<le> n" "i div 2 \<noteq> k"
    consider "i = k" | "i \<noteq> k" "i div 2 = p" | "i = p" | "i \<noteq> k" "i \<noteq> p" "i div 2 \<noteq> p" by blast
    then show "cmp (?b ! i) (?b ! (i div 2)) \<le> 0"
    proof cases
      case 1
      then show ?thesis using assms(4,8) k by (simp add: at)
    next
      case 2
      then show ?thesis using assms(7)[of i] i k by (auto simp: at)
    next
      case 3
      then have "cmp (a ! k) (a ! (p div 2)) \<le> 0" using ord i assms(4,5) k by auto
      moreover have "p div 2 \<noteq> p" using 3 i by simp
      ultimately show ?thesis using 3 i k by (simp add: at)
    next
      case 4
      then show ?thesis using ord i by (auto simp: at)
    qed
  next
    fix i assume i: "2 \<le> i" "i \<le> n" "i div 2 = k" "2 \<le> k"
    then have "cmp (a ! i) (a ! k) \<le> 0" using ord k by auto
    moreover have "i \<noteq> k" "i \<noteq> p" using i(3) k by auto
    ultimately show "cmp (?b ! i) (?b ! (k div 2)) \<le> 0" using assms(4) k by (simp add: at)
  qed
qed

lemma heap_but_down_leaf: "heap_but_down cmp a n p \<Longrightarrow> n < p * 2 \<Longrightarrow> is_heap cmp a n"
  unfolding heap_but_down_def is_heap_def by auto

lemma heap_but_down_done:
  "heap_but_down cmp a n p \<Longrightarrow> (\<And>i. i div 2 = p \<Longrightarrow> i \<le> n \<Longrightarrow> cmp (a ! i) (a ! p) \<le> 0) \<Longrightarrow> is_heap cmp a n"
  unfolding heap_but_down_def is_heap_def by blast

lemma siftdown_spec:
  assumes "consistent cmp"
  shows "heap_but_down cmp a n p \<Longrightarrow> 1 \<le> p \<Longrightarrow> n < length a
    \<Longrightarrow> \<exists>b. siftdown cmp n p a = Some b \<and> length b = length a \<and> elems b n = elems a n \<and> is_heap cmp b n"
proof (induction "n + 1 - p" arbitrary: a p rule: less_induct)
  case less
  have rev: "\<not> cmp x y \<le> 0 \<Longrightarrow> cmp y x \<le> 0" for x y using consistentD(1)[OF assms, of x y] by auto
  have refl: "cmp x x \<le> 0" for x using consistent_refl[OF assms, of x] by simp
  consider "p * 2 < n" | "p * 2 = n" | "n < p * 2" by linarith
  then show ?case
  proof cases
    case 1
    let ?k = "if cmp (a ! (p * 2)) (a ! (p * 2 + 1)) \<le> 0 then p * 2 + 1 else p * 2"
    have k: "?k div 2 = p" "?k \<le> n" "p < ?k" "p \<le> n" using 1 less.prems(2) by auto
    have max: "cmp (a ! i) (a ! ?k) \<le> 0" if "i div 2 = p" for i
      using that rev[of "a ! (p * 2)" "a ! (p * 2 + 1)"] refl unfolding child_cases by auto
    show ?thesis
    proof (cases "cmp (a ! p) (a ! ?k) \<le> 0")
      case True
      let ?b = "exchanged a p ?k"
      have "n + 1 - ?k < n + 1 - p" using k by linarith
      from less.hyps[OF this gap_moves[OF assms less.prems(1,2) k(1,2) less.prems(3) max True]] k less.prems(2,3) obtain d where
        d: "siftdown cmp n ?k ?b = Some d" "length d = length a" "elems d n = elems ?b n" "is_heap cmp d n" by auto
      have "elems ?b n = elems a n" using elems_exchanged[of p n ?k a] k less.prems by simp
      then show ?thesis using d True 1 k less.prems by (subst siftdown.simps) (simp add: LEFTCHILD_def Let_def split del: if_split)
    next
      case False
      then have "is_heap cmp a n"
        using heap_but_down_done[OF less.prems(1)] consistentD(2)[OF assms max rev] by blast
      then show ?thesis using False 1 k less.prems by (subst siftdown.simps) (simp add: LEFTCHILD_def Let_def split del: if_split)
    qed
  next
    case 2
    then have k: "n div 2 = p" "p < n" using less.prems(2) by auto
    have only: "i = n" if "i div 2 = p" "i \<le> n" for i using that 2 unfolding child_cases by auto
    show ?thesis
    proof (cases "cmp (a ! p) (a ! n) \<le> 0")
      case True
      have "heap_but_down cmp (exchanged a p n) n n"
        by (rule gap_moves[OF assms less.prems(1,2) k(1) order_refl less.prems(3) _ True]) (use only refl in auto)
      then have "is_heap cmp (exchanged a p n) n" using heap_but_down_leaf k less.prems(2) by fastforce
      moreover have "elems (exchanged a p n) n = elems a n" using elems_exchanged[of p n n a] k less.prems by simp
      ultimately show ?thesis using True 2 k less.prems by (subst siftdown.simps) (simp add: LEFTCHILD_def Let_def)
    next
      case False
      then have "is_heap cmp a n" using heap_but_down_done[OF less.prems(1)] only rev by blast
      then show ?thesis using False 2 k less.prems by (subst siftdown.simps) (simp add: LEFTCHILD_def Let_def)
    qed
  next
    case 3
    then show ?thesis using heap_but_down_leaf[OF less.prems(1)] by (subst siftdown.simps) (simp add: LEFTCHILD_def Let_def)
  qed
qed

section \<open>Properties\<close>

text \<open>
  Pushing an item keeps the heap and adds the item, growing the array when it is full; it only fails when that
  is needed and there is no memory, and then nothing has changed.
\<close>

theorem bh_push_adds:
  assumes "consistent cmp" and "wf_bh cmp h" and "\<forall>n. length (junk n) = n"
  shows "if heap_length h \<le> heap_end h + 1 \<and> \<not> mem (heap_length h + LEVELSIZE (heap_height h + 1)) then bh_push mem junk cmp h x = Some (- 1, h)
    else \<exists>h'. bh_push mem junk cmp h x = Some (0, h') \<and> wf_bh cmp h' \<and> contents h' = add_mset x (contents h)"
proof (cases "heap_length h \<le> heap_end h + 1 \<and> \<not> mem (heap_length h + LEVELSIZE (heap_height h + 1))")
  case True
  then show ?thesis by (simp add: bh_push_def heap_resize_def Let_def)
next
  case False
  define h1 where "h1 = snd (heap_resize mem junk h)"
  have r: "heap_resize mem junk h = (0, h1)" using False by (auto simp: h1_def heap_resize_def Let_def)
  let ?n = "heap_end h"
  have w: "length (heap h) = heap_length h" "?n < heap_length h" "is_heap cmp (heap h) ?n" using assms(2) by (simp_all add: wf_bh_def)
  have lv: "2 \<le> LEVELSIZE (heap_height h + 1)" by (simp add: LEVELSIZE_def)
  have h1: "length (heap h1) = heap_length h1" "?n + 1 < heap_length h1" "heap_end h1 = ?n"
      "\<And>i. i \<le> ?n \<Longrightarrow> heap h1 ! i = heap h ! i" "take ?n (drop 1 (heap h1)) = take ?n (drop 1 (heap h))"
    using w lv assms(3) False by (auto simp: h1_def heap_resize_def Let_def nth_append)
  let ?a = "(heap h1)[?n + 1 := x]"
  have "heap_but_up cmp ?a (?n + 1) (?n + 1)"
    using w(3) h1(4) unfolding heap_but_up_def is_heap_def by (auto simp: nth_list_update)
  from siftup_spec[OF assms(1) this] h1(1,2) obtain b where
    b: "siftup cmp (?n + 1) ?a = Some b" "length b = heap_length h1" "elems b (?n + 1) = elems ?a (?n + 1)" "is_heap cmp b (?n + 1)" by auto
  have "drop 1 ?a = (drop 1 (heap h1))[?n := x]" by (simp add: drop_update_swap)
  then have "elems ?a (?n + 1) = add_mset x (contents h)"
    using h1(1,2,5) w(1,2) by (simp add: elems_def contents_def take_Suc_conv_app_nth)
  moreover have "bh_push mem junk cmp h x = Some (0, h1\<lparr>heap := b, heap_end := ?n + 1\<rparr>)"
    using r h1(1-3) b(1) by (simp add: bh_push_def set_cell_def)
  ultimately show ?thesis using False b(2-4) h1(2) by (simp add: wf_bh_def contents_def)
qed

lemma heap_top:
  assumes "consistent cmp" and "is_heap cmp a n"
  shows "1 \<le> i \<Longrightarrow> i \<le> n \<Longrightarrow> cmp (a ! i) (a ! 1) \<le> 0"
proof (induction i rule: less_induct)
  case (less i)
  show ?case
  proof (cases "i = 1")
    case True
    then show ?thesis using consistent_refl[OF assms(1)] by simp
  next
    case False
    then have "cmp (a ! i) (a ! (i div 2)) \<le> 0" using assms(2) less.prems unfolding is_heap_def by simp
    moreover have "cmp (a ! (i div 2)) (a ! 1) \<le> 0" using less.IH[of "i div 2"] less.prems False by simp
    ultimately show ?thesis using consistentD(2)[OF assms(1)] by blast
  qed
qed

text \<open>
  Popping takes a greatest item out of a heap that has one, and leaves a heap of the others. When there is a
  destroy function it has been applied to the very item that is returned.
\<close>

theorem bh_pop_greatest:
  assumes "consistent cmp" and "wf_bh cmp h"
  shows "if contents h = {#} then bh_pop cmp (Some h) = Some (None, Some h, [])
    else \<exists>x h'. bh_pop cmp (Some h) = Some (Some x, Some h', if bh_dtr h then [x] else []) \<and> wf_bh cmp h' \<and>
      contents h = add_mset x (contents h') \<and> (\<forall>y \<in># contents h. cmp y x \<le> 0)"
proof -
  let ?n = "heap_end h" and ?a = "heap h"
  have w: "length ?a = heap_length h" "?n < heap_length h" "is_heap cmp ?a ?n" using assms(2) by (simp_all add: wf_bh_def)
  have empty: "contents h = {#} \<longleftrightarrow> ?n = 0" using w(1,2) by (auto simp: contents_def elems_def)
  show ?thesis
  proof (cases "?n = 0")
    case True
    then show ?thesis using empty by (simp add: bh_pop_def)
  next
    case False
    let ?b = "?a[1 := ?a ! ?n]"
    have "heap_but_down cmp ?b (?n - 1) 1"
      using w(3) unfolding heap_but_down_def is_heap_def by (auto simp: nth_list_update)
    moreover have "?n - 1 < length ?b" using w(1,2) by simp
    ultimately obtain c where
      c: "siftdown cmp (?n - 1) 1 ?b = Some c" "length c = length ?a" "elems c (?n - 1) = elems ?b (?n - 1)" "is_heap cmp c (?n - 1)"
      using siftdown_spec[OF assms(1), of ?b "?n - 1" 1] by auto
    let ?h = "h\<lparr>heap := c, heap_end := ?n - 1\<rparr>"
    have "bh_pop cmp (Some h) = Some (Some (?a ! 1), Some ?h, if bh_dtr h then [?a ! 1] else [])"
      using False w(1,2) c(1) by (simp add: bh_pop_def set_cell_def)
    moreover have "wf_bh cmp ?h" using c(2,4) w(1,2) by (simp add: wf_bh_def)
    moreover have "contents h = add_mset (?a ! 1) (contents ?h)"
    proof -
      have "elems ?a ?n = add_mset (?a ! ?n) (elems ?a (?n - 1))"
        using False w(1,2) take_Suc_conv_app_nth[of "?n - 1" "drop 1 ?a"] by (simp add: elems_def)
      moreover have "add_mset (?a ! 1) (elems ?b (?n - 1)) = add_mset (?a ! ?n) (elems ?a (?n - 1))"
      proof (cases "?n = 1")
        case True
        then show ?thesis by (simp add: elems_def)
      next
        case n: False
        have "drop 1 ?a = ?a ! 1 # drop 2 ?a" "drop 1 ?b = ?a ! ?n # drop 2 ?a"
          using w(1,2) False n Cons_nth_drop_Suc[of 1 ?a] Cons_nth_drop_Suc[of 1 ?b] by (simp_all add: numeral_2_eq_2)
        moreover obtain m where "?n - 1 = Suc m" using False n by (cases "?n - 1") auto
        ultimately show ?thesis by (simp add: elems_def)
      qed
      ultimately show ?thesis using c(3) by (simp add: contents_def)
    qed
    moreover have "cmp y (?a ! 1) \<le> 0" if "y \<in># contents h" for y
    proof -
      have "y \<in> set (take ?n (drop 1 ?a))" using that by (simp add: contents_def elems_def)
      then obtain i where "i < length (take ?n (drop 1 ?a))" "take ?n (drop 1 ?a) ! i = y" unfolding in_set_conv_nth by blast
      then have "i < ?n" "y = ?a ! Suc i" by auto
      then show ?thesis using heap_top[OF assms(1) w(3), of "Suc i"] by simp
    qed
    ultimately show ?thesis using empty False by auto
  qed
qed

text \<open>The check of a heap takes every heap with two equal items, parent and last child, for broken.\<close>

theorem bh_verify_rejects_equal:
  assumes "consistent cmp" and "wf_bh cmp h" and "2 \<le> heap_end h" and "cmp (heap h ! heap_end h) (heap h ! (heap_end h div 2)) = 0"
  shows "bh_verify cmp (Some h) typ = Some False"
proof -
  let ?n = "heap_end h"
  have w: "length (heap h) = heap_length h" "?n < heap_length h" using assms(2) by (simp_all add: wf_bh_def)
  have "cmp (heap h ! (?n div 2)) (heap h ! ?n) = 0"
    using consistentD(1)[OF assms(1), of "heap h ! (?n div 2)" "heap h ! ?n"] consistentD(1)[OF assms(1), of "heap h ! ?n" "heap h ! (?n div 2)"] assms(4)
    by linarith
  then have "verify_path cmp typ (heap h) ?n = Some False"
    using w assms(3) by (subst verify_path.simps) (simp add: PARENT_def)
  moreover have "rev [PARENT ?n + 1..<?n + 1] = ?n # rev [PARENT ?n + 1..<?n]" using assms(3) by (simp add: PARENT_def)
  ultimately show ?thesis using assms(3) by (simp add: bh_verify_def del: upt_Suc)
qed

definition small_heap :: "int Bh" where
  "small_heap = \<lparr>heap = [0, 9, 4, 9], heap_height = 1, heap_end = 3, heap_length = 4, bh_dtr = True\<rparr>"

lemma small_heap_wf: "wf_bh (\<lambda>x y. x - y) small_heap"
proof -
  have "[0, 9, 4, 9] ! i \<le> [0, 9, 4, 9::int] ! (i div 2)" if "2 \<le> i" "i \<le> 3" for i :: nat
  proof -
    have "i = 2 \<or> i = 3" using that by auto
    then show ?thesis by auto
  qed
  then have "is_heap (\<lambda>x y. x - y) [0, 9, 4, 9::int] 3" unfolding is_heap_def by fastforce
  then show ?thesis by (simp add: wf_bh_def small_heap_def)
qed

lemma small_contents: "contents small_heap = {#9, 4, 9#}"
  by (simp add: contents_def elems_def small_heap_def numeral_3_eq_3)

lemma small_dtr: "bh_dtr small_heap"
  by (simp add: small_heap_def)

theorem bh_push_adds_witness:
  "\<exists>h'. bh_push (\<lambda>_. True) (\<lambda>n. replicate n 0) (\<lambda>x y. x - y) small_heap 7 = Some (0, h') \<and> contents h' = {#7, 9, 4, 9#}"
  using bh_push_adds[OF difference_consistent small_heap_wf, of "\<lambda>n. replicate n 0" "\<lambda>_. True" 7] by (auto simp: small_contents)

theorem bh_pop_greatest_witness:
  "\<exists>x h'. bh_pop (\<lambda>x y. x - y) (Some small_heap) = Some (Some x, Some h', [x]) \<and> {#9, 4, 9#} = add_mset x (contents h') \<and> 9 \<le> x"
  using bh_pop_greatest[OF difference_consistent small_heap_wf] by (auto simp: small_contents small_dtr)

theorem bh_verify_rejects_equal_witness:
  "bh_verify (\<lambda>x y. x - y) (Some small_heap) MAX_HEAP = Some False"
  using bh_verify_rejects_equal[OF difference_consistent small_heap_wf, of MAX_HEAP] by (simp add: small_heap_def)

end
