(* ===== verification/Linked.thy ===== *)
theory Linked
  imports Prelude
begin

text \<open>
  \<^verbatim>\<open>DataStructure/list\<close>: the queue, the stack and the list of linked entries, and what they do to the
  sequence of their items. \<open>0\<close> is \<^verbatim>\<open>NULL\<close> among the entries, \<open>None\<close> among the items and objects.
  \<open>fresh\<close> is the block \<^verbatim>\<open>malloc\<close> returns for an entry, \<open>0\<close> when there is none.
\<close>

section \<open>Entries\<close>

record 'a entry =
  Entry_item :: "'a option"
  Entry_next :: nat

type_synonym 'a links = "nat \<rightharpoonup> 'a entry"

definition get_entry :: "'a links \<Rightarrow> nat \<Rightarrow> 'a entry run" where
  "get_entry h p = (if p = 0 then None else h p)"

definition set_next :: "nat \<Rightarrow> nat \<Rightarrow> 'a links \<Rightarrow> 'a links run" where
  "set_next p v h = do { e \<leftarrow> get_entry h p; Some (h(p \<mapsto> e\<lparr>Entry_next := v\<rparr>)) }"

definition new_entry :: "('a links \<Rightarrow> nat) \<Rightarrow> 'a option \<Rightarrow> 'a links \<Rightarrow> (nat \<times> 'a links) run" where
  "new_entry fresh x h = (if fresh h = 0 then None else Some (fresh h, h(fresh h \<mapsto> \<lparr>Entry_item = x, Entry_next = 0\<rparr>)))"

text \<open>
  The loop of \<^verbatim>\<open>destroy_queue\<close> and \<^verbatim>\<open>destroy_stack\<close>: after an entry has been freed, the one behind the next
  is read before the test whether there is a next one.
\<close>

partial_function (option) destroy_loop :: "nat \<Rightarrow> nat \<Rightarrow> bool \<Rightarrow> 'a links \<Rightarrow> 'a option list \<Rightarrow> ('a links \<times> 'a option list) run" where
  "destroy_loop prior head d h xs =
     do { e \<leftarrow> get_entry h prior;
          n \<leftarrow> get_entry (h(prior := None)) head;
          let ys = (if d then xs @ [Entry_item e] else xs);
          if head \<noteq> 0 then destroy_loop head (Entry_next n) d (h(prior := None)) ys
          else Some (h(prior := None), ys) }"

section \<open>Queues\<close>

record Queue =
  queue_cnt :: int
  front :: nat
  rear :: nat
  queue_dtr :: bool

definition create_queue :: "bool \<Rightarrow> Queue" where
  "create_queue d = \<lparr>queue_cnt = 0, front = 0, rear = 0, queue_dtr = d\<rparr>"

definition destroy_queue :: "Queue option \<Rightarrow> 'a links \<Rightarrow> ('a links \<times> 'a option list) run" where
  "destroy_queue q h =
     (case q of None \<Rightarrow> Some (h, [])
      | Some q \<Rightarrow> if front q = 0 then Some (h, [])
                  else do { e \<leftarrow> get_entry h (front q); destroy_loop (front q) (Entry_next e) (queue_dtr q) h [] })"

definition in_queue :: "('a links \<Rightarrow> nat) \<Rightarrow> Queue option \<Rightarrow> 'a option \<Rightarrow> 'a links \<Rightarrow> (int \<times> Queue option \<times> 'a links) run" where
  "in_queue fresh q x h =
     (case (q, x) of
        (Some q, Some _) \<Rightarrow> do {
          (entry, h1) \<leftarrow> new_entry fresh x h;
          if rear q = 0 then
            Some (queue_cnt q + 1, Some (q\<lparr>rear := entry, front := entry, queue_cnt := queue_cnt q + 1\<rparr>), h1)
          else do {
            h2 \<leftarrow> set_next (rear q) entry h1;
            Some (queue_cnt q + 1, Some (q\<lparr>rear := entry, queue_cnt := queue_cnt q + 1\<rparr>), h2) } }
      | _ \<Rightarrow> Some (- 1, q, h))"

definition out_queue :: "Queue option \<Rightarrow> 'a links \<Rightarrow> ('a option \<times> Queue option) run" where
  "out_queue q h =
     (case q of None \<Rightarrow> Some (None, None)
      | Some r \<Rightarrow>
          if front r = 0 then Some (None, q)
          else do { e \<leftarrow> get_entry h (front r);
                    Some (Entry_item e, Some (r\<lparr>front := Entry_next e, queue_cnt := queue_cnt r - 1\<rparr>)) })"

definition queue_count :: "Queue option \<Rightarrow> int" where
  "queue_count q = (case q of None \<Rightarrow> - 1 | Some q \<Rightarrow> queue_cnt q)"

text \<open>The items \<^verbatim>\<open>queue_show\<close>, \<^verbatim>\<open>stack_show\<close> and \<^verbatim>\<open>show_list\<close> go through.\<close>

partial_function (option) show_items :: "nat \<Rightarrow> 'a links \<Rightarrow> 'a option list run" where
  "show_items p h = (if p = 0 then Some [] else do { e \<leftarrow> get_entry h p; xs \<leftarrow> show_items (Entry_next e) h; Some (Entry_item e # xs) })"

section \<open>Stacks\<close>

record Stack =
  stack_cnt :: int
  stack_head :: nat
  stack_dtr :: bool

definition create_stack :: "bool \<Rightarrow> Stack" where
  "create_stack d = \<lparr>stack_cnt = 0, stack_head = 0, stack_dtr = d\<rparr>"

definition destroy_stack :: "Stack option \<Rightarrow> 'a links \<Rightarrow> ('a links \<times> 'a option list) run" where
  "destroy_stack s h =
     (case s of None \<Rightarrow> Some (h, [])
      | Some s \<Rightarrow> if stack_head s = 0 then Some (h, [])
                  else do { e \<leftarrow> get_entry h (stack_head s); destroy_loop (stack_head s) (Entry_next e) (stack_dtr s) h [] })"

definition stack_push :: "('a links \<Rightarrow> nat) \<Rightarrow> Stack option \<Rightarrow> 'a option \<Rightarrow> 'a links \<Rightarrow> (int \<times> Stack option \<times> 'a links) run" where
  "stack_push fresh s x h =
     (case (s, x) of
        (Some s, Some _) \<Rightarrow> do {
          (entry, h1) \<leftarrow> new_entry fresh x h;
          h2 \<leftarrow> (if stack_head s = 0 then Some h1 else set_next entry (stack_head s) h1);
          Some (stack_cnt s + 1, Some (s\<lparr>stack_head := entry, stack_cnt := stack_cnt s + 1\<rparr>), h2) }
      | _ \<Rightarrow> Some (- 1, s, h))"

definition stack_pop :: "Stack option \<Rightarrow> 'a links \<Rightarrow> ('a option \<times> Stack option) run" where
  "stack_pop s h =
     (case s of None \<Rightarrow> Some (None, None)
      | Some r \<Rightarrow>
          if stack_head r = 0 then Some (None, s)
          else do { e \<leftarrow> get_entry h (stack_head r);
                    Some (Entry_item e, Some (r\<lparr>stack_head := Entry_next e, stack_cnt := stack_cnt r - 1\<rparr>)) })"

definition stack_count :: "Stack option \<Rightarrow> int" where
  "stack_count s = (case s of None \<Rightarrow> - 1 | Some s \<Rightarrow> stack_cnt s)"

section \<open>Lists\<close>

record Slist =
  slist_cnt :: int
  slist_head :: nat

definition create_list :: Slist where
  "create_list = \<lparr>slist_cnt = 0, slist_head = 0\<rparr>"

partial_function (option) destroy_list_loop :: "nat \<Rightarrow> bool \<Rightarrow> 'a links \<Rightarrow> ('a links \<times> 'a option list) run" where
  "destroy_list_loop cur d h =
     (if cur = 0 then Some (h, [])
      else do { e \<leftarrow> get_entry h cur;
                r \<leftarrow> destroy_list_loop (Entry_next e) d (h(cur := None));
                Some (fst r, (if d then [Entry_item e] else []) @ snd r) })"

definition destroy_list :: "Slist option \<Rightarrow> bool \<Rightarrow> 'a links \<Rightarrow> ('a links \<times> 'a option list) run" where
  "destroy_list l d h = (case l of None \<Rightarrow> Some (h, []) | Some l \<Rightarrow> destroy_list_loop (slist_head l) d h)"

text \<open>The last entry and the one before it, which is the first one when there is no other.\<close>

partial_function (option) list_tail :: "nat \<Rightarrow> nat \<Rightarrow> 'a links \<Rightarrow> (nat \<times> nat) run" where
  "list_tail prior cur h = do { e \<leftarrow> get_entry h cur; if Entry_next e \<noteq> 0 then list_tail cur (Entry_next e) h else Some (prior, cur) }"

definition list_append :: "Slist option \<Rightarrow> nat \<Rightarrow> 'a links \<Rightarrow> (int \<times> Slist option \<times> 'a links) run" where
  "list_append l entry h =
     (case l of None \<Rightarrow> Some (- 1, l, h)
      | Some l \<Rightarrow>
          if slist_head l = 0 then Some (0, Some (l\<lparr>slist_head := entry, slist_cnt := slist_cnt l + 1\<rparr>), h)
          else do { (_, cur) \<leftarrow> list_tail (slist_head l) (slist_head l) h;
                    h1 \<leftarrow> set_next cur entry h;
                    Some (0, Some (l\<lparr>slist_cnt := slist_cnt l + 1\<rparr>), h1) })"

definition list_pop :: "Slist option \<Rightarrow> 'a links \<Rightarrow> (nat \<times> Slist option \<times> 'a links) run" where
  "list_pop l h =
     (case l of None \<Rightarrow> Some (0, l, h)
      | Some r \<Rightarrow>
          if slist_head r = 0 then Some (0, l, h)
          else do { (prior, cur) \<leftarrow> list_tail (slist_head r) (slist_head r) h;
                    h1 \<leftarrow> set_next prior 0 h;
                    Some (cur, Some (r\<lparr>slist_cnt := slist_cnt r - 1\<rparr>), h1) })"

section \<open>Sequences in memory\<close>

fun path_at :: "'a links \<Rightarrow> nat \<Rightarrow> (nat \<times> 'a option) list \<Rightarrow> bool" where
  "path_at h p [] \<longleftrightarrow> p = 0"
| "path_at h p ((a, x) # es) \<longleftrightarrow> p = a \<and> a \<noteq> 0 \<and> (\<exists>n. h a = Some \<lparr>Entry_item = x, Entry_next = n\<rparr> \<and> path_at h n es)"

lemma path_frame: "path_at h p es \<Longrightarrow> \<forall>a \<in> fst ` set es. h' a = h a \<Longrightarrow> path_at h' p es"
  by (induction h p es rule: path_at.induct) auto

lemma path_alloc: "path_at h p es \<Longrightarrow> a \<in> fst ` set es \<Longrightarrow> h a \<noteq> None"
  by (induction h p es rule: path_at.induct) auto

lemma path_zero: "path_at h p es \<Longrightarrow> p = 0 \<longleftrightarrow> es = []"
  by (cases "(h, p, es)" rule: path_at.cases) auto

lemma entry_appended:
  "path_at h p (es @ [(a, x)]) \<Longrightarrow> distinct (map fst (es @ [(a, x)])) \<Longrightarrow> b \<noteq> 0 \<Longrightarrow> b \<notin> fst ` set (es @ [(a, x)])
    \<Longrightarrow> path_at (h(b \<mapsto> \<lparr>Entry_item = y, Entry_next = 0\<rparr>, a \<mapsto> \<lparr>Entry_item = x, Entry_next = b\<rparr>)) p (es @ [(a, x), (b, y)])"
proof (induction es arbitrary: p)
  case Nil
  then show ?case by auto
next
  case (Cons e es)
  obtain c z where "e = (c, z)" by (cases e)
  then show ?case using Cons by auto
qed

lemma show_items_path: "path_at h p es \<Longrightarrow> show_items p h = Some (map snd es)"
proof (induction h p es rule: path_at.induct)
  case (1 h p)
  then show ?case by (subst show_items.simps) simp
next
  case (2 h p a x es)
  then show ?case by (subst show_items.simps) (auto simp: get_entry_def)
qed

lemma destroy_loop_undefined: "path_at h p es \<Longrightarrow> distinct (map fst ((b, y) # es)) \<Longrightarrow> destroy_loop b p d h xs = None"
proof (induction es arbitrary: h p b y xs)
  case Nil
  then show ?case by (subst destroy_loop.simps) (simp add: get_entry_def split: bind_splits)
next
  case (Cons e es)
  obtain a x where e: "e = (a, x)" by (cases e)
  obtain n where n: "p = a" "a \<noteq> 0" "h a = Some \<lparr>Entry_item = x, Entry_next = n\<rparr>" "path_at h n es" using Cons.prems(1) by (auto simp: e)
  have "path_at (h(b := None)) n es" by (rule path_frame[OF n(4)]) (use Cons.prems(2) in \<open>auto simp: e\<close>)
  then have "destroy_loop a n d (h(b := None)) zs = None" for zs using Cons.IH[of _ n a x] Cons.prems(2) by (simp add: e)
  then show ?case using n(1-3) by (subst destroy_loop.simps) (auto simp: Let_def get_entry_def split: bind_splits)
qed

section \<open>A queue holds its items\<close>

definition queue_holds :: "Queue \<Rightarrow> 'a links \<Rightarrow> (nat \<times> 'a option) list \<Rightarrow> bool" where
  "queue_holds q h es \<longleftrightarrow> path_at h (front q) es \<and> distinct (map fst es) \<and> queue_cnt q = int (length es) \<and>
     (rear q = (if es = [] then 0 else fst (last es)))"

text \<open>A queue whose last item was taken: its rear is still the entry of that item.\<close>

definition drained :: "Queue \<Rightarrow> 'a links \<Rightarrow> bool" where
  "drained q h \<longleftrightarrow> front q = 0 \<and> rear q \<noteq> 0 \<and> h (rear q) \<noteq> None \<and> finite (dom h)"

lemma in_queue_spec:
  assumes "queue_holds q h es" and "fresh h \<noteq> 0" and "h (fresh h) = None"
  shows "\<exists>q' h'. in_queue fresh (Some q) (Some x) h = Some (int (length es) + 1, Some q', h') \<and> queue_holds q' h' (es @ [(fresh h, Some x)])"
proof (cases es rule: rev_exhaust)
  case Nil
  then show ?thesis using assms by (simp add: in_queue_def new_entry_def queue_holds_def)
next
  case (snoc fs e)
  obtain a y where e: "e = (a, y)" by (cases e)
  have new: "fresh h \<notin> fst ` set es" using path_alloc[of h "front q" es "fresh h"] assms by (auto simp: queue_holds_def)
  have a: "a \<noteq> 0" "h a = Some \<lparr>Entry_item = y, Entry_next = 0\<rparr>"
  proof -
    have "path_at h p (fs @ [(a, y)]) \<Longrightarrow> a \<noteq> 0 \<and> h a = Some \<lparr>Entry_item = y, Entry_next = 0\<rparr>" for p
      by (induction fs arbitrary: p) auto
    then show "a \<noteq> 0" "h a = Some \<lparr>Entry_item = y, Entry_next = 0\<rparr>" using assms(1) by (auto simp: queue_holds_def snoc e)
  qed
  have r: "rear q = a" using assms(1) by (simp add: queue_holds_def snoc e)
  let ?h = "h(fresh h \<mapsto> \<lparr>Entry_item = Some x, Entry_next = 0\<rparr>, a \<mapsto> \<lparr>Entry_item = y, Entry_next = fresh h\<rparr>)"
  have "a \<noteq> fresh h" using new by (auto simp: snoc e)
  then have "in_queue fresh (Some q) (Some x) h = Some (queue_cnt q + 1, Some (q\<lparr>rear := fresh h, queue_cnt := queue_cnt q + 1\<rparr>), ?h)"
    using assms(2) a r by (simp add: in_queue_def new_entry_def set_next_def get_entry_def)
  moreover have "path_at ?h (front q) (fs @ [(a, y), (fresh h, Some x)])"
    using entry_appended[of h "front q" fs a y "fresh h" "Some x"] assms new by (simp add: queue_holds_def snoc e)
  ultimately show ?thesis using assms(1) new by (simp add: queue_holds_def snoc e)
qed

lemma out_queue_spec:
  assumes "queue_holds q h ((a, x) # es)" and "finite (dom h)"
  shows "\<exists>q'. out_queue (Some q) h = Some (x, Some q') \<and> (if es = [] then drained q' h else queue_holds q' h es)"
proof -
  obtain n where "front q = a" "a \<noteq> 0" "h a = Some \<lparr>Entry_item = x, Entry_next = n\<rparr>" "path_at h n es"
    using assms(1) by (auto simp: queue_holds_def)
  then show ?thesis using assms
    by (intro exI[of _ "q\<lparr>front := n, queue_cnt := queue_cnt q - 1\<rparr>"]) (auto simp: out_queue_def queue_holds_def drained_def get_entry_def)
qed

section \<open>Properties\<close>

text \<open>Putting several items into a queue; one whose last item was taken stays without a front.\<close>

fun put_all :: "('a links \<Rightarrow> nat) \<Rightarrow> Queue option \<Rightarrow> 'a list \<Rightarrow> 'a links \<Rightarrow> (Queue option \<times> 'a links) run" where
  "put_all fresh q [] h = Some (q, h)"
| "put_all fresh q (x # xs) h = do { (_, q1, h1) \<leftarrow> in_queue fresh q (Some x) h; put_all fresh q1 xs h1 }"

lemma drained_stays:
  assumes "\<forall>h. finite (dom h) \<longrightarrow> fresh h \<noteq> 0 \<and> h (fresh h) = None"
  shows "drained q h \<Longrightarrow> \<exists>q' h'. put_all fresh (Some q) xs h = Some (Some q', h') \<and> drained q' h' \<and> queue_cnt q' = queue_cnt q + int (length xs)"
proof (induction xs arbitrary: q h)
  case (Cons x xs)
  have f: "fresh h \<noteq> 0" "h (fresh h) = None" using assms Cons.prems by (auto simp: drained_def)
  then obtain e where e: "h (rear q) = Some e" "rear q \<noteq> fresh h" using Cons.prems by (cases "h (rear q)"; cases "rear q = fresh h") (auto simp: drained_def)
  let ?q = "q\<lparr>rear := fresh h, queue_cnt := queue_cnt q + 1\<rparr>"
  let ?h = "h(fresh h \<mapsto> \<lparr>Entry_item = Some x, Entry_next = 0\<rparr>, rear q \<mapsto> e\<lparr>Entry_next := fresh h\<rparr>)"
  have "in_queue fresh (Some q) (Some x) h = Some (queue_cnt q + 1, Some ?q, ?h)"
    using Cons.prems e f by (simp add: in_queue_def new_entry_def set_next_def get_entry_def drained_def)
  moreover have "drained ?q ?h" using Cons.prems f by (simp add: drained_def)
  from Cons.IH[OF this] obtain q' h' where "put_all fresh (Some ?q) xs ?h = Some (Some q', h')" "drained q' h'"
      "queue_cnt q' = queue_cnt ?q + int (length xs)" by blast
  ultimately show ?case by (intro exI[of _ q'] exI[of _ h']) (simp del: fun_upd_apply)
qed simp

text \<open>
  A queue that has been emptied is lost: from then on \<^verbatim>\<open>in_queue\<close> counts every item it is given, and
  \<^verbatim>\<open>out_queue\<close> never returns one.
\<close>

theorem queue_lost_when_drained:
  assumes "queue_holds q h [(a, x)]" and "finite (dom h)" and "\<forall>h. finite (dom h) \<longrightarrow> fresh h \<noteq> 0 \<and> h (fresh h) = None"
  shows "\<exists>q1 q2 h2. out_queue (Some q) h = Some (x, Some q1) \<and> put_all fresh (Some q1) xs h = Some (Some q2, h2) \<and>
    queue_count (Some q2) = int (length xs) \<and> out_queue (Some q2) h2 = Some (None, Some q2)"
proof -
  obtain q1 where q1: "out_queue (Some q) h = Some (x, Some q1)" "drained q1 h" using out_queue_spec[OF assms(1,2)] by auto
  have "queue_cnt q1 = 0" using q1(1) assms(1) by (auto simp: out_queue_def queue_holds_def get_entry_def)
  moreover obtain q2 h2 where "put_all fresh (Some q1) xs h = Some (Some q2, h2)" "drained q2 h2" "queue_cnt q2 = queue_cnt q1 + int (length xs)"
    using drained_stays[OF assms(3) q1(2), of xs] by blast
  ultimately show ?thesis using q1(1) by (intro exI[of _ q1] exI[of _ q2] exI[of _ h2]) (simp add: queue_count_def out_queue_def drained_def)
qed

text \<open>Destroying a queue or a stack that is not empty has no defined result: the loop reads through \<^verbatim>\<open>NULL\<close> behind the last entry.\<close>

theorem destroy_nonempty_undefined:
  assumes "path_at h p es" and "distinct (map fst es)" and "es \<noteq> []"
  shows "destroy_queue (Some \<lparr>queue_cnt = n, front = p, rear = r, queue_dtr = d\<rparr>) h = None \<and>
    destroy_stack (Some \<lparr>stack_cnt = n, stack_head = p, stack_dtr = d\<rparr>) h = None"
proof -
  obtain a x fs where es: "es = (a, x) # fs" using assms(3) by (cases es) auto
  obtain m where "p = a" "a \<noteq> 0" "h a = Some \<lparr>Entry_item = x, Entry_next = m\<rparr>" "path_at h m fs" using assms(1) by (auto simp: es)
  then show ?thesis using destroy_loop_undefined[of h m fs a x] assms(2) by (simp add: es destroy_queue_def destroy_stack_def get_entry_def)
qed

text \<open>Popping the only entry of a list leaves it in the list: the head still points to it, and every further pop returns it again.\<close>

theorem list_pop_keeps_last:
  assumes "path_at h (slist_head l) [(a, x)]"
  shows "list_pop (Some l) h = Some (a, Some (l\<lparr>slist_cnt := slist_cnt l - 1\<rparr>), h) \<and> path_at h (slist_head (l\<lparr>slist_cnt := slist_cnt l - 1\<rparr>)) [(a, x)]"
  using assms by (auto simp: list_pop_def list_tail.simps[of a a h] get_entry_def set_next_def)

definition next_free :: "'a links \<Rightarrow> nat" where
  "next_free h = Suc (Max (insert 0 (dom h)))"

lemma next_free_ok: "finite (dom h) \<Longrightarrow> next_free h \<noteq> 0 \<and> h (next_free h) = None"
proof -
  assume f: "finite (dom h)"
  have "a \<le> Max (insert 0 (dom h))" if "a \<in> dom h" for a using f that by simp
  then show ?thesis unfolding next_free_def by (metis Suc_n_not_le_n domIff nat.distinct(1))
qed

definition one_link :: "int links" where
  "one_link = [1 \<mapsto> \<lparr>Entry_item = Some 5, Entry_next = 0\<rparr>]"

lemma one_link_path: "path_at one_link 1 [(1, Some 5)]"
  by (simp add: one_link_def)

lemma one_link_finite: "finite (dom one_link)"
  by (simp add: one_link_def)

theorem queue_lost_when_drained_witness:
  "\<exists>q1 q2 h2. out_queue (Some \<lparr>queue_cnt = 1, front = 1, rear = 1, queue_dtr = False\<rparr>) one_link = Some (Some 5, Some q1) \<and>
    put_all next_free (Some q1) [6, 7] one_link = Some (Some q2, h2) \<and> queue_count (Some q2) = 2 \<and> out_queue (Some q2) h2 = Some (None, Some q2)"
proof -
  have "queue_holds \<lparr>queue_cnt = 1, front = 1, rear = 1, queue_dtr = False\<rparr> one_link [(1, Some 5)]"
    using one_link_path by (simp add: queue_holds_def)
  moreover have "\<forall>h :: int links. finite (dom h) \<longrightarrow> next_free h \<noteq> 0 \<and> h (next_free h) = None" using next_free_ok by blast
  ultimately show ?thesis using queue_lost_when_drained[OF _ one_link_finite, of _ 1 "Some 5" next_free "[6, 7]"] by simp
qed

theorem destroy_nonempty_undefined_witness:
  "destroy_queue (Some \<lparr>queue_cnt = 1, front = 1, rear = 1, queue_dtr = True\<rparr>) one_link = None"
  using destroy_nonempty_undefined[OF one_link_path] by simp

theorem list_pop_keeps_last_witness:
  "list_pop (Some \<lparr>slist_cnt = 1, slist_head = 1\<rparr>) one_link = Some (1, Some \<lparr>slist_cnt = 0, slist_head = 1\<rparr>, one_link)"
  using list_pop_keeps_last[of one_link "\<lparr>slist_cnt = 1, slist_head = 1\<rparr>" 1 "Some 5"] one_link_path by simp

end
