(* ===== verification/Zw_List.thy ===== *)
theory Zw_List
  imports Prelude
begin

text \<open>
  \<^verbatim>\<open>DataStructure/SingleList/singleList.c\<close>: commands with sequence numbers in a linked list. \<open>0\<close> is
  \<^verbatim>\<open>NULL\<close>; \<open>fresh\<close> is the block \<^verbatim>\<open>malloc\<close> returns and \<open>junk\<close> what a new block holds. Lines that are
  printed are left out.
\<close>

record ZwCommand =
  sequenceID :: int
  nodeID :: int
  act :: char
  status :: char
  reserve :: buf
  zw_next :: nat

type_synonym commands = "nat \<rightharpoonup> ZwCommand"

definition UINT_SEQ_MAX :: int where
  "UINT_SEQ_MAX = 2147483647"

definition UPDATE_ZW_SEQ_NUMBER :: "int \<Rightarrow> int" where
  "UPDATE_ZW_SEQ_NUMBER num = (if num = UINT_SEQ_MAX then 0 else num + 1)"

definition cmd_at :: "commands \<Rightarrow> nat \<Rightarrow> ZwCommand run" where
  "cmd_at h p = (if p = 0 then None else h p)"

definition put_string :: "buf \<Rightarrow> string \<Rightarrow> buf run" where
  "put_string b s = (if length s < length b then Some (s @ [NUL] @ drop (length s + 1) b) else None)"

text \<open>The second component is the sequence number that has been used last.\<close>

definition createZwCmd ::
    "(commands \<Rightarrow> nat) \<Rightarrow> ZwCommand \<Rightarrow> int \<Rightarrow> char \<Rightarrow> char \<Rightarrow> string option \<Rightarrow> int \<Rightarrow> commands \<Rightarrow> (nat \<times> int \<times> commands) run" where
  "createZwCmd fresh junk node a st res gzwSeqNum h =
     (if fresh h = 0 then None
      else do {
        let n = UPDATE_ZW_SEQ_NUMBER gzwSeqNum;
        r \<leftarrow> (case res of None \<Rightarrow> Some (reserve junk) | Some s \<Rightarrow> put_string (reserve junk) s);
        Some (fresh h, n, h(fresh h \<mapsto> junk\<lparr>sequenceID := n, nodeID := node, act := a, status := st, reserve := r\<rparr>)) })"

partial_function (option) last_cmd :: "nat \<Rightarrow> commands \<Rightarrow> nat run" where
  "last_cmd p h = do { c \<leftarrow> cmd_at h p; if zw_next c \<noteq> 0 then last_cmd (zw_next c) h else Some p }"

definition set_zw_next :: "nat \<Rightarrow> nat \<Rightarrow> commands \<Rightarrow> commands run" where
  "set_zw_next p v h = do { c \<leftarrow> cmd_at h p; Some (h(p \<mapsto> c\<lparr>zw_next := v\<rparr>)) }"

text \<open>The code, the caller's list and the commands.\<close>

definition putZwCmdToList :: "nat \<Rightarrow> nat \<Rightarrow> commands \<Rightarrow> (int \<times> nat \<times> commands) run" where
  "putZwCmdToList cmdList cmd h =
     (if cmd = 0 then Some (- 1, cmdList, h)
      else if cmdList = 0 then do { h1 \<leftarrow> set_zw_next cmd 0 h; Some (0, cmd, h1) }
      else do { t \<leftarrow> last_cmd cmdList h;
                h1 \<leftarrow> set_zw_next t cmd h;
                h2 \<leftarrow> set_zw_next cmd 0 h1;
                Some (0, cmdList, h2) })"

definition freeZwCmd :: "nat \<Rightarrow> commands \<Rightarrow> (int \<times> commands) run" where
  "freeZwCmd cmd h = (if cmd = 0 then Some (- 1, h) else do { _ \<leftarrow> cmd_at h cmd; Some (0, h(cmd := None)) })"

text \<open>The next command is read from the one that has been freed.\<close>

partial_function (option) free_all :: "nat \<Rightarrow> commands \<Rightarrow> (int \<times> commands) run" where
  "free_all cmdList h =
     (if cmdList = 0 then Some (0, h)
      else do { r \<leftarrow> freeZwCmd cmdList h;
                if fst r \<noteq> 0 then Some (- 1, snd r)
                else do { c \<leftarrow> cmd_at (snd r) cmdList; free_all (zw_next c) (snd r) } })"

definition freeZwCmdList :: "nat \<Rightarrow> commands \<Rightarrow> (int \<times> commands) run" where
  "freeZwCmdList cmdList h = (if cmdList = 0 then Some (- 1, h) else free_all cmdList h)"

partial_function (option) delete_after :: "int \<Rightarrow> nat \<Rightarrow> nat \<Rightarrow> commands \<Rightarrow> (int \<times> commands) run" where
  "delete_after cmdSeqID p q h =
     (if q = 0 then Some (0, h)
      else do {
        c \<leftarrow> cmd_at h q;
        if sequenceID c = cmdSeqID then do { h1 \<leftarrow> set_zw_next p (zw_next c) h; freeZwCmd q h1 }
        else delete_after cmdSeqID q (zw_next c) h })"

text \<open>\<open>None\<close> as the list is a \<^verbatim>\<open>NULL\<close> pointer to it.\<close>

definition deleteZwCmdFromListBySeqID :: "nat option \<Rightarrow> int \<Rightarrow> commands \<Rightarrow> (int \<times> nat option \<times> commands) run" where
  "deleteZwCmdFromListBySeqID cmdList cmdSeqID h =
     (case cmdList of None \<Rightarrow> Some (- 1, None, h)
      | Some p \<Rightarrow>
          if UINT_SEQ_MAX < cmdSeqID then Some (- 1, cmdList, h)
          else do {
            c \<leftarrow> cmd_at h p;
            if sequenceID c = cmdSeqID then do { (r, h1) \<leftarrow> freeZwCmd p h; Some (r, Some (zw_next c), h1) }
            else do { (r, h1) \<leftarrow> delete_after cmdSeqID p p h; Some (r, cmdList, h1) } })"

definition cloneZwCmd :: "(commands \<Rightarrow> nat) \<Rightarrow> ZwCommand \<Rightarrow> nat \<Rightarrow> commands \<Rightarrow> (nat \<times> commands) run" where
  "cloneZwCmd fresh junk cmd h =
     (if cmd = 0 then Some (0, h)
      else if fresh h = 0 then None
      else do {
        c \<leftarrow> cmd_at h cmd;
        r \<leftarrow> (if terminated (reserve c) then put_string (reserve junk) (cstr (reserve c)) else None);
        Some (fresh h, h(fresh h \<mapsto>
          junk\<lparr>sequenceID := sequenceID c, nodeID := nodeID c, act := act c, status := status c, reserve := r\<rparr>)) })"

section \<open>Lists of commands\<close>

fun cmds_at :: "commands \<Rightarrow> nat \<Rightarrow> (nat \<times> ZwCommand) list \<Rightarrow> bool" where
  "cmds_at h p [] \<longleftrightarrow> p = 0"
| "cmds_at h p ((a, c) # cs) \<longleftrightarrow> p = a \<and> a \<noteq> 0 \<and> (\<exists>n. h a = Some (c\<lparr>zw_next := n\<rparr>) \<and> cmds_at h n cs)"

lemma cmds_frame: "cmds_at h p cs \<Longrightarrow> \<forall>a \<in> fst ` set cs. h' a = h a \<Longrightarrow> cmds_at h' p cs"
  by (induction h p cs rule: cmds_at.induct) auto

text \<open>Freeing a list has no defined result, whatever is in it.\<close>

lemma free_list_undefined: "cmds_at h p ((a, c) # cs) \<Longrightarrow> freeZwCmdList p h = None"
  by (subst freeZwCmdList_def, subst free_all.simps) (auto simp: freeZwCmd_def cmd_at_def)

text \<open>Deleting behind the first command takes out the first one with the number and leaves the rest of memory alone.\<close>

lemma delete_after_spec:
  "cmds_at h q cs \<Longrightarrow> h b = Some (d\<lparr>zw_next := q\<rparr>) \<Longrightarrow> b \<noteq> 0 \<Longrightarrow> distinct (b # map fst cs) \<Longrightarrow> s \<in> (sequenceID \<circ> snd) ` set cs
    \<Longrightarrow> \<exists>xs a c ys h'. cs = xs @ (a, c) # ys \<and> sequenceID c = s \<and> s \<notin> (sequenceID \<circ> snd) ` set xs \<and>
      delete_after s b q h = Some (0, h') \<and> cmds_at h' b ((b, d) # xs @ ys) \<and> (\<forall>x. x \<notin> insert b (fst ` set cs) \<longrightarrow> h' x = h x)"
proof (induction cs arbitrary: b d q)
  case (Cons e cs)
  obtain a c where e: "e = (a, c)" by (cases e)
  obtain n where a: "q = a" "a \<noteq> 0" "h a = Some (c\<lparr>zw_next := n\<rparr>)" "cmds_at h n cs" using Cons.prems(1) by (auto simp: e)
  show ?case
  proof (cases "sequenceID c = s")
    case True
    let ?h = "h(b \<mapsto> d\<lparr>zw_next := n\<rparr>, a := None)"
    have "cmds_at ?h n cs" by (rule cmds_frame[OF a(4)]) (use Cons.prems(4) in \<open>auto simp: e\<close>)
    then have "cmds_at ?h b ((b, d) # cs)" using Cons.prems(3,4) by (auto simp: e)
    moreover have "delete_after s b q h = Some (0, ?h)"
      using a(1-3) True Cons.prems(2-4) by (subst delete_after.simps) (simp add: cmd_at_def set_zw_next_def freeZwCmd_def e)
    moreover have "\<forall>x. x \<notin> insert b (fst ` set (e # cs)) \<longrightarrow> ?h x = h x" by (simp add: e)
    ultimately show ?thesis
      using True e by (intro exI[of _ "[]"] exI[of _ a] exI[of _ c] exI[of _ cs] exI[of _ ?h]) (simp del: fun_upd_apply)
  next
    case False
    have d: "distinct (a # map fst cs)" "b \<notin> insert a (fst ` set cs)" using Cons.prems(4) by (auto simp: e)
    have "s \<in> (sequenceID \<circ> snd) ` set cs" using Cons.prems(5) False by (auto simp: e)
    from Cons.IH[OF a(4,3,2) d(1) this] obtain xs a' c' ys h' where r: "cs = xs @ (a', c') # ys" "sequenceID c' = s"
        "s \<notin> (sequenceID \<circ> snd) ` set xs" "delete_after s a n h = Some (0, h')" "cmds_at h' a ((a, c) # xs @ ys)"
        "\<forall>x. x \<notin> insert a (fst ` set cs) \<longrightarrow> h' x = h x" by blast
    have "h' b = Some (d\<lparr>zw_next := a\<rparr>)" using r(6) d(2) Cons.prems(2) a(1) by auto
    then have "cmds_at h' b ((b, d) # (e # xs) @ ys)" using r(5) Cons.prems(3) by (simp add: e)
    moreover have "delete_after s b q h = Some (0, h')"
      using a(1-3) False r(4) by (subst delete_after.simps) (simp add: cmd_at_def)
    ultimately show ?thesis
      using r(1-3,6) False e by (intro exI[of _ "e # xs"] exI[of _ a'] exI[of _ c'] exI[of _ ys] exI[of _ h']) auto
  qed
qed simp

end
