(* ===== verification/Clients.thy ===== *)
theory Clients
  imports Message_Props
begin

text \<open>
  \<^verbatim>\<open>lan/lan_main.c\<close> and \<^verbatim>\<open>dhcpd/dhcpd_main.c\<close>: two small applications of the message library. One asks the
  scheduler to start the other and then sends it a message; the other waits for messages.
\<close>

section \<open>The sender\<close>

definition TCM_MSG_REFRESH_LOG_LEVEL :: UINT32 where "TCM_MSG_REFRESH_LOG_LEVEL = 0x1000000B"

text \<open>Without memory for the message the code follows \<^verbatim>\<open>NULL\<close>. Empty data is sent like none.\<close>

definition util_sendMsg ::
    "'w kernel \<Rightarrow> tcmMsgHandle \<Rightarrow> int \<Rightarrow> int \<Rightarrow> UINT32 \<Rightarrow> int \<Rightarrow> char list \<Rightarrow> bool \<Rightarrow> 'w \<Rightarrow> (tcmRet \<times> 'w) run" where
  "util_sendMsg K h src dst msgType word msgData request w =
     (case k_alloc K w of (al, w1) \<Rightarrow>
        if \<not> al then None
        else tcmMsg_send K h (put_flag 1 request (EMPTY_MSG_HEADER\<lparr>msg_src := of_int src, msg_dst := of_int dst,
          msg_type := msgType, wordData := of_int word, dataLength := of_nat (length msgData), mdata := msgData\<rparr>)) w1)"

definition sleep_s :: "'w kernel \<Rightarrow> UINT32 \<Rightarrow> 'w \<Rightarrow> 'w" where
  "sleep_s K n w = k_usleep K (n * 1000000) w"

definition lan_main :: "'w kernel \<Rightarrow> tcmEntityInfo list \<Rightarrow> 'w \<Rightarrow> (int \<times> 'w) run" where
  "lan_main K tab w =
     do { (ret, h, w1) \<leftarrow> tcmMsg_init K tab (of_int ID_LAN) w;
          if ret \<noteq> TCMRET_SUCCESS then Some (- 1, w1)
          else do {
            hd \<leftarrow> h;
            (_, w2) \<leftarrow> util_sendMsg K hd ID_LAN ID_SCHED TCM_MSG_START_APP ID_DHCPD [] False w1;
            (_, w3) \<leftarrow> util_sendMsg K hd ID_LAN ID_DHCPD TCM_MSG_REFRESH_LOG_LEVEL ID_DHCPD [] False (sleep_s K 5 w2);
            Some (0, w3) } }"

section \<open>The receiver\<close>

text \<open>
  The loop ends when the scheduler is gone. A message about the log level is not freed: those are
  collected in \<open>leaked\<close>, oldest first.
\<close>

partial_function (option) startRecvbySelect ::
    "'w kernel \<Rightarrow> tcmMsgHandle \<Rightarrow> tcmMsgHeader list \<Rightarrow> 'w \<Rightarrow> (tcmRet \<times> tcmMsgHeader list \<times> 'w) run" where
  "startRecvbySelect K h leaked w =
     (case k_select K (commFd h + 1) {commFd h} 3 0 w of ((n, ready), w1) \<Rightarrow>
        if n \<le> 0 \<or> commFd h \<notin> ready then startRecvbySelect K h leaked w1
        else do {
          (ret, m, w2) \<leftarrow> tcmMsg_receive K h w1;
          if ret \<noteq> TCMRET_SUCCESS then
            (if ret = TCMRET_DISCONNECTED then Some (TCMRET_FAILURE, leaked, w2)
             else startRecvbySelect K h leaked (k_usleep K 100000 w2))
          else do {
            msg \<leftarrow> m;
            startRecvbySelect K h (if msg_type msg = TCM_MSG_REFRESH_LOG_LEVEL then leaked @ [msg] else leaked) w2 } })"

definition dhcpd_main :: "'w kernel \<Rightarrow> tcmEntityInfo list \<Rightarrow> 'w \<Rightarrow> (int \<times> 'w) run" where
  "dhcpd_main K tab w =
     do { (ret, h, w1) \<leftarrow> tcmMsg_init K tab (of_int ID_DHCPD) w;
          if ret \<noteq> TCMRET_SUCCESS then Some (- 1, w1)
          else do { hd \<leftarrow> h; (_, _, w2) \<leftarrow> startRecvbySelect K hd [] w1; Some (0, w2) } }"

section \<open>Properties\<close>

text \<open>
  The receiver takes every message that arrives before the scheduler goes away and then ends with a failure;
  of the messages it has taken, those about the log level are never freed.
\<close>

theorem receiver_takes_all:
  assumes "arrivals K (commFd h) ms w w1" and "\<forall>v. k_select K (commFd h + 1) {commFd h} 3 0 v = ((1, {commFd h}), v)"
    and "oalMsg_receive K (commFd h) None w1 = Some (TCMRET_DISCONNECTED, r, w2)"
  shows "startRecvbySelect K h leaked w =
    Some (TCMRET_FAILURE, leaked @ filter (\<lambda>m. msg_type m = TCM_MSG_REFRESH_LOG_LEVEL) ms, w2)"
  using assms(1,3)
proof (induction ms w w1 arbitrary: leaked rule: arrivals.induct)
  case (none w)
  then show ?case using assms(2) by (subst startRecvbySelect.simps) (simp add: tcmMsg_receive_def)
next
  case (more w m w1 ms w3)
  then show ?case using assms(2) by (subst startRecvbySelect.simps) (simp add: tcmMsg_receive_def)
qed

definition client_kernel :: "char list kernel" where
  "client_kernel = demo_kernel\<lparr>k_select := \<lambda>n fds s u w. ((1, fds), w)\<rparr>"

lemma client_stream: "stream_kernel client_kernel 5 5 (\<lambda>w. w)"
  using demo_stream by (simp add: stream_kernel_def client_kernel_def)

theorem receiver_takes_all_witness:
  "\<exists>w. startRecvbySelect client_kernel \<lparr>h_eid = 2, commFd = 5, putBackQueue = Some []\<rparr> []
      (header_bytes (EMPTY_MSG_HEADER\<lparr>msg_type := TCM_MSG_REFRESH_LOG_LEVEL\<rparr>)) =
    Some (TCMRET_FAILURE, [EMPTY_MSG_HEADER\<lparr>msg_type := TCM_MSG_REFRESH_LOG_LEVEL\<rparr>], w)"
proof -
  let ?m = "EMPTY_MSG_HEADER\<lparr>msg_type := TCM_MSG_REFRESH_LOG_LEVEL\<rparr>" and ?h = "\<lparr>h_eid = 2, commFd = 5, putBackQueue = Some []\<rparr>"
  have "valid_msg ?m" by (simp add: valid_msg_def EMPTY_MSG_HEADER_def sizeof_tcmMsgHeader_def)
  then obtain w1 where "oalMsg_receive client_kernel 5 None (header_bytes ?m) = Some (TCMRET_SUCCESS, Some ?m, w1)" "w1 = []"
    using receive_stream[OF client_stream, of ?m "header_bytes ?m" "[]"] by (auto simp: EMPTY_MSG_HEADER_def)
  then have "arrivals client_kernel (commFd ?h) [?m] (header_bytes ?m) []"
    by (auto intro: arrivals.intros)
  moreover have "\<forall>v. k_select client_kernel (commFd ?h + 1) {commFd ?h} 3 0 v = ((1, {commFd ?h}), v)" by (simp add: client_kernel_def)
  moreover have "oalMsg_receive client_kernel (commFd ?h) None [] = Some (TCMRET_DISCONNECTED, None, [])"
    by (simp add: oalMsg_receive_def wait_if_def client_kernel_def demo_kernel_def quiet_kernel_def sizeof_tcmMsgHeader_def)
  ultimately have "startRecvbySelect client_kernel ?h [] (header_bytes ?m) =
      Some (TCMRET_FAILURE, [] @ filter (\<lambda>m. msg_type m = TCM_MSG_REFRESH_LOG_LEVEL) [?m], [])"
    by (rule receiver_takes_all)
  then show ?thesis by simp
qed

end
