(* ===== verification/Confral.thy ===== *)
theory Confral
  imports Strconv
begin

text \<open>
  \<^verbatim>\<open>confral\<close>: the commands that set up interfaces, bridges and packet filters. Each function
  formats commands into a local buffer and hands them to \<^verbatim>\<open>tcm_doSystemAction\<close>, whose result it
  ignores; here it returns its code and the commands in order. A \<^verbatim>\<open>const char *\<close> that is tested for
  \<^verbatim>\<open>NULL\<close> is an option.
\<close>

section \<open>Formatting\<close>

definition BUFLEN_16 :: nat where "BUFLEN_16 = 16"
definition BUFLEN_32 :: nat where "BUFLEN_32 = 32"
definition BUFLEN_64 :: nat where "BUFLEN_64 = 64"
definition BUFLEN_128 :: nat where "BUFLEN_128 = 128"
definition BUFLEN_256 :: nat where "BUFLEN_256 = 256"

definition sprintf :: "nat \<Rightarrow> string \<Rightarrow> string run" where
  "sprintf n s = (if length s < n then Some s else None)"

text \<open>\<^verbatim>\<open>%d\<close> and \<^verbatim>\<open>%u\<close> of an \<^verbatim>\<open>int\<close>, and words with one space between them.\<close>

definition show_int :: "int \<Rightarrow> string" where
  "show_int i = (if i < 0 then CHR ''-'' # dec (nat (- i)) else dec (nat i))"

definition show_uint :: "int \<Rightarrow> string" where
  "show_uint i = dec (nat (i mod 2 ^ 32))"

fun spaced :: "string list \<Rightarrow> string" where
  "spaced [] = []"
| "spaced [s] = s"
| "spaced (s # ss) = s @ '' '' @ spaced ss"

text \<open>Commands formatted one after the other into a buffer of \<open>n\<close> characters.\<close>

type_synonym actions = "(tcmRet \<times> string list) run"

definition commands :: "nat \<Rightarrow> string list \<Rightarrow> string list run" where
  "commands n cs = (if \<forall>c \<in> set cs. length c < n then Some cs else None)"

definition run_commands :: "nat \<Rightarrow> string list \<Rightarrow> actions" where
  "run_commands n cs = do { xs \<leftarrow> commands n cs; Some (TCMRET_SUCCESS, xs) }"

definition and_then :: "actions \<Rightarrow> actions \<Rightarrow> actions" where
  "and_then f g = do { (_, cs) \<leftarrow> f; (r, ds) \<leftarrow> g; Some (r, cs @ ds) }"

text \<open>The action of a rule; the values of the enumeration are not known.\<close>

datatype rule_action = RULE_ADD | RULE_DELETE | RULE_OTHER int

section \<open>\<^verbatim>\<open>ral_iptables.c\<close>: initialisation\<close>

definition IPTABLESRAL :: string where "IPTABLESRAL = ''/bin/iptables''"

definition ralIptables_setIpForwardingAndDynamicIpUser :: "int \<Rightarrow> actions" where
  "ralIptables_setIpForwardingAndDynamicIpUser isEnable =
     (let e = ''echo '' @ [CHR 0x22] @ show_int isEnable @ [CHR 0x22] in
      run_commands BUFLEN_256 [e @ '' > /proc/sys/net/ipv4/ip_forward'', e @ '' > /proc/sys/net/ipv4/ip_dynaddr''])"

definition ralIptables_cleanIptablesTables :: actions where
  "ralIptables_cleanIptablesTables = run_commands BUFLEN_256
     (map (\<lambda>a. IPTABLESRAL @ '' '' @ a)
       [''-F INPUT'', ''-F OUTPUT'', ''-F FORWARD'', ''-F'', ''-X'', ''-t nat -F'', ''-t nat -X'', ''-t mangle -F'', ''-t mangle -X''])"

definition ralIptables_initIptables :: "string option \<Rightarrow> string option \<Rightarrow> actions" where
  "ralIptables_initIptables extIf intIf =
     (case (extIf, intIf) of
        (Some ext, Some lan) \<Rightarrow> run_commands BUFLEN_256
          (map (\<lambda>ws. spaced (IPTABLESRAL # ws))
            [[''-P'', ''INPUT'', ''ACCEPT''], [''-P'', ''OUTPUT'', ''ACCEPT''], [''-P'', ''FORWARD'', ''DROP''],
             [''-A'', ''FORWARD'', ''-i'', ext, ''-o'', lan, ''-j'', ''ACCEPT''],
             [''-A'', ''FORWARD'', ''-i'', lan, ''-o'', ext, ''-j'', ''ACCEPT'']])
      | _ \<Rightarrow> Some (TCMRET_INVALID_ARGUMENTS, []))"

definition ralIptables_setMss :: actions where
  "ralIptables_setMss = run_commands BUFLEN_256
     [''modprobe xt_TCPMSS'',
      ''iptables -t mangle -A FORWARD -p tcp --tcp-flags SYN,RST SYN -j TCPMSS --set-mss 1360'']"

definition ralIptables_initSroute :: "string option \<Rightarrow> string option \<Rightarrow> actions" where
  "ralIptables_initSroute extIf intIf =
     (if extIf = None \<or> intIf = None then Some (TCMRET_INVALID_ARGUMENTS, [])
      else and_then (ralIptables_setIpForwardingAndDynamicIpUser 1)
        (and_then ralIptables_cleanIptablesTables
          (and_then (ralIptables_initIptables extIf intIf) (Some (TCMRET_SUCCESS, [])))))"

definition ralIptables_initNat :: "string option \<Rightarrow> string option \<Rightarrow> actions" where
  "ralIptables_initNat extIf intIf =
     (if extIf = None \<or> intIf = None then Some (TCMRET_INVALID_ARGUMENTS, [])
      else and_then (ralIptables_setIpForwardingAndDynamicIpUser 1)
        (and_then ralIptables_cleanIptablesTables
          (and_then (ralIptables_initIptables extIf intIf)
            (run_commands BUFLEN_256 [spaced [IPTABLESRAL, ''-t'', ''nat'', ''-A'', ''POSTROUTING'', ''-o'', the extIf, ''-j'', ''MASQUERADE'']]))))"

section \<open>Bridges\<close>

definition opt_command :: "string option \<Rightarrow> (string \<Rightarrow> string) \<Rightarrow> string list" where
  "opt_command a f = (case a of None \<Rightarrow> [] | Some s \<Rightarrow> [f s])"

definition ralIptables_setBridge ::
    "rule_action \<Rightarrow> string option \<Rightarrow> string option \<Rightarrow> string option \<Rightarrow> string option \<Rightarrow> int \<Rightarrow> actions" where
  "ralIptables_setBridge action extIf intIf briIf bridgeIp maskbit =
     (if extIf = None \<and> intIf = None then Some (TCMRET_INVALID_ARGUMENTS, [])
      else case (briIf, bridgeIp) of
        (Some bri, Some ip) \<Rightarrow>
          (let addr = (\<lambda>op. spaced [''ip'', ''addr'', op, ip @ ''/'' @ show_int maskbit, ''dev'', bri, ''brd'', ''+'']) in
           case action of
             RULE_ADD \<Rightarrow> run_commands BUFLEN_256
               ([''brctl addbr '' @ bri] @ opt_command intIf (\<lambda>i. spaced [''brctl'', ''addif'', bri, i])
                @ opt_command extIf (\<lambda>e. spaced [''brctl'', ''addif'', bri, e])
                @ [addr ''add'', spaced [''ifconfig'', bri, ''up'']])
           | RULE_DELETE \<Rightarrow> run_commands BUFLEN_256
               ([addr ''del'', spaced [''ifconfig'', bri, ''down'']]
                @ opt_command intIf (\<lambda>i. spaced [''brctl'', ''delif'', bri, i])
                @ opt_command extIf (\<lambda>e. spaced [''brctl'', ''delif'', bri, e])
                @ [''brctl delbr '' @ bri])
           | _ \<Rightarrow> Some (TCMRET_INVALID_ARGUMENTS, []))
      | _ \<Rightarrow> Some (TCMRET_INVALID_ARGUMENTS, []))"

section \<open>Port forwarding\<close>

text \<open>
  The device is an array of \<open>BUFLEN_32\<close> characters that is cleared over \<open>BUFLEN_64\<close>. By the
  language that has no defined result; \<open>spare\<close> is the number of bytes behind the array that the
  compiler has put to no use yet.
\<close>

definition device_arg :: "nat \<Rightarrow> string option \<Rightarrow> string run" where
  "device_arg spare device =
     (if BUFLEN_32 + spare < BUFLEN_64 then None
      else case device of None \<Rightarrow> Some []
      | Some d \<Rightarrow> if d = [] then Some [] else sprintf BUFLEN_32 (''-i '' @ d))"

definition ralIptables_runCmdPortForwarding ::
    "nat \<Rightarrow> char \<Rightarrow> string option \<Rightarrow> string \<Rightarrow> string \<Rightarrow> string \<Rightarrow> string option \<Rightarrow> string option \<Rightarrow> actions" where
  "ralIptables_runCmdPortForwarding spare action device protocol inPort srvAddress srvPortForFilter srvPortForNat =
     do { dev \<leftarrow> device_arg spare device;
          let dnat = (\<lambda>to. spaced [''iptables'', ''-t'', ''nat'', CHR ''-'' # (if action = CHR ''A'' then ''A'' else ''D''), ''PREROUTING'',
                dev, ''-p'', protocol, ''--dport'', inPort, ''-j'', ''DNAT'', ''--to-destination'', to]);
          let forward = (\<lambda>prt. spaced [''iptables'', CHR ''-'' # (if action = CHR ''A'' then ''I'' else ''D''), ''FORWARD'',
                if action = CHR ''A'' then ''1'' else '' '', dev, ''-p'', protocol, ''-d'', srvAddress, ''--dport'', prt, ''-j'', ''ACCEPT'']);
          run_commands BUFLEN_128
            (case (srvPortForFilter, srvPortForNat) of
               (Some (c # f), Some (d # n)) \<Rightarrow> [dnat (srvAddress @ '':'' @ (d # n)), forward (c # f)]
             | _ \<Rightarrow> [dnat srvAddress, forward inPort]) }"

definition ralIptables_setPortForwarding ::
    "nat \<Rightarrow> rule_action \<Rightarrow> string option \<Rightarrow> string option \<Rightarrow> int \<Rightarrow> int \<Rightarrow> int \<Rightarrow> int \<Rightarrow> string option \<Rightarrow> actions" where
  "ralIptables_setPortForwarding spare action deviceName proto iStartPort iEndPort fStartPort fEndPort serverIp =
     (case (proto, serverIp) of
        (Some p, Some ip) \<Rightarrow>
          (case (case action of RULE_ADD \<Rightarrow> Some (CHR ''A'') | RULE_DELETE \<Rightarrow> Some (CHR ''D'') | _ \<Rightarrow> None) of
             None \<Rightarrow> Some (TCMRET_INVALID_ARGUMENTS, [])
           | Some act \<Rightarrow> do {
               inPort \<leftarrow> sprintf BUFLEN_16
                 (if iStartPort = iEndPort then show_uint iStartPort else show_uint iStartPort @ '':'' @ show_uint iEndPort);
               let ports = (\<lambda>sep. if iStartPort = fStartPort \<and> iEndPort = fEndPort then []
                 else if fStartPort = fEndPort then show_uint fStartPort
                 else show_uint fStartPort @ sep @ show_uint fEndPort);
               filt \<leftarrow> sprintf BUFLEN_16 (ports '':'');
               natp \<leftarrow> sprintf BUFLEN_16 (ports ''-'');
               ralIptables_runCmdPortForwarding spare act deviceName p inPort ip (Some filt) (Some natp) })
      | _ \<Rightarrow> Some (TCMRET_INVALID_ARGUMENTS, []))"

section \<open>Firewall\<close>

definition opt_arg :: "nat \<Rightarrow> string \<Rightarrow> string option \<Rightarrow> string run" where
  "opt_arg n option v = (case v of None \<Rightarrow> Some [] | Some s \<Rightarrow> if s = [] then Some [] else sprintf n (option @ '' '' @ s))"

text \<open>
  The mask is added to an address with \<^verbatim>\<open>sprintf\<close> from the buffer into itself, which has no defined result.
\<close>

definition addr_arg :: "string \<Rightarrow> string option \<Rightarrow> string option \<Rightarrow> string run" where
  "addr_arg option ip msk =
     do { a \<leftarrow> opt_arg BUFLEN_32 option ip;
          if a \<noteq> [] \<and> msk \<noteq> None \<and> msk \<noteq> Some [] then None else Some a }"

definition ralIptables_runCmdFirewall ::
    "char \<Rightarrow> string option \<Rightarrow> string option \<Rightarrow> string option \<Rightarrow> string option \<Rightarrow> string option \<Rightarrow> string option \<Rightarrow>
       string option \<Rightarrow> string option \<Rightarrow> string \<Rightarrow> actions" where
  "ralIptables_runCmdFirewall action device protocol srcip srcmask srcport dstip dstmask dstport policy =
     do { dev \<leftarrow> opt_arg BUFLEN_32 ''-i'' device;
          prot \<leftarrow> opt_arg BUFLEN_32 ''-p'' protocol;
          src \<leftarrow> addr_arg ''-s'' srcip srcmask;
          sprt \<leftarrow> opt_arg BUFLEN_16 ''--sport'' srcport;
          dst \<leftarrow> addr_arg ''-d'' dstip dstmask;
          dprt \<leftarrow> opt_arg BUFLEN_16 ''--dport'' dstport;
          let rule = (\<lambda>chain. spaced [''iptables'', [CHR ''-'', action], chain, dev, prot, src, sprt, dst, dprt, ''-j'', policy]);
          run_commands BUFLEN_256 [rule ''INPUT'', rule ''FORWARD''] }"

definition ralIptables_setFirewall ::
    "rule_action \<Rightarrow> string option \<Rightarrow> string option \<Rightarrow> string option \<Rightarrow> string option \<Rightarrow> string option \<Rightarrow> string option \<Rightarrow>
       string option \<Rightarrow> string option \<Rightarrow> string option \<Rightarrow> actions" where
  "ralIptables_setFirewall action deviceName proto srcip srcmask srcport dstip dstmask dstport policy =
     (if policy \<noteq> Some ''ACCEPT'' \<and> policy \<noteq> Some ''DROP'' then Some (TCMRET_INVALID_ARGUMENTS, [])
      else case action of
        RULE_ADD \<Rightarrow> ralIptables_runCmdFirewall (CHR ''A'') deviceName proto srcip srcmask srcport dstip dstmask dstport (the policy)
      | RULE_DELETE \<Rightarrow> ralIptables_runCmdFirewall (CHR ''D'') deviceName proto srcip srcmask srcport dstip dstmask dstport (the policy)
      | _ \<Rightarrow> Some (TCMRET_INVALID_ARGUMENTS, []))"

text \<open>Without a device the array \<^verbatim>\<open>strInput\<close> is read uninitialised.\<close>

definition ralIptables_setDmz :: "rule_action \<Rightarrow> string option \<Rightarrow> string option \<Rightarrow> actions" where
  "ralIptables_setDmz action dmzIp device =
     (case dmzIp of None \<Rightarrow> Some (TCMRET_INVALID_ARGUMENTS, [])
      | Some ip \<Rightarrow>
          if ip = [] \<or> ip = ''0.0.0.0'' then Some (TCMRET_SUCCESS, [])
          else (case (case action of RULE_ADD \<Rightarrow> Some (CHR ''A'') | RULE_DELETE \<Rightarrow> Some (CHR ''D'') | _ \<Rightarrow> None) of
            None \<Rightarrow> Some (TCMRET_INVALID_ARGUMENTS, [])
          | Some act \<Rightarrow>
              if device = None \<or> device = Some [] then None
              else do {
                inp \<leftarrow> sprintf BUFLEN_16 (''-i '' @ the device);
                run_commands BUFLEN_128
                  [spaced [''iptables'', ''-t'', ''nat'', [CHR ''-'', act], ''PREROUTING'', inp, ''-p'', ''all'', ''-j'', ''DNAT'', ''--to-destination'', ip]] }))"

section \<open>\<^verbatim>\<open>ral_lan.c\<close> and \<^verbatim>\<open>ral_wan.c\<close>\<close>

definition ralLan_doConfig :: "string \<Rightarrow> string \<Rightarrow> actions" where
  "ralLan_doConfig lanIp lanMask = run_commands BUFLEN_128
     [''echo ifconfig lo 127.0.0.1'', spaced [''echo'', ''ifconfig'', ''eth0'', lanIp, ''netmask'', lanMask, ''up'']]"

definition ralWan_doConfig :: "rule_action \<Rightarrow> string \<Rightarrow> string \<Rightarrow> string \<Rightarrow> string \<Rightarrow> string \<Rightarrow> actions" where
  "ralWan_doConfig action wanName wanIp wanMask wanGateway wanMtu =
     (case (case action of RULE_ADD \<Rightarrow> Some ''add'' | RULE_DELETE \<Rightarrow> Some ''del'' | _ \<Rightarrow> None) of
        None \<Rightarrow> Some (TCMRET_INVALID_ARGUMENTS, [])
      | Some strAction \<Rightarrow> run_commands BUFLEN_256
          ([spaced [''ifconfig'', wanName, ''0.0.0.0'']]
           @ (if action = RULE_ADD then [spaced [''ifconfig'', wanName, wanIp, ''netmask'', wanMask, ''up'']] else [])
           @ [spaced [''route'', strAction, ''-net'', wanGateway, ''netmask'', ''255.255.255.255'', ''dev'', wanName],
              spaced [''route'', strAction, ''default'', ''gw'', wanGateway]]
           @ (if action = RULE_ADD then [spaced [''ifconfig'', wanName, ''mtu'', wanMtu]] else [])))"

definition ralWan_setVlan :: "rule_action \<Rightarrow> string option \<Rightarrow> int \<Rightarrow> int \<Rightarrow> int \<Rightarrow> actions" where
  "ralWan_setVlan action infName vlanID skbPrio vlanPrio =
     (case infName of None \<Rightarrow> Some (TCMRET_INVALID_ARGUMENTS, [])
      | Some ifn \<Rightarrow>
          (let v = ifn @ ''.'' @ show_int vlanID in
           case action of
             RULE_ADD \<Rightarrow> run_commands BUFLEN_256
               [spaced [''vconfig'', ''add'', ifn, show_int vlanID], spaced [''ifconfig'', v, ''up''],
                spaced [''vconfig'', ''set_egress_map'', v, show_int skbPrio, show_int vlanPrio]]
           | RULE_DELETE \<Rightarrow> run_commands BUFLEN_256
               [spaced [''ifconfig'', v, ''down''], spaced [''vconfig'', ''rem'', v]]
           | _ \<Rightarrow> Some (TCMRET_INVALID_ARGUMENTS, [])))"

end
