(* ===== verification/Act_Base.thy ===== *)
theory Act_Base
  imports Confral Conf_File Message
begin

text \<open>
  \<^verbatim>\<open>confact\<close>: the library with which an application makes the settings of the database take effect.
  This theory has its state, its environment and the helpers of \<^verbatim>\<open>act_util.c\<close> and \<^verbatim>\<open>act_info.c\<close>.
  Every action returns a \<^verbatim>\<open>tcmRet\<close> as the number it is, for some pass on what the scheduler replied.
\<close>

section \<open>Identifiers\<close>

text \<open>
  \<^verbatim>\<open>confact\<close> is written for a table of applications larger than the one in the repository: the
  numbers of the applications are a parameter. Those of their parameters are in \<^verbatim>\<open>conflib.h\<close>.
\<close>

record act_ids =
  id_lan :: int
  id_dhcpd :: int
  id_dnsmasq :: int
  id_wan :: int
  id_sntp :: int
  id_portforward :: int
  id_firewall :: int
  id_dmz :: int
  id_syslogd :: int
  id_inetd :: int
  id_pcscd :: int
  id_sdkd :: int
  id_autocm :: int
  id_thttpd :: int
  id_end :: int
  id_allend :: int

definition PARA_LAN_IP :: int where "PARA_LAN_IP = 1"
definition PARA_LAN_MASK :: int where "PARA_LAN_MASK = 2"
definition PARA_DHCPD_STATUS :: int where "PARA_DHCPD_STATUS = 1"
definition PARA_DHCPD_STARTIP :: int where "PARA_DHCPD_STARTIP = 2"
definition PARA_DHCPD_ENDIP :: int where "PARA_DHCPD_ENDIP = 3"
definition PARA_DHCPD_DEFAULTLEASE :: int where "PARA_DHCPD_DEFAULTLEASE = 4"
definition PARA_DHCPD_MAXLEASE :: int where "PARA_DHCPD_MAXLEASE = 5"
definition PARA_WORK_MODE :: int where "PARA_WORK_MODE = 1"
definition PARA_WAN_MODE :: int where "PARA_WAN_MODE = 2"
definition PARA_WAN_IP :: int where "PARA_WAN_IP = 3"
definition PARA_WAN_NETMASK :: int where "PARA_WAN_NETMASK = 4"
definition PARA_WAN_GATEWAY :: int where "PARA_WAN_GATEWAY = 5"
definition PARA_WAN_MTU :: int where "PARA_WAN_MTU = 8"
definition PARA_WAN_BRIDGEIP :: int where "PARA_WAN_BRIDGEIP = 9"
definition PARA_WAN_BRIDGEMASKBIT :: int where "PARA_WAN_BRIDGEMASKBIT = 10"
definition PARA_WAN_VLANID :: int where "PARA_WAN_VLANID = 11"
definition PARA_WAN_VLANSKBPRIO :: int where "PARA_WAN_VLANSKBPRIO = 12"
definition PARA_WAN_VLANPRIO :: int where "PARA_WAN_VLANPRIO = 13"
definition PARA_DNSMASQ_DNS1 :: int where "PARA_DNSMASQ_DNS1 = 1"
definition PARA_DNSMASQ_DNS2 :: int where "PARA_DNSMASQ_DNS2 = 2"
definition PARA_DNSMASQ_DOMAIN :: int where "PARA_DNSMASQ_DOMAIN = 3"
definition PARA_SNTP_NTPSERVER1 :: int where "PARA_SNTP_NTPSERVER1 = 1"
definition PARA_SNTP_TIMEZONEINDEX :: int where "PARA_SNTP_TIMEZONEINDEX = 6"
definition PARA_DMZ_IP :: int where "PARA_DMZ_IP = 1"

definition APP_WRITE :: int where "APP_WRITE = 1"
definition APP_WRITE_RESTART :: int where "APP_WRITE_RESTART = 2"
definition APP_START :: int where "APP_START = 3"
definition APP_STOP :: int where "APP_STOP = 4"
definition APP_RESTART :: int where "APP_RESTART = 5"
definition APP_NO_ACTION :: int where "APP_NO_ACTION = 6"

definition INTERFACENAME_WAN :: string where "INTERFACENAME_WAN = ''wimax''"
definition INTERFACENAME_LAN :: string where "INTERFACENAME_LAN = ''eth0''"
definition INTERFACENAME_BRIDGE :: string where "INTERFACENAME_BRIDGE = ''br0''"

definition BUFLEN_8 :: nat where "BUFLEN_8 = 8"
definition BUFLEN_18 :: nat where "BUFLEN_18 = 18"
definition BUFLEN_512 :: nat where "BUFLEN_512 = 512"

section \<open>State and environment\<close>

text \<open>
  The state of the process: the configuration library it is linked with, the entity and the message handle
  in \<^verbatim>\<open>actLibraryInfo\<close>, and the world outside. The environment has the system calls and the
  functions of \<^verbatim>\<open>tcm_util.h\<close>, which is not in the repository; whether \<^verbatim>\<open>fopen\<close> succeeds; what
  uninitialised memory holds; the width of a \<^verbatim>\<open>long\<close>; and the spare bytes of \<open>device_arg\<close>.
\<close>

record 'w act =
  act_conf :: conf
  act_eid :: int
  act_handle :: "tcmMsgHandle option"
  act_world :: 'w

record 'w act_env =
  act_kernel :: "'w kernel"
  tcm_doSystemAction :: "string \<Rightarrow> 'w \<Rightarrow> 'w"
  tcm_getIfSubnet :: "string \<Rightarrow> string \<Rightarrow> string option"
  tcm_toLowerCase :: "string \<Rightarrow> string"
  act_sleep :: "nat \<Rightarrow> 'w \<Rightarrow> 'w"
  act_opens :: "string \<Rightarrow> bool"
  act_stack :: string
  long_bits :: nat
  spare_bytes :: nat

type_synonym 'w action = "'w act \<Rightarrow> (UINT32 \<times> 'w act) run"

text \<open>A local array before anything is written to it.\<close>

definition local_buf :: "'w act_env \<Rightarrow> nat \<Rightarrow> buf" where
  "local_buf E n = take n (act_stack E @ replicate n NUL)"

definition str_of :: "buf \<Rightarrow> string run" where
  "str_of b = (if terminated b then Some (cstr b) else None)"

definition failed :: "tcmRet \<Rightarrow> 'w action" where
  "failed r s = Some (ret_code r, s)"

text \<open>Commands run in the order in which they were formatted.\<close>

definition do_actions :: "'w act_env \<Rightarrow> actions \<Rightarrow> 'w action" where
  "do_actions E f s =
     do { (r, cs) \<leftarrow> f; Some (ret_code r, s\<lparr>act_world := fold (tcm_doSystemAction E) cs (act_world s)\<rparr>) }"

section \<open>Reading the database\<close>

text \<open>
  Parameters \<open>(application, parameter, size of the local array)\<close> read one after the other until one fails.
\<close>

fun read_pars :: "'w act_env \<Rightarrow> conf \<Rightarrow> (int \<times> int \<times> nat) list \<Rightarrow> string list option run" where
  "read_pars E c [] = Some (Some [])"
| "read_pars E c ((a, p, n) # ps) =
     do { (r, b) \<leftarrow> config_api_read_parameter c a p (Some (local_buf E n));
          if r \<noteq> 0 then Some None
          else do { x \<leftarrow> b; t \<leftarrow> str_of x; ts \<leftarrow> read_pars E c ps; Some (map_option ((#) t) ts) } }"

text \<open>The seven arrays of \<open>BUFLEN_32\<close> into which the rows of a table are read, and a column of a row.\<close>

definition row_bufs :: "'w act_env \<Rightarrow> buf option list" where
  "row_bufs E = replicate 7 (Some (local_buf E BUFLEN_32))"

definition col :: "buf option list \<Rightarrow> nat \<Rightarrow> string run" where
  "col bs p = (if length bs < p then None else do { b \<leftarrow> bs ! (p - 1); str_of b })"

text \<open>A value a caller passes.\<close>

definition value_arg :: "string option list \<Rightarrow> nat \<Rightarrow> string run" where
  "value_arg vs p = (if length vs < p then None else vs ! (p - 1))"

text \<open>\<^verbatim>\<open>atoi\<close> of a number that is no \<^verbatim>\<open>int\<close> has no defined result.\<close>

definition atoi :: "'w act_env \<Rightarrow> string \<Rightarrow> int run" where
  "atoi E s = (case strtol (long_bits E) s 10 of (v, _, err) \<Rightarrow>
     if err \<or> v < - (2 ^ 31) \<or> 2 ^ 31 \<le> v then None else Some v)"

definition strcasecmp_eq :: "string \<Rightarrow> string \<Rightarrow> bool" where
  "strcasecmp_eq s t \<longleftrightarrow> map tolower s = map tolower t"

section \<open>\<^verbatim>\<open>act_util.c\<close>\<close>

text \<open>
  The message block is used whether or not there was memory for it. The answer is the word of the
  reply, or the error code when the message could not be sent.
\<close>

definition request_msg :: "int \<Rightarrow> UINT32 \<Rightarrow> int \<Rightarrow> string option \<Rightarrow> tcmMsgHeader" where
  "request_msg src typ word data =
     put_flag 1 True (EMPTY_MSG_HEADER\<lparr>msg_src := of_int src, msg_dst := of_int ID_SCHED, msg_type := typ,
       wordData := of_int word,
       dataLength := (case data of None \<Rightarrow> 0 | Some d \<Rightarrow> of_nat (length d + 1)),
       mdata := (case data of None \<Rightarrow> [] | Some d \<Rightarrow> d @ [NUL])\<rparr>)"

definition actUtil_sendMsgToSched :: "'w act_env \<Rightarrow> UINT32 \<Rightarrow> int \<Rightarrow> string option \<Rightarrow> 'w action" where
  "actUtil_sendMsgToSched E msgType word msgData s =
     (case k_alloc (act_kernel E) (act_world s) of (al, w) \<Rightarrow>
        if \<not> al then None
        else do {
          h \<leftarrow> act_handle s;
          (ret, h1, w1) \<leftarrow> tcmMsg_sendAndGetReply (act_kernel E) h (request_msg (act_eid s) msgType word msgData) w;
          Some (ret, s\<lparr>act_handle := Some h1, act_world := w1\<rparr>) })"

datatype actionStatus = ASTATUS_DISABLE | ASTATUS_ENABLE | ASTATUS_INVALID

definition actUtil_statusStrToInt :: "string option \<Rightarrow> actionStatus" where
  "actUtil_statusStrToInt strStatus =
     (case strStatus of None \<Rightarrow> ASTATUS_INVALID
      | Some s \<Rightarrow> if s = ''enable'' \<or> s = ''Enable'' then ASTATUS_ENABLE
          else if s = ''disable'' \<or> s = ''Disable'' then ASTATUS_DISABLE else ASTATUS_INVALID)"

definition actUtil_isSameProtocol :: "'w act_env \<Rightarrow> string option \<Rightarrow> string option \<Rightarrow> bool run" where
  "actUtil_isSameProtocol E proto1 proto2 =
     (case (proto1, proto2) of
        (Some p, Some q) \<Rightarrow> do {
          a \<leftarrow> sprintf BUFLEN_32 p; b \<leftarrow> sprintf BUFLEN_32 q;
          let x = tcm_toLowerCase E a; let y = tcm_toLowerCase E b;
          Some ((strstr x ''tcp'' \<noteq> None \<and> strstr y ''tcp'' \<noteq> None) \<or> (strstr x ''udp'' \<noteq> None \<and> strstr y ''udp'' \<noteq> None)) }
      | _ \<Rightarrow> Some False)"

definition PATHDHCPDCONF :: string where "PATHDHCPDCONF = ''/etc/sysconfig/dhcpd/dhcpd.conf''"
definition PATHDHCPDLEASES :: string where "PATHDHCPDLEASES = ''/etc/sysconfig/dhcpd/dhcpd.leases''"
definition PATHDHCPDLEASEFILE :: string where "PATHDHCPDLEASEFILE = ''/var/config/dhcpd.leases''"
definition PATHRESOLVEFILE :: string where "PATHRESOLVEFILE = ''/etc/resolv.conf''"

abbreviation TAB :: char where "TAB \<equiv> CHR 0x09"

text \<open>The result and what the file holds afterwards; \<open>None\<close> when it was not opened.\<close>

definition actUtil_updateDhcpdCfg :: "act_ids \<Rightarrow> 'w act_env \<Rightarrow> conf \<Rightarrow> (tcmRet \<times> string option) run" where
  "actUtil_updateDhcpdCfg I E c =
     (if \<not> act_opens E PATHDHCPDCONF then Some (TCMRET_INTERNAL_ERROR, None)
      else do {
        r \<leftarrow> read_pars E c [(id_dhcpd I, PARA_DHCPD_STARTIP, BUFLEN_18), (id_dhcpd I, PARA_DHCPD_ENDIP, BUFLEN_18),
          (id_dhcpd I, PARA_DHCPD_MAXLEASE, BUFLEN_16), (id_dhcpd I, PARA_DHCPD_DEFAULTLEASE, BUFLEN_16),
          (id_lan I, PARA_LAN_IP, BUFLEN_18), (id_lan I, PARA_LAN_MASK, BUFLEN_18)];
        case r of
          Some [start, endip, maxl, defl, ip, msk] \<Rightarrow>
            (case tcm_getIfSubnet E ip msk of None \<Rightarrow> Some (TCMRET_INTERNAL_ERROR, Some [])
             | Some net \<Rightarrow>
                 if BUFLEN_18 \<le> length net then None
                 else do {
                   ls \<leftarrow> commands BUFLEN_512
                     [''authoritative;'' @ [NEWLINE],
                      ''default-lease-time'' @ TAB # defl @ '';'' @ [NEWLINE],
                      ''max-lease-time'' @ TAB # maxl @ '';'' @ [NEWLINE],
                      ''subnet '' @ net @ '' netmask '' @ msk @ '' {'' @ [NEWLINE],
                      TAB # ''range '' @ start @ '' '' @ endip @ '';'' @ [NEWLINE],
                      TAB # ''option domain-name-servers '' @ ip @ '';'' @ [NEWLINE],
                      TAB # ''option routers '' @ ip @ '';'' @ [NEWLINE],
                      ''}'' @ [NEWLINE]];
                   Some (TCMRET_SUCCESS, Some (concat ls)) })
        | _ \<Rightarrow> Some (TCMRET_CONFLIB_READ_ERROR, Some []) })"

definition actUtil_updateResolveCfg :: "act_ids \<Rightarrow> 'w act_env \<Rightarrow> conf \<Rightarrow> (tcmRet \<times> string option) run" where
  "actUtil_updateResolveCfg I E c =
     (if \<not> act_opens E PATHRESOLVEFILE then Some (TCMRET_INTERNAL_ERROR, None)
      else do {
        r \<leftarrow> read_pars E c [(id_dnsmasq I, PARA_DNSMASQ_DNS1, BUFLEN_18), (id_dnsmasq I, PARA_DNSMASQ_DNS2, BUFLEN_18),
          (id_dnsmasq I, PARA_DNSMASQ_DOMAIN, BUFLEN_64)];
        case r of
          Some [dns1, dns2, domain] \<Rightarrow> do {
            ls \<leftarrow> commands BUFLEN_512
              ([''nameserver '' @ dns1 @ [NEWLINE]]
               @ (if dns2 \<noteq> [] then [''nameserver '' @ dns2 @ [NEWLINE]] else [])
               @ [''search '' @ domain]);
            Some (TCMRET_SUCCESS, Some (concat ls)) }
        | _ \<Rightarrow> Some (TCMRET_CONFLIB_READ_ERROR, Some []) })"

section \<open>\<^verbatim>\<open>act_info.c\<close>\<close>

definition actLib_init :: "tcmEntityInfo list \<Rightarrow> int \<Rightarrow> tcmMsgHandle option \<Rightarrow> 'w act \<Rightarrow> tcmRet \<times> 'w act" where
  "actLib_init tab tId msghd s =
     (if tcmEid_getEntityInfo tab tId = None then (TCMRET_INVALID_ARGUMENTS, s)
      else if tId = ID_SCHED \<and> msghd \<noteq> None then (TCMRET_INVALID_ARGUMENTS, s)
      else if tId \<noteq> ID_SCHED \<and> msghd = None then (TCMRET_INVALID_ARGUMENTS, s)
      else (TCMRET_SUCCESS, s\<lparr>act_eid := tId, act_handle := msghd\<rparr>))"

definition actLib_cleanup :: "'w act \<Rightarrow> 'w act" where
  "actLib_cleanup s = s\<lparr>act_eid := 0, act_handle := None\<rparr>"

end
