(* ===== verification/Act_Rules.thy ===== *)
theory Act_Rules
  imports Act_Base
begin

text \<open>
  \<^verbatim>\<open>confact/act_firewall.c\<close>, \<^verbatim>\<open>act_portforward.c\<close> and \<^verbatim>\<open>act_dmz.c\<close>: the packet filter rules kept in
  the tables of the database.
\<close>

section \<open>Columns\<close>

definition PARA_FIREWALL_SRCIP :: nat where "PARA_FIREWALL_SRCIP = 1"
definition PARA_FIREWALL_SRCMASK :: nat where "PARA_FIREWALL_SRCMASK = 2"
definition PARA_FIREWALL_SRCPORT :: nat where "PARA_FIREWALL_SRCPORT = 3"
definition PARA_FIREWALL_DSTIP :: nat where "PARA_FIREWALL_DSTIP = 4"
definition PARA_FIREWALL_DSTMASK :: nat where "PARA_FIREWALL_DSTMASK = 5"
definition PARA_FIREWALL_DSTPORT :: nat where "PARA_FIREWALL_DSTPORT = 6"
definition PARA_FIREWALL_PROTOCOL :: nat where "PARA_FIREWALL_PROTOCOL = 7"
definition PARA_FIREWALL_END :: nat where "PARA_FIREWALL_END = 8"
definition PARA_PORTFORWARD_PROTOCOL :: nat where "PARA_PORTFORWARD_PROTOCOL = 2"
definition PARA_PORTFORWARD_START_INCOMING_PORT :: nat where "PARA_PORTFORWARD_START_INCOMING_PORT = 3"
definition PARA_PORTFORWARD_END_INCOMING_PORT :: nat where "PARA_PORTFORWARD_END_INCOMING_PORT = 4"
definition PARA_PORTFORWARD_START_FORWARD_PORT :: nat where "PARA_PORTFORWARD_START_FORWARD_PORT = 5"
definition PARA_PORTFORWARD_END_FORWARD_PORT :: nat where "PARA_PORTFORWARD_END_FORWARD_PORT = 6"
definition PARA_PORTFORWARD_SERVER_IP :: nat where "PARA_PORTFORWARD_SERVER_IP = 7"
definition MAXTABLE_FIREWALL :: nat where "MAXTABLE_FIREWALL = 32"
definition MAXTABLE_PORTFORWARD :: nat where "MAXTABLE_PORTFORWARD = 32"

text \<open>
  The dispatch on the protocol that both kinds of rule have; \<open>u\<close> is the protocol the code passes
  for UDP. For another protocol the code before stays.
\<close>

definition by_protocol :: "string \<Rightarrow> string \<Rightarrow> (string \<Rightarrow> 'w action) \<Rightarrow> UINT32 \<Rightarrow> 'w action" where
  "by_protocol proto u f ret s =
     (if strcasecmp_eq proto ''TCP'' then f ''tcp'' s
      else if strcasecmp_eq proto ''UDP'' then f u s
      else if strcasecmp_eq proto ''TCP/UDP'' then do { (_, s1) \<leftarrow> f ''tcp'' s; f u s1 }
      else Some (ret, s))"

definition protocol_ok :: "string \<Rightarrow> bool" where
  "protocol_ok p \<longleftrightarrow> strcasecmp_eq p ''TCP'' \<or> strcasecmp_eq p ''UDP'' \<or> strcasecmp_eq p ''TCP/UDP''"

section \<open>Firewall\<close>

text \<open>The comparison of a new rule with a row, value by value, up to the first difference.\<close>

fun same_rule :: "string option list \<Rightarrow> buf option list \<Rightarrow> bool run" where
  "same_rule (v # vs) (b # bs) =
     do { s \<leftarrow> v; x \<leftarrow> b; t \<leftarrow> str_of x; if s = t then same_rule vs bs else Some False }"
| "same_rule _ _ = Some True"

fun firewall_scan ::
    "act_ids \<Rightarrow> conf \<Rightarrow> int \<Rightarrow> string option list \<Rightarrow> nat list \<Rightarrow> buf option list \<Rightarrow> nat \<Rightarrow> (tcmRet + nat) run" where
  "firewall_scan I c pfIndex value [] bufs j = Some (Inr j)"
| "firewall_scan I c pfIndex value (i # is) bufs j =
     do { (r, bs) \<leftarrow> config_api_read_table_row c (id_firewall I) (int i) bufs;
          if r \<noteq> 0 then firewall_scan I c pfIndex value is bs j
          else if 0 < pfIndex \<and> pfIndex = int i then Some (Inl TCMRET_INVALID_EXIST)
          else do { same \<leftarrow> same_rule (take (PARA_FIREWALL_END - 1) value) bs;
                    if same then Some (Inl TCMRET_INVALID_SAME) else firewall_scan I c pfIndex value is bs (j + 1) } }"

definition actFirewall_checking :: "act_ids \<Rightarrow> 'w act_env \<Rightarrow> conf \<Rightarrow> int \<Rightarrow> string option list option \<Rightarrow> tcmRet run" where
  "actFirewall_checking I E c pfIndex value =
     (case value of None \<Rightarrow> Some TCMRET_INVALID_ARGUMENTS
      | Some vs \<Rightarrow> do {
          proto \<leftarrow> value_arg vs PARA_FIREWALL_PROTOCOL;
          if \<not> protocol_ok proto then Some TCMRET_INVALID_ARGUMENTS
          else do {
            r \<leftarrow> firewall_scan I c pfIndex vs [1..<Suc MAXTABLE_FIREWALL] (row_bufs E) 0;
            Some (case r of Inl e \<Rightarrow> e | Inr j \<Rightarrow> if j = MAXTABLE_FIREWALL then TCMRET_REACH_MAX_NUM else TCMRET_SUCCESS) } })"

definition firewall_rule :: "'w act_env \<Rightarrow> rule_action \<Rightarrow> string option list \<Rightarrow> string \<Rightarrow> 'w action" where
  "firewall_rule E action vs proto = do_actions E
     (ralIptables_setFirewall action None (Some proto) (vs ! (PARA_FIREWALL_SRCIP - 1)) (vs ! (PARA_FIREWALL_SRCMASK - 1))
        (vs ! (PARA_FIREWALL_SRCPORT - 1)) (vs ! (PARA_FIREWALL_DSTIP - 1)) (vs ! (PARA_FIREWALL_DSTMASK - 1))
        (vs ! (PARA_FIREWALL_DSTPORT - 1)) (Some ''DROP''))"

text \<open>The values of a row that has been read.\<close>

fun row_values :: "buf option list \<Rightarrow> string option list run" where
  "row_values [] = Some []"
| "row_values (b # bs) = do { x \<leftarrow> b; t \<leftarrow> str_of x; ts \<leftarrow> row_values bs; Some (Some t # ts) }"

definition actFirewall_setting :: "act_ids \<Rightarrow> 'w act_env \<Rightarrow> rule_action \<Rightarrow> int \<Rightarrow> string option list option \<Rightarrow> 'w action" where
  "actFirewall_setting I E action pfIndex value s =
     (case action of
        RULE_ADD \<Rightarrow> do {
          vs \<leftarrow> value;
          if length vs < PARA_FIREWALL_END - 1 then None
          else do {
            ret \<leftarrow> actFirewall_checking I E (act_conf s) pfIndex value;
            if ret \<noteq> TCMRET_SUCCESS then failed ret s
            else do { proto \<leftarrow> value_arg vs PARA_FIREWALL_PROTOCOL;
                      by_protocol proto ''udp'' (firewall_rule E action vs) (ret_code ret) s } } }
      | RULE_DELETE \<Rightarrow> do {
          (r, bs) \<leftarrow> config_api_read_table_row (act_conf s) (id_firewall I) pfIndex (row_bufs E);
          if r \<noteq> 0 then failed TCMRET_CONFLIB_READ_ERROR s
          else do { vs \<leftarrow> row_values bs; proto \<leftarrow> value_arg vs PARA_FIREWALL_PROTOCOL;
                    by_protocol proto ''udp'' (firewall_rule E action vs) 0 s } }
      | RULE_OTHER _ \<Rightarrow> failed TCMRET_INVALID_ARGUMENTS s)"

text \<open>Starting the firewall; the code passes \<^verbatim>\<open>tcp\<close> for a UDP rule.\<close>

fun firewall_rows :: "act_ids \<Rightarrow> 'w act_env \<Rightarrow> nat list \<Rightarrow> buf option list \<Rightarrow> UINT32 \<Rightarrow> 'w action" where
  "firewall_rows I E [] bufs ret s = Some (ret, s)"
| "firewall_rows I E (i # is) bufs ret s =
     do { (r, bs) \<leftarrow> config_api_read_table_row (act_conf s) (id_firewall I) (int i) bufs;
          if r \<noteq> 0 then failed TCMRET_CONFLIB_READ_ERROR s
          else do {
            vs \<leftarrow> row_values bs; proto \<leftarrow> value_arg vs PARA_FIREWALL_PROTOCOL;
            (ret1, s1) \<leftarrow> by_protocol proto ''tcp'' (firewall_rule E RULE_ADD vs) ret s;
            if ret1 \<noteq> 0 then Some (ret1, s1) else firewall_rows I E is bs ret1 s1 } }"

definition actFirewall_launcher :: "act_ids \<Rightarrow> 'w act_env \<Rightarrow> 'w action" where
  "actFirewall_launcher I E s = firewall_rows I E [1..<Suc MAXTABLE_FIREWALL] (row_bufs E) 0 s"

definition actFirewall_doconfig :: "act_ids \<Rightarrow> 'w act_env \<Rightarrow> int \<Rightarrow> 'w action" where
  "actFirewall_doconfig I E doAct s =
     (if doAct = APP_WRITE_RESTART \<or> doAct = APP_RESTART \<or> doAct = APP_START then actFirewall_launcher I E s
      else failed TCMRET_INVALID_ARGUMENTS s)"

section \<open>Port forwarding\<close>

text \<open>The start and end of the incoming and the forwarded ports; \<open>get\<close> reads a column.\<close>

definition port_numbers :: "'w act_env \<Rightarrow> (nat \<Rightarrow> string run) \<Rightarrow> (int \<times> int \<times> int \<times> int) run" where
  "port_numbers E get =
     do { a \<leftarrow> get PARA_PORTFORWARD_START_INCOMING_PORT; isp \<leftarrow> atoi E a;
          b \<leftarrow> get PARA_PORTFORWARD_END_INCOMING_PORT; iep \<leftarrow> atoi E b;
          c \<leftarrow> get PARA_PORTFORWARD_START_FORWARD_PORT; fsp \<leftarrow> atoi E c;
          d \<leftarrow> get PARA_PORTFORWARD_END_FORWARD_PORT; fep \<leftarrow> atoi E d;
          Some (isp, iep, fsp, fep) }"

fun portforward_scan ::
    "act_ids \<Rightarrow> 'w act_env \<Rightarrow> conf \<Rightarrow> int \<Rightarrow> string \<Rightarrow> int \<Rightarrow> int \<Rightarrow> nat list \<Rightarrow> buf option list \<Rightarrow> nat \<Rightarrow> (tcmRet + nat) run" where
  "portforward_scan I E c pfIndex proto isp iep [] bufs j = Some (Inr j)"
| "portforward_scan I E c pfIndex proto isp iep (i # is) bufs j =
     do { (r, bs) \<leftarrow> config_api_read_table_row c (id_portforward I) (int i) bufs;
          if r \<noteq> 0 then portforward_scan I E c pfIndex proto isp iep is bs j
          else if 0 < pfIndex \<and> pfIndex = int i then Some (Inl TCMRET_INVALID_EXIST)
          else do {
            a \<leftarrow> col bs PARA_PORTFORWARD_START_INCOMING_PORT; tmpIsp \<leftarrow> atoi E a;
            b \<leftarrow> col bs PARA_PORTFORWARD_END_INCOMING_PORT; tmpIep \<leftarrow> atoi E b;
            q \<leftarrow> col bs PARA_PORTFORWARD_PROTOCOL;
            same \<leftarrow> actUtil_isSameProtocol E (Some proto) (Some q);
            if same \<and> \<not> (iep < tmpIsp \<or> tmpIep < isp) then Some (Inl TCMRET_INVALID_DUPLICATE)
            else portforward_scan I E c pfIndex proto isp iep is bs (j + 1) } }"

definition actPortForward_checking :: "act_ids \<Rightarrow> 'w act_env \<Rightarrow> conf \<Rightarrow> int \<Rightarrow> string option list option \<Rightarrow> tcmRet run" where
  "actPortForward_checking I E c pfIndex value =
     (case value of None \<Rightarrow> Some TCMRET_INVALID_ARGUMENTS
      | Some vs \<Rightarrow> do {
          (isp, iep, fsp, fep) \<leftarrow> port_numbers E (value_arg vs);
          proto \<leftarrow> value_arg vs PARA_PORTFORWARD_PROTOCOL;
          if \<not> protocol_ok proto then Some TCMRET_INVALID_ARGUMENTS
          else if iep < isp then Some TCMRET_INVALID_ARGUMENTS
          else if fep < fsp then Some TCMRET_INVALID_ARGUMENTS
          else do {
            r \<leftarrow> portforward_scan I E c pfIndex proto isp iep [1..<Suc MAXTABLE_PORTFORWARD] (row_bufs E) 0;
            Some (case r of Inl e \<Rightarrow> e | Inr j \<Rightarrow> if j = MAXTABLE_PORTFORWARD then TCMRET_REACH_MAX_NUM else TCMRET_SUCCESS) } })"

definition portforward_rule :: "'w act_env \<Rightarrow> rule_action \<Rightarrow> int \<times> int \<times> int \<times> int \<Rightarrow> string \<Rightarrow> string \<Rightarrow> 'w action" where
  "portforward_rule E action ports server proto =
     (case ports of (isp, iep, fsp, fep) \<Rightarrow> do_actions E
        (ralIptables_setPortForwarding (spare_bytes E) action (Some INTERFACENAME_WAN) (Some proto) isp iep fsp fep (Some server)))"

definition actPortForward_setting :: "act_ids \<Rightarrow> 'w act_env \<Rightarrow> rule_action \<Rightarrow> int \<Rightarrow> string option list option \<Rightarrow> 'w action" where
  "actPortForward_setting I E action pfIndex value s =
     (let set = (\<lambda>get. do {
            ports \<leftarrow> port_numbers E get;
            a \<leftarrow> get PARA_PORTFORWARD_SERVER_IP; server \<leftarrow> sprintf BUFLEN_32 a;
            p \<leftarrow> get PARA_PORTFORWARD_PROTOCOL; proto \<leftarrow> sprintf BUFLEN_32 p;
            by_protocol proto ''udp'' (portforward_rule E action ports server) 0 s })
      in case action of
        RULE_ADD \<Rightarrow> do {
          ret \<leftarrow> actPortForward_checking I E (act_conf s) pfIndex value;
          if ret \<noteq> TCMRET_SUCCESS then failed ret s else do { vs \<leftarrow> value; set (value_arg vs) } }
      | RULE_DELETE \<Rightarrow> do {
          (r, bs) \<leftarrow> config_api_read_table_row (act_conf s) (id_portforward I) pfIndex (row_bufs E);
          if r \<noteq> 0 then failed TCMRET_CONFLIB_READ_ERROR s else set (col bs) }
      | RULE_OTHER _ \<Rightarrow> failed TCMRET_INVALID_ARGUMENTS s)"

fun portforward_rows :: "act_ids \<Rightarrow> 'w act_env \<Rightarrow> nat list \<Rightarrow> buf option list \<Rightarrow> UINT32 \<Rightarrow> 'w action" where
  "portforward_rows I E [] bufs ret s = Some (ret, s)"
| "portforward_rows I E (i # is) bufs ret s =
     do { (r, bs) \<leftarrow> config_api_read_table_row (act_conf s) (id_portforward I) (int i) bufs;
          if r \<noteq> 0 then failed TCMRET_CONFLIB_READ_ERROR s
          else do {
            ports \<leftarrow> port_numbers E (col bs);
            proto \<leftarrow> col bs PARA_PORTFORWARD_PROTOCOL;
            server \<leftarrow> col bs PARA_PORTFORWARD_SERVER_IP;
            (ret1, s1) \<leftarrow> by_protocol proto ''udp'' (portforward_rule E RULE_ADD ports server) ret s;
            if ret1 \<noteq> 0 then Some (ret1, s1) else portforward_rows I E is bs ret1 s1 } }"

definition actPortForward_launcher :: "act_ids \<Rightarrow> 'w act_env \<Rightarrow> 'w action" where
  "actPortForward_launcher I E s = portforward_rows I E [1..<Suc MAXTABLE_PORTFORWARD] (row_bufs E) 0 s"

definition actPortForward_doconfig :: "act_ids \<Rightarrow> 'w act_env \<Rightarrow> int \<Rightarrow> 'w action" where
  "actPortForward_doconfig I E doAct s =
     (if doAct = APP_WRITE_RESTART \<or> doAct = APP_RESTART \<or> doAct = APP_START then actPortForward_launcher I E s
      else failed TCMRET_INVALID_ARGUMENTS s)"

section \<open>DMZ\<close>

definition actDmz_configDmz :: "act_ids \<Rightarrow> 'w act_env \<Rightarrow> rule_action \<Rightarrow> 'w action" where
  "actDmz_configDmz I E ruleAction s =
     do { r \<leftarrow> read_pars E (act_conf s) [(id_dmz I, PARA_DMZ_IP, BUFLEN_18)];
          case r of
            Some [dmzIp] \<Rightarrow> do {
              (ret, s1) \<leftarrow> do_actions E (ralIptables_setDmz ruleAction (Some dmzIp) (Some INTERFACENAME_WAN)) s;
              if ret \<noteq> 0 then failed TCMRET_INTERNAL_ERROR s1 else failed TCMRET_SUCCESS s1 }
          | _ \<Rightarrow> failed TCMRET_CONFLIB_READ_ERROR s }"

definition actDmz_doConfig :: "act_ids \<Rightarrow> 'w act_env \<Rightarrow> int \<Rightarrow> 'w action" where
  "actDmz_doConfig I E doAct s =
     (if doAct = APP_WRITE_RESTART \<or> doAct = APP_RESTART \<or> doAct = APP_START then actDmz_configDmz I E RULE_ADD s
      else if doAct = APP_STOP then actDmz_configDmz I E RULE_DELETE s
      else failed TCMRET_INVALID_ARGUMENTS s)"

end
