(* ===== verification/Act_Apps.thy ===== *)
theory Act_Apps
  imports Act_Rules
begin

text \<open>
  \<^verbatim>\<open>confact/act_easyapp.c\<close>, \<^verbatim>\<open>act_dhcpd.c\<close>, \<^verbatim>\<open>act_dnsmasq.c\<close>, \<^verbatim>\<open>act_sntp.c\<close>, \<^verbatim>\<open>act_lan.c\<close>,
  \<^verbatim>\<open>act_wan.c\<close> and \<^verbatim>\<open>configact.c\<close>: starting, stopping and restarting applications through the
  scheduler, configuring the interfaces, and the two entry points of the library.
\<close>

section \<open>Applications without configuration\<close>

text \<open>What is asked of the scheduler about an application fails only when the answer is no pid.\<close>

definition ask_sched :: "'w act_env \<Rightarrow> UINT32 \<Rightarrow> int \<Rightarrow> string option \<Rightarrow> 'w action" where
  "ask_sched E msgType app data s =
     do { (pid, s1) \<leftarrow> actUtil_sendMsgToSched E msgType app data s;
          failed (if pid = of_int TCM_INVALID_PID then TCMRET_INTERNAL_ERROR else TCMRET_SUCCESS) s1 }"

definition do_config :: "'w action \<Rightarrow> 'w action \<Rightarrow> 'w action \<Rightarrow> int \<Rightarrow> 'w action" where
  "do_config restart start stop doAct s =
     (if doAct = APP_WRITE_RESTART \<or> doAct = APP_RESTART then restart s
      else if doAct = APP_START then start s
      else if doAct = APP_STOP then stop s
      else failed TCMRET_INVALID_ARGUMENTS s)"

definition actSyslog_stop where "actSyslog_stop I E = ask_sched E TCM_MSG_STOP_APP (id_syslogd I) None"
definition actSyslog_start where "actSyslog_start I E = ask_sched E TCM_MSG_START_APP (id_syslogd I) None"
definition actSyslog_restart where "actSyslog_restart I E = ask_sched E TCM_MSG_RESTART_APP (id_syslogd I) None"
definition actSyslog_doConfig where
  "actSyslog_doConfig I E = do_config (actSyslog_restart I E) (actSyslog_start I E) (actSyslog_stop I E)"

definition actInetd_stop where "actInetd_stop I E = ask_sched E TCM_MSG_STOP_APP (id_inetd I) None"
definition actInetd_start where "actInetd_start I E = ask_sched E TCM_MSG_START_APP (id_inetd I) None"
definition actInetd_restart where "actInetd_restart I E = ask_sched E TCM_MSG_RESTART_APP (id_inetd I) None"
definition actInetd_doConfig where
  "actInetd_doConfig I E = do_config (actInetd_restart I E) (actInetd_start I E) (actInetd_stop I E)"

definition actPcscd_stop where "actPcscd_stop I E = ask_sched E TCM_MSG_STOP_APP (id_pcscd I) None"
definition actPcscd_start where "actPcscd_start I E = ask_sched E TCM_MSG_START_APP (id_pcscd I) None"
definition actPcscd_restart where "actPcscd_restart I E = ask_sched E TCM_MSG_RESTART_APP (id_pcscd I) None"
definition actPcscd_doConfig where
  "actPcscd_doConfig I E = do_config (actPcscd_restart I E) (actPcscd_start I E) (actPcscd_stop I E)"

definition actSdkd_stop where "actSdkd_stop I E = ask_sched E TCM_MSG_STOP_APP (id_sdkd I) None"
definition actSdkd_start where "actSdkd_start I E = ask_sched E TCM_MSG_START_APP (id_sdkd I) None"
definition actSdkd_restart where "actSdkd_restart I E = ask_sched E TCM_MSG_RESTART_APP (id_sdkd I) None"
definition actSdkd_doConfig where
  "actSdkd_doConfig I E = do_config (actSdkd_restart I E) (actSdkd_start I E) (actSdkd_stop I E)"

definition actAutocm_stop where "actAutocm_stop I E = ask_sched E TCM_MSG_STOP_APP (id_autocm I) None"
definition actAutocm_start where "actAutocm_start I E = ask_sched E TCM_MSG_START_APP (id_autocm I) None"
definition actAutocm_restart where "actAutocm_restart I E = ask_sched E TCM_MSG_RESTART_APP (id_autocm I) None"
definition actAutocm_doConfig where
  "actAutocm_doConfig I E = do_config (actAutocm_restart I E) (actAutocm_start I E) (actAutocm_stop I E)"

section \<open>DHCP server, DNS and time\<close>

definition send_app :: "'w act_env \<Rightarrow> UINT32 \<Rightarrow> int \<Rightarrow> 'w action" where
  "send_app E msgType app s = actUtil_sendMsgToSched E msgType app None s"

definition routed_mode :: "string \<Rightarrow> bool" where
  "routed_mode m \<longleftrightarrow> strcasecmp_eq ''nat'' m \<or> strcasecmp_eq ''sroute'' m"

definition actDhcpd_stop where "actDhcpd_stop I E = send_app E TCM_MSG_STOP_APP (id_dhcpd I)"

definition actDhcpd_start :: "act_ids \<Rightarrow> 'w act_env \<Rightarrow> 'w action" where
  "actDhcpd_start I E s =
     do { (_, s1) \<leftarrow> do_actions E (run_commands BUFLEN_256 [spaced [''cp'', PATHDHCPDLEASES, PATHDHCPDLEASEFILE]]) s;
          m \<leftarrow> read_pars E (act_conf s1) [(id_wan I, PARA_WORK_MODE, BUFLEN_16)];
          case m of
            Some [workMode] \<Rightarrow>
              if \<not> routed_mode workMode then failed TCMRET_SUCCESS s1
              else do {
                d \<leftarrow> read_pars E (act_conf s1) [(id_dhcpd I, PARA_DHCPD_STATUS, BUFLEN_16)];
                case d of
                  Some [dhcpdStatus] \<Rightarrow>
                    if actUtil_statusStrToInt (Some dhcpdStatus) \<noteq> ASTATUS_ENABLE then failed TCMRET_SUCCESS s1
                    else do {
                      cmd \<leftarrow> sprintf BUFLEN_256 (spaced [''-cf'', PATHDHCPDCONF, ''-lf'', PATHDHCPDLEASEFILE, ''-d'', ''eth0'']);
                      ask_sched E TCM_MSG_START_APP (id_dhcpd I) (Some cmd) s1 }
                | _ \<Rightarrow> failed TCMRET_CONFLIB_READ_ERROR s1 }
          | _ \<Rightarrow> failed TCMRET_CONFLIB_READ_ERROR s1 }"

definition actDhcpd_restart :: "act_ids \<Rightarrow> 'w act_env \<Rightarrow> 'w action" where
  "actDhcpd_restart I E s = do { (_, s1) \<leftarrow> actDhcpd_stop I E s; actDhcpd_start I E s1 }"

definition actDhcpd_doConfig where
  "actDhcpd_doConfig I E = do_config (actDhcpd_restart I E) (actDhcpd_start I E) (actDhcpd_stop I E)"

definition actDnsmasq_stop where "actDnsmasq_stop I E = send_app E TCM_MSG_STOP_APP (id_dnsmasq I)"

definition actDnsmasq_start :: "act_ids \<Rightarrow> 'w act_env \<Rightarrow> 'w action" where
  "actDnsmasq_start I E s =
     do { m \<leftarrow> read_pars E (act_conf s) [(id_wan I, PARA_WORK_MODE, BUFLEN_16)];
          case m of
            Some [workMode] \<Rightarrow>
              if \<not> routed_mode workMode then failed TCMRET_SUCCESS s
              else do {
                l \<leftarrow> read_pars E (act_conf s) [(id_lan I, PARA_LAN_IP, BUFLEN_18)];
                case l of
                  Some [lanIp] \<Rightarrow> do {
                    cmd \<leftarrow> sprintf BUFLEN_64 (''-a '' @ lanIp);
                    ask_sched E TCM_MSG_START_APP (id_dnsmasq I) (Some cmd) s }
                | _ \<Rightarrow> failed TCMRET_CONFLIB_READ_ERROR s }
          | _ \<Rightarrow> failed TCMRET_CONFLIB_READ_ERROR s }"

definition actDnsmasq_restart :: "act_ids \<Rightarrow> 'w act_env \<Rightarrow> 'w action" where
  "actDnsmasq_restart I E s = do { (_, s1) \<leftarrow> actDnsmasq_stop I E s; actDnsmasq_start I E s1 }"

definition actDnsmasq_doConfig where
  "actDnsmasq_doConfig I E = do_config (actDnsmasq_restart I E) (actDnsmasq_start I E) (actDnsmasq_stop I E)"

definition actSntp_stop where "actSntp_stop I E = send_app E TCM_MSG_STOP_APP (id_sntp I)"

definition actSntp_start :: "act_ids \<Rightarrow> 'w act_env \<Rightarrow> 'w action" where
  "actSntp_start I E s =
     do { r \<leftarrow> read_pars E (act_conf s)
            (map (\<lambda>k. (id_sntp I, PARA_SNTP_NTPSERVER1 + k, BUFLEN_32)) [0, 1, 2, 3, 4] @ [(id_sntp I, PARA_SNTP_TIMEZONEINDEX, BUFLEN_8)]);
          case r of
            Some [n1, n2, n3, n4, n5, tz] \<Rightarrow> do {
              z \<leftarrow> atoi E tz;
              cmd \<leftarrow> sprintf BUFLEN_128
                (spaced [''-s'', n1, ''-s'', n2, ''-s'', n3, ''-s'', n4, ''-s'', n5, ''-t'', show_int z]);
              ask_sched E TCM_MSG_START_APP (id_sntp I) (Some cmd) s }
          | _ \<Rightarrow> failed TCMRET_CONFLIB_READ_ERROR s }"

definition actSntp_restart :: "act_ids \<Rightarrow> 'w act_env \<Rightarrow> 'w action" where
  "actSntp_restart I E s = do { (_, s1) \<leftarrow> actSntp_stop I E s; actSntp_start I E s1 }"

definition actSntp_doConfig where
  "actSntp_doConfig I E = do_config (actSntp_restart I E) (actSntp_start I E) (actSntp_stop I E)"

section \<open>Interfaces\<close>

definition actLan_configLan :: "act_ids \<Rightarrow> 'w act_env \<Rightarrow> 'w action" where
  "actLan_configLan I E s =
     do { r \<leftarrow> read_pars E (act_conf s) [(id_lan I, PARA_LAN_IP, BUFLEN_18), (id_lan I, PARA_LAN_MASK, BUFLEN_18)];
          case r of
            Some [lanIp, lanMask] \<Rightarrow> do {
              (ret, s1) \<leftarrow> do_actions E (ralLan_doConfig lanIp lanMask) s;
              if ret \<noteq> 0 then failed TCMRET_INTERNAL_ERROR s1 else failed TCMRET_SUCCESS s1 }
          | _ \<Rightarrow> failed TCMRET_CONFLIB_READ_ERROR s }"

definition actLan_doConfig :: "act_ids \<Rightarrow> 'w act_env \<Rightarrow> int \<Rightarrow> 'w action" where
  "actLan_doConfig I E doAct s =
     (if doAct = APP_WRITE_RESTART \<or> doAct = APP_RESTART \<or> doAct = APP_START then actLan_configLan I E s
      else failed TCMRET_INVALID_ARGUMENTS s)"

text \<open>Actions one after the other, whatever each returns.\<close>

fun in_turn :: "'w action list \<Rightarrow> 'w act \<Rightarrow> 'w act run" where
  "in_turn [] s = Some s"
| "in_turn (f # fs) s = do { (_, s1) \<leftarrow> f s; in_turn fs s1 }"

text \<open>The parameters of the WAN, and the set-up in each of its modes; \<open>refresh\<close> is \<open>config_act_refresh_apps\<close>.\<close>

definition wan_params :: "act_ids \<Rightarrow> (int \<times> int \<times> nat) list" where
  "wan_params I =
     map (\<lambda>p. (id_wan I, p, BUFLEN_18))
       [PARA_WORK_MODE, PARA_WAN_MODE, PARA_WAN_IP, PARA_WAN_NETMASK, PARA_WAN_GATEWAY, PARA_WAN_MTU, PARA_WAN_BRIDGEIP]
     @ map (\<lambda>p. (id_wan I, p, BUFLEN_8))
       [PARA_WAN_BRIDGEMASKBIT, PARA_WAN_VLANID, PARA_WAN_VLANSKBPRIO, PARA_WAN_VLANPRIO]"

definition wan_routed ::
    "(int \<Rightarrow> int \<Rightarrow> 'w action) \<Rightarrow> act_ids \<Rightarrow> 'w act_env \<Rightarrow> string \<Rightarrow> string \<Rightarrow> string \<Rightarrow> string \<Rightarrow> string \<Rightarrow> string \<Rightarrow> 'w act \<Rightarrow> 'w act run" where
  "wan_routed refresh I E workMode wanMode ip netm gw mtu =
     in_turn
       ([do_actions E ((if strcasecmp_eq ''nat'' workMode then ralIptables_initNat else ralIptables_initSroute)
           (Some INTERFACENAME_WAN) (Some INTERFACENAME_LAN)),
         refresh (id_portforward I) APP_START, refresh (id_firewall I) APP_START, refresh (id_dmz I) APP_START,
         do_actions E (run_commands BUFLEN_512 [''modprobe ip_nat_ftp'']),
         do_actions E ralIptables_setMss]
        @ (if strcasecmp_eq ''static'' wanMode then [do_actions E (ralWan_doConfig RULE_ADD INTERFACENAME_WAN ip netm gw mtu)] else []))"

definition wan_bridge :: "'w act_env \<Rightarrow> string \<Rightarrow> string \<Rightarrow> 'w act \<Rightarrow> 'w act run" where
  "wan_bridge E bip maskbit s =
     do { s1 \<leftarrow> in_turn [do_actions E (run_commands BUFLEN_512 [spaced [''ifconfig'', INTERFACENAME_WAN, ''mtu'', ''1500'', ''up'']])] s;
          mb \<leftarrow> atoi E maskbit;
          in_turn
            [do_actions E (ralIptables_setBridge RULE_ADD (Some INTERFACENAME_WAN) (Some INTERFACENAME_LAN) (Some INTERFACENAME_BRIDGE) (Some bip) mb),
             do_actions E (run_commands BUFLEN_512 [spaced [''ifconfig'', INTERFACENAME_LAN, ''0.0.0.0'']])] s1 }"

definition wan_vlan :: "'w act_env \<Rightarrow> string \<Rightarrow> string \<Rightarrow> string \<Rightarrow> string \<Rightarrow> string \<Rightarrow> 'w act \<Rightarrow> 'w act run" where
  "wan_vlan E bip maskbit vid skb prio s =
     do { v \<leftarrow> atoi E vid; k \<leftarrow> atoi E skb; p \<leftarrow> atoi E prio;
          (ret, s1) \<leftarrow> do_actions E (ralWan_setVlan RULE_ADD (Some INTERFACENAME_WAN) v k p) s;
          s2 \<leftarrow> (if ret \<noteq> 0 then Some s1
                else do {
                  name \<leftarrow> sprintf BUFLEN_18 (INTERFACENAME_WAN @ ''.'' @ show_int v);
                  mb \<leftarrow> atoi E maskbit;
                  in_turn [do_actions E (ralIptables_setBridge RULE_ADD (Some name) (Some INTERFACENAME_LAN) (Some INTERFACENAME_BRIDGE) (Some bip) mb)] s1 });
          in_turn [do_actions E (run_commands BUFLEN_512 [spaced [''ifconfig'', INTERFACENAME_LAN, ''0.0.0.0'']])] s2 }"

definition actWan_configWan :: "(int \<Rightarrow> int \<Rightarrow> 'w action) \<Rightarrow> act_ids \<Rightarrow> 'w act_env \<Rightarrow> 'w action" where
  "actWan_configWan refresh I E s =
     do { r \<leftarrow> read_pars E (act_conf s) (wan_params I);
          case r of
            Some [workMode, wanMode, ip, netm, gw, mtu, bip, maskbit, vid, skb, prio] \<Rightarrow>
              (let finish = (\<lambda>s1. do { (_, s2) \<leftarrow> actUtil_sendMsgToSched E TCM_MSG_START_APP (id_thttpd I) None s1;
                                       failed TCMRET_SUCCESS s2 }) in
               if routed_mode workMode then do { s1 \<leftarrow> wan_routed refresh I E workMode wanMode ip netm gw mtu s; finish s1 }
               else if strcasecmp_eq ''bridge'' workMode then do { s1 \<leftarrow> wan_bridge E bip maskbit s; finish s1 }
               else if strcasecmp_eq ''vlan'' workMode then do { s1 \<leftarrow> wan_vlan E bip maskbit vid skb prio s; finish s1 }
               else failed TCMRET_CONFLIB_PARAMETER_INVALID s)
          | _ \<Rightarrow> failed TCMRET_CONFLIB_READ_ERROR s }"

definition actWan_doConfig :: "(int \<Rightarrow> int \<Rightarrow> 'w action) \<Rightarrow> act_ids \<Rightarrow> 'w act_env \<Rightarrow> int \<Rightarrow> 'w action" where
  "actWan_doConfig refresh I E doAct s =
     (if doAct = APP_START then actWan_configWan refresh I E (s\<lparr>act_world := act_sleep E 5 (act_world s)\<rparr>)
      else if doAct = APP_WRITE_RESTART \<or> doAct = APP_RESTART then actWan_configWan refresh I E s
      else failed TCMRET_INVALID_ARGUMENTS s)"

section \<open>The entry points (\<^verbatim>\<open>configact.c\<close>)\<close>

definition config_act_run :: "(int \<Rightarrow> int \<Rightarrow> 'w action) \<Rightarrow> act_ids \<Rightarrow> 'w act_env \<Rightarrow> int \<Rightarrow> int \<Rightarrow> 'w action" where
  "config_act_run refresh I E app act s =
     (if app = id_syslogd I then actSyslog_doConfig I E act s
      else if app = id_inetd I then actInetd_doConfig I E act s
      else if app = id_pcscd I then actPcscd_doConfig I E act s
      else if app = id_sdkd I then actSdkd_doConfig I E act s
      else if app = id_autocm I then actAutocm_doConfig I E act s
      else if app = id_lan I then actLan_doConfig I E act s
      else if app = id_dhcpd I then actDhcpd_doConfig I E act s
      else if app = id_dnsmasq I then actDnsmasq_doConfig I E act s
      else if app = id_wan I then actWan_doConfig refresh I E act s
      else if app = id_sntp I then actSntp_doConfig I E act s
      else if app = id_portforward I then actPortForward_doconfig I E act s
      else if app = id_firewall I then actFirewall_doconfig I E act s
      else if app = id_dmz I then actDmz_doConfig I E act s
      else failed TCMRET_INVALID_ARGUMENTS s)"

definition write_flash :: "'w act_env \<Rightarrow> 'w action" where
  "write_flash E s =
     do { (r, c1) \<leftarrow> config_api_write_to_flash (act_opens E ''./os.conf'') (act_conf s);
          Some (of_int r, s\<lparr>act_conf := c1\<rparr>) }"

text \<open>
  The WAN refreshes three other applications through this function; \<open>n\<close> bounds the depth of the calls.
\<close>

fun config_act_refresh_apps :: "nat \<Rightarrow> act_ids \<Rightarrow> 'w act_env \<Rightarrow> int \<Rightarrow> int \<Rightarrow> 'w action" where
  "config_act_refresh_apps 0 I E app act s = None"
| "config_act_refresh_apps (Suc n) I E app act s =
     (if id_allend I \<le> app \<or> app \<le> 0 \<or> app = id_end I \<or> APP_NO_ACTION \<le> act \<or> act \<le> 0
      then failed TCMRET_INVALID_ARGUMENTS s
      else if id_end I < app \<and> (act = APP_WRITE \<or> act = APP_WRITE_RESTART)
      then failed TCMRET_INVALID_ARGUMENTS s
      else if act = APP_WRITE then write_flash E s
      else if act = APP_WRITE_RESTART then do {
        (ret, s1) \<leftarrow> write_flash E s;
        if ret \<noteq> 0 then failed TCMRET_WRITE_FLASH_ERROR s1
        else config_act_run (config_act_refresh_apps n I E) I E app act s1 }
      else config_act_run (config_act_refresh_apps n I E) I E app act s)"

definition config_act_refresh_tables ::
    "act_ids \<Rightarrow> 'w act_env \<Rightarrow> int \<Rightarrow> rule_action \<Rightarrow> int \<Rightarrow> string option list option \<Rightarrow> 'w action" where
  "config_act_refresh_tables I E app action tabIndex value s =
     (if id_end I \<le> app then failed TCMRET_INVALID_ARGUMENTS s
      else if app = id_portforward I then actPortForward_setting I E action tabIndex value s
      else if app = id_firewall I then actFirewall_setting I E action tabIndex value s
      else failed TCMRET_INVALID_ARGUMENTS s)"

end
