(* ===== verification/Conf_Demo.thy ===== *)
theory Conf_Demo
  imports Conf_Delete
begin

text \<open>
  A small memory and entity table on which the properties of the library are exercised: the
  application \<^verbatim>\<open>lan\<close> with two parameters and one table row, and \<^verbatim>\<open>dhcpd\<close> with one parameter.
\<close>

definition demo_para :: "int \<Rightarrow> string \<Rightarrow> string \<Rightarrow> int \<Rightarrow> para_node" where
  "demo_para i n v nxt = \<lparr>para_id = i, para_name = pad 240 n, para_val = pad 640 v, para_next = nxt\<rparr>"

definition demo_shm :: shm where
  "demo_shm = \<lparr>magic1 = 0xf0f0f0f0,
     apps = [\<lparr>app_id = 1, app_name = pad 240 ''lan'', app_para = 552, app_row = 516, app_next = 260\<rparr>,
             \<lparr>app_id = 2, app_name = pad 240 ''dhcpd'', app_para = 4104, app_row = 0, app_next = 0\<rparr>],
     rows = [\<lparr>row_id = 65792, row_para = 2328, row_next = 0\<rparr>,
             \<lparr>row_id = - 1, row_para = 0, row_next = 0\<rparr>,
             \<lparr>row_id = - 1, row_para = 0, row_next = 0\<rparr>],
     paras = [demo_para 65537 ''ip'' ''10.0.0.1'' 1440, demo_para 65538 ''mask'' ''255.0.0.0'' 0,
              demo_para 65793 ''mac'' ''aa'' 3216, demo_para 65794 ''host'' ''printer'' 0,
              demo_para 131073 ''lease'' ''3600'' 0, demo_para (- 1) '''' '''' 0,
              demo_para (- 1) '''' '''' 0, demo_para (- 1) '''' '''' 0],
     magic2 = 0x0f0f0f0f\<rparr>"

definition demo_tree :: tree where
  "demo_tree = [([0, 1], [(0, [2, 3])]), ([4], [])]"

definition demo_conf :: conf where
  "demo_conf = \<lparr>cache_addr = Some demo_shm, gRecordWriteID = ''00'', gMaxAppNum = 2, gMaxTabNum = 3,
     gMaxParaNum = 8, gMMAPSIZE = 7660, semv = Some 1, shm_key = True, PARAMETER_FILE = None, DEFAULT_FILE = None\<rparr>"

definition demo_tab :: "tcmEntityInfo list" where
  "demo_tab =
    [ \<lparr>eid = ID_LAN, ei_name = ''lan'', ei_path = '''', runArgs = '''', ei_flags = 0,
       backLog = 0, port = 0, featureCompiled = True, app_maxnum = PARA_LAN_END,
       row_paras = Some [\<lparr>pi_id = 1, pi_name = Some ''mac''\<rparr>, \<lparr>pi_id = 2, pi_name = Some ''host''\<rparr>,
                         \<lparr>pi_id = 0, pi_name = None\<rparr>],
       row_maxnum = 3, row_end = 3\<rparr>,
      \<lparr>eid = ID_DHCPD, ei_name = ''dhcpd'', ei_path = ''/bin/dhcpd'', runArgs = '''',
       ei_flags = 0, backLog = 0, port = 0, featureCompiled = True,
       app_maxnum = PARA_DHCPD_END, row_paras = None, row_maxnum = 0, row_end = 0\<rparr>,
      \<lparr>eid = ID_END, ei_name = '''', ei_path = '''', runArgs = '''',
       ei_flags = 0, backLog = 0, port = 0, featureCompiled = True,
       app_maxnum = 0, row_paras = None, row_maxnum = 0, row_end = 0\<rparr> ]"

lemma buf_ok_pad: "length s < n \<Longrightarrow> buf_ok n (pad n s)"
  by (cases "n - length s") (auto simp: buf_ok_def pad_def last_replicate simp del: replicate_Suc)

lemma demo_para_fields [simp]:
  "para_id (demo_para i n v z) = i" "para_next (demo_para i n v z) = z"
  "para_name (demo_para i n v z) = pad 240 n" "para_val (demo_para i n v z) = pad 640 v"
  by (simp_all add: demo_para_def)

lemma demo_nodes [simp]:
  "apps demo_shm = [\<lparr>app_id = 1, app_name = pad 240 ''lan'', app_para = 552, app_row = 516, app_next = 260\<rparr>,
     \<lparr>app_id = 2, app_name = pad 240 ''dhcpd'', app_para = 4104, app_row = 0, app_next = 0\<rparr>]"
  "rows demo_shm = [\<lparr>row_id = 65792, row_para = 2328, row_next = 0\<rparr>,
     \<lparr>row_id = - 1, row_para = 0, row_next = 0\<rparr>, \<lparr>row_id = - 1, row_para = 0, row_next = 0\<rparr>]"
  "paras demo_shm = [demo_para 65537 ''ip'' ''10.0.0.1'' 1440, demo_para 65538 ''mask'' ''255.0.0.0'' 0,
     demo_para 65793 ''mac'' ''aa'' 3216, demo_para 65794 ''host'' ''printer'' 0,
     demo_para 131073 ''lease'' ''3600'' 0, demo_para (- 1) '''' '''' 0,
     demo_para (- 1) '''' '''' 0, demo_para (- 1) '''' '''' 0]"
  by (simp_all add: demo_shm_def)

lemma demo_at [simp]:
  "para_at demo_shm = node_at 552 888 8" "row_at demo_shm = node_at 516 12 3"
  "app_at demo_shm = node_at 4 256 2" "APP_START_NODE demo_shm = 4"
  by (simp_all add: fun_eq_iff para_at_def row_at_def app_at_def PARA_START_NODE_def ROW_START_NODE_def
      APP_START_NODE_def sizeof_defs eval_nat_numeral)

lemma demo_represents: "represents demo_shm demo_tree"
  unfolding represents_def
proof (intro conjI)
  show "apps_ok demo_shm (length demo_tree)"
    by (simp add: apps_ok_def demo_tree_def All_less_Suc app_off_def sizeof_defs)
  show "\<forall>i < length demo_tree. app_repr demo_shm (apps demo_shm ! i) (demo_tree ! i)"
    by (simp add: demo_tree_def All_less_Suc app_repr_def node_at_def Let_def)
  show "distinct (tree_rows demo_tree)" "distinct (tree_paras demo_tree)" by (simp_all add: demo_tree_def)
  show "bufs_ok demo_shm"
    by (simp add: bufs_ok_def MAX_NAME_LEN_def MAX_VALUE_LEN_def buf_ok_pad)
qed

lemma demo_ids:
  "0 < a \<Longrightarrow> a < 3 \<Longrightarrow> 0 \<le> x \<Longrightarrow> x < 256 \<Longrightarrow> 0 \<le> k \<Longrightarrow> k < 256 \<Longrightarrow> GET_PARA_ID a x k = a * 65536 + x * 256 + k"
  "0 < a \<Longrightarrow> a < 3 \<Longrightarrow> 0 \<le> x \<Longrightarrow> x < 256 \<Longrightarrow> GET_ROW_ID a x = a * 65536 + x * 256"
  by (simp_all add: ids_exact app_range_def ID_END_def)

lemma demo_numbered: "numbered demo_shm demo_tree"
  by (simp add: numbered_def demo_tree_def All_less_Suc app_numbered_def plist_numbered_def row_number_def
      Let_def demo_ids ID_END_def)

lemma demo_wf: "wf_shm demo_shm"
  unfolding wf_shm_def using demo_represents demo_numbered by blast

lemma demo_tbl:
  "tbl demo_shm (1, 0) = Some [(''ip'', ''10.0.0.1''), (''mask'', ''255.0.0.0'')]"
  "tbl demo_shm (1, 1) = Some [(''mac'', ''aa''), (''host'', ''printer'')]"
  "tbl demo_shm (1, 2) = None" "tbl demo_shm (2, 0) = Some [(''lease'', ''3600'')]"
  by (simp_all add: tbl_tree[OF demo_represents demo_numbered] tree_lists_def demo_tree_def app_lists_def
      row_number_def entry_def cstr_pad)

lemma demo_free: "free_rows demo_shm = 2" "free_paras demo_shm = 3"
  by (simp_all add: free_rows_def free_paras_def)

lemma demo_ready: "ready demo_conf demo_shm"
  by (simp add: ready_def demo_conf_def demo_wf)

end
