(* ===== verification/Conf_Db.thy ===== *)
theory Conf_Db
  imports Conf_Demo
begin

text \<open>
  The configuration database as its clients use it: two interfaces (values under keys, rows that
  come and go), the library as an instance of both, and the properties of the handlers.
\<close>

section \<open>Values under keys\<close>

text \<open>
  A store with a read and a write operation. A write succeeds exactly when the key exists; it
  then changes the value of this key, cut by \<open>cut\<close>, and nothing else.
\<close>

locale config_store =
  fixes ok :: "'s \<Rightarrow> bool"
    and view :: "'s \<Rightarrow> 'k \<Rightarrow> 'v option"
    and rd :: "'s \<Rightarrow> 'k \<Rightarrow> 'v option"
    and wr :: "'s \<Rightarrow> 'k \<Rightarrow> 'v \<Rightarrow> bool \<times> 's"
    and key :: "'k \<Rightarrow> bool"
    and good :: "'v \<Rightarrow> bool"
    and cut :: "'v \<Rightarrow> 'v"
  assumes rd_view: "ok s \<Longrightarrow> key k \<Longrightarrow> rd s k = view s k"
    and wr_absent: "ok s \<Longrightarrow> key k \<Longrightarrow> good v \<Longrightarrow> view s k = None \<Longrightarrow> wr s k v = (False, s)"
    and wr_present: "ok s \<Longrightarrow> key k \<Longrightarrow> good v \<Longrightarrow> view s k \<noteq> None \<Longrightarrow>
      fst (wr s k v) \<and> ok (snd (wr s k v)) \<and> view (snd (wr s k v)) = (view s)(k \<mapsto> cut v)"
begin

lemma wr_ok: "ok s \<Longrightarrow> key k \<Longrightarrow> good v \<Longrightarrow> ok (snd (wr s k v))"
  using wr_absent[of s k v] wr_present[of s k v] by (cases "view s k = None") auto

lemma wr_view:
  "ok s \<Longrightarrow> key k \<Longrightarrow> good v \<Longrightarrow>
   view (snd (wr s k v)) = (if view s k = None then view s else (view s)(k \<mapsto> cut v))"
  using wr_absent[of s k v] wr_present[of s k v] by auto

lemma wr_succeeds: "ok s \<Longrightarrow> key k \<Longrightarrow> good v \<Longrightarrow> fst (wr s k v) \<longleftrightarrow> view s k \<noteq> None"
  using wr_absent[of s k v] wr_present[of s k v] by (cases "view s k = None") auto

lemma wr_dom: "ok s \<Longrightarrow> key k \<Longrightarrow> good v \<Longrightarrow> dom (view (snd (wr s k v))) = dom (view s)"
  by (auto simp: wr_view split: if_splits)

lemma read_written:
  "ok s \<Longrightarrow> key k \<Longrightarrow> good v \<Longrightarrow> fst (wr s k v) \<Longrightarrow> rd (snd (wr s k v)) k = Some (cut v)"
  by (simp add: rd_view wr_ok wr_view wr_succeeds)

lemma read_other:
  "ok s \<Longrightarrow> key k \<Longrightarrow> key k' \<Longrightarrow> good v \<Longrightarrow> k' \<noteq> k \<Longrightarrow> rd (snd (wr s k v)) k' = rd s k'"
  by (simp add: rd_view wr_ok wr_view)

text \<open>A sequence of writes: every key has the last value that was written to it.\<close>

primrec wr_all :: "'s \<Rightarrow> ('k \<times> 'v) list \<Rightarrow> 's" where
  "wr_all s [] = s"
| "wr_all s (w # ws) = wr_all (snd (wr s (fst w) (snd w))) ws"

lemma wr_all_view:
  assumes "ok s" and "\<forall>w \<in> set ws. key (fst w) \<and> good (snd w)"
  shows "ok (wr_all s ws) \<and> view (wr_all s ws) = (\<lambda>k. if view s k = None then None else
           case map_of (rev ws) k of None \<Rightarrow> view s k | Some v \<Rightarrow> Some (cut v))"
  using assms
proof (induction ws arbitrary: s)
  case Nil
  then show ?case by (simp add: fun_eq_iff)
next
  case (Cons w ws)
  let ?s = "snd (wr s (fst w) (snd w))"
  have s: "ok ?s" using Cons.prems by (simp add: wr_ok)
  with Cons have IH: "ok (wr_all ?s ws)" "view (wr_all ?s ws) = (\<lambda>k. if view ?s k = None then None else
           case map_of (rev ws) k of None \<Rightarrow> view ?s k | Some v \<Rightarrow> Some (cut v))" by auto
  have "view ?s = (if view s (fst w) = None then view s else (view s)(fst w \<mapsto> cut (snd w)))"
    using Cons.prems by (simp add: wr_view)
  with IH show ?case
    by (auto simp: fun_eq_iff map_add_def map_of_append split: option.splits)
qed

lemma rd_all:
  assumes "ok s" and "\<forall>w \<in> set ws. key (fst w) \<and> good (snd w)" and "key k" and "view s k \<noteq> None"
  shows "rd (wr_all s ws) k = (case map_of (rev ws) k of None \<Rightarrow> view s k | Some v \<Rightarrow> Some (cut v))"
  using wr_all_view[OF assms(1,2)] assms(3,4) by (auto simp: rd_view)

end

section \<open>Rows that come and go\<close>

text \<open>
  A set of rows with an operation that adds a row where none is and one that removes a row;
  \<open>room s\<close> counts the free rows and the free entries, and removing a row makes its room available
  again.
\<close>

locale row_store =
  fixes ok :: "'s \<Rightarrow> bool"
    and view :: "'s \<Rightarrow> 'r \<Rightarrow> 'e option"
    and add :: "'s \<Rightarrow> 'r \<Rightarrow> 'v \<Rightarrow> bool \<times> 's"
    and del :: "'s \<Rightarrow> 'r \<Rightarrow> bool \<times> 's"
    and row :: "'r \<Rightarrow> bool"
    and arg :: "'s \<Rightarrow> 'r \<Rightarrow> 'v \<Rightarrow> bool"
    and entry :: "'r \<Rightarrow> 'v \<Rightarrow> 'e"
    and room :: "'s \<Rightarrow> nat \<times> nat"
    and need :: "'e \<Rightarrow> nat"
  assumes add_new: "ok s \<Longrightarrow> row r \<Longrightarrow> arg s r v \<Longrightarrow> view s r = None \<Longrightarrow>
      0 < fst (room s) \<Longrightarrow> need (entry r v) \<le> snd (room s) \<Longrightarrow>
      fst (add s r v) \<and> ok (snd (add s r v)) \<and> view (snd (add s r v)) = (view s)(r \<mapsto> entry r v)"
    and add_old: "ok s \<Longrightarrow> row r \<Longrightarrow> arg s r v \<Longrightarrow> view s r \<noteq> None \<Longrightarrow> add s r v = (False, s)"
    and del_old: "ok s \<Longrightarrow> row r \<Longrightarrow> view s r = Some e \<Longrightarrow>
      fst (del s r) \<and> ok (snd (del s r)) \<and> view (snd (del s r)) = (view s)(r := None) \<and>
      room (snd (del s r)) = (fst (room s) + 1, snd (room s) + need e)"
begin

lemma add_del:
  assumes "ok s" and "row r" and "arg s r v" and "view s r = None"
    and "0 < fst (room s)" and "need (entry r v) \<le> snd (room s)"
  shows "fst (del (snd (add s r v)) r)" and "view (snd (del (snd (add s r v)) r)) = view s"
proof -
  have a: "ok (snd (add s r v))" "view (snd (add s r v)) = (view s)(r \<mapsto> entry r v)"
    using add_new[OF assms] by auto
  then have "view (snd (add s r v)) r = Some (entry r v)" by simp
  from del_old[OF a(1) assms(2) this] a(2) assms(4)
  show "fst (del (snd (add s r v)) r)" "view (snd (del (snd (add s r v)) r)) = view s"
    by (auto simp: fun_upd_idem)
qed

lemma add_twice:
  assumes "ok s" and "row r" and "arg s r v" and "view s r = None"
    and "0 < fst (room s)" and "need (entry r v) \<le> snd (room s)" and "arg (snd (add s r v)) r w"
  shows "add (snd (add s r v)) r w = (False, snd (add s r v))"
  using add_new[OF assms(1-6)] by (intro add_old) (use assms in auto)

lemma replace_row:
  assumes "ok s" and "row r" and "view s r = Some e" and "arg (snd (del s r)) r v" and "need (entry r v) \<le> need e"
  shows "fst (add (snd (del s r)) r v)" and "view (snd (add (snd (del s r)) r v)) = (view s)(r \<mapsto> entry r v)"
proof -
  from del_old[OF assms(1-3)] have d: "ok (snd (del s r))" "view (snd (del s r)) = (view s)(r := None)"
    "room (snd (del s r)) = (fst (room s) + 1, snd (room s) + need e)" by auto
  have "fst (add (snd (del s r)) r v) \<and> view (snd (add (snd (del s r)) r v)) = (view (snd (del s r)))(r \<mapsto> entry r v)"
    using add_new[OF d(1) assms(2,4)] d assms(5) by simp
  with d(2) show "fst (add (snd (del s r)) r v)"
    "view (snd (add (snd (del s r)) r v)) = (view s)(r \<mapsto> entry r v)" by auto
qed

end

section \<open>The library as a store\<close>

text \<open>
  A client's state is the library state; \<open>conf_ok\<close> holds when the library is initialised, its
  memory is well formed and the semaphore exists and is free. \<open>read_key\<close> is a caller that passes
  a cleared buffer of \<^verbatim>\<open>MAX_VALUE_LEN\<close> characters and looks at the result only on success.
\<close>

definition conf_ok :: "conf \<Rightarrow> bool" where
  "conf_ok c \<longleftrightarrow> (\<exists>m. ready c m)"

definition conf_view :: "conf \<Rightarrow> int \<times> int \<times> int \<Rightarrow> string option" where
  "conf_view c = (case cache_addr c of None \<Rightarrow> (\<lambda>k. None) | Some m \<Rightarrow> cfg m)"

definition conf_rows :: "conf \<Rightarrow> int \<times> int \<Rightarrow> (string \<times> string) list option" where
  "conf_rows c = (case cache_addr c of None \<Rightarrow> (\<lambda>k. None) | Some m \<Rightarrow> tbl m)"

definition zero_buf :: buf where
  "zero_buf = replicate MAX_VALUE_LEN NUL"

definition read_key :: "conf \<Rightarrow> int \<times> int \<times> int \<Rightarrow> string option" where
  "read_key c = (\<lambda>(a, x, k).
     case (if x = 0 then config_api_read_parameter c a k (Some zero_buf)
           else config_api_read_table_parameter c a x k (Some zero_buf)) of
       Some (r, Some b) \<Rightarrow> if r = 0 then Some (cstr b) else None
     | _ \<Rightarrow> None)"

definition write_key :: "conf \<Rightarrow> int \<times> int \<times> int \<Rightarrow> string \<Rightarrow> bool \<times> conf" where
  "write_key c = (\<lambda>(a, x, k) v.
     case (if x = 0 then config_api_write_parameter c a k (Some v)
           else config_api_write_table_parameter c a x k (Some v)) of
       Some (r, c') \<Rightarrow> (r = 0, c') | None \<Rightarrow> (False, c))"

definition key_ok :: "int \<times> int \<times> int \<Rightarrow> bool" where
  "key_ok = (\<lambda>(a, x, k). app_range a \<and> is_int (x * 256) \<and> is_int k)"

definition value_ok :: "string \<Rightarrow> bool" where
  "value_ok v \<longleftrightarrow> NUL \<notin> set v"

lemma readyE:
  assumes "ready c m"
  obtains T s where "cache_addr c = Some m" "represents m T" "numbered m T" "semv c = Some (Suc s)"
  using assms by (auto simp: ready_def wf_shm_def)

lemma ready_written: "ready c m \<Longrightarrow> wf_shm m' \<Longrightarrow> ready (written c a m') m'"
  by (auto simp: ready_def written_def)

lemma written_view [simp]:
  "conf_view (written c a m') = cfg m'" "conf_rows (written c a m') = tbl m'"
  "cache_addr (written c a m') = Some m'"
  by (simp_all add: conf_view_def conf_rows_def written_def)

lemma read_value:
  assumes "cache_addr c = Some m" and "wf_shm m" and a: "app_range a" and k: "is_int k"
    and b: "MAX_VALUE_LEN \<le> length b"
  shows "config_api_read_parameter c a k (Some b) =
     Some (case cfg m (a, 0, k) of None \<Rightarrow> (- 1, Some b) | Some s \<Rightarrow> (0, Some (read_into b s)))"
    and "is_int (x * 256) \<Longrightarrow> x \<noteq> 0 \<Longrightarrow> config_api_read_table_parameter c a x k (Some b) =
     Some (case cfg m (a, x, k) of None \<Rightarrow> (- 1, Some b) | Some s \<Rightarrow> (0, Some (read_into b s)))"
proof -
  from assms(2) obtain T where T: "represents m T" "numbered m T" by (rule wf_shmE)
  show "config_api_read_parameter c a k (Some b) =
     Some (case cfg m (a, 0, k) of None \<Rightarrow> (- 1, Some b) | Some s \<Rightarrow> (0, Some (read_into b s)))"
    using read_result[OF T _ b, of 0 a k]
    by (simp add: read_parameter_locate[OF assms(1) a] locate_node_of[OF T k] is_int_def)
  show "config_api_read_table_parameter c a x k (Some b) =
     Some (case cfg m (a, x, k) of None \<Rightarrow> (- 1, Some b) | Some s \<Rightarrow> (0, Some (read_into b s)))"
    if "is_int (x * 256)" "x \<noteq> 0"
    using read_result[OF T that(1) b, of a k]
    by (simp add: read_table_parameter_locate[OF assms(1) a] locate_tab_node_of[OF T k that])
qed

lemma write_value:
  assumes c: "ready c m" and a: "app_range a" and k: "is_int k" and v: "NUL \<notin> set v"
  shows "cfg m (a, 0, k) = None \<Longrightarrow> config_api_write_parameter c a k (Some v) = Some (- 1, c)"
    and "cfg m (a, 0, k) \<noteq> None \<Longrightarrow> \<exists>m'. config_api_write_parameter c a k (Some v) = Some (0, written c a m') \<and>
      wf_shm m' \<and> cfg m' = (cfg m)((a, 0, k) \<mapsto> take 639 v)"
    and "is_int (x * 256) \<Longrightarrow> x \<noteq> 0 \<Longrightarrow> cfg m (a, x, k) = None \<Longrightarrow>
      config_api_write_table_parameter c a x k (Some v) = Some (- 1, c)"
    and "is_int (x * 256) \<Longrightarrow> x \<noteq> 0 \<Longrightarrow> cfg m (a, x, k) \<noteq> None \<Longrightarrow>
      \<exists>m'. config_api_write_table_parameter c a x k (Some v) = Some (0, written c a m') \<and>
      wf_shm m' \<and> cfg m' = (cfg m)((a, x, k) \<mapsto> take 639 v)"
proof -
  from c obtain T s where T: "cache_addr c = Some m" "represents m T" "numbered m T" "semv c = Some (Suc s)"
    by (rule readyE)
  have z: "is_int (0 * 256)" by (simp add: is_int_def)
  have w: "config_api_write_parameter c a k (Some v) = with_lock c (\<lambda>c1. case node_of m a 0 k of
      None \<Rightarrow> Some (- 1, c1) | Some j \<Rightarrow> store_value c1 m a j v)"
    by (simp add: write_parameter_locate[OF T(1) a] locate_node_of[OF T(2,3) k])
  show "config_api_write_parameter c a k (Some v) = Some (- 1, c)" if "cfg m (a, 0, k) = None"
    unfolding w by (rule write_result[OF T(2,3) z v T(4), of a k]) (use that in auto)
  show "\<exists>m'. config_api_write_parameter c a k (Some v) = Some (0, written c a m') \<and>
      wf_shm m' \<and> cfg m' = (cfg m)((a, 0, k) \<mapsto> take 639 v)" if "cfg m (a, 0, k) \<noteq> None"
    unfolding w by (rule write_result[OF T(2,3) z v T(4), of a k]) (use that in \<open>auto simp: wf_shm_def\<close>)
  assume x: "is_int (x * 256)" "x \<noteq> 0"
  have wt: "config_api_write_table_parameter c a x k (Some v) = with_lock c (\<lambda>c1. case node_of m a x k of
      None \<Rightarrow> Some (- 1, c1) | Some j \<Rightarrow> store_value c1 m a j v)"
    by (simp add: write_table_parameter_locate[OF T(1) a] locate_tab_node_of[OF T(2,3) k x])
  show "config_api_write_table_parameter c a x k (Some v) = Some (- 1, c)" if "cfg m (a, x, k) = None"
    unfolding wt by (rule write_result[OF T(2,3) x(1) v T(4), of a k]) (use that in auto)
  show "\<exists>m'. config_api_write_table_parameter c a x k (Some v) = Some (0, written c a m') \<and>
      wf_shm m' \<and> cfg m' = (cfg m)((a, x, k) \<mapsto> take 639 v)" if "cfg m (a, x, k) \<noteq> None"
    unfolding wt by (rule write_result[OF T(2,3) x(1) v T(4), of a k]) (use that in \<open>auto simp: wf_shm_def\<close>)
qed

lemma cfg_value: "cfg m k = Some s \<Longrightarrow> NUL \<notin> set s"
  by (cases k) (auto simp: cfg.simps nth_value_def tbl.simps entry_def cstr_no_NUL
      split: option.splits if_splits)

lemma cstr_read_zero: "NUL \<notin> set s \<Longrightarrow> cstr (read_into zero_buf s) = s"
  by (simp add: read_into_def zero_buf_def MAX_VALUE_LEN_def)

lemma read_key_cfg:
  assumes "cache_addr c = Some m" and "wf_shm m" and "key_ok k"
  shows "read_key c k = cfg m k"
proof -
  obtain a x p where k: "k = (a, x, p)" by (cases k)
  have b: "MAX_VALUE_LEN \<le> length zero_buf" by (simp add: zero_buf_def)
  from assms(3) k have k': "app_range a" "is_int (x * 256)" "is_int p" by (auto simp: key_ok_def)
  note r = read_value[OF assms(1,2) k'(1,3) b]
  show ?thesis
    using r(1) r(2)[OF k'(2)] by (auto simp: k read_key_def cstr_read_zero cfg_value split: option.splits)
qed

lemma write_key_cases:
  assumes c: "ready c m" and k: "key_ok k" and v: "value_ok v"
  obtains (absent) "cfg m k = None" "write_key c k v = (False, c)"
  | (present) m' where "cfg m k \<noteq> None" "write_key c k v = (True, written c (fst k) m')" "wf_shm m'"
      "cfg m' = (cfg m)(k \<mapsto> take 639 v)"
proof -
  obtain a x p where k': "k = (a, x, p)" by (cases k)
  from k k' have r: "app_range a" "is_int (x * 256)" "is_int p" by (auto simp: key_ok_def)
  from v have v': "NUL \<notin> set v" by (simp add: value_ok_def)
  note w = write_value[OF c r(1,3) v']
  show ?thesis
  proof (cases "cfg m k = None")
    case True
    then show ?thesis
      using w(1) w(3)[OF r(2)] by (intro absent) (auto simp: k' write_key_def)
  next
    case False
    with w(2) w(4)[OF r(2)] obtain m' where
      "(if x = 0 then config_api_write_parameter c a p (Some v)
           else config_api_write_table_parameter c a x p (Some v)) = Some (0, written c a m')"
      "wf_shm m'" "cfg m' = (cfg m)(k \<mapsto> take 639 v)" by (cases "x = 0") (auto simp: k')
    then show ?thesis using False by (intro present) (auto simp: k' write_key_def split: if_splits)
  qed
qed

interpretation cs: config_store conf_ok conf_view read_key write_key key_ok value_ok "take 639"
proof
  fix c k v
  assume "conf_ok c" and k: "key_ok k"
  then obtain m where m: "ready c m" by (auto simp: conf_ok_def)
  then have c: "cache_addr c = Some m" "wf_shm m" by (auto simp: ready_def)
  have view: "conf_view c = cfg m" using c by (simp add: conf_view_def)
  show "read_key c k = conf_view c k" using read_key_cfg[OF c k] view by simp
  assume v: "value_ok v"
  show "write_key c k v = (False, c)" if "conf_view c k = None"
    by (rule write_key_cases[OF m k v]) (use that view in auto)
  show "fst (write_key c k v) \<and> conf_ok (snd (write_key c k v)) \<and>
      conf_view (snd (write_key c k v)) = (conf_view c)(k \<mapsto> take 639 v)" if "conf_view c k \<noteq> None"
  proof (rule write_key_cases[OF m k v])
    fix m'
    assume "write_key c k v = (True, written c (fst k) m')" "wf_shm m'" "cfg m' = (cfg m)(k \<mapsto> take 639 v)"
    with ready_written[OF m] view show ?thesis by (auto simp: conf_ok_def)
  qed (use that view in auto)
qed

text \<open>The rows of the applications, with the names of the entity table.\<close>

definition row_ok :: "int \<times> int \<Rightarrow> bool" where
  "row_ok = (\<lambda>(a, x). app_range a \<and> 1 \<le> x \<and> x < 256)"

definition row_arg ::
    "tcmEntityInfo list \<Rightarrow> (int \<Rightarrow> nat \<Rightarrow> string) \<Rightarrow> conf \<Rightarrow> int \<times> int \<Rightarrow> string option list \<Rightarrow> bool" where
  "row_arg tab nm c = (\<lambda>(a, x) vals. conf_rows c (a, 0) \<noteq> None \<and>
     (\<exists>mx. row_args tab a mx (int (length vals) + 1) (nm a) vals \<and> x \<le> mx))"

definition row_entry :: "(int \<Rightarrow> nat \<Rightarrow> string) \<Rightarrow> int \<times> int \<Rightarrow> string option list \<Rightarrow> (string \<times> string) list" where
  "row_entry nm = (\<lambda>(a, x) vals. new_entries (nm a) 0 vals)"

definition conf_room :: "conf \<Rightarrow> nat \<times> nat" where
  "conf_room c = (case cache_addr c of None \<Rightarrow> (0, 0) | Some m \<Rightarrow> (free_rows m, free_paras m))"

definition add_row :: "tcmEntityInfo list \<Rightarrow> conf \<Rightarrow> int \<times> int \<Rightarrow> string option list \<Rightarrow> bool \<times> conf" where
  "add_row tab c = (\<lambda>(a, x) vals. case config_api_add_table_row tab c a x vals of
     Some (r, c') \<Rightarrow> (r = 0, c') | None \<Rightarrow> (False, c))"

definition del_row :: "conf \<Rightarrow> int \<times> int \<Rightarrow> bool \<times> conf" where
  "del_row c = (\<lambda>(a, x). case config_api_delete_table_row c a x of
     Some (r, c') \<Rightarrow> (r = 0, c') | None \<Rightarrow> (False, c))"

text \<open>A row has its application in the memory.\<close>

lemma row_app:
  assumes "wf_shm m" and "tbl m (a, x) \<noteq> None"
  shows "tbl m (a, 0) \<noteq> None"
proof -
  from assms(1) obtain T where T: "represents m T" "numbered m T" by (rule wf_shmE)
  from assms(2) obtain ks where "((a, x), ks) \<in> set (tree_lists m T)"
    using tbl_Some_iff[OF T] by auto
  then obtain i where "i < length T" "app_id (apps m ! i) = a" by (auto simp: in_tree_lists)
  then have "((a, 0), fst (T ! i)) \<in> set (tree_lists m T)" by (auto simp: in_tree_lists)
  then show ?thesis using tbl_Some_iff[OF T, of "(a, 0)"] by auto
qed

interpretation rs: row_store conf_ok conf_rows "add_row tab" del_row row_ok "row_arg tab nm" "row_entry nm"
  conf_room length for tab nm
proof
  fix c r v e
  assume "conf_ok c" and r: "row_ok r"
  then obtain m where m: "ready c m" by (auto simp: conf_ok_def)
  then have c: "cache_addr c = Some m" "wf_shm m" by (auto simp: ready_def)
  have view: "conf_rows c = tbl m" "conf_room c = (free_rows m, free_paras m)"
    using c by (simp_all add: conf_rows_def conf_room_def)
  obtain a x where ax: "r = (a, x)" by (cases r)
  with r have a: "app_range a" and x: "1 \<le> x" "x < 256" by (auto simp: row_ok_def)
  {
    assume "row_arg tab nm c r v"
    then obtain mx where app: "tbl m (a, 0) \<noteq> None" and args: "row_args tab a mx (int (length v) + 1) (nm a) v"
      and mx: "x \<le> mx" by (auto simp: row_arg_def ax view)
    note g = add_given[OF m a app args x(1) mx x(2)]
    show "add_row tab c r v = (False, c)" if "conf_rows c r \<noteq> None"
      using g(1) that by (simp add: add_row_def ax view)
    assume new: "conf_rows c r = None" "0 < fst (conf_room c)" "length (row_entry nm r v) \<le> snd (conf_room c)"
    then have "length v \<le> free_paras m" "free_rows m \<noteq> 0" by (auto simp: view row_entry_def ax)
    with g(3) new(1) obtain m' where "config_api_add_table_row tab c a x v = Some (0, written c a m')"
      "wf_shm m'" "tbl m' = (tbl m)((a, x) \<mapsto> new_entries (nm a) 0 v)"
      by (auto simp: view ax added_def)
    with ready_written[OF m] show "fst (add_row tab c r v) \<and> conf_ok (snd (add_row tab c r v)) \<and>
        conf_rows (snd (add_row tab c r v)) = (conf_rows c)(r \<mapsto> row_entry nm r v)"
      by (auto simp: add_row_def ax view row_entry_def conf_ok_def)
  }
  assume e: "conf_rows c r = Some e"
  then have "tbl m (a, 0) \<noteq> None" using row_app[OF c(2), of a x] by (simp add: view ax)
  from delete_given(2)[OF m a this x, of e] e obtain m' where
    "config_api_delete_table_row c a x = Some (0, written c a m')" "wf_shm m'"
    "tbl m' = (tbl m)((a, x) := None)" "free_rows m' = Suc (free_rows m)" "free_paras m' = free_paras m + length e"
    by (auto simp: view ax)
  with ready_written[OF m] show "fst (del_row c r) \<and> conf_ok (snd (del_row c r)) \<and>
      conf_rows (snd (del_row c r)) = (conf_rows c)(r := None) \<and>
      conf_room (snd (del_row c r)) = (fst (conf_room c) + 1, snd (conf_room c) + length e)"
    by (auto simp: del_row_def ax view(1) conf_ok_def conf_room_def[of "written c a m'"] view(2))
qed

end
