(* ===== verification/Conf_Props.thy ===== *)
theory Conf_Props
  imports Conf_Db
begin

text \<open>
  The properties of the handlers of \<^verbatim>\<open>conflib/configapi.c\<close> on a well-formed memory, each with an
  instance on the memory of \<open>Conf_Demo\<close>.
\<close>

section \<open>Reading and writing\<close>

text \<open>A read of a parameter returns 0 and copies exactly the stored string into the caller's
  buffer (with its NUL up to 638 characters), or returns - 1 and leaves the buffer alone when the
  application has no such parameter; it reads nothing outside the memory.\<close>

theorem read_parameter_value:
  assumes "cache_addr c = Some m" and "wf_shm m" and "app_range a" and "is_int k" and "MAX_VALUE_LEN \<le> length b"
  shows "config_api_read_parameter c a k (Some b) =
     Some (case cfg m (a, 0, k) of None \<Rightarrow> (- 1, Some b) | Some s \<Rightarrow> (0, Some (read_into b s)))"
  by (rule read_value(1)[OF assms])

lemma demo_cache: "cache_addr demo_conf = Some demo_shm"
  by (simp add: demo_conf_def)

lemma demo_range: "app_range 1" "app_range 2"
  by (simp_all add: app_range_def ID_END_def)

lemma demo_int: "is_int 0" "is_int 1" "is_int 2" "is_int 9" "is_int (1 * 256)" "is_int (256)"
  by (simp_all add: is_int_def)

lemma demo_cfg:
  "cfg demo_shm (1, 0, 2) = Some ''255.0.0.0''" "cfg demo_shm (1, 0, 9) = None"
  "cfg demo_shm (1, 1, 2) = Some ''printer''" "cfg demo_shm (1, 1, 9) = None"
  by (simp_all add: cfg.simps nth_value_def demo_tbl)

lemma zero_len: "MAX_VALUE_LEN \<le> length zero_buf"
  by (simp add: zero_buf_def)

theorem read_parameter_value_witness:
  "config_api_read_parameter demo_conf 1 2 (Some zero_buf) = Some (0, Some (read_into zero_buf ''255.0.0.0''))"
  using read_parameter_value[OF demo_cache demo_wf demo_range(1) demo_int(3) zero_len] by (simp add: demo_cfg)

text \<open>C5. A read of a parameter of a table row returns 0 and copies exactly the stored string into the
  caller's buffer (with its NUL up to 638 characters), or returns - 1 and leaves the buffer alone
  when there is no such row or parameter; it reads nothing outside the memory.\<close>

theorem read_table_parameter_value:
  assumes "cache_addr c = Some m" and "wf_shm m" and "app_range a" and "is_int (x * 256)" and "x \<noteq> 0"
    and "is_int k" and "MAX_VALUE_LEN \<le> length b"
  shows "config_api_read_table_parameter c a x k (Some b) =
     Some (case cfg m (a, x, k) of None \<Rightarrow> (- 1, Some b) | Some s \<Rightarrow> (0, Some (read_into b s)))"
  by (rule read_value(2)[OF assms(1-3,6,7,4,5)])

theorem read_table_parameter_value_witness:
  "config_api_read_table_parameter demo_conf 1 1 2 (Some zero_buf) = Some (0, Some (read_into zero_buf ''printer''))"
  using read_table_parameter_value[OF demo_cache demo_wf demo_range(1) demo_int(5) _ demo_int(3) zero_len]
  by (simp add: demo_cfg)

text \<open>A write of a parameter that exists returns 0, sets this one value to the given string cut
  at 639 characters, marks the application as written and keeps the memory well formed with every
  other value as it was; of one that does not exist it returns - 1 and changes nothing. The
  semaphore ends as it began.\<close>

theorem write_parameter_updates:
  assumes "ready c m" and "app_range a" and "is_int k" and "NUL \<notin> set v"
  shows "if cfg m (a, 0, k) = None then config_api_write_parameter c a k (Some v) = Some (- 1, c)
    else \<exists>m'. config_api_write_parameter c a k (Some v)
             = Some (0, c\<lparr>cache_addr := Some m', gRecordWriteID := record_write a (gRecordWriteID c)\<rparr>) \<and>
           wf_shm m' \<and> cfg m' = (cfg m)((a, 0, k) \<mapsto> take 639 v)"
  using write_value(1,2)[OF assms] by (simp add: written_def)

theorem write_parameter_updates_witness:
  "\<exists>m'. config_api_write_parameter demo_conf 1 2 (Some ''255.255.0.0'')
      = Some (0, demo_conf\<lparr>cache_addr := Some m', gRecordWriteID := record_write 1 (gRecordWriteID demo_conf)\<rparr>) \<and>
     wf_shm m' \<and> cfg m' = (cfg demo_shm)((1, 0, 2) \<mapsto> ''255.255.0.0'')"
  using write_parameter_updates[OF demo_ready demo_range(1) demo_int(3), of "''255.255.0.0''"]
  by (simp add: demo_cfg)

text \<open>C4. A write of a parameter of a table row that exists returns 0, sets this one value to the given
  string cut at 639 characters, marks the application as written and keeps the memory well formed
  with every other value as it was; of one that does not exist it returns - 1 and changes nothing.
  The semaphore ends as it began.\<close>

theorem write_table_parameter_updates:
  assumes "ready c m" and "app_range a" and "is_int (x * 256)" and "x \<noteq> 0" and "is_int k" and "NUL \<notin> set v"
  shows "if cfg m (a, x, k) = None then config_api_write_table_parameter c a x k (Some v) = Some (- 1, c)
    else \<exists>m'. config_api_write_table_parameter c a x k (Some v)
             = Some (0, c\<lparr>cache_addr := Some m', gRecordWriteID := record_write a (gRecordWriteID c)\<rparr>) \<and>
           wf_shm m' \<and> cfg m' = (cfg m)((a, x, k) \<mapsto> take 639 v)"
  using write_value(3,4)[OF assms(1,2,5,6,3,4)] by (simp add: written_def)

theorem write_table_parameter_updates_witness:
  "\<exists>m'. config_api_write_table_parameter demo_conf 1 1 2 (Some ''scanner'')
      = Some (0, demo_conf\<lparr>cache_addr := Some m', gRecordWriteID := record_write 1 (gRecordWriteID demo_conf)\<rparr>) \<and>
     wf_shm m' \<and> cfg m' = (cfg demo_shm)((1, 1, 2) \<mapsto> ''scanner'')"
  using write_table_parameter_updates[OF demo_ready demo_range(1) demo_int(5) _ demo_int(3), of "''scanner''"]
  by (simp add: demo_cfg)

primrec write_seq :: "conf \<Rightarrow> ((int \<times> int \<times> int) \<times> string) list \<Rightarrow> conf" where
  "write_seq c [] = c"
| "write_seq c (w # ws) = write_seq (snd (write_key c (fst w) (snd w))) ws"

lemma write_seq_all: "write_seq c ws = cs.wr_all c ws"
  by (induction ws arbitrary: c) (simp_all add: cs.wr_all.simps)

text \<open>C6. After any sequence of writes through the handlers, a read gives the last string that
  was written to the key, cut at 639 characters, and the initial value when none was.\<close>

theorem last_write_wins:
  assumes "ready c m" and "\<forall>w \<in> set ws. key_ok (fst w) \<and> value_ok (snd w)"
    and "key_ok k" and "cfg m k = Some s"
  shows "read_key (write_seq c ws) k =
     (case map_of (rev ws) k of None \<Rightarrow> Some s | Some v \<Rightarrow> Some (take 639 v))"
proof -
  have view: "conf_view c = cfg m" using assms(1) by (simp add: conf_view_def ready_def)
  have "conf_ok c" using assms(1) by (auto simp: conf_ok_def)
  from cs.rd_all[OF this assms(2,3), unfolded view assms(4)] show ?thesis by (simp add: write_seq_all)
qed

lemma demo_keys: "key_ok (1, 1, 2)" "key_ok (1, 0, 2)"
  by (simp_all add: key_ok_def demo_range demo_int)

theorem last_write_wins_witness:
  "read_key (write_seq demo_conf [((1, 1, 2), ''a''), ((1, 0, 2), ''b''), ((1, 1, 2), ''c'')]) (1, 1, 2) = Some ''c''"
  using last_write_wins[OF demo_ready _ demo_keys(1) demo_cfg(3),
      of "[((1, 1, 2), ''a''), ((1, 0, 2), ''b''), ((1, 1, 2), ''c'')]"] demo_keys
  by (simp add: value_ok_def)

section \<open>Rows\<close>

lemma copy_row_all:
  assumes "\<forall>j \<in> set js. buf_ok MAX_VALUE_LEN (para_val (paras m ! j))"
    and "length js \<le> length vs" and "\<forall>b \<in> set (take (length js) vs). \<exists>z. b = Some z \<and> MAX_VALUE_LEN \<le> length z"
  shows "copy_row m js vs =
     Some (map2 (\<lambda>j b. Some (read_into (the b) (cstr (para_val (paras m ! j))))) js vs @ drop (length js) vs)"
  using assms
proof (induction js arbitrary: vs)
  case (Cons j js)
  then obtain b ws where vs: "vs = Some b # ws" "MAX_VALUE_LEN \<le> length b"
    by (cases vs) auto
  moreover have "copy_row m js ws =
     Some (map2 (\<lambda>j b. Some (read_into (the b) (cstr (para_val (paras m ! j))))) js ws @ drop (length js) ws)"
    using Cons vs by auto
  ultimately show ?case using Cons.prems(1) by (simp add: copy_value_read)
qed simp

lemma read_table_row_pos:
  assumes "cache_addr c = Some m" and "app_range a" and "vals \<noteq> []" and "hd vals \<noteq> None"
    and "find_app m a = Some (Some i)" and "find_row m (app_row (apps m ! i)) (GET_ROW_ID a x) = Some (Some r)"
    and "paras_from m (row_para (rows m ! r)) = Some js"
  shows "config_api_read_table_row c a x vals = map_option (\<lambda>vs. (0, vs)) (copy_row m js vals)"
  using assms
  by (auto simp: config_api_read_table_row_def app_range_def app_index_error_def check_library_def
      map_option_case split: option.splits bind_splits)

lemma row_found:
  assumes T: "represents m T" "numbered m T" and x: "1 \<le> x" "x < 256" and es: "tbl m (a, x) = Some es"
  obtains i r ks where "find_app m a = Some (Some i)" "find_row m (app_row (apps m ! i)) (GET_ROW_ID a x) = Some (Some r)"
    "paras_from m (row_para (rows m ! r)) = Some ks" "es = map (entry m) ks"
    "\<forall>j \<in> set ks. buf_ok MAX_VALUE_LEN (para_val (paras m ! j))"
proof -
  from es tbl_Some_iff[OF T] obtain ks where ks: "((a, x), ks) \<in> set (tree_lists m T)" "es = map (entry m) ks" by blast
  then obtain i where i: "i < length T" "app_id (apps m ! i) = a" by (auto simp: in_tree_lists)
  have xi: "is_int (x * 256)" using small_is_int(2) x by simp
  have db: "db_plist m a x = Some (Some ks)"
    unfolding db_plist_lists[OF T xi] using distinct_keys[OF T] ks(1) by simp
  from T(1) show ?thesis
  proof (cases rule: find_app_cases[where a = a])
    case None
    with db show ?thesis by (simp add: db_plist_def)
  next
    case (Some n)
    from db Some(1) x obtain r where r: "find_row m (app_row (apps m ! n)) (GET_ROW_ID a x) = Some (Some r)"
      "paras_from m (row_para (rows m ! r)) = Some ks"
      by (auto simp: db_plist_def split: bind_splits option.splits)
    have "set ks \<subseteq> set (tree_paras T)" unfolding tree_paras_lists[of T m] using ks(1) by force
    then have "\<forall>j \<in> set ks. buf_ok MAX_VALUE_LEN (para_val (paras m ! j))"
      using tree_paras_live(2)[OF T(1)] node_val_ok[OF T(1)] by blast
    with Some(1) r ks(2) that show ?thesis by blast
  qed
qed

lemma read_row_absent:
  assumes "cache_addr c = Some m" and "wf_shm m" and "app_range a" and "1 \<le> x" and "x < 256"
    and "tbl m (a, x) = None" and "bs \<noteq> []" and "hd bs \<noteq> None"
  shows "config_api_read_table_row c a x bs = Some (- 1, bs)"
proof -
  from assms(2) obtain T where T: "represents m T" "numbered m T" by (rule wf_shmE)
  have xi: "is_int (x * 256)" using small_is_int(2) assms(4,5) by simp
  have no: "((a, x), ks) \<notin> set (tree_lists m T)" for ks
    using assms(6) tbl_Some_iff[OF T, of "(a, x)" "map (entry m) ks"] by auto
  show ?thesis
    using T(1)
  proof (cases rule: find_app_cases[where a = a])
    case None
    then show ?thesis using assms(1,3,7,8)
      by (simp add: config_api_read_table_row_def app_range_def app_index_error_def check_library_def)
  next
    case app: (Some i)
    from T app(2,3) xi show ?thesis
    proof (cases rule: find_row_cases)
      case None
      then show ?thesis using assms(1,3,7,8) app(1)
        by (simp add: config_api_read_table_row_def app_range_def app_index_error_def check_library_def)
    next
      case (Some r ks)
      then have "((a, x), ks) \<in> set (tree_lists m T)" using app assms(4) by (auto simp: in_tree_lists)
      then show ?thesis using no by blast
    qed
  qed
qed

lemma tbl_values: "tbl m k = Some es \<Longrightarrow> v \<in> set (map snd es) \<Longrightarrow> NUL \<notin> set v"
  by (cases k) (auto simp: tbl.simps entry_def cstr_no_NUL split: option.splits if_splits)

text \<open>Reading a row copies the values of all its parameters, in order, into the buffers the
  caller passes, and touches no buffer behind them.\<close>

theorem read_table_row_values:
  assumes "cache_addr c = Some m" and "wf_shm m" and "app_range a" and "1 \<le> x" and "x < 256"
    and "tbl m (a, x) = Some es" and "vals \<noteq> []" and "hd vals \<noteq> None" and "length es \<le> length vals"
    and "\<forall>b \<in> set (take (length es) vals). \<exists>z. b = Some z \<and> MAX_VALUE_LEN \<le> length z"
  shows "config_api_read_table_row c a x vals =
     Some (0, map2 (\<lambda>e b. Some (read_into (the b) (snd e))) es vals @ drop (length es) vals)"
proof -
  from assms(2) obtain T where T: "represents m T" "numbered m T" by (rule wf_shmE)
  from row_found[OF T assms(4-6)] obtain i r ks where found:
    "find_app m a = Some (Some i)" "find_row m (app_row (apps m ! i)) (GET_ROW_ID a x) = Some (Some r)"
    "paras_from m (row_para (rows m ! r)) = Some ks" "es = map (entry m) ks"
    "\<forall>j \<in> set ks. buf_ok MAX_VALUE_LEN (para_val (paras m ! j))" .
  have "copy_row m ks vals =
     Some (map2 (\<lambda>j b. Some (read_into (the b) (cstr (para_val (paras m ! j))))) ks vals @ drop (length ks) vals)"
    using found(4,5) assms(9,10) by (intro copy_row_all) simp_all
  moreover have "map2 (\<lambda>j b. Some (read_into (the b) (cstr (para_val (paras m ! j))))) ks vals
      = map2 (\<lambda>e b. Some (read_into (the b) (snd e))) es vals"
    by (simp add: found(4) zip_map1 entry_def case_prod_unfold)
  ultimately show ?thesis
    using read_table_row_pos[OF assms(1,3,7,8) found(1-3)] by (simp add: found(4))
qed

theorem read_table_row_values_witness:
  "config_api_read_table_row demo_conf 1 1 [Some zero_buf, Some zero_buf, None]
     = Some (0, [Some (read_into zero_buf ''aa''), Some (read_into zero_buf ''printer''), None])"
  using read_table_row_values[OF demo_cache demo_wf demo_range(1) _ _ demo_tbl(2),
      of "[Some zero_buf, Some zero_buf, None]"] zero_len by simp

text \<open>C2. Adding a row with a number that is not in use, when there is room: the handler returns 0,
  the row has exactly the given values under the names of the entity table (a missing value is the
  empty string), every other row is as it was, and the memory stays well formed, so that the rows
  of the application stay in the order of their numbers.\<close>

theorem add_table_row_new:
  assumes "ready c m" and "app_range a" and "tbl m (a, 0) \<noteq> None" and "row_args tab a mx en nm vals"
    and "1 \<le> x" and "x \<le> mx" and "x < 256" and "tbl m (a, x) = None"
    and "0 < free_rows m" and "nat (en - 1) \<le> free_paras m"
  shows "\<exists>m'. config_api_add_table_row tab c a x vals
       = Some (0, c\<lparr>cache_addr := Some m', gRecordWriteID := record_write a (gRecordWriteID c)\<rparr>) \<and>
     wf_shm m' \<and> tbl m' = (tbl m)((a, x) \<mapsto> new_entries nm 0 (take (nat (en - 1)) vals))"
  using add_given(3)[OF assms(1-7)] assms(8-10) by (auto simp: added_def written_def)

definition demo_names :: "nat \<Rightarrow> string" where
  "demo_names k = (if k = 0 then ''mac'' else ''host'')"

lemma demo_row_args:
  assumes "length vals = 2" and "hd vals \<noteq> None" and "\<forall>v \<in> set vals. c_value v"
  shows "row_args demo_tab 1 3 3 demo_names vals"
proof -
  have "config_api_app_exist_table demo_tab 1 = Some (Some (3, 3))"
    by (simp add: config_api_app_exist_table_def demo_tab_def ID_LAN_def ID_END_def)
  moreover have "row_names demo_tab 1 2 demo_names"
    unfolding row_names_def
  proof (intro allI impI)
    fix k :: nat assume "k < 2"
    then consider "k = 0" | "k = 1" by linarith
    then show "NUL \<notin> set (demo_names k) \<and> config_api_get_para_name_by_id demo_tab 1 (int k + 1)
        = Some (Some (pad (MAX_NAME_LEN - 1) (demo_names k)))"
      by cases (simp_all add: demo_names_def config_api_get_para_name_by_id_def demo_tab_def ID_LAN_def
          ID_END_def)
  qed
  ultimately show ?thesis using assms by (auto simp: row_args_def)
qed

definition demo_vals :: "string option list" where
  "demo_vals = [Some ''bb'', None]"

lemma demo_args: "row_args demo_tab 1 3 3 demo_names demo_vals"
  by (rule demo_row_args) (simp_all add: demo_vals_def c_value_def nullstr_def)

lemma demo_entries: "new_entries demo_names 0 demo_vals = [(''mac'', ''bb''), (''host'', [])]"
  "take 2 demo_vals = demo_vals" "length demo_vals = 2"
  by (simp_all add: demo_vals_def demo_names_def nullstr_def MAX_NAME_LEN_def MAX_VALUE_LEN_def)

lemma demo_app: "tbl demo_shm (1, 0) \<noteq> None"
  by (simp add: demo_tbl)

theorem add_table_row_new_witness:
  "\<exists>m'. config_api_add_table_row demo_tab demo_conf 1 2 demo_vals
       = Some (0, demo_conf\<lparr>cache_addr := Some m', gRecordWriteID := record_write 1 (gRecordWriteID demo_conf)\<rparr>) \<and>
     wf_shm m' \<and> tbl m' = (tbl demo_shm)((1, 2) \<mapsto> [(''mac'', ''bb''), (''host'', [])])"
  using add_table_row_new[OF demo_ready demo_range(1) demo_app demo_args, of 2]
  by (simp add: demo_tbl demo_free demo_entries)

text \<open>With row number 0 the handler takes the smallest number that is not in use (whatever the
  table's maximum is).\<close>

theorem add_table_row_lowest:
  assumes "ready c m" and "app_range a" and "tbl m (a, 0) \<noteq> None" and "row_args tab a mx en nm vals"
    and "0 \<le> mx" and "0 < free_rows m" and "nat (en - 1) \<le> free_paras m" and "length (rows m) \<le> 255"
  shows "\<exists>y m'. 1 \<le> y \<and> tbl m (a, y) = None \<and> (\<forall>z. 1 \<le> z \<and> z < y \<longrightarrow> tbl m (a, z) \<noteq> None) \<and>
     config_api_add_table_row tab c a 0 vals
       = Some (0, c\<lparr>cache_addr := Some m', gRecordWriteID := record_write a (gRecordWriteID c)\<rparr>) \<and>
     wf_shm m' \<and> tbl m' = (tbl m)((a, y) \<mapsto> new_entries nm 0 (take (nat (en - 1)) vals))"
proof -
  from assms(6) have "free_rows m \<noteq> 0" by simp
  from add_free[OF assms(1-5) this assms(8)] obtain y where y:
    "1 \<le> y" "tbl m (a, y) = None" "\<forall>z. 1 \<le> z \<and> z < y \<longrightarrow> tbl m (a, z) \<noteq> None"
    "added c m a y en nm vals (config_api_add_table_row tab c a 0 vals)" .
  from y(4) obtain m' where "config_api_add_table_row tab c a 0 vals = Some (0, written c a m')" "wf_shm m'"
    "tbl m' = (tbl m)((a, y) \<mapsto> take (free_paras m) (new_entries nm 0 (take (nat (en - 1)) vals)))"
    unfolding added_def using assms(7) by auto
  moreover from assms(7) have "take (free_paras m) (new_entries nm 0 (take (nat (en - 1)) vals))
      = new_entries nm 0 (take (nat (en - 1)) vals)" by simp
  ultimately show ?thesis unfolding written_def using y(1-3) by metis
qed

theorem add_table_row_lowest_witness:
  "\<exists>y m'. 1 \<le> y \<and> tbl demo_shm (1, y) = None \<and> (\<forall>z. 1 \<le> z \<and> z < y \<longrightarrow> tbl demo_shm (1, z) \<noteq> None) \<and>
     config_api_add_table_row demo_tab demo_conf 1 0 demo_vals
       = Some (0, demo_conf\<lparr>cache_addr := Some m', gRecordWriteID := record_write 1 (gRecordWriteID demo_conf)\<rparr>) \<and>
     wf_shm m' \<and> tbl m' = (tbl demo_shm)((1, y) \<mapsto> [(''mac'', ''bb''), (''host'', [])])"
  using add_table_row_lowest[OF demo_ready demo_range(1) demo_app demo_args]
  by (simp add: demo_free demo_entries)

text \<open>C38. Out of parameter nodes the handler returns - 1, but the row it had begun stays: it is in
  the application with the parameters there were nodes for, and a second try fails because the row
  exists.\<close>

theorem add_table_row_partial:
  assumes "ready c m" and "app_range a" and "tbl m (a, 0) \<noteq> None" and "row_args tab a mx en nm vals"
    and "1 \<le> x" and "x \<le> mx" and "x < 256" and "tbl m (a, x) = None"
    and "0 < free_rows m" and "free_paras m < nat (en - 1)"
  shows "\<exists>m'. config_api_add_table_row tab c a x vals = Some (- 1, c\<lparr>cache_addr := Some m'\<rparr>) \<and>
     wf_shm m' \<and>
     tbl m' = (tbl m)((a, x) \<mapsto> take (free_paras m) (new_entries nm 0 (take (nat (en - 1)) vals))) \<and>
     config_api_add_table_row tab (c\<lparr>cache_addr := Some m'\<rparr>) a x vals = Some (- 1, c\<lparr>cache_addr := Some m'\<rparr>)"
proof -
  from add_given(3)[OF assms(1-7)] assms(8-10) obtain m' where m':
    "config_api_add_table_row tab c a x vals = Some (- 1, c\<lparr>cache_addr := Some m'\<rparr>)" "wf_shm m'"
    "tbl m' = (tbl m)((a, x) \<mapsto> take (free_paras m) (new_entries nm 0 (take (nat (en - 1)) vals)))"
    by (auto simp: added_def)
  have "ready (c\<lparr>cache_addr := Some m'\<rparr>) m'" using assms(1) m'(2) by (auto simp: ready_def)
  from add_given(1)[OF this assms(2) _ assms(4-7)] m' assms(3,5) show ?thesis by auto
qed

definition demo_full :: conf where
  "demo_full = demo_conf\<lparr>cache_addr := Some (demo_shm\<lparr>paras := take 6 (paras demo_shm)\<rparr>)\<rparr>"

definition demo_less :: shm where
  "demo_less = demo_shm\<lparr>paras := take 6 (paras demo_shm)\<rparr>"

lemma demo_less_nodes:
  "apps demo_less = apps demo_shm" "rows demo_less = rows demo_shm" "paras demo_less = take 6 (paras demo_shm)"
  by (simp_all add: demo_less_def)

lemma demo_less_represents: "represents demo_less demo_tree" and demo_less_numbered: "numbered demo_less demo_tree"
proof -
  have at: "para_at demo_less = node_at 552 888 6" "row_at demo_less = node_at 516 12 3"
    "app_at demo_less = node_at 4 256 2" "APP_START_NODE demo_less = 4"
    by (simp_all add: demo_less_def fun_eq_iff para_at_def row_at_def app_at_def PARA_START_NODE_def
        ROW_START_NODE_def APP_START_NODE_def sizeof_defs eval_nat_numeral)
  note nodes = demo_less_nodes
  show "represents demo_less demo_tree"
    unfolding represents_def
  proof (intro conjI)
    show "apps_ok demo_less (length demo_tree)"
      by (simp add: apps_ok_def demo_tree_def All_less_Suc app_off_def sizeof_defs at nodes)
    show "\<forall>i < length demo_tree. app_repr demo_less (apps demo_less ! i) (demo_tree ! i)"
      by (simp add: demo_tree_def All_less_Suc app_repr_def node_at_def Let_def at nodes)
    show "distinct (tree_rows demo_tree)" "distinct (tree_paras demo_tree)" by (simp_all add: demo_tree_def)
    show "bufs_ok demo_less"
      by (simp add: bufs_ok_def MAX_NAME_LEN_def MAX_VALUE_LEN_def buf_ok_pad nodes)
  qed
  show "numbered demo_less demo_tree"
    by (simp add: numbered_def demo_tree_def All_less_Suc app_numbered_def plist_numbered_def row_number_def
        Let_def demo_ids ID_END_def nodes)
qed

lemma demo_less_facts:
  "ready demo_full demo_less" "tbl demo_less (1, 0) \<noteq> None" "tbl demo_less (1, 2) = None"
  "free_rows demo_less = 2" "free_paras demo_less = 1"
proof -
  show "ready demo_full demo_less"
    using demo_less_represents demo_less_numbered
    by (auto simp: ready_def wf_shm_def demo_full_def demo_less_def demo_conf_def)
  show "tbl demo_less (1, 0) \<noteq> None" "tbl demo_less (1, 2) = None"
    by (simp_all add: tbl_tree[OF demo_less_represents demo_less_numbered] tree_lists_def demo_tree_def
        app_lists_def row_number_def demo_less_nodes)
  show "free_rows demo_less = 2" "free_paras demo_less = 1"
    by (simp_all add: free_rows_def free_paras_def demo_less_nodes)
qed

theorem add_table_row_partial_witness:
  "\<exists>m'. config_api_add_table_row demo_tab demo_full 1 2 demo_vals = Some (- 1, demo_full\<lparr>cache_addr := Some m'\<rparr>) \<and>
     tbl m' = (tbl demo_less)((1, 2) \<mapsto> [(''mac'', ''bb'')])"
  using add_table_row_partial[OF demo_less_facts(1) demo_range(1) demo_less_facts(2) demo_args, of 2]
  by (auto simp: demo_less_facts demo_entries)

text \<open>C3. Deleting a row: the handler returns 0, exactly this row is gone, its row node and all its
  parameter nodes are free again, and every other row keeps its names and values; a number that is
  not in use gives - 1 and changes nothing.\<close>

theorem delete_table_row_removes:
  assumes "ready c m" and "app_range a" and "tbl m (a, 0) \<noteq> None" and "1 \<le> x" and "x < 256"
  shows "case tbl m (a, x) of None \<Rightarrow> config_api_delete_table_row c a x = Some (- 1, c)
    | Some es \<Rightarrow> \<exists>m'. config_api_delete_table_row c a x
          = Some (0, c\<lparr>cache_addr := Some m', gRecordWriteID := record_write a (gRecordWriteID c)\<rparr>) \<and>
        wf_shm m' \<and> tbl m' = (tbl m)((a, x) := None) \<and>
        free_rows m' = Suc (free_rows m) \<and> free_paras m' = free_paras m + length es"
  using delete_given[OF assms] by (cases "tbl m (a, x)") (simp_all add: written_def)

theorem delete_table_row_removes_witness:
  "\<exists>m'. config_api_delete_table_row demo_conf 1 1
          = Some (0, demo_conf\<lparr>cache_addr := Some m', gRecordWriteID := record_write 1 (gRecordWriteID demo_conf)\<rparr>) \<and>
        wf_shm m' \<and> tbl m' = (tbl demo_shm)((1, 1) := None) \<and> free_rows m' = 3 \<and> free_paras m' = 5"
  using delete_table_row_removes[OF demo_ready demo_range(1) demo_app, of 1]
  by (simp add: demo_tbl demo_free)

text \<open>C37. Adding a row and deleting it again leaves the rows of every application as they were.\<close>

theorem add_then_delete:
  assumes "conf_ok c" and "row_ok r" and "row_arg tab nm c r vals" and "conf_rows c r = None"
    and "0 < fst (conf_room c)" and "length vals \<le> snd (conf_room c)"
  shows "fst (del_row (snd (add_row tab c r vals)) r) \<and>
     conf_rows (snd (del_row (snd (add_row tab c r vals)) r)) = conf_rows c"
proof -
  have "length (row_entry nm r vals) \<le> snd (conf_room c)"
    using assms(6) by (simp add: row_entry_def case_prod_unfold)
  from rs.add_del[OF assms(1-5) this] show ?thesis by simp
qed

lemma demo_conf_facts: "conf_ok demo_conf" "conf_rows demo_conf = tbl demo_shm" "conf_room demo_conf = (2, 3)"
  using demo_ready by (auto simp: conf_ok_def conf_rows_def conf_room_def demo_cache demo_free)

lemma demo_row_arg: "row_arg demo_tab (\<lambda>a. demo_names) demo_conf (1, 2) demo_vals" "row_ok (1, 2)"
  using demo_args demo_range(1)
  by (auto simp: row_arg_def row_ok_def demo_conf_facts demo_tbl demo_entries intro!: exI[of _ 3])

theorem add_then_delete_witness:
  "conf_rows (snd (del_row (snd (add_row demo_tab demo_conf (1, 2) demo_vals)) (1, 2))) = tbl demo_shm"
  using add_then_delete[OF demo_conf_facts(1) demo_row_arg(2,1)]
  by (simp add: demo_conf_facts demo_tbl demo_entries)

text \<open>A row can always be replaced: after deleting it, a row that needs no more parameters than
  it had can be added under the same number, and nothing else changes.\<close>

theorem replace_table_row:
  assumes "conf_ok c" and "row_ok r" and "conf_rows c r = Some es" and "row_arg tab nm (snd (del_row c r)) r vals"
    and "length vals \<le> length es"
  shows "fst (add_row tab (snd (del_row c r)) r vals) \<and>
     conf_rows (snd (add_row tab (snd (del_row c r)) r vals)) = (conf_rows c)(r \<mapsto> row_entry nm r vals)"
proof -
  have "length (row_entry nm r vals) \<le> length es"
    using assms(5) by (simp add: row_entry_def case_prod_unfold)
  from rs.replace_row[OF assms(1-4) this] show ?thesis by simp
qed

lemma demo_del_rows: "conf_rows (snd (del_row demo_conf (1, 1))) = (tbl demo_shm)((1, 1) := None)"
  using delete_given(2)[OF demo_ready demo_range(1) demo_app, of 1] demo_tbl(2)
  by (auto simp: del_row_def)

theorem replace_table_row_witness:
  "conf_rows (snd (add_row demo_tab (snd (del_row demo_conf (1, 1))) (1, 1) demo_vals))
     = (tbl demo_shm)((1, 1) \<mapsto> [(''mac'', ''bb''), (''host'', [])])"
proof -
  have "row_ok (1, 1)" using demo_range(1) by (simp add: row_ok_def)
  moreover have "row_arg demo_tab (\<lambda>a. demo_names) (snd (del_row demo_conf (1, 1))) (1, 1) demo_vals"
    using demo_args by (auto simp: row_arg_def demo_del_rows demo_tbl demo_entries intro!: exI[of _ 3])
  ultimately show ?thesis
    using replace_table_row[OF demo_conf_facts(1), of "(1, 1)" _ demo_tab "\<lambda>a. demo_names" demo_vals]
    by (simp add: demo_conf_facts demo_tbl demo_entries row_entry_def)
qed

section \<open>The semaphore\<close>

lemma write_semv: "config_api_write_parameter c a k v = Some (r, c') \<Longrightarrow> semv c' = semv c"
  unfolding config_api_write_parameter_def
  by (auto split: option.splits if_splits simp: store_value_def bind_Some_iff elim!: with_lock_released)

lemma write_table_semv: "config_api_write_table_parameter c a x k v = Some (r, c') \<Longrightarrow> semv c' = semv c"
  unfolding config_api_write_table_parameter_def
  by (auto split: option.splits if_splits simp: store_value_def bind_Some_iff elim!: with_lock_released)

lemma add_semv:
  assumes "config_api_add_table_row tab c a x vals = Some (r, c')"
  shows "semv c' = semv c"
proof (cases "cache_addr c = None \<or> app_index_error a \<or> vals = [] \<or> hd vals = None")
  case True
  with assms show ?thesis by (auto simp: config_api_add_table_row_def split: option.splits if_splits)
next
  case False
  then obtain m where "cache_addr c = Some m" "\<not> app_index_error a" "vals \<noteq> []" "hd vals \<noteq> None" by auto
  with assms show ?thesis
    by (simp only: config_api_add_table_row_def check_library_def option.case if_False simp_thms, elim with_lock_released,
        auto simp: Let_def split: option.splits prod.splits if_splits bind_splits)
qed

lemma delete_semv: "config_api_delete_table_row c a x = Some (r, c') \<Longrightarrow> semv c' = semv c"
  unfolding config_api_delete_table_row_def
  by (auto split: option.splits if_splits simp: bind_Some_iff elim!: with_lock_released)

text \<open>Every handler that changes the memory gives the semaphore back on every path on which it
  returns, successful or not, whatever the memory looks like.\<close>

theorem semaphore_restored:
  assumes "config_api_write_parameter c a k v = Some (r, c') \<or>
     config_api_write_table_parameter c a x k v = Some (r, c') \<or>
     config_api_add_table_row tab c a x vals = Some (r, c') \<or>
     config_api_delete_table_row c a x = Some (r, c')"
  shows "semv c' = semv c"
  using assms by (elim disjE) (erule write_semv write_table_semv add_semv delete_semv)+

theorem semaphore_restored_witness:
  "config_api_delete_table_row demo_conf 1 2 = Some (- 1, demo_conf) \<and> semv demo_conf = semv demo_conf"
proof -
  have d: "config_api_delete_table_row demo_conf 1 2 = Some (- 1, demo_conf)"
    using delete_given(1)[OF demo_ready demo_range(1) demo_app, of 2] by (simp add: demo_tbl)
  then show ?thesis using semaphore_restored[of demo_conf 1 0 None "- 1" demo_conf 2 "[]" "[]"] by blast
qed

text \<open>Without the semaphore no handler changes anything: each returns - 1.\<close>

theorem no_semaphore_no_change:
  assumes "cache_addr c = Some m" and "app_range a" and "semv c = None" and "vals \<noteq> []" and "hd vals \<noteq> None"
  shows "config_api_write_parameter c a k (Some v) = Some (- 1, c) \<and>
     config_api_write_table_parameter c a x k (Some v) = Some (- 1, c) \<and>
     config_api_add_table_row tab c a x vals = Some (- 1, c) \<and>
     config_api_delete_table_row c a x = Some (- 1, c)"
  using assms
  by (simp add: config_api_write_parameter_def config_api_write_table_parameter_def config_api_add_table_row_def
      config_api_delete_table_row_def app_range_def app_index_error_def check_library_def with_lock_def get_sem_id_def)

theorem no_semaphore_no_change_witness:
  "config_api_write_parameter (demo_conf\<lparr>semv := None\<rparr>) 1 2 (Some ''x'') = Some (- 1, demo_conf\<lparr>semv := None\<rparr>)"
  using no_semaphore_no_change[of "demo_conf\<lparr>semv := None\<rparr>" demo_shm 1 demo_vals 2 "''x''" 1 demo_tab] demo_range(1)
  by (simp add: demo_conf_def demo_vals_def)

text \<open>Before the library is initialised, or with an application number outside 1 to
  \<open>ID_END - 1\<close>, every handler returns - 1, leaves its caller's buffer and the library's state as
  they were, and does not touch the semaphore.\<close>

theorem handlers_reject:
  assumes "cache_addr c = None \<or> \<not> app_range a"
  shows "config_api_read_parameter c a k b = Some (- 1, b) \<and>
     config_api_read_table_parameter c a x k b = Some (- 1, b) \<and>
     config_api_read_table_row c a x bs = Some (- 1, bs) \<and>
     config_api_write_parameter c a k v = Some (- 1, c) \<and>
     config_api_write_table_parameter c a x k v = Some (- 1, c) \<and>
     config_api_add_table_row tab c a x vals = Some (- 1, c) \<and>
     config_api_delete_table_row c a x = Some (- 1, c)"
proof -
  have "cache_addr c = None \<or> app_index_error a"
    using assms by (auto simp: app_range_def app_index_error_def)
  then show ?thesis
    by (auto simp: config_api_read_parameter_def config_api_read_table_parameter_def
        config_api_read_table_row_def config_api_write_parameter_def config_api_write_table_parameter_def
        config_api_add_table_row_def config_api_delete_table_row_def split: option.splits)
qed

theorem handlers_reject_witness:
  "config_api_delete_table_row demo_conf 3 1 = Some (- 1, demo_conf)"
  using handlers_reject[of demo_conf 3 0 None 1 "[]" None] by (simp add: app_range_def ID_END_def)

end
