(* ===== verification/Act_Props.thy ===== *)
theory Act_Props
  imports Act_Apps Conf_Props
begin

text \<open>
  What the actions of \<^verbatim>\<open>confact\<close> do on a well-formed database: the commands they run for what is
  stored, which new rules they accept, and where they go wrong.
\<close>

section \<open>A sample environment\<close>

text \<open>The world is the list of the commands that were run, a kernel without surprises and the two applications of the repository.\<close>

definition demo_ids :: act_ids where
  "demo_ids = \<lparr>id_lan = 1, id_dhcpd = 2, id_dnsmasq = 3, id_wan = 4, id_sntp = 5, id_portforward = 1, id_firewall = 1, id_dmz = 8,
     id_syslogd = 12, id_inetd = 13, id_pcscd = 14, id_sdkd = 15, id_autocm = 16, id_thttpd = 17, id_end = 11, id_allend = 20\<rparr>"

definition demo_env :: "string list act_env" where
  "demo_env = \<lparr>act_kernel = quiet_kernel, tcm_doSystemAction = (\<lambda>c w. w @ [c]), tcm_getIfSubnet = (\<lambda>i k. Some i),
     tcm_toLowerCase = map tolower, act_sleep = (\<lambda>n w. w), act_opens = (\<lambda>p. True), act_stack = [], long_bits = 32, spare_bytes = 32\<rparr>"

definition demo_act :: "conf \<Rightarrow> string list act" where
  "demo_act c = \<lparr>act_conf = c, act_eid = 1, act_handle = Some \<lparr>h_eid = 1, commFd = 5, putBackQueue = Some []\<rparr>, act_world = []\<rparr>"

section \<open>Reading into short arrays\<close>

definition read_short :: "buf \<Rightarrow> string \<Rightarrow> buf" where
  "read_short b s = s @ NUL # drop (Suc (length s)) b"

lemma length_read_short [simp]: "length s < length b \<Longrightarrow> length (read_short b s) = length b"
  by (simp add: read_short_def)

lemma str_of_read_short [simp]: "NUL \<notin> set s \<Longrightarrow> str_of (read_short b s) = Some s"
  by (simp add: read_short_def str_of_def terminated_def)

lemma copy_value_short:
  assumes "buf_ok MAX_VALUE_LEN val" and "length b < 639"
  shows "copy_value b val = (if length (cstr val) < length b then Some (read_short b (cstr val)) else None)"
proof -
  have "terminated val" "length (cstr val) < 640"
    using buf_ok_cstr[OF assms(1)] by (simp_all add: MAX_VALUE_LEN_def)
  then show ?thesis
    using assms(2) by (auto simp: copy_value_def c_strlen_def strncpy_def pad_def read_short_def MAX_VALUE_LEN_def)
qed

lemma read_par_short:
  assumes "cache_addr c = Some m" and "wf_shm m" and "app_range a" and "is_int k" and "length b < 639"
  shows "config_api_read_parameter c a k (Some b) = (case cfg m (a, 0, k) of None \<Rightarrow> Some (- 1, Some b)
    | Some s \<Rightarrow> if length s < length b then Some (0, Some (read_short b s)) else None)"
proof -
  from assms(2) obtain T where T: "represents m T" "numbered m T" by (rule wf_shmE)
  have z: "is_int (0 * 256)" by (simp add: is_int_def)
  have r: "config_api_read_parameter c a k (Some b) = (case node_of m a 0 k of None \<Rightarrow> Some (- 1, Some b)
      | Some j \<Rightarrow> do { b' \<leftarrow> copy_value b (para_val (paras m ! j)); Some (0, Some b') })"
    by (simp add: read_parameter_locate[OF assms(1,3)] locate_node_of[OF T assms(4)])
  show ?thesis
  proof (cases "node_of m a 0 k")
    case None
    then show ?thesis using r by (simp add: cfg_node_of[OF z])
  next
    case (Some j)
    then have "j < length (paras m)" using node_of_bound[OF T z] by blast
    from copy_value_short[OF node_val_ok[OF T(1) this] assms(5)] Some r
    show ?thesis by (simp add: cfg_node_of[OF z])
  qed
qed

lemma length_local [simp]: "length (local_buf E n) = n"
  by (simp add: local_buf_def)

text \<open>Parameters that fit into their arrays.\<close>

lemma read_pars_fit:
  assumes "cache_addr c = Some m" and "wf_shm m"
    and "\<forall>(a, k, n) \<in> set ps. app_range a \<and> is_int k \<and> n < 639"
    and "list_all2 (\<lambda>(a, k, n) v. cfg m (a, 0, k) = Some v \<and> length v < n) ps vs"
  shows "read_pars E c ps = Some (Some vs)"
  using assms(3,4)
proof (induction ps arbitrary: vs)
  case (Cons x ps)
  obtain a k n where x: "x = (a, k, n)" by (cases x)
  from Cons.prems(2) obtain v ws where vs: "vs = v # ws" "cfg m (a, 0, k) = Some v" "length v < n"
    "list_all2 (\<lambda>(a, k, n) v. cfg m (a, 0, k) = Some v \<and> length v < n) ps ws"
    by (auto simp: x list_all2_Cons1)
  have "read_pars E c ps = Some (Some ws)" using Cons.IH[OF _ vs(4)] Cons.prems(1) by simp
  then show ?case
    using Cons.prems(1) read_par_short[OF assms(1,2), of a k "local_buf E n"] vs(2,3) cfg_value[OF vs(2)] by (simp add: x vs(1))
qed simp

section \<open>Interfaces\<close>

text \<open>
  Starting the LAN runs its two commands when both values of the database fit into their arrays of 18
  characters; the database takes longer ones, and then the stack is overwritten.
\<close>

theorem lan_start_fits:
  assumes "cache_addr (act_conf s) = Some m" and "wf_shm m" and "app_range (id_lan I)"
    and "cfg m (id_lan I, 0, PARA_LAN_IP) = Some ip" and "cfg m (id_lan I, 0, PARA_LAN_MASK) = Some msk"
  shows "actLan_doConfig I E APP_START s =
    (if length ip < 18 \<and> length msk < 18
     then Some (0, s\<lparr>act_world := tcm_doSystemAction E (spaced [''echo'', ''ifconfig'', ''eth0'', ip, ''netmask'', msk, ''up''])
            (tcm_doSystemAction E ''echo ifconfig lo 127.0.0.1'' (act_world s))\<rparr>)
     else None)"
proof -
  have int: "is_int PARA_LAN_IP" "is_int PARA_LAN_MASK" by (simp_all add: is_int_def PARA_LAN_IP_def PARA_LAN_MASK_def)
  note r = read_par_short[OF assms(1-3) int(1), of "local_buf E 18"] read_par_short[OF assms(1-3) int(2), of "local_buf E 18"]
  have r2: "read_pars E (act_conf s) [(id_lan I, PARA_LAN_IP, BUFLEN_18), (id_lan I, PARA_LAN_MASK, BUFLEN_18)]
      = (if length ip < 18 \<and> length msk < 18 then Some (Some [ip, msk]) else None)"
    using r assms(4,5) cfg_value[OF assms(4)] cfg_value[OF assms(5)] by (simp add: BUFLEN_18_def)
  have run: "ralLan_doConfig ip msk = Some (TCMRET_SUCCESS,
      [''echo ifconfig lo 127.0.0.1'', spaced [''echo'', ''ifconfig'', ''eth0'', ip, ''netmask'', msk, ''up'']])"
    if "length ip < 18" "length msk < 18"
    using that by (simp add: ralLan_doConfig_def run_commands_def commands_def BUFLEN_128_def)
  have "actLan_doConfig I E APP_START s = actLan_configLan I E s" by (simp add: actLan_doConfig_def)
  then show ?thesis
    using run r2 by (cases "length ip < 18 \<and> length msk < 18")
      (simp_all add: actLan_configLan_def do_actions_def failed_def del: spaced.simps read_pars.simps)
qed

theorem lan_start_fits_witness:
  "actLan_doConfig demo_ids demo_env APP_START (demo_act demo_conf) =
    Some (0, (demo_act demo_conf)\<lparr>act_world := [''echo ifconfig lo 127.0.0.1'', ''echo ifconfig eth0 10.0.0.1 netmask 255.0.0.0 up'']\<rparr>)"
proof -
  have "cache_addr (act_conf (demo_act demo_conf)) = Some demo_shm" "app_range (id_lan demo_ids)"
    "cfg demo_shm (id_lan demo_ids, 0, PARA_LAN_IP) = Some ''10.0.0.1''" "cfg demo_shm (id_lan demo_ids, 0, PARA_LAN_MASK) = Some ''255.0.0.0''"
    by (simp_all add: demo_act_def demo_conf_def demo_ids_def demo_range PARA_LAN_IP_def PARA_LAN_MASK_def cfg.simps nth_value_def demo_tbl)
  from lan_start_fits[OF this(1) demo_wf this(2-4), of demo_env] show ?thesis
    by (simp add: demo_env_def demo_act_def)
qed

section \<open>Reading rows\<close>

definition bufs32 :: "buf option list \<Rightarrow> bool" where
  "bufs32 bs \<longleftrightarrow> length bs = 7 \<and> (\<forall>b \<in> set bs. \<exists>z. b = Some z \<and> length z = 32)"

lemma row_bufs32: "bufs32 (row_bufs E)"
  by (simp add: bufs32_def row_bufs_def BUFLEN_32_def)

text \<open>What a row of seven values leaves in the arrays.\<close>

definition row_into :: "buf option list \<Rightarrow> string list \<Rightarrow> buf option list" where
  "row_into bs vs = map2 (\<lambda>b v. Some (read_short (the b) v)) bs vs"

definition fits :: "string list \<Rightarrow> bool" where
  "fits vs \<longleftrightarrow> length vs = 7 \<and> (\<forall>v \<in> set vs. length v < 32)"

lemma bufs32_row_into:
  assumes "bufs32 bs" and "fits vs"
  shows "bufs32 (row_into bs vs)"
  using assms by (auto simp: bufs32_def fits_def row_into_def set_zip) (metis length_read_short nth_mem option.sel)

lemma copy_row_short:
  assumes "\<forall>j \<in> set js. buf_ok MAX_VALUE_LEN (para_val (paras m ! j))" and "length js = length bs"
    and "\<forall>b \<in> set bs. \<exists>z. b = Some z \<and> length z = 32"
  shows "copy_row m js bs = (if \<forall>j \<in> set js. length (cstr (para_val (paras m ! j))) < 32
    then Some (row_into bs (map (\<lambda>j. cstr (para_val (paras m ! j))) js)) else None)"
  using assms
proof (induction js arbitrary: bs)
  case (Cons j js)
  then obtain z ws where bs: "bs = Some z # ws" "length z = 32" by (cases bs) auto
  then have "copy_row m js ws = (if \<forall>j \<in> set js. length (cstr (para_val (paras m ! j))) < 32
      then Some (row_into ws (map (\<lambda>j. cstr (para_val (paras m ! j))) js)) else None)"
    using Cons by auto
  then show ?case using Cons.prems(1) bs copy_value_short[of "para_val (paras m ! j)" z] by (simp add: row_into_def)
qed (simp add: row_into_def)

lemma read_row_short:
  assumes "cache_addr c = Some m" and "wf_shm m" and "app_range a" and "1 \<le> x" and "x < 256"
    and "tbl m (a, x) = Some es" and "length es = 7" and "bufs32 bs"
  shows "config_api_read_table_row c a x bs =
    (if fits (map snd es) then Some (0, row_into bs (map snd es)) else None)"
proof -
  from assms(2) obtain T where T: "represents m T" "numbered m T" by (rule wf_shmE)
  from row_found[OF T assms(4-6)] obtain i r ks where found:
    "find_app m a = Some (Some i)" "find_row m (app_row (apps m ! i)) (GET_ROW_ID a x) = Some (Some r)"
    "paras_from m (row_para (rows m ! r)) = Some ks" "es = map (entry m) ks"
    "\<forall>j \<in> set ks. buf_ok MAX_VALUE_LEN (para_val (paras m ! j))" .
  have b: "bs \<noteq> []" "hd bs \<noteq> None" "\<forall>b \<in> set bs. \<exists>z. b = Some z \<and> length z = 32" "length ks = length bs"
    using assms(7,8) found(4) by (auto simp: bufs32_def) (metis hd_in_set length_0_conv option.distinct(1) zero_neq_numeral)
  have e: "map snd es = map (\<lambda>j. cstr (para_val (paras m ! j))) ks" by (simp add: found(4) entry_def)
  show ?thesis
    unfolding e
    using read_table_row_pos[OF assms(1,3) b(1,2) found(1-3)] copy_row_short[OF found(5) b(4,3)] assms(7)
    by (simp add: fits_def found(4))
qed

lemma read_row_missing:
  assumes "cache_addr c = Some m" and "wf_shm m" and "app_range a" and "1 \<le> x" and "x < 256"
    and "tbl m (a, x) = None" and "bufs32 bs"
  shows "config_api_read_table_row c a x bs = Some (- 1, bs)"
  using assms(7)
  by (intro read_row_absent[OF assms(1-6)])
    (auto simp: bufs32_def, metis hd_in_set length_0_conv option.distinct(1) zero_neq_numeral)

text \<open>The columns of a row that has been read.\<close>

lemma col_row_into:
  assumes "bufs32 bs" and "length vs = 7" and "\<forall>v \<in> set vs. NUL \<notin> set v" and "1 \<le> p" and "p \<le> 7"
  shows "col (row_into bs vs) p = Some (vs ! (p - 1))"
  using assms by (auto simp: col_def row_into_def bufs32_def)

lemma row_values_into:
  assumes "length bs = length vs" and "\<forall>v \<in> set vs. NUL \<notin> set v"
  shows "row_values (row_into bs vs) = Some (map Some vs)"
  using assms by (induction bs vs rule: list_induct2) (auto simp: row_into_def)

section \<open>Firewall rules\<close>

definition opt_text :: "string \<Rightarrow> string \<Rightarrow> string" where
  "opt_text option v = (if v = [] then [] else option @ '' '' @ v)"

text \<open>The two commands of a rule with the values \<open>vs\<close> for one protocol.\<close>

definition drop_rule :: "string \<Rightarrow> string list \<Rightarrow> string list" where
  "drop_rule proto vs = map (\<lambda>chain. spaced [''iptables'', ''-A'', chain, '''', ''-p '' @ proto, opt_text ''-s'' (vs ! 0),
     opt_text ''--sport'' (vs ! 2), opt_text ''-d'' (vs ! 3), opt_text ''--dport'' (vs ! 5), ''-j'', ''DROP'']) [''INPUT'', ''FORWARD'']"

text \<open>Values that fit into the arrays on the way, and no address with a mask.\<close>

definition rule_ok :: "string list \<Rightarrow> bool" where
  "rule_ok vs \<longleftrightarrow> fits vs \<and> protocol_ok (vs ! 6) \<and> (vs ! 0 = [] \<or> vs ! 1 = []) \<and> (vs ! 3 = [] \<or> vs ! 4 = []) \<and>
     length (vs ! 0) < 29 \<and> length (vs ! 3) < 29 \<and> length (vs ! 2) < 8 \<and> length (vs ! 5) < 8"

lemma opt_arg_text: "length option + length v + 1 < n \<Longrightarrow> opt_arg n option (Some v) = Some (opt_text option v)"
  by (simp add: opt_arg_def opt_text_def sprintf_def)

lemma addr_arg_text:
  "length option + length v < 31 \<Longrightarrow> v = [] \<or> msk = [] \<Longrightarrow> addr_arg option (Some v) (Some msk) = Some (opt_text option v)"
  by (auto simp: addr_arg_def opt_arg_text BUFLEN_32_def) (simp_all add: opt_text_def)

lemma length_opt_text: "length (opt_text option v) \<le> length option + 1 + length v"
  by (simp add: opt_text_def)

lemma drop_rule_short:
  assumes "rule_ok vs" and "length proto = 3" and "c \<in> set (drop_rule proto vs)"
  shows "length c < 256"
proof -
  have "length (vs ! 0) < 29" "length (vs ! 3) < 29" "length (vs ! 2) < 8" "length (vs ! 5) < 8"
    using assms(1) by (auto simp: rule_ok_def)
  then show ?thesis
    using assms(2,3) length_opt_text[of "''-s''" "vs ! 0"] length_opt_text[of "''--sport''" "vs ! 2"]
      length_opt_text[of "''-d''" "vs ! 3"] length_opt_text[of "''--dport''" "vs ! 5"]
    by (auto simp: drop_rule_def)
qed

lemma firewall_rule_adds:
  assumes "rule_ok vs" and "length proto = 3"
  shows "firewall_rule E RULE_ADD (map Some vs) proto s
    = Some (0, s\<lparr>act_world := fold (tcm_doSystemAction E) (drop_rule proto vs) (act_world s)\<rparr>)"
proof -
  have len: "length vs = 7" using assms(1) by (simp add: rule_ok_def fits_def)
  have v: "vs ! 0 = [] \<or> vs ! 1 = []" "vs ! 3 = [] \<or> vs ! 4 = []"
    "length (vs ! 0) < 29" "length (vs ! 3) < 29" "length (vs ! 2) < 8" "length (vs ! 5) < 8"
    using assms(1) by (auto simp: rule_ok_def)
  have p: "proto \<noteq> []" using assms(2) by auto
  have device: "opt_arg BUFLEN_32 ''-i'' None = Some []" by (simp add: opt_arg_def)
  have prot: "opt_arg BUFLEN_32 ''-p'' (Some proto) = Some (''-p '' @ proto)"
    using p assms(2) by (simp add: opt_arg_def sprintf_def BUFLEN_32_def)
  have addrs: "addr_arg ''-s'' (Some (vs ! 0)) (Some (vs ! 1)) = Some (opt_text ''-s'' (vs ! 0))"
    "addr_arg ''-d'' (Some (vs ! 3)) (Some (vs ! 4)) = Some (opt_text ''-d'' (vs ! 3))"
    by (rule addr_arg_text; use v in simp)+
  have ports: "opt_arg BUFLEN_16 ''--sport'' (Some (vs ! 2)) = Some (opt_text ''--sport'' (vs ! 2))"
    "opt_arg BUFLEN_16 ''--dport'' (Some (vs ! 5)) = Some (opt_text ''--dport'' (vs ! 5))"
    by (rule opt_arg_text; use v in \<open>simp add: BUFLEN_16_def\<close>)+
  have "run_commands BUFLEN_256 (drop_rule proto vs) = Some (TCMRET_SUCCESS, drop_rule proto vs)"
    using drop_rule_short[OF assms] by (simp add: run_commands_def commands_def BUFLEN_256_def)
  then have "ralIptables_runCmdFirewall (CHR ''A'') None (Some proto) (Some (vs ! 0)) (Some (vs ! 1)) (Some (vs ! 2)) (Some (vs ! 3))
      (Some (vs ! 4)) (Some (vs ! 5)) ''DROP'' = Some (TCMRET_SUCCESS, drop_rule proto vs)"
    unfolding ralIptables_runCmdFirewall_def device prot addrs ports drop_rule_def by (simp del: spaced.simps)
  then show ?thesis
    by (simp add: firewall_rule_def ralIptables_setFirewall_def do_actions_def len PARA_FIREWALL_SRCIP_def PARA_FIREWALL_SRCMASK_def
        PARA_FIREWALL_SRCPORT_def PARA_FIREWALL_DSTIP_def PARA_FIREWALL_DSTMASK_def PARA_FIREWALL_DSTPORT_def)
qed

text \<open>What starting the firewall runs for a row: the rule for TCP, twice for a rule on both protocols.\<close>

definition start_rules :: "string list \<Rightarrow> string list" where
  "start_rules vs = (if strcasecmp_eq (vs ! 6) ''TCP/UDP'' then drop_rule ''tcp'' vs @ drop_rule ''tcp'' vs else drop_rule ''tcp'' vs)"

lemma tolower_protocols: "map tolower ''TCP'' = ''tcp''" "map tolower ''UDP'' = ''udp''" "map tolower ''TCP/UDP'' = ''tcp/udp''"
  by code_simp+

lemma start_row:
  assumes "rule_ok vs"
  shows "by_protocol (vs ! 6) ''tcp'' (firewall_rule E RULE_ADD (map Some vs)) r s
    = Some (0, s\<lparr>act_world := fold (tcm_doSystemAction E) (start_rules vs) (act_world s)\<rparr>)"
  using assms firewall_rule_adds[OF assms, of "''tcp''" E]
  by (auto simp: by_protocol_def start_rules_def rule_ok_def protocol_ok_def strcasecmp_eq_def tolower_protocols)

text \<open>The rows \<open>1\<close>, \dots, \<open>k\<close> of a table hold rules and there is none after them.\<close>

definition rule_rows :: "shm \<Rightarrow> int \<Rightarrow> string list list \<Rightarrow> bool" where
  "rule_rows m a rs \<longleftrightarrow> (\<forall>i < length rs. \<exists>es. tbl m (a, int i + 1) = Some es \<and> map snd es = rs ! i \<and> rule_ok (rs ! i)) \<and>
     tbl m (a, int (length rs) + 1) = None"

lemma firewall_rows_start:
  assumes "cache_addr (act_conf s) = Some m" and "wf_shm m" and "app_range (id_firewall I)" and "rule_rows m (id_firewall I) rs"
    and "length rs < n" and "n \<le> 33" and "bufs32 bs" and "i \<le> length rs"
  shows "firewall_rows I E [Suc i..<Suc n] bs r s
    = Some (ret_code TCMRET_CONFLIB_READ_ERROR, s\<lparr>act_world := fold (tcm_doSystemAction E) (concat (map start_rules (drop i rs))) (act_world s)\<rparr>)"
  using assms(1,7,8)
proof (induction "length rs - i" arbitrary: i bs r s)
  case 0
  then have i: "i = length rs" by simp
  have up: "[Suc i..<Suc n] = Suc i # [Suc (Suc i)..<Suc n]" using assms(5) i by (simp add: upt_rec)
  have "tbl m (id_firewall I, int (Suc i)) = None" using assms(4) i by (simp add: rule_rows_def add.commute)
  then have "config_api_read_table_row (act_conf s) (id_firewall I) (int (Suc i)) bs = Some (- 1, bs)"
    using assms(5,6) i by (intro read_row_missing[OF 0(2) assms(2,3) _ _ _ 0(3)]) simp_all
  then show ?case using 0(1) by (simp add: up failed_def del: upt_Suc)
next
  case (Suc d)
  then have i: "i < length rs" "d = length rs - Suc i" by auto
  have up: "[Suc i..<Suc n] = Suc i # [Suc (Suc i)..<Suc n]" using assms(5) i by (simp add: upt_rec)
  from assms(4) i(1) obtain es where es: "tbl m (id_firewall I, int (Suc i)) = Some es" "map snd es = rs ! i" "rule_ok (rs ! i)"
    by (auto simp: rule_rows_def add.commute)
  have f: "fits (rs ! i)" and len: "length es = 7" using es(2,3) by (auto simp: rule_ok_def fits_def dest: arg_cong[of _ _ length])
  have nul: "\<forall>v \<in> set (rs ! i). NUL \<notin> set v" using tbl_values[OF es(1)] es(2) by simp
  have row: "config_api_read_table_row (act_conf s) (id_firewall I) (int (Suc i)) bs = Some (0, row_into bs (rs ! i))"
    using read_row_short[OF Suc.prems(1) assms(2,3) _ _ es(1) len Suc.prems(2)] assms(5,6) i(1) f es(2) by simp
  have bs1: "bufs32 (row_into bs (rs ! i))" using bufs32_row_into[OF Suc.prems(2) f] .
  have vals: "row_values (row_into bs (rs ! i)) = Some (map Some (rs ! i))"
    using row_values_into[OF _ nul, of bs] Suc.prems(2) f by (simp add: bufs32_def fits_def)
  have p: "value_arg (map Some (rs ! i)) PARA_FIREWALL_PROTOCOL = Some (rs ! i ! 6)"
    using f by (simp add: value_arg_def PARA_FIREWALL_PROTOCOL_def fits_def)
  let ?s = "s\<lparr>act_world := fold (tcm_doSystemAction E) (start_rules (rs ! i)) (act_world s)\<rparr>"
  have "firewall_rows I E [Suc i..<Suc n] bs r s = firewall_rows I E [Suc (Suc i)..<Suc n] (row_into bs (rs ! i)) 0 ?s"
    by (simp add: up row[simplified] vals p start_row[OF es(3)] del: upt_Suc)
  also have "\<dots> = Some (ret_code TCMRET_CONFLIB_READ_ERROR,
      ?s\<lparr>act_world := fold (tcm_doSystemAction E) (concat (map start_rules (drop (Suc i) rs))) (act_world ?s)\<rparr>)"
    using Suc.hyps(1)[OF i(2), of ?s "row_into bs (rs ! i)" 0] Suc.prems(1) bs1 i(1) by simp
  finally show ?case using Cons_nth_drop_Suc[OF i(1)] by (simp add: fold_append flip: Cons_nth_drop_Suc[OF i(1)])
qed

text \<open>C24. 
  Starting the firewall with fewer than 32 rules in the rows from 1 on, each of seven short values with a known protocol
  and without a mask on an address it has, runs exactly the commands of these rules
  in order and then reports that the database cannot be read; a rule for UDP is set for TCP. A rule with a mask on an
  address has no defined result, see \<open>masked_rule_undefined\<close>.
\<close>

theorem firewall_start_rules:
  assumes "cache_addr (act_conf s) = Some m" and "wf_shm m" and "app_range (id_firewall I)"
    and "rule_rows m (id_firewall I) rs" and "length rs < 32"
  shows "actFirewall_doconfig I E APP_START s
    = Some (ret_code TCMRET_CONFLIB_READ_ERROR, s\<lparr>act_world := fold (tcm_doSystemAction E) (concat (map start_rules rs)) (act_world s)\<rparr>)"
  using firewall_rows_start[OF assms(1-4) assms(5) _ row_bufs32, of 0 E E 0]
  by (simp add: actFirewall_doconfig_def actFirewall_launcher_def MAXTABLE_FIREWALL_def eval_nat_numeral del: upt_Suc)

text \<open>A memory with one row of seven values, of application 1.\<close>

definition row_shm :: "string list \<Rightarrow> shm" where
  "row_shm vs = \<lparr>magic1 = 0xf0f0f0f0,
     apps = [\<lparr>app_id = 1, app_name = pad 240 ''rules'', app_para = 0, app_row = 260, app_next = 0\<rparr>],
     rows = [\<lparr>row_id = 65792, row_para = 284, row_next = 0\<rparr>, \<lparr>row_id = - 1, row_para = 0, row_next = 0\<rparr>],
     paras = [demo_para 65793 ''a'' (vs ! 0) 1172, demo_para 65794 ''b'' (vs ! 1) 2060, demo_para 65795 ''c'' (vs ! 2) 2948,
       demo_para 65796 ''d'' (vs ! 3) 3836, demo_para 65797 ''e'' (vs ! 4) 4724, demo_para 65798 ''f'' (vs ! 5) 5612,
       demo_para 65799 ''g'' (vs ! 6) 0],
     magic2 = 0x0f0f0f0f\<rparr>"

definition row_tree :: tree where
  "row_tree = [([], [(0, [0, 1, 2, 3, 4, 5, 6])])]"

lemma row_shm_nodes [simp]:
  "apps (row_shm vs) = [\<lparr>app_id = 1, app_name = pad 240 ''rules'', app_para = 0, app_row = 260, app_next = 0\<rparr>]"
  "rows (row_shm vs) = [\<lparr>row_id = 65792, row_para = 284, row_next = 0\<rparr>, \<lparr>row_id = - 1, row_para = 0, row_next = 0\<rparr>]"
  "paras (row_shm vs) = [demo_para 65793 ''a'' (vs ! 0) 1172, demo_para 65794 ''b'' (vs ! 1) 2060, demo_para 65795 ''c'' (vs ! 2) 2948,
       demo_para 65796 ''d'' (vs ! 3) 3836, demo_para 65797 ''e'' (vs ! 4) 4724, demo_para 65798 ''f'' (vs ! 5) 5612,
       demo_para 65799 ''g'' (vs ! 6) 0]"
  by (simp_all add: row_shm_def)

lemma row_shm_at [simp]:
  "para_at (row_shm vs) = node_at 284 888 7" "row_at (row_shm vs) = node_at 260 12 2"
  "app_at (row_shm vs) = node_at 4 256 1" "APP_START_NODE (row_shm vs) = 4"
  by (simp_all add: fun_eq_iff para_at_def row_at_def app_at_def PARA_START_NODE_def ROW_START_NODE_def
      APP_START_NODE_def sizeof_defs eval_nat_numeral)

lemma fits_short: "fits vs \<Longrightarrow> k < 7 \<Longrightarrow> length (vs ! k) < 640"
proof -
  assume f: "fits vs" and "k < 7"
  then have "vs ! k \<in> set vs" by (simp add: fits_def)
  then show ?thesis using f by (auto simp: fits_def)
qed

lemma row_shm_represents:
  assumes "fits vs"
  shows "represents (row_shm vs) row_tree"
  unfolding represents_def
proof (intro conjI)
  have "\<forall>k < 7. length (vs ! k) < 640" using fits_short[OF assms] by auto
  then show "bufs_ok (row_shm vs)"
    by (simp add: bufs_ok_def MAX_NAME_LEN_def MAX_VALUE_LEN_def buf_ok_pad)
  show "apps_ok (row_shm vs) (length row_tree)"
    by (simp add: apps_ok_def row_tree_def All_less_Suc app_off_def sizeof_defs)
  show "\<forall>i < length row_tree. app_repr (row_shm vs) (apps (row_shm vs) ! i) (row_tree ! i)"
    by (simp add: row_tree_def All_less_Suc app_repr_def node_at_def Let_def)
  show "distinct (tree_rows row_tree)" "distinct (tree_paras row_tree)" by (simp_all add: row_tree_def)
qed

lemma row_shm_numbered: "numbered (row_shm vs) row_tree"
  by (simp add: numbered_def row_tree_def All_less_Suc app_numbered_def plist_numbered_def row_number_def Let_def demo_ids ID_END_def)

lemma row_shm_wf: "fits vs \<Longrightarrow> wf_shm (row_shm vs)"
  unfolding wf_shm_def using row_shm_represents row_shm_numbered by blast

lemma row_shm_tbl:
  assumes "fits vs" and "\<forall>v \<in> set vs. NUL \<notin> set v"
  shows "map_option (map snd) (tbl (row_shm vs) (1, 1)) = Some vs" and "x \<noteq> 0 \<Longrightarrow> x \<noteq> 1 \<Longrightarrow> tbl (row_shm vs) (1, x) = None"
proof -
  have "\<forall>k < 7. vs ! k \<in> set vs" using assms(1) by (auto simp: fits_def)
  then have v: "\<forall>k < 7. length (vs ! k) < 640 \<and> NUL \<notin> set (vs ! k)" using fits_short[OF assms(1)] assms(2) by auto
  then have t: "\<forall>k < 7. take 640 (vs ! k) = vs ! k" by auto
  have e: "vs = [vs ! 0, vs ! 1, vs ! 2, vs ! 3, vs ! 4, vs ! 5, vs ! 6]"
    using assms(1) by (auto simp: fits_def numeral_eq_Suc length_Suc_conv)
  have "map_option (map snd) (tbl (row_shm vs) (1, 1)) = Some [vs ! 0, vs ! 1, vs ! 2, vs ! 3, vs ! 4, vs ! 5, vs ! 6]"
    using v t by (simp add: tbl_tree[OF row_shm_represents[OF assms(1)] row_shm_numbered] tree_lists_def row_tree_def app_lists_def
        row_number_def entry_def cstr_pad)
  then show "map_option (map snd) (tbl (row_shm vs) (1, 1)) = Some vs" unfolding e[symmetric] .
  show "tbl (row_shm vs) (1, x) = None" if "x \<noteq> 0" "x \<noteq> 1"
    using that by (simp add: tbl_tree[OF row_shm_represents[OF assms(1)] row_shm_numbered] tree_lists_def row_tree_def app_lists_def row_number_def)
qed

definition rule_values :: "string list" where
  "rule_values = [''10.0.0.5'', '''', ''80'', '''', '''', '''', ''UDP'']"

lemma rule_values_ok: "rule_ok rule_values" "fits rule_values" "\<forall>v \<in> set rule_values. NUL \<notin> set v"
  by (simp_all add: rule_ok_def fits_def rule_values_def protocol_ok_def strcasecmp_eq_def)

lemma fw_rules: "rule_rows (row_shm rule_values) 1 [rule_values]"
  using row_shm_tbl[OF rule_values_ok(2,3)] rule_values_ok(1) by (auto simp: rule_rows_def)

definition row_conf :: "string list \<Rightarrow> conf" where
  "row_conf vs = demo_conf\<lparr>cache_addr := Some (row_shm vs)\<rparr>"

definition fw_act :: "string list act" where
  "fw_act = demo_act (row_conf rule_values)"

lemma fw_rule_text:
  "start_rules rule_values = [''iptables -A INPUT  -p tcp -s 10.0.0.5 --sport 80   -j DROP'', ''iptables -A FORWARD  -p tcp -s 10.0.0.5 --sport 80   -j DROP'']"
  by code_simp

theorem firewall_start_rules_witness:
  "actFirewall_doconfig demo_ids demo_env APP_START fw_act = Some (14, fw_act\<lparr>act_world :=
     [''iptables -A INPUT  -p tcp -s 10.0.0.5 --sport 80   -j DROP'', ''iptables -A FORWARD  -p tcp -s 10.0.0.5 --sport 80   -j DROP'']\<rparr>)"
proof -
  have "cache_addr (act_conf fw_act) = Some (row_shm rule_values)" "app_range (id_firewall demo_ids)" "rule_rows (row_shm rule_values) (id_firewall demo_ids) [rule_values]"
    by (simp_all add: fw_act_def demo_act_def row_conf_def demo_ids_def demo_range fw_rules)
  from firewall_start_rules[OF this(1) row_shm_wf[OF rule_values_ok(2)] this(2,3), of demo_env] show ?thesis
    by (simp add: fw_rule_text) (simp add: demo_env_def fw_act_def demo_act_def)
qed

section \<open>New port forwarding rules\<close>

text \<open>
  Two protocols share TCP or UDP; a new rule clashes with a stored one when they share a protocol and their
  incoming ports overlap.
\<close>

definition shares :: "'w act_env \<Rightarrow> string \<Rightarrow> string \<Rightarrow> bool" where
  "shares E p q \<longleftrightarrow> (\<exists>t \<in> {''tcp'', ''udp''}. strstr (tcm_toLowerCase E p) t \<noteq> None \<and> strstr (tcm_toLowerCase E q) t \<noteq> None)"

definition clash :: "'w act_env \<Rightarrow> string \<Rightarrow> int \<Rightarrow> int \<Rightarrow> (string \<times> string) list \<Rightarrow> bool" where
  "clash E proto isp iep es \<longleftrightarrow> shares E proto (snd (es ! 1)) \<and>
     \<not> (iep < the (atoi E (snd (es ! 2))) \<or> the (atoi E (snd (es ! 3))) < isp)"

definition stored_ok :: "'w act_env \<Rightarrow> (string \<times> string) list \<Rightarrow> bool" where
  "stored_ok E es \<longleftrightarrow> fits (map snd es) \<and> atoi E (snd (es ! 2)) \<noteq> None \<and> atoi E (snd (es ! 3)) \<noteq> None"

lemma same_protocol:
  "length p < 32 \<Longrightarrow> length q < 32 \<Longrightarrow> actUtil_isSameProtocol E (Some p) (Some q) = Some (shares E p q)"
  by (auto simp: actUtil_isSameProtocol_def sprintf_def BUFLEN_32_def shares_def Let_def)

text \<open>One row of the scan.\<close>

lemma scan_step:
  assumes "cache_addr c = Some m" and "wf_shm m" and "app_range (id_portforward I)" and "length proto < 32"
    and "1 \<le> i" and "i < 256" and "bufs32 bs" and "tbl m (id_portforward I, int i) = Some es" and "stored_ok E es"
  obtains bs1 where "bufs32 bs1"
    "portforward_scan I E c pf proto isp iep (i # is) bs j =
       (if 0 < pf \<and> pf = int i then Some (Inl TCMRET_INVALID_EXIST)
        else if clash E proto isp iep es then Some (Inl TCMRET_INVALID_DUPLICATE)
        else portforward_scan I E c pf proto isp iep is bs1 (j + 1))"
proof
  let ?vs = "map snd es"
  have f: "fits ?vs" and len: "length es = 7" "length ?vs = 7" using assms(9) by (auto simp: stored_ok_def fits_def)
  from assms(9) obtain a b where ab: "atoi E (snd (es ! 2)) = Some a" "atoi E (snd (es ! 3)) = Some b" by (auto simp: stored_ok_def)
  have nul: "\<forall>v \<in> set ?vs. NUL \<notin> set v" using tbl_values[OF assms(8)] by blast
  have row: "config_api_read_table_row c (id_portforward I) (int i) bs = Some (0, row_into bs ?vs)"
    using read_row_short[OF assms(1-3) _ _ assms(8) len(1) assms(7)] f assms(5,6) by simp
  note cols = col_row_into[OF assms(7) len(2) nul]
  have c: "col (row_into bs ?vs) PARA_PORTFORWARD_START_INCOMING_PORT = Some (snd (es ! 2))"
    "col (row_into bs ?vs) PARA_PORTFORWARD_END_INCOMING_PORT = Some (snd (es ! 3))"
    "col (row_into bs ?vs) PARA_PORTFORWARD_PROTOCOL = Some (snd (es ! 1))"
    using cols[of 2] cols[of 3] cols[of 4] len(1) by (simp_all add: PARA_PORTFORWARD_START_INCOMING_PORT_def
        PARA_PORTFORWARD_END_INCOMING_PORT_def PARA_PORTFORWARD_PROTOCOL_def numeral_3_eq_3 numeral_2_eq_2)
  have "length (snd (es ! 1)) < 32" using f len(1) by (auto simp: fits_def)
  from same_protocol[OF assms(4) this] have same: "actUtil_isSameProtocol E (Some proto) (Some (snd (es ! 1))) = Some (shares E proto (snd (es ! 1)))" .
  show "bufs32 (row_into bs ?vs)" by (rule bufs32_row_into[OF assms(7) f])
  show "portforward_scan I E c pf proto isp iep (i # is) bs j =
       (if 0 < pf \<and> pf = int i then Some (Inl TCMRET_INVALID_EXIST)
        else if clash E proto isp iep es then Some (Inl TCMRET_INVALID_DUPLICATE)
        else portforward_scan I E c pf proto isp iep is (row_into bs ?vs) (j + 1))"
    by (simp add: row c ab same[simplified] clash_def)
qed

lemma scan_rows:
  assumes "cache_addr c = Some m" and "wf_shm m" and "app_range (id_portforward I)" and "length proto < 32"
    and "\<forall>i \<in> set xs. 1 \<le> i \<and> i < 256 \<and> (\<forall>es. tbl m (id_portforward I, int i) = Some es \<longrightarrow> stored_ok E es)" and "bufs32 bs"
  shows "\<exists>r. portforward_scan I E c pf proto isp iep xs bs j = Some r \<and>
    (if \<forall>i \<in> set xs. \<forall>es. tbl m (id_portforward I, int i) = Some es \<longrightarrow> \<not> (0 < pf \<and> pf = int i) \<and> \<not> clash E proto isp iep es
     then r = Inr (j + length (filter (\<lambda>i. tbl m (id_portforward I, int i) \<noteq> None) xs))
     else r \<in> {Inl TCMRET_INVALID_EXIST, Inl TCMRET_INVALID_DUPLICATE})"
  using assms(5,6)
proof (induction xs arbitrary: bs j)
  case (Cons i xs)
  show ?case
  proof (cases "tbl m (id_portforward I, int i)")
    case None
    then have eq: "portforward_scan I E c pf proto isp iep (i # xs) bs j = portforward_scan I E c pf proto isp iep xs bs j"
      using read_row_missing[OF assms(1-3) _ _ None Cons.prems(2)] Cons.prems(1) by simp
    show ?thesis unfolding eq using Cons.IH[of bs j] Cons.prems None by (simp del: portforward_scan.simps split del: if_split cong: if_cong)
  next
    case (Some es)
    have "1 \<le> i" "i < 256" "stored_ok E es" using Cons.prems(1) Some by auto
    from scan_step[OF assms(1-4) this(1,2) Cons.prems(2) Some this(3)] obtain bs1 where bs1: "bufs32 bs1"
      "portforward_scan I E c pf proto isp iep (i # xs) bs j =
       (if 0 < pf \<and> pf = int i then Some (Inl TCMRET_INVALID_EXIST)
        else if clash E proto isp iep es then Some (Inl TCMRET_INVALID_DUPLICATE)
        else portforward_scan I E c pf proto isp iep xs bs1 (j + 1))" by blast
    consider "0 < pf \<and> pf = int i" | "\<not> (0 < pf \<and> pf = int i)" "clash E proto isp iep es"
      | (go_on) "\<not> (0 < pf \<and> pf = int i)" "\<not> clash E proto isp iep es" by blast
    then show ?thesis
    proof cases
      case go_on
      then have eq: "portforward_scan I E c pf proto isp iep (i # xs) bs j = portforward_scan I E c pf proto isp iep xs bs1 (j + 1)"
        by (simp only: bs1(2) if_False)
      show ?thesis unfolding eq using Cons.IH[OF _ bs1(1), of "j + 1"] Cons.prems(1) Some go_on
        by (simp del: portforward_scan.simps split del: if_split cong: if_cong)
    qed (use bs1(2) Some in \<open>auto simp del: portforward_scan.simps\<close>)
  qed
qed simp

lemma filter_all: "length (filter P xs) = length xs \<longleftrightarrow> (\<forall>x \<in> set xs. P x)"
  by (metis filter_True length_filter_less less_irrefl)

lemma upto_32: "i \<in> set [1..<33] \<longleftrightarrow> 1 \<le> i \<and> i \<le> (32::nat)"
  by auto

lemma some_free: "length (filter P [1..<33]) \<noteq> 32 \<longleftrightarrow> (\<exists>i. 1 \<le> i \<and> i \<le> 32 \<and> \<not> P i)"
  using filter_all[of P "[1..<33]"] by (simp only: upto_32 length_upt Ball_def) auto

text \<open>C12. 
  A new port forwarding rule is accepted exactly when its protocol is known, its port ranges are in order, the
  requested row is free, there is room for another row, and no stored rule with a shared protocol has an overlapping range.
\<close>

theorem portforward_accepts:
  assumes "cache_addr c = Some m" and "wf_shm m" and "app_range (id_portforward I)"
    and "\<forall>i es. 1 \<le> i \<and> i \<le> 32 \<and> tbl m (id_portforward I, int i) = Some es \<longrightarrow> stored_ok E es"
    and "port_numbers E (value_arg vs) = Some (isp, iep, fsp, fep)" and "value_arg vs PARA_PORTFORWARD_PROTOCOL = Some proto" and "length proto < 32"
  shows "actPortForward_checking I E c pf (Some vs) = Some TCMRET_SUCCESS \<longleftrightarrow>
    protocol_ok proto \<and> isp \<le> iep \<and> fsp \<le> fep \<and> (\<exists>i. 1 \<le> i \<and> i \<le> 32 \<and> tbl m (id_portforward I, int i) = None) \<and>
    (\<forall>i es. 1 \<le> i \<and> i \<le> 32 \<and> tbl m (id_portforward I, int i) = Some es \<longrightarrow> \<not> (0 < pf \<and> pf = int i) \<and> \<not> clash E proto isp iep es)"
proof -
  let ?free = "\<forall>i \<in> set [1..<33]. \<forall>es. tbl m (id_portforward I, int i) = Some es \<longrightarrow> \<not> (0 < pf \<and> pf = int i) \<and> \<not> clash E proto isp iep es"
  let ?n = "length (filter (\<lambda>i. tbl m (id_portforward I, int i) \<noteq> None) [1..<33])"
  have "\<forall>i \<in> set [1..<33]. 1 \<le> i \<and> i < 256 \<and> (\<forall>es. tbl m (id_portforward I, int i) = Some es \<longrightarrow> stored_ok E es)"
    using assms(4) unfolding Ball_def upto_32 by auto
  from scan_rows[OF assms(1-3,7) this row_bufs32, of pf isp iep E 0] obtain r where
    r: "portforward_scan I E c pf proto isp iep [1..<33] (row_bufs E) 0 = Some r"
      "if ?free then r = Inr ?n else r \<in> {Inl TCMRET_INVALID_EXIST, Inl TCMRET_INVALID_DUPLICATE}" unfolding add_0 by blast
  have "[1..<Suc MAXTABLE_PORTFORWARD] = [1..<33]" by (simp add: MAXTABLE_PORTFORWARD_def del: upt_Suc)
  then have "actPortForward_checking I E c pf (Some vs) = Some TCMRET_SUCCESS \<longleftrightarrow>
      protocol_ok proto \<and> isp \<le> iep \<and> fsp \<le> fep \<and> ?free \<and> ?n \<noteq> 32"
    using r by (auto simp: actPortForward_checking_def assms(5,6) MAXTABLE_PORTFORWARD_def simp del: upt_Suc split: if_splits)
  also have "?free \<longleftrightarrow> (\<forall>i es. 1 \<le> i \<and> i \<le> 32 \<and> tbl m (id_portforward I, int i) = Some es \<longrightarrow> \<not> (0 < pf \<and> pf = int i) \<and> \<not> clash E proto isp iep es)"
    unfolding Ball_def upto_32 by blast
  also have "?n \<noteq> 32 \<longleftrightarrow> (\<exists>i. 1 \<le> i \<and> i \<le> 32 \<and> tbl m (id_portforward I, int i) = None)"
    using some_free[of "\<lambda>i. tbl m (id_portforward I, int i) \<noteq> None"] by simp
  finally show ?thesis by blast
qed

text \<open>A stored rule for TCP ports 80 to 90, and a new one for UDP.\<close>

definition forward_values :: "string list" where
  "forward_values = [''web'', ''TCP'', ''80'', ''90'', ''80'', ''90'', ''10.0.0.7'']"

definition new_forward :: "string option list" where
  "new_forward = map Some [''dns'', ''UDP'', ''85'', ''95'', ''85'', ''95'', ''10.0.0.8'']"

lemma atoi_80: "atoi demo_env ''80'' = Some 80" "atoi demo_env ''90'' = Some 90" "atoi demo_env ''85'' = Some 85" "atoi demo_env ''95'' = Some 95"
  by (simp_all add: demo_env_def atoi_def) code_simp+

lemma forward_shares: "\<not> shares demo_env ''UDP'' ''TCP''"
  by (simp add: shares_def demo_env_def) code_simp

theorem portforward_accepts_witness:
  "actPortForward_checking demo_ids demo_env (row_conf forward_values) 2 (Some new_forward) = Some TCMRET_SUCCESS"
proof -
  let ?m = "row_shm forward_values"
  have f: "fits forward_values" "\<forall>v \<in> set forward_values. NUL \<notin> set v" by (simp_all add: fits_def forward_values_def)
  have c: "cache_addr (row_conf forward_values) = Some ?m" "app_range (id_portforward demo_ids)"
    by (simp_all add: row_conf_def demo_ids_def demo_range)
  have only: "i = 1 \<and> map snd es = forward_values" if "1 \<le> i" "tbl ?m (id_portforward demo_ids, int i) = Some es" for i es
    using that row_shm_tbl[OF f] by (cases "i = 1") (auto simp: demo_ids_def)
  have col: "snd (es ! 1) = ''TCP''" "snd (es ! 2) = ''80''" "snd (es ! 3) = ''90''" if "map snd es = forward_values" for es
    using that nth_map[of _ es snd, symmetric] by (auto simp: forward_values_def dest: arg_cong[of _ _ length])
  have ok: "\<forall>i es. 1 \<le> i \<and> i \<le> 32 \<and> tbl ?m (id_portforward demo_ids, int i) = Some es \<longrightarrow> stored_ok demo_env es"
  proof (intro allI impI)
    fix i es assume a: "1 \<le> i \<and> i \<le> 32 \<and> tbl ?m (id_portforward demo_ids, int i) = Some es"
    then have "map snd es = forward_values" using only[of i es] by simp
    then show "stored_ok demo_env es" using f(1) by (simp add: stored_ok_def atoi_80 col)
  qed
  have args: "port_numbers demo_env (value_arg new_forward) = Some (85, 95, 85, 95)" "value_arg new_forward PARA_PORTFORWARD_PROTOCOL = Some ''UDP''"
    by (simp_all add: port_numbers_def value_arg_def new_forward_def atoi_80 PARA_PORTFORWARD_START_INCOMING_PORT_def
        PARA_PORTFORWARD_END_INCOMING_PORT_def PARA_PORTFORWARD_START_FORWARD_PORT_def PARA_PORTFORWARD_END_FORWARD_PORT_def PARA_PORTFORWARD_PROTOCOL_def)
  have free: "tbl ?m (id_portforward demo_ids, int 2) = None" using row_shm_tbl(2)[OF f] by (simp add: demo_ids_def)
  have "\<not> (0 < (2::int) \<and> 2 = int i) \<and> \<not> clash demo_env ''UDP'' 85 95 es"
    if "1 \<le> i \<and> i \<le> 32 \<and> tbl ?m (id_portforward demo_ids, int i) = Some es" for i es
    using that only[of i es] col[of es] forward_shares by (simp add: clash_def)
  then show ?thesis
    using portforward_accepts[OF c(1) row_shm_wf[OF f(1)] c(2) ok args, of 2] free
    by (auto simp: protocol_ok_def strcasecmp_eq_def intro!: exI[of _ "2::nat"])
qed

text \<open>A rule with a mask on an address has no defined result, in whatever way it is set.\<close>

lemma masked_rule_undefined:
  assumes "length vs = 7" and "vs ! 0 \<noteq> []" and "vs ! 1 \<noteq> []" and "action = RULE_ADD \<or> action = RULE_DELETE"
  shows "firewall_rule E action (map Some vs) proto s = None"
proof -
  have "addr_arg ''-s'' (Some (vs ! 0)) (Some (vs ! 1)) = None"
    using assms(2,3) by (cases "opt_arg BUFLEN_32 ''-s'' (Some (vs ! 0))") (auto simp: addr_arg_def opt_arg_def sprintf_def split: if_splits)
  then have "ralIptables_runCmdFirewall c None p (Some (vs ! 0)) (Some (vs ! 1)) sp d dm dp pol = None" for c p sp d dm dp pol
    by (auto simp: ralIptables_runCmdFirewall_def split: bind_splits)
  then show ?thesis
    using assms(1,4) by (auto simp: firewall_rule_def ralIptables_setFirewall_def do_actions_def PARA_FIREWALL_SRCIP_def PARA_FIREWALL_SRCMASK_def)
qed

section \<open>The entry points\<close>

lemma run_without_wan: "app \<noteq> id_wan I \<Longrightarrow> config_act_run f I E app act = config_act_run g I E app act"
  by (intro ext) (simp add: config_act_run_def)

lemma refresh_without_wan:
  "app \<noteq> id_wan I \<Longrightarrow> config_act_refresh_apps (Suc n) I E app act s = config_act_refresh_apps (Suc k) I E app act s"
proof -
  assume "app \<noteq> id_wan I"
  then have "config_act_run (config_act_refresh_apps n I E) I E app act = config_act_run (config_act_refresh_apps k I E) I E app act"
    using run_without_wan by blast
  then show ?thesis by (simp only: config_act_refresh_apps.simps)
qed

lemma wan_same_refresh:
  assumes "\<And>app act s. app \<in> {id_portforward I, id_firewall I, id_dmz I} \<Longrightarrow> f app act s = g app act s"
  shows "config_act_run f I E app act s = config_act_run g I E app act s"
proof -
  have "f (id_portforward I) = g (id_portforward I)" "f (id_firewall I) = g (id_firewall I)" "f (id_dmz I) = g (id_dmz I)"
    using assms by (intro ext; blast)+
  then have "wan_routed f I E = wan_routed g I E" by (intro ext) (simp only: wan_routed_def)
  then show ?thesis by (simp only: config_act_run_def actWan_doConfig_def actWan_configWan_def)
qed

text \<open>
  The refresh of an application calls itself at most once more, for the tables and the DMZ when the WAN is
  set up: a depth of two is enough for every application and action.
\<close>

theorem refresh_depth_two:
  assumes "id_wan I \<notin> {id_portforward I, id_firewall I, id_dmz I}"
  shows "config_act_refresh_apps (Suc (Suc n)) I E app act s = config_act_refresh_apps 2 I E app act s"
proof -
  have same: "config_act_refresh_apps (Suc n) I E a b t = config_act_refresh_apps (Suc 0) I E a b t"
    if "a \<in> {id_portforward I, id_firewall I, id_dmz I}" for a b t
    using assms that by (intro refresh_without_wan) auto
  show ?thesis
    unfolding numeral_2_eq_2 config_act_refresh_apps.simps(2)[of "Suc n"] config_act_refresh_apps.simps(2)[of "Suc 0"]
    by (simp only: wan_same_refresh[of I "config_act_refresh_apps (Suc n) I E" "config_act_refresh_apps (Suc 0) I E", OF same])
qed

theorem refresh_depth_two_witness:
  "config_act_refresh_apps 5 demo_ids demo_env 4 APP_START fw_act = config_act_refresh_apps 2 demo_ids demo_env 4 APP_START fw_act"
  using refresh_depth_two[of demo_ids 3 demo_env 4 APP_START fw_act] by (simp only: demo_ids_def act_ids.simps) (simp add: eval_nat_numeral)

text \<open>
  When the message to the scheduler cannot be sent the error code is taken for the pid of the application:
  the action reports success.
\<close>

theorem failed_send_is_success:
  assumes "act_handle s = Some h" and "k_alloc (act_kernel E) (act_world s) = (True, w1)"
    and "\<forall>typ. oalMsg_send (act_kernel E) (commFd h) (request_msg (act_eid s) typ (id_syslogd I) None) w1 = Some (e, w2)"
    and "e \<noteq> TCMRET_SUCCESS" and "act \<in> {APP_START, APP_STOP, APP_RESTART, APP_WRITE_RESTART}"
  shows "actSyslog_doConfig I E act s = Some (0, s\<lparr>act_handle := Some h, act_world := w2\<rparr>)"
proof -
  have "ret_code e \<noteq> 0" using assms(4) by (cases e) simp_all
  then have "ask_sched E t (id_syslogd I) None s = Some (0, s\<lparr>act_handle := Some h, act_world := w2\<rparr>)" for t
    using assms(1-4) by (simp add: ask_sched_def actUtil_sendMsgToSched_def tcmMsg_sendAndGetReply_def sendAndGetReply_def failed_def TCM_INVALID_PID_def)
  then show ?thesis
    using assms(5) by (auto simp: actSyslog_doConfig_def do_config_def actSyslog_start_def actSyslog_stop_def actSyslog_restart_def
        APP_START_def APP_STOP_def APP_RESTART_def APP_WRITE_RESTART_def)
qed

definition broken_env :: "string list act_env" where
  "broken_env = demo_env\<lparr>act_kernel := quiet_kernel\<lparr>k_write := \<lambda>fd b w. ((- 1, EPIPE), w)\<rparr>\<rparr>"

theorem failed_send_is_success_witness:
  "actSyslog_doConfig demo_ids broken_env APP_START fw_act = Some (0, fw_act)"
proof -
  let ?h = "\<lparr>h_eid = 1, commFd = 5, putBackQueue = Some []\<rparr>"
  have "act_handle fw_act = Some ?h" "k_alloc (act_kernel broken_env) (act_world fw_act) = (True, [])"
    by (simp_all add: fw_act_def demo_act_def broken_env_def demo_env_def quiet_kernel_def)
  moreover have "\<forall>typ. oalMsg_send (act_kernel broken_env) (commFd ?h) (request_msg (act_eid fw_act) typ (id_syslogd demo_ids) None) []
      = Some (TCMRET_DISCONNECTED, [])"
    by (simp add: oalMsg_send_def broken_env_def demo_env_def quiet_kernel_def request_msg_def msg_bytes_def EMPTY_MSG_HEADER_def put_flag_def
        totalLen_def sizeof_tcmMsgHeader_def EPIPE_def)
  ultimately have "actSyslog_doConfig demo_ids broken_env APP_START fw_act = Some (0, fw_act\<lparr>act_handle := Some ?h, act_world := []\<rparr>)"
    by (rule failed_send_is_success) simp_all
  then show ?thesis by (simp add: fw_act_def demo_act_def)
qed

text \<open>Without spare bytes behind its array setting a port forwarding rule has no defined result.\<close>

lemma no_spare_bytes:
  assumes "spare_bytes E < 32" and "action = RULE_ADD \<or> action = RULE_DELETE"
  shows "portforward_rule E action ports server proto s = None"
  using assms
  by (cases ports) (auto simp: portforward_rule_def ralIptables_setPortForwarding_def ralIptables_runCmdPortForwarding_def device_arg_def
      do_actions_def BUFLEN_32_def BUFLEN_64_def split: bind_splits)

end
