(* ===== verification/Sched_State.thy ===== *)
theory Sched_State
  imports Message Process Interest Timer_Queue
begin

text \<open>
  The state of the scheduler process and the parts of it that keep the records of the
  applications and launch them: \<^verbatim>\<open>sched/dls.c\<close> and \<^verbatim>\<open>sched/launcher.c\<close>. The \<^verbatim>\<open>DlsInfo\<close> structures
  live on a heap of their own, because handlers hold pointers to them across calls that may free
  them: a use of a freed structure or of \<^verbatim>\<open>NULL\<close> has no defined result.
\<close>

section \<open>Configuration\<close>

text \<open>
  What the program is built with and runs on: the kernel, the entity table, and whether a function
  that ends without a return statement yields \<^verbatim>\<open>NULL\<close>.
\<close>

record 'w config =
  kern :: "'w kernel"
  entities :: "tcmEntityInfo list"
  nul_end :: bool

definition APPCFG_SERVER :: "16 word" where "APPCFG_SERVER = 0x01"
definition APPCFG_SERVER_TCP :: "16 word" where "APPCFG_SERVER_TCP = 0x02"
definition APPCFG_LAUNCH_IN_STAGE_1 :: "16 word" where "APPCFG_LAUNCH_IN_STAGE_1 = 0x04"
definition APPCFG_LAUNCH_ON_BOOT :: "16 word" where "APPCFG_LAUNCH_ON_BOOT = 0x08"
definition APPCFG_MESSAGING_CAPABLE :: "16 word" where "APPCFG_MESSAGING_CAPABLE = 0x40"
definition APPCFG_IPV6 :: "16 word" where "APPCFG_IPV6 = 0x100"
definition APPCFG_AUTO_RELAUNCH :: "16 word" where "APPCFG_AUTO_RELAUNCH = 0x200"

text \<open>The table of \<^verbatim>\<open>liboal/eid.c\<close>, which the scheduler is linked with.\<close>

definition liboal_entityInfoArray :: "tcmEntityInfo list" where
  "liboal_entityInfoArray =
    [ \<lparr>eid = ID_LAN, ei_name = ''lan'', ei_path = ''/home/nick/lan'', runArgs = '''',
       ei_flags = APPCFG_LAUNCH_IN_STAGE_1, backLog = 0, port = 0, featureCompiled = True,
       app_maxnum = PARA_LAN_END, row_paras = None, row_maxnum = 0, row_end = 0\<rparr>,
      \<lparr>eid = ID_DHCPD, ei_name = ''dhcpd'', ei_path = ''/home/nick/dhcpddd'', runArgs = '''',
       ei_flags = APPCFG_LAUNCH_IN_STAGE_1, backLog = 0, port = 0, featureCompiled = True,
       app_maxnum = PARA_DHCPD_END, row_paras = None, row_maxnum = 0, row_end = 0\<rparr> ]"

section \<open>State\<close>

definition DLS_OPT_ARGS_LENGTH :: nat where "DLS_OPT_ARGS_LENGTH = 256"

datatype DlsState = DLS_NOT_RUNNING | DLS_LAUNCHED | DLS_RUNNING | DLS_TERMINATE_REQUESTED

text \<open>\<open>msgQueue\<close> lists the messages from the head of the queue on; \<open>optArgs\<close> is the string in its buffer.\<close>

record DlsInfo =
  eInfo :: tcmEntityInfo
  dls_state :: DlsState
  serverFd :: int
  dls_commFd :: int
  dls_pid :: int
  specificEid :: UINT32
  numDelayedMsgRequested :: int
  numEventInterestRequested :: int
  msgQueue :: "tcmMsgHeader list"
  optArgs :: string

record timerEvtInfo =
  ti_id :: UINT32
  ti_ctx :: nat

text \<open>
  \<open>dlsInfoHead\<close> are the addresses in list order, \<open>next_ptr\<close> is the address of the next block,
  \<open>timerInfoList\<close> pairs addresses and structures. A cleared timer handle is \<open>None\<close>.
\<close>

record 'w sched =
  world :: 'w
  dheap :: "nat \<rightharpoonup> DlsInfo"
  dlsInfoHead :: "nat list"
  next_ptr :: nat
  readFdsMaster :: "int set"
  maxFd :: int
  ipcListenFd :: int
  evtInterestHead :: "EvtInterest list"
  tmrHandle :: "tcmTimerHandle option"
  timerInfoList :: "(nat \<times> timerEvtInfo) list"
  keepLooping :: bool

definition start_state :: "'w \<Rightarrow> 'w sched" where
  "start_state w = \<lparr>world = w, dheap = Map.empty, dlsInfoHead = [], next_ptr = 1, readFdsMaster = {},
     maxFd = 0, ipcListenFd = 0, evtInterestHead = [], tmrHandle = None, timerInfoList = [], keepLooping = True\<rparr>"

definition on_world :: "('w \<Rightarrow> 'a \<times> 'w) \<Rightarrow> 'w sched \<Rightarrow> 'a \<times> 'w sched" where
  "on_world f s = (case f (world s) of (x, w) \<Rightarrow> (x, s\<lparr>world := w\<rparr>))"

definition on_world_run :: "('w \<Rightarrow> ('a \<times> 'w) run) \<Rightarrow> 'w sched \<Rightarrow> ('a \<times> 'w sched) run" where
  "on_world_run f s = (case f (world s) of None \<Rightarrow> None | Some (x, w) \<Rightarrow> Some (x, s\<lparr>world := w\<rparr>))"

definition put_dls :: "nat \<Rightarrow> DlsInfo \<Rightarrow> 'w sched \<Rightarrow> 'w sched" where
  "put_dls a d s = s\<lparr>dheap := (dheap s)(a \<mapsto> d)\<rparr>"

text \<open>Descriptor sets hold 1024 descriptors; setting or clearing any other is out of bounds.\<close>

definition FD_SETSIZE :: int where "FD_SETSIZE = 1024"

definition FD_SET :: "int \<Rightarrow> 'w sched \<Rightarrow> 'w sched run" where
  "FD_SET fd s = (if 0 \<le> fd \<and> fd < FD_SETSIZE then Some (s\<lparr>readFdsMaster := insert fd (readFdsMaster s)\<rparr>) else None)"

definition FD_CLR :: "int \<Rightarrow> 'w sched \<Rightarrow> 'w sched run" where
  "FD_CLR fd s = (if 0 \<le> fd \<and> fd < FD_SETSIZE then Some (s\<lparr>readFdsMaster := readFdsMaster s - {fd}\<rparr>) else None)"

definition UPDATE_MAXFD :: "int \<Rightarrow> 'w sched \<Rightarrow> 'w sched" where
  "UPDATE_MAXFD f s = s\<lparr>maxFd := (if f > maxFd s then f else maxFd s)\<rparr>"

section \<open>\<^verbatim>\<open>dls.c\<close>\<close>

text \<open>A call on a new socket that is made only if \<open>wanted\<close>; on failure the socket is closed and given up.\<close>

definition try_call ::
    "'w kernel \<Rightarrow> int \<Rightarrow> bool \<Rightarrow> ('w \<Rightarrow> int \<times> 'w) \<Rightarrow> ('w \<Rightarrow> int \<times> 'w) \<Rightarrow> 'w \<Rightarrow> int \<times> 'w" where
  "try_call K fd wanted call rest w =
     (if \<not> wanted then rest w
      else case call w of (rc, w1) \<Rightarrow> if rc < 0 then (TCM_INVALID_FD, k_close K fd w1) else rest w1)"

definition initInetServerSocket :: "'w kernel \<Rightarrow> string \<Rightarrow> int \<Rightarrow> string \<Rightarrow> int \<Rightarrow> 'w \<Rightarrow> int \<times> 'w" where
  "initInetServerSocket K domain p type backlog w =
     (case k_socket K domain type w of (sFd, w1) \<Rightarrow>
        if sFd < 0 then (TCM_INVALID_FD, w1)
        else
          try_call K sFd True (k_setsockopt K sFd ''SO_REUSEADDR'')
            (try_call K sFd (type = ''SOCK_DGRAM'') (k_setsockopt K sFd (if domain = ''AF_INET'' then ''IP_PKTINFO'' else ''IPV6_PKTINFO''))
              (try_call K sFd (type = ''SOCK_DGRAM'' \<or> domain \<noteq> ''AF_INET'') (k_bind K sFd domain p)
                (try_call K sFd (type = ''SOCK_STREAM'') (k_listen K sFd backlog)
                  (\<lambda>w. (sFd, w))))) w1)"

text \<open>The record of an entity as \<open>insertDlsInfoEntry\<close> fills it in before the sockets.\<close>

definition new_dls :: "tcmEntityInfo \<Rightarrow> UINT32 \<Rightarrow> DlsInfo" where
  "new_dls i e = \<lparr>eInfo = i, dls_state = DLS_NOT_RUNNING, serverFd = TCM_INVALID_FD, dls_commFd = TCM_INVALID_FD,
     dls_pid = TCM_INVALID_PID,
     specificEid = (if has_flag i APPCFG_MULTIPLE_INSTANCES \<and> 0 < PID_IN_EID e then e else 0),
     numDelayedMsgRequested = 0, numEventInterestRequested = 0, msgQueue = [], optArgs = []\<rparr>"

definition link_dls :: "DlsInfo \<Rightarrow> 'w sched \<Rightarrow> nat option \<times> 'w sched" where
  "link_dls d s = (Some (next_ptr s),
     (put_dls (next_ptr s) d s)\<lparr>dlsInfoHead := dlist_prepend_head (next_ptr s) (dlsInfoHead s), next_ptr := next_ptr s + 1\<rparr>)"

text \<open>The test for a server reads \<^verbatim>\<open>flags && APPCFG_SERVER\<close>: it holds for every entity with any flag.\<close>

definition insertDlsInfoEntry :: "'w config \<Rightarrow> UINT32 \<Rightarrow> 'w sched \<Rightarrow> (nat option \<times> 'w sched) run" where
  "insertDlsInfoEntry C e s =
     (case on_world (k_alloc (kern C)) s of (al, s1) \<Rightarrow>
        if \<not> al then Some (None, s1)
        else case tcmEid_getEntityInfo (entities C) (uint (GENERIC_EID e)) of
          None \<Rightarrow> Some (None, s1)
        | Some i \<Rightarrow>
            let d = new_dls i e in
            if uint e = ID_CONSOLE then do { s2 \<leftarrow> FD_SET 0 s1; Some (link_dls (d\<lparr>serverFd := 0\<rparr>) s2) }
            else if ei_flags i \<noteq> 0 then
              (case on_world (initInetServerSocket (kern C) (if has_flag i APPCFG_IPV6 then ''AF_INET6'' else ''AF_INET'')
                  (uint (port i)) (if has_flag i APPCFG_SERVER_TCP then ''SOCK_STREAM'' else ''SOCK_DGRAM'')
                  (uint (backLog i))) s1 of (fd, s2) \<Rightarrow>
                if fd = TCM_INVALID_FD then Some (None, s2)
                else do { s3 \<leftarrow> FD_SET fd s2; Some (link_dls (d\<lparr>serverFd := fd\<rparr>) (UPDATE_MAXFD fd s3)) })
            else Some (link_dls d s1))"

fun find_dls :: "(nat \<rightharpoonup> DlsInfo) \<Rightarrow> (DlsInfo \<Rightarrow> bool) \<Rightarrow> nat list \<Rightarrow> nat option run" where
  "find_dls h P [] = Some None"
| "find_dls h P (a # as) = do { d \<leftarrow> h a; if P d then Some (Some a) else find_dls h P as }"

definition has_eid :: "UINT32 \<Rightarrow> DlsInfo \<Rightarrow> bool" where
  "has_eid e d \<longleftrightarrow>
     (if has_flag (eInfo d) APPCFG_MULTIPLE_INSTANCES then specificEid d = e else eid (eInfo d) = uint e)"

definition getExistingDlsInfo :: "UINT32 \<Rightarrow> 'w sched \<Rightarrow> nat option run" where
  "getExistingDlsInfo e s = find_dls (dheap s) (has_eid e) (dlsInfoHead s)"

definition getDlsInfoByServerFd :: "int \<Rightarrow> 'w sched \<Rightarrow> nat option run" where
  "getDlsInfoByServerFd fd s = find_dls (dheap s) (\<lambda>d. serverFd d = fd) (dlsInfoHead s)"

definition getDlsInfoByCommFd :: "int \<Rightarrow> 'w sched \<Rightarrow> nat option run" where
  "getDlsInfoByCommFd fd s = find_dls (dheap s) (\<lambda>d. dls_commFd d = fd) (dlsInfoHead s)"

definition getNewDlsInfo :: "'w config \<Rightarrow> UINT32 \<Rightarrow> 'w sched \<Rightarrow> (nat option \<times> 'w sched) run" where
  "getNewDlsInfo C e s = insertDlsInfoEntry C e s"

definition getDlsInfo :: "'w config \<Rightarrow> UINT32 \<Rightarrow> 'w sched \<Rightarrow> (nat option \<times> 'w sched) run" where
  "getDlsInfo C e s =
     do { r \<leftarrow> getExistingDlsInfo e s;
          if r \<noteq> None then Some (r, s) else getNewDlsInfo C e s }"

fun init_stage1 :: "'w config \<Rightarrow> tcmEntityInfo list \<Rightarrow> 'w sched \<Rightarrow> (tcmRet \<times> 'w sched) run" where
  "init_stage1 C [] s = Some (TCMRET_SUCCESS, s)"
| "init_stage1 C (i # is) s =
     (if featureCompiled i \<and> has_flag i APPCFG_LAUNCH_IN_STAGE_1
      then do { (r, s1) \<leftarrow> insertDlsInfoEntry C (of_int (eid i)) s;
                if r = None then Some (TCMRET_INTERNAL_ERROR, s1) else init_stage1 C is s1 }
      else init_stage1 C is s)"

fun init_stage2 :: "'w config \<Rightarrow> tcmEntityInfo list \<Rightarrow> 'w sched \<Rightarrow> (tcmRet \<times> 'w sched) run" where
  "init_stage2 C [] s = Some (TCMRET_SUCCESS, s)"
| "init_stage2 C (i # is) s =
     (if featureCompiled i \<and> (has_flag i (or APPCFG_LAUNCH_ON_BOOT APPCFG_SERVER) \<or> eid i = ID_CONSOLE)
      then do { x \<leftarrow> getExistingDlsInfo (of_int (eid i)) s;
                if x \<noteq> None then init_stage2 C is s
                else do { (r, s1) \<leftarrow> insertDlsInfoEntry C (of_int (eid i)) s;
                          if r = None then Some (TCMRET_INTERNAL_ERROR, s1) else init_stage2 C is s1 } }
      else init_stage2 C is s)"

definition initDls :: "'w config \<Rightarrow> nat \<Rightarrow> 'w sched \<Rightarrow> (tcmRet \<times> 'w sched) run" where
  "initDls C stage s = (if stage = 1 then init_stage1 C (entities C) s else init_stage2 C (entities C) s)"

definition close_if :: "'w kernel \<Rightarrow> int \<Rightarrow> 'w sched \<Rightarrow> 'w sched" where
  "close_if K fd s = (if fd \<noteq> TCM_INVALID_FD then s\<lparr>world := k_close K fd (world s)\<rparr> else s)"

fun cleanup_list :: "'w kernel \<Rightarrow> nat list \<Rightarrow> 'w sched \<Rightarrow> 'w sched run" where
  "cleanup_list K [] s = Some s"
| "cleanup_list K (a # as) s =
     do { d \<leftarrow> dheap s a;
          cleanup_list K as ((close_if K (serverFd d) (close_if K (dls_commFd d) s))
            \<lparr>dheap := (dheap s)(a := None), dlsInfoHead := as\<rparr>) }"

definition cleanupDls :: "'w config \<Rightarrow> 'w sched \<Rightarrow> 'w sched run" where
  "cleanupDls C s = cleanup_list (kern C) (dlsInfoHead s) s"

section \<open>\<^verbatim>\<open>launcher.c\<close>\<close>

definition launch_args :: "DlsInfo \<Rightarrow> string" where
  "launch_args d =
     (let a = take 1023 (runArgs (eInfo d)) in
      if optArgs d = [] then a else take 1023 (a @ '' '' @ optArgs d))"

text \<open>What a launch makes of the record.\<close>

definition after_spawn :: "DlsInfo \<Rightarrow> tcmRet \<Rightarrow> SpawnedProcessInfo option \<Rightarrow> DlsInfo" where
  "after_spawn d ret info =
     (let i = eInfo d;
          d1 = (if ret \<noteq> TCMRET_SUCCESS then d\<lparr>dls_pid := TCM_INVALID_PID\<rparr>
                else d\<lparr>dls_pid := pi_pid (the info),
                       specificEid := (if has_flag i APPCFG_MULTIPLE_INSTANCES
                         then MAKE_SPECIFIC_EID (pi_pid (the info)) (of_int (eid i)) else specificEid d)\<rparr>) in
      d1\<lparr>dls_state := (if has_flag i APPCFG_MESSAGING_CAPABLE then DLS_LAUNCHED else DLS_RUNNING)\<rparr>)"

text \<open>A fork that fails is not noticed: its \<open>-1\<close> becomes the pid of the application.\<close>

definition launchApp :: "'w config \<Rightarrow> nat \<Rightarrow> 'w sched \<Rightarrow> 'w sched run" where
  "launchApp C a s =
     do { d \<leftarrow> dheap s a;
          let i = eInfo d in
          if ei_path i = [] then Some s
          else do {
            ((ret, info), s1) \<leftarrow> on_world_run (prctl_spawnProcess (kern C)
               \<lparr>exe = take 1023 (ei_path i), args = Some (launch_args d), spawnMode = SPAWN_AND_RETURN, si_timeout = 0\<rparr>) s;
            let s2 = put_dls a (after_spawn d ret info) s1 in
            if has_flag i APPCFG_SERVER \<or> eid i = ID_CONSOLE then FD_CLR (serverFd d) s2 else Some s2 } }"

text \<open>Signals: \<^verbatim>\<open>SIGTERM\<close> ends the main loop.\<close>

definition terminalSignalHandler :: "'w sched \<Rightarrow> 'w sched" where
  "terminalSignalHandler s = s\<lparr>keepLooping := False\<rparr>"

definition queuemsg :: "nat \<Rightarrow> tcmMsgHeader \<Rightarrow> 'w sched \<Rightarrow> 'w sched run" where
  "queuemsg a m s = do { d \<leftarrow> dheap s a; Some (put_dls a (d\<lparr>msgQueue := m # msgQueue d\<rparr>) s) }"

definition sendMessageByAppState :: "'w config \<Rightarrow> nat \<Rightarrow> tcmMsgHeader \<Rightarrow> 'w sched \<Rightarrow> 'w sched run" where
  "sendMessageByAppState C a m s =
     do { d \<leftarrow> dheap s a;
          case dls_state d of
            DLS_NOT_RUNNING \<Rightarrow> do { s1 \<leftarrow> queuemsg a m s; launchApp C a s1 }
          | DLS_LAUNCHED \<Rightarrow> queuemsg a m s
          | DLS_RUNNING \<Rightarrow> do { (ret, s1) \<leftarrow> on_world_run (tcmMsg_sendBySocket (kern C) (dls_commFd d) m) s; Some s1 }
          | DLS_TERMINATE_REQUESTED \<Rightarrow> Some s }"

definition boot_msg :: "DlsInfo \<Rightarrow> tcmMsgHeader" where
  "boot_msg d = put_flag 0 True (EMPTY_MSG_HEADER\<lparr>msg_type := TCM_MSG_SYSTEM_BOOT, msg_src := of_int ID_SCHED,
     msg_dst := of_int (eid (eInfo d))\<rparr>)"

definition wants_stage :: "nat \<Rightarrow> DlsInfo \<Rightarrow> bool" where
  "wants_stage stage d \<longleftrightarrow> stage = 1 \<and> has_flag (eInfo d) APPCFG_LAUNCH_IN_STAGE_1 \<or>
     stage = 2 \<and> has_flag (eInfo d) APPCFG_LAUNCH_ON_BOOT"

text \<open>Without memory for a boot message the loop over the applications ends.\<close>

fun launch_list :: "'w config \<Rightarrow> nat \<Rightarrow> nat list \<Rightarrow> 'w sched \<Rightarrow> 'w sched run" where
  "launch_list C stage [] s = Some s"
| "launch_list C stage (a # as) s =
     do { d \<leftarrow> dheap s a;
          if \<not> wants_stage stage d then launch_list C stage as s
          else do {
            (go, s1) \<leftarrow> (if has_flag (eInfo d) APPCFG_MESSAGING_CAPABLE
               then (case on_world (k_alloc (kern C)) s of (al, s1) \<Rightarrow>
                 if \<not> al then Some (False, s1)
                 else do { s2 \<leftarrow> sendMessageByAppState C a (boot_msg d) s1; Some (True, s2) })
               else Some (True, s));
            if \<not> go then Some s1
            else do {
              d1 \<leftarrow> dheap s1 a;
              s2 \<leftarrow> (if dls_state d1 = DLS_NOT_RUNNING \<or> dls_state d1 = DLS_TERMINATE_REQUESTED
                      then launchApp C a s1 else Some s1);
              launch_list C stage as s2 } } }"

definition app_launcher :: "'w config \<Rightarrow> nat \<Rightarrow> 'w sched \<Rightarrow> (tcmRet \<times> 'w sched) run" where
  "app_launcher C stage s = do { s1 \<leftarrow> launch_list C stage (dlsInfoHead s) s; Some (TCMRET_SUCCESS, s1) }"

end
