(* ===== verification/Sched_Timer.thy ===== *)
theory Sched_Timer
  imports Sched_State
begin

text \<open>
  \<^verbatim>\<open>sched/timer.c\<close>: delayed messages. Every request has a \<^verbatim>\<open>timerEvtInfo\<close>, whose address is the
  context of an event of the timer queue; when it expires the application that asked for it gets
  a message.
\<close>

section \<open>Operations\<close>

definition timer_init :: "'w config \<Rightarrow> 'w sched \<Rightarrow> tcmRet \<times> 'w sched" where
  "timer_init C s =
     (case on_world (k_alloc (kern C)) s of (al, s1) \<Rightarrow>
        case tcmTmr_init al of (ret, h) \<Rightarrow> (ret, s1\<lparr>tmrHandle := h\<rparr>))"

text \<open>
  The loop of \<open>getTmrInfo\<close> does not advance: it ends only when the list is empty or its first
  entry is the one looked for.
\<close>

definition getTmrInfo :: "UINT32 \<Rightarrow> nat \<Rightarrow> 'w sched \<Rightarrow> nat option run" where
  "getTmrInfo i ctx s =
     (case timerInfoList s of
        [] \<Rightarrow> Some None
      | (a, t) # _ \<Rightarrow> if ti_id t = i \<and> ti_ctx t = ctx then Some (Some a) else None)"

definition createTmrInfo :: "'w config \<Rightarrow> UINT32 \<Rightarrow> nat \<Rightarrow> 'w sched \<Rightarrow> nat option \<times> 'w sched" where
  "createTmrInfo C i ctx s =
     (case on_world (k_alloc (kern C)) s of (al, s1) \<Rightarrow>
        if al then (Some (next_ptr s1), s1\<lparr>timerInfoList := (next_ptr s1, \<lparr>ti_id = i, ti_ctx = ctx\<rparr>) # timerInfoList s1,
                                            next_ptr := next_ptr s1 + 1\<rparr>)
        else (None, s1))"

definition deleteTimerInfo :: "nat \<Rightarrow> 'w sched \<Rightarrow> 'w sched" where
  "deleteTimerInfo a s = s\<lparr>timerInfoList := filter (\<lambda>p. fst p \<noteq> a) (timerInfoList s)\<rparr>"

definition tmr_info :: "nat \<Rightarrow> 'w sched \<Rightarrow> timerEvtInfo run" where
  "tmr_info a s = map_of (timerInfoList s) a"

definition delayed_msg :: "DlsInfo \<Rightarrow> UINT32 \<Rightarrow> tcmMsgHeader" where
  "delayed_msg d i = put_flag 0 True (EMPTY_MSG_HEADER\<lparr>msg_type := TCM_MSG_DELAYED_MSG, msg_src := of_int ID_SCHED,
     msg_dst := (if has_flag (eInfo d) APPCFG_MULTIPLE_INSTANCES then specificEid d else of_int (eid (eInfo d))),
     wordData := i\<rparr>)"

text \<open>The message is written to without a test whether there was memory for it.\<close>

definition timer_timerHandlerFunc :: "'w config \<Rightarrow> nat \<Rightarrow> 'w sched \<Rightarrow> 'w sched run" where
  "timer_timerHandlerFunc C ctx s =
     do { t \<leftarrow> tmr_info ctx s;
          d \<leftarrow> dheap s (ti_ctx t);
          case on_world (k_alloc (kern C)) s of (al, s1) \<Rightarrow>
            if \<not> al then None else sendMessageByAppState C (ti_ctx t) (delayed_msg d (ti_id t)) s1 }"

text \<open>The handler's address, the only one the scheduler passes to the timers.\<close>

definition HANDLER :: nat where "HANDLER = 1"

definition timer_set :: "'w config \<Rightarrow> UINT32 \<Rightarrow> nat \<Rightarrow> UINT32 \<Rightarrow> 'w sched \<Rightarrow> (tcmRet \<times> 'w sched) run" where
  "timer_set C i ctx ms s =
     (case createTmrInfo C i ctx s of
        (None, s1) \<Rightarrow> Some (TCMRET_RESOURCE_EXCEEDED, s1)
      | (Some a, s1) \<Rightarrow>
          (case on_world (k_alloc (kern C)) s1 of (al, s2) \<Rightarrow>
           case on_world (k_now (kern C)) s2 of (now, s3) \<Rightarrow>
             do { h \<leftarrow> tmrHandle s3;
                  (ret, h1) \<leftarrow> tcmTmr_set al now h HANDLER a ms (Some ''delayed_msg'');
                  Some (ret, s3\<lparr>tmrHandle := Some h1\<rparr>) }))"

definition timer_cancel :: "UINT32 \<Rightarrow> nat \<Rightarrow> 'w sched \<Rightarrow> (tcmRet \<times> 'w sched) run" where
  "timer_cancel i ctx s =
     do { r \<leftarrow> getTmrInfo i ctx s;
          case r of
            None \<Rightarrow> Some (TCMRET_INVALID_ARGUMENTS, s)
          | Some a \<Rightarrow> do { h \<leftarrow> tmrHandle s;
              Some (TCMRET_SUCCESS, deleteTimerInfo a (s\<lparr>tmrHandle := Some (tcmTmr_cancel h HANDLER a)\<rparr>)) } }"

definition timer_getTimeToNextEvent :: "'w config \<Rightarrow> 'w sched \<Rightarrow> (UINT32 \<times> 'w sched) run" where
  "timer_getTimeToNextEvent C s =
     (case on_world (k_now (kern C)) s of (now, s1) \<Rightarrow>
        do { h \<leftarrow> tmrHandle s1; Some (snd (tcmTmr_getTimeToNextEvent now h), s1) })"

text \<open>A handler works on the scheduler's state, which holds the timers it may use again.\<close>

definition handler_call ::
    "'w config \<Rightarrow> nat \<Rightarrow> nat \<Rightarrow> 'w sched \<times> tcmTimerHandle \<Rightarrow> ('w sched \<times> tcmTimerHandle) run" where
  "handler_call C f ctx sh =
     (if f \<noteq> HANDLER then None
      else do { s1 \<leftarrow> timer_timerHandlerFunc C ctx ((fst sh)\<lparr>tmrHandle := Some (snd sh)\<rparr>);
                h1 \<leftarrow> tmrHandle s1;
                Some (s1, h1) })"

definition timer_process :: "'w config \<Rightarrow> 'w sched \<Rightarrow> 'w sched run" where
  "timer_process C s =
     (case on_world (k_now (kern C)) s of (now, s1) \<Rightarrow>
        do { h \<leftarrow> tmrHandle s1;
             (s2, h2) \<leftarrow> tcmTmr_executeExpiredEvents (handler_call C) now (s1, h);
             Some (s2\<lparr>tmrHandle := Some h2\<rparr>) })"

end
