(* ===== verification/Sched_Serv.thy ===== *)
theory Sched_Serv
  imports Sched_Timer
begin

text \<open>
  \<^verbatim>\<open>sched/tpciserv.c\<close>, the server part of the scheduler: collecting applications that have exited,
  starting and stopping them, routing messages, distributing events, and the loop around
  \<^verbatim>\<open>select\<close>; and the start-up of \<^verbatim>\<open>launcher.c\<close> and \<^verbatim>\<open>main.c\<close>.
\<close>

section \<open>Collecting and terminating\<close>

text \<open>The signals after which an application counts as crashed, by number.\<close>

definition crash_signals :: "int set" where
  "crash_signals = {4, 6, 8, 11, 13, 7, 24, 25}"

definition free_dls :: "DlsInfo \<Rightarrow> bool" where
  "free_dls d \<longleftrightarrow> \<not> has_flag (eInfo d) APPCFG_SERVER \<and> eid (eInfo d) \<noteq> ID_CONSOLE \<and>
     (has_flag (eInfo d) APPCFG_MULTIPLE_INSTANCES \<or>
      (\<not> has_flag (eInfo d) APPCFG_MULTIPLE_INSTANCES \<and> numDelayedMsgRequested d = 0 \<and> numEventInterestRequested d = 0))"

text \<open>The process itself; the result says whether it is to be launched again.\<close>

definition reap :: "'w config \<Rightarrow> DlsInfo \<Rightarrow> 'w sched \<Rightarrow> (bool \<times> 'w sched) run" where
  "reap C d s =
     (if dls_pid d = TCM_INVALID_PID then Some (False, s)
      else let ci = \<lparr>collectMode = COLLECT_PID_TIMEOUT, ci_pid = dls_pid d, ci_timeout = 5 * MSECS_IN_SEC\<rparr> in
        do { ((ret, info), s1) \<leftarrow> on_world_run (prctl_collectProcess (kern C) ci) s;
             if ret \<noteq> TCMRET_SUCCESS then
               (case on_world (prctl_signalProcess (kern C) (dls_pid d) SIGKILL) s1 of (r2, s2) \<Rightarrow>
                  do { (r3, s3) \<leftarrow> on_world_run (prctl_collectProcess (kern C) ci) s2; Some (False, s3) })
             else Some (signalNumber info \<in> crash_signals \<and> has_flag (eInfo d) APPCFG_AUTO_RELAUNCH, s1) })"

text \<open>Taking a record out of the list and freeing it.\<close>

definition unlink_dls :: "nat \<Rightarrow> 'w sched \<Rightarrow> 'w sched" where
  "unlink_dls a s = s\<lparr>dheap := (dheap s)(a := None), dlsInfoHead := remove1 a (dlsInfoHead s)\<rparr>"

definition collectApp :: "'w config \<Rightarrow> nat \<Rightarrow> 'w sched \<Rightarrow> 'w sched run" where
  "collectApp C a s =
     do { d \<leftarrow> dheap s a;
          s1 \<leftarrow> (if dls_commFd d \<noteq> TCM_INVALID_FD
                  then map_option (close_if (kern C) (dls_commFd d)) (FD_CLR (dls_commFd d) s) else Some s);
          let d1 = d\<lparr>msgQueue := [], dls_commFd := TCM_INVALID_FD\<rparr>;
          (again, s2) \<leftarrow> reap C d1 (put_dls a d1 s1);
          if again then launchApp C a s2
          else do {
            s3 \<leftarrow> (if has_flag (eInfo d1) APPCFG_SERVER \<or> eid (eInfo d1) = ID_CONSOLE then FD_SET (serverFd d1) s2 else Some s2);
            if free_dls d1 then do {
              tab \<leftarrow> interest_unregisterAll (nul_end C)
                (if has_flag (eInfo d1) APPCFG_MULTIPLE_INSTANCES then specificEid d1 else of_int (eid (eInfo d1))) (evtInterestHead s3);
              Some (unlink_dls a (s3\<lparr>evtInterestHead := tab\<rparr>)) }
            else Some (put_dls a (d1\<lparr>dls_state := DLS_NOT_RUNNING, dls_pid := TCM_INVALID_PID, specificEid := 0\<rparr>) s3) } }"

definition terminateApp :: "'w config \<Rightarrow> nat \<Rightarrow> 'w sched \<Rightarrow> 'w sched run" where
  "terminateApp C a s =
     do { d \<leftarrow> dheap s a;
          if dls_state d = DLS_NOT_RUNNING then Some s
          else collectApp C a
            (if eid (eInfo d) = ID_CONSOLE then s
             else snd (on_world (prctl_terminateProcessForcefully (kern C) (dls_pid d)) s)) }"

section \<open>Replies and routing\<close>

definition footer_msg :: "UINT32 \<Rightarrow> tcmMsgHeader \<Rightarrow> tcmMsgHeader" where
  "footer_msg rv m = put_flag 2 True (put_flag 1 False
     (m\<lparr>msg_src := msg_dst m, msg_dst := msg_src m, dataLength := 0, mdata := [], wordData := rv\<rparr>))"

text \<open>\<open>r\<close> is a pointer to the record of the receiver, \<open>None\<close> for \<^verbatim>\<open>NULL\<close>.\<close>

definition processMsgSimpleFooter :: "'w config \<Rightarrow> nat option \<Rightarrow> UINT32 \<Rightarrow> tcmMsgHeader \<Rightarrow> 'w sched \<Rightarrow> 'w sched run" where
  "processMsgSimpleFooter C r rv m s =
     do { a \<leftarrow> r;
          d \<leftarrow> dheap s a;
          (ret, s1) \<leftarrow> on_world_run (tcmMsg_sendBySocket (kern C) (dls_commFd d) (footer_msg rv m)) s;
          Some s1 }"

definition not_running :: "nat option \<Rightarrow> 'w sched \<Rightarrow> bool run" where
  "not_running r s =
     (case r of None \<Rightarrow> Some True
      | Some a \<Rightarrow> do { d \<leftarrow> dheap s a; Some (dls_state d = DLS_NOT_RUNNING \<or> dls_state d = DLS_TERMINATE_REQUESTED) })"

definition sched_routeMessage :: "'w config \<Rightarrow> tcmMsgHeader \<Rightarrow> 'w sched \<Rightarrow> 'w sched run" where
  "sched_routeMessage C m s =
     do { r \<leftarrow> getExistingDlsInfo (msg_dst m) s;
          bounce \<leftarrow> (if flags_bounceIfNotRunning m then not_running r s else Some False);
          if bounce then
            (if flags_event m then Some s
             else do { src \<leftarrow> getExistingDlsInfo (msg_src m) s;
                       processMsgSimpleFooter C src TCM_MSG_BOUNCED m s })
          else do {
            (r1, s1) \<leftarrow> (if r = None then getDlsInfo C (msg_dst m) s else Some (r, s));
            case r1 of None \<Rightarrow> Some s1 | Some a \<Rightarrow> sendMessageByAppState C a m s1 } }"

section \<open>Events\<close>

text \<open>Comparing match data with the data of a message, which need not end within the message.\<close>

fun data_differs :: "string \<Rightarrow> char list \<Rightarrow> bool run" where
  "data_differs md [] = None"
| "data_differs [] (c # cs) = Some (c \<noteq> NUL)"
| "data_differs (x # md) (c # cs) = (if x = c then data_differs md cs else Some True)"

definition filtered_out :: "string option \<Rightarrow> tcmMsgHeader \<Rightarrow> bool run" where
  "filtered_out md m =
     (case md of None \<Rightarrow> Some False
      | Some x \<Rightarrow> if dataLength m = 0 then Some True else data_differs x (mdata m))"

definition deliver_event ::
    "'w config \<Rightarrow> UINT32 \<Rightarrow> tcmMsgHeader \<Rightarrow> nat \<Rightarrow> 'w sched \<Rightarrow> 'w sched run" where
  "deliver_event C eventSrc m a s =
     do { (nm, s1) \<leftarrow> on_world_run (tcmMsg_duplicate (kern C) m) s;
          case nm of None \<Rightarrow> Some s1
          | Some x \<Rightarrow> do {
              d \<leftarrow> dheap s1 a;
              sendMessageByAppState C a (x\<lparr>msg_src := eventSrc,
                msg_dst := (if has_flag (eInfo d) APPCFG_MULTIPLE_INSTANCES then specificEid d else of_int (eid (eInfo d)))\<rparr>) s1 } }"

fun distribute_to ::
    "'w config \<Rightarrow> UINT32 \<Rightarrow> nat option \<Rightarrow> tcmMsgHeader \<Rightarrow> EvtInterestInfo list \<Rightarrow> 'w sched \<Rightarrow> 'w sched run" where
  "distribute_to C eventSrc src m [] s = Some s"
| "distribute_to C eventSrc src m (x # xs) s =
     do { (t, s1) \<leftarrow> getDlsInfo C (i_eid x) s;
          s2 \<leftarrow> (case t of None \<Rightarrow> Some s1
                 | Some a \<Rightarrow>
                     if src = Some a then Some s1
                     else do { out \<leftarrow> filtered_out (matchData x) m;
                               if out then Some s1 else deliver_event C eventSrc m a s1 });
          distribute_to C eventSrc src m xs s2 }"

definition sched_distributeEventMessage ::
    "'w config \<Rightarrow> tcmMsgHeader \<Rightarrow> nat option \<Rightarrow> 'w sched \<Rightarrow> 'w sched run" where
  "sched_distributeEventMessage C m src s =
     do { _ \<leftarrow> (case src of None \<Rightarrow> Some () | Some a \<Rightarrow> map_option (\<lambda>d. ()) (dheap s a));
          r \<leftarrow> interest_findByType (nul_end C) (evtInterestHead s) (msg_type m);
          case r of None \<Rightarrow> Some s
          | Some i \<Rightarrow> distribute_to C (if src = None then of_int ID_SCHED else msg_src m) src m
                        (evtInfoHead (evtInterestHead s ! i)) s }"

text \<open>The data of a message taken as a string, which must end within it.\<close>

definition data_string :: "tcmMsgHeader \<Rightarrow> string run" where
  "data_string m = (if terminated (mdata m) then Some (cstr (mdata m)) else None)"

definition change_interest :: "'w config \<Rightarrow> tcmMsgHeader \<Rightarrow> bool \<Rightarrow> 'w sched \<Rightarrow> (int \<times> 'w sched) run" where
  "change_interest C m positive s =
     (if positive then do {
        md \<leftarrow> (if 0 < dataLength m then map_option Some (data_string m) else Some None);
        (ret, tab, w) \<leftarrow> interest_register (nul_end C) (kern C) (wordData m) (msg_src m) md (evtInterestHead s) (world s);
        Some (if ret = TCMRET_SUCCESS then 1 else 0, s\<lparr>evtInterestHead := tab, world := w\<rparr>) }
      else do {
        (ret, tab) \<leftarrow> interest_unregister (nul_end C) (wordData m) (msg_src m) (evtInterestHead s);
        Some (if ret = TCMRET_SUCCESS then - 1 else 0, s\<lparr>evtInterestHead := tab\<rparr>) })"

definition SIGABRT :: int where "SIGABRT = 6"

text \<open>A failed assertion sends \<^verbatim>\<open>SIGABRT\<close> to the process itself, which ends it.\<close>

definition sched_processRegisterEventInterest ::
    "'w config \<Rightarrow> nat \<Rightarrow> tcmMsgHeader \<Rightarrow> bool \<Rightarrow> 'w sched \<Rightarrow> 'w sched run" where
  "sched_processRegisterEventInterest C a m positive s =
     do { (delta, s1) \<leftarrow> change_interest C m positive s;
          s2 \<leftarrow> processMsgSimpleFooter C (Some a) (ret_code TCMRET_SUCCESS) m s1;
          d \<leftarrow> dheap s2 a;
          let n = numEventInterestRequested d + delta in
          if n < 0 then None else Some (put_dls a (d\<lparr>numEventInterestRequested := n\<rparr>) s2) }"

section \<open>Starting and stopping applications\<close>

definition set_opt_args :: "nat \<Rightarrow> tcmMsgHeader \<Rightarrow> 'w sched \<Rightarrow> 'w sched run" where
  "set_opt_args a m s =
     (if dataLength m = 0 \<or> DLS_OPT_ARGS_LENGTH < unat (dataLength m) then Some s
      else do { x \<leftarrow> data_string m;
                d \<leftarrow> dheap s a;
                if DLS_OPT_ARGS_LENGTH \<le> length x then None else Some (put_dls a (d\<lparr>optArgs := x\<rparr>) s) })"

text \<open>The arguments are the data of the request \<open>m\<close>.\<close>

definition startApp :: "'w config \<Rightarrow> UINT32 \<Rightarrow> tcmMsgHeader \<Rightarrow> 'w sched \<Rightarrow> (int \<times> 'w sched) run" where
  "startApp C e m s =
     (case tcmEid_getEntityInfo (entities C) (uint e) of
        None \<Rightarrow> Some (TCM_INVALID_PID, s)
      | Some i \<Rightarrow> do {
          (r, s1) \<leftarrow> (if has_flag i APPCFG_MULTIPLE_INSTANCES then getNewDlsInfo C e s else getDlsInfo C e s);
          case r of None \<Rightarrow> Some (TCM_INVALID_PID, s1)
          | Some a \<Rightarrow> do {
              s2 \<leftarrow> set_opt_args a m s1;
              d \<leftarrow> dheap s2 a;
              if dls_state d = DLS_NOT_RUNNING then do {
                s3 \<leftarrow> launchApp C a s2;
                d3 \<leftarrow> dheap s3 a;
                Some (dls_pid d3, s3) }
              else Some (TCM_INVALID_PID, s2) } })"

definition stopApp :: "'w config \<Rightarrow> UINT32 \<Rightarrow> 'w sched \<Rightarrow> 'w sched run" where
  "stopApp C e s =
     (case tcmEid_getEntityInfo (entities C) (uint (GENERIC_EID e)) of
        None \<Rightarrow> Some s
      | Some i \<Rightarrow> do {
          r \<leftarrow> getExistingDlsInfo e s;
          case r of None \<Rightarrow> Some s
          | Some a \<Rightarrow> do {
              d \<leftarrow> dheap s a;
              if dls_state d = DLS_NOT_RUNNING then Some s else terminateApp C a s } })"

definition sched_processStartAppMsg :: "'w config \<Rightarrow> nat \<Rightarrow> tcmMsgHeader \<Rightarrow> 'w sched \<Rightarrow> 'w sched run" where
  "sched_processStartAppMsg C a m s =
     do { (p, s1) \<leftarrow> startApp C (wordData m) m s; processMsgSimpleFooter C (Some a) (of_int p) m s1 }"

definition sched_processStopAppMsg :: "'w config \<Rightarrow> nat \<Rightarrow> tcmMsgHeader \<Rightarrow> 'w sched \<Rightarrow> 'w sched run" where
  "sched_processStopAppMsg C a m s =
     do { s1 \<leftarrow> stopApp C (wordData m) s; processMsgSimpleFooter C (Some a) (ret_code TCMRET_SUCCESS) m s1 }"

definition sched_processRestartAppMsg :: "'w config \<Rightarrow> nat \<Rightarrow> tcmMsgHeader \<Rightarrow> 'w sched \<Rightarrow> 'w sched run" where
  "sched_processRestartAppMsg C a m s =
     do { s1 \<leftarrow> stopApp C (wordData m) s;
          (p, s2) \<leftarrow> startApp C (GENERIC_EID (wordData m)) m s1;
          processMsgSimpleFooter C (Some a) (of_int p) m s2 }"

definition sched_processIsAppRuning :: "'w config \<Rightarrow> nat \<Rightarrow> tcmMsgHeader \<Rightarrow> 'w sched \<Rightarrow> 'w sched run" where
  "sched_processIsAppRuning C a m s =
     do { r \<leftarrow> getExistingDlsInfo (wordData m) s;
          up \<leftarrow> (case r of None \<Rightarrow> Some False | Some t \<Rightarrow> map_option (\<lambda>d. dls_state d = DLS_RUNNING) (dheap s t));
          processMsgSimpleFooter C (Some a) (ret_code (if up then TCMRET_SUCCESS else TCMRET_OBJECT_NOT_FOUND)) m s }"

definition sched_processMessage :: "'w config \<Rightarrow> nat \<Rightarrow> tcmMsgHeader \<Rightarrow> 'w sched \<Rightarrow> 'w sched run" where
  "sched_processMessage C a m s =
     (if flags_requeue m then do {
        d \<leftarrow> dheap s a;
        (ret, s1) \<leftarrow> on_world_run (tcmMsg_sendBySocket (kern C) (dls_commFd d) (put_flag 3 False m)) s;
        Some s1 }
      else if uint (msg_dst m) = ID_SCHED then
        (if flags_event m then sched_distributeEventMessage C m (Some a) s
         else if msg_type m = TCM_MSG_REGISTER_EVENT_INTEREST then sched_processRegisterEventInterest C a m True s
         else if msg_type m = TCM_MSG_UNREGISTER_EVENT_INTEREST then sched_processRegisterEventInterest C a m False s
         else if msg_type m = TCM_MSG_START_APP then sched_processStartAppMsg C a m s
         else if msg_type m = TCM_MSG_STOP_APP then sched_processStopAppMsg C a m s
         else if msg_type m = TCM_MSG_RESTART_APP then sched_processRestartAppMsg C a m s
         else if msg_type m = TCM_MSG_IS_APP_RUNNING then sched_processIsAppRuning C a m s
         else Some s)
      else sched_routeMessage C m s)"

section \<open>The main loop\<close>

fun flush_queue :: "'w config \<Rightarrow> int \<Rightarrow> tcmMsgHeader list \<Rightarrow> 'w sched \<Rightarrow> 'w sched run" where
  "flush_queue C fd [] s = Some s"
| "flush_queue C fd (m # ms) s =
     do { (ret, s1) \<leftarrow> on_world_run (tcmMsg_sendBySocket (kern C) fd m) s; flush_queue C fd ms s1 }"

definition processLaunchConfirmation :: "'w config \<Rightarrow> nat \<Rightarrow> 'w sched \<Rightarrow> 'w sched run" where
  "processLaunchConfirmation C a s =
     do { d \<leftarrow> dheap s a;
          s1 \<leftarrow> FD_SET (dls_commFd d) (put_dls a (d\<lparr>dls_state := DLS_RUNNING, msgQueue := []\<rparr>) s);
          flush_queue C (dls_commFd d) (msgQueue d) (UPDATE_MAXFD (dls_commFd d) s1) }"

definition CONNECT_TO_LAUNCH_MSG_TIMEOUT :: UINT32 where "CONNECT_TO_LAUNCH_MSG_TIMEOUT = 200"

definition receive_s ::
    "'w config \<Rightarrow> int \<Rightarrow> UINT32 option \<Rightarrow> 'w sched \<Rightarrow> ((tcmRet \<times> tcmMsgHeader option) \<times> 'w sched) run" where
  "receive_s C fd timeout s =
     on_world_run (\<lambda>w. map_option (\<lambda>(ret, m, w1). ((ret, m), w1)) (tcmMsg_receiveBySocket (kern C) fd timeout w)) s"

text \<open>The three things a readable descriptor can be: a server socket, the connection of an
  application, and the socket on which applications connect.\<close>

definition server_activity :: "'w config \<Rightarrow> int \<Rightarrow> 'w sched \<Rightarrow> 'w sched run" where
  "server_activity C fd s =
     do { r \<leftarrow> getDlsInfoByServerFd fd s;
          case r of None \<Rightarrow> Some s
          | Some a \<Rightarrow> do { d \<leftarrow> dheap s a; if dls_state d \<noteq> DLS_NOT_RUNNING then Some s else launchApp C a s } }"

definition comm_activity :: "'w config \<Rightarrow> int \<Rightarrow> 'w sched \<Rightarrow> 'w sched run" where
  "comm_activity C fd s =
     do { r \<leftarrow> getDlsInfoByCommFd fd s;
          case r of None \<Rightarrow> Some s
          | Some a \<Rightarrow> do {
              d \<leftarrow> dheap s a;
              ((ret, m), s1) \<leftarrow> receive_s C (dls_commFd d) None s;
              if ret = TCMRET_SUCCESS then do { x \<leftarrow> m; sched_processMessage C a x s1 }
              else if ret = TCMRET_DISCONNECTED then collectApp C a s1
              else Some s1 } }"

definition close_fd :: "'w config \<Rightarrow> int \<Rightarrow> 'w sched \<Rightarrow> 'w sched" where
  "close_fd C fd s = s\<lparr>world := k_close (kern C) fd (world s)\<rparr>"

definition confirm_launch :: "'w config \<Rightarrow> int \<Rightarrow> tcmMsgHeader \<Rightarrow> 'w sched \<Rightarrow> 'w sched run" where
  "confirm_launch C fd m s =
     (if msg_type m \<noteq> TCM_MSG_APP_LAUNCHED \<or> uint (msg_dst m) \<noteq> ID_SCHED then Some (close_fd C fd s)
      else do { (r, s1) \<leftarrow> getDlsInfo C (msg_src m) s;
                case r of None \<Rightarrow> Some (close_fd C fd s1)
                | Some a \<Rightarrow> do { d \<leftarrow> dheap s1 a; processLaunchConfirmation C a (put_dls a (d\<lparr>dls_commFd := fd\<rparr>) s1) } })"

definition listen_activity :: "'w config \<Rightarrow> int \<Rightarrow> 'w sched \<Rightarrow> 'w sched run" where
  "listen_activity C i s =
     (if i \<noteq> ipcListenFd s then Some s
      else case on_world (k_accept (kern C) (ipcListenFd s)) s of (fd, s1) \<Rightarrow>
        if fd < 0 then Some s1
        else do {
          ((ret, m), s2) \<leftarrow> receive_s C fd (Some CONNECT_TO_LAUNCH_MSG_TIMEOUT) s1;
          if ret \<noteq> TCMRET_SUCCESS then Some (close_fd C fd s2)
          else do { x \<leftarrow> m; confirm_launch C fd x s2 } })"

definition fd_activity :: "'w config \<Rightarrow> int \<Rightarrow> 'w sched \<Rightarrow> 'w sched run" where
  "fd_activity C i s =
     do { s1 \<leftarrow> server_activity C i s; s2 \<leftarrow> comm_activity C i s1; listen_activity C i s2 }"

text \<open>
  The loop over the descriptors. \<^verbatim>\<open>select\<close> was asked about the descriptors up to \<^verbatim>\<open>maxFd\<close> of that
  time and sets no bit above, so that raising \<^verbatim>\<open>maxFd\<close> during the loop adds nothing to it.
\<close>

fun serve_fds :: "'w config \<Rightarrow> int set \<Rightarrow> int list \<Rightarrow> 'w sched \<Rightarrow> 'w sched run" where
  "serve_fds C ready [] s = Some s"
| "serve_fds C ready (i # is) s =
     do { s1 \<leftarrow> (if i \<in> ready then fd_activity C i s else Some s); serve_fds C ready is s1 }"

definition timer_lag_time :: UINT32 where "timer_lag_time = 10"

definition sleep_ms :: "UINT32 \<Rightarrow> UINT32" where
  "sleep_ms t = (if t < MAX_UINT32 - timer_lag_time then t + timer_lag_time else t)"

definition select_events :: "'w config \<Rightarrow> UINT32 \<Rightarrow> 'w sched \<Rightarrow> (int \<times> int set) \<times> 'w sched" where
  "select_events C sleepMs s =
     on_world (k_select (kern C) (maxFd s + 1) (readFdsMaster s)
       (uint (sleepMs div MSECS_IN_SEC)) (uint (sleepMs mod MSECS_IN_SEC) * USECS_IN_MSEC)) s"

definition sched_processEvents :: "'w config \<Rightarrow> 'w sched \<Rightarrow> (tcmRet \<times> 'w sched) run" where
  "sched_processEvents C s =
     do { (t, s1) \<leftarrow> timer_getTimeToNextEvent C s;
          case select_events C (sleep_ms t) s1 of ((rv, ready), s2) \<Rightarrow>
            if rv \<le> 0 then Some (TCMRET_SUCCESS, s2)
            else do { s3 \<leftarrow> serve_fds C ready [0..maxFd s2] s2; Some (TCMRET_SUCCESS, s3) } }"

text \<open>One turn of the loop of \<^verbatim>\<open>sched_main\<close>, and its steps, between which a signal may arrive.\<close>

definition sched_round :: "'w config \<Rightarrow> 'w sched \<Rightarrow> 'w sched run" where
  "sched_round C s =
     do { s1 \<leftarrow> timer_process C s;
          (ret, s2) \<leftarrow> sched_processEvents C s1;
          Some (if ret \<noteq> TCMRET_SUCCESS then s2\<lparr>keepLooping := False\<rparr> else s2) }"

inductive sched_step :: "'w config \<Rightarrow> 'w sched \<Rightarrow> 'w sched \<Rightarrow> bool" for C where
  turn: "keepLooping s \<Longrightarrow> sched_round C s = Some s' \<Longrightarrow> sched_step C s s'"
| signal: "sched_step C s (terminalSignalHandler s)"

definition clean_sched :: "'w config \<Rightarrow> 'w sched \<Rightarrow> 'w sched run" where
  "clean_sched C s =
     do { s1 \<leftarrow> cleanupDls C (s\<lparr>world := k_unlink (kern C) SCHED_MESSAGE_ADDR (k_close (kern C) (ipcListenFd s) (world s)),
                                   ipcListenFd := TCM_INVALID_FD\<rparr>);
          Some (s1\<lparr>evtInterestHead := interest_cleanup (evtInterestHead s1)\<rparr>) }"

section \<open>Start-up\<close>

definition SCHED_MESSAGE_BACKLOG :: int where "SCHED_MESSAGE_BACKLOG = 3"

text \<open>A failure of \<^verbatim>\<open>bind\<close> or \<^verbatim>\<open>listen\<close> gives 0 (\<^verbatim>\<open>NULL\<close>), one of \<^verbatim>\<open>socket\<close> a negative number.\<close>

definition init_schedServerSocket :: "'w kernel \<Rightarrow> 'w \<Rightarrow> int \<times> 'w" where
  "init_schedServerSocket K w =
     (case k_socket K ''AF_LOCAL'' ''SOCK_STREAM'' (k_unlink K SCHED_MESSAGE_ADDR w) of (fd, w1) \<Rightarrow>
        if fd < 0 then (fd, w1)
        else case k_bind K fd SCHED_MESSAGE_ADDR 0 w1 of (rc, w2) \<Rightarrow>
          if rc \<noteq> 0 then (0, k_close K fd w2)
          else case k_listen K fd SCHED_MESSAGE_BACKLOG w2 of (rc2, w3) \<Rightarrow>
            if rc2 \<noteq> 0 then (0, k_close K fd w3) else (fd, w3))"

definition init_launcher :: "'w config \<Rightarrow> 'w sched \<Rightarrow> (tcmRet \<times> 'w sched) run" where
  "init_launcher C s =
     (case timer_init C s of (tr, s1) \<Rightarrow>
      case on_world (init_schedServerSocket (kern C)) (s1\<lparr>readFdsMaster := {}\<rparr>) of (fd, s2) \<Rightarrow>
        let s3 = s2\<lparr>ipcListenFd := fd\<rparr> in
        if fd = 0 then Some (TCMRET_INTERNAL_ERROR, s3)
        else do {
          s4 \<leftarrow> FD_SET fd s3;
          (ret, s5) \<leftarrow> initDls C 1 (UPDATE_MAXFD fd s4);
          if ret \<noteq> TCMRET_SUCCESS then Some (TCMRET_INTERNAL_ERROR, close_fd C fd s5)
          else Some (TCMRET_SUCCESS, s5) })"

text \<open>\<open>main\<close> up to the loop; the result says whether the loop is reached.\<close>

definition sched_boot :: "'w config \<Rightarrow> 'w sched \<Rightarrow> (bool \<times> 'w sched) run" where
  "sched_boot C s =
     do { (ret, s1) \<leftarrow> init_launcher C s;
          if ret \<noteq> TCMRET_SUCCESS then Some (False, s1)
          else do {
            (r1, s2) \<leftarrow> app_launcher C 1 s1;
            if r1 \<noteq> TCMRET_SUCCESS then Some (False, s2)
            else do {
              (r2, s3) \<leftarrow> initDls C 2 s2;
              if r2 \<noteq> TCMRET_SUCCESS then Some (True, s3\<lparr>keepLooping := False\<rparr>)
              else do { (r3, s4) \<leftarrow> app_launcher C 2 s3; Some (True, s4) } } } }"

end
