(* ===== verification/Sched_Inv.thy ===== *)
theory Sched_Inv
  imports Sched_Serv
begin

text \<open>
  The invariant of the scheduler: its list of records is well linked, records are in a consistent
  state, the table of interests is well-formed. Every handler keeps it, hence every state that
  the main loop reaches has it.
\<close>

section \<open>The invariant\<close>

definition dls_ok :: "DlsInfo \<Rightarrow> bool" where
  "dls_ok d \<longleftrightarrow> dls_state d \<noteq> DLS_TERMINATE_REQUESTED \<and>
     (dls_state d = DLS_LAUNCHED \<longrightarrow> has_flag (eInfo d) APPCFG_MESSAGING_CAPABLE) \<and>
     (dls_state d = DLS_RUNNING \<and> has_flag (eInfo d) APPCFG_MESSAGING_CAPABLE \<longrightarrow> msgQueue d = []) \<and>
     length (optArgs d) < DLS_OPT_ARGS_LENGTH"

definition sched_inv :: "'w sched \<Rightarrow> bool" where
  "sched_inv s \<longleftrightarrow> distinct (dlsInfoHead s) \<and> set (dlsInfoHead s) = dom (dheap s) \<and>
     (\<forall>a \<in> dom (dheap s). a < next_ptr s) \<and> (\<forall>a d. dheap s a = Some d \<longrightarrow> dls_ok d) \<and>
     wf_interest (evtInterestHead s)"

text \<open>What of the state the invariant does not look at.\<close>

lemma inv_world [simp]: "sched_inv (s\<lparr>world := w\<rparr>) = sched_inv s"
  by (simp add: sched_inv_def)

lemma inv_fds [simp]: "sched_inv (s\<lparr>readFdsMaster := x\<rparr>) = sched_inv s"
  by (simp add: sched_inv_def)

lemma inv_maxFd [simp]: "sched_inv (s\<lparr>maxFd := x\<rparr>) = sched_inv s"
  by (simp add: sched_inv_def)

lemma inv_listen [simp]: "sched_inv (s\<lparr>ipcListenFd := x\<rparr>) = sched_inv s"
  by (simp add: sched_inv_def)

lemma inv_tmr [simp]: "sched_inv (s\<lparr>tmrHandle := x\<rparr>) = sched_inv s"
  by (simp add: sched_inv_def)

lemma inv_loop [simp]: "sched_inv (s\<lparr>keepLooping := x\<rparr>) = sched_inv s"
  by (simp add: sched_inv_def)

lemma inv_update_maxfd [simp]: "sched_inv (UPDATE_MAXFD f s) = sched_inv s"
  by (simp add: UPDATE_MAXFD_def)

lemma inv_close [simp]: "sched_inv (close_fd C f s) = sched_inv s"
  by (simp add: close_fd_def)

lemma inv_close_if [simp]: "sched_inv (close_if K f s) = sched_inv s"
  by (simp add: close_if_def)

lemma on_world_eq: "on_world f s = (x, s') \<Longrightarrow> \<exists>w. s' = s\<lparr>world := w\<rparr>"
  by (auto simp: on_world_def split: prod.splits)

lemma on_world_run_eq: "on_world_run f s = Some (x, s') \<Longrightarrow> \<exists>w. s' = s\<lparr>world := w\<rparr>"
  by (auto simp: on_world_run_def split: option.splits prod.splits)

lemma inv_on_world [inv_intros]: "on_world f s = (x, s') \<Longrightarrow> sched_inv s \<Longrightarrow> sched_inv s'"
  by (auto dest: on_world_eq)

lemma inv_on_world_snd [inv_intros]: "sched_inv s \<Longrightarrow> sched_inv (snd (on_world f s))"
  by (metis inv_on_world prod.collapse)

lemma inv_on_world_run [inv_intros]: "on_world_run f s = Some (x, s') \<Longrightarrow> sched_inv s \<Longrightarrow> sched_inv s'"
  by (auto dest: on_world_run_eq)

lemma heap_on_world: "on_world f s = (x, s') \<Longrightarrow> dheap s' = dheap s"
  by (auto dest: on_world_eq)

lemma heap_on_world_run: "on_world_run f s = Some (x, s') \<Longrightarrow> dheap s' = dheap s"
  by (auto dest: on_world_run_eq)

lemma FD_SET_eq: "FD_SET fd s = Some s' \<Longrightarrow> \<exists>r. s' = s\<lparr>readFdsMaster := r\<rparr>"
  by (auto simp: FD_SET_def split: if_splits)

lemma FD_CLR_eq: "FD_CLR fd s = Some s' \<Longrightarrow> \<exists>r. s' = s\<lparr>readFdsMaster := r\<rparr>"
  by (auto simp: FD_CLR_def split: if_splits)

lemma inv_FD_SET [inv_intros]: "FD_SET fd s = Some s' \<Longrightarrow> sched_inv s \<Longrightarrow> sched_inv s'"
  by (auto dest: FD_SET_eq)

lemma inv_FD_CLR [inv_intros]: "FD_CLR fd s = Some s' \<Longrightarrow> sched_inv s \<Longrightarrow> sched_inv s'"
  by (auto dest: FD_CLR_eq)

lemma inv_put [inv_intros]:
  assumes "sched_inv s" and "dheap s a = Some d" and "dls_ok d'"
  shows "sched_inv (put_dls a d' s)"
  using assms by (auto simp: sched_inv_def put_dls_def)

lemma inv_dls_ok: "sched_inv s \<Longrightarrow> dheap s a = Some d \<Longrightarrow> dls_ok d"
  by (auto simp: sched_inv_def)

lemma put_dls_heap [simp]: "dheap (put_dls a d s) = (dheap s)(a \<mapsto> d)"
  by (simp add: put_dls_def)

section \<open>Records\<close>

lemma new_dls_ok: "dls_ok (new_dls i e)" "dls_ok ((new_dls i e)\<lparr>serverFd := fd\<rparr>)"
  by (simp_all add: dls_ok_def new_dls_def DLS_OPT_ARGS_LENGTH_def)

lemma inv_link_dls:
  assumes "sched_inv s" and "dls_ok d"
  shows "sched_inv (snd (link_dls d s))"
proof -
  have "next_ptr s \<notin> set (dlsInfoHead s)" using assms(1) by (auto simp: sched_inv_def)
  then show ?thesis using assms
    by (auto simp: sched_inv_def link_dls_def put_dls_def dlist_prepend_head_def intro!: less_SucI)
qed

lemma inv_insert [inv_intros]:
  assumes "insertDlsInfoEntry C e s = Some (r, s')" and "sched_inv s"
  shows "sched_inv s'"
proof -
  have l: "sched_inv s2" if "link_dls d s1 = (r, s2)" "dls_ok d" "sched_inv s1" for d s1 r and s2 :: "'a sched"
    using inv_link_dls[OF that(3,2)] that(1) by simp
  have k: "sched_inv s4" if "on_world f s1 = (fd, s2)" "FD_SET fd s2 = Some s3" "link_dls d (UPDATE_MAXFD fd s3) = (r, s4)"
    "dls_ok d" "sched_inv s1" for f fd d s1 s2 s3 r and s4 :: "'a sched"
    using l[OF that(3,4)] inv_FD_SET[OF that(2) inv_on_world[OF that(1,5)]] by simp
  from assms show ?thesis
    unfolding insertDlsInfoEntry_def
    by (auto simp: run_simps Let_def new_dls_ok split: prod.splits option.splits if_splits
        intro: l[OF _ new_dls_ok(1)] l[OF _ new_dls_ok(2)] k[OF _ _ _ new_dls_ok(2)] inv_on_world inv_FD_SET dest!: inv_on_world[OF _ assms(2)])
qed

lemma find_dls_Some: "find_dls h P as = Some (Some a) \<Longrightarrow> a \<in> set as \<and> (\<exists>d. h a = Some d \<and> P d)"
  by (induction as) (auto simp: run_simps split: if_splits)

lemma find_dls_defined:
  "set as \<subseteq> dom h \<Longrightarrow> \<exists>r. find_dls h P as = Some r \<and> (r = None \<longrightarrow> (\<forall>a \<in> set as. \<not> P (the (h a))))"
  by (induction as) auto

lemma inv_getDlsInfo [inv_intros]:
  "getDlsInfo C e s = Some (r, s') \<Longrightarrow> sched_inv s \<Longrightarrow> sched_inv s'"
  by (auto simp: getDlsInfo_def getNewDlsInfo_def run_simps split: if_splits intro: inv_insert)

lemma inv_getNewDlsInfo [inv_intros]:
  "getNewDlsInfo C e s = Some (r, s') \<Longrightarrow> sched_inv s \<Longrightarrow> sched_inv s'"
  by (auto simp: getNewDlsInfo_def intro: inv_insert)

lemma inv_launchApp [inv_intros]:
  assumes "launchApp C a s = Some s'" and "sched_inv s" and "dheap s a = Some d"
    and "msgQueue d = [] \<or> dls_state d = DLS_NOT_RUNNING"
  shows "sched_inv s'"
proof (cases "ei_path (eInfo d) = []")
  case True
  with assms show ?thesis by (simp add: launchApp_def)
next
  case False
  from assms(1,3) False obtain ret info s1 where
    s1: "on_world_run (prctl_spawnProcess (kern C)
               \<lparr>exe = take 1023 (ei_path (eInfo d)), args = Some (launch_args d), spawnMode = SPAWN_AND_RETURN, si_timeout = 0\<rparr>) s = Some ((ret, info), s1)"
    and fin: "(if has_flag (eInfo d) APPCFG_SERVER \<or> eid (eInfo d) = ID_CONSOLE
       then FD_CLR (serverFd d) (put_dls a (after_spawn d ret info) s1) else Some (put_dls a (after_spawn d ret info) s1)) = Some s'"
    by (auto simp: launchApp_def run_simps Let_def simp del: split_paired_Ex)
  have "dls_ok (after_spawn d ret info)"
    using inv_dls_ok[OF assms(2,3)] assms(4) by (auto simp: dls_ok_def after_spawn_def Let_def)
  moreover have "sched_inv s1" "dheap s1 a = Some d" using inv_on_world_run[OF s1 assms(2)] heap_on_world_run[OF s1] assms(3) by auto
  ultimately have "sched_inv (put_dls a (after_spawn d ret info) s1)" by (intro inv_put)
  then show ?thesis using fin inv_FD_CLR by (auto split: if_splits)
qed

lemma inv_queuemsg [inv_intros]:
  assumes "queuemsg a m s = Some s'" and "sched_inv s" and "dheap s a = Some d" and "dls_state d \<noteq> DLS_RUNNING"
  shows "sched_inv s'"
  using assms inv_dls_ok[OF assms(2,3)] by (auto simp: queuemsg_def dls_ok_def intro!: inv_put[OF assms(2,3)])

lemma inv_send [inv_intros]:
  assumes "sendMessageByAppState C a m s = Some s'" and "sched_inv s"
  shows "sched_inv s'"
proof -
  from assms(1) obtain d where d: "dheap s a = Some d" by (auto simp: sendMessageByAppState_def run_simps)
  show ?thesis
  proof (cases "dls_state d")
    case DLS_NOT_RUNNING
    with assms(1) d obtain s1 where s1: "queuemsg a m s = Some s1" "launchApp C a s1 = Some s'"
      by (auto simp: sendMessageByAppState_def run_simps)
    then have "dheap s1 a = Some (d\<lparr>msgQueue := m # msgQueue d\<rparr>)" using d by (auto simp: queuemsg_def)
    with inv_launchApp[OF s1(2) inv_queuemsg[OF s1(1) assms(2) d]] DLS_NOT_RUNNING show ?thesis by simp
  qed (use assms d in \<open>auto simp: sendMessageByAppState_def run_simps intro: inv_queuemsg inv_on_world_run\<close>)
qed

section \<open>Interests\<close>

lemma findByType_nul: "interest_findByType nul tab t = Some r \<Longrightarrow> interest_findByType True tab t = Some r"
  by (auto simp: interest_findByType_def no_return_def split: option.splits if_splits)

lemma findInfo_nul: "interest_findInfo nul x e = Some r \<Longrightarrow> interest_findInfo True x e = Some r"
  by (auto simp: interest_findInfo_def no_return_def split: option.splits if_splits)

lemma unregister_nul:
  assumes "interest_unregister nul t e tab = Some y"
  shows "interest_unregister True t e tab = Some y"
proof -
  obtain r where r: "interest_findByType nul tab t = Some r" using assms by (auto simp: interest_unregister_def run_simps)
  show ?thesis
  proof (cases r)
    case None
    then show ?thesis using assms r findByType_nul[OF r] by (simp add: interest_unregister_def)
  next
    case (Some i)
    then obtain q where q: "interest_findInfo nul (tab ! i) e = Some q"
      using assms r by (auto simp: interest_unregister_def run_simps)
    then show ?thesis using assms r Some findByType_nul[OF r] findInfo_nul[OF q] by (simp add: interest_unregister_def)
  qed
qed

lemma wf_unregister:
  assumes "interest_unregister nul t e tab = Some (ret, tab')" and "wf_interest tab"
  shows "wf_interest tab'"
  using unregister_nul[OF assms(1)] unregister_spec[OF assms(2), of t e] by auto

lemma wf_unregisterAll:
  assumes "interest_unregisterAll nul e tab = Some tab'" and "wf_interest tab"
  shows "wf_interest tab'"
proof -
  have "wf_interest tab \<longrightarrow> wf_interest tab'"
    by (rule interest_unregisterAll.raw_induct[where P = "\<lambda>nul e tab y. wf_interest tab \<longrightarrow> wf_interest y", OF _ assms(1)])
      (auto simp: run_simps split: option.splits, meson wf_unregister)
  with assms(2) show ?thesis by simp
qed

lemma findInfo_None: "interest_findInfo nul x e = Some None \<Longrightarrow> e \<notin> i_eid ` set (evtInfoHead x)"
  by (auto simp: interest_findInfo_def index_of_None find_None_iff split: option.splits)

lemma wf_add_info:
  assumes "add_info nul K tab i e md w = Some (ret, tab', w')" and "wf_interest tab" and "i < length tab"
  shows "wf_interest tab'"
proof -
  have x: "tab ! i \<in> set tab" using assms(3) by simp
  have "wf_interest (tab[i := (tab ! i)\<lparr>evtInfoHead := \<lparr>i_eid = e, matchData = d\<rparr> # evtInfoHead (tab ! i)\<rparr>])"
    if "interest_findInfo nul (tab ! i) e = Some None" for d
    using assms(2,3) x findInfo_None[OF that] by (intro wf_interest_update) (auto simp: wf_interest_def)
  then show ?thesis using assms(1,2)
    by (auto simp: add_info_def run_simps Let_def dlist_append_head_def split: option.splits prod.splits if_splits)
qed

lemma wf_register:
  assumes "interest_register nul K t e md tab w = Some (ret, tab', w')" and "wf_interest tab"
  shows "wf_interest tab'"
proof -
  obtain r where r: "interest_findByType nul tab t = Some r" using assms(1) by (auto simp: interest_register_def run_simps)
  show ?thesis
  proof (cases r)
    case (Some i)
    then have "i < length tab" using r index_of_Some
      by (fastforce simp: interest_findByType_def no_return_def split: option.splits if_splits)
    then show ?thesis using assms r Some by (auto simp: interest_register_def intro: wf_add_info)
  next
    case None
    have "index_of (\<lambda>x. ei_type x = t) tab = None"
      using r None by (auto simp: interest_findByType_def split: option.splits)
    then have "wf_interest (\<lparr>ei_type = t, evtInfoHead = []\<rparr> # tab)"
      using assms(2) by (auto simp: wf_interest_def index_of_None find_None_iff)
    then show ?thesis using assms r None
      by (auto simp: interest_register_def dlist_append_head_def Let_def intro: wf_add_info split: prod.splits if_splits)
  qed
qed

lemma inv_interest: "sched_inv s \<Longrightarrow> wf_interest tab \<Longrightarrow> sched_inv (s\<lparr>evtInterestHead := tab\<rparr>)"
  by (simp add: sched_inv_def)

section \<open>Handlers\<close>

lemma inv_unlink: "sched_inv s \<Longrightarrow> sched_inv (unlink_dls a s)"
  by (auto simp: sched_inv_def unlink_dls_def)

lemma reap_world:
  assumes "reap C d s = Some (b, s')"
  shows "\<exists>w. s' = s\<lparr>world := w\<rparr>"
proof (cases "dls_pid d = TCM_INVALID_PID")
  case True
  then show ?thesis using assms by (intro exI[of _ "world s"]) (simp add: reap_def)
next
  case False
  let ?ci = "\<lparr>collectMode = COLLECT_PID_TIMEOUT, ci_pid = dls_pid d, ci_timeout = 5 * MSECS_IN_SEC\<rparr>"
  obtain ret info s1 where s1: "on_world_run (prctl_collectProcess (kern C) ?ci) s = Some ((ret, info), s1)"
    using assms False by (auto simp: reap_def run_simps Let_def)
  obtain w1 where w1: "s1 = s\<lparr>world := w1\<rparr>" using on_world_run_eq[OF s1] by blast
  show ?thesis
  proof (cases "ret = TCMRET_SUCCESS")
    case True
    then show ?thesis using assms False s1 w1 by (auto simp: reap_def Let_def)
  next
    case fail: False
    obtain r2 s2 where s2: "on_world (prctl_signalProcess (kern C) (dls_pid d) SIGKILL) s1 = (r2, s2)"
      by (cases "on_world (prctl_signalProcess (kern C) (dls_pid d) SIGKILL) s1") auto
    obtain w2 where "s2 = s1\<lparr>world := w2\<rparr>" using on_world_eq[OF s2] by blast
    moreover obtain r3 where "on_world_run (prctl_collectProcess (kern C) ?ci) s2 = Some (r3, s')"
      using assms False fail s1 s2 by (auto simp: reap_def Let_def run_simps)
    ultimately show ?thesis using w1 on_world_run_eq by fastforce
  qed
qed

lemma inv_collectApp [inv_intros]:
  assumes "collectApp C a s = Some s'" and "sched_inv s"
  shows "sched_inv s'"
proof -
  obtain d where d: "dheap s a = Some d" using assms(1) by (auto simp: collectApp_def run_simps)
  let ?d = "d\<lparr>msgQueue := [], dls_commFd := TCM_INVALID_FD\<rparr>"
  have ok: "dls_ok ?d" "dls_ok (?d\<lparr>dls_state := DLS_NOT_RUNNING, dls_pid := TCM_INVALID_PID, specificEid := 0\<rparr>)"
    using inv_dls_ok[OF assms(2) d] by (auto simp: dls_ok_def)
  from assms(1) d obtain s1 again s2 where
    s1: "(if dls_commFd d \<noteq> TCM_INVALID_FD
          then map_option (close_if (kern C) (dls_commFd d)) (FD_CLR (dls_commFd d) s) else Some s) = Some s1"
    and s2: "reap C ?d (put_dls a ?d s1) = Some (again, s2)"
    and fin: "(if again then launchApp C a s2
          else do {
            s3 \<leftarrow> (if has_flag (eInfo ?d) APPCFG_SERVER \<or> eid (eInfo ?d) = ID_CONSOLE then FD_SET (serverFd ?d) s2 else Some s2);
            if free_dls ?d then do {
              tab \<leftarrow> interest_unregisterAll (nul_end C)
                (if has_flag (eInfo ?d) APPCFG_MULTIPLE_INSTANCES then specificEid ?d else of_int (eid (eInfo ?d))) (evtInterestHead s3);
              Some (unlink_dls a (s3\<lparr>evtInterestHead := tab\<rparr>)) }
            else Some (put_dls a (?d\<lparr>dls_state := DLS_NOT_RUNNING, dls_pid := TCM_INVALID_PID, specificEid := 0\<rparr>) s3) }) = Some s'"
    unfolding collectApp_def by (simp only: run_simps Let_def) auto
  have "sched_inv s1 \<and> dheap s1 = dheap s"
    using s1 assms(2) by (auto split: if_splits simp: close_if_def dest!: FD_CLR_eq)
  then have "sched_inv (put_dls a ?d s1)" using ok d by (intro inv_put) auto
  then have i2: "sched_inv s2" "dheap s2 a = Some ?d" using reap_world[OF s2] by auto
  show ?thesis
  proof (cases again)
    case True
    then show ?thesis using fin inv_launchApp[OF _ i2] by simp
  next
    case False
    with fin obtain s3 where s3: "(if has_flag (eInfo ?d) APPCFG_SERVER \<or> eid (eInfo ?d) = ID_CONSOLE then FD_SET (serverFd ?d) s2 else Some s2) = Some s3"
      and f3: "(if free_dls ?d then do {
              tab \<leftarrow> interest_unregisterAll (nul_end C)
                (if has_flag (eInfo ?d) APPCFG_MULTIPLE_INSTANCES then specificEid ?d else of_int (eid (eInfo ?d))) (evtInterestHead s3);
              Some (unlink_dls a (s3\<lparr>evtInterestHead := tab\<rparr>)) }
            else Some (put_dls a (?d\<lparr>dls_state := DLS_NOT_RUNNING, dls_pid := TCM_INVALID_PID, specificEid := 0\<rparr>) s3)) = Some s'"
      by (auto simp: run_simps)
    have i3: "sched_inv s3" "dheap s3 a = Some ?d" using s3 i2 by (auto split: if_splits dest!: FD_SET_eq)
    then have "wf_interest (evtInterestHead s3)" by (simp add: sched_inv_def)
    then show ?thesis using f3 inv_put[OF i3 ok(2)] wf_unregisterAll inv_interest[OF i3(1)]
      by (auto simp: run_simps split: if_splits intro!: inv_unlink)
  qed
qed

lemma inv_terminateApp [inv_intros]:
  "terminateApp C a s = Some s' \<Longrightarrow> sched_inv s \<Longrightarrow> sched_inv s'"
  by (auto simp: terminateApp_def run_simps split: if_splits intro: inv_collectApp inv_on_world_snd)

lemma inv_stopApp [inv_intros]:
  "stopApp C e s = Some s' \<Longrightarrow> sched_inv s \<Longrightarrow> sched_inv s'"
  by (auto simp: stopApp_def run_simps split: if_splits option.splits intro: inv_terminateApp)

lemma inv_footer [inv_intros]:
  "processMsgSimpleFooter C r rv m s = Some s' \<Longrightarrow> sched_inv s \<Longrightarrow> sched_inv s'"
  by (auto simp: processMsgSimpleFooter_def run_simps intro: inv_on_world_run)

lemma inv_routeMessage [inv_intros]:
  "sched_routeMessage C m s = Some s' \<Longrightarrow> sched_inv s \<Longrightarrow> sched_inv s'"
  by (auto simp: sched_routeMessage_def run_simps split: if_splits option.splits intro: inv_footer inv_send inv_getDlsInfo)

lemma inv_deliver [inv_intros]:
  "deliver_event C e m a s = Some s' \<Longrightarrow> sched_inv s \<Longrightarrow> sched_inv s'"
  by (auto simp: deliver_event_def run_simps split: option.splits dest: inv_on_world_run inv_send)

lemma inv_distribute_to [inv_intros]:
  "distribute_to C e src m xs s = Some s' \<Longrightarrow> sched_inv s \<Longrightarrow> sched_inv s'"
proof (induction xs arbitrary: s)
  case (Cons x xs)
  from Cons.prems(1) obtain t s1 s2 where s: "getDlsInfo C (i_eid x) s = Some (t, s1)"
    "(case t of None \<Rightarrow> Some s1
      | Some a \<Rightarrow> if src = Some a then Some s1
          else do { out \<leftarrow> filtered_out (matchData x) m; if out then Some s1 else deliver_event C e m a s1 }) = Some s2"
    "distribute_to C e src m xs s2 = Some s'"
    by (auto simp: bind_Some_iff)
  have i1: "sched_inv s1" using inv_getDlsInfo[OF s(1) Cons.prems(2)] .
  have "sched_inv s2"
  proof (cases t)
    case None
    then show ?thesis using s(2) i1 by simp
  next
    case (Some a)
    then show ?thesis using s(2) i1 by (auto simp: bind_Some_iff split: if_splits intro: inv_deliver)
  qed
  from Cons.IH[OF s(3) this] show ?case .
qed simp

lemma inv_distribute [inv_intros]:
  "sched_distributeEventMessage C m src s = Some s' \<Longrightarrow> sched_inv s \<Longrightarrow> sched_inv s'"
  by (auto simp: sched_distributeEventMessage_def run_simps split: option.splits intro: inv_distribute_to)

lemma inv_change_interest [inv_intros]:
  assumes "change_interest C m p s = Some (x, s')" and "sched_inv s"
  shows "sched_inv s'"
proof -
  have wf: "wf_interest (evtInterestHead s)" using assms(2) by (simp add: sched_inv_def)
  then show ?thesis using assms(1) inv_interest[OF assms(2) wf_register[OF _ wf]] inv_interest[OF assms(2) wf_unregister[OF _ wf]]
    by (fastforce simp: change_interest_def run_simps sched_inv_def split: if_splits)
qed

lemma inv_register [inv_intros]:
  assumes "sched_processRegisterEventInterest C a m p s = Some s'" and "sched_inv s"
  shows "sched_inv s'"
proof -
  from assms(1) obtain x s1 s2 d where s: "change_interest C m p s = Some (x, s1)"
    "processMsgSimpleFooter C (Some a) (ret_code TCMRET_SUCCESS) m s1 = Some s2" "dheap s2 a = Some d"
    "s' = put_dls a (d\<lparr>numEventInterestRequested := numEventInterestRequested d + x\<rparr>) s2"
    by (auto simp: sched_processRegisterEventInterest_def run_simps Let_def split: if_splits)
  have "sched_inv s2" using inv_footer[OF s(2) inv_change_interest[OF s(1) assms(2)]] .
  moreover from inv_dls_ok[OF this s(3)] have "dls_ok (d\<lparr>numEventInterestRequested := numEventInterestRequested d + x\<rparr>)"
    by (simp add: dls_ok_def)
  ultimately show ?thesis using s(3,4) by (auto intro: inv_put)
qed

lemma inv_set_opt_args [inv_intros]:
  assumes "set_opt_args a m s = Some s'" and "sched_inv s"
  shows "sched_inv s'"
proof -
  have "sched_inv (put_dls a (d\<lparr>optArgs := x\<rparr>) s)" if "dheap s a = Some d" "length x < DLS_OPT_ARGS_LENGTH" for d x
    using that inv_dls_ok[OF assms(2) that(1)] by (intro inv_put[OF assms(2) that(1)]) (simp add: dls_ok_def)
  then show ?thesis using assms by (auto simp: set_opt_args_def run_simps split: if_splits)
qed

lemma inv_startApp [inv_intros]:
  assumes "startApp C e m s = Some (p, s')" and "sched_inv s"
  shows "sched_inv s'"
proof (cases "tcmEid_getEntityInfo (entities C) (uint e)")
  case None
  then show ?thesis using assms by (simp add: startApp_def)
next
  case (Some i)
  with assms(1) obtain r s1 where s1: "(if has_flag i APPCFG_MULTIPLE_INSTANCES then getNewDlsInfo C e s else getDlsInfo C e s) = Some (r, s1)"
    and rest: "(case r of None \<Rightarrow> Some (TCM_INVALID_PID, s1)
          | Some a \<Rightarrow> do {
              s2 \<leftarrow> set_opt_args a m s1;
              d \<leftarrow> dheap s2 a;
              if dls_state d = DLS_NOT_RUNNING then do {
                s3 \<leftarrow> launchApp C a s2;
                d3 \<leftarrow> dheap s3 a;
                Some (dls_pid d3, s3) }
              else Some (TCM_INVALID_PID, s2) }) = Some (p, s')"
    by (auto simp: startApp_def bind_Some_iff simp del: split_paired_Ex)
  have i1: "sched_inv s1" using s1 assms(2) inv_getDlsInfo inv_getNewDlsInfo by (auto split: if_splits)
  show ?thesis
  proof (cases r)
    case None
    then show ?thesis using rest i1 by simp
  next
    case (Some a)
    with rest obtain s2 d where s2: "set_opt_args a m s1 = Some s2" "dheap s2 a = Some d"
      and fin: "(if dls_state d = DLS_NOT_RUNNING then do { s3 \<leftarrow> launchApp C a s2; d3 \<leftarrow> dheap s3 a; Some (dls_pid d3, s3) }
              else Some (TCM_INVALID_PID, s2)) = Some (p, s')"
      by (auto simp: bind_Some_iff simp del: split_paired_Ex)
    have i2: "sched_inv s2" using inv_set_opt_args[OF s2(1) i1] .
    show ?thesis using fin i2 inv_launchApp[OF _ i2 s2(2)] by (auto simp: run_simps split: if_splits)
  qed
qed

lemma inv_restart [inv_intros]:
  "sched_processRestartAppMsg C a m s = Some s' \<Longrightarrow> sched_inv s \<Longrightarrow> sched_inv s'"
  by (auto simp: sched_processRestartAppMsg_def run_simps intro: inv_footer[OF _ inv_startApp[OF _ inv_stopApp]])

lemma inv_processMessage [inv_intros]:
  "sched_processMessage C a m s = Some s' \<Longrightarrow> sched_inv s \<Longrightarrow> sched_inv s'"
  by (auto simp: sched_processMessage_def sched_processStartAppMsg_def sched_processStopAppMsg_def
      sched_processIsAppRuning_def run_simps split: if_splits
      intro: inv_restart inv_footer inv_startApp inv_stopApp inv_register inv_distribute inv_routeMessage inv_on_world_run)

section \<open>The loop\<close>

lemma inv_flush [inv_intros]: "flush_queue C fd ms s = Some s' \<Longrightarrow> sched_inv s \<Longrightarrow> sched_inv s'"
  by (induction ms arbitrary: s) (auto simp: run_simps dest: inv_on_world_run)

lemma inv_confirmation [inv_intros]:
  assumes "processLaunchConfirmation C a s = Some s'" and "sched_inv s"
  shows "sched_inv s'"
proof -
  from assms(1) obtain d s1 where d: "dheap s a = Some d"
    "FD_SET (dls_commFd d) (put_dls a (d\<lparr>dls_state := DLS_RUNNING, msgQueue := []\<rparr>) s) = Some s1"
    "flush_queue C (dls_commFd d) (msgQueue d) (UPDATE_MAXFD (dls_commFd d) s1) = Some s'"
    by (auto simp: processLaunchConfirmation_def run_simps)
  have "dls_ok (d\<lparr>dls_state := DLS_RUNNING, msgQueue := []\<rparr>)"
    using inv_dls_ok[OF assms(2) d(1)] by (simp add: dls_ok_def)
  from inv_FD_SET[OF d(2) inv_put[OF assms(2) d(1) this]] show ?thesis
    by (intro inv_flush[OF d(3)]) simp
qed

lemma inv_receive [inv_intros]: "receive_s C fd t s = Some (x, s') \<Longrightarrow> sched_inv s \<Longrightarrow> sched_inv s'"
  unfolding receive_s_def by (rule inv_on_world_run)

lemma inv_server_activity [inv_intros]:
  "server_activity C fd s = Some s' \<Longrightarrow> sched_inv s \<Longrightarrow> sched_inv s'"
  by (auto simp: server_activity_def run_simps split: option.splits if_splits intro: inv_launchApp)

lemma inv_comm_activity [inv_intros]:
  "comm_activity C fd s = Some s' \<Longrightarrow> sched_inv s \<Longrightarrow> sched_inv s'"
  by (auto simp: comm_activity_def run_simps split: option.splits if_splits
      dest: inv_receive inv_processMessage inv_collectApp)

lemma inv_confirm_launch [inv_intros]:
  assumes "confirm_launch C fd m s = Some s'" and "sched_inv s"
  shows "sched_inv s'"
proof -
  have p: "sched_inv s3" if "processLaunchConfirmation C a (put_dls a (d\<lparr>dls_commFd := fd\<rparr>) s2) = Some s3"
    "dheap s2 a = Some d" "sched_inv s2" for a d s2 and s3 :: "'a sched"
  proof -
    have "dls_ok (d\<lparr>dls_commFd := fd\<rparr>)" using inv_dls_ok[OF that(3,2)] by (simp add: dls_ok_def)
    from inv_confirmation[OF that(1) inv_put[OF that(3,2) this]] show ?thesis .
  qed
  from assms show ?thesis
    by (auto simp: confirm_launch_def run_simps split: option.splits if_splits dest: p inv_getDlsInfo)
qed

lemma inv_listen_activity [inv_intros]:
  "listen_activity C fd s = Some s' \<Longrightarrow> sched_inv s \<Longrightarrow> sched_inv s'"
  by (auto simp: listen_activity_def run_simps split: option.splits if_splits prod.splits
      dest: inv_on_world inv_receive inv_confirm_launch)

lemma inv_serve [inv_intros]: "serve_fds C ready is s = Some s' \<Longrightarrow> sched_inv s \<Longrightarrow> sched_inv s'"
proof (induction "is" arbitrary: s)
  case (Cons i "is")
  then show ?case
    by (auto simp: run_simps fd_activity_def split: if_splits
        dest: inv_server_activity inv_comm_activity inv_listen_activity)
qed simp

lemma inv_processEvents [inv_intros]:
  assumes "sched_processEvents C s = Some (ret, s')" and "sched_inv s"
  shows "sched_inv s'"
proof -
  obtain t s1 where s1: "timer_getTimeToNextEvent C s = Some (t, s1)"
    using assms(1) by (auto simp: sched_processEvents_def bind_Some_iff)
  have i1: "sched_inv s1"
    using s1 assms(2) by (auto simp: timer_getTimeToNextEvent_def run_simps split: prod.splits dest: inv_on_world)
  obtain rv ready s2 where s2: "select_events C (sleep_ms t) s1 = ((rv, ready), s2)"
    by (cases "select_events C (sleep_ms t) s1") auto
  have "sched_inv s2" using inv_on_world[OF s2[unfolded select_events_def] i1] .
  then show ?thesis using assms(1) s1 s2
    by (auto simp: sched_processEvents_def run_simps split: if_splits dest: inv_serve)
qed

lemma inv_handler_call:
  assumes "handler_call C f c (s, h) = Some (s', h')" and "sched_inv s"
  shows "sched_inv s'"
proof -
  let ?s = "s\<lparr>tmrHandle := Some h\<rparr>"
  obtain al s1 where s1: "on_world (k_alloc (kern C)) ?s = (al, s1)" by (cases "on_world (k_alloc (kern C)) ?s")
  have "sched_inv s1" using inv_on_world[OF s1] assms(2) by simp
  then show ?thesis using assms(1) s1
    by (auto simp: handler_call_def timer_timerHandlerFunc_def run_simps split: if_splits dest: inv_send)
qed

lemma inv_execute:
  assumes "tcmTmr_executeExpiredEvents (handler_call C) now sh = Some sh'" and "sched_inv (fst sh)"
  shows "sched_inv (fst sh')"
proof -
  have "call = handler_call C \<longrightarrow> sched_inv (fst sh) \<longrightarrow> sched_inv (fst sh')"
    if "tcmTmr_executeExpiredEvents call now sh = Some sh'" for call
    by (rule tcmTmr_executeExpiredEvents.raw_induct[where
          P = "\<lambda>call now sh y. call = handler_call C \<longrightarrow> sched_inv (fst sh) \<longrightarrow> sched_inv (fst y)", OF _ that])
      (auto simp: run_simps split: list.splits if_splits dest: inv_handler_call)
  with assms show ?thesis by simp
qed

lemma inv_timer_process [inv_intros]:
  "timer_process C s = Some s' \<Longrightarrow> sched_inv s \<Longrightarrow> sched_inv s'"
  by (auto simp: timer_process_def run_simps split: prod.splits dest!: inv_execute dest: inv_on_world)

lemma inv_step: "sched_step C s s' \<Longrightarrow> sched_inv s \<Longrightarrow> sched_inv s'"
  by (induction rule: sched_step.induct)
    (auto simp: sched_round_def run_simps terminalSignalHandler_def split: if_splits dest: inv_timer_process inv_processEvents)

lemma inv_steps: "(sched_step C)\<^sup>*\<^sup>* s s' \<Longrightarrow> sched_inv s \<Longrightarrow> sched_inv s'"
  by (induction rule: rtranclp_induct) (auto intro: inv_step)

section \<open>Start-up\<close>

lemma inv_stage1 [inv_intros]: "init_stage1 C is s = Some (ret, s') \<Longrightarrow> sched_inv s \<Longrightarrow> sched_inv s'"
  by (induction "is" arbitrary: s) (auto simp: run_simps split: if_splits dest: inv_insert)

lemma inv_stage2 [inv_intros]: "init_stage2 C is s = Some (ret, s') \<Longrightarrow> sched_inv s \<Longrightarrow> sched_inv s'"
  by (induction "is" arbitrary: s) (auto simp: run_simps split: if_splits dest: inv_insert)

lemma inv_initDls [inv_intros]: "initDls C n s = Some (ret, s') \<Longrightarrow> sched_inv s \<Longrightarrow> sched_inv s'"
  by (auto simp: initDls_def split: if_splits dest: inv_stage1 inv_stage2)

lemma inv_launch_list [inv_intros]: "launch_list C n as s = Some s' \<Longrightarrow> sched_inv s \<Longrightarrow> sched_inv s'"
proof (induction as arbitrary: s)
  case (Cons a as)
  have l: "sched_inv s3" if "launchApp C a s2 = Some s3" "dheap s2 a = Some d" "dls_state d = DLS_NOT_RUNNING" "sched_inv s2"
    for d and s2 s3 :: "'a sched" using inv_launchApp[OF that(1,4,2)] that(3) by simp
  obtain d where d: "dheap s a = Some d" using Cons.prems by (auto simp: run_simps)
  show ?case
  proof (cases "wants_stage n d")
    case False
    then show ?thesis using Cons d by simp
  next
    case True
    let ?start = "if has_flag (eInfo d) APPCFG_MESSAGING_CAPABLE
               then (case on_world (k_alloc (kern C)) s of (al, s1) \<Rightarrow>
                 if \<not> al then Some (False, s1)
                 else do { s2 \<leftarrow> sendMessageByAppState C a (boot_msg d) s1; Some (True, s2) })
               else Some (True, s)"
    from True Cons.prems(1) d obtain go s1 where g: "?start = Some (go, s1)"
      "(if \<not> go then Some s1
        else do {
          d1 \<leftarrow> dheap s1 a;
          s2 \<leftarrow> (if dls_state d1 = DLS_NOT_RUNNING \<or> dls_state d1 = DLS_TERMINATE_REQUESTED
                  then launchApp C a s1 else Some s1);
          launch_list C n as s2 }) = Some s'"
      by (auto simp: bind_Some_iff simp del: split_paired_Ex)
    have i1: "sched_inv s1" using g(1) Cons.prems(2)
      by (auto simp: run_simps split: if_splits prod.splits dest: inv_on_world inv_send)
    show ?thesis
    proof (cases go)
      case True
      with g(2) obtain d1 s2 where s2: "dheap s1 a = Some d1"
        "(if dls_state d1 = DLS_NOT_RUNNING \<or> dls_state d1 = DLS_TERMINATE_REQUESTED then launchApp C a s1 else Some s1) = Some s2"
        "launch_list C n as s2 = Some s'" by (auto simp: run_simps)
      have "dls_state d1 \<noteq> DLS_TERMINATE_REQUESTED" using inv_dls_ok[OF i1 s2(1)] by (simp add: dls_ok_def)
      then have "sched_inv s2" using s2(1,2) i1 l by (auto split: if_splits)
      from Cons.IH[OF s2(3) this] show ?thesis .
    qed (use g(2) i1 in simp)
  qed
qed simp

lemma inv_boot:
  assumes "sched_boot C (start_state w) = Some (up, s)"
  shows "sched_inv s"
proof -
  have st: "sched_inv (start_state w)" by (simp add: sched_inv_def start_state_def wf_interest_def)
  have ti: "timer_init C s = (r, s1) \<Longrightarrow> sched_inv s \<Longrightarrow> sched_inv s1" for s s1 :: "'a sched" and r
    by (auto simp: timer_init_def split: prod.splits dest: inv_on_world)
  have il: "init_launcher C s = Some (r, s1) \<Longrightarrow> sched_inv s \<Longrightarrow> sched_inv s1" for s s1 :: "'a sched" and r
  proof -
    assume a: "init_launcher C s = Some (r, s1)" "sched_inv s"
    obtain tr t where t: "timer_init C s = (tr, t)" by (cases "timer_init C s")
    obtain fd u where u: "on_world (init_schedServerSocket (kern C)) (t\<lparr>readFdsMaster := {}\<rparr>) = (fd, u)"
      by (cases "on_world (init_schedServerSocket (kern C)) (t\<lparr>readFdsMaster := {}\<rparr>)")
    have i: "sched_inv u" using inv_on_world[OF u] ti[OF t a(2)] by simp
    have d: "sched_inv v" if "initDls C 1 (UPDATE_MAXFD fd x) = Some (z, v)" "FD_SET fd (u\<lparr>ipcListenFd := fd\<rparr>) = Some x" for x z v
      using inv_initDls[OF that(1)] inv_FD_SET[OF that(2)] i by simp
    from a(1) t u i show "sched_inv s1"
      by (auto simp: init_launcher_def Let_def run_simps simp del: One_nat_def split: if_splits dest: d)
  qed
  have al: "app_launcher C n s = Some (r, s1) \<Longrightarrow> sched_inv s \<Longrightarrow> sched_inv s1" for s s1 :: "'a sched" and r n
    by (auto simp: app_launcher_def run_simps dest: inv_launch_list)
  have i2: "sched_inv s2" if "app_launcher C n s1 = Some (r, s2)" "init_launcher C (start_state w) = Some (r', s1)" for n r r' s1 s2
    using al[OF that(1) il[OF that(2) st]] .
  have i3: "sched_inv s3" if "initDls C k s2 = Some (q, s3)" "app_launcher C n s1 = Some (r, s2)" "init_launcher C (start_state w) = Some (r', s1)"
    for n k q r r' s1 s2 s3 using inv_initDls[OF that(1) i2[OF that(2,3)]] .
  from assms st show ?thesis
    by (auto simp: sched_boot_def run_simps split: if_splits dest: il i2 i3 al[OF _ i3])
qed

end
