(* ===== verification/Sched_Props.thy ===== *)
theory Sched_Props
  imports Sched_Inv Message_Props
begin

text \<open>
  What the scheduler promises, and where it does not keep it: the invariant of all reachable
  states, delivery of messages and events, termination of a round of timers, the start-up with
  the shipped table, and the behaviour of single handlers that goes wrong.
\<close>

section \<open>Calls that return\<close>

text \<open>What a delivery leaves alone: the timers, and of the records everything but the state of the launch.\<close>

definition send_frame :: "'w sched \<Rightarrow> 'w sched \<Rightarrow> bool" where
  "send_frame s s' \<longleftrightarrow> timerInfoList s' = timerInfoList s \<and> tmrHandle s' = tmrHandle s \<and>
     dlsInfoHead s' = dlsInfoHead s \<and> evtInterestHead s' = evtInterestHead s \<and>
     (\<forall>a. map_option (\<lambda>d. (eInfo d, serverFd d)) (dheap s' a) = map_option (\<lambda>d. (eInfo d, serverFd d)) (dheap s a))"

definition server_fds_ok :: "'w sched \<Rightarrow> bool" where
  "server_fds_ok s \<longleftrightarrow> (\<forall>a d. dheap s a = Some d \<and> (has_flag (eInfo d) APPCFG_SERVER \<or> eid (eInfo d) = ID_CONSOLE) \<longrightarrow>
     0 \<le> serverFd d \<and> serverFd d < FD_SETSIZE)"

lemma server_fds_frame [simp]:
  "server_fds_ok (s\<lparr>world := w\<rparr>) = server_fds_ok s" "server_fds_ok (s\<lparr>tmrHandle := h\<rparr>) = server_fds_ok s"
  by (simp_all add: server_fds_ok_def)

lemma spawn_returns:
  assumes "\<And>w. fst (k_alloc K w)" and "spawnMode si = SPAWN_AND_RETURN"
  shows "\<exists>info w'. prctl_spawnProcess K si w = Some ((TCMRET_SUCCESS, Some info), w')"
proof -
  obtain w1 j where a: "parseArgs K (exe si) (args si) w = Some (TCMRET_SUCCESS,
    map Some (command_name (exe si) # words (case args si of None \<Rightarrow> [] | Some x \<Rightarrow> x)) @ replicate (Suc j) None, w1)"
    using parseArgs_words[OF assms(1)] by blast
  obtain p w2 where "k_fork K (exe si) (argv_of (map Some (command_name (exe si) # words (case args si of None \<Rightarrow> [] | Some x \<Rightarrow> x)) @ replicate (Suc j) None)) w1 = (p, w2)"
    by (meson surj_pair)
  then show ?thesis using a assms(2) freeArgs_ok[of "command_name (exe si) # words (case args si of None \<Rightarrow> [] | Some x \<Rightarrow> x)" j]
    by (simp add: prctl_spawnProcess_def)
qed

lemma after_spawn_same: "eInfo (after_spawn d ret info) = eInfo d" "serverFd (after_spawn d ret info) = serverFd d"
  by (simp_all add: after_spawn_def Let_def)

lemma launch_returns:
  assumes "\<And>w. fst (k_alloc (kern C) w)" and "dheap s a = Some d" and "server_fds_ok s"
  shows "\<exists>s'. launchApp C a s = Some s' \<and> send_frame s s'"
proof (cases "ei_path (eInfo d) = []")
  case True
  then show ?thesis using assms(2) by (auto simp: launchApp_def send_frame_def)
next
  case False
  let ?si = "\<lparr>exe = take 1023 (ei_path (eInfo d)), args = Some (launch_args d), spawnMode = SPAWN_AND_RETURN, si_timeout = 0\<rparr>"
  obtain info w' where w': "prctl_spawnProcess (kern C) ?si (world s) = Some ((TCMRET_SUCCESS, Some info), w')"
    using spawn_returns[OF assms(1), of ?si "world s"] by auto
  have "send_frame s (put_dls a (after_spawn d TCMRET_SUCCESS (Some info)) (s\<lparr>world := w'\<rparr>))"
    using assms(2) by (simp add: send_frame_def put_dls_def after_spawn_same)
  moreover have "has_flag (eInfo d) APPCFG_SERVER \<or> eid (eInfo d) = ID_CONSOLE \<Longrightarrow> 0 \<le> serverFd d \<and> serverFd d < FD_SETSIZE"
    using assms(2,3) by (simp add: server_fds_ok_def)
  ultimately show ?thesis using False assms(2) w'
    by (auto simp: launchApp_def on_world_run_def FD_CLR_def send_frame_def Let_def)
qed

lemma send_returns:
  assumes "\<And>w. fst (k_alloc (kern C) w)" and "dheap s a = Some d" and "server_fds_ok s" and "msg_bytes m \<noteq> None"
  shows "\<exists>s'. sendMessageByAppState C a m s = Some s' \<and> send_frame s s'"
proof (cases "dls_state d")
  case DLS_NOT_RUNNING
  let ?s = "put_dls a (d\<lparr>msgQueue := m # msgQueue d\<rparr>) s"
  have "dheap ?s a = Some (d\<lparr>msgQueue := m # msgQueue d\<rparr>)" "server_fds_ok ?s"
    using assms(2,3) by (auto simp: server_fds_ok_def)
  from launch_returns[OF assms(1) this] obtain s' where s': "launchApp C a ?s = Some s'" "send_frame ?s s'" by blast
  have "send_frame s s'" using s'(2) assms(2) by (auto simp: send_frame_def put_dls_def split: if_splits)
  then show ?thesis using s' DLS_NOT_RUNNING assms(2) by (simp add: sendMessageByAppState_def queuemsg_def)
next
  case DLS_RUNNING
  have "\<exists>r. tcmMsg_sendBySocket (kern C) (dls_commFd d) m (world s) = Some r"
    using assms(4) by (auto simp: tcmMsg_sendBySocket_def oalMsg_send_def split: prod.split)
  then obtain ret w' where "tcmMsg_sendBySocket (kern C) (dls_commFd d) m (world s) = Some (ret, w')" by force
  then show ?thesis using DLS_RUNNING assms(2)
    by (auto simp: sendMessageByAppState_def on_world_run_def send_frame_def)
qed (use assms(2) in \<open>auto simp: sendMessageByAppState_def queuemsg_def send_frame_def put_dls_def\<close>)

lemma send_frame_fds: "send_frame s s' \<Longrightarrow> server_fds_ok s \<Longrightarrow> server_fds_ok s'"
proof -
  assume f: "send_frame s s'" and ok: "server_fds_ok s"
  have "\<exists>d. dheap s a = Some d \<and> eInfo d = eInfo d' \<and> serverFd d = serverFd d'" if "dheap s' a = Some d'" for a d'
  proof -
    have "map_option (\<lambda>d. (eInfo d, serverFd d)) (dheap s a) = Some (eInfo d', serverFd d')"
      using f that unfolding send_frame_def by (metis option.simps(9))
    then show ?thesis by auto
  qed
  with ok show "server_fds_ok s'" unfolding server_fds_ok_def by metis
qed

section \<open>A round of timers\<close>

text \<open>
  Every timer is the scheduler's own and has its information, memory is available and the descriptors of
  servers are in range. Whether the application of a timer still has its record is another matter:
  \<open>collectApp\<close> frees the record of a multiple-instance application and leaves its timers set.
\<close>

definition timers_ok :: "'w config \<Rightarrow> 'w sched \<Rightarrow> tcmTimerEvent list \<Rightarrow> bool" where
  "timers_ok C s evs \<longleftrightarrow> (\<forall>w. fst (k_alloc (kern C) w)) \<and> server_fds_ok s \<and>
     (\<forall>e \<in> set evs. func e = HANDLER \<and> tmr_info (ctxData e) s \<noteq> None)"

definition has_record :: "'w sched \<Rightarrow> tcmTimerEvent \<Rightarrow> bool" where
  "has_record s e \<longleftrightarrow> (\<exists>t. tmr_info (ctxData e) s = Some t \<and> dheap s (ti_ctx t) \<noteq> None)"

lemma delayed_bytes: "msg_bytes (delayed_msg d i) \<noteq> None"
  by (simp add: msg_bytes_def delayed_msg_def put_flag_def EMPTY_MSG_HEADER_def totalLen_def sizeof_tcmMsgHeader_def)

lemma handler_returns:
  assumes "timers_ok C s (e # es)" and "has_record s e"
  shows "\<exists>s'. handler_call C (func e) (ctxData e) (s, h) = Some (s', h) \<and> timers_ok C s' es \<and> has_record s' = has_record s"
proof -
  from assms(1) have al: "\<And>w. fst (k_alloc (kern C) w)" and fds: "server_fds_ok s" and f: "func e = HANDLER"
    by (auto simp: timers_ok_def)
  from assms obtain t d where t: "tmr_info (ctxData e) s = Some t" "dheap s (ti_ctx t) = Some d"
    by (auto simp: has_record_def)
  let ?s = "s\<lparr>tmrHandle := Some h\<rparr>"
  obtain w1 where w1: "k_alloc (kern C) (world s) = (True, w1)" using alloc_ok[OF al] by blast
  let ?s1 = "?s\<lparr>world := w1\<rparr>"
  have "dheap ?s1 (ti_ctx t) = Some d" "server_fds_ok ?s1" using t fds by simp_all
  from send_returns[OF al this delayed_bytes] obtain s' where
    s': "sendMessageByAppState C (ti_ctx t) (delayed_msg d (ti_id t)) ?s1 = Some s'" "send_frame ?s1 s'" by blast
  have tmr: "tmr_info x s' = tmr_info x s" for x using s'(2) by (simp add: tmr_info_def send_frame_def)
  have heap: "dheap s' a = None \<longleftrightarrow> dheap s a = None" for a
  proof -
    have "map_option (\<lambda>d. (eInfo d, serverFd d)) (dheap s' a) = map_option (\<lambda>d. (eInfo d, serverFd d)) (dheap s a)"
      using s'(2) by (simp add: send_frame_def)
    then show ?thesis by (cases "dheap s' a"; cases "dheap s a") auto
  qed
  have "server_fds_ok s'" using send_frame_fds[OF s'(2)] fds by simp
  with tmr assms(1) have "timers_ok C s' es" by (simp add: timers_ok_def)
  moreover have "has_record s' = has_record s" unfolding has_record_def fun_eq_iff tmr using heap by simp
  moreover have "tmrHandle s' = Some h" using s'(2) by (simp add: send_frame_def)
  ultimately show ?thesis using f t w1 s'(1)
    by (simp add: handler_call_def timer_timerHandlerFunc_def tmr_info_def on_world_def)
qed

lemma handler_without_record:
  assumes "\<not> has_record s e"
  shows "handler_call C f (ctxData e) (s, h) = None"
  using assms by (cases "map_of (timerInfoList s) (ctxData e)")
    (simp_all add: handler_call_def timer_timerHandlerFunc_def tmr_info_def has_record_def)

interpretation sched_timers: timer_handlers "handler_call C" now
    "\<lambda>s evs. timers_ok C s evs \<and> (\<forall>e \<in> set evs. expireTms e < now \<longrightarrow> has_record s e)" for C :: "'w config" and now
proof unfold_locales
  fix s :: "'w sched" and h e es
  assume ok: "timers_ok C s (events h) \<and> (\<forall>e \<in> set (events h). expireTms e < now \<longrightarrow> has_record s e)"
    and wf: "wf_timers h" and ev: "events h = e # es" and due: "expireTms e < now"
  let ?h = "\<lparr>events = es, numEvents = numEvents h - 1\<rparr>"
  from handler_returns[of C s e es ?h] ok ev due obtain s' where
    "handler_call C (func e) (ctxData e) (s, ?h) = Some (s', ?h)" "timers_ok C s' es" "has_record s' = has_record s" by auto
  with wf_timers_tl[OF ev wf] ok ev show "\<exists>s' h'. handler_call C (func e) (ctxData e) (s, ?h) = Some (s', h') \<and>
      (timers_ok C s' (events h') \<and> (\<forall>e \<in> set (events h'). expireTms e < now \<longrightarrow> has_record s' e)) \<and> wf_timers h' \<and>
      set (filter (\<lambda>x. expireTms x < now) (events h')) \<subseteq> set (filter (\<lambda>x. expireTms x < now) es)"
    by (intro exI[of _ s'] exI[of _ ?h]) simp
qed

lemma round_meets_freed_record:
  assumes "timers_ok C s (events h)" and "wf_timers h" and "e \<in> set (events h)" and "expireTms e < now" and "\<not> has_record s e"
  shows "tcmTmr_executeExpiredEvents (handler_call C) now (s, h) = None"
  using assms
proof (induction "events h" arbitrary: s h)
  case (Cons x xs)
  let ?h = "\<lparr>events = xs, numEvents = numEvents h - 1\<rparr>"
  have "expireTms x \<le> expireTms e" using Cons.prems(2,3) unfolding wf_timers_def Cons.hyps(2)[symmetric] by auto
  then have due: "expireTms x < now" using Cons.prems(4) by simp
  show ?case
  proof (cases "has_record s x")
    case False
    then show ?thesis using due handler_without_record[OF False]
      by (simp add: tcmTmr_executeExpiredEvents.simps[of _ now "(s, h)"] Cons.hyps(2)[symmetric] earlier_less)
  next
    case True
    with handler_returns[of C s x xs ?h] Cons.prems(1) obtain s' where
      s': "handler_call C (func x) (ctxData x) (s, ?h) = Some (s', ?h)" "timers_ok C s' xs" "has_record s' = has_record s"
      unfolding Cons.hyps(2)[symmetric] by blast
    have "e \<in> set xs" using True Cons.prems(3,5) Cons.hyps(2)[symmetric] by auto
    with Cons.hyps(1)[of ?h s'] s' wf_timers_tl[OF Cons.hyps(2)[symmetric] Cons.prems(2)] Cons.prems(4,5)
    have "tcmTmr_executeExpiredEvents (handler_call C) now (s', ?h) = None" by simp
    then show ?thesis using due s'(1)
      by (simp add: tcmTmr_executeExpiredEvents.simps[of _ now "(s, h)"] Cons.hyps(2)[symmetric] earlier_less)
  qed
qed simp

text \<open>C32. A round of timers returns exactly when no timer has expired whose application has lost its
  record: with memory available, timers that are the scheduler's own and server descriptors in range,
  \<open>timer_process\<close> then ends, leaves the queue well-formed and leaves no timer that has expired; with an
  expired timer of a freed record, which \<open>collectApp\<close> leaves behind when a multiple-instance application stops, it
  reads the freed record.\<close>

theorem timer_process_ends:
  assumes "tmrHandle s = Some h" and "wf_timers h" and "timers_ok C s (events h)"
    and "k_now (kern C) (world s) = (now, w)"
  shows "if \<forall>e \<in> set (due now h). has_record s e
    then \<exists>s' h'. timer_process C s = Some s' \<and> tmrHandle s' = Some h' \<and> wf_timers h' \<and> due now h' = []
    else timer_process C s = None"
proof -
  let ?s = "s\<lparr>world := w\<rparr>"
  have ok: "timers_ok C ?s (events h)" using assms(3) by (simp add: timers_ok_def tmr_info_def)
  have rec: "has_record ?s = has_record s" by (simp add: fun_eq_iff has_record_def tmr_info_def)
  show ?thesis
  proof (cases "\<forall>e \<in> set (due now h). has_record s e")
    case True
    then have "timers_ok C ?s (events h) \<and> (\<forall>e \<in> set (events h). expireTms e < now \<longrightarrow> has_record ?s e)"
      using ok rec by (simp add: due_def)
    from sched_timers.round_ends[OF this assms(2)] True show ?thesis
      using assms(1,4) by (auto simp: timer_process_def on_world_def due_def filter_empty_conv)
  next
    case False
    then obtain e where "e \<in> set (events h)" "expireTms e < now" "\<not> has_record ?s e" using rec by (auto simp: due_def)
    from round_meets_freed_record[OF ok assms(2) this] False show ?thesis
      using assms(1,4) by (auto simp: timer_process_def on_world_def)
  qed
qed

section \<open>Sample configurations\<close>

definition sample_entity :: "int \<Rightarrow> 16 word \<Rightarrow> tcmEntityInfo" where
  "sample_entity e f = \<lparr>eid = e, ei_name = ''app'', ei_path = ''/bin/app'', runArgs = '''', ei_flags = f, backLog = 0,
     port = 0, featureCompiled = True, app_maxnum = 1, row_paras = None, row_maxnum = 0, row_end = 0\<rparr>"

definition sample_config :: "16 word \<Rightarrow> (char list \<times> char list) config" where
  "sample_config f = \<lparr>kern = duplex_kernel, entities = [sample_entity 1 f, sample_entity 2 f], nul_end = True\<rparr>"

text \<open>One record of the first entity at address 1.\<close>

definition sample_dls :: "16 word \<Rightarrow> DlsState \<Rightarrow> int \<Rightarrow> DlsInfo" where
  "sample_dls f st fd = (new_dls (sample_entity 1 f) 1)\<lparr>dls_state := st, dls_commFd := fd\<rparr>"

definition sample_state :: "DlsInfo \<Rightarrow> (char list \<times> char list) sched" where
  "sample_state d = (start_state ([], []))\<lparr>dheap := [1 \<mapsto> d], dlsInfoHead := [1], next_ptr := 2\<rparr>"

lemma duplex_calls [simp]:
  "k_alloc duplex_kernel w = (True, w)" "k_now duplex_kernel w = (Tms 0 0, w)" "k_close duplex_kernel fd w = w"
  "k_fork duplex_kernel e a w = (100, w)" "k_kill duplex_kernel p sig w = (0, w)" "k_usleep duplex_kernel t w = w"
  by (simp_all add: duplex_kernel_def quiet_kernel_def)

definition sample_timers :: tcmTimerHandle where
  "sample_timers = \<lparr>events = [\<lparr>expireTms = Tms 0 0, func = HANDLER, ctxData = 7, ev_name = ''''\<rparr>], numEvents = 1\<rparr>"

lemma sample_timers_ok:
  "wf_timers sample_timers"
  "timers_ok (sample_config 0x40) ((sample_state (sample_dls 0x40 DLS_LAUNCHED 5))
      \<lparr>tmrHandle := Some sample_timers, timerInfoList := [(7, \<lparr>ti_id = 3, ti_ctx = x\<rparr>)]\<rparr>) (events sample_timers)"
  by (simp_all add: wf_timers_def timers_ok_def sample_config_def sample_timers_def tmr_info_def sample_state_def server_fds_ok_def
        sample_dls_def new_dls_def sample_entity_def has_flag_def APPCFG_SERVER_def ID_CONSOLE_def start_state_def)

text \<open>The clock that has passed the sample timer; the record at address 1 is there, at address 2 it is not.\<close>

definition late_config :: "(char list \<times> char list) config" where
  "late_config = (sample_config 0x40)\<lparr>kern := duplex_kernel\<lparr>k_now := \<lambda>w. (Tms 1 0, w)\<rparr>\<rparr>"

theorem timer_process_ends_witness:
  "(\<exists>s' h'. timer_process late_config ((sample_state (sample_dls 0x40 DLS_LAUNCHED 5))
      \<lparr>tmrHandle := Some sample_timers, timerInfoList := [(7, \<lparr>ti_id = 3, ti_ctx = 1\<rparr>)]\<rparr>) = Some s' \<and>
      tmrHandle s' = Some h' \<and> wf_timers h' \<and> due (Tms 1 0) h' = []) \<and>
   timer_process late_config ((sample_state (sample_dls 0x40 DLS_LAUNCHED 5))
      \<lparr>tmrHandle := Some sample_timers, timerInfoList := [(7, \<lparr>ti_id = 3, ti_ctx = 2\<rparr>)]\<rparr>) = None"
proof -
  let ?s = "\<lambda>x. (sample_state (sample_dls 0x40 DLS_LAUNCHED 5))
      \<lparr>tmrHandle := Some sample_timers, timerInfoList := [(7, \<lparr>ti_id = 3, ti_ctx = x\<rparr>)]\<rparr>"
  have "timers_ok late_config (?s x) (events sample_timers)" for x
    using sample_timers_ok(2)[of x] by (simp add: timers_ok_def late_config_def sample_config_def)
  moreover have "k_now (kern late_config) (world (?s x)) = (Tms 1 0, world (?s x))" for x by (simp add: late_config_def)
  ultimately have *: "if \<forall>e \<in> set (due (Tms 1 0) sample_timers). has_record (?s x) e
    then \<exists>s' h'. timer_process late_config (?s x) = Some s' \<and> tmrHandle s' = Some h' \<and> wf_timers h' \<and> due (Tms 1 0) h' = []
    else timer_process late_config (?s x) = None" for x
    using timer_process_ends[of "?s x" sample_timers late_config "Tms 1 0" "world (?s x)"] sample_timers_ok(1) by simp
  have r: "(\<forall>e \<in> set (due (Tms 1 0) sample_timers). has_record (?s x) e) \<longleftrightarrow> x = 1" for x
    by (simp add: due_def sample_timers_def less_tcmTimestamp_def IS_EARLIER_THAN_def has_record_def tmr_info_def sample_state_def start_state_def)
  have "(2::nat) \<noteq> 1" by simp
  with *[of 1, unfolded r] *[of 2, unfolded r] show ?thesis by (simp only: if_True if_False refl simp_thms)
qed

section \<open>Delivery\<close>

fun deliver_all :: "'w config \<Rightarrow> nat \<Rightarrow> tcmMsgHeader list \<Rightarrow> 'w sched \<Rightarrow> 'w sched run" where
  "deliver_all C a [] s = Some s"
| "deliver_all C a (m # ms) s = do { s1 \<leftarrow> sendMessageByAppState C a m s; deliver_all C a ms s1 }"

fun send_each :: "'w kernel \<Rightarrow> int \<Rightarrow> tcmMsgHeader list \<Rightarrow> 'w \<Rightarrow> 'w run" where
  "send_each K fd [] w = Some w"
| "send_each K fd (m # ms) w = do { (ret, w1) \<leftarrow> oalMsg_send K fd m w; send_each K fd ms w1 }"

lemma flush_sends:
  "send_each (kern C) fd ms (world s) = Some w \<Longrightarrow> flush_queue C fd ms s = Some (s\<lparr>world := w\<rparr>)"
proof (induction ms arbitrary: s)
  case (Cons m ms)
  then obtain ret w1 where w1: "oalMsg_send (kern C) fd m (world s) = Some (ret, w1)" "send_each (kern C) fd ms w1 = Some w"
    by (auto simp: run_simps)
  with Cons.IH[of "s\<lparr>world := w1\<rparr>"] show ?case by (simp add: on_world_run_def tcmMsg_sendBySocket_def)
qed simp

lemma deliver_queues:
  assumes "dheap s a = Some d" and "dls_state d = DLS_LAUNCHED"
  shows "deliver_all C a ms s = Some (put_dls a (d\<lparr>msgQueue := rev ms @ msgQueue d\<rparr>) s)"
  using assms
proof (induction ms arbitrary: s d)
  case Nil
  then show ?case by (simp add: put_dls_def fun_upd_idem)
next
  case (Cons m ms)
  let ?d = "d\<lparr>msgQueue := m # msgQueue d\<rparr>"
  have "deliver_all C a ms (put_dls a ?d s) = Some (put_dls a (?d\<lparr>msgQueue := rev ms @ msgQueue ?d\<rparr>) (put_dls a ?d s))"
    by (rule Cons.IH) (use Cons.prems in simp_all)
  then show ?case using Cons.prems by (simp add: sendMessageByAppState_def queuemsg_def put_dls_def)
qed

text \<open>C30. Messages for an application that has been launched but has not connected yet wait in its
  queue and are all delivered when it connects, over its new connection, none lost and none
  twice, but the last one first: the queue is a stack.\<close>

theorem launch_delivers_newest_first:
  assumes "dheap s a = Some d" and "dls_state d = DLS_LAUNCHED" and "msgQueue d = []"
    and "0 \<le> fd" and "fd < FD_SETSIZE" and "send_each (kern C) fd (rev ms) (world s) = Some w"
  shows "\<exists>s1 d1 s2. deliver_all C a ms s = Some s1 \<and> world s1 = world s \<and> dheap s1 a = Some d1 \<and>
    processLaunchConfirmation C a (put_dls a (d1\<lparr>dls_commFd := fd\<rparr>) s1) = Some s2 \<and> world s2 = w \<and>
    dheap s2 a = Some (d\<lparr>dls_commFd := fd, dls_state := DLS_RUNNING\<rparr>) \<and> fd \<in> readFdsMaster s2"
proof -
  let ?d1 = "d\<lparr>msgQueue := rev ms\<rparr>"
  let ?s1 = "put_dls a ?d1 s"
  let ?d2 = "?d1\<lparr>dls_commFd := fd, dls_state := DLS_RUNNING, msgQueue := []\<rparr>"
  let ?s2 = "UPDATE_MAXFD fd ((put_dls a ?d2 (put_dls a (?d1\<lparr>dls_commFd := fd\<rparr>) ?s1))\<lparr>readFdsMaster := insert fd (readFdsMaster s)\<rparr>)"
  have q: "deliver_all C a ms s = Some ?s1" using deliver_queues[OF assms(1,2), of C ms] assms(3) by simp
  have "flush_queue C fd (rev ms) ?s2 = Some (?s2\<lparr>world := w\<rparr>)"
    using assms(6) by (intro flush_sends) (simp add: UPDATE_MAXFD_def put_dls_def)
  then have p: "processLaunchConfirmation C a (put_dls a (?d1\<lparr>dls_commFd := fd\<rparr>) ?s1) = Some (?s2\<lparr>world := w\<rparr>)"
    using assms(4,5) by (simp add: processLaunchConfirmation_def FD_SET_def put_dls_def)
  have "d\<lparr>dls_commFd := fd, dls_state := DLS_RUNNING\<rparr> = ?d2" using assms(3) by simp
  then show ?thesis using q p
    by (intro exI[of _ ?s1] exI[of _ ?d1] exI[of _ "?s2\<lparr>world := w\<rparr>"]) (simp add: UPDATE_MAXFD_def put_dls_def)
qed

theorem launch_delivers_newest_first_witness:
  "\<exists>s1 d1 s2. deliver_all (sample_config 0x40) 1 [demo_request, demo_event] (sample_state (sample_dls 0x40 DLS_LAUNCHED (- 1))) = Some s1 \<and>
     dheap s1 1 = Some d1 \<and> processLaunchConfirmation (sample_config 0x40) 1 (put_dls 1 (d1\<lparr>dls_commFd := 9\<rparr>) s1) = Some s2 \<and>
     world s2 = ([], header_bytes demo_event @ header_bytes demo_request)"
proof -
  let ?s = "sample_state (sample_dls 0x40 DLS_LAUNCHED (- 1))" and ?d = "sample_dls 0x40 DLS_LAUNCHED (- 1)"
  have "dheap ?s 1 = Some ?d" "dls_state ?d = DLS_LAUNCHED" "msgQueue ?d = []" "(0::int) \<le> 9" "9 < FD_SETSIZE"
    by (simp_all add: sample_state_def sample_dls_def new_dls_def FD_SETSIZE_def)
  moreover have "send_each (kern (sample_config 0x40)) 9 (rev [demo_request, demo_event]) (world ?s) =
      Some ([], header_bytes demo_event @ header_bytes demo_request)"
    using duplex_send[of demo_request] duplex_send[of demo_event]
    by (simp add: sample_config_def sample_state_def start_state_def demo_request_def demo_event_def EMPTY_MSG_HEADER_def)
  ultimately show ?thesis
    using launch_delivers_newest_first[of ?s 1 ?d 9 "sample_config 0x40" "[demo_request, demo_event]"] by blast
qed

text \<open>A message that asks to be bounced and whose receiver does not run comes back to its sender,
  with its addresses swapped, marked as a response and with the code for bounced; nothing is
  launched or queued. If the sender has no record, the code follows \<^verbatim>\<open>NULL\<close>.\<close>

theorem bounce_returns_to_sender:
  assumes "sched_inv s" and "flags_bounceIfNotRunning m" and "\<not> flags_event m"
    and "getExistingDlsInfo (msg_dst m) s = Some r" and "not_running r s = Some True"
    and "oalMsg_send (kern C) (dls_commFd d) (footer_msg TCM_MSG_BOUNCED m) (world s) = Some (ret, w)"
  shows "(getExistingDlsInfo (msg_src m) s = Some (Some b) \<and> dheap s b = Some d \<longrightarrow>
      sched_routeMessage C m s = Some (s\<lparr>world := w\<rparr>)) \<and>
    ((\<forall>b \<in> set (dlsInfoHead s). \<not> has_eid (msg_src m) (the (dheap s b))) \<longrightarrow> sched_routeMessage C m s = None)"
proof (intro conjI impI)
  show "sched_routeMessage C m s = Some (s\<lparr>world := w\<rparr>)"
    if "getExistingDlsInfo (msg_src m) s = Some (Some b) \<and> dheap s b = Some d"
    using that assms(2-) by (simp add: sched_routeMessage_def processMsgSimpleFooter_def on_world_run_def tcmMsg_sendBySocket_def)
  assume none: "\<forall>b \<in> set (dlsInfoHead s). \<not> has_eid (msg_src m) (the (dheap s b))"
  have "set (dlsInfoHead s) \<subseteq> dom (dheap s)" using assms(1) by (simp add: sched_inv_def)
  from find_dls_defined[OF this, of "has_eid (msg_src m)"] obtain q where
    q: "getExistingDlsInfo (msg_src m) s = Some q" unfolding getExistingDlsInfo_def by blast
  have "q = None"
    using q none find_dls_Some[of "dheap s" "has_eid (msg_src m)" "dlsInfoHead s"]
    by (cases q) (fastforce simp: getExistingDlsInfo_def)+
  with q show "sched_routeMessage C m s = None"
    using assms(2-5) by (simp add: sched_routeMessage_def processMsgSimpleFooter_def)
qed

theorem bounce_returns_to_sender_witness:
  "\<exists>w. sched_routeMessage (sample_config 0x40) (put_flag 4 True (demo_request\<lparr>msg_dst := 2\<rparr>))
       (sample_state (sample_dls 0x40 DLS_RUNNING 9)) =
     Some ((sample_state (sample_dls 0x40 DLS_RUNNING 9))\<lparr>world := w\<rparr>)"
proof -
  let ?s = "sample_state (sample_dls 0x40 DLS_RUNNING 9)" and ?d = "sample_dls 0x40 DLS_RUNNING 9"
  let ?m = "put_flag 4 True (demo_request\<lparr>msg_dst := 2\<rparr>)"
  note d = sample_state_def sample_dls_def new_dls_def start_state_def sample_entity_def has_flag_def demo_request_def
    EMPTY_MSG_HEADER_def put_flag_def
  have i: "sched_inv ?s"
    by (auto simp: sched_inv_def d dls_ok_def DLS_OPT_ARGS_LENGTH_def wf_interest_def)
  have f: "flags_bounceIfNotRunning ?m" "\<not> flags_event ?m"
    by (simp_all add: flags_bounceIfNotRunning_def flags_event_def d bit_simps)
  have g: "getExistingDlsInfo (msg_dst ?m) ?s = Some None" "not_running None ?s = Some True"
    "getExistingDlsInfo (msg_src ?m) ?s = Some (Some 1)" "dheap ?s 1 = Some ?d"
    by (simp_all add: getExistingDlsInfo_def has_eid_def not_running_def d APPCFG_MULTIPLE_INSTANCES_def)
  obtain w where "oalMsg_send (kern (sample_config 0x40)) (dls_commFd ?d) (footer_msg TCM_MSG_BOUNCED ?m) (world ?s) = Some (TCMRET_SUCCESS, w)"
    using duplex_send[of "footer_msg TCM_MSG_BOUNCED ?m" "dls_commFd ?d" "[]" "[]"]
    by (simp add: sample_config_def sample_state_def start_state_def footer_msg_def put_flag_def)
  from bounce_returns_to_sender[OF i f g(1,2) this, of 1] g(3,4) show ?thesis by blast
qed

section \<open>Events\<close>

fun send_pairs :: "'w kernel \<Rightarrow> (int \<times> tcmMsgHeader) list \<Rightarrow> 'w \<Rightarrow> 'w run" where
  "send_pairs K [] w = Some w"
| "send_pairs K (p # ps) w = do { (ret, w1) \<leftarrow> oalMsg_send K (fst p) (snd p) w; send_pairs K ps w1 }"

text \<open>The record an interested entity has, and the copy of an event that it gets.\<close>

definition target :: "'w sched \<Rightarrow> UINT32 \<Rightarrow> nat" where
  "target s e = the (the (getExistingDlsInfo e s))"

definition event_copy :: "'w sched \<Rightarrow> tcmMsgHeader \<Rightarrow> EvtInterestInfo \<Rightarrow> int \<times> tcmMsgHeader" where
  "event_copy s m x =
     (let d = the (dheap s (target s (i_eid x))) in
      (dls_commFd d, m\<lparr>mdata := take (unat (dataLength m)) (mdata m),
         msg_dst := (if has_flag (eInfo d) APPCFG_MULTIPLE_INSTANCES then specificEid d else of_int (eid (eInfo d)))\<rparr>))"

definition wants_event :: "'w sched \<Rightarrow> nat \<Rightarrow> tcmMsgHeader \<Rightarrow> EvtInterestInfo \<Rightarrow> bool" where
  "wants_event s src m x \<longleftrightarrow> target s (i_eid x) \<noteq> src \<and> filtered_out (matchData x) m = Some False"

definition runs :: "'w sched \<Rightarrow> UINT32 \<Rightarrow> bool" where
  "runs s e \<longleftrightarrow> (\<exists>b d. getExistingDlsInfo e s = Some (Some b) \<and> dheap s b = Some d \<and> dls_state d = DLS_RUNNING)"

definition awaits :: "'w sched \<Rightarrow> UINT32 \<Rightarrow> bool" where
  "awaits s e \<longleftrightarrow> (\<exists>b d. getExistingDlsInfo e s = Some (Some b) \<and> dheap s b = Some d \<and> dls_state d = DLS_LAUNCHED)"

text \<open>The copies that are queued for the application at \<open>b\<close>, the newest first, and the state they are queued in.\<close>

definition copies_for :: "'w sched \<Rightarrow> tcmMsgHeader \<Rightarrow> EvtInterestInfo list \<Rightarrow> nat \<Rightarrow> tcmMsgHeader list" where
  "copies_for s m xs b = rev (map (\<lambda>x. snd (event_copy s m x)) (filter (\<lambda>x. awaits s (i_eid x) \<and> target s (i_eid x) = b) xs))"

definition with_copies :: "'w sched \<Rightarrow> tcmMsgHeader \<Rightarrow> EvtInterestInfo list \<Rightarrow> 'w sched" where
  "with_copies s m xs = s\<lparr>dheap := \<lambda>b. map_option (\<lambda>d. d\<lparr>msgQueue := copies_for s m xs b @ msgQueue d\<rparr>) (dheap s b)\<rparr>"

lemma with_copies_none [simp]: "with_copies s m [] = s"
proof -
  have "map_option (\<lambda>d. d\<lparr>msgQueue := msgQueue d\<rparr>) x = x" for x :: "DlsInfo option" by (cases x) simp_all
  then show ?thesis by (simp add: with_copies_def copies_for_def)
qed

text \<open>Two states with the same applications, up to what waits in their queues.\<close>

definition same_apps :: "'w sched \<Rightarrow> 'w sched \<Rightarrow> bool" where
  "same_apps s t \<longleftrightarrow> dlsInfoHead t = dlsInfoHead s \<and>
     (\<forall>b. map_option (msgQueue_update (\<lambda>q. [])) (dheap t b) = map_option (msgQueue_update (\<lambda>q. [])) (dheap s b))"

lemma same_apps_at:
  assumes "same_apps s t"
  shows "(dheap t b = None \<longleftrightarrow> dheap s b = None) \<and>
    (\<forall>d. dheap s b = Some d \<longrightarrow> (\<exists>q. dheap t b = Some (d\<lparr>msgQueue := q\<rparr>)))"
proof -
  have "map_option (msgQueue_update (\<lambda>q. [])) (dheap t b) = map_option (msgQueue_update (\<lambda>q. [])) (dheap s b)"
    using assms by (simp add: same_apps_def)
  moreover have "\<exists>q. y = d\<lparr>msgQueue := q\<rparr>" if "y\<lparr>msgQueue := []\<rparr> = d\<lparr>msgQueue := []\<rparr>" for y d :: DlsInfo
  proof -
    have "y\<lparr>msgQueue := []\<rparr>\<lparr>msgQueue := msgQueue y\<rparr> = d\<lparr>msgQueue := []\<rparr>\<lparr>msgQueue := msgQueue y\<rparr>" using that by simp
    then show ?thesis by (intro exI[of _ "msgQueue y"]) simp
  qed
  ultimately show ?thesis by (cases "dheap t b"; cases "dheap s b") auto
qed

lemma same_apps_find:
  assumes "same_apps s t"
  shows "getExistingDlsInfo e t = getExistingDlsInfo e s"
proof -
  have q: "has_eid e (d\<lparr>msgQueue := q\<rparr>) = has_eid e d" for d q by (simp add: has_eid_def)
  have "find_dls (dheap t) (has_eid e) as = find_dls (dheap s) (has_eid e) as" for as
  proof (induction as)
    case (Cons a as)
    then show ?case using same_apps_at[OF assms, of a] by (cases "dheap s a") (auto simp: q)
  qed simp
  then show ?thesis using assms by (simp add: getExistingDlsInfo_def same_apps_def)
qed

lemma same_apps_same:
  assumes "same_apps s t"
  shows "runs t e = runs s e" "awaits t e = awaits s e" "target t e = target s e" "wants_event t = wants_event s"
    and "runs s (i_eid x) \<or> awaits s (i_eid x) \<Longrightarrow> event_copy t m x = event_copy s m x"
proof -
  note f = same_apps_find[OF assms]
  show "target t e = target s e" for e by (simp add: target_def f)
  then show "wants_event t = wants_event s" by (simp add: fun_eq_iff wants_event_def)
  have st: "(\<exists>d. dheap t b = Some d \<and> dls_state d = z) = (\<exists>d. dheap s b = Some d \<and> dls_state d = z)" for b z
    using same_apps_at[OF assms, of b] by (cases "dheap s b") auto
  show "runs t e = runs s e" "awaits t e = awaits s e" unfolding runs_def awaits_def f using st by blast+
  assume "runs s (i_eid x) \<or> awaits s (i_eid x)"
  then obtain b d where b: "getExistingDlsInfo (i_eid x) s = Some (Some b)" "dheap s b = Some d" by (auto simp: runs_def awaits_def)
  then obtain q where "dheap t b = Some (d\<lparr>msgQueue := q\<rparr>)" using same_apps_at[OF assms, of b] by blast
  with b show "event_copy t m x = event_copy s m x" by (simp add: event_copy_def target_def f)
qed

lemma send_copy:
  assumes "msg_bytes m \<noteq> None"
  shows "\<exists>ret w'. oalMsg_send K (fst (event_copy s m x)) (snd (event_copy s m x)) w = Some (ret, w')"
proof -
  have "msg_bytes (snd (event_copy s m x)) \<noteq> None"
    using assms by (auto simp: msg_bytes_def event_copy_def Let_def totalLen_def split: if_splits)
  then show ?thesis by (auto simp: oalMsg_send_def split: prod.split)
qed

text \<open>One copy: sent to an application that runs, put in front of the queue of one that has been launched.\<close>

lemma deliver_copy:
  assumes "\<And>w. k_alloc (kern C) w = (True, w)" and "msg_bytes m \<noteq> None"
    and "getExistingDlsInfo (i_eid x) s = Some (Some b)" and "dheap s b = Some d"
  shows "dls_state d = DLS_RUNNING \<Longrightarrow> \<exists>ret w. oalMsg_send (kern C) (fst (event_copy s m x)) (snd (event_copy s m x)) (world s) = Some (ret, w) \<and>
      deliver_event C (msg_src m) m b s = Some (s\<lparr>world := w\<rparr>)"
    and "dls_state d = DLS_LAUNCHED \<Longrightarrow>
      deliver_event C (msg_src m) m b s = Some (put_dls b (d\<lparr>msgQueue := snd (event_copy s m x) # msgQueue d\<rparr>) s)"
proof -
  obtain y where y: "msg_bytes m = Some y" using assms(2) by auto
  have t: "target s (i_eid x) = b" using assms(3) by (simp add: target_def)
  show "\<exists>ret w. oalMsg_send (kern C) (fst (event_copy s m x)) (snd (event_copy s m x)) (world s) = Some (ret, w) \<and>
      deliver_event C (msg_src m) m b s = Some (s\<lparr>world := w\<rparr>)" if "dls_state d = DLS_RUNNING"
  proof -
    obtain ret w where w: "oalMsg_send (kern C) (fst (event_copy s m x)) (snd (event_copy s m x)) (world s) = Some (ret, w)"
      using send_copy[OF assms(2), of "kern C" s x "world s"] by blast
    then have "deliver_event C (msg_src m) m b s = Some (s\<lparr>world := w\<rparr>)"
      using y that assms(4) t by (simp add: deliver_event_def on_world_run_def tcmMsg_duplicate_def assms(1)
          sendMessageByAppState_def tcmMsg_sendBySocket_def event_copy_def Let_def)
    with w show ?thesis by blast
  qed
  show "deliver_event C (msg_src m) m b s = Some (put_dls b (d\<lparr>msgQueue := snd (event_copy s m x) # msgQueue d\<rparr>) s)"
    if "dls_state d = DLS_LAUNCHED"
    using y that assms(4) t by (simp add: deliver_event_def on_world_run_def tcmMsg_duplicate_def assms(1)
        sendMessageByAppState_def queuemsg_def event_copy_def Let_def)
qed

lemma with_copies_run:
  "runs s (i_eid x) \<Longrightarrow> with_copies s m (x # xs) = with_copies s m xs"
  by (auto simp: with_copies_def copies_for_def fun_eq_iff runs_def awaits_def)

lemma with_copies_await:
  assumes "awaits s (i_eid x)" and "target s (i_eid x) = b" and "dheap s b = Some d"
    and "\<forall>x \<in> set xs. runs s (i_eid x) \<or> awaits s (i_eid x)"
  shows "same_apps s (put_dls b (d\<lparr>msgQueue := snd (event_copy s m x) # msgQueue d\<rparr>) s)"
    and "with_copies (put_dls b (d\<lparr>msgQueue := snd (event_copy s m x) # msgQueue d\<rparr>) s) m xs = with_copies s m (x # xs)"
proof -
  let ?t = "put_dls b (d\<lparr>msgQueue := snd (event_copy s m x) # msgQueue d\<rparr>) s"
  show same: "same_apps s ?t" using assms(3) by (simp add: same_apps_def put_dls_def)
  note e = same_apps_same[OF same]
  have "filter (\<lambda>x. awaits ?t (i_eid x) \<and> target ?t (i_eid x) = c) xs = filter (\<lambda>x. awaits s (i_eid x) \<and> target s (i_eid x) = c) xs" for c
    by (simp add: e)
  moreover have "map (\<lambda>x. snd (event_copy ?t m x)) (filter P xs) = map (\<lambda>x. snd (event_copy s m x)) (filter P xs)" for P
    using assms(4) e(5) by simp
  ultimately have c: "copies_for ?t m xs = copies_for s m xs" unfolding copies_for_def fun_eq_iff by presburger
  show "with_copies ?t m xs = with_copies s m (x # xs)"
    unfolding with_copies_def c using assms(1-3)
    by (auto simp: put_dls_def copies_for_def intro!: sched.equality)
qed

lemma distribute_sends:
  assumes "\<And>w. k_alloc (kern C) w = (True, w)" and "msg_bytes m \<noteq> None"
  shows "\<forall>x \<in> set xs. (runs s (i_eid x) \<or> awaits s (i_eid x)) \<and> filtered_out (matchData x) m \<noteq> None \<Longrightarrow>
    \<exists>w. send_pairs (kern C) (map (event_copy s m) (filter (\<lambda>x. wants_event s src m x \<and> runs s (i_eid x)) xs)) (world s) = Some w \<and>
      distribute_to C (msg_src m) (Some src) m xs s = Some (with_copies s m (filter (wants_event s src m) xs)\<lparr>world := w\<rparr>)"
proof (induction xs arbitrary: s)
  case Nil
  show ?case by simp
next
  case (Cons x xs)
  from Cons.prems obtain b d out where b: "getExistingDlsInfo (i_eid x) s = Some (Some b)" "dheap s b = Some d"
    "dls_state d = DLS_RUNNING \<or> dls_state d = DLS_LAUNCHED" "filtered_out (matchData x) m = Some out" by (auto simp: runs_def awaits_def)
  have g: "getDlsInfo C (i_eid x) s = Some (Some b, s)" "target s (i_eid x) = b" using b by (simp_all add: getDlsInfo_def target_def)
  have rest: "\<forall>x \<in> set xs. runs s (i_eid x) \<or> awaits s (i_eid x)" using Cons.prems by simp
  show ?case
  proof (cases "wants_event s src m x")
    case False
    then have "b = src \<or> out" using g b(4) by (auto simp: wants_event_def)
    then have step: "distribute_to C (msg_src m) (Some src) m (x # xs) s = distribute_to C (msg_src m) (Some src) m xs s"
      using g b(4) by auto
    show ?thesis unfolding step using Cons.IH[of s] Cons.prems False by simp
  next
    case True
    then have no: "b \<noteq> src" "\<not> out" using g b(4) by (auto simp: wants_event_def)
    have step: "distribute_to C (msg_src m) (Some src) m (x # xs) s =
        Option.bind (deliver_event C (msg_src m) m b s) (distribute_to C (msg_src m) (Some src) m xs)"
      using g no b(4) by simp
    note one = deliver_copy[OF assms b(1,2)]
    show ?thesis
    proof (cases "dls_state d = DLS_RUNNING")
      case run: True
      from one(1)[OF this] obtain ret w where w: "oalMsg_send (kern C) (fst (event_copy s m x)) (snd (event_copy s m x)) (world s) = Some (ret, w)"
        "deliver_event C (msg_src m) m b s = Some (s\<lparr>world := w\<rparr>)" by blast
      have sa: "same_apps s (s\<lparr>world := w\<rparr>)" by (simp add: same_apps_def)
      note e = same_apps_same[OF sa]
      have c: "map (event_copy (s\<lparr>world := w\<rparr>) m) ys = map (event_copy s m) ys" for ys
        by (simp add: event_copy_def target_def getExistingDlsInfo_def)
      have wc: "with_copies (s\<lparr>world := w\<rparr>) m ys\<lparr>world := v\<rparr> = with_copies s m ys\<lparr>world := v\<rparr>" for ys v
        by (simp add: with_copies_def copies_for_def e event_copy_def target_def getExistingDlsInfo_def)
      have r: "runs s (i_eid x)" using b run by (auto simp: runs_def)
      show ?thesis using Cons.IH[of "s\<lparr>world := w\<rparr>"] Cons.prems True r w(1)
        unfolding step w(2) by (auto simp: e c wc with_copies_run)
    next
      case False
      then have l: "dls_state d = DLS_LAUNCHED" using b(3) by simp
      let ?t = "put_dls b (d\<lparr>msgQueue := snd (event_copy s m x) # msgQueue d\<rparr>) s"
      have a: "awaits s (i_eid x)" "\<not> runs s (i_eid x)" using b l by (auto simp: runs_def awaits_def)
      have fr: "\<forall>x \<in> set (filter P xs). runs s (i_eid x) \<or> awaits s (i_eid x)" for P using rest by simp
      note wc = with_copies_await[OF a(1) g(2) b(2) fr]
      note e = same_apps_same[OF wc(1)]
      have mc: "map (event_copy ?t m) (filter P xs) = map (event_copy s m) (filter P xs)" for P
        using rest e(5) by simp
      have "\<forall>x \<in> set xs. (runs ?t (i_eid x) \<or> awaits ?t (i_eid x)) \<and> filtered_out (matchData x) m \<noteq> None"
        using Cons.prems by (simp add: e)
      from Cons.IH[OF this] have "\<exists>w. send_pairs (kern C) (map (event_copy s m) (filter (\<lambda>x. wants_event s src m x \<and> runs s (i_eid x)) xs)) (world s) = Some w \<and>
          distribute_to C (msg_src m) (Some src) m xs ?t = Some (with_copies s m (x # filter (wants_event s src m) xs)\<lparr>world := w\<rparr>)"
        unfolding e mc wc(2) by (simp add: put_dls_def)
      then show ?thesis using True a unfolding step one(2)[OF l] by simp
    qed
  qed
qed

text \<open>C9. When memory is available and every application that registered for the type of an event is running or
  has been launched and not connected yet, the event reaches exactly the interested ones: each of them, except the
  sender, whose match data, if it has any, is the data of the event gets one copy, addressed to it and from the
  sender of the event; those that run get it over their own connections in the order of the table of
  interests, for the others it waits at the head of their queues; nothing else changes.\<close>

theorem distribute_reaches_interested:
  assumes "\<forall>w. k_alloc (kern C) w = (True, w)" and "msg_bytes m \<noteq> None" and "dheap s a \<noteq> None"
    and "index_of (\<lambda>x. ei_type x = msg_type m) (evtInterestHead s) = Some i"
    and "\<forall>x \<in> set (evtInfoHead (evtInterestHead s ! i)).
      (runs s (i_eid x) \<or> awaits s (i_eid x)) \<and> filtered_out (matchData x) m \<noteq> None"
  shows "let xs = filter (wants_event s a m) (evtInfoHead (evtInterestHead s ! i)) in
    \<exists>w. send_pairs (kern C) (map (event_copy s m) (filter (\<lambda>x. runs s (i_eid x)) xs)) (world s) = Some w \<and>
      sched_distributeEventMessage C m (Some a) s = Some (with_copies s m xs\<lparr>world := w\<rparr>)"
  using distribute_sends[OF _ assms(2,5), of C a] assms(1,3,4)
  by (auto simp: sched_distributeEventMessage_def interest_findByType_def Let_def conj_commute)

theorem distribute_reaches_interested_witness:
  "\<exists>w. sched_distributeEventMessage (sample_config 0x40) demo_event (Some 2)
      ((sample_state (sample_dls 0x40 DLS_RUNNING 9))
        \<lparr>dheap := [1 \<mapsto> sample_dls 0x40 DLS_RUNNING 9, 2 \<mapsto> sample_dls 0x40 DLS_RUNNING 10],
         evtInterestHead := [\<lparr>ei_type = 3, evtInfoHead = [\<lparr>i_eid = 1, matchData = None\<rparr>]\<rparr>]\<rparr>) = Some w \<and>
    world w = ([], header_bytes (demo_event\<lparr>msg_dst := 1\<rparr>))"
proof -
  let ?s = "(sample_state (sample_dls 0x40 DLS_RUNNING 9))
        \<lparr>dheap := [1 \<mapsto> sample_dls 0x40 DLS_RUNNING 9, 2 \<mapsto> sample_dls 0x40 DLS_RUNNING 10],
         evtInterestHead := [\<lparr>ei_type = 3, evtInfoHead = [\<lparr>i_eid = 1, matchData = None\<rparr>]\<rparr>]\<rparr>"
  let ?x = "\<lparr>i_eid = 1, matchData = None\<rparr>" and ?C = "sample_config 0x40"
  note d = sample_state_def sample_dls_def new_dls_def start_state_def sample_entity_def has_flag_def demo_event_def
    EMPTY_MSG_HEADER_def
  have al: "\<forall>w. k_alloc (kern ?C) w = (True, w)" by (simp add: sample_config_def)
  have mb: "msg_bytes demo_event \<noteq> None" by (simp add: msg_bytes_def d totalLen_def sizeof_tcmMsgHeader_def)
  have ix: "index_of (\<lambda>x. ei_type x = msg_type demo_event) (evtInterestHead ?s) = Some 0" by (simp add: d)
  have ex: "getExistingDlsInfo 1 ?s = Some (Some 1)"
    by (simp add: getExistingDlsInfo_def has_eid_def d APPCFG_MULTIPLE_INSTANCES_def)
  have r: "runs ?s 1" using ex by (simp add: runs_def) (simp add: d)
  then have ru: "\<forall>x \<in> set (evtInfoHead (evtInterestHead ?s ! 0)).
      (runs ?s (i_eid x) \<or> awaits ?s (i_eid x)) \<and> filtered_out (matchData x) demo_event \<noteq> None"
    by (simp add: filtered_out_def)
  have w: "filter (wants_event ?s 2 demo_event) (evtInfoHead (evtInterestHead ?s ! 0)) = [?x]"
    using ex by (simp add: wants_event_def target_def filtered_out_def)
  have c: "event_copy ?s demo_event ?x = (9, demo_event\<lparr>msg_dst := 1\<rparr>)"
    using ex by (simp add: event_copy_def target_def) (simp add: d APPCFG_MULTIPLE_INSTANCES_def)
  have "send_pairs (kern ?C) [(9, demo_event\<lparr>msg_dst := 1\<rparr>)] (world ?s) = Some ([], header_bytes (demo_event\<lparr>msg_dst := 1\<rparr>))"
    using duplex_send[of "demo_event\<lparr>msg_dst := 1\<rparr>" 9 "[]" "[]"] by (simp add: sample_config_def) (simp add: d)
  with distribute_reaches_interested[OF al mb _ ix ru, of 2] w c r show ?thesis by (auto simp: Let_def)
qed

section \<open>Applications that stop\<close>

lemma reap_again: "reap C d s = Some (True, s') \<Longrightarrow> has_flag (eInfo d) APPCFG_AUTO_RELAUNCH"
  by (auto simp: reap_def run_simps Let_def split: if_splits prod.splits)

lemma collect_frees:
  assumes "collectApp C a s = Some s'" and "dheap s a = Some d" and "free_dls d"
    and "\<not> has_flag (eInfo d) APPCFG_AUTO_RELAUNCH"
  shows "dheap s' a = None \<and> readFdsMaster s' = readFdsMaster s - (if dls_commFd d \<noteq> TCM_INVALID_FD then {dls_commFd d} else {})"
proof -
  let ?d = "d\<lparr>msgQueue := [], dls_commFd := TCM_INVALID_FD\<rparr>"
  have f: "free_dls ?d" "\<not> has_flag (eInfo ?d) APPCFG_SERVER" "eid (eInfo ?d) \<noteq> ID_CONSOLE" using assms(3) by (simp_all add: free_dls_def)
  from assms(1,2) obtain s1 again s2 where
    s1: "(if dls_commFd d \<noteq> TCM_INVALID_FD
          then map_option (close_if (kern C) (dls_commFd d)) (FD_CLR (dls_commFd d) s) else Some s) = Some s1"
    and s2: "reap C ?d (put_dls a ?d s1) = Some (again, s2)"
    and fin: "(if again then launchApp C a s2
          else do {
            s3 \<leftarrow> (if has_flag (eInfo ?d) APPCFG_SERVER \<or> eid (eInfo ?d) = ID_CONSOLE then FD_SET (serverFd ?d) s2 else Some s2);
            if free_dls ?d then do {
              tab \<leftarrow> interest_unregisterAll (nul_end C)
                (if has_flag (eInfo ?d) APPCFG_MULTIPLE_INSTANCES then specificEid ?d else of_int (eid (eInfo ?d))) (evtInterestHead s3);
              Some (unlink_dls a (s3\<lparr>evtInterestHead := tab\<rparr>)) }
            else Some (put_dls a (?d\<lparr>dls_state := DLS_NOT_RUNNING, dls_pid := TCM_INVALID_PID, specificEid := 0\<rparr>) s3) }) = Some s'"
    unfolding collectApp_def by (simp only: run_simps Let_def) auto
  have r1: "readFdsMaster s1 = readFdsMaster s - (if dls_commFd d \<noteq> TCM_INVALID_FD then {dls_commFd d} else {})"
    using s1 by (auto simp: FD_CLR_def close_if_def split: if_splits)
  have "\<not> again" using reap_again[of C ?d "put_dls a ?d s1" s2] s2 assms(4) by auto
  moreover have "readFdsMaster s2 = readFdsMaster s1" using reap_world[OF s2] by (auto simp: put_dls_def)
  ultimately show ?thesis using fin f r1 by (auto simp: bind_Some_iff unlink_dls_def)
qed

text \<open>An application that asks the scheduler to stop itself makes it use freed memory: when the
  record of the sender is one that is freed on exit (no server, not to be relaunched, and
  either a multiple-instance application or one without interests and delayed messages), the
  reply is sent through the record that collecting the application has just freed.\<close>

theorem stop_self_undefined:
  assumes "tcmEid_getEntityInfo (entities C) (uint (GENERIC_EID (wordData m))) \<noteq> None"
    and "getExistingDlsInfo (wordData m) s = Some (Some a)" and "dheap s a = Some d"
    and "dls_state d \<noteq> DLS_NOT_RUNNING" and "free_dls d" and "\<not> has_flag (eInfo d) APPCFG_AUTO_RELAUNCH"
  shows "sched_processStopAppMsg C a m s = None"
proof -
  have freed: "dheap s1 a = None" if "stopApp C (wordData m) s = Some s1" for s1
  proof -
    from that assms(1-4) obtain s0 where c: "collectApp C a s0 = Some s1" "dheap s0 = dheap s"
      by (auto simp: stopApp_def terminateApp_def on_world_def split: if_splits prod.splits)
    then show ?thesis using collect_frees[OF c(1) _ assms(5,6)] assms(3) by simp
  qed
  then show ?thesis
    by (cases "stopApp C (wordData m) s") (auto simp: sched_processStopAppMsg_def processMsgSimpleFooter_def)
qed

theorem stop_self_undefined_witness:
  "sched_processStopAppMsg (sample_config 0x44) 1 (EMPTY_MSG_HEADER\<lparr>msg_src := 1, wordData := 1\<rparr>)
     (sample_state (sample_dls 0x44 DLS_RUNNING 9)) = None"
proof -
  let ?s = "sample_state (sample_dls 0x44 DLS_RUNNING 9)" and ?m = "EMPTY_MSG_HEADER\<lparr>msg_src := 1, wordData := 1\<rparr>"
  note d = sample_state_def sample_dls_def new_dls_def start_state_def sample_entity_def has_flag_def EMPTY_MSG_HEADER_def
  have "tcmEid_getEntityInfo (entities (sample_config 0x44)) (uint (GENERIC_EID (wordData ?m))) \<noteq> None"
    by (simp add: sample_config_def d GENERIC_EID_def EID_EID_MASK_def)
  moreover have "getExistingDlsInfo (wordData ?m) ?s = Some (Some 1)"
    by (simp add: getExistingDlsInfo_def has_eid_def d APPCFG_MULTIPLE_INSTANCES_def)
  moreover have "dheap ?s 1 = Some (sample_dls 0x44 DLS_RUNNING 9)" "dls_state (sample_dls 0x44 DLS_RUNNING 9) \<noteq> DLS_NOT_RUNNING"
    by (simp_all add: d)
  moreover have "free_dls (sample_dls 0x44 DLS_RUNNING 9)"
    "\<not> has_flag (eInfo (sample_dls 0x44 DLS_RUNNING 9)) APPCFG_AUTO_RELAUNCH"
    by (simp_all add: free_dls_def d APPCFG_SERVER_def ID_CONSOLE_def APPCFG_MULTIPLE_INSTANCES_def APPCFG_AUTO_RELAUNCH_def)
  ultimately show ?thesis using stop_self_undefined[of "sample_config 0x44" ?m ?s 1] by blast
qed

text \<open>Whatever its entity table says, an application with any flag gets a server socket (the test
  reads \<open>flags && APPCFG_SERVER\<close>), and when the record of one that is no server is freed, that
  socket is neither closed nor taken out of the set the scheduler selects on: nobody owns it any
  more.\<close>

theorem nonserver_socket_leaks:
  assumes "insertDlsInfoEntry C e s = Some (Some a, s1)" and "tcmEid_getEntityInfo (entities C) (uint (GENERIC_EID e)) = Some i"
    and "ei_flags i \<noteq> 0" and "\<not> has_flag i APPCFG_SERVER" and "\<not> has_flag i APPCFG_AUTO_RELAUNCH"
    and "uint e \<noteq> ID_CONSOLE" and "eid i \<noteq> ID_CONSOLE"
  shows "\<exists>d. dheap s1 a = Some d \<and> eInfo d = i \<and> serverFd d \<in> readFdsMaster s1 \<and>
    (\<forall>s2 s3. dheap s2 a = Some (d\<lparr>dls_state := DLS_RUNNING, dls_pid := p\<rparr>) \<and> readFdsMaster s2 = readFdsMaster s1 \<and>
       collectApp C a s2 = Some s3 \<longrightarrow> dheap s3 a = None \<and> serverFd d \<in> readFdsMaster s3)"
proof -
  let ?domain = "if has_flag i APPCFG_IPV6 then ''AF_INET6'' else ''AF_INET''"
  let ?type = "if has_flag i APPCFG_SERVER_TCP then ''SOCK_STREAM'' else ''SOCK_DGRAM''"
  obtain al t1 where t1: "on_world (k_alloc (kern C)) s = (al, t1)" by (cases "on_world (k_alloc (kern C)) s")
  obtain fd t2 where t2: "on_world (initInetServerSocket (kern C) ?domain (uint (port i)) ?type (uint (backLog i))) t1 = (fd, t2)"
    by (cases "on_world (initInetServerSocket (kern C) ?domain (uint (port i)) ?type (uint (backLog i))) t1")
  from assms(1) t1 t2 obtain t3 where al: al and fd: "fd \<noteq> TCM_INVALID_FD" and t3: "FD_SET fd t2 = Some t3"
    and l: "link_dls ((new_dls i e)\<lparr>serverFd := fd\<rparr>) (UPDATE_MAXFD fd t3) = (Some a, s1)"
    unfolding insertDlsInfoEntry_def by (simp add: assms(2,3,6) Let_def run_simps split: if_splits)
  let ?d = "(new_dls i e)\<lparr>serverFd := fd\<rparr>"
  have s1: "dheap s1 a = Some ?d" "readFdsMaster s1 = readFdsMaster t3" using l by (auto simp: link_dls_def put_dls_def UPDATE_MAXFD_def)
  have r: "fd \<in> readFdsMaster t3" using t3 by (auto simp: FD_SET_def split: if_splits)
  let ?e = "?d\<lparr>dls_state := DLS_RUNNING, dls_pid := p\<rparr>"
  have e: "free_dls ?e" "\<not> has_flag (eInfo ?e) APPCFG_AUTO_RELAUNCH" "dls_commFd ?e = TCM_INVALID_FD"
    using assms(4,5,7) by (simp_all add: free_dls_def new_dls_def)
  have "dheap s3 a = None \<and> fd \<in> readFdsMaster s3"
    if "dheap s2 a = Some ?e" "readFdsMaster s2 = readFdsMaster s1" "collectApp C a s2 = Some s3" for s2 s3
    using collect_frees[OF that(3,1) e(1,2)] e(3) that(2) r s1(2) by simp
  note keep = this
  have sf: "serverFd ?d = fd" by simp
  show ?thesis
  proof (intro exI[of _ ?d] conjI allI impI)
    show "dheap s1 a = Some ?d" by (rule s1(1))
    show "eInfo ?d = i" by (simp add: new_dls_def)
    show "serverFd ?d \<in> readFdsMaster s1" using r s1(2) by simp
    show "dheap s3 a = None" "serverFd ?d \<in> readFdsMaster s3"
      if "dheap s2 a = Some ?e \<and> readFdsMaster s2 = readFdsMaster s1 \<and> collectApp C a s2 = Some s3" for s2 s3
      using keep[of s2 s3] that unfolding sf by blast+
  qed
qed

theorem nonserver_socket_leaks_witness:
  "\<exists>a s1 d. insertDlsInfoEntry (sample_config 4) 1 (start_state ([], [])) = Some (Some a, s1) \<and> dheap s1 a = Some d \<and>
     \<not> has_flag (eInfo d) APPCFG_SERVER \<and> serverFd d \<in> readFdsMaster s1"
proof -
  note d = sample_config_def sample_entity_def
  have i: "tcmEid_getEntityInfo (entities (sample_config 4)) (uint (GENERIC_EID 1)) = Some (sample_entity 1 4)"
    by (simp add: d GENERIC_EID_def EID_EID_MASK_def)
  have fl: "ei_flags (sample_entity 1 4) \<noteq> 0" "\<not> has_flag (sample_entity 1 4) APPCFG_SERVER"
    "\<not> has_flag (sample_entity 1 4) APPCFG_AUTO_RELAUNCH" "uint (1 :: UINT32) \<noteq> ID_CONSOLE" "eid (sample_entity 1 4) \<noteq> ID_CONSOLE"
    by (simp_all add: sample_entity_def has_flag_def APPCFG_SERVER_def APPCFG_AUTO_RELAUNCH_def ID_CONSOLE_def)
  have "initInetServerSocket duplex_kernel x y z b ([], []) = (5, ([], []))" for x y z b
    by (simp add: initInetServerSocket_def try_call_def duplex_kernel_def quiet_kernel_def)
  then have "\<exists>a s1. insertDlsInfoEntry (sample_config 4) 1 (start_state ([], [])) = Some (Some a, s1)"
    using i fl(1) by (simp add: insertDlsInfoEntry_def sample_config_def on_world_def start_state_def FD_SET_def FD_SETSIZE_def
        link_dls_def TCM_INVALID_FD_def ID_CONSOLE_def Let_def)
  then obtain a s1 where s1: "insertDlsInfoEntry (sample_config 4) 1 (start_state ([], [])) = Some (Some a, s1)" by blast
  from nonserver_socket_leaks[OF s1 i fl, of 0] obtain d where "dheap s1 a = Some d" "eInfo d = sample_entity 1 4" "serverFd d \<in> readFdsMaster s1"
    by blast
  with s1 fl(2) show ?thesis by auto
qed

section \<open>The states the scheduler reaches\<close>

text \<open>C8. In every state the main loop reaches from a successful start-up, through any number of turns
  and signals and whatever the kernel answers, the list holds every record exactly once and no
  freed one, no application is waiting for a requested termination (that state is
  never entered), only applications that exchange messages are waited for, and a running one of
  these has no message left in its queue.\<close>

theorem sched_reachable_invariant:
  assumes "sched_boot C (start_state w) = Some (True, s0)" and "(sched_step C)\<^sup>*\<^sup>* s0 s"
  shows "distinct (dlsInfoHead s) \<and> set (dlsInfoHead s) = dom (dheap s) \<and> wf_interest (evtInterestHead s) \<and>
    (\<forall>a d. dheap s a = Some d \<longrightarrow> dls_state d \<noteq> DLS_TERMINATE_REQUESTED \<and>
       (dls_state d = DLS_LAUNCHED \<longrightarrow> has_flag (eInfo d) APPCFG_MESSAGING_CAPABLE) \<and>
       (dls_state d = DLS_RUNNING \<and> has_flag (eInfo d) APPCFG_MESSAGING_CAPABLE \<longrightarrow> msgQueue d = []))"
proof -
  have "sched_inv s" using inv_steps[OF assms(2) inv_boot[OF assms(1)]] .
  then show ?thesis by (auto simp: sched_inv_def dls_ok_def)
qed

section \<open>Start-up with the shipped table\<close>

definition calls_succeed :: "'w kernel \<Rightarrow> bool" where
  "calls_succeed K \<longleftrightarrow> (\<forall>w. fst (k_alloc K w)) \<and> (\<forall>d t w. 0 < fst (k_socket K d t w) \<and> fst (k_socket K d t w) < FD_SETSIZE) \<and>
     (\<forall>fd x w. fst (k_setsockopt K fd x w) = 0) \<and> (\<forall>fd d p w. fst (k_bind K fd d p w) = 0) \<and> (\<forall>fd b w. fst (k_listen K fd b w) = 0)"

lemma calls_socket:
  assumes "calls_succeed K"
  shows "\<exists>fd w'. initInetServerSocket K d p t b w = (fd, w') \<and> 0 < fd \<and> fd < FD_SETSIZE"
    and "\<exists>fd w'. init_schedServerSocket K w = (fd, w') \<and> 0 < fd \<and> fd < FD_SETSIZE"
proof -
  have f: "0 < fst (k_socket K d t w)" "fst (k_socket K d t w) < FD_SETSIZE" "fst (k_setsockopt K fd x w) = 0"
    "fst (k_bind K fd d p w) = 0" "fst (k_listen K fd b w) = 0" for d t w fd x p b
    using assms by (simp_all add: calls_succeed_def)
  obtain fd w1 where s: "k_socket K d t w = (fd, w1)" by (meson surj_pair)
  have fd: "0 < fd" "fd < FD_SETSIZE" using f(1,2)[of d t w] s by simp_all
  have tc: "\<exists>w'. try_call K fd b' call rest w = (fd, w')"
    if "\<And>w. fst (call w) = 0" "\<And>w. \<exists>w'. rest w = (fd, w')" for b' call rest w
    using that(1)[of w] that(2) by (cases "call w") (auto simp: try_call_def)
  have "\<exists>w'. try_call K fd True (k_setsockopt K fd ''SO_REUSEADDR'')
            (try_call K fd (t = ''SOCK_DGRAM'') (k_setsockopt K fd (if d = ''AF_INET'' then ''IP_PKTINFO'' else ''IPV6_PKTINFO''))
              (try_call K fd (t = ''SOCK_DGRAM'' \<or> d \<noteq> ''AF_INET'') (k_bind K fd d p)
                (try_call K fd (t = ''SOCK_STREAM'') (k_listen K fd b)
                  (\<lambda>w. (fd, w))))) w1 = (fd, w')"
    by (intro tc) (auto simp: f)
  then show "\<exists>fd w'. initInetServerSocket K d p t b w = (fd, w') \<and> 0 < fd \<and> fd < FD_SETSIZE"
    using s fd by (auto simp: initInetServerSocket_def)
  obtain fd' w2 where u: "k_socket K ''AF_LOCAL'' ''SOCK_STREAM'' (k_unlink K SCHED_MESSAGE_ADDR w) = (fd', w2)" by (meson surj_pair)
  obtain w3 where "k_bind K fd' SCHED_MESSAGE_ADDR 0 w2 = (0, w3)" using f(4) by (metis prod.collapse)
  moreover obtain w4 where "k_listen K fd' SCHED_MESSAGE_BACKLOG w3 = (0, w4)" using f(5) by (metis prod.collapse)
  moreover have "0 < fd'" "fd' < FD_SETSIZE" using f(1,2)[of "''AF_LOCAL''" "''SOCK_STREAM''" "k_unlink K SCHED_MESSAGE_ADDR w"] u by simp_all
  ultimately show "\<exists>fd w'. init_schedServerSocket K w = (fd, w') \<and> 0 < fd \<and> fd < FD_SETSIZE"
    using u by (simp add: init_schedServerSocket_def)
qed

lemma calls_alloc:
  assumes "calls_succeed K"
  shows "\<exists>w'. k_alloc K w = (True, w')"
proof -
  have "\<And>w. fst (k_alloc K w)" using assms by (simp add: calls_succeed_def)
  from alloc_ok[OF this] show ?thesis .
qed

lemma insert_entity:
  assumes "calls_succeed (kern C)" and "tcmEid_getEntityInfo (entities C) (uint (GENERIC_EID e)) = Some i"
    and "ei_flags i \<noteq> 0" and "uint e \<noteq> ID_CONSOLE"
  shows "\<exists>fd w mf. 0 < fd \<and> insertDlsInfoEntry C e s = Some (Some (next_ptr s), s\<lparr>world := w,
      dheap := (dheap s)(next_ptr s \<mapsto> (new_dls i e)\<lparr>serverFd := fd\<rparr>), dlsInfoHead := dlsInfoHead s @ [next_ptr s],
      next_ptr := next_ptr s + 1, readFdsMaster := insert fd (readFdsMaster s), maxFd := mf\<rparr>)"
proof -
  obtain w1 where w1: "k_alloc (kern C) (world s) = (True, w1)" using calls_alloc[OF assms(1)] by blast
  obtain fd w2 where "initInetServerSocket (kern C) (if has_flag i APPCFG_IPV6 then ''AF_INET6'' else ''AF_INET'')
      (uint (port i)) (if has_flag i APPCFG_SERVER_TCP then ''SOCK_STREAM'' else ''SOCK_DGRAM'') (uint (backLog i)) w1 = (fd, w2)"
    "0 < fd" "fd < FD_SETSIZE" using calls_socket(1)[OF assms(1)] by blast
  then show ?thesis using w1 assms(2-4)
    by (intro exI[of _ fd] exI[of _ w2] exI[of _ "if fd > maxFd s then fd else maxFd s"])
      (simp add: insertDlsInfoEntry_def on_world_def FD_SET_def link_dls_def put_dls_def UPDATE_MAXFD_def dlist_prepend_head_def
        TCM_INVALID_FD_def)
qed

lemma launch_silent:
  assumes "calls_succeed (kern C)" and "dheap s a = Some d" and "ei_path (eInfo d) \<noteq> []"
    and "\<not> has_flag (eInfo d) APPCFG_MESSAGING_CAPABLE" and "\<not> has_flag (eInfo d) APPCFG_SERVER" and "eid (eInfo d) \<noteq> ID_CONSOLE"
  shows "\<exists>w d'. launchApp C a s = Some (s\<lparr>world := w, dheap := (dheap s)(a \<mapsto> d')\<rparr>) \<and> dls_state d' = DLS_RUNNING \<and>
    eInfo d' = eInfo d \<and> serverFd d' = serverFd d"
proof -
  let ?si = "\<lparr>exe = take 1023 (ei_path (eInfo d)), args = Some (launch_args d), spawnMode = SPAWN_AND_RETURN, si_timeout = 0\<rparr>"
  have "\<And>w. fst (k_alloc (kern C) w)" using assms(1) by (simp add: calls_succeed_def)
  from spawn_returns[OF this, of ?si "world s"] obtain info w' where
    w': "prctl_spawnProcess (kern C) ?si (world s) = Some ((TCMRET_SUCCESS, Some info), w')" by auto
  then show ?thesis using assms(2-)
    by (intro exI[of _ w'] exI[of _ "after_spawn d TCMRET_SUCCESS (Some info)"])
      (simp add: launchApp_def on_world_run_def put_dls_def Let_def, simp add: after_spawn_def Let_def)
qed

text \<open>With the table it is shipped with, on a kernel whose calls succeed, the scheduler comes up and
  both entities of the table, lan and dhcpd, are launched in the first stage and count as
  running without a confirmation; although neither is a server, each has a server socket in the
  set of descriptors the scheduler selects on.\<close>

theorem shipped_boot:
  assumes "calls_succeed K"
  shows "\<exists>s a b da db. sched_boot \<lparr>kern = K, entities = liboal_entityInfoArray, nul_end = nul\<rparr> (start_state w) = Some (True, s) \<and>
    keepLooping s \<and> dlsInfoHead s = [a, b] \<and> dheap s a = Some da \<and> dheap s b = Some db \<and>
    ei_name (eInfo da) = ''lan'' \<and> ei_name (eInfo db) = ''dhcpd'' \<and>
    (\<forall>d \<in> {da, db}. dls_state d = DLS_RUNNING \<and> \<not> has_flag (eInfo d) APPCFG_SERVER \<and> serverFd d \<in> readFdsMaster s)"
proof -
  let ?C = "\<lparr>kern = K, entities = liboal_entityInfoArray, nul_end = nul\<rparr>"
  define lan where "lan = liboal_entityInfoArray ! 0"
  define dhcpd where "dhcpd = liboal_entityInfoArray ! 1"
  note t = lan_def dhcpd_def liboal_entityInfoArray_def ID_LAN_def ID_DHCPD_def
  have tab: "liboal_entityInfoArray = [lan, dhcpd]" by (simp add: t)
  have flags: "has_flag lan f = (and APPCFG_LAUNCH_IN_STAGE_1 f \<noteq> 0)" "has_flag dhcpd f = (and APPCFG_LAUNCH_IN_STAGE_1 f \<noteq> 0)" for f
    by (simp_all add: t has_flag_def)
  have ids: "eid lan = 1" "eid dhcpd = 2" "featureCompiled lan" "featureCompiled dhcpd" "ei_flags lan \<noteq> 0" "ei_flags dhcpd \<noteq> 0"
    "ei_path lan \<noteq> []" "ei_path dhcpd \<noteq> []" "ei_name lan = ''lan''" "ei_name dhcpd = ''dhcpd''"
    by (simp_all add: t APPCFG_LAUNCH_IN_STAGE_1_def)
  note fl = APPCFG_LAUNCH_IN_STAGE_1_def APPCFG_LAUNCH_ON_BOOT_def APPCFG_SERVER_def APPCFG_MESSAGING_CAPABLE_def
  have K: "calls_succeed (kern ?C)" using assms by simp
  have g: "tcmEid_getEntityInfo (entities ?C) (uint (GENERIC_EID 1)) = Some lan"
    "tcmEid_getEntityInfo (entities ?C) (uint (GENERIC_EID 2)) = Some dhcpd"
    by (simp_all add: tab ids GENERIC_EID_def EID_EID_MASK_def)
  have nc: "uint (1 :: UINT32) \<noteq> ID_CONSOLE" "uint (2 :: UINT32) \<noteq> ID_CONSOLE" by (simp_all add: ID_CONSOLE_def)
  obtain w0 where w0: "k_alloc K w = (True, w0)" using calls_alloc[OF assms] by blast
  obtain lfd w1 where lfd: "init_schedServerSocket K w0 = (lfd, w1)" "0 < lfd" "lfd < FD_SETSIZE"
    using calls_socket(2)[OF assms] by blast
  define s1 where "s1 = UPDATE_MAXFD lfd ((start_state w)\<lparr>world := w1, tmrHandle := Some \<lparr>events = [], numEvents = 0\<rparr>,
      readFdsMaster := {lfd}, ipcListenFd := lfd\<rparr>)"
  from insert_entity[OF K g(1) ids(5) nc(1), of s1] obtain fa wa ma where
    A: "0 < fa" "insertDlsInfoEntry ?C 1 s1 = Some (Some 1, s1\<lparr>world := wa, dheap := [1 \<mapsto> (new_dls lan 1)\<lparr>serverFd := fa\<rparr>],
      dlsInfoHead := [1], next_ptr := 2, readFdsMaster := {fa, lfd}, maxFd := ma\<rparr>)"
    by (auto simp: s1_def start_state_def UPDATE_MAXFD_def)
  define s2 where "s2 = s1\<lparr>world := wa, dheap := [1 \<mapsto> (new_dls lan 1)\<lparr>serverFd := fa\<rparr>],
      dlsInfoHead := [1], next_ptr := 2, readFdsMaster := {fa, lfd}, maxFd := ma\<rparr>"
  from insert_entity[OF K g(2) ids(6) nc(2), of s2] obtain fb wb mb where
    B: "0 < fb" "insertDlsInfoEntry ?C 2 s2 = Some (Some 2, s2\<lparr>world := wb, dheap := (dheap s2)(2 \<mapsto> (new_dls dhcpd 2)\<lparr>serverFd := fb\<rparr>),
      dlsInfoHead := [1, 2], next_ptr := 3, readFdsMaster := {fb, fa, lfd}, maxFd := mb\<rparr>)"
    by (auto simp: s2_def)
  define s3 where "s3 = s2\<lparr>world := wb, dheap := (dheap s2)(2 \<mapsto> (new_dls dhcpd 2)\<lparr>serverFd := fb\<rparr>),
      dlsInfoHead := [1, 2], next_ptr := 3, readFdsMaster := {fb, fa, lfd}, maxFd := mb\<rparr>"
  have i1: "initDls ?C 1 s1 = Some (TCMRET_SUCCESS, s3)"
    using A(2)[folded s2_def] B(2)[folded s3_def] by (simp add: initDls_def tab ids flags fl)
  have i: "init_launcher ?C (start_state w) = Some (TCMRET_SUCCESS, s3)"
    using w0 lfd i1 by (simp add: init_launcher_def timer_init_def on_world_def tcmTmr_init_def start_state_def FD_SET_def s1_def Let_def)
  have h3: "dheap s3 1 = Some ((new_dls lan 1)\<lparr>serverFd := fa\<rparr>)" "dheap s3 2 = Some ((new_dls dhcpd 2)\<lparr>serverFd := fb\<rparr>)"
    "dlsInfoHead s3 = [1, 2]" "readFdsMaster s3 = {fb, fa, lfd}" "keepLooping s3"
    by (simp_all add: s3_def s2_def s1_def start_state_def UPDATE_MAXFD_def)
  have nd: "eInfo (new_dls j e) = j" "dls_state (new_dls j e) = DLS_NOT_RUNNING" for j e by (simp_all add: new_dls_def)
  from launch_silent[OF K h3(1)] obtain wc da where
    c: "launchApp ?C 1 s3 = Some (s3\<lparr>world := wc, dheap := (dheap s3)(1 \<mapsto> da)\<rparr>)" "dls_state da = DLS_RUNNING" "eInfo da = lan" "serverFd da = fa"
    using ids flags by (auto simp: nd fl ID_CONSOLE_def)
  define s4 where "s4 = s3\<lparr>world := wc, dheap := (dheap s3)(1 \<mapsto> da)\<rparr>"
  have h4: "dheap s4 2 = Some ((new_dls dhcpd 2)\<lparr>serverFd := fb\<rparr>)" using h3 by (simp add: s4_def)
  from launch_silent[OF K h4] obtain wd db where
    e: "launchApp ?C 2 s4 = Some (s4\<lparr>world := wd, dheap := (dheap s4)(2 \<mapsto> db)\<rparr>)" "dls_state db = DLS_RUNNING" "eInfo db = dhcpd" "serverFd db = fb"
    using ids flags by (auto simp: nd fl ID_CONSOLE_def)
  define s5 where "s5 = s4\<lparr>world := wd, dheap := (dheap s4)(2 \<mapsto> db)\<rparr>"
  have h5: "dheap s5 1 = Some da" "dheap s5 2 = Some db" "dlsInfoHead s5 = [1, 2]" "readFdsMaster s5 = {fb, fa, lfd}" "keepLooping s5"
    using h3 by (simp_all add: s5_def s4_def)
  have l1: "app_launcher ?C 1 s3 = Some (TCMRET_SUCCESS, s5)"
    using c(1)[folded s4_def] e(1) h3 h4 by (simp add: app_launcher_def wants_stage_def nd flags fl s4_def[symmetric] s5_def[symmetric])
  have i2: "initDls ?C 2 s5 = Some (TCMRET_SUCCESS, s5)" by (simp add: initDls_def tab flags ids fl ID_CONSOLE_def)
  have l2: "app_launcher ?C 2 s5 = Some (TCMRET_SUCCESS, s5)"
    using h5 c e by (simp add: app_launcher_def wants_stage_def flags fl)
  have "sched_boot ?C (start_state w) = Some (True, s5)"
    using i l1 i2 l2 by (simp add: sched_boot_def del: One_nat_def)
  then show ?thesis using h5 c e ids
    by (intro exI[of _ s5] exI[of _ 1] exI[of _ 2] exI[of _ da] exI[of _ db]) (simp add: flags fl)
qed

theorem shipped_boot_witness:
  "\<exists>s. sched_boot \<lparr>kern = duplex_kernel, entities = liboal_entityInfoArray, nul_end = False\<rparr> (start_state ([], [])) = Some (True, s) \<and>
     length (dlsInfoHead s) = 2"
proof -
  have "calls_succeed duplex_kernel" by (simp add: calls_succeed_def duplex_kernel_def quiet_kernel_def FD_SETSIZE_def)
  from shipped_boot[OF this, of False "([], [])"] show ?thesis by force
qed

text \<open>A run for the invariant: start-up with an empty table, then a signal.\<close>

theorem sched_reachable_invariant_witness:
  "\<exists>s0. sched_boot \<lparr>kern = duplex_kernel, entities = [], nul_end = True\<rparr> (start_state ([], [])) = Some (True, s0) \<and>
     distinct (dlsInfoHead (terminalSignalHandler s0)) \<and> \<not> keepLooping (terminalSignalHandler s0)"
proof -
  let ?C = "\<lparr>kern = duplex_kernel, entities = [], nul_end = True\<rparr>"
  have "\<exists>s0. sched_boot ?C (start_state ([], [])) = Some (True, s0)"
    by (simp add: sched_boot_def init_launcher_def timer_init_def on_world_def tcmTmr_init_def init_schedServerSocket_def
        duplex_kernel_def quiet_kernel_def start_state_def FD_SET_def FD_SETSIZE_def initDls_def app_launcher_def UPDATE_MAXFD_def)
  then obtain s0 where b: "sched_boot ?C (start_state ([], [])) = Some (True, s0)" by blast
  have "(sched_step ?C)\<^sup>*\<^sup>* s0 (terminalSignalHandler s0)" by (rule r_into_rtranclp) (rule sched_step.signal)
  from sched_reachable_invariant[OF b this] b show ?thesis by (auto simp: terminalSignalHandler_def)
qed

end
