(* ===== verification/Conf_Lines.thy ===== *)
theory Conf_Lines
  imports Conf_Text
begin

text \<open>
  How the reader takes one line of a document: what \<open>fgets\<close> returns, which of the three kinds
  the line is, and the state it leaves. Then the four changes of the memory a line can make:
  a new application, a new row, a parameter of an application and a parameter of a row.
\<close>

section \<open>Splitting the text\<close>

definition plain :: "string \<Rightarrow> bool" where
  "plain s \<longleftrightarrow> NEWLINE \<notin> set s \<and> NUL \<notin> set s"

lemma plain_append [simp]: "plain (s @ t) \<longleftrightarrow> plain s \<and> plain t"
  by (auto simp: plain_def)

lemma plain_Cons [simp]: "plain (c # s) \<longleftrightarrow> c \<noteq> NEWLINE \<and> c \<noteq> NUL \<and> plain s"
  by (auto simp: plain_def)

lemma plain_Nil [simp]: "plain []"
  by (simp add: plain_def)

lemma take_line_plain:
  "NEWLINE \<notin> set s \<Longrightarrow> length s < n \<Longrightarrow> take_line n (s @ NEWLINE # rest) = (s @ [NEWLINE], rest)"
proof (induction s arbitrary: n)
  case Nil
  then show ?case by (cases n) auto
next
  case (Cons c s)
  then show ?case by (cases n) auto
qed

lemma read_lines_step:
  assumes "plain s" and "length s < 254" and "conf_line tab l (s @ [NEWLINE]) = Some (Inr l')"
  shows "read_lines tab l (s @ NEWLINE # rest) = read_lines tab l' rest"
proof -
  have "take_line (MAX_CONF_LINE - 1) (s @ NEWLINE # rest) = (s @ [NEWLINE], rest)"
    using assms by (intro take_line_plain) (simp_all add: plain_def MAX_CONF_LINE_def)
  moreover have "cstr (s @ [NEWLINE]) = s @ [NEWLINE]"
    using assms(1) by (intro cstr_ident) (simp add: plain_def)
  ultimately show ?thesis using assms(3) by (subst read_lines.simps) simp
qed

lemma strchr_found: "c \<notin> set b \<Longrightarrow> strchr (b @ c # s) c = Some (b, s)"
  by (induction b) auto

lemma strchr_None: "strchr s c = None \<longleftrightarrow> c \<notin> set s"
  by (induction s) (auto split: option.splits)

lemma chop_newline_line [simp]: "chop_newline (v @ [NEWLINE]) = v"
  by (simp add: chop_newline_def)

section \<open>The three kinds of lines\<close>

lemma conf_line_app:
  "conf_line tab l (''['' @ n @ '']'' @ [NEWLINE]) = app_line tab l (''['' @ n @ '']'' @ [NEWLINE])"
  by (simp add: conf_line_def)

lemma digits_apart:
  "CHR ''='' \<notin> set (show_nat n)" "CHR ''>'' \<notin> set (show_nat n)" "plain (show_nat n)"
  using show_nat_digits[of n] by (auto simp: is_digit_def plain_def)

lemma conf_line_row:
  "conf_line tab l (''<'' @ show_nat n @ ''>'' @ [NEWLINE]) = row_line l (show_nat n @ ''>'' @ [NEWLINE])"
proof -
  have "strchr (''<'' @ show_nat n @ ''>'' @ [NEWLINE]) (CHR ''='') = None"
    using digits_apart(1)[of n] by (simp only: strchr_None) simp
  then show ?thesis by (simp add: conf_line_def)
qed

lemma conf_line_para:
  assumes "k = [] \<or> hd k \<noteq> CHR ''[''"
  shows "conf_line tab l (entry_line (k, v)) = para_line l (entry_line (k, v))"
proof -
  have "strchr (entry_line (k, v)) (CHR ''='') \<noteq> None" unfolding strchr_None by (simp add: entry_line_def)
  moreover have "hd (entry_line (k, v)) \<noteq> CHR ''[''"
    using assms by (cases k) (auto simp: entry_line_def)
  ultimately show ?thesis by (auto simp: conf_line_def split: option.splits)
qed

lemma strchr_entry:
  "CHR ''='' \<notin> set k \<Longrightarrow> strchr (entry_line (k, v)) (CHR ''='') = Some (k, v @ [NEWLINE])"
  using strchr_found[of "CHR ''=''" k "v @ [NEWLINE]"] by (simp add: entry_line_def)

lemma row_number_text: "strchr (show_nat n @ ''>'' @ [NEWLINE]) (CHR ''>'') = Some (show_nat n, [NEWLINE])"
  using strchr_found[OF digits_apart(2)] by simp

lemma section_name:
  "CHR '']'' \<notin> set n \<Longrightarrow> strchr (''['' @ n @ '']'' @ [NEWLINE]) (CHR '']'') = Some (CHR ''['' # n, [NEWLINE])"
  using strchr_found[of "CHR '']''" "CHR ''['' # n" "[NEWLINE]"] by simp

end
