(* ===== verification/Conf_Grow.thy ===== *)
theory Conf_Grow
  imports Conf_Lines
begin

text \<open>
  The four changes of the memory that a line of the file makes, each at the end of the tree: a
  new application, a new row of the last application, and a new last parameter of the last
  application or of its last row; and the document of the memory after each of them.
\<close>

section \<open>Documents of similar memories\<close>

lemma doc_of_snoc: "doc_of m (T @ [t]) = doc_of m T @ [app_doc m (length T) t]"
  by (simp add: doc_of_def nth_append)

lemma length_doc_of [simp]: "length (doc_of m T) = length T"
  by (simp add: doc_of_def)

lemma app_doc_frame:
  assumes "app_name (apps m' ! i) = app_name (apps m ! i)" and "app_id (apps m' ! i) = app_id (apps m ! i)"
    and "\<forall>r \<in> fst ` set (snd t). row_id (rows m' ! r) = row_id (rows m ! r)"
    and "\<forall>j \<in> set (fst t) \<union> set (concat (map snd (snd t))). paras m' ! j = paras m ! j"
  shows "app_doc m' i t = app_doc m i t"
proof -
  have "row_doc m' a e = row_doc m a e" if "e \<in> set (snd t)" for a e
  proof -
    obtain r ks where e: "e = (r, ks)" by (cases e)
    have "r \<in> fst ` set (snd t)" using that unfolding e by (metis fst_conv image_eqI)
    then have "row_id (rows m' ! r) = row_id (rows m ! r)" using assms(3) by blast
    moreover have "set ks \<subseteq> set (concat (map snd (snd t)))" using that unfolding e by force
    then have "\<forall>j \<in> set ks. paras m' ! j = paras m ! j" using assms(4) by blast
    ultimately show ?thesis by (simp add: e row_doc_def row_number_def entry_def)
  qed
  then show ?thesis using assms by (auto simp: app_doc_def entry_def)
qed

lemma doc_of_frame:
  assumes "\<forall>i < length T. app_name (apps m' ! i) = app_name (apps m ! i) \<and> app_id (apps m' ! i) = app_id (apps m ! i)"
    and "\<forall>r \<in> set (tree_rows T). row_id (rows m' ! r) = row_id (rows m ! r)"
    and "\<forall>j \<in> set (tree_paras T). paras m' ! j = paras m ! j"
  shows "doc_of m' T = doc_of m T"
proof -
  have "app_doc m' i (T ! i) = app_doc m i (T ! i)" if "i < length T" for i
  proof (rule app_doc_frame)
    have "T ! i \<in> set T" using that by simp
    then show "\<forall>r \<in> fst ` set (snd (T ! i)). row_id (rows m' ! r) = row_id (rows m ! r)"
      using assms(2) by (auto simp: tree_rows_def case_prod_unfold)
    show "\<forall>j \<in> set (fst (T ! i)) \<union> set (concat (map snd (snd (T ! i)))). paras m' ! j = paras m ! j"
      using \<open>T ! i \<in> set T\<close> assms(3) by (fastforce simp: tree_paras_def case_prod_unfold)
  qed (use that assms(1) in auto)
  then show ?thesis by (simp add: doc_of_def)
qed

section \<open>A new application\<close>

definition new_app :: "shm \<Rightarrow> nat \<Rightarrow> buf \<Rightarrow> int \<Rightarrow> shm" where
  "new_app m i n a = m\<lparr>apps := (apps m)[i := (apps m ! i)\<lparr>app_name := n, app_id := a\<rparr>]\<rparr>"

lemma new_app_simps [simp]:
  "rows (new_app m i n a) = rows m" "paras (new_app m i n a) = paras m"
  "length (apps (new_app m i n a)) = length (apps m)"
  by (simp_all add: new_app_def)

lemma new_app_shape: "same_shape m (new_app m i n a)"
  by (simp add: same_shape_def)

lemma new_app_nodes:
  "i < length (apps m) \<Longrightarrow> apps (new_app m i n a) ! i = (apps m ! i)\<lparr>app_name := n, app_id := a\<rparr>"
  "k \<noteq> i \<Longrightarrow> apps (new_app m i n a) ! k = apps m ! k"
  by (simp_all add: new_app_def)

lemma app_repr_new_app [simp]: "app_repr (new_app m i n a) = app_repr m"
  by (simp add: fun_eq_iff app_repr_def same_shape_at[OF new_app_shape])

lemma app_numbered_new_app [simp]: "app_numbered (new_app m i n a) = app_numbered m"
  by (simp add: fun_eq_iff app_numbered_def plist_numbered_def row_number_def)

lemma new_app_numbered:
  assumes R: "represents m T" and N: "numbered m T" and len: "length T < length (apps m)"
    and zero: "app_para (apps m ! length T) = 0" "app_row (apps m ! length T) = 0"
    and n: "buf_ok MAX_NAME_LEN n" and a: "app_range a"
    and new: "\<forall>k < length T. app_id (apps m ! k) \<noteq> a"
  defines "m' \<equiv> new_app m (length T) n a"
  shows "represents m' (T @ [([], [])])" and "numbered m' (T @ [([], [])])"
    and "doc_of m' (T @ [([], [])]) = doc_of m T @ [(cstr n, [], [])]"
proof -
  note nd = new_app_nodes(1)[OF len, of n a, folded m'_def] new_app_nodes(2)[of _ "length T" m n a, folded m'_def]
  have an: "a \<noteq> - 1" using a by (simp add: app_range_def)
  show "represents m' (T @ [([], [])])"
    unfolding represents_def
  proof (intro conjI allI impI)
    show "apps_ok m' (length (T @ [([], [])]))"
      unfolding apps_ok_def
    proof (intro conjI allI impI)
      fix i assume "i < length (apps m')"
      then have "i < length (apps m)" by (simp add: m'_def)
      then have old: "app_next (apps m ! i) = (if Suc i < length (apps m) then app_off m (Suc i) else 0)"
        "app_live m i \<longleftrightarrow> i < length T" using R by (auto simp: represents_def apps_ok_def)
      show "app_next (apps m' ! i) = (if Suc i < length (apps m') then app_off m' (Suc i) else 0)"
        using old(1) same_shape_at(4)[OF new_app_shape, of m "length T" n a] nd
        by (cases "i = length T") (simp_all add: m'_def)
      show "app_live m' i \<longleftrightarrow> i < length (T @ [([], [])])"
        using old(2) nd an by (cases "i = length T") auto
    qed (use len in \<open>auto simp: m'_def\<close>)
    show "app_repr m' (apps m' ! i) ((T @ [([], [])]) ! i)" if "i < length (T @ [([], [])])" for i
    proof (cases "i = length T")
      case True
      then show ?thesis using nd zero by (simp add: app_repr_def)
    next
      case False
      with that have "i < length T" by simp
      then show ?thesis using R nd(2)[OF False] by (simp add: represents_def nth_append m'_def)
    qed
    show "bufs_ok m'"
    proof -
      have "buf_ok MAX_NAME_LEN (app_name (apps m' ! i))" if "i < length (apps m)" for i
        using R n nd that by (cases "i = length T") (auto simp: represents_def bufs_ok_def)
      then show ?thesis using R by (auto simp: represents_def bufs_ok_def m'_def in_set_conv_nth)
    qed
  qed (use R in \<open>simp_all add: represents_def\<close>)
  have ids: "map app_id (take (length T) (apps m')) = map app_id (take (length T) (apps m))"
    using len by (intro nth_equalityI) (auto simp: new_app_nodes(2) m'_def)
  have take: "take (Suc (length T)) (apps m') = take (length T) (apps m') @ [apps m' ! length T]"
    using len by (simp add: take_Suc_conv_app_nth m'_def)
  have "a \<notin> set (map app_id (take (length T) (apps m)))"
    using new len by (fastforce simp: in_set_conv_nth)
  moreover have "distinct (map app_id (take (length T) (apps m)))" using N by (simp add: numbered_def)
  ultimately have dist: "distinct (map app_id (take (length (T @ [([], [])])) (apps m')))"
    using nd(1) by (simp only: length_append_singleton take map_append ids distinct_append) simp
  have "0 < app_id (apps m' ! i) \<and> app_id (apps m' ! i) < ID_END \<and>
      app_numbered m' (app_id (apps m' ! i)) ((T @ [([], [])]) ! i)" if "i < length (T @ [([], [])])" for i
  proof (cases "i = length T")
    case True
    then show ?thesis using nd a by (simp add: app_numbered_def plist_numbered_def app_range_def)
  next
    case False
    with that have "i < length T" by simp
    then show ?thesis using N nd(2)[OF False] by (simp add: numbered_def nth_append m'_def)
  qed
  with dist show "numbered m' (T @ [([], [])])" unfolding numbered_def by blast
  have "doc_of m' T = doc_of m T" by (rule doc_of_frame) (auto simp: m'_def new_app_nodes(2))
  then show "doc_of m' (T @ [([], [])]) = doc_of m T @ [(cstr n, [], [])]"
    unfolding doc_of_snoc by (simp add: app_doc_def nd)
qed

section \<open>A parameter of the last application\<close>

definition append_own :: "shm \<Rightarrow> nat \<Rightarrow> plist \<Rightarrow> nat \<Rightarrow> int \<Rightarrow> buf \<Rightarrow> buf \<Rightarrow> shm" where
  "append_own m i ps j pid n v =
     (let m1 = m\<lparr>paras := (paras m)[j := \<lparr>para_id = pid, para_name = n, para_val = v, para_next = 0\<rparr>]\<rparr> in
      if ps = [] then m1\<lparr>apps := (apps m1)[i := (apps m1 ! i)\<lparr>app_para := para_off m j\<rparr>]\<rparr>
      else m1\<lparr>paras := (paras m1)[last ps := (paras m1 ! last ps)\<lparr>para_next := para_off m j\<rparr>]\<rparr>)"

lemma append_own_fields:
  fixes m i ps j pid n v
  defines "m' \<equiv> append_own m i ps j pid n v"
  assumes "j < length (paras m)" "ps \<noteq> [] \<longrightarrow> last ps \<noteq> j \<and> last ps < length (paras m)" "i < length (apps m)"
  shows "rows m' = rows m"
    and "apps m' ! q = (if q = i \<and> ps = [] then (apps m ! i)\<lparr>app_para := para_off m j\<rparr> else apps m ! q)"
    and "paras m' ! j = \<lparr>para_id = pid, para_name = n, para_val = v, para_next = 0\<rparr>"
    and "k \<noteq> j \<Longrightarrow> paras m' ! k = (if ps \<noteq> [] \<and> k = last ps then (paras m ! k)\<lparr>para_next := para_off m j\<rparr> else paras m ! k)"
    and "same_shape m m'"
  using assms by (auto simp: m'_def append_own_def Let_def same_shape_def nth_list_update)

text \<open>What stays the same for the other applications.\<close>

lemma app_repr_frame:
  assumes "app_repr m a t" and S: "same_shape m m'" and a: "app_para a' = app_para a" "app_row a' = app_row a"
    and rows: "\<forall>r \<in> fst ` set (snd t). rows m' ! r = rows m ! r"
    and paras: "\<forall>j \<in> set (fst t) \<union> set (concat (map snd (snd t))). paras m' ! j = paras m ! j"
  shows "app_repr m' a' t"
  unfolding app_repr_def a
proof (intro conjI ballI, safe)
  show "pchain m' (app_para a) (fst t)"
    using assms(1) paras by (intro pchain_frame[OF _ S, of _ "fst t"]) (auto simp: app_repr_def)
  show "rchain m' (app_row a) (map fst (snd t))"
    using assms(1) rows by (intro rchain_frame[OF _ S, of _ "map fst (snd t)"]) (auto simp: app_repr_def)
  fix r ks assume rk: "(r, ks) \<in> set (snd t)"
  then have "rows m' ! r = rows m ! r" using rows by force
  moreover have "pchain m' (row_para (rows m ! r)) ks"
    using assms(1) paras rk by (intro pchain_frame[OF _ S, of _ ks]) (fastforce simp: app_repr_def)+
  ultimately show "pchain m' (row_para (rows m' ! r)) ks" by simp
qed

lemma append_own_numbered:
  assumes R: "represents m (T @ [(ps, [])])" and N: "numbered m (T @ [(ps, [])])"
    and j: "j < length (paras m)" "\<not> para_live m j"
    and n: "buf_ok MAX_NAME_LEN n" and v: "buf_ok MAX_VALUE_LEN v"
    and a: "app_id (apps m ! length T) = a" and len: "length ps + 1 < 256"
  defines "m' \<equiv> append_own m (length T) ps j (GET_PARA_ID a 0 (int (length ps) + 1)) n v"
  shows "represents m' (T @ [(ps @ [j], [])])" and "numbered m' (T @ [(ps @ [j], [])])"
    and "doc_of m' (T @ [(ps @ [j], [])]) =
       doc_of m T @ [(cstr (app_name (apps m ! length T)), map (entry m) ps @ [(cstr n, cstr v)], [])]"
proof -
  let ?i = "length T" and ?T = "T @ [(ps, [])]" and ?T' = "T @ [(ps @ [j], [])]"
    and ?pid = "GET_PARA_ID a 0 (int (length ps) + 1)"
  have arange: "app_range a" using numbered_app(1)[OF N, of ?i] a by simp
  have i: "?i < length (apps m)" using represents_app(1)[OF R, of ?i] by simp
  have "?pid = a * 65536 + 0 * 256 + (int (length ps) + 1)" using len by (intro ids_exact(2)[OF arange]) auto
  then have pid: "?pid \<noteq> - 1" using arange by (simp add: app_range_def)
  have "j \<notin> set (tree_paras ?T)" using tree_paras_live(1)[OF R, of j] j(2) by blast
  then have nj: "j \<notin> set (tree_paras T)" "j \<notin> set ps" by auto
  have dist: "distinct (tree_paras ?T)" "distinct (tree_rows ?T)" using R by (simp_all add: represents_def)
  then have ps: "distinct ps" "set ps \<inter> set (tree_paras T) = {}" by auto
  have lastps: "ps \<noteq> [] \<longrightarrow> last ps \<noteq> j \<and> last ps < length (paras m)"
  proof
    assume "ps \<noteq> []"
    then have l: "last ps \<in> set ps" by simp
    then have "last ps < length (paras m)" by (intro tree_paras_live(2)[OF R]) auto
    with l nj show "last ps \<noteq> j \<and> last ps < length (paras m)" by auto
  qed
  note fl = append_own_fields[OF j(1) lastps i, where pid = ?pid and n = n and v = v, folded m'_def]
  have paras: "paras m' ! k = paras m ! k" if "k \<in> set (tree_paras T)" for k
  proof -
    have "k \<noteq> j" using that nj by auto
    moreover have "ps \<noteq> [] \<longrightarrow> k \<noteq> last ps" using that ps(2) by (meson disjoint_iff last_in_set)
    ultimately have "k \<noteq> j" "ps \<noteq> [] \<longrightarrow> k \<noteq> last ps" by blast+
    then show ?thesis by (auto simp: fl(4))
  qed
  have apps: "app_id (apps m' ! k) = app_id (apps m ! k)" "app_name (apps m' ! k) = app_name (apps m ! k)"
    "app_next (apps m' ! k) = app_next (apps m ! k)" "app_row (apps m' ! k) = app_row (apps m ! k)" for k
    by (simp_all add: fl(2))
  have other: "app_repr m' (apps m' ! k) (T ! k)" if k: "k < length T" for k
  proof (rule app_repr_frame[OF _ fl(5)])
    show "app_repr m (apps m ! k) (T ! k)" using R k by (auto simp: represents_def nth_append dest: spec[of _ k])
    have "T ! k \<in> set T" using k by simp
    then show "\<forall>j \<in> set (fst (T ! k)) \<union> set (concat (map snd (snd (T ! k)))). paras m' ! j = paras m ! j"
      using paras by (auto simp: tree_paras_def case_prod_unfold)
  qed (use k in \<open>simp_all add: fl(1,2)\<close>)
  have chains: "pchain m (app_para (apps m ! ?i)) ps" "rchain m (app_row (apps m ! ?i)) []"
    using represents_app(2,3)[OF R, of ?i] by simp_all
  have new: "pchain m' (if ps = [] then para_off m j else app_para (apps m ! ?i)) (ps @ [j])"
    unfolding same_shape_at[OF fl(5)]
  proof (rule path_insert[OF chains(1)])
    show "para_live m' j" using pid by (simp add: fl(3))
    show "para_live m' k = para_live m k" if "k \<in> set ps \<union> set []" for k
    proof -
      have "k \<noteq> j" using that nj by auto
      then show ?thesis by (simp add: fl(4))
    qed
    show "para_next (paras m' ! k) = para_next (paras m ! k)" if "k \<in> set (butlast ps) \<union> set []" for k
    proof -
      have "k \<in> set ps" "k \<noteq> last ps"
        using that ps(1) butlast_last_distinct[of ps k] by (auto dest: in_set_butlastD)
      moreover from this(1) have "k \<noteq> j" using nj by auto
      ultimately show ?thesis by (simp add: fl(4))
    qed
    show "para_next (paras m' ! last ps) = para_off m j" if "ps \<noteq> []"
      using that lastps by (simp add: fl(4))
  qed (use j fl(3) ps in auto)
  have aoff: "app_para (apps m' ! ?i) = (if ps = [] then para_off m j else app_para (apps m ! ?i))"
    by (simp add: fl(2))
  show "represents m' ?T'"
    unfolding represents_def
  proof (intro conjI allI impI)
    have "apps_ok m (length ?T')" using R by (simp add: represents_def)
    then show "apps_ok m' (length ?T')"
      using fl(5) by (simp add: apps_ok_def apps same_shape_at[OF fl(5)] same_shape_def)
    show "app_repr m' (apps m' ! k) (?T' ! k)" if "k < length ?T'" for k
      using that other[of k] new aoff chains(2) apps(4)[of ?i]
      by (cases "k = ?i") (auto simp: app_repr_def nth_append)
    show "distinct (tree_rows ?T')" "distinct (tree_paras ?T')" using dist nj by auto
    have "buf_ok MAX_NAME_LEN (para_name (paras m' ! k)) \<and> buf_ok MAX_VALUE_LEN (para_val (paras m' ! k))"
      if k: "k < length (paras m)" for k
      using R k n v by (cases "k = j") (auto simp: fl(3,4) represents_def bufs_ok_def)
    then show "bufs_ok m'"
      using R fl(5) apps(2) by (simp add: represents_def bufs_ok_def all_set_conv_all_nth same_shape_def)
  qed
  have pn: "plist_numbered m' a 0 (ps @ [j])"
  proof -
    have "para_id (paras m' ! (ps ! k)) = para_id (paras m ! (ps ! k))" if "k < length ps" for k
    proof -
      have "ps ! k \<noteq> j" using nj that by auto
      then show ?thesis by (simp add: fl(4))
    qed
    moreover have "plist_numbered m a 0 ps" using numbered_app(2)[OF N, of ?i] a by simp
    ultimately show ?thesis using len by (auto simp: plist_numbered_def nth_append fl(3) less_Suc_eq)
  qed
  have ids: "map app_id (take (length ?T') (apps m')) = map app_id (take (length ?T') (apps m))"
    using fl(5) by (intro nth_equalityI) (auto simp: apps same_shape_def)
  have "0 < app_id (apps m' ! k) \<and> app_id (apps m' ! k) < ID_END \<and>
      app_numbered m' (app_id (apps m' ! k)) (?T' ! k)" if k: "k < length ?T'" for k
  proof (cases "k = ?i")
    case True
    then show ?thesis using arange pn a by (simp add: apps app_numbered_def app_range_def)
  next
    case False
    with k have k': "k < length T" by simp
    then have old: "0 < app_id (apps m ! k) \<and> app_id (apps m ! k) < ID_END \<and>
        app_numbered m (app_id (apps m ! k)) (T ! k)"
      using N by (auto simp: numbered_def nth_append dest: spec[of _ k])
    have "T ! k \<in> set T" using k' by simp
    note mem = tree_paras_member[OF this]
    have "app_numbered m' (app_id (apps m ! k)) (T ! k)"
    proof (rule app_numbered_frame)
      show "app_numbered m (app_id (apps m ! k)) (T ! k)" using old by blast
      show "paras m' ! j = paras m ! j" if "j \<in> set (fst (T ! k))" for j using mem(1) paras that by blast
      show "paras m' ! j = paras m ! j" if "(r, ks) \<in> set (snd (T ! k))" "j \<in> set ks" for r ks j
        using mem(2)[OF that(1)] paras that(2) by blast
    qed (simp add: fl(1))
    then show ?thesis using old k' by (simp add: apps nth_append)
  qed
  then show "numbered m' ?T'" using N ids unfolding numbered_def by simp
  have "doc_of m' T = doc_of m T" by (rule doc_of_frame) (auto simp: fl(1) apps paras)
  moreover have "map (entry m') ps = map (entry m) ps"
  proof (rule map_cong[OF refl])
    fix k assume "k \<in> set ps"
    then have "k \<noteq> j" using nj by auto
    then show "entry m' k = entry m k" by (simp add: entry_def fl(4))
  qed
  ultimately show "doc_of m' ?T' =
       doc_of m T @ [(cstr (app_name (apps m ! ?i)), map (entry m) ps @ [(cstr n, cstr v)], [])]"
    unfolding doc_of_snoc by (simp add: app_doc_def apps entry_def fl(3) del: map_eq_conv)
qed

section \<open>Rows of the last application\<close>

text \<open>A change of one row only, seen in the document.\<close>

lemma row_frame_doc:
  assumes F: "row_frame m m' T ps L [] []"
  shows "doc_of m' (T @ [(ps, L @ M')]) = doc_of m T @
     [(cstr (app_name (apps m ! length T)), map (entry m) ps,
       map (row_doc m (app_id (apps m ! length T))) L @ map (row_doc m' (app_id (apps m ! length T))) M')]"
proof -
  note F' = row_frameD[OF F]
  have "doc_of m' T = doc_of m T"
    by (rule doc_of_frame) (auto simp: F'(3,6,7,10) other_rows_def other_paras_def)
  moreover have "map (entry m') ps = map (entry m) ps"
    by (rule map_cong[OF refl]) (simp add: entry_def F'(10) other_paras_def)
  moreover have "map (row_doc m' b) L = map (row_doc m b) L" for b
  proof (rule map_cong[OF refl])
    fix e assume "e \<in> set L"
    then have e: "(fst e, snd e) \<in> set L \<union> set []" by simp
    have o: "fst e \<in> other_rows T L [] []" "\<And>j. j \<in> set (snd e) \<Longrightarrow> j \<in> other_paras T ps L [] []"
      using other_row[OF e] by blast+
    have "map (entry m') (snd e) = map (entry m) (snd e)"
      by (rule map_cong[OF refl]) (simp add: entry_def F'(10)[OF o(2)])
    then show "row_doc m' b e = row_doc m b e"
      by (simp add: row_doc_def case_prod_unfold row_number_def F'(7)[OF o(1)])
  qed
  ultimately show ?thesis
    unfolding doc_of_snoc by (simp add: app_doc_def F'(3,6) del: map_eq_conv)
qed

end
