(* ===== verification/Conf_Load.thy ===== *)
theory Conf_Load
  imports Conf_Grow
begin

text \<open>
  The loader: its variables between two lines of the file, what each kind of line does to them,
  and the result for a whole document: a memory that represents exactly that document.
\<close>

section \<open>The state between two lines\<close>

text \<open>The name stored with an application is the one that the entity table has for its id.\<close>

definition named :: "tcmEntityInfo list \<Rightarrow> shm \<Rightarrow> nat \<Rightarrow> bool" where
  "named tab m k \<longleftrightarrow>
     (\<forall>i < k. config_api_get_app_id_by_name tab (cstr (app_name (apps m ! i))) = Some (app_id (apps m ! i)))"

definition doc_rows :: "sect list \<Rightarrow> nat" where
  "doc_rows d = sum_list (map (\<lambda>s. length (snd (snd s))) d)"

definition rows_paras :: "(int \<times> entries) list \<Rightarrow> nat" where
  "rows_paras rws = sum_list (map (\<lambda>r. length (snd r)) rws)"

definition doc_paras :: "sect list \<Rightarrow> nat" where
  "doc_paras d = sum_list (map (\<lambda>s. length (fst (snd s)) + rows_paras (snd (snd s))) d)"

lemma doc_counts [simp]:
  "doc_rows [] = 0" "doc_rows (d @ [(n, es, rws)]) = doc_rows d + length rws"
  "doc_paras [] = 0" "doc_paras (d @ [(n, es, rws)]) = doc_paras d + length es + rows_paras rws"
  "rows_paras [] = 0" "rows_paras (rws @ [(x, xs)]) = rows_paras rws + length xs"
  by (simp_all add: doc_rows_def doc_paras_def rows_paras_def)

definition current :: "plist \<times> (nat \<times> plist) list \<Rightarrow> plist" where
  "current t = (if snd t = [] then fst t else snd (last (snd t)))"

definition at_end :: "loader \<Rightarrow> tree \<Rightarrow> bool" where
  "at_end l T \<longleftrightarrow> pre_app l = Some (length T - 1) \<and> pre_row l = opt_last (map fst (snd (last T))) \<and>
     pre_para l = opt_last (current (last T)) \<and> parameter l = int (length (current (last T))) + 1 \<and>
     row_num l = (if snd (last T) = [] then 0
       else row_number (mem l) (app_id (apps (mem l) ! (length T - 1))) (fst (last (snd (last T)))))"

definition rest_free :: "loader \<Rightarrow> bool" where
  "rest_free l \<longleftrightarrow>
     (\<forall>i. napp l \<le> i \<and> i < length (apps (mem l)) \<longrightarrow> app_para (apps (mem l) ! i) = 0 \<and> app_row (apps (mem l) ! i) = 0) \<and>
     (\<forall>r. nrow l \<le> r \<and> r < length (rows (mem l)) \<longrightarrow> rows (mem l) ! r = \<lparr>row_id = - 1, row_para = 0, row_next = 0\<rparr>) \<and>
     (\<forall>j. npara l \<le> j \<and> j < length (paras (mem l)) \<longrightarrow> para_id (paras (mem l) ! j) = - 1 \<and> para_next (paras (mem l) ! j) = 0)"

definition loaded :: "tcmEntityInfo list \<Rightarrow> shm \<Rightarrow> loader \<Rightarrow> tree \<Rightarrow> sect list \<Rightarrow> bool" where
  "loaded tab m0 l T d \<longleftrightarrow> represents (mem l) T \<and> numbered (mem l) T \<and> named tab (mem l) (length T) \<and>
     doc_of (mem l) T = d \<and> same_shape m0 (mem l) \<and> rest_free l \<and>
     napp l = length T \<and> nrow l = doc_rows d \<and> npara l = doc_paras d \<and> (T \<noteq> [] \<longrightarrow> at_end l T)"

lemma doc_of_snocD:
  assumes "doc_of m T = D @ [s]"
  obtains T0 ps rs where "T = T0 @ [(ps, rs)]" "doc_of m T0 = D" "app_doc m (length T0) (ps, rs) = s"
proof (cases T rule: rev_cases)
  case Nil
  with assms show ?thesis by (simp add: doc_of_def)
next
  case (snoc T0 t)
  with assms that[of T0 "fst t" "snd t"] show ?thesis by (simp add: doc_of_snoc)
qed

section \<open>A section line\<close>

lemma app_line_run:
  assumes "CHR '']'' \<notin> set n" and "NUL \<notin> set n" and "length n \<le> 239"
    and i: "napp l < length (apps (mem l))" and b: "buf_ok MAX_NAME_LEN (app_name (apps (mem l) ! napp l))"
    and a: "config_api_get_app_id_by_name tab n = Some a" "a \<noteq> - 1"
  obtains nb where "buf_ok MAX_NAME_LEN nb" "cstr nb = n"
    "conf_line tab l (''['' @ n @ '']'' @ [NEWLINE]) = Some (Inr (l\<lparr>mem := new_app (mem l) (napp l) nb a,
       napp := Suc (napp l), pre_app := Some (napp l), row_num := 0, parameter := 1, pre_para := None,
       pre_row := None\<rparr>))"
proof -
  have "buf_ok (Suc 239) (app_name (apps (mem l) ! napp l))" using b by (simp add: MAX_NAME_LEN_def)
  from strncpy_field[OF this assms(2)] obtain nb where
    nb: "strncpy (app_name (apps (mem l) ! napp l)) n 239 = Some nb" "buf_ok (Suc 239) nb" "cstr nb = take 239 n" .
  have "(mem l)\<lparr>apps := (apps (mem l))[napp l := (apps (mem l) ! napp l)\<lparr>app_name := nb, app_id := a\<rparr>]\<rparr>
      = new_app (mem l) (napp l) nb a" by (simp add: new_app_def)
  then have "conf_line tab l (''['' @ n @ '']'' @ [NEWLINE]) = Some (Inr (l\<lparr>mem := new_app (mem l) (napp l) nb a,
       napp := Suc (napp l), pre_app := Some (napp l), row_num := 0, parameter := 1, pre_para := None,
       pre_row := None\<rparr>))"
    using section_name[OF assms(1)] i nb assms(3) a
    unfolding conf_line_app app_line_def by (simp add: Let_def set_app_def MAX_NAME_LEN_def)
  with nb assms(3) that show ?thesis by (simp add: MAX_NAME_LEN_def)
qed

lemma load_app:
  assumes L: "loaded tab m0 l T d" and n: "CHR '']'' \<notin> set n" "NUL \<notin> set n" "length n \<le> 239"
    and a: "config_api_get_app_id_by_name tab n = Some a" "app_range a"
    and new: "\<forall>s \<in> set d. config_api_get_app_id_by_name tab (fst s) \<noteq> Some a"
    and room: "length d < length (apps m0)"
  shows "\<exists>l'. conf_line tab l (''['' @ n @ '']'' @ [NEWLINE]) = Some (Inr l') \<and>
    loaded tab m0 l' (T @ [([], [])]) (d @ [(n, [], [])])"
proof -
  have R: "represents (mem l) T" and N: "numbered (mem l) T" and nm: "named tab (mem l) (length T)"
    and d: "doc_of (mem l) T = d" and S: "same_shape m0 (mem l)" and F: "rest_free l"
    and cnt: "napp l = length T" "nrow l = doc_rows d" "npara l = doc_paras d"
    using L by (simp_all add: loaded_def)
  have lenT: "length T = length d" using d length_doc_of[of "mem l" T] by simp
  have i: "length T < length (apps (mem l))" using room S lenT by (simp add: same_shape_def)
  have b: "buf_ok MAX_NAME_LEN (app_name (apps (mem l) ! napp l))"
    using R i cnt by (simp add: represents_def bufs_ok_def)
  have an: "a \<noteq> - 1" using a by (simp add: app_range_def)
  from app_line_run[OF n _ b a(1) an] i cnt obtain nb where nb: "buf_ok MAX_NAME_LEN nb" "cstr nb = n"
    and run: "conf_line tab l (''['' @ n @ '']'' @ [NEWLINE]) = Some (Inr (l\<lparr>mem := new_app (mem l) (napp l) nb a,
       napp := Suc (napp l), pre_app := Some (napp l), row_num := 0, parameter := 1, pre_para := None,
       pre_row := None\<rparr>))" by auto
  let ?m = "new_app (mem l) (length T) nb a"
  have zero: "app_para (apps (mem l) ! length T) = 0" "app_row (apps (mem l) ! length T) = 0"
    using F i cnt by (simp_all add: rest_free_def)
  have ids: "\<forall>k < length T. app_id (apps (mem l) ! k) \<noteq> a"
  proof (intro allI impI notI)
    fix k assume k: "k < length T" "app_id (apps (mem l) ! k) = a"
    then have "fst (d ! k) = cstr (app_name (apps (mem l) ! k))" by (simp add: d[symmetric] doc_of_def app_doc_def)
    moreover have "d ! k \<in> set d" using k lenT by simp
    ultimately show False using new nm k by (auto simp: named_def)
  qed
  note step = new_app_numbered[OF R N i zero nb(1) a(2) ids]
  have "named tab ?m (length (T @ [([], [])]))"
    using nm nb a i by (auto simp: named_def new_app_def nth_list_update less_Suc_eq)
  moreover have "same_shape m0 ?m" using S by (simp add: same_shape_def)
  moreover have "rest_free (l\<lparr>mem := ?m, napp := Suc (napp l), pre_app := Some (napp l), row_num := 0,
      parameter := 1, pre_para := None, pre_row := None\<rparr>)"
    using F cnt by (auto simp: rest_free_def new_app_def)
  ultimately have "loaded tab m0 (l\<lparr>mem := ?m, napp := Suc (napp l), pre_app := Some (napp l), row_num := 0,
      parameter := 1, pre_para := None, pre_row := None\<rparr>) (T @ [([], [])]) (d @ [(n, [], [])])"
    using step cnt nb(2) d unfolding loaded_def at_end_def by (simp add: current_def opt_last_def)
  with run cnt(1) show ?thesis by auto
qed

section \<open>A row line\<close>

lemma chain_end:
  "path deref nxt live off (ks @ [k]) 0 \<Longrightarrow> nxt k = 0"
  by (auto simp: path_snoc)

lemma row_line_run:
  assumes x: "1 \<le> x" "x < 256" and i: "pre_app l = Some i" "i < length (apps (mem l))"
    and r: "nrow l < length (rows (mem l))" "rows (mem l) ! nrow l = \<lparr>row_id = - 1, row_para = 0, row_next = 0\<rparr>"
    and pre: "\<forall>q. pre_row l = Some q \<longrightarrow> q < length (rows (mem l)) \<and> q \<noteq> nrow l"
    and pp: "\<forall>j. pre_para l = Some j \<longrightarrow> j < length (paras (mem l)) \<and> para_next (paras (mem l) ! j) = 0"
  shows "conf_line tab l (''<'' @ show_nat (nat x) @ ''>'' @ [NEWLINE]) = Some (Inr (l\<lparr>
      mem := insert_row (mem l) i (nrow l) (GET_ROW_ID (app_id (apps (mem l) ! i)) x) (pre_row l) None,
      nrow := Suc (nrow l), pre_row := Some (nrow l), pre_para := None, parameter := 1, row_num := x\<rparr>))"
proof -
  let ?rid = "GET_ROW_ID (app_id (apps (mem l) ! i)) x"
  let ?m1 = "(mem l)\<lparr>rows := (rows (mem l))[nrow l := \<lparr>row_id = ?rid, row_para = 0, row_next = 0\<rparr>]\<rparr>"
  let ?m2 = "insert_row (mem l) i (nrow l) ?rid (pre_row l) None"
  have at: "atoi (show_nat (nat x)) = Some x" using atoi_show[of "nat x"] x by simp
  have m1: "set_row (mem l) (nrow l) (row_id_update (\<lambda>_. ?rid)) = Some ?m1"
    using r by (simp add: set_row_def)
  have m2: "(case pre_row l of Some q \<Rightarrow> set_row ?m1 q (row_next_update (\<lambda>_. row_off ?m1 (nrow l)))
      | None \<Rightarrow> set_app ?m1 i (app_row_update (\<lambda>_. row_off ?m1 (nrow l)))) = Some ?m2"
    using i pre by (cases "pre_row l") (auto simp: set_row_def set_app_def insert_row_def link_row_def slot_after_def)
  have "paras ?m2 = paras (mem l)" by (simp add: insert_row_def link_row_def)
  then have m3: "(case pre_para l of Some j \<Rightarrow> set_para ?m2 j (para_next_update (\<lambda>_. 0)) | None \<Rightarrow> Some ?m2) = Some ?m2"
    using pp by (auto simp: set_para_def list_update_same_conv split: option.splits)
  show ?thesis
    using x i(1) unfolding conf_line_row row_line_def row_number_text
    by (simp add: at Let_def m1 m2 m3)
qed

text \<open>What the invariant says of the last section.\<close>

lemma loaded_last:
  assumes "loaded tab m0 l (T @ [(ps, rs)]) d"
  defines "m \<equiv> mem l" and "i \<equiv> length T" and "a \<equiv> app_id (apps (mem l) ! length T)"
  shows "represents m (T @ [(ps, rs)])" and "numbered m (T @ [(ps, rs)])" and "named tab m (Suc i)"
    and "doc_of m T @ [app_doc m i (ps, rs)] = d" and "same_shape m0 m" and "rest_free l"
    and "napp l = Suc i" and "nrow l = doc_rows d" and "npara l = doc_paras d"
    and "pre_app l = Some i" and "pre_row l = opt_last (map fst rs)" and "pre_para l = opt_last (current (ps, rs))"
    and "parameter l = int (length (current (ps, rs))) + 1"
    and "row_num l = (if rs = [] then 0 else row_number m a (fst (last rs)))"
    and "i < length (apps m)" and "app_range a"
  using assms represents_app(1)[of m "T @ [(ps, rs)]" i] numbered_app(1)[of m "T @ [(ps, rs)]" i]
  by (auto simp: loaded_def at_end_def doc_of_snoc)

lemma current_chain:
  assumes "represents m (T @ [(ps, rs)])" and "current (ps, rs) = ks @ [k]"
  shows "k < length (paras m) \<and> para_next (paras m ! k) = 0 \<and> para_live m k"
proof -
  have "\<exists>off. pchain m off (ks @ [k])"
  proof (cases rs rule: rev_cases)
    case Nil
    then show ?thesis using represents_app(2)[OF assms(1), of "length T"] assms(2) by (auto simp: current_def)
  next
    case (snoc L e)
    then show ?thesis
      using represents_app(4)[OF assms(1), of "length T" "fst e" "snd e"] assms(2) by (auto simp: current_def)
  qed
  then obtain off where c: "pchain m off (ks @ [k])" ..
  then show ?thesis
    using path_deref[OF c, of k] path_live[OF c, of k] chain_end[OF c] at_Some(3)[of m] by auto
qed

lemma current_last:
  assumes "represents m (T @ [(ps, rs)])" and "current (ps, rs) \<noteq> []"
  shows "last (current (ps, rs)) < length (paras m) \<and> para_next (paras m ! last (current (ps, rs))) = 0 \<and>
    para_live m (last (current (ps, rs)))"
  using current_chain[OF assms(1), of "butlast (current (ps, rs))" "last (current (ps, rs))"] assms(2) by simp

lemma load_row:
  assumes L: "loaded tab m0 l T (D @ [(n, es, rws)])" and x: "1 \<le> x" "x < 256"
    and less: "\<forall>e \<in> set rws. fst e < x"
    and room: "doc_rows (D @ [(n, es, rws)]) < length (rows m0)"
  shows "\<exists>l' T'. conf_line tab l (''<'' @ show_nat (nat x) @ ''>'' @ [NEWLINE]) = Some (Inr l') \<and>
    loaded tab m0 l' T' (D @ [(n, es, rws @ [(x, [])])])"
proof -
  from L have "doc_of (mem l) T = D @ [(n, es, rws)]" by (simp add: loaded_def)
  then obtain T0 ps rs where T: "T = T0 @ [(ps, rs)]" "doc_of (mem l) T0 = D"
    "app_doc (mem l) (length T0) (ps, rs) = (n, es, rws)" by (rule doc_of_snocD)
  note F = loaded_last[OF L[unfolded T(1)]]
  define a where "a = app_id (apps (mem l) ! length T0)"
  note F = F[folded a_def]
  have r: "nrow l < length (rows (mem l))" "rows (mem l) ! nrow l = \<lparr>row_id = - 1, row_para = 0, row_next = 0\<rparr>"
    using F(5,6,8) room by (auto simp: rest_free_def same_shape_def)
  have row_of: "row_number (mem l) a q < x \<and> row_id (rows (mem l) ! q) = GET_ROW_ID a (row_number (mem l) a q) \<and>
      1 \<le> row_number (mem l) a q" if q: "q \<in> fst ` set rs" for q
  proof -
    from q obtain ks where e: "(q, ks) \<in> set (snd ((T0 @ [(ps, rs)]) ! length T0))" by auto
    then have "row_doc (mem l) a (q, ks) \<in> set rws" using T(3) by (auto simp: app_doc_def a_def)
    then have "row_number (mem l) a q < x" using less by (auto simp: row_doc_def)
    with numbered_app(3)[OF F(2) _ e] show ?thesis by (simp add: a_def)
  qed
  have ids: "GET_ROW_ID a y = a * 65536 + y * 256" if "1 \<le> y" "y \<le> x" for y
    using ids_exact(1)[OF F(16), of y] that x by simp
  have small: "\<forall>q \<in> fst ` set rs. row_id (rows (mem l) ! q) < GET_ROW_ID a x"
  proof
    fix q assume "q \<in> fst ` set rs"
    with row_of[OF this] ids[of "row_number (mem l) a q"] ids[of x] x
    show "row_id (rows (mem l) ! q) < GET_ROW_ID a x" by simp
  qed
  have live: "row_live (mem l) q \<and> q < length (rows (mem l))" if "q \<in> fst ` set rs" for q
    using tree_rows_live[OF F(1), of q] that by auto
  then have nr: "nrow l \<notin> fst ` set rs" using r(2) by force
  have pre: "\<forall>q. pre_row l = Some q \<longrightarrow> q < length (rows (mem l)) \<and> q \<noteq> nrow l"
  proof (intro allI impI)
    fix q assume "pre_row l = Some q"
    then have "q \<in> fst ` set rs" using F(11) opt_last_in(1)[of "map fst rs" q] by simp
    then show "q < length (rows (mem l)) \<and> q \<noteq> nrow l"
      using nr live[of q] by blast
  qed
  have pp: "\<forall>j. pre_para l = Some j \<longrightarrow> j < length (paras (mem l)) \<and> para_next (paras (mem l) ! j) = 0"
  proof (intro allI impI)
    fix j assume "pre_para l = Some j"
    then obtain ks where "current (ps, rs) = ks @ [j]"
      using F(12) opt_last_in(2)[of "current (ps, rs)" j] by (metis append_butlast_last_id)
    with current_chain[OF F(1)] show "j < length (paras (mem l)) \<and> para_next (paras (mem l) ! j) = 0"
      by simp
  qed
  note run = row_line_run[OF x F(10) F(15) r pre pp, of tab]
  have "\<not> row_live (mem l) (nrow l)" using r(2) by simp
  have F12: "represents (mem l) (T0 @ (ps, rs @ [] @ []) # [])" "numbered (mem l) (T0 @ (ps, rs @ [] @ []) # [])"
    using F(1,2) by simp_all
  note step = insert_row_numbered[of "mem l" T0 ps rs "[]" "[]" "nrow l" a x, OF F12 r(1) \<open>\<not> row_live (mem l) (nrow l)\<close>
      a_def[symmetric] x small, simplified]
  let ?m = "insert_row (mem l) (length T0) (nrow l) (GET_ROW_ID a x) (pre_row l) None"
  have step': "represents ?m (T0 @ [(ps, rs @ [(nrow l, [])])])" "numbered ?m (T0 @ [(ps, rs @ [(nrow l, [])])])"
    "row_frame (mem l) ?m T0 ps rs [] []" "row_number ?m a (nrow l) = x"
    using step F(11) by simp_all
  have doc: "doc_of ?m (T0 @ [(ps, rs @ [(nrow l, [])])]) = D @ [(n, es, rws @ [(x, [])])]"
    unfolding row_frame_doc[OF step'(3)] using T(2,3) step'(4)
    by (simp add: app_doc_def a_def[symmetric] row_doc_def)
  note F' = row_frameD[OF step'(3)]
  let ?l = "l\<lparr>mem := ?m, nrow := Suc (nrow l), pre_row := Some (nrow l), pre_para := None, parameter := 1, row_num := x\<rparr>"
  have "named tab ?m (Suc (length T0))" using F(3) F'(3,6) by (simp add: named_def)
  moreover have "same_shape m0 ?m" using F(5) F'(1) by (simp add: same_shape_def)
  moreover have "rest_free ?l"
  proof -
    note fl = insert_row_fields[OF r(1) F(15) pre, where rid = "GET_ROW_ID a x" and behind = None]
    have "rows ?m ! q = rows (mem l) ! q" if q: "nrow l < q" "q < length (rows (mem l))" for q
    proof -
      have "\<not> row_live (mem l) q" using F(6) q by (simp add: rest_free_def)
      then have "pre_row l \<noteq> Some q"
        using F(11) opt_last_in(1)[of "map fst rs" q] live[of q] by auto
      then show ?thesis using q by (simp add: fl(4))
    qed
    moreover have "apps ?m ! k = apps (mem l) ! k" if "Suc (length T0) \<le> k" for k
      using that F'(2)[of k] by simp
    ultimately show ?thesis
      using F(6,7) F'(1) fl(1) by (simp add: rest_free_def same_shape_def)
  qed
  ultimately have "loaded tab m0 ?l (T0 @ [(ps, rs @ [(nrow l, [])])]) (D @ [(n, es, rws @ [(x, [])])])"
    using step' doc F(7,8,9,10) F'(3)
    unfolding loaded_def at_end_def by (simp add: current_def opt_last_def a_def)
  with run show ?thesis unfolding a_def by blast
qed

section \<open>A parameter line\<close>

definition entry_ok :: "string \<times> string \<Rightarrow> bool" where
  "entry_ok e \<longleftrightarrow> plain (fst e) \<and> plain (snd e) \<and> CHR ''='' \<notin> set (fst e) \<and>
     (fst e = [] \<or> hd (fst e) \<noteq> CHR ''['') \<and> length (fst e) \<le> 239 \<and> length (fst e) + length (snd e) + 2 \<le> 254"

lemma entry_okD:
  assumes "entry_ok (k, v)"
  shows "CHR ''='' \<notin> set k" "NUL \<notin> set k" "NUL \<notin> set v" "length k \<le> 239" "length v \<le> 639"
    "k = [] \<or> hd k \<noteq> CHR ''[''"
  using assms by (auto simp: entry_ok_def plain_def)

lemma para_line_run:
  assumes kv: "CHR ''='' \<notin> set k" "NUL \<notin> set k" "NUL \<notin> set v" "length k \<le> 239" "length v \<le> 639"
      "k = [] \<or> hd k \<noteq> CHR ''[''"
    and i: "pre_app l = Some i"
    and j: "npara l < length (paras (mem l))" "para_next (paras (mem l) ! npara l) = 0"
    and b: "bufs_ok (mem l)"
  obtains nb vb where "buf_ok MAX_NAME_LEN nb" "buf_ok MAX_VALUE_LEN vb" "cstr nb = k" "cstr vb = v"
    "\<And>m2. (let m1 = (mem l)\<lparr>paras := (paras (mem l))[npara l := \<lparr>para_id =
              GET_PARA_ID (app_id (apps (mem l) ! i)) (row_num l) (parameter l), para_name = nb, para_val = vb, para_next = 0\<rparr>]\<rparr>
        in case pre_para l of
             Some q \<Rightarrow> set_para m1 q (para_next_update (\<lambda>_. para_off m1 (npara l)))
           | None \<Rightarrow> (case pre_row l of
               Some r \<Rightarrow> set_row m1 r (row_para_update (\<lambda>_. para_off m1 (npara l)))
             | None \<Rightarrow> set_app m1 i (app_para_update (\<lambda>_. para_off m1 (npara l))))) = Some m2 \<Longrightarrow>
      conf_line tab l (entry_line (k, v)) = Some (Inr (l\<lparr>mem := m2, npara := Suc (npara l),
        pre_para := Some (npara l), parameter := parameter l + 1\<rparr>))"
proof -
  let ?p = "paras (mem l) ! npara l"
  have "buf_ok (Suc 239) (para_name ?p)" "buf_ok (Suc 639) (para_val ?p)"
    using b j(1) by (simp_all add: bufs_ok_def MAX_NAME_LEN_def MAX_VALUE_LEN_def)
  from strncpy_field[OF this(1) kv(2)] strncpy_field[OF this(2) kv(3)] obtain nb vb where
    nb: "strncpy (para_name ?p) k 239 = Some nb" "buf_ok (Suc 239) nb" "cstr nb = take 239 k" and
    vb: "strncpy (para_val ?p) v 639 = Some vb" "buf_ok (Suc 639) vb" "cstr vb = take 639 v" by metis
  let ?id = "GET_PARA_ID (app_id (apps (mem l) ! i)) (row_num l) (parameter l)"
  have new: "?p\<lparr>para_id := ?id, para_name := nb, para_val := vb\<rparr>
      = \<lparr>para_id = ?id, para_name = nb, para_val = vb, para_next = 0\<rparr>"
    using j(2) by (cases ?p) simp
  note line = conf_line_para[OF kv(6), of tab l v] strchr_entry[OF kv(1), of v]
  show ?thesis
  proof (rule that)
    show "buf_ok MAX_NAME_LEN nb" "buf_ok MAX_VALUE_LEN vb" "cstr nb = k" "cstr vb = v"
      using nb vb kv by (simp_all add: MAX_NAME_LEN_def MAX_VALUE_LEN_def)
  next
    fix m2 assume "(let m1 = (mem l)\<lparr>paras := (paras (mem l))[npara l := \<lparr>para_id = ?id, para_name = nb,
              para_val = vb, para_next = 0\<rparr>]\<rparr>
        in case pre_para l of
             Some q \<Rightarrow> set_para m1 q (para_next_update (\<lambda>_. para_off m1 (npara l)))
           | None \<Rightarrow> (case pre_row l of
               Some r \<Rightarrow> set_row m1 r (row_para_update (\<lambda>_. para_off m1 (npara l)))
             | None \<Rightarrow> set_app m1 i (app_para_update (\<lambda>_. para_off m1 (npara l))))) = Some m2"
    moreover have "set_para (mem l) (npara l) (\<lambda>p. p\<lparr>para_id := ?id, para_name := nb, para_val := vb\<rparr>)
        = Some ((mem l)\<lparr>paras := (paras (mem l))[npara l := \<lparr>para_id = ?id, para_name = nb,
              para_val = vb, para_next = 0\<rparr>]\<rparr>)"
      unfolding set_para_def new using j(1) by simp
    ultimately show "conf_line tab l (entry_line (k, v)) = Some (Inr (l\<lparr>mem := m2, npara := Suc (npara l),
        pre_para := Some (npara l), parameter := parameter l + 1\<rparr>))"
      using i j(1) nb(1) vb(1)
      unfolding line(1) para_line_def line(2)
      by (simp add: Let_def MAX_NAME_LEN_def MAX_VALUE_LEN_def)
  qed
qed

text \<open>The two places where the new parameter is linked.\<close>

lemma load_own:
  assumes L: "loaded tab m0 l T (D @ [(n, es, [])])" and e: "entry_ok (k, v)" and len: "length es + 1 < 256"
    and room: "doc_paras (D @ [(n, es, [])]) < length (paras m0)"
  shows "\<exists>l' T'. conf_line tab l (entry_line (k, v)) = Some (Inr l') \<and>
    loaded tab m0 l' T' (D @ [(n, es @ [(k, v)], [])])"
proof -
  from L have "doc_of (mem l) T = D @ [(n, es, [])]" by (simp add: loaded_def)
  then obtain T0 ps rs where T: "T = T0 @ [(ps, rs)]" "doc_of (mem l) T0 = D"
    "app_doc (mem l) (length T0) (ps, rs) = (n, es, [])" by (rule doc_of_snocD)
  then have rs: "rs = []" "es = map (entry (mem l)) ps" "n = cstr (app_name (apps (mem l) ! length T0))"
    by (auto simp: app_doc_def)
  note F = loaded_last[OF L[unfolded T(1)], unfolded rs(1)]
  define a where "a = app_id (apps (mem l) ! length T0)"
  note F = F[folded a_def]
  let ?j = "npara l"
  have j: "?j < length (paras (mem l))" "para_next (paras (mem l) ! ?j) = 0" "\<not> para_live (mem l) ?j"
    using F(5,6,9) room by (auto simp: rest_free_def same_shape_def)
  have b: "bufs_ok (mem l)" using F(1) by (simp add: represents_def)
  from para_line_run[OF entry_okD[OF e] F(10) j(1,2) b, of tab] obtain nb vb where
    nb: "buf_ok MAX_NAME_LEN nb" "buf_ok MAX_VALUE_LEN vb" "cstr nb = k" "cstr vb = v" and
    run: "\<And>m2. (let m1 = (mem l)\<lparr>paras := (paras (mem l))[?j := \<lparr>para_id =
              GET_PARA_ID a (row_num l) (parameter l), para_name = nb, para_val = vb, para_next = 0\<rparr>]\<rparr>
        in case pre_para l of
             Some q \<Rightarrow> set_para m1 q (para_next_update (\<lambda>_. para_off m1 ?j))
           | None \<Rightarrow> (case pre_row l of
               Some r \<Rightarrow> set_row m1 r (row_para_update (\<lambda>_. para_off m1 ?j))
             | None \<Rightarrow> set_app m1 (length T0) (app_para_update (\<lambda>_. para_off m1 ?j)))) = Some m2 \<Longrightarrow>
      conf_line tab l (entry_line (k, v)) = Some (Inr (l\<lparr>mem := m2, npara := Suc ?j,
        pre_para := Some ?j, parameter := parameter l + 1\<rparr>))" unfolding a_def by blast
  let ?id = "GET_PARA_ID a 0 (int (length ps) + 1)"
  let ?m = "append_own (mem l) (length T0) ps ?j ?id nb vb"
  let ?l = "l\<lparr>mem := ?m, npara := Suc ?j, pre_para := Some ?j, parameter := parameter l + 1\<rparr>"
  have pos: "row_num l = 0" "parameter l = int (length ps) + 1" "pre_row l = None" "pre_para l = opt_last ps"
    using F(11-14) by (simp_all add: current_def opt_last_def)
  have lastps: "ps \<noteq> [] \<longrightarrow> last ps \<noteq> ?j \<and> last ps < length (paras (mem l))"
    using current_last[OF F(1)] j(3) unfolding current_def by auto
  have "conf_line tab l (entry_line (k, v)) = Some (Inr ?l)"
    by (rule run) (use pos lastps F(15) in \<open>auto simp: Let_def set_para_def set_app_def append_own_def opt_last_def\<close>)
  moreover have "loaded tab m0 ?l (T0 @ [(ps @ [?j], [])]) (D @ [(n, es @ [(k, v)], [])])"
  proof -
    have len': "length ps + 1 < 256" using len rs(2) by simp
    note step = append_own_numbered[OF F(1,2) j(1,3) nb(1,2) a_def[symmetric] len']
    note fl = append_own_fields[OF j(1) lastps F(15), where pid = ?id and n = nb and v = vb]
    have "named tab ?m (Suc (length T0))" using F(3) by (simp add: named_def fl(2))
    moreover have "same_shape m0 ?m" using F(5) fl(5) by (simp add: same_shape_def)
    moreover have "rest_free ?l"
    proof -
      have "paras ?m ! q = paras (mem l) ! q" if q: "?j < q" "q < length (paras (mem l))" for q
      proof -
        have "\<not> para_live (mem l) q" using F(6) q by (simp add: rest_free_def)
        then have "ps \<noteq> [] \<longrightarrow> q \<noteq> last ps"
          using current_last[OF F(1)] unfolding current_def by auto
        then show ?thesis using q by (auto simp: fl(4))
      qed
      then show ?thesis using F(6,7) fl(5) by (simp add: rest_free_def same_shape_def fl(1,2))
    qed
    ultimately show ?thesis
      using step F(7-10) pos nb rs T(2) unfolding loaded_def at_end_def
      by (simp add: current_def opt_last_def)
  qed
  ultimately show ?thesis by blast
qed

lemma load_para:
  assumes L: "loaded tab m0 l T (D @ [(n, es, rws @ [(x, xs)])])" and e: "entry_ok (k, v)" and len: "length xs + 1 < 256"
    and room: "doc_paras (D @ [(n, es, rws @ [(x, xs)])]) < length (paras m0)"
  shows "\<exists>l' T'. conf_line tab l (entry_line (k, v)) = Some (Inr l') \<and>
    loaded tab m0 l' T' (D @ [(n, es, rws @ [(x, xs @ [(k, v)])])])"
proof -
  from L have "doc_of (mem l) T = D @ [(n, es, rws @ [(x, xs)])]" by (simp add: loaded_def)
  then obtain T0 ps rs where T: "T = T0 @ [(ps, rs)]" "doc_of (mem l) T0 = D"
    "app_doc (mem l) (length T0) (ps, rs) = (n, es, rws @ [(x, xs)])" by (rule doc_of_snocD)
  define a where "a = app_id (apps (mem l) ! length T0)"
  from T(3) have doc: "map (row_doc (mem l) a) rs = rws @ [(x, xs)]" "es = map (entry (mem l)) ps"
    "n = cstr (app_name (apps (mem l) ! length T0))" by (auto simp: app_doc_def a_def)
  then obtain R r ks where rs: "rs = R @ [(r, ks)]" by (cases rs rule: rev_cases) auto
  with doc have row: "row_number (mem l) a r = x" "map (entry (mem l)) ks = xs" "map (row_doc (mem l) a) R = rws"
    by (simp_all add: row_doc_def)
  note F = loaded_last[OF L[unfolded T(1) rs], folded a_def]
  let ?j = "npara l"
  have j: "?j < length (paras (mem l))" "para_next (paras (mem l) ! ?j) = 0" "\<not> para_live (mem l) ?j"
    using F(5,6,9) room by (auto simp: rest_free_def same_shape_def)
  have b: "bufs_ok (mem l)" using F(1) by (simp add: represents_def)
  from para_line_run[OF entry_okD[OF e] F(10) j(1,2) b, of tab] obtain nb vb where
    nb: "buf_ok MAX_NAME_LEN nb" "buf_ok MAX_VALUE_LEN vb" "cstr nb = k" "cstr vb = v" and
    run: "\<And>m2. (let m1 = (mem l)\<lparr>paras := (paras (mem l))[?j := \<lparr>para_id =
              GET_PARA_ID a (row_num l) (parameter l), para_name = nb, para_val = vb, para_next = 0\<rparr>]\<rparr>
        in case pre_para l of
             Some q \<Rightarrow> set_para m1 q (para_next_update (\<lambda>_. para_off m1 ?j))
           | None \<Rightarrow> (case pre_row l of
               Some r \<Rightarrow> set_row m1 r (row_para_update (\<lambda>_. para_off m1 ?j))
             | None \<Rightarrow> set_app m1 (length T0) (app_para_update (\<lambda>_. para_off m1 ?j)))) = Some m2 \<Longrightarrow>
      conf_line tab l (entry_line (k, v)) = Some (Inr (l\<lparr>mem := m2, npara := Suc ?j,
        pre_para := Some ?j, parameter := parameter l + 1\<rparr>))" unfolding a_def by blast
  let ?id = "GET_PARA_ID a x (int (length ks) + 1)"
  let ?m = "append_para (mem l) r ks ?j ?id nb vb"
  let ?l = "l\<lparr>mem := ?m, npara := Suc ?j, pre_para := Some ?j, parameter := parameter l + 1\<rparr>"
  have pos: "row_num l = x" "parameter l = int (length ks) + 1" "pre_row l = Some r" "pre_para l = opt_last ks"
    using F(11-14) row(1) by (simp_all add: current_def opt_last_def)
  have lastks: "ks \<noteq> [] \<longrightarrow> last ks \<noteq> ?j \<and> last ks < length (paras (mem l))"
    using current_last[OF F(1)] j(3) unfolding current_def by auto
  have r: "r < length (rows (mem l))" using tree_rows_live(2)[OF F(1), of r] by simp
  have "conf_line tab l (entry_line (k, v)) = Some (Inr ?l)"
    by (rule run)
      (use pos lastks r in \<open>auto simp: Let_def set_para_def set_row_def append_para_def append_slot_def opt_last_def\<close>)
  moreover have "loaded tab m0 ?l (T0 @ [(ps, R @ [(r, ks @ [?j])])]) (D @ [(n, es, rws @ [(x, xs @ [(k, v)])])])"
  proof -
    have F12: "represents (mem l) (T0 @ (ps, R @ [(r, ks)] @ []) # [])"
      "numbered (mem l) (T0 @ (ps, R @ [(r, ks)] @ []) # [])" using F(1,2) by simp_all
    have len': "length ks + 1 < 256" using len row(2) by auto
    note step = append_para_numbered[OF F12 j(1,3) nb(1,2) a_def[symmetric] row(1) len', simplified]
    note fl = append_para_fields[OF j(1) lastks r, where pid = ?id and n = nb and v = vb]
    note frame = step(8)
    have "doc_of ?m (T0 @ [(ps, R @ [(r, ks @ [?j])])]) = D @ [(n, es, rws @ [(x, xs @ [(k, v)])])]"
    proof -
      have "map (entry ?m) (ks @ [?j]) = xs @ [(k, v)]"
        using append_para_numbered(6)[OF F12 j(1,3) nb(1,2) a_def[symmetric] row(1) len'] row(2) nb(3,4) by simp
      then have "row_doc ?m a (r, ks @ [?j]) = (x, xs @ [(k, v)])" using step(4) by (simp add: row_doc_def)
      then show ?thesis
        unfolding row_frame_doc[OF frame] using T(2) doc(2,3) row(3) by (simp add: a_def[symmetric])
    qed
    moreover have "named tab ?m (Suc (length T0))" using F(3) by (simp add: named_def fl(1))
    moreover have "same_shape m0 ?m" using F(5) fl(5) by (simp add: same_shape_def)
    moreover have "rest_free ?l"
    proof -
      have "paras ?m ! q = paras (mem l) ! q" if q: "?j < q" "q < length (paras (mem l))" for q
      proof -
        have "\<not> para_live (mem l) q" using F(6) q by (simp add: rest_free_def)
        then have "ks \<noteq> [] \<longrightarrow> q \<noteq> last ks"
          using current_last[OF F(1)] unfolding current_def by auto
        then show ?thesis using q by (auto simp: fl(4))
      qed
      moreover have "rows ?m ! q = rows (mem l) ! q" if q: "nrow l \<le> q" "q < length (rows (mem l))" for q
      proof -
        have "\<not> row_live (mem l) q" using F(6) q by (simp add: rest_free_def)
        then have "q \<noteq> r" using tree_rows_live(1)[OF F(1), of r] by auto
        then show ?thesis by (simp add: fl(2))
      qed
      ultimately show ?thesis using F(6,7) fl(5) by (simp add: rest_free_def same_shape_def fl(1))
    qed
    ultimately show ?thesis
      using step F(7-10) pos unfolding loaded_def at_end_def
      by (simp add: current_def opt_last_def fl(1) a_def[symmetric])
  qed
  ultimately show ?thesis by blast
qed

section \<open>A whole document\<close>

definition entries_ok :: "entries \<Rightarrow> bool" where
  "entries_ok es \<longleftrightarrow> length es < 256 \<and> (\<forall>e \<in> set es. entry_ok e)"

definition row_ok :: "int \<times> entries \<Rightarrow> bool" where
  "row_ok r \<longleftrightarrow> 1 \<le> fst r \<and> fst r < 256 \<and> entries_ok (snd r)"

definition sect_ok :: "tcmEntityInfo list \<Rightarrow> sect \<Rightarrow> bool" where
  "sect_ok tab = (\<lambda>(n, es, rws). plain n \<and> CHR '']'' \<notin> set n \<and> length n \<le> 239 \<and>
     (\<exists>a. config_api_get_app_id_by_name tab n = Some a \<and> app_range a) \<and> entries_ok es \<and>
     (\<forall>r \<in> set rws. row_ok r) \<and> sorted_wrt (<) (map fst rws))"

definition doc_ok :: "tcmEntityInfo list \<Rightarrow> sect list \<Rightarrow> bool" where
  "doc_ok tab d \<longleftrightarrow> (\<forall>s \<in> set d. sect_ok tab s) \<and>
     distinct (map (\<lambda>s. config_api_get_app_id_by_name tab (fst s)) d)"

definition fits :: "shm \<Rightarrow> sect list \<Rightarrow> bool" where
  "fits m d \<longleftrightarrow> length d \<le> length (apps m) \<and> doc_rows d \<le> length (rows m) \<and> doc_paras d \<le> length (paras m)"

text \<open>Reading a text \<open>t\<close> takes the loader from one state to another.\<close>

definition reads :: "tcmEntityInfo list \<Rightarrow> loader \<Rightarrow> string \<Rightarrow> loader \<Rightarrow> bool" where
  "reads tab l t l' \<longleftrightarrow> (\<forall>rest. read_lines tab l (t @ rest) = read_lines tab l' rest)"

lemma reads_Nil: "reads tab l [] l"
  by (simp add: reads_def)

lemma reads_append: "reads tab l t l1 \<Longrightarrow> reads tab l1 u l2 \<Longrightarrow> reads tab l (t @ u) l2"
  by (simp add: reads_def)

lemma reads_line:
  assumes "conf_line tab l (s @ [NEWLINE]) = Some (Inr l')" and "plain s" and "length s < 254"
  shows "reads tab l (s @ [NEWLINE]) l'"
  using read_lines_step[OF assms(2,3,1)] by (simp add: reads_def)

lemma entry_ok_line:
  assumes "entry_ok (k, v)" and "conf_line tab l (entry_line (k, v)) = Some (Inr l')"
  shows "reads tab l (entry_line (k, v)) l'"
proof -
  have "plain (k @ ''='' @ v)" "length (k @ ''='' @ v) < 254" using assms(1) by (auto simp: entry_ok_def)
  with assms(2) show ?thesis using reads_line[of tab l "k @ ''='' @ v" l'] by (simp add: entry_line_def)
qed

lemma load_own_list:
  assumes "loaded tab m0 l T (D @ [(n, es, [])])" and "\<forall>e \<in> set xs. entry_ok e" and "length es + length xs < 256"
    and "doc_paras (D @ [(n, es, [])]) + length xs \<le> length (paras m0)"
  shows "\<exists>l' T'. reads tab l (concat (map entry_line xs)) l' \<and> loaded tab m0 l' T' (D @ [(n, es @ xs, [])])"
  using assms
proof (induction xs arbitrary: l T es)
  case Nil
  then show ?case using reads_Nil by auto
next
  case (Cons e xs)
  obtain k v where e: "e = (k, v)" by (cases e)
  have ok: "entry_ok (k, v)" "\<forall>e \<in> set xs. entry_ok e" using Cons.prems(2) e by simp_all
  obtain l1 T1 where 1: "conf_line tab l (entry_line (k, v)) = Some (Inr l1)" "loaded tab m0 l1 T1 (D @ [(n, es @ [(k, v)], [])])"
    using load_own[OF Cons.prems(1) ok(1)] Cons.prems(3,4) by auto
  obtain l2 T2 where 2: "reads tab l1 (concat (map entry_line xs)) l2" "loaded tab m0 l2 T2 (D @ [(n, (es @ [(k, v)]) @ xs, [])])"
    using Cons.IH[OF 1(2) ok(2)] Cons.prems(3,4) by auto
  have "reads tab l (entry_line (k, v) @ concat (map entry_line xs)) l2"
    by (rule reads_append[OF entry_ok_line[OF ok(1) 1(1)] 2(1)])
  with 2(2) show ?case by (auto simp: e)
qed

lemma load_para_list:
  assumes "loaded tab m0 l T (D @ [(n, es, rws @ [(x, ys)])])" and "\<forall>e \<in> set xs. entry_ok e"
    and "length ys + length xs < 256" and "doc_paras (D @ [(n, es, rws @ [(x, ys)])]) + length xs \<le> length (paras m0)"
  shows "\<exists>l' T'. reads tab l (concat (map entry_line xs)) l' \<and> loaded tab m0 l' T' (D @ [(n, es, rws @ [(x, ys @ xs)])])"
  using assms
proof (induction xs arbitrary: l T ys)
  case Nil
  then show ?case using reads_Nil by auto
next
  case (Cons e xs)
  obtain k v where e: "e = (k, v)" by (cases e)
  have ok: "entry_ok (k, v)" "\<forall>e \<in> set xs. entry_ok e" using Cons.prems(2) e by simp_all
  obtain l1 T1 where 1: "conf_line tab l (entry_line (k, v)) = Some (Inr l1)" "loaded tab m0 l1 T1 (D @ [(n, es, rws @ [(x, ys @ [(k, v)])])])"
    using load_para[OF Cons.prems(1) ok(1)] Cons.prems(3,4) by auto
  obtain l2 T2 where 2: "reads tab l1 (concat (map entry_line xs)) l2" "loaded tab m0 l2 T2 (D @ [(n, es, rws @ [(x, (ys @ [(k, v)]) @ xs)])])"
    using Cons.IH[OF 1(2) ok(2)] Cons.prems(3,4) by auto
  have "reads tab l (entry_line (k, v) @ concat (map entry_line xs)) l2"
    by (rule reads_append[OF entry_ok_line[OF ok(1) 1(1)] 2(1)])
  with 2(2) show ?case by (auto simp: e)
qed

lemma rows_paras_Cons [simp]: "rows_paras ((x, xs) # R) = length xs + rows_paras R"
  by (simp add: rows_paras_def)

lemma length_show: "n < 1000 \<Longrightarrow> length (show_nat n) \<le> 3"
  by (subst show_nat.simps, simp, subst show_nat.simps, simp, subst show_nat.simps, simp)

lemma load_rows:
  assumes "loaded tab m0 l T (D @ [(n, es, rws)])" and "\<forall>r \<in> set R. row_ok r"
    and "sorted_wrt (<) (map fst (rws @ R))"
    and "doc_rows (D @ [(n, es, rws)]) + length R \<le> length (rows m0)"
    and "doc_paras (D @ [(n, es, rws)]) + rows_paras R \<le> length (paras m0)"
  shows "\<exists>l' T'. reads tab l (concat (map row_lines R)) l' \<and> loaded tab m0 l' T' (D @ [(n, es, rws @ R)])"
  using assms
proof (induction R arbitrary: l T rws)
  case Nil
  then show ?case using reads_Nil by auto
next
  case (Cons e R)
  obtain x xs where e: "e = (x, xs)" by (cases e)
  have ok: "1 \<le> x" "x < 256" "length xs < 256" "\<forall>e \<in> set xs. entry_ok e" "\<forall>r \<in> set R. row_ok r"
    using Cons.prems(2) by (simp_all add: e row_ok_def entries_ok_def)
  have less: "\<forall>r \<in> set rws. fst r < x" using Cons.prems(3) by (simp add: e sorted_wrt_append)
  obtain l1 T1 where 1: "conf_line tab l (''<'' @ show_nat (nat x) @ ''>'' @ [NEWLINE]) = Some (Inr l1)"
      "loaded tab m0 l1 T1 (D @ [(n, es, rws @ [(x, [])])])"
    using load_row[OF Cons.prems(1) ok(1,2) less] Cons.prems(4) by auto
  obtain l2 T2 where 2: "reads tab l1 (concat (map entry_line xs)) l2" "loaded tab m0 l2 T2 (D @ [(n, es, rws @ [(x, xs)])])"
    using load_para_list[OF 1(2) ok(4)] ok(3) Cons.prems(5) by (auto simp: e)
  obtain l3 T3 where 3: "reads tab l2 (concat (map row_lines R)) l3" "loaded tab m0 l3 T3 (D @ [(n, es, (rws @ [(x, xs)]) @ R)])"
    using Cons.IH[OF 2(2) ok(5)] Cons.prems(3-5) by (auto simp: e)
  have "length (show_nat (nat x)) < 252" using length_show[of "nat x"] ok(2) by linarith
  then have "reads tab l ((''<'' @ show_nat (nat x) @ ''>'') @ [NEWLINE]) l1"
    using 1(1) digits_apart(3) by (intro reads_line) simp_all
  with 2(1) have "reads tab l (row_lines (x, xs)) l2"
    using reads_append[of tab l "''<'' @ show_nat (nat x) @ ''>'' @ [NEWLINE]" l1 "concat (map entry_line xs)" l2]
    by (simp add: row_lines_def)
  with 3 show ?case using reads_append[of tab l "row_lines (x, xs)" l2] by (auto simp: e)
qed

lemma load_sect:
  assumes L: "loaded tab m0 l T D" and ok: "sect_ok tab (n, es, rws)"
    and new: "\<forall>s \<in> set D. config_api_get_app_id_by_name tab (fst s) \<noteq> config_api_get_app_id_by_name tab n"
    and room: "fits m0 (D @ [(n, es, rws)])"
  shows "\<exists>l' T'. reads tab l (sect_lines (n, es, rws)) l' \<and> loaded tab m0 l' T' (D @ [(n, es, rws)])"
proof -
  from ok obtain a where a: "config_api_get_app_id_by_name tab n = Some a" "app_range a"
    and n: "plain n" "CHR '']'' \<notin> set n" "length n \<le> 239"
    and e: "length es < 256" "\<forall>e \<in> set es. entry_ok e"
    and r: "\<forall>r \<in> set rws. row_ok r" "sorted_wrt (<) (map fst rws)"
    by (auto simp: sect_ok_def entries_ok_def)
  have nul: "NUL \<notin> set n" using n(1) by (simp add: plain_def)
  have new': "\<forall>s \<in> set D. config_api_get_app_id_by_name tab (fst s) \<noteq> Some a" using new a(1) by simp
  obtain l1 where 1: "conf_line tab l (''['' @ n @ '']'' @ [NEWLINE]) = Some (Inr l1)"
      "loaded tab m0 l1 (T @ [([], [])]) (D @ [(n, [], [])])"
    using load_app[OF L n(2) nul n(3) a new'] room by (auto simp: fits_def)
  obtain l2 T2 where 2: "reads tab l1 (concat (map entry_line es)) l2" "loaded tab m0 l2 T2 (D @ [(n, es, [])])"
    using load_own_list[OF 1(2) e(2)] e(1) room by (auto simp: fits_def)
  obtain l3 T3 where 3: "reads tab l2 (concat (map row_lines rws)) l3" "loaded tab m0 l3 T3 (D @ [(n, es, rws)])"
    using load_rows[OF 2(2) r(1)] r(2) room by (auto simp: fits_def)
  have "reads tab l ((''['' @ n @ '']'') @ [NEWLINE]) l1"
    using 1(1) n by (intro reads_line) simp_all
  from reads_append[OF this reads_append[OF 2(1) 3(1)]] 3(2) show ?thesis by (auto simp: sect_lines_def)
qed

lemma fits_append: "fits m (D @ E) \<Longrightarrow> fits m D"
  by (simp add: fits_def doc_rows_def doc_paras_def)

lemma load_sects:
  assumes "loaded tab m0 l T D" and "doc_ok tab (D @ E)" and "fits m0 (D @ E)"
  shows "\<exists>l' T'. reads tab l (doc_text E) l' \<and> loaded tab m0 l' T' (D @ E)"
  using assms
proof (induction E arbitrary: l T D)
  case Nil
  then show ?case using reads_Nil by (auto simp: doc_text_def)
next
  case (Cons s E)
  obtain n es rws where s: "s = (n, es, rws)" by (cases s)
  have ok: "doc_ok tab ((D @ [s]) @ E)" "fits m0 ((D @ [s]) @ E)" using Cons.prems(2,3) by simp_all
  have "sect_ok tab (n, es, rws)"
      "\<forall>s \<in> set D. config_api_get_app_id_by_name tab (fst s) \<noteq> config_api_get_app_id_by_name tab n"
    using Cons.prems(2) by (auto simp: doc_ok_def s image_iff)
  from load_sect[OF Cons.prems(1) this] fits_append[OF ok(2)] obtain l1 T1 where
    1: "reads tab l (sect_lines s) l1" "loaded tab m0 l1 T1 (D @ [s])" by (auto simp: s)
  obtain l2 T2 where 2: "reads tab l1 (doc_text E) l2" "loaded tab m0 l2 T2 ((D @ [s]) @ E)"
    using Cons.IH[OF 1(2) ok] by blast
  have "reads tab l (doc_text (s # E)) l2"
    using reads_append[OF 1(1) 2(1)] by (simp add: doc_text_def)
  with 2(2) show ?case by auto
qed

section \<open>The empty memory\<close>

lemma init_node_simps:
  "length (apps (init_node m)) = length (apps m)" "length (rows (init_node m)) = length (rows m)"
  "length (paras (init_node m)) = length (paras m)"
  "i < length (apps m) \<Longrightarrow> apps (init_node m) ! i = init_app m i (apps m ! i)"
  "r < length (rows m) \<Longrightarrow> rows (init_node m) ! r = init_row (rows m ! r)"
  "j < length (paras m) \<Longrightarrow> paras (init_node m) ! j = init_para (paras m ! j)"
  by (simp_all add: init_node_def)

lemma build_cache_simps:
  "length (apps (build_cache c)) = nat (gMaxAppNum c)" "length (rows (build_cache c)) = nat (gMaxTabNum c)"
  "length (paras (build_cache c)) = nat (gMaxParaNum c)"
  "i < nat (gMaxAppNum c) \<Longrightarrow> apps (build_cache c) ! i = zero_app"
  "r < nat (gMaxTabNum c) \<Longrightarrow> rows (build_cache c) ! r = zero_row"
  "j < nat (gMaxParaNum c) \<Longrightarrow> paras (build_cache c) ! j = zero_para"
  by (simp_all add: build_cache_def)

lemma start_loaded:
  assumes "0 < gMaxAppNum c"
  defines "m \<equiv> init_node (build_cache c)"
  shows "loaded tab m (start_loader m) [] []"
proof -
  note simps = init_node_simps(1-3)[of "build_cache c", folded m_def] init_node_simps(4-6)[of _ "build_cache c", folded m_def]
    build_cache_simps
  have off: "app_off m = app_off (build_cache c)"
    by (simp add: fun_eq_iff app_off_def APP_START_NODE_def)
  have ok: "apps_ok m 0"
    using assms(1) by (simp add: apps_ok_def simps init_app_def zero_app_def off)
      (auto simp: init_app_def zero_app_def simps off)
  have zb: "buf_ok MAX_NAME_LEN ((replicate MAX_NAME_LEN NUL)[0 := NUL])"
      "buf_ok MAX_VALUE_LEN ((replicate MAX_VALUE_LEN NUL)[0 := NUL])"
    using buf_ok_cleared[OF buf_ok_zero[of 239]] buf_ok_cleared[OF buf_ok_zero[of 639]]
    by (simp_all add: MAX_NAME_LEN_def MAX_VALUE_LEN_def del: replicate_Suc)
  have "bufs_ok m"
    unfolding bufs_ok_def all_set_conv_all_nth
    using zb by (auto simp: simps init_app_def init_para_def zero_app_def zero_para_def)
  then show ?thesis
    using ok by (simp add: loaded_def start_loader_def represents_def numbered_def named_def doc_of_def
        same_shape_def rest_free_def simps init_app_def init_row_def init_para_def zero_app_def zero_row_def zero_para_def)
qed

section \<open>Loading\<close>

theorem load_doc:
  assumes "0 < gMaxAppNum c" and "doc_ok tab d" and "fits (build_cache c) d"
  obtains m T where "build_para_table tab (doc_text d) (init_node (build_cache c)) = Some (0, m)"
    "represents m T" "numbered m T" "named tab m (length T)" "doc_of m T = d" "same_shape (build_cache c) m"
proof -
  let ?m = "init_node (build_cache c)"
  have fits: "fits ?m ([] @ d)" using assms(3) by (simp add: fits_def init_node_simps)
  from load_sects[OF start_loaded[OF assms(1)] _ this, of tab] assms(2) obtain l T where
    r: "reads tab (start_loader ?m) (doc_text d) l" "loaded tab ?m l T d" by auto
  have "read_lines tab (start_loader ?m) (doc_text d) = Some (Inr l)"
    using r(1)[unfolded reads_def, rule_format, of "[]"] by (simp add: read_lines.simps[of tab l "[]"])
  then have "build_para_table tab (doc_text d) ?m = Some (0, mem l)" by (simp add: build_para_table_def)
  moreover have "same_shape (build_cache c) (mem l)"
    using r(2) by (simp add: loaded_def same_shape_def init_node_simps)
  ultimately show ?thesis using r(2) by (intro that[of "mem l" T]) (simp_all add: loaded_def)
qed

end
