(* ===== verification/Conf_Persist.thy ===== *)
theory Conf_Persist
  imports Conf_Load Conf_Demo
begin

text \<open>
  The configuration file and the life cycle: what loading a file gives, that saving and loading
  again preserves every row, where the file format loses data, and what initialisation does to
  the semaphore that all later writes need.
\<close>

section \<open>Rows of a document\<close>

definition sect_rows :: "tcmEntityInfo list \<Rightarrow> sect \<Rightarrow> ((int \<times> int) \<times> entries) list" where
  "sect_rows tab = (\<lambda>(n, es, rws).
     case config_api_get_app_id_by_name tab n of None \<Rightarrow> []
     | Some a \<Rightarrow> ((a, 0), es) # map (\<lambda>(x, xs). ((a, x), xs)) rws)"

definition doc_tbl :: "tcmEntityInfo list \<Rightarrow> sect list \<Rightarrow> int \<times> int \<Rightarrow> entries option" where
  "doc_tbl tab d = map_of (concat (map (sect_rows tab) d))"

lemma tbl_doc:
  assumes "represents m T" and "numbered m T" and "named tab m (length T)"
  shows "tbl m = doc_tbl tab (doc_of m T)"
proof -
  have "map (\<lambda>(k, ks). (k, map (entry m) ks)) (app_lists m i (T ! i)) = sect_rows tab (app_doc m i (T ! i))"
    if "i < length T" for i
    using assms(3) that
    by (simp add: named_def app_lists_def sect_rows_def app_doc_def row_doc_def Let_def case_prod_unfold)
  then have "map (\<lambda>(k, ks). (k, map (entry m) ks)) (tree_lists m T) = concat (map (sect_rows tab) (doc_of m T))"
    unfolding tree_lists_def doc_of_def map_concat map_map comp_def
    by (intro arg_cong[where f = concat] map_cong) auto
  then show ?thesis by (simp add: tbl_tree[OF assms(1,2)] doc_tbl_def)
qed

section \<open>Memories that can be written as a file\<close>

text \<open>
  The texts of a document that survive the file format: no line break inside, no \<^verbatim>\<open>=\<close> in a name
  and no bracket where the reader looks for one, and every line within the reader's buffer.
\<close>

definition printable :: "sect list \<Rightarrow> bool" where
  "printable d \<longleftrightarrow> (\<forall>(n, es, rws) \<in> set d. plain n \<and> CHR '']'' \<notin> set n \<and>
     (\<forall>e \<in> set es. entry_ok e) \<and> (\<forall>(x, xs) \<in> set rws. \<forall>e \<in> set xs. entry_ok e))"

definition storable :: "tcmEntityInfo list \<Rightarrow> shm \<Rightarrow> bool" where
  "storable tab m \<longleftrightarrow> (\<exists>T. represents m T \<and> numbered m T \<and> named tab m (length T) \<and> printable (doc_of m T))"

lemma entries_okI:
  assumes "plist_numbered m a x ks" and "\<forall>e \<in> set (map (entry m) ks). entry_ok e"
  shows "entries_ok (map (entry m) ks)"
  using assms unfolding entries_ok_def plist_numbered_def by simp

lemma row_doc_sorted:
  assumes N: "numbered m T" and i: "i < length T"
  shows "sorted_wrt (<) (map fst (map (row_doc m (app_id (apps m ! i))) (snd (T ! i))))"
proof -
  let ?a = "app_id (apps m ! i)"
  have r: "row_id (rows m ! fst e) = ?a * 65536 + row_number m ?a (fst e) * 256" if "e \<in> set (snd (T ! i))" for e
    using numbered_app(1)[OF N i] numbered_app(3)[OF N i, of "fst e" "snd e"] that ids_exact(1)[of ?a "row_number m ?a (fst e)"]
    by simp
  have "sorted_wrt (\<lambda>e q. row_id (rows m ! fst e) < row_id (rows m ! fst q)) (snd (T ! i))"
    using N i by (simp add: numbered_def app_numbered_rows sorted_wrt_map)
  then have "sorted_wrt (\<lambda>e q. row_number m ?a (fst e) < row_number m ?a (fst q)) (snd (T ! i))"
    by (rule sorted_wrt_mono_rel[rotated]) (simp add: r)
  then show ?thesis by (simp add: sorted_wrt_map row_doc_def case_prod_unfold)
qed

lemma storable_doc_ok:
  assumes R: "represents m T" and N: "numbered m T" and nm: "named tab m (length T)" and P: "printable (doc_of m T)"
  shows "doc_ok tab (doc_of m T)"
  unfolding doc_ok_def
proof (intro conjI ballI)
  fix s assume s: "s \<in> set (doc_of m T)"
  then obtain i where i: "i < length T" "s = app_doc m i (T ! i)" by (auto simp: doc_of_def)
  let ?a = "app_id (apps m ! i)"
  have Ps: "plain (cstr (app_name (apps m ! i)))" "CHR '']'' \<notin> set (cstr (app_name (apps m ! i)))"
    "\<forall>e \<in> set (map (entry m) (fst (T ! i))). entry_ok e"
    "\<forall>(r, ks) \<in> set (snd (T ! i)). \<forall>e \<in> set (map (entry m) ks). entry_ok e"
    using P s unfolding i(2) by (auto simp: printable_def app_doc_def row_doc_def case_prod_unfold)
  have "buf_ok MAX_NAME_LEN (app_name (apps m ! i))"
    using R represents_app(1)[OF R i(1)] by (simp add: represents_def bufs_ok_def)
  then have "length (cstr (app_name (apps m ! i))) \<le> 239"
    by (auto dest!: buf_ok_cstr simp: MAX_NAME_LEN_def)
  moreover have "entries_ok (map (entry m) (fst (T ! i)))"
    by (rule entries_okI[OF numbered_app(2)[OF N i(1)] Ps(3)])
  moreover have "row_ok (row_doc m ?a e)" if "e \<in> set (snd (T ! i))" for e
  proof -
    obtain r ks where e: "e = (r, ks)" by (cases e)
    note n = numbered_app(3)[OF N i(1) that[unfolded e]]
    have "entries_ok (map (entry m) ks)"
      using n Ps(4) that unfolding e by (intro entries_okI) auto
    with n show ?thesis by (simp add: e row_ok_def row_doc_def)
  qed
  ultimately show "sect_ok tab s"
    using Ps(1,2) nm i numbered_app(1)[OF N i(1)] row_doc_sorted[OF N i(1)]
    by (auto simp: sect_ok_def app_doc_def named_def)
next
  have "map (\<lambda>s. config_api_get_app_id_by_name tab (fst s)) (doc_of m T)
      = map Some (map app_id (take (length T) (apps m)))"
  proof -
    have "length T \<le> length (apps m)" using R unfolding represents_def apps_ok_def by blast
    then show ?thesis using nm by (intro nth_equalityI) (auto simp: doc_of_def app_doc_def named_def)
  qed
  then show "distinct (map (\<lambda>s. config_api_get_app_id_by_name tab (fst s)) (doc_of m T))"
    using N unfolding numbered_def by (simp only: distinct_map[of Some]) simp
qed

lemma bounded_length: "distinct xs \<Longrightarrow> (\<And>x. x \<in> set xs \<Longrightarrow> x < n) \<Longrightarrow> length xs \<le> n" for xs :: "nat list"
  by (metis atLeast0LessThan card_mono distinct_card finite_lessThan lessThan_iff card_lessThan subsetI)

lemma doc_sizes: "doc_rows (doc_of m T) = length (tree_rows T)" "doc_paras (doc_of m T) = length (tree_paras T)"
proof (induction T rule: rev_induct)
  case (snoc t T)
  case 1
  show ?case using snoc by (simp add: doc_of_snoc app_doc_def)
  case 2
  have "rows_paras (map (row_doc m a) rs) = length (concat (map snd rs))" for a rs
    by (induction rs) (auto simp: rows_paras_def row_doc_def case_prod_unfold)
  then show ?case using snoc by (simp add: doc_of_snoc app_doc_def)
qed (simp_all add: doc_of_def)

lemma represents_fits:
  assumes "represents m T"
  shows "fits m (doc_of m T)"
  using assms bounded_length[of "tree_rows T" "length (rows m)"] bounded_length[of "tree_paras T" "length (paras m)"]
    tree_rows_live(2)[OF assms] tree_paras_live(2)[OF assms]
  by (simp add: fits_def doc_sizes represents_def apps_ok_def)

section \<open>Saving\<close>

lemma write_to_flash_text:
  assumes "ready c m"
  shows "config_api_write_to_flash False c = Some (- 1, c)"
    and "\<exists>t. flash_text m = Some t \<and> config_api_write_to_flash True c = Some (0, c\<lparr>PARAMETER_FILE := Some t\<rparr>)"
proof -
  from assms obtain s T where c: "cache_addr c = Some m" "semv c = Some (Suc s)" "represents m T" "numbered m T"
    by (auto simp: ready_def wf_shm_def)
  show "config_api_write_to_flash False c = Some (- 1, c)"
    using c by (simp add: config_api_write_to_flash_def check_library_def with_lock_free unlock_cache_def)
  show "\<exists>t. flash_text m = Some t \<and> config_api_write_to_flash True c = Some (0, c\<lparr>PARAMETER_FILE := Some t\<rparr>)"
    using c flash_text_doc[OF c(3,4)]
    by (simp add: config_api_write_to_flash_def check_library_def with_lock_free unlock_cache_def)
qed

section \<open>Properties of the file\<close>

lemma load_document:
  assumes "0 < gMaxAppNum c" and "doc_ok tab d" and "fits (build_cache c) d"
  shows "\<exists>m. build_para_table tab (doc_text d) (init_node (build_cache c)) = Some (0, m) \<and> wf_shm m \<and>
    tbl m = doc_tbl tab d \<and> flash_text m = Some (doc_text d)"
proof -
  from load_doc[OF assms] obtain m T where m: "build_para_table tab (doc_text d) (init_node (build_cache c)) = Some (0, m)"
    "represents m T" "numbered m T" "named tab m (length T)" "doc_of m T = d" "same_shape (build_cache c) m" .
  then show ?thesis using tbl_doc[OF m(2-4)] flash_text_doc[OF m(2,3)] by (auto simp: wf_shm_def)
qed

text \<open>C7. Loading a well-formed configuration file succeeds: it returns 0, the memory is well formed,
  a caller sees exactly the sections, rows and values of the file, and writing the memory back
  gives the file again, character by character.\<close>

theorem load_file:
  assumes "0 < gMaxAppNum c" and "doc_ok tab d" and "fits (build_cache c) d"
  shows "\<exists>m. build_para_table tab (doc_text d) (init_node (build_cache c)) = Some (0, m) \<and> wf_shm m \<and>
    tbl m = doc_tbl tab d \<and> flash_text m = Some (doc_text d)"
  using load_document[OF assms] .

definition demo_doc :: "sect list" where
  "demo_doc = [(''lan'', [(''ip'', ''10.0.0.1''), (''mask'', ''255.0.0.0'')],
                [(1, [(''mac'', ''aa''), (''host'', ''printer'')])]),
               (''dhcpd'', [(''lease'', ''3600'')], [])]"

lemma demo_lookup:
  "config_api_get_app_id_by_name demo_tab ''lan'' = Some 1" "config_api_get_app_id_by_name demo_tab ''dhcpd'' = Some 2"
  by (simp_all add: config_api_get_app_id_by_name_def demo_tab_def tcmUtl_strcmp_eq_def nullstr_def
      ID_LAN_def ID_DHCPD_def ID_END_def)

lemma demo_doc_ok: "doc_ok demo_tab demo_doc"
  by (simp add: doc_ok_def demo_doc_def sect_ok_def demo_lookup row_ok_def entries_ok_def entry_ok_def app_range_def
      ID_END_def)

lemma demo_fits: "fits (build_cache demo_conf) demo_doc"
  by (simp add: fits_def build_cache_def demo_conf_def demo_doc_def doc_rows_def doc_paras_def rows_paras_def)

lemma demo_max: "0 < gMaxAppNum demo_conf"
  by (simp add: demo_conf_def)

theorem load_file_witness:
  "\<exists>m. build_para_table demo_tab (doc_text demo_doc) (init_node (build_cache demo_conf)) = Some (0, m) \<and> wf_shm m \<and>
    tbl m = doc_tbl demo_tab demo_doc \<and> flash_text m = Some (doc_text demo_doc)"
  by (rule load_file[OF demo_max demo_doc_ok demo_fits])

text \<open>C1. What is saved can be loaded again, for memories that are \<open>storable\<close>: the applications have the names of
  the entity table, no name or value contains a NUL or a newline, no name contains an equals sign or begins with a
  bracket, and every line of the file is shorter than the buffer it is read into. Then, after
  \<open>config_api_write_to_flash\<close>, building a new memory of the same size from the file returns 0
  and every row a caller can read is the same, whatever the order of the nodes was in the old memory; saving that
  memory gives the same file. A row with a longer line is saved and cannot be loaded, see \<open>long_line_unreadable\<close>.\<close>

theorem save_then_load:
  assumes "ready c m" and "storable tab m"
    and "nat (gMaxAppNum c) = length (apps m)" and "nat (gMaxTabNum c) = length (rows m)"
    and "nat (gMaxParaNum c) = length (paras m)"
  shows "\<exists>t m'. config_api_write_to_flash True c = Some (0, c\<lparr>PARAMETER_FILE := Some t\<rparr>) \<and>
    init_library True tab (c\<lparr>PARAMETER_FILE := Some t\<rparr>) =
      Some (0, c\<lparr>PARAMETER_FILE := Some t, shm_key := True, cache_addr := Some m'\<rparr>) \<and>
    wf_shm m' \<and> tbl m' = tbl m \<and> flash_text m' = Some t"
proof -
  from write_to_flash_text(2)[OF assms(1)] obtain t where
    t: "flash_text m = Some t" "config_api_write_to_flash True c = Some (0, c\<lparr>PARAMETER_FILE := Some t\<rparr>)" by blast
  from assms(2) obtain T where T: "represents m T" "numbered m T" "named tab m (length T)" "printable (doc_of m T)"
    by (auto simp: storable_def)
  then have tt: "t = doc_text (doc_of m T)" using flash_text_doc[OF T(1,2)] t(1) by simp
  let ?c = "c\<lparr>PARAMETER_FILE := Some t\<rparr>"
  have "0 < length (apps m)" using T(1) by (simp add: represents_def apps_ok_def)
  then have "0 < nat (gMaxAppNum ?c)" unfolding assms(3)[symmetric] by simp
  then have "0 < gMaxAppNum ?c" by simp
  moreover have "fits (build_cache ?c) (doc_of m T)"
    using represents_fits[OF T(1)] assms(3-5) by (simp add: fits_def build_cache_simps)
  ultimately obtain m' where m': "build_para_table tab t (init_node (build_cache ?c)) = Some (0, m')" "wf_shm m'"
    "tbl m' = doc_tbl tab (doc_of m T)" "flash_text m' = Some t"
    using load_document[of ?c tab "doc_of m T"] storable_doc_ok[OF T] tt by auto
  then have "init_library True tab ?c = Some (0, ?c\<lparr>shm_key := True, cache_addr := Some m'\<rparr>)"
    by (simp add: init_library_def open_para_file_def)
  with t m' tbl_doc[OF T(1-3)] show ?thesis by auto
qed

lemma demo_doc_of: "doc_of demo_shm demo_tree = demo_doc"
  by (simp add: doc_of_def demo_tree_def demo_doc_def app_doc_def row_doc_def row_number_def entry_def cstr_pad)

lemma demo_storable: "storable demo_tab demo_shm"
proof -
  have "named demo_tab demo_shm (length demo_tree)"
    by (auto simp: named_def demo_tree_def demo_lookup cstr_pad less_Suc_eq)
  moreover have "printable demo_doc"
    by (simp add: printable_def demo_doc_def entry_ok_def)
  ultimately show ?thesis
    unfolding storable_def using demo_represents demo_numbered demo_doc_of by metis
qed

theorem save_then_load_witness:
  "\<exists>t m'. config_api_write_to_flash True demo_conf = Some (0, demo_conf\<lparr>PARAMETER_FILE := Some t\<rparr>) \<and>
    init_library True demo_tab (demo_conf\<lparr>PARAMETER_FILE := Some t\<rparr>) =
      Some (0, demo_conf\<lparr>PARAMETER_FILE := Some t, shm_key := True, cache_addr := Some m'\<rparr>) \<and>
    wf_shm m' \<and> tbl m' = tbl demo_shm \<and> flash_text m' = Some t"
  by (rule save_then_load[OF demo_ready demo_storable]) (simp_all add: demo_conf_def)

lemma take_line_cut: "NEWLINE \<notin> set (take n s) \<Longrightarrow> take_line n s = (take n s, drop n s)"
  by (induction n s rule: take_line.induct) auto

lemma take_line_at: "length a = n \<Longrightarrow> NEWLINE \<notin> set a \<Longrightarrow> take_line n (a @ b) = (a, b)"
  using take_line_cut[of n "a @ b"] by simp

lemma take_line_prefix: "\<exists>k. fst (take_line n s) = take k s \<and> (n \<noteq> 0 \<longrightarrow> k \<noteq> 0)"
proof (induction n s rule: take_line.induct)
  case (3 n c s)
  show ?case
  proof (cases "c = NEWLINE")
    case True
    then show ?thesis by (intro exI[of _ 1]) simp
  next
    case False
    with 3 obtain k where "fst (take_line n s) = take k s" by blast
    with False show ?thesis by (intro exI[of _ "Suc k"]) simp
  qed
qed auto

lemma conf_line_cut:
  assumes "CHR ''='' \<notin> set k" and "k = [] \<or> hd k \<noteq> CHR ''[''" and "NEWLINE \<notin> set w"
  shows "conf_line tab l (k @ ''='' @ w) = conf_line tab l (entry_line (k, w))"
proof -
  have "w = [] \<or> last w \<noteq> NEWLINE" using assms(3) last_in_set by metis
  then have "chop_newline w = w" by (auto simp: chop_newline_def)
  moreover have "strchr (k @ ''='' @ w) (CHR ''='') = Some (k, w)" using strchr_found[OF assms(1), of w] by simp
  ultimately have p: "para_line l (k @ ''='' @ w) = para_line l (entry_line (k, w))"
    by (simp add: para_line_def strchr_entry[OF assms(1)])
  have "strchr (k @ ''='' @ w) (CHR ''='') \<noteq> None" unfolding strchr_None by simp
  moreover have "hd (k @ ''='' @ w) \<noteq> CHR ''[''" using assms(2) by (cases k) auto
  ultimately have "conf_line tab l (k @ ''='' @ w) = para_line l (k @ ''='' @ w)"
    by (auto simp: conf_line_def split: option.splits)
  then show ?thesis using p conf_line_para[OF assms(2)] by simp
qed

lemma no_parameter_line:
  assumes "s \<noteq> []" and "CHR ''='' \<notin> set s" and "CHR ''<'' \<notin> set s" and "NUL \<notin> set s" and "hd s \<noteq> CHR ''[''"
  shows "read_lines tab l s = Some (Inl l)"
proof -
  obtain k where k: "fst (take_line (MAX_CONF_LINE - 1) s) = take k s" "k \<noteq> 0"
    using take_line_prefix[of "MAX_CONF_LINE - 1" s] by (auto simp: MAX_CONF_LINE_def)
  let ?t = "take k s"
  have t: "set ?t \<subseteq> set s" "hd ?t = hd s" using k(2) assms(1) by (auto simp: set_take_subset)
  have "cstr ?t = ?t" using t(1) assms(4) by (intro cstr_ident) blast
  moreover have "strchr ?t (CHR ''='') = None" "strchr ?t (CHR ''<'') = None"
    using t(1) assms(2,3) unfolding strchr_None by blast+
  ultimately have "conf_line tab l (cstr ?t) = Some (Inl l)"
    using t(2) assms(5) by (simp add: conf_line_def para_line_def)
  then show ?thesis using assms(1) k(1) by (subst read_lines.simps) simp
qed

text \<open>A value that \<open>config_api_write_parameter\<close> accepts can make the saved file unreadable: when
  the line \<^verbatim>\<open>name=value\<close> has 254 or more characters, the reader's buffer cuts it and takes the
  rest for a line of its own; if there is no \<^verbatim>\<open>=\<close> in it, loading stops there and returns - 1.\<close>

theorem long_line_unreadable:
  assumes "0 < gMaxAppNum c" and "0 < gMaxParaNum c" and "sect_ok tab (n, [], [])"
    and k: "plain k" "CHR ''='' \<notin> set k" "k = [] \<or> hd k \<noteq> CHR ''[''" "length k \<le> 239"
    and v: "plain v" "253 \<le> length k + length v" "length v \<le> 639"
    and rest: "let r = drop (253 - length k) v in CHR ''='' \<notin> set r \<and> CHR ''<'' \<notin> set r \<and> (r = [] \<or> hd r \<noteq> CHR ''['')"
  shows "\<exists>m. build_para_table tab (doc_text [(n, [(k, v)], [])]) (init_node (build_cache c)) = Some (- 1, m)"
proof -
  let ?m = "init_node (build_cache c)" and ?r = "drop (253 - length k) v" and ?v = "take (253 - length k) v"
  have fit: "fits ?m ([] @ [(n, [], [])])"
    using assms(1) by (simp add: fits_def doc_rows_def doc_paras_def init_node_simps build_cache_simps)
  from load_sect[OF start_loaded[OF assms(1)] assms(3) _ fit] obtain l T where
    l: "reads tab (start_loader ?m) (sect_lines (n, [], [])) l" "loaded tab ?m l T ([] @ [(n, [], [])])" by auto
  have kv: "length (k @ ''='' @ ?v) = 254" using k(4) v(2) by simp
  from l(2) have "doc_of (mem l) T = [] @ [(n, [], [])]" by (simp add: loaded_def)
  then obtain T0 ps rs where T: "T = T0 @ [(ps, rs)]" "doc_of (mem l) T0 = []"
    "app_doc (mem l) (length T0) (ps, rs) = (n, [], [])" by (rule doc_of_snocD)
  note F = loaded_last[OF l(2)[unfolded T(1)]]
  have rs: "rs = []" "ps = []" using T(3) by (auto simp: app_doc_def)
  have room: "npara l < length (paras (mem l))"
    using assms(2) F(5,9) by (simp add: same_shape_def init_node_simps build_cache_simps doc_paras_def rows_paras_def)
  then have next0: "para_next (paras (mem l) ! npara l) = 0" using F(6) by (simp add: rest_free_def)
  have nul: "NUL \<notin> set k" "NUL \<notin> set ?v" "NUL \<notin> set ?r" "NEWLINE \<notin> set k" "NEWLINE \<notin> set ?v"
    using k(1) v(1) by (auto simp: plain_def dest: in_set_takeD in_set_dropD)
  have "length ?v \<le> 639" by simp
  from para_line_run[OF k(2) nul(1,2) k(4) this k(3) F(10) room next0, of tab] F(1) obtain l1 where
    l1: "conf_line tab l (entry_line (k, ?v)) = Some (Inr l1)"
    using F(11,12,15) rs by (auto simp: represents_def current_def opt_last_def Let_def set_app_def)
  have cut: "conf_line tab l (k @ ''='' @ ?v) = Some (Inr l1)"
    using l1 conf_line_cut[OF k(2,3) nul(5)] by simp
  have "doc_text [(n, [(k, v)], [])] = sect_lines (n, [], []) @ (k @ ''='' @ v @ [NEWLINE])"
    by (simp add: doc_text_def sect_lines_def entry_line_def)
  then have "read_lines tab (start_loader ?m) (doc_text [(n, [(k, v)], [])]) = read_lines tab l (k @ ''='' @ v @ [NEWLINE])"
    using l(1) by (simp add: reads_def)
  also have "\<dots> = read_lines tab l1 (?r @ [NEWLINE])"
  proof -
    have s: "k @ ''='' @ v @ [NEWLINE] = (k @ ''='' @ ?v) @ (?r @ [NEWLINE])" by simp
    have "take_line 254 ((k @ ''='' @ ?v) @ (?r @ [NEWLINE])) = (k @ ''='' @ ?v, ?r @ [NEWLINE])"
      by (rule take_line_at[OF kv]) (use nul(4,5) in simp)
    moreover have "cstr (k @ ''='' @ ?v) = k @ ''='' @ ?v" using nul(1,2) by (intro cstr_ident) simp
    ultimately show ?thesis
      unfolding s by (subst read_lines.simps) (simp add: MAX_CONF_LINE_def cut[simplified])
  qed
  also have "\<dots> = Some (Inl l1)"
  proof (rule no_parameter_line)
    show "hd (?r @ [NEWLINE]) \<noteq> CHR ''[''" using rest by (cases ?r) (auto simp: Let_def)
  qed (use rest nul in \<open>auto simp: Let_def\<close>)
  finally show ?thesis by (simp add: build_para_table_def)
qed

lemma demo_long_value:
  "plain ''ip''" "plain (replicate 300 (CHR ''x''))" "sect_ok demo_tab (''lan'', [], [])"
  by (simp_all add: plain_def sect_ok_def demo_lookup entries_ok_def app_range_def ID_END_def)

theorem long_line_unreadable_witness:
  "\<exists>m. build_para_table demo_tab (doc_text [(''lan'', [(''ip'', replicate 300 (CHR ''x''))], [])])
      (init_node (build_cache demo_conf)) = Some (- 1, m)"
  by (rule long_line_unreadable[OF demo_max _ demo_long_value(3,1) _ _ _ demo_long_value(2)])
    (simp_all add: demo_conf_def Let_def)

end
