(* ===== verification/Conf_Life.thy ===== *)
theory Conf_Life
  imports Conf_Persist
begin

text \<open>
  The life cycle of the library: what \<^verbatim>\<open>config_api_init_library\<close> makes of the semaphore and of
  the memory in its three situations, the sizes it computes, and the release of the resources.
\<close>

section \<open>Sizes\<close>

definition table_rows :: "tcmEntityInfo \<Rightarrow> int" where
  "table_rows i = (if row_paras i = None then 0 else row_maxnum i)"

definition table_paras :: "tcmEntityInfo \<Rightarrow> int" where
  "table_paras i = (if app_maxnum i > 1 then app_maxnum i - 1 else 0) +
     (if row_paras i \<noteq> None \<and> row_end i > 1 then (row_end i - 1) * row_maxnum i else 0)"

lemma param_totals_sum:
  "has_end tab \<Longrightarrow> param_totals tab t p =
     Some (t + sum_list (map table_rows (walked tab)), p + sum_list (map table_paras (walked tab)))"
proof (induction tab arbitrary: t p)
  case (Cons i tab)
  show ?case
  proof (cases "eid i < ID_END")
    case True
    with Cons.prems have "has_end tab" by (auto simp: has_end_def)
    with True Cons.IH show ?thesis
      by (cases "row_paras i") (simp_all add: walked_def table_rows_def table_paras_def Let_def)
  next
    case False
    then show ?thesis by (simp add: walked_def)
  qed
qed (simp add: has_end_def)

lemma param_totals_stuck: "\<not> has_end tab \<Longrightarrow> param_totals tab t p = None"
  by (induction tab arbitrary: t p) (auto simp: has_end_def Let_def split: option.splits)

text \<open>The sizes that \<open>init_Param\<close> computes are exactly those of the segment that \<open>build_cache\<close>
  lays out: the last parameter node ends where the second magic number begins, four bytes before
  the end of the segment, and every application of the table finds a node for each of its
  parameters and, with a full table, for each row and row parameter.\<close>

theorem init_Param_layout:
  assumes "has_end tab" and "\<forall>i \<in> set tab. 0 \<le> row_maxnum i"
  shows "\<exists>c'. init_Param tab c = Some c' \<and>
    gMaxTabNum c' = sum_list (map table_rows (walked tab)) \<and>
    gMaxParaNum c' = sum_list (map table_paras (walked tab)) \<and>
    para_off (build_cache c') (length (paras (build_cache c'))) = gMMAPSIZE c' - sizeof_int"
proof -
  let ?t = "sum_list (map table_rows (walked tab))" and ?p = "sum_list (map table_paras (walked tab))"
  have w: "set (walked tab) \<subseteq> set tab" by (auto simp: walked_def dest: set_takeWhileD)
  have "0 \<le> ?t" using assms(2) w by (intro sum_list_nonneg) (auto simp: table_rows_def)
  moreover have "0 \<le> ?p" using assms(2) w by (intro sum_list_nonneg) (auto simp: table_paras_def)
  ultimately show ?thesis
    unfolding init_Param_def param_totals_sum[OF assms(1)]
    by (simp add: para_off_def PARA_START_NODE_def ROW_START_NODE_def APP_START_NODE_def build_cache_simps
        sizeof_int_def ID_END_def)
qed

lemma demo_end: "has_end demo_tab" "\<forall>i \<in> set demo_tab. 0 \<le> row_maxnum i"
  by (simp_all add: has_end_def demo_tab_def)

theorem init_Param_layout_witness:
  "\<exists>c'. init_Param demo_tab demo_conf = Some c' \<and> gMaxTabNum c' = 3 \<and> gMaxParaNum c' = 13 \<and>
    para_off (build_cache c') (length (paras (build_cache c'))) = gMMAPSIZE c' - sizeof_int"
  using init_Param_layout[OF demo_end, of demo_conf]
  by (simp add: walked_def demo_tab_def table_rows_def table_paras_def ID_END_def ID_LAN_def ID_DHCPD_def
      PARA_LAN_END_def PARA_DHCPD_END_def)

text \<open>The table that the repository ships has no entry with the id \<open>ID_END\<close>, at which the loop
  of \<open>init_Param\<close> stops: initialising with it runs past the end of the array.\<close>

theorem shipped_table_overrun:
  "init_Param entityInfoArray c = None \<and>
   (cache_addr c = None \<and> semv c = Some (Suc s) \<longrightarrow> config_api_init_library True entityInfoArray c = None)"
proof -
  have "\<not> has_end entityInfoArray"
    by (simp add: has_end_def entityInfoArray_def ID_END_def ID_LAN_def ID_DHCPD_def)
  then have "init_Param entityInfoArray c = None" for c
    by (simp add: init_Param_def param_totals_stuck)
  then show ?thesis
    by (simp add: config_api_init_library_def init_cache_lock_def get_sem_id_def lock_cache_def)
qed

theorem shipped_table_overrun_witness:
  "config_api_init_library True entityInfoArray (demo_conf\<lparr>cache_addr := None\<rparr>) = None"
  using shipped_table_overrun[of "demo_conf\<lparr>cache_addr := None\<rparr>" 0] by (simp add: demo_conf_def)

section \<open>The semaphore\<close>

lemma uninit_cache_lock_none: "semv (snd (uninit_cache_lock c)) = None"
  by (simp add: uninit_cache_lock_def get_sem_id_def)

lemma uninit_cache_lock_same: "cache_addr (snd (uninit_cache_lock c)) = cache_addr c"
  by (simp add: uninit_cache_lock_def)

lemma unlock_cache_same: "cache_addr (snd (unlock_cache c)) = cache_addr c"
  by (simp add: unlock_cache_def split: option.splits)

lemma lock_cache_same: "lock_cache c = Some (l, c') \<Longrightarrow> cache_addr c' = cache_addr c \<and> shm_key c' = shm_key c"
  by (auto simp: lock_cache_def split: option.splits nat.splits)

lemma init_cache_lock_same:
  "cache_addr (snd (init_cache_lock ipc c)) = cache_addr c" "shm_key (snd (init_cache_lock ipc c)) = shm_key c"
  by (auto simp: init_cache_lock_def split: option.splits)

lemma init_library_attached:
  "init_library ipc tab c = Some (r, c') \<Longrightarrow> 0 \<le> r \<Longrightarrow> cache_addr c' \<noteq> None"
  by (auto simp: init_library_def Let_def split: option.splits if_splits bind_splits)

lemma init_Param_same: "init_Param tab c = Some c' \<Longrightarrow> cache_addr c' = cache_addr c \<and> shm_key c' = shm_key c"
  by (auto simp: init_Param_def split: bind_splits)

text \<open>What a call does with a readable file.\<close>

definition room_for :: "tcmEntityInfo list \<Rightarrow> sect list \<Rightarrow> bool" where
  "room_for tab d \<longleftrightarrow> has_end tab \<and> int (length d) \<le> ID_END - 1 \<and>
     int (doc_rows d) \<le> sum_list (map table_rows (walked tab)) \<and>
     int (doc_paras d) \<le> sum_list (map table_paras (walked tab))"

lemma init_library_doc:
  assumes "has_end tab" and "init_Param tab c = Some c1" and "open_para_file c = Some (doc_text d)"
    and "doc_ok tab d" and "room_for tab d"
  obtains m where "init_library True tab c1 = Some (0, c1\<lparr>shm_key := True, cache_addr := Some m\<rparr>)" "wf_shm m"
    "tbl m = doc_tbl tab d"
proof -
  have c1: "gMaxAppNum c1 = ID_END - 1" "gMaxTabNum c1 = sum_list (map table_rows (walked tab))"
    "gMaxParaNum c1 = sum_list (map table_paras (walked tab))" "open_para_file c1 = open_para_file c"
    using assms(1,2) by (auto simp: init_Param_def param_totals_sum open_para_file_def split: option.splits)
  have pos: "0 < gMaxAppNum c1" using c1(1) by (simp add: ID_END_def)
  have "fits (build_cache c1) d"
    using assms(5) nat_mono[of "int (doc_rows d)"] nat_mono[of "int (doc_paras d)"]
    by (auto simp: fits_def room_for_def build_cache_simps c1 ID_END_def)
  from load_doc[OF pos assms(4) this] obtain m T where
    "build_para_table tab (doc_text d) (init_node (build_cache c1)) = Some (0, m)"
    "represents m T" "numbered m T" "named tab m (length T)" "doc_of m T = d" by metis
  with that[of m] tbl_doc[of m T tab] assms(3) c1(4) show ?thesis
    by (auto simp: init_library_def wf_shm_def)
qed

lemma init_attaches:
  assumes "room_for tab d" and "cache_addr c = None" and "semv c \<noteq> Some 0"
    and "open_para_file c = Some (doc_text d)" and "doc_ok tab d"
  obtains c' m where "config_api_init_library True tab c = Some (0, c')" "cache_addr c' = Some m" "wf_shm m"
    "tbl m = doc_tbl tab d" "shm_key c' = True" "PARAMETER_FILE c' = PARAMETER_FILE c"
    "semv c' = (if shm_key c then Some (case semv c of None \<Rightarrow> 1 | Some k \<Rightarrow> k) else None)"
proof -
  have he: "has_end tab" using assms(1) by (simp add: room_for_def)
  define k where "k = (case semv c of None \<Rightarrow> 1 | Some k \<Rightarrow> k)"
  have k: "0 < k" using assms(3) by (auto simp: k_def split: option.splits)
  then obtain j where j: "k = Suc j" by (metis gr0_implies_Suc)
  define c2 where "c2 = c\<lparr>semv := Some j\<rparr>"
  have sem: "init_cache_lock True c = (0, c\<lparr>semv := Some k\<rparr>)"
    by (cases "semv c") (simp_all add: init_cache_lock_def k_def)
  obtain c3 where c3: "init_Param tab c2 = Some c3" "cache_addr c3 = None" "shm_key c3 = shm_key c"
    "semv c3 = Some j" "PARAMETER_FILE c3 = PARAMETER_FILE c"
    using assms(2) by (simp add: init_Param_def param_totals_sum[OF he] c2_def)
  have c2: "cache_addr c2 = None" using assms(2) by (simp add: c2_def)
  have opened: "open_para_file c2 = open_para_file c"
    by (simp add: c2_def open_para_file_def split: option.splits)
  obtain m where m: "init_library True tab c3 = Some (0, c3\<lparr>shm_key := True, cache_addr := Some m\<rparr>)" "wf_shm m"
    "tbl m = doc_tbl tab d"
    using init_library_doc[OF he c3(1) _ assms(5,1)] assms(4) opened by metis
  have run: "config_api_init_library True tab c = Some (0,
     let c5 = c3\<lparr>shm_key := True, cache_addr := Some m, semv := Some k\<rparr>
     in if shm_key c then c5 else snd (uninit_cache_lock c5))"
    using assms(2) c2 c3 m(1) j
    by (simp add: config_api_init_library_def sem get_sem_id_def lock_cache_def c2_def[symmetric] unlock_cache_def
        check_library_def Let_def)
  show ?thesis
    by (rule that[OF run]) (use m c3 in \<open>simp_all add: Let_def uninit_cache_lock_none uninit_cache_lock_def
      get_sem_id_def k_def[symmetric]\<close>)
qed

text \<open>The initialisation that creates the segment, and every later call in the same process,
  returns 0 but removes the semaphore on its way out; from then on a write to any parameter
  returns - 1 and changes nothing, although the library is initialised.\<close>

theorem first_init_removes_lock:
  assumes "config_api_init_library ipc tab c = Some (0, c')" and "\<not> shm_key c \<or> cache_addr c \<noteq> None"
    and "app_range a"
  shows "cache_addr c' \<noteq> None \<and> semv c' = None \<and> config_api_write_parameter c' a k (Some v) = Some (- 1, c')"
proof -
  have "cache_addr c' \<noteq> None \<and> semv c' = None"
    using assms(1,2) init_cache_lock_same[of ipc c]
    by (auto simp: config_api_init_library_def uninit_cache_lock_none uninit_cache_lock_same unlock_cache_same
        split: prod.splits if_splits bind_splits dest!: lock_cache_same init_Param_same init_library_attached)
  then show ?thesis
    using assms(3) by (auto simp: config_api_write_parameter_def app_range_def app_index_error_def check_library_def
        with_lock_def get_sem_id_def)
qed

definition demo_start :: conf where
  "demo_start = demo_conf\<lparr>cache_addr := None, semv := None, shm_key := False, DEFAULT_FILE := Some (doc_text demo_doc)\<rparr>"

lemma demo_room: "room_for demo_tab demo_doc"
  unfolding room_for_def
  by (intro conjI, rule demo_end(1)) (simp_all add: demo_doc_def doc_rows_def doc_paras_def rows_paras_def walked_def demo_tab_def
      table_rows_def table_paras_def ID_END_def ID_LAN_def ID_DHCPD_def PARA_LAN_END_def PARA_DHCPD_END_def)

lemma demo_start_simps:
  "cache_addr demo_start = None" "semv demo_start = None" "shm_key demo_start = False"
  "open_para_file demo_start = Some (doc_text demo_doc)"
  by (simp_all add: demo_start_def demo_conf_def open_para_file_def)

theorem first_init_removes_lock_witness:
  "\<exists>c'. config_api_init_library True demo_tab demo_start = Some (0, c') \<and>
    config_api_write_parameter c' 1 2 (Some ''x'') = Some (- 1, c')"
proof -
  obtain c' where c': "config_api_init_library True demo_tab demo_start = Some (0, c')"
    using init_attaches[OF demo_room, of demo_start] demo_start_simps demo_doc_ok by auto
  have a: "app_range 1" by (simp add: app_range_def ID_END_def)
  from first_init_removes_lock[OF c' _ a, of 2 "''x''"] c' show ?thesis by (simp add: demo_start_simps)
qed

text \<open>A process that initialises while the segment exists gets a library it can write to: the
  call returns 0, the semaphore exists with the value it had (1 if it had to be created), and the
  memory holds exactly the rows of the file; whatever an earlier process had written to the
  segment and not saved is gone.\<close>

theorem second_init_reloads:
  assumes "room_for tab d" and "doc_ok tab d" and "open_para_file c = Some (doc_text d)"
    and "shm_key c" and "cache_addr c = None" and "semv c \<noteq> Some 0"
  shows "\<exists>c' m. config_api_init_library True tab c = Some (0, c') \<and> ready c' m \<and> tbl m = doc_tbl tab d \<and>
    semv c' = Some (case semv c of None \<Rightarrow> 1 | Some k \<Rightarrow> k)"
proof -
  obtain c' m where c': "config_api_init_library True tab c = Some (0, c')" "cache_addr c' = Some m" "wf_shm m"
    "tbl m = doc_tbl tab d" "shm_key c' = True" "PARAMETER_FILE c' = PARAMETER_FILE c"
    "semv c' = (if shm_key c then Some (case semv c of None \<Rightarrow> 1 | Some k \<Rightarrow> k) else None)"
    by (rule init_attaches[OF assms(1,5,6,3,2)])
  moreover have "0 < (case semv c of None \<Rightarrow> 1 | Some k \<Rightarrow> k)" using assms(6) by (auto split: option.splits)
  ultimately have "ready c' m" using assms(4) by (auto simp: ready_def gr0_conv_Suc)
  with c' assms(4) show ?thesis by auto
qed

theorem second_init_reloads_witness:
  "\<exists>c' m. config_api_init_library True demo_tab (demo_start\<lparr>shm_key := True\<rparr>) = Some (0, c') \<and> ready c' m \<and>
    tbl m = doc_tbl demo_tab demo_doc \<and> semv c' = Some 1"
  using second_init_reloads[OF demo_room demo_doc_ok, of "demo_start\<lparr>shm_key := True\<rparr>"]
  by (simp add: demo_start_simps) (simp add: demo_start_def demo_conf_def open_para_file_def)

text \<open>Releasing: 0 exactly when segment and semaphore both exist, and then both are gone; without
  the semaphore the call returns - 1 but has removed the segment already, so that calling it again
  cannot succeed. The memory of a process that has it attached is not touched.\<close>

theorem release_library_outcome:
  "(let (r, c') = config_api_release_library c in
     (r = 0 \<longleftrightarrow> shm_key c \<and> semv c \<noteq> None) \<and> (r \<noteq> 0 \<longrightarrow> r = - 1 \<and> semv c' = semv c) \<and>
     \<not> shm_key c' \<and> (r = 0 \<longrightarrow> semv c' = None) \<and> cache_addr c' = cache_addr c \<and>
     fst (config_api_release_library c') = - 1)"
  by (auto simp: config_api_release_library_def Let_def)

theorem release_library_outcome_witness:
  "fst (config_api_release_library (demo_conf\<lparr>semv := None\<rparr>)) = - 1 \<and>
   \<not> shm_key (snd (config_api_release_library (demo_conf\<lparr>semv := None\<rparr>)))"
  using release_library_outcome[of "demo_conf\<lparr>semv := None\<rparr>"] by (simp add: case_prod_unfold Let_def)

end
