(* ===== verification/Capi.thy ===== *)
theory Capi
  imports Act_Base Conf_Props Conf_Persist
begin

text \<open>
  The database functions the home gateway calls (\<^verbatim>\<open>capi_read_parameter\<close> and the like in \<^verbatim>\<open>ehcc\<close>). They are not in the
  repository: the gateway's model has them as the parameter \<open>'d capi\<close>, where \<open>'d\<close> is the state of the database. What the gateway relies on is
  the interface \<open>capi_database\<close>: reading gives the string that is stored and 0, or -1; writing changes the one
  value. \<^verbatim>\<open>conflib\<close>, which has functions of the same shape, is shown to be such a database.
\<close>

section \<open>The functions\<close>

text \<open>
  A buffer is \<open>None\<close> for \<^verbatim>\<open>NULL\<close>; the results are the return code with the buffers or the database afterwards.
\<close>

record 'd capi =
  capi_read_parameter :: "'d \<Rightarrow> int \<Rightarrow> int \<Rightarrow> buf option \<Rightarrow> (int \<times> buf option) run"
  capi_read_table_parameter :: "'d \<Rightarrow> int \<Rightarrow> int \<Rightarrow> int \<Rightarrow> buf option \<Rightarrow> (int \<times> buf option) run"
  capi_read_table_row :: "'d \<Rightarrow> int \<Rightarrow> int \<Rightarrow> buf option list \<Rightarrow> (int \<times> buf option list) run"
  capi_write_parameter :: "'d \<Rightarrow> int \<Rightarrow> int \<Rightarrow> string option \<Rightarrow> (int \<times> 'd) run"
  capi_write_table_parameter :: "'d \<Rightarrow> int \<Rightarrow> int \<Rightarrow> int \<Rightarrow> string option \<Rightarrow> (int \<times> 'd) run"
  capi_write_to_flash :: "'d \<Rightarrow> (int \<times> 'd) run"

section \<open>What a database promises\<close>

text \<open>The contents: the rows of each application with their names and values, row 0 for what is in no table.\<close>

type_synonym rows_view = "int \<times> int \<Rightarrow> (string \<times> string) list option"

fun cell :: "rows_view \<Rightarrow> int \<times> int \<times> int \<Rightarrow> string option" where
  "cell t (a, x, k) = nth_value (t (a, x)) k"

text \<open>A value of up to 638 characters fits the buffer of the caller with its zero.\<close>

definition reads :: "string option \<Rightarrow> buf \<Rightarrow> (int \<times> buf option) run \<Rightarrow> bool" where
  "reads v b r \<longleftrightarrow>
     (case v of None \<Rightarrow> \<exists>b1. r = Some (- 1, Some b1) \<and> length b1 = length b
      | Some s \<Rightarrow> length s < 639 \<longrightarrow> (\<exists>b1. r = Some (0, Some b1) \<and> length b1 = length b \<and> str_of b1 = Some s))"

definition bufs_ok :: "nat \<Rightarrow> buf option list \<Rightarrow> bool" where
  "bufs_ok n bs \<longleftrightarrow> length bs = n \<and> (\<forall>b \<in> set bs. \<exists>z. b = Some z \<and> MAX_VALUE_LEN \<le> length z)"

definition holds_row :: "(string \<times> string) list \<Rightarrow> buf option list \<Rightarrow> bool" where
  "holds_row es bs \<longleftrightarrow> (\<forall>k < length es. \<exists>z. bs ! k = Some z \<and> str_of z = Some (snd (es ! k)))"

definition reads_row :: "(string \<times> string) list option \<Rightarrow> nat \<Rightarrow> (int \<times> buf option list) run \<Rightarrow> bool" where
  "reads_row v n r \<longleftrightarrow>
     (case v of None \<Rightarrow> \<exists>bs. r = Some (- 1, bs) \<and> bufs_ok n bs
      | Some es \<Rightarrow> length es = n \<and> (\<forall>e \<in> set es. length (snd e) < 639) \<longrightarrow> (\<exists>bs. r = Some (0, bs) \<and> bufs_ok n bs \<and> holds_row es bs))"

locale capi_database =
  fixes X :: "'d capi"
    and view :: "'d \<Rightarrow> rows_view"
    and good :: "'d \<Rightarrow> bool"
    and valid :: "int \<Rightarrow> bool"
  assumes read_parameter: "good c \<Longrightarrow> valid a \<Longrightarrow> is_int k \<Longrightarrow> MAX_VALUE_LEN \<le> length b \<Longrightarrow>
      reads (cell (view c) (a, 0, k)) b (capi_read_parameter X c a k (Some b))"
    and read_table_parameter: "good c \<Longrightarrow> valid a \<Longrightarrow> 1 \<le> x \<Longrightarrow> x < 256 \<Longrightarrow> is_int k \<Longrightarrow> MAX_VALUE_LEN \<le> length b \<Longrightarrow>
      reads (cell (view c) (a, x, k)) b (capi_read_table_parameter X c a x k (Some b))"
    and read_table_row: "good c \<Longrightarrow> valid a \<Longrightarrow> 1 \<le> x \<Longrightarrow> x < 256 \<Longrightarrow> 0 < n \<Longrightarrow> bufs_ok n bs \<Longrightarrow>
      reads_row (view c (a, x)) n (capi_read_table_row X c a x bs)"
    and write_parameter: "good c \<Longrightarrow> valid a \<Longrightarrow> is_int k \<Longrightarrow> cell (view c) (a, 0, k) \<noteq> None \<Longrightarrow> NUL \<notin> set v \<Longrightarrow> length v < 639 \<Longrightarrow>
      \<exists>c1. capi_write_parameter X c a k (Some v) = Some (0, c1) \<and> good c1 \<and> cell (view c1) = (cell (view c))((a, 0, k) \<mapsto> v)"
    and write_to_flash: "good c \<Longrightarrow> \<exists>r c1. capi_write_to_flash X c = Some (r, c1) \<and> good c1 \<and> view c1 = view c"
begin

text \<open>The string of a parameter that was read, \<open>None\<close> when there is none.\<close>

lemma parameter_read:
  assumes "good c" and "valid a" and "is_int k" and "MAX_VALUE_LEN \<le> length b"
    and "\<forall>s. cell (view c) (a, 0, k) = Some s \<longrightarrow> length s < 639"
  obtains b1 where "capi_read_parameter X c a k (Some b) = Some (if cell (view c) (a, 0, k) = None then - 1 else 0, Some b1)"
    and "length b1 = length b" and "cell (view c) (a, 0, k) \<noteq> None \<Longrightarrow> str_of b1 = cell (view c) (a, 0, k)"
  using read_parameter[OF assms(1-4)] assms(5) by (auto simp: reads_def split: option.splits)

lemma table_parameter_read:
  assumes "good c" and "valid a" and "1 \<le> x" and "x < 256" and "is_int k" and "MAX_VALUE_LEN \<le> length b"
    and "\<forall>s. cell (view c) (a, x, k) = Some s \<longrightarrow> length s < 639"
  obtains b1 where "capi_read_table_parameter X c a x k (Some b) = Some (if cell (view c) (a, x, k) = None then - 1 else 0, Some b1)"
    and "length b1 = length b" and "cell (view c) (a, x, k) \<noteq> None \<Longrightarrow> str_of b1 = cell (view c) (a, x, k)"
  using read_table_parameter[OF assms(1-6)] assms(7) by (auto simp: reads_def split: option.splits)

lemma row_absent:
  assumes "good c" and "valid a" and "1 \<le> x" and "x < 256" and "0 < n" and "bufs_ok n bs" and "view c (a, x) = None"
  obtains bs1 where "capi_read_table_row X c a x bs = Some (- 1, bs1)" and "bufs_ok n bs1"
  using read_table_row[OF assms(1-6)] assms(7) by (auto simp: reads_row_def)

lemma row_present:
  assumes "good c" and "valid a" and "1 \<le> x" and "x < 256" and "0 < n" and "bufs_ok n bs" and "view c (a, x) = Some es"
    and "length es = n" and "\<forall>e \<in> set es. length (snd e) < 639"
  obtains bs1 where "capi_read_table_row X c a x bs = Some (0, bs1)" and "bufs_ok n bs1" and "holds_row es bs1"
  using read_table_row[OF assms(1-6)] assms(7-9) by (auto simp: reads_row_def)

text \<open>A value that was written is the one that is read, and the flash memory changes nothing of it.\<close>

lemma written_then_flash:
  assumes "good c" and "valid a" and "is_int k" and "cell (view c) (a, 0, k) \<noteq> None" and "NUL \<notin> set v" and "length v < 639"
  obtains c1 r c2 where "capi_write_parameter X c a k (Some v) = Some (0, c1)" and "capi_write_to_flash X c1 = Some (r, c2)"
    and "good c2" and "cell (view c2) = (cell (view c))((a, 0, k) \<mapsto> v)"
proof -
  from write_parameter[OF assms] obtain c1 where
    c1: "capi_write_parameter X c a k (Some v) = Some (0, c1)" "good c1" "cell (view c1) = (cell (view c))((a, 0, k) \<mapsto> v)" by blast
  from write_to_flash[OF c1(2)] obtain r c2 where "capi_write_to_flash X c1 = Some (r, c2)" "good c2" "view c2 = view c1" by blast
  then show thesis using c1 that by simp
qed

end

section \<open>The configuration library\<close>

text \<open>\<open>opens\<close> is whether the file of the configuration can be opened for writing.\<close>

definition conflib_capi :: "bool \<Rightarrow> conf capi" where
  "conflib_capi opens = \<lparr>capi_read_parameter = config_api_read_parameter, capi_read_table_parameter = config_api_read_table_parameter,
     capi_read_table_row = config_api_read_table_row, capi_write_parameter = config_api_write_parameter,
     capi_write_table_parameter = config_api_write_table_parameter, capi_write_to_flash = config_api_write_to_flash opens\<rparr>"

definition conflib_view :: "conf \<Rightarrow> rows_view" where
  "conflib_view c = (case cache_addr c of None \<Rightarrow> Map.empty | Some m \<Rightarrow> tbl m)"

definition conflib_good :: "conf \<Rightarrow> bool" where
  "conflib_good c \<longleftrightarrow> (\<exists>m. ready c m)"

lemma ready_view: "ready c m \<Longrightarrow> conflib_good c \<and> conflib_view c = tbl m"
  by (auto simp: conflib_good_def conflib_view_def ready_def)

lemma cell_tbl: "cell (tbl m) = cfg m"
  by (rule ext) (auto simp: cfg.simps)

lemma goodE:
  assumes "conflib_good c"
  obtains m where "ready c m" and "cache_addr c = Some m" and "wf_shm m" and "conflib_view c = tbl m"
  using assms by (auto simp: conflib_good_def conflib_view_def ready_def)

lemma str_of_read_into: "NUL \<notin> set v \<Longrightarrow> length v < 639 \<Longrightarrow> str_of (read_into b v) = Some v"
  by (simp add: str_of_def read_into_def terminated_def)

lemma length_read_into: "length s < 639 \<Longrightarrow> MAX_VALUE_LEN \<le> length b \<Longrightarrow> length (read_into b s) = length b"
  by (simp add: read_into_def MAX_VALUE_LEN_def)

lemma reads_read_into:
  assumes "MAX_VALUE_LEN \<le> length b" and "\<And>s. v = Some s \<Longrightarrow> NUL \<notin> set s"
  shows "reads v b (Some (case v of None \<Rightarrow> (- 1, Some b) | Some s \<Rightarrow> (0, Some (read_into b s))))"
  using assms by (cases v) (simp_all add: reads_def str_of_read_into length_read_into)

lemma reads_row_read_into:
  assumes "bufs_ok (length es) bs" and "\<forall>e \<in> set es. NUL \<notin> set (snd e)" and "\<forall>e \<in> set es. length (snd e) < 639"
  shows "bufs_ok (length es) (map2 (\<lambda>e b. Some (read_into (the b) (snd e))) es bs) \<and>
    holds_row es (map2 (\<lambda>e b. Some (read_into (the b) (snd e))) es bs)"
proof -
  have l: "length bs = length es" using assms(1) by (simp add: bufs_ok_def)
  have k: "MAX_VALUE_LEN \<le> length (the (bs ! k)) \<and> NUL \<notin> set (snd (es ! k)) \<and> length (snd (es ! k)) < 639" if "k < length es" for k
    using assms that l unfolding bufs_ok_def by (metis nth_mem option.sel)
  let ?bs = "map2 (\<lambda>e b. Some (read_into (the b) (snd e))) es bs"
  have n: "?bs ! i = Some (read_into (the (bs ! i)) (snd (es ! i)))" if "i < length es" for i using that l by simp
  have "MAX_VALUE_LEN \<le> length (read_into (the (bs ! i)) (snd (es ! i)))" if "i < length es" for i
    using k[OF that] length_read_into by simp
  then have "\<exists>z. ?bs ! i = Some z \<and> MAX_VALUE_LEN \<le> length z" if "i < length es" for i
    using n[OF that] that by simp
  moreover have ln: "length ?bs = length es" using l by simp
  ultimately have "bufs_ok (length es) ?bs" unfolding bufs_ok_def by (metis in_set_conv_nth)
  moreover have "holds_row es ?bs" using n k by (simp add: holds_row_def str_of_read_into del: nth_map)
  ultimately show ?thesis ..
qed

interpretation conflib: capi_database "conflib_capi opens" conflib_view conflib_good app_range
proof
  fix c a k and b :: buf assume c: "conflib_good c" and a: "app_range a" and k: "is_int k" and b: "MAX_VALUE_LEN \<le> length b"
  from c obtain m where m: "cache_addr c = Some m" "wf_shm m" "conflib_view c = tbl m" by (rule goodE)
  show "reads (cell (conflib_view c) (a, 0, k)) b (capi_read_parameter (conflib_capi opens) c a k (Some b))"
    unfolding m(3) cell_tbl using read_value(1)[OF m(1,2) a k b] reads_read_into[OF b] cfg_value
    by (auto simp: conflib_capi_def)
  fix x assume "1 \<le> (x :: int)" "x < 256"
  then have "is_int (x * 256)" "x \<noteq> 0" using small_is_int(2)[of x] by simp_all
  then show "reads (cell (conflib_view c) (a, x, k)) b (capi_read_table_parameter (conflib_capi opens) c a x k (Some b))"
    unfolding m(3) cell_tbl using read_value(2)[OF m(1,2) a k b] reads_read_into[OF b] cfg_value
    by (auto simp: conflib_capi_def)
next
  fix c and a x :: int and n and bs :: "buf option list"
  assume c: "conflib_good c" and a: "app_range a" and x: "1 \<le> x" "x < 256" and n: "0 < n" and bs: "bufs_ok n bs"
  from c obtain m where m: "cache_addr c = Some m" "wf_shm m" "conflib_view c = tbl m" by (rule goodE)
  have ne: "bs \<noteq> []" "hd bs \<noteq> None" using n bs unfolding bufs_ok_def by (cases bs; force)+
  show "reads_row (conflib_view c (a, x)) n (capi_read_table_row (conflib_capi opens) c a x bs)"
  proof (cases "tbl m (a, x)")
    case None
    then show ?thesis using read_row_absent[OF m(1,2) a x None ne] m(3) bs by (simp add: reads_row_def conflib_capi_def)
  next
    case (Some es)
    have v: "\<forall>e \<in> set es. NUL \<notin> set (snd e)" using tbl_values[OF Some] by auto
    have "config_api_read_table_row c a x bs = Some (0, map2 (\<lambda>e b. Some (read_into (the b) (snd e))) es bs)" if "length es = n"
      using read_table_row_values[OF m(1,2) a x Some ne] that bs by (simp add: bufs_ok_def)
    then show ?thesis using Some m(3) bs v reads_row_read_into[of es bs]
      by (auto simp: reads_row_def conflib_capi_def)
  qed
next
  fix c a k and v :: string
  assume c: "conflib_good c" and a: "app_range a" and k: "is_int k" and p: "cell (conflib_view c) (a, 0, k) \<noteq> None"
    and v: "NUL \<notin> set v" "length v < 639"
  from c obtain m where m: "ready c m" "conflib_view c = tbl m" by (rule goodE)
  from write_value(2)[OF m(1) a k v(1)] p v(2) obtain n where
    n: "config_api_write_parameter c a k (Some v) = Some (0, written c a n)" "wf_shm n" "cfg n = (cfg m)((a, 0, k) \<mapsto> v)"
    unfolding m(2) cell_tbl by auto
  from ready_view[OF ready_written[OF m(1) n(2)]] n
  show "\<exists>c1. capi_write_parameter (conflib_capi opens) c a k (Some v) = Some (0, c1) \<and> conflib_good c1 \<and>
      cell (conflib_view c1) = (cell (conflib_view c))((a, 0, k) \<mapsto> v)"
    unfolding m(2) by (auto simp: conflib_capi_def cell_tbl)
next
  fix c assume "conflib_good c"
  then obtain m where m: "ready c m" "conflib_view c = tbl m" by (rule goodE)
  then show "\<exists>r c1. capi_write_to_flash (conflib_capi opens) c = Some (r, c1) \<and> conflib_good c1 \<and> conflib_view c1 = conflib_view c"
    using write_to_flash_text[OF m(1)]
    by (cases opens) (auto simp: conflib_capi_def conflib_good_def conflib_view_def ready_def)
qed

end
