(* ===== verification/Eh_Frame.thy ===== *)
theory Eh_Frame
  imports Message
begin

text \<open>
  The home gateway (\<^verbatim>\<open>InteligenceHomeSystem/ehcc\<close>): the messages it exchanges with the indoor and outdoor
  phones (\<^verbatim>\<open>ehMq.c\<close>), their way over a socket (\<^verbatim>\<open>ehSslSocket.c\<close>, built without \<^verbatim>\<open>SSL_CONNECT\<close>) and the
  sending of one (\<^verbatim>\<open>ehMpc.c\<close>). \<open>big\<close> is whether the machine is big-endian. A message in memory is the list
  of its bytes; an access outside of it has no defined result.
\<close>

section \<open>Memory and byte order\<close>

definition get_bytes :: "nat \<Rightarrow> nat \<Rightarrow> buf \<Rightarrow> char list run" where
  "get_bytes off n b = (if off + n \<le> length b then Some (take n (drop off b)) else None)"

definition put_bytes :: "nat \<Rightarrow> char list \<Rightarrow> buf \<Rightarrow> buf run" where
  "put_bytes off x b =
     (if off + length x \<le> length b then Some (take off b @ x @ drop (off + length x) b) else None)"

definition u16_bytes :: "bool \<Rightarrow> 16 word \<Rightarrow> char list" where
  "u16_bytes big w = (if big then rev (le_bytes 2 (unat w)) else le_bytes 2 (unat w))"

definition u16_of :: "bool \<Rightarrow> char list \<Rightarrow> 16 word" where
  "u16_of big b = of_nat (le_value (if big then rev b else b))"

text \<open>\<^verbatim>\<open>ntohs\<close> and \<^verbatim>\<open>htons\<close> of the C library: a number whose bytes in memory are those of the other order.\<close>

definition ntohs :: "bool \<Rightarrow> 16 word \<Rightarrow> 16 word" where
  "ntohs big w = u16_of True (u16_bytes big w)"

definition htons :: "bool \<Rightarrow> 16 word \<Rightarrow> 16 word" where
  "htons big w = u16_of big (u16_bytes True w)"

section \<open>Messages\<close>

definition HOME_MSG_PROTOCOL_VERSION :: "16 word" where "HOME_MSG_PROTOCOL_VERSION = 1"
definition OFF_SET_PROTOCOL_VERSION :: nat where "OFF_SET_PROTOCOL_VERSION = 0"
definition OFF_SET_PAYLOAD_LEN :: nat where "OFF_SET_PAYLOAD_LEN = 2"
definition OFF_SET_RESERVE :: nat where "OFF_SET_RESERVE = 4"
definition OFF_SET_EVENT_TYPE :: nat where "OFF_SET_EVENT_TYPE = 20"
definition OFF_SET_VALUE_LEN :: nat where "OFF_SET_VALUE_LEN = 22"
definition OFF_SET_VALUE :: nat where "OFF_SET_VALUE = 24"

lemmas offsets = OFF_SET_PROTOCOL_VERSION_def OFF_SET_PAYLOAD_LEN_def OFF_SET_RESERVE_def
  OFF_SET_EVENT_TYPE_def OFF_SET_VALUE_LEN_def OFF_SET_VALUE_def

record homeMessage =
  protocolVersion :: "16 word"
  payloadLen :: "16 word"
  msg_reserve :: buf
  eventType :: "16 word"
  valueLen :: "16 word"

definition sizeof_homeMessage :: nat where "sizeof_homeMessage = 24"

text \<open>
  A control block, with the value that follows it in memory. The time of its creation, which is only
  shown, and the \<open>next\<close> pointer, which the queues add, are left out.
\<close>

record homeMsgCtrlBlock =
  sequenceID :: UINT32
  msg :: homeMessage
  connfd :: int
  ssl :: nat
  msg_value :: "char list"

definition checkHomeMsgType :: "16 word \<Rightarrow> bool" where
  "checkHomeMsgType msgType = True"

definition UPDATE_SEQ_NUMBER :: "UINT32 \<Rightarrow> UINT32" where
  "UPDATE_SEQ_NUMBER num = (if num = 0xFFFFFFFF then 0 else num + 1)"

text \<open>\<^verbatim>\<open>strcpy\<close> to the field \<^verbatim>\<open>reserve\<close> of a zeroed block, from the string that begins at \<open>m\<close>.\<close>

definition copy_reserve :: "buf \<Rightarrow> buf run" where
  "copy_reserve m = (if terminated m \<and> length (cstr m) < 16 then Some (pad 16 (cstr m)) else None)"

text \<open>
  Memory from \<^verbatim>\<open>tcmMem_alloc\<close> is used without a test whether there was any. \<open>seqn\<close> is the global \<^verbatim>\<open>g_seqNum\<close>.
\<close>

definition createHomeMsgBlock ::
    "'w kernel \<Rightarrow> 16 word \<Rightarrow> buf option \<Rightarrow> 16 word \<Rightarrow> 16 word \<Rightarrow> buf option \<Rightarrow> int \<Rightarrow> nat \<Rightarrow> UINT32 \<Rightarrow> 'w \<Rightarrow>
      (homeMsgCtrlBlock option \<times> UINT32 \<times> 'w) run" where
  "createHomeMsgBlock K ver res et vlen val fd s seqn w =
     (if \<not> checkHomeMsgType et then Some (None, seqn, w)
      else case k_alloc K w of (al, w1) \<Rightarrow>
        if \<not> al then None
        else do {
          r \<leftarrow> (case res of None \<Rightarrow> Some (replicate 16 NUL) | Some m \<Rightarrow> copy_reserve m);
          v \<leftarrow> (case val of None \<Rightarrow> Some (replicate (unat vlen) NUL) | Some m \<Rightarrow> get_bytes 0 (unat vlen) m);
          Some (Some \<lparr>sequenceID = UPDATE_SEQ_NUMBER seqn,
              msg = \<lparr>protocolVersion = ver, payloadLen = 4 + vlen, msg_reserve = r, eventType = et,
                valueLen = (if val = None then 0 else vlen)\<rparr>,
              connfd = fd, ssl = s, msg_value = v\<rparr>, UPDATE_SEQ_NUMBER seqn, w1) })"

definition cloneEhMsg :: "'w kernel \<Rightarrow> homeMsgCtrlBlock option \<Rightarrow> 'w \<Rightarrow> (homeMsgCtrlBlock option \<times> 'w) run" where
  "cloneEhMsg K ehMsg w =
     (case ehMsg of None \<Rightarrow> Some (None, w)
      | Some b \<Rightarrow>
          if protocolVersion (msg b) \<noteq> HOME_MSG_PROTOCOL_VERSION then Some (None, w)
          else if \<not> checkHomeMsgType (eventType (msg b)) then Some (None, w)
          else case k_alloc K w of (al, w1) \<Rightarrow>
            if \<not> al then None
            else do {
              r \<leftarrow> copy_reserve (msg_reserve (msg b));
              v \<leftarrow> get_bytes 0 (unat (valueLen (msg b))) (msg_value b);
              Some (Some \<lparr>sequenceID = sequenceID b,
                  msg = \<lparr>protocolVersion = protocolVersion (msg b), payloadLen = 4 + valueLen (msg b),
                    msg_reserve = r, eventType = eventType (msg b), valueLen = valueLen (msg b)\<rparr>,
                  connfd = connfd b, ssl = ssl b, msg_value = v\<rparr>, w1) })"

text \<open>
  \<open>None\<close> for the reserve and the value is the pointer \<^verbatim>\<open>-1\<close> that asks not to change them. The length is
  a \<^verbatim>\<open>uint16_t\<close>, which never equals \<^verbatim>\<open>-1\<close>.
\<close>

definition NOT_CHANGE_VALUELEN :: int where "NOT_CHANGE_VALUELEN = - 1"

definition updateEhMsg ::
    "homeMsgCtrlBlock option \<Rightarrow> buf option \<Rightarrow> 16 word \<Rightarrow> buf option \<Rightarrow> (tcmRet \<times> homeMsgCtrlBlock option) run" where
  "updateEhMsg upMsg res vlen val =
     (case upMsg of None \<Rightarrow> Some (TCMRET_INVALID_PARAMETER, None)
      | Some b \<Rightarrow> do {
          r \<leftarrow> (case res of None \<Rightarrow> Some (msg_reserve (msg b)) | Some m \<Rightarrow> get_bytes 0 16 m);
          v \<leftarrow> (case val of None \<Rightarrow> Some (msg_value b)
                | Some m \<Rightarrow> do { z \<leftarrow> put_bytes 0 (replicate (unat (valueLen (msg b))) NUL) (msg_value b);
                                 x \<leftarrow> get_bytes 0 (unat vlen) m;
                                 put_bytes 0 x z });
          Some (TCMRET_SUCCESS, Some (b\<lparr>msg := (msg b)\<lparr>msg_reserve := r,
            valueLen := (if NOT_CHANGE_VALUELEN \<noteq> uint vlen then vlen else valueLen (msg b))\<rparr>, msg_value := v\<rparr>)) })"

section \<open>The bytes of a message\<close>

text \<open>\<^verbatim>\<open>totalLen\<close> is a \<^verbatim>\<open>uint16_t\<close>; the second component is its value afterwards.\<close>

definition initHomeMsg :: "buf \<Rightarrow> (buf \<times> 16 word) run" where
  "initHomeMsg b = do { b1 \<leftarrow> put_bytes 0 (replicate OFF_SET_VALUE_LEN NUL) b; Some (b1, of_nat OFF_SET_VALUE) }"

definition putMsgProtocolVersion :: "bool \<Rightarrow> 16 word \<Rightarrow> buf \<Rightarrow> buf run" where
  "putMsgProtocolVersion big v b = put_bytes OFF_SET_PROTOCOL_VERSION (u16_bytes big v) b"

definition putMsgPayloadLen :: "bool \<Rightarrow> 16 word \<Rightarrow> buf \<Rightarrow> buf run" where
  "putMsgPayloadLen big v b = put_bytes OFF_SET_PAYLOAD_LEN (u16_bytes big v) b"

definition putMsgReserve :: "buf option \<Rightarrow> buf \<Rightarrow> buf" where
  "putMsgReserve res b = b"

definition putMsgEventType :: "bool \<Rightarrow> 16 word \<Rightarrow> buf \<Rightarrow> buf run" where
  "putMsgEventType big v b = put_bytes OFF_SET_EVENT_TYPE (u16_bytes big v) b"

definition putMsgValueLen :: "bool \<Rightarrow> 16 word \<Rightarrow> buf \<Rightarrow> buf run" where
  "putMsgValueLen big v b = put_bytes OFF_SET_VALUE_LEN (u16_bytes big v) b"

definition putMsgValue :: "bool \<Rightarrow> 16 word \<Rightarrow> buf \<Rightarrow> 16 word \<Rightarrow> buf \<Rightarrow> (buf \<times> 16 word) run" where
  "putMsgValue big tot val vlen b =
     do { (b1, t) \<leftarrow> (if vlen \<noteq> 0 then do { x \<leftarrow> get_bytes 0 (unat vlen) val;
                                           b1 \<leftarrow> put_bytes OFF_SET_VALUE x b;
                                           Some (b1, tot + vlen) }
                     else Some (b, tot));
          b2 \<leftarrow> putMsgPayloadLen big (of_nat (OFF_SET_VALUE - OFF_SET_EVENT_TYPE) + vlen) b1;
          b3 \<leftarrow> putMsgValueLen big vlen b2;
          Some (b3, t) }"

text \<open>On a failure the pointer of the caller is left as it was: no buffer. A \<^verbatim>\<open>NULL\<close> from the allocation is \<open>Some None\<close>.\<close>

definition createHomeMsgBuf ::
    "'w kernel \<Rightarrow> bool \<Rightarrow> 16 word \<Rightarrow> buf option \<Rightarrow> 16 word \<Rightarrow> 16 word \<Rightarrow> buf \<Rightarrow> 'w \<Rightarrow>
      (tcmRet \<times> (buf \<times> 16 word) option option \<times> 'w) run" where
  "createHomeMsgBuf K big ver res et vlen val w =
     (if ver \<noteq> HOME_MSG_PROTOCOL_VERSION then Some (TCMRET_FAILURE, None, w)
      else if \<not> checkHomeMsgType et then Some (TCMRET_FAILURE, None, w)
      else case k_alloc K w of (al, w1) \<Rightarrow>
        if \<not> al then Some (TCMRET_RESOURCE_EXCEEDED, Some None, w1)
        else do {
          (b, t) \<leftarrow> initHomeMsg (replicate (sizeof_homeMessage + unat vlen) NUL);
          b1 \<leftarrow> putMsgProtocolVersion big ver b;
          b2 \<leftarrow> putMsgEventType big et (putMsgReserve res b1);
          bt \<leftarrow> putMsgValue big t val vlen b2;
          Some (TCMRET_SUCCESS, Some (Some bt), w1) })"

definition getMsgProtocolVersion :: "bool \<Rightarrow> buf \<Rightarrow> 16 word run" where
  "getMsgProtocolVersion big b = map_option (u16_of big) (get_bytes OFF_SET_PROTOCOL_VERSION 2 b)"

definition getMsgPayloadLen :: "bool \<Rightarrow> buf \<Rightarrow> 16 word run" where
  "getMsgPayloadLen big b = map_option (u16_of big) (get_bytes OFF_SET_PAYLOAD_LEN 2 b)"

definition getMsgReserve :: "buf \<Rightarrow> buf option run" where
  "getMsgReserve b = do { x \<leftarrow> get_bytes OFF_SET_RESERVE 1 b;
     if hd x \<noteq> NUL then map_option Some (get_bytes OFF_SET_RESERVE 16 b) else Some None }"

definition getMsgEventType :: "bool \<Rightarrow> buf \<Rightarrow> 16 word run" where
  "getMsgEventType big b = map_option (u16_of big) (get_bytes OFF_SET_EVENT_TYPE 2 b)"

definition getMsgValueLen :: "bool \<Rightarrow> buf \<Rightarrow> 16 word run" where
  "getMsgValueLen big b = map_option (u16_of big) (get_bytes OFF_SET_VALUE_LEN 2 b)"

definition getMsgValue :: "bool \<Rightarrow> buf \<Rightarrow> char list run" where
  "getMsgValue big b = do { n \<leftarrow> getMsgValueLen big b; get_bytes OFF_SET_VALUE (unat n) b }"

definition getMsgNumber :: "buf \<Rightarrow> nat run" where
  "getMsgNumber b = map_option (\<lambda>x. of_char (hd x)) (get_bytes (OFF_SET_RESERVE + 3) 1 b)"

text \<open>The comparison of the lengths is one of \<^verbatim>\<open>int\<close>s.\<close>

definition checkHomeMsg :: "bool \<Rightarrow> buf option \<Rightarrow> tcmRet run" where
  "checkHomeMsg big m =
     (case m of None \<Rightarrow> Some TCMRET_FAILURE
      | Some b \<Rightarrow> do {
          v \<leftarrow> getMsgProtocolVersion big b;
          t \<leftarrow> getMsgEventType big b;
          p \<leftarrow> getMsgPayloadLen big b;
          n \<leftarrow> getMsgValueLen big b;
          Some (if v \<noteq> HOME_MSG_PROTOCOL_VERSION then TCMRET_FAILURE
                else if \<not> checkHomeMsgType t then TCMRET_FAILURE
                else if uint p \<noteq> uint n + 4 then TCMRET_FAILURE
                else TCMRET_SUCCESS) })"

definition convertHomeMsgToCtrlBlock ::
    "'w kernel \<Rightarrow> bool \<Rightarrow> buf option \<Rightarrow> int \<Rightarrow> nat \<Rightarrow> UINT32 \<Rightarrow> 'w \<Rightarrow>
      (tcmRet \<times> homeMsgCtrlBlock option \<times> UINT32 \<times> 'w) run" where
  "convertHomeMsgToCtrlBlock K big m fd s seqn w =
     (case m of None \<Rightarrow> Some (TCMRET_INVALID_PARAMETER, None, seqn, w)
      | Some b \<Rightarrow> do {
          ver \<leftarrow> getMsgProtocolVersion big b;
          et \<leftarrow> getMsgEventType big b;
          n \<leftarrow> getMsgValueLen big b;
          (cb, q, w1) \<leftarrow> createHomeMsgBlock K ver (Some (drop OFF_SET_RESERVE b)) et n (Some (drop OFF_SET_VALUE b)) fd s seqn w;
          Some (if cb = None then TCMRET_INTERNAL_ERROR else TCMRET_SUCCESS, cb, q, w1) })"

section \<open>Sockets (\<^verbatim>\<open>ehSslSocket.c\<close>)\<close>

definition cvtNtoHEndian :: "bool \<Rightarrow> buf \<Rightarrow> buf run" where
  "cvtNtoHEndian big b =
     do { v \<leftarrow> getMsgProtocolVersion big b;
          b1 \<leftarrow> putMsgProtocolVersion big (ntohs big v) b;
          p \<leftarrow> getMsgPayloadLen big b1;
          b2 \<leftarrow> putMsgPayloadLen big (ntohs big p) b1;
          t \<leftarrow> getMsgEventType big b2;
          putMsgEventType big (ntohs big t) b2 }"

definition cvtHtoNEndian :: "bool \<Rightarrow> buf \<Rightarrow> buf run" where
  "cvtHtoNEndian big b =
     do { v \<leftarrow> getMsgProtocolVersion big b;
          b1 \<leftarrow> putMsgProtocolVersion big (htons big v) b;
          p \<leftarrow> getMsgPayloadLen big b1;
          b2 \<leftarrow> putMsgPayloadLen big (htons big p) b1;
          t \<leftarrow> getMsgEventType big b2;
          b3 \<leftarrow> putMsgEventType big (htons big t) b2;
          n \<leftarrow> getMsgValueLen big b3;
          putMsgValueLen big (htons big n) b3 }"

definition ehWrite :: "'w kernel \<Rightarrow> bool \<Rightarrow> int \<Rightarrow> buf \<Rightarrow> 'w \<Rightarrow> (tcmRet \<times> 'w) run" where
  "ehWrite K big fd b w =
     do { n \<leftarrow> getMsgValueLen big b;
          let total = sizeof_homeMessage + unat (ntohs big n);
          x \<leftarrow> get_bytes 0 total b;
          let ((rc, errno), w1) = k_write K fd x w;
          Some (if rc < 0 then (if errno = EPIPE then TCMRET_DISCONNECTED else TCMRET_INTERNAL_ERROR)
                else if rc \<noteq> int total then TCMRET_INTERNAL_ERROR else TCMRET_SUCCESS, w1) }"

text \<open>
  The loop that reads the value. \<open>sofar\<close> and \<open>remaining\<close> are the two counters, the length is read from
  the message in every round. A failed read other than error 131 counts \<open>-1\<close> like a number of bytes, and a read
  at the end of the stream counts 0, so that the loop goes on.
\<close>

definition put_at :: "int \<Rightarrow> char list \<Rightarrow> buf \<Rightarrow> buf run" where
  "put_at off x b = (if x = [] then Some b else if off < 0 then None else put_bytes (nat off) x b)"

partial_function (option) ehRead_value ::
    "'w kernel \<Rightarrow> bool \<Rightarrow> int \<Rightarrow> buf \<Rightarrow> int \<Rightarrow> int \<Rightarrow> 'w \<Rightarrow> (tcmRet \<times> buf option \<times> 'w) run" where
  "ehRead_value K big fd b sofar remaining w =
     do { n \<leftarrow> getMsgValueLen big b;
          if uint n \<le> sofar then Some (TCMRET_SUCCESS, Some b, w)
          else case k_read K fd (nat remaining) w of
            (Inl e, w1) \<Rightarrow>
              if e = 131 then Some (TCMRET_DISCONNECTED, None, w1)
              else ehRead_value K big fd b (sofar - 1) (remaining + 1) w1
          | (Inr x, w1) \<Rightarrow> do {
              let y = take (nat remaining) x;
              b1 \<leftarrow> put_at (int sizeof_homeMessage + sofar) y b;
              ehRead_value K big fd b1 (sofar + int (length y)) (remaining - int (length y)) w1 } }"

definition ehRead :: "'w kernel \<Rightarrow> bool \<Rightarrow> int \<Rightarrow> 'w \<Rightarrow> (tcmRet \<times> buf option \<times> 'w) run" where
  "ehRead K big fd w =
     (case k_alloc K w of (al, w1) \<Rightarrow>
        if \<not> al then Some (TCMRET_INTERNAL_ERROR, None, w1)
        else case k_read K fd sizeof_homeMessage w1 of
          (Inl e, w2) \<Rightarrow> Some (TCMRET_DISCONNECTED, None, w2)
        | (Inr b, w2) \<Rightarrow>
            if length b \<noteq> sizeof_homeMessage then Some (TCMRET_DISCONNECTED, None, w2)
            else do {
              v \<leftarrow> getMsgValueLen big b;
              b1 \<leftarrow> putMsgValueLen big (ntohs big v) b;
              if ntohs big v = 0 then Some (TCMRET_SUCCESS, Some b1, w2)
              else case k_alloc K w2 of (al2, w3) \<Rightarrow>
                if \<not> al2 then Some (TCMRET_INTERNAL_ERROR, None, w3)
                else ehRead_value K big fd (b1 @ replicate (unat (ntohs big v)) NUL) 0 (uint (ntohs big v)) w3 })"

section \<open>Sending a message (\<^verbatim>\<open>ehMpc.c\<close>)\<close>

text \<open>
  When \<^verbatim>\<open>createHomeMsgBuf\<close> fails before it allocates, the caller tests and frees a pointer that was never set.
\<close>

definition sendEhomeMsg :: "'w kernel \<Rightarrow> bool \<Rightarrow> homeMsgCtrlBlock \<Rightarrow> 'w \<Rightarrow> (tcmRet \<times> 'w) run" where
  "sendEhomeMsg K big sdMsg w =
     do { (ret, p, w1) \<leftarrow> createHomeMsgBuf K big (protocolVersion (msg sdMsg)) (Some (msg_reserve (msg sdMsg)))
                            (eventType (msg sdMsg)) (valueLen (msg sdMsg)) (msg_value sdMsg) w;
          if ret \<noteq> TCMRET_SUCCESS then (case p of None \<Rightarrow> None | Some _ \<Rightarrow> Some (ret, w1))
          else do {
            bp \<leftarrow> p; (b, t) \<leftarrow> bp;
            b1 \<leftarrow> cvtHtoNEndian big b;
            ehWrite K big (connfd sdMsg) b1 w1 } }"

definition ehSendMsgToDevice ::
    "'w kernel \<Rightarrow> bool \<Rightarrow> int \<Rightarrow> nat \<Rightarrow> 16 word \<Rightarrow> 16 word \<Rightarrow> buf option \<Rightarrow> UINT32 \<Rightarrow> 'w \<Rightarrow> (tcmRet \<times> UINT32 \<times> 'w) run" where
  "ehSendMsgToDevice K big fd s et vlen val seqn w =
     do { (m, q, w1) \<leftarrow> createHomeMsgBlock K HOME_MSG_PROTOCOL_VERSION None et vlen val fd s seqn w;
          case m of None \<Rightarrow> Some (TCMRET_INTERNAL_ERROR, q, w1)
          | Some b \<Rightarrow> do { (ret, w2) \<leftarrow> sendEhomeMsg K big b w1; Some (ret, q, w2) } }"

section \<open>Fields of a message\<close>

lemma get_bytes_mid: "length a = off \<Longrightarrow> length x = n \<Longrightarrow> get_bytes off n (a @ x @ c) = Some x"
  by (auto simp: get_bytes_def)

lemma put_bytes_mid: "length a = off \<Longrightarrow> length y = length x \<Longrightarrow> put_bytes off x (a @ y @ c) = Some (a @ x @ c)"
  by (auto simp: put_bytes_def)

lemma length_u16_bytes [simp]: "length (u16_bytes big w) = 2"
  by (simp add: u16_bytes_def)

lemma u16_of_bytes [simp]: "u16_of big (u16_bytes big w) = w"
  by (cases big) (simp_all add: u16_of_def u16_bytes_def)

lemma le_bytes_value2: "length x = 2 \<Longrightarrow> le_bytes 2 (le_value x) = x"
proof -
  assume "length x = 2"
  then obtain a b where x: "x = [a, b]" by (metis length_0_conv length_Suc_conv numeral_2_eq_2)
  have "of_char a < (256 :: nat)" "of_char b < (256 :: nat)" by simp_all
  then show ?thesis by (simp add: x numeral_2_eq_2)
qed

lemma le_value_bound2: "length x = 2 \<Longrightarrow> le_value x < 65536"
proof -
  assume "length x = 2"
  then obtain a b where x: "x = [a, b]" by (metis length_0_conv length_Suc_conv numeral_2_eq_2)
  have "of_char a < (256 :: nat)" "of_char b < (256 :: nat)" by simp_all
  then have "of_char a + 256 * of_char b < (65536 :: nat)" by linarith
  then show ?thesis by (simp add: x)
qed

lemma u16_bytes_of [simp]: "length x = 2 \<Longrightarrow> u16_bytes big (u16_of big x) = x"
  using le_value_bound2[of x] le_value_bound2[of "rev x"]
  by (cases big) (simp_all add: u16_bytes_def u16_of_def unat_of_nat le_bytes_value2)

lemma ntohs_of: "length x = 2 \<Longrightarrow> ntohs big (u16_of big x) = u16_of True x"
  by (simp add: ntohs_def)

lemma bytes_htons [simp]: "u16_bytes big (htons big w) = u16_bytes True w"
  by (simp add: htons_def)

lemma ntohs_htons [simp]: "ntohs big (htons big w) = w"
  by (simp add: ntohs_def)

lemma ntohs_of_wire [simp]: "ntohs big (u16_of big (u16_bytes True w)) = w"
  by (simp add: ntohs_of)

definition frame :: "char list \<Rightarrow> char list \<Rightarrow> char list \<Rightarrow> char list \<Rightarrow> char list \<Rightarrow> char list \<Rightarrow> buf" where
  "frame v p r t n x = v @ p @ r @ t @ n @ x"

definition fields :: "char list \<Rightarrow> char list \<Rightarrow> char list \<Rightarrow> char list \<Rightarrow> char list \<Rightarrow> bool" where
  "fields v p r t n \<longleftrightarrow> length v = 2 \<and> length p = 2 \<and> length r = 16 \<and> length t = 2 \<and> length n = 2"

lemma frame_length: "fields v p r t n \<Longrightarrow> length (frame v p r t n x) = 24 + length x"
  by (simp add: frame_def fields_def)

lemma frame_shape:
  assumes "24 \<le> length b"
  obtains v p r t n x where "b = frame v p r t n x" and "fields v p r t n"
proof -
  have d: "drop k b = take m (drop k b) @ drop (k + m) b" for k m
    by (metis append_take_drop_id drop_drop add.commute)
  have "b = frame (take 2 b) (take 2 (drop 2 b)) (take 16 (drop 4 b)) (take 2 (drop 20 b)) (take 2 (drop 22 b)) (drop 24 b)"
    unfolding frame_def using d[of 0 2] d[of 2 2] d[of 4 16] d[of 20 2] d[of 22 2] by simp
  then show thesis by (rule that) (use assms in \<open>simp add: fields_def\<close>)
qed

lemma frame_get:
  assumes f: "fields v p r t n"
  shows "getMsgProtocolVersion big (frame v p r t n x) = Some (u16_of big v)"
  "getMsgPayloadLen big (frame v p r t n x) = Some (u16_of big p)"
  "getMsgEventType big (frame v p r t n x) = Some (u16_of big t)"
  "getMsgValueLen big (frame v p r t n x) = Some (u16_of big n)"
  using f get_bytes_mid[of "[]" 0 v 2 "p @ r @ t @ n @ x"] get_bytes_mid[of v 2 p 2 "r @ t @ n @ x"]
    get_bytes_mid[of "v @ p @ r" 20 t 2 "n @ x"] get_bytes_mid[of "v @ p @ r @ t" 22 n 2 x]
  by (simp_all add: getMsgProtocolVersion_def getMsgPayloadLen_def getMsgEventType_def getMsgValueLen_def
      offsets frame_def fields_def)

lemma frame_put:
  assumes f: "fields v p r t n"
  shows "putMsgProtocolVersion big w (frame v p r t n x) = Some (frame (u16_bytes big w) p r t n x)"
  "putMsgPayloadLen big w (frame v p r t n x) = Some (frame v (u16_bytes big w) r t n x)"
  "putMsgEventType big w (frame v p r t n x) = Some (frame v p r (u16_bytes big w) n x)"
  "putMsgValueLen big w (frame v p r t n x) = Some (frame v p r t (u16_bytes big w) x)"
  using f put_bytes_mid[of "[]" 0 v "u16_bytes big w" "p @ r @ t @ n @ x"]
    put_bytes_mid[of v 2 p "u16_bytes big w" "r @ t @ n @ x"]
    put_bytes_mid[of "v @ p @ r" 20 t "u16_bytes big w" "n @ x"]
    put_bytes_mid[of "v @ p @ r @ t" 22 n "u16_bytes big w" x]
  by (simp_all add: putMsgProtocolVersion_def putMsgPayloadLen_def putMsgEventType_def putMsgValueLen_def
      offsets frame_def fields_def)

lemma frame_put_value:
  assumes "fields v p r t n" and "length y = length x"
  shows "put_bytes 24 y (frame v p r t n x) = Some (frame v p r t n y)"
  using assms put_bytes_mid[of "v @ p @ r @ t @ n" 24 x y "[]"] by (simp add: frame_def fields_def)

lemma frame_drop:
  assumes f: "fields v p r t n"
  shows "drop 24 (frame v p r t n x) = x" "drop 4 (frame v p r t n x) = r @ t @ n @ x"
  using f by (simp_all add: frame_def fields_def)

lemma fields_u16: "fields (u16_bytes a v) (u16_bytes b p) (replicate 16 NUL) (u16_bytes c t) (u16_bytes d n)"
  by (simp add: fields_def)

text \<open>Both conversions of a message, in terms of its fields.\<close>

lemma cvtHtoN_frame:
  "cvtHtoNEndian big (frame (u16_bytes big v) (u16_bytes big p) (replicate 16 NUL) (u16_bytes big t) (u16_bytes big n) x) =
     Some (frame (u16_bytes True v) (u16_bytes True p) (replicate 16 NUL) (u16_bytes True t) (u16_bytes True n) x)"
  by (simp add: cvtHtoNEndian_def frame_get frame_put fields_u16)

lemma cvtNtoH_frame:
  "cvtNtoHEndian big (frame (u16_bytes True v) (u16_bytes True p) (replicate 16 NUL) (u16_bytes True t) (u16_bytes d n) x) =
     Some (frame (u16_bytes big v) (u16_bytes big p) (replicate 16 NUL) (u16_bytes big t) (u16_bytes d n) x)"
  by (simp add: cvtNtoHEndian_def frame_get frame_put fields_u16 ntohs_of)

lemma create_frame:
  assumes "k_alloc K w = (True, w1)" and "length val = unat vlen"
  shows "createHomeMsgBuf K big HOME_MSG_PROTOCOL_VERSION res et vlen val w =
    Some (TCMRET_SUCCESS, Some (Some (frame (u16_bytes big HOME_MSG_PROTOCOL_VERSION) (u16_bytes big (4 + vlen)) (replicate 16 NUL)
      (u16_bytes big et) (u16_bytes big vlen) val, 24 + vlen)), w1)"
proof -
  let ?z = "replicate 2 NUL"
  let ?b = "frame ?z ?z (replicate 16 NUL) ?z ?z (replicate (unat vlen) NUL)"
  have b: "replicate (sizeof_homeMessage + unat vlen) NUL = ?b"
    by (simp add: frame_def sizeof_homeMessage_def flip: replicate_add replicate_Suc append_assoc)
  have f: "fields ?z ?z (replicate 16 NUL) ?z ?z" by (simp add: fields_def)
  have i: "initHomeMsg ?b = Some (?b, 24)"
    by (simp add: initHomeMsg_def put_bytes_def offsets frame_def flip: replicate_add)
  have e: "val = []" if "vlen = 0" using that assms(2) by simp
  show ?thesis
    by (simp add: createHomeMsgBuf_def checkHomeMsgType_def assms b i frame_put fields_def putMsgReserve_def
        putMsgValue_def get_bytes_def offsets frame_put_value e)
qed

section \<open>Through a socket\<close>

text \<open>What is on the wire: every field most significant byte first, the reserve empty.\<close>

definition wire :: "16 word \<Rightarrow> buf \<Rightarrow> buf" where
  "wire et val = frame (u16_bytes True HOME_MSG_PROTOCOL_VERSION) (u16_bytes True (4 + of_nat (length val))) (replicate 16 NUL)
     (u16_bytes True et) (u16_bytes True (of_nat (length val))) val"

text \<open>
  What a connected stream socket promises its reader: \<open>pend w\<close> is what has arrived and was not read yet; a read
  returns a first part of it, of any length up to the one asked for. Memory is available. \<open>whole_header\<close>: the
  first read of \<^verbatim>\<open>ehRead\<close> returns as many bytes as a header has.
\<close>

definition tcp_source :: "'w kernel \<Rightarrow> int \<Rightarrow> ('w \<Rightarrow> char list) \<Rightarrow> bool" where
  "tcp_source K fd pend \<longleftrightarrow>
     (\<forall>w. fst (k_alloc K w) \<and> pend (snd (k_alloc K w)) = pend w) \<and>
     (\<forall>n w. 0 < n \<and> pend w \<noteq> [] \<longrightarrow>
        (\<exists>k w'. k_read K fd n w = (Inr (take k (pend w)), w') \<and> 0 < k \<and> k \<le> n \<and> pend w' = drop k (pend w)))"

definition whole_header :: "'w kernel \<Rightarrow> int \<Rightarrow> 'w \<Rightarrow> bool" where
  "whole_header K fd w \<longleftrightarrow>
     (case fst (k_read K fd sizeof_homeMessage (snd (k_alloc K w))) of Inl e \<Rightarrow> False | Inr b \<Rightarrow> length b = sizeof_homeMessage)"

lemma tcp_alloc:
  assumes "tcp_source K fd pend"
  obtains w' where "k_alloc K w = (True, w')" and "pend w' = pend w"
proof (rule that)
  have "fst (k_alloc K w)" and "pend (snd (k_alloc K w)) = pend w" using assms unfolding tcp_source_def by blast+
  then show "k_alloc K w = (True, snd (k_alloc K w))" and "pend (snd (k_alloc K w)) = pend w"
    by (simp_all add: prod_eq_iff)
qed

lemma tcp_read:
  assumes "tcp_source K fd pend" and "0 < n" and "pend w \<noteq> []"
  obtains k w' where "k_read K fd n w = (Inr (take k (pend w)), w')" and "0 < k" and "k \<le> n"
    and "pend w' = drop k (pend w)"
  using assms unfolding tcp_source_def by meson

lemma uint_length: "length x < 65536 \<Longrightarrow> uint (of_nat (length x) :: 16 word) = int (length x)"
  by (simp add: uint_nat unat_of_nat)

lemma unat_length: "length x < 65536 \<Longrightarrow> unat (of_nat (length x) :: 16 word) = length x"
  by (simp add: unat_of_nat)

lemma send_wire:
  assumes "k_alloc K w = (True, w1)" and "protocolVersion (msg m) = HOME_MSG_PROTOCOL_VERSION"
    and "length (msg_value m) = unat (valueLen (msg m))"
  shows "sendEhomeMsg K big m w =
    (let ((rc, errno), w2) = k_write K (connfd m) (wire (eventType (msg m)) (msg_value m)) w1 in
     Some (if rc < 0 then (if errno = EPIPE then TCMRET_DISCONNECTED else TCMRET_INTERNAL_ERROR)
           else if rc \<noteq> int (24 + length (msg_value m)) then TCMRET_INTERNAL_ERROR else TCMRET_SUCCESS, w2))"
proof -
  let ?n = "valueLen (msg m)"
  have n: "of_nat (length (msg_value m)) = ?n" by (simp add: assms(3))
  let ?W = "wire (eventType (msg m)) (msg_value m)"
  have W: "?W = frame (u16_bytes True HOME_MSG_PROTOCOL_VERSION) (u16_bytes True (4 + ?n)) (replicate 16 NUL)
      (u16_bytes True (eventType (msg m))) (u16_bytes True ?n) (msg_value m)"
    by (simp add: wire_def n)
  have l: "getMsgValueLen big ?W = Some (u16_of big (u16_bytes True ?n))" "length ?W = 24 + length (msg_value m)"
    unfolding W by (simp_all add: frame_get frame_length fields_u16)
  have "ehWrite K big (connfd m) ?W w1 =
     (let ((rc, errno), w2) = k_write K (connfd m) ?W w1 in
      Some (if rc < 0 then (if errno = EPIPE then TCMRET_DISCONNECTED else TCMRET_INTERNAL_ERROR)
           else if rc \<noteq> int (24 + length (msg_value m)) then TCMRET_INTERNAL_ERROR else TCMRET_SUCCESS, w2))"
    by (simp add: ehWrite_def l get_bytes_def sizeof_homeMessage_def assms(3) split: prod.splits)
  then show ?thesis
    by (simp add: sendEhomeMsg_def assms(2) create_frame[OF assms(1,3)] cvtHtoN_frame flip: W)
qed

lemma put_at_frame:
  assumes "fields v p r t n" and "length y \<le> length z"
  shows "put_at (24 + int (length d)) y (frame v p r t n (d @ z)) = Some (frame v p r t n (d @ y @ drop (length y) z))"
proof (cases "y = []")
  case False
  have "length (v @ p @ r @ t @ n @ d) = 24 + length d" using assms(1) by (simp add: fields_def)
  from put_bytes_mid[OF this, of "take (length y) z" y "drop (length y) z"] False assms(2) show ?thesis
    by (simp add: put_at_def frame_def nat_add_distrib)
qed (simp add: put_at_def)

lemma ehRead_value_stream:
  assumes "tcp_source K fd pend" and "fields v p r t n" and "uint (u16_of big n) = int (length d + length e)"
  shows "pend w = e @ rest \<Longrightarrow>
    \<exists>w'. ehRead_value K big fd (frame v p r t n (d @ replicate (length e) NUL)) (int (length d)) (int (length e)) w =
          Some (TCMRET_SUCCESS, Some (frame v p r t n (d @ e)), w') \<and> pend w' = rest"
  using assms(3)
proof (induction "length e" arbitrary: d e w rule: less_induct)
  case less
  show ?case
  proof (cases "e = []")
    case True
    with less.prems assms(2) show ?thesis by (simp add: ehRead_value.simps frame_get)
  next
    case False
    then have "0 < length e" "pend w \<noteq> []" using less.prems by auto
    from tcp_read[OF assms(1) this] obtain k w1 where
      k: "k_read K fd (length e) w = (Inr (take k (pend w)), w1)" "0 < k" "k \<le> length e" "pend w1 = drop k (pend w)" by metis
    define y where "y = take k e"
    have y: "take k (pend w) = y" "length y = k" "pend w1 = drop k e @ rest" "d @ e = (d @ y) @ drop k e"
      using less.prems k by (simp_all add: y_def)
    have "put_at (24 + int (length d)) y (frame v p r t n (d @ replicate (length e) NUL)) =
        Some (frame v p r t n ((d @ y) @ replicate (length (drop k e)) NUL))"
      using put_at_frame[OF assms(2), of y "replicate (length e) NUL" d] k y by simp
    moreover have "length (drop k e) < length e" using k False by simp
    from less.hyps[OF this y(3), of "d @ y"] obtain w' where
      "ehRead_value K big fd (frame v p r t n ((d @ y) @ replicate (length (drop k e)) NUL)) (int (length (d @ y))) (int (length (drop k e))) w1 =
         Some (TCMRET_SUCCESS, Some (frame v p r t n ((d @ y) @ drop k e)), w')" "pend w' = rest"
      using less.prems y k by auto
    moreover have "\<not> uint (u16_of big n) \<le> int (length d)" using less.prems(2) False by simp
    ultimately show ?thesis
      using k y assms(2) by (subst ehRead_value.simps) (simp add: frame_get sizeof_homeMessage_def of_nat_diff)
  qed
qed

text \<open>A header that has arrived, with the bytes \<open>l\<close> of its length.\<close>

definition header_for :: "16 word \<Rightarrow> 16 word \<Rightarrow> char list \<Rightarrow> buf \<Rightarrow> buf" where
  "header_for p et l x = frame (u16_bytes True HOME_MSG_PROTOCOL_VERSION) (u16_bytes True p) (replicate 16 NUL) (u16_bytes True et) l x"

lemma header_for_append: "header_for p et l x @ y = header_for p et l (x @ y)"
  by (simp add: header_for_def frame_def)

lemma ehRead_header:
  assumes "tcp_source K fd pend" and "whole_header K fd w" and "pend w = header_for p et (u16_bytes True n) [] @ z"
  shows "\<exists>w2 w3. pend w2 = z \<and> pend w3 = z \<and> ehRead K big fd w =
    (if n = 0 then Some (TCMRET_SUCCESS, Some (header_for p et (u16_bytes big n) []), w2)
     else ehRead_value K big fd (header_for p et (u16_bytes big n) (replicate (unat n) NUL)) 0 (uint n) w3)"
proof -
  obtain w1 where w1: "k_alloc K w = (True, w1)" "pend w1 = pend w" using tcp_alloc[OF assms(1)] by metis
  have h: "length (header_for p et (u16_bytes True n) []) = sizeof_homeMessage"
    by (simp add: header_for_def frame_def sizeof_homeMessage_def)
  then have "sizeof_homeMessage \<le> length (pend w1)" "pend w1 \<noteq> []" "0 < sizeof_homeMessage"
    using w1(2) assms(3) by (auto simp: sizeof_homeMessage_def)
  from tcp_read[OF assms(1) this(3,2)] obtain k w2 where
    k: "k_read K fd sizeof_homeMessage w1 = (Inr (take k (pend w1)), w2)" "k \<le> sizeof_homeMessage" "pend w2 = drop k (pend w1)"
    by metis
  moreover have "k = sizeof_homeMessage" using k assms(2) w1(1) by (simp add: whole_header_def)
  ultimately have r: "k_read K fd sizeof_homeMessage w1 = (Inr (header_for p et (u16_bytes True n) []), w2)" "pend w2 = z"
    using h w1(2) assms(3) by simp_all
  obtain w3 where w3: "k_alloc K w2 = (True, w3)" "pend w3 = pend w2" using tcp_alloc[OF assms(1)] by metis
  have g: "getMsgValueLen big (header_for p et (u16_bytes True n) []) = Some (u16_of big (u16_bytes True n))"
    "putMsgValueLen big n (header_for p et (u16_bytes True n) []) = Some (header_for p et (u16_bytes big n) [])"
    by (simp_all add: header_for_def frame_get frame_put fields_u16)
  have "ehRead K big fd w =
    (if n = 0 then Some (TCMRET_SUCCESS, Some (header_for p et (u16_bytes big n) []), w2)
     else ehRead_value K big fd (header_for p et (u16_bytes big n) (replicate (unat n) NUL)) 0 (uint n) w3)"
    by (simp add: ehRead_def w1(1) r(1) w3(1) h g header_for_append)
  then show ?thesis using r(2) w3(2) by metis
qed

lemma ehRead_split_header:
  assumes "tcp_source K fd pend" and "\<not> whole_header K fd w"
  shows "\<exists>w'. ehRead K big fd w = Some (TCMRET_DISCONNECTED, None, w')"
proof -
  obtain w1 where w1: "k_alloc K w = (True, w1)" using tcp_alloc[OF assms(1)] by metis
  then show ?thesis using assms(2)
    by (cases "k_read K fd sizeof_homeMessage w1") (auto simp: ehRead_def whole_header_def split: sum.splits)
qed

lemma ehRead_wire:
  assumes "tcp_source K fd pend" and "whole_header K fd w" and "pend w = wire et val @ rest" and "length val < 65536"
  shows "\<exists>w'. ehRead K big fd w = Some (TCMRET_SUCCESS, Some (frame (u16_bytes True HOME_MSG_PROTOCOL_VERSION)
      (u16_bytes True (4 + of_nat (length val))) (replicate 16 NUL) (u16_bytes True et) (u16_bytes big (of_nat (length val))) val), w') \<and>
      pend w' = rest"
proof -
  let ?n = "of_nat (length val) :: 16 word"
  have "pend w = header_for (4 + ?n) et (u16_bytes True ?n) [] @ val @ rest"
    using assms(3) by (simp add: wire_def header_for_def frame_def)
  from ehRead_header[OF assms(1,2) this, of big] obtain w2 w3 where
    w: "pend w2 = val @ rest" "pend w3 = val @ rest" and
    r: "ehRead K big fd w = (if ?n = 0 then Some (TCMRET_SUCCESS, Some (header_for (4 + ?n) et (u16_bytes big ?n) []), w2)
     else ehRead_value K big fd (header_for (4 + ?n) et (u16_bytes big ?n) (replicate (unat ?n) NUL)) 0 (uint ?n) w3)" by blast
  have z: "?n = 0 \<longleftrightarrow> val = []"
    using unat_length[OF assms(4)] by (metis length_0_conv unat_0 unat_eq_zero)
  have u: "uint (u16_of big (u16_bytes big ?n)) = int (length ([] :: buf) + length val)" using uint_length[OF assms(4)] by simp
  from ehRead_value_stream[OF assms(1) fields_u16 u w(2), of True HOME_MSG_PROTOCOL_VERSION True "4 + ?n" True "et"] obtain w4 where
    "ehRead_value K big fd (header_for (4 + ?n) et (u16_bytes big ?n) (replicate (length val) NUL)) 0 (int (length val)) w3 =
        Some (TCMRET_SUCCESS, Some (header_for (4 + ?n) et (u16_bytes big ?n) val), w4)" "pend w4 = rest"
    by (auto simp: header_for_def)
  then show ?thesis
    using r w(1) z uint_length[OF assms(4)] unat_length[OF assms(4)] by (cases "val = []") (auto simp: header_for_def)
qed

end
