(* ===== verification/Eh_Props.thy ===== *)
theory Eh_Props
  imports Eh_Frame
begin

text \<open>
  What the message layer of the home gateway promises: a message that is sent arrives as it was, whatever the
  byte orders of the two machines, unless its value is too long for the check of the lengths; and
  what happens to a connection that ends inside a message.
\<close>

section \<open>Sent and received\<close>

lemma reserve_empty: "copy_reserve (replicate 16 NUL @ x) = Some (replicate 16 NUL)"
  by (simp add: copy_reserve_def terminated_def cstr_def pad_def numeral_eq_Suc)

lemma uint_plus4: "uint (4 + of_nat n :: 16 word) = int ((n + 4) mod 65536)"
proof -
  have "4 + of_nat n = (of_nat (n + 4) :: 16 word)" by simp
  then have "unat (4 + of_nat n :: 16 word) = (n + 4) mod 65536" by (simp only: unat_of_nat) simp
  then show ?thesis by (simp add: uint_nat)
qed

lemma sum_wraps: "int ((n + 4) mod 65536) = int n + 4 \<longleftrightarrow> n + 4 < 65536"
proof
  assume "int ((n + 4) mod 65536) = int n + 4"
  then have "(n + 4) mod 65536 = n + 4" by linarith
  then show "n + 4 < 65536" by (metis mod_less_divisor zero_less_numeral)
qed simp

lemma convert_received:
  assumes "k_alloc K w = (True, w1)" and "length val < 65536" and "length p = 2"
  shows "convertHomeMsgToCtrlBlock K big (Some (frame (u16_bytes big HOME_MSG_PROTOCOL_VERSION) p (replicate 16 NUL)
      (u16_bytes big et) (u16_bytes big (of_nat (length val))) val)) fd s q w =
    Some (TCMRET_SUCCESS, Some \<lparr>sequenceID = UPDATE_SEQ_NUMBER q, msg = \<lparr>protocolVersion = HOME_MSG_PROTOCOL_VERSION,
        payloadLen = 4 + of_nat (length val), msg_reserve = replicate 16 NUL, eventType = et, valueLen = of_nat (length val)\<rparr>,
        connfd = fd, ssl = s, msg_value = val\<rparr>, UPDATE_SEQ_NUMBER q, w1)"
proof -
  have f: "fields (u16_bytes big HOME_MSG_PROTOCOL_VERSION) p (replicate 16 NUL) (u16_bytes big et) (u16_bytes big (of_nat (length val)))"
    using assms(3) by (simp add: fields_def)
  show ?thesis
    by (simp add: convertHomeMsgToCtrlBlock_def createHomeMsgBlock_def checkHomeMsgType_def frame_get frame_drop f offsets assms(1)
        reserve_empty get_bytes_def unat_length[OF assms(2)])
qed

text \<open>For the concrete runs: a socket that hands out a header at once and a value two bytes at a time.\<close>

definition demo_tcp :: "char list kernel" where
  "demo_tcp = quiet_kernel\<lparr>k_write := \<lambda>fd b w. ((int (length b), 0), w @ b),
     k_read := \<lambda>fd n w. (Inr (take (if n = 24 then 24 else min n 2) w), drop (if n = 24 then 24 else min n 2) w)\<rparr>"

lemma demo_alloc: "fst (k_alloc demo_tcp w)"
  by (simp add: demo_tcp_def quiet_kernel_def)

lemma demo_source: "tcp_source demo_tcp fd (\<lambda>w. w)"
  unfolding tcp_source_def
proof (intro conjI allI impI)
  fix n :: nat and w :: "char list" assume "0 < n \<and> w \<noteq> []"
  then show "\<exists>k w'. k_read demo_tcp fd n w = (Inr (take k w), w') \<and> 0 < k \<and> k \<le> n \<and> w' = drop k w"
    by (intro exI[of _ "if n = 24 then 24 else min n 2"]) (auto simp: demo_tcp_def)
qed (simp_all add: demo_tcp_def quiet_kernel_def)

lemma demo_wire: "length (wire 16 ''abc'') = 27"
  by (simp add: wire_def frame_def)

lemma demo_header: "24 \<le> length w \<Longrightarrow> whole_header demo_tcp fd w"
  by (simp add: whole_header_def demo_tcp_def quiet_kernel_def sizeof_homeMessage_def)

text \<open>C13. A message the gateway sends is on the wire in network byte order, and whoever reads
  those bytes with the same code gets the type and the value back whatever the byte orders of the two machines, leaving
  what follows unread, when the first read returns the whole header; the value may come in any pieces. A first
  read that returns a part of the header is taken for the end of the connection. The check of the
  lengths lets the message through exactly when the payload length does not wrap.
\<close>
lemma home_message_roundtrip:
  assumes "\<And>w. fst (k_alloc K1 w)" and "length val < 65536"
    and "tcp_source K2 fd2 pend" and "pend v = wire et val @ rest"
  shows "(\<exists>w1. ehSendMsgToDevice K1 big1 fd1 s1 et (of_nat (length val)) (Some (val @ junk)) q w =
            (let ((rc, errno), w2) = k_write K1 fd1 (wire et val) w1 in
             Some (if rc < 0 then (if errno = EPIPE then TCMRET_DISCONNECTED else TCMRET_INTERNAL_ERROR)
                   else if rc \<noteq> int (24 + length val) then TCMRET_INTERNAL_ERROR else TCMRET_SUCCESS, UPDATE_SEQ_NUMBER q, w2))) \<and>
    (\<not> whole_header K2 fd2 v \<longrightarrow> (\<exists>v1. ehRead K2 big2 fd2 v = Some (TCMRET_DISCONNECTED, None, v1))) \<and>
    (whole_header K2 fd2 v \<longrightarrow> (\<exists>b b1 cb v1 v2. ehRead K2 big2 fd2 v = Some (TCMRET_SUCCESS, Some b, v1) \<and> cvtNtoHEndian big2 b = Some b1 \<and>
        pend v1 = rest \<and> getMsgEventType big2 b1 = Some et \<and>
        checkHomeMsg big2 (Some b1) = Some (if length val + 4 < 65536 then TCMRET_SUCCESS else TCMRET_FAILURE) \<and>
        convertHomeMsgToCtrlBlock K2 big2 (Some b1) fd2 s2 q2 v1 = Some (TCMRET_SUCCESS, Some cb, UPDATE_SEQ_NUMBER q2, v2) \<and>
        pend v2 = rest \<and> eventType (msg cb) = et \<and> valueLen (msg cb) = of_nat (length val) \<and> msg_value cb = val \<and> connfd cb = fd2))"
proof (intro conjI impI)
  obtain w1 w2 where w: "k_alloc K1 w = (True, w1)" "k_alloc K1 w1 = (True, w2)"
    by (metis (full_types) assms(1) prod.collapse)
  show "\<exists>w1. ehSendMsgToDevice K1 big1 fd1 s1 et (of_nat (length val)) (Some (val @ junk)) q w =
            (let ((rc, errno), w2) = k_write K1 fd1 (wire et val) w1 in
             Some (if rc < 0 then (if errno = EPIPE then TCMRET_DISCONNECTED else TCMRET_INTERNAL_ERROR)
                   else if rc \<noteq> int (24 + length val) then TCMRET_INTERNAL_ERROR else TCMRET_SUCCESS, UPDATE_SEQ_NUMBER q, w2))"
    by (rule exI[of _ w2])
       (simp add: ehSendMsgToDevice_def createHomeMsgBlock_def checkHomeMsgType_def w get_bytes_def send_wire unat_length[OF assms(2)]
         split: prod.splits)
next
  assume "\<not> whole_header K2 fd2 v"
  then show "\<exists>v1. ehRead K2 big2 fd2 v = Some (TCMRET_DISCONNECTED, None, v1)" by (rule ehRead_split_header[OF assms(3)])
next
  assume whole: "whole_header K2 fd2 v"
  let ?n = "of_nat (length val) :: 16 word"
  let ?b = "frame (u16_bytes big2 HOME_MSG_PROTOCOL_VERSION) (u16_bytes big2 (4 + ?n)) (replicate 16 NUL) (u16_bytes big2 et) (u16_bytes big2 ?n) val"
  from ehRead_wire[OF assms(3) whole assms(4,2), of big2] obtain v1 where
    r: "ehRead K2 big2 fd2 v = Some (TCMRET_SUCCESS, Some (frame (u16_bytes True HOME_MSG_PROTOCOL_VERSION)
      (u16_bytes True (4 + ?n)) (replicate 16 NUL) (u16_bytes True et) (u16_bytes big2 ?n) val), v1)" "pend v1 = rest" by blast
  obtain v2 where v2: "k_alloc K2 v1 = (True, v2)" "pend v2 = pend v1" using tcp_alloc[OF assms(3)] by metis
  have "checkHomeMsg big2 (Some ?b) = Some (if length val + 4 < 65536 then TCMRET_SUCCESS else TCMRET_FAILURE)"
    by (simp add: checkHomeMsg_def checkHomeMsgType_def frame_get fields_u16 uint_plus4 uint_length[OF assms(2)] sum_wraps del: of_nat_add)
  then show "\<exists>b b1 cb v1 v2. ehRead K2 big2 fd2 v = Some (TCMRET_SUCCESS, Some b, v1) \<and> cvtNtoHEndian big2 b = Some b1 \<and>
        pend v1 = rest \<and> getMsgEventType big2 b1 = Some et \<and>
        checkHomeMsg big2 (Some b1) = Some (if length val + 4 < 65536 then TCMRET_SUCCESS else TCMRET_FAILURE) \<and>
        convertHomeMsgToCtrlBlock K2 big2 (Some b1) fd2 s2 q2 v1 = Some (TCMRET_SUCCESS, Some cb, UPDATE_SEQ_NUMBER q2, v2) \<and>
        pend v2 = rest \<and> eventType (msg cb) = et \<and> valueLen (msg cb) = of_nat (length val) \<and> msg_value cb = val \<and> connfd cb = fd2"
    using r v2 convert_received[OF v2(1) assms(2), of "u16_bytes big2 (4 + ?n)"]
    by (fastforce simp: cvtNtoH_frame frame_get fields_u16)
qed

lemma home_message_roundtrip_witness:
  "\<exists>b b1 cb v1 v2. ehRead demo_tcp False 7 (wire 16 ''abc'' @ ''z'') = Some (TCMRET_SUCCESS, Some b, v1) \<and>
     cvtNtoHEndian False b = Some b1 \<and> checkHomeMsg False (Some b1) = Some TCMRET_SUCCESS \<and>
     convertHomeMsgToCtrlBlock demo_tcp False (Some b1) 7 0 5 v1 = Some (TCMRET_SUCCESS, Some cb, 6, v2) \<and>
     v2 = ''z'' \<and> eventType (msg cb) = 16 \<and> msg_value cb = ''abc''"
  using home_message_roundtrip[OF demo_alloc, where val = "''abc''" and ?K2.0 = demo_tcp and ?fd2.0 = 7 and pend = "\<lambda>w. w" and
      v = "wire 16 ''abc'' @ ''z''" and et = 16 and rest = "''z''" and ?big2.0 = False and ?s2.0 = 0 and ?q2.0 = 5,
      OF _ demo_source refl, THEN conjunct2, THEN conjunct2] demo_header[of "wire 16 ''abc'' @ ''z''" 7] demo_wire
  by (auto simp: UPDATE_SEQ_NUMBER_def)

section \<open>Connections that end\<close>

text \<open>The peer has closed: at the end of what has arrived, every read returns 0.\<close>

definition tcp_closed :: "'w kernel \<Rightarrow> int \<Rightarrow> ('w \<Rightarrow> char list) \<Rightarrow> bool" where
  "tcp_closed K fd pend \<longleftrightarrow> (\<forall>n w. pend w = [] \<longrightarrow> (\<exists>w'. k_read K fd n w = (Inr [], w') \<and> pend w' = []))"

definition short_of_value :: "char list \<Rightarrow> char list \<Rightarrow> char list \<Rightarrow> char list \<Rightarrow> char list \<Rightarrow> bool \<Rightarrow> buf \<Rightarrow> int \<Rightarrow> int \<Rightarrow> char list \<Rightarrow> bool" where
  "short_of_value v p r t n big b sofar remaining arrived \<longleftrightarrow>
     (\<exists>d z. b = frame v p r t n (d @ z) \<and> sofar = int (length d) \<and> remaining = int (length z) \<and>
        uint (u16_of big n) = int (length d + length z) \<and> length arrived < length z)"

lemma short_of_value_read:
  assumes "short_of_value v p r t n big b sofar remaining (x @ y)" and "fields v p r t n"
  shows "\<exists>b1. put_at (int sizeof_homeMessage + sofar) x b = Some b1 \<and>
    short_of_value v p r t n big b1 (sofar + int (length x)) (remaining - int (length x)) y"
proof -
  from assms(1) obtain d z where z: "b = frame v p r t n (d @ z)" "sofar = int (length d)" "remaining = int (length z)"
    "uint (u16_of big n) = int (length d + length z)" "length (x @ y) < length z" by (auto simp: short_of_value_def)
  let ?b = "frame v p r t n ((d @ x) @ drop (length x) z)"
  have "short_of_value v p r t n big ?b (sofar + int (length x)) (remaining - int (length x)) y"
    unfolding short_of_value_def
    by (rule exI[of _ "d @ x"], rule exI[of _ "drop (length x) z"]) (use z in auto)
  moreover have "put_at (int sizeof_homeMessage + sofar) x b = Some ?b"
    using put_at_frame[OF assms(2), of x z d] z by (simp add: sizeof_homeMessage_def)
  ultimately show ?thesis by blast
qed

lemma ehRead_value_eof:
  assumes "tcp_source K fd pend" and "tcp_closed K fd pend" and "fields v p r t n"
    and run: "ehRead_value K big fd b sofar remaining w = Some y"
  shows "\<not> short_of_value v p r t n big b sofar remaining (pend w)"
proof -
  let ?P = "\<lambda>K' big' fd' b sofar remaining w y. K' = K \<longrightarrow> fd' = fd \<longrightarrow> big' = big \<longrightarrow>
    \<not> short_of_value v p r t n big b sofar remaining (pend w)"
  have "?P K big fd b sofar remaining w y"
  proof (rule ehRead_value.raw_induct[where P = ?P, OF _ run], goal_cases)
    case (1 f K' big' fd' b sofar remaining w y)
    show ?case
    proof (intro impI notI)
      assume eq: "K' = K" "fd' = fd" "big' = big" and s: "short_of_value v p r t n big b sofar remaining (pend w)"
      then have n: "getMsgValueLen big b = Some (u16_of big n)" "\<not> uint (u16_of big n) \<le> sofar" "0 < nat remaining"
        by (auto simp: short_of_value_def frame_get assms(3))
      obtain x w1 where x: "k_read K fd (nat remaining) w = (Inr x, w1)" "pend w = x @ pend w1" "length x \<le> nat remaining"
      proof (cases "pend w = []")
        case True
        then show thesis using assms(2) that by (fastforce simp: tcp_closed_def)
      next
        case False
        from tcp_read[OF assms(1) n(3) False] show thesis using that
          by (metis append_take_drop_id length_take min.bounded_iff min.cobounded2 min_def)
      qed
      from short_of_value_read[OF s[unfolded x(2)] assms(3)] obtain b1 where
        b1: "put_at (int sizeof_homeMessage + sofar) x b = Some b1"
          "short_of_value v p r t n big b1 (sofar + int (length x)) (remaining - int (length x)) (pend w1)" by blast
      have "f K big fd b1 (sofar + int (length x)) (remaining - int (length x)) w1 = Some y"
        using 1(2) n x b1(1) unfolding eq by (simp add: Let_def)
      then show False using 1(1) b1(2) by blast
    qed
  qed
  then show ?thesis by blast
qed

text \<open>When the peer closes the connection inside the value of a message, the reader
  does not return: a read of no bytes counts 0 and the loop goes on.
\<close>
lemma ehRead_hangs_inside_value:
  assumes "tcp_source K fd pend" and "tcp_closed K fd pend"
    and "whole_header K fd w" and "pend w = take (24 + k) (wire et val)" and "k < length val" and "length val < 65536"
  shows "ehRead K big fd w = None"
proof -
  let ?n = "of_nat (length val) :: 16 word"
  have "wire et val = header_for (4 + ?n) et (u16_bytes True ?n) [] @ val" by (simp add: wire_def header_for_def frame_def)
  moreover have "length (header_for (4 + ?n) et (u16_bytes True ?n) []) = 24" by (simp add: header_for_def frame_def)
  ultimately have "pend w = header_for (4 + ?n) et (u16_bytes True ?n) [] @ take k val" using assms(4) by simp
  from ehRead_header[OF assms(1,3) this, of big] obtain w3 where
    w3: "pend w3 = take k val" and
    r: "?n \<noteq> 0 \<Longrightarrow> ehRead K big fd w = ehRead_value K big fd (header_for (4 + ?n) et (u16_bytes big ?n) (replicate (unat ?n) NUL)) 0 (uint ?n) w3"
    by auto
  have "?n \<noteq> 0" using unat_length[OF assms(6)] assms(5) by (metis less_nat_zero_code unat_0)
  moreover have "short_of_value (u16_bytes True HOME_MSG_PROTOCOL_VERSION) (u16_bytes True (4 + ?n)) (replicate 16 NUL) (u16_bytes True et)
      (u16_bytes big ?n) big (header_for (4 + ?n) et (u16_bytes big ?n) (replicate (unat ?n) NUL)) 0 (uint ?n) (pend w3)"
    unfolding short_of_value_def
    by (rule exI[of _ "[]"], rule exI[of _ "replicate (unat ?n) NUL"])
       (use assms(5,6) w3 in \<open>simp add: header_for_def uint_length unat_length\<close>)
  ultimately show ?thesis
    using r ehRead_value_eof[OF assms(1,2) fields_u16] by (metis option.exhaust)
qed

lemma ehRead_hangs_inside_value_witness: "ehRead demo_tcp True 7 (take 25 (wire 16 ''abc'')) = None"
proof -
  have c: "tcp_closed demo_tcp 7 (\<lambda>w. w)" by (simp add: tcp_closed_def demo_tcp_def)
  have h: "whole_header demo_tcp 7 (take 25 (wire 16 ''abc''))" by (rule demo_header) (simp add: demo_wire)
  from ehRead_hangs_inside_value[OF demo_source c h, of 1 16 "''abc''"] show ?thesis by simp
qed

section \<open>Lengths\<close>

text \<open>The value \<^verbatim>\<open>-1\<close> that asks not to change the length becomes the length.\<close>

lemma updateEhMsg_not_change:
  "updateEhMsg (Some b) None (of_int NOT_CHANGE_VALUELEN) None = Some (TCMRET_SUCCESS, Some (b\<lparr>msg := (msg b)\<lparr>valueLen := 65535\<rparr>\<rparr>))"
proof -
  have m: "of_int NOT_CHANGE_VALUELEN = (65535 :: 16 word)" by (simp add: NOT_CHANGE_VALUELEN_def)
  have "(b\<lparr>msg := (msg b)\<lparr>msg_reserve := msg_reserve (msg b), valueLen := 65535\<rparr>, msg_value := msg_value b\<rparr>) =
      b\<lparr>msg := (msg b)\<lparr>valueLen := 65535\<rparr>\<rparr>" by simp
  then show ?thesis unfolding m by (simp add: updateEhMsg_def NOT_CHANGE_VALUELEN_def)
qed

text \<open>A reserve field without a NUL among its 16 bytes is copied past the end of the field.\<close>

lemma full_reserve_undefined: "NUL \<notin> set (take 16 m) \<Longrightarrow> 16 \<le> length m \<Longrightarrow> copy_reserve m = None"
proof -
  assume "NUL \<notin> set (take 16 m)" "16 \<le> length m"
  then have "cstr m = take 16 m @ cstr (drop 16 m)" by (metis append_take_drop_id cstr_append)
  then show ?thesis using \<open>16 \<le> length m\<close> by (auto simp: copy_reserve_def)
qed

end
