(* ===== verification/Eh_Queue.thy ===== *)
theory Eh_Queue
  imports Eh_Frame
begin

text \<open>
  The two queues of the home gateway: received messages (\<^verbatim>\<open>ehMq.c\<close>) and answers that wait for the answer of another
  phone (\<^verbatim>\<open>ehTransMsgMap.c\<close>). Both are chains of blocks through \<^verbatim>\<open>next\<close> with the same loops, here for blocks of
  any content; \<open>0\<close> is \<^verbatim>\<open>NULL\<close>, a freed block is no longer in memory and \<open>fresh\<close> is the block \<^verbatim>\<open>malloc\<close> returns.
  \<open>lg\<close> is whether notices are compiled in (\<^verbatim>\<open>tcm_log.h\<close>): some counters are incremented in their arguments.
\<close>

section \<open>Chains of blocks\<close>

record 'a node =
  item :: 'a
  link :: nat

type_synonym 'a nodes = "nat \<rightharpoonup> 'a node"

definition node_at :: "'a nodes \<Rightarrow> nat \<Rightarrow> 'a node run" where
  "node_at h p = (if p = 0 then None else h p)"

definition set_link :: "nat \<Rightarrow> nat \<Rightarrow> 'a nodes \<Rightarrow> 'a nodes run" where
  "set_link p v h = do { n \<leftarrow> node_at h p; Some (h(p \<mapsto> n\<lparr>link := v\<rparr>)) }"

partial_function (option) last_node :: "nat \<Rightarrow> 'a nodes \<Rightarrow> nat run" where
  "last_node p h = do { n \<leftarrow> node_at h p; if link n \<noteq> 0 then last_node (link n) h else Some p }"

definition append_node :: "nat \<Rightarrow> nat \<Rightarrow> 'a nodes \<Rightarrow> (nat \<times> 'a nodes) run" where
  "append_node queue m h =
     (if queue = 0 then Some (m, h)
      else do { t \<leftarrow> last_node queue h; h1 \<leftarrow> set_link t m h; Some (queue, h1) })"

text \<open>The blocks of all queues are freed with \<^verbatim>\<open>freeDevice\<close> (\<^verbatim>\<open>ehDevice.c\<close>) or \<^verbatim>\<open>freeEhMsg\<close>.\<close>

definition freeDevice :: "nat \<Rightarrow> 'a nodes \<Rightarrow> (tcmRet \<times> 'a nodes) run" where
  "freeDevice p h =
     (if p = 0 then Some (TCMRET_INVALID_PARAMETER, h)
      else do { _ \<leftarrow> node_at h p; Some (TCMRET_SUCCESS, h(p := None)) })"

definition freeEhMsg :: "nat \<Rightarrow> 'a nodes \<Rightarrow> (tcmRet \<times> 'a nodes) run" where
  "freeEhMsg p h = freeDevice p h"

text \<open>
  The loop at the head of a queue. \<open>bump\<close> is what a round adds to the counter, by whether the queue became
  empty. Freeing the block, which is not \<^verbatim>\<open>NULL\<close>, succeeds.
\<close>

partial_function (option) delete_front ::
    "('a \<Rightarrow> bool) \<Rightarrow> (bool \<Rightarrow> int) \<Rightarrow> nat \<Rightarrow> 'a nodes \<Rightarrow> int \<Rightarrow> (nat \<times> 'a nodes \<times> int) run" where
  "delete_front P bump q h cnt =
     do { n \<leftarrow> node_at h q;
          if P (item n) then do {
            (r, h1) \<leftarrow> freeDevice q h;
            if link n = 0 then Some (0, h1, cnt + bump True) else delete_front P bump (link n) h1 (cnt + bump False) }
          else Some (q, h, cnt) }"

text \<open>The loop behind the head: after a block has been freed, its \<^verbatim>\<open>next\<close> is read.\<close>

partial_function (option) delete_behind ::
    "bool \<Rightarrow> ('a \<Rightarrow> bool) \<Rightarrow> nat \<Rightarrow> nat \<Rightarrow> 'a nodes \<Rightarrow> int \<Rightarrow> (int \<times> 'a nodes) run" where
  "delete_behind lg P p q h cnt =
     (if q = 0 then Some (cnt, h)
      else do {
        n \<leftarrow> node_at h q;
        if P (item n) then do {
          h1 \<leftarrow> set_link p (link n) h;
          (r, h2) \<leftarrow> freeDevice q h1;
          n2 \<leftarrow> node_at h2 q;
          delete_behind lg P q (link n2) h2 (cnt + of_bool lg) }
        else delete_behind lg P q (link n) h cnt })"

text \<open>The counter, the queue and the blocks.\<close>

definition delete_all :: "bool \<Rightarrow> ('a \<Rightarrow> bool) \<Rightarrow> (bool \<Rightarrow> int) \<Rightarrow> nat \<Rightarrow> 'a nodes \<Rightarrow> (int \<times> nat \<times> 'a nodes) run" where
  "delete_all lg P bump queue h =
     do { (q, h1, cnt) \<leftarrow> (if queue \<noteq> 0 then delete_front P bump queue h 0 else Some (queue, h, 0));
          (cnt1, h2) \<leftarrow> delete_behind lg P q q h1 cnt;
          Some (cnt1, q, h2) }"

text \<open>The loop that takes out one block.\<close>

partial_function (option) delete_one ::
    "(nat \<Rightarrow> 'a \<Rightarrow> bool) \<Rightarrow> nat \<Rightarrow> nat \<Rightarrow> 'a nodes \<Rightarrow> (tcmRet \<times> 'a nodes) run" where
  "delete_one P p q h =
     (if q = 0 then Some (TCMRET_SUCCESS, h)
      else do {
        n \<leftarrow> node_at h q;
        if P q (item n) then do {
          h1 \<leftarrow> set_link p (link n) h;
          (r, h2) \<leftarrow> freeDevice q h1;
          Some (if r \<noteq> TCMRET_SUCCESS then TCMRET_FAILURE else TCMRET_SUCCESS, h2) }
        else delete_one P q (link n) h })"

partial_function (option) find_node :: "('a \<Rightarrow> bool) \<Rightarrow> nat \<Rightarrow> 'a nodes \<Rightarrow> nat run" where
  "find_node P q h =
     (if q = 0 then Some 0
      else do { n \<leftarrow> node_at h q; if P (item n) then Some q else find_node P (link n) h })"

section \<open>Received messages (\<^verbatim>\<open>ehMq.c\<close>)\<close>

text \<open>\<open>None\<close> as the queue is a \<^verbatim>\<open>NULL\<close> pointer to it.\<close>

definition putEhMsgToQueue :: "nat \<Rightarrow> nat \<Rightarrow> homeMsgCtrlBlock nodes \<Rightarrow> (tcmRet \<times> nat \<times> homeMsgCtrlBlock nodes) run" where
  "putEhMsgToQueue queue m h =
     (if m = 0 then Some (TCMRET_INVALID_PARAMETER, queue, h)
      else do { (q, h1) \<leftarrow> append_node queue m h; Some (TCMRET_SUCCESS, q, h1) })"

partial_function (option) free_queue_loop :: "nat \<Rightarrow> 'a nodes \<Rightarrow> (tcmRet \<times> 'a nodes) run" where
  "free_queue_loop queue h =
     (if queue = 0 then Some (TCMRET_SUCCESS, h)
      else do {
        (r, h1) \<leftarrow> freeEhMsg queue h;
        if r \<noteq> TCMRET_SUCCESS then Some (TCMRET_FAILURE, h1)
        else do { n \<leftarrow> node_at h1 queue; free_queue_loop (link n) h1 } })"

definition freeEhMsgQueue :: "nat \<Rightarrow> homeMsgCtrlBlock nodes \<Rightarrow> (tcmRet \<times> homeMsgCtrlBlock nodes) run" where
  "freeEhMsgQueue queue h = (if queue = 0 then Some (TCMRET_INVALID_PARAMETER, h) else free_queue_loop queue h)"

definition deleteEhMsgFromQueueByType ::
    "bool \<Rightarrow> nat option \<Rightarrow> 16 word \<Rightarrow> homeMsgCtrlBlock nodes \<Rightarrow> (int \<times> nat option \<times> homeMsgCtrlBlock nodes) run" where
  "deleteEhMsgFromQueueByType lg msgQueue msgType h =
     (case msgQueue of None \<Rightarrow> Some (- 1, None, h)
      | Some q \<Rightarrow>
          if \<not> checkHomeMsgType msgType then Some (- 1, msgQueue, h)
          else do { (cnt, q1, h1) \<leftarrow> delete_all lg (\<lambda>b. eventType (msg b) = msgType)
                        (\<lambda>emptied. of_bool lg + (if emptied then 0 else 1)) q h;
                    Some (cnt, Some q1, h1) })"

definition deleteEhMsgFromQueueByFd ::
    "bool \<Rightarrow> nat option \<Rightarrow> int \<Rightarrow> homeMsgCtrlBlock nodes \<Rightarrow> (int \<times> nat option \<times> homeMsgCtrlBlock nodes) run" where
  "deleteEhMsgFromQueueByFd lg msgQueue fd h =
     (case msgQueue of None \<Rightarrow> Some (- 1, None, h)
      | Some q \<Rightarrow>
          if fd \<le> 0 then Some (- 1, msgQueue, h)
          else do { (cnt, q1, h1) \<leftarrow> delete_all lg (\<lambda>b. connfd b = fd) (\<lambda>emptied. of_bool lg + 1) q h;
                    Some (cnt, Some q1, h1) })"

text \<open>No 32-bit number is above \<^verbatim>\<open>UINT_MAX\<close>. An empty queue is read through a \<^verbatim>\<open>NULL\<close> pointer.\<close>

definition deleteEhMsgFromQueueBySeqID ::
    "nat option \<Rightarrow> UINT32 \<Rightarrow> homeMsgCtrlBlock nodes \<Rightarrow> (tcmRet \<times> nat option \<times> homeMsgCtrlBlock nodes) run" where
  "deleteEhMsgFromQueueBySeqID msgQueue msgSeqID h =
     (case msgQueue of None \<Rightarrow> Some (TCMRET_INVALID_PARAMETER, None, h)
      | Some q \<Rightarrow>
          if 0xFFFFFFFF < msgSeqID then Some (TCMRET_INVALID_PARAMETER, msgQueue, h)
          else do {
            n \<leftarrow> node_at h q;
            if sequenceID (item n) = msgSeqID then do {
              (r, h1) \<leftarrow> freeDevice q h;
              Some (if r \<noteq> TCMRET_SUCCESS then TCMRET_FAILURE else TCMRET_SUCCESS, Some (link n), h1) }
            else do { (r, h1) \<leftarrow> delete_one (\<lambda>a b. sequenceID b = msgSeqID) q q h; Some (r, msgQueue, h1) } })"

definition searchEhMsgbyType :: "nat \<Rightarrow> 16 word \<Rightarrow> homeMsgCtrlBlock nodes \<Rightarrow> nat run" where
  "searchEhMsgbyType queue msgType h =
     (if queue = 0 then Some 0
      else if \<not> checkHomeMsgType msgType then Some 0
      else find_node (\<lambda>b. eventType (msg b) = msgType) queue h)"

section \<open>Answers that wait (\<^verbatim>\<open>ehTransMsgMap.c\<close>)\<close>

record 'f EhTransMsgMap =
  srcMsg :: "16 word"
  mapMsg :: "16 word"
  trans_connfd :: int
  trans_ssl :: nat
  actFun :: 'f

definition createEhTransMsgMap ::
    "('f EhTransMsgMap nodes \<Rightarrow> nat) \<Rightarrow> 16 word \<Rightarrow> 16 word \<Rightarrow> int \<Rightarrow> nat \<Rightarrow> 'f option \<Rightarrow> 'f EhTransMsgMap nodes \<Rightarrow>
      (nat \<times> 'f EhTransMsgMap nodes) run" where
  "createEhTransMsgMap fresh src dst fd s act h =
     (if \<not> checkHomeMsgType src \<and> \<not> checkHomeMsgType dst then Some (0, h)
      else case act of None \<Rightarrow> Some (0, h)
      | Some f \<Rightarrow>
          if fd < 1 then Some (0, h)
          else if fresh h = 0 then None
          else Some (fresh h, h(fresh h \<mapsto> \<lparr>item = \<lparr>srcMsg = src, mapMsg = dst, trans_connfd = fd, trans_ssl = s, actFun = f\<rparr>,
                                             link = 0\<rparr>)))"

definition putEhTransMsgToQueue :: "nat \<Rightarrow> nat \<Rightarrow> 'f EhTransMsgMap nodes \<Rightarrow> (int \<times> nat \<times> 'f EhTransMsgMap nodes) run" where
  "putEhTransMsgToQueue queue m h =
     (if m = 0 then Some (- 1, queue, h)
      else do { (q, h1) \<leftarrow> append_node queue m h; Some (0, q, h1) })"

definition installTransMsgMap ::
    "('f EhTransMsgMap nodes \<Rightarrow> nat) \<Rightarrow> 16 word \<Rightarrow> 16 word \<Rightarrow> int \<Rightarrow> nat \<Rightarrow> 'f option \<Rightarrow> nat \<Rightarrow> 'f EhTransMsgMap nodes \<Rightarrow>
      (tcmRet \<times> nat \<times> 'f EhTransMsgMap nodes) run" where
  "installTransMsgMap fresh src dst fd s act queue h =
     do { (m, h1) \<leftarrow> createEhTransMsgMap fresh src dst fd s act h;
          if m = 0 then Some (TCMRET_FAILURE, queue, h1)
          else do { (r, q, h2) \<leftarrow> putEhTransMsgToQueue queue m h1;
                    Some (if r = - 1 then TCMRET_FAILURE else TCMRET_SUCCESS, q, h2) } }"

definition getTransMsgbySrcType :: "nat \<Rightarrow> 16 word \<Rightarrow> 'f EhTransMsgMap nodes \<Rightarrow> nat run" where
  "getTransMsgbySrcType queue src h =
     (if \<not> checkHomeMsgType src then Some 0 else find_node (\<lambda>m. srcMsg m = src) queue h)"

definition delEhTransMsgFromQueue ::
    "nat option \<Rightarrow> nat \<Rightarrow> 'f EhTransMsgMap nodes \<Rightarrow> (tcmRet \<times> nat option \<times> 'f EhTransMsgMap nodes) run" where
  "delEhTransMsgFromQueue msgQueue m h =
     (case msgQueue of None \<Rightarrow> Some (TCMRET_FAILURE, None, h)
      | Some q \<Rightarrow>
          if m = 0 then Some (TCMRET_FAILURE, msgQueue, h)
          else if q = m then do {
            n \<leftarrow> node_at h q;
            (r, h1) \<leftarrow> freeDevice q h;
            Some (if r \<noteq> TCMRET_SUCCESS then TCMRET_FAILURE else TCMRET_SUCCESS, Some (link n), h1) }
          else do { (r, h1) \<leftarrow> delete_one (\<lambda>a b. a = m) q q h; Some (r, msgQueue, h1) })"

text \<open>\<open>call\<close> is the call of the function in the entry, with the value it is to send.\<close>

definition doTransMsgAct ::
    "('f EhTransMsgMap \<Rightarrow> 'w \<Rightarrow> (int \<times> 'w) run) \<Rightarrow> 16 word \<Rightarrow> nat \<Rightarrow> 'f EhTransMsgMap nodes \<Rightarrow> 'w \<Rightarrow>
      (tcmRet \<times> nat \<times> 'f EhTransMsgMap nodes \<times> 'w) run" where
  "doTransMsgAct call src queue h w =
     (if \<not> checkHomeMsgType src then Some (TCMRET_FAILURE, queue, h, w)
      else do {
        m \<leftarrow> getTransMsgbySrcType queue src h;
        if m = 0 then Some (TCMRET_FAILURE, queue, h, w)
        else do {
          n \<leftarrow> node_at h m;
          (ret, w1) \<leftarrow> call (item n) w;
          (r, q, h1) \<leftarrow> delEhTransMsgFromQueue (Some queue) m h;
          q1 \<leftarrow> q;
          Some (if ret = 0 then TCMRET_SUCCESS else TCMRET_FAILURE, q1, h1, w1) } })"

definition deleteEhTransMsgByFd ::
    "bool \<Rightarrow> nat option \<Rightarrow> int \<Rightarrow> 'f EhTransMsgMap nodes \<Rightarrow> (int \<times> nat option \<times> 'f EhTransMsgMap nodes) run" where
  "deleteEhTransMsgByFd lg msgQueue fd h =
     (case msgQueue of None \<Rightarrow> Some (- 1, None, h)
      | Some q \<Rightarrow>
          if fd \<le> 0 then Some (- 1, msgQueue, h)
          else do { (cnt, q1, h1) \<leftarrow> delete_all lg (\<lambda>m. trans_connfd m = fd) (\<lambda>emptied. of_bool lg + 1) q h;
                    Some (cnt, Some q1, h1) })"

section \<open>Chains as lists\<close>

text \<open>The blocks of the chain that begins at \<open>p\<close>, with their contents.\<close>

fun qlist :: "'a nodes \<Rightarrow> nat \<Rightarrow> (nat \<times> 'a) list \<Rightarrow> bool" where
  "qlist h p [] \<longleftrightarrow> p = 0"
| "qlist h p ((a, x) # xs) \<longleftrightarrow> p = a \<and> a \<noteq> 0 \<and> (\<exists>l. h a = Some \<lparr>item = x, link = l\<rparr> \<and> qlist h l xs)"

definition addrs :: "(nat \<times> 'a) list \<Rightarrow> nat set" where
  "addrs xs = fst ` set xs"

lemma chain_addrs_simps [simp]:
  "addrs [] = {}" "addrs ((a, x) # xs) = insert a (addrs xs)" "addrs (xs @ ys) = addrs xs \<union> addrs ys"
  by (auto simp: addrs_def)

lemma qlist_frame: "qlist h p xs \<Longrightarrow> (\<And>a. a \<in> addrs xs \<Longrightarrow> h' a = h a) \<Longrightarrow> qlist h' p xs"
  by (induction h p xs rule: qlist.induct) auto

lemma qlist_unique: "qlist h p xs \<Longrightarrow> qlist h p ys \<Longrightarrow> xs = ys"
proof (induction h p xs arbitrary: ys rule: qlist.induct)
  case (1 h p)
  then show ?case by (cases ys) auto
next
  case (2 h p a x xs)
  then show ?case by (cases ys) auto
qed

lemma qlist_suffix: "qlist h p (xs @ ys) \<Longrightarrow> \<exists>q. qlist h q ys"
  by (induction h p xs rule: qlist.induct) auto

lemma qlist_distinct: "qlist h p xs \<Longrightarrow> distinct (map fst xs)"
proof (induction h p xs rule: qlist.induct)
  case (2 h p a x xs)
  then obtain l where l: "h a = Some \<lparr>item = x, link = l\<rparr>" "qlist h l xs" "distinct (map fst xs)" by auto
  have "a \<notin> addrs xs"
  proof
    assume "a \<in> addrs xs"
    then obtain y us vs where s: "xs = us @ (a, y) # vs" unfolding addrs_def by (metis imageE prod.collapse split_list)
    with l(2) obtain q where "qlist h q ((a, y) # vs)" using qlist_suffix by blast
    then have "qlist h a ((a, y) # vs)" by auto
    show False using "2.prems" s qlist_unique[OF \<open>qlist h a ((a, y) # vs)\<close>, of "(a, x) # xs"] by auto
  qed
  then show ?case using l by (simp add: addrs_def)
qed simp

lemma qlist_head: "qlist h p xs \<Longrightarrow> p = 0 \<longleftrightarrow> xs = []"
  by (cases xs) auto

lemma node_at_head: "qlist h p ((a, x) # xs) \<Longrightarrow> \<exists>l. node_at h a = Some \<lparr>item = x, link = l\<rparr> \<and> qlist h l xs"
  by (auto simp: node_at_def)

lemma last_node_qlist: "qlist h p xs \<Longrightarrow> xs \<noteq> [] \<Longrightarrow> last_node p h = Some (fst (last xs))"
proof (induction h p xs rule: qlist.induct)
  case (2 h p a x xs)
  then obtain l where l: "p = a" "node_at h a = Some \<lparr>item = x, link = l\<rparr>" "qlist h l xs" "h a = Some \<lparr>item = x, link = l\<rparr>"
    by (auto simp: node_at_def)
  have s: "last_node p h = (if l \<noteq> 0 then last_node l h else Some a)"
    by (subst last_node.simps) (simp add: l)
  show ?case
  proof (cases "xs = []")
    case True
    then show ?thesis using s l(3) by simp
  next
    case False
    then show ?thesis using s "2.IH" l qlist_head[OF l(3)] by simp
  qed
qed simp

lemma qlist_relink:
  assumes "qlist h p (xs @ [(a, x)])" and "m \<notin> addrs (xs @ [(a, x)])" and "h m = Some \<lparr>item = y, link = 0\<rparr>" and "m \<noteq> 0"
  shows "qlist (h(a \<mapsto> \<lparr>item = x, link = m\<rparr>)) p (xs @ [(a, x), (m, y)])"
  using assms
proof (induction xs arbitrary: p)
  case (Cons bz xs)
  obtain b z where bz: "bz = (b, z)" by force
  then have "distinct (map fst ((b, z) # xs @ [(a, x)]))" using qlist_distinct[OF Cons.prems(1)] by simp
  then have "b \<noteq> a" by auto
  then show ?case using Cons bz by auto
qed auto

lemma append_node_qlist:
  assumes "qlist h p xs" and "h m = Some \<lparr>item = y, link = 0\<rparr>" and "m \<noteq> 0" and "m \<notin> addrs xs"
  shows "\<exists>q h1. append_node p m h = Some (q, h1) \<and> qlist h1 q (xs @ [(m, y)]) \<and> dom h1 = dom h \<and> (\<forall>b. b \<notin> addrs xs \<longrightarrow> h1 b = h b)"
proof (cases xs rule: rev_cases)
  case Nil
  then show ?thesis using assms by (auto simp: append_node_def)
next
  case (snoc ys ax)
  obtain a x where ax: "ax = (a, x)" by force
  have q: "qlist h p (ys @ [(a, x)])" using assms(1) snoc ax by simp
  then obtain r where "qlist h r [(a, x)]" using qlist_suffix by blast
  then have n: "node_at h a = Some \<lparr>item = x, link = 0\<rparr>" "h a = Some \<lparr>item = x, link = 0\<rparr>" by (auto simp: node_at_def)
  have "last_node p h = Some a" using last_node_qlist[OF q] by simp
  moreover have "p \<noteq> 0" using qlist_head[OF q] by simp
  ultimately have "append_node p m h = Some (p, h(a \<mapsto> \<lparr>item = x, link = m\<rparr>))"
    by (simp add: append_node_def set_link_def n)
  moreover have "qlist (h(a \<mapsto> \<lparr>item = x, link = m\<rparr>)) p (xs @ [(m, y)])"
    using qlist_relink[OF q] assms snoc ax by simp
  ultimately show ?thesis using n(2) snoc ax by (auto simp: dom_def)
qed

lemma find_node_qlist:
  "qlist h p xs \<Longrightarrow> find_node P p h = Some (case find (\<lambda>ax. P (snd ax)) xs of None \<Rightarrow> 0 | Some ax \<Rightarrow> fst ax)"
proof (induction h p xs rule: qlist.induct)
  case (1 h p)
  then show ?case by (simp add: find_node.simps)
next
  case (2 h p a x xs)
  then obtain l where l: "p = a" "a \<noteq> 0" "node_at h a = Some \<lparr>item = x, link = l\<rparr>" "qlist h l xs"
    by (auto simp: node_at_def)
  have "find_node P p h = (if P x then Some a else find_node P l h)"
    by (subst find_node.simps) (simp add: l)
  then show ?case using "2.IH" l by simp
qed

section \<open>Deleting\<close>

lemma freeDevice_node: "node_at h p = Some n \<Longrightarrow> freeDevice p h = Some (TCMRET_SUCCESS, h(p := None))"
  by (auto simp: freeDevice_def node_at_def split: if_splits)

lemma delete_one_step:
  assumes "h q = Some \<lparr>item = x, link = l\<rparr>" and "q \<noteq> 0" and "\<not> P q x"
  shows "delete_one P p q h = delete_one P q l h"
  by (subst delete_one.simps) (simp add: assms node_at_def)

lemma delete_one_none: "qlist h q xs \<Longrightarrow> \<forall>(a, x) \<in> set xs. \<not> P a x \<Longrightarrow> delete_one P p q h = Some (TCMRET_SUCCESS, h)"
proof (induction h q xs arbitrary: p rule: qlist.induct)
  case (1 h q)
  then show ?case by (simp add: delete_one.simps)
next
  case (2 h q a x xs)
  then obtain l where "q = a" "a \<noteq> 0" "h a = Some \<lparr>item = x, link = l\<rparr>" "qlist h l xs" by auto
  then show ?case using 2 delete_one_step[of h q x l P p] by simp
qed

lemma delete_one_found:
  assumes "qlist h b ((b, y) # us @ (a, x) # vs)" and "h b = Some \<lparr>item = y, link = l\<rparr>"
    and "\<forall>(c, z) \<in> set us. \<not> P c z" and "P a x"
  shows "\<exists>h1. delete_one P b l h = Some (TCMRET_SUCCESS, h1) \<and> qlist h1 b ((b, y) # us @ vs) \<and>
    dom h1 = dom h - {a} \<and> (\<forall>c. c \<notin> addrs ((b, y) # us) \<longrightarrow> c \<noteq> a \<longrightarrow> h1 c = h c)"
  using assms
proof (induction us arbitrary: b y l)
  case Nil
  then obtain v where v: "l = a" "a \<noteq> 0" "b \<noteq> 0" "h a = Some \<lparr>item = x, link = v\<rparr>" "qlist h v vs" by auto
  have d: "b \<noteq> a" "b \<notin> addrs vs" "a \<notin> addrs vs" using qlist_distinct[OF Nil.prems(1)] by (auto simp: addrs_def)
  let ?h = "h(b \<mapsto> \<lparr>item = y, link = v\<rparr>, a := None)"
  have "delete_one P b l h = Some (TCMRET_SUCCESS, ?h)"
    by (subst delete_one.simps) (use Nil.prems v d in \<open>simp add: node_at_def set_link_def freeDevice_def\<close>)
  moreover have "qlist ?h v vs" by (rule qlist_frame[OF v(5)]) (use d in auto)
  ultimately show ?case using v d Nil.prems(2) by auto
next
  case (Cons cz us)
  obtain c z where cz: "cz = (c, z)" by force
  then obtain v where v: "l = c" "c \<noteq> 0" "h c = Some \<lparr>item = z, link = v\<rparr>" "qlist h c ((c, z) # us @ (a, x) # vs)"
    using Cons.prems(1,2) by auto
  from Cons.IH[OF v(4,3) _ Cons.prems(4)] Cons.prems(3) cz obtain h1 where
    h1: "delete_one P c v h = Some (TCMRET_SUCCESS, h1)" "qlist h1 c ((c, z) # us @ vs)" "dom h1 = dom h - {a}"
      "\<forall>e. e \<notin> addrs ((c, z) # us) \<longrightarrow> e \<noteq> a \<longrightarrow> h1 e = h e" by auto
  have "b \<notin> addrs ((c, z) # us)" "b \<noteq> a" using qlist_distinct[OF Cons.prems(1)] cz by (auto simp: addrs_def)
  then have "h1 b = h b" using h1(4) by blast
  moreover have "delete_one P b l h = delete_one P c v h"
    using delete_one_step[of h l z v P b] v Cons.prems(3) cz by simp
  ultimately show ?case using h1 v cz Cons.prems(1,2) by (auto simp del: chain_addrs_simps(1))
qed

text \<open>What the loop at the head adds to the counter.\<close>

fun front_count :: "('a \<Rightarrow> bool) \<Rightarrow> (bool \<Rightarrow> int) \<Rightarrow> (nat \<times> 'a) list \<Rightarrow> int" where
  "front_count P bump [] = 0"
| "front_count P bump ((a, x) # xs) = (if P x then bump (xs = []) + front_count P bump xs else 0)"

lemma front_count_const:
  "(\<And>e. bump e = c) \<Longrightarrow> front_count P bump xs = int (length (takeWhile (\<lambda>ax. P (snd ax)) xs)) * c"
  by (induction P bump xs rule: front_count.induct) (auto simp: algebra_simps)

lemma delete_front_qlist:
  "qlist h q xs \<Longrightarrow> xs \<noteq> [] \<Longrightarrow>
    \<exists>q1 h1. delete_front P bump q h s = Some (q1, h1, s + front_count P bump xs) \<and>
      qlist h1 q1 (dropWhile (\<lambda>ax. P (snd ax)) xs) \<and>
      (\<forall>c. h1 c = (if c \<in> addrs (takeWhile (\<lambda>ax. P (snd ax)) xs) then None else h c))"
proof (induction xs arbitrary: h q s)
  case (Cons ax xs)
  obtain a x where ax: "ax = (a, x)" by force
  with Cons.prems obtain l where l: "q = a" "a \<noteq> 0" "h a = Some \<lparr>item = x, link = l\<rparr>" "qlist h l xs" by auto
  have d: "a \<notin> addrs xs" using qlist_distinct[OF Cons.prems(1)] ax by (auto simp: addrs_def)
  have step: "delete_front P bump q h s = (if P x then
       (if l = 0 then Some (0, h(a := None), s + bump True) else delete_front P bump l (h(a := None)) (s + bump False))
     else Some (a, h, s))"
    by (subst delete_front.simps) (simp add: l node_at_def freeDevice_def)
  have q: "qlist (h(a := None)) l xs" by (rule qlist_frame[OF l(4)]) (use d in auto)
  show ?case
  proof (cases "P x \<and> xs \<noteq> []")
    case True
    then have "l \<noteq> 0" using qlist_head[OF q] by simp
    from Cons.IH[OF q, of "s + bump False"] True obtain q1 h1 where
      "delete_front P bump l (h(a := None)) (s + bump False) = Some (q1, h1, s + bump False + front_count P bump xs)"
      "qlist h1 q1 (dropWhile (\<lambda>ax. P (snd ax)) xs)"
      "\<forall>c. h1 c = (if c \<in> addrs (takeWhile (\<lambda>ax. P (snd ax)) xs) then None else (h(a := None)) c)" by blast
    then show ?thesis using step \<open>l \<noteq> 0\<close> True ax by auto
  next
    case False
    then show ?thesis using step ax l Cons.prems qlist_head[OF q] by auto
  qed
qed simp

lemma delete_behind_step:
  assumes "h q = Some \<lparr>item = x, link = l\<rparr>" and "q \<noteq> 0"
  shows "delete_behind lg P p q h s = (if P x then None else delete_behind lg P q l h s)"
  by (subst delete_behind.simps)
     (simp add: assms node_at_def set_link_def freeDevice_def bind_eq_None_conv)

lemma delete_behind_qlist:
  "qlist h q xs \<Longrightarrow> delete_behind lg P p q h s = (if \<exists>ax \<in> set xs. P (snd ax) then None else Some (s, h))"
proof (induction h q xs arbitrary: p rule: qlist.induct)
  case (1 h q)
  then show ?case by (simp add: delete_behind.simps)
next
  case (2 h q a x xs)
  then obtain l where l: "q = a" "a \<noteq> 0" "h a = Some \<lparr>item = x, link = l\<rparr>" "qlist h l xs" by auto
  then have "delete_behind lg P a l h s = (if \<exists>ax \<in> set xs. P (snd ax) then None else Some (s, h))" using "2.IH" by blast
  then show ?case using delete_behind_step[of h a x l lg P p s] l by simp
qed

lemma filter_front:
  assumes "\<forall>ax \<in> set (dropWhile P xs). \<not> P ax"
  shows "filter (\<lambda>ax. \<not> P ax) xs = dropWhile P xs"
proof -
  have "filter (\<lambda>ax. \<not> P ax) (takeWhile P xs) = []" by (auto simp: filter_empty_conv dest: set_takeWhileD)
  moreover have "filter (\<lambda>ax. \<not> P ax) (dropWhile P xs) = dropWhile P xs" by (rule filter_True) (rule assms)
  ultimately show ?thesis by (metis append_Nil filter_append takeWhile_dropWhile_id)
qed

lemma delete_all_outcome:
  assumes "qlist h q xs"
  shows "if \<exists>ax \<in> set (dropWhile (\<lambda>ax. P (snd ax)) xs). P (snd ax) then delete_all lg P bump q h = None
    else \<exists>q1 h1. delete_all lg P bump q h = Some (front_count P bump xs, q1, h1) \<and>
      qlist h1 q1 (filter (\<lambda>ax. \<not> P (snd ax)) xs) \<and>
      (\<forall>c. h1 c = (if c \<in> addrs (takeWhile (\<lambda>ax. P (snd ax)) xs) then None else h c))"
proof -
  obtain q1 h1 where f: "(if q \<noteq> 0 then delete_front P bump q h 0 else Some (q, h, 0)) = Some (q1, h1, front_count P bump xs)"
    "qlist h1 q1 (dropWhile (\<lambda>ax. P (snd ax)) xs)"
    "\<forall>c. h1 c = (if c \<in> addrs (takeWhile (\<lambda>ax. P (snd ax)) xs) then None else h c)"
  proof (cases "xs = []")
    case True
    then show thesis using that assms by simp
  next
    case False
    then show thesis using delete_front_qlist[OF assms False, of P bump 0] qlist_head[OF assms] that by auto
  qed
  define found where "found \<longleftrightarrow> (\<exists>ax \<in> set (dropWhile (\<lambda>ax. P (snd ax)) xs). P (snd ax))"
  have "delete_behind lg P q1 q1 h1 (front_count P bump xs) = (if found then None else Some (front_count P bump xs, h1))"
    unfolding found_def by (rule delete_behind_qlist[OF f(2)])
  then have r: "delete_all lg P bump q h = (if found then None else Some (front_count P bump xs, q1, h1))"
    unfolding delete_all_def f(1) by simp
  have l: "qlist h1 q1 (filter (\<lambda>ax. \<not> P (snd ax)) xs)" if "\<not> found"
  proof -
    have "\<forall>ax \<in> set (dropWhile (\<lambda>ax. P (snd ax)) xs). \<not> P (snd ax)" using that unfolding found_def by blast
    from filter_front[OF this] show ?thesis using f(2) by argo
  qed
  show ?thesis unfolding found_def[symmetric]
    using r l f(3) by (cases found) simp_all
qed

end
