(* ===== verification/Eh_Queue_Props.thy ===== *)
theory Eh_Queue_Props
  imports Eh_Queue
begin

text \<open>
  The queues of the home gateway against lists: what a queue holds after an operation, and which operations go on
  with a block they have freed.
\<close>

section \<open>One message at a time\<close>

lemma putEhMsg_qlist:
  assumes "qlist h q xs" and "h m = Some \<lparr>item = y, link = 0\<rparr>" and "m \<noteq> 0" and "m \<notin> addrs xs"
  shows "\<exists>q1 h1. putEhMsgToQueue q m h = Some (TCMRET_SUCCESS, q1, h1) \<and> qlist h1 q1 (xs @ [(m, y)]) \<and> dom h1 = dom h"
  using append_node_qlist[OF assms] assms(3) by (auto simp: putEhMsgToQueue_def)

lemma delete_head:
  assumes "qlist h q ((a, x) # xs)"
  shows "\<exists>q1. deleteEhMsgFromQueueBySeqID (Some q) (sequenceID x) h = Some (TCMRET_SUCCESS, Some q1, h(a := None)) \<and>
    qlist (h(a := None)) q1 xs"
proof -
  from assms obtain l where l: "q = a" "a \<noteq> 0" "h a = Some \<lparr>item = x, link = l\<rparr>" "qlist h l xs" by auto
  have "a \<notin> addrs xs" using qlist_distinct[OF assms] by (auto simp: addrs_def)
  then have "qlist (h(a := None)) l xs" by (intro qlist_frame[OF l(4)]) auto
  moreover have "\<not> 0xFFFFFFFF < sequenceID x"
  proof -
    have "(0xFFFFFFFF :: UINT32) = - 1" by simp
    then show ?thesis using word_order.extremum[of "sequenceID x"] by (metis not_less)
  qed
  ultimately show ?thesis
    using l by (auto simp: deleteEhMsgFromQueueBySeqID_def node_at_def freeDevice_def)
qed

lemma delete_entry:
  assumes "qlist h q (us @ (a, x) # vs)"
  shows "\<exists>q1 h1. delEhTransMsgFromQueue (Some q) a h = Some (TCMRET_SUCCESS, Some q1, h1) \<and> qlist h1 q1 (us @ vs) \<and> dom h1 = dom h - {a}"
proof (cases us)
  case Nil
  then obtain l where l: "q = a" "a \<noteq> 0" "h a = Some \<lparr>item = x, link = l\<rparr>" "qlist h l vs" using assms by auto
  have "a \<notin> addrs vs" using qlist_distinct[OF assms] Nil by (auto simp: addrs_def)
  then have "qlist (h(a := None)) l vs" by (intro qlist_frame[OF l(4)]) auto
  then show ?thesis using l Nil by (auto simp: delEhTransMsgFromQueue_def node_at_def freeDevice_def)
next
  case (Cons by' us')
  obtain b y where b: "by' = (b, y)" by force
  have Q: "qlist h b ((b, y) # us' @ (a, x) # vs)" using assms Cons b by auto
  then obtain l where l: "q = b" "b \<noteq> 0" "h b = Some \<lparr>item = y, link = l\<rparr>" using assms Cons b by auto
  have d: "b \<noteq> a" "a \<notin> addrs us'" "a \<noteq> 0"
    using qlist_distinct[OF Q] qlist_suffix[of h b "(b, y) # us'" "(a, x) # vs"] Q by (auto simp: addrs_def)
  have n: "\<forall>(c, z) \<in> set us'. c \<noteq> a" using d(2) by (force simp: addrs_def)
  from delete_one_found[OF Q l(3), of "\<lambda>c z. c = a"] n obtain h1 where
    h1: "delete_one (\<lambda>c z. c = a) b l h = Some (TCMRET_SUCCESS, h1)" "qlist h1 b ((b, y) # us' @ vs)" "dom h1 = dom h - {a}" by auto
  have "delete_one (\<lambda>c z. c = a) b b h = Some (TCMRET_SUCCESS, h1)"
    using delete_one_step[of h b y l "\<lambda>c z. c = a" b] l d(1) h1(1) by simp
  then show ?thesis using h1(2,3) l(1) d Cons b
    by (intro exI[of _ b] exI[of _ h1]) (auto simp: delEhTransMsgFromQueue_def)
qed

section \<open>Freed blocks\<close>

lemma free_queue_undefined: "qlist h q ((a, x) # xs) \<Longrightarrow> freeEhMsgQueue q h = None"
  by (subst freeEhMsgQueue_def, subst free_queue_loop.simps) (auto simp: freeEhMsg_def freeDevice_def node_at_def)

lemma if_option_cases:
  assumes "if F then A = None else \<exists>q1 h1. A = Some (c, q1, h1) \<and> R q1 h1"
    and "B = map_option (\<lambda>(c, q1, h1). (c, Some q1, h1)) A"
  shows "if F then B = None else \<exists>q1 h1. B = Some (c, Some q1, h1) \<and> R q1 h1"
  using assms by (cases F) auto

text \<open>Deleting the messages, or the waiting answers, of a connection that has gone works when all of them
  are at the head of the queue: exactly those are freed, the others stay in their order, and the number that is
  returned is the number of blocks when notices are compiled out and twice that when they are compiled in, for the
  counter is also incremented in the arguments of a log call. When one is behind a block of another
  connection, the loop reads the \<^verbatim>\<open>next\<close> of the block it has just freed.
\<close>
lemma delete_by_fd_outcome:
  assumes "qlist h q xs" and "qlist g p ys" and "0 < fd"
  shows "(if \<exists>ax \<in> set (dropWhile (\<lambda>ax. connfd (snd ax) = fd) xs). connfd (snd ax) = fd
      then deleteEhMsgFromQueueByFd lg (Some q) fd h = None
      else \<exists>q1 h1. deleteEhMsgFromQueueByFd lg (Some q) fd h =
             Some (int (length (takeWhile (\<lambda>ax. connfd (snd ax) = fd) xs)) * (of_bool lg + 1), Some q1, h1) \<and>
           qlist h1 q1 (filter (\<lambda>ax. connfd (snd ax) \<noteq> fd) xs) \<and>
           (\<forall>c. h1 c = (if c \<in> addrs (takeWhile (\<lambda>ax. connfd (snd ax) = fd) xs) then None else h c))) \<and>
    (if \<exists>ay \<in> set (dropWhile (\<lambda>ay. trans_connfd (snd ay) = fd) ys). trans_connfd (snd ay) = fd
      then deleteEhTransMsgByFd lg (Some p) fd g = None
      else \<exists>p1 g1. deleteEhTransMsgByFd lg (Some p) fd g =
             Some (int (length (takeWhile (\<lambda>ay. trans_connfd (snd ay) = fd) ys)) * (of_bool lg + 1), Some p1, g1) \<and>
           qlist g1 p1 (filter (\<lambda>ay. trans_connfd (snd ay) \<noteq> fd) ys) \<and>
           (\<forall>c. g1 c = (if c \<in> addrs (takeWhile (\<lambda>ay. trans_connfd (snd ay) = fd) ys) then None else g c)))"
proof -
  let ?b = "\<lambda>emptied. of_bool lg + 1 :: int"
  have m: "deleteEhMsgFromQueueByFd lg (Some q) fd h = map_option (\<lambda>(c, q1, h1). (c, Some q1, h1)) (delete_all lg (\<lambda>b. connfd b = fd) ?b q h)"
    using assms(3) by (cases "delete_all lg (\<lambda>b. connfd b = fd) ?b q h") (auto simp: deleteEhMsgFromQueueByFd_def)
  have t: "deleteEhTransMsgByFd lg (Some p) fd g = map_option (\<lambda>(c, q1, h1). (c, Some q1, h1)) (delete_all lg (\<lambda>b. trans_connfd b = fd) ?b p g)"
    using assms(3) by (cases "delete_all lg (\<lambda>b. trans_connfd b = fd) ?b p g") (auto simp: deleteEhTransMsgByFd_def)
  note counts = front_count_const[of ?b, OF refl]
  show ?thesis
    by (intro conjI if_option_cases[OF delete_all_outcome[OF assms(1), of "\<lambda>b. connfd b = fd" lg ?b, unfolded counts] m]
          if_option_cases[OF delete_all_outcome[OF assms(2), of "\<lambda>b. trans_connfd b = fd" lg ?b, unfolded counts] t])
qed

text \<open>For the concrete runs: a chain with the blocks at 1, 2, and so on.\<close>

fun chain_at :: "nat \<Rightarrow> 'a list \<Rightarrow> 'a nodes" where
  "chain_at a [] = (\<lambda>_. None)"
| "chain_at a (x # xs) = (chain_at (Suc a) xs)(a \<mapsto> \<lparr>item = x, link = (if xs = [] then 0 else Suc a)\<rparr>)"

definition demo_block :: "UINT32 \<Rightarrow> 16 word \<Rightarrow> int \<Rightarrow> homeMsgCtrlBlock" where
  "demo_block n t fd = \<lparr>sequenceID = n, msg = \<lparr>protocolVersion = 1, payloadLen = 4, msg_reserve = replicate 16 NUL, eventType = t, valueLen = 0\<rparr>,
     connfd = fd, ssl = 0, msg_value = []\<rparr>"

definition demo_entry :: "16 word \<Rightarrow> int \<Rightarrow> unit EhTransMsgMap" where
  "demo_entry t fd = \<lparr>srcMsg = t, mapMsg = 0x5001, trans_connfd = fd, trans_ssl = 0, actFun = ()\<rparr>"

lemma delete_by_fd_outcome_witness:
  "deleteEhMsgFromQueueByFd True (Some 1) 7 (chain_at 1 [demo_block 1 2 8, demo_block 2 2 7]) = None \<and>
   (\<exists>p1 g1. deleteEhTransMsgByFd True (Some 1) 7 (chain_at 1 [demo_entry 2 7, demo_entry 2 8]) = Some (2, Some p1, g1))"
proof -
  have "qlist (chain_at 1 [demo_block 1 2 8, demo_block 2 2 7]) 1 [(1, demo_block 1 2 8), (2, demo_block 2 2 7)]"
    and "qlist (chain_at 1 [demo_entry 2 7, demo_entry 2 8]) 1 [(1, demo_entry 2 7), (2, demo_entry 2 8)]" by simp_all
  from delete_by_fd_outcome[OF this, of 7 True] show ?thesis by (auto simp: demo_block_def demo_entry_def)
qed

section \<open>Waiting answers\<close>

lemma find_split:
  "find P xs = Some x \<Longrightarrow> xs = takeWhile (\<lambda>y. \<not> P y) xs @ x # tl (dropWhile (\<lambda>y. \<not> P y) xs) \<and> P x"
  by (induction xs) (auto split: if_splits)

lemma doTransMsgAct_found:
  assumes "qlist h q xs" and "find (\<lambda>am. srcMsg (snd am) = src) xs = Some (a, m)"
  shows "call m w = None \<Longrightarrow> doTransMsgAct call src q h w = None"
    and "call m w = Some (ret, w1) \<Longrightarrow> \<exists>q1 h1. doTransMsgAct call src q h w =
          Some (if ret = 0 then TCMRET_SUCCESS else TCMRET_FAILURE, q1, h1, w1) \<and>
        qlist h1 q1 (takeWhile (\<lambda>am. srcMsg (snd am) \<noteq> src) xs @ tl (dropWhile (\<lambda>am. srcMsg (snd am) \<noteq> src) xs)) \<and>
        dom h1 = dom h - {a}"
proof -
  let ?us = "takeWhile (\<lambda>am. srcMsg (snd am) \<noteq> src) xs" and ?vs = "tl (dropWhile (\<lambda>am. srcMsg (snd am) \<noteq> src) xs)"
  have s: "xs = ?us @ (a, m) # ?vs" using find_split[OF assms(2)] by simp
  then have Q: "qlist h q (?us @ (a, m) # ?vs)" using assms(1) by simp
  from qlist_suffix[OF this] obtain l where a: "a \<noteq> 0" "h a = Some \<lparr>item = m, link = l\<rparr>" by auto
  have g: "getTransMsgbySrcType q src h = Some a"
    using find_node_qlist[OF assms(1), of "\<lambda>m. srcMsg m = src"] assms(2) by (simp add: getTransMsgbySrcType_def checkHomeMsgType_def)
  show "call m w = None \<Longrightarrow> doTransMsgAct call src q h w = None"
    using a g by (simp add: doTransMsgAct_def checkHomeMsgType_def node_at_def)
  obtain q1 h1 where "delEhTransMsgFromQueue (Some q) a h = Some (TCMRET_SUCCESS, Some q1, h1)" "qlist h1 q1 (?us @ ?vs)"
    "dom h1 = dom h - {a}" using delete_entry[OF Q] by blast
  then show "\<exists>q1 h1. doTransMsgAct call src q h w =
          Some (if ret = 0 then TCMRET_SUCCESS else TCMRET_FAILURE, q1, h1, w1) \<and>
        qlist h1 q1 (?us @ ?vs) \<and> dom h1 = dom h - {a}" if "call m w = Some (ret, w1)"
    using a g that by (simp add: doTransMsgAct_def checkHomeMsgType_def node_at_def)
qed

text \<open>
  The answer of a phone goes to the first waiting entry for its type, and that entry is taken out whether
  or not the answer could be sent on; without an entry nothing changes.
\<close>
lemma doTransMsgAct_first:
  assumes "qlist h q xs" and "\<And>m w. call m w = Some (result m w, after m w)"
  shows "case find (\<lambda>am. srcMsg (snd am) = src) xs of
      None \<Rightarrow> doTransMsgAct call src q h w = Some (TCMRET_FAILURE, q, h, w)
    | Some (a, m) \<Rightarrow> \<exists>q1 h1. doTransMsgAct call src q h w =
          Some (if result m w = 0 then TCMRET_SUCCESS else TCMRET_FAILURE, q1, h1, after m w) \<and>
        qlist h1 q1 (takeWhile (\<lambda>am. srcMsg (snd am) \<noteq> src) xs @ tl (dropWhile (\<lambda>am. srcMsg (snd am) \<noteq> src) xs)) \<and>
        dom h1 = dom h - {a}"
proof (cases "find (\<lambda>am. srcMsg (snd am) = src) xs")
  case None
  then show ?thesis
    using find_node_qlist[OF assms(1), of "\<lambda>m. srcMsg m = src"]
    by (simp add: doTransMsgAct_def getTransMsgbySrcType_def checkHomeMsgType_def)
next
  case (Some am)
  then show ?thesis using doTransMsgAct_found(2)[where call = call, OF assms(1) _ assms(2), of src "fst am" "snd am" w] by (cases am) simp
qed

lemma doTransMsgAct_first_witness:
  "\<exists>q1 h1. doTransMsgAct (\<lambda>m w. Some (0, w + trans_connfd m)) 0x5082 1 (chain_at 1 [demo_entry 3 7, demo_entry 0x5082 8]) 100 =
      Some (TCMRET_SUCCESS, q1, h1, 108 :: int)"
proof -
  have "qlist (chain_at 1 [demo_entry 3 7, demo_entry 0x5082 8]) 1 [(1, demo_entry 3 7), (2, demo_entry 0x5082 8)]" by simp
  from doTransMsgAct_first[OF this, where result = "\<lambda>m w. 0" and after = "\<lambda>m w. w + trans_connfd m" and call = "\<lambda>m w. Some (0, w + trans_connfd m)" and src = "0x5082" and w = "100 :: int"]
  show ?thesis by (auto simp: demo_entry_def)
qed

end
