(* ===== verification/Eh_Threads.thy ===== *)
theory Eh_Threads
  imports Eh_Queue_Props
begin

text \<open>
  The threads of the home gateway. The select thread (\<^verbatim>\<open>ehSslSocket.c\<close>) puts each message it admits into the queue and
  then raises \<^verbatim>\<open>remoteMsgReadyFlag\<close>; the message threads (\<^verbatim>\<open>ehMpc.c\<close>) wait for the flag, lower it, and then take the
  first message out. The queue and the flag have separate locks, so the four critical sections interleave freely.
  Both queues of the program are also shown to be queues in the sense of a common interface.
\<close>

section \<open>Queues as an interface\<close>

datatype 'm queue_op = Put 'm | Get

text \<open>What a client sees: the elements it got, in order, \<open>None\<close> for an empty queue.\<close>

fun queue_run :: "('m \<Rightarrow> 's \<Rightarrow> 's run) \<Rightarrow> ('s \<Rightarrow> ('m option \<times> 's) run) \<Rightarrow> 'm queue_op list \<Rightarrow> 's \<Rightarrow> ('m option list \<times> 's) run" where
  "queue_run put get [] s = Some ([], s)"
| "queue_run put get (Put m # ops) s = do { s1 \<leftarrow> put m s; queue_run put get ops s1 }"
| "queue_run put get (Get # ops) s = do { (r, s1) \<leftarrow> get s; (rs, s2) \<leftarrow> queue_run put get ops s1; Some (r # rs, s2) }"

fun list_run :: "'m queue_op list \<Rightarrow> 'm list \<Rightarrow> 'm option list \<times> 'm list" where
  "list_run [] ms = ([], ms)"
| "list_run (Put m # ops) ms = list_run ops (ms @ [m])"
| "list_run (Get # ops) [] = (case list_run ops [] of (rs, ms) \<Rightarrow> (None # rs, ms))"
| "list_run (Get # ops) (m # ms) = (case list_run ops ms of (rs, ms1) \<Rightarrow> (Some m # rs, ms1))"

fun op_ok :: "('m \<Rightarrow> bool) \<Rightarrow> 'm queue_op \<Rightarrow> bool" where
  "op_ok ok (Put m) \<longleftrightarrow> ok m"
| "op_ok ok Get \<longleftrightarrow> True"

locale fifo =
  fixes rep :: "'s \<Rightarrow> 'm list \<Rightarrow> bool"
    and put :: "'m \<Rightarrow> 's \<Rightarrow> 's run"
    and get :: "'s \<Rightarrow> ('m option \<times> 's) run"
    and ok :: "'m \<Rightarrow> bool"
  assumes put_last: "rep s ms \<Longrightarrow> ok m \<Longrightarrow> \<exists>s1. put m s = Some s1 \<and> rep s1 (ms @ [m])"
    and get_first: "rep s (m # ms) \<Longrightarrow> \<exists>s1. get s = Some (Some m, s1) \<and> rep s1 ms"
    and get_empty: "rep s [] \<Longrightarrow> \<exists>s1. get s = Some (None, s1) \<and> rep s1 []"
begin

lemma run_refines:
  "rep s ms \<Longrightarrow> list_all (op_ok ok) ops \<Longrightarrow>
    \<exists>s1. queue_run put get ops s = Some (fst (list_run ops ms), s1) \<and> rep s1 (snd (list_run ops ms))"
proof (induction ops ms arbitrary: s rule: list_run.induct)
  case (2 m ops ms)
  from put_last[OF "2.prems"(1)] "2.prems"(2) obtain s1 where "put m s = Some s1" "rep s1 (ms @ [m])" by auto
  then show ?case using "2.IH" "2.prems"(2) by auto
next
  case (3 ops)
  from get_empty[OF "3.prems"(1)] obtain s1 where "get s = Some (None, s1)" "rep s1 []" by auto
  then show ?case using "3.IH"[of s1] "3.prems"(2) by (auto split: prod.splits)
next
  case (4 ops m ms)
  from get_first[OF "4.prems"(1)] obtain s1 where "get s = Some (Some m, s1)" "rep s1 ms" by auto
  then show ?case using "4.IH"[of s1] "4.prems"(2) by (auto split: prod.splits)
qed auto

text \<open>What comes out are the first of the elements that were in and went in, in order.\<close>

lemma run_in_order:
  assumes "rep s ms" and "list_all (op_ok ok) ops"
  shows "\<exists>rs s1 left. queue_run put get ops s = Some (rs, s1) \<and> rep s1 left \<and>
    map the (filter (\<lambda>r. r \<noteq> None) rs) @ left = ms @ concat (map (\<lambda>op. case op of Put m \<Rightarrow> [m] | Get \<Rightarrow> []) ops)"
proof -
  have "map the (filter (\<lambda>r. r \<noteq> None) (fst (list_run ops ms))) @ snd (list_run ops ms)
      = ms @ concat (map (\<lambda>op. case op of Put m \<Rightarrow> [m] | Get \<Rightarrow> []) ops)"
    by (induction ops ms rule: list_run.induct) (auto split: prod.splits)
  then show ?thesis using run_refines[OF assms] by blast
qed

end

section \<open>Taking a message\<close>

text \<open>What a message thread does with the queue locked.\<close>

definition take_message ::
    "'w kernel \<Rightarrow> nat \<Rightarrow> homeMsgCtrlBlock nodes \<Rightarrow> 'w \<Rightarrow> (homeMsgCtrlBlock option \<times> nat \<times> homeMsgCtrlBlock nodes \<times> 'w) run" where
  "take_message K queue h w =
     do { b \<leftarrow> (if queue = 0 then Some None else map_option (\<lambda>n. Some (item n)) (node_at h queue));
          (c, w1) \<leftarrow> cloneEhMsg K b w;
          case c of None \<Rightarrow> Some (None, queue, h, w1)
          | Some m \<Rightarrow> do {
              (r, q, h1) \<leftarrow> deleteEhMsgFromQueueBySeqID (Some queue) (sequenceID m) h;
              q1 \<leftarrow> q;
              Some (Some m, q1, h1, w1) } }"

text \<open>What the select thread puts into the queue: blocks made from messages that passed the check.\<close>

definition block_ok :: "homeMsgCtrlBlock \<Rightarrow> bool" where
  "block_ok m \<longleftrightarrow> protocolVersion (msg m) = HOME_MSG_PROTOCOL_VERSION \<and> payloadLen (msg m) = 4 + valueLen (msg m) \<and>
     copy_reserve (msg_reserve (msg m)) = Some (msg_reserve (msg m)) \<and> length (msg_value m) = unat (valueLen (msg m))"

lemma copy_reserve_again: "copy_reserve r = Some x \<Longrightarrow> copy_reserve x = Some x"
proof -
  assume "copy_reserve r = Some x"
  then have x: "x = pad 16 (cstr r)" "length (cstr r) < 16" by (auto simp: copy_reserve_def split: if_splits)
  have "cstr x = cstr r" using cstr_pad_append[OF cstr_no_NUL, of 16 r "[]"] x by simp
  then show ?thesis using x length_cstr_terminated[of x] by (simp add: copy_reserve_def)
qed

lemma converted_ok:
  assumes "convertHomeMsgToCtrlBlock K big (Some b) fd s q w = Some (TCMRET_SUCCESS, Some cb, q1, w1)"
    and "checkHomeMsg big (Some b) = Some TCMRET_SUCCESS"
  shows "block_ok cb"
proof -
  from assms(1) obtain ver et n where g: "getMsgProtocolVersion big b = Some ver" "getMsgEventType big b = Some et"
    "getMsgValueLen big b = Some n"
    "createHomeMsgBlock K ver (Some (drop OFF_SET_RESERVE b)) et n (Some (drop OFF_SET_VALUE b)) fd s q w = Some (Some cb, q1, w1)"
    by (auto simp: convertHomeMsgToCtrlBlock_def run_simps split: prod.splits if_splits)
  have "ver = HOME_MSG_PROTOCOL_VERSION"
    using assms(2) g by (auto simp: checkHomeMsg_def run_simps split: if_splits)
  moreover have "length v = unat n" if "get_bytes 0 (unat n) z = Some v" for v z
    using that by (auto simp: get_bytes_def split: if_splits)
  ultimately show ?thesis
    using g(4) by (auto simp: createHomeMsgBlock_def checkHomeMsgType_def block_ok_def run_simps dest: copy_reserve_again split: prod.splits if_splits)
qed

lemma clone_ok:
  assumes "block_ok m" and "k_alloc K w = (True, w1)"
  shows "cloneEhMsg K (Some m) w = Some (Some m, w1)"
proof -
  have "get_bytes 0 (unat (valueLen (msg m))) (msg_value m) = Some (msg_value m)"
    using assms(1) by (simp add: block_ok_def get_bytes_def)
  moreover have "\<lparr>sequenceID = sequenceID m, msg = \<lparr>protocolVersion = protocolVersion (msg m), payloadLen = payloadLen (msg m),
      msg_reserve = msg_reserve (msg m), eventType = eventType (msg m), valueLen = valueLen (msg m)\<rparr>,
      connfd = connfd m, ssl = ssl m, msg_value = msg_value m\<rparr> = m" by simp
  ultimately show ?thesis using assms by (simp add: cloneEhMsg_def checkHomeMsgType_def block_ok_def)
qed

lemma take_first:
  assumes "qlist h q ((a, m) # xs)" and "block_ok m" and "k_alloc K w = (True, w1)"
  shows "\<exists>q1. take_message K q h w = Some (Some m, q1, h(a := None), w1) \<and> qlist (h(a := None)) q1 xs"
proof -
  from assms(1) have "q \<noteq> 0" "node_at h q = Some (the (h a))" "item (the (h a)) = m" by (auto simp: node_at_def)
  then show ?thesis using delete_head[OF assms(1)] clone_ok[OF assms(2,3)] by (auto simp: take_message_def)
qed

lemma take_empty: "take_message K 0 h w = Some (None, 0, h, w)"
  by (simp add: take_message_def cloneEhMsg_def)

section \<open>The two queues\<close>

text \<open>The queue of messages with its memory: every block is new and there is memory for the copies.\<close>

type_synonym 'w eh_queue = "nat \<times> homeMsgCtrlBlock nodes \<times> 'w"

definition queue_put :: "(homeMsgCtrlBlock nodes \<Rightarrow> nat) \<Rightarrow> homeMsgCtrlBlock \<Rightarrow> 'w eh_queue \<Rightarrow> 'w eh_queue run" where
  "queue_put fresh m s = (case s of (q, h, w) \<Rightarrow>
     do { (r, q1, h1) \<leftarrow> putEhMsgToQueue q (fresh h) (h(fresh h \<mapsto> \<lparr>item = m, link = 0\<rparr>)); Some (q1, h1, w) })"

definition queue_get :: "'w kernel \<Rightarrow> 'w eh_queue \<Rightarrow> (homeMsgCtrlBlock option \<times> 'w eh_queue) run" where
  "queue_get K s = (case s of (q, h, w) \<Rightarrow> do { (m, q1, h1, w1) \<leftarrow> take_message K q h w; Some (m, q1, h1, w1) })"

definition new_blocks :: "('a nodes \<Rightarrow> nat) \<Rightarrow> bool" where
  "new_blocks fresh \<longleftrightarrow> (\<forall>h. finite (dom h) \<longrightarrow> fresh h \<noteq> 0 \<and> fresh h \<notin> dom h)"

definition queue_rep :: "(homeMsgCtrlBlock nodes \<Rightarrow> nat) \<Rightarrow> 'w kernel \<Rightarrow> 'w eh_queue \<Rightarrow> homeMsgCtrlBlock list \<Rightarrow> bool" where
  "queue_rep fresh K s ms \<longleftrightarrow> (case s of (q, h, w) \<Rightarrow>
     new_blocks fresh \<and> (\<forall>w. fst (k_alloc K w)) \<and> finite (dom h) \<and>
     (\<exists>xs. qlist h q xs \<and> map snd xs = ms \<and> (\<forall>m \<in> set ms. block_ok m)))"

lemma qlist_dom: "qlist h q xs \<Longrightarrow> addrs xs \<subseteq> dom h"
  by (induction h q xs rule: qlist.induct) auto

lemma qlist_put:
  assumes "qlist h q xs" and "a \<noteq> 0" and "a \<notin> dom h"
  shows "\<exists>q1 h1. putEhMsgToQueue q a (h(a \<mapsto> \<lparr>item = m, link = 0\<rparr>)) = Some (TCMRET_SUCCESS, q1, h1) \<and>
    qlist h1 q1 (xs @ [(a, m)]) \<and> dom h1 = insert a (dom h)"
proof -
  have n: "a \<notin> addrs xs" using qlist_dom[OF assms(1)] assms(3) by blast
  then have "qlist (h(a \<mapsto> \<lparr>item = m, link = 0\<rparr>)) q xs" by (intro qlist_frame[OF assms(1)]) auto
  from putEhMsg_qlist[OF this _ assms(2) n] show ?thesis by auto
qed

interpretation messages: fifo "queue_rep fresh K" "queue_put fresh" "queue_get K" block_ok
  for fresh :: "homeMsgCtrlBlock nodes \<Rightarrow> nat" and K :: "'w kernel"
proof
  fix s :: "'w eh_queue" and ms m
  obtain q h w where s: "s = (q, h, w)" by (cases s) auto
  {
    assume r: "queue_rep fresh K s ms" and m: "block_ok m"
    then obtain xs where xs: "qlist h q xs" "map snd xs = ms" by (auto simp: queue_rep_def s)
    have a: "fresh h \<noteq> 0" "fresh h \<notin> dom h" using r by (auto simp: queue_rep_def new_blocks_def s)
    from qlist_put[OF xs(1) a, of m] show "\<exists>s1. queue_put fresh m s = Some s1 \<and> queue_rep fresh K s1 (ms @ [m])"
      using r m xs(2) by (fastforce simp: queue_put_def queue_rep_def s)
  }
  {
    assume r: "queue_rep fresh K s (m # ms)"
    then obtain a xs where xs: "qlist h q ((a, m) # xs)" "map snd xs = ms" by (fastforce simp: queue_rep_def s)
    obtain w1 where w1: "k_alloc K w = (True, w1)" using r by (auto simp: queue_rep_def s) (metis prod.collapse)
    have "block_ok m" using r by (auto simp: queue_rep_def s)
    from take_first[OF xs(1) this w1] show "\<exists>s1. queue_get K s = Some (Some m, s1) \<and> queue_rep fresh K s1 ms"
      using r xs(2) by (fastforce simp: queue_get_def queue_rep_def s)
  }
  {
    assume r: "queue_rep fresh K s []"
    then have "q = 0" by (auto simp: queue_rep_def s)
    then show "\<exists>s1. queue_get K s = Some (None, s1) \<and> queue_rep fresh K s1 []"
      using r by (auto simp: queue_get_def take_empty s)
  }
qed

text \<open>The waiting answers for messages of type \<open>src\<close>: what goes out is the entry the answer is handed to.\<close>

definition trans_put ::
    "('f EhTransMsgMap nodes \<Rightarrow> nat) \<Rightarrow> 'f EhTransMsgMap \<Rightarrow> nat \<times> 'f EhTransMsgMap nodes \<Rightarrow> (nat \<times> 'f EhTransMsgMap nodes) run" where
  "trans_put fresh m s = (case s of (q, h) \<Rightarrow>
     do { (r, q1, h1) \<leftarrow> installTransMsgMap fresh (srcMsg m) (mapMsg m) (trans_connfd m) (trans_ssl m) (Some (actFun m)) q h;
          if r = TCMRET_SUCCESS then Some (q1, h1) else None })"

definition trans_get ::
    "16 word \<Rightarrow> nat \<times> 'f EhTransMsgMap nodes \<Rightarrow> ('f EhTransMsgMap option \<times> nat \<times> 'f EhTransMsgMap nodes) run" where
  "trans_get src s = (case s of (q, h) \<Rightarrow>
     do { (r, q1, h1, called) \<leftarrow> doTransMsgAct (\<lambda>m c. Some (0, Some m)) src q h None; Some (called, q1, h1) })"

definition trans_rep ::
    "('f EhTransMsgMap nodes \<Rightarrow> nat) \<Rightarrow> 16 word \<Rightarrow> nat \<times> 'f EhTransMsgMap nodes \<Rightarrow> 'f EhTransMsgMap list \<Rightarrow> bool" where
  "trans_rep fresh src s ms \<longleftrightarrow> (case s of (q, h) \<Rightarrow>
     new_blocks fresh \<and> finite (dom h) \<and> (\<exists>xs. qlist h q xs \<and> map snd xs = ms \<and> (\<forall>m \<in> set ms. srcMsg m = src)))"

lemma install_entry:
  assumes "qlist h q xs" and "fresh h \<noteq> 0" and "fresh h \<notin> dom h" and "1 \<le> trans_connfd m"
  shows "\<exists>q1 h1. installTransMsgMap fresh (srcMsg m) (mapMsg m) (trans_connfd m) (trans_ssl m) (Some (actFun m)) q h =
      Some (TCMRET_SUCCESS, q1, h1) \<and> qlist h1 q1 (xs @ [(fresh h, m)]) \<and> dom h1 = insert (fresh h) (dom h)"
proof -
  let ?h = "h(fresh h \<mapsto> \<lparr>item = m, link = 0\<rparr>)"
  have n: "fresh h \<notin> addrs xs" using qlist_dom[OF assms(1)] assms(3) by blast
  then have "qlist ?h q xs" by (intro qlist_frame[OF assms(1)]) auto
  from append_node_qlist[OF this _ assms(2) n] obtain q1 h1 where
    "append_node q (fresh h) ?h = Some (q1, h1)" "qlist h1 q1 (xs @ [(fresh h, m)])" "dom h1 = insert (fresh h) (dom h)" by auto
  then show ?thesis
    using assms(2,4) by (cases m) (auto simp add: installTransMsgMap_def createEhTransMsgMap_def checkHomeMsgType_def putEhTransMsgToQueue_def)
qed

interpretation answers: fifo "trans_rep fresh src" "trans_put fresh" "trans_get src" "\<lambda>m. srcMsg m = src \<and> 1 \<le> trans_connfd m"
  for fresh :: "'f EhTransMsgMap nodes \<Rightarrow> nat" and src
proof
  fix s :: "nat \<times> 'f EhTransMsgMap nodes" and ms and m :: "'f EhTransMsgMap"
  obtain q h where s: "s = (q, h)" by (cases s) auto
  note first = doTransMsgAct_first[where call = "\<lambda>m c. Some (0, Some m)" and result = "\<lambda>m c. 0" and after = "\<lambda>m c. Some m"
      and src = src and w = None, OF _ refl]
  {
    assume r: "trans_rep fresh src s ms" and m: "srcMsg m = src \<and> 1 \<le> trans_connfd m"
    then obtain xs where xs: "qlist h q xs" "map snd xs = ms" by (auto simp: trans_rep_def s)
    have a: "fresh h \<noteq> 0" "fresh h \<notin> dom h" using r by (auto simp: trans_rep_def new_blocks_def s)
    from install_entry[of h q xs fresh m, OF xs(1) a(1) a(2)] show "\<exists>s1. trans_put fresh m s = Some s1 \<and> trans_rep fresh src s1 (ms @ [m])"
      using r m xs(2) by (fastforce simp: trans_put_def trans_rep_def s)
  }
  {
    assume r: "trans_rep fresh src s (m # ms)"
    then obtain a xs where xs: "qlist h q ((a, m) # xs)" "map snd xs = ms" "srcMsg m = src" by (fastforce simp: trans_rep_def s)
    from first[OF xs(1)] show "\<exists>s1. trans_get src s = Some (Some m, s1) \<and> trans_rep fresh src s1 ms"
      using r xs(2,3) by (fastforce simp: trans_get_def trans_rep_def s)
  }
  {
    assume r: "trans_rep fresh src s []"
    then have "qlist h q []" by (auto simp: trans_rep_def s)
    from first[OF this] show "\<exists>s1. trans_get src s = Some (None, s1) \<and> trans_rep fresh src s1 []"
      using r by (auto simp: trans_get_def s)
  }
qed

section \<open>All interleavings\<close>

text \<open>
  \<open>th_put\<close> is whether the select thread has put a message and not raised the flag yet, \<open>th_awake\<close> the number of message
  threads that have lowered it and not taken a message yet; \<open>received\<close> and \<open>handled\<close> are what went in and what came out.
\<close>

record 'w eh_threads =
  th_queue :: nat
  th_blocks :: "homeMsgCtrlBlock nodes"
  th_put :: bool
  remoteMsgReadyFlag :: int
  th_awake :: nat
  received :: "homeMsgCtrlBlock list"
  handled :: "homeMsgCtrlBlock list"
  th_world :: 'w

inductive thread_step :: "'w kernel \<Rightarrow> 'w eh_threads \<Rightarrow> 'w eh_threads \<Rightarrow> bool" for K where
  put_message: "\<not> th_put s \<Longrightarrow> block_ok m \<Longrightarrow> a \<noteq> 0 \<Longrightarrow> a \<notin> dom (th_blocks s) \<Longrightarrow>
    putEhMsgToQueue (th_queue s) a ((th_blocks s)(a \<mapsto> \<lparr>item = m, link = 0\<rparr>)) = Some (r, q, h) \<Longrightarrow>
    thread_step K s (s\<lparr>th_queue := q, th_blocks := h, th_put := (r = TCMRET_SUCCESS), received := received s @ [m]\<rparr>)"
| raise_flag: "th_put s \<Longrightarrow> thread_step K s (s\<lparr>th_put := False, remoteMsgReadyFlag := remoteMsgReadyFlag s + 1\<rparr>)"
| lower_flag: "remoteMsgReadyFlag s \<noteq> 0 \<Longrightarrow>
    thread_step K s (s\<lparr>remoteMsgReadyFlag := remoteMsgReadyFlag s - 1, th_awake := Suc (th_awake s)\<rparr>)"
| take: "th_awake s = Suc n \<Longrightarrow> take_message K (th_queue s) (th_blocks s) (th_world s) = Some (m, q, h, w) \<Longrightarrow>
    thread_step K s (s\<lparr>th_queue := q, th_blocks := h, th_awake := n, th_world := w,
      handled := handled s @ (case m of None \<Rightarrow> [] | Some b \<Rightarrow> [b])\<rparr>)"

definition threads_start :: "'w \<Rightarrow> 'w eh_threads" where
  "threads_start w = \<lparr>th_queue = 0, th_blocks = Map.empty, th_put = False, remoteMsgReadyFlag = 0, th_awake = 0,
     received = [], handled = [], th_world = w\<rparr>"

inductive thread_reach :: "'w kernel \<Rightarrow> 'w \<Rightarrow> 'w eh_threads \<Rightarrow> bool" for K w0 where
  start: "thread_reach K w0 (threads_start w0)"
| step: "thread_reach K w0 s \<Longrightarrow> thread_step K s t \<Longrightarrow> thread_reach K w0 t"

inductive_simps take_steps: "thread_step K s t"

definition threads_inv :: "'w eh_threads \<Rightarrow> bool" where
  "threads_inv s \<longleftrightarrow> (\<exists>xs. qlist (th_blocks s) (th_queue s) xs \<and> (\<forall>m \<in> set (map snd xs). block_ok m) \<and>
     received s = handled s @ map snd xs \<and> 0 \<le> remoteMsgReadyFlag s \<and>
     int (length xs) = remoteMsgReadyFlag s + int (th_awake s) + of_bool (th_put s))"

lemma threads_step_inv:
  assumes "\<And>w. fst (k_alloc K w)" and "threads_inv s" and "thread_step K s t"
  shows "threads_inv t"
  using assms(3)
proof cases
  case (put_message m a r q h)
  from assms(2) obtain xs where xs: "qlist (th_blocks s) (th_queue s) xs" "\<forall>m \<in> set (map snd xs). block_ok m"
     "received s = handled s @ map snd xs" "0 \<le> remoteMsgReadyFlag s"
     "int (length xs) = remoteMsgReadyFlag s + int (th_awake s) + of_bool (th_put s)" unfolding threads_inv_def by blast
  from qlist_put[OF xs(1) put_message(4,5), of m] put_message(6) have
    "r = TCMRET_SUCCESS" "qlist h q (xs @ [(a, m)])" by auto
  then show ?thesis using xs put_message unfolding threads_inv_def
    by (intro exI[of _ "xs @ [(a, m)]"]) auto
next
  case raise_flag
  then show ?thesis using assms(2) unfolding threads_inv_def by fastforce
next
  case lower_flag
  then show ?thesis using assms(2) unfolding threads_inv_def by fastforce
next
  case (take n m q h w)
  from assms(2) obtain xs where xs: "qlist (th_blocks s) (th_queue s) xs" "\<forall>m \<in> set (map snd xs). block_ok m"
     "received s = handled s @ map snd xs" "0 \<le> remoteMsgReadyFlag s"
     "int (length xs) = remoteMsgReadyFlag s + int (th_awake s) + of_bool (th_put s)" unfolding threads_inv_def by blast
  have "0 < length xs"
  proof -
    have "0 \<le> (of_bool (th_put s) :: int)" by simp
    then show ?thesis using xs(4,5) take(2) by linarith
  qed
  then obtain a b ys where ys: "xs = (a, b) # ys" by (cases xs) auto
  obtain w1 where w1: "k_alloc K (th_world s) = (True, w1)" using assms(1) by (metis (full_types) prod.collapse)
  have "qlist (th_blocks s) (th_queue s) ((a, b) # ys)" "block_ok b" using xs(1,2) ys by simp_all
  from take_first[OF this w1] take(3) have "m = Some b" "qlist h q ys" by auto
  then show ?thesis using xs ys take unfolding threads_inv_def by (intro exI[of _ ys]) auto
qed

lemma threads_reach_inv:
  assumes "thread_reach K w0 s" and "\<And>w. fst (k_alloc K w)"
  shows "threads_inv s"
  using assms(1)
proof induction
  case start
  then show ?case by (auto simp: threads_start_def threads_inv_def)
qed (rule threads_step_inv[OF assms(2)])

text \<open>C14. Whatever the interleaving of the select thread and the message threads: the messages that have been handled are
  the first ones received, in order and each once; the ones that are left are counted by the flag, the threads that are
  awake and the message that is not announced yet, so a thread that is awake always finds a message, the
  first that is left; and while one is left, some thread can go on with it.
\<close>
lemma threads_handle_in_order:
  assumes "thread_reach K w0 s" and "\<And>w. fst (k_alloc K w)"
  shows "\<exists>left. received s = handled s @ left \<and>
    int (length left) = remoteMsgReadyFlag s + int (th_awake s) + of_bool (th_put s) \<and> 0 \<le> remoteMsgReadyFlag s \<and>
    (0 < th_awake s \<longrightarrow> (\<exists>q h w. take_message K (th_queue s) (th_blocks s) (th_world s) = Some (Some (hd left), q, h, w))) \<and>
    (left \<noteq> [] \<longrightarrow> (\<exists>t. thread_step K s t \<and> received t = received s))"
proof -
  from threads_reach_inv[OF assms] obtain xs where xs: "qlist (th_blocks s) (th_queue s) xs" "\<forall>m \<in> set (map snd xs). block_ok m"
     "received s = handled s @ map snd xs" "0 \<le> remoteMsgReadyFlag s"
     "int (length xs) = remoteMsgReadyFlag s + int (th_awake s) + of_bool (th_put s)" unfolding threads_inv_def by blast
  obtain w1 where w1: "k_alloc K (th_world s) = (True, w1)" using assms(2) by (metis (full_types) prod.collapse)
  have take: "\<exists>q h w. take_message K (th_queue s) (th_blocks s) (th_world s) = Some (Some (hd (map snd xs)), q, h, w)" if ne: "xs \<noteq> []"
  proof -
    obtain a b ys where ys: "xs = (a, b) # ys" using ne by (cases xs) auto
    then have "qlist (th_blocks s) (th_queue s) ((a, b) # ys)" "block_ok b" using xs(1,2) by simp_all
    from take_first[OF this w1] show ?thesis using ys by auto
  qed
  have awake: "xs \<noteq> []" if "0 < th_awake s"
  proof -
    have "0 \<le> (of_bool (th_put s) :: int)" by simp
    then have "0 < int (length xs)" using xs(4,5) that by linarith
    then show ?thesis by auto
  qed
  have go: "\<exists>t. thread_step K s t \<and> received t = received s" if "xs \<noteq> []"
  proof -
    have "th_put s \<or> remoteMsgReadyFlag s \<noteq> 0 \<or> th_awake s \<noteq> 0"
    proof (rule ccontr)
      assume "\<not> (th_put s \<or> remoteMsgReadyFlag s \<noteq> 0 \<or> th_awake s \<noteq> 0)"
      then have "length xs = 0" using xs(5) by simp
      then show False using that by simp
    qed
    then consider "th_put s" | "remoteMsgReadyFlag s \<noteq> 0" | n where "th_awake s = Suc n" by (metis not0_implies_Suc)
    then show ?thesis
    proof cases
      case 1
      from thread_step.raise_flag[OF this] show ?thesis by fastforce
    next
      case 2
      from thread_step.lower_flag[OF this] show ?thesis by fastforce
    next
      case 3
      from take[OF that] obtain q h w where "take_message K (th_queue s) (th_blocks s) (th_world s) = Some (Some (hd (map snd xs)), q, h, w)" by blast
      from thread_step.take[OF 3 this] show ?thesis by fastforce
    qed
  qed
  show ?thesis
    by (rule exI[of _ "map snd xs"]) (use xs take awake go in auto)
qed

lemma threads_handle_in_order_witness:
  "\<exists>s :: nat eh_threads. thread_reach quiet_kernel 0 s \<and> received s = [demo_block 1 2 8] \<and>
    (\<exists>q h w. take_message quiet_kernel (th_queue s) (th_blocks s) (th_world s) = Some (Some (demo_block 1 2 8), q, h, w))"
proof -
  let ?K = "quiet_kernel :: nat kernel"
  let ?m = "demo_block 1 2 8"
  have ok: "block_ok ?m"
    by (simp add: block_ok_def demo_block_def HOME_MSG_PROTOCOL_VERSION_def copy_reserve_def terminated_def cstr_def pad_def numeral_eq_Suc)
  let ?s1 = "(threads_start 0 :: nat eh_threads)\<lparr>th_queue := 1, th_blocks := [1 \<mapsto> \<lparr>item = ?m, link = 0\<rparr>], th_put := True, received := [?m]\<rparr>"
  have p: "putEhMsgToQueue (th_queue (threads_start 0 :: nat eh_threads)) 1 ((th_blocks (threads_start 0 :: nat eh_threads))(1 \<mapsto> \<lparr>item = ?m, link = 0\<rparr>))
      = Some (TCMRET_SUCCESS, 1, [1 \<mapsto> \<lparr>item = ?m, link = 0\<rparr>])"
    by (simp add: threads_start_def putEhMsgToQueue_def append_node_def)
  have "thread_step ?K (threads_start 0) ?s1"
    using thread_step.put_message[OF _ ok _ _ p, of ?K] by (simp add: threads_start_def)
  from thread_reach.step[OF thread_reach.start this] have r1: "thread_reach ?K 0 ?s1" .
  from thread_reach.step[OF this thread_step.raise_flag] have
    r2: "thread_reach ?K 0 (?s1\<lparr>th_put := False, remoteMsgReadyFlag := 1\<rparr>)" by (simp add: threads_start_def)
  from thread_reach.step[OF this thread_step.lower_flag] have
    r3: "thread_reach ?K 0 (?s1\<lparr>th_put := False, remoteMsgReadyFlag := 0, th_awake := 1\<rparr>)" by (simp add: threads_start_def)
  have "\<And>w. fst (k_alloc ?K w)" by (simp add: quiet_kernel_def)
  from threads_handle_in_order[OF r3 this] show ?thesis
    by (intro exI[of _ "?s1\<lparr>th_put := False, remoteMsgReadyFlag := 0, th_awake := 1\<rparr>"] conjI r3) (auto simp: threads_start_def)
qed

text \<open>The answers for a type of message are handed to the phones that asked in the order in which they asked, whatever the
  order of questions and answers in between, and the phones that got none yet are still waiting.
\<close>
lemma answers_in_order:
  assumes "trans_rep fresh src s ms" and "list_all (op_ok (\<lambda>m. srcMsg m = src \<and> 1 \<le> trans_connfd m)) ops"
  shows "\<exists>rs s1 left. queue_run (trans_put fresh) (trans_get src) ops s = Some (rs, s1) \<and> trans_rep fresh src s1 left \<and>
    map the (filter (\<lambda>r. r \<noteq> None) rs) @ left = ms @ concat (map (\<lambda>op. case op of Put m \<Rightarrow> [m] | Get \<Rightarrow> []) ops)"
  by (rule answers.run_in_order[OF assms])

definition next_block :: "'a nodes \<Rightarrow> nat" where
  "next_block h = Suc (Max (insert 0 (dom h)))"

lemma new_next_block: "new_blocks next_block"
  unfolding new_blocks_def next_block_def
proof (intro allI impI conjI)
  fix h :: "'a nodes" assume f: "finite (dom h)"
  show "Suc (Max (insert 0 (dom h))) \<notin> dom h"
  proof
    assume "Suc (Max (insert 0 (dom h))) \<in> dom h"
    then have "Suc (Max (insert 0 (dom h))) \<le> Max (insert 0 (dom h))" using f by (intro Max_ge) auto
    then show False by simp
  qed
qed simp

lemma answers_in_order_witness:
  "\<exists>rs s1. queue_run (trans_put next_block) (trans_get 5) [Put (demo_entry 5 7), Put (demo_entry 5 8), Get] (0, Map.empty) = Some (rs, s1)"
proof -
  have "trans_rep next_block 5 (0, Map.empty) []" by (simp add: trans_rep_def new_next_block)
  from answers_in_order[OF this, of "[Put (demo_entry 5 7), Put (demo_entry 5 8), Get]"] show ?thesis
    by (auto simp: demo_entry_def)
qed

end
