(* ===== verification/Eh_Device.thy ===== *)
theory Eh_Device
  imports Act_Base Eh_Threads Capi
begin

text \<open>
  The devices of the home gateway: the connection of each (\<^verbatim>\<open>ehIndexDevice.c\<close>, an array), what the database says of it
  (\<^verbatim>\<open>ehDevice.c\<close> and the same file, through the functions of \<open>Capi\<close>), the accounts (\<^verbatim>\<open>ehAccount.c\<close>), and the
  sockets the select thread watches (\<^verbatim>\<open>ehSslSocket.c\<close>, built without \<^verbatim>\<open>SSL_CONNECT\<close>). \<open>'d\<close> is the state of the database.
\<close>

section \<open>State and environment\<close>

text \<open>
  The headers of the gateway's table of devices are not in the repository: its identifiers, the numbers of its
  columns, the number of rows, the conversions \<^verbatim>\<open>actDevice_*\<close> of types and states (\<open>None\<close> for a failure) and the numbers
  of the named ones are parameters, and so are the functions of the database (\<open>eh_capi\<close>). \<open>dev_stack\<close> is what a local array holds before it is written.
\<close>

record 'd eh_env =
  eh_capi :: "'d capi"
  MAXTABLE_DEVICES :: nat
  id_unit_info :: int
  tab_para_end :: nat
  tab_name :: nat
  tab_type :: nat
  tab_subtype :: nat
  tab_account :: nat
  tab_password :: nat
  tab_state :: nat
  tab_failures :: nat
  tab_mac :: nat
  tab_ip :: nat
  getTypeID :: "string \<Rightarrow> int"
  getSubTypeID :: "string \<Rightarrow> int"
  getStatusID :: "string \<Rightarrow> int"
  getStatusString :: "int \<Rightarrow> string option"
  getSubTypeString :: "int \<Rightarrow> string option"
  device_odp :: int
  odp_front :: int
  odp_back :: int
  status_connected :: int
  status_disconnected :: int
  status_pairing :: int
  phoneNumberExists :: "'d \<Rightarrow> string \<Rightarrow> bool"
  dev_stack :: string

text \<open>The array \<^verbatim>\<open>g_devArray\<close> holds for each device its socket, \<open>-1\<close> for none, and its SSL pointer.\<close>

record 'd eh_dev =
  dev_conf :: 'd
  g_devArray :: "(int \<times> nat) list"
  readFdsMaster :: "int set"
  gehMaxFd :: int
  gehServerFd :: int
  closed_fds :: "int list"

definition ZERO_FD :: int where "ZERO_FD = - 1"
definition ZERO_SSL :: nat where "ZERO_SSL = 0"
definition INVALID_DEVICE_INDEX :: int where "INVALID_DEVICE_INDEX = - 1"

section \<open>Sockets (\<^verbatim>\<open>ehSslSocket.c\<close>)\<close>

text \<open>The macros of \<^verbatim>\<open>fd_set\<close> are defined for 1024 descriptors.\<close>

definition fd_ok :: "int \<Rightarrow> bool" where
  "fd_ok fd \<longleftrightarrow> 0 \<le> fd \<and> fd < 1024"

text \<open>A new connection is watched, and the one that is dropped is not.\<close>

definition watch_fd :: "int \<Rightarrow> 'd eh_dev \<Rightarrow> 'd eh_dev run" where
  "watch_fd fd s =
     (if \<not> fd_ok fd then None
      else Some (s\<lparr>readFdsMaster := insert fd (readFdsMaster s), gehMaxFd := (if fd > gehMaxFd s then fd else gehMaxFd s)\<rparr>))"

definition drop_fd :: "int \<Rightarrow> 'd eh_dev \<Rightarrow> 'd eh_dev run" where
  "drop_fd fd s =
     (if \<not> fd_ok fd then None
      else Some (s\<lparr>readFdsMaster := readFdsMaster s - {fd}, closed_fds := closed_fds s @ [fd],
                   gehMaxFd := (if fd = gehMaxFd s then gehMaxFd s - 1 else gehMaxFd s)\<rparr>))"

text \<open>The sockets the next round of the loop looks at: \<^verbatim>\<open>select\<close> and the loop behind it go up to \<^verbatim>\<open>gehMaxFd\<close>.\<close>

definition selected :: "'d eh_dev \<Rightarrow> int set" where
  "selected s = {fd \<in> readFdsMaster s. 0 \<le> fd \<and> fd < gehMaxFd s + 1}"

section \<open>Connections (\<^verbatim>\<open>ehIndexDevice.c\<close>)\<close>

definition getEhMaxFd :: "'d eh_dev \<Rightarrow> int" where
  "getEhMaxFd s = fold (\<lambda>c m. if fst c \<noteq> ZERO_FD then (if m > fst c then m else fst c) else m) (g_devArray s) (gehServerFd s)"

definition zeroIndexDevice :: "'d eh_env \<Rightarrow> int \<Rightarrow> 'd eh_dev \<Rightarrow> (tcmRet \<times> 'd eh_dev) run" where
  "zeroIndexDevice E devIndex s =
     (if devIndex < 1 \<or> devIndex > int (MAXTABLE_DEVICES E) then Some (TCMRET_INVALID_ARGUMENTS, s)
      else if length (g_devArray s) < nat devIndex then None
      else do {
        let i = nat (devIndex - 1);
        let fd = fst (g_devArray s ! i);
        s1 \<leftarrow> (if fd = ZERO_FD then Some s
               else if \<not> fd_ok fd then None
               else Some (s\<lparr>readFdsMaster := readFdsMaster s - {fd}, closed_fds := closed_fds s @ [fd]\<rparr>));
        let s2 = s1\<lparr>g_devArray := (g_devArray s1)[i := (ZERO_FD, ZERO_SSL)]\<rparr>;
        Some (TCMRET_SUCCESS, s2\<lparr>gehMaxFd := getEhMaxFd s2\<rparr>) })"

fun index_from :: "('a \<Rightarrow> bool) \<Rightarrow> int \<Rightarrow> 'a list \<Rightarrow> int" where
  "index_from P i [] = INVALID_DEVICE_INDEX"
| "index_from P i (c # cs) = (if P c then i + 1 else index_from P (i + 1) cs)"

definition getDeviceIndexByFd :: "int \<Rightarrow> 'd eh_dev \<Rightarrow> int" where
  "getDeviceIndexByFd fd s = index_from (\<lambda>c. fst c = fd) 0 (g_devArray s)"

text \<open>Reading one column of a device into a local array.\<close>

definition value_buf :: "'d eh_env \<Rightarrow> buf" where
  "value_buf E = take (MAX_VALUE_LEN + 1) (dev_stack E @ replicate (MAX_VALUE_LEN + 1) NUL)"

definition read_column :: "'d eh_env \<Rightarrow> 'd \<Rightarrow> int \<Rightarrow> nat \<Rightarrow> string option run" where
  "read_column E c row column =
     do { (r, b) \<leftarrow> capi_read_table_parameter (eh_capi E) c (id_unit_info E) row (int column) (Some (value_buf E));
          if r \<noteq> 0 then Some None else do { x \<leftarrow> b; t \<leftarrow> str_of x; Some (Some t) } }"

fun device_with :: "'d eh_env \<Rightarrow> 'd \<Rightarrow> nat \<Rightarrow> string \<Rightarrow> int list \<Rightarrow> int run" where
  "device_with E c column val [] = Some INVALID_DEVICE_INDEX"
| "device_with E c column val (i # is) =
     do { v \<leftarrow> read_column E c (i + 1) column;
          case v of Some t \<Rightarrow> if strcasecmp_eq t val then Some (i + 1) else device_with E c column val is
                  | None \<Rightarrow> device_with E c column val is }"

definition device_indices :: "'d eh_env \<Rightarrow> int list" where
  "device_indices E = map int [0..<MAXTABLE_DEVICES E]"

definition getDeviceIndexByMac :: "'d eh_env \<Rightarrow> string option \<Rightarrow> 'd eh_dev \<Rightarrow> int run" where
  "getDeviceIndexByMac E arMac s =
     (case arMac of None \<Rightarrow> Some INVALID_DEVICE_INDEX
      | Some m \<Rightarrow> device_with E (dev_conf s) (tab_mac E) m (device_indices E))"

definition getDeviceIndexByNumber :: "'d eh_env \<Rightarrow> string option \<Rightarrow> 'd eh_dev \<Rightarrow> int run" where
  "getDeviceIndexByNumber E num s =
     (case num of None \<Rightarrow> Some INVALID_DEVICE_INDEX
      | Some n \<Rightarrow> device_with E (dev_conf s) (tab_account E) n (device_indices E))"

section \<open>Devices (\<^verbatim>\<open>ehDevice.c\<close>)\<close>

record DeviceInfo =
  mac :: string
  ip :: string
  dev_type :: int
  subType :: int
  dev_status :: int
  desc :: string
  userName :: string
  passWord :: string
  pairFailedTimes :: int
  dev_connfd :: int
  dev_ssl :: nat

definition LEN_OF_MAC :: nat where "LEN_OF_MAC = 18"
definition MAX_LEN_IP :: nat where "MAX_LEN_IP = 16"
definition MAX_LEN_DEVICE_DESC :: nat where "MAX_LEN_DEVICE_DESC = 12"
definition LEN_OF_USERNAME :: nat where "LEN_OF_USERNAME = 10"
definition LEN_OF_PASSWORD :: nat where "LEN_OF_PASSWORD = 10"

text \<open>\<^verbatim>\<open>strcpy\<close> to a zeroed field of \<open>n\<close> bytes; a longer string has no defined result.\<close>

definition copy_field :: "nat \<Rightarrow> string option \<Rightarrow> string run" where
  "copy_field n v = (case v of None \<Rightarrow> Some [] | Some t \<Rightarrow> if length t < n then Some t else None)"

text \<open>\<open>al\<close> is whether there is memory; \<open>None\<close> among the results is \<^verbatim>\<open>NULL\<close>.\<close>

definition createDevice ::
    "bool \<Rightarrow> string option \<Rightarrow> string option \<Rightarrow> int \<Rightarrow> int \<Rightarrow> int \<Rightarrow> string option \<Rightarrow> string option \<Rightarrow> string option \<Rightarrow> int \<Rightarrow> int \<Rightarrow> nat \<Rightarrow>
      DeviceInfo option run" where
  "createDevice al deviceMac deviceIp t st status ds un pw fails fd s =
     (if \<not> al then Some None
      else do {
        m \<leftarrow> copy_field LEN_OF_MAC deviceMac;
        i \<leftarrow> copy_field MAX_LEN_IP deviceIp;
        d \<leftarrow> copy_field MAX_LEN_DEVICE_DESC ds;
        u \<leftarrow> copy_field LEN_OF_USERNAME un;
        p \<leftarrow> copy_field LEN_OF_PASSWORD pw;
        Some (Some \<lparr>mac = m, ip = i, dev_type = t, subType = st, dev_status = status, desc = d, userName = u,
                     passWord = p, pairFailedTimes = fails, dev_connfd = fd, dev_ssl = s\<rparr>) })"

definition row_value :: "buf option list \<Rightarrow> nat \<Rightarrow> string run" where
  "row_value bs column = (if column = 0 \<or> length bs < column then None else do { b \<leftarrow> bs ! (column - 1); str_of b })"

text \<open>The number of failures is read with \<^verbatim>\<open>atoi\<close> when there is one; \<^verbatim>\<open>long\<close> has 32 bits.\<close>

definition getDeviceInfoByDeviceIndex :: "'d eh_env \<Rightarrow> bool \<Rightarrow> int \<Rightarrow> 'd eh_dev \<Rightarrow> DeviceInfo option run" where
  "getDeviceInfoByDeviceIndex E al devIndex s =
     (if devIndex \<le> 0 \<or> devIndex > int (MAXTABLE_DEVICES E) then Some None
      else if length (g_devArray s) < nat devIndex then None
      else do {
        (r, vs) \<leftarrow> capi_read_table_row (eh_capi E) (dev_conf s) (id_unit_info E) devIndex
                     (replicate (tab_para_end E - 1) (Some ((value_buf E)[0 := NUL])));
        if r \<noteq> 0 then Some None
        else do {
          t \<leftarrow> row_value vs (tab_type E);
          st \<leftarrow> row_value vs (tab_subtype E);
          stat \<leftarrow> row_value vs (tab_state E);
          f \<leftarrow> row_value vs (tab_failures E);
          fails \<leftarrow> (if f = [] then Some 0 else case strtol 32 f 10 of (v, _, err) \<Rightarrow> if err then None else Some v);
          m \<leftarrow> row_value vs (tab_mac E);
          i \<leftarrow> row_value vs (tab_ip E);
          n \<leftarrow> row_value vs (tab_name E);
          a \<leftarrow> row_value vs (tab_account E);
          p \<leftarrow> row_value vs (tab_password E);
          createDevice al (Some m) (Some i) (getTypeID E t) (getSubTypeID E st) (getStatusID E stat) (Some n) (Some a) (Some p) fails
            (fst (g_devArray s ! nat (devIndex - 1))) (snd (g_devArray s ! nat (devIndex - 1))) } })"

definition getDeviceInfoByMac :: "'d eh_env \<Rightarrow> bool \<Rightarrow> string option \<Rightarrow> 'd eh_dev \<Rightarrow> DeviceInfo option run" where
  "getDeviceInfoByMac E al m s =
     (if m = None \<or> m = Some [] then Some None
      else do { i \<leftarrow> getDeviceIndexByMac E m s; getDeviceInfoByDeviceIndex E al i s })"

definition getDeviceInfoByFd :: "'d eh_env \<Rightarrow> bool \<Rightarrow> int \<Rightarrow> 'd eh_dev \<Rightarrow> DeviceInfo option run" where
  "getDeviceInfoByFd E al fd s =
     (if fd \<le> ZERO_FD then Some None else getDeviceInfoByDeviceIndex E al (getDeviceIndexByFd fd s) s)"

definition getDeviceInfoByNumber :: "'d eh_env \<Rightarrow> bool \<Rightarrow> string option \<Rightarrow> 'd eh_dev \<Rightarrow> DeviceInfo option run" where
  "getDeviceInfoByNumber E al num s =
     (if num = None then Some None
      else do { i \<leftarrow> getDeviceIndexByNumber E num s; getDeviceInfoByDeviceIndex E al i s })"

section \<open>Changes of the database (\<^verbatim>\<open>ehIndexDevice.c\<close>)\<close>

text \<open>
  Writing a column; the applications are then told with \<^verbatim>\<open>config_act_refresh_apps\<close>, whose table has no entry for
  the devices in the repository: \<open>refresh\<close> is what it does.
\<close>

definition update_column :: "'d eh_env \<Rightarrow> ('d eh_dev \<Rightarrow> 'd eh_dev run) \<Rightarrow> nat \<Rightarrow> string option \<Rightarrow> int \<Rightarrow> 'd eh_dev \<Rightarrow> (tcmRet \<times> 'd eh_dev) run" where
  "update_column E refresh column val devIndex s =
     (if devIndex \<le> 0 \<or> devIndex > int (MAXTABLE_DEVICES E) then Some (TCMRET_INVALID_ARGUMENTS, s)
      else case val of None \<Rightarrow> Some (TCMRET_INTERNAL_ERROR, s)
      | Some v \<Rightarrow> do {
          (r, c) \<leftarrow> capi_write_table_parameter (eh_capi E) (dev_conf s) (id_unit_info E) devIndex (int column) (Some v);
          if r = 0 then do { s1 \<leftarrow> refresh (s\<lparr>dev_conf := c\<rparr>); Some (TCMRET_SUCCESS, s1) }
          else Some (TCMRET_CONFLIB_WRITE_ERROR, s\<lparr>dev_conf := c\<rparr>) })"

definition updateStatusByDeviceIndex :: "'d eh_env \<Rightarrow> ('d eh_dev \<Rightarrow> 'd eh_dev run) \<Rightarrow> int \<Rightarrow> int \<Rightarrow> 'd eh_dev \<Rightarrow> (tcmRet \<times> 'd eh_dev) run" where
  "updateStatusByDeviceIndex E refresh devStatus devIndex s =
     update_column E refresh (tab_state E) (getStatusString E devStatus) devIndex s"

definition updateSubTypeByDeviceIndex :: "'d eh_env \<Rightarrow> ('d eh_dev \<Rightarrow> 'd eh_dev run) \<Rightarrow> int \<Rightarrow> int \<Rightarrow> 'd eh_dev \<Rightarrow> (tcmRet \<times> 'd eh_dev) run" where
  "updateSubTypeByDeviceIndex E refresh devSub devIndex s =
     update_column E refresh (tab_subtype E) (getSubTypeString E devSub) devIndex s"

fun zero_deleted :: "'d eh_env \<Rightarrow> int list \<Rightarrow> 'd eh_dev \<Rightarrow> 'd eh_dev run" where
  "zero_deleted E [] s = Some s"
| "zero_deleted E (i # is) s =
     do { v \<leftarrow> read_column E (dev_conf s) (i + 1) (tab_mac E);
          s1 \<leftarrow> (if v = None then map_option snd (zeroIndexDevice E (i + 1) s) else Some s);
          zero_deleted E is s1 }"

definition updateIndexDeviceArrayDeleteFromDb :: "'d eh_env \<Rightarrow> 'd eh_dev \<Rightarrow> (tcmRet \<times> 'd eh_dev) run" where
  "updateIndexDeviceArrayDeleteFromDb E s = map_option (Pair TCMRET_SUCCESS) (zero_deleted E (device_indices E) s)"

section \<open>Accounts (\<^verbatim>\<open>ehAccount.c\<close>)\<close>

definition MIN_PHONE_NUMBER :: nat where "MIN_PHONE_NUMBER = 100"
definition MAX_PHONE_NUMBER :: nat where "MAX_PHONE_NUMBER = 125"

definition dec_digits :: "nat \<Rightarrow> string" where
  "dec_digits n = [char_of (48 + n div 100), char_of (48 + n div 10 mod 10), char_of (48 + n mod 10)]"

text \<open>The loop keeps the last number it tried when all of them are taken.\<close>

fun phone_number :: "(string \<Rightarrow> bool) \<Rightarrow> nat list \<Rightarrow> string \<Rightarrow> string" where
  "phone_number taken [] tried = tried"
| "phone_number taken (n # ns) tried = (if \<not> taken (dec_digits n) then dec_digits n else phone_number taken ns (dec_digits n))"

definition getRandPasswd :: "(nat \<Rightarrow> nat) \<Rightarrow> nat \<Rightarrow> buf \<Rightarrow> buf run" where
  "getRandPasswd rand len s =
     (if length s < len + 2 then None
      else Some ((map (\<lambda>i. ''0123456789ABCDEFGHIJKLMNOPQRSTUVWXYZabcdefghijklmnopqrstuvwxyz'' ! (rand i mod 62)) [0..<len] @ drop len s)
                  [len + 1 := NUL]))"

text \<open>The results are what \<^verbatim>\<open>userName\<close> and \<^verbatim>\<open>passWord\<close> hold afterwards.\<close>

definition generateAccount :: "'d eh_env \<Rightarrow> (nat \<Rightarrow> nat) \<Rightarrow> nat \<Rightarrow> buf \<Rightarrow> buf \<Rightarrow> 'd eh_dev \<Rightarrow> (tcmRet \<times> buf \<times> buf) run" where
  "generateAccount E rand pwlen un pw s =
     do { let n = phone_number (phoneNumberExists E (dev_conf s)) [MIN_PHONE_NUMBER ..< MAX_PHONE_NUMBER + 1] [];
          u \<leftarrow> put_bytes 0 (n @ [NUL]) un;
          p \<leftarrow> getRandPasswd rand pwlen pw;
          p1 \<leftarrow> put_bytes pwlen [NUL] p;
          Some (TCMRET_SUCCESS, u, p1) }"

section \<open>What is watched\<close>

lemma getEhMaxFd_le: "fd \<le> getEhMaxFd s \<longleftrightarrow> fd \<le> gehServerFd s \<or> (\<exists>c \<in> set (g_devArray s). fst c \<noteq> ZERO_FD \<and> fd \<le> fst c)"
proof -
  have "fd \<le> fold (\<lambda>c m. if fst c \<noteq> ZERO_FD then (if m > fst c then m else fst c) else m) cs m \<longleftrightarrow>
      fd \<le> m \<or> (\<exists>c \<in> set cs. fst c \<noteq> ZERO_FD \<and> fd \<le> fst c)" for cs :: "(int \<times> nat) list" and m
    by (induction cs arbitrary: m) auto
  then show ?thesis by (simp add: getEhMaxFd_def)
qed

definition watch_inv :: "'d eh_dev \<Rightarrow> bool" where
  "watch_inv s \<longleftrightarrow> (\<forall>fd \<in> readFdsMaster s. fd_ok fd \<and> fd \<le> gehMaxFd s)"

lemma watch_inv_selected: "watch_inv s \<Longrightarrow> selected s = readFdsMaster s"
  by (auto simp: watch_inv_def selected_def fd_ok_def)

lemma watch_fd_inv: "watch_inv s \<Longrightarrow> watch_fd fd s = Some s1 \<Longrightarrow> watch_inv s1 \<and> readFdsMaster s1 = insert fd (readFdsMaster s)"
  by (fastforce simp: watch_inv_def watch_fd_def split: if_splits)

lemma drop_fd_inv: "watch_inv s \<Longrightarrow> drop_fd fd s = Some s1 \<Longrightarrow> watch_inv s1 \<and> readFdsMaster s1 = readFdsMaster s - {fd}"
  by (force simp: watch_inv_def drop_fd_def split: if_splits)

lemma zeroIndexDevice_cases:
  assumes "zeroIndexDevice E i s = Some (r, s1)" and "1 \<le> i" and "i \<le> int (MAXTABLE_DEVICES E)"
  shows "r = TCMRET_SUCCESS \<and> nat (i - 1) < length (g_devArray s) \<and> dev_conf s1 = dev_conf s \<and>
    g_devArray s1 = (g_devArray s)[nat (i - 1) := (ZERO_FD, ZERO_SSL)] \<and> gehServerFd s1 = gehServerFd s \<and>
    gehMaxFd s1 = getEhMaxFd s1 \<and>
    readFdsMaster s1 = (let fd = fst (g_devArray s ! nat (i - 1)) in if fd = ZERO_FD then readFdsMaster s else readFdsMaster s - {fd})"
  using assms by (auto simp: zeroIndexDevice_def Let_def getEhMaxFd_def run_simps split: if_splits)

text \<open>As long as connections are only accepted and dropped, the select thread looks at every socket it watches.
  Deleting a device sets the greatest socket to that of the server and of the devices in the array, so another
  watched socket is looked at afterwards only when one of those is not below it: a connection whose phone has
  not been recognised yet can be left out.
\<close>
lemma deleted_device_selection:
  assumes "watch_inv s"
  shows "selected s = readFdsMaster s \<and>
    (watch_fd fd s = Some s1 \<longrightarrow> watch_inv s1 \<and> selected s1 = insert fd (selected s)) \<and>
    (drop_fd fd s = Some s2 \<longrightarrow> watch_inv s2 \<and> selected s2 = selected s - {fd}) \<and>
    (zeroIndexDevice E i s = Some (TCMRET_SUCCESS, s3) \<longrightarrow> fd \<in> readFdsMaster s \<longrightarrow> fd \<noteq> fst (g_devArray s ! nat (i - 1)) \<longrightarrow>
       fd \<in> readFdsMaster s3 \<and>
       (fd \<in> selected s3 \<longleftrightarrow> fd \<le> gehServerFd s \<or> (\<exists>c \<in> set (g_devArray s3). fst c \<noteq> ZERO_FD \<and> fd \<le> fst c)))"
proof (intro conjI impI)
  assume z: "zeroIndexDevice E i s = Some (TCMRET_SUCCESS, s3)" and fd: "fd \<in> readFdsMaster s" "fd \<noteq> fst (g_devArray s ! nat (i - 1))"
  have "1 \<le> i" "i \<le> int (MAXTABLE_DEVICES E)" using z by (auto simp: zeroIndexDevice_def split: if_splits)
  note c = zeroIndexDevice_cases[OF z this]
  then show m: "fd \<in> readFdsMaster s3" using fd by (simp add: Let_def)
  have "0 \<le> fd" using assms fd(1) by (auto simp: watch_inv_def fd_ok_def)
  then show "fd \<in> selected s3 \<longleftrightarrow> fd \<le> gehServerFd s \<or> (\<exists>c \<in> set (g_devArray s3). fst c \<noteq> ZERO_FD \<and> fd \<le> fst c)"
    using m c getEhMaxFd_le[of fd s3] by (auto simp: selected_def)
next
  show "selected s = readFdsMaster s" by (rule watch_inv_selected[OF assms])
  { assume "watch_fd fd s = Some s1"
    from watch_fd_inv[OF assms this] show "watch_inv s1" and "selected s1 = insert fd (selected s)"
      by (simp_all add: watch_inv_selected assms) }
  { assume "drop_fd fd s = Some s2"
    from drop_fd_inv[OF assms this] show "watch_inv s2" and "selected s2 = selected s - {fd}"
      by (simp_all add: watch_inv_selected assms) }
qed

text \<open>For the concrete runs: two devices at most, one connected on socket 5, and a new connection on 6.\<close>

definition demo_env :: "conf eh_env" where
  "demo_env = \<lparr>eh_capi = conflib_capi True, MAXTABLE_DEVICES = 2, id_unit_info = 9, tab_para_end = 11, tab_name = 1, tab_type = 2, tab_subtype = 3, tab_account = 4,
     tab_password = 5, tab_state = 6, tab_failures = 7, tab_mac = 8, tab_ip = 9, getTypeID = (\<lambda>t. 1), getSubTypeID = (\<lambda>t. 1),
     getStatusID = (\<lambda>t. 4), getStatusString = (\<lambda>n. Some ''connected''), getSubTypeString = (\<lambda>n. Some ''front''), device_odp = 1,
     odp_front = 1, odp_back = 2, status_connected = 4, status_disconnected = 5, status_pairing = 3, phoneNumberExists = (\<lambda>c n. True),
     dev_stack = []\<rparr>"

definition demo_dev :: "conf \<Rightarrow> conf eh_dev" where
  "demo_dev c = \<lparr>dev_conf = c, g_devArray = [(5, 0), (- 1, 0)], readFdsMaster = {3, 5, 6}, gehMaxFd = 6, gehServerFd = 3, closed_fds = []\<rparr>"

lemma deleted_device_selection_witness:
  "\<forall>c. \<exists>s3. zeroIndexDevice demo_env 1 (demo_dev c) = Some (TCMRET_SUCCESS, s3) \<and> 6 \<in> readFdsMaster s3 \<and> 6 \<notin> selected s3"
proof
  fix c
  obtain s3 where z: "zeroIndexDevice demo_env 1 (demo_dev c) = Some (TCMRET_SUCCESS, s3)" "g_devArray s3 = [(- 1, 0), (- 1, 0)]"
    by (simp add: zeroIndexDevice_def demo_env_def demo_dev_def ZERO_FD_def ZERO_SSL_def fd_ok_def)
  have "watch_inv (demo_dev c)" by (simp add: watch_inv_def demo_dev_def fd_ok_def)
  from deleted_device_selection[OF this, of 6 _ _ demo_env 1 s3] z
  show "\<exists>s3. zeroIndexDevice demo_env 1 (demo_dev c) = Some (TCMRET_SUCCESS, s3) \<and> 6 \<in> readFdsMaster s3 \<and> 6 \<notin> selected s3"
    by (auto simp: demo_dev_def ZERO_FD_def)
qed

section \<open>Deleted devices\<close>

lemma zero_deleted_outcome:
  assumes "zero_deleted E is s = Some s1" and "\<forall>i \<in> set is. 0 \<le> i \<and> i < int (MAXTABLE_DEVICES E)" and "distinct is"
  shows "dev_conf s1 = dev_conf s \<and> length (g_devArray s1) = length (g_devArray s) \<and>
    (\<forall>k < length (g_devArray s). g_devArray s1 ! k =
      (if int k \<in> set is \<and> read_column E (dev_conf s) (int k + 1) (tab_mac E) = Some None then (ZERO_FD, ZERO_SSL) else g_devArray s ! k)) \<and>
    (\<forall>i \<in> set is. read_column E (dev_conf s) (i + 1) (tab_mac E) \<noteq> None)"
  using assms
proof (induction "is" arbitrary: s)
  case (Cons i "is")
  from Cons.prems(1) obtain v s2 where v: "read_column E (dev_conf s) (i + 1) (tab_mac E) = Some v"
    "(if v = None then map_option snd (zeroIndexDevice E (i + 1) s) else Some s) = Some s2" "zero_deleted E is s2 = Some s1"
    by (auto simp: run_simps)
  have s2: "dev_conf s2 = dev_conf s \<and> length (g_devArray s2) = length (g_devArray s) \<and>
    g_devArray s2 = (if v = None then (g_devArray s)[nat i := (ZERO_FD, ZERO_SSL)] else g_devArray s)"
  proof (cases v)
    case None
    then obtain r where "zeroIndexDevice E (i + 1) s = Some (r, s2)" using v(2) by auto
    from zeroIndexDevice_cases[OF this] Cons.prems(2) None show ?thesis by simp
  qed (use v in simp)
  have "\<forall>i \<in> set is. 0 \<le> i \<and> i < int (MAXTABLE_DEVICES E)" "distinct is" "i \<notin> set is" using Cons.prems by auto
  note ih = Cons.IH[OF v(3) this(1,2)] and ni = this(3)
  have "(g_devArray s)[nat i := z] ! k = (if i = int k then z else g_devArray s ! k)" if "k < length (g_devArray s)" for k z
    using that Cons.prems(2) by (cases "nat i = k") auto
  then show ?case using ih ni s2 v(1) by auto
qed simp

text \<open>After the devices that were deleted from the database have been cleared, a device has a connection only
  if its row is still there; the other connections and the database are as they were.
\<close>
lemma deleted_devices_cleared:
  assumes "updateIndexDeviceArrayDeleteFromDb E s = Some (r, s1)" and "length (g_devArray s) = MAXTABLE_DEVICES E"
    and "k < MAXTABLE_DEVICES E"
  shows "r = TCMRET_SUCCESS \<and> dev_conf s1 = dev_conf s \<and>
    (case read_column E (dev_conf s) (int k + 1) (tab_mac E) of
       None \<Rightarrow> False
     | Some None \<Rightarrow> g_devArray s1 ! k = (ZERO_FD, ZERO_SSL)
     | Some (Some t) \<Rightarrow> g_devArray s1 ! k = g_devArray s ! k)"
proof -
  have i: "\<forall>i \<in> set (device_indices E). 0 \<le> i \<and> i < int (MAXTABLE_DEVICES E)" "distinct (device_indices E)" "int k \<in> set (device_indices E)"
    using assms(3) by (auto simp: device_indices_def distinct_map inj_on_def)
  from assms(1) have r: "r = TCMRET_SUCCESS" and z: "zero_deleted E (device_indices E) s = Some s1"
    by (auto simp: updateIndexDeviceArrayDeleteFromDb_def)
  from zero_deleted_outcome[OF z i(1,2)] i(3) assms(2,3) r show ?thesis by (auto split: option.splits)
qed

section \<open>Accounts\<close>

lemma phone_number_outcome:
  "phone_number taken ns tried =
    (case find (\<lambda>n. \<not> taken (dec_digits n)) ns of Some n \<Rightarrow> dec_digits n | None \<Rightarrow> (if ns = [] then tried else dec_digits (last ns)))"
  by (induction ns arbitrary: tried) (auto split: option.splits)

text \<open>A new account gets the first phone number from 100 to 125 that is free. When all are taken it gets 125,
  which is taken, and success is reported.
\<close>
lemma generateAccount_number:
  assumes "generateAccount E rand pwlen un pw s = Some (r, u, p)"
  shows "r = TCMRET_SUCCESS \<and> cstr u =
    (case find (\<lambda>n. \<not> phoneNumberExists E (dev_conf s) (dec_digits n)) [100..<126] of Some n \<Rightarrow> dec_digits n | None \<Rightarrow> ''125'')"
proof -
  define ns where "ns = [100..<126 :: nat]"
  let ?n = "phone_number (phoneNumberExists E (dev_conf s)) ns []"
  have l: "ns \<noteq> []" "dec_digits (last ns) = ''125''" unfolding ns_def by (simp, code_simp)
  then have n: "?n = (case find (\<lambda>n. \<not> phoneNumberExists E (dev_conf s) (dec_digits n)) ns of Some n \<Rightarrow> dec_digits n | None \<Rightarrow> ''125'')"
    using phone_number_outcome[of "phoneNumberExists E (dev_conf s)" ns "[]"] by (simp split: option.splits)
  have d: "\<forall>k \<in> set ns. NUL \<notin> set (dec_digits k)" unfolding ns_def by code_simp
  have f: "k \<in> set ns" if "find P ns = Some k" for P k
    using find_split[OF that] by (metis in_set_conv_decomp)
  have "NUL \<notin> set ?n"
  proof (cases "find (\<lambda>n. \<not> phoneNumberExists E (dev_conf s) (dec_digits n)) ns")
    case None
    then show ?thesis unfolding n by simp
  next
    case (Some k)
    then show ?thesis unfolding n using d f[OF Some] by simp
  qed
  moreover have "u = ?n @ NUL # drop (Suc (length ?n)) un" and "r = TCMRET_SUCCESS"
  proof -
    have e: "[MIN_PHONE_NUMBER ..< MAX_PHONE_NUMBER + 1] = ns" unfolding ns_def MIN_PHONE_NUMBER_def MAX_PHONE_NUMBER_def by simp
    show "u = ?n @ NUL # drop (Suc (length ?n)) un" and "r = TCMRET_SUCCESS"
      using assms[unfolded generateAccount_def e] by (auto simp: Let_def put_bytes_def run_simps split: if_splits)
  qed
  ultimately have c: "cstr u = ?n" "r = TCMRET_SUCCESS" by simp_all
  show ?thesis using c unfolding n unfolding ns_def by blast
qed

lemma generateAccount_number_witness:
  "\<forall>c. \<exists>u p. generateAccount demo_env id 2 (replicate 10 NUL) (replicate 10 NUL) (demo_dev c) = Some (TCMRET_SUCCESS, u, p) \<and> cstr u = ''125''"
proof
  fix c
  let ?P = "phoneNumberExists demo_env (dev_conf (demo_dev c))"
  have t: "?P n" for n by (simp add: demo_env_def)
  have "phone_number ?P ns tried = (if ns = [] then tried else dec_digits (last ns))" for ns tried
    by (induction ns arbitrary: tried) (simp_all add: t)
  note last_tried = this
  have "[MIN_PHONE_NUMBER ..< MAX_PHONE_NUMBER + 1] \<noteq> []" and "last [MIN_PHONE_NUMBER ..< MAX_PHONE_NUMBER + 1] = 125"
    unfolding MIN_PHONE_NUMBER_def MAX_PHONE_NUMBER_def by (simp_all only: last_upt) simp_all
  then have n: "phone_number ?P [MIN_PHONE_NUMBER ..< MAX_PHONE_NUMBER + 1] [] = dec_digits 125"
    unfolding last_tried by (simp only: if_False)
  have "\<exists>r u p. generateAccount demo_env id 2 (replicate 10 NUL) (replicate 10 NUL) (demo_dev c) = Some (r, u, p)"
    unfolding generateAccount_def Let_def n
    by (simp add: put_bytes_def dec_digits_def getRandPasswd_def run_simps)
  then obtain r u p where g: "generateAccount demo_env id 2 (replicate 10 NUL) (replicate 10 NUL) (demo_dev c) = Some (r, u, p)"
    by blast
  have "find (\<lambda>n. \<not> ?P (dec_digits n)) [100..<126] = None" by (simp add: find_None_iff t)
  then show "\<exists>u p. generateAccount demo_env id 2 (replicate 10 NUL) (replicate 10 NUL) (demo_dev c) = Some (TCMRET_SUCCESS, u, p) \<and> cstr u = ''125''"
    using generateAccount_number[OF g] g by auto
qed

end
