(* ===== verification/Eh_Gateway.thy ===== *)
theory Eh_Gateway
  imports Eh_Device
begin

text \<open>
  The work of the home gateway (\<^verbatim>\<open>ehMpc.c\<close>): the token that one indoor phone holds at a time, the connections that are
  kept alive, the registration of a phone, and opening a door, whose answer comes from another phone.
\<close>

section \<open>State and environment\<close>

text \<open>
  As in \<open>eh_env\<close>, numbers of headers that are not in the repository are parameters, and so are what the gateway
  tells the telephone exchange (\<^verbatim>\<open>gen_db_file\<close>, \<^verbatim>\<open>UpdatePagingConfig\<close>) and the refreshing of applications. The
  only function that waiting answers are installed with is \<^verbatim>\<open>sendOpenDoorAckToIdp\<close>.
\<close>

record 'd gw_env =
  gw_eh :: "'d eh_env"
  id_door :: int
  tab_door_status :: nat
  tab_keep_open :: nat
  subtype_idp7 :: int
  subtype_smp :: int
  gw_refresh :: "'d eh_dev \<Rightarrow> 'd eh_dev run"
  gen_db_file :: "'d eh_dev \<Rightarrow> 'd eh_dev run"
  UpdatePagingConfig :: "'d eh_dev \<Rightarrow> 'd eh_dev run"
  gw_big :: bool
  gw_fresh :: "unit EhTransMsgMap nodes \<Rightarrow> nat"
  msg_fresh :: "homeMsgCtrlBlock nodes \<Rightarrow> nat"

record ('d, 'w) eh_sys =
  sys_dev :: "'d eh_dev"
  gTokenStatus :: int
  gTokenOwern :: int
  g_keepAliveInfo :: "(int \<times> int) list"
  trans_queue :: nat
  trans_blocks :: "unit EhTransMsgMap nodes"
  gehomeMsgQueue :: nat
  msg_blocks :: "homeMsgCtrlBlock nodes"
  g_seqNum :: UINT32
  sys_world :: 'w

definition MAX_PACKET_LEN :: nat where "MAX_PACKET_LEN = 1024"
definition PPI_TOKEN_STATUS_FREE :: int where "PPI_TOKEN_STATUS_FREE = 1"
definition PPI_TOKEN_STATUS_BUSY :: int where "PPI_TOKEN_STATUS_BUSY = 2"
definition PPI_OPERATE_TOKEN_REQUEST :: nat where "PPI_OPERATE_TOKEN_REQUEST = 1"
definition PPI_OPERATE_TOKEN_RELEASE :: nat where "PPI_OPERATE_TOKEN_RELEASE = 2"
definition ACT_RESULT_SUCCEED :: nat where "ACT_RESULT_SUCCEED = 1"
definition ACT_RESULT_FAILED :: nat where "ACT_RESULT_FAILED = 2"
definition PPI_PAIR_SUCCESS :: nat where "PPI_PAIR_SUCCESS = 1"
definition PPI_PAIR_FAILED :: nat where "PPI_PAIR_FAILED = 2"
definition PPI_PAIR_REASON_SUCCESS :: nat where "PPI_PAIR_REASON_SUCCESS = 0"
definition PPI_PAIR_REASON_INVALID_ACCOUNT_INFO :: nat where "PPI_PAIR_REASON_INVALID_ACCOUNT_INFO = 1"
definition PPI_PAIR_REASON_CANNOT_FIND :: nat where "PPI_PAIR_REASON_CANNOT_FIND = 2"
definition PPO_PAIR_SUCCESS :: nat where "PPO_PAIR_SUCCESS = 1"
definition PPO_PAIR_FAILED :: nat where "PPO_PAIR_FAILED = 2"
definition PPO_PAIR_REASON_SUCCESS :: nat where "PPO_PAIR_REASON_SUCCESS = 0"
definition PPO_PAIR_REASON_INVALID_ACCOUNT :: nat where "PPO_PAIR_REASON_INVALID_ACCOUNT = 1"
definition PPO_PAIR_REASON_INVALID_PASSWORD :: nat where "PPO_PAIR_REASON_INVALID_PASSWORD = 2"
definition PPO_OUTDOOR_STATUS_OPEN :: nat where "PPO_OUTDOOR_STATUS_OPEN = 1"
definition PPO_OUTDOOR_STATUS_CLOSED :: nat where "PPO_OUTDOOR_STATUS_CLOSED = 2"
definition KEEP_ALIVE_POLLING_TIME :: int where "KEEP_ALIVE_POLLING_TIME = 2"
definition KEEP_ALIVE_CHECKING_TIME :: int where "KEEP_ALIVE_CHECKING_TIME = 10"

definition CMD_IDP_TO_MFCB_REGISTER :: "16 word" where "CMD_IDP_TO_MFCB_REGISTER = 0x1000"
definition CMD_ODP_TO_MFCB_QUERY_ACCOUNT_INFO :: "16 word" where "CMD_ODP_TO_MFCB_QUERY_ACCOUNT_INFO = 0x1080"
definition CMD_ODP_TO_MFCB_REGISTER :: "16 word" where "CMD_ODP_TO_MFCB_REGISTER = 0x1081"
definition CMD_MFCB_TO_ODP_OPEN_DOOR :: "16 word" where "CMD_MFCB_TO_ODP_OPEN_DOOR = 0x1082"
definition ACK_IDP_TO_MFCB_REGISTER :: "16 word" where "ACK_IDP_TO_MFCB_REGISTER = 0x5000"
definition ACK_IDP_TO_MFCB_OPEN_DOOR :: "16 word" where "ACK_IDP_TO_MFCB_OPEN_DOOR = 0x5001"
definition ACK_IDP_TO_MFCB_KEEP_ALIVE :: "16 word" where "ACK_IDP_TO_MFCB_KEEP_ALIVE = 0x500F"
definition ACK_IDP_TO_MFCB_TOKEN_OPERATION :: "16 word" where "ACK_IDP_TO_MFCB_TOKEN_OPERATION = 0x5010"
definition ACK_MFCB_TO_ODP_OPEN_DOOR :: "16 word" where "ACK_MFCB_TO_ODP_OPEN_DOOR = 0x5082"

section \<open>Reading and sending\<close>

text \<open>A byte, or some, of the value behind a control block.\<close>

definition msg_byte :: "homeMsgCtrlBlock \<Rightarrow> nat \<Rightarrow> nat run" where
  "msg_byte m k = (if k < length (msg_value m) then Some (of_char (msg_value m ! k)) else None)"

definition msg_bytes :: "homeMsgCtrlBlock \<Rightarrow> nat \<Rightarrow> nat \<Rightarrow> char list run" where
  "msg_bytes m off n = get_bytes off n (msg_value m)"

text \<open>A device that is looked up is copied to fresh memory: \<open>f\<close> is told whether there is any.\<close>

definition with_memory ::
    "'w kernel \<Rightarrow> (bool \<Rightarrow> 'd eh_dev \<Rightarrow> DeviceInfo option run) \<Rightarrow> ('d, 'w) eh_sys \<Rightarrow> (DeviceInfo option \<times> ('d, 'w) eh_sys) run" where
  "with_memory K f s =
     (case k_alloc K (sys_world s) of (al, w1) \<Rightarrow>
        do { d \<leftarrow> f al (sys_dev s); Some (d, if f True (sys_dev s) = Some None then s else s\<lparr>sys_world := w1\<rparr>) })"

definition device_at :: "'d gw_env \<Rightarrow> 'w kernel \<Rightarrow> int \<Rightarrow> ('d, 'w) eh_sys \<Rightarrow> (DeviceInfo option \<times> ('d, 'w) eh_sys) run" where
  "device_at G K i s = with_memory K (\<lambda>al. getDeviceInfoByDeviceIndex (gw_eh G) al i) s"

text \<open>\<^verbatim>\<open>ehSendMsgToDevice\<close> with the bytes of a local array; \<open>None\<close> is no value.\<close>

definition send_msg ::
    "'d gw_env \<Rightarrow> 'w kernel \<Rightarrow> int \<Rightarrow> nat \<Rightarrow> 16 word \<Rightarrow> char list option \<Rightarrow> ('d, 'w) eh_sys \<Rightarrow> (tcmRet \<times> ('d, 'w) eh_sys) run" where
  "send_msg G K fd sl et val s =
     do { (r, q, w) \<leftarrow> ehSendMsgToDevice K (gw_big G) fd sl et (of_nat (length (case val of None \<Rightarrow> [] | Some v \<Rightarrow> v))) val
                          (g_seqNum s) (sys_world s);
          Some (r, s\<lparr>g_seqNum := q, sys_world := w\<rparr>) }"

section \<open>The token\<close>

definition releaseTokenByFD :: "int \<Rightarrow> ('d, 'w) eh_sys \<Rightarrow> ('d, 'w) eh_sys" where
  "releaseTokenByFD fd s =
     (if gTokenOwern s = fd then s\<lparr>gTokenStatus := PPI_TOKEN_STATUS_FREE, gTokenOwern := 0\<rparr> else s)"

definition processIDPToMFCBTokenOperation :: "homeMsgCtrlBlock \<Rightarrow> ('d, 'w) eh_sys \<Rightarrow> (tcmRet \<times> char list \<times> ('d, 'w) eh_sys) run" where
  "processIDPToMFCBTokenOperation prMsg s =
     do { op \<leftarrow> msg_byte prMsg 0;
          let (actResult, s1) =
            (if op = PPI_OPERATE_TOKEN_REQUEST then
               (if gTokenStatus s = PPI_TOKEN_STATUS_FREE then
                  (ACT_RESULT_SUCCEED, s\<lparr>gTokenStatus := PPI_TOKEN_STATUS_BUSY, gTokenOwern := connfd prMsg\<rparr>)
                else (ACT_RESULT_FAILED, s))
             else if op = PPI_OPERATE_TOKEN_RELEASE then
               (if gTokenStatus s = PPI_TOKEN_STATUS_FREE then (ACT_RESULT_FAILED, s)
                else if gTokenStatus s = PPI_TOKEN_STATUS_BUSY then
                  (if gTokenOwern s = connfd prMsg then
                     (ACT_RESULT_SUCCEED, s\<lparr>gTokenStatus := PPI_TOKEN_STATUS_FREE, gTokenOwern := 0\<rparr>)
                   else (ACT_RESULT_FAILED, s))
                else (ACT_RESULT_FAILED, s))
             else (ACT_RESULT_FAILED, s));
          Some (if actResult = ACT_RESULT_SUCCEED then TCMRET_SUCCESS else TCMRET_FAILURE, [char_of op, char_of actResult], s1) }"

definition handleIDPToMFCBTokenOperation :: "'d gw_env \<Rightarrow> 'w kernel \<Rightarrow> homeMsgCtrlBlock \<Rightarrow> ('d, 'w) eh_sys \<Rightarrow> (tcmRet \<times> ('d, 'w) eh_sys) run" where
  "handleIDPToMFCBTokenOperation G K hdMsg s =
     do { (r, val, s1) \<leftarrow> processIDPToMFCBTokenOperation hdMsg s;
          send_msg G K (connfd hdMsg) (ssl hdMsg) ACK_IDP_TO_MFCB_TOKEN_OPERATION (Some val) s1 }"

section \<open>Keeping connections alive\<close>

fun set_first :: "('a \<Rightarrow> bool) \<Rightarrow> 'a \<Rightarrow> 'a list \<Rightarrow> 'a list option" where
  "set_first P y [] = None"
| "set_first P y (x # xs) = (if P x then Some (y # xs) else map_option (Cons x) (set_first P y xs))"

definition updateKeepAliveStatus :: "int \<Rightarrow> (int \<times> int) list \<Rightarrow> (int \<times> int) list" where
  "updateKeepAliveStatus fd ka =
     (case set_first (\<lambda>e. fst e = fd) (fd, 0) ka of Some ka1 \<Rightarrow> ka1
      | None \<Rightarrow> (case set_first (\<lambda>e. fst e = - 1) (fd, 0) ka of Some ka1 \<Rightarrow> ka1 | None \<Rightarrow> ka))"

definition handleKeepAliveCmd :: "'d gw_env \<Rightarrow> 'w kernel \<Rightarrow> homeMsgCtrlBlock \<Rightarrow> ('d, 'w) eh_sys \<Rightarrow> (tcmRet \<times> ('d, 'w) eh_sys) run" where
  "handleKeepAliveCmd G K hdMsg s =
     send_msg G K (connfd hdMsg) (ssl hdMsg) ACK_IDP_TO_MFCB_KEEP_ALIVE None
       (s\<lparr>g_keepAliveInfo := updateKeepAliveStatus (connfd hdMsg) (g_keepAliveInfo s)\<rparr>)"

text \<open>What is done with a device whose connection is given up.\<close>

definition disconnect_device :: "'d gw_env \<Rightarrow> int \<Rightarrow> 'd eh_dev \<Rightarrow> 'd eh_dev run" where
  "disconnect_device G devIndex d =
     do { (_, d1) \<leftarrow> updateStatusByDeviceIndex (gw_eh G) (gw_refresh G) (status_disconnected (gw_eh G)) devIndex d;
          d2 \<leftarrow> gen_db_file G d1;
          UpdatePagingConfig G d2 }"

definition zero_connfd :: "int \<Rightarrow> 'd eh_dev \<Rightarrow> 'd eh_dev" where
  "zero_connfd devIndex d =
     d\<lparr>g_devArray := (g_devArray d)[nat (devIndex - 1) := (ZERO_FD, snd (g_devArray d ! nat (devIndex - 1)))]\<rparr>"

definition keep_alive_entry :: "'d gw_env \<Rightarrow> 'w kernel \<Rightarrow> nat \<Rightarrow> ('d, 'w) eh_sys \<Rightarrow> ('d, 'w) eh_sys run" where
  "keep_alive_entry G K i s =
     (if length (g_keepAliveInfo s) \<le> i then None
      else do {
        let (fd, flag0) = g_keepAliveInfo s ! i;
        let flag = (if fd > 0 then flag0 + KEEP_ALIVE_POLLING_TIME else flag0);
        let s1 = s\<lparr>g_keepAliveInfo := (g_keepAliveInfo s)[i := (fd, flag)]\<rparr>;
        if flag > KEEP_ALIVE_CHECKING_TIME then do {
          let s2 = releaseTokenByFD fd s1;
          let devIndex = getDeviceIndexByFd fd (sys_dev s2);
          (dev, s3) \<leftarrow> device_at G K devIndex s2;
          s4 \<leftarrow> (if dev \<noteq> None then do {
                   d1 \<leftarrow> drop_fd fd (sys_dev s3);
                   d2 \<leftarrow> disconnect_device G devIndex (zero_connfd devIndex d1);
                   Some (s3\<lparr>sys_dev := d2\<rparr>) }
                else Some s3);
          Some (s4\<lparr>g_keepAliveInfo := (g_keepAliveInfo s4)[i := (- 1, - 1)]\<rparr>) }
        else Some s1 })"

fun keepAliveSync_from :: "'d gw_env \<Rightarrow> 'w kernel \<Rightarrow> nat list \<Rightarrow> ('d, 'w) eh_sys \<Rightarrow> ('d, 'w) eh_sys run" where
  "keepAliveSync_from G K [] s = Some s"
| "keepAliveSync_from G K (i # is) s = do { s1 \<leftarrow> keep_alive_entry G K i s; keepAliveSync_from G K is s1 }"

definition keepAliveSync :: "'d gw_env \<Rightarrow> 'w kernel \<Rightarrow> ('d, 'w) eh_sys \<Rightarrow> (int \<times> ('d, 'w) eh_sys) run" where
  "keepAliveSync G K s = map_option (Pair 1) (keepAliveSync_from G K [0..<MAXTABLE_DEVICES (gw_eh G)] s)"

section \<open>Registering a phone\<close>

text \<open>
  The lengths in the message say how much is copied; the length of the message is compared afterwards. The second
  result is \<^verbatim>\<open>failReason\<close>. The subtype of an indoor phone is a byte.
\<close>

definition registered :: "'d gw_env \<Rightarrow> int \<Rightarrow> int \<Rightarrow> 'd eh_dev \<Rightarrow> 'd eh_dev run" where
  "registered G sub devIndex d =
     do { (_, d1) \<leftarrow> updateStatusByDeviceIndex (gw_eh G) (gw_refresh G) (status_connected (gw_eh G)) devIndex d;
          (_, d2) \<leftarrow> updateSubTypeByDeviceIndex (gw_eh G) (gw_refresh G) sub devIndex d1;
          d3 \<leftarrow> gen_db_file G d2;
          UpdatePagingConfig G d3 }"

definition processIDPToMFCBPair :: "'d gw_env \<Rightarrow> 'w kernel \<Rightarrow> homeMsgCtrlBlock \<Rightarrow> ('d, 'w) eh_sys \<Rightarrow> (tcmRet \<times> nat \<times> ('d, 'w) eh_sys) run" where
  "processIDPToMFCBPair G K prMsg s =
     (if connfd prMsg = 0 then Some (TCMRET_INVALID_PARAMETER, PPI_PAIR_REASON_CANNOT_FIND, s)
      else do {
        let devIndex = getDeviceIndexByFd (connfd prMsg) (sys_dev s);
        (dev, s1) \<leftarrow> device_at G K devIndex s;
        case dev of None \<Rightarrow> Some (TCMRET_INTERNAL_ERROR, PPI_PAIR_REASON_CANNOT_FIND, s1)
        | Some d \<Rightarrow>
            if valueLen (msg prMsg) = 0 then Some (TCMRET_FAILURE, PPI_PAIR_REASON_CANNOT_FIND, s1)
            else do {
              usernameLen \<leftarrow> msg_byte prMsg 0;
              username \<leftarrow> msg_bytes prMsg 1 usernameLen;
              passwordLen \<leftarrow> msg_byte prMsg (1 + usernameLen);
              password \<leftarrow> msg_bytes prMsg (2 + usernameLen) passwordLen;
              t \<leftarrow> msg_byte prMsg (2 + usernameLen + passwordLen);
              let idpType = (if int t < subtype_idp7 G - 2 \<or> int t > subtype_smp G - 2 then (subtype_idp7 G - 2) mod 256 else int t);
              if 3 + usernameLen + passwordLen \<noteq> unat (valueLen (msg prMsg))
                then Some (TCMRET_INTERNAL_ERROR, PPI_PAIR_REASON_CANNOT_FIND, s1)
              else if cstr (username @ [NUL]) = DeviceInfo.userName d \<and> cstr (password @ [NUL]) = DeviceInfo.passWord d
                then map_option (\<lambda>d1. (TCMRET_SUCCESS, PPI_PAIR_REASON_SUCCESS, s1\<lparr>sys_dev := d1\<rparr>))
                       (registered G (idpType + 2) devIndex (sys_dev s1))
              else Some (TCMRET_FAILURE, PPI_PAIR_REASON_INVALID_ACCOUNT_INFO, s1) } })"

text \<open>
  The reply of \<^verbatim>\<open>handleIDPToMFCBPair\<close>; afterwards the time and the devices are sent to all phones: \<open>syn\<close>.
\<close>

definition handleIDPToMFCBPair ::
    "'d gw_env \<Rightarrow> 'w kernel \<Rightarrow> (('d, 'w) eh_sys \<Rightarrow> ('d, 'w) eh_sys run) \<Rightarrow> homeMsgCtrlBlock \<Rightarrow> ('d, 'w) eh_sys \<Rightarrow> (tcmRet \<times> ('d, 'w) eh_sys) run" where
  "handleIDPToMFCBPair G K syn hdMsg s =
     do { (r, failReason, s1) \<leftarrow> processIDPToMFCBPair G K hdMsg s;
          (ret, s2) \<leftarrow> send_msg G K (connfd hdMsg) (ssl hdMsg) ACK_IDP_TO_MFCB_REGISTER
                        (Some (if r \<noteq> TCMRET_SUCCESS then [char_of PPI_PAIR_FAILED, char_of failReason] else [char_of PPI_PAIR_SUCCESS])) s1;
          s3 \<leftarrow> syn s2;
          Some (ret, s3) }"

text \<open>An outdoor phone, whose account is compared without regard to case. The buffers hold any 255 bytes and the zero behind them.\<close>

definition processODPToMFCBPair :: "'d gw_env \<Rightarrow> 'w kernel \<Rightarrow> homeMsgCtrlBlock \<Rightarrow> ('d, 'w) eh_sys \<Rightarrow> (tcmRet \<times> char list \<times> ('d, 'w) eh_sys) run" where
  "processODPToMFCBPair G K prMsg s =
     do { usernameLen \<leftarrow> msg_byte prMsg 0;
          odpUsername \<leftarrow> msg_bytes prMsg 1 usernameLen;
          passwordLen \<leftarrow> msg_byte prMsg (1 + usernameLen);
          odpPassword \<leftarrow> msg_bytes prMsg (2 + usernameLen) passwordLen;
          let devIndex = getDeviceIndexByFd (connfd prMsg) (sys_dev s);
          (dev, s1) \<leftarrow> device_at G K devIndex s;
          case dev of None \<Rightarrow> Some (TCMRET_FAILURE, [], s1)
          | Some d \<Rightarrow>
              if \<not> strcasecmp_eq (cstr (odpUsername @ [NUL])) (DeviceInfo.userName d)
                then Some (TCMRET_SUCCESS, [char_of PPO_PAIR_FAILED, char_of PPO_PAIR_REASON_INVALID_ACCOUNT], s1)
              else if \<not> strcasecmp_eq (cstr (odpPassword @ [NUL])) (DeviceInfo.passWord d)
                then Some (TCMRET_SUCCESS, [char_of PPO_PAIR_FAILED, char_of PPO_PAIR_REASON_INVALID_PASSWORD], s1)
              else do {
                (_, d1) \<leftarrow> updateStatusByDeviceIndex (gw_eh G) (gw_refresh G) (status_connected (gw_eh G)) devIndex (sys_dev s1);
                d2 \<leftarrow> gen_db_file G d1;
                Some (TCMRET_SUCCESS, [char_of PPO_PAIR_SUCCESS, char_of PPO_PAIR_REASON_SUCCESS], s1\<lparr>sys_dev := d2\<rparr>) } }"

text \<open>
  An outdoor phone asks for its account when no phone of its door has registered. \<open>odp_found\<close> is whether a row is
  a registered outdoor phone of the door.
\<close>

definition is_value :: "string option \<Rightarrow> string \<Rightarrow> bool" where
  "is_value v t \<longleftrightarrow> (case v of None \<Rightarrow> False | Some x \<Rightarrow> strcasecmp_eq x t)"

definition odp_found :: "'d eh_env \<Rightarrow> nat \<Rightarrow> 'd \<Rightarrow> int \<Rightarrow> bool run" where
  "odp_found E doorID c row =
     do { t \<leftarrow> read_column E c row (tab_type E);
          if \<not> is_value t ''ODP'' then Some False
          else do {
            st \<leftarrow> read_column E c row (tab_state E);
            if \<not> (is_value st ''connected'' \<or> is_value st ''disconnected'') then Some False
            else do {
              sub \<leftarrow> read_column E c row (tab_subtype E);
              Some (is_value sub ''front'' \<and> int doorID = odp_front E \<or>
                    \<not> is_value sub ''front'' \<and> is_value sub ''back'' \<and> int doorID = odp_back E) } } }"

fun odp_any :: "'d eh_env \<Rightarrow> nat \<Rightarrow> 'd \<Rightarrow> int list \<Rightarrow> bool run" where
  "odp_any E doorID c [] = Some False"
| "odp_any E doorID c (i # is) = do { a \<leftarrow> odp_found E doorID c (i + 1); b \<leftarrow> odp_any E doorID c is; Some (a \<or> b) }"

definition checkODPTypeExist :: "'d gw_env \<Rightarrow> homeMsgCtrlBlock \<Rightarrow> ('d, 'w) eh_sys \<Rightarrow> (tcmRet \<times> char list) run" where
  "checkODPTypeExist G prMsg s =
     do { doorID \<leftarrow> msg_byte prMsg 0;
          e \<leftarrow> odp_any (gw_eh G) doorID (dev_conf (sys_dev s)) (device_indices (gw_eh G));
          Some (if e then TCMRET_SUCCESS else TCMRET_FAILURE, []) }"

definition processODPToMFCBQueryAccountInfo ::
    "'d gw_env \<Rightarrow> 'w kernel \<Rightarrow> homeMsgCtrlBlock \<Rightarrow> ('d, 'w) eh_sys \<Rightarrow> (tcmRet \<times> char list \<times> ('d, 'w) eh_sys) run" where
  "processODPToMFCBQueryAccountInfo G K prMsg s =
     do { doorID \<leftarrow> msg_byte prMsg 0;
          if int doorID = odp_front (gw_eh G) \<or> int doorID = odp_back (gw_eh G) then do {
            let devIndex = getDeviceIndexByFd (connfd prMsg) (sys_dev s);
            (dev, s1) \<leftarrow> device_at G K devIndex s;
            case dev of None \<Rightarrow> Some (TCMRET_FAILURE, [], s1)
            | Some d \<Rightarrow> do {
                (_, d1) \<leftarrow> updateSubTypeByDeviceIndex (gw_eh G) (gw_refresh G) (int doorID) devIndex (sys_dev s1);
                let u = DeviceInfo.userName d; let p = DeviceInfo.passWord d;
                Some (TCMRET_SUCCESS, char_of (length u) # u @ char_of (length p) # p, s1\<lparr>sys_dev := d1\<rparr>) } }
          else Some (TCMRET_FAILURE, [], s) }"

definition ACK_ODP_TO_MFCB_QUERY_ACCOUNT_INFO :: "16 word" where "ACK_ODP_TO_MFCB_QUERY_ACCOUNT_INFO = 0x5080"

definition handleODPToMFCBQueryAccountInfo :: "'d gw_env \<Rightarrow> 'w kernel \<Rightarrow> homeMsgCtrlBlock \<Rightarrow> ('d, 'w) eh_sys \<Rightarrow> (tcmRet \<times> ('d, 'w) eh_sys) run" where
  "handleODPToMFCBQueryAccountInfo G K hdMsg s =
     do { (e, v0) \<leftarrow> checkODPTypeExist G hdMsg s;
          (r, val, s1) \<leftarrow> (if e \<noteq> TCMRET_SUCCESS then processODPToMFCBQueryAccountInfo G K hdMsg s else Some (TCMRET_SUCCESS, v0, s));
          if r \<noteq> TCMRET_SUCCESS then Some (TCMRET_FAILURE, s1)
          else send_msg G K (connfd hdMsg) (ssl hdMsg) ACK_ODP_TO_MFCB_QUERY_ACCOUNT_INFO (Some val) s1 }"

section \<open>Opening a door\<close>

fun outdoor_from :: "'d gw_env \<Rightarrow> 'w kernel \<Rightarrow> int \<Rightarrow> int list \<Rightarrow> ('d, 'w) eh_sys \<Rightarrow> (DeviceInfo option \<times> ('d, 'w) eh_sys) run" where
  "outdoor_from G K ot [] s = Some (None, s)"
| "outdoor_from G K ot (i # is) s =
     do { (d, s1) \<leftarrow> device_at G K (i + 1) s;
          case d of None \<Rightarrow> outdoor_from G K ot is s1
          | Some x \<Rightarrow> if dev_type x = device_odp (gw_eh G) \<and> subType x = ot \<and> dev_status x = status_connected (gw_eh G) then Some (Some x, s1)
                      else outdoor_from G K ot is s1 }"

definition getOutdoorDeviceInfoByType :: "'d gw_env \<Rightarrow> 'w kernel \<Rightarrow> int \<Rightarrow> ('d, 'w) eh_sys \<Rightarrow> (DeviceInfo option \<times> ('d, 'w) eh_sys) run" where
  "getOutdoorDeviceInfoByType G K outdoorType s =
     (if outdoorType \<noteq> odp_front (gw_eh G) \<and> outdoorType \<noteq> odp_back (gw_eh G) then Some (None, s)
      else outdoor_from G K outdoorType (device_indices (gw_eh G)) s)"

text \<open>\<^verbatim>\<open>-1\<close> as a \<^verbatim>\<open>uint16_t\<close> is what a failure returns.\<close>

definition getOutdoorKeepTime :: "'d gw_env \<Rightarrow> 'd \<Rightarrow> int \<Rightarrow> 16 word run" where
  "getOutdoorKeepTime G c outdoorType =
     do { (r, b) \<leftarrow> capi_read_table_parameter (eh_capi (gw_eh G)) c (id_door G) outdoorType (int (tab_keep_open G))
                      (Some (take MAX_VALUE_LEN (value_buf (gw_eh G))));
          if r \<noteq> 0 then Some (- 1)
          else do { x \<leftarrow> b; t \<leftarrow> str_of x;
                    case strtol 32 t 10 of (v, _, err) \<Rightarrow> if err then None else Some (word_of_int v) } }"

definition getOutdoorKeepTimeBySocket :: "'d gw_env \<Rightarrow> 'w kernel \<Rightarrow> int \<Rightarrow> ('d, 'w) eh_sys \<Rightarrow> (16 word \<times> ('d, 'w) eh_sys) run" where
  "getOutdoorKeepTimeBySocket G K ktsocket s =
     do { (d, s1) \<leftarrow> with_memory K (\<lambda>al. getDeviceInfoByFd (gw_eh G) al ktsocket) s;
          case d of None \<Rightarrow> Some (- 1, s1)
          | Some x \<Rightarrow> do { t \<leftarrow> getOutdoorKeepTime G (dev_conf (sys_dev s1)) (subType x); Some (htons (gw_big G) t, s1) } }"

text \<open>The waiting entry is installed before the type of the door is looked at.\<close>

definition processIDPToMFCBOpenDoor :: "'d gw_env \<Rightarrow> homeMsgCtrlBlock \<Rightarrow> ('d, 'w) eh_sys \<Rightarrow> (tcmRet \<times> nat \<times> ('d, 'w) eh_sys) run" where
  "processIDPToMFCBOpenDoor G prMsg s =
     do { (r, q, h) \<leftarrow> installTransMsgMap (gw_fresh G) ACK_MFCB_TO_ODP_OPEN_DOOR ACK_IDP_TO_MFCB_OPEN_DOOR (connfd prMsg) (ssl prMsg)
                         (Some ()) (trans_queue s) (trans_blocks s);
          let s1 = s\<lparr>trans_queue := q, trans_blocks := h\<rparr>;
          if r \<noteq> TCMRET_SUCCESS then Some (TCMRET_FAILURE, 0, s1)
          else do {
            door \<leftarrow> msg_byte prMsg 0;
            Some (if int door \<noteq> odp_front (gw_eh G) \<and> int door \<noteq> odp_back (gw_eh G) then TCMRET_FAILURE else TCMRET_SUCCESS, door, s1) } }"

definition handleIDPToMFCBOpenDoor :: "'d gw_env \<Rightarrow> 'w kernel \<Rightarrow> homeMsgCtrlBlock \<Rightarrow> ('d, 'w) eh_sys \<Rightarrow> (tcmRet \<times> ('d, 'w) eh_sys) run" where
  "handleIDPToMFCBOpenDoor G K hdMsg s =
     do { (r, door, s1) \<leftarrow> processIDPToMFCBOpenDoor G hdMsg s;
          if r \<noteq> TCMRET_SUCCESS then Some (TCMRET_FAILURE, s1)
          else do {
            (dev, s2) \<leftarrow> getOutdoorDeviceInfoByType G K (int door) s1;
            case dev of None \<Rightarrow> Some (TCMRET_FAILURE, s2)
            | Some d \<Rightarrow> do {
                (t, s3) \<leftarrow> getOutdoorKeepTimeBySocket G K (dev_connfd d) s2;
                send_msg G K (dev_connfd d) (dev_ssl d) CMD_MFCB_TO_ODP_OPEN_DOOR (Some (u16_bytes (gw_big G) t)) s3 } } }"

text \<open>The state of the door is written to the database with the subtype of the phone as its row.\<close>

definition write_door :: "'d gw_env \<Rightarrow> int \<Rightarrow> bool \<Rightarrow> 'd eh_dev \<Rightarrow> (int \<times> 'd eh_dev) run" where
  "write_door G row opened d =
     do { (r, c) \<leftarrow> capi_write_table_parameter (eh_capi (gw_eh G)) (dev_conf d) (id_door G) row (int (tab_door_status G))
                      (Some (if opened then ''opened'' else ''closed''));
          Some (r, d\<lparr>dev_conf := c\<rparr>) }"

definition write_flash :: "'d gw_env \<Rightarrow> ('d, 'w) eh_sys \<Rightarrow> ('d, 'w) eh_sys run" where
  "write_flash G s =
     do { (_, c) \<leftarrow> capi_write_to_flash (eh_capi (gw_eh G)) (dev_conf (sys_dev s));
          Some (s\<lparr>sys_dev := (sys_dev s)\<lparr>dev_conf := c\<rparr>\<rparr>) }"

definition processMFCBToODPOpenDoorAck :: "'d gw_env \<Rightarrow> 'w kernel \<Rightarrow> homeMsgCtrlBlock \<Rightarrow> ('d, 'w) eh_sys \<Rightarrow> (tcmRet \<times> char list \<times> ('d, 'w) eh_sys) run" where
  "processMFCBToODPOpenDoorAck G K prMsg s =
     do { (dev, s1) \<leftarrow> with_memory K (\<lambda>al. getDeviceInfoByFd (gw_eh G) al (connfd prMsg)) s;
          case dev of None \<Rightarrow> Some (TCMRET_FAILURE, [], s1)
          | Some d \<Rightarrow> do {
              st \<leftarrow> msg_byte prMsg 0;
              _ \<leftarrow> msg_byte prMsg 1;
              let opened = (st = PPO_OUTDOOR_STATUS_OPEN);
              let val = [char_of (nat (subType d mod 256)), char_of (if opened then PPO_OUTDOOR_STATUS_OPEN else PPO_OUTDOOR_STATUS_CLOSED)];
              (r, d1) \<leftarrow> write_door G (subType d) opened (sys_dev s1);
              if r \<noteq> 0 then Some (TCMRET_FAILURE, val, s1\<lparr>sys_dev := d1\<rparr>)
              else do { s2 \<leftarrow> write_flash G (s1\<lparr>sys_dev := d1\<rparr>); Some (TCMRET_SUCCESS, val, s2) } } }"

text \<open>Handing the answer on: \<^verbatim>\<open>sendOpenDoorAckToIdp\<close>, called by \<^verbatim>\<open>doTransMsgAct\<close>.\<close>

definition sendOpenDoorAckToIdp ::
    "'d gw_env \<Rightarrow> 'w kernel \<Rightarrow> char list \<Rightarrow> unit EhTransMsgMap \<Rightarrow> ('d, 'w) eh_sys \<Rightarrow> (int \<times> ('d, 'w) eh_sys) run" where
  "sendOpenDoorAckToIdp G K val transMsg s =
     do { (r, s1) \<leftarrow> send_msg G K (trans_connfd transMsg) (trans_ssl transMsg) (mapMsg transMsg) (Some val) s;
          Some (uint (ret_code r), s1) }"

definition handleMFCBToODPOpenDoorAck :: "'d gw_env \<Rightarrow> 'w kernel \<Rightarrow> homeMsgCtrlBlock \<Rightarrow> ('d, 'w) eh_sys \<Rightarrow> (tcmRet \<times> ('d, 'w) eh_sys) run" where
  "handleMFCBToODPOpenDoorAck G K hdMsg s =
     do { (r, val, s1) \<leftarrow> processMFCBToODPOpenDoorAck G K hdMsg s;
          if r \<noteq> TCMRET_SUCCESS then Some (TCMRET_FAILURE, s1)
          else do {
            (r1, q, h, s2) \<leftarrow> doTransMsgAct (sendOpenDoorAckToIdp G K val) ACK_MFCB_TO_ODP_OPEN_DOOR (trans_queue s1) (trans_blocks s1) s1;
            Some (if r1 \<noteq> TCMRET_SUCCESS then TCMRET_FAILURE else TCMRET_SUCCESS, s2\<lparr>trans_queue := q, trans_blocks := h\<rparr>) } }"

end
