(* ===== verification/Eh_Select.thy ===== *)
theory Eh_Select
  imports Eh_Gateway
begin

text \<open>
  The select thread of the home gateway (\<^verbatim>\<open>waitforRemoteMsgbySelect\<close> in \<^verbatim>\<open>ehSslSocket.c\<close>, built without
  \<^verbatim>\<open>SSL_CONNECT\<close> and with \<^verbatim>\<open>SOCKET_ERROR_CHECK_SWITCH\<close>, which the file defines): new connections, and the messages that
  are let into the queue.
\<close>

section \<open>New connections\<close>

text \<open>
  \<open>accept\<close> is retried while it is interrupted. \<open>sock_err\<close> is what the variable \<^verbatim>\<open>error\<close> holds after
  \<^verbatim>\<open>getsockopt\<close> has been asked for the error of a socket; -1 is the value the code looks for (the variable with the
  length is never set, so the call may leave it as it was). After a failed \<open>accept\<close> both sockets are asked, the
  new one only when the other has no error, and nothing more is done. \<open>peer_mac\<close> is what \<^verbatim>\<open>getPeerMacbySocketFd\<close> finds out about the other
  side, \<open>None\<close> for an error.
\<close>

definition manage_client :: "'d gw_env \<Rightarrow> 'w kernel \<Rightarrow> int \<Rightarrow> string \<Rightarrow> ('d, 'w) eh_sys \<Rightarrow> ('d, 'w) eh_sys run" where
  "manage_client G K connFd peerDeviceMac s =
     do { devIndex \<leftarrow> getDeviceIndexByMac (gw_eh G) (Some peerDeviceMac) (sys_dev s);
          (dev, s1) \<leftarrow> device_at G K devIndex s;
          d1 \<leftarrow> watch_fd connFd (sys_dev s1);
          let d2 = (if dev \<noteq> None
                    then d1\<lparr>g_devArray := (g_devArray d1)[nat (devIndex - 1) := (connFd, snd (g_devArray d1 ! nat (devIndex - 1)))]\<rparr>
                    else d1);
          Some (s1\<lparr>sys_dev := d2\<rparr>) }"

definition accept_failed :: "(int \<Rightarrow> 'w \<Rightarrow> int \<times> 'w) \<Rightarrow> int \<Rightarrow> int \<Rightarrow> 'w \<Rightarrow> 'w" where
  "accept_failed sock_err actualFd connFd w =
     (case sock_err actualFd w of (e, w1) \<Rightarrow> if e = - 1 then w1 else snd (sock_err connFd w1))"

definition accept_client ::
    "'d gw_env \<Rightarrow> 'w kernel \<Rightarrow> (int \<Rightarrow> 'w \<Rightarrow> int \<times> 'w) \<Rightarrow> (int \<Rightarrow> 'w \<Rightarrow> string option \<times> 'w) \<Rightarrow> ('d, 'w) eh_sys \<Rightarrow> ('d, 'w) eh_sys run" where
  "accept_client G K sock_err peer_mac s =
     (case sock_err (gehServerFd (sys_dev s)) (sys_world s) of (e, w0) \<Rightarrow>
        if e = - 1 then Some (s\<lparr>sys_world := w0\<rparr>)
        else case k_accept K (gehServerFd (sys_dev s)) w0 of (connFd, w1) \<Rightarrow>
          if connFd < 3 then Some (s\<lparr>sys_world := accept_failed sock_err (gehServerFd (sys_dev s)) connFd w1\<rparr>)
          else case peer_mac connFd w1 of (pm, w2) \<Rightarrow>
            let s2 = s\<lparr>sys_world := w2\<rparr> in
            case pm of None \<Rightarrow> Some (s2\<lparr>sys_dev := (sys_dev s2)\<lparr>closed_fds := closed_fds (sys_dev s2) @ [connFd]\<rparr>\<rparr>)
            | Some m \<Rightarrow> manage_client G K connFd m s2)"

section \<open>Which messages are let in\<close>

definition gidpPairFailedTimes :: int where "gidpPairFailedTimes = 3"

text \<open>The last condition of the code compares the type with two different numbers: one of them is always unequal.\<close>

definition admitted :: "'d eh_env \<Rightarrow> DeviceInfo \<Rightarrow> 16 word \<Rightarrow> bool" where
  "admitted E d et \<longleftrightarrow>
     (dev_status d = status_pairing E \<and> et = CMD_IDP_TO_MFCB_REGISTER \<and> pairFailedTimes d < gidpPairFailedTimes) \<or>
     (dev_status d = status_disconnected E \<and> et = CMD_IDP_TO_MFCB_REGISTER \<and> pairFailedTimes d < gidpPairFailedTimes) \<or>
     (dev_status d = status_pairing E \<and> et = CMD_ODP_TO_MFCB_REGISTER \<and> pairFailedTimes d < gidpPairFailedTimes) \<or>
     (dev_status d = status_disconnected E \<and> et = CMD_ODP_TO_MFCB_REGISTER \<and> pairFailedTimes d < gidpPairFailedTimes) \<or>
     (dev_status d = status_pairing E \<and> et = CMD_ODP_TO_MFCB_QUERY_ACCOUNT_INFO \<and> pairFailedTimes d < gidpPairFailedTimes) \<or>
     (dev_status d = status_disconnected E \<and> et = CMD_ODP_TO_MFCB_QUERY_ACCOUNT_INFO \<and> pairFailedTimes d < gidpPairFailedTimes) \<or>
     (dev_status d = status_connected E \<and> (et \<noteq> CMD_IDP_TO_MFCB_REGISTER \<or> et \<noteq> CMD_ODP_TO_MFCB_REGISTER))"

text \<open>
  What happens to a message that was read. The result tells whether it was queued, and so whether the flag of the
  message threads is raised.
\<close>

definition enqueue_msg :: "'d gw_env \<Rightarrow> 'w kernel \<Rightarrow> DeviceInfo \<Rightarrow> buf \<Rightarrow> ('d, 'w) eh_sys \<Rightarrow> (bool \<times> ('d, 'w) eh_sys) run" where
  "enqueue_msg G K d recvHomeMsg s =
     do { (r, m, q, w1) \<leftarrow> convertHomeMsgToCtrlBlock K (gw_big G) (Some recvHomeMsg) (dev_connfd d) (dev_ssl d) (g_seqNum s) (sys_world s);
          let s1 = s\<lparr>g_seqNum := q, sys_world := w1\<rparr>;
          case m of None \<Rightarrow> Some (False, s1)
          | Some b \<Rightarrow> do {
              let a = msg_fresh G (msg_blocks s1);
              (r1, mq, h) \<leftarrow> putEhMsgToQueue (gehomeMsgQueue s1) a ((msg_blocks s1)(a \<mapsto> \<lparr>item = b, link = 0\<rparr>));
              Some (r1 = TCMRET_SUCCESS, s1\<lparr>gehomeMsgQueue := mq, msg_blocks := h\<rparr>) } }"

definition receive_msg :: "'d gw_env \<Rightarrow> 'w kernel \<Rightarrow> DeviceInfo \<Rightarrow> buf \<Rightarrow> ('d, 'w) eh_sys \<Rightarrow> (bool \<times> ('d, 'w) eh_sys) run" where
  "receive_msg G K d recvHomeMsg s =
     do { b \<leftarrow> cvtNtoHEndian (gw_big G) recvHomeMsg;
          et \<leftarrow> getMsgEventType (gw_big G) b;
          if \<not> admitted (gw_eh G) d et then Some (False, s)
          else do {
            r \<leftarrow> checkHomeMsg (gw_big G) (Some b);
            if r \<noteq> TCMRET_SUCCESS then Some (False, s) else enqueue_msg G K d b s } }"

section \<open>One client that is ready\<close>

definition read_msg :: "'d gw_env \<Rightarrow> 'w kernel \<Rightarrow> int \<Rightarrow> ('d, 'w) eh_sys \<Rightarrow> (tcmRet \<times> buf option \<times> ('d, 'w) eh_sys) run" where
  "read_msg G K fd s = do { (r, b, w) \<leftarrow> ehRead K (gw_big G) fd (sys_world s); Some (r, b, s\<lparr>sys_world := w\<rparr>) }"

text \<open>
  A client that has a device. After a failed read that is no disconnection the code goes on with the message, and the
  pointer to it is \<^verbatim>\<open>NULL\<close>.
\<close>

definition serve_device :: "'d gw_env \<Rightarrow> 'w kernel \<Rightarrow> int \<Rightarrow> int \<Rightarrow> DeviceInfo \<Rightarrow> ('d, 'w) eh_sys \<Rightarrow> (bool \<times> ('d, 'w) eh_sys) run" where
  "serve_device G K actualFd devIndex d s =
     do { (ret, recv, s1) \<leftarrow> read_msg G K (dev_connfd d) s;
          if ret = TCMRET_SUCCESS then do { b \<leftarrow> recv; receive_msg G K d b s1 }
          else if ret = TCMRET_DISCONNECTED then do {
            d1 \<leftarrow> drop_fd actualFd (sys_dev s1);
            let d2 = zero_connfd devIndex d1;
            d3 \<leftarrow> (if dev_status d = status_connected (gw_eh G) then disconnect_device G devIndex d2 else Some d2);
            Some (False, releaseTokenByFD (dev_connfd d) (s1\<lparr>sys_dev := d3\<rparr>)) }
          else None }"

definition sendRegisterNoDeviceACK :: "'d gw_env \<Rightarrow> 'w kernel \<Rightarrow> int \<Rightarrow> nat \<Rightarrow> ('d, 'w) eh_sys \<Rightarrow> (tcmRet \<times> ('d, 'w) eh_sys) run" where
  "sendRegisterNoDeviceACK G K fd sl s =
     send_msg G K fd sl ACK_IDP_TO_MFCB_REGISTER (Some [char_of PPI_PAIR_FAILED, char_of PPI_PAIR_REASON_CANNOT_FIND]) s"

text \<open>
  A client that has no device yet: the number in the header of its message names the device. \<^verbatim>\<open>sslArray\<close> holds no
  pointer. A device that cannot be copied is a \<^verbatim>\<open>NULL\<close> pointer that is used.
\<close>

definition match_number :: "'d gw_env \<Rightarrow> 'w kernel \<Rightarrow> int \<Rightarrow> buf \<Rightarrow> ('d, 'w) eh_sys \<Rightarrow> (DeviceInfo option \<times> ('d, 'w) eh_sys) run" where
  "match_number G K actualFd recv s =
     do { number \<leftarrow> getMsgNumber recv;
          deviceIndex \<leftarrow> getDeviceIndexByNumber (gw_eh G) (Some (dec number)) (sys_dev s);
          if deviceIndex \<le> 0 then do {
            (_, s1) \<leftarrow> sendRegisterNoDeviceACK G K actualFd 0 s;
            d1 \<leftarrow> drop_fd actualFd (sys_dev s1);
            Some (None, s1\<lparr>sys_dev := d1\<rparr>) }
          else if length (g_devArray (sys_dev s)) < nat deviceIndex then None
          else do {
            let s1 = s\<lparr>sys_dev := (sys_dev s)\<lparr>g_devArray := (g_devArray (sys_dev s))[nat (deviceIndex - 1) := (actualFd, 0)]\<rparr>\<rparr>;
            (dev, s2) \<leftarrow> with_memory K (\<lambda>al. getDeviceInfoByNumber (gw_eh G) al (Some (dec number))) s1;
            d \<leftarrow> dev;
            Some (Some d, s2) } }"

definition serve_stranger :: "'d gw_env \<Rightarrow> 'w kernel \<Rightarrow> int \<Rightarrow> ('d, 'w) eh_sys \<Rightarrow> (bool \<times> ('d, 'w) eh_sys) run" where
  "serve_stranger G K actualFd s =
     do { (ret, recv, s1) \<leftarrow> read_msg G K actualFd s;
          if ret = TCMRET_DISCONNECTED then do { d1 \<leftarrow> drop_fd actualFd (sys_dev s1); Some (False, s1\<lparr>sys_dev := d1\<rparr>) }
          else if ret \<noteq> TCMRET_SUCCESS then Some (False, s1)
          else do {
            b \<leftarrow> recv;
            (dev, s2) \<leftarrow> match_number G K actualFd b s1;
            case dev of None \<Rightarrow> Some (False, s2) | Some d \<Rightarrow> receive_msg G K d b s2 } }"

text \<open>
  A socket with an error is closed before anything is read from it; the entry of its device and the token stay as
  they are.
\<close>

definition serve_ready :: "'d gw_env \<Rightarrow> 'w kernel \<Rightarrow> int \<Rightarrow> ('d, 'w) eh_sys \<Rightarrow> (bool \<times> ('d, 'w) eh_sys) run" where
  "serve_ready G K actualFd s =
     do { let devIndex = getDeviceIndexByFd actualFd (sys_dev s);
          (dev, s1) \<leftarrow> device_at G K devIndex s;
          case dev of Some d \<Rightarrow> serve_device G K actualFd devIndex d s1 | None \<Rightarrow> serve_stranger G K actualFd s1 }"

definition serve_client ::
    "'d gw_env \<Rightarrow> 'w kernel \<Rightarrow> (int \<Rightarrow> 'w \<Rightarrow> int \<times> 'w) \<Rightarrow> int \<Rightarrow> ('d, 'w) eh_sys \<Rightarrow> (bool \<times> ('d, 'w) eh_sys) run" where
  "serve_client G K sock_err actualFd s =
     (case sock_err actualFd (sys_world s) of (e, w) \<Rightarrow>
        let s0 = s\<lparr>sys_world := w\<rparr> in
        if e = - 1 then do { d1 \<leftarrow> drop_fd actualFd (sys_dev s0); Some (False, s0\<lparr>sys_dev := d1\<rparr>) }
        else serve_ready G K actualFd s0)"

text \<open>
  One round of the loop: \<open>rdy\<close> is what \<^verbatim>\<open>select\<close> left in the copy of the set. The number is how often the flag was raised.
  A \<^verbatim>\<open>select\<close> that fails or runs into its timeout is no round: the code asks for the errors of the sockets at most, and
  calls it again.
\<close>

fun select_from ::
    "'d gw_env \<Rightarrow> 'w kernel \<Rightarrow> (int \<Rightarrow> 'w \<Rightarrow> int \<times> 'w) \<Rightarrow> (int \<Rightarrow> 'w \<Rightarrow> string option \<times> 'w) \<Rightarrow> int set \<Rightarrow> int list \<Rightarrow> ('d, 'w) eh_sys \<Rightarrow> (nat \<times> ('d, 'w) eh_sys) run" where
  "select_from G K sock_err peer_mac rdy [] s = Some (0, s)"
| "select_from G K sock_err peer_mac rdy (fd # fds) s =
     do { (queued, s1) \<leftarrow> (if fd \<notin> rdy then Some (False, s)
                            else if fd = gehServerFd (sys_dev s) then map_option (Pair False) (accept_client G K sock_err peer_mac s)
                            else serve_client G K sock_err fd s);
          (n, s2) \<leftarrow> select_from G K sock_err peer_mac rdy fds s1;
          Some (n + of_bool queued, s2) }"

definition select_round ::
    "'d gw_env \<Rightarrow> 'w kernel \<Rightarrow> (int \<Rightarrow> 'w \<Rightarrow> int \<times> 'w) \<Rightarrow> (int \<Rightarrow> 'w \<Rightarrow> string option \<times> 'w) \<Rightarrow> int set \<Rightarrow> ('d, 'w) eh_sys \<Rightarrow> (nat \<times> ('d, 'w) eh_sys) run" where
  "select_round G K sock_err peer_mac rdy s = select_from G K sock_err peer_mac rdy (map int [0..<nat (gehMaxFd (sys_dev s) + 1)]) s"

end
