(* ===== verification/Eh_Device_View.thy ===== *)
theory Eh_Device_View
  imports Eh_Device
begin

text \<open>
  The devices of the home gateway as the configuration database has them: what a lookup finds and what a device
  record holds, in terms of the rows and values (\<open>cell\<close>) of the database.
\<close>

section \<open>Columns\<close>

text \<open>
  A database with the interface \<open>capi_database\<close> in a good state, whose values fit the local arrays. \<open>view\<close> gives its rows, \<open>valid\<close> tells
  the identifiers of applications.
\<close>

definition device_db :: "'d eh_env \<Rightarrow> ('d \<Rightarrow> rows_view) \<Rightarrow> ('d \<Rightarrow> bool) \<Rightarrow> (int \<Rightarrow> bool) \<Rightarrow> 'd \<Rightarrow> bool" where
  "device_db E view good valid c \<longleftrightarrow> capi_database (eh_capi E) view good valid \<and> good c \<and> valid (id_unit_info E) \<and>
     MAXTABLE_DEVICES E < 256 \<and> (\<forall>x k s. cell (view c) (id_unit_info E, x, k) = Some s \<longrightarrow> length s < 639)"

lemma device_dbE:
  assumes "device_db E view good valid c"
  obtains "capi_database (eh_capi E) view good valid" and "good c" and "valid (id_unit_info E)" and "MAXTABLE_DEVICES E < 256"
    and "\<And>x k s. cell (view c) (id_unit_info E, x, k) = Some s \<Longrightarrow> length s < 639"
  using assms by (auto simp: device_db_def)

lemma length_value_buf [simp]: "length (value_buf E) = 641"
  by (simp add: value_buf_def MAX_VALUE_LEN_def)

lemma read_column_view:
  assumes "device_db E view good valid c" and "1 \<le> row" and "row < 256" and "is_int (int column)"
  shows "read_column E c row column = Some (cell (view c) (id_unit_info E, row, int column))"
proof -
  from assms(1) have d: "capi_database (eh_capi E) view good valid" "good c" "valid (id_unit_info E)"
    "\<forall>s. cell (view c) (id_unit_info E, row, int column) = Some s \<longrightarrow> length s < 639" by (auto elim: device_dbE)
  have b: "MAX_VALUE_LEN \<le> length (value_buf E)" by (simp add: MAX_VALUE_LEN_def)
  from capi_database.table_parameter_read[OF d(1-3) assms(2-4) b d(4)] obtain b1 where
    "capi_read_table_parameter (eh_capi E) c (id_unit_info E) row (int column) (Some (value_buf E)) =
      Some (if cell (view c) (id_unit_info E, row, int column) = None then - 1 else 0, Some b1)"
    "cell (view c) (id_unit_info E, row, int column) \<noteq> None \<Longrightarrow> str_of b1 = cell (view c) (id_unit_info E, row, int column)" by blast
  then show ?thesis by (cases "cell (view c) (id_unit_info E, row, int column)") (auto simp: read_column_def)
qed

definition column_is :: "'d eh_env \<Rightarrow> rows_view \<Rightarrow> nat \<Rightarrow> string \<Rightarrow> int \<Rightarrow> bool" where
  "column_is E t column v row \<longleftrightarrow>
     (case cell t (id_unit_info E, row, int column) of None \<Rightarrow> False | Some x \<Rightarrow> strcasecmp_eq x v)"

lemma device_with_view:
  assumes "device_db E view good valid c" and "is_int (int column)" and "\<forall>i \<in> set is. 0 \<le> i \<and> i < 255"
  shows "device_with E c column v is =
    Some (case find (\<lambda>i. column_is E (view c) column v (i + 1)) is of None \<Rightarrow> INVALID_DEVICE_INDEX | Some i \<Rightarrow> i + 1)"
  using assms(3)
proof (induction "is")
  case (Cons i "is")
  have "read_column E c (i + 1) column = Some (cell (view c) (id_unit_info E, i + 1, int column))"
    using Cons.prems by (intro read_column_view[OF assms(1) _ _ assms(2)]) auto
  then show ?case using Cons by (auto simp: column_is_def split: option.splits)
qed simp

lemma indices_range: "device_db E view good valid c \<Longrightarrow> \<forall>i \<in> set (device_indices E). 0 \<le> i \<and> i < 255"
  by (auto simp: device_indices_def device_db_def)

section \<open>Rows\<close>

definition es_value :: "(string \<times> string) list \<Rightarrow> nat \<Rightarrow> string" where
  "es_value es column = snd (es ! (column - 1))"

definition columns_ok :: "'d eh_env \<Rightarrow> bool" where
  "columns_ok E \<longleftrightarrow> (\<forall>p \<in> {tab_name E, tab_type E, tab_subtype E, tab_account E, tab_password E, tab_state E, tab_failures E, tab_mac E, tab_ip E}.
     1 \<le> p \<and> p < tab_para_end E)"

definition row_fits :: "'d eh_env \<Rightarrow> (string \<times> string) list \<Rightarrow> bool" where
  "row_fits E es \<longleftrightarrow> length es = tab_para_end E - 1 \<and> length (es_value es (tab_mac E)) < 18 \<and> length (es_value es (tab_ip E)) < 16 \<and>
     length (es_value es (tab_name E)) < 12 \<and> length (es_value es (tab_account E)) < 10 \<and> length (es_value es (tab_password E)) < 10 \<and>
     \<not> snd (snd (strtol 32 (es_value es (tab_failures E)) 10))"

definition row_device :: "'d eh_env \<Rightarrow> (string \<times> string) list \<Rightarrow> int \<times> nat \<Rightarrow> DeviceInfo" where
  "row_device E es conn =
     \<lparr>mac = es_value es (tab_mac E), ip = es_value es (tab_ip E), dev_type = getTypeID E (es_value es (tab_type E)),
      subType = getSubTypeID E (es_value es (tab_subtype E)), dev_status = getStatusID E (es_value es (tab_state E)),
      desc = es_value es (tab_name E), userName = es_value es (tab_account E), passWord = es_value es (tab_password E),
      pairFailedTimes = fst (strtol 32 (es_value es (tab_failures E)) 10), dev_connfd = fst conn, dev_ssl = snd conn\<rparr>"

lemma strtol_empty: "fst (strtol 32 [] 10) = 0"
  by code_simp

lemma row_value_read:
  assumes "holds_row es bs" and "length bs = length es" and "1 \<le> p" and "p \<le> length es"
  shows "row_value bs p = Some (es_value es p)"
proof -
  have "p - 1 < length es" using assms(3,4) by simp
  then obtain z where "bs ! (p - 1) = Some z" "str_of z = Some (snd (es ! (p - 1)))" using assms(1) by (auto simp: holds_row_def)
  then show ?thesis using assms(2-4) by (simp add: row_value_def es_value_def)
qed

lemma row_lengths:
  assumes "device_db E view good valid c" and "view c (id_unit_info E, x) = Some es"
  shows "\<forall>e \<in> set es. length (snd e) < 639"
proof
  fix e assume "e \<in> set es"
  then obtain k where k: "k < length es" "es ! k = e" by (auto simp: in_set_conv_nth)
  then have "cell (view c) (id_unit_info E, x, int k + 1) = Some (snd e)" using assms(2) by (simp add: nth_value_def)
  then show "length (snd e) < 639" using assms(1) unfolding device_db_def by blast
qed

lemma unit_row_read:
  assumes "device_db E view good valid c" and "1 \<le> i" and "i < 256" and "2 \<le> tab_para_end E" and "bufs_ok (tab_para_end E - 1) bs"
  shows "view c (id_unit_info E, i) = None \<Longrightarrow>
      \<exists>bs1. capi_read_table_row (eh_capi E) c (id_unit_info E) i bs = Some (- 1, bs1) \<and> bufs_ok (tab_para_end E - 1) bs1"
    and "view c (id_unit_info E, i) = Some es \<Longrightarrow> length es = tab_para_end E - 1 \<Longrightarrow>
      \<exists>bs1. capi_read_table_row (eh_capi E) c (id_unit_info E) i bs = Some (0, bs1) \<and> bufs_ok (tab_para_end E - 1) bs1 \<and>
        (\<forall>p. 1 \<le> p \<and> p < tab_para_end E \<longrightarrow> row_value bs1 p = Some (es_value es p))"
proof -
  from assms(1) have d: "capi_database (eh_capi E) view good valid" "good c" "valid (id_unit_info E)" by (auto elim: device_dbE)
  have n: "0 < tab_para_end E - 1" using assms(4) by simp
  show "view c (id_unit_info E, i) = None \<Longrightarrow>
      \<exists>bs1. capi_read_table_row (eh_capi E) c (id_unit_info E) i bs = Some (- 1, bs1) \<and> bufs_ok (tab_para_end E - 1) bs1"
    using capi_database.row_absent[OF d assms(2,3) n assms(5)] by metis
  assume es: "view c (id_unit_info E, i) = Some es" "length es = tab_para_end E - 1"
  from capi_database.row_present[OF d assms(2,3) n assms(5) es row_lengths[OF assms(1) es(1)]] obtain bs1 where
    bs1: "capi_read_table_row (eh_capi E) c (id_unit_info E) i bs = Some (0, bs1)" "bufs_ok (tab_para_end E - 1) bs1" "holds_row es bs1" by metis
  have "row_value bs1 p = Some (es_value es p)" if "1 \<le> p" "p < tab_para_end E" for p
    using that es(2) bs1(2) by (intro row_value_read[OF bs1(3)]) (simp_all add: bufs_ok_def)
  then show "\<exists>bs1. capi_read_table_row (eh_capi E) c (id_unit_info E) i bs = Some (0, bs1) \<and> bufs_ok (tab_para_end E - 1) bs1 \<and>
        (\<forall>p. 1 \<le> p \<and> p < tab_para_end E \<longrightarrow> row_value bs1 p = Some (es_value es p))" using bs1 by blast
qed

lemma first_bufs: "bufs_ok n (replicate n (Some ((value_buf E)[0 := NUL])))"
  by (simp add: bufs_ok_def MAX_VALUE_LEN_def)

lemma device_row_read:
  assumes "device_db E view good valid (dev_conf s)" and "length (g_devArray s) = MAXTABLE_DEVICES E" and "columns_ok E"
    and "\<And>es. view (dev_conf s) (id_unit_info E, i) = Some es \<Longrightarrow> row_fits E es"
  shows "getDeviceInfoByDeviceIndex E True i s =
    Some (if 1 \<le> i \<and> i \<le> int (MAXTABLE_DEVICES E)
          then map_option (\<lambda>es. row_device E es (g_devArray s ! nat (i - 1))) (view (dev_conf s) (id_unit_info E, i)) else None)"
proof (cases "1 \<le> i \<and> i \<le> int (MAXTABLE_DEVICES E)")
  case True
  have i: "1 \<le> i" "i < 256" "\<not> (i \<le> 0 \<or> i > int (MAXTABLE_DEVICES E))" "\<not> length (g_devArray s) < nat i"
    using True assms(1,2) by (auto elim: device_dbE)
  have pe: "2 \<le> tab_para_end E" using assms(3) by (auto simp: columns_ok_def)
  note read = unit_row_read[OF assms(1) i(1,2) pe first_bufs]
  show ?thesis
  proof (cases "view (dev_conf s) (id_unit_info E, i)")
    case None
    from read(1)[OF None] obtain vs where
      "capi_read_table_row (eh_capi E) (dev_conf s) (id_unit_info E) i (replicate (tab_para_end E - 1) (Some ((value_buf E)[0 := NUL]))) = Some (- 1, vs)"
      by blast
    then show ?thesis using None True i(3,4) by (simp add: getDeviceInfoByDeviceIndex_def)
  next
    case (Some es)
    note fit = assms(4)[OF Some]
    then have "length es = tab_para_end E - 1" by (simp add: row_fits_def)
    from read(2)[OF Some this] obtain vs where
      r: "capi_read_table_row (eh_capi E) (dev_conf s) (id_unit_info E) i (replicate (tab_para_end E - 1) (Some ((value_buf E)[0 := NUL]))) = Some (0, vs)"
        "\<And>p. 1 \<le> p \<Longrightarrow> p < tab_para_end E \<Longrightarrow> row_value vs p = Some (es_value es p)" by blast
    have v: "row_value vs (tab_type E) = Some (es_value es (tab_type E))" "row_value vs (tab_subtype E) = Some (es_value es (tab_subtype E))"
      "row_value vs (tab_state E) = Some (es_value es (tab_state E))" "row_value vs (tab_failures E) = Some (es_value es (tab_failures E))"
      "row_value vs (tab_mac E) = Some (es_value es (tab_mac E))" "row_value vs (tab_ip E) = Some (es_value es (tab_ip E))"
      "row_value vs (tab_name E) = Some (es_value es (tab_name E))" "row_value vs (tab_account E) = Some (es_value es (tab_account E))"
      "row_value vs (tab_password E) = Some (es_value es (tab_password E))"
      using assms(3) r(2) by (simp_all add: columns_ok_def)
    obtain k z where st: "strtol 32 (es_value es (tab_failures E)) 10 = (k, z, False)"
      using fit by (cases "strtol 32 (es_value es (tab_failures E)) 10") (auto simp: row_fits_def)
    have f: "(if es_value es (tab_failures E) = [] then Some 0
        else case strtol 32 (es_value es (tab_failures E)) 10 of (v, _, err) \<Rightarrow> if err then None else Some v) = Some k"
      using st strtol_empty by (cases "es_value es (tab_failures E) = []") auto
    show ?thesis
      using Some True i(3,4) r(1) v f st fit
      by (simp add: getDeviceInfoByDeviceIndex_def createDevice_def copy_field_def row_device_def row_fits_def
          LEN_OF_MAC_def MAX_LEN_IP_def MAX_LEN_DEVICE_DESC_def LEN_OF_USERNAME_def LEN_OF_PASSWORD_def)
  qed
qed (auto simp: getDeviceInfoByDeviceIndex_def)

lemma device_lookup:
  assumes "device_db E view good valid (dev_conf s)" and "is_int (int (tab_mac E))" and "is_int (int (tab_account E))"
  shows "getDeviceIndexByMac E (Some v) s =
      Some (case find (\<lambda>i. column_is E (view (dev_conf s)) (tab_mac E) v (i + 1)) (device_indices E) of None \<Rightarrow> INVALID_DEVICE_INDEX | Some i \<Rightarrow> i + 1)"
    and "getDeviceIndexByNumber E (Some v) s =
      Some (case find (\<lambda>i. column_is E (view (dev_conf s)) (tab_account E) v (i + 1)) (device_indices E) of None \<Rightarrow> INVALID_DEVICE_INDEX | Some i \<Rightarrow> i + 1)"
  using device_with_view[OF assms(1,2) indices_range[OF assms(1)]] device_with_view[OF assms(1,3) indices_range[OF assms(1)]]
  by (simp_all add: getDeviceIndexByMac_def getDeviceIndexByNumber_def)

section \<open>A sample database\<close>

text \<open>The table of the small memory with a second row: two devices, of which the second has the number 101.\<close>

definition unit_env :: "conf eh_env" where
  "unit_env = demo_env\<lparr>id_unit_info := 1, tab_para_end := 3, tab_name := 1, tab_type := 1, tab_subtype := 1, tab_account := 2,
     tab_password := 2, tab_state := 2, tab_failures := 1, tab_mac := 1, tab_ip := 1,
     getStatusID := (\<lambda>t. if t = ''101'' then 4 else 5)\<rparr>"

lemma unit_rows:
  assumes "NUL \<notin> set u" and "NUL \<notin> set w" and "length u < 639" and "length w < 639"
  shows "\<exists>c. conflib_good c \<and> device_db unit_env conflib_view conflib_good app_range c \<and> columns_ok unit_env \<and>
     conflib_view c = (tbl demo_shm)((1, 2) \<mapsto> [(''mac'', u), (''host'', w)]) \<and> (\<forall>k s. cell (conflib_view c) k = Some s \<longrightarrow> length s < 639)"
proof -
  let ?v = "[Some u, Some w]"
  have a: "row_args demo_tab 1 3 3 demo_names ?v"
    by (rule demo_row_args) (use assms(1,2) in \<open>simp_all add: c_value_def Entity.nullstr_def\<close>)
  have e: "new_entries demo_names 0 ?v = [(''mac'', u), (''host'', w)]"
    using assms(3,4) by (simp add: demo_names_def Entity.nullstr_def MAX_NAME_LEN_def MAX_VALUE_LEN_def)
  have "added demo_conf demo_shm 1 2 3 demo_names ?v (config_api_add_table_row demo_tab demo_conf 1 2 ?v)"
    by (rule add_given(3)[OF demo_ready demo_range(1) demo_app a]) (simp_all add: demo_tbl demo_free)
  then obtain m where m: "wf_shm m" "tbl m = (tbl demo_shm)((1, 2) \<mapsto> [(''mac'', u), (''host'', w)])"
    using e by (auto simp: added_def demo_free numeral_2_eq_2)
  let ?c = "written demo_conf 1 m"
  have r: "ready ?c m" by (rule ready_written[OF demo_ready m(1)])
  have l: "length s < 639" if "cfg m (a, x, k) = Some s" for a x k s
    using that assms(3,4) unfolding cfg.simps m(2)
    by (auto simp: tbl_tree[OF demo_represents demo_numbered] tree_lists_def demo_tree_def app_lists_def row_number_def entry_def
        cstr_pad nth_value_def nth_Cons split: if_splits option.splits nat.splits)
  have v: "conflib_good ?c" "conflib_view ?c = tbl m" using ready_view[OF r] by simp_all
  have "device_db unit_env conflib_view conflib_good app_range ?c"
    using v l conflib.capi_database_axioms by (simp add: device_db_def unit_env_def demo_env_def demo_range cell_tbl del: cell.simps)
  moreover have "columns_ok unit_env" by (simp add: columns_ok_def unit_env_def)
  ultimately show ?thesis using v m(2) l by (intro exI[of _ ?c]) (simp add: cell_tbl[of m, symmetric])
qed

lemma unit_conf:
  "\<exists>c. device_db unit_env conflib_view conflib_good app_range c \<and> columns_ok unit_env \<and>
     conflib_view c (1, 1) = Some [(''mac'', ''aa''), (''host'', ''printer'')] \<and> conflib_view c (1, 2) = Some [(''mac'', ''bb''), (''host'', ''101'')]"
proof -
  obtain c where "device_db unit_env conflib_view conflib_good app_range c" "columns_ok unit_env"
    "conflib_view c = (tbl demo_shm)((1, 2) \<mapsto> [(''mac'', ''bb''), (''host'', ''101'')])"
    using unit_rows[of "''bb''" "''101''"] by auto
  then show ?thesis by (intro exI[of _ c]) (simp add: demo_tbl)
qed

lemma unit_fits:
  "row_fits unit_env [(''mac'', ''bb''), (''host'', ''101'')]" "row_fits unit_env [(''mac'', ''aa''), (''host'', ''printer'')]"
proof -
  have "\<not> snd (snd (strtol 32 ''bb'' 10))" "\<not> snd (snd (strtol 32 ''aa'' 10))" by code_simp+
  then show "row_fits unit_env [(''mac'', ''bb''), (''host'', ''101'')]" "row_fits unit_env [(''mac'', ''aa''), (''host'', ''printer'')]"
    by (simp_all add: row_fits_def unit_env_def es_value_def)
qed

text \<open>A device record holds what the row of its device has in the database and the connection of its number; for a
  number without a row, or out of range, there is none.
\<close>
lemma device_of_row:
  assumes "device_db E view good valid (dev_conf s)" and "length (g_devArray s) = MAXTABLE_DEVICES E" and "columns_ok E"
    and "\<And>es. view (dev_conf s) (id_unit_info E, i) = Some es \<Longrightarrow> row_fits E es"
  shows "getDeviceInfoByDeviceIndex E True i s =
    Some (if 1 \<le> i \<and> i \<le> int (MAXTABLE_DEVICES E)
          then map_option (\<lambda>es. row_device E es (g_devArray s ! nat (i - 1))) (view (dev_conf s) (id_unit_info E, i)) else None)"
  by (rule device_row_read[OF assms])

lemma device_of_row_witness:
  "\<exists>c. getDeviceInfoByDeviceIndex unit_env True 2 (demo_dev c) = Some (Some (row_device unit_env [(''mac'', ''bb''), (''host'', ''101'')] (- 1, 0)))"
proof -
  from unit_conf obtain c where c: "device_db unit_env conflib_view conflib_good app_range c" "columns_ok unit_env"
    "conflib_view c (1, 2) = Some [(''mac'', ''bb''), (''host'', ''101'')]" by blast
  have u: "id_unit_info unit_env = 1" "MAXTABLE_DEVICES unit_env = 2" by (simp_all add: unit_env_def demo_env_def)
  from device_of_row[of unit_env conflib_view conflib_good app_range "demo_dev c" 2] c u unit_fits(1) show ?thesis
    by (intro exI[of _ c]) (auto simp: demo_dev_def)
qed

end
