(* ===== verification/Eh_Gateway_Props.thy ===== *)
theory Eh_Gateway_Props
  imports Eh_Select Eh_Device_View
begin

text \<open>
  The work of the home gateway: the token is a lock, a silent connection is given up, a phone registers with its account only,
  a failed request to open a door still waits for an answer, and what the select thread lets into the queue.
\<close>

section \<open>What the helpers leave alone\<close>

lemma with_memory_world:
  assumes "with_memory K f s = Some (d, s1)"
  shows "\<exists>w. s1 = s\<lparr>sys_world := w\<rparr>"
proof -
  have "s1 = s \<or> s1 = s\<lparr>sys_world := snd (k_alloc K (sys_world s))\<rparr>"
    using assms by (cases "k_alloc K (sys_world s)") (auto simp: with_memory_def run_simps)
  moreover have "s = s\<lparr>sys_world := sys_world s\<rparr>" by simp
  ultimately show ?thesis by metis
qed

lemma device_at_world: "device_at G K i s = Some (d, s1) \<Longrightarrow> \<exists>w. s1 = s\<lparr>sys_world := w\<rparr>"
  unfolding device_at_def by (rule with_memory_world)

lemma send_msg_world: "send_msg G K fd sl et val s = Some (r, s1) \<Longrightarrow> \<exists>q w. s1 = s\<lparr>g_seqNum := q, sys_world := w\<rparr>"
  by (auto simp: send_msg_def run_simps)

lemma read_msg_world: "read_msg G K fd s = Some (r, b, s1) \<Longrightarrow> \<exists>w. s1 = s\<lparr>sys_world := w\<rparr>"
  by (auto simp: read_msg_def run_simps)

section \<open>Locks\<close>

text \<open>
  Events, of which some ask for the lock for a connection and some give it up: the owner before and after, and whether
  the lock was granted.
\<close>

fun owner_after :: "('e \<Rightarrow> int option) \<Rightarrow> ('e \<Rightarrow> int option) \<Rightarrow> 'e \<Rightarrow> int option \<Rightarrow> int option" where
  "owner_after asks gives e ow =
     (case ow of None \<Rightarrow> asks e | Some fd \<Rightarrow> if gives e = Some fd then None else Some fd)"

fun event_run :: "('e \<Rightarrow> 's \<Rightarrow> (bool \<times> 's) run) \<Rightarrow> 'e list \<Rightarrow> 's \<Rightarrow> (bool list \<times> 's) run" where
  "event_run perform [] s = Some ([], s)"
| "event_run perform (e # es) s =
     do { (g, s1) \<leftarrow> perform e s; (gs, s2) \<leftarrow> event_run perform es s1; Some (g # gs, s2) }"

locale lock =
  fixes rep :: "'s \<Rightarrow> int option \<Rightarrow> bool"
    and perform :: "'e \<Rightarrow> 's \<Rightarrow> (bool \<times> 's) run"
    and asks gives :: "'e \<Rightarrow> int option"
    and ok :: "'e \<Rightarrow> bool"
  assumes perform_law: "rep s ow \<Longrightarrow> ok e \<Longrightarrow>
      \<exists>t. perform e s = Some (ow = None \<and> asks e \<noteq> None, t) \<and> rep t (owner_after asks gives e ow)"
    and asks_or_gives: "ok e \<Longrightarrow> asks e = None \<or> gives e = None"
begin

lemma perform_outcome:
  assumes "rep s ow" and "ok e" and "perform e s = Some (g, t)"
  shows "g = (ow = None \<and> asks e \<noteq> None)" and "rep t (owner_after asks gives e ow)"
  using perform_law[OF assms(1,2)] assms(3) by auto

text \<open>While a connection holds the lock nobody gets it until that connection gives it up.\<close>

lemma held_until_given:
  assumes "rep s (Some fd)" and "list_all ok es" and "event_run perform es s = Some (gs, t)" and "j < length gs" and "gs ! j"
  shows "\<exists>k < j. gives (es ! k) = Some fd"
  using assms
proof (induction es arbitrary: s gs j)
  case (Cons e es)
  from Cons.prems(3) obtain g s1 gs1 where r: "perform e s = Some (g, s1)" "event_run perform es s1 = Some (gs1, t)" "gs = g # gs1"
    by (auto simp: run_simps)
  have ok: "ok e" "list_all ok es" using Cons.prems(2) by simp_all
  note p = perform_outcome[OF Cons.prems(1) ok(1) r(1)]
  obtain j1 where j: "j = Suc j1" using Cons.prems(4,5) p(1) r(3) by (cases j) auto
  show ?case
  proof (cases "gives e = Some fd")
    case True
    then show ?thesis using j by (intro exI[of _ 0]) simp
  next
    case False
    then have "rep s1 (Some fd)" using p(2) by simp
    from Cons.IH[OF this ok(2) r(2), of j1] Cons.prems(4,5) r(3) j obtain k where "k < j1" "gives (es ! k) = Some fd" by auto
    then show ?thesis using j by (intro exI[of _ "Suc k"]) simp
  qed
qed simp

lemma exclusive:
  assumes "rep s ow" and "list_all ok es" and "event_run perform es s = Some (gs, t)" and "i < j" and "j < length gs" and "gs ! i" and "gs ! j"
  shows "\<exists>k fd. i < k \<and> k < j \<and> asks (es ! i) = Some fd \<and> gives (es ! k) = Some fd"
  using assms
proof (induction es arbitrary: s ow gs i j)
  case (Cons e es)
  from Cons.prems(3) obtain g s1 gs1 where r: "perform e s = Some (g, s1)" "event_run perform es s1 = Some (gs1, t)" "gs = g # gs1"
    by (auto simp: run_simps)
  have ok: "ok e" "list_all ok es" using Cons.prems(2) by simp_all
  note p = perform_outcome[OF Cons.prems(1) ok(1) r(1)]
  obtain j1 where j: "j = Suc j1" using Cons.prems(4) by (cases j) auto
  show ?case
  proof (cases i)
    case 0
    then obtain fd where fd: "ow = None" "asks e = Some fd" using p(1) Cons.prems(6) r(3) by auto
    then have "rep s1 (Some fd)" using p(2) by simp
    from held_until_given[OF this ok(2) r(2), of j1] Cons.prems(5,7) r(3) j obtain k where "k < j1" "gives (es ! k) = Some fd" by auto
    then show ?thesis using j 0 fd by (intro exI[of _ "Suc k"] exI[of _ fd]) simp
  next
    case (Suc i1)
    from Cons.IH[OF p(2) ok(2) r(2), of i1 j1] Cons.prems(4-7) r(3) j Suc obtain k fd where
      "i1 < k" "k < j1" "asks (es ! i1) = Some fd" "gives (es ! k) = Some fd" by auto
    then show ?thesis using j Suc by (intro exI[of _ "Suc k"] exI[of _ fd]) simp
  qed
qed simp

lemma run_total:
  assumes "rep s ow" and "list_all ok es"
  shows "\<exists>gs t ow1. event_run perform es s = Some (gs, t) \<and> rep t ow1 \<and> length gs = length es"
  using assms
proof (induction es arbitrary: s ow)
  case (Cons e es)
  have ok: "ok e" "list_all ok es" using Cons.prems(2) by simp_all
  obtain t where t: "perform e s = Some (ow = None \<and> asks e \<noteq> None, t)" "rep t (owner_after asks gives e ow)"
    using perform_law[OF Cons.prems(1) ok(1)] by blast
  from Cons.IH[OF t(2) ok(2)] t(1) show ?case by auto
qed auto

end

section \<open>The token\<close>

text \<open>A message about the token, or the loss of a connection.\<close>

datatype token_event = TokenMsg homeMsgCtrlBlock | Gone int

fun token_perform :: "token_event \<Rightarrow> ('d, 'w) eh_sys \<Rightarrow> (bool \<times> ('d, 'w) eh_sys) run" where
  "token_perform (TokenMsg m) s =
     do { (r, val, t) \<leftarrow> processIDPToMFCBTokenOperation m s;
          Some (hd val = char_of PPI_OPERATE_TOKEN_REQUEST \<and> r = TCMRET_SUCCESS, t) }"
| "token_perform (Gone fd) s = Some (False, releaseTokenByFD fd s)"

fun token_asks :: "token_event \<Rightarrow> int option" where
  "token_asks (TokenMsg m) = (if msg_byte m 0 = Some PPI_OPERATE_TOKEN_REQUEST then Some (connfd m) else None)"
| "token_asks (Gone fd) = None"

fun token_gives :: "token_event \<Rightarrow> int option" where
  "token_gives (TokenMsg m) = (if msg_byte m 0 = Some PPI_OPERATE_TOKEN_RELEASE then Some (connfd m) else None)"
| "token_gives (Gone fd) = Some fd"

fun token_ok :: "token_event \<Rightarrow> bool" where
  "token_ok (TokenMsg m) \<longleftrightarrow> msg_value m \<noteq> []"
| "token_ok (Gone fd) \<longleftrightarrow> True"

definition token_rep :: "('d, 'w) eh_sys \<Rightarrow> int option \<Rightarrow> bool" where
  "token_rep s ow \<longleftrightarrow> (case ow of None \<Rightarrow> gTokenStatus s = PPI_TOKEN_STATUS_FREE \<and> gTokenOwern s = 0
                      | Some fd \<Rightarrow> gTokenStatus s = PPI_TOKEN_STATUS_BUSY \<and> gTokenOwern s = fd)"

lemmas token_consts = PPI_TOKEN_STATUS_FREE_def PPI_TOKEN_STATUS_BUSY_def PPI_OPERATE_TOKEN_REQUEST_def
  PPI_OPERATE_TOKEN_RELEASE_def ACT_RESULT_SUCCEED_def ACT_RESULT_FAILED_def

lemma char_of_byte_1: "of_char (char_of (1 :: nat) :: char) = (1 :: nat)"
  by simp

interpretation token: lock token_rep token_perform token_asks token_gives token_ok
proof
  fix s :: "('d, 'w) eh_sys" and ow e assume s: "token_rep s ow" and e: "token_ok e"
  show "\<exists>t. token_perform e s = Some (ow = None \<and> token_asks e \<noteq> None, t) \<and> token_rep t (owner_after token_asks token_gives e ow)"
  proof (cases e)
    case (TokenMsg m)
    then obtain b where b: "msg_byte m 0 = Some b" using e by (auto simp: msg_byte_def)
    then have "of_char (char_of b :: char) = b" by (auto simp: msg_byte_def split: if_splits)
    then have "(char_of b :: char) = char_of (1 :: nat) \<longleftrightarrow> b = 1"
      by (metis char_of_byte_1)
    then show ?thesis using s TokenMsg b
      by (cases ow) (auto simp: processIDPToMFCBTokenOperation_def token_rep_def token_consts Let_def)
  next
    case (Gone fd)
    then show ?thesis using s by (cases ow) (auto simp: releaseTokenByFD_def token_rep_def token_consts)
  qed
next
  show "token_asks e = None \<or> token_gives e = None" for e
    by (cases e) (auto simp: token_consts)
qed

text \<open>C15. Messages about the token and lost connections, in any order: every one is answered, and when two requests have been
  granted, the connection of the first has released the token, or has been lost, in between.
\<close>
lemma token_exclusive:
  assumes "token_rep s ow" and "list_all token_ok es"
  shows "\<exists>gs t ow1. event_run token_perform es s = Some (gs, t) \<and> token_rep t ow1 \<and> length gs = length es \<and>
    (\<forall>i j. i < j \<and> j < length gs \<and> gs ! i \<and> gs ! j \<longrightarrow>
      (\<exists>k fd. i < k \<and> k < j \<and> token_asks (es ! i) = Some fd \<and> token_gives (es ! k) = Some fd))"
proof -
  from token.run_total[OF assms] obtain gs t ow1 where r: "event_run token_perform es s = Some (gs, t)" "token_rep t ow1" "length gs = length es"
    by blast
  with token.exclusive[OF assms r(1)] show ?thesis by blast
qed

definition demo_sys :: "conf \<Rightarrow> (conf, unit) eh_sys" where
  "demo_sys c = \<lparr>sys_dev = demo_dev c, gTokenStatus = PPI_TOKEN_STATUS_FREE, gTokenOwern = 0, g_keepAliveInfo = [(5, 0), (- 1, - 1)],
     trans_queue = 0, trans_blocks = Map.empty, gehomeMsgQueue = 0, msg_blocks = Map.empty, g_seqNum = 0, sys_world = ()\<rparr>"

definition demo_ask :: "int \<Rightarrow> char list \<Rightarrow> homeMsgCtrlBlock" where
  "demo_ask fd v = \<lparr>sequenceID = 1, msg = \<lparr>protocolVersion = 1, payloadLen = 4 + of_nat (length v), msg_reserve = replicate 16 NUL,
     eventType = 0x1000, valueLen = of_nat (length v)\<rparr>, connfd = fd, ssl = 0, msg_value = v\<rparr>"

lemma token_exclusive_witness:
  "\<forall>c. \<exists>gs t. event_run token_perform [TokenMsg (demo_ask 5 [char_of (1 :: nat)]), Gone 5, TokenMsg (demo_ask 6 [char_of (1 :: nat)])] (demo_sys c)
     = Some (gs, t) \<and> length gs = 3"
proof
  fix c
  have "token_rep (demo_sys c) None" by (simp add: token_rep_def demo_sys_def)
  from token_exclusive[OF this, of "[TokenMsg (demo_ask 5 [char_of (1 :: nat)]), Gone 5, TokenMsg (demo_ask 6 [char_of (1 :: nat)])]"]
  show "\<exists>gs t. event_run token_perform [TokenMsg (demo_ask 5 [char_of (1 :: nat)]), Gone 5, TokenMsg (demo_ask 6 [char_of (1 :: nat)])] (demo_sys c)
     = Some (gs, t) \<and> length gs = 3" by (fastforce simp: demo_ask_def)
qed

section \<open>Silent connections\<close>

definition polled :: "int \<times> int \<Rightarrow> int \<times> int" where
  "polled e = (let f = (if fst e > 0 then snd e + KEEP_ALIVE_POLLING_TIME else snd e) in
     if f > KEEP_ALIVE_CHECKING_TIME then (- 1, - 1) else (fst e, f))"

lemma keep_alive_entry_info:
  assumes "keep_alive_entry G K i s = Some t"
  shows "i < length (g_keepAliveInfo s) \<and> g_keepAliveInfo t = (g_keepAliveInfo s)[i := polled (g_keepAliveInfo s ! i)]"
proof -
  obtain fd flag where e: "g_keepAliveInfo s ! i = (fd, flag)" by (cases "g_keepAliveInfo s ! i")
  show ?thesis
    using assms e
    by (auto simp: keep_alive_entry_def Let_def polled_def releaseTokenByFD_def run_simps split: if_splits dest!: device_at_world)
qed

lemma keep_alive_entry_owner:
  assumes "keep_alive_entry G K i s = Some t"
  shows "(gTokenOwern t = gTokenOwern s \<or> gTokenOwern t = 0) \<and>
    (fst (g_keepAliveInfo s ! i) \<noteq> 0 \<and> polled (g_keepAliveInfo s ! i) = (- 1, - 1) \<and> fst (g_keepAliveInfo s ! i) \<noteq> - 1 \<longrightarrow>
      gTokenOwern t \<noteq> fst (g_keepAliveInfo s ! i))"
proof -
  obtain fd flag where e: "g_keepAliveInfo s ! i = (fd, flag)" by (cases "g_keepAliveInfo s ! i")
  show ?thesis
    using assms e
    by (auto simp: keep_alive_entry_def Let_def polled_def releaseTokenByFD_def run_simps split: if_splits dest!: device_at_world)
qed

lemma keepAliveSync_from_info:
  assumes "keepAliveSync_from G K is s = Some t" and "distinct is"
  shows "length (g_keepAliveInfo t) = length (g_keepAliveInfo s) \<and>
    (\<forall>j < length (g_keepAliveInfo s). g_keepAliveInfo t ! j = (if j \<in> set is then polled (g_keepAliveInfo s ! j) else g_keepAliveInfo s ! j)) \<and>
    (gTokenOwern t = gTokenOwern s \<or> gTokenOwern t = 0) \<and>
    (\<forall>j \<in> set is. \<forall>fd > 0. fst (g_keepAliveInfo s ! j) = fd \<and> polled (g_keepAliveInfo s ! j) = (- 1, - 1) \<longrightarrow> gTokenOwern t \<noteq> fd)"
  using assms
proof (induction "is" arbitrary: s)
  case (Cons i "is")
  from Cons.prems(1) obtain s1 where s1: "keep_alive_entry G K i s = Some s1" "keepAliveSync_from G K is s1 = Some t"
    by (auto simp: run_simps)
  have d: "distinct is" "i \<notin> set is" using Cons.prems(2) by simp_all
  note info = keep_alive_entry_info[OF s1(1)] and owner = keep_alive_entry_owner[OF s1(1)] and ih = Cons.IH[OF s1(2) d(1)]
  have other: "g_keepAliveInfo s1 ! j = g_keepAliveInfo s ! j" if "j \<noteq> i" for j using info that by simp
  have "gTokenOwern t \<noteq> fd" if "j \<in> set (i # is)" "0 < fd" "fst (g_keepAliveInfo s ! j) = fd" "polled (g_keepAliveInfo s ! j) = (- 1, - 1)" for j fd
  proof (cases "j = i")
    case True
    then show ?thesis using owner ih that by auto
  next
    case False
    then show ?thesis using ih that other[of j] by auto
  qed
  moreover have "g_keepAliveInfo t ! j = (if j \<in> set (i # is) then polled (g_keepAliveInfo s ! j) else g_keepAliveInfo s ! j)"
    if "j < length (g_keepAliveInfo s)" for j
    using ih info that d(2) other[of j] by (cases "j = i") auto
  moreover have "gTokenOwern t = gTokenOwern s \<or> gTokenOwern t = 0" using owner ih by auto
  moreover have "length (g_keepAliveInfo t) = length (g_keepAliveInfo s)" using ih info by simp
  ultimately show ?case by blast
qed simp

lemma keepAliveSync_info:
  assumes "keepAliveSync G K s = Some (r, t)" and "length (g_keepAliveInfo s) = MAXTABLE_DEVICES (gw_eh G)"
  shows "g_keepAliveInfo t = map polled (g_keepAliveInfo s)"
    and "i < length (g_keepAliveInfo s) \<Longrightarrow> 0 < fd \<Longrightarrow> fst (g_keepAliveInfo s ! i) = fd \<Longrightarrow> polled (g_keepAliveInfo s ! i) = (- 1, - 1) \<Longrightarrow>
      gTokenOwern t \<noteq> fd"
proof -
  have "keepAliveSync_from G K [0..<MAXTABLE_DEVICES (gw_eh G)] s = Some t" using assms(1) by (auto simp: keepAliveSync_def)
  note o = keepAliveSync_from_info[OF this] 
  show "g_keepAliveInfo t = map polled (g_keepAliveInfo s)"
    using o assms(2) by (intro nth_equalityI) auto
  show "i < length (g_keepAliveInfo s) \<Longrightarrow> 0 < fd \<Longrightarrow> fst (g_keepAliveInfo s ! i) = fd \<Longrightarrow> polled (g_keepAliveInfo s ! i) = (- 1, - 1) \<Longrightarrow>
      gTokenOwern t \<noteq> fd"
    using o assms(2) by auto
qed

lemma set_first_nth:
  "set_first P y xs = Some ys \<Longrightarrow> length ys = length xs \<and> (\<forall>i < length xs. \<not> P (xs ! i) \<longrightarrow> ys ! i = xs ! i)"
proof (induction xs arbitrary: ys)
  case (Cons x xs)
  show ?case
  proof (cases "P x")
    case True
    then have "ys = y # xs" using Cons.prems by simp
    then show ?thesis using True by (auto simp: nth_Cons split: nat.splits)
  next
    case False
    then obtain zs where zs: "set_first P y xs = Some zs" "ys = x # zs" using Cons.prems by auto
    from Cons.IH[OF zs(1)] zs(2) show ?thesis by (auto simp: nth_Cons split: nat.splits)
  qed
qed simp

lemma updateKeepAlive_other:
  assumes "i < length ka" and "fst (ka ! i) \<noteq> fd" and "fst (ka ! i) \<noteq> - 1"
  shows "length (updateKeepAliveStatus fd ka) = length ka \<and> updateKeepAliveStatus fd ka ! i = ka ! i"
  using assms by (auto simp: updateKeepAliveStatus_def dest: set_first_nth split: option.splits)

lemma updateKeepAlive_length: "length (updateKeepAliveStatus fd ka) = length ka"
  by (auto simp: updateKeepAliveStatus_def dest: set_first_nth split: option.splits)

text \<open>What happens to the connections: a message that says one is alive, or the timer.\<close>

datatype alive_event = Heartbeat homeMsgCtrlBlock | Poll

fun alive_run :: "'d gw_env \<Rightarrow> 'w kernel \<Rightarrow> alive_event list \<Rightarrow> ('d, 'w) eh_sys \<Rightarrow> ('d, 'w) eh_sys run" where
  "alive_run G K [] s = Some s"
| "alive_run G K (Heartbeat m # es) s = do { (_, s1) \<leftarrow> handleKeepAliveCmd G K m s; alive_run G K es s1 }"
| "alive_run G K (Poll # es) s = do { (_, s1) \<leftarrow> keepAliveSync G K s; alive_run G K es s1 }"

lemma alive_run_info:
  assumes "alive_run G K es s = Some t" and "length (g_keepAliveInfo s) = MAXTABLE_DEVICES (gw_eh G)"
    and "i < MAXTABLE_DEVICES (gw_eh G)" and "g_keepAliveInfo s ! i = (fd, f)" and "0 < fd"
    and "\<And>m. Heartbeat m \<in> set es \<Longrightarrow> connfd m \<noteq> fd"
    and "f + KEEP_ALIVE_POLLING_TIME * int (count_list es Poll) \<le> KEEP_ALIVE_CHECKING_TIME"
  shows "length (g_keepAliveInfo t) = MAXTABLE_DEVICES (gw_eh G) \<and>
    g_keepAliveInfo t ! i = (fd, f + KEEP_ALIVE_POLLING_TIME * int (count_list es Poll))"
  using assms
proof (induction es arbitrary: s f)
  case (Cons e es)
  show ?case
  proof (cases e)
    case (Heartbeat m)
    then obtain r s1 where s1: "handleKeepAliveCmd G K m s = Some (r, s1)" "alive_run G K es s1 = Some t"
      using Cons.prems(1) by (auto simp: run_simps)
    then have ka: "g_keepAliveInfo s1 = updateKeepAliveStatus (connfd m) (g_keepAliveInfo s)"
      by (auto simp: handleKeepAliveCmd_def dest!: send_msg_world)
    have "connfd m \<noteq> fd" using Cons.prems(6) Heartbeat by simp
    then have "g_keepAliveInfo s1 ! i = (fd, f)" "length (g_keepAliveInfo s1) = MAXTABLE_DEVICES (gw_eh G)"
      using updateKeepAlive_other[of i "g_keepAliveInfo s" "connfd m"] Cons.prems(2-5) ka by simp_all
    then show ?thesis using Cons.IH[OF s1(2), of f] Cons.prems(3,5-7) Heartbeat by simp
  next
    case Poll
    then obtain r s1 where s1: "keepAliveSync G K s = Some (r, s1)" "alive_run G K es s1 = Some t"
      using Cons.prems(1) by (auto simp: run_simps)
    have f: "f + KEEP_ALIVE_POLLING_TIME \<le> KEEP_ALIVE_CHECKING_TIME"
      using Cons.prems(7) Poll by (simp add: KEEP_ALIVE_POLLING_TIME_def KEEP_ALIVE_CHECKING_TIME_def)
    have "g_keepAliveInfo s1 = map polled (g_keepAliveInfo s)" by (rule keepAliveSync_info(1)[OF s1(1) Cons.prems(2)])
    then have "g_keepAliveInfo s1 ! i = (fd, f + KEEP_ALIVE_POLLING_TIME)" "length (g_keepAliveInfo s1) = MAXTABLE_DEVICES (gw_eh G)"
      using Cons.prems(2-5) f by (auto simp: polled_def)
    then show ?thesis using Cons.IH[OF s1(2), of "f + KEEP_ALIVE_POLLING_TIME"] Cons.prems(3,5-7) Poll
      by (simp add: algebra_simps)
  qed
qed simp

text \<open>C18. A connection that has said it is alive is kept for five rounds of the timer, whatever the other connections
  do meanwhile, and given up in the sixth; it does not own the token then.
\<close>
lemma keep_alive_deadline:
  assumes "alive_run G K es s = Some t" and "length (g_keepAliveInfo s) = MAXTABLE_DEVICES (gw_eh G)"
    and "i < MAXTABLE_DEVICES (gw_eh G)" and "g_keepAliveInfo s ! i = (fd, 0)" and "0 < fd"
    and "\<And>m. Heartbeat m \<in> set es \<Longrightarrow> connfd m \<noteq> fd" and "count_list es Poll \<le> 5"
  shows "g_keepAliveInfo t ! i = (fd, 2 * int (count_list es Poll)) \<and>
    (count_list es Poll = 5 \<longrightarrow> keepAliveSync G K t = Some (r, u) \<longrightarrow> g_keepAliveInfo u ! i = (- 1, - 1) \<and> gTokenOwern u \<noteq> fd)"
proof -
  have b: "0 + KEEP_ALIVE_POLLING_TIME * int (count_list es Poll) \<le> KEEP_ALIVE_CHECKING_TIME"
    using assms(7) by (simp add: KEEP_ALIVE_POLLING_TIME_def KEEP_ALIVE_CHECKING_TIME_def)
  from alive_run_info[OF assms(1-6) b] have t: "length (g_keepAliveInfo t) = MAXTABLE_DEVICES (gw_eh G)"
    "g_keepAliveInfo t ! i = (fd, 2 * int (count_list es Poll))" by (simp_all add: KEEP_ALIVE_POLLING_TIME_def)
  have "g_keepAliveInfo u ! i = (- 1, - 1) \<and> gTokenOwern u \<noteq> fd" if five: "count_list es Poll = 5" and u: "keepAliveSync G K t = Some (r, u)"
  proof -
    have p: "polled (g_keepAliveInfo t ! i) = (- 1, - 1)"
      using t(2) five assms(5) by (simp add: polled_def KEEP_ALIVE_POLLING_TIME_def KEEP_ALIVE_CHECKING_TIME_def)
    then show ?thesis using keepAliveSync_info(1)[OF u t(1)] keepAliveSync_info(2)[OF u t(1), of i fd] t assms(3,5) by simp
  qed
  then show ?thesis using t(2) by blast
qed

definition demo_gw :: "conf gw_env" where
  "demo_gw = \<lparr>gw_eh = demo_env, id_door = 7, tab_door_status = 1, tab_keep_open = 2, subtype_idp7 = 2, subtype_smp = 4,
     gw_refresh = Some, gen_db_file = Some, UpdatePagingConfig = Some, gw_big = False, gw_fresh = next_block, msg_fresh = next_block\<rparr>"

lemma keep_alive_deadline_witness:
  "\<forall>c. \<exists>t. alive_run demo_gw quiet_kernel [Poll, Poll, Poll, Poll, Poll] (demo_sys c) = Some t \<and> g_keepAliveInfo t ! 0 = (5, 10)"
proof
  fix c
  let ?es = "[Poll, Poll, Poll, Poll, Poll]"
  have "keepAliveSync demo_gw quiet_kernel (s\<lparr>g_keepAliveInfo := [(5, f), (- 1, - 1)]\<rparr>) = Some (1, s\<lparr>g_keepAliveInfo := [(5, f + 2), (- 1, - 1)]\<rparr>)"
    if "f \<le> 8" for f and s :: "(conf, unit) eh_sys"
    using that by (simp add: keepAliveSync_def demo_gw_def demo_env_def upt_rec keep_alive_entry_def KEEP_ALIVE_POLLING_TIME_def KEEP_ALIVE_CHECKING_TIME_def)
  note poll = this[of _ "demo_sys c"]
  have s: "demo_sys c = (demo_sys c)\<lparr>g_keepAliveInfo := [(5, 0), (- 1, - 1)]\<rparr>" by (simp add: demo_sys_def)
  have "\<exists>t. alive_run demo_gw quiet_kernel ?es (demo_sys c) = Some t" by (subst s) (simp add: poll)
  then obtain t where t: "alive_run demo_gw quiet_kernel ?es (demo_sys c) = Some t" ..
  have i: "length (g_keepAliveInfo (demo_sys c)) = MAXTABLE_DEVICES (gw_eh demo_gw)" "0 < MAXTABLE_DEVICES (gw_eh demo_gw)"
    "g_keepAliveInfo (demo_sys c) ! 0 = (5, 0)" by (simp_all add: demo_sys_def demo_gw_def demo_env_def)
  from keep_alive_deadline[OF t i] t show "\<exists>t. alive_run demo_gw quiet_kernel ?es (demo_sys c) = Some t \<and> g_keepAliveInfo t ! 0 = (5, 10)"
    by auto
qed

section \<open>Registration\<close>

text \<open>The value of a request to register, as the phones send it.\<close>

definition account_value :: "string \<Rightarrow> string \<Rightarrow> nat \<Rightarrow> char list" where
  "account_value u p t = char_of (length u) # u @ char_of (length p) # p @ [char_of t]"

lemma account_value_parse:
  assumes "msg_value m = account_value u p t @ rest" and "length u < 256" and "length p < 256" and "t < 256"
  shows "msg_byte m 0 = Some (length u)" "msg_bytes m (Suc 0) (length u) = Some u" "msg_byte m (Suc (length u)) = Some (length p)"
    "msg_bytes m (Suc (Suc (length u))) (length p) = Some p" "msg_byte m (Suc (Suc (length u + length p))) = Some t"
proof -
  have b: "take_bit 8 n = n" if "n < 256" for n :: nat using that by (simp add: take_bit_eq_mod)
  show "msg_byte m 0 = Some (length u)" using assms b by (simp add: msg_byte_def account_value_def)
  show "msg_bytes m (Suc 0) (length u) = Some u" using assms by (simp add: msg_bytes_def get_bytes_def account_value_def)
  show "msg_byte m (Suc (length u)) = Some (length p)" using assms b by (simp add: msg_byte_def account_value_def nth_append)
  show "msg_bytes m (Suc (Suc (length u))) (length p) = Some p" using assms by (simp add: msg_bytes_def get_bytes_def account_value_def)
  show "msg_byte m (Suc (Suc (length u + length p))) = Some t" using assms b by (simp add: msg_byte_def account_value_def nth_append)
qed

lemma cstr_snoc: "cstr (x @ [NUL]) = cstr x"
  by (induction x) (simp_all add: cstr_def)

definition idp_subtype :: "'d gw_env \<Rightarrow> nat \<Rightarrow> int" where
  "idp_subtype G t = (if int t < subtype_idp7 G - 2 \<or> int t > subtype_smp G - 2 then (subtype_idp7 G - 2) mod 256 else int t) + 2"

text \<open>C20. An indoor phone whose message has an account and a subtype is registered exactly when the name and the
  password, each up to its first zero byte, are those of the device on its connection and nothing follows them:
  then the writes of the state and of the subtype are attempted, whatever they report; otherwise nothing is written,
  and the reason is the one for what was wrong. A message whose first length says more than it holds is read past
  its end before its length is compared.
\<close>
lemma pair_outcome:
  assumes "connfd m \<noteq> 0" and "0 < unat (valueLen (msg m))" and "length (msg_value m) = unat (valueLen (msg m))"
    and "device_at G K (getDeviceIndexByFd (connfd m) (sys_dev s)) s = Some (Some d, s1)"
    and "length u < 256" and "length p < 256" and "t < 256"
  shows "(msg_value m = account_value u p t @ rest \<longrightarrow> processIDPToMFCBPair G K m s =
      (if rest \<noteq> [] then Some (TCMRET_INTERNAL_ERROR, PPI_PAIR_REASON_CANNOT_FIND, s1)
       else if cstr u = DeviceInfo.userName d \<and> cstr p = DeviceInfo.passWord d
         then map_option (\<lambda>d1. (TCMRET_SUCCESS, PPI_PAIR_REASON_SUCCESS, s1\<lparr>sys_dev := d1\<rparr>))
                (registered G (idp_subtype G t) (getDeviceIndexByFd (connfd m) (sys_dev s)) (sys_dev s))
       else Some (TCMRET_FAILURE, PPI_PAIR_REASON_INVALID_ACCOUNT_INFO, s1))) \<and>
    sys_dev s1 = sys_dev s \<and>
    (length (msg_value m) \<le> of_char (hd (msg_value m)) \<longrightarrow> processIDPToMFCBPair G K m s = None)"
proof (intro conjI impI)
  have n: "valueLen (msg m) \<noteq> 0" using assms(2) by auto
  show s1: "sys_dev s1 = sys_dev s" using device_at_world[OF assms(4)] by auto
  { assume v: "msg_value m = account_value u p t @ rest"
    note parse = account_value_parse[OF v assms(5-7)]
    have l: "unat (valueLen (msg m)) = 3 + length u + length p + length rest"
      using assms(3) v by (simp add: account_value_def)
    show "processIDPToMFCBPair G K m s =
      (if rest \<noteq> [] then Some (TCMRET_INTERNAL_ERROR, PPI_PAIR_REASON_CANNOT_FIND, s1)
       else if cstr u = DeviceInfo.userName d \<and> cstr p = DeviceInfo.passWord d
         then map_option (\<lambda>d1. (TCMRET_SUCCESS, PPI_PAIR_REASON_SUCCESS, s1\<lparr>sys_dev := d1\<rparr>))
                (registered G (idp_subtype G t) (getDeviceIndexByFd (connfd m) (sys_dev s)) (sys_dev s))
       else Some (TCMRET_FAILURE, PPI_PAIR_REASON_INVALID_ACCOUNT_INFO, s1))"
      using assms(1,4) n s1 l by (simp add: processIDPToMFCBPair_def parse idp_subtype_def cstr_snoc) }
  assume "length (msg_value m) \<le> of_char (hd (msg_value m))"
  moreover from this have "msg_byte m 0 = Some (of_char (hd (msg_value m)))" using assms(2,3)
    by (cases "msg_value m") (auto simp: msg_byte_def)
  ultimately show "processIDPToMFCBPair G K m s = None"
    using assms(1,4) n by (simp add: processIDPToMFCBPair_def msg_bytes_def get_bytes_def)
qed

text \<open>A gateway with the sample database: the second device is connected on socket 6.\<close>

definition unit_gw :: "conf gw_env" where
  "unit_gw = demo_gw\<lparr>gw_eh := unit_env\<rparr>"

definition unit_sys :: "conf \<Rightarrow> (conf, unit) eh_sys" where
  "unit_sys c = (demo_sys c)\<lparr>sys_dev := (demo_dev c)\<lparr>g_devArray := [(5, 0), (6, 0)]\<rparr>\<rparr>"

abbreviation unit_row2 :: "(string \<times> string) list" where
  "unit_row2 \<equiv> [(''mac'', ''bb''), (''host'', ''101'')]"

lemma unit_lookup:
  assumes "device_db unit_env conflib_view conflib_good app_range (dev_conf d)" and "conflib_view (dev_conf d) (1, 2) = Some unit_row2" and "length (g_devArray d) = 2"
  shows "getDeviceInfoByDeviceIndex unit_env True 2 d = Some (Some (row_device unit_env unit_row2 (g_devArray d ! 1)))"
proof -
  have "columns_ok unit_env" by (simp add: columns_ok_def unit_env_def)
  moreover have "id_unit_info unit_env = 1" "MAXTABLE_DEVICES unit_env = 2" by (simp_all add: unit_env_def demo_env_def)
  ultimately show ?thesis
    using device_row_read[of unit_env conflib_view conflib_good app_range d 2, OF assms(1)] assms(2,3) unit_fits(1) by simp
qed

lemma device_at_quiet:
  assumes "getDeviceInfoByDeviceIndex (gw_eh G) True i (sys_dev s) = Some d"
  shows "device_at G quiet_kernel i s = Some (d, s)"
  using assms by (simp add: device_at_def with_memory_def quiet_kernel_def)

lemma pair_outcome_witness:
  "\<exists>c. processIDPToMFCBPair unit_gw quiet_kernel (demo_ask 6 (account_value ''101'' ''102'' 0)) (unit_sys c) =
     Some (TCMRET_FAILURE, PPI_PAIR_REASON_INVALID_ACCOUNT_INFO, unit_sys c)"
proof -
  from unit_conf obtain c where c: "device_db unit_env conflib_view conflib_good app_range c" "conflib_view c (1, 2) = Some unit_row2" by blast
  let ?m = "demo_ask 6 (account_value ''101'' ''102'' 0)"
  have i: "getDeviceIndexByFd (connfd ?m) (sys_dev (unit_sys c)) = 2"
    by (simp add: getDeviceIndexByFd_def demo_ask_def unit_sys_def demo_dev_def)
  have d: "device_at unit_gw quiet_kernel 2 (unit_sys c) = Some (Some (row_device unit_env unit_row2 (6, 0)), unit_sys c)"
    using unit_lookup[of "sys_dev (unit_sys c)"] c
    by (intro device_at_quiet) (simp add: unit_gw_def unit_sys_def demo_dev_def)
  have v: "msg_value ?m = account_value ''101'' ''102'' 0 @ []" by (simp add: demo_ask_def)
  have l: "unat (valueLen (msg ?m)) = 9" "length (msg_value ?m) = 9" "account_value ''101'' ''102'' 0 \<noteq> []"
    by (simp_all add: demo_ask_def account_value_def)
  have "DeviceInfo.userName (row_device unit_env unit_row2 (6, 0)) = ''101''" "DeviceInfo.passWord (row_device unit_env unit_row2 (6, 0)) = ''101''"
    by (simp_all add: row_device_def es_value_def unit_env_def)
  then show ?thesis
    using pair_outcome[of ?m unit_gw quiet_kernel "unit_sys c" "row_device unit_env unit_row2 (6, 0)" "unit_sys c" "''101''" "''102''" 0 "[]"]
      i d v l by (intro exI[of _ c]) (simp add: demo_ask_def cstr_def)
qed

section \<open>Doors\<close>

definition door_entry :: "homeMsgCtrlBlock \<Rightarrow> unit EhTransMsgMap" where
  "door_entry m = \<lparr>srcMsg = ACK_MFCB_TO_ODP_OPEN_DOOR, mapMsg = ACK_IDP_TO_MFCB_OPEN_DOOR, trans_connfd = connfd m, trans_ssl = ssl m, actFun = ()\<rparr>"

definition waiting :: "'d gw_env \<Rightarrow> ('d, 'w) eh_sys \<Rightarrow> unit EhTransMsgMap list \<Rightarrow> bool" where
  "waiting G s ms \<longleftrightarrow> new_blocks (gw_fresh G) \<and> finite (dom (trans_blocks s)) \<and>
     (\<exists>xs. qlist (trans_blocks s) (trans_queue s) xs \<and> map snd xs = ms)"

lemma waiting_same: "trans_blocks t = trans_blocks s \<Longrightarrow> trans_queue t = trans_queue s \<Longrightarrow> waiting G t ms = waiting G s ms"
  by (simp add: waiting_def)

lemma openDoor_installs:
  assumes "waiting G s ms" and "1 \<le> connfd m" and "processIDPToMFCBOpenDoor G m s = Some (r, door, s1)"
  shows "waiting G s1 (ms @ [door_entry m]) \<and>
    (r = TCMRET_SUCCESS \<longrightarrow> int door = odp_front (gw_eh G) \<or> int door = odp_back (gw_eh G))"
proof -
  from assms(1) obtain xs where xs: "qlist (trans_blocks s) (trans_queue s) xs" "map snd xs = ms" "finite (dom (trans_blocks s))" "new_blocks (gw_fresh G)"
    by (auto simp: waiting_def)
  have a: "gw_fresh G (trans_blocks s) \<noteq> 0" "gw_fresh G (trans_blocks s) \<notin> dom (trans_blocks s)" using xs(3,4) by (auto simp: new_blocks_def)
  from install_entry[of _ _ xs "gw_fresh G" "door_entry m", OF xs(1) a] assms(2) obtain q1 h1 where
    i: "installTransMsgMap (gw_fresh G) ACK_MFCB_TO_ODP_OPEN_DOOR ACK_IDP_TO_MFCB_OPEN_DOOR (connfd m) (ssl m) (Some ()) (trans_queue s) (trans_blocks s) =
      Some (TCMRET_SUCCESS, q1, h1)" "qlist h1 q1 (xs @ [(gw_fresh G (trans_blocks s), door_entry m)])"
    "dom h1 = insert (gw_fresh G (trans_blocks s)) (dom (trans_blocks s))"
    by (auto simp: door_entry_def)
  have "trans_queue s1 = q1" "trans_blocks s1 = h1"
    "r = TCMRET_SUCCESS \<longrightarrow> int door = odp_front (gw_eh G) \<or> int door = odp_back (gw_eh G)"
    using assms(3) i(1) by (auto simp: processIDPToMFCBOpenDoor_def run_simps split: if_splits)
  then show ?thesis using i xs by (auto simp: waiting_def)
qed

lemma outdoor_from_world: "outdoor_from G K ot is s = Some (d, s1) \<Longrightarrow> \<exists>w. s1 = s\<lparr>sys_world := w\<rparr>"
proof (induction "is" arbitrary: s)
  case Nil
  then have "s1 = s\<lparr>sys_world := sys_world s\<rparr>" by simp
  then show ?case by blast
next
  case (Cons i "is")
  then obtain e s2 where e: "device_at G K (i + 1) s = Some (e, s2)" by (auto simp: run_simps)
  from device_at_world[OF this] obtain w where "s2 = s\<lparr>sys_world := w\<rparr>" by blast
  then show ?case using Cons e by (auto split: option.splits if_splits) fastforce+
qed

lemma handleOpenDoor_waits:
  assumes "waiting G s ms" and "1 \<le> connfd m" and "handleIDPToMFCBOpenDoor G K m s = Some (r, s1)"
  shows "waiting G s1 (ms @ [door_entry m])"
proof -
  from assms(3) obtain r0 door s0 where p: "processIDPToMFCBOpenDoor G m s = Some (r0, door, s0)"
    by (auto simp: handleIDPToMFCBOpenDoor_def run_simps)
  from openDoor_installs[OF assms(1,2) p] have w: "waiting G s0 (ms @ [door_entry m])" by blast
  have "trans_blocks s1 = trans_blocks s0 \<and> trans_queue s1 = trans_queue s0"
  proof -
    have o: "trans_blocks t = trans_blocks u \<and> trans_queue t = trans_queue u"
      if "getOutdoorDeviceInfoByType G K ot u = Some (d, t)" for ot u d t
      using that by (auto simp: getOutdoorDeviceInfoByType_def split: if_splits dest: outdoor_from_world)
    have k: "trans_blocks t = trans_blocks u \<and> trans_queue t = trans_queue u"
      if "getOutdoorKeepTimeBySocket G K fd u = Some (x, t)" for fd u x t
      using that by (auto simp: getOutdoorKeepTimeBySocket_def run_simps split: option.splits dest!: with_memory_world)
    show ?thesis
      using assms(3) p
      by (auto simp: handleIDPToMFCBOpenDoor_def run_simps split: if_splits option.splits dest!: o k send_msg_world)
  qed
  then show ?thesis using w waiting_same by blast
qed

lemma write_flash_same: "write_flash G s = Some t \<Longrightarrow> trans_blocks t = trans_blocks s \<and> trans_queue t = trans_queue s"
  by (auto simp: write_flash_def run_simps)

lemma openDoorAck_same:
  assumes "processMFCBToODPOpenDoorAck G K a s = Some (r, val, t)"
  shows "trans_blocks t = trans_blocks s \<and> trans_queue t = trans_queue s"
proof -
  from assms obtain dev s1 where "with_memory K (\<lambda>al. getDeviceInfoByFd (gw_eh G) al (connfd a)) s = Some (dev, s1)"
    and p: "case dev of None \<Rightarrow> t = s1 | Some d \<Rightarrow> \<exists>d1. t = s1\<lparr>sys_dev := d1\<rparr> \<or> write_flash G (s1\<lparr>sys_dev := d1\<rparr>) = Some t"
    unfolding processMFCBToODPOpenDoorAck_def Let_def
    by (auto simp: run_simps simp del: split_paired_Ex split: option.splits if_splits) blast+
  then show ?thesis by (auto split: option.splits dest!: with_memory_world write_flash_same)
qed

lemma openDoorAck_first:
  assumes "waiting G s (e # ms)" and "srcMsg e = ACK_MFCB_TO_ODP_OPEN_DOOR"
    and "handleMFCBToODPOpenDoorAck G K a s = Some (r, s1)" and "r = TCMRET_SUCCESS"
  shows "\<exists>val t u. sendOpenDoorAckToIdp G K val e t = Some (0, u) \<and> waiting G s1 ms"
proof -
  from assms(3,4) obtain val t where p: "processMFCBToODPOpenDoorAck G K a s = Some (TCMRET_SUCCESS, val, t)"
    by (auto simp: handleMFCBToODPOpenDoorAck_def run_simps split: if_splits)
  note same = openDoorAck_same[OF p]
  with assms(1) obtain x xs where xs: "qlist (trans_blocks t) (trans_queue t) ((x, e) # xs)" "map snd xs = ms"
    "finite (dom (trans_blocks t))" "new_blocks (gw_fresh G)"
    by (auto simp: waiting_def)
  have f: "find (\<lambda>am. srcMsg (snd am) = ACK_MFCB_TO_ODP_OPEN_DOOR) ((x, e) # xs) = Some (x, e)" using assms(2) by simp
  from assms(3,4) p obtain q h s2 where d: "doTransMsgAct (sendOpenDoorAckToIdp G K val) ACK_MFCB_TO_ODP_OPEN_DOOR (trans_queue t) (trans_blocks t) t
      = Some (TCMRET_SUCCESS, q, h, s2)" "s1 = s2\<lparr>trans_queue := q, trans_blocks := h\<rparr>"
    by (auto simp: handleMFCBToODPOpenDoorAck_def run_simps split: if_splits)
  note found = doTransMsgAct_found[OF xs(1) f, where call = "sendOpenDoorAckToIdp G K val" and w = t]
  obtain c u where c: "sendOpenDoorAckToIdp G K val e t = Some (c, u)"
    using found(1) d(1) by (cases "sendOpenDoorAckToIdp G K val e t") auto
  from found(2)[OF c] d(1) assms(2) have "c = 0" "qlist h q xs" "finite (dom h)"
    using xs(3) by (auto split: if_splits)
  then show ?thesis using c d(2) xs(2,4) by (auto simp: waiting_def)
qed

text \<open>C22. A request to open a door leaves an entry that waits for the answer of the outdoor phone even when the request has failed,
  as one for a door that does not exist does; each answer that is handed on goes to the connection of the
  request that has waited longest, failed or not.
\<close>
lemma open_door_answers:
  assumes "waiting G s ms" and "\<forall>e \<in> set ms. srcMsg e = ACK_MFCB_TO_ODP_OPEN_DOOR" and "1 \<le> connfd m"
    and "handleIDPToMFCBOpenDoor G K m s = Some (r, s1)"
  shows "waiting G s1 (ms @ [door_entry m]) \<and>
    (\<forall>door. msg_byte m 0 = Some door \<and> int door \<noteq> odp_front (gw_eh G) \<and> int door \<noteq> odp_back (gw_eh G) \<longrightarrow> r = TCMRET_FAILURE) \<and>
    (\<forall>a s2. handleMFCBToODPOpenDoorAck G K a s1 = Some (TCMRET_SUCCESS, s2) \<longrightarrow>
      (\<exists>val t u. sendOpenDoorAckToIdp G K val (hd (ms @ [door_entry m])) t = Some (0, u) \<and> waiting G s2 (tl (ms @ [door_entry m]))))"
proof (intro conjI allI impI)
  show w: "waiting G s1 (ms @ [door_entry m])" by (rule handleOpenDoor_waits[OF assms(1,3,4)])
  {
    fix door assume d: "msg_byte m 0 = Some door \<and> int door \<noteq> odp_front (gw_eh G) \<and> int door \<noteq> odp_back (gw_eh G)"
    then show "r = TCMRET_FAILURE"
      using assms(4) by (auto simp: handleIDPToMFCBOpenDoor_def processIDPToMFCBOpenDoor_def Let_def run_simps split: if_splits)
  }
  fix a s2 assume h: "handleMFCBToODPOpenDoorAck G K a s1 = Some (TCMRET_SUCCESS, s2)"
  obtain e es where e: "ms @ [door_entry m] = e # es" by (cases "ms @ [door_entry m]") auto
  have "e \<in> set (ms @ [door_entry m])" unfolding e by simp
  then have "srcMsg e = ACK_MFCB_TO_ODP_OPEN_DOOR" using assms(2) by (auto simp: door_entry_def)
  from openDoorAck_first[OF w[unfolded e] this h refl] show "\<exists>val t u. sendOpenDoorAckToIdp G K val (hd (ms @ [door_entry m])) t = Some (0, u) \<and>
      waiting G s2 (tl (ms @ [door_entry m]))" unfolding e by simp
qed

lemma open_door_answers_witness:
  "\<forall>c. \<exists>s1. handleIDPToMFCBOpenDoor demo_gw quiet_kernel (demo_ask 5 [char_of (9 :: nat)]) (demo_sys c) = Some (TCMRET_FAILURE, s1) \<and>
     waiting demo_gw s1 [door_entry (demo_ask 5 [char_of (9 :: nat)])]"
proof
  fix c
  let ?m = "demo_ask 5 [char_of (9 :: nat)]"
  have w: "waiting demo_gw (demo_sys c) []" by (auto simp: waiting_def demo_gw_def demo_sys_def new_next_block)
  have "\<exists>s1. handleIDPToMFCBOpenDoor demo_gw quiet_kernel ?m (demo_sys c) = Some (TCMRET_FAILURE, s1)"
    by (simp add: handleIDPToMFCBOpenDoor_def processIDPToMFCBOpenDoor_def installTransMsgMap_def createEhTransMsgMap_def
        putEhTransMsgToQueue_def append_node_def checkHomeMsgType_def demo_gw_def demo_sys_def demo_ask_def msg_byte_def next_block_def demo_env_def)
  then obtain s1 where "handleIDPToMFCBOpenDoor demo_gw quiet_kernel ?m (demo_sys c) = Some (TCMRET_FAILURE, s1)" ..
  moreover from open_door_answers[OF w _ _ this] have "waiting demo_gw s1 [door_entry ?m]" by (simp add: demo_ask_def)
  ultimately show "\<exists>s1. handleIDPToMFCBOpenDoor demo_gw quiet_kernel ?m (demo_sys c) = Some (TCMRET_FAILURE, s1) \<and> waiting demo_gw s1 [door_entry ?m]"
    by blast
qed

end
