(* ===== verification/Eh_Select_Props.thy ===== *)
theory Eh_Select_Props
  imports Eh_Gateway_Props
begin

text \<open>
  The select thread of the home gateway: what it lets into the queue, how often it wakes a message thread, which sockets it
  goes on watching, and how a connection comes to a device.
\<close>

section \<open>What is queued\<close>

definition msgs_rep :: "'d gw_env \<Rightarrow> 'w kernel \<Rightarrow> ('d, 'w) eh_sys \<Rightarrow> homeMsgCtrlBlock list \<Rightarrow> bool" where
  "msgs_rep G K s ms \<longleftrightarrow> queue_rep (msg_fresh G) K (gehomeMsgQueue s, msg_blocks s, sys_world s) ms"

text \<open>A step that appends the messages \<open>new\<close>, \<open>n\<close> of them, each with the property \<open>P\<close>.\<close>

definition queues :: "'d gw_env \<Rightarrow> 'w kernel \<Rightarrow> (homeMsgCtrlBlock \<Rightarrow> bool) \<Rightarrow> ('d, 'w) eh_sys \<Rightarrow> ('d, 'w) eh_sys \<Rightarrow> nat \<Rightarrow> bool" where
  "queues G K P s t n \<longleftrightarrow> (\<forall>ms. msgs_rep G K s ms \<longrightarrow>
     (\<exists>new. length new = n \<and> msgs_rep G K t (ms @ new) \<and> (\<forall>m \<in> set new. P m)))"

lemma queues_none: "gehomeMsgQueue t = gehomeMsgQueue s \<Longrightarrow> msg_blocks t = msg_blocks s \<Longrightarrow> queues G K P s t 0"
  by (simp add: queues_def msgs_rep_def queue_rep_def)

lemma queues_trans: "queues G K P s t n \<Longrightarrow> queues G K P t u k \<Longrightarrow> queues G K P s u (n + k)"
  unfolding queues_def
proof (intro allI impI)
  fix ms
  assume a: "\<forall>ms. msgs_rep G K s ms \<longrightarrow> (\<exists>new. length new = n \<and> msgs_rep G K t (ms @ new) \<and> (\<forall>m \<in> set new. P m))"
    and b: "\<forall>ms. msgs_rep G K t ms \<longrightarrow> (\<exists>new. length new = k \<and> msgs_rep G K u (ms @ new) \<and> (\<forall>m \<in> set new. P m))"
    and r: "msgs_rep G K s ms"
  from a r obtain x where x: "length x = n" "msgs_rep G K t (ms @ x)" "\<forall>m \<in> set x. P m" by blast
  from b x(2) obtain y where y: "length y = k" "msgs_rep G K u ((ms @ x) @ y)" "\<forall>m \<in> set y. P m" by blast
  show "\<exists>new. length new = n + k \<and> msgs_rep G K u (ms @ new) \<and> (\<forall>m \<in> set new. P m)"
    using x y by (intro exI[of _ "x @ y"]) auto
qed

text \<open>With no message the property does not matter.\<close>

lemma queues_mono: "queues G K P s t n \<Longrightarrow> (\<And>m. n \<noteq> 0 \<Longrightarrow> P m \<Longrightarrow> Q m) \<Longrightarrow> queues G K Q s t n"
  unfolding queues_def by (metis length_pos_if_in_set less_numeral_extra(3))

text \<open>A message that is attributed to a device and admitted for what the database says of it.\<close>

definition from_record :: "'d gw_env \<Rightarrow> DeviceInfo \<Rightarrow> homeMsgCtrlBlock \<Rightarrow> bool" where
  "from_record G d m \<longleftrightarrow> admitted (gw_eh G) d (eventType (msg m)) \<and> connfd m = dev_connfd d"

lemma converted_block:
  assumes "convertHomeMsgToCtrlBlock K big (Some b) fd sl q w = Some (r, Some cb, q1, w1)"
  shows "r = TCMRET_SUCCESS \<and> getMsgEventType big b = Some (eventType (msg cb)) \<and> connfd cb = fd"
  using assms by (auto simp: convertHomeMsgToCtrlBlock_def createHomeMsgBlock_def run_simps split: if_splits prod.splits)

lemma enqueue_queues:
  assumes "enqueue_msg G K d b s = Some (q, t)" and "checkHomeMsg (gw_big G) (Some b) = Some TCMRET_SUCCESS"
    and "getMsgEventType (gw_big G) b = Some et" and "admitted (gw_eh G) d et"
  shows "queues G K (from_record G d) s t (of_bool q)"
  unfolding queues_def
proof (intro allI impI)
  fix ms assume r: "msgs_rep G K s ms"
  from assms(1) obtain r0 m sq w1 where c: "convertHomeMsgToCtrlBlock K (gw_big G) (Some b) (dev_connfd d) (dev_ssl d) (g_seqNum s) (sys_world s)
      = Some (r0, m, sq, w1)"
    by (auto simp: enqueue_msg_def run_simps)
  show "\<exists>new. length new = of_bool q \<and> msgs_rep G K t (ms @ new) \<and> (\<forall>m \<in> set new. from_record G d m)"
  proof (cases m)
    case None
    then have "q = False" "t = s\<lparr>g_seqNum := sq, sys_world := w1\<rparr>" using assms(1) c by (auto simp: enqueue_msg_def)
    then show ?thesis using r by (intro exI[of _ "[]"]) (simp add: msgs_rep_def queue_rep_def)
  next
    case (Some cb)
    note cb = converted_block[OF c[unfolded Some]]
    then have "convertHomeMsgToCtrlBlock K (gw_big G) (Some b) (dev_connfd d) (dev_ssl d) (g_seqNum s) (sys_world s) = Some (TCMRET_SUCCESS, Some cb, sq, w1)"
      using c Some by simp
    from converted_ok[OF this assms(2)] have ok: "block_ok cb" .
    have "queue_rep (msg_fresh G) K (gehomeMsgQueue s, msg_blocks s, w1) ms" using r by (simp add: msgs_rep_def queue_rep_def)
    from messages.put_last[OF this ok] obtain mq h w2 where
      p: "queue_put (msg_fresh G) cb (gehomeMsgQueue s, msg_blocks s, w1) = Some (mq, h, w2)" "queue_rep (msg_fresh G) K (mq, h, w2) (ms @ [cb])"
      by auto
    then obtain r1 where p1: "putEhMsgToQueue (gehomeMsgQueue s) (msg_fresh G (msg_blocks s)) ((msg_blocks s)(msg_fresh G (msg_blocks s) \<mapsto> \<lparr>item = cb, link = 0\<rparr>))
        = Some (r1, mq, h)" by (auto simp: queue_put_def run_simps)
    moreover have "r1 = TCMRET_SUCCESS"
      using p1 r by (auto simp: putEhMsgToQueue_def run_simps msgs_rep_def queue_rep_def new_blocks_def split: if_splits)
    ultimately have "q" "gehomeMsgQueue t = mq" "msg_blocks t = h"
      using assms(1) c Some by (auto simp: enqueue_msg_def Let_def)
    then have "msgs_rep G K t (ms @ [cb])" using p(2) by (simp add: msgs_rep_def queue_rep_def)
    then show ?thesis using \<open>q\<close> cb assms(3,4) by (intro exI[of _ "[cb]"]) (auto simp: from_record_def)
  qed
qed

lemma receive_queues:
  assumes "receive_msg G K d b s = Some (q, t)"
  shows "queues G K (from_record G d) s t (of_bool q)"
proof -
  from assms obtain x et where x: "cvtNtoHEndian (gw_big G) b = Some x" "getMsgEventType (gw_big G) x = Some et"
    by (auto simp: receive_msg_def run_simps)
  consider "q = False" "t = s" | "admitted (gw_eh G) d et" "checkHomeMsg (gw_big G) (Some x) = Some TCMRET_SUCCESS" "enqueue_msg G K d x s = Some (q, t)"
    using assms x by (auto simp: receive_msg_def run_simps split: if_splits)
  then show ?thesis
  proof cases
    case 1
    then show ?thesis by (simp add: queues_none)
  next
    case 2
    from enqueue_queues[OF 2(3,2) x(2) 2(1)] show ?thesis .
  qed
qed

lemma releaseToken_same [simp]:
  "gehomeMsgQueue (releaseTokenByFD fd s) = gehomeMsgQueue s" "msg_blocks (releaseTokenByFD fd s) = msg_blocks s"
  "sys_dev (releaseTokenByFD fd s) = sys_dev s"
  by (simp_all add: releaseTokenByFD_def)

lemma receive_dev: "receive_msg G K d b s = Some (q, t) \<Longrightarrow> sys_dev t = sys_dev s"
  by (auto simp: receive_msg_def enqueue_msg_def Let_def run_simps split: if_splits option.splits)

lemma serve_device_queues:
  assumes "serve_device G K fd i d s = Some (q, t)"
  shows "queues G K (from_record G d) s t (of_bool q)"
proof -
  from assms obtain ret recv s1 where r: "read_msg G K (dev_connfd d) s = Some (ret, recv, s1)"
    by (auto simp: serve_device_def Let_def run_simps)
  from read_msg_world[OF r] have same: "queues G K (from_record G d) s s1 0" by (auto intro: queues_none)
  consider b where "recv = Some b" "receive_msg G K d b s1 = Some (q, t)"
    | "q = False" "gehomeMsgQueue t = gehomeMsgQueue s1" "msg_blocks t = msg_blocks s1"
    using assms r by (auto simp: serve_device_def Let_def run_simps split: if_splits)
  then show ?thesis
  proof cases
    case 1
    from queues_trans[OF same receive_queues[OF 1(2)]] show ?thesis by simp
  next
    case 2
    from queues_trans[OF same queues_none[OF 2(2,3)]] 2(1) show ?thesis by simp
  qed
qed

lemma serve_device_dev:
  assumes "serve_device G K fd i d s = Some (True, t)"
  shows "sys_dev t = sys_dev s"
proof -
  from assms obtain ret recv s1 b where "read_msg G K (dev_connfd d) s = Some (ret, recv, s1)" "receive_msg G K d b s1 = Some (True, t)"
    by (auto simp: serve_device_def Let_def run_simps split: if_splits)
  then show ?thesis using receive_dev[of G K d b s1 True t] by (auto dest: read_msg_world)
qed

text \<open>The record of a device whose connection is \<open>fd\<close>, as the database has it.\<close>

definition recorded :: "'d eh_env \<Rightarrow> int \<Rightarrow> 'd eh_dev \<Rightarrow> DeviceInfo \<Rightarrow> bool" where
  "recorded E fd dev d \<longleftrightarrow> (\<exists>i. getDeviceInfoByDeviceIndex E True i dev = Some (Some d)) \<and> dev_connfd d = fd"

lemma info_record:
  assumes "getDeviceInfoByDeviceIndex E al i dev = Some (Some d)"
  shows "getDeviceInfoByDeviceIndex E True i dev = Some (Some d) \<and> dev_connfd d = fst (g_devArray dev ! nat (i - 1)) \<and> 1 \<le> i"
proof -
  have al: "al" using assms by (cases al) (auto simp: getDeviceInfoByDeviceIndex_def createDevice_def Let_def run_simps split: if_splits)
  have "dev_connfd d = fst (g_devArray dev ! nat (i - 1)) \<and> 1 \<le> i"
    using assms al by (auto simp: getDeviceInfoByDeviceIndex_def createDevice_def Let_def run_simps split: if_splits)
  then show ?thesis using assms al by simp
qed

lemma index_from_hit: "0 \<le> k \<Longrightarrow> index_from P k cs = i \<Longrightarrow> 1 \<le> i \<Longrightarrow> k < i \<and> P (cs ! nat (i - 1 - k))"
proof (induction cs arbitrary: k)
  case (Cons c cs)
  show ?case
  proof (cases "P c")
    case False
    with Cons.prems Cons.IH[of "k + 1"] have "k + 1 < i \<and> P (cs ! nat (i - 1 - (k + 1)))" by simp
    moreover from this have "nat (i - 1 - k) = Suc (nat (i - 1 - (k + 1)))" by linarith
    ultimately show ?thesis by simp
  qed (use Cons.prems in simp)
qed (simp add: INVALID_DEVICE_INDEX_def)

lemma device_at_record:
  assumes "device_at G K (getDeviceIndexByFd fd (sys_dev s)) s = Some (Some d, s1)"
  shows "recorded (gw_eh G) fd (sys_dev s) d"
proof -
  from assms obtain al where "getDeviceInfoByDeviceIndex (gw_eh G) al (getDeviceIndexByFd fd (sys_dev s)) (sys_dev s) = Some (Some d)"
    by (cases "k_alloc K (sys_world s)") (auto simp: device_at_def with_memory_def run_simps)
  note r = info_record[OF this]
  then have "fst (g_devArray (sys_dev s) ! nat (getDeviceIndexByFd fd (sys_dev s) - 1)) = fd"
    using index_from_hit[of 0 "\<lambda>c. fst c = fd" "g_devArray (sys_dev s)" "getDeviceIndexByFd fd (sys_dev s)"] by (simp add: getDeviceIndexByFd_def)
  then show ?thesis using r by (auto simp: recorded_def)
qed

lemma match_number_record:
  assumes "match_number G K fd b s = Some (Some d, t)"
  shows "recorded (gw_eh G) fd (sys_dev t) d"
proof -
  from assms obtain n i where n: "getDeviceIndexByNumber (gw_eh G) (Some (dec n)) (sys_dev s) = Some i"
    "\<not> i \<le> 0" "\<not> length (g_devArray (sys_dev s)) < nat i"
    and w: "with_memory K (\<lambda>al. getDeviceInfoByNumber (gw_eh G) al (Some (dec n)))
      (s\<lparr>sys_dev := (sys_dev s)\<lparr>g_devArray := (g_devArray (sys_dev s))[nat (i - 1) := (fd, 0)]\<rparr>\<rparr>) = Some (Some d, t)"
    by (auto simp: match_number_def Let_def run_simps split: if_splits)
  let ?d = "(sys_dev s)\<lparr>g_devArray := (g_devArray (sys_dev s))[nat (i - 1) := (fd, 0)]\<rparr>"
  have "getDeviceIndexByNumber (gw_eh G) (Some (dec n)) ?d = Some i" using n(1) by (simp add: getDeviceIndexByNumber_def)
  with w obtain al where "getDeviceInfoByDeviceIndex (gw_eh G) al i ?d = Some (Some d)"
    by (cases "k_alloc K (sys_world s)") (auto simp: with_memory_def getDeviceInfoByNumber_def run_simps)
  note r = info_record[OF this]
  have "nat (i - 1) < length (g_devArray (sys_dev s))" using n(2,3) by linarith
  then have "dev_connfd d = fd" using r by simp
  moreover have "sys_dev t = ?d" using with_memory_world[OF w] by auto
  ultimately show ?thesis using r by (auto simp: recorded_def)
qed

lemma match_number_same:
  assumes "match_number G K fd b s = Some (d, t)"
  shows "gehomeMsgQueue t = gehomeMsgQueue s \<and> msg_blocks t = msg_blocks s"
  using assms by (auto simp: match_number_def sendRegisterNoDeviceACK_def Let_def run_simps split: if_splits dest!: send_msg_world with_memory_world)

definition of_client :: "'d gw_env \<Rightarrow> int \<Rightarrow> 'd eh_dev \<Rightarrow> homeMsgCtrlBlock \<Rightarrow> bool" where
  "of_client G fd dev m \<longleftrightarrow> (\<exists>d. recorded (gw_eh G) fd dev d \<and> from_record G d m)"

lemma serve_stranger_queues:
  assumes "serve_stranger G K fd s = Some (q, t)"
  shows "queues G K (of_client G fd (sys_dev t)) s t (of_bool q)"
proof -
  let ?P = "of_client G fd (sys_dev t)"
  from assms obtain ret recv s1 where r: "read_msg G K fd s = Some (ret, recv, s1)"
    by (auto simp: serve_stranger_def run_simps)
  from read_msg_world[OF r] have same: "queues G K ?P s s1 0" by (auto intro: queues_none)
  have "queues G K ?P s1 t (of_bool q)"
  proof (cases "ret = TCMRET_SUCCESS")
    case True
    then obtain b dev s2 where m: "match_number G K fd b s1 = Some (dev, s2)"
      "(case dev of None \<Rightarrow> Some (False, s2) | Some d \<Rightarrow> receive_msg G K d b s2) = Some (q, t)"
      using assms r by (auto simp: serve_stranger_def run_simps)
    from match_number_same[OF m(1)] have none: "queues G K ?P s1 s2 0" by (simp add: queues_none)
    show ?thesis
    proof (cases dev)
      case None
      then show ?thesis using m(2) none by simp
    next
      case (Some d)
      then have rc: "receive_msg G K d b s2 = Some (q, t)" using m(2) by simp
      have "recorded (gw_eh G) fd (sys_dev t) d" using match_number_record m(1) Some receive_dev[OF rc] by metis
      then have "queues G K ?P s2 t (of_bool q)" by (intro queues_mono[OF receive_queues[OF rc]]) (auto simp: of_client_def)
      from queues_trans[OF none this] show ?thesis by simp
    qed
  next
    case False
    then have "q = False" "gehomeMsgQueue t = gehomeMsgQueue s1" "msg_blocks t = msg_blocks s1"
      using assms r by (auto simp: serve_stranger_def run_simps split: if_splits)
    then show ?thesis by (simp add: queues_none)
  qed
  from queues_trans[OF same this] show ?thesis by simp
qed

lemma serve_ready_queues:
  assumes "serve_ready G K fd s = Some (q, t)"
  shows "queues G K (of_client G fd (sys_dev t)) s t (of_bool q)"
proof -
  let ?P = "of_client G fd (sys_dev t)"
  from assms obtain dev s1 where d: "device_at G K (getDeviceIndexByFd fd (sys_dev s)) s = Some (dev, s1)"
    and c: "(case dev of Some d \<Rightarrow> serve_device G K fd (getDeviceIndexByFd fd (sys_dev s)) d s1 | None \<Rightarrow> serve_stranger G K fd s1) = Some (q, t)"
    by (auto simp: serve_ready_def Let_def run_simps)
  from device_at_world[OF d] have same: "queues G K ?P s s1 0" and s1: "sys_dev s1 = sys_dev s" by (auto intro: queues_none)
  have "queues G K ?P s1 t (of_bool q)"
  proof (cases dev)
    case None
    then show ?thesis using c serve_stranger_queues[of G K fd s1 q t] by simp
  next
    case (Some x)
    then have sd: "serve_device G K fd (getDeviceIndexByFd fd (sys_dev s)) x s1 = Some (q, t)" using c by simp
    have "of_client G fd (sys_dev t) m" if "q" "from_record G x m" for m
      using that device_at_record[OF d[unfolded Some]] serve_device_dev[of G K fd _ x s1 t] sd s1 by (auto simp: of_client_def)
    then show ?thesis by (intro queues_mono[OF serve_device_queues[OF sd]]) auto
  qed
  from queues_trans[OF same this] show ?thesis by simp
qed

lemma serve_client_queues:
  assumes "serve_client G K err fd s = Some (q, t)"
  shows "queues G K (of_client G fd (sys_dev t)) s t (of_bool q)"
proof -
  obtain e w where e: "err fd (sys_world s) = (e, w)" by (cases "err fd (sys_world s)")
  have same: "queues G K P s (s\<lparr>sys_world := w\<rparr>) 0" for P by (rule queues_none) simp_all
  show ?thesis
  proof (cases "e = - 1")
    case True
    then have "q = False" "gehomeMsgQueue t = gehomeMsgQueue s" "msg_blocks t = msg_blocks s"
      using assms e by (auto simp: serve_client_def Let_def run_simps)
    then show ?thesis by (simp add: queues_none)
  next
    case False
    then have "serve_ready G K fd (s\<lparr>sys_world := w\<rparr>) = Some (q, t)" using assms e by (simp add: serve_client_def)
    from queues_trans[OF same serve_ready_queues[OF this]] show ?thesis by simp
  qed
qed

lemma accept_same:
  assumes "accept_client G K err pm s = Some t"
  shows "gehomeMsgQueue t = gehomeMsgQueue s \<and> msg_blocks t = msg_blocks s"
  using assms
  by (auto simp: accept_client_def manage_client_def Let_def run_simps split: prod.splits if_splits option.splits dest!: device_at_world)

text \<open>
  A message that the round let in: it comes from a connection \<open>fd\<close> that was ready when its turn came (\<open>u\<close> is the state
  then), and the database has a device on that connection for which a message of this type is admitted.
\<close>

definition let_in ::
    "'d gw_env \<Rightarrow> 'w kernel \<Rightarrow> (int \<Rightarrow> 'w \<Rightarrow> int \<times> 'w) \<Rightarrow> (int \<Rightarrow> 'w \<Rightarrow> string option \<times> 'w) \<Rightarrow> int set \<Rightarrow> int list \<Rightarrow> ('d, 'w) eh_sys \<Rightarrow>
      homeMsgCtrlBlock \<Rightarrow> bool" where
  "let_in G K err pm rdy fds s m \<longleftrightarrow>
     (\<exists>pre fd post k u v d. fds = pre @ fd # post \<and> fd \<in> rdy \<and> select_from G K err pm rdy pre s = Some (k, u) \<and> fd \<noteq> gehServerFd (sys_dev u) \<and>
        serve_client G K err fd u = Some (True, v) \<and> recorded (gw_eh G) fd (sys_dev v) d \<and> connfd m = fd \<and>
        admitted (gw_eh G) d (eventType (msg m)))"

lemma let_in_later:
  assumes "(if fd \<notin> rdy then Some (False, s)
       else if fd = gehServerFd (sys_dev s) then map_option (Pair False) (accept_client G K err pm s) else serve_client G K err fd s) = Some (q, s1)"
    and "let_in G K err pm rdy fds s1 m"
  shows "let_in G K err pm rdy (fd # fds) s m"
proof -
  from assms(2) obtain pre fd1 post k u v d where l: "fds = pre @ fd1 # post" "fd1 \<in> rdy" "select_from G K err pm rdy pre s1 = Some (k, u)"
    "fd1 \<noteq> gehServerFd (sys_dev u)" "serve_client G K err fd1 u = Some (True, v)" "recorded (gw_eh G) fd1 (sys_dev v) d" "connfd m = fd1"
    "admitted (gw_eh G) d (eventType (msg m))" unfolding let_in_def by blast
  have "select_from G K err pm rdy (fd # pre) s = Some (k + of_bool q, u)" using assms(1) l(3) by simp
  then show ?thesis unfolding let_in_def
    by (intro exI[of _ "fd # pre"] exI[of _ fd1] exI[of _ post] exI[of _ "k + of_bool q"] exI[of _ u] exI[of _ v] exI[of _ d])
       (use l in \<open>simp del: select_from.simps\<close>)
qed

lemma let_in_now:
  assumes "fd \<in> rdy" and "fd \<noteq> gehServerFd (sys_dev s)" and "serve_client G K err fd s = Some (True, s1)" and "of_client G fd (sys_dev s1) m"
  shows "let_in G K err pm rdy (fd # fds) s m"
proof -
  from assms(4) obtain d where d: "recorded (gw_eh G) fd (sys_dev s1) d" "from_record G d m" unfolding of_client_def by blast
  then have "connfd m = fd" "admitted (gw_eh G) d (eventType (msg m))" by (simp_all add: from_record_def recorded_def)
  then show ?thesis unfolding let_in_def
    by (intro exI[of _ "[]"] exI[of _ fd] exI[of _ fds] exI[of _ 0] exI[of _ s] exI[of _ s1] exI[of _ d]) (use assms d in simp)
qed

lemma select_from_queues:
  "select_from G K err pm rdy fds s = Some (n, t) \<Longrightarrow> queues G K (let_in G K err pm rdy fds s) s t n"
proof (induction fds arbitrary: s n)
  case Nil
  then show ?case by (simp add: queues_none)
next
  case (Cons fd fds)
  let ?P = "let_in G K err pm rdy (fd # fds) s"
  from Cons.prems obtain q s1 k where f: "(if fd \<notin> rdy then Some (False, s)
       else if fd = gehServerFd (sys_dev s) then map_option (Pair False) (accept_client G K err pm s) else serve_client G K err fd s) = Some (q, s1)"
    "select_from G K err pm rdy fds s1 = Some (k, t)" "n = k + of_bool q"
    by (auto simp: run_simps)
  have "queues G K ?P s s1 (of_bool q)"
  proof (cases q)
    case True
    then have c: "fd \<in> rdy" "fd \<noteq> gehServerFd (sys_dev s)" "serve_client G K err fd s = Some (True, s1)"
      using f(1) by (auto split: if_splits)
    from queues_mono[OF serve_client_queues[OF c(3)] let_in_now[OF c]] True show ?thesis by simp
  next
    case False
    consider "fd \<notin> rdy" "s1 = s" | "accept_client G K err pm s = Some s1" | "serve_client G K err fd s = Some (q, s1)"
      using f(1) by (auto split: if_splits)
    then show ?thesis
    proof cases
      case 3
      from queues_mono[OF serve_client_queues[OF 3]] False show ?thesis by simp
    next
      case 2
      from accept_same[OF 2] False show ?thesis by (simp add: queues_none)
    qed (use False in \<open>simp add: queues_none\<close>)
  qed
  moreover have "queues G K ?P s1 t k" by (rule queues_mono[OF Cons.IH[OF f(2)] let_in_later[OF f(1)]])
  ultimately show ?case using queues_trans[of G K ?P s s1 "of_bool q" t k] f(3) by (simp add: add.commute)
qed

text \<open>C16. A round of the select thread appends to the queue one message for each time it raises the flag, and none otherwise;
  the messages before stay as they are. Each new one is well formed and comes from a connection that was ready, on which the
  database had a device for which messages of its type are admitted when it was read.
\<close>
lemma select_round_queues:
  assumes "select_round G K err pm rdy s = Some (n, t)" and "msgs_rep G K s ms"
  shows "\<exists>new. length new = n \<and> msgs_rep G K t (ms @ new) \<and>
    (\<forall>m \<in> set new. block_ok m \<and> let_in G K err pm rdy (map int [0..<nat (gehMaxFd (sys_dev s) + 1)]) s m)"
proof -
  have "queues G K (let_in G K err pm rdy (map int [0..<nat (gehMaxFd (sys_dev s) + 1)]) s) s t n"
    using assms(1) select_from_queues by (simp add: select_round_def)
  then obtain new where n: "length new = n" "msgs_rep G K t (ms @ new)"
    "\<forall>m \<in> set new. let_in G K err pm rdy (map int [0..<nat (gehMaxFd (sys_dev s) + 1)]) s m" using assms(2) by (auto simp: queues_def)
  then have "\<forall>m \<in> set new. block_ok m" by (auto simp: msgs_rep_def queue_rep_def)
  then show ?thesis using n by blast
qed

section \<open>How a connection comes to a device\<close>

lemma number_of_frame:
  assumes "Eh_Frame.fields v p r t n"
  shows "getMsgNumber (frame v p r t n x) = Some (of_char (r ! 3))"
proof -
  have r: "length r = 16" "length v = 2" "length p = 2" using assms by (simp_all add: Eh_Frame.fields_def)
  have "r = take 3 r @ [r ! 3] @ drop 4 r" using id_take_nth_drop[of 3 r] r(1) by simp
  then have "frame v p r t n x = (v @ p @ take 3 r) @ [r ! 3] @ (drop 4 r @ t @ n @ x)" unfolding frame_def by (metis append_assoc)
  then have "get_bytes 7 1 (frame v p r t n x) = Some [r ! 3]" using get_bytes_mid[of "v @ p @ take 3 r" 7 "[r ! 3]" 1] r by simp
  then show ?thesis by (simp add: getMsgNumber_def offsets)
qed

lemma by_number:
  assumes "device_db E view good valid (dev_conf d)" and "columns_ok E" and "length (g_devArray d) = MAXTABLE_DEVICES E"
    and "getDeviceIndexByNumber E (Some num) d = Some i" and "1 \<le> i" and "i \<le> int (MAXTABLE_DEVICES E)"
    and "view (dev_conf d) (id_unit_info E, i) = Some es" and "row_fits E es"
  shows "getDeviceInfoByNumber E True (Some num) d = Some (Some (row_device E es (g_devArray d ! nat (i - 1))))"
  using device_row_read[OF assms(1,3,2), of i] assms(4-8) by (simp add: getDeviceInfoByNumber_def)


text \<open>A socket on which there is always a request to open a door from number 101.\<close>

definition claim_msg :: "bool \<Rightarrow> buf" where
  "claim_msg big = frame (u16_bytes True 1) (u16_bytes True 4) ([NUL, NUL, NUL, char_of (101 :: nat)] @ replicate 12 NUL)
     (u16_bytes True 0x1001) (u16_bytes big 0) []"

definition claim_kernel :: "unit kernel" where
  "claim_kernel = quiet_kernel\<lparr>k_read := (\<lambda>fd n w. (Inr (claim_msg True), w))\<rparr>"

lemma claim_fields: "Eh_Frame.fields (u16_bytes True 1) (u16_bytes True 4) ([NUL, NUL, NUL, char_of (101 :: nat)] @ replicate 12 NUL) (u16_bytes True 0x1001) (u16_bytes big 0)"
  by (simp add: Eh_Frame.fields_def)

lemma claim_read: "read_msg unit_gw claim_kernel fd s = Some (TCMRET_SUCCESS, Some (claim_msg False), s)"
proof -
  have "length (claim_msg True) = 24" using frame_length[OF claim_fields] by (simp add: claim_msg_def)
  moreover have "getMsgValueLen False (claim_msg True) = Some (u16_of False (u16_bytes True 0))"
    unfolding claim_msg_def by (rule frame_get(4)[OF claim_fields])
  moreover have "putMsgValueLen False 0 (claim_msg True) = Some (claim_msg False)"
    unfolding claim_msg_def by (rule frame_put(4)[OF claim_fields])
  ultimately have "ehRead claim_kernel False fd (sys_world s) = Some (TCMRET_SUCCESS, Some (claim_msg False), sys_world s)"
    by (simp add: ehRead_def claim_kernel_def quiet_kernel_def sizeof_homeMessage_def)
  then show ?thesis by (simp add: read_msg_def unit_gw_def demo_gw_def)
qed

text \<open>Sockets that have no error.\<close>

definition no_error :: "int \<Rightarrow> unit \<Rightarrow> int \<times> unit" where
  "no_error fd w = (0, w)"


lemma cvtNtoH_reserve:
  "length r = 16 \<Longrightarrow> cvtNtoHEndian big (frame (u16_bytes True v) (u16_bytes True p) r (u16_bytes True t) (u16_bytes e n) x) =
     Some (frame (u16_bytes big v) (u16_bytes big p) r (u16_bytes big t) (u16_bytes e n) x)"
  by (simp add: cvtNtoHEndian_def frame_get frame_put Eh_Frame.fields_def ntohs_of)

lemma claim_received:
  assumes "dev_status d = 4"
  shows "\<exists>t. receive_msg unit_gw claim_kernel d (claim_msg False) (unit_sys c) = Some (True, t)"
proof -
  let ?r = "[NUL, NUL, NUL, char_of (101 :: nat)] @ replicate 12 NUL"
  let ?b = "frame (u16_bytes False 1) (u16_bytes False 4) ?r (u16_bytes False 0x1001) (u16_bytes False 0) []"
  have f: "Eh_Frame.fields (u16_bytes False 1) (u16_bytes False 4) ?r (u16_bytes False 0x1001) (u16_bytes False 0)"
    by (simp add: Eh_Frame.fields_def)
  have g: "getMsgProtocolVersion False ?b = Some 1" "getMsgPayloadLen False ?b = Some 4" "getMsgEventType False ?b = Some 0x1001"
    "getMsgValueLen False ?b = Some 0"
    using frame_get[OF f] by simp_all
  have b: "cvtNtoHEndian False (claim_msg False) = Some ?b"
    unfolding claim_msg_def by (rule cvtNtoH_reserve) simp
  have drops: "drop 4 ?b = ?r @ u16_bytes False 0x1001 @ u16_bytes False 0" "drop 24 ?b = []"
    by (simp_all add: frame_def)
  have res: "copy_reserve (drop 4 ?b) = Some (replicate 16 NUL)"
    unfolding drops by (simp add: copy_reserve_def terminated_def cstr_def pad_def)
  have "checkHomeMsg False (Some ?b) = Some TCMRET_SUCCESS"
    using g by (simp add: checkHomeMsg_def checkHomeMsgType_def HOME_MSG_PROTOCOL_VERSION_def)
  moreover have "admitted unit_env d 0x1001"
    using assms by (simp add: admitted_def unit_env_def demo_env_def CMD_IDP_TO_MFCB_REGISTER_def CMD_ODP_TO_MFCB_REGISTER_def)
  moreover have "\<exists>cb q. convertHomeMsgToCtrlBlock claim_kernel False (Some ?b) fd sl n () = Some (TCMRET_SUCCESS, Some cb, q, ())" for fd sl n
    using g res drops(2)
    by (simp add: convertHomeMsgToCtrlBlock_def createHomeMsgBlock_def checkHomeMsgType_def offsets get_bytes_def claim_kernel_def quiet_kernel_def)
  then obtain cb q where "convertHomeMsgToCtrlBlock claim_kernel False (Some ?b) (dev_connfd d) (dev_ssl d) (g_seqNum (unit_sys c)) () = Some (TCMRET_SUCCESS, Some cb, q, ())"
    by blast
  ultimately show ?thesis
    using b g(3) by (simp add: receive_msg_def enqueue_msg_def unit_gw_def demo_gw_def Let_def putEhMsgToQueue_def append_node_def
        unit_sys_def demo_sys_def next_block_def)
qed

lemma select_round_queues_witness:
  "\<exists>c t m. select_round unit_gw claim_kernel no_error (\<lambda>fd w. (None, w)) {6} (unit_sys c) = Some (1, t) \<and> msgs_rep unit_gw claim_kernel t [m] \<and> block_ok m"
proof -
  from unit_conf obtain c where c: "device_db unit_env conflib_view conflib_good app_range c" "conflib_view c (1, 2) = Some unit_row2" by blast
  let ?s = "unit_sys c" and ?d = "row_device unit_env unit_row2 (6, 0)"
  have "getDeviceInfoByDeviceIndex unit_env True 2 (sys_dev ?s) = Some (Some ?d)"
    using unit_lookup[of "sys_dev ?s"] c by (simp add: unit_sys_def demo_dev_def)
  then have d: "device_at unit_gw claim_kernel 2 ?s = Some (Some ?d, ?s)"
    by (simp add: device_at_def with_memory_def claim_kernel_def quiet_kernel_def unit_gw_def)
  have "dev_status ?d = 4" "dev_connfd ?d = 6" by (simp_all add: row_device_def es_value_def unit_env_def)
  from claim_received[OF this(1), of c] this(2) obtain t where "serve_device unit_gw claim_kernel 6 2 ?d ?s = Some (True, t)"
    by (auto simp: serve_device_def claim_read)
  moreover have "getDeviceIndexByFd 6 (sys_dev ?s) = 2" by (simp add: getDeviceIndexByFd_def unit_sys_def)
  ultimately have "serve_ready unit_gw claim_kernel 6 ?s = Some (True, t)" using d by (simp add: serve_ready_def)
  moreover have w: "?s\<lparr>sys_world := ()\<rparr> = ?s" by (simp add: unit_sys_def demo_sys_def)
  have "serve_client unit_gw claim_kernel no_error 6 ?s = serve_ready unit_gw claim_kernel 6 (?s\<lparr>sys_world := ()\<rparr>)"
    by (simp add: serve_client_def no_error_def)
  ultimately have "serve_client unit_gw claim_kernel no_error 6 ?s = Some (True, t)" unfolding w by simp
  moreover have "gehServerFd (sys_dev ?s) = 3" "gehMaxFd (sys_dev ?s) = 6" by (simp_all add: unit_sys_def demo_dev_def)
  ultimately have r: "select_round unit_gw claim_kernel no_error (\<lambda>fd w. (None, w)) {6} ?s = Some (1, t)"
    by (simp add: select_round_def upt_rec)
  have "msgs_rep unit_gw claim_kernel ?s []"
    by (simp add: msgs_rep_def queue_rep_def unit_gw_def demo_gw_def new_next_block claim_kernel_def quiet_kernel_def unit_sys_def demo_sys_def)
  from select_round_queues[OF r this] obtain new where "length new = 1" "msgs_rep unit_gw claim_kernel t new" "\<forall>m \<in> set new. block_ok m" by auto
  then show ?thesis using r by (intro exI[of _ c] exI[of _ t] exI[of _ "hd new"]) (cases new; simp)
qed

section \<open>What goes on being watched\<close>

definition sockets :: "'d eh_dev \<Rightarrow> int set \<times> int \<times> int list" where
  "sockets d = (readFdsMaster d, gehMaxFd d, closed_fds d)"

text \<open>The calls of other libraries leave the variables for the sockets, which are the gateway's, alone.\<close>

definition gw_plain :: "'d gw_env \<Rightarrow> bool" where
  "gw_plain G \<longleftrightarrow> (\<forall>d d1. gw_refresh G d = Some d1 \<or> gen_db_file G d = Some d1 \<or> UpdatePagingConfig G d = Some d1 \<longrightarrow> sockets d1 = sockets d)"

definition watches :: "'d eh_dev \<Rightarrow> 'd eh_dev \<Rightarrow> bool" where
  "watches d d1 \<longleftrightarrow> (watch_inv d \<longrightarrow> watch_inv d1) \<and> readFdsMaster d \<subseteq> readFdsMaster d1 \<union> set (closed_fds d1) \<and>
     set (closed_fds d) \<subseteq> set (closed_fds d1)"

lemma watches_sockets: "sockets d1 = sockets d \<Longrightarrow> watches d d1"
  by (auto simp: watches_def sockets_def watch_inv_def)

lemma watches_trans: "watches d d1 \<Longrightarrow> watches d1 d2 \<Longrightarrow> watches d d2"
  by (auto simp: watches_def)

lemma watches_drop: "drop_fd fd d = Some d1 \<Longrightarrow> watches d d1"
  using drop_fd_inv[of d fd d1] by (auto simp: watches_def drop_fd_def split: if_splits)

lemma watches_watch: "watch_fd fd d = Some d1 \<Longrightarrow> watches d d1"
  using watch_fd_inv[of d fd d1] by (auto simp: watches_def watch_fd_def split: if_splits)

lemma update_column_sockets:
  assumes "gw_plain G" and "update_column E (gw_refresh G) cl v i d = Some (r, d1)"
  shows "sockets d1 = sockets d"
proof -
  have "sockets (d\<lparr>dev_conf := c\<rparr>) = sockets d" for c by (simp add: sockets_def)
  moreover have "sockets y = sockets x" if "gw_refresh G x = Some y" for x y using assms(1) that by (auto simp: gw_plain_def)
  ultimately show ?thesis
    using assms(2) by (auto simp: update_column_def run_simps split: if_splits option.splits)
qed

lemma disconnect_sockets:
  assumes "gw_plain G" and "disconnect_device G i d = Some d1"
  shows "sockets d1 = sockets d"
proof -
  from assms(2) obtain r x y where s: "updateStatusByDeviceIndex (gw_eh G) (gw_refresh G) (status_disconnected (gw_eh G)) i d = Some (r, x)"
    "gen_db_file G x = Some y" "UpdatePagingConfig G y = Some d1"
    by (auto simp: disconnect_device_def run_simps)
  have "sockets x = sockets d" using update_column_sockets[OF assms(1) s(1)[unfolded updateStatusByDeviceIndex_def]] .
  moreover have "sockets y = sockets x" "sockets d1 = sockets y" using assms(1) s(2,3) unfolding gw_plain_def by blast+
  ultimately show ?thesis by simp
qed

lemma array_sockets [simp]: "sockets (d\<lparr>g_devArray := a\<rparr>) = sockets d"
  by (simp add: sockets_def)

lemma zero_sockets [simp]: "sockets (zero_connfd i d) = sockets d"
  by (simp add: zero_connfd_def)

lemma serve_device_watches:
  assumes "gw_plain G" and "serve_device G K fd i d s = Some (q, t)"
  shows "watches (sys_dev s) (sys_dev t)"
proof -
  from assms(2) obtain ret recv s1 where r: "read_msg G K (dev_connfd d) s = Some (ret, recv, s1)"
    by (auto simp: serve_device_def run_simps)
  then have s1: "sys_dev s1 = sys_dev s" by (auto dest: read_msg_world)
  consider b where "receive_msg G K d b s1 = Some (q, t)"
    | d1 where "drop_fd fd (sys_dev s) = Some d1" "sys_dev t = zero_connfd i d1 \<or> disconnect_device G i (zero_connfd i d1) = Some (sys_dev t)"
    using assms(2) r s1 by (auto simp: serve_device_def Let_def run_simps split: if_splits)
  then show ?thesis
  proof cases
    case 1
    then show ?thesis using receive_dev[OF 1] s1 by (simp add: watches_sockets)
  next
    case 2
    have "sockets (sys_dev t) = sockets d1" using 2(2) disconnect_sockets[OF assms(1)] by auto
    from watches_trans[OF watches_drop[OF 2(1)] watches_sockets[OF this]] show ?thesis .
  qed
qed

lemma match_number_watches:
  assumes "match_number G K fd b s = Some (d, t)"
  shows "watches (sys_dev s) (sys_dev t)"
proof -
  from assms obtain n i where i: "getMsgNumber b = Some n" "getDeviceIndexByNumber (gw_eh G) (Some (dec n)) (sys_dev s) = Some i"
    by (auto simp: match_number_def run_simps)
  consider r s1 d1 where "sendRegisterNoDeviceACK G K fd 0 s = Some (r, s1)" "drop_fd fd (sys_dev s1) = Some d1" "sys_dev t = d1"
    | a e where "with_memory K (\<lambda>al. getDeviceInfoByNumber (gw_eh G) al (Some (dec n))) (s\<lparr>sys_dev := (sys_dev s)\<lparr>g_devArray := a\<rparr>\<rparr>) = Some (e, t)"
    using assms i by (auto simp: match_number_def Let_def run_simps split: if_splits)
  then show ?thesis
  proof cases
    case 1
    then have "sys_dev s1 = sys_dev s" by (auto simp: sendRegisterNoDeviceACK_def dest!: send_msg_world)
    then show ?thesis using watches_drop[OF 1(2)] 1(3) by simp
  next
    case 2
    from with_memory_world[OF this] show ?thesis by (auto intro!: watches_sockets)
  qed
qed

lemma serve_ready_watches:
  assumes "gw_plain G" and "serve_ready G K fd s = Some (q, t)"
  shows "watches (sys_dev s) (sys_dev t)"
proof -
  from assms(2) obtain dev s1 where d: "device_at G K (getDeviceIndexByFd fd (sys_dev s)) s = Some (dev, s1)"
    and c: "(case dev of Some d \<Rightarrow> serve_device G K fd (getDeviceIndexByFd fd (sys_dev s)) d s1 | None \<Rightarrow> serve_stranger G K fd s1) = Some (q, t)"
    by (auto simp: serve_ready_def Let_def run_simps)
  have s1: "sys_dev s1 = sys_dev s" using device_at_world[OF d] by auto
  show ?thesis
  proof (cases dev)
    case (Some x)
    then show ?thesis using serve_device_watches[OF assms(1), of K fd _ x s1 q t] c s1 by simp
  next
    case None
    then have st: "serve_stranger G K fd s1 = Some (q, t)" using c by simp
    then obtain ret recv s2 where r: "read_msg G K fd s1 = Some (ret, recv, s2)" by (auto simp: serve_stranger_def run_simps)
    then have s2: "sys_dev s2 = sys_dev s" using s1 by (auto dest: read_msg_world)
    consider d1 where "drop_fd fd (sys_dev s2) = Some d1" "sys_dev t = d1" | "sys_dev t = sys_dev s2"
      | b dev2 s3 where "match_number G K fd b s2 = Some (dev2, s3)"
          "(case dev2 of None \<Rightarrow> Some (False, s3) | Some d \<Rightarrow> receive_msg G K d b s3) = Some (q, t)"
      using st r by (auto simp: serve_stranger_def run_simps split: if_splits)
    then show ?thesis
    proof cases
      case 1
      then show ?thesis using watches_drop s2 by simp
    next
      case 2
      then show ?thesis using s2 by (simp add: watches_sockets)
    next
      case 3
      have "sys_dev t = sys_dev s3" using 3(2) receive_dev by (auto split: option.splits)
      then show ?thesis using match_number_watches[OF 3(1)] s2 by simp
    qed
  qed
qed

lemma serve_client_watches:
  assumes "gw_plain G" and "serve_client G K err fd s = Some (q, t)"
  shows "watches (sys_dev s) (sys_dev t)"
proof -
  obtain e w where e: "err fd (sys_world s) = (e, w)" by (cases "err fd (sys_world s)")
  consider "drop_fd fd (sys_dev s) = Some (sys_dev t)" | "serve_ready G K fd (s\<lparr>sys_world := w\<rparr>) = Some (q, t)"
    using assms(2) e by (auto simp: serve_client_def Let_def run_simps split: if_splits)
  then show ?thesis
  proof cases
    case 2
    from serve_ready_watches[OF assms(1) 2] show ?thesis by simp
  qed (rule watches_drop)
qed

lemma accept_watches:
  assumes "accept_client G K err pm s = Some t"
  shows "watches (sys_dev s) (sys_dev t)"
proof -
  consider "sys_dev t = sys_dev s" | fd where "sys_dev t = (sys_dev s)\<lparr>closed_fds := closed_fds (sys_dev s) @ [fd]\<rparr>"
    | fd m w where "manage_client G K fd m (s\<lparr>sys_world := w\<rparr>) = Some t"
    using assms by (auto simp: accept_client_def Let_def split: prod.splits if_splits option.splits)
  then show ?thesis
  proof cases
    case 1
    then show ?thesis by (simp add: watches_sockets)
  next
    case 2
    then show ?thesis by (auto simp: watches_def watch_inv_def)
  next
    case 3
    then obtain i dev u1 d1 where m: "device_at G K i (s\<lparr>sys_world := w\<rparr>) = Some (dev, u1)" "watch_fd fd (sys_dev u1) = Some d1" "sockets (sys_dev t) = sockets d1"
      by (auto simp: manage_client_def Let_def run_simps split: if_splits)
    have "sys_dev u1 = sys_dev s" using device_at_world[OF m(1)] by auto
    then show ?thesis using watches_trans[OF watches_watch[OF m(2)] watches_sockets[OF m(3)]] by simp
  qed
qed

text \<open>C21. As long as refreshing the applications, \<^verbatim>\<open>gen_db_file\<close> and \<^verbatim>\<open>UpdatePagingConfig\<close>, which other libraries have, leave
  the sockets of the gateway alone, a round of the select thread keeps every socket it watches below the greatest one, so
  that the next round looks at all of them, and a socket that was watched is watched still or has been closed,
  also when it had an error.
\<close>
lemma select_round_watches:
  assumes "gw_plain G" and "select_round G K err pm rdy s = Some (n, t)" and "watch_inv (sys_dev s)"
  shows "watch_inv (sys_dev t) \<and> selected (sys_dev t) = readFdsMaster (sys_dev t) \<and>
    readFdsMaster (sys_dev s) \<subseteq> readFdsMaster (sys_dev t) \<union> set (closed_fds (sys_dev t))"
proof -
  have "watches (sys_dev s) (sys_dev t)" if "select_from G K err pm rdy fds s = Some (n, t)" for fds
    using that
  proof (induction fds arbitrary: s n)
    case Nil
    then show ?case by (simp add: watches_sockets)
  next
    case (Cons fd fds)
    from Cons.prems obtain q s1 k where f: "(if fd \<notin> rdy then Some (False, s)
         else if fd = gehServerFd (sys_dev s) then map_option (Pair False) (accept_client G K err pm s) else serve_client G K err fd s) = Some (q, s1)"
      "select_from G K err pm rdy fds s1 = Some (k, t)"
      by (auto simp: run_simps)
    have "watches (sys_dev s) (sys_dev s1)"
      using f(1) serve_client_watches[OF assms(1), of K err fd s q s1] accept_watches[of G K err pm s s1]
      by (auto simp: watches_sockets split: if_splits)
    from watches_trans[OF this Cons.IH[OF f(2)]] show ?case .
  qed
  then have "watches (sys_dev s) (sys_dev t)" using assms(2) by (simp add: select_round_def)
  then show ?thesis using assms(3) watch_inv_selected by (auto simp: watches_def)
qed

lemma select_round_watches_witness:
  "\<forall>c. \<exists>t. select_round demo_gw (quiet_kernel :: unit kernel) no_error (\<lambda>fd w. (None, w)) {3} (demo_sys c) = Some (0, t) \<and>
     selected (sys_dev t) = readFdsMaster (sys_dev t)"
proof
  fix c
  have g: "gw_plain demo_gw" by (auto simp: gw_plain_def demo_gw_def)
  have w: "watch_inv (sys_dev (demo_sys c))" by (simp add: watch_inv_def demo_sys_def demo_dev_def fd_ok_def)
  have d: "gehServerFd (sys_dev (demo_sys c)) = 3" "gehMaxFd (sys_dev (demo_sys c)) = 6" by (simp_all add: demo_sys_def demo_dev_def)
  have "\<exists>t. accept_client demo_gw (quiet_kernel :: unit kernel) no_error (\<lambda>fd w. (None, w)) (demo_sys c) = Some t"
    by (simp add: accept_client_def quiet_kernel_def no_error_def)
  then obtain t where "accept_client demo_gw (quiet_kernel :: unit kernel) no_error (\<lambda>fd w. (None, w)) (demo_sys c) = Some t" ..
  then have r: "select_round demo_gw (quiet_kernel :: unit kernel) no_error (\<lambda>fd w. (None, w)) {3} (demo_sys c) = Some (0, t)"
    using d by (simp add: select_round_def upt_rec)
  from select_round_watches[OF g r w] r show "\<exists>t. select_round demo_gw (quiet_kernel :: unit kernel) no_error (\<lambda>fd w. (None, w)) {3} (demo_sys c) = Some (0, t) \<and>
     selected (sys_dev t) = readFdsMaster (sys_dev t)" by blast
qed

end
