(* ===== verification/Eh_Handlers.thy ===== *)
theory Eh_Handlers
  imports Eh_Gateway
begin

text \<open>
  More of the work of the home gateway (\<^verbatim>\<open>ehMpc.c\<close>): the list of devices that is sent to the phones, the password of the
  security modes, the detect points, the identity of a card, and the checks of the times in a query.
\<close>

section \<open>Values of messages\<close>

text \<open>The array for a value has \<^verbatim>\<open>MAX_PACKET_LEN\<close> bytes; what has been written to it is a list.\<close>

definition put_value :: "char list \<Rightarrow> char list \<Rightarrow> char list run" where
  "put_value x pr = (if length pr + length x \<le> MAX_PACKET_LEN then Some (pr @ x) else None)"

definition ehEncodeSimpleReply :: "char list option \<Rightarrow> nat \<Rightarrow> char list option \<Rightarrow> nat \<Rightarrow> (tcmRet \<times> char list) run" where
  "ehEncodeSimpleReply msgValue msgLen replyValue replyLen =
     (case replyValue of None \<Rightarrow> Some (TCMRET_INVALID_ARGUMENTS, [])
      | Some rv \<Rightarrow> do {
          p \<leftarrow> (case msgValue of None \<Rightarrow> Some []
                | Some m \<Rightarrow> if msgLen > 0 then do { x \<leftarrow> get_bytes 0 msgLen m; put_value x [] } else Some []);
          y \<leftarrow> get_bytes 0 replyLen rv;
          p1 \<leftarrow> put_value y p;
          Some (TCMRET_SUCCESS, p1) })"

text \<open>A time of day \<^verbatim>\<open>hh:mm\<close>, or none: two numbers, each stored in a byte.\<close>

definition atoi2 :: "string \<Rightarrow> int" where
  "atoi2 t = fst (strtol 32 t 10)"

definition ehEncodeFlashTime :: "buf \<Rightarrow> char list \<Rightarrow> (tcmRet \<times> char list) run" where
  "ehEncodeFlashTime flashTime pr =
     do { t \<leftarrow> str_of flashTime;
          if t = [] then do { p \<leftarrow> put_value [NUL, NUL] pr; Some (TCMRET_SUCCESS, p) }
          else do {
            h \<leftarrow> get_bytes 0 2 flashTime;
            p \<leftarrow> put_value [char_of (nat (atoi2 (cstr (h @ [NUL])) mod 256))] pr;
            m \<leftarrow> get_bytes 3 2 flashTime;
            p1 \<leftarrow> put_value [char_of (nat (atoi2 (cstr (m @ [NUL])) mod 256))] p;
            Some (TCMRET_SUCCESS, p1) } }"

section \<open>The list of devices\<close>

record deviceStruct =
  devID :: nat
  devName :: string
  devNumber :: string
  devSubType :: nat

text \<open>Lengths are bytes: a longer string is cut to its length modulo 256.\<close>

definition put_text :: "string \<Rightarrow> char list \<Rightarrow> char list run" where
  "put_text t pr = do { p \<leftarrow> put_value [char_of (length t mod 256)] pr; put_value (take (length t mod 256) t) p }"

fun put_devices :: "deviceStruct list \<Rightarrow> char list \<Rightarrow> char list run" where
  "put_devices [] pr = Some pr"
| "put_devices (d # ds) pr =
     do { p \<leftarrow> put_value [char_of (devID d)] pr;
          p1 \<leftarrow> put_text (devName d) p;
          p2 \<leftarrow> put_text (devNumber d) p1;
          p3 \<leftarrow> put_value [char_of (devSubType d)] p2;
          put_devices ds p3 }"

definition ehEncodeOneTypeDeviceInfo :: "deviceStruct list \<Rightarrow> nat \<Rightarrow> char list \<Rightarrow> (tcmRet \<times> char list) run" where
  "ehEncodeOneTypeDeviceInfo ds dType pr =
     do { p \<leftarrow> put_value [char_of dType] pr;
          p1 \<leftarrow> put_value [char_of (length ds mod 256)] p;
          p2 \<leftarrow> put_devices ds p1;
          Some (TCMRET_SUCCESS, p2) }"

text \<open>
  The kinds of devices and the states of those that are not sent are named in headers that are not in the repository.
\<close>

record sync_env =
  device_idp_no :: nat
  device_odp_no :: nat
  device_smp_no :: nat
  unsent_states :: "string list"

text \<open>One row: the buffers keep what earlier rows left there. The results are the indoor, outdoor and mobile phones it adds.\<close>

definition sync_row ::
    "'d gw_env \<Rightarrow> sync_env \<Rightarrow> 'd \<Rightarrow> int \<Rightarrow> buf option list \<Rightarrow>
      ((deviceStruct list \<times> deviceStruct list \<times> deviceStruct list) \<times> buf option list) run" where
  "sync_row G S c i bufs =
     do { (r, bs) \<leftarrow> capi_read_table_row (eh_capi (gw_eh G)) c (id_unit_info (gw_eh G)) i bufs;
          if r = - 1 then Some (([], [], []), bs)
          else do {
            st \<leftarrow> row_value bs (tab_state (gw_eh G));
            if list_ex (strcasecmp_eq st) (unsent_states S) then Some (([], [], []), bs)
            else do {
              t \<leftarrow> row_value bs (tab_type (gw_eh G));
              nm \<leftarrow> row_value bs (tab_name (gw_eh G));
              ac \<leftarrow> row_value bs (tab_account (gw_eh G));
              sub \<leftarrow> row_value bs (tab_subtype (gw_eh G));
              let k = getSubTypeID (gw_eh G) sub;
              let dev = (\<lambda>s. \<lparr>devID = nat (i mod 256), devName = nm, devNumber = ac, devSubType = nat (s mod 256)\<rparr>);
              Some ((if strcasecmp_eq t ''idp'' then [dev (k - 2)] else [],
                     if strcasecmp_eq t ''odp'' then [dev k] else [],
                     if strcasecmp_eq t ''smp'' then [dev (k - 2)] else []), bs) } } }"

fun sync_rows ::
    "'d gw_env \<Rightarrow> sync_env \<Rightarrow> 'd \<Rightarrow> int list \<Rightarrow> buf option list \<Rightarrow>
      (deviceStruct list \<times> deviceStruct list \<times> deviceStruct list) run" where
  "sync_rows G S c [] bufs = Some ([], [], [])"
| "sync_rows G S c (i # is) bufs =
     do { ((a, b, d), bs) \<leftarrow> sync_row G S c (i + 1) bufs;
          (a1, b1, d1) \<leftarrow> sync_rows G S c is bs;
          Some (a @ a1, b @ b1, d @ d1) }"

definition processIDPToMFCBSynchronizeDeviceCmd :: "'d gw_env \<Rightarrow> sync_env \<Rightarrow> 'd \<Rightarrow> (tcmRet \<times> char list) run" where
  "processIDPToMFCBSynchronizeDeviceCmd G S c =
     do { (allIDP, allODP, allSMP) \<leftarrow> sync_rows G S c (device_indices (gw_eh G))
            (replicate (tab_para_end (gw_eh G) - 1) (Some ((value_buf (gw_eh G))[0 := NUL])));
          (_, p) \<leftarrow> ehEncodeOneTypeDeviceInfo allIDP (device_idp_no S) [];
          (_, p1) \<leftarrow> ehEncodeOneTypeDeviceInfo allODP (device_odp_no S) p;
          (_, p2) \<leftarrow> ehEncodeOneTypeDeviceInfo allSMP (device_smp_no S) p1;
          Some (TCMRET_SUCCESS, p2) }"

definition ACK_IDP_TO_MFCB_SYNCHRONIZE_DEVICE :: "16 word" where "ACK_IDP_TO_MFCB_SYNCHRONIZE_DEVICE = 0x5017"
definition EVT_MFCB_TO_IDP_SYN_DEVICE :: "16 word" where "EVT_MFCB_TO_IDP_SYN_DEVICE = 0x900C"

definition handleIDPToMFCBSynchronizeDeviceCmd ::
    "'d gw_env \<Rightarrow> sync_env \<Rightarrow> 'w kernel \<Rightarrow> homeMsgCtrlBlock \<Rightarrow> ('d, 'w) eh_sys \<Rightarrow> (tcmRet \<times> ('d, 'w) eh_sys) run" where
  "handleIDPToMFCBSynchronizeDeviceCmd G S K hdMsg s =
     do { (_, val) \<leftarrow> processIDPToMFCBSynchronizeDeviceCmd G S (dev_conf (sys_dev s));
          send_msg G K (connfd hdMsg) (ssl hdMsg) ACK_IDP_TO_MFCB_SYNCHRONIZE_DEVICE (Some val) s }"

text \<open>\<open>kinds\<close> tells which types of device are in the mask \<^verbatim>\<open>deviceType\<close>.\<close>

fun send_to_all :: "'d gw_env \<Rightarrow> 'w kernel \<Rightarrow> (int \<Rightarrow> bool) \<Rightarrow> 16 word \<Rightarrow> char list \<Rightarrow> int list \<Rightarrow> ('d, 'w) eh_sys \<Rightarrow> ('d, 'w) eh_sys run" where
  "send_to_all G K kinds et val [] s = Some s"
| "send_to_all G K kinds et val (i # is) s =
     do { (d, s1) \<leftarrow> device_at G K (i + 1) s;
          s2 \<leftarrow> (case d of None \<Rightarrow> Some s1
                | Some x \<Rightarrow> if dev_status x = status_connected (gw_eh G) \<and> kinds (dev_type x)
                            then map_option snd (send_msg G K (dev_connfd x) (dev_ssl x) et (Some val) s1) else Some s1);
          send_to_all G K kinds et val is s2 }"

definition ehSendMsgToAllDevice ::
    "'d gw_env \<Rightarrow> 'w kernel \<Rightarrow> (int \<Rightarrow> bool) \<Rightarrow> 16 word \<Rightarrow> char list option \<Rightarrow> ('d, 'w) eh_sys \<Rightarrow> (tcmRet \<times> ('d, 'w) eh_sys) run" where
  "ehSendMsgToAllDevice G K kinds et val s =
     (case val of None \<Rightarrow> Some (TCMRET_INVALID_ARGUMENTS, s)
      | Some v \<Rightarrow> map_option (Pair TCMRET_SUCCESS) (send_to_all G K kinds et v (device_indices (gw_eh G)) s))"

definition sendSynDeviceEvt :: "'d gw_env \<Rightarrow> sync_env \<Rightarrow> 'w kernel \<Rightarrow> ('d, 'w) eh_sys \<Rightarrow> (tcmRet \<times> ('d, 'w) eh_sys) run" where
  "sendSynDeviceEvt G S K s =
     do { (_, val) \<leftarrow> processIDPToMFCBSynchronizeDeviceCmd G S (dev_conf (sys_dev s));
          ehSendMsgToAllDevice G K (\<lambda>t. t = int (device_idp_no S) \<or> t = int (device_smp_no S)) EVT_MFCB_TO_IDP_SYN_DEVICE (Some val) s }"

section \<open>The password of the security modes\<close>

text \<open>Identifiers of headers that are not in the repository. \<open>sec_stack\<close> is what local arrays hold before they are written.\<close>

record sec_env =
  id_securitymode :: int
  para_password :: int
  para_dinum :: int
  id_detactpoint :: int
  tab_alarmstatus :: int
  sec_stack :: string

definition sec_buf :: "sec_env \<Rightarrow> buf" where
  "sec_buf S = take (MAX_VALUE_LEN + 1) (sec_stack S @ replicate (MAX_VALUE_LEN + 1) NUL)"

text \<open>The string of a length and as many bytes, and where it ends.\<close>

definition msg_string :: "homeMsgCtrlBlock \<Rightarrow> nat \<Rightarrow> (string \<times> nat) run" where
  "msg_string m off = do { n \<leftarrow> msg_byte m off; x \<leftarrow> msg_bytes m (off + 1) n; Some (cstr (x @ [NUL]), off + 1 + n) }"

definition SECURITY_PASSWORD_RIGHT :: nat where "SECURITY_PASSWORD_RIGHT = 0"
definition SECURITY_PASSWORD_WRONG :: nat where "SECURITY_PASSWORD_WRONG = 1"

definition read_password :: "'d capi \<Rightarrow> sec_env \<Rightarrow> 'd \<Rightarrow> string option run" where
  "read_password X S c =
     do { (r, b) \<leftarrow> capi_read_parameter X c (id_securitymode S) (para_password S) (Some (sec_buf S));
          if r = - 1 then Some None else do { x \<leftarrow> b; t \<leftarrow> str_of x; Some (Some t) } }"

definition processIDPToMFCBChangeSecurityPassword ::
    "'d gw_env \<Rightarrow> sec_env \<Rightarrow> homeMsgCtrlBlock \<Rightarrow> ('d, 'w) eh_sys \<Rightarrow> (tcmRet \<times> char list \<times> ('d, 'w) eh_sys) run" where
  "processIDPToMFCBChangeSecurityPassword G S prMsg s =
     do { (oldPassword, k) \<leftarrow> msg_string prMsg 0;
          (newPassword, _) \<leftarrow> msg_string prMsg k;
          rp \<leftarrow> read_password (eh_capi (gw_eh G)) S (dev_conf (sys_dev s));
          case rp of None \<Rightarrow> Some (TCMRET_FAILURE, [], s)
          | Some realPassword \<Rightarrow>
              if oldPassword \<noteq> realPassword then do {
                s1 \<leftarrow> write_flash G s;
                Some (TCMRET_SUCCESS, [char_of ACT_RESULT_FAILED, char_of (SECURITY_PASSWORD_WRONG)], s1) }
              else do {
                (r, c) \<leftarrow> capi_write_parameter (eh_capi (gw_eh G)) (dev_conf (sys_dev s)) (id_securitymode S) (para_password S) (Some newPassword);
                let s1 = s\<lparr>sys_dev := (sys_dev s)\<lparr>dev_conf := c\<rparr>\<rparr>;
                if r = - 1 then Some (TCMRET_FAILURE, [], s1)
                else do {
                  s2 \<leftarrow> write_flash G s1;
                  Some (TCMRET_SUCCESS, [char_of ACT_RESULT_SUCCEED, char_of (SECURITY_PASSWORD_RIGHT)], s2) } } }"

definition processIDPToMFCBCheckSecurityPassword :: "'d capi \<Rightarrow> sec_env \<Rightarrow> homeMsgCtrlBlock \<Rightarrow> ('d, 'w) eh_sys \<Rightarrow> (tcmRet \<times> char list) run" where
  "processIDPToMFCBCheckSecurityPassword X S prMsg s =
     do { (oldPassword, _) \<leftarrow> msg_string prMsg 0;
          rp \<leftarrow> read_password X S (dev_conf (sys_dev s));
          case rp of None \<Rightarrow> Some (TCMRET_FAILURE, [])
          | Some realPassword \<Rightarrow>
              Some (TCMRET_SUCCESS, [char_of (if oldPassword \<noteq> realPassword then ACT_RESULT_FAILED else ACT_RESULT_SUCCEED)]) }"

definition ACK_IDP_TO_MFCB_CHANGE_SECURITY_PASSWORD :: "16 word" where "ACK_IDP_TO_MFCB_CHANGE_SECURITY_PASSWORD = 0x5019"
definition ACK_IDP_TO_MFCB_CHECK_SECURITY_PASSWORD :: "16 word" where "ACK_IDP_TO_MFCB_CHECK_SECURITY_PASSWORD = 0x501A"

definition handleIDPToMFCBChangeSecurityPassword ::
    "'d gw_env \<Rightarrow> sec_env \<Rightarrow> 'w kernel \<Rightarrow> homeMsgCtrlBlock \<Rightarrow> ('d, 'w) eh_sys \<Rightarrow> (tcmRet \<times> ('d, 'w) eh_sys) run" where
  "handleIDPToMFCBChangeSecurityPassword G S K hdMsg s =
     do { (r, val, s1) \<leftarrow> processIDPToMFCBChangeSecurityPassword G S hdMsg s;
          if r \<noteq> TCMRET_SUCCESS then Some (TCMRET_FAILURE, s1)
          else send_msg G K (connfd hdMsg) (ssl hdMsg) ACK_IDP_TO_MFCB_CHANGE_SECURITY_PASSWORD (Some val) s1 }"

definition handleIDPToMFCBCheckSecurityPassword ::
    "'d gw_env \<Rightarrow> sec_env \<Rightarrow> 'w kernel \<Rightarrow> homeMsgCtrlBlock \<Rightarrow> ('d, 'w) eh_sys \<Rightarrow> (tcmRet \<times> ('d, 'w) eh_sys) run" where
  "handleIDPToMFCBCheckSecurityPassword G S K hdMsg s =
     do { (r, val) \<leftarrow> processIDPToMFCBCheckSecurityPassword (eh_capi (gw_eh G)) S hdMsg s;
          if r \<noteq> TCMRET_SUCCESS then Some (TCMRET_FAILURE, s)
          else send_msg G K (connfd hdMsg) (ssl hdMsg) ACK_IDP_TO_MFCB_CHECK_SECURITY_PASSWORD (Some val) s }"

section \<open>Detect points\<close>

definition PPI_DP_NORMAL :: nat where "PPI_DP_NORMAL = 1"
definition PPI_DP_ALERT :: nat where "PPI_DP_ALERT = 2"
definition ACK_IDP_TO_MFCB_QUERY_DETECT_POINT_STATUS :: "16 word" where "ACK_IDP_TO_MFCB_QUERY_DETECT_POINT_STATUS = 0x5007"

text \<open>The array that is read into keeps what was read before: each read starts with \<open>b\<close>, which is not looked at when it fails.\<close>

definition dp_alert :: "'d capi \<Rightarrow> sec_env \<Rightarrow> 'd \<Rightarrow> int \<Rightarrow> buf \<Rightarrow> (bool \<times> buf) run" where
  "dp_alert X S c i b =
     do { (r, x) \<leftarrow> capi_read_table_parameter X c (id_detactpoint S) i (tab_alarmstatus S) (Some b);
          b1 \<leftarrow> x;
          if r \<noteq> 0 then Some (False, b1) else do { t \<leftarrow> str_of b1; Some (strcasecmp_eq t ''alert'', b1) } }"

fun any_alert :: "'d capi \<Rightarrow> sec_env \<Rightarrow> 'd \<Rightarrow> int list \<Rightarrow> buf \<Rightarrow> (bool \<times> buf) run" where
  "any_alert X S c [] b = Some (False, b)"
| "any_alert X S c (i # is) b = do { (a, b1) \<leftarrow> dp_alert X S c i b; if a then Some (True, b1) else any_alert X S c is b1 }"

fun put_alerts :: "'d capi \<Rightarrow> sec_env \<Rightarrow> 'd \<Rightarrow> int list \<Rightarrow> buf \<Rightarrow> char list \<Rightarrow> char list run" where
  "put_alerts X S c [] b pr = Some pr"
| "put_alerts X S c (i # is) b pr =
     do { (a, b1) \<leftarrow> dp_alert X S c i b;
          pr1 \<leftarrow> (if a then put_value [char_of (nat (i mod 256))] pr else Some pr);
          put_alerts X S c is b1 pr1 }"

definition processIDPToMFCBQueryDetectPointStatus :: "'d capi \<Rightarrow> sec_env \<Rightarrow> 'd \<Rightarrow> (tcmRet \<times> char list) run" where
  "processIDPToMFCBQueryDetectPointStatus X S c =
     do { (r, x) \<leftarrow> capi_read_parameter X c (id_securitymode S) (para_dinum S) (Some (sec_buf S));
          if r \<noteq> 0 then Some (TCMRET_CONFLIB_READ_ERROR, [])
          else do {
            b \<leftarrow> x;
            t \<leftarrow> str_of b;
            currNum \<leftarrow> (case strtol 32 t 10 of (v, _, err) \<Rightarrow> if err then None else Some v);
            let points = map (\<lambda>i. int i + 1) [0..<nat currNum];
            (alertFlag, b1) \<leftarrow> any_alert X S c points b;
            if alertFlag then do { p \<leftarrow> put_alerts X S c points b1 [char_of PPI_DP_ALERT]; Some (TCMRET_SUCCESS, p) }
            else Some (TCMRET_SUCCESS, [char_of PPI_DP_NORMAL]) } }"

definition handleIDPToMFCBQueryDetectPointStatus ::
    "'d gw_env \<Rightarrow> sec_env \<Rightarrow> 'w kernel \<Rightarrow> homeMsgCtrlBlock \<Rightarrow> ('d, 'w) eh_sys \<Rightarrow> (tcmRet \<times> ('d, 'w) eh_sys) run" where
  "handleIDPToMFCBQueryDetectPointStatus G S K hdMsg s =
     do { (r, val) \<leftarrow> processIDPToMFCBQueryDetectPointStatus (eh_capi (gw_eh G)) S (dev_conf (sys_dev s));
          if r \<noteq> TCMRET_SUCCESS then Some (TCMRET_FAILURE, s)
          else send_msg G K (connfd hdMsg) (ssl hdMsg) ACK_IDP_TO_MFCB_QUERY_DETECT_POINT_STATUS (Some val) s }"

section \<open>Cards and queries\<close>

text \<open>
  The identity of a card is written in hexadecimal digits into an array of \<open>idlen + 1\<close> bytes
  (\<^verbatim>\<open>MAXPARA_CARDIDLEN\<close> is not in the repository): \<^verbatim>\<open>sprintf\<close> writes two digits and a zero for each byte.
\<close>

definition hex_digit :: "nat \<Rightarrow> char" where
  "hex_digit n = ''0123456789abcdef'' ! n"

fun put_hex :: "nat \<Rightarrow> char list \<Rightarrow> buf \<Rightarrow> buf run" where
  "put_hex k [] b = Some b"
| "put_hex k (x # xs) b =
     do { b1 \<leftarrow> put_bytes (2 * k) [hex_digit (of_char x div 16), hex_digit (of_char x mod 16), NUL] b; put_hex (k + 1) xs b1 }"

text \<open>The string that is copied to the caller.\<close>

definition processODPToMFCBReportCardInfoCmd :: "nat \<Rightarrow> homeMsgCtrlBlock \<Rightarrow> (tcmRet \<times> string) run" where
  "processODPToMFCBReportCardInfoCmd idlen prMsg =
     do { n \<leftarrow> msg_byte prMsg 0;
          x \<leftarrow> msg_bytes prMsg 1 n;
          b \<leftarrow> put_hex 0 x (replicate (idlen + 1) NUL);
          t \<leftarrow> str_of b;
          Some (TCMRET_SUCCESS, t) }"

definition checkAlarmHistoryQueryDataFormat :: "string \<Rightarrow> int" where
  "checkAlarmHistoryQueryDataFormat q =
     (if length q \<noteq> 21 then - 1
      else if q ! 10 \<noteq> CHR '' '' then - 1
      else if \<not> (q ! 4 = CHR ''.'' \<and> q ! 7 = CHR ''.'' \<and> q ! 15 = CHR ''.'' \<and> q ! 18 = CHR ''.'') then - 1
      else 0)"

definition checkAlarmTimeFormatInDB :: "string \<Rightarrow> int" where
  "checkAlarmTimeFormatInDB t = (if length t \<noteq> 19 then - 1 else if t ! 10 \<noteq> CHR '' '' then - 1 else 0)"

end
