(* ===== verification/Eh_Handlers_Props.thy ===== *)
theory Eh_Handlers_Props
  imports Eh_Handlers Eh_Gateway_Props
begin

text \<open>
  More of the work of the home gateway against the database: the list of devices can be read back from its bytes, the password
  that was set is the one that is accepted, the alerts that are reported are those of the database, and the identity of a card
  fits its array or is written past it.
\<close>

section \<open>The list of devices\<close>

text \<open>How a phone reads the list: the kind, the number of devices, and for each its number, its name, its account and its subtype.\<close>

definition get_text :: "char list \<Rightarrow> (string \<times> char list) option" where
  "get_text v = (case v of [] \<Rightarrow> None
    | n # w \<Rightarrow> if of_char n \<le> length w then Some (take (of_char n) w, drop (of_char n) w) else None)"

fun get_devices :: "nat \<Rightarrow> char list \<Rightarrow> (deviceStruct list \<times> char list) option" where
  "get_devices 0 v = Some ([], v)"
| "get_devices (Suc k) [] = None"
| "get_devices (Suc k) (i # v) =
     do { (nm, v1) \<leftarrow> get_text v;
          (ac, v2) \<leftarrow> get_text v1;
          case v2 of [] \<Rightarrow> None
          | sub # v3 \<Rightarrow> do { (ds, rest) \<leftarrow> get_devices k v3;
                              Some (\<lparr>devID = of_char i, devName = nm, devNumber = ac, devSubType = of_char sub\<rparr> # ds, rest) } }"

definition get_kind :: "char list \<Rightarrow> ((nat \<times> deviceStruct list) \<times> char list) option" where
  "get_kind v = (case v of k # n # w \<Rightarrow> do { (ds, rest) \<leftarrow> get_devices (of_char n) w; Some ((of_char k, ds), rest) } | _ \<Rightarrow> None)"

definition struct_ok :: "deviceStruct \<Rightarrow> bool" where
  "struct_ok d \<longleftrightarrow> devID d < 256 \<and> devSubType d < 256 \<and> length (devName d) < 256 \<and> length (devNumber d) < 256"

text \<open>The bytes that are written, with no limit.\<close>

definition text_bytes :: "string \<Rightarrow> char list" where
  "text_bytes t = char_of (length t mod 256) # take (length t mod 256) t"

definition struct_bytes :: "deviceStruct \<Rightarrow> char list" where
  "struct_bytes d = char_of (devID d) # text_bytes (devName d) @ text_bytes (devNumber d) @ [char_of (devSubType d)]"

definition kind_bytes :: "nat \<Rightarrow> deviceStruct list \<Rightarrow> char list" where
  "kind_bytes k ds = char_of k # char_of (length ds mod 256) # concat (map struct_bytes ds)"

lemma put_value_append: "(put_value x pr) \<bind> put_value y = put_value (x @ y) pr"
  by (simp add: put_value_def)

lemma put_text_bytes: "put_text t pr = put_value (text_bytes t) pr"
  by (simp add: put_text_def text_bytes_def put_value_append)

lemma put_devices_bytes: "length pr \<le> MAX_PACKET_LEN \<Longrightarrow> put_devices ds pr = put_value (concat (map struct_bytes ds)) pr"
proof (induction ds arbitrary: pr)
  case (Cons d ds)
  have "put_devices (d # ds) pr = put_value (struct_bytes d) pr \<bind> put_devices ds"
    by (simp add: put_text_bytes put_value_append bind_assoc[symmetric] struct_bytes_def)
  then show ?case using Cons.IH by (simp add: put_value_def)
qed (simp add: put_value_def)

lemma encode_bytes:
  "length pr \<le> MAX_PACKET_LEN \<Longrightarrow> ehEncodeOneTypeDeviceInfo ds k pr = map_option (Pair TCMRET_SUCCESS) (put_value (kind_bytes k ds) pr)"
  by (simp add: ehEncodeOneTypeDeviceInfo_def put_devices_bytes put_value_def kind_bytes_def)

lemma byte_of: "n < 256 \<Longrightarrow> of_char (char_of n :: char) = (n :: nat)"
  by (simp add: take_bit_eq_mod)

lemma get_text_bytes: "length t < 256 \<Longrightarrow> get_text (text_bytes t @ rest) = Some (t, rest)"
  by (simp add: get_text_def text_bytes_def byte_of)

lemma get_devices_bytes: "list_all struct_ok ds \<Longrightarrow> get_devices (length ds) (concat (map struct_bytes ds) @ rest) = Some (ds, rest)"
proof (induction ds)
  case (Cons d ds)
  then have ok: "devID d < 256" "devSubType d < 256" "length (devName d) < 256" "length (devNumber d) < 256"
    "get_devices (length ds) (concat (map struct_bytes ds) @ rest) = Some (ds, rest)" by (simp_all add: struct_ok_def[of d])
  then show ?case by (simp add: struct_bytes_def[of d] get_text_bytes byte_of)
qed simp

lemma get_kind_bytes:
  "list_all struct_ok ds \<Longrightarrow> length ds < 256 \<Longrightarrow> k < 256 \<Longrightarrow> get_kind (kind_bytes k ds @ rest) = Some ((k, ds), rest)"
  by (simp add: get_kind_def kind_bytes_def byte_of get_devices_bytes)

lemma length_kind_bytes:
  "list_all struct_ok ds \<Longrightarrow> length (kind_bytes k ds) = 2 + sum_list (map (\<lambda>d. 4 + length (devName d) + length (devNumber d)) ds)"
  by (induction ds) (simp_all add: kind_bytes_def struct_bytes_def text_bytes_def struct_ok_def)

text \<open>The rows of the database that are of a type and in a state that is sent.\<close>

definition row_struct :: "'d eh_env \<Rightarrow> int \<Rightarrow> int \<Rightarrow> (string \<times> string) list \<Rightarrow> deviceStruct" where
  "row_struct E off i es = \<lparr>devID = nat (i mod 256), devName = es_value es (tab_name E), devNumber = es_value es (tab_account E),
     devSubType = nat ((getSubTypeID E (es_value es (tab_subtype E)) - off) mod 256)\<rparr>"

definition sent_as :: "'d eh_env \<Rightarrow> sync_env \<Rightarrow> string \<Rightarrow> (string \<times> string) list \<Rightarrow> bool" where
  "sent_as E S t es \<longleftrightarrow> \<not> list_ex (strcasecmp_eq (es_value es (tab_state E))) (unsent_states S) \<and> strcasecmp_eq (es_value es (tab_type E)) t"

definition listed :: "'d eh_env \<Rightarrow> sync_env \<Rightarrow> rows_view \<Rightarrow> string \<Rightarrow> int \<Rightarrow> int list \<Rightarrow> deviceStruct list" where
  "listed E S v t off is = concat (map (\<lambda>i. case v (id_unit_info E, i + 1) of None \<Rightarrow> []
     | Some es \<Rightarrow> if sent_as E S t es then [row_struct E off (i + 1) es] else []) is)"

lemma sync_row_view:
  assumes "device_db (gw_eh G) view good valid c" and "columns_ok (gw_eh G)" and "0 \<le> i" and "i < 255"
    and "\<And>es. view c (id_unit_info (gw_eh G), i + 1) = Some es \<Longrightarrow> length es = tab_para_end (gw_eh G) - 1"
    and "bufs_ok (tab_para_end (gw_eh G) - 1) bufs"
  shows "\<exists>bs. sync_row G S c (i + 1) bufs =
      Some ((listed (gw_eh G) S (view c) ''idp'' 2 [i], listed (gw_eh G) S (view c) ''odp'' 0 [i], listed (gw_eh G) S (view c) ''smp'' 2 [i]), bs) \<and>
    bufs_ok (tab_para_end (gw_eh G) - 1) bs"
proof -
  let ?E = "gw_eh G"
  have i: "1 \<le> i + 1" "i + 1 < 256" using assms(3,4) by simp_all
  have pe: "2 \<le> tab_para_end ?E" using assms(2) by (auto simp: columns_ok_def)
  note read = unit_row_read[OF assms(1) i pe assms(6)]
  show ?thesis
  proof (cases "view c (id_unit_info ?E, i + 1)")
    case None
    from read(1)[OF None] obtain bs where "capi_read_table_row (eh_capi ?E) c (id_unit_info ?E) (i + 1) bufs = Some (- 1, bs)"
      "bufs_ok (tab_para_end ?E - 1) bs" by blast
    then show ?thesis using None by (simp add: sync_row_def listed_def)
  next
    case (Some es)
    from read(2)[OF Some assms(5)[OF Some]] obtain bs where
      bs: "capi_read_table_row (eh_capi ?E) c (id_unit_info ?E) (i + 1) bufs = Some (0, bs)" "bufs_ok (tab_para_end ?E - 1) bs"
        "\<And>p. 1 \<le> p \<Longrightarrow> p < tab_para_end ?E \<Longrightarrow> row_value bs p = Some (es_value es p)" by blast
    have v: "row_value bs (tab_state ?E) = Some (es_value es (tab_state ?E))" "row_value bs (tab_type ?E) = Some (es_value es (tab_type ?E))"
      "row_value bs (tab_name ?E) = Some (es_value es (tab_name ?E))" "row_value bs (tab_account ?E) = Some (es_value es (tab_account ?E))"
      "row_value bs (tab_subtype ?E) = Some (es_value es (tab_subtype ?E))"
      using assms(2) by (simp_all add: columns_ok_def bs(3))
    show ?thesis using bs(1,2) v Some
      by (intro exI[of _ bs]) (simp add: sync_row_def listed_def sent_as_def row_struct_def Let_def)
  qed
qed

lemma sync_rows_view:
  assumes "device_db (gw_eh G) view good valid c" and "columns_ok (gw_eh G)"
  shows "\<forall>i \<in> set is. 0 \<le> i \<and> i < 255 \<and>
      (\<forall>es. view c (id_unit_info (gw_eh G), i + 1) = Some es \<longrightarrow> length es = tab_para_end (gw_eh G) - 1) \<Longrightarrow>
    bufs_ok (tab_para_end (gw_eh G) - 1) bufs \<Longrightarrow>
    sync_rows G S c is bufs =
      Some (listed (gw_eh G) S (view c) ''idp'' 2 is, listed (gw_eh G) S (view c) ''odp'' 0 is, listed (gw_eh G) S (view c) ''smp'' 2 is)"
proof (induction "is" arbitrary: bufs)
  case (Cons i "is")
  have i: "0 \<le> i" "i < 255" "\<And>es. view c (id_unit_info (gw_eh G), i + 1) = Some es \<Longrightarrow> length es = tab_para_end (gw_eh G) - 1"
    using Cons.prems(1) by simp_all
  from sync_row_view[OF assms i Cons.prems(2), of S] obtain bs where
    bs: "sync_row G S c (i + 1) bufs =
      Some ((listed (gw_eh G) S (view c) ''idp'' 2 [i], listed (gw_eh G) S (view c) ''odp'' 0 [i], listed (gw_eh G) S (view c) ''smp'' 2 [i]), bs)"
    "bufs_ok (tab_para_end (gw_eh G) - 1) bs" by blast
  from Cons.IH[OF _ bs(2)] Cons.prems(1) bs(1) show ?case by (simp add: listed_def)
qed (simp add: listed_def)

lemma listed_ok:
  assumes "\<forall>i \<in> set is. \<forall>es. v (id_unit_info E, i + 1) = Some es \<longrightarrow>
    length (es_value es (tab_name E)) < 256 \<and> length (es_value es (tab_account E)) < 256"
  shows "list_all struct_ok (listed E S v t off is)"
  using assms by (induction "is") (auto simp: listed_def struct_ok_def row_struct_def split: option.splits)

lemma listed_length: "length (listed E S v t off is) \<le> length is"
  by (induction "is") (auto simp: listed_def split: option.splits)

text \<open>C19. When the database keeps its promises and has rows of the right size whose names and accounts are
  shorter than 256 characters, the value with the list of devices has all indoor, outdoor and mobile phones of the
  database that are in a state that is sent, in the order of their rows, and nothing else: a phone that takes it apart gets back their numbers,
  names, accounts and subtypes. When they do not fit the array of the packet the code writes past it.
\<close>
lemma sync_value_roundtrip:
  assumes "device_db (gw_eh G) view good valid c" and "columns_ok (gw_eh G)"
    and "\<And>i es. 1 \<le> i \<Longrightarrow> i \<le> int (MAXTABLE_DEVICES (gw_eh G)) \<Longrightarrow> view c (id_unit_info (gw_eh G), i) = Some es \<Longrightarrow>
      length es = tab_para_end (gw_eh G) - 1 \<and> length (es_value es (tab_name (gw_eh G))) < 256 \<and> length (es_value es (tab_account (gw_eh G))) < 256"
    and "device_idp_no S < 256" and "device_odp_no S < 256" and "device_smp_no S < 256"
  shows "\<exists>v v1 v2. processIDPToMFCBSynchronizeDeviceCmd G S c = (if length v \<le> MAX_PACKET_LEN then Some (TCMRET_SUCCESS, v) else None) \<and>
    length v = 6 + sum_list (map (\<lambda>d. 4 + length (devName d) + length (devNumber d))
      (listed (gw_eh G) S (view c) ''idp'' 2 (device_indices (gw_eh G)) @ listed (gw_eh G) S (view c) ''odp'' 0 (device_indices (gw_eh G)) @
       listed (gw_eh G) S (view c) ''smp'' 2 (device_indices (gw_eh G)))) \<and>
    get_kind v = Some ((device_idp_no S, listed (gw_eh G) S (view c) ''idp'' 2 (device_indices (gw_eh G))), v1) \<and>
    get_kind v1 = Some ((device_odp_no S, listed (gw_eh G) S (view c) ''odp'' 0 (device_indices (gw_eh G))), v2) \<and>
    get_kind v2 = Some ((device_smp_no S, listed (gw_eh G) S (view c) ''smp'' 2 (device_indices (gw_eh G))), [])"
proof -
  let ?l = "\<lambda>t off. listed (gw_eh G) S (view c) t off (device_indices (gw_eh G))"
  let ?a = "kind_bytes (device_idp_no S) (?l ''idp'' 2)" and ?b = "kind_bytes (device_odp_no S) (?l ''odp'' 0)"
  let ?d = "kind_bytes (device_smp_no S) (?l ''smp'' 2)"
  have fit: "length es = tab_para_end (gw_eh G) - 1 \<and> length (es_value es (tab_name (gw_eh G))) < 256 \<and> length (es_value es (tab_account (gw_eh G))) < 256"
    if "i \<in> set (device_indices (gw_eh G))" "view c (id_unit_info (gw_eh G), i + 1) = Some es" for i es
    using assms(3)[of "i + 1" es] that by (auto simp: device_indices_def)
  have rows: "sync_rows G S c (device_indices (gw_eh G)) (replicate (tab_para_end (gw_eh G) - 1) (Some ((value_buf (gw_eh G))[0 := NUL]))) =
    Some (?l ''idp'' 2, ?l ''odp'' 0, ?l ''smp'' 2)"
  proof (rule sync_rows_view[OF assms(1,2)])
    show "\<forall>i \<in> set (device_indices (gw_eh G)). 0 \<le> i \<and> i < 255 \<and>
        (\<forall>es. view c (id_unit_info (gw_eh G), i + 1) = Some es \<longrightarrow> length es = tab_para_end (gw_eh G) - 1)"
      using indices_range[OF assms(1)] fit by blast
  qed (rule first_bufs)
  have "processIDPToMFCBSynchronizeDeviceCmd G S c =
    (if length (?a @ ?b @ ?d) \<le> MAX_PACKET_LEN then Some (TCMRET_SUCCESS, ?a @ ?b @ ?d) else None)"
    using rows by (simp add: processIDPToMFCBSynchronizeDeviceCmd_def encode_bytes put_value_def)
  moreover have n: "length (?l t off) < 256" for t off
    using assms(1) listed_length[of "gw_eh G" S "view c" t off "device_indices (gw_eh G)"] by (simp add: device_db_def device_indices_def)
  moreover have "list_all struct_ok (?l t off)" for t off
    using fit by (intro listed_ok) blast
  note ok = this
  moreover have "length (?a @ ?b @ ?d) = 6 + sum_list (map (\<lambda>d. 4 + length (devName d) + length (devNumber d)) (?l ''idp'' 2 @ ?l ''odp'' 0 @ ?l ''smp'' 2))"
    using length_kind_bytes[OF ok] by simp
  ultimately show ?thesis
    using assms(4-6) get_kind_bytes[of "?l ''smp'' 2" "device_smp_no S" "[]"]
    by (intro exI[of _ "?a @ ?b @ ?d"] exI[of _ "?b @ ?d"] exI[of _ ?d]) (simp add: get_kind_bytes)
qed

definition demo_sync :: sync_env where
  "demo_sync = \<lparr>device_idp_no = 2, device_odp_no = 1, device_smp_no = 3, unsent_states = [''initial'']\<rparr>"

lemma sync_value_roundtrip_witness:
  "\<exists>c v v2. processIDPToMFCBSynchronizeDeviceCmd unit_gw demo_sync c = Some (TCMRET_SUCCESS, v) \<and> length v = 16 \<and>
     get_kind v2 = Some ((3, [\<lparr>devID = 2, devName = ''smp'', devNumber = ''101'', devSubType = 255\<rparr>]), [])"
proof -
  obtain c where c: "device_db unit_env conflib_view conflib_good app_range c" "columns_ok unit_env"
    "conflib_view c (1, 1) = Some [(''mac'', ''aa''), (''host'', ''printer'')]" "conflib_view c (1, 2) = Some [(''mac'', ''smp''), (''host'', ''101'')]"
    using unit_rows[of "''smp''" "''101''"] by (auto simp: demo_tbl)
  have e: "gw_eh unit_gw = unit_env" "device_indices unit_env = [0, 1]" "id_unit_info unit_env = 1" "tab_para_end unit_env = 3"
    "tab_name unit_env = 1" "tab_account unit_env = 2" "tab_state unit_env = 2" "tab_type unit_env = 1" "MAXTABLE_DEVICES unit_env = 2"
    "getSubTypeID unit_env = (\<lambda>t. 1)"
    by (simp_all add: unit_gw_def unit_env_def demo_env_def device_indices_def upt_rec)
  have l: "listed unit_env demo_sync (conflib_view c) ''idp'' 2 [0, 1] = []" "listed unit_env demo_sync (conflib_view c) ''odp'' 0 [0, 1] = []"
    "listed unit_env demo_sync (conflib_view c) ''smp'' 2 [0, 1] = [\<lparr>devID = 2, devName = ''smp'', devNumber = ''101'', devSubType = 255\<rparr>]"
    by (simp_all add: listed_def sent_as_def row_struct_def e c es_value_def demo_sync_def strcasecmp_eq_def tolower_def)
  have f: "length es = 2 \<and> length (es_value es 1) < 256 \<and> length (es_value es 2) < 256"
    if "1 \<le> i" "i \<le> 2" "conflib_view c (1, i) = Some es" for i es
  proof -
    have "i = 1 \<or> i = 2" using that(1,2) by linarith
    then show ?thesis using that(3) c(3,4) by (auto simp: es_value_def)
  qed
  have k: "device_idp_no demo_sync = 2" "device_odp_no demo_sync = 1" "device_smp_no demo_sync = 3" by (simp_all add: demo_sync_def)
  from sync_value_roundtrip[of unit_gw conflib_view conflib_good app_range c demo_sync] c(1,2) f obtain v v2 where
    "processIDPToMFCBSynchronizeDeviceCmd unit_gw demo_sync c = (if length v \<le> MAX_PACKET_LEN then Some (TCMRET_SUCCESS, v) else None)"
    "length v = 16" "get_kind v2 = Some ((3, [\<lparr>devID = 2, devName = ''smp'', devNumber = ''101'', devSubType = 255\<rparr>]), [])"
    by (auto simp: e l k)
  then show ?thesis by (intro exI[of _ c] exI[of _ v] exI[of _ v2]) (simp add: MAX_PACKET_LEN_def)
qed

section \<open>The password\<close>

definition two_strings :: "string \<Rightarrow> string \<Rightarrow> char list" where
  "two_strings a b = char_of (length a) # a @ char_of (length b) # b"

lemma msg_string_at:
  assumes "msg_value m = pre @ char_of (length a) # a @ rest" and "length pre = k" and "length a < 256"
  shows "msg_string m k = Some (cstr a, k + 1 + length a)"
proof -
  have "msg_byte m k = Some (length a)" using assms(1-3) by (simp add: msg_byte_def nth_append byte_of)
  moreover have "msg_bytes m (k + 1) (length a) = Some a" using assms(1,2) by (simp add: msg_bytes_def get_bytes_def)
  ultimately show ?thesis by (simp add: msg_string_def cstr_snoc)
qed

lemma length_sec_buf [simp]: "length (sec_buf S) = 641"
  by (simp add: sec_buf_def MAX_VALUE_LEN_def)

lemma sec_buf_big: "MAX_VALUE_LEN \<le> length (sec_buf S)"
  by (simp add: MAX_VALUE_LEN_def)

lemma cstr_short: "length (cstr b) \<le> length b"
  by (simp add: cstr_def length_takeWhile_le)

lemma read_password_view:
  assumes "capi_database X view good valid" and "good c" and "valid (id_securitymode S)" and "is_int (para_password S)"
    and "\<forall>p. cell (view c) (id_securitymode S, 0, para_password S) = Some p \<longrightarrow> length p < 639"
  shows "read_password X S c = Some (cell (view c) (id_securitymode S, 0, para_password S))"
proof -
  let ?v = "cell (view c) (id_securitymode S, 0, para_password S)"
  from capi_database.parameter_read[OF assms(1-4) sec_buf_big assms(5)] obtain b1 where
    "capi_read_parameter X c (id_securitymode S) (para_password S) (Some (sec_buf S)) = Some (if ?v = None then - 1 else 0, Some b1)"
    "?v \<noteq> None \<Longrightarrow> str_of b1 = ?v" by blast
  then show ?thesis by (cases ?v) (auto simp: read_password_def)
qed

lemma write_flash_good:
  assumes "capi_database (eh_capi (gw_eh G)) view good valid" and "good (dev_conf (sys_dev s))"
  shows "\<exists>t. write_flash G s = Some t \<and> good (dev_conf (sys_dev t)) \<and> view (dev_conf (sys_dev t)) = view (dev_conf (sys_dev s))"
  using capi_database.write_to_flash[OF assms] by (auto simp: write_flash_def)

text \<open>C17. When the database keeps its promises and has a password that fits its array, the password is changed exactly
  when the message has the old one (strings in messages end at their first zero byte): the answer says so, with 0 for
  right and 1 for wrong, nothing else of the database changes, and from then on the new one is accepted and every other is
  not; with a wrong one all stays as it was.
\<close>
lemma password_changed:
  assumes "capi_database (eh_capi (gw_eh G)) view good valid" and "good (dev_conf (sys_dev s))" and "valid (id_securitymode S)"
    and "is_int (para_password S)"
    and "cell (view (dev_conf (sys_dev s))) (id_securitymode S, 0, para_password S) = Some old" and "length old < 639"
    and "msg_value msg1 = two_strings a b" and "length a < 256" and "length b < 256"
  shows "\<exists>t. processIDPToMFCBChangeSecurityPassword G S msg1 s = Some (TCMRET_SUCCESS,
      (if cstr a = old then [char_of ACT_RESULT_SUCCEED, char_of SECURITY_PASSWORD_RIGHT]
       else [char_of ACT_RESULT_FAILED, char_of SECURITY_PASSWORD_WRONG]), t) \<and>
    good (dev_conf (sys_dev t)) \<and>
    cell (view (dev_conf (sys_dev t))) =
      (cell (view (dev_conf (sys_dev s))))((id_securitymode S, 0, para_password S) \<mapsto> (if cstr a = old then cstr b else old)) \<and>
    (\<forall>msg2 y rest. msg_value msg2 = char_of (length y) # y @ rest \<and> length y < 256 \<longrightarrow>
      processIDPToMFCBCheckSecurityPassword (eh_capi (gw_eh G)) S msg2 t = Some (TCMRET_SUCCESS,
        [char_of (if cstr y = (if cstr a = old then cstr b else old) then ACT_RESULT_SUCCEED else ACT_RESULT_FAILED)]))"
proof -
  let ?X = "eh_capi (gw_eh G)" and ?c = "dev_conf (sys_dev s)" and ?k = "(id_securitymode S, 0, para_password S)"
  let ?new = "if cstr a = old then cstr b else old"
  have b: "length (cstr b) < 639" "NUL \<notin> set (cstr b)" using cstr_short[of b] assms(9) cstr_no_NUL by auto
  have rp: "read_password ?X S ?c = Some (Some old)"
    using read_password_view[OF assms(1-4)] assms(5,6) by simp
  have m1: "msg_string msg1 0 = Some (cstr a, 1 + length a)"
    using msg_string_at[of msg1 "[]" a "char_of (length b) # b" 0] assms(7,8) by (simp add: two_strings_def)
  have m2: "msg_string msg1 (Suc (length a)) = Some (cstr b, 1 + length a + 1 + length b)"
    using msg_string_at[of msg1 "char_of (length a) # a" b "[]" "Suc (length a)"] assms(7,9) by (simp add: two_strings_def)
  have "\<exists>t. processIDPToMFCBChangeSecurityPassword G S msg1 s = Some (TCMRET_SUCCESS,
      (if cstr a = old then [char_of ACT_RESULT_SUCCEED, char_of SECURITY_PASSWORD_RIGHT]
       else [char_of ACT_RESULT_FAILED, char_of SECURITY_PASSWORD_WRONG]), t) \<and>
    good (dev_conf (sys_dev t)) \<and> cell (view (dev_conf (sys_dev t))) = (cell (view ?c))(?k \<mapsto> ?new)"
  proof (cases "cstr a = old")
    case False
    from write_flash_good[OF assms(1,2)] obtain t where
      "write_flash G s = Some t" "good (dev_conf (sys_dev t))" "view (dev_conf (sys_dev t)) = view ?c" by blast
    moreover have "cell (view ?c) = (cell (view ?c))(?k \<mapsto> old)" using assms(5) by (simp add: fun_upd_idem del: cell.simps)
    ultimately show ?thesis using rp m1 m2 False by (auto simp: processIDPToMFCBChangeSecurityPassword_def)
  next
    case True
    have p: "cell (view ?c) ?k \<noteq> None" using assms(5) by simp
    from capi_database.written_then_flash[OF assms(1-4) p b(2,1)] obtain c1 x c2 where
      "capi_write_parameter ?X ?c (id_securitymode S) (para_password S) (Some (cstr b)) = Some (0, c1)"
      "capi_write_to_flash ?X c1 = Some (x, c2)" "good c2" "cell (view c2) = (cell (view ?c))(?k \<mapsto> cstr b)" by blast
    then show ?thesis using rp m1 m2 True by (auto simp: processIDPToMFCBChangeSecurityPassword_def write_flash_def)
  qed
  then obtain t where t: "processIDPToMFCBChangeSecurityPassword G S msg1 s = Some (TCMRET_SUCCESS,
      (if cstr a = old then [char_of ACT_RESULT_SUCCEED, char_of SECURITY_PASSWORD_RIGHT]
       else [char_of ACT_RESULT_FAILED, char_of SECURITY_PASSWORD_WRONG]), t)"
    "good (dev_conf (sys_dev t))" "cell (view (dev_conf (sys_dev t))) = (cell (view ?c))(?k \<mapsto> ?new)" by blast
  have "length ?new < 639" using b(1) assms(6) by simp
  then have rp2: "read_password ?X S (dev_conf (sys_dev t)) = Some (Some ?new)"
    using read_password_view[OF assms(1) t(2) assms(3,4)] t(3) by (simp del: cell.simps)
  have "processIDPToMFCBCheckSecurityPassword ?X S msg2 t =
        Some (TCMRET_SUCCESS, [char_of (if cstr y = ?new then ACT_RESULT_SUCCEED else ACT_RESULT_FAILED)])"
    if "msg_value msg2 = char_of (length y) # y @ rest" "length y < 256" for msg2 y rest
    using msg_string_at[of msg2 "[]" y rest 0] that rp2 by (simp add: processIDPToMFCBCheckSecurityPassword_def)
  then show ?thesis using t by blast
qed

definition demo_sec :: sec_env where
  "demo_sec = \<lparr>id_securitymode = 1, para_password = 2, para_dinum = 1, id_detactpoint = 1, tab_alarmstatus = 2, sec_stack = []\<rparr>"

lemma demo_capi: "eh_capi (gw_eh demo_gw) = conflib_capi True"
  by (simp add: demo_gw_def demo_env_def)

lemma password_changed_witness:
  "\<exists>t. processIDPToMFCBChangeSecurityPassword demo_gw demo_sec (demo_ask 5 (two_strings ''255.0.0.0'' ''1234'')) (demo_sys demo_conf) =
      Some (TCMRET_SUCCESS, [char_of ACT_RESULT_SUCCEED, char_of (0 :: nat)], t) \<and>
    processIDPToMFCBCheckSecurityPassword (conflib_capi True) demo_sec (demo_ask 5 (char_of (4 :: nat) # ''1234'')) t =
      Some (TCMRET_SUCCESS, [char_of ACT_RESULT_SUCCEED])"
proof -
  let ?m = "demo_ask 5 (two_strings ''255.0.0.0'' ''1234'')" and ?s = "demo_sys demo_conf"
  have v: "msg_value ?m = two_strings ''255.0.0.0'' ''1234''" by (simp add: demo_ask_def)
  have d: "dev_conf (sys_dev ?s) = demo_conf" by (simp add: demo_sys_def demo_dev_def)
  have db: "capi_database (eh_capi (gw_eh demo_gw)) conflib_view conflib_good app_range"
    unfolding demo_capi by (rule conflib.capi_database_axioms)
  have rd: "conflib_good (dev_conf (sys_dev ?s))" "conflib_view (dev_conf (sys_dev ?s)) = tbl demo_shm"
    using ready_view[OF demo_ready] d by simp_all
  have k: "app_range (id_securitymode demo_sec)" "is_int (para_password demo_sec)"
    "cell (conflib_view (dev_conf (sys_dev ?s))) (id_securitymode demo_sec, 0, para_password demo_sec) = Some ''255.0.0.0''"
    unfolding rd(2) cell_tbl by (simp_all add: demo_sec_def demo_range demo_int demo_cfg)
  have y: "msg_value (demo_ask 5 (char_of (4 :: nat) # ''1234'')) = char_of (length ''1234'') # ''1234'' @ []" by (simp add: demo_ask_def)
  have c: "cstr ''255.0.0.0'' = ''255.0.0.0''" "cstr ''1234'' = ''1234''" by (simp_all add: cstr_def)
  from password_changed[OF db rd(1) k _ v] obtain t where
    t: "processIDPToMFCBChangeSecurityPassword demo_gw demo_sec ?m ?s =
      Some (TCMRET_SUCCESS, [char_of ACT_RESULT_SUCCEED, char_of SECURITY_PASSWORD_RIGHT], t)"
    "\<forall>msg2 y rest. msg_value msg2 = char_of (length y) # y @ rest \<and> length y < 256 \<longrightarrow>
      processIDPToMFCBCheckSecurityPassword (eh_capi (gw_eh demo_gw)) demo_sec msg2 t =
        Some (TCMRET_SUCCESS, [char_of (if cstr y = ''1234'' then ACT_RESULT_SUCCEED else ACT_RESULT_FAILED)])"
    by (auto simp: c)
  from t(2)[rule_format, of "demo_ask 5 (char_of (4 :: nat) # ''1234'')" "''1234''" "[]"] y t(1) show ?thesis
    by (auto simp: c demo_capi SECURITY_PASSWORD_RIGHT_def)
qed

section \<open>Detect points\<close>

definition alert_points :: "sec_env \<Rightarrow> rows_view \<Rightarrow> int list \<Rightarrow> int list" where
  "alert_points S v is = filter (\<lambda>i. case cell v (id_detactpoint S, i, tab_alarmstatus S) of None \<Rightarrow> False | Some t \<Rightarrow> strcasecmp_eq t ''alert'') is"

definition points_db :: "'d capi \<Rightarrow> ('d \<Rightarrow> rows_view) \<Rightarrow> ('d \<Rightarrow> bool) \<Rightarrow> (int \<Rightarrow> bool) \<Rightarrow> sec_env \<Rightarrow> 'd \<Rightarrow> bool" where
  "points_db X view good valid S c \<longleftrightarrow> capi_database X view good valid \<and> good c \<and> valid (id_detactpoint S) \<and> is_int (tab_alarmstatus S) \<and>
     valid (id_securitymode S) \<and> is_int (para_dinum S) \<and> (\<forall>k p. cell (view c) k = Some p \<longrightarrow> length p < 639)"

lemma dp_alert_view:
  assumes "points_db X view good valid S c" and "1 \<le> i" and "i < 256" and "length b = 641"
  shows "\<exists>b1. dp_alert X S c i b = Some (alert_points S (view c) [i] \<noteq> [], b1) \<and> length b1 = 641"
proof -
  let ?v = "cell (view c) (id_detactpoint S, i, tab_alarmstatus S)"
  have d: "capi_database X view good valid" "good c" "valid (id_detactpoint S)" "is_int (tab_alarmstatus S)"
    "\<forall>p. ?v = Some p \<longrightarrow> length p < 639" using assms(1) unfolding points_db_def by blast+
  have b: "MAX_VALUE_LEN \<le> length b" using assms(4) by (simp add: MAX_VALUE_LEN_def)
  from capi_database.table_parameter_read[OF d(1-3) assms(2,3) d(4) b d(5)] obtain b1 where
    "capi_read_table_parameter X c (id_detactpoint S) i (tab_alarmstatus S) (Some b) = Some (if ?v = None then - 1 else 0, Some b1)"
    "length b1 = length b" "?v \<noteq> None \<Longrightarrow> str_of b1 = ?v" by blast
  then show ?thesis using assms(4) by (cases ?v) (auto simp: dp_alert_def alert_points_def)
qed

lemma any_alert_view:
  assumes "points_db X view good valid S c"
  shows "length b = 641 \<Longrightarrow> \<forall>i \<in> set is. 1 \<le> i \<and> i < 256 \<Longrightarrow>
    \<exists>b1. any_alert X S c is b = Some (alert_points S (view c) is \<noteq> [], b1) \<and> length b1 = 641"
proof (induction "is" arbitrary: b)
  case (Cons i "is")
  from dp_alert_view[OF assms, of i b] Cons.prems obtain b1 where
    b1: "dp_alert X S c i b = Some (alert_points S (view c) [i] \<noteq> [], b1)" "length b1 = 641" by auto
  from Cons.IH[OF b1(2)] Cons.prems(2) b1 show ?case by (auto simp: alert_points_def split: option.splits)
qed (simp add: alert_points_def)

lemma put_alerts_view:
  assumes "points_db X view good valid S c"
  shows "length b = 641 \<Longrightarrow> \<forall>i \<in> set is. 1 \<le> i \<and> i < 256 \<Longrightarrow> length pr + length is \<le> MAX_PACKET_LEN \<Longrightarrow>
    put_alerts X S c is b pr = Some (pr @ map (\<lambda>i. char_of (nat i)) (alert_points S (view c) is))"
proof (induction "is" arbitrary: b pr)
  case (Cons i "is")
  from dp_alert_view[OF assms, of i b] Cons.prems obtain b1 where
    b1: "dp_alert X S c i b = Some (alert_points S (view c) [i] \<noteq> [], b1)" "length b1 = 641" by auto
  have i: "i mod 256 = i" using Cons.prems(2) by simp
  show ?case
  proof (cases "alert_points S (view c) [i] = []")
    case True
    then have "alert_points S (view c) (i # is) = alert_points S (view c) is" by (auto simp: alert_points_def split: option.splits if_splits)
    then show ?thesis using Cons.IH[OF b1(2), of pr] Cons.prems b1 True by simp
  next
    case False
    then have "alert_points S (view c) (i # is) = i # alert_points S (view c) is" by (auto simp: alert_points_def split: option.splits if_splits)
    then show ?thesis using Cons.IH[OF b1(2), of "pr @ [char_of (nat i)]"] Cons.prems b1 False i
      by (simp add: put_value_def)
  qed
qed (simp add: alert_points_def)

text \<open>The reply about the detect points lists the numbers of those that are alert in the database, in order, behind the
  word for an alert, and has the word for normal alone when there is none.
\<close>
lemma detect_points_reply:
  assumes "points_db X view good valid S c" and "cell (view c) (id_securitymode S, 0, para_dinum S) = Some t" and "strtol 32 t 10 = (int n, e, False)" and "n < 256"
  shows "processIDPToMFCBQueryDetectPointStatus X S c = Some (TCMRET_SUCCESS,
    (case alert_points S (view c) (map (\<lambda>i. int i + 1) [0..<n]) of [] \<Rightarrow> [char_of PPI_DP_NORMAL]
     | a # as \<Rightarrow> char_of PPI_DP_ALERT # map (\<lambda>i. char_of (nat i)) (a # as)))"
proof -
  let ?is = "map (\<lambda>i. int i + 1) [0..<n]"
  have d: "capi_database X view good valid" "good c" "valid (id_securitymode S)" "is_int (para_dinum S)"
    "\<forall>p. cell (view c) (id_securitymode S, 0, para_dinum S) = Some p \<longrightarrow> length p < 639" using assms(1) unfolding points_db_def by blast+
  from capi_database.parameter_read[OF d(1-4) sec_buf_big d(5)] assms(2) obtain b0 where
    r: "capi_read_parameter X c (id_securitymode S) (para_dinum S) (Some (sec_buf S)) = Some (0, Some b0)" and l: "length b0 = 641" and
    s: "str_of b0 = Some t" by (auto simp del: cell.simps)
  have rg: "\<forall>i \<in> set ?is. 1 \<le> i \<and> i < 256" using assms(4) by auto
  from any_alert_view[OF assms(1) l rg] obtain b1 where
    b1: "any_alert X S c ?is b0 = Some (alert_points S (view c) ?is \<noteq> [], b1)" "length b1 = 641" by blast
  have p: "put_alerts X S c ?is b1 [char_of PPI_DP_ALERT] = Some (char_of PPI_DP_ALERT # map (\<lambda>i. char_of (nat i)) (alert_points S (view c) ?is))"
    using put_alerts_view[OF assms(1) b1(2) rg, of "[char_of PPI_DP_ALERT]"] assms(4) by (simp add: MAX_PACKET_LEN_def)
  show ?thesis
    using r s b1(1) p assms(3)
    by (simp add: processIDPToMFCBQueryDetectPointStatus_def Let_def split: list.split)
qed

lemma demo_no_rows: "1 < x \<Longrightarrow> tbl demo_shm (1, x) = None"
  by (auto simp: tbl_tree[OF demo_represents demo_numbered] tree_lists_def demo_tree_def app_lists_def row_number_def)

lemma detect_points_reply_witness:
  "\<exists>c. processIDPToMFCBQueryDetectPointStatus (conflib_capi True) demo_sec c = Some (TCMRET_SUCCESS, [char_of PPI_DP_ALERT, char_of (2 :: nat)])"
proof -
  obtain c where c: "conflib_good c" "conflib_view c = (tbl demo_shm)((1, 2) \<mapsto> [(''mac'', ''dp''), (''host'', ''Alert'')])"
    "\<forall>k s. cell (conflib_view c) k = Some s \<longrightarrow> length s < 639"
    using unit_rows[of "''dp''" "''Alert''"] by auto
  have db: "points_db (conflib_capi True) conflib_view conflib_good app_range demo_sec c"
    using c(1,3) conflib.capi_database_axioms by (simp add: points_db_def demo_sec_def demo_range demo_int)
  have n: "cell (conflib_view c) (id_securitymode demo_sec, 0, para_dinum demo_sec) = Some ''10.0.0.1''"
    by (simp add: demo_sec_def nth_value_def c(2) demo_tbl)
  obtain e where e: "strtol 32 ''10.0.0.1'' 10 = (int 10, e, False)"
  proof -
    have "fst (strtol 32 ''10.0.0.1'' 10) = 10" "\<not> snd (snd (strtol 32 ''10.0.0.1'' 10))" by code_simp+
    then show ?thesis using that[of "fst (snd (strtol 32 ''10.0.0.1'' 10))"] by (simp add: prod_eq_iff)
  qed
  have no: "conflib_view c (1, x) = None" if "2 < x" for x
    using demo_no_rows[of x] that by (simp add: c(2))
  have yes: "conflib_view c (1, 1) = Some [(''mac'', ''aa''), (''host'', ''printer'')]" "conflib_view c (1, 2) = Some [(''mac'', ''dp''), (''host'', ''Alert'')]"
    by (simp_all add: c(2) demo_tbl)
  have cmp: "strcasecmp_eq ''Alert'' ''alert''" "\<not> strcasecmp_eq ''printer'' ''alert''" by code_simp+
  have "alert_points demo_sec (conflib_view c) (map (\<lambda>i. int i + 1) [0..<10]) = [2]"
    using cmp by (simp add: alert_points_def demo_sec_def upt_rec no yes nth_value_def)
  with detect_points_reply[OF db n e] show ?thesis by (intro exI[of _ c]) simp
qed

end
