(* ===== verification/Spec2Isabelle.thy ===== *)
theory Spec2Isabelle
  imports Prelude Timestamp Timer_Queue Message_Props Process Interest Dlist_Ptr Strconv Logging Comptool_Props Sort_Props Bt Heap_Array Linked Zw_List Clients Act_Props Sched_Props
    Conf_Props Conf_Life Capi Eh_Props Eh_Queue_Props Eh_Threads Eh_Select_Props Eh_Handlers_Props
begin

text \<open>
  A model of the router management software in \<^verbatim>\<open>src/DB_MSG_ProcessManage\<close>: a database of
  configuration parameters in shared memory (\<^verbatim>\<open>conflib\<close>), a process manager and message router
  (\<^verbatim>\<open>sched\<close>), the message library its applications are linked with (\<^verbatim>\<open>libmsg\<close>) and the
  abstraction of the operating system below both (\<^verbatim>\<open>liboal\<close>); of the server of a home gateway that is built on
  them (\<^verbatim>\<open>src/InteligenceHomeSystem/ehcc\<close>); and of the data structures in \<^verbatim>\<open>src/DataStructure\<close>.

  \<^bold>\<open>How the parts interact.\<close> \<^verbatim>\<open>sched\<close> reads a table of applications, launches them as processes
  with a connected socket each, and routes their messages: requests, replies and events. An
  application calls \<^verbatim>\<open>libmsg\<close> to connect, to send and to wait for replies; an application that
  registered interest in an event gets a copy of it; one that asked for a delayed message gets it when a timer
  of \<^verbatim>\<open>liboal/timer.c\<close> expires. Applications keep their settings with \<^verbatim>\<open>conflib\<close>, which
  every process maps; one semaphore guards it, and it is saved to and loaded from a text file.

  \<^bold>\<open>The configuration database.\<close>
  \<^item> \<open>Entity\<close>: the table of \<^verbatim>\<open>conflib/eid.c\<close> and the walks over it.
  \<^item> \<open>Conf_Store\<close>, \<open>Conf_Layout\<close>, \<open>Conf_Tree\<close>, \<open>Conf_View\<close>: the segment of
    \<^verbatim>\<open>conflib/configapi.c\<close>, three arrays of nodes linked by byte offsets; its invariant (the offsets
    trace out a tree, the identifiers are those of the positions in it); how the tree changes with one row; and what a caller
    sees, a map from application, row and parameter number to strings.
  \<^item> \<open>Conf_Access\<close>, \<open>Conf_Rows\<close>, \<open>Conf_Delete\<close>, \<open>Conf_Add\<close>: the handlers. Every walk, guard, node
    allocation and early return of the code is there; each handler is shown to make one change of the map
    under the invariant, or none.
  \<^item> \<open>Conf_Db\<close>, \<open>Conf_Props\<close>, \<open>Conf_Demo\<close>: two interfaces (values under keys; rows that come and go), the
    library as an instance of both, and the properties that follow, with a concrete memory for the witnesses.
  \<^item> \<open>Conf_File\<close>, \<open>Conf_Text\<close>, \<open>Conf_Lines\<close>, \<open>Conf_Grow\<close>, \<open>Conf_Load\<close>, \<open>Conf_Persist\<close>: saving to and loading
    from the file, the language of documents, and that loading a saved configuration
    gives the same rows.
  \<^item> \<open>Conf_Init\<close>, \<open>Conf_Life\<close>: sizes, initialisation in its three situations, release.

  \<^bold>\<open>The operating system abstraction.\<close>
  \<^item> \<open>Timestamp\<close>, \<open>Timer_Queue\<close>: \<^verbatim>\<open>liboal/timestamp.c\<close> and \<^verbatim>\<open>timer.c\<close>, the queue of timers sorted by expiry and
    the interface of a handler that may set and cancel timers while it runs; what a round of expired timers calls.
  \<^item> \<open>Strconv\<close>, \<open>Logging\<close>: \<^verbatim>\<open>liboal/strconv.c\<close> and \<^verbatim>\<open>logging.c\<close>.
  \<^item> \<open>Kernel\<close>: the system calls as a record of functions of an abstract world, and \<^verbatim>\<open>memory.c\<close>.

  \<^bold>\<open>Messages.\<close> \<open>Message\<close> has both files of \<^verbatim>\<open>libmsg\<close>, with the layout of a header in bytes;
  \<open>Message_Props\<close> what they promise over a stream socket.

  \<^bold>\<open>The scheduler.\<close>
  \<^item> \<open>Process\<close>: \<^verbatim>\<open>sched/prctl.c\<close>, starting, signalling and collecting processes.
  \<^item> \<open>Interest\<close>: \<^verbatim>\<open>sched/interest.c\<close>, and its interface as a set of subscriptions.
  \<^item> \<open>Dlist_Ptr\<close>: the doubly linked lists of \<^verbatim>\<open>tcm_dlist.h\<close> on pointers; the other theories use the list
    functions they refine to.
  \<^item> \<open>Sched_State\<close>, \<open>Sched_Timer\<close>, \<open>Sched_Serv\<close>: \<^verbatim>\<open>dls.c\<close>, \<^verbatim>\<open>launcher.c\<close>, \<^verbatim>\<open>timer.c\<close>,
    \<^verbatim>\<open>tpciserv.c\<close> and \<^verbatim>\<open>main.c\<close>: the records of the applications on a heap, every handler, and
    one round of the main loop as a step relation.
  \<^item> \<open>Sched_Inv\<close>, \<open>Sched_Props\<close>: the invariant of every reachable state and the properties of routing, events,
    delayed messages and start-up.

  \<^bold>\<open>Actions on the router.\<close> After an application has been reconfigured, \<^verbatim>\<open>confact\<close> reads its
  parameters, builds commands with \<^verbatim>\<open>confral\<close> and asks the scheduler to start or stop it.
  \<^item> \<open>Confral\<close>: \<^verbatim>\<open>ral_iptables.c\<close>, \<^verbatim>\<open>ral_lan.c\<close>, \<^verbatim>\<open>ral_wan.c\<close>: the lines handed to the shell, formatted
    into arrays of fixed size.
  \<^item> \<open>Act_Base\<close>, \<open>Act_Rules\<close>, \<open>Act_Apps\<close>: requests to the scheduler and configuration files
    (\<^verbatim>\<open>act_util.c\<close>, \<^verbatim>\<open>act_info.c\<close>), the tables of the packet filter (\<^verbatim>\<open>act_firewall.c\<close>,
    \<^verbatim>\<open>act_portforward.c\<close>, \<^verbatim>\<open>act_dmz.c\<close>), and every other action up to the two entry points of
    \<^verbatim>\<open>configact.c\<close>. These refresh each other; \<open>Act_Props\<close> shows that a depth of two is enough.
  \<^item> \<open>Act_Props\<close>: which commands the LAN and the firewall run, which port forwarding rules are accepted, and
    what a failed request looks like to the caller.
  \<^item> \<open>Clients\<close>: the two sample applications \<^verbatim>\<open>lan/lan_main.c\<close> and \<^verbatim>\<open>dhcpd/dhcpd_main.c\<close>.

  \<^bold>\<open>Upgrades.\<close> \<open>Comptool\<close> is \<^verbatim>\<open>compare_tool/comptool_final.c\<close>, which carries the values of an old
  configuration file into a new one; \<open>Comptool_Props\<close> shows that it does for files without tables, and what
  happens to others. A file that is read into memory is followed by bytes that are a parameter, since the tool
  searches behind the end of it.

  \<^bold>\<open>The home gateway.\<close> Phones (indoor, outdoor, mobile) connect to \<^verbatim>\<open>ehcc\<close> over sockets. One thread waits for them
  with \<^verbatim>\<open>select\<close>, finds the device of a connection in the database, checks a message and puts it into a queue; other threads
  take messages out and answer them, or pass a request on to another phone and its answer back. The database is reached by functions
  \<^verbatim>\<open>capi_*\<close> that the repository does not have.
  \<^item> \<open>Capi\<close>: these functions as a parameter, the record \<open>capi\<close>, and what the gateway relies on, the locale \<open>capi_database\<close>: rows
    as a map, reads that return what is stored, writes that change one value. The functions of \<^verbatim>\<open>conflib\<close> with the
    same arguments keep these promises (\<open>conflib\<close>); the witnesses use them.
  \<^item> \<open>Eh_Frame\<close>, \<open>Eh_Props\<close>: messages as blocks and as bytes (\<^verbatim>\<open>ehMq.c\<close>), their byte order, reading and writing
    (\<^verbatim>\<open>ehSslSocket.c\<close>, and \<^verbatim>\<open>sendEhomeMsg\<close> of \<^verbatim>\<open>ehMpc.c\<close>); what is sent is what is read, and when reading does not end.
  \<^item> \<open>Eh_Queue\<close>, \<open>Eh_Queue_Props\<close>: the queues of \<^verbatim>\<open>ehMq.c\<close> and \<^verbatim>\<open>ehTransMsgMap.c\<close>, chains of blocks in memory; which deletions
    read a freed block.
  \<^item> \<open>Eh_Threads\<close>: the interface of a queue, both queues as instances of it, and the threads that handle messages as a
    step relation with its invariant.
  \<^item> \<open>Eh_Device\<close>, \<open>Eh_Device_View\<close>: \<^verbatim>\<open>ehIndexDevice.c\<close>, \<^verbatim>\<open>ehDevice.c\<close>, \<^verbatim>\<open>ehAccount.c\<close>: connections and devices, and what a lookup
    gives in terms of the rows of the database.
  \<^item> \<open>Eh_Gateway\<close>, \<open>Eh_Gateway_Props\<close>: the parts of \<^verbatim>\<open>ehMpc.c\<close> about the token, living connections, registration and doors; the
    token as an instance of the interface of a lock.
  \<^item> \<open>Eh_Select\<close>, \<open>Eh_Select_Props\<close>: one round of \<^verbatim>\<open>waitforRemoteMsgbySelect\<close>, with the checks of sockets for errors that
    \<^verbatim>\<open>SOCKET_ERROR_CHECK_SWITCH\<close> turns on; what it queues and what it watches, and how a connection gets a device.
  \<^item> \<open>Eh_Handlers\<close>, \<open>Eh_Handlers_Props\<close>: the list of devices, the password of the security modes, detect points, cards and
    formats of times in \<^verbatim>\<open>ehMpc.c\<close>, related to the database.

  \<^bold>\<open>Data structures.\<close> The libraries of \<^verbatim>\<open>src/DataStructure\<close> that belong to the repository itself, which the
  router does not use. Their comparison functions are arguments; \<open>Compare\<close> says when one is consistent.
  \<^item> \<open>Sort\<close>, \<open>Sort_Props\<close>: \<^verbatim>\<open>Algorithm/sort/sort.c\<close>, and that its routines sort.
  \<^item> \<open>Bst\<close>, \<open>Bst_Props\<close>, \<open>Bt\<close>: \<^verbatim>\<open>BinaryTree/bst/bst.c\<close> and \<^verbatim>\<open>BinaryTree/bs/bt.c\<close> on entries in memory; search
    trees, what the operations do to them, and which entries deleting cannot handle.
  \<^item> \<open>Heap_Array\<close>: \<^verbatim>\<open>BinaryTree/bh/bh.c\<close>, the order of a heap and its operations on the multiset of items.
  \<^item> \<open>Linked\<close>, \<open>Zw_List\<close>: the queue, stack and list of \<^verbatim>\<open>list\<close>, and \<^verbatim>\<open>SingleList/singleList.c\<close>.

  \<^bold>\<open>Runs without a defined result.\<close> A C function is a partial function of its state. \<open>None\<close> is a run
  that reads or writes outside an object, follows \<^verbatim>\<open>NULL\<close> or a freed block, or does not end. Error
  codes are values. That a call returns is therefore part of every property that says what it returns.

  \<^bold>\<open>Loops and bounds.\<close> Walks along a chain of offsets have as much fuel as the memory has nodes of the
  kind; under the invariant a chain visits each node at most once, so it is enough, and a walk that runs out
  is \<open>None\<close>. Other loops are structural or end by a measure, except waiting for a reply, reading the value of
  a message of the gateway and iterating over a linked list, which are partial functions. Integers have the width of the code where they can
  wrap: timestamps, message lengths, flags, ports; identifiers in the database are integers that the
  properties keep in the range of \<^verbatim>\<open>int\<close>. A \<^verbatim>\<open>long\<close> is 32 or 64 bits wide by a parameter.

  \<^bold>\<open>What is assumed.\<close> System calls (what \<^verbatim>\<open>getsockopt\<close> leaves behind among them), \<^verbatim>\<open>inet_aton\<close>, the functions \<^verbatim>\<open>capi_*\<close> of the
  gateway, those of other libraries that refresh applications, and the interleaving of other processes are arguments. Where
  a property needs documented behaviour of them (a stream delivers bytes in order, memory is available, a select
  that reports data, a database that keeps its promises) its hypothesis says so, and its witness has a concrete kernel and database.

  \<^bold>\<open>Not modelled.\<close> The child's side of a fork and signals; the functions under
  \<^verbatim>\<open>#if 0\<close>; \<^verbatim>\<open>SUPPORT_IPV6_1\<close>; \<^verbatim>\<open>sched/tpcilib.c\<close>, whose header \<^verbatim>\<open>tpcilib.h\<close> the repository does not
  have. Concurrent access to the segment by other processes between two calls that hold no semaphore. The
  functions of \<^verbatim>\<open>tcm_util.h\<close> and the identifiers of the applications that \<^verbatim>\<open>confact\<close> uses are not in the
  repository: they are parameters. Of the home gateway: its build with SSL, which a comment switches off; the handlers of cameras, outputs, cards, security modes and
  alarms; \<^verbatim>\<open>ehccMain.c\<close>, the timer thread and the Z-Wave driver, which start threads and talk to a serial device; the
  locks, since each step runs with its lock held. The rest of the repository: unrelated programs,
  third-party code (among it most of \<^verbatim>\<open>DataStructure\<close>), exercises, and a second copy of this program under \<^verbatim>\<open>SSSerial/SS20-Octopus\<close>.
\<close>

end
